(* ===== verification/Prelude_Dario.thy ===== *)
theory Prelude_Dario
  imports Complex_Main "HOL-Library.AList" "HOL-Library.List_Lexorder" "HOL-Library.Char_ord"
begin

text \<open>
  What every component shares: the names of the model's types, JavaScript's ordered \<open>Map\<close> as an
  association list, the numeric helpers of the source (\<open>Math.round\<close>, \<open>Math.max\<close> over a list),
  the scans the source writes as \<open>reduce\<close> loops, and the two interfaces the components are
  clients of: a keyed store (\<open>Map.get\<close>, \<open>set\<close>, \<open>delete\<close>) and a machine whose operations keep an
  invariant.
\<close>

section \<open>Types and collections of facts\<close>

text \<open>Epoch milliseconds and durations are integers; utilisation ratios and prices are rationals.\<close>

type_synonym ms = int
type_synonym ratio = rat

text \<open>JavaScript's \<open>Map\<close>: one entry per key, in insertion order, an update keeps its place.\<close>

type_synonym ('k, 'v) jsmap = "('k \<times> 'v) list"

abbreviation keys_of :: "('k, 'v) jsmap \<Rightarrow> 'k list" where
  "keys_of m \<equiv> map fst m"

abbreviation values_of :: "('k, 'v) jsmap \<Rightarrow> 'v list" where
  "values_of m \<equiv> map snd m"

named_theorems js_simps \<open>evaluation of the JavaScript helpers\<close>
named_theorems inv_intros \<open>an operation keeps its component's invariant\<close>
named_theorems frame_simps \<open>what an operation leaves unchanged\<close>

text \<open>\<open>x ?? []\<close>, \<open>x ?? 0\<close> and, more generally, \<open>x ?? d\<close>.\<close>

definition opt_list :: "'a list option \<Rightarrow> 'a list" where
  "opt_list x = (case x of None \<Rightarrow> [] | Some l \<Rightarrow> l)"

definition opt_or :: "'a option \<Rightarrow> 'a \<Rightarrow> 'a" where
  "opt_or x d = (case x of None \<Rightarrow> d | Some v \<Rightarrow> v)"

text \<open>\<open>x ?? y\<close> where \<open>y\<close> may be absent too.\<close>

definition opt_else :: "'a option \<Rightarrow> 'a option \<Rightarrow> 'a option" where
  "opt_else x y = (case x of None \<Rightarrow> y | Some v \<Rightarrow> Some v)"

lemma opt_list_simps [simp]: "opt_list None = []" "opt_list (Some l) = l"
  by (simp_all add: opt_list_def)

lemma opt_or_simps [simp]: "opt_or None d = d" "opt_or (Some v) d = v"
  by (simp_all add: opt_or_def)

lemma opt_else_simps [simp]: "opt_else None y = y" "opt_else (Some v) y = Some v"
  by (simp_all add: opt_else_def)

section \<open>Numbers\<close>

text \<open>\<open>Math.round\<close> rounds half up.\<close>

definition js_round :: "rat \<Rightarrow> int" where
  "js_round x = \<lfloor>x + 1 / 2\<rfloor>"

lemma js_round_of_int [simp]: "js_round (of_int n) = n"
  unfolding js_round_def by linarith

lemma js_round_mono: "x \<le> y \<Longrightarrow> js_round x \<le> js_round y"
  by (simp add: js_round_def floor_mono)

lemma js_round_nonneg: "0 \<le> x \<Longrightarrow> 0 \<le> js_round x"
  by (simp add: js_round_def)

text \<open>\<open>Math.max(x, ...xs)\<close> and \<open>Math.min(x, ...xs)\<close>.\<close>

definition max_of :: "'a::linorder \<Rightarrow> 'a list \<Rightarrow> 'a" where
  "max_of x xs = foldl max x xs"

definition min_of :: "'a::linorder \<Rightarrow> 'a list \<Rightarrow> 'a" where
  "min_of x xs = foldl min x xs"

lemma max_of_simps [simp]: "max_of x [] = x" "max_of x (y # ys) = max_of (max x y) ys"
  by (simp_all add: max_of_def)

lemma min_of_simps [simp]: "min_of x [] = x" "min_of x (y # ys) = min_of (min x y) ys"
  by (simp_all add: min_of_def)

lemma max_of_le_iff: "max_of x xs \<le> b \<longleftrightarrow> x \<le> b \<and> (\<forall>y \<in> set xs. y \<le> b)"
  by (induction xs arbitrary: x) auto

lemma max_of_less_iff: "max_of x xs < b \<longleftrightarrow> x < b \<and> (\<forall>y \<in> set xs. y < b)"
  by (induction xs arbitrary: x) auto

lemma max_of_upper: "y \<in> insert x (set xs) \<Longrightarrow> y \<le> max_of x xs"
  using max_of_le_iff [of x xs "max_of x xs"] by auto

lemma max_of_in: "max_of x xs \<in> insert x (set xs)"
proof (induction xs arbitrary: x)
  case Nil
  show ?case by simp
next
  case (Cons y ys)
  from Cons.IH [of "max x y"] show ?case by (auto simp: max_def)
qed

lemma min_of_ge_iff: "b \<le> min_of x xs \<longleftrightarrow> b \<le> x \<and> (\<forall>y \<in> set xs. b \<le> y)"
  by (induction xs arbitrary: x) auto

lemma min_of_greater_iff: "b < min_of x xs \<longleftrightarrow> b < x \<and> (\<forall>y \<in> set xs. b < y)"
  by (induction xs arbitrary: x) auto

lemma min_of_lower: "y \<in> insert x (set xs) \<Longrightarrow> min_of x xs \<le> y"
  using min_of_ge_iff [of "min_of x xs" x xs] by auto

lemma min_of_in: "min_of x xs \<in> insert x (set xs)"
proof (induction xs arbitrary: x)
  case Nil
  show ?case by simp
next
  case (Cons y ys)
  from Cons.IH [of "min x y"] show ?case by (auto simp: min_def)
qed

section \<open>Scans\<close>

text \<open>
  The source finds a best element in one pass in two ways: it keeps the incumbent unless a later
  element is strictly better, or it replaces the incumbent unless the incumbent is strictly better.
  Both are folds that choose between two elements.
\<close>

lemma foldl_choose_in:
  assumes "\<And>a b. f a b = a \<or> f a b = b"
  shows "foldl f x xs \<in> insert x (set xs)"
proof (induction xs arbitrary: x)
  case Nil
  show ?case by simp
next
  case (Cons y ys)
  show ?case using Cons.IH [of "f x y"] assms [of x y] by auto
qed

lemma foldl_choose_best:
  fixes score :: "'a \<Rightarrow> 'b::linorder"
  assumes "\<And>a b. f a b = a \<or> f a b = b"
    and "\<And>a b. score a \<le> score (f a b) \<and> score b \<le> score (f a b)"
  shows "\<forall>y \<in> insert x (set xs). score y \<le> score (foldl f x xs)"
proof (induction xs arbitrary: x)
  case Nil
  show ?case by simp
next
  case (Cons y ys)
  have "score (f x y) \<le> score (foldl f (f x y) ys)"
    using Cons.IH [of "f x y"] by simp
  moreover have "score x \<le> score (f x y)" "score y \<le> score (f x y)"
    using assms(2) by simp_all
  ultimately show ?case using Cons.IH [of "f x y"] by auto
qed

lemma map_filter_set: "set (List.map_filter f xs) = {y. \<exists>x \<in> set xs. f x = Some y}"
  by (auto simp: List.map_filter_def image_iff) force

lemma last_in_drop: "n < length xs \<Longrightarrow> last xs \<in> set (drop n xs)"
  by (metis drop_eq_Nil last_drop last_in_set not_le)

lemma find_SomeD: "List.find P xs = Some x \<Longrightarrow> x \<in> set xs \<and> P x"
  by (induction xs) (auto split: if_splits)

lemma find_NoneD: "List.find P xs = None \<Longrightarrow> x \<in> set xs \<Longrightarrow> \<not> P x"
  by (induction xs) (auto split: if_splits)

lemma find_Some_ex: "x \<in> set xs \<Longrightarrow> P x \<Longrightarrow> \<exists>y. List.find P xs = Some y"
  by (induction xs) auto

section \<open>A keyed store\<close>

text \<open>
  The interface of \<open>Map\<close> the components rely on: what a lookup returns after an update or a
  deletion, and that the keys stay distinct.
\<close>

locale keyed_store =
  fixes get :: "'m \<Rightarrow> 'k \<Rightarrow> 'v option"
    and put :: "'k \<Rightarrow> 'v \<Rightarrow> 'm \<Rightarrow> 'm"
    and del :: "'k \<Rightarrow> 'm \<Rightarrow> 'm"
    and keys :: "'m \<Rightarrow> 'k list"
  assumes get_put: "get (put k v m) = (get m)(k \<mapsto> v)"
    and get_del: "get (del k m) = (get m)(k := None)"
    and keys_put: "keys (put k v m) = (if k \<in> set (keys m) then keys m else keys m @ [k])"
    and keys_del: "keys (del k m) = filter (\<lambda>x. x \<noteq> k) (keys m)"
    and get_keys: "get m k = None \<longleftrightarrow> k \<notin> set (keys m)"
begin

definition wf :: "'m \<Rightarrow> bool" where
  "wf m \<longleftrightarrow> distinct (keys m)"

lemma wf_put: "wf m \<Longrightarrow> wf (put k v m)"
  by (auto simp: wf_def keys_put)

lemma wf_del: "wf m \<Longrightarrow> wf (del k m)"
  by (simp add: wf_def keys_del)

lemma size_put_le: "length (keys (put k v m)) \<le> Suc (length (keys m))"
  by (simp add: keys_put)

lemma size_put_old: "get m k \<noteq> None \<Longrightarrow> length (keys (put k v m)) = length (keys m)"
  using get_keys [of m k] by (simp add: keys_put)

lemma size_del_le: "length (keys (del k m)) \<le> length (keys m)"
  by (simp add: keys_del)

lemma size_del_less: "get m k \<noteq> None \<Longrightarrow> length (keys (del k m)) < length (keys m)"
  using length_filter_less [of k "keys m" "\<lambda>x. x \<noteq> k"] get_keys [of m k]
  by (simp add: keys_del)

lemma put_moves_last:
  "keys (put k v (del k m)) = filter (\<lambda>x. x \<noteq> k) (keys m) @ [k]"
  by (simp add: keys_put keys_del)

end

interpretation jm: keyed_store map_of AList.update AList.delete keys_of
proof unfold_locales
  fix m :: "('a, 'b) jsmap" and k :: 'a and v :: 'b
  show "map_of (AList.update k v m) = (map_of m)(k \<mapsto> v)"
    by (rule update_conv')
  show "map_of (AList.delete k m) = (map_of m)(k := None)"
    by (rule delete_conv')
  show "keys_of (AList.update k v m) = (if k \<in> set (keys_of m) then keys_of m else keys_of m @ [k])"
    by (rule update_keys)
  show "keys_of (AList.delete k m) = filter (\<lambda>x. x \<noteq> k) (keys_of m)"
    by (simp add: delete_keys removeAll_filter_not_eq eq_commute)
  show "map_of m k = None \<longleftrightarrow> k \<notin> set (keys_of m)"
    by (simp add: map_of_eq_None_iff)
qed

text \<open>A well-formed map, named for the component invariants.\<close>

definition map_wf :: "('k, 'v) jsmap \<Rightarrow> bool" where
  "map_wf m \<longleftrightarrow> distinct (keys_of m)"

lemma map_wf_jm: "map_wf m = jm.wf m"
  by (simp add: map_wf_def jm.wf_def)

lemma map_wf_Nil [simp]: "map_wf []"
  by (simp add: map_wf_def)

lemma map_wf_update [inv_intros]: "map_wf m \<Longrightarrow> map_wf (AList.update k v m)"
  by (simp add: map_wf_jm jm.wf_put)

lemma map_wf_delete [inv_intros]: "map_wf m \<Longrightarrow> map_wf (AList.delete k m)"
  by (simp add: map_wf_jm jm.wf_del)

lemma map_wf_filter [inv_intros]: "map_wf m \<Longrightarrow> map_wf (filter P m)"
  by (induction m) (auto simp: map_wf_def)

lemma set_update_le: "set (AList.update k v m) \<subseteq> insert (k, v) (set m)"
  by (induction m) auto

lemma in_values_update:
  assumes "x \<in> set (values_of (AList.update k v m))"
  shows "x = v \<or> x \<in> set (values_of m)"
  using assms set_update_le [of k v m] by auto

lemma set_delete_le: "set (AList.delete k m) \<subseteq> set m"
  by (induction m) auto

lemma map_wf_map_of: "map_wf m \<Longrightarrow> (k, v) \<in> set m \<longleftrightarrow> map_of m k = Some v"
  by (simp add: map_wf_def)

section \<open>Machines with an invariant\<close>

text \<open>
  A component is a state and operations on it; \<open>ok\<close> says which operations a caller may issue in a
  state. What every allowed operation keeps, every run keeps.
\<close>

locale inv_machine =
  fixes step :: "'e \<Rightarrow> 's \<Rightarrow> 's"
    and ok :: "'e \<Rightarrow> 's \<Rightarrow> bool"
    and inv :: "'s \<Rightarrow> bool"
  assumes step_inv: "inv s \<Longrightarrow> ok e s \<Longrightarrow> inv (step e s)"
begin

primrec allowed :: "'e list \<Rightarrow> 's \<Rightarrow> bool" where
  "allowed [] s = True"
| "allowed (e # es) s = (ok e s \<and> allowed es (step e s))"

lemma run_inv: "inv s \<Longrightarrow> allowed es s \<Longrightarrow> inv (fold step es s)"
  by (induction es arbitrary: s) (auto intro: step_inv)

lemma allowed_append: "allowed (es @ fs) s \<longleftrightarrow> allowed es s \<and> allowed fs (fold step es s)"
  by (induction es arbitrary: s) auto

lemma run_prefix_inv: "inv s \<Longrightarrow> allowed (es @ fs) s \<Longrightarrow> inv (fold step es s)"
  by (simp add: allowed_append run_inv)

end

text \<open>A machine any caller may drive in any order.\<close>

locale total_machine =
  fixes step :: "'e \<Rightarrow> 's \<Rightarrow> 's"
    and inv :: "'s \<Rightarrow> bool"
  assumes any_step_inv: "inv s \<Longrightarrow> inv (step e s)"

sublocale total_machine \<subseteq> inv_machine step "\<lambda>_ _. True" inv
  by unfold_locales (rule any_step_inv)

context total_machine
begin

lemma allowed_any: "allowed es s"
  by (induction es arbitrary: s) simp_all

lemma run_any: "inv s \<Longrightarrow> inv (fold step es s)"
  by (rule run_inv) (simp_all add: allowed_any)

end

end
