(* ===== verification/Js_Text.thy ===== *)
theory Js_Text
  imports Prelude_Dario
begin

text \<open>
  The string and number parsing of JavaScript's standard library that the source calls: \<open>trim\<close>,
  \<open>toLowerCase\<close>, \<open>startsWith\<close>, \<open>endsWith\<close>, \<open>includes\<close>, \<open>split\<close>, \<open>parseInt\<close>, \<open>parseFloat\<close>
  and \<open>Number\<close>. A string is a list of character codes below 256; case folding is the ASCII one,
  which is what header names, model ids, aliases and environment values use. Numbers are exact
  rationals with the three special values of a double; a decimal literal past the double range
  is \<open>Infinity\<close>, and digits past a double's precision are kept.
\<close>

section \<open>Strings\<close>

definition code_of :: "char \<Rightarrow> nat" where
  "code_of c = of_char c"

definition is_ws :: "char \<Rightarrow> bool" where
  "is_ws c \<longleftrightarrow> (let n = code_of c in (9 \<le> n \<and> n \<le> 13) \<or> n = 32 \<or> n = 160)"

definition is_digit :: "char \<Rightarrow> bool" where
  "is_digit c \<longleftrightarrow> 48 \<le> code_of c \<and> code_of c \<le> 57"

definition is_upper :: "char \<Rightarrow> bool" where
  "is_upper c \<longleftrightarrow> 65 \<le> code_of c \<and> code_of c \<le> 90"

definition is_lower :: "char \<Rightarrow> bool" where
  "is_lower c \<longleftrightarrow> 97 \<le> code_of c \<and> code_of c \<le> 122"

definition is_alnum :: "char \<Rightarrow> bool" where
  "is_alnum c \<longleftrightarrow> is_digit c \<or> is_upper c \<or> is_lower c"

definition is_hex_lower :: "char \<Rightarrow> bool" where
  "is_hex_lower c \<longleftrightarrow> is_digit c \<or> (97 \<le> code_of c \<and> code_of c \<le> 102)"

definition lower_char :: "char \<Rightarrow> char" where
  "lower_char c = (if is_upper c then char_of (code_of c + 32) else c)"

definition to_lower :: "string \<Rightarrow> string" where
  "to_lower s = map lower_char s"

definition trim_start :: "string \<Rightarrow> string" where
  "trim_start s = dropWhile is_ws s"

definition trim :: "string \<Rightarrow> string" where
  "trim s = rev (dropWhile is_ws (rev (dropWhile is_ws s)))"

definition starts_with :: "string \<Rightarrow> string \<Rightarrow> bool" where
  "starts_with s p \<longleftrightarrow> take (length p) s = p"

definition ends_with :: "string \<Rightarrow> string \<Rightarrow> bool" where
  "ends_with s p \<longleftrightarrow> length p \<le> length s \<and> drop (length s - length p) s = p"

fun has_sub :: "string \<Rightarrow> string \<Rightarrow> bool" where
  "has_sub [] p = (p = [])"
| "has_sub (c # s) p = (starts_with (c # s) p \<or> has_sub s p)"

text \<open>\<open>s.slice(0, -n)\<close> and \<open>s.slice(-n)\<close> for a positive \<open>n\<close>.\<close>

definition drop_last :: "nat \<Rightarrow> 'a list \<Rightarrow> 'a list" where
  "drop_last n s = take (length s - n) s"

definition take_last :: "nat \<Rightarrow> 'a list \<Rightarrow> 'a list" where
  "take_last n s = drop (length s - n) s"

text \<open>\<open>s.split(c)\<close> on a one-character separator: never empty.\<close>

fun split_on :: "char \<Rightarrow> string \<Rightarrow> string list" where
  "split_on c [] = [[]]"
| "split_on c (x # xs) =
     (if x = c then [] # split_on c xs
      else (case split_on c xs of [] \<Rightarrow> [[x]] | y # ys \<Rightarrow> (x # y) # ys))"

text \<open>\<open>indexOf\<close> a character, and the two parts around it.\<close>

fun cut_at :: "char \<Rightarrow> string \<Rightarrow> (string \<times> string) option" where
  "cut_at c [] = None"
| "cut_at c (x # xs) =
     (if x = c then Some ([], xs)
      else (case cut_at c xs of None \<Rightarrow> None | Some (a, b) \<Rightarrow> Some (x # a, b)))"

text \<open>The part between a fixed prefix and a fixed suffix, as an anchored regular expression takes it.\<close>

definition between :: "string \<Rightarrow> string \<Rightarrow> string \<Rightarrow> string option" where
  "between p q s =
     (if length p + length q \<le> length s \<and> starts_with s p \<and> ends_with s q
      then Some (drop (length p) (drop_last (length q) s)) else None)"

text \<open>An optional string the source tests for truth: the empty string is false.\<close>

definition truthy :: "string option \<Rightarrow> string option" where
  "truthy s = (case s of Some (c # cs) \<Rightarrow> Some (c # cs) | _ \<Rightarrow> None)"

lemma truthy_simps [simp]:
  "truthy None = None" "truthy (Some []) = None" "truthy (Some (c # cs)) = Some (c # cs)"
  by (simp_all add: truthy_def)

lemma truthy_None_iff: "truthy s = None \<longleftrightarrow> s = None \<or> s = Some []"
  by (auto simp: truthy_def split: option.splits list.splits)

lemma truthy_nonempty: "t \<noteq> [] \<Longrightarrow> truthy (Some t) = Some t"
  by (cases t) simp_all

lemma truthy_Some_iff: "truthy s = Some t \<longleftrightarrow> s = Some t \<and> t \<noteq> []"
  by (auto simp: truthy_def split: option.splits list.splits)

lemma to_lower_append: "to_lower (s @ t) = to_lower s @ to_lower t"
  by (simp add: to_lower_def)

lemma length_to_lower [simp]: "length (to_lower s) = length s"
  by (simp add: to_lower_def)

lemma code_lower_char: "code_of (lower_char c) = (if is_upper c then code_of c + 32 else code_of c)"
proof (cases "is_upper c")
  case True
  then have "code_of c + 32 < 256" by (simp add: is_upper_def)
  then show ?thesis using True by (simp add: lower_char_def code_of_def)
next
  case False
  then show ?thesis by (simp add: lower_char_def)
qed

lemma lower_char_idem [simp]: "lower_char (lower_char c) = lower_char c"
proof (cases "is_upper c")
  case True
  then have "\<not> is_upper (lower_char c)"
    using code_lower_char [of c] by (simp add: is_upper_def)
  then show ?thesis by (simp add: lower_char_def)
next
  case False
  then show ?thesis by (simp add: lower_char_def)
qed

lemma to_lower_idem [simp]: "to_lower (to_lower s) = to_lower s"
  by (simp add: to_lower_def)

lemma starts_with_append [simp]: "starts_with (p @ s) p"
  by (simp add: starts_with_def)

lemma starts_with_iff: "starts_with s p \<longleftrightarrow> (\<exists>t. s = p @ t)"
proof
  assume "starts_with s p"
  then have "p @ drop (length p) s = s" by (metis append_take_drop_id starts_with_def)
  then show "\<exists>t. s = p @ t" by metis
qed auto

lemma ends_with_iff: "ends_with s q \<longleftrightarrow> (\<exists>t. s = t @ q)"
proof
  assume e: "ends_with s q"
  have "s = take (length s - length q) s @ drop (length s - length q) s" by simp
  with e have "s = take (length s - length q) s @ q" by (simp add: ends_with_def)
  then show "\<exists>t. s = t @ q" by blast
qed (auto simp: ends_with_def)

lemma has_sub_iff: "has_sub s p \<longleftrightarrow> (\<exists>a b. s = a @ p @ b)"
proof (induction s)
  case Nil
  show ?case by auto
next
  case (Cons c s)
  show ?case
  proof
    assume "has_sub (c # s) p"
    then consider "starts_with (c # s) p" | "has_sub s p" by auto
    then show "\<exists>a b. c # s = a @ p @ b"
    proof cases
      case 1
      then obtain t where "c # s = [] @ p @ t" by (auto simp: starts_with_iff)
      then show ?thesis by blast
    next
      case 2
      then obtain a b where "s = a @ p @ b" using Cons.IH by blast
      then have "c # s = (c # a) @ p @ b" by simp
      then show ?thesis by blast
    qed
  next
    assume "\<exists>a b. c # s = a @ p @ b"
    then obtain a b where e: "c # s = a @ p @ b" by blast
    show "has_sub (c # s) p"
    proof (cases a)
      case Nil
      with e have "starts_with (c # s) p" by (simp add: starts_with_iff)
      then show ?thesis by simp
    next
      case (Cons x xs)
      with e Cons.IH show ?thesis by auto
    qed
  qed
qed

lemma split_on_nonempty [simp]: "split_on c s \<noteq> []"
  by (induction s) (auto split: list.splits)

lemma cut_at_Some: "cut_at c s = Some (a, b) \<Longrightarrow> s = a @ c # b \<and> c \<notin> set a"
  by (induction s arbitrary: a) (auto split: if_splits option.splits)

lemma cut_at_None: "cut_at c s = None \<longleftrightarrow> c \<notin> set s"
  by (induction s) (auto split: option.splits)

lemma cut_at_append: "c \<notin> set a \<Longrightarrow> cut_at c (a @ c # b) = Some (a, b)"
  by (induction a) auto

lemma between_Some: "between p q s = Some m \<longleftrightarrow> s = p @ m @ q"
proof
  assume "between p q s = Some m"
  then have l: "length p + length q \<le> length s" and p: "starts_with s p" and q: "ends_with s q"
    and m: "m = drop (length p) (drop_last (length q) s)"
    by (auto simp: between_def split: if_splits)
  from p obtain t where t: "s = p @ t" by (auto simp: starts_with_iff)
  from q obtain u where u: "s = u @ q" by (auto simp: ends_with_iff)
  have "drop_last (length q) s = u" using u by (simp add: drop_last_def)
  moreover have "take (length p) u = p" using t u l by (metis append_eq_append_conv_if
        add_le_imp_le_right length_append take_append diff_is_0_eq take0 append_Nil2 append_eq_conv_conj)
  ultimately show "s = p @ m @ q" using m u by (metis append.assoc append_take_drop_id)
next
  assume "s = p @ m @ q"
  then show "between p q s = Some m"
    by (auto simp: between_def ends_with_iff starts_with_iff drop_last_def)
qed

section \<open>Numbers\<close>

text \<open>A double: one of the special values or a finite number.\<close>

datatype jsnum = NaN | PosInf | NegInf | Fin rat

definition digit_val :: "char \<Rightarrow> nat" where
  "digit_val c = code_of c - 48"

definition nat_of_digits :: "string \<Rightarrow> nat" where
  "nat_of_digits ds = foldl (\<lambda>n c. 10 * n + digit_val c) 0 ds"

definition js_finite :: "rat \<Rightarrow> jsnum" where
  "js_finite r =
     (if 2 ^ 1024 - 2 ^ 970 \<le> r then PosInf else if r \<le> - (2 ^ 1024 - 2 ^ 970) then NegInf else Fin r)"

text \<open>
  The longest prefix that is an unsigned decimal literal: digits, a fraction, an exponent that is
  taken only when it has digits.
\<close>

definition split_exponent :: "string \<Rightarrow> int \<times> string" where
  "split_exponent s =
     (case s of
        e # r \<Rightarrow>
          (if lower_char e = CHR ''e'' then
             (let (neg, r') = (case r of c # cs \<Rightarrow> (if c = CHR ''-'' then (True, cs)
                                            else if c = CHR ''+'' then (False, cs) else (False, r))
                               | [] \<Rightarrow> (False, r));
                  ds = takeWhile is_digit r'
              in if ds = [] then (0, s)
                 else ((if neg then - int (nat_of_digits ds) else int (nat_of_digits ds)),
                       dropWhile is_digit r'))
           else (0, s))
      | [] \<Rightarrow> (0, s))"

definition ten_pow :: "int \<Rightarrow> rat" where
  "ten_pow e = (if 0 \<le> e then 10 ^ nat e else 1 / 10 ^ nat (- e))"

definition decimal_prefix :: "string \<Rightarrow> (rat \<times> string) option" where
  "decimal_prefix s =
     (let ip = takeWhile is_digit s; r = dropWhile is_digit s;
          (fp, r') = (case r of c # cs \<Rightarrow>
                        (if c = CHR ''.'' then (takeWhile is_digit cs, dropWhile is_digit cs) else ([], r))
                      | [] \<Rightarrow> ([], r));
          (e, rest) = split_exponent r'
      in if ip = [] \<and> fp = [] then None
         else Some (of_nat (nat_of_digits (ip @ fp)) * ten_pow (e - int (length fp)), rest))"

definition sign_split :: "string \<Rightarrow> bool \<times> string" where
  "sign_split s = (case s of c # cs \<Rightarrow> (if c = CHR ''-'' then (True, cs)
                                   else if c = CHR ''+'' then (False, cs) else (False, s))
               | [] \<Rightarrow> (False, s))"

definition parse_float :: "string \<Rightarrow> jsnum" where
  "parse_float s =
     (let (neg, r) = sign_split (trim_start s)
      in if starts_with r ''Infinity'' then (if neg then NegInf else PosInf)
         else (case decimal_prefix r of None \<Rightarrow> NaN
               | Some (v, _) \<Rightarrow> js_finite (if neg then - v else v)))"

text \<open>\<open>parseInt(s, 10)\<close>; \<open>None\<close> is \<open>NaN\<close>.\<close>

definition parse_int10 :: "string \<Rightarrow> int option" where
  "parse_int10 s =
     (let (neg, r) = sign_split (trim_start s); ds = takeWhile is_digit r
      in if ds = [] then None
         else Some (if neg then - int (nat_of_digits ds) else int (nat_of_digits ds)))"

definition hex_val :: "char \<Rightarrow> nat option" where
  "hex_val c =
     (if is_digit c then Some (digit_val c)
      else let n = code_of (lower_char c) in if 97 \<le> n \<and> n \<le> 102 then Some (n - 87) else None)"

fun radix_digits :: "(char \<Rightarrow> nat option) \<Rightarrow> nat \<Rightarrow> nat \<Rightarrow> string \<Rightarrow> nat \<times> nat \<times> string" where
  "radix_digits f b n [] = (0, n, [])"
| "radix_digits f b n (c # cs) =
     (case f c of
        Some d \<Rightarrow> (if d < b then (let (k, r) = radix_digits f b (b * n + d) cs in (Suc k, r)) else (0, n, c # cs))
      | None \<Rightarrow> (0, n, c # cs))"

text \<open>\<open>parseInt(s)\<close> with no radix: ten, or sixteen after \<open>0x\<close>.\<close>

definition parse_int :: "string \<Rightarrow> int option" where
  "parse_int s =
     (let (neg, r) = sign_split (trim_start s)
      in if length r \<ge> 2 \<and> to_lower (take 2 r) = ''0x'' then
           (let (k, n, _) = radix_digits hex_val 16 0 (drop 2 r)
            in if k = 0 then None else Some (if neg then - int n else int n))
         else parse_int10 s)"

text \<open>\<open>Number(s)\<close>: the whole trimmed string is a literal, the empty one is zero.\<close>

definition radix_literal :: "nat \<Rightarrow> string \<Rightarrow> jsnum" where
  "radix_literal b s =
     (let (k, n, rest) = radix_digits hex_val b 0 s
      in if k = 0 \<or> rest \<noteq> [] then NaN else js_finite (of_nat n))"

definition js_number :: "string \<Rightarrow> jsnum" where
  "js_number s0 =
     (let s = trim s0; p = to_lower (take 2 s); (neg, r) = sign_split s
      in if s = [] then Fin 0
         else if p = ''0x'' then radix_literal 16 (drop 2 s)
         else if p = ''0o'' then radix_literal 8 (drop 2 s)
         else if p = ''0b'' then radix_literal 2 (drop 2 s)
         else if r = ''Infinity'' then (if neg then NegInf else PosInf)
         else (case decimal_prefix r of
                 Some (v, rest) \<Rightarrow> (if rest = [] then js_finite (if neg then - v else v) else NaN)
               | None \<Rightarrow> NaN))"

text \<open>
  \<open>parseFloat(v) || 0\<close> as a rational. The two infinities are kept as the smallest magnitudes past
  every finite double, so every comparison the source makes with them comes out the same.
\<close>

definition float_or_zero :: "string \<Rightarrow> rat" where
  "float_or_zero v =
     (case parse_float v of NaN \<Rightarrow> 0 | PosInf \<Rightarrow> 2 ^ 1024 | NegInf \<Rightarrow> - (2 ^ 1024) | Fin r \<Rightarrow> r)"

text \<open>\<open>parseInt(v, 10) || 0\<close> and \<open>parseInt(v) || 0\<close>.\<close>

definition int10_or_zero :: "string \<Rightarrow> int" where
  "int10_or_zero v = (case parse_int10 v of None \<Rightarrow> 0 | Some n \<Rightarrow> n)"

definition int_or_zero :: "string \<Rightarrow> int" where
  "int_or_zero v = (case parse_int v of None \<Rightarrow> 0 | Some n \<Rightarrow> n)"

end
