(* ===== verification/Chunked.thy ===== *)
theory Chunked
  imports Prelude_Dario
begin

text \<open>
  A reader that buffers a stream and cuts records off its front: \<open>cut\<close> finds the first complete record
  and the text behind it, \<open>split\<close> cuts as long as it can. When a cut is not changed by text that comes
  later, what is read does not depend on the chunks in which the stream arrived.
\<close>

locale chunked_reader =
  fixes cut :: "'c list \<Rightarrow> ('r \<times> 'c list) option"
    and split :: "'c list \<Rightarrow> 'r list \<times> 'c list"
  assumes split_None: "cut s = None \<Longrightarrow> split s = ([], s)"
    and split_Some: "cut s = Some (f, r) \<Longrightarrow> split s = (f # fst (split r), snd (split r))"
    and shorter: "cut s = Some (f, r) \<Longrightarrow> length r < length s"
    and extend: "cut a = Some (f, r) \<Longrightarrow> cut (a @ b) = Some (f, r @ b)"
begin

lemma cut_induct [case_names None Some]:
  assumes "\<And>s. cut s = None \<Longrightarrow> P s" and "\<And>s f r. cut s = Some (f, r) \<Longrightarrow> P r \<Longrightarrow> P s"
  shows "P s"
proof (induction "length s" arbitrary: s rule: less_induct)
  case less
  show ?case
  proof (cases "cut s")
    case None
    then show ?thesis by (rule assms(1))
  next
    case (Some p)
    then obtain f r where c: "cut s = Some (f, r)" by (cases p) auto
    show ?thesis by (rule assms(2) [OF c less [OF shorter [OF c]]])
  qed
qed

lemma split_rest: "cut (snd (split s)) = None"
  by (induction s rule: cut_induct) (simp_all add: split_None split_Some)

lemma split_extend:
  "split (a @ b) = (fst (split a) @ fst (split (snd (split a) @ b)), snd (split (snd (split a) @ b)))"
  by (induction a rule: cut_induct) (simp_all add: split_None split_Some split_Some [OF extend])

text \<open>\<open>g\<close> is what becomes of the records of one chunk.\<close>

lemma chunks_from:
  assumes "cut buf = None" and "g [] = []" and "\<And>xs ys. g (xs @ ys) = g xs @ g ys"
  shows "foldl (\<lambda>(fs, b) c. (fs @ g (fst (split (b @ c))), snd (split (b @ c)))) (fs, buf) cs =
    (fs @ g (fst (split (buf @ concat cs))), snd (split (buf @ concat cs)))"
  using assms(1)
proof (induction cs arbitrary: fs buf)
  case Nil
  then show ?case using assms(2) by (simp add: split_None)
next
  case (Cons c cs)
  from Cons.IH [OF split_rest] show ?case
    using split_extend [of "buf @ c" "concat cs"] assms(3) by simp
qed

lemma chunks_whole:
  assumes "cut [] = None" and "g [] = []" and "\<And>xs ys. g (xs @ ys) = g xs @ g ys"
  shows "foldl (\<lambda>(fs, b) c. (fs @ g (fst (split (b @ c))), snd (split (b @ c)))) ([], []) cs =
    (g (fst (split (concat cs))), snd (split (concat cs)))"
  using chunks_from [OF assms, of "[]" cs] by simp

end

end
