(* ===== verification/Sse_Frames.thy ===== *)
theory Sse_Frames
  imports Js_Text Chunked
begin

text \<open>
  Server-sent events (\<open>midstream.ts\<close>): the splitter that cuts a stream into frames and the parsing of
  one frame. A text is the list of its UTF-16 code units. \<open>JSON.parse\<close> is an argument; the decoding of
  bytes into text is done before a chunk reaches the model.
\<close>

section \<open>Texts\<close>

type_synonym utext = "int list"

definition lit :: "string \<Rightarrow> utext" where
  "lit s = map of_char s"

lemma lit_inj [simp]: "lit s = lit t \<longleftrightarrow> s = t"
proof -
  have "inj (of_char :: char \<Rightarrow> int)" by (rule injI) simp
  then show ?thesis by (auto simp: lit_def dest: map_injective)
qed

text \<open>The white space of \<open>/\s/\<close> and \<open>trim\<close>.\<close>

definition js_space :: "int \<Rightarrow> bool" where
  "js_space c \<longleftrightarrow>
     9 \<le> c \<and> c \<le> 13 \<or> c = 32 \<or> c = 160 \<or> c = 5760 \<or> 8192 \<le> c \<and> c \<le> 8202
     \<or> c \<in> {8232, 8233, 8239, 8287, 12288, 65279}"

definition text_trim :: "utext \<Rightarrow> utext" where
  "text_trim s = rev (dropWhile js_space (rev (dropWhile js_space s)))"

definition has_prefix :: "'a list \<Rightarrow> 'a list \<Rightarrow> bool" where
  "has_prefix s p \<longleftrightarrow> take (length p) s = p"

definition has_suffix :: "'a list \<Rightarrow> 'a list \<Rightarrow> bool" where
  "has_suffix s p \<longleftrightarrow> length p \<le> length s \<and> drop (length s - length p) s = p"

fun split_list :: "'a \<Rightarrow> 'a list \<Rightarrow> 'a list list" where
  "split_list c [] = [[]]"
| "split_list c (x # xs) =
     (if x = c then [] # split_list c xs
      else (case split_list c xs of [] \<Rightarrow> [[x]] | l # ls \<Rightarrow> (x # l) # ls))"

text \<open>A number written in decimal.\<close>

fun decimal :: "nat \<Rightarrow> utext" where
  "decimal n = (if n < 10 then [48 + int n] else decimal (n div 10) @ [48 + int (n mod 10)])"

declare decimal.simps [simp del]

text \<open>A JSON value.\<close>

datatype jvalue =
    J_null
  | J_bool bool
  | J_num rat
  | J_str utext
  | J_arr "jvalue list"
  | J_obj "(utext \<times> jvalue) list"

type_synonym jobject = "(utext \<times> jvalue) list"

definition jprop :: "jvalue option \<Rightarrow> string \<Rightarrow> jvalue option" where
  "jprop v k = (case v of Some (J_obj o') \<Rightarrow> map_of o' (lit k) | _ \<Rightarrow> None)"

definition str_of :: "jvalue option \<Rightarrow> utext option" where
  "str_of v = (case v of Some (J_str s) \<Rightarrow> Some s | _ \<Rightarrow> None)"

definition js_truthy :: "jvalue option \<Rightarrow> bool" where
  "js_truthy v =
     (case v of None \<Rightarrow> False | Some J_null \<Rightarrow> False | Some (J_bool b) \<Rightarrow> b | Some (J_num n) \<Rightarrow> n \<noteq> 0
      | Some (J_str s) \<Rightarrow> s \<noteq> [] | Some (J_arr _) \<Rightarrow> True | Some (J_obj _) \<Rightarrow> True)"

text \<open>What an object or a list holds is smaller.\<close>

lemma in_list_size: "x \<in> set xs \<Longrightarrow> size x < size (J_arr xs)"
  by (induction xs) auto

lemma in_object_size: "map_of o' k = Some v \<Longrightarrow> size v < size (J_obj o')"
  by (induction o') (auto split: if_splits)

lemma jprop_list_size: "jprop (Some t) k = Some (J_arr ts) \<Longrightarrow> u \<in> set ts \<Longrightarrow> size u < size t"
  by (cases t) (auto simp: jprop_def dest!: in_object_size in_list_size)

lemma jprop_size: "jprop (Some t) k = Some v \<Longrightarrow> size v < size t"
  by (cases t) (auto simp: jprop_def dest!: in_object_size)

section \<open>Splitting\<close>

text \<open>The first \<open>indexOf('\n\n')\<close>: the frame up to and with the blank line, and the rest.\<close>

fun cut_frame :: "utext \<Rightarrow> (utext \<times> utext) option" where
  "cut_frame (x # y # s) =
     (if x = 10 \<and> y = 10 then Some ([x, y], s)
      else map_option (\<lambda>(f, r). (x # f, r)) (cut_frame (y # s)))"
| "cut_frame _ = None"

lemma cut_frame_append: "cut_frame s = Some (f, r) \<Longrightarrow> s = f @ r \<and> f \<noteq> []"
  by (induction s arbitrary: f rule: cut_frame.induct) (auto split: if_splits)

lemma cut_frame_shorter [termination_simp]: "cut_frame s = Some (f, r) \<Longrightarrow> length r < length s"
  using cut_frame_append by fastforce

fun split_frames :: "utext \<Rightarrow> utext list \<times> utext" where
  "split_frames buf =
     (case cut_frame buf of
        None \<Rightarrow> ([], buf)
      | Some (raw, rest) \<Rightarrow> (let (fs, left) = split_frames rest in (raw # fs, left)))"

declare split_frames.simps [simp del]

lemma split_frames_None: "cut_frame s = None \<Longrightarrow> split_frames s = ([], s)"
  by (simp add: split_frames.simps)

lemma split_frames_Some:
  "cut_frame s = Some (f, r) \<Longrightarrow> split_frames s = (f # fst (split_frames r), snd (split_frames r))"
  by (simp add: split_frames.simps [of s] Let_def split_def)

section \<open>Parsing a frame\<close>

record sse_frame =
  f_raw :: utext
  f_event :: utext
  f_data :: "jobject option"
  f_dataText :: "utext option"
  f_comment :: bool

record frame_fields =
  ff_event :: utext
  ff_dataText :: "utext option"
  ff_comment :: bool

definition frame_line :: "frame_fields \<Rightarrow> utext \<Rightarrow> frame_fields" where
  "frame_line a line =
     (if line = [] then a
      else if has_prefix line (lit '':'') then a
      else
        let a = a\<lparr>ff_comment := False\<rparr>
        in if has_prefix line (lit ''event:'') then a\<lparr>ff_event := text_trim (drop 6 line)\<rparr>
           else if has_prefix line (lit ''data:'') then
             a\<lparr>ff_dataText := Some ((case ff_dataText a of None \<Rightarrow> [] | Some t \<Rightarrow> t @ [10]) @ text_trim (drop 5 line))\<rparr>
           else a)"

definition DONE_TEXT :: utext where
  "DONE_TEXT = lit ''[DONE]''"

definition parseFrame :: "(utext \<Rightarrow> jvalue option) \<Rightarrow> utext \<Rightarrow> sse_frame" where
  "parseFrame json_parse raw =
     (let a = foldl frame_line \<lparr>ff_event = [], ff_dataText = None, ff_comment = True\<rparr> (split_list 10 raw);
          data = (case ff_dataText a of
                    None \<Rightarrow> None
                  | Some t \<Rightarrow> (if t = DONE_TEXT then None
                              else case json_parse t of Some (J_obj o') \<Rightarrow> Some o' | _ \<Rightarrow> None));
          event = (if ff_event a = [] then opt_or (str_of (jprop (map_option J_obj data) ''type'')) [] else ff_event a)
      in \<lparr>f_raw = raw, f_event = event, f_data = data, f_dataText = ff_dataText a, f_comment = ff_comment a\<rparr>)"

text \<open>The text of \<open>formatFrame\<close>, \<open>JSON.stringify\<close> being an argument.\<close>

definition formatFrame :: "(jvalue \<Rightarrow> utext) \<Rightarrow> utext \<Rightarrow> jvalue \<Rightarrow> utext" where
  "formatFrame json_print event data =
     lit ''event: '' @ event @ [10] @ lit ''data: '' @ json_print data @ [10, 10]"

text \<open>\<open>feed\<close> on the buffered rest, and \<open>flush\<close>.\<close>

definition splitter_feed :: "(utext \<Rightarrow> jvalue option) \<Rightarrow> utext \<Rightarrow> utext \<Rightarrow> sse_frame list \<times> utext" where
  "splitter_feed json_parse buf chunk =
     (let (raws, left) = split_frames (buf @ chunk) in (map (parseFrame json_parse) raws, left))"

definition splitter_flush :: "utext \<Rightarrow> utext \<times> utext" where
  "splitter_flush buf = (buf, [])"

lemma parseFrame_raw [simp]: "f_raw (parseFrame json_parse raw) = raw"
  by (simp add: parseFrame_def Let_def)

section \<open>The splitter loses nothing and does not see chunk boundaries\<close>

lemma split_frames_append: "concat (fst (split_frames s)) @ snd (split_frames s) = s"
proof (induction s rule: split_frames.induct)
  case (1 s)
  show ?case
  proof (cases "cut_frame s")
    case None
    then show ?thesis by (simp add: split_frames_None)
  next
    case (Some p)
    then obtain f r where p: "cut_frame s = Some (f, r)" by (cases p) auto
    with 1 [of "(f, r)" f r] have "concat (fst (split_frames r)) @ snd (split_frames r) = r" by simp
    moreover have "s = f @ r" using cut_frame_append [OF p] by simp
    ultimately show ?thesis unfolding split_frames_Some [OF p] by simp
  qed
qed

lemma cut_frame_extend: "cut_frame a = Some (f, r) \<Longrightarrow> cut_frame (a @ b) = Some (f, r @ b)"
  by (induction a arbitrary: f rule: cut_frame.induct) (auto split: if_splits)

interpretation frame_reader: chunked_reader cut_frame split_frames
  by unfold_locales (auto intro: split_frames_None split_frames_Some cut_frame_shorter cut_frame_extend)

lemma splitter_feed_split:
  "splitter_feed jp buf (c @ d) =
     (fst (splitter_feed jp buf c) @ fst (splitter_feed jp (snd (splitter_feed jp buf c)) d),
      snd (splitter_feed jp (snd (splitter_feed jp buf c)) d))"
  using frame_reader.split_extend [of "buf @ c" d] by (simp add: splitter_feed_def Let_def split_def)

text \<open>Feeding a list of chunks: the frames of all of them in order, and what stays buffered.\<close>

definition feed_all :: "(utext \<Rightarrow> jvalue option) \<Rightarrow> utext list \<Rightarrow> utext \<Rightarrow> sse_frame list \<times> utext" where
  "feed_all json_parse chunks buf =
     foldl (\<lambda>(fs, b) c. let (gs, b') = splitter_feed json_parse b c in (fs @ gs, b')) ([], buf) chunks"

lemma feed_all_whole:
  "feed_all json_parse chunks [] =
     (map (parseFrame json_parse) (fst (split_frames (concat chunks))), snd (split_frames (concat chunks)))"
proof -
  have "feed_all json_parse chunks [] =
      foldl (\<lambda>(fs, b) c. (fs @ map (parseFrame json_parse) (fst (split_frames (b @ c))), snd (split_frames (b @ c)))) ([], []) chunks"
    by (simp add: feed_all_def splitter_feed_def Let_def split_def)
  then show ?thesis by (simp add: frame_reader.chunks_whole)
qed

lemma map_raw_parse [simp]: "map f_raw (map (parseFrame json_parse) raws) = raws"
  by (induction raws) simp_all

text \<open>
  The frames do not depend on how the stream arrived. Whatever the chunks a stream is cut into, the
  splitter yields the same frames in the same order as for the whole stream at once; the raw text of
  the frames and the buffered rest are the stream, unit for unit; and no complete frame is held back.
\<close>

theorem splitter_chunk_independent:
  "feed_all json_parse chunks [] = splitter_feed json_parse [] (concat chunks)
   \<and> concat (map f_raw (fst (feed_all json_parse chunks []))) @ fst (splitter_flush (snd (feed_all json_parse chunks [])))
       = concat chunks
   \<and> cut_frame (snd (feed_all json_parse chunks [])) = None"
  using split_frames_append [of "concat chunks"] frame_reader.split_rest [of "concat chunks"]
  by (simp add: feed_all_whole splitter_feed_def splitter_flush_def Let_def split_def del: map_map)

end
