(* ===== verification/Cch.thy ===== *)
theory Cch
  imports Sse_Frames "HOL-Library.Word"
begin

unbundle bit_operations_syntax

text \<open>
  The request-integrity hash (\<open>cch.ts\<close>): xxHash64 on arbitrary-precision integers masked to 64 bits, the
  projection of the body that is hashed, and the stamping of the token. \<open>JSON.parse\<close> and
  \<open>JSON.stringify\<close> are arguments; the reference hash is the one on machine words.
\<close>

section \<open>xxHash64 on masked integers\<close>

definition MASK :: int where "MASK = 0xfffff"
definition U64 :: int where "U64 = push_bit 64 1 - 1"
definition P1 :: int where "P1 = 0x9e3779b185ebca87"
definition P2 :: int where "P2 = 0xc2b2ae3d27d4eb4f"
definition P3 :: int where "P3 = 0x165667b19e3779f9"
definition P4 :: int where "P4 = 0x85ebca77c2b2ae63"
definition P5 :: int where "P5 = 0x27d4eb2f165667c5"

definition rotl :: "int \<Rightarrow> nat \<Rightarrow> int" where
  "rotl x r = (push_bit r x OR drop_bit (64 - r) x) AND U64"

definition xx_round :: "int \<Rightarrow> int \<Rightarrow> int" where
  "xx_round acc inp =
     (let acc = (acc + inp * P2) AND U64;
          acc = rotl acc 31
      in (acc * P1) AND U64)"

definition mergeRound :: "int \<Rightarrow> int \<Rightarrow> int" where
  "mergeRound acc val =
     (let r = xx_round 0 val;
          acc = (acc XOR r) AND U64
      in (acc * P1 + P4) AND U64)"

text \<open>Little-endian reads of a \<open>DataView\<close>; the loops stay inside the data.\<close>

definition getBigUint64 :: "int list \<Rightarrow> nat \<Rightarrow> int" where
  "getBigUint64 data i = horner_sum id 256 (take 8 (drop i data))"

definition getUint32 :: "int list \<Rightarrow> nat \<Rightarrow> int" where
  "getUint32 data i = horner_sum id 256 (take 4 (drop i data))"

type_synonym lanes = "int \<times> int \<times> int \<times> int"

function stripe_loop :: "int list \<Rightarrow> nat \<Rightarrow> nat \<Rightarrow> lanes \<Rightarrow> lanes \<times> nat" where
  "stripe_loop data limit i (v1, v2, v3, v4) =
     (if i \<le> limit then
        stripe_loop data limit (i + 32)
          (xx_round v1 (getBigUint64 data i), xx_round v2 (getBigUint64 data (i + 8)),
           xx_round v3 (getBigUint64 data (i + 16)), xx_round v4 (getBigUint64 data (i + 24)))
      else ((v1, v2, v3, v4), i))"
  by pat_completeness auto
termination
  by (relation "measure (\<lambda>(_, limit, i, _). Suc limit - i)") auto

function eight_loop :: "int list \<Rightarrow> nat \<Rightarrow> int \<Rightarrow> int \<times> nat" where
  "eight_loop data i h =
     (if i + 8 \<le> length data then
        let k1 = xx_round 0 (getBigUint64 data i);
            h = (h XOR k1) AND U64
        in eight_loop data (i + 8) ((rotl h 27 * P1 + P4) AND U64)
      else (h, i))"
  by pat_completeness auto
termination
  by (relation "measure (\<lambda>(data, i, _). length data - i)") auto

function byte_loop :: "int list \<Rightarrow> nat \<Rightarrow> int \<Rightarrow> int" where
  "byte_loop data i h =
     (if i < length data then
        let h = (h XOR ((data ! i * P5) AND U64)) AND U64
        in byte_loop data (i + 1) ((rotl h 11 * P1) AND U64)
      else h)"
  by pat_completeness auto
termination
  by (relation "measure (\<lambda>(data, i, _). length data - i)") auto

declare stripe_loop.simps [simp del] eight_loop.simps [simp del] byte_loop.simps [simp del]

definition avalanche :: "int \<Rightarrow> int" where
  "avalanche h =
     (let h = (h XOR drop_bit 33 h) AND U64;
          h = (h * P2) AND U64;
          h = (h XOR drop_bit 29 h) AND U64;
          h = (h * P3) AND U64
      in (h XOR drop_bit 32 h) AND U64)"

definition four_step :: "int list \<Rightarrow> nat \<Rightarrow> int \<Rightarrow> int \<times> nat" where
  "four_step data i h =
     (if i + 4 \<le> length data then
        let h = (h XOR ((getUint32 data i * P1) AND U64)) AND U64
        in ((rotl h 23 * P2 + P3) AND U64, i + 4)
      else (h, i))"

definition xx_start :: "int list \<Rightarrow> int \<Rightarrow> int \<times> nat" where
  "xx_start data seed =
     (if length data \<ge> 32 then
        let ((v1, v2, v3, v4), i) = stripe_loop data (length data - 32) 0
              ((seed + P1 + P2) AND U64, (seed + P2) AND U64, seed AND U64, (seed - P1) AND U64);
            h = (rotl v1 1 + rotl v2 7 + rotl v3 12 + rotl v4 18) AND U64
        in (mergeRound (mergeRound (mergeRound (mergeRound h v1) v2) v3) v4, i)
      else ((seed + P5) AND U64, 0))"

definition xxh64 :: "int list \<Rightarrow> int \<Rightarrow> int" where
  "xxh64 data seed =
     (let (h, i) = xx_start data seed;
          h = (h + int (length data)) AND U64;
          (h, i) = eight_loop data i h;
          (h, i) = four_step data i h
      in avalanche (byte_loop data i h))"

section \<open>The token in the body\<close>

datatype cch_error = Bad_json | Not_object

definition CCH_SEEDS :: "(string, int) jsmap" where
  "CCH_SEEDS = [(''2.1.177'', 0x4d659218e32a3268)]"

definition hasCchSeed :: "string \<Rightarrow> bool" where
  "hasCchSeed version \<longleftrightarrow> map_of CCH_SEEDS version \<noteq> None"

text \<open>\<open>CCH_RE\<close>: where its five digits start when it matches at the front of a text.\<close>

definition entry_unit :: "int \<Rightarrow> bool" where
  "entry_unit c \<longleftrightarrow> 97 \<le> c \<and> c \<le> 122 \<or> 48 \<le> c \<and> c \<le> 57 \<or> c = 45"

definition hex_unit :: "int \<Rightarrow> bool" where
  "hex_unit c \<longleftrightarrow> 48 \<le> c \<and> c \<le> 57 \<or> 97 \<le> c \<and> c \<le> 102 \<or> 65 \<le> c \<and> c \<le> 70"

definition TAG_OPEN :: utext where "TAG_OPEN = lit ''cc_entrypoint=''"
definition TAG_CCH :: utext where "TAG_CCH = lit ''; cch=''"

definition cch_here :: "utext \<Rightarrow> nat option" where
  "cch_here s =
     (let r = drop (length TAG_OPEN) s;
          n = length (takeWhile entry_unit r);
          d = drop (length TAG_CCH) (drop n r)
      in if has_prefix s TAG_OPEN \<and> 1 \<le> n \<and> n \<le> 32 \<and> has_prefix (drop n r) TAG_CCH
            \<and> 6 \<le> length d \<and> list_all hex_unit (take 5 d) \<and> d ! 5 = 59
         then Some (length TAG_OPEN + n + length TAG_CCH) else None)"

fun find_cch :: "utext \<Rightarrow> nat option" where
  "find_cch [] = None"
| "find_cch (c # s) = (case cch_here (c # s) of Some k \<Rightarrow> Some k | None \<Rightarrow> map_option Suc (find_cch s))"

definition replace_cch :: "utext \<Rightarrow> utext \<Rightarrow> utext" where
  "replace_cch t s = (case find_cch s of None \<Rightarrow> s | Some k \<Rightarrow> take k s @ t @ drop (k + 5) s)"

section \<open>The material and the token\<close>

text \<open>\<open>TextEncoder\<close>: UTF-8 of UTF-16 code units, a lone surrogate becoming U+FFFD.\<close>

definition utf8_of :: "int \<Rightarrow> int list" where
  "utf8_of p =
     (if p < 128 then [p]
      else if p < 2048 then [192 + p div 64, 128 + p mod 64]
      else if p < 65536 then [224 + p div 4096, 128 + p div 64 mod 64, 128 + p mod 64]
      else [240 + p div 262144, 128 + p div 4096 mod 64, 128 + p div 64 mod 64, 128 + p mod 64])"

fun utf8 :: "utext \<Rightarrow> int list" where
  "utf8 [] = []"
| "utf8 (c # s) =
     (if 55296 \<le> c \<and> c \<le> 56319 then
        (case s of
           d # s' \<Rightarrow> (if 56320 \<le> d \<and> d \<le> 57343 then utf8_of (65536 + (c - 55296) * 1024 + (d - 56320)) @ utf8 s'
                      else utf8_of 65533 @ utf8 s)
         | [] \<Rightarrow> utf8_of 65533)
      else if 56320 \<le> c \<and> c \<le> 57343 then utf8_of 65533 @ utf8 s
      else utf8_of c @ utf8 s)"

definition cch_project :: "jobject \<Rightarrow> jobject" where
  "cch_project b =
     AList.delete (lit ''max_tokens'') (AList.delete (lit ''fallback_credit_token'')
       (AList.delete (lit ''fallbacks'') (AList.update (lit ''model'') (J_str []) b)))"

definition cchMaterial :: "(utext \<Rightarrow> jvalue option) \<Rightarrow> (jvalue \<Rightarrow> utext) \<Rightarrow> utext \<Rightarrow> cch_error + int list" where
  "cchMaterial json_parse json_print bodyText =
     (case json_parse (replace_cch (lit ''00000'') bodyText) of
        None \<Rightarrow> Inl Bad_json
      | Some (J_obj b) \<Rightarrow> Inr (utf8 (json_print (J_obj (cch_project b))))
      | Some (J_arr vs) \<Rightarrow> Inr (utf8 (json_print (J_arr vs)))
      | Some _ \<Rightarrow> Inl Not_object)"

definition hex_digit :: "int \<Rightarrow> int" where
  "hex_digit d = (if d < 10 then 48 + d else 87 + d)"

text \<open>\<open>toString(16).padStart(5, '0')\<close> of a number below \<open>2 ^ 20\<close>.\<close>

definition hex5 :: "int \<Rightarrow> utext" where
  "hex5 h = map (\<lambda>k. hex_digit (drop_bit k h mod 16)) [16, 12, 8, 4, 0]"

definition cchWithSeed :: "(utext \<Rightarrow> jvalue option) \<Rightarrow> (jvalue \<Rightarrow> utext) \<Rightarrow> utext \<Rightarrow> int \<Rightarrow> cch_error + utext option" where
  "cchWithSeed json_parse json_print bodyText seed =
     (if find_cch bodyText = None then Inr None
      else case cchMaterial json_parse json_print bodyText of
        Inl e \<Rightarrow> Inl e
      | Inr m \<Rightarrow> Inr (Some (hex5 (xxh64 m seed AND MASK))))"

definition cchForBody :: "(utext \<Rightarrow> jvalue option) \<Rightarrow> (jvalue \<Rightarrow> utext) \<Rightarrow> utext \<Rightarrow> string \<Rightarrow> cch_error + utext option" where
  "cchForBody json_parse json_print bodyText version =
     (case map_of CCH_SEEDS version of
        None \<Rightarrow> Inr None
      | Some seed \<Rightarrow> cchWithSeed json_parse json_print bodyText seed)"

definition stampCch :: "(utext \<Rightarrow> jvalue option) \<Rightarrow> (jvalue \<Rightarrow> utext) \<Rightarrow> utext \<Rightarrow> string \<Rightarrow> cch_error + utext" where
  "stampCch json_parse json_print bodyText version =
     (case cchForBody json_parse json_print bodyText version of
        Inl e \<Rightarrow> Inl e
      | Inr None \<Rightarrow> Inr bodyText
      | Inr (Some t) \<Rightarrow> Inr (replace_cch t bodyText))"

section \<open>The reference: xxHash64 on 64-bit words, consuming a list of bytes\<close>

type_synonym w64 = "64 word"

definition le_word :: "int list \<Rightarrow> w64" where
  "le_word bs = word_of_int (horner_sum id 256 bs)"

definition round_w :: "w64 \<Rightarrow> w64 \<Rightarrow> w64" where
  "round_w acc inp = word_rotl 31 (acc + inp * word_of_int P2) * word_of_int P1"

definition merge_w :: "w64 \<Rightarrow> w64 \<Rightarrow> w64" where
  "merge_w acc v = (acc XOR round_w 0 v) * word_of_int P1 + word_of_int P4"

fun stripes_w :: "w64 \<times> w64 \<times> w64 \<times> w64 \<Rightarrow> int list \<Rightarrow> (w64 \<times> w64 \<times> w64 \<times> w64) \<times> int list" where
  "stripes_w (a, b, c, d) bs =
     (if length bs < 32 then ((a, b, c, d), bs)
      else stripes_w
        (round_w a (le_word (take 8 bs)), round_w b (le_word (take 8 (drop 8 bs))),
         round_w c (le_word (take 8 (drop 16 bs))), round_w d (le_word (take 8 (drop 24 bs)))) (drop 32 bs))"

fun eights_w :: "w64 \<Rightarrow> int list \<Rightarrow> w64 \<times> int list" where
  "eights_w h bs =
     (if length bs < 8 then (h, bs)
      else eights_w (word_rotl 27 (h XOR round_w 0 (le_word (take 8 bs))) * word_of_int P1 + word_of_int P4) (drop 8 bs))"

declare stripes_w.simps [simp del] eights_w.simps [simp del]

definition fours_w :: "w64 \<Rightarrow> int list \<Rightarrow> w64 \<times> int list" where
  "fours_w h bs =
     (if length bs < 4 then (h, bs)
      else (word_rotl 23 (h XOR le_word (take 4 bs) * word_of_int P1) * word_of_int P2 + word_of_int P3, drop 4 bs))"

fun bytes_w :: "w64 \<Rightarrow> int list \<Rightarrow> w64" where
  "bytes_w h [] = h"
| "bytes_w h (b # bs) = bytes_w (word_rotl 11 (h XOR word_of_int b * word_of_int P5) * word_of_int P1) bs"

definition avalanche_w :: "w64 \<Rightarrow> w64" where
  "avalanche_w h =
     (let h = (h XOR drop_bit 33 h) * word_of_int P2;
          h = (h XOR drop_bit 29 h) * word_of_int P3
      in h XOR drop_bit 32 h)"

definition xxh64_w :: "int list \<Rightarrow> w64 \<Rightarrow> w64" where
  "xxh64_w bs seed =
     (let (h, rest) =
            (if length bs < 32 then (seed + word_of_int P5, bs)
             else let ((a, b, c, d), rest) = stripes_w (seed + word_of_int P1 + word_of_int P2, seed + word_of_int P2, seed, seed - word_of_int P1) bs
                  in (merge_w (merge_w (merge_w (merge_w (word_rotl 1 a + word_rotl 7 b + word_rotl 12 c + word_rotl 18 d) a) b) c) d, rest));
          (h, rest) = eights_w (h + of_nat (length bs)) rest;
          (h, rest) = fours_w h rest
      in avalanche_w (bytes_w h rest))"

section \<open>The masked integers are the machine words\<close>

lemma and_U64: "x AND U64 = uint (word_of_int x :: w64)"
proof -
  have "U64 = mask 64" by (simp add: U64_def mask_eq_exp_minus_1)
  then have "x AND U64 = take_bit 64 x" by (simp only: take_bit_eq_mask)
  then show ?thesis by (simp add: unsigned_of_int)
qed

lemma rotl_word:
  assumes "0 < r" "r < 64"
  shows "rotl (uint (a :: w64)) r = uint (word_rotl r a)"
proof -
  have "rotl (uint a) r = uint (word_of_int (push_bit r (uint a) OR drop_bit (64 - r) (uint a)) :: w64)"
    by (simp add: rotl_def and_U64)
  also have "(word_of_int (push_bit r (uint a) OR drop_bit (64 - r) (uint a)) :: w64) = push_bit r a OR drop_bit (64 - r) a"
    by (rule bit_word_eqI) (auto simp: bit_simps)
  also have "push_bit r a OR drop_bit (64 - r) a = word_rotl r a"
  proof (rule bit_word_eqI)
    fix n assume n: "n < LENGTH(64)"
    have lhs: "bit (push_bit r a OR drop_bit (64 - r) a) n = (r \<le> n \<and> bit a (n - r) \<or> bit a (64 - r + n))"
      using n by (simp add: bit_or_iff bit_push_bit_iff bit_drop_bit_eq)
    have rhs: "bit (word_rotl r a) n = bit a ((n + 64 - r) mod 64)"
      using n assms by (simp add: bit_word_rotl_iff)
    show "bit (push_bit r a OR drop_bit (64 - r) a) n = bit (word_rotl r a) n"
    proof (cases "n < r")
      case True
      then have "(n + 64 - r) mod 64 = 64 - r + n" using assms n by simp
      then show ?thesis using True unfolding lhs rhs by auto
    next
      case False
      then have "n + 64 - r = n - r + 64" "n - r < 64" using n by auto
      then have "(n + 64 - r) mod 64 = n - r" by (simp only: mod_add_self2 mod_less)
      moreover have "\<not> bit a (64 - r + n)" using False assms bit_imp_le_length [of a "64 - r + n"] by auto
      ultimately show ?thesis using False unfolding lhs rhs by auto
    qed
  qed
  finally show ?thesis .
qed

lemma round_word: "xx_round (uint a) x = uint (round_w a (word_of_int x))"
  by (simp add: xx_round_def round_w_def Let_def and_U64 rotl_word)

lemma round_word_0: "xx_round 0 x = uint (round_w 0 (word_of_int x))"
  using round_word [of 0 x] by simp

lemma merge_word: "mergeRound (uint a) (uint v) = uint (merge_w a v)"
  by (simp add: mergeRound_def merge_w_def Let_def and_U64 round_word_0 of_int_xor_eq)

lemma read_word: "word_of_int (getBigUint64 data i) = le_word (take 8 (drop i data))"
  "word_of_int (getUint32 data i) = le_word (take 4 (drop i data))"
  by (simp_all add: getBigUint64_def getUint32_def le_word_def)

lemma stripe_word:
  assumes "32 \<le> length data" and "i \<le> length data"
  shows "\<exists>a' b' c' d' j. stripe_loop data (length data - 32) i (uint a, uint b, uint c, uint d) = ((uint a', uint b', uint c', uint d'), j)
    \<and> stripes_w (a, b, c, d) (drop i data) = ((a', b', c', d'), drop j data) \<and> j \<le> length data"
  using assms(2)
proof (induction "length data - i" arbitrary: i a b c d rule: less_induct)
  case less
  show ?case
  proof (cases "i \<le> length data - 32")
    case True
    then have go: "\<not> length (drop i data) < 32" "i + 32 \<le> length data" using assms(1) by auto
    have "length data - (i + 32) < length data - i" using go(2) by simp
    from less.hyps [OF this go(2)] True go(1) show ?thesis
      by (simp add: stripe_loop.simps [of data "length data - 32" i] stripes_w.simps [of a b c d "drop i data"]
          round_word read_word add.commute)
  next
    case False
    then have "length (drop i data) < 32" by auto
    then show ?thesis using False less.prems
      by (auto simp: stripe_loop.simps [of data "length data - 32" i] stripes_w.simps [of a b c d "drop i data"])
  qed
qed

lemma eight_word:
  assumes "i \<le> length data"
  shows "\<exists>h' j. eight_loop data i (uint h) = (uint h', j) \<and> eights_w h (drop i data) = (h', drop j data) \<and> j \<le> length data"
  using assms
proof (induction "length data - i" arbitrary: i h rule: less_induct)
  case less
  show ?case
  proof (cases "i + 8 \<le> length data")
    case True
    then have go: "\<not> length (drop i data) < 8" by auto
    have "length data - (i + 8) < length data - i" using True by simp
    from less.hyps [OF this True] True go show ?thesis
      by (simp add: eight_loop.simps [of data i] eights_w.simps [of h "drop i data"] Let_def round_word_0 read_word
          rotl_word and_U64 of_int_xor_eq add.commute)
  next
    case False
    then have "length (drop i data) < 8" by auto
    then show ?thesis using False less.prems
      by (auto simp: eight_loop.simps [of data i] eights_w.simps [of h "drop i data"])
  qed
qed

lemma four_word:
  assumes "i \<le> length data"
  shows "\<exists>h' j. four_step data i (uint h) = (uint h', j) \<and> fours_w h (drop i data) = (h', drop j data) \<and> j \<le> length data"
  using assms by (auto simp: four_step_def fours_w_def Let_def and_U64 rotl_word read_word of_int_xor_eq add.commute)

lemma byte_word:
  assumes "i \<le> length data"
  shows "byte_loop data i (uint h) = uint (bytes_w h (drop i data))"
  using assms
proof (induction "length data - i" arbitrary: i h rule: less_induct)
  case less
  show ?case
  proof (cases "i < length data")
    case True
    then have d: "drop i data = data ! i # drop (Suc i) data" by (simp add: Cons_nth_drop_Suc)
    have "length data - Suc i < length data - i" "Suc i \<le> length data" using True by simp_all
    from less.hyps [OF this] True show ?thesis
      by (simp add: byte_loop.simps [of data i] d Let_def and_U64 rotl_word of_int_xor_eq)
  next
    case False
    then show ?thesis by (simp add: byte_loop.simps [of data i])
  qed
qed

lemma drop_bit_uint [simp]: "word_of_int (drop_bit n (uint (h :: w64))) = drop_bit n h"
  by (rule bit_word_eqI) (auto simp: bit_simps dest: bit_imp_le_length)

lemma avalanche_word: "avalanche (uint h) = uint (avalanche_w h)"
  by (simp add: avalanche_def avalanche_w_def Let_def and_U64 of_int_xor_eq)

text \<open>
  C32. The arbitrary-precision arithmetic is xxHash64. For every sequence of bytes and every seed the masked
  integer computation, reading the data by index, gives the xxHash64 on 64-bit machine words of the
  bytes consumed from the front; so every intermediate value stays below \<open>2 ^ 64\<close> and the result too.
\<close>

theorem xxh64_is_word_hash: "xxh64 data seed = uint (xxh64_w data (word_of_int seed))"
proof -
  let ?s = "word_of_int seed :: w64"
  have start: "\<exists>h i. xx_start data seed = (uint h, i) \<and> i \<le> length data
      \<and> (if length data < 32 then (?s + word_of_int P5, data)
         else let ((a, b, c, d), rest) = stripes_w (?s + word_of_int P1 + word_of_int P2, ?s + word_of_int P2, ?s, ?s - word_of_int P1) data
              in (merge_w (merge_w (merge_w (merge_w (word_rotl 1 a + word_rotl 7 b + word_rotl 12 c + word_rotl 18 d) a) b) c) d, rest))
        = (h, drop i data)"
  proof (cases "length data < 32")
    case True
    then show ?thesis by (simp add: xx_start_def and_U64)
  next
    case False
    then have long: "32 \<le> length data" by simp
    from stripe_word [OF long, of 0 "?s + word_of_int P1 + word_of_int P2" "?s + word_of_int P2" ?s "?s - word_of_int P1"]
    obtain a b c d j where l: "stripe_loop data (length data - 32) 0 (uint (?s + word_of_int P1 + word_of_int P2), uint (?s + word_of_int P2), uint ?s, uint (?s - word_of_int P1))
        = ((uint a, uint b, uint c, uint d), j)"
      "stripes_w (?s + word_of_int P1 + word_of_int P2, ?s + word_of_int P2, ?s, ?s - word_of_int P1) data = ((a, b, c, d), drop j data)"
      "j \<le> length data" by auto
    have init: "(seed + P1 + P2) AND U64 = uint (?s + word_of_int P1 + word_of_int P2)" "(seed + P2) AND U64 = uint (?s + word_of_int P2)"
      "seed AND U64 = uint ?s" "(seed - P1) AND U64 = uint (?s - word_of_int P1)"
      by (simp_all only: and_U64 of_int_add of_int_diff)
    show ?thesis
      using long l(3) unfolding xx_start_def init l(1) l(2) Let_def split_def fst_conv snd_conv
      by (simp add: rotl_word and_U64 merge_word)
  qed
  then obtain h i where h: "xx_start data seed = (uint h, i)" "i \<le> length data"
    "(if length data < 32 then (?s + word_of_int P5, data)
         else let ((a, b, c, d), rest) = stripes_w (?s + word_of_int P1 + word_of_int P2, ?s + word_of_int P2, ?s, ?s - word_of_int P1) data
              in (merge_w (merge_w (merge_w (merge_w (word_rotl 1 a + word_rotl 7 b + word_rotl 12 c + word_rotl 18 d) a) b) c) d, rest))
        = (h, drop i data)" by blast
  have len: "(uint h + int (length data)) AND U64 = uint (h + of_nat (length data))"
    by (simp add: and_U64)
  from eight_word [OF h(2), of "h + of_nat (length data)"] obtain h8 i8 where
    e: "eight_loop data i (uint (h + of_nat (length data))) = (uint h8, i8)"
      "eights_w (h + of_nat (length data)) (drop i data) = (h8, drop i8 data)" "i8 \<le> length data" by blast
  from four_word [OF e(3), of h8] obtain h4 i4 where
    f: "four_step data i8 (uint h8) = (uint h4, i4)" "fours_w h8 (drop i8 data) = (h4, drop i4 data)" "i4 \<le> length data" by blast
  show ?thesis
    unfolding xxh64_def xxh64_w_def h(1)
    unfolding h(3)
    unfolding Let_def split_def fst_conv snd_conv len e(1,2) f(1,2)
    using byte_word [OF f(3), of h4] by (simp add: avalanche_word)
qed

section \<open>Where the token is\<close>

lemma tag_lengths [simp]: "length TAG_OPEN = 14" "length TAG_CCH = 6"
  by (simp_all add: TAG_OPEN_def TAG_CCH_def lit_def)

definition cch_match :: "utext \<Rightarrow> utext \<Rightarrow> utext \<Rightarrow> utext \<Rightarrow> bool" where
  "cch_match s e h r \<longleftrightarrow>
     s = TAG_OPEN @ e @ TAG_CCH @ h @ 59 # r \<and> 1 \<le> length e \<and> length e \<le> 32 \<and> list_all entry_unit e
     \<and> length h = 5 \<and> list_all hex_unit h"

lemma tag_cch_stops: "takeWhile entry_unit (TAG_CCH @ s) = []"
  by (simp add: TAG_CCH_def lit_def entry_unit_def)

lemma cch_here_match:
  assumes "cch_match s e h r"
  shows "cch_here s = Some (20 + length e)"
proof -
  have tw: "takeWhile entry_unit (e @ TAG_CCH @ h @ 59 # r) = e"
    using assms by (simp add: cch_match_def list_all_iff takeWhile_append2 tag_cch_stops)
  show ?thesis
    using assms unfolding cch_match_def cch_here_def
    by (auto simp: tw Let_def has_prefix_def nth_append)
qed

lemma cch_here_SomeD:
  assumes "cch_here s = Some n"
  shows "\<exists>e h r. cch_match s e h r \<and> n = 20 + length e"
proof -
  define r1 where "r1 = drop 14 s"
  define e where "e = takeWhile entry_unit r1"
  define d where "d = drop 6 (drop (length e) r1)"
  have c: "has_prefix s TAG_OPEN" "1 \<le> length e" "length e \<le> 32" "has_prefix (drop (length e) r1) TAG_CCH"
    "6 \<le> length d" "list_all hex_unit (take 5 d)" "d ! 5 = 59" "n = 20 + length e"
    using assms by (auto simp: cch_here_def Let_def r1_def e_def d_def split: if_splits)
  have "s = TAG_OPEN @ r1" using c(1) by (metis append_take_drop_id has_prefix_def r1_def tag_lengths(1))
  also have "r1 = e @ drop (length e) r1" by (metis e_def takeWhile_dropWhile_id dropWhile_eq_drop)
  also have "drop (length e) r1 = TAG_CCH @ d" using c(4) by (metis append_take_drop_id has_prefix_def d_def tag_lengths(2))
  also have "d = take 5 d @ 59 # drop 6 d" using id_take_nth_drop [of 5 d] c(5,7) by simp
  finally show ?thesis
    using c unfolding cch_match_def
    by (intro exI [of _ e] exI [of _ "take 5 d"] exI [of _ "drop 6 d"]) (auto simp: e_def list_all_iff dest: set_takeWhileD)
qed

lemma find_cch_Some:
  "find_cch s = Some k \<longleftrightarrow>
     (\<exists>m n. m < length s \<and> cch_here (drop m s) = Some n \<and> k = m + n \<and> (\<forall>j < m. cch_here (drop j s) = None))"
proof (induction s arbitrary: k)
  case Nil
  show ?case by simp
next
  case (Cons c s)
  show ?case
  proof (cases "cch_here (c # s)")
    case (Some n)
    show ?thesis
    proof
      assume "find_cch (c # s) = Some k"
      with Some have "k = n" by simp
      with Some show "\<exists>m n. m < length (c # s) \<and> cch_here (drop m (c # s)) = Some n \<and> k = m + n
          \<and> (\<forall>j < m. cch_here (drop j (c # s)) = None)"
        by (intro exI [of _ 0] exI [of _ n]) simp
    next
      assume "\<exists>m n. m < length (c # s) \<and> cch_here (drop m (c # s)) = Some n \<and> k = m + n
          \<and> (\<forall>j < m. cch_here (drop j (c # s)) = None)"
      then obtain m n' where m: "cch_here (drop m (c # s)) = Some n'" "k = m + n'"
        "\<forall>j < m. cch_here (drop j (c # s)) = None" by blast
      then have "m = 0" using Some by (cases m) auto
      then show "find_cch (c # s) = Some k" using Some m by simp
    qed
  next
    case None
    show ?thesis
    proof
      assume "find_cch (c # s) = Some k"
      with None obtain k' where "find_cch s = Some k'" "k = Suc k'" by auto
      with Cons.IH [of k'] obtain m n where "m < length s" "cch_here (drop m s) = Some n" "k' = m + n"
        "\<forall>j < m. cch_here (drop j s) = None" by auto
      then show "\<exists>m n. m < length (c # s) \<and> cch_here (drop m (c # s)) = Some n \<and> k = m + n
          \<and> (\<forall>j < m. cch_here (drop j (c # s)) = None)"
        using None \<open>k = Suc k'\<close> by (intro exI [of _ "Suc m"] exI [of _ n]) (auto simp: less_Suc_eq_0_disj)
    next
      assume "\<exists>m n. m < length (c # s) \<and> cch_here (drop m (c # s)) = Some n \<and> k = m + n
          \<and> (\<forall>j < m. cch_here (drop j (c # s)) = None)"
      then obtain m n where m: "m < length (c # s)" "cch_here (drop m (c # s)) = Some n" "k = m + n"
        "\<forall>j < m. cch_here (drop j (c # s)) = None" by blast
      with None obtain m' where m': "m = Suc m'" by (cases m) auto
      have "\<forall>j < m'. cch_here (drop j s) = None" using m(4) m' by (metis Suc_less_eq drop_Suc_Cons)
      with m m' have "find_cch s = Some (m' + n)" by (subst Cons.IH) auto
      then show "find_cch (c # s) = Some k" using None m m' by simp
    qed
  qed
qed

lemma underscore_place:
  assumes "cch_match (M @ r) e h r" and "i < length M" and "M ! i = 95"
  shows "i = 2"
proof -
  have M: "M = TAG_OPEN @ e @ TAG_CCH @ h @ [59]" using assms(1) by (simp add: cch_match_def)
  have no: "95 \<notin> set (e @ TAG_CCH @ h @ [59])"
    using assms(1) by (auto simp: cch_match_def list_all_iff entry_unit_def hex_unit_def TAG_CCH_def lit_def)
  have "i < 14"
  proof (rule ccontr)
    assume "\<not> i < 14"
    then have "M ! i = (e @ TAG_CCH @ h @ [59]) ! (i - 14)" "i - 14 < length (e @ TAG_CCH @ h @ [59])"
      using assms(2) unfolding M by (auto simp: nth_append)
    then show False using no assms(3) nth_mem by metis
  qed
  then have "TAG_OPEN ! i = 95" using assms(3) unfolding M by (simp add: nth_append)
  moreover have "list_all (\<lambda>i. TAG_OPEN ! i = 95 \<longrightarrow> i = 2) [0..<14]" by code_simp
  ultimately show ?thesis using \<open>i < 14\<close> by (auto simp: list_all_iff)
qed

lemma cch_match_prefix:
  assumes "cch_match s e h r"
  shows "\<exists>M. s = M @ r \<and> length M = 26 + length e \<and> (\<forall>r'. cch_match (M @ r') e h r')"
  using assms by (intro exI [of _ "TAG_OPEN @ e @ TAG_CCH @ h @ [59]"]) (auto simp: cch_match_def)

text \<open>Writing other digits moves no match: the tag stays where it was and no earlier one appears.\<close>

lemma find_cch_stable:
  assumes find: "find_cch s = Some k" and t: "length t = 5" "list_all hex_unit t"
  shows "find_cch (take k s @ t @ drop (k + 5) s) = Some k \<and> k + 5 \<le> length s"
proof -
  from find [unfolded find_cch_Some] obtain m n where
    m: "m < length s" "cch_here (drop m s) = Some n" "k = m + n" "\<forall>j < m. cch_here (drop j s) = None" by blast
  from cch_here_SomeD [OF m(2)] obtain e h r where mt: "cch_match (drop m s) e h r" "n = 20 + length e" by blast
  define u where "u = take m s"
  have s: "s = u @ TAG_OPEN @ e @ TAG_CCH @ h @ 59 # r" using mt(1) unfolding u_def by (metis append_take_drop_id cch_match_def)
  have h: "length h = 5" using mt(1) by (simp add: cch_match_def)
  have lm: "length u = m" using m(1) by (simp add: u_def)
  define s' where "s' = take k s @ t @ drop (k + 5) s"
  have "take k s = u @ TAG_OPEN @ e @ TAG_CCH" "drop (k + 5) s = 59 # r"
    using lm h unfolding s m(3) mt(2) by simp_all
  then have s': "s' = u @ TAG_OPEN @ e @ TAG_CCH @ t @ 59 # r" by (simp add: s'_def)
  have "cch_match (drop m s') e t r" using mt(1) t lm by (simp add: s' cch_match_def)
  then have here: "cch_here (drop m s') = Some n" using mt(2) by (simp add: cch_here_match)
  have long: "m + 14 \<le> length s'" using lm by (simp add: s')
  have us: "s' ! (m + 2) = 95" using lm by (simp add: s' nth_append TAG_OPEN_def lit_def)
  have same: "take (m + 2) s' = take (m + 2) s" using lm unfolding s s' by simp
  have none: "cch_here (drop j s') = None" if j: "j < m" for j
  proof (rule ccontr)
    assume "cch_here (drop j s') \<noteq> None"
    then obtain n' where "cch_here (drop j s') = Some n'" by blast
    from cch_here_SomeD [OF this] obtain e' h' r' where mt': "cch_match (drop j s') e' h' r'" by blast
    from cch_match_prefix [OF this] obtain M where M: "drop j s' = M @ r'" "\<forall>r''. cch_match (M @ r'') e' h' r''" by blast
    have "j + length M \<le> m + 2"
    proof (rule ccontr)
      assume "\<not> j + length M \<le> m + 2"
      then have i: "m + 2 - j < length M" using j by simp
      then have "M ! (m + 2 - j) = drop j s' ! (m + 2 - j)" by (simp add: M(1) nth_append)
      also have "\<dots> = 95" using us j long by simp
      finally have "m + 2 - j = 2" using underscore_place [OF M(2) [rule_format] i] by blast
      then show False using j by simp
    qed
    then have "take (length M) (drop j s) = take (length M) (drop j s')"
    proof -
      assume le: "j + length M \<le> m + 2"
      have "take (length M + j) s = take (length M + j) (take (m + 2) s)" using le by (simp add: min_def)
      also have "\<dots> = take (length M + j) s'" using le unfolding same [symmetric] by (simp add: min_def)
      finally show ?thesis by (simp add: take_drop)
    qed
    also have "\<dots> = M" by (simp add: M(1))
    finally have tk: "take (length M) (drop j s) = M" .
    have dd: "M @ drop (length M) (drop j s) = drop j s"
      using append_take_drop_id [of "length M" "drop j s"] unfolding tk .
    have "cch_match (drop j s) e' h' (drop (length M) (drop j s))"
      using M(2) [rule_format, of "drop (length M) (drop j s)"] unfolding dd .
    from cch_here_match [OF this] have "cch_here (drop j s) \<noteq> None" by simp
    then show False using m(4) [rule_format, OF j] by simp
  qed
  have "find_cch s' = Some k" 
  proof -
    have "m < length s'" using long by simp
    then show ?thesis unfolding find_cch_Some using here none m(3) by blast
  qed
  moreover have "k + 5 \<le> length s" using lm h unfolding s m(3) mt(2) by simp
  ultimately show ?thesis by (simp add: s'_def)
qed

lemma replace_cch_twice:
  assumes "length t = 5" "list_all hex_unit t"
  shows "replace_cch t' (replace_cch t s) = replace_cch t' s"
proof (cases "find_cch s")
  case None
  then show ?thesis by (simp add: replace_cch_def)
next
  case (Some k)
  with find_cch_stable [OF Some assms] assms(1) show ?thesis by (simp add: replace_cch_def)
qed

lemma hex5_ok: "length (hex5 h) = 5 \<and> list_all hex_unit (hex5 h)"
proof -
  have "hex_unit (hex_digit (x mod 16))" for x
    using pos_mod_bound [of 16 x] pos_mod_sign [of 16 x] by (auto simp: hex_digit_def hex_unit_def)
  then show ?thesis by (simp add: hex5_def)
qed

lemma cchForBody_replace:
  assumes "length t = 5" "list_all hex_unit t"
  shows "cchForBody jp jt (replace_cch t s) v = cchForBody jp jt s v"
proof -
  have "find_cch (replace_cch t s) = find_cch s"
  proof (cases "find_cch s")
    case (Some k)
    then show ?thesis using find_cch_stable [OF Some assms] by (simp add: replace_cch_def)
  qed (simp add: replace_cch_def)
  then show ?thesis
    by (simp only: cchForBody_def cchWithSeed_def cchMaterial_def replace_cch_twice [OF assms])
qed

lemma cchForBody_token:
  "cchForBody jp jt s v = Inr (Some t) \<Longrightarrow> (\<exists>h. t = hex5 h) \<and> find_cch s \<noteq> None"
  by (auto simp: cchForBody_def cchWithSeed_def split: option.splits if_splits sum.splits)

text \<open>
  C28. The stamped token verifies. Recomputing the token of a stamped body gives the token of the body it was
  made from, and stamping is idempotent; and stamping changes nothing but five characters inside the
  billing tag: the text keeps its length, and every other position keeps its character. Without a seed, or
  without a tag, the text is returned as it is.
\<close>

theorem stamp_verifies:
  assumes "stampCch jp jt body v = Inr b"
  shows "stampCch jp jt b v = Inr b \<and> cchForBody jp jt b v = cchForBody jp jt body v \<and> length b = length body
    \<and> (case cchForBody jp jt body v of
         Inr (Some t) \<Rightarrow> (\<exists>k. find_cch body = Some k \<and> find_cch b = Some k \<and> take 5 (drop k b) = t
            \<and> (\<forall>i < length body. \<not> (k \<le> i \<and> i < k + 5) \<longrightarrow> b ! i = body ! i))
       | _ \<Rightarrow> b = body)"
proof (cases "cchForBody jp jt body v")
  case (Inl e)
  with assms show ?thesis by (simp add: stampCch_def)
next
  case (Inr o')
  show ?thesis
  proof (cases o')
    case None
    with Inr assms show ?thesis by (simp add: stampCch_def)
  next
    case (Some t)
    with Inr assms have b: "b = replace_cch t body" by (simp add: stampCch_def)
    from cchForBody_token [of jp jt body v t] Inr Some obtain h k where t: "t = hex5 h" and k: "find_cch body = Some k"
      by auto
    have t5: "length t = 5" "list_all hex_unit t" using hex5_ok t by auto
    note st = find_cch_stable [OF k t5]
    have eq: "b = take k body @ t @ drop (k + 5) body" by (simp add: b replace_cch_def k)
    have same: "cchForBody jp jt b v = cchForBody jp jt body v" unfolding b by (rule cchForBody_replace [OF t5])
    have "replace_cch t b = b" unfolding b by (rule replace_cch_twice [OF t5])
    then have "stampCch jp jt b v = Inr b" by (simp add: stampCch_def same Inr Some)
    moreover have "length b = length body" using st t5 by (simp add: eq)
    moreover have "take 5 (drop k b) = t" using st t5 by (simp add: eq)
    moreover have "\<forall>i < length body. \<not> (k \<le> i \<and> i < k + 5) \<longrightarrow> b ! i = body ! i"
      using st t5 by (auto simp: eq nth_append)
    ultimately show ?thesis using same Inr Some k st unfolding eq by simp
  qed
qed

section \<open>Routing does not change the hash\<close>

text \<open>What a routing proxy rewrites in a body.\<close>

datatype body_edit = Set_model jvalue | Set_field utext jvalue | Drop_field utext

definition routed_field :: "utext \<Rightarrow> bool" where
  "routed_field k \<longleftrightarrow> k = lit ''fallbacks'' \<or> k = lit ''fallback_credit_token'' \<or> k = lit ''max_tokens''"

fun edit_ok :: "body_edit \<Rightarrow> bool" where
  "edit_ok (Set_model v) = True"
| "edit_ok (Set_field k v) = routed_field k"
| "edit_ok (Drop_field k) = routed_field k"

fun edit_body :: "body_edit \<Rightarrow> jobject \<Rightarrow> jobject" where
  "edit_body (Set_model v) b = AList.update (lit ''model'') v b"
| "edit_body (Set_field k v) b = AList.update k v b"
| "edit_body (Drop_field k) b = AList.delete k b"

lemma update_twice: "AList.update k v (AList.update k w m) = AList.update k v m"
  by (induction m) auto

lemma delete_update_same: "AList.delete k (AList.update k v m) = AList.delete k m"
  by (induction m) auto

lemma delete_update_other: "k \<noteq> j \<Longrightarrow> AList.delete k (AList.update j v m) = AList.update j v (AList.delete k m)"
  by (induction m) auto

lemma delete_delete: "AList.delete k (AList.delete j m) = AList.delete j (AList.delete k m)"
  by (induction m) auto

lemma delete_twice: "AList.delete k (AList.delete k m) = AList.delete k m"
  by (induction m) auto

lemma lit_eq: "lit s = lit t \<longleftrightarrow> s = t"
proof -
  have "inj (of_char :: char \<Rightarrow> int)" by (rule injI) simp
  then show ?thesis by (auto simp: lit_def dest: map_injective)
qed

lemma project_edit: "edit_ok e \<Longrightarrow> cch_project (edit_body e b) = cch_project b"
  by (cases e)
    (auto simp: cch_project_def routed_field_def update_twice delete_update_other delete_update_same delete_delete delete_twice lit_eq)

text \<open>
  The token survives routing. Let one body be another with its model replaced and its fallbacks, fallback
  token and output limit set or dropped in any order any number of times - and parsed back with its token
  zeroed as such. Then both have the same token under every version, so a stamp made before the rewrite
  still verifies after it.
\<close>

theorem cch_survives_routing:
  assumes "find_cch s1 \<noteq> None" and "find_cch s2 \<noteq> None"
    and "jp (replace_cch (lit ''00000'') s1) = Some (J_obj b)"
    and "jp (replace_cch (lit ''00000'') s2) = Some (J_obj (fold edit_body es b))" and "\<forall>e \<in> set es. edit_ok e"
  shows "cchForBody jp jt s2 v = cchForBody jp jt s1 v"
proof -
  have "cch_project (fold edit_body es b) = cch_project b"
    using assms(5) by (induction es arbitrary: b) (simp_all add: project_edit)
  with assms show ?thesis
    by (auto simp: cchForBody_def cchWithSeed_def cchMaterial_def split: option.split)
qed

section \<open>Examples\<close>

text \<open>Published values for no bytes and for the letter a, with seed 0.\<close>

lemma xxh64_empty: "xxh64 [] 0 = 0xef46db3751d8e999"
  by code_simp

lemma xxh64_a: "xxh64 [97] 0 = 0xd24ec4f1a98c6e5b"
  by code_simp

text \<open>A body of its own notation: the parser knows one text, the printer writes nothing.\<close>

definition sample_body :: "string \<Rightarrow> utext" where
  "sample_body digits = lit ''x cc_entrypoint=sdk-cli; cch='' @ lit digits @ lit '';''"

definition sample_parse :: "utext \<Rightarrow> jvalue option" where
  "sample_parse s =
     (if s = sample_body ''00000'' then Some (J_obj [(lit ''model'', J_str (lit ''a''))])
      else if s = 33 # sample_body ''00000'' then Some (J_obj [(lit ''model'', J_str (lit ''b''))])
      else None)"

definition sample_stamped :: utext where
  "sample_stamped = (case stampCch sample_parse (\<lambda>_. []) (sample_body ''1a2B3'') ''2.1.177'' of Inr b \<Rightarrow> b | Inl _ \<Rightarrow> [])"

lemma sample_stamp: "stampCch sample_parse (\<lambda>_. []) (sample_body ''1a2B3'') ''2.1.177'' = Inr sample_stamped"
  by code_simp

theorem stamp_verifies_witness:
  "stampCch sample_parse (\<lambda>_. []) sample_stamped ''2.1.177'' = Inr sample_stamped \<and> sample_stamped \<noteq> sample_body ''1a2B3''"
proof -
  have "sample_stamped \<noteq> sample_body ''1a2B3''" by code_simp
  with stamp_verifies [OF sample_stamp] show ?thesis by blast
qed

theorem cch_survives_routing_witness:
  "cchForBody sample_parse (\<lambda>_. []) (33 # sample_body ''0fe12'') ''2.1.177'' = cchForBody sample_parse (\<lambda>_. []) (sample_body ''1a2B3'') ''2.1.177''"
proof -
  have a: "find_cch (sample_body ''1a2B3'') \<noteq> None" by code_simp
  have b: "find_cch (33 # sample_body ''0fe12'') \<noteq> None" by code_simp
  have c: "sample_parse (replace_cch (lit ''00000'') (sample_body ''1a2B3'')) = Some (J_obj [(lit ''model'', J_str (lit ''a''))])"
    by code_simp
  have d: "sample_parse (replace_cch (lit ''00000'') (33 # sample_body ''0fe12'')) =
      Some (J_obj (fold edit_body [Set_model (J_str (lit ''b''))] [(lit ''model'', J_str (lit ''a''))]))"
    by code_simp
  show ?thesis by (rule cch_survives_routing [OF a b c d]) simp
qed

end
