(* ===== verification/Sessions.thy ===== *)
theory Sessions
  imports Js_Text
begin

text \<open>
  Session rotation (\<open>session-rotation.ts\<close>): when an outbound session id is kept or replaced, the
  registry of ids per account and client with its eviction, and the resolution of its settings.
  The random id and the jitter draw are arguments; the environment variables are optional strings.
  The registry is then a machine any caller may drive in any order.
\<close>

section \<open>Settings and entries\<close>

record session_config =
  idleRotateMs :: ms
  jitterMs :: ms
  maxAgeMs :: "ms option"
  perClient :: bool

record session_entry =
  upstreamSessionId :: string
  createdAt :: ms
  lastUsedAt :: ms
  idleJitterOffsetMs :: ms

datatype rotation_decision = Keep | Rotate_new | Rotate_idle | Rotate_age

definition decideSessionRotation :: "session_entry option \<Rightarrow> ms \<Rightarrow> session_config \<Rightarrow> rotation_decision" where
  "decideSessionRotation entry now cfg =
     (case entry of
        None \<Rightarrow> Rotate_new
      | Some e \<Rightarrow>
          let idleBase = max 0 (idleRotateMs cfg);
              idleThreshold = idleBase + max 0 (idleJitterOffsetMs e)
          in if now - lastUsedAt e > idleThreshold then Rotate_idle
             else if (case maxAgeMs cfg of None \<Rightarrow> False | Some a \<Rightarrow> a > 0 \<and> now - createdAt e > a) then Rotate_age
             else Keep)"

section \<open>The registry\<close>

record session_registry =
  sr_cfg :: session_config
  sr_maxEntries :: int
  sr_entries :: "(string, session_entry) jsmap"

definition new_registry :: "session_config \<Rightarrow> int \<Rightarrow> session_registry" where
  "new_registry cfg cap = \<lparr>sr_cfg = cfg, sr_maxEntries = cap, sr_entries = []\<rparr>"

definition session_key :: "session_config \<Rightarrow> string \<Rightarrow> string option \<Rightarrow> string" where
  "session_key cfg accountKey clientKey =
     (if perClient cfg then
        accountKey @ CHR 0x00 # (case clientKey of
                                   Some c \<Rightarrow> (if length c > 0 then c else ''default'')
                                 | None \<Rightarrow> ''default'')
      else accountKey)"

function evictIfOverCap :: "int \<Rightarrow> (string, session_entry) jsmap \<Rightarrow> (string, session_entry) jsmap" where
  "evictIfOverCap cap m =
     (if int (length m) > cap then
        (case m of [] \<Rightarrow> m | (oldest, _) # _ \<Rightarrow> evictIfOverCap cap (AList.delete oldest m))
      else m)"
  by pat_completeness auto
termination
  by (relation "measure (\<lambda>(_, m). length m)") (auto simp: less_Suc_eq_le length_delete_le)

declare evictIfOverCap.simps [simp del]

record registry_result =
  rr_sessionId :: string
  rr_rotated :: bool
  rr_reason :: rotation_decision

definition getOrCreate ::
  "string \<Rightarrow> ratio \<Rightarrow> string \<Rightarrow> string option \<Rightarrow> ms \<Rightarrow> string option
     \<Rightarrow> session_registry \<Rightarrow> registry_result \<times> session_registry" where
  "getOrCreate newId rng accountKey clientKey now seedId r =
     (let key = session_key (sr_cfg r) accountKey clientKey;
          existing = map_of (sr_entries r) key;
          decision = decideSessionRotation existing now (sr_cfg r)
      in case (decision, existing) of
           (Keep, Some e) \<Rightarrow>
             (\<lparr>rr_sessionId = upstreamSessionId e, rr_rotated = False, rr_reason = Keep\<rparr>,
              r\<lparr>sr_entries := AList.update key (e\<lparr>lastUsedAt := now\<rparr>) (AList.delete key (sr_entries r))\<rparr>)
         | _ \<Rightarrow>
             let jitterOffset = (if jitterMs (sr_cfg r) > 0 then \<lfloor>rng * of_int (jitterMs (sr_cfg r))\<rfloor> else 0);
                 entry = \<lparr>upstreamSessionId =
                            (case (decision, truthy seedId) of (Rotate_new, Some s) \<Rightarrow> s | _ \<Rightarrow> newId),
                          createdAt = now, lastUsedAt = now, idleJitterOffsetMs = jitterOffset\<rparr>
             in (\<lparr>rr_sessionId = upstreamSessionId entry, rr_rotated = True, rr_reason = decision\<rparr>,
                 r\<lparr>sr_entries := evictIfOverCap (sr_maxEntries r) (AList.update key entry (sr_entries r))\<rparr>))"

definition peek :: "string \<Rightarrow> string option \<Rightarrow> session_registry \<Rightarrow> string option" where
  "peek accountKey clientKey r =
     map_option upstreamSessionId (map_of (sr_entries r) (session_key (sr_cfg r) accountKey clientKey))"

definition registry_size :: "session_registry \<Rightarrow> int" where
  "registry_size r = int (length (sr_entries r))"

definition registry_clear :: "session_registry \<Rightarrow> session_registry" where
  "registry_clear r = r\<lparr>sr_entries := []\<rparr>"

section \<open>Resolving the settings\<close>

text \<open>A candidate setting: absent, a number given by the caller, or the text of a variable.\<close>

datatype candidate = Absent | Num jsnum | Txt string

definition candidate_number :: "candidate \<Rightarrow> jsnum" where
  "candidate_number c =
     (case c of Absent \<Rightarrow> NaN | Num n \<Rightarrow> n
      | Txt s \<Rightarrow> (case parse_int10 s of None \<Rightarrow> NaN | Some n \<Rightarrow> js_finite (of_int n)))"

fun pickNonNegativeInt :: "candidate list \<Rightarrow> int option" where
  "pickNonNegativeInt [] = None"
| "pickNonNegativeInt (c # cs) =
     (if c = Absent \<or> c = Txt [] then pickNonNegativeInt cs
      else case candidate_number c of
             Fin n \<Rightarrow> (if n \<ge> 0 then Some \<lfloor>n\<rfloor> else pickNonNegativeInt cs)
           | _ \<Rightarrow> pickNonNegativeInt cs)"

fun pickPositiveInt :: "candidate list \<Rightarrow> int option" where
  "pickPositiveInt [] = None"
| "pickPositiveInt (c # cs) =
     (if c = Absent \<or> c = Txt [] then pickPositiveInt cs
      else case candidate_number c of
             Fin n \<Rightarrow> (if n > 0 then Some \<lfloor>n\<rfloor> else pickPositiveInt cs)
           | _ \<Rightarrow> pickPositiveInt cs)"

definition pickBool :: "bool option \<Rightarrow> string option \<Rightarrow> bool option" where
  "pickBool explicit var =
     (case explicit of
        Some b \<Rightarrow> Some b
      | None \<Rightarrow> (case var of None \<Rightarrow> None
                 | Some v \<Rightarrow> let s = to_lower (trim v)
                     in if s = [] then None
                        else if s \<in> {''1'', ''true'', ''yes'', ''on''} then Some True
                        else if s \<in> {''0'', ''false'', ''no'', ''off''} then Some False
                        else None))"

definition text_candidate :: "string option \<Rightarrow> candidate" where
  "text_candidate v = (case v of None \<Rightarrow> Absent | Some s \<Rightarrow> Txt s)"

definition number_candidate :: "jsnum option \<Rightarrow> candidate" where
  "number_candidate v = (case v of None \<Rightarrow> Absent | Some n \<Rightarrow> Num n)"

definition resolveSessionRotationConfig ::
  "jsnum option \<Rightarrow> jsnum option \<Rightarrow> jsnum option \<Rightarrow> bool option
     \<Rightarrow> (string \<Rightarrow> string option) \<Rightarrow> session_config" where
  "resolveSessionRotationConfig idle jitter maxAge client env =
     \<lparr>idleRotateMs = opt_or (pickNonNegativeInt [number_candidate idle,
                        text_candidate (env ''DARIO_SESSION_IDLE_ROTATE_MS'')]) (15 * 60 * 1000),
      jitterMs = opt_or (pickNonNegativeInt [number_candidate jitter,
                        text_candidate (env ''DARIO_SESSION_JITTER_MS'')]) 0,
      maxAgeMs = pickPositiveInt [number_candidate maxAge, text_candidate (env ''DARIO_SESSION_MAX_AGE_MS'')],
      perClient = opt_or (pickBool client (env ''DARIO_SESSION_PER_CLIENT'')) False\<rparr>"

section \<open>The registry as a machine\<close>

datatype session_op =
    S_get string ratio string "string option" ms "string option"
  | S_clear

fun session_step :: "session_op \<Rightarrow> session_registry \<Rightarrow> session_registry" where
  "session_step (S_get i u a c now seed) r = snd (getOrCreate i u a c now seed r)"
| "session_step S_clear r = registry_clear r"

definition registry_wf :: "session_registry \<Rightarrow> bool" where
  "registry_wf r \<longleftrightarrow> map_wf (sr_entries r) \<and> registry_size r \<le> max 0 (sr_maxEntries r)"

lemma delete_head: "map_wf ((k, v) # m) \<Longrightarrow> AList.delete k m = m"
  by (simp add: map_wf_def delete_id)

text \<open>Eviction drops the oldest entries, just enough of them.\<close>

lemma evict_drop:
  "map_wf m \<Longrightarrow> evictIfOverCap cap m = drop (nat (int (length m) - max 0 cap)) m"
proof (induction m)
  case Nil
  show ?case by (subst evictIfOverCap.simps) simp
next
  case (Cons x m)
  obtain k v where x: "x = (k, v)" by fastforce
  have wf: "map_wf m" using Cons.prems by (auto simp: map_wf_def)
  have del: "AList.delete k m = m" using Cons.prems unfolding x by (rule delete_head)
  have step: "evictIfOverCap cap (x # m) =
      (if int (Suc (length m)) > cap then evictIfOverCap cap m else x # m)"
    unfolding evictIfOverCap.simps [of cap "x # m"] by (simp add: x del)
  show ?case
  proof (cases "int (Suc (length m)) > cap")
    case True
    then have "nat (int (Suc (length m)) - max 0 cap) = Suc (nat (int (length m) - max 0 cap))"
      by linarith
    with True show ?thesis using step Cons.IH [OF wf] by simp
  next
    case False
    then show ?thesis using step by simp
  qed
qed

lemma map_wf_drop: "map_wf m \<Longrightarrow> map_wf (drop n m)"
  by (simp add: map_wf_def drop_map [symmetric])

lemma evict_wf: "map_wf m \<Longrightarrow> map_wf (evictIfOverCap cap m) \<and> int (length (evictIfOverCap cap m)) \<le> max 0 cap"
  by (simp add: evict_drop map_wf_drop)

text \<open>The two ways out of \<open>getOrCreate\<close>.\<close>

definition keeps :: "session_config \<Rightarrow> session_entry \<Rightarrow> ms \<Rightarrow> bool" where
  "keeps cfg e now \<longleftrightarrow>
     now - lastUsedAt e \<le> max 0 (idleRotateMs cfg) + max 0 (idleJitterOffsetMs e)
     \<and> (\<forall>a. maxAgeMs cfg = Some a \<and> 0 < a \<longrightarrow> now - createdAt e \<le> a)"

lemma decide_Keep_iff:
  "decideSessionRotation entry now cfg = Keep \<longleftrightarrow> (\<exists>e. entry = Some e \<and> keeps cfg e now)"
  by (auto simp: decideSessionRotation_def keeps_def Let_def not_le split: option.splits if_splits)

lemma decide_new_iff: "decideSessionRotation entry now cfg = Rotate_new \<longleftrightarrow> entry = None"
  by (auto simp: decideSessionRotation_def Let_def split: option.splits)

definition minted :: "string \<Rightarrow> ratio \<Rightarrow> ms \<Rightarrow> string option \<Rightarrow> rotation_decision \<Rightarrow> session_config \<Rightarrow> session_entry" where
  "minted newId rng now seedId d cfg =
     \<lparr>upstreamSessionId = (case (d, truthy seedId) of (Rotate_new, Some s) \<Rightarrow> s | _ \<Rightarrow> newId),
      createdAt = now, lastUsedAt = now,
      idleJitterOffsetMs = (if jitterMs cfg > 0 then \<lfloor>rng * of_int (jitterMs cfg)\<rfloor> else 0)\<rparr>"

lemma getOrCreate_keep:
  assumes "map_of (sr_entries r) (session_key (sr_cfg r) a c) = Some e" and "keeps (sr_cfg r) e now"
  shows "getOrCreate i u a c now seed r =
     (\<lparr>rr_sessionId = upstreamSessionId e, rr_rotated = False, rr_reason = Keep\<rparr>,
      r\<lparr>sr_entries := AList.update (session_key (sr_cfg r) a c) (e\<lparr>lastUsedAt := now\<rparr>)
                      (AList.delete (session_key (sr_cfg r) a c) (sr_entries r))\<rparr>)"
proof -
  have "decideSessionRotation (Some e) now (sr_cfg r) = Keep"
    using assms(2) by (simp add: decide_Keep_iff)
  then show ?thesis by (simp add: getOrCreate_def Let_def assms(1))
qed

lemma getOrCreate_rotate:
  fixes r :: session_registry and a :: string and c :: "string option" and now :: ms
  defines "d \<equiv> decideSessionRotation (map_of (sr_entries r) (session_key (sr_cfg r) a c)) now (sr_cfg r)"
  assumes "d \<noteq> Keep"
  shows "getOrCreate i u a c now seed r =
     (\<lparr>rr_sessionId = upstreamSessionId (minted i u now seed d (sr_cfg r)), rr_rotated = True, rr_reason = d\<rparr>,
      r\<lparr>sr_entries := evictIfOverCap (sr_maxEntries r)
          (AList.update (session_key (sr_cfg r) a c) (minted i u now seed d (sr_cfg r)) (sr_entries r))\<rparr>)"
  using assms(2)
  by (cases d) (simp_all add: getOrCreate_def Let_def minted_def d_def [symmetric] split: option.splits)

lemma getOrCreate_frame [frame_simps]:
  "sr_cfg (snd (getOrCreate i u a c now seed r)) = sr_cfg r"
  "sr_maxEntries (snd (getOrCreate i u a c now seed r)) = sr_maxEntries r"
proof -
  let ?e = "map_of (sr_entries r) (session_key (sr_cfg r) a c)"
  have "sr_cfg (snd (getOrCreate i u a c now seed r)) = sr_cfg r
      \<and> sr_maxEntries (snd (getOrCreate i u a c now seed r)) = sr_maxEntries r"
  proof (cases "decideSessionRotation ?e now (sr_cfg r) = Keep")
    case True
    then show ?thesis by (auto simp: decide_Keep_iff getOrCreate_keep)
  next
    case False
    then show ?thesis by (simp add: getOrCreate_rotate)
  qed
  then show "sr_cfg (snd (getOrCreate i u a c now seed r)) = sr_cfg r"
    and "sr_maxEntries (snd (getOrCreate i u a c now seed r)) = sr_maxEntries r" by simp_all
qed

lemma length_refresh:
  assumes "map_wf m" and "map_of m k \<noteq> None"
  shows "length (AList.update k v (AList.delete k m)) \<le> length m"
proof -
  have "length (keys_of (AList.delete k m)) < length (keys_of m)"
    by (rule jm.size_del_less [OF assms(2)])
  moreover have "length (keys_of (AList.update k v (AList.delete k m))) \<le> Suc (length (keys_of (AList.delete k m)))"
    by (rule jm.size_put_le)
  ultimately show ?thesis by simp
qed

lemma getOrCreate_wf [inv_intros]:
  assumes "registry_wf r"
  shows "registry_wf (snd (getOrCreate i u a c now seed r))"
proof (cases "decideSessionRotation (map_of (sr_entries r) (session_key (sr_cfg r) a c)) now (sr_cfg r) = Keep")
  case True
  then obtain e where e: "map_of (sr_entries r) (session_key (sr_cfg r) a c) = Some e" and "keeps (sr_cfg r) e now"
    by (auto simp: decide_Keep_iff)
  then show ?thesis
    using assms length_refresh [of "sr_entries r" "session_key (sr_cfg r) a c" "e\<lparr>lastUsedAt := now\<rparr>"]
    by (simp add: getOrCreate_keep registry_wf_def registry_size_def map_wf_update map_wf_delete)
next
  case False
  then show ?thesis
    using assms evict_wf [OF map_wf_update [of "sr_entries r" "session_key (sr_cfg r) a c"]]
    by (simp add: getOrCreate_rotate registry_wf_def registry_size_def)
qed

interpretation session_machine: total_machine session_step registry_wf
proof
  fix r e assume "registry_wf r"
  then show "registry_wf (session_step e r)"
    by (cases e) (simp_all add: getOrCreate_wf, simp add: registry_wf_def registry_clear_def registry_size_def)
qed

lemma fold_session_frame:
  "sr_maxEntries (fold session_step ops r) = sr_maxEntries r"
proof (induction ops arbitrary: r)
  case Nil
  show ?case by simp
next
  case (Cons e ops)
  have "sr_maxEntries (session_step e r) = sr_maxEntries r"
    by (cases e) (simp_all add: getOrCreate_frame registry_clear_def)
  then show ?case using Cons.IH [of "session_step e r"] by simp
qed

text \<open>
  The registry is bounded whatever it is asked: after any sequence of requests and clears it
  holds one session per key and no more than its cap.
\<close>

theorem sessions_bounded:
  "registry_size (fold session_step ops (new_registry cfg cap)) \<le> max 0 cap
   \<and> distinct (keys_of (sr_entries (fold session_step ops (new_registry cfg cap))))"
proof -
  have "registry_wf (new_registry cfg cap)"
    by (simp add: registry_wf_def new_registry_def registry_size_def)
  from session_machine.run_any [OF this, of ops] show ?thesis
    by (simp add: registry_wf_def fold_session_frame new_registry_def map_wf_def)
qed

section \<open>What a request is given\<close>

lemma map_of_drop:
  "distinct (keys_of m) \<Longrightarrow> map_of (drop n m) k = (if k \<in> set (keys_of (drop n m)) then map_of m k else None)"
proof (induction m arbitrary: n)
  case Nil
  show ?case by simp
next
  case (Cons x m)
  show ?case
  proof (cases n)
    case 0
    then show ?thesis by (auto simp: map_of_eq_None_iff)
  next
    case (Suc l)
    have "set (keys_of (drop l m)) \<subseteq> set (keys_of m)" by (auto dest: in_set_dropD)
    then have "fst x \<notin> set (keys_of (drop l m))" using Cons.prems by auto
    with Suc Cons show ?thesis by auto
  qed
qed

lemma evict_get:
  assumes "map_wf m"
  shows "map_of (evictIfOverCap cap m) k = map_of m k \<or> map_of (evictIfOverCap cap m) k = None"
  using assms by (simp add: evict_drop map_of_drop map_wf_def)

text \<open>A registry within its cap keeps the entry just written.\<close>

lemma evict_keeps_new:
  assumes "map_wf m" and "int (length m) \<le> cap" and "0 < cap"
  shows "map_of (evictIfOverCap cap (AList.update k v m)) k = Some v"
proof -
  let ?m = "AList.update k v m"
  have wf: "map_wf ?m" using assms(1) by (rule map_wf_update)
  have keys: "keys_of ?m = (if k \<in> set (keys_of m) then keys_of m else keys_of m @ [k])"
    by (rule jm.keys_put)
  have "k \<in> set (keys_of (drop (nat (int (length ?m) - max 0 cap)) ?m))"
  proof (cases "k \<in> set (keys_of m)")
    case True
    then have "length ?m = length m" using arg_cong [OF keys, of length] by simp
    then show ?thesis using True keys assms(2,3) by simp
  next
    case False
    then have "length ?m = Suc (length m)" using arg_cong [OF keys, of length] by simp
    then have "nat (int (length ?m) - max 0 cap) < length (keys_of ?m)" using assms(3) by simp
    from last_in_drop [OF this] have "last (keys_of ?m) \<in> set (keys_of (drop (nat (int (length ?m) - max 0 cap)) ?m))"
      by (simp only: drop_map)
    moreover have "last (keys_of ?m) = k" using False by (simp only: keys if_False last_snoc)
    ultimately show ?thesis by simp
  qed
  then show ?thesis using wf by (simp add: evict_drop map_of_drop map_wf_def update_conv')
qed

text \<open>
  What a request's session is. An id is kept exactly while the session has been idle no longer
  than its own threshold and, when a cap is set, lived no longer than it; then the request carries
  the id it had. Otherwise it carries a new one, the seed only on the very first use. The registry
  answers later with the id just given, and touches no other session except to evict it.
\<close>

theorem session_kept_iff:
  fixes r :: session_registry and a :: string and c :: "string option"
  defines "key \<equiv> session_key (sr_cfg r) a c"
  assumes "registry_wf r" and "0 < sr_maxEntries r"
    and g: "getOrCreate newId rng a c now seed r = (res, r')"
  shows "(rr_reason res = Keep \<longleftrightarrow> (\<exists>e. map_of (sr_entries r) key = Some e \<and> keeps (sr_cfg r) e now))
       \<and> (rr_rotated res \<longleftrightarrow> rr_reason res \<noteq> Keep)
       \<and> (rr_reason res = Keep \<longrightarrow> peek a c r = Some (rr_sessionId res))
       \<and> (rr_reason res = Rotate_new \<longleftrightarrow> peek a c r = None)
       \<and> (rr_reason res \<noteq> Keep \<longrightarrow> rr_sessionId res =
            (case truthy seed of Some s \<Rightarrow> (if rr_reason res = Rotate_new then s else newId) | None \<Rightarrow> newId))
       \<and> peek a c r' = Some (rr_sessionId res)
       \<and> (\<forall>k. k \<noteq> key \<longrightarrow> map_of (sr_entries r') k = map_of (sr_entries r) k \<or> map_of (sr_entries r') k = None)"
proof (cases "decideSessionRotation (map_of (sr_entries r) key) now (sr_cfg r) = Keep")
  case True
  then obtain e where e: "map_of (sr_entries r) key = Some e" "keeps (sr_cfg r) e now"
    by (auto simp: decide_Keep_iff)
  then have "getOrCreate newId rng a c now seed r =
     (\<lparr>rr_sessionId = upstreamSessionId e, rr_rotated = False, rr_reason = Keep\<rparr>,
      r\<lparr>sr_entries := AList.update key (e\<lparr>lastUsedAt := now\<rparr>) (AList.delete key (sr_entries r))\<rparr>)"
    by (simp add: getOrCreate_keep key_def)
  with g e show ?thesis
    by (auto simp: peek_def key_def [symmetric] update_conv' delete_conv')
next
  case False
  let ?d = "decideSessionRotation (map_of (sr_entries r) key) now (sr_cfg r)"
  let ?e = "minted newId rng now seed ?d (sr_cfg r)"
  have r': "res = \<lparr>rr_sessionId = upstreamSessionId ?e, rr_rotated = True, rr_reason = ?d\<rparr>"
    "r' = r\<lparr>sr_entries := evictIfOverCap (sr_maxEntries r) (AList.update key ?e (sr_entries r))\<rparr>"
    using g False by (simp_all add: getOrCreate_rotate key_def)
  have wf: "map_wf (sr_entries r)" and le: "int (length (sr_entries r)) \<le> sr_maxEntries r"
    using assms(2,3) by (simp_all add: registry_wf_def registry_size_def)
  have new: "map_of (sr_entries r') key = Some ?e"
    using evict_keeps_new [OF wf le assms(3)] by (simp add: r')
  have old: "map_of (sr_entries r') k = map_of (sr_entries r) k \<or> map_of (sr_entries r') k = None"
    if "k \<noteq> key" for k
    using evict_get [OF map_wf_update [OF wf], of "sr_maxEntries r" key ?e k] that
    by (simp add: r' update_conv')
  have id: "upstreamSessionId ?e =
      (case truthy seed of Some s \<Rightarrow> (if ?d = Rotate_new then s else newId) | None \<Rightarrow> newId)"
    by (cases ?d) (simp_all add: minted_def split: option.splits)
  have keep: "(\<exists>e. map_of (sr_entries r) key = Some e \<and> keeps (sr_cfg r) e now) = (?d = Keep)"
    by (simp add: decide_Keep_iff)
  have first: "(?d = Rotate_new) = (peek a c r = None)"
    by (simp add: decide_new_iff peek_def key_def)
  have peek': "peek a c r' = Some (upstreamSessionId ?e)"
    using new by (simp add: peek_def r'(2) key_def)
  show ?thesis using False keep first id peek' old by (simp add: r'(1) cong: option.case_cong)
qed

definition sample_registry :: session_registry where
  "sample_registry = \<lparr>sr_cfg = \<lparr>idleRotateMs = 100, jitterMs = 0, maxAgeMs = None, perClient = False\<rparr>,
     sr_maxEntries = 2,
     sr_entries = [(''a'', \<lparr>upstreamSessionId = ''s1'', createdAt = 0, lastUsedAt = 0, idleJitterOffsetMs = 0\<rparr>),
                   (''b'', \<lparr>upstreamSessionId = ''s2'', createdAt = 50, lastUsedAt = 50, idleJitterOffsetMs = 0\<rparr>)]\<rparr>"

theorem session_kept_iff_witness:
  "peek ''a'' None (snd (getOrCreate ''s3'' 0 ''a'' None 500 (Some ''seed'') sample_registry)) =
     Some (rr_sessionId (fst (getOrCreate ''s3'' 0 ''a'' None 500 (Some ''seed'') sample_registry)))"
proof -
  have "registry_wf sample_registry" "0 < sr_maxEntries sample_registry"
    by (simp_all add: registry_wf_def sample_registry_def map_wf_def registry_size_def)
  from session_kept_iff [OF this, of "''s3''" 0 "''a''" None 500 "Some ''seed''"]
  show ?thesis by (metis prod.collapse)
qed

section \<open>Eviction order\<close>

lemma rotate_keeps_place:
  assumes "registry_wf r" and "map_of (sr_entries r) (session_key (sr_cfg r) a c) = Some e"
    and "\<not> keeps (sr_cfg r) e now"
  shows "keys_of (sr_entries (snd (getOrCreate i u a c now seed r))) = keys_of (sr_entries r)"
proof -
  let ?k = "session_key (sr_cfg r) a c" and ?d = "decideSessionRotation (Some e) now (sr_cfg r)"
  let ?m = "AList.update ?k (minted i u now seed ?d (sr_cfg r)) (sr_entries r)"
  have d: "?d \<noteq> Keep" using assms(3) by (simp add: decide_Keep_iff)
  have k: "?k \<in> set (keys_of (sr_entries r))" using assms(2) by (metis jm.get_keys option.distinct(1))
  have keys: "keys_of ?m = keys_of (sr_entries r)" using k by (simp only: jm.keys_put if_True)
  then have "length ?m = length (sr_entries r)" by (metis length_map)
  with assms(1) have "evictIfOverCap (sr_maxEntries r) ?m = ?m"
    by (subst evict_drop) (auto simp: registry_wf_def registry_size_def map_wf_update)
  with keys d show ?thesis using getOrCreate_rotate [of r a c now i u seed] assms(2) by simp
qed

text \<open>
  Eviction does not follow use. A session whose id was just rotated keeps the place it had in
  the registry, so when it was the oldest entry of a full registry, the next new session evicts it,
  the most recently used one, and keeps every session that was used before it.
\<close>

theorem rotated_session_evicted:
  assumes "registry_wf r" and "0 < sr_maxEntries r" and "registry_size r = sr_maxEntries r"
    and "keys_of (sr_entries r) = session_key (sr_cfg r) a c # older"
    and "map_of (sr_entries r) (session_key (sr_cfg r) a c) = Some e" and "\<not> keeps (sr_cfg r) e now"
    and "session_key (sr_cfg r) b c' \<notin> set (keys_of (sr_entries r))"
  shows "keys_of (sr_entries (snd (getOrCreate i' u' b c' now' seed' (snd (getOrCreate i u a c now seed r)))))
           = older @ [session_key (sr_cfg r) b c']"
proof -
  let ?r = "snd (getOrCreate i u a c now seed r)" and ?kb = "session_key (sr_cfg r) b c'"
  have keys: "keys_of (sr_entries ?r) = keys_of (sr_entries r)"
    by (rule rotate_keeps_place [OF assms(1,5,6)])
  have wf: "map_wf (sr_entries ?r)" using getOrCreate_wf [OF assms(1)] by (simp add: registry_wf_def)
  have none: "map_of (sr_entries ?r) ?kb = None"
    by (simp only: jm.get_keys keys) (rule assms(7))
  let ?e = "minted i' u' now' seed' Rotate_new (sr_cfg r)"
  let ?m = "AList.update ?kb ?e (sr_entries ?r)"
  have dec: "decideSessionRotation None now' (sr_cfg r) = Rotate_new" by (simp add: decide_new_iff)
  have e': "sr_entries (snd (getOrCreate i' u' b c' now' seed' ?r)) = evictIfOverCap (sr_maxEntries r) ?m"
    using getOrCreate_rotate [of ?r b c' now' i' u' seed'] by (simp add: getOrCreate_frame none dec)
  have km: "keys_of ?m = session_key (sr_cfg r) a c # older @ [?kb]"
    using assms(7) by (simp only: jm.keys_put keys if_False append.simps assms(4))
  have "int (length (keys_of (sr_entries r))) = sr_maxEntries r"
    using assms(3) by (simp add: registry_size_def)
  then have "int (length (keys_of ?m)) = sr_maxEntries r + 1" by (simp only: km assms(4)) simp
  then have "nat (int (length ?m) - max 0 (sr_maxEntries r)) = 1" using assms(2) by simp
  then have "evictIfOverCap (sr_maxEntries r) ?m = drop 1 ?m"
    using evict_drop [OF map_wf_update [OF wf], of "sr_maxEntries r" ?kb ?e] by simp
  then show ?thesis by (simp only: e' drop_map [symmetric] km) simp
qed

theorem rotated_session_evicted_witness:
  "keys_of (sr_entries (snd (getOrCreate ''s4'' 0 ''c'' None 501 None
     (snd (getOrCreate ''s3'' 0 ''a'' None 500 None sample_registry))))) = [''b'', ''c'']"
proof -
  have "registry_wf sample_registry" "0 < sr_maxEntries sample_registry"
    "registry_size sample_registry = sr_maxEntries sample_registry"
    "keys_of (sr_entries sample_registry) = session_key (sr_cfg sample_registry) ''a'' None # [''b'']"
    "map_of (sr_entries sample_registry) (session_key (sr_cfg sample_registry) ''a'' None) =
       Some \<lparr>upstreamSessionId = ''s1'', createdAt = 0, lastUsedAt = 0, idleJitterOffsetMs = 0\<rparr>"
    "\<not> keeps (sr_cfg sample_registry)
        \<lparr>upstreamSessionId = ''s1'', createdAt = 0, lastUsedAt = 0, idleJitterOffsetMs = 0\<rparr> 500"
    "session_key (sr_cfg sample_registry) ''c'' None \<notin> set (keys_of (sr_entries sample_registry))"
    by (simp_all add: registry_wf_def sample_registry_def map_wf_def registry_size_def session_key_def keeps_def)
  from rotated_session_evicted [OF this] show ?thesis by (simp add: session_key_def sample_registry_def)
qed

end
