(* ===== verification/Timers.thy ===== *)
theory Timers
  imports Js_Text
begin

text \<open>
  Timer delays (\<open>src/timer-ms.ts\<close>) and the shutdown drain (\<open>src/shutdown-drain.ts\<close>). A delay is a
  JavaScript number, \<open>NaN\<close> and the infinities included. The drain polls a count it is given
  (\<open>getActive k\<close> is the count at the \<open>k\<close>-th reading) with a clock and a sleep it is given
  (\<open>clock k\<close> is the time after \<open>k\<close> sleeps); its \<open>for (;;)\<close> loop runs on fuel, and
  \<open>waitForIdle_returns\<close> says how much is enough.
\<close>

section \<open>Clamped delays\<close>

definition MAX_TIMER_MS :: rat where
  "MAX_TIMER_MS = 2 ^ 31 - 1"

definition clampTimerMs :: "jsnum \<Rightarrow> rat" where
  "clampTimerMs ms =
     (case ms of
        NaN \<Rightarrow> 0
      | NegInf \<Rightarrow> 0
      | PosInf \<Rightarrow> MAX_TIMER_MS
      | Fin r \<Rightarrow> (if r \<le> 0 then 0 else if r \<ge> MAX_TIMER_MS then MAX_TIMER_MS else r))"

definition SHUTDOWN_FORCE_EXIT_MARGIN_MS :: rat where
  "SHUTDOWN_FORCE_EXIT_MARGIN_MS = 5000"

definition SHUTDOWN_POLL_MS :: ms where
  "SHUTDOWN_POLL_MS = 250"

definition shutdownTimers :: "jsnum \<Rightarrow> rat \<times> rat" where
  "shutdownTimers graceMs =
     (let grace = min (clampTimerMs graceMs) (MAX_TIMER_MS - SHUTDOWN_FORCE_EXIT_MARGIN_MS)
      in (grace, grace + SHUTDOWN_FORCE_EXIT_MARGIN_MS))"

lemma clampTimer_range: "0 \<le> clampTimerMs n \<and> clampTimerMs n \<le> MAX_TIMER_MS"
  by (auto simp: clampTimerMs_def MAX_TIMER_MS_def split: jsnum.splits)

text \<open>
  No configured grace overflows a timer: the drain's grace and the force-exit guard are both in
  the range \<open>setTimeout\<close> honours, the guard fires exactly the margin after the grace, and a grace
  that already fits is kept as configured.
\<close>

theorem shutdownTimers_fit:
  "0 \<le> fst (shutdownTimers g)
   \<and> snd (shutdownTimers g) = fst (shutdownTimers g) + 5000
   \<and> snd (shutdownTimers g) \<le> 2 ^ 31 - 1
   \<and> fst (shutdownTimers (Fin r)) = min (max 0 r) (2 ^ 31 - 5001)"
  using clampTimer_range [of g]
  by (auto simp: shutdownTimers_def Let_def SHUTDOWN_FORCE_EXIT_MARGIN_MS_def MAX_TIMER_MS_def clampTimerMs_def min_def max_def
      split: jsnum.splits)

section \<open>Waiting for idle\<close>

record drain_result =
  drained :: bool
  waitedMs :: ms
  remaining :: int

text \<open>One turn of the loop: sleep, read the count and the clock, stop or go on.\<close>

fun drain_polls :: "nat \<Rightarrow> (nat \<Rightarrow> int) \<Rightarrow> (nat \<Rightarrow> ms) \<Rightarrow> ms \<Rightarrow> nat \<Rightarrow> drain_result option" where
  "drain_polls 0 getActive clock graceMs k = None"
| "drain_polls (Suc fuel) getActive clock graceMs k =
     (let active = getActive (Suc k);
          waited = clock (Suc k) - clock 0
      in if active \<le> 0 then Some \<lparr>drained = True, waitedMs = waited, remaining = 0\<rparr>
         else if waited \<ge> graceMs then Some \<lparr>drained = False, waitedMs = waited, remaining = active\<rparr>
         else drain_polls fuel getActive clock graceMs (Suc k))"

definition waitForIdle :: "nat \<Rightarrow> (nat \<Rightarrow> int) \<Rightarrow> (nat \<Rightarrow> ms) \<Rightarrow> ms \<Rightarrow> drain_result option" where
  "waitForIdle fuel getActive clock graceMs =
     (if getActive 0 \<le> 0 then Some \<lparr>drained = True, waitedMs = 0, remaining = 0\<rparr>
      else drain_polls fuel getActive clock graceMs 0)"

lemma drain_polls_returns:
  assumes "\<And>i. clock i + pollMs \<le> clock (Suc i)" and "1 \<le> pollMs"
    and "graceMs - (clock k - clock 0) < int fuel * pollMs"
  shows "0 < fuel \<or> graceMs \<le> clock k - clock 0"
    and "0 < fuel \<Longrightarrow> \<exists>r. drain_polls fuel getActive clock graceMs k = Some r"
proof -
  show "0 < fuel \<or> graceMs \<le> clock k - clock 0" using assms(3) by (cases fuel) auto
  show "\<exists>r. drain_polls fuel getActive clock graceMs k = Some r" if "0 < fuel"
    using that assms(3)
  proof (induction fuel arbitrary: k)
    case 0
    then show ?case by simp
  next
    case (Suc n)
    show ?case
    proof (cases "getActive (Suc k) \<le> 0 \<or> graceMs \<le> clock (Suc k) - clock 0")
      case True
      then show ?thesis by (auto simp: Let_def)
    next
      case False
      have step: "graceMs - (clock (Suc k) - clock 0) < int n * pollMs"
        using Suc.prems(2) assms(1) [of k] by (simp add: algebra_simps)
      with False have "0 < n" by (cases n) auto
      from Suc.IH [OF this step] False show ?thesis by (simp add: Let_def)
    qed
  qed
qed

lemma drain_polls_result:
  "drain_polls fuel getActive clock graceMs k = Some r \<Longrightarrow>
     \<exists>i > k. waitedMs r = clock i - clock 0
       \<and> (\<forall>j. k < j \<and> j < i \<longrightarrow> 0 < getActive j \<and> clock j - clock 0 < graceMs)
       \<and> (if drained r then getActive i \<le> 0 \<and> remaining r = 0
          else 0 < getActive i \<and> remaining r = getActive i \<and> graceMs \<le> clock i - clock 0)"
proof (induction fuel getActive clock graceMs k rule: drain_polls.induct)
  case (1 getActive clock graceMs k)
  then show ?case by simp
next
  case (2 fuel getActive clock graceMs k)
  show ?case
  proof (cases "getActive (Suc k) \<le> 0 \<or> graceMs \<le> clock (Suc k) - clock 0")
    case True
    with 2(2) show ?thesis by (intro exI [of _ "Suc k"]) (auto simp: Let_def split: if_splits)
  next
    case False
    with 2(2) have rec: "drain_polls fuel getActive clock graceMs (Suc k) = Some r" by (simp add: Let_def)
    have "\<exists>i > Suc k. waitedMs r = clock i - clock 0
       \<and> (\<forall>j. Suc k < j \<and> j < i \<longrightarrow> 0 < getActive j \<and> clock j - clock 0 < graceMs)
       \<and> (if drained r then getActive i \<le> 0 \<and> remaining r = 0
          else 0 < getActive i \<and> remaining r = getActive i \<and> graceMs \<le> clock i - clock 0)"
      by (rule 2(1) [OF refl refl _ _ rec]) (use False in auto)
    then obtain i where "i > Suc k" and i: "waitedMs r = clock i - clock 0"
      "\<forall>j. Suc k < j \<and> j < i \<longrightarrow> 0 < getActive j \<and> clock j - clock 0 < graceMs"
      "if drained r then getActive i \<le> 0 \<and> remaining r = 0
          else 0 < getActive i \<and> remaining r = getActive i \<and> graceMs \<le> clock i - clock 0"
      by auto
    have "\<forall>j. k < j \<and> j < i \<longrightarrow> 0 < getActive j \<and> clock j - clock 0 < graceMs"
      using i(2) False by (metis Suc_lessI not_le)
    with i \<open>i > Suc k\<close> show ?thesis by (intro exI [of _ i]) auto
  qed
qed

text \<open>
  C40. The shutdown drain always returns: when each sleep lasts at least the poll interval, enough
  fuel for the grace gives a result. It gives up only once the grace has passed, reports drained
  only on a poll that read no request in flight, and stops at the first poll where either holds.
\<close>

theorem waitForIdle_returns:
  assumes "\<And>i. clock i + pollMs \<le> clock (Suc i)" and "1 \<le> pollMs"
    and "graceMs < int fuel * pollMs" and "0 < fuel"
  shows "\<exists>r. waitForIdle fuel getActive clock graceMs = Some r
           \<and> (\<exists>i. waitedMs r = clock i - clock 0
               \<and> (\<forall>j < i. 0 < getActive j \<and> (0 < j \<longrightarrow> clock j - clock 0 < graceMs))
               \<and> (if drained r then getActive i \<le> 0 \<and> remaining r = 0
                  else 0 < getActive i \<and> remaining r = getActive i \<and> graceMs \<le> waitedMs r))"
proof (cases "getActive 0 \<le> 0")
  case True
  then show ?thesis by (auto simp: waitForIdle_def intro!: exI [of _ 0])
next
  case False
  obtain r where r: "drain_polls fuel getActive clock graceMs 0 = Some r"
    using drain_polls_returns(2) [where clock = clock and k = 0, OF assms(1,2) _ assms(4)] assms(3) by auto
  from drain_polls_result [OF r] obtain i where i: "i > 0" "waitedMs r = clock i - clock 0"
    "\<forall>j. 0 < j \<and> j < i \<longrightarrow> 0 < getActive j \<and> clock j - clock 0 < graceMs"
    "if drained r then getActive i \<le> 0 \<and> remaining r = 0
          else 0 < getActive i \<and> remaining r = getActive i \<and> graceMs \<le> clock i - clock 0" by auto
  have "\<forall>j < i. 0 < getActive j \<and> (0 < j \<longrightarrow> clock j - clock 0 < graceMs)"
    using i(3) False by (metis neq0_conv not_le)
  with i r False show ?thesis by (auto simp: waitForIdle_def)
qed

theorem waitForIdle_returns_witness:
  "\<exists>r. waitForIdle 5 (\<lambda>k. 3 - int k) (\<lambda>k. 250 * int k) 1000 = Some r \<and> drained r"
proof -
  have "\<exists>r. waitForIdle 5 (\<lambda>k. 3 - int k) (\<lambda>k. 250 * int k) 1000 = Some r
           \<and> (\<exists>i. waitedMs r = 250 * int i - 250 * int 0
               \<and> (\<forall>j < i. 0 < 3 - int j \<and> (0 < j \<longrightarrow> 250 * int j - 250 * int 0 < (1000::int)))
               \<and> (if drained r then 3 - int i \<le> 0 \<and> remaining r = 0
                  else 0 < 3 - int i \<and> remaining r = 3 - int i \<and> 1000 \<le> waitedMs r))"
    by (rule waitForIdle_returns [of "\<lambda>k. 250 * int k" 250]) auto
  then show ?thesis by (auto split: if_splits)
qed

end
