(* ===== verification/Pacing.thy ===== *)
theory Pacing
  imports Sessions Timers
begin

text \<open>
  The rate governor (\<open>pacing.ts\<close> and the step of \<open>proxy.ts\<close> that waits on it): the three delays, the
  resolution of their settings, the clocks of each seat, and a request's two moments - it reads the
  clock and computes its wait, and when the wait is over it stamps the clock and goes out. A sample of
  the random source is an argument between 0 and 1.
\<close>

section \<open>Delays\<close>

record pacing_config =
  pc_minGapMs :: int
  pc_jitterMs :: int

record think_config =
  tc_baseMs :: int
  tc_perTokenMs :: int
  tc_jitterMs :: int
  tc_maxMs :: int

record start_config =
  st_minMs :: int
  st_jitterMs :: int

definition jitter_sample :: "ratio \<Rightarrow> int \<Rightarrow> int" where
  "jitter_sample rng jitter = (if jitter > 0 then \<lfloor>rng * of_int jitter\<rfloor> else 0)"

definition computePacingDelay :: "ms \<Rightarrow> ms \<Rightarrow> pacing_config \<Rightarrow> ratio \<Rightarrow> ms" where
  "computePacingDelay now lastRequestTime cfg rng =
     (if lastRequestTime \<le> 0 then 0
      else
        let minGap = max 0 (pc_minGapMs cfg);
            jitter = max 0 (pc_jitterMs cfg);
            effectiveGap = minGap + jitter_sample rng jitter;
            elapsed = now - lastRequestTime
        in if elapsed \<ge> effectiveGap then 0 else effectiveGap - elapsed)"

definition computeThinkTimeDelay :: "ms \<Rightarrow> ms \<Rightarrow> int \<Rightarrow> think_config \<Rightarrow> ratio \<Rightarrow> ms" where
  "computeThinkTimeDelay now lastResponseTime lastResponseTokens cfg rng =
     (if lastResponseTime \<le> 0 then 0
      else
        let base = max 0 (tc_baseMs cfg);
            perToken = max 0 (tc_perTokenMs cfg);
            jitter = max 0 (tc_jitterMs cfg);
            cap = max 0 (tc_maxMs cfg);
            tokens = max 0 lastResponseTokens
        in if base = 0 \<and> perToken = 0 \<and> jitter = 0 then 0
           else
             let t = base + perToken * tokens + jitter_sample rng jitter;
                 t = (if cap > 0 \<and> t > cap then cap else t);
                 elapsed = now - lastResponseTime
             in if elapsed \<ge> t then 0 else t - elapsed)"

definition computeSessionStartDelay :: "start_config \<Rightarrow> ratio \<Rightarrow> ms" where
  "computeSessionStartDelay cfg rng =
     (let mn = max 0 (st_minMs cfg);
          jitter = max 0 (st_jitterMs cfg)
      in if mn = 0 \<and> jitter = 0 then 0 else mn + jitter_sample rng jitter)"

section \<open>Settings\<close>

definition resolvePacingConfig :: "jsnum option \<Rightarrow> jsnum option \<Rightarrow> bool \<Rightarrow> (string \<Rightarrow> string option) \<Rightarrow> pacing_config" where
  "resolvePacingConfig minGap jitter stealth env =
     \<lparr>pc_minGapMs = opt_or (pickNonNegativeInt [number_candidate minGap, text_candidate (env ''DARIO_PACE_MIN_MS''),
                                                text_candidate (env ''DARIO_MIN_INTERVAL_MS'')]) 500,
      pc_jitterMs = opt_or (pickNonNegativeInt [number_candidate jitter, text_candidate (env ''DARIO_PACE_JITTER_MS'')])
                      (if stealth then 300 else 0)\<rparr>"

definition resolveThinkTimeConfig ::
  "jsnum option \<Rightarrow> jsnum option \<Rightarrow> jsnum option \<Rightarrow> jsnum option \<Rightarrow> bool \<Rightarrow> (string \<Rightarrow> string option) \<Rightarrow> think_config" where
  "resolveThinkTimeConfig base perToken jitter cap stealth env =
     \<lparr>tc_baseMs = opt_or (pickNonNegativeInt [number_candidate base, text_candidate (env ''DARIO_THINK_TIME_BASE_MS'')])
                    (if stealth then 800 else 0),
      tc_perTokenMs = opt_or (pickNonNegativeInt [number_candidate perToken, text_candidate (env ''DARIO_THINK_TIME_PER_TOKEN_MS'')])
                    (if stealth then 4 else 0),
      tc_jitterMs = opt_or (pickNonNegativeInt [number_candidate jitter, text_candidate (env ''DARIO_THINK_TIME_JITTER_MS'')])
                    (if stealth then 1500 else 0),
      tc_maxMs = opt_or (pickNonNegativeInt [number_candidate cap, text_candidate (env ''DARIO_THINK_TIME_MAX_MS'')])
                    (if stealth then 25000 else 30000)\<rparr>"

definition resolveSessionStartConfig :: "jsnum option \<Rightarrow> jsnum option \<Rightarrow> bool \<Rightarrow> (string \<Rightarrow> string option) \<Rightarrow> start_config" where
  "resolveSessionStartConfig mn jitter stealth env =
     \<lparr>st_minMs = opt_or (pickNonNegativeInt [number_candidate mn, text_candidate (env ''DARIO_SESSION_START_MIN_MS'')])
                   (if stealth then 1200 else 0),
      st_jitterMs = opt_or (pickNonNegativeInt [number_candidate jitter, text_candidate (env ''DARIO_SESSION_START_JITTER_MS'')])
                   (if stealth then 3000 else 0)\<rparr>"

section \<open>The clocks\<close>

record seat_clock =
  lastRequestTime :: ms
  lastResponseTime :: ms
  lastResponseTokens :: int

type_synonym pacing_clocks = "(string, seat_clock) jsmap"

definition fresh_clock :: seat_clock where
  "fresh_clock = \<lparr>lastRequestTime = 0, lastResponseTime = 0, lastResponseTokens = 0\<rparr>"

definition clock_seat :: "string \<Rightarrow> pacing_clocks \<Rightarrow> seat_clock \<times> pacing_clocks" where
  "clock_seat key m =
     (case map_of m key of
        Some s \<Rightarrow> (s, m)
      | None \<Rightarrow> (fresh_clock, AList.update key fresh_clock m))"

definition clock_noteResponse :: "string \<Rightarrow> ms \<Rightarrow> int \<Rightarrow> pacing_clocks \<Rightarrow> pacing_clocks" where
  "clock_noteResponse key t outputTokens m =
     (let (s, m1) = clock_seat key m
      in AList.update key (s\<lparr>lastResponseTime := t, lastResponseTokens := outputTokens\<rparr>) m1)"

section \<open>A request of the proxy\<close>

record governor =
  gv_pacing :: pacing_config
  gv_think :: think_config
  gv_thinkEnabled :: bool
  gv_start :: start_config
  gv_startEnabled :: bool

record rng_samples =
  rs_pacing :: ratio
  rs_think :: ratio
  rs_start :: ratio

text \<open>The wait computed when the request reaches the governor, and what the timer is armed with.\<close>

definition totalDelay :: "governor \<Rightarrow> rng_samples \<Rightarrow> ms \<Rightarrow> seat_clock \<Rightarrow> ms" where
  "totalDelay g r now c =
     (let pacingDelay = computePacingDelay now (lastRequestTime c) (gv_pacing g) (rs_pacing r);
          thinkDelay = (if gv_thinkEnabled g
            then computeThinkTimeDelay now (lastResponseTime c) (lastResponseTokens c) (gv_think g) (rs_think r) else 0);
          startDelay = (if gv_startEnabled g \<and> lastResponseTime c = 0 \<and> lastRequestTime c = 0
            then computeSessionStartDelay (gv_start g) (rs_start r) else 0)
      in max (max pacingDelay thinkDelay) startDelay)"

definition pacing_wait :: "governor \<Rightarrow> rng_samples \<Rightarrow> ms \<Rightarrow> seat_clock \<Rightarrow> ms" where
  "pacing_wait g r now c = (let d = totalDelay g r now c in if d > 0 then \<lfloor>clampTimerMs (Fin (of_int d))\<rfloor> else 0)"

text \<open>The request goes out at \<open>t\<close>.\<close>

definition stamp_request :: "string \<Rightarrow> ms \<Rightarrow> pacing_clocks \<Rightarrow> pacing_clocks" where
  "stamp_request key t m = (let (s, m1) = clock_seat key m in AList.update key (s\<lparr>lastRequestTime := t\<rparr>) m1)"

section \<open>The clocks as a map\<close>

lemma clock_seat_get: "map_of (snd (clock_seat key m)) key = Some (fst (clock_seat key m))"
  by (simp add: clock_seat_def jm.get_put split: option.split)

lemma stamp_request_get:
  "map_of (stamp_request key t m) = (map_of m)(key \<mapsto> (fst (clock_seat key m))\<lparr>lastRequestTime := t\<rparr>)"
  by (auto simp: stamp_request_def Let_def split_def jm.get_put clock_seat_def split: option.split)

lemma noteResponse_get:
  "map_of (clock_noteResponse key t n m) =
     (map_of m)(key \<mapsto> (fst (clock_seat key m))\<lparr>lastResponseTime := t, lastResponseTokens := n\<rparr>)"
  by (auto simp: clock_noteResponse_def Let_def split_def jm.get_put clock_seat_def split: option.split)

section \<open>The gap\<close>

definition gap_of :: "governor \<Rightarrow> ms" where
  "gap_of g = max 0 (pc_minGapMs (gv_pacing g))"

lemma jitter_nonneg: "0 \<le> rng \<Longrightarrow> 0 \<le> jitter_sample rng j"
  by (simp add: jitter_sample_def)

lemma pacing_delay_gap:
  "0 \<le> rng \<Longrightarrow> 0 < t0 \<Longrightarrow> t0 + max 0 (pc_minGapMs cfg) \<le> now + computePacingDelay now t0 cfg rng"
  using jitter_nonneg [of rng "max 0 (pc_jitterMs cfg)"] by (auto simp: computePacingDelay_def Let_def)

lemma totalDelay_ge:
  "computePacingDelay now (lastRequestTime c) (gv_pacing g) (rs_pacing r) \<le> totalDelay g r now c"
  by (simp add: totalDelay_def Let_def)

lemma pacing_wait_eq:
  "pacing_wait g r now c = min (max 0 (totalDelay g r now c)) (2 ^ 31 - 1)"
proof -
  have "\<lfloor>2 ^ 31 - 1 :: rat\<rfloor> = 2 ^ 31 - 1"
    using floor_of_int [of "2 ^ 31 - 1", where ?'a = rat] by simp
  moreover have "(of_int d :: rat) \<ge> 2 ^ 31 - 1 \<longleftrightarrow> d \<ge> 2 ^ 31 - 1" for d :: int
    using of_int_le_iff [of "2 ^ 31 - 1" d, where ?'a = rat] by simp
  ultimately show ?thesis
    by (simp add: pacing_wait_def clampTimerMs_def MAX_TIMER_MS_def Let_def min_def max_def)
qed

text \<open>
  One seat's requests when each reads the clock after the one before it was stamped, responses in between:
  a request with its arrival, how late its timer fires and its samples.
\<close>

datatype pacing_event =
    Request ms ms rng_samples
  | Response ms int

fun sent_times :: "governor \<Rightarrow> string \<Rightarrow> pacing_event list \<Rightarrow> pacing_clocks \<Rightarrow> ms list" where
  "sent_times g key [] m = []"
| "sent_times g key (Request a late r # es) m =
     (let t = a + pacing_wait g r a (fst (clock_seat key m)) + late
      in t # sent_times g key es (stamp_request key t (snd (clock_seat key m))))"
| "sent_times g key (Response t n # es) m = sent_times g key es (clock_noteResponse key t n m)"

fun event_ok :: "pacing_event \<Rightarrow> bool" where
  "event_ok (Request a late r) = (0 < a \<and> 0 \<le> late \<and> 0 \<le> rs_pacing r)"
| "event_ok (Response t n) = True"

lemma pacing_wait_nonneg: "0 \<le> pacing_wait g r a c"
  by (simp add: pacing_wait_eq)

lemma wait_reaches_gap:
  assumes "0 < lastRequestTime c" and "0 \<le> rs_pacing r" and "lastRequestTime c \<le> a" and "gap_of g \<le> 2 ^ 31 - 1"
  shows "lastRequestTime c + gap_of g \<le> a + pacing_wait g r a c"
  using pacing_delay_gap [OF assms(2,1), of "gv_pacing g" a] totalDelay_ge [of a c g r] assms(3,4)
  unfolding pacing_wait_eq gap_of_def by linarith

text \<open>The arrivals follow the clock: none is stamped before the request ahead of it was sent.\<close>

fun in_turn :: "governor \<Rightarrow> string \<Rightarrow> pacing_event list \<Rightarrow> pacing_clocks \<Rightarrow> bool" where
  "in_turn g key [] m = True"
| "in_turn g key (Request a late r # es) m =
     (let (c, m1) = clock_seat key m
      in lastRequestTime c \<le> a \<and> in_turn g key es (stamp_request key (a + pacing_wait g r a c + late) m1))"
| "in_turn g key (Response t n # es) m = in_turn g key es (clock_noteResponse key t n m)"

lemma clock_after_stamp: "fst (clock_seat key (stamp_request key t m)) = (fst (clock_seat key m))\<lparr>lastRequestTime := t\<rparr>"
  by (simp add: clock_seat_def [of key "stamp_request key t m"] stamp_request_get)

lemma clock_after_note:
  "fst (clock_seat key (clock_noteResponse key t n m)) = (fst (clock_seat key m))\<lparr>lastResponseTime := t, lastResponseTokens := n\<rparr>"
  by (simp add: clock_seat_def [of key "clock_noteResponse key t n m"] noteResponse_get)

lemma clock_seat_again: "fst (clock_seat key (snd (clock_seat key m))) = fst (clock_seat key m)"
  by (simp add: clock_seat_def jm.get_put split: option.split)

lemma sent_times_gap:
  assumes "list_all event_ok es" and "in_turn g key es m" and "gap_of g \<le> 2 ^ 31 - 1"
  shows "successively (\<lambda>t u. t + gap_of g \<le> u) (sent_times g key es m)
    \<and> (lastRequestTime (fst (clock_seat key m)) > 0 \<and> sent_times g key es m \<noteq> [] \<longrightarrow>
        lastRequestTime (fst (clock_seat key m)) + gap_of g \<le> hd (sent_times g key es m))"
  using assms(1,2)
proof (induction es arbitrary: m)
  case Nil
  then show ?case by simp
next
  case (Cons e es)
  show ?case
  proof (cases e)
    case (Response t n)
    with Cons.IH [of "clock_noteResponse key t n m"] Cons.prems show ?thesis
      by (simp add: clock_after_note)
  next
    case (Request a late r)
    define c where "c = fst (clock_seat key m)"
    define t where "t = a + pacing_wait g r a c + late"
    define m1 where "m1 = stamp_request key t (snd (clock_seat key m))"
    have ok: "0 < a" "0 \<le> late" "0 \<le> rs_pacing r" "lastRequestTime c \<le> a" "list_all event_ok es" "in_turn g key es m1"
      using Cons.prems Request by (auto simp: c_def t_def m1_def Let_def split_def)
    have pos: "0 < t" using ok pacing_wait_nonneg [of g r a c] by (simp add: t_def)
    have clk: "lastRequestTime (fst (clock_seat key m1)) = t" by (simp add: m1_def clock_after_stamp)
    note ih = Cons.IH [OF ok(5,6), unfolded clk]
    have s: "sent_times g key (e # es) m = t # sent_times g key es m1"
      using Request by (simp add: Let_def c_def t_def m1_def)
    have "lastRequestTime c > 0 \<Longrightarrow> lastRequestTime c + gap_of g \<le> t"
      using wait_reaches_gap [OF _ ok(3,4) assms(3)] ok(2) by (simp add: t_def)
    then show ?thesis
      using ih pos unfolding s c_def [symmetric] by (cases "sent_times g key es m1") auto
  qed
qed

text \<open>
  C37. The floor holds for requests that take turns. When each request of a seat reads the clock after the one
  before it was sent, any two consecutive ones leave at least the configured gap apart, whatever the samples,
  responses and timer lateness in between, as long as the gap fits a timer.
\<close>

theorem pacing_floor_holds:
  assumes "list_all event_ok es" and "in_turn g key es m" and "gap_of g \<le> 2 ^ 31 - 1"
  shows "successively (\<lambda>t u. t + gap_of g \<le> u) (sent_times g key es m)"
  using sent_times_gap [OF assms] by blast

definition plain_governor :: governor where
  "plain_governor = \<lparr>gv_pacing = resolvePacingConfig None None False (\<lambda>_. None), gv_think = resolveThinkTimeConfig None None None None False (\<lambda>_. None),
     gv_thinkEnabled = False, gv_start = resolveSessionStartConfig None None False (\<lambda>_. None), gv_startEnabled = False\<rparr>"

definition half :: rng_samples where
  "half = \<lparr>rs_pacing = 1 / 2, rs_think = 1 / 2, rs_start = 1 / 2\<rparr>"

theorem pacing_floor_holds_witness:
  "successively (\<lambda>t u. t + 500 \<le> u) (sent_times plain_governor ''a'' [Request 1000 0 half, Request 1200 3 half, Response 1900 7, Request 2600 0 half] [])"
proof -
  have a: "list_all event_ok [Request 1000 0 half, Request 1200 3 half, Response 1900 7, Request 2600 0 half]" by code_simp
  have b: "in_turn plain_governor ''a'' [Request 1000 0 half, Request 1200 3 half, Response 1900 7, Request 2600 0 half] []" by code_simp
  have c: "gap_of plain_governor = 500" by code_simp
  from pacing_floor_holds [OF a b] c show ?thesis by simp
qed

text \<open>
  Requests that overlap bunch. The clock is stamped only when a request leaves, so requests that reach the
  governor of a seat within the gap of the last one sent all compute the same moment: without jitter they
  leave together, at distance zero, however many they are.
\<close>

theorem overlapping_requests_bunch:
  assumes "0 < lastRequestTime c" and "pc_jitterMs (gv_pacing g) \<le> 0" and "\<not> gv_thinkEnabled g" and "gap_of g \<le> 2 ^ 31 - 1"
    and "\<forall>a \<in> set arrivals. lastRequestTime c \<le> a \<and> a < lastRequestTime c + gap_of g"
  shows "map (\<lambda>a. a + pacing_wait g r a c) arrivals = replicate (length arrivals) (lastRequestTime c + gap_of g)"
proof -
  have "a + pacing_wait g r a c = lastRequestTime c + gap_of g" if "a \<in> set arrivals" for a
  proof -
    have "totalDelay g r a c = lastRequestTime c + gap_of g - a"
      using assms(1-3) bspec [OF assms(5) that]
      by (auto simp: totalDelay_def computePacingDelay_def jitter_sample_def Let_def gap_of_def max_def split: if_splits)
    then show ?thesis using bspec [OF assms(5) that] assms(4) by (simp add: pacing_wait_eq)
  qed
  then show ?thesis by (simp add: map_replicate_const [symmetric])
qed

theorem overlapping_requests_bunch_witness:
  "map (\<lambda>a. a + pacing_wait plain_governor half a (fresh_clock\<lparr>lastRequestTime := 1000\<rparr>)) [1000, 1200, 1499] = [1500, 1500, 1500]"
proof -
  let ?c = "fresh_clock\<lparr>lastRequestTime := 1000\<rparr>"
  have g: "gap_of plain_governor = 500" "pc_jitterMs (gv_pacing plain_governor) = 0" "gv_thinkEnabled plain_governor = False"
    by code_simp+
  have "\<forall>a \<in> set [1000, 1200, 1499 :: ms]. lastRequestTime ?c \<le> a \<and> a < lastRequestTime ?c + gap_of plain_governor"
    by (simp add: g)
  from overlapping_requests_bunch [OF _ _ _ _ this, of half] g show ?thesis by (simp add: numeral_eq_Suc)
qed

end
