(* ===== verification/Pool_Snapshot.thy ===== *)
theory Pool_Snapshot
  imports Js_Text
begin

text \<open>
  The rate-limit reading of one seat (\<open>src/pool.ts\<close>): its fields, how a response's headers become
  one, what a seat has learned about per-model buckets, and the headroom routing reads from it.
  A clock the source reads with \<open>Date.now()\<close> is the argument \<open>now\<close>; one synchronous call reads it
  once. \<open>Date.parse\<close> is the argument \<open>date_parse\<close>, \<open>None\<close> for \<open>NaN\<close>.
\<close>

section \<open>The snapshot\<close>

record rate_limit_snapshot =
  rl_status :: string
  util5h :: ratio
  util7d :: ratio
  perModel7d :: "(string, ratio) jsmap"
  reset7d :: "int option"
  overageUtil :: ratio
  rl_claim :: string
  rl_reset :: int
  fallbackPct :: ratio
  updatedAt :: ms
  retryAfterMs :: "ms option"
  exhausted :: "bool option"
  cooldownUntil :: "ms option"
  boundBuckets :: "(string, string list) jsmap option"
  parkedBuckets :: "string list option"
  parkedBucketsUntil :: "ms option"
  seatStatus :: "string option"

definition EMPTY_SNAPSHOT :: rate_limit_snapshot where
  "EMPTY_SNAPSHOT =
     \<lparr> rl_status = ''unknown'', util5h = 0, util7d = 0, perModel7d = [], reset7d = None,
       overageUtil = 0, rl_claim = ''unknown'', rl_reset = 0, fallbackPct = 0, updatedAt = 0,
       retryAfterMs = None, exhausted = None, cooldownUntil = None, boundBuckets = None,
       parkedBuckets = None, parkedBucketsUntil = None, seatStatus = None \<rparr>"

text \<open>\<open>utilFreshness\<close>: when the reading was taken, and its age.\<close>

definition utilFreshness :: "rate_limit_snapshot \<Rightarrow> ms \<Rightarrow> ms option \<times> ms option" where
  "utilFreshness rl now =
     (let obs = (if updatedAt rl = 0 then None else Some (updatedAt rl))
      in (obs, map_option (\<lambda>t. max 0 (now - t)) obs))"

text \<open>\<open>rateLimitWindow\<close>: the reset in milliseconds and how long until it.\<close>

definition rateLimitWindow :: "rate_limit_snapshot \<Rightarrow> ms \<Rightarrow> ms option \<times> ms option" where
  "rateLimitWindow rl now =
     (if \<not> 0 < rl_reset rl then (None, None)
      else let resetAt = rl_reset rl * 1000 in (Some resetAt, Some (max 0 (resetAt - now))))"

definition maskEmail :: "string option \<Rightarrow> string option" where
  "maskEmail email =
     (case email of
        None \<Rightarrow> None
      | Some e \<Rightarrow>
          (case split_on CHR ''@'' e of
             user # domain # _ \<Rightarrow> Some (take 2 user @ ''***@'' @ domain)
           | _ \<Rightarrow> None))"

section \<open>Parsing a response\<close>

definition parseRetryAfterMs :: "(string \<Rightarrow> ms option) \<Rightarrow> string option \<Rightarrow> ms \<Rightarrow> ms option" where
  "parseRetryAfterMs date_parse v now =
     (case truthy v of
        None \<Rightarrow> None
      | Some s \<Rightarrow>
          (case js_number s of
             Fin secs \<Rightarrow> (if 0 \<le> secs then Some (js_round (secs * 1000))
                          else map_option (\<lambda>t. max 0 (t - now)) (date_parse s))
           | _ \<Rightarrow> map_option (\<lambda>t. max 0 (t - now)) (date_parse s)))"

text \<open>Which wire buckets bind which family when the wire does not say it by name.\<close>

definition WIRE_BUCKET_BINDINGS :: "(string, string list) jsmap" where
  "WIRE_BUCKET_BINDINGS = [(''oi'', [''fable''])]"

definition KNOWN_FAMILIES :: "string list" where
  "KNOWN_FAMILIES = [''opus'', ''sonnet'', ''haiku'', ''fable'']"

text \<open>\<open>for (const b of bs) if (!list.includes(b)) list.push(b)\<close>\<close>

definition push_new :: "string list \<Rightarrow> string list \<Rightarrow> string list" where
  "push_new l bs = foldl (\<lambda>l b. if b \<in> set l then l else l @ [b]) l bs"

definition merge_entry ::
  "(string, string list) jsmap \<Rightarrow> string \<times> string list \<Rightarrow> (string, string list) jsmap" where
  "merge_entry out e =
     AList.update (fst e)
       (push_new (opt_list (map_of out (fst e))) (snd e)) out"

definition mergeBoundBuckets ::
  "(string, string list) jsmap option \<Rightarrow> (string, string list) jsmap option
     \<Rightarrow> (string, string list) jsmap option" where
  "mergeBoundBuckets prev nxt =
     (case (prev, nxt) of
        (None, _) \<Rightarrow> nxt
      | (_, None) \<Rightarrow> prev
      | (Some p, Some n) \<Rightarrow> Some (foldl merge_entry [] (p @ n)))"

definition withBoundBuckets :: "rate_limit_snapshot \<Rightarrow> rate_limit_snapshot \<Rightarrow> rate_limit_snapshot" where
  "withBoundBuckets prev nxt =
     (case mergeBoundBuckets (boundBuckets prev) (boundBuckets nxt) of
        Some m \<Rightarrow> nxt\<lparr>boundBuckets := Some m\<rparr>
      | None \<Rightarrow> nxt)"

text \<open>
  The two header patterns. A match is the part between a fixed prefix and a fixed suffix, made of
  letters, digits and hyphens; the pattern ignores case and the caller lowers the match.
\<close>

definition is_bucket_char :: "char \<Rightarrow> bool" where
  "is_bucket_char c \<longleftrightarrow> is_digit c \<or> is_lower c \<or> c = CHR ''-''"

definition bucket_header :: "string \<Rightarrow> string \<Rightarrow> string option" where
  "bucket_header suffix k =
     (case between ''anthropic-ratelimit-unified-7d_'' suffix (to_lower k) of
        Some m \<Rightarrow> (if m \<noteq> [] \<and> list_all is_bucket_char m then Some m else None)
      | None \<Rightarrow> None)"

definition scan_header ::
  "(string, ratio) jsmap \<times> string list \<Rightarrow> string \<times> string \<Rightarrow> (string, ratio) jsmap \<times> string list" where
  "scan_header acc h =
     (case bucket_header ''-utilization'' (fst h) of
        Some b \<Rightarrow> (AList.update b (float_or_zero (snd h)) (fst acc), snd acc)
      | None \<Rightarrow>
          (case bucket_header ''-status'' (fst h) of
             Some b \<Rightarrow> (if to_lower (trim (snd h)) = ''rejected'' then (fst acc, snd acc @ [b]) else acc)
           | None \<Rightarrow> acc))"

definition scan_headers :: "(string \<times> string) list \<Rightarrow> (string, ratio) jsmap \<times> string list" where
  "scan_headers hs = foldl scan_header ([], []) hs"

definition header_get :: "(string \<times> string) list \<Rightarrow> string \<Rightarrow> string" where
  "header_get hs key = opt_list (map_of hs (''anthropic-ratelimit-unified-'' @ key))"

definition or_unknown :: "string \<Rightarrow> string" where
  "or_unknown s = (if s = [] then ''unknown'' else s)"

definition seat_status_of :: "(string \<times> string) list \<Rightarrow> string option" where
  "seat_status_of hs =
     (let ws = filter (\<lambda>s. s \<noteq> [])
                 (map (\<lambda>k. to_lower (trim (header_get hs k))) [''5h-status'', ''7d-status''])
      in case ws of
           [] \<Rightarrow> None
         | w # _ \<Rightarrow> Some (if ''rejected'' \<in> set ws then ''rejected''
                          else if ''allowed_warning'' \<in> set ws then ''allowed_warning'' else w))"

text \<open>What one response proves about which buckets bind the family it was for.\<close>

definition learned_buckets ::
  "string \<Rightarrow> (string, ratio) jsmap \<Rightarrow> string list \<Rightarrow> string list" where
  "learned_buckets clm pm rejected =
     push_new (if ends_with clm ''_overage_included'' \<and> map_of pm ''oi'' \<noteq> None then [''oi''] else [])
       (filter (\<lambda>b. map_of pm b \<noteq> None) rejected)"

definition parseRateLimits ::
  "(string \<Rightarrow> ms option) \<Rightarrow> (string \<times> string) list \<Rightarrow> string option \<Rightarrow> ms \<Rightarrow> rate_limit_snapshot" where
  "parseRateLimits date_parse hs family now =
     (let (pm, rejected) = scan_headers hs;
          clm = or_unknown (header_get hs ''representative-claim'');
          bound = (case truthy family of
                     None \<Rightarrow> None
                   | Some f \<Rightarrow> (case learned_buckets clm pm rejected of [] \<Rightarrow> None | bs \<Rightarrow> Some [(f, bs)]))
      in \<lparr> rl_status = or_unknown (header_get hs ''status''),
           util5h = float_or_zero (header_get hs ''5h-utilization''),
           util7d = float_or_zero (header_get hs ''7d-utilization''),
           perModel7d = pm,
           reset7d = Some (int10_or_zero (header_get hs ''7d-reset'')),
           overageUtil = float_or_zero (header_get hs ''overage-utilization''),
           rl_claim = clm,
           rl_reset = int_or_zero (header_get hs ''reset''),
           fallbackPct = float_or_zero (header_get hs ''fallback-percentage''),
           updatedAt = now,
           retryAfterMs = parseRetryAfterMs date_parse (map_of hs ''retry-after'') now,
           exhausted = None, cooldownUntil = None, boundBuckets = bound,
           parkedBuckets = None, parkedBucketsUntil = None,
           seatStatus = seat_status_of hs \<rparr>)"

section \<open>What a 429 says\<close>

definition isUnifiedWindowRejection :: "rate_limit_snapshot \<Rightarrow> bool" where
  "isUnifiedWindowRejection rl \<longleftrightarrow> util5h rl \<ge> 99 / 100 \<or> util7d rl \<ge> 99 / 100"

definition exhaustedBuckets :: "rate_limit_snapshot \<Rightarrow> string list" where
  "exhaustedBuckets rl = map fst (filter (\<lambda>e. snd e \<ge> 99 / 100) (perModel7d rl))"

definition isWindowRejection :: "rate_limit_snapshot \<Rightarrow> bool" where
  "isWindowRejection rl \<longleftrightarrow> isUnifiedWindowRejection rl \<or> length (exhaustedBuckets rl) > 0"

definition NON_WINDOW_REJECTION_COOLDOWN_MS :: ms where
  "NON_WINDOW_REJECTION_COOLDOWN_MS = 60000"

definition modelFamily :: "string option \<Rightarrow> string option" where
  "modelFamily modelId =
     (case truthy modelId of
        None \<Rightarrow> None
      | Some i \<Rightarrow>
          (let m = to_lower i
           in if has_sub m ''opus'' then Some ''opus''
              else if has_sub m ''sonnet'' then Some ''sonnet''
              else if has_sub m ''haiku'' then Some ''haiku''
              else if has_sub m ''fable'' then Some ''fable''
              else None))"

definition rateLimitWindowPassed :: "rate_limit_snapshot \<Rightarrow> ms \<Rightarrow> bool" where
  "rateLimitWindowPassed rl now \<longleftrightarrow>
     (if exhausted rl = Some False
      then \<not> (case cooldownUntil rl of None \<Rightarrow> False | Some c \<Rightarrow> now < c)
      else rl_reset rl > 0 \<and> rl_reset rl * 1000 \<le> now)"

section \<open>Buckets that bind a family\<close>

definition bucketsBindingFamily :: "rate_limit_snapshot \<Rightarrow> string \<Rightarrow> string list" where
  "bucketsBindingFamily rl family =
     (let out = foldl (\<lambda>out e. if family \<in> set (snd e) \<and> fst e \<notin> set out then out @ [fst e] else out)
                  [family] WIRE_BUCKET_BINDINGS
      in push_new out
           (case boundBuckets rl of
              None \<Rightarrow> []
            | Some m \<Rightarrow> (case map_of m family of None \<Rightarrow> [] | Some bs \<Rightarrow> bs)))"

definition families_of_bucket :: "rate_limit_snapshot \<Rightarrow> string \<Rightarrow> string list" where
  "families_of_bucket rl b =
     (if b \<in> set KNOWN_FAMILIES then [b] else [])
     @ (case map_of WIRE_BUCKET_BINDINGS b of None \<Rightarrow> [] | Some fs \<Rightarrow> fs)
     @ map fst (filter (\<lambda>e. b \<in> set (snd e)) (case boundBuckets rl of None \<Rightarrow> [] | Some m \<Rightarrow> m))"

definition familiesBoundToBuckets :: "rate_limit_snapshot \<Rightarrow> string list \<Rightarrow> string list" where
  "familiesBoundToBuckets rl buckets = push_new [] (concat (map (families_of_bucket rl) buckets))"

definition isBucketScopedRejection :: "rate_limit_snapshot \<Rightarrow> bool" where
  "isBucketScopedRejection rl \<longleftrightarrow>
     rl_status rl = ''rejected'' \<and> exhausted rl \<noteq> Some False
     \<and> (case parkedBuckets rl of None \<Rightarrow> 0 | Some bs \<Rightarrow> length bs) > 0"

definition activeParkedBuckets :: "rate_limit_snapshot \<Rightarrow> ms \<Rightarrow> string list" where
  "activeParkedBuckets rl now =
     (case parkedBuckets rl of
        None \<Rightarrow> []
      | Some bs \<Rightarrow>
          (case parkedBucketsUntil rl of
             None \<Rightarrow> []
           | Some u \<Rightarrow> (if bs = [] \<or> u \<le> now then [] else bs)))"

definition familyParkedOnBuckets :: "rate_limit_snapshot \<Rightarrow> string option \<Rightarrow> ms \<Rightarrow> bool" where
  "familyParkedOnBuckets rl family now \<longleftrightarrow>
     (case truthy family of
        None \<Rightarrow> False
      | Some f \<Rightarrow>
          (let parked = activeParkedBuckets rl now
           in parked \<noteq> [] \<and> list_ex (\<lambda>b. b \<in> set parked) (bucketsBindingFamily rl f)))"

definition withParkedBuckets ::
  "rate_limit_snapshot \<Rightarrow> rate_limit_snapshot \<Rightarrow> ms \<Rightarrow> rate_limit_snapshot" where
  "withParkedBuckets prev nxt now =
     (let parked = filter (\<lambda>b. \<not> (case map_of (perModel7d nxt) b of None \<Rightarrow> False | Some u \<Rightarrow> u < 99 / 100))
                     (activeParkedBuckets prev now)
      in if parked = [] then nxt
         else nxt\<lparr>parkedBuckets := Some parked, parkedBucketsUntil := parkedBucketsUntil prev\<rparr>)"

section \<open>Headroom\<close>

definition expireElapsedWindow :: "rate_limit_snapshot \<Rightarrow> ms \<Rightarrow> rate_limit_snapshot" where
  "expireElapsedWindow s now =
     (if \<not> (rl_reset s > 0 \<and> rl_reset s * 1000 \<le> now) then s
      else if rl_claim s = ''five_hour'' then s\<lparr>util5h := 0\<rparr>
      else if starts_with (rl_claim s) ''seven_day'' then s\<lparr>util7d := 0\<rparr>
      else s)"

text \<open>The utilisations of the buckets that bind a family and have been read.\<close>

definition family_utils :: "rate_limit_snapshot \<Rightarrow> string option \<Rightarrow> ratio list" where
  "family_utils rl family =
     (case truthy family of
        None \<Rightarrow> []
      | Some f \<Rightarrow> List.map_filter (map_of (perModel7d rl)) (bucketsBindingFamily rl f))"

definition computeHeadroom :: "rate_limit_snapshot \<Rightarrow> string option \<Rightarrow> ms \<Rightarrow> ratio" where
  "computeHeadroom snapshot family now =
     (let rl = expireElapsedWindow snapshot now
      in 1 - max_of (util5h rl) (util7d rl # family_utils rl family))"

text \<open>\<open>Number.EPSILON\<close> is \<open>2^-52\<close>.\<close>

definition isAboveHeadroomFloor :: "ratio \<Rightarrow> ratio \<Rightarrow> bool" where
  "isAboveHeadroomFloor headroom flr \<longleftrightarrow> headroom - flr > 1 / 2 ^ 52"

text \<open>
  The reset \<open>reset7d()\<close> of \<open>floorParkedUntil\<close>: the seat's own seven-day reset while it is ahead,
  else the representative one when the claim is a seven-day claim.
\<close>

definition floor_reset7d :: "rate_limit_snapshot \<Rightarrow> ms \<Rightarrow> ms" where
  "floor_reset7d rl now =
     (let r7 = opt_or (reset7d rl) 0 * 1000
      in if r7 > now then r7
         else if starts_with (rl_claim rl) ''seven_day'' then rl_reset rl * 1000 else 0)"

definition floor_resets ::
  "rate_limit_snapshot \<Rightarrow> string option \<Rightarrow> ratio \<Rightarrow> ms \<Rightarrow> ms list" where
  "floor_resets rl family flr now =
     (let limiting = (\<lambda>u. \<not> isAboveHeadroomFloor (1 - u) flr)
      in (if limiting (util5h rl)
          then [if rl_claim rl = ''five_hour'' then rl_reset rl * 1000 else 0] else [])
         @ (if limiting (util7d rl) then [floor_reset7d rl now] else [])
         @ map (\<lambda>_. floor_reset7d rl now) (filter limiting (family_utils rl family)))"

definition floorParkedUntil ::
  "rate_limit_snapshot \<Rightarrow> string option \<Rightarrow> ratio \<Rightarrow> ms \<Rightarrow> ms option" where
  "floorParkedUntil snapshot family flr now =
     (let known = filter (\<lambda>r. r > now) (floor_resets (expireElapsedWindow snapshot now) family flr now)
      in case known of [] \<Rightarrow> None | r # rs \<Rightarrow> Some (max_of r rs))"

section \<open>Lemmas: lists of buckets\<close>

lemma set_push_new [simp]: "set (push_new l bs) = set l \<union> set bs"
  unfolding push_new_def by (induction bs arbitrary: l) auto

lemma distinct_push_new: "distinct l \<Longrightarrow> distinct (push_new l bs)"
  unfolding push_new_def by (induction bs arbitrary: l) auto

lemma push_new_empty_iff: "push_new l bs = [] \<longleftrightarrow> l = [] \<and> bs = []"
  by (metis Un_empty set_empty set_push_new)

lemma set_bucketsBindingFamily:
  "set (bucketsBindingFamily rl f) =
     insert f ((if f = ''fable'' then {''oi''} else {})
       \<union> (case boundBuckets rl of None \<Rightarrow> {} | Some m \<Rightarrow> (case map_of m f of None \<Rightarrow> {} | Some bs \<Rightarrow> set bs)))"
  by (auto simp: bucketsBindingFamily_def WIRE_BUCKET_BINDINGS_def Let_def split: option.splits)

lemma bucketsBindingFamily_self [simp]: "f \<in> set (bucketsBindingFamily rl f)"
  by (simp add: set_bucketsBindingFamily)

lemma distinct_bucketsBindingFamily: "distinct (bucketsBindingFamily rl f)"
  unfolding bucketsBindingFamily_def Let_def
  by (rule distinct_push_new) (simp add: WIRE_BUCKET_BINDINGS_def)

lemma bucketsBindingFamily_cong:
  "boundBuckets rl = boundBuckets rl' \<Longrightarrow> bucketsBindingFamily rl f = bucketsBindingFamily rl' f"
  by (simp add: bucketsBindingFamily_def)

lemma map_of_merge_entry:
  "map_of (merge_entry out e) f =
     (if f = fst e
      then Some (push_new (opt_list (map_of out f)) (snd e))
      else map_of out f)"
  by (simp add: merge_entry_def jm.get_put)

text \<open>Everything learned for a family, as a set: the union over its entries.\<close>

definition bound_set :: "(string, string list) jsmap \<Rightarrow> string \<Rightarrow> string set" where
  "bound_set m f = (case map_of m f of None \<Rightarrow> {} | Some bs \<Rightarrow> set bs)"

lemma bound_set_merge_entry:
  "bound_set (merge_entry out e) f = bound_set out f \<union> (if f = fst e then set (snd e) else {})"
  by (auto simp: bound_set_def map_of_merge_entry split: option.splits)

lemma bound_set_foldl_merge:
  "bound_set (foldl merge_entry out es) f = bound_set out f \<union> (\<Union>e \<in> set es. if f = fst e then set (snd e) else {})"
  by (induction es arbitrary: out) (auto simp: bound_set_merge_entry)

lemma bound_set_entries:
  "map_wf m \<Longrightarrow> (\<Union>e \<in> set m. if f = fst e then set (snd e) else {}) = bound_set m f"
proof (induction m)
  case Nil
  show ?case by (simp add: bound_set_def)
next
  case (Cons e m)
  then have IH: "(\<Union>e \<in> set m. if f = fst e then set (snd e) else {}) = bound_set m f"
    by (simp add: map_wf_def)
  have "f = fst e \<Longrightarrow> bound_set m f = {}"
    using Cons.prems by (auto simp: bound_set_def map_wf_def split: option.splits dest: map_of_SomeD) (metis fst_conv image_eqI map_of_SomeD)
  with IH show ?case by (cases e) (auto simp: bound_set_def)
qed

definition opt_bound_set :: "(string, string list) jsmap option \<Rightarrow> string \<Rightarrow> string set" where
  "opt_bound_set m f = (case m of None \<Rightarrow> {} | Some m \<Rightarrow> bound_set m f)"

definition opt_map_wf :: "('k, 'v) jsmap option \<Rightarrow> bool" where
  "opt_map_wf m \<longleftrightarrow> (case m of None \<Rightarrow> True | Some m \<Rightarrow> map_wf m)"

lemma opt_bound_set_merge:
  assumes "opt_map_wf p" and "opt_map_wf n"
  shows "opt_bound_set (mergeBoundBuckets p n) f = opt_bound_set p f \<union> opt_bound_set n f"
proof (cases "p = None \<or> n = None")
  case True
  then show ?thesis by (auto simp: mergeBoundBuckets_def opt_bound_set_def split: option.splits)
next
  case False
  then obtain p' n' where "p = Some p'" "n = Some n'" by auto
  with assms show ?thesis
    using bound_set_entries [of p' f] bound_set_entries [of n' f]
    by (simp add: mergeBoundBuckets_def opt_bound_set_def opt_map_wf_def bound_set_foldl_merge
        bound_set_def [of "[]"])
qed

lemma set_bucketsBindingFamily_bound:
  "set (bucketsBindingFamily rl f) =
     insert f ((if f = ''fable'' then {''oi''} else {}) \<union> opt_bound_set (boundBuckets rl) f)"
  by (simp add: set_bucketsBindingFamily opt_bound_set_def bound_set_def cong: option.case_cong)

lemma boundBuckets_withBoundBuckets [simp]:
  "boundBuckets (withBoundBuckets p n) = mergeBoundBuckets (boundBuckets p) (boundBuckets n)"
  by (auto simp: withBoundBuckets_def mergeBoundBuckets_def split: option.splits)

lemma withBoundBuckets_frame [frame_simps, simp]:
  "rl_status (withBoundBuckets p n) = rl_status n"
  "util5h (withBoundBuckets p n) = util5h n"
  "util7d (withBoundBuckets p n) = util7d n"
  "perModel7d (withBoundBuckets p n) = perModel7d n"
  "reset7d (withBoundBuckets p n) = reset7d n"
  "rl_claim (withBoundBuckets p n) = rl_claim n"
  "rl_reset (withBoundBuckets p n) = rl_reset n"
  "exhausted (withBoundBuckets p n) = exhausted n"
  "cooldownUntil (withBoundBuckets p n) = cooldownUntil n"
  "parkedBuckets (withBoundBuckets p n) = parkedBuckets n"
  "parkedBucketsUntil (withBoundBuckets p n) = parkedBucketsUntil n"
  "updatedAt (withBoundBuckets p n) = updatedAt n"
  "retryAfterMs (withBoundBuckets p n) = retryAfterMs n"
  by (auto simp: withBoundBuckets_def split: option.splits)

lemma withParkedBuckets_frame [frame_simps, simp]:
  "rl_status (withParkedBuckets p n now) = rl_status n"
  "util5h (withParkedBuckets p n now) = util5h n"
  "util7d (withParkedBuckets p n now) = util7d n"
  "perModel7d (withParkedBuckets p n now) = perModel7d n"
  "reset7d (withParkedBuckets p n now) = reset7d n"
  "rl_claim (withParkedBuckets p n now) = rl_claim n"
  "rl_reset (withParkedBuckets p n now) = rl_reset n"
  "exhausted (withParkedBuckets p n now) = exhausted n"
  "cooldownUntil (withParkedBuckets p n now) = cooldownUntil n"
  "boundBuckets (withParkedBuckets p n now) = boundBuckets n"
  "updatedAt (withParkedBuckets p n now) = updatedAt n"
  by (simp_all add: withParkedBuckets_def Let_def)

section \<open>Lemmas: expiry and headroom\<close>

lemma expireElapsedWindow_frame [frame_simps, simp]:
  "perModel7d (expireElapsedWindow s now) = perModel7d s"
  "boundBuckets (expireElapsedWindow s now) = boundBuckets s"
  "rl_claim (expireElapsedWindow s now) = rl_claim s"
  "rl_reset (expireElapsedWindow s now) = rl_reset s"
  "reset7d (expireElapsedWindow s now) = reset7d s"
  by (simp_all add: expireElapsedWindow_def)

lemma family_utils_expire [simp]: "family_utils (expireElapsedWindow s now) f = family_utils s f"
  using bucketsBindingFamily_cong [of "expireElapsedWindow s now" s]
  by (simp add: family_utils_def split: option.split)

definition utils_nonneg :: "rate_limit_snapshot \<Rightarrow> bool" where
  "utils_nonneg s \<longleftrightarrow> 0 \<le> util5h s \<and> 0 \<le> util7d s"

lemma expire_util_antimono:
  assumes "utils_nonneg s" and "now \<le> now'"
  shows "util5h (expireElapsedWindow s now') \<le> util5h (expireElapsedWindow s now)"
    and "util7d (expireElapsedWindow s now') \<le> util7d (expireElapsedWindow s now)"
  using assms by (auto simp: expireElapsedWindow_def utils_nonneg_def)

lemma headroom_mono_time:
  assumes "utils_nonneg s" and "now \<le> now'"
  shows "computeHeadroom s f now \<le> computeHeadroom s f now'"
proof -
  let ?a = "expireElapsedWindow s now" and ?b = "expireElapsedWindow s now'"
  have "max_of (util5h ?b) (util7d ?b # family_utils s f) \<le> max_of (util5h ?a) (util7d ?a # family_utils s f)"
    using expire_util_antimono [OF assms] max_of_upper [of _ "util5h ?a" "util7d ?a # family_utils s f"]
    by (subst max_of_le_iff) force
  then show ?thesis by (simp add: computeHeadroom_def Let_def)
qed

text \<open>A seat is above the floor when every bucket the headroom counts is.\<close>

lemma above_floor_iff:
  "isAboveHeadroomFloor (computeHeadroom s f now) fl \<longleftrightarrow>
     (\<forall>u \<in> insert (util5h (expireElapsedWindow s now))
              (insert (util7d (expireElapsedWindow s now)) (set (family_utils s f))).
        isAboveHeadroomFloor (1 - u) fl)"
proof -
  let ?e = "expireElapsedWindow s now"
  let ?b = "1 - fl - 1 / 2 ^ 52 :: rat"
  have lim: "isAboveHeadroomFloor (1 - u) fl \<longleftrightarrow> u < ?b" for u
    unfolding isAboveHeadroomFloor_def by linarith
  have "isAboveHeadroomFloor (computeHeadroom s f now) fl \<longleftrightarrow>
        max_of (util5h ?e) (util7d ?e # family_utils s f) < ?b"
    unfolding computeHeadroom_def Let_def by (simp only: lim family_utils_expire)
  then show ?thesis
    unfolding lim by (simp only: max_of_less_iff) (simp del: max_of_simps)
qed

lemma floor_resets_not_above:
  assumes "floor_resets (expireElapsedWindow s now) f fl now \<noteq> []"
  shows "\<not> isAboveHeadroomFloor (computeHeadroom s f now) fl"
  using assms by (auto simp: above_floor_iff floor_resets_def Let_def filter_empty_conv split: if_splits)

lemma floorParkedUntil_Some:
  assumes "floorParkedUntil s f fl now = Some t"
  shows "now < t" and "\<not> isAboveHeadroomFloor (computeHeadroom s f now) fl"
proof -
  let ?rs = "floor_resets (expireElapsedWindow s now) f fl now"
  obtain r rs where f: "filter (\<lambda>r. r > now) ?rs = r # rs" and t: "t = max_of r rs"
    using assms by (auto simp: floorParkedUntil_def Let_def split: list.splits)
  have "r \<in> set (filter (\<lambda>r. r > now) ?rs)" using f by simp
  then show "\<not> isAboveHeadroomFloor (computeHeadroom s f now) fl"
    by (intro floor_resets_not_above) auto
  have "t \<in> set (filter (\<lambda>r. r > now) ?rs)" using max_of_in [of r rs] f t by simp
  then show "now < t" by simp
qed

section \<open>Lemmas: parked buckets\<close>

lemma isBucketScoped_iff:
  "isBucketScopedRejection rl \<longleftrightarrow>
     rl_status rl = ''rejected'' \<and> exhausted rl \<noteq> Some False
     \<and> (\<exists>bs. parkedBuckets rl = Some bs \<and> bs \<noteq> [])"
  by (auto simp: isBucketScopedRejection_def split: option.splits)

lemma activeParkedBuckets_iff:
  "activeParkedBuckets rl now \<noteq> [] \<longleftrightarrow>
     (\<exists>bs u. parkedBuckets rl = Some bs \<and> bs \<noteq> [] \<and> parkedBucketsUntil rl = Some u \<and> now < u)"
  by (auto simp: activeParkedBuckets_def split: option.splits)

lemma familyParked_None [simp]: "\<not> familyParkedOnBuckets rl None now"
  by (simp add: familyParkedOnBuckets_def)

lemma familyParked_iff:
  "familyParkedOnBuckets rl family now \<longleftrightarrow>
     (\<exists>f bs u b. truthy family = Some f \<and> parkedBuckets rl = Some bs \<and> parkedBucketsUntil rl = Some u
        \<and> now < u \<and> b \<in> set bs \<and> b \<in> set (bucketsBindingFamily rl f))"
  by (auto simp: familyParkedOnBuckets_def activeParkedBuckets_def list_ex_iff Let_def split: option.splits)

lemma familyParked_until:
  "familyParkedOnBuckets rl family now \<Longrightarrow> \<exists>u. parkedBucketsUntil rl = Some u \<and> now < u"
  by (auto simp: familyParked_iff)

lemma familyParked_antimono:
  "familyParkedOnBuckets rl family now' \<Longrightarrow> now \<le> now' \<Longrightarrow> familyParkedOnBuckets rl family now"
  by (fastforce simp: familyParked_iff)

lemma familyParked_cong:
  assumes "parkedBuckets rl = parkedBuckets rl'" "parkedBucketsUntil rl = parkedBucketsUntil rl'"
    and "boundBuckets rl = boundBuckets rl'"
  shows "familyParkedOnBuckets rl f now = familyParkedOnBuckets rl' f now"
  using assms bucketsBindingFamily_cong [of rl rl'] by (simp add: familyParked_iff)

end
