(* ===== verification/Pool_Seat.thy ===== *)
theory Pool_Seat
  imports Pool_Snapshot
begin

text \<open>
  One account of the pool (\<open>PoolAccount\<close> in \<open>src/pool.ts\<close>) and the predicates routing, the health
  surfaces and the operator listings share: the authentication cool-down, why a seat cannot serve,
  whether it may be asked at all, what status it reports and what the operator should do.
\<close>

section \<open>The account\<close>

record account_identity =
  deviceId :: string
  accountUuid :: string
  sessionId :: string

record pool_account =
  acc_alias :: string
  accessToken :: string
  refreshToken :: string
  expiresAt :: ms
  identity :: account_identity
  rateLimit :: rate_limit_snapshot
  requestCount :: nat
  rejectedCount :: nat
  lastRejectedAt :: "ms option"
  accountId :: "string option"
  accountEmail :: "string option"
  rateLimitTier :: "string option"
  seatTier :: "string option"
  organizationId :: "string option"
  adoptedFrom :: "string option"
  grantedAt :: "ms option"
  lastAuthFailureAt :: "ms option"
  consecutiveAuthFailures :: nat

section \<open>Authentication cool-down\<close>

definition AUTH_COOLDOWN_BASE_MS :: ms where
  "AUTH_COOLDOWN_BASE_MS = 60 * 1000"

definition AUTH_COOLDOWN_MAX_MS :: ms where
  "AUTH_COOLDOWN_MAX_MS = 30 * 60 * 1000"

definition authCooldownMs :: "nat \<Rightarrow> ms" where
  "authCooldownMs n =
     (if n = 0 then 0 else min (AUTH_COOLDOWN_BASE_MS * 2 ^ (n - 1)) AUTH_COOLDOWN_MAX_MS)"

text \<open>\<open>!account.lastAuthFailureAt\<close>: unset or zero.\<close>

definition never_failed :: "pool_account \<Rightarrow> bool" where
  "never_failed a \<longleftrightarrow> lastAuthFailureAt a = None \<or> lastAuthFailureAt a = Some 0"

definition isInAuthCooldown :: "pool_account \<Rightarrow> ms \<Rightarrow> bool" where
  "isInAuthCooldown a now \<longleftrightarrow>
     (case lastAuthFailureAt a of
        None \<Rightarrow> False
      | Some t \<Rightarrow> t \<noteq> 0 \<and> consecutiveAuthFailures a > 0
                  \<and> now - t < authCooldownMs (consecutiveAuthFailures a))"

section \<open>Eligibility\<close>

definition TOKEN_EXPIRY_MARGIN_MS :: ms where
  "TOKEN_EXPIRY_MARGIN_MS = 30000"

datatype account_ineligibility = Rate_limited | Token_expired | Auth_cooldown

definition accountIneligibility ::
  "pool_account \<Rightarrow> ms \<Rightarrow> string option \<Rightarrow> account_ineligibility option" where
  "accountIneligibility a now family =
     (let rl = rateLimit a in
      if rl_status rl = ''rejected'' \<and> \<not> rateLimitWindowPassed rl now
         \<and> (\<not> isBucketScopedRejection rl \<or> familyParkedOnBuckets rl family now)
      then Some Rate_limited
      else if \<not> (rl_status rl = ''rejected'' \<and> \<not> rateLimitWindowPassed rl now)
              \<and> familyParkedOnBuckets rl family now
      then Some Rate_limited
      else if expiresAt a \<le> now + TOKEN_EXPIRY_MARGIN_MS then Some Token_expired
      else if isInAuthCooldown a now then Some Auth_cooldown
      else None)"

definition isAccountEligible :: "pool_account \<Rightarrow> ms \<Rightarrow> string option \<Rightarrow> bool" where
  "isAccountEligible a now family \<longleftrightarrow> accountIneligibility a now family = None"

definition isParkedInLiveWindow :: "pool_account \<Rightarrow> ms \<Rightarrow> string option \<Rightarrow> bool" where
  "isParkedInLiveWindow a now family \<longleftrightarrow>
     (let rl = rateLimit a in
      if \<not> isBucketScopedRejection rl \<and> familyParkedOnBuckets rl family now then True
      else if \<not> (rl_status rl = ''rejected'' \<and> exhausted rl \<noteq> Some False
                  \<and> rl_reset rl > 0 \<and> rl_reset rl * 1000 > now) then False
      else if isBucketScopedRejection rl then familyParkedOnBuckets rl family now
      else True)"

definition isCoolingAfterRejection :: "pool_account \<Rightarrow> ms \<Rightarrow> bool" where
  "isCoolingAfterRejection a now \<longleftrightarrow>
     (let rl = rateLimit a in
      rl_status rl = ''rejected'' \<and> exhausted rl = Some False
      \<and> (case cooldownUntil rl of None \<Rightarrow> False | Some c \<Rightarrow> now < c))"

definition isProbeable :: "pool_account \<Rightarrow> ms \<Rightarrow> string option \<Rightarrow> bool" where
  "isProbeable a now family \<longleftrightarrow>
     \<not> isInAuthCooldown a now \<and> \<not> isParkedInLiveWindow a now family \<and> \<not> isCoolingAfterRejection a now"

datatype account_action = Act_none | Act_wait | Act_regrant

definition accountAction :: "pool_account \<Rightarrow> ms \<Rightarrow> account_action" where
  "accountAction a now =
     (if isInAuthCooldown a now
      then (if consecutiveAuthFailures a \<ge> 2 then Act_regrant else Act_wait)
      else if isParkedInLiveWindow a now None then Act_wait
      else Act_none)"

definition reportedAccountStatus :: "pool_account \<Rightarrow> ms \<Rightarrow> string" where
  "reportedAccountStatus a now =
     (let rl = rateLimit a in
      if isInAuthCooldown a now then ''auth-cooldown''
      else if rl_status rl = ''rejected'' \<and> rateLimitWindowPassed rl now then ''unknown''
      else if isBucketScopedRejection rl
      then (case seatStatus rl of None \<Rightarrow> ''unknown'' | Some s \<Rightarrow> s)
      else rl_status rl)"

section \<open>Accounts that are one subscription\<close>

definition truthy_id :: "pool_account \<Rightarrow> string option" where
  "truthy_id a = truthy (accountId a)"

definition by_id_step ::
  "(string, string list) jsmap \<Rightarrow> pool_account \<Rightarrow> (string, string list) jsmap" where
  "by_id_step m a =
     (case truthy_id a of
        None \<Rightarrow> m
      | Some i \<Rightarrow> (case map_of m i of
                    Some l \<Rightarrow> AList.update i (l @ [acc_alias a]) m
                  | None \<Rightarrow> AList.update i [acc_alias a] m))"

definition peers_in :: "(string, string list) jsmap \<Rightarrow> pool_account \<Rightarrow> string list" where
  "peers_in byId a =
     (case truthy_id a of
        None \<Rightarrow> []
      | Some i \<Rightarrow> filter (\<lambda>x. x \<noteq> acc_alias a) (opt_list (map_of byId i)))"

definition accountPeers :: "pool_account list \<Rightarrow> (string, string list) jsmap" where
  "accountPeers accs =
     (let byId = foldl by_id_step [] accs
      in foldl (\<lambda>out a. AList.update (acc_alias a) (peers_in byId a) out) [] accs)"

definition distinctAccounts :: "pool_account list \<Rightarrow> nat" where
  "distinctAccounts accs =
     length (remdups (List.map_filter truthy_id accs))
     + length (filter (\<lambda>a. truthy_id a = None) accs)"

section \<open>Plan size and seat expiry\<close>

text \<open>\<open>/^default_claude_max_(\d+)x$/i\<close>; a count past the double range is not finite and counts 1.\<close>

definition planWeight :: "string option \<Rightarrow> nat" where
  "planWeight tier =
     (let n = (case between ''default_claude_max_'' ''x'' (to_lower (opt_list tier)) of
                 Some ds \<Rightarrow> (if ds \<noteq> [] \<and> list_all is_digit ds then nat_of_digits ds else 1)
               | None \<Rightarrow> 1)
      in if n < 2 ^ 1024 - 2 ^ 970 \<and> n \<ge> 1 then n else 1)"

text \<open>\<open>seatExpiry\<close>: \<open>None\<close> stands for \<open>+Infinity\<close>.\<close>

definition seatExpiry :: "pool_account \<Rightarrow> ms \<Rightarrow> ms option" where
  "seatExpiry a now =
     (let r = opt_or (reset7d (rateLimit a)) 0 * 1000
      in if r > now then Some r else None)"

section \<open>Lemmas\<close>

lemma authCooldown_zero [simp]: "authCooldownMs 0 = 0"
  by (simp add: authCooldownMs_def)

lemma authCooldown_bounds: "0 \<le> authCooldownMs n \<and> authCooldownMs n \<le> AUTH_COOLDOWN_MAX_MS"
  by (simp add: authCooldownMs_def AUTH_COOLDOWN_BASE_MS_def AUTH_COOLDOWN_MAX_MS_def)

lemma authCooldown_min: "0 < n \<Longrightarrow> AUTH_COOLDOWN_BASE_MS \<le> authCooldownMs n"
  by (simp add: authCooldownMs_def AUTH_COOLDOWN_BASE_MS_def AUTH_COOLDOWN_MAX_MS_def)

lemma authCooldown_mono: "m \<le> n \<Longrightarrow> authCooldownMs m \<le> authCooldownMs n"
proof (cases "m = 0")
  case True
  then show ?thesis using authCooldown_bounds by simp
next
  case False
  assume "m \<le> n"
  then have "(2::int) ^ (m - 1) \<le> 2 ^ (n - 1)" by (intro power_increasing) auto
  then have "min (AUTH_COOLDOWN_BASE_MS * 2 ^ (m - 1)) AUTH_COOLDOWN_MAX_MS
             \<le> min (AUTH_COOLDOWN_BASE_MS * 2 ^ (n - 1)) AUTH_COOLDOWN_MAX_MS"
    by (intro min.mono) (auto simp: AUTH_COOLDOWN_BASE_MS_def)
  with False \<open>m \<le> n\<close> show ?thesis by (simp add: authCooldownMs_def)
qed

lemma authCooldown_doubles:
  "0 < n \<Longrightarrow> authCooldownMs (Suc n) = min (2 * authCooldownMs n) AUTH_COOLDOWN_MAX_MS"
  by (cases n) (auto simp: authCooldownMs_def AUTH_COOLDOWN_BASE_MS_def AUTH_COOLDOWN_MAX_MS_def min_def)

lemma isInAuthCooldown_ends:
  assumes "lastAuthFailureAt a = Some t" and "t + AUTH_COOLDOWN_MAX_MS \<le> now"
  shows "\<not> isInAuthCooldown a now"
  using assms authCooldown_bounds [of "consecutiveAuthFailures a"] by (auto simp: isInAuthCooldown_def)

text \<open>The three reasons, each in one equation.\<close>

lemma rate_limited_iff:
  "accountIneligibility a now f = Some Rate_limited \<longleftrightarrow>
     (rl_status (rateLimit a) = ''rejected'' \<and> \<not> rateLimitWindowPassed (rateLimit a) now
        \<and> \<not> isBucketScopedRejection (rateLimit a))
     \<or> familyParkedOnBuckets (rateLimit a) f now"
  by (auto simp: accountIneligibility_def Let_def)

lemma eligible_iff:
  "isAccountEligible a now f \<longleftrightarrow>
     accountIneligibility a now f \<noteq> Some Rate_limited
     \<and> now + TOKEN_EXPIRY_MARGIN_MS < expiresAt a \<and> \<not> isInAuthCooldown a now"
  by (auto simp: isAccountEligible_def accountIneligibility_def Let_def split: if_splits)

lemma token_expired_iff:
  "accountIneligibility a now f = Some Token_expired \<longleftrightarrow>
     accountIneligibility a now f \<noteq> Some Rate_limited \<and> expiresAt a \<le> now + TOKEN_EXPIRY_MARGIN_MS"
  by (auto simp: accountIneligibility_def Let_def split: if_splits)

lemma parked_rate_limited:
  assumes "isParkedInLiveWindow a now f"
  shows "accountIneligibility a now f = Some Rate_limited"
proof (cases "familyParkedOnBuckets (rateLimit a) f now")
  case True
  then show ?thesis by (simp add: rate_limited_iff)
next
  case False
  with assms show ?thesis
    by (auto simp: rate_limited_iff isParkedInLiveWindow_def rateLimitWindowPassed_def Let_def split: if_splits)
qed

lemma cooling_rate_limited:
  assumes "isCoolingAfterRejection a now"
  shows "accountIneligibility a now f = Some Rate_limited"
  using assms
  by (auto simp: rate_limited_iff isCoolingAfterRejection_def rateLimitWindowPassed_def
      isBucketScopedRejection_def Let_def split: option.splits)

lemma eligible_probeable: "isAccountEligible a now f \<Longrightarrow> isProbeable a now f"
  by (auto simp: eligible_iff isProbeable_def dest: parked_rate_limited cooling_rate_limited)

text \<open>A rate-limited seat that may still be asked has a rejection with no stated reset.\<close>

lemma rate_limited_probeable:
  assumes "accountIneligibility a now f = Some Rate_limited"
    and "isProbeable a now f"
  shows "rl_status (rateLimit a) = ''rejected'' \<and> exhausted (rateLimit a) \<noteq> Some False
         \<and> \<not> rl_reset (rateLimit a) * 1000 > now \<or>
         rl_status (rateLimit a) = ''rejected'' \<and> exhausted (rateLimit a) \<noteq> Some False
         \<and> rl_reset (rateLimit a) \<le> 0"
  using assms
  by (auto simp: rate_limited_iff isProbeable_def isParkedInLiveWindow_def isCoolingAfterRejection_def
      rateLimitWindowPassed_def isBucketScopedRejection_def Let_def split: if_splits)

lemma planWeight_pos: "1 \<le> planWeight t"
  by (simp add: planWeight_def Let_def)

lemma planWeight_unknown: "planWeight None = 1"
  by (simp add: planWeight_def between_def Let_def to_lower_def)

lemma seatExpiry_future: "seatExpiry a now = Some r \<Longrightarrow> now < r"
  by (auto simp: seatExpiry_def Let_def split: if_splits)

lemma by_id_step_at:
  "opt_list (map_of (by_id_step m a) i) =
     opt_list (map_of m i) @ (if truthy_id a = Some i then [acc_alias a] else [])"
  by (auto simp: by_id_step_def jm.get_put split: option.splits)

lemma by_id_at:
  "opt_list (map_of (foldl by_id_step m accs) i) =
     opt_list (map_of m i) @ map acc_alias (filter (\<lambda>a. truthy_id a = Some i) accs)"
  by (induction accs arbitrary: m) (simp_all add: by_id_step_at)

lemma map_of_foldl_update_other:
  "q \<notin> k ` set xs \<Longrightarrow> map_of (foldl (\<lambda>out a. AList.update (k a) (v a) out) m xs) q = map_of m q"
  by (induction xs arbitrary: m) (auto simp: jm.get_put)

lemma map_of_foldl_update_in:
  "distinct (map k xs) \<Longrightarrow> x \<in> set xs \<Longrightarrow>
     map_of (foldl (\<lambda>out a. AList.update (k a) (v a) out) m xs) (k x) = Some (v x)"
proof (induction xs arbitrary: m)
  case Nil
  then show ?case by simp
next
  case (Cons y ys)
  show ?case
  proof (cases "x = y")
    case True
    with Cons.prems show ?thesis by (simp add: map_of_foldl_update_other jm.get_put)
  next
    case False
    with Cons show ?thesis by simp
  qed
qed

text \<open>Two seats are peers exactly when both are identified, by the same account id.\<close>

lemma accountPeers_at:
  assumes "distinct (map acc_alias accs)" and "a \<in> set accs"
  shows "map_of (accountPeers accs) (acc_alias a) =
     Some (if truthy_id a = None then []
           else map acc_alias (filter (\<lambda>b. truthy_id b = truthy_id a \<and> acc_alias b \<noteq> acc_alias a) accs))"
proof -
  have "filter (\<lambda>x. x \<noteq> acc_alias a) (map acc_alias (filter (\<lambda>b. truthy_id b = Some i) accs)) =
        map acc_alias (filter (\<lambda>b. truthy_id b = Some i \<and> acc_alias b \<noteq> acc_alias a) accs)" for i
    by (simp add: filter_map o_def conj_commute)
  then show ?thesis
    unfolding accountPeers_def Let_def map_of_foldl_update_in [OF assms]
    by (auto simp: peers_in_def by_id_at split: option.splits)
qed

end
