(* ===== verification/Pool_Select.thy ===== *)
theory Pool_Select
  imports Pool_Seat "HOL-Library.Product_Lexorder"
begin

text \<open>
  The routing strategies of \<open>src/pool.ts\<close> and the scans that pick one seat from a list of
  candidates. Every scan meets one contract, the locale \<open>seat_picker\<close>: it returns a candidate that
  fits its test, and it returns one whenever some candidate fits. A scan that also returns the
  least candidate in some order meets \<open>best_picker\<close>. The properties of \<open>select()\<close> rest on these
  contracts, not on the loops.
\<close>

section \<open>Strategies and floors\<close>

datatype pool_strategy = Headroom | Headroom_by_plan | Fill_first | Expiring_first

definition parse_strategy :: "string \<Rightarrow> pool_strategy option" where
  "parse_strategy c =
     (let s = to_lower (trim c)
      in if s = ''headroom'' then Some Headroom
         else if s = ''headroom-by-plan'' then Some Headroom_by_plan
         else if s = ''fill-first'' then Some Fill_first
         else if s = ''expiring-first'' then Some Expiring_first
         else None)"

definition resolvePoolStrategy :: "string option \<Rightarrow> string option \<Rightarrow> pool_strategy" where
  "resolvePoolStrategy explicit env =
     (case List.map_filter (\<lambda>c. case c of None \<Rightarrow> None | Some s \<Rightarrow> parse_strategy s) [explicit, env] of
        [] \<Rightarrow> Headroom
      | s # _ \<Rightarrow> s)"

definition DEFAULT_POOL_HEADROOM_FLOOR :: ratio where
  "DEFAULT_POOL_HEADROOM_FLOOR = 2 / 100"

definition MIN_POOL_HEADROOM_FLOOR :: ratio where
  "MIN_POOL_HEADROOM_FLOOR = 2 / 100"

definition MAX_POOL_HEADROOM_FLOOR :: ratio where
  "MAX_POOL_HEADROOM_FLOOR = 5 / 10"

text \<open>A configured floor is a string or a number; \<open>undefined\<close> and \<open>null\<close> are \<open>None\<close>.\<close>

datatype floor_value = Floor_string string | Floor_number jsnum

definition floor_number :: "floor_value \<Rightarrow> jsnum option" where
  "floor_number v =
     (case v of
        Floor_number n \<Rightarrow> Some n
      | Floor_string s \<Rightarrow>
          (let t = trim s in
           if t = [] then None
           else if ends_with t ''%''
           then Some (case js_number (trim (drop_last 1 t)) of Fin r \<Rightarrow> Fin (r / 100) | n \<Rightarrow> n)
           else Some (js_number t)))"

definition parsePoolHeadroomFloor :: "floor_value option \<Rightarrow> ratio option" where
  "parsePoolHeadroomFloor v =
     (case v of
        None \<Rightarrow> None
      | Some c \<Rightarrow>
          (case floor_number c of
             Some (Fin n) \<Rightarrow>
               (let n' = (if n > 1 then n / 100 else n)
                in if n' < MIN_POOL_HEADROOM_FLOOR \<or> n' > MAX_POOL_HEADROOM_FLOOR then None else Some n')
           | _ \<Rightarrow> None))"

definition resolvePoolHeadroomFloor :: "floor_value option \<Rightarrow> string option \<Rightarrow> ratio" where
  "resolvePoolHeadroomFloor explicit env =
     (case List.map_filter parsePoolHeadroomFloor [explicit, map_option Floor_string env] of
        [] \<Rightarrow> DEFAULT_POOL_HEADROOM_FLOOR
      | n # _ \<Rightarrow> n)"

section \<open>Picking one seat\<close>

text \<open>\<open>pickMaxHeadroom\<close>: the first of the seats with the best score. The source reads \<open>accounts[0]\<close>
  and throws on an empty list; \<open>None\<close> stands for that.\<close>

definition headroom_score :: "string option \<Rightarrow> bool \<Rightarrow> ms \<Rightarrow> pool_account \<Rightarrow> ratio" where
  "headroom_score family byPlan now a =
     (let h = computeHeadroom (rateLimit a) family now
      in if byPlan \<and> h > 0 then h * of_nat (planWeight (rateLimitTier a)) else h)"

definition better_score ::
  "string option \<Rightarrow> bool \<Rightarrow> ms \<Rightarrow> pool_account \<Rightarrow> pool_account \<Rightarrow> pool_account" where
  "better_score family byPlan now best a =
     (if headroom_score family byPlan now a > headroom_score family byPlan now best then a else best)"

definition pickMaxHeadroom ::
  "pool_account list \<Rightarrow> string option \<Rightarrow> bool \<Rightarrow> ms \<Rightarrow> pool_account option" where
  "pickMaxHeadroom accs family byPlan now =
     (case accs of [] \<Rightarrow> None | a # as \<Rightarrow> Some (foldl (better_score family byPlan now) a as))"

definition above_floor :: "string option \<Rightarrow> ratio \<Rightarrow> ms \<Rightarrow> pool_account \<Rightarrow> bool" where
  "above_floor family flr now a \<longleftrightarrow>
     isAboveHeadroomFloor (computeHeadroom (rateLimit a) family now) flr"

definition floor_stale :: "string option \<Rightarrow> ratio \<Rightarrow> ms \<Rightarrow> pool_account \<Rightarrow> bool" where
  "floor_stale family flr now a \<longleftrightarrow> floorParkedUntil (rateLimit a) family flr now = None"

definition pickFloorProbe ::
  "pool_account list \<Rightarrow> string option \<Rightarrow> ratio \<Rightarrow> ms \<Rightarrow> pool_account option" where
  "pickFloorProbe accs family flr now =
     (let stale = filter (floor_stale family flr now) accs
      in if stale \<noteq> [] then pickMaxHeadroom stale family False now else None)"

definition expiry_key :: "ms \<Rightarrow> pool_account \<Rightarrow> (bool \<times> ms) \<times> string" where
  "expiry_key now a =
     (case seatExpiry a now of None \<Rightarrow> ((True, 0), acc_alias a) | Some r \<Rightarrow> ((False, r), acc_alias a))"

definition pickExpiringFirst ::
  "pool_account list \<Rightarrow> string option \<Rightarrow> ratio \<Rightarrow> ms \<Rightarrow> pool_account option" where
  "pickExpiringFirst accs family flr now =
     List.find (above_floor family flr now) (sort_key (expiry_key now) accs)"

definition fill_first_step ::
  "string option \<Rightarrow> ratio \<Rightarrow> ms \<Rightarrow> pool_account option \<Rightarrow> pool_account \<Rightarrow> pool_account option" where
  "fill_first_step family flr now best a =
     (if (case best of None \<Rightarrow> False | Some b \<Rightarrow> acc_alias a \<ge> acc_alias b) then best
      else if above_floor family flr now a then Some a
      else best)"

definition pickFillFirst ::
  "pool_account list \<Rightarrow> string option \<Rightarrow> ratio \<Rightarrow> ms \<Rightarrow> pool_account option" where
  "pickFillFirst accs family flr now = foldl (fill_first_step family flr now) None accs"

text \<open>\<open>reduce((a, b) => a.requestCount < b.requestCount ? a : b)\<close>: of equals, the later one.\<close>

definition less_used :: "pool_account \<Rightarrow> pool_account \<Rightarrow> pool_account" where
  "less_used a b = (if requestCount a < requestCount b then a else b)"

definition leastUsed :: "pool_account list \<Rightarrow> pool_account option" where
  "leastUsed accs = (case accs of [] \<Rightarrow> None | a # as \<Rightarrow> Some (foldl less_used a as))"

section \<open>The contract of a pick\<close>

locale seat_picker =
  fixes pick :: "'a list \<Rightarrow> 'a option"
    and fit :: "'a \<Rightarrow> bool"
  assumes pick_in: "pick xs = Some a \<Longrightarrow> a \<in> set xs \<and> fit a"
    and pick_total: "a \<in> set xs \<Longrightarrow> fit a \<Longrightarrow> pick xs \<noteq> None"
begin

lemma pick_None_iff: "pick xs = None \<longleftrightarrow> (\<forall>a \<in> set xs. \<not> fit a)"
proof
  assume "pick xs = None"
  then show "\<forall>a \<in> set xs. \<not> fit a" using pick_total by blast
next
  assume n: "\<forall>a \<in> set xs. \<not> fit a"
  show "pick xs = None"
  proof (cases "pick xs")
    case (Some a)
    then show ?thesis using n pick_in by blast
  qed simp
qed

lemma pick_Some_ex: "a \<in> set xs \<Longrightarrow> fit a \<Longrightarrow> \<exists>b. pick xs = Some b"
  using pick_total by blast

lemma pick_Nil [simp]: "pick [] = None"
  by (simp add: pick_None_iff)

lemma pick_filter: "pick (filter P xs) = Some a \<Longrightarrow> a \<in> set xs \<and> P a \<and> fit a"
  using pick_in [of "filter P xs" a] by simp

end

locale best_picker = seat_picker +
  fixes rank :: "'a \<Rightarrow> 'b::linorder"
  assumes pick_best: "pick xs = Some a \<Longrightarrow> b \<in> set xs \<Longrightarrow> fit b \<Longrightarrow> rank a \<le> rank b"
begin

lemma pick_rank_unique:
  assumes "pick xs = Some a" and "pick ys = Some b" and "set xs = set ys"
  shows "rank a = rank b"
  using assms pick_in pick_best by (metis antisym)

lemma pick_superset:
  assumes "pick xs = Some a" and "pick ys = Some b" and "set xs \<subseteq> set ys"
  shows "rank b \<le> rank a"
  using assms pick_in pick_best by blast

lemma pick_distinct_rank:
  assumes "inj_on rank (set xs)" and "pick xs = Some a" and "b \<in> set xs" and "fit b" and "b \<noteq> a"
  shows "rank a < rank b"
proof -
  have "rank a \<le> rank b" and "a \<in> set xs" using assms pick_best pick_in by auto
  moreover have "rank a \<noteq> rank b" using assms(1,3,5) \<open>a \<in> set xs\<close> by (auto dest: inj_onD)
  ultimately show ?thesis by simp
qed

end

section \<open>Each scan meets it\<close>

lemma find_sorted_least:
  "sorted (map k xs) \<Longrightarrow> List.find P xs = Some a \<Longrightarrow> b \<in> set xs \<Longrightarrow> P b \<Longrightarrow> k a \<le> k b"
  by (induction xs) (auto split: if_splits)

lemma fill_first_in:
  assumes "foldl (fill_first_step f fl now) best xs = Some a" and "best = Some a \<Longrightarrow> above_floor f fl now a"
  shows "(best = Some a \<or> a \<in> set xs) \<and> above_floor f fl now a"
  using assms
proof (induction xs arbitrary: best)
  case Nil
  then show ?case by simp
next
  case (Cons x xs)
  have step: "fill_first_step f fl now best x = Some a \<Longrightarrow> best = Some a \<or> (a = x \<and> above_floor f fl now x)"
    by (auto simp: fill_first_step_def split: if_splits option.splits)
  with Cons show ?case by (metis foldl_Cons list.set_intros)
qed

lemma fill_first_least:
  "(case best of None \<Rightarrow> True | Some b \<Rightarrow> \<exists>a. foldl (fill_first_step f fl now) best xs = Some a \<and> acc_alias a \<le> acc_alias b)
   \<and> (\<forall>y \<in> set xs. above_floor f fl now y \<longrightarrow>
       (\<exists>a. foldl (fill_first_step f fl now) best xs = Some a \<and> acc_alias a \<le> acc_alias y))"
proof (induction xs arbitrary: best)
  case Nil
  show ?case by (simp split: option.split)
next
  case (Cons x xs)
  let ?n = "fill_first_step f fl now best x"
  have le: "best = Some b \<Longrightarrow> \<exists>c. ?n = Some c \<and> acc_alias c \<le> acc_alias b" for b
    by (auto simp: fill_first_step_def)
  have x: "above_floor f fl now x \<Longrightarrow> \<exists>c. ?n = Some c \<and> acc_alias c \<le> acc_alias x"
    by (auto simp: fill_first_step_def split: option.splits)
  from Cons.IH [of ?n] le x show ?case
    by (fastforce split: option.splits)
qed

text \<open>The five scans, each at its own test and order.\<close>

interpretation max_headroom: best_picker
  "\<lambda>xs. pickMaxHeadroom xs family byPlan now" "\<lambda>_. True"
  "\<lambda>a. - headroom_score family byPlan now a"
  for family byPlan now
proof unfold_locales
  fix xs a b
  let ?f = "better_score family byPlan now" and ?s = "headroom_score family byPlan now"
  have ch: "?f u v = u \<or> ?f u v = v" for u v by (simp add: better_score_def)
  have sc: "?s u \<le> ?s (?f u v) \<and> ?s v \<le> ?s (?f u v)" for u v by (simp add: better_score_def)
  show "pickMaxHeadroom xs family byPlan now = Some a \<Longrightarrow> a \<in> set xs \<and> True"
    using foldl_choose_in [of ?f, OF ch] by (auto simp: pickMaxHeadroom_def split: list.splits)
  show "a \<in> set xs \<Longrightarrow> True \<Longrightarrow> pickMaxHeadroom xs family byPlan now \<noteq> None"
    by (auto simp: pickMaxHeadroom_def split: list.splits)
  show "pickMaxHeadroom xs family byPlan now = Some a \<Longrightarrow> b \<in> set xs \<Longrightarrow> True \<Longrightarrow> - ?s a \<le> - ?s b"
    using foldl_choose_best [of ?f ?s, OF ch sc] by (auto simp: pickMaxHeadroom_def split: list.splits)
qed

interpretation floor_probe: seat_picker
  "\<lambda>xs. pickFloorProbe xs family flr now" "floor_stale family flr now"
  for family flr now
proof unfold_locales
  fix xs a
  show "pickFloorProbe xs family flr now = Some a \<Longrightarrow> a \<in> set xs \<and> floor_stale family flr now a"
    using max_headroom.pick_filter [where P = "floor_stale family flr now" and xs = xs and a = a]
    by (auto simp: pickFloorProbe_def Let_def split: if_splits)
  show "a \<in> set xs \<Longrightarrow> floor_stale family flr now a \<Longrightarrow> pickFloorProbe xs family flr now \<noteq> None"
    using max_headroom.pick_total [where a = a and xs = "filter (floor_stale family flr now) xs"]
    by (auto simp: pickFloorProbe_def Let_def filter_empty_conv)
qed

interpretation fill_first: best_picker
  "\<lambda>xs. pickFillFirst xs family flr now" "above_floor family flr now" acc_alias
  for family flr now
proof unfold_locales
  fix xs a b
  show "pickFillFirst xs family flr now = Some a \<Longrightarrow> a \<in> set xs \<and> above_floor family flr now a"
    using fill_first_in [of family flr now None xs a] by (simp add: pickFillFirst_def)
  show "a \<in> set xs \<Longrightarrow> above_floor family flr now a \<Longrightarrow> pickFillFirst xs family flr now \<noteq> None"
    using fill_first_least [where best = None and f = family and fl = flr and now = now and xs = xs] by (auto simp: pickFillFirst_def)
  show "pickFillFirst xs family flr now = Some a \<Longrightarrow> b \<in> set xs \<Longrightarrow> above_floor family flr now b
          \<Longrightarrow> acc_alias a \<le> acc_alias b"
    using fill_first_least [where best = None and f = family and fl = flr and now = now and xs = xs] by (auto simp: pickFillFirst_def)
qed

interpretation expiring_first: best_picker
  "\<lambda>xs. pickExpiringFirst xs family flr now" "above_floor family flr now" "expiry_key now"
  for family flr now
proof unfold_locales
  fix xs a b
  show "pickExpiringFirst xs family flr now = Some a \<Longrightarrow> a \<in> set xs \<and> above_floor family flr now a"
    by (auto simp: pickExpiringFirst_def dest: find_SomeD)
  show "a \<in> set xs \<Longrightarrow> above_floor family flr now a \<Longrightarrow> pickExpiringFirst xs family flr now \<noteq> None"
    using find_Some_ex [of a "sort_key (expiry_key now) xs"] by (auto simp: pickExpiringFirst_def)
  show "pickExpiringFirst xs family flr now = Some a \<Longrightarrow> b \<in> set xs \<Longrightarrow> above_floor family flr now b
          \<Longrightarrow> expiry_key now a \<le> expiry_key now b"
    unfolding pickExpiringFirst_def 
    using find_sorted_least [where k = "expiry_key now" and xs = "sort_key (expiry_key now) xs"
        and P = "above_floor family flr now"] by simp
qed

interpretation least_used: best_picker leastUsed "\<lambda>_. True" requestCount
proof unfold_locales
  fix xs a b
  have ch: "less_used u v = u \<or> less_used u v = v" for u v by (simp add: less_used_def)
  have sc: "- int (requestCount u) \<le> - int (requestCount (less_used u v))
            \<and> - int (requestCount v) \<le> - int (requestCount (less_used u v))" for u v
    by (simp add: less_used_def)
  show "leastUsed xs = Some a \<Longrightarrow> a \<in> set xs \<and> True"
    using foldl_choose_in [of less_used, OF ch] by (auto simp: leastUsed_def split: list.splits)
  show "a \<in> set xs \<Longrightarrow> True \<Longrightarrow> leastUsed xs \<noteq> None"
    by (auto simp: leastUsed_def split: list.splits)
  show "leastUsed xs = Some a \<Longrightarrow> b \<in> set xs \<Longrightarrow> True \<Longrightarrow> requestCount a \<le> requestCount b"
    using foldl_choose_best [of less_used "\<lambda>a. - int (requestCount a)", OF ch sc]
    by (auto simp: leastUsed_def split: list.splits)
qed

end
