(* ===== verification/Pool_State.thy ===== *)
theory Pool_State
  imports Pool_Select
begin

text \<open>
  \<open>AccountPool\<close> of \<open>src/pool.ts\<close>: its accounts, its sticky bindings and its queue as one record,
  and every method as a function on it. An account the source mutates in place is looked up and
  stored back under its alias. \<open>randomUUID()\<close> is the argument \<open>uuid\<close>, \<open>Date.now()\<close> the argument
  \<open>clk\<close> (\<open>now\<close> where the method takes the clock as a parameter).
\<close>

section \<open>State\<close>

record sticky_binding =
  sb_alias :: string
  boundAt :: ms
  lastUsedAt :: ms

record queued_request =
  q_id :: nat
  q_enqueuedAt :: ms

record account_pool =
  accounts :: "(string, pool_account) jsmap"
  pool_queue :: "queued_request list"
  drainTimer :: bool
  sticky :: "(string, sticky_binding) jsmap"
  lastStickyCleanup :: ms
  strategy :: pool_strategy
  headroomFloor :: ratio
  hardHeadroomFloor :: bool

definition new_pool :: "pool_strategy \<Rightarrow> ratio option \<Rightarrow> account_pool" where
  "new_pool strat flr =
     \<lparr> accounts = [], pool_queue = [], drainTimer = False, sticky = [], lastStickyCleanup = 0,
       strategy = strat, headroomFloor = opt_or flr DEFAULT_POOL_HEADROOM_FLOOR,
       hardHeadroomFloor = (flr \<noteq> None) \<rparr>"

definition queueMaxSize :: nat where "queueMaxSize = 50"
definition queueTimeoutMs :: ms where "queueTimeoutMs = 60000"
definition STICKY_IDLE_TTL_MS :: ms where "STICKY_IDLE_TTL_MS = 6 * 60 * 60 * 1000"
definition STICKY_MAX_ENTRIES :: nat where "STICKY_MAX_ENTRIES = 2000"
definition STICKY_CLEANUP_INTERVAL_MS :: ms where "STICKY_CLEANUP_INTERVAL_MS = 30000"

abbreviation pool_accounts :: "account_pool \<Rightarrow> pool_account list" where
  "pool_accounts p \<equiv> values_of (accounts p)"

definition with_account ::
  "string \<Rightarrow> (pool_account \<Rightarrow> pool_account) \<Rightarrow> account_pool \<Rightarrow> account_pool" where
  "with_account k f p =
     (case map_of (accounts p) k of
        None \<Rightarrow> p
      | Some a \<Rightarrow> p\<lparr>accounts := AList.update k (f a) (accounts p)\<rparr>)"

section \<open>Adding and removing seats\<close>

record add_opts =
  o_accessToken :: string
  o_refreshToken :: string
  o_expiresAt :: ms
  o_deviceId :: string
  o_accountUuid :: string
  o_grantedAt :: "ms option"
  o_organizationId :: "string option"
  o_accountId :: "string option"
  o_accountEmail :: "string option"
  o_rateLimitTier :: "string option"
  o_seatTier :: "string option"

definition regranted :: "pool_account option \<Rightarrow> add_opts \<Rightarrow> bool" where
  "regranted existing opts \<longleftrightarrow>
     (case existing of
        None \<Rightarrow> False
      | Some e \<Rightarrow> o_grantedAt opts \<noteq> None \<and> o_grantedAt opts \<noteq> grantedAt e)"

definition kept :: "pool_account option \<Rightarrow> add_opts \<Rightarrow> pool_account option" where
  "kept existing opts = (if regranted existing opts then None else existing)"

definition added_account :: "string \<Rightarrow> add_opts \<Rightarrow> string \<Rightarrow> pool_account option \<Rightarrow> pool_account" where
  "added_account k opts uuid keep =
     \<lparr> acc_alias = k,
       accessToken = o_accessToken opts,
       refreshToken = o_refreshToken opts,
       expiresAt = o_expiresAt opts,
       identity =
         (case keep of
            Some a \<Rightarrow>
              (if deviceId (identity a) = o_deviceId opts \<and> accountUuid (identity a) = o_accountUuid opts
               then identity a
               else \<lparr>deviceId = o_deviceId opts, accountUuid = o_accountUuid opts,
                     sessionId = sessionId (identity a)\<rparr>)
          | None \<Rightarrow> \<lparr>deviceId = o_deviceId opts, accountUuid = o_accountUuid opts, sessionId = uuid\<rparr>),
       rateLimit = (case keep of None \<Rightarrow> EMPTY_SNAPSHOT | Some a \<Rightarrow> rateLimit a),
       requestCount = (case keep of None \<Rightarrow> 0 | Some a \<Rightarrow> requestCount a),
       rejectedCount = (case keep of None \<Rightarrow> 0 | Some a \<Rightarrow> rejectedCount a),
       lastRejectedAt = Option.bind keep lastRejectedAt,
       accountId = opt_else (o_accountId opts) (Option.bind keep accountId),
       accountEmail = opt_else (o_accountEmail opts) (Option.bind keep accountEmail),
       rateLimitTier = opt_else (o_rateLimitTier opts) (Option.bind keep rateLimitTier),
       seatTier = opt_else (o_seatTier opts) (Option.bind keep seatTier),
       organizationId = opt_else (o_organizationId opts) (Option.bind keep organizationId),
       adoptedFrom = Option.bind keep adoptedFrom,
       grantedAt = opt_else (o_grantedAt opts) (Option.bind keep grantedAt),
       lastAuthFailureAt = Option.bind keep lastAuthFailureAt,
       consecutiveAuthFailures = (case keep of None \<Rightarrow> 0 | Some a \<Rightarrow> consecutiveAuthFailures a) \<rparr>"

definition pool_add :: "string \<Rightarrow> add_opts \<Rightarrow> string \<Rightarrow> account_pool \<Rightarrow> account_pool" where
  "pool_add k opts uuid p =
     p\<lparr>accounts := AList.update k
         (added_account k opts uuid (kept (map_of (accounts p) k) opts)) (accounts p)\<rparr>"

definition pool_remove :: "string \<Rightarrow> account_pool \<Rightarrow> account_pool" where
  "pool_remove k p = p\<lparr>accounts := AList.delete k (accounts p)\<rparr>"

section \<open>Selecting\<close>

definition canServe :: "account_pool \<Rightarrow> string option \<Rightarrow> ms \<Rightarrow> bool" where
  "canServe p family now \<longleftrightarrow> list_ex (\<lambda>a. isAccountEligible a now family) (pool_accounts p)"

definition familyRateLimited :: "account_pool \<Rightarrow> string option \<Rightarrow> ms \<Rightarrow> bool" where
  "familyRateLimited p family now \<longleftrightarrow>
     length (pool_accounts p) > 0
     \<and> list_all (\<lambda>a. accountIneligibility a now family = Some Rate_limited) (pool_accounts p)"

text \<open>The choice among eligible seats, the same in \<open>select\<close> and \<open>selectExcluding\<close>.\<close>

definition select_eligible ::
  "account_pool \<Rightarrow> pool_account list \<Rightarrow> string option \<Rightarrow> ms \<Rightarrow> pool_account option" where
  "select_eligible p eligible family now =
     (let first = (case strategy p of
                     Fill_first \<Rightarrow> pickFillFirst eligible family (headroomFloor p) now
                   | Expiring_first \<Rightarrow> pickExpiringFirst eligible family (headroomFloor p) now
                   | _ \<Rightarrow> None);
          byPlan = (strategy p = Headroom_by_plan)
      in case first of
           Some a \<Rightarrow> Some a
         | None \<Rightarrow>
             (if \<not> hardHeadroomFloor p then pickMaxHeadroom eligible family byPlan now
              else let aboveFloor = filter (above_floor family (headroomFloor p) now) eligible
                   in if length aboveFloor > 0 then pickMaxHeadroom aboveFloor family byPlan now
                      else pickFloorProbe eligible family (headroomFloor p) now))"

definition pool_select :: "account_pool \<Rightarrow> string option \<Rightarrow> ms \<Rightarrow> pool_account option" where
  "pool_select p family clk =
     (if accounts p = [] then None
      else let all = pool_accounts p;
               eligible = filter (\<lambda>a. isAccountEligible a clk family) all
           in if length eligible > 0 then select_eligible p eligible family clk
              else let probeable = filter (\<lambda>a. isProbeable a clk family) all
                   in if length probeable = 0 then None else leastUsed probeable)"

definition selectExcluding ::
  "account_pool \<Rightarrow> string list \<Rightarrow> string option \<Rightarrow> ms \<Rightarrow> pool_account option" where
  "selectExcluding p excluded family clk =
     (if length (accounts p) \<le> 1 then None
      else let candidates = filter (\<lambda>a. acc_alias a \<notin> set excluded) (pool_accounts p);
               eligible = filter (\<lambda>a. isAccountEligible a clk family) candidates
           in if length eligible > 0 then select_eligible p eligible family clk
              else let probeable = filter (\<lambda>a. isProbeable a clk family) candidates
                   in if length probeable > 0 then leastUsed probeable else None)"

definition parked_seat_until :: "account_pool \<Rightarrow> string option \<Rightarrow> ms \<Rightarrow> pool_account \<Rightarrow> ms option" where
  "parked_seat_until p family now a =
     (let rl = rateLimit a in
      if isParkedInLiveWindow a now family
      then Some (if familyParkedOnBuckets rl family now
                 then opt_or (parkedBucketsUntil rl) (rl_reset rl * 1000)
                 else rl_reset rl * 1000)
      else if isCoolingAfterRejection a now then Some (opt_or (cooldownUntil rl) now)
      else if hardHeadroomFloor p \<and> isAccountEligible a now family
      then floorParkedUntil rl family (headroomFloor p) now
      else None)"

definition parkedUntil :: "account_pool \<Rightarrow> string option \<Rightarrow> ms \<Rightarrow> ms option" where
  "parkedUntil p family now =
     (let until = map (parked_seat_until p family now) (pool_accounts p)
      in case until of
           [] \<Rightarrow> None
         | _ \<Rightarrow> (if list_all (\<lambda>r. r \<noteq> None) until
                then (case map the until of r # rs \<Rightarrow> Some (min_of r rs) | [] \<Rightarrow> None)
                else None))"

definition parkedCount :: "account_pool \<Rightarrow> ms \<Rightarrow> nat" where
  "parkedCount p now =
     length (filter (\<lambda>a. isParkedInLiveWindow a now None \<or> isCoolingAfterRejection a now) (pool_accounts p))"

definition canPrefer :: "account_pool \<Rightarrow> pool_account \<Rightarrow> ms \<Rightarrow> string option \<Rightarrow> bool" where
  "canPrefer p a now family =
     (if \<not> isAccountEligible a now family then False
      else if \<not> hardHeadroomFloor p then True
      else if above_floor family (headroomFloor p) now a then True
      else floor_stale family (headroomFloor p) now a)"

section \<open>Sticky sessions\<close>

definition sweep_sticky :: "ms \<Rightarrow> account_pool \<Rightarrow> account_pool" where
  "sweep_sticky now p =
     (if now - lastStickyCleanup p \<ge> STICKY_CLEANUP_INTERVAL_MS
      then p\<lparr>lastStickyCleanup := now,
             sticky := filter (\<lambda>(k, b). \<not> (map_of (accounts p) (sb_alias b) = None
                                            \<or> now - lastUsedAt b > STICKY_IDLE_TTL_MS)) (sticky p)\<rparr>
      else p)"

definition evict_sticky :: "account_pool \<Rightarrow> account_pool" where
  "evict_sticky p =
     (if length (sticky p) > STICKY_MAX_ENTRIES
      then let target = STICKY_MAX_ENTRIES * 8 div 10;
               sorted = sort_key (\<lambda>e. lastUsedAt (snd e)) (sticky p);
               toDrop = take (length (sticky p) - target) sorted
           in p\<lparr>sticky := foldl (\<lambda>m e. AList.delete (fst e) m) (sticky p) toDrop\<rparr>
      else p)"

definition cleanupSticky :: "ms \<Rightarrow> account_pool \<Rightarrow> account_pool" where
  "cleanupSticky now p = evict_sticky (sweep_sticky now p)"

definition bind_sticky :: "string \<Rightarrow> string \<Rightarrow> ms \<Rightarrow> account_pool \<Rightarrow> account_pool" where
  "bind_sticky key k now p =
     p\<lparr>sticky := AList.update key \<lparr>sb_alias = k, boundAt = now, lastUsedAt = now\<rparr> (sticky p)\<rparr>"

text \<open>The seat a binding still entitles its conversation to.\<close>

definition bound_seat ::
  "account_pool \<Rightarrow> string \<Rightarrow> string option \<Rightarrow> ms \<Rightarrow> ms \<Rightarrow> (sticky_binding \<times> pool_account) option" where
  "bound_seat p key family now clk =
     (case map_of (sticky p) key of
        None \<Rightarrow> None
      | Some b \<Rightarrow>
          (case map_of (accounts p) (sb_alias b) of
             None \<Rightarrow> None
           | Some a \<Rightarrow>
               (if isAccountEligible a now family \<and> above_floor family (headroomFloor p) clk a
                then Some (b, a) else None)))"

definition selectSticky ::
  "string option \<Rightarrow> string option \<Rightarrow> ms \<Rightarrow> ms \<Rightarrow> account_pool \<Rightarrow> pool_account option \<times> account_pool" where
  "selectSticky stickyKey family now clk p0 =
     (case truthy stickyKey of
        None \<Rightarrow> (pool_select p0 family clk, p0)
      | Some key \<Rightarrow>
          (let p = cleanupSticky now p0 in
           case bound_seat p key family now clk of
             Some (b, a) \<Rightarrow> (Some a, p\<lparr>sticky := AList.update key (b\<lparr>lastUsedAt := now\<rparr>) (sticky p)\<rparr>)
           | None \<Rightarrow>
               (case pool_select p family clk of
                  None \<Rightarrow> (None, p)
                | Some a \<Rightarrow> (Some a, bind_sticky key (acc_alias a) now p))))"

definition rebindSticky :: "string option \<Rightarrow> string \<Rightarrow> ms \<Rightarrow> account_pool \<Rightarrow> account_pool" where
  "rebindSticky stickyKey k clk p =
     (case truthy stickyKey of
        None \<Rightarrow> p
      | Some key \<Rightarrow> (if map_of (accounts p) k = None then p else bind_sticky key k clk p))"

section \<open>What responses report\<close>

definition auth_failed :: "ms \<Rightarrow> pool_account \<Rightarrow> pool_account" where
  "auth_failed now a =
     a\<lparr>consecutiveAuthFailures := (if isInAuthCooldown a now then consecutiveAuthFailures a
                                   else consecutiveAuthFailures a + 1),
       lastAuthFailureAt := Some now\<rparr>"

definition markAuthFailure :: "string \<Rightarrow> ms \<Rightarrow> account_pool \<Rightarrow> account_pool" where
  "markAuthFailure k clk p = with_account k (auth_failed clk) p"

definition auth_cleared :: "pool_account \<Rightarrow> pool_account" where
  "auth_cleared a =
     (if consecutiveAuthFailures a = 0 \<and> never_failed a then a
      else a\<lparr>lastAuthFailureAt := None, consecutiveAuthFailures := 0\<rparr>)"

definition clearAuthFailure :: "string \<Rightarrow> account_pool \<Rightarrow> account_pool" where
  "clearAuthFailure k p = with_account k auth_cleared p"

text \<open>\<open>snapshot.updatedAt || Date.now()\<close>\<close>

definition stamp_of :: "rate_limit_snapshot \<Rightarrow> ms \<Rightarrow> ms" where
  "stamp_of s clk = (if updatedAt s = 0 then clk else updatedAt s)"

definition served_reading :: "rate_limit_snapshot \<Rightarrow> rate_limit_snapshot \<Rightarrow> ms \<Rightarrow> rate_limit_snapshot" where
  "served_reading prev snapshot at_ms =
     (let prevReset7d = opt_or (reset7d prev) 0;
          nxt = (if (reset7d snapshot = None \<or> reset7d snapshot = Some 0) \<and> prevReset7d * 1000 > at_ms
                 then snapshot\<lparr>reset7d := Some prevReset7d\<rparr> else snapshot)
      in withParkedBuckets prev (withBoundBuckets prev nxt) at_ms)"

definition updateRateLimits :: "string \<Rightarrow> rate_limit_snapshot \<Rightarrow> ms \<Rightarrow> account_pool \<Rightarrow> account_pool" where
  "updateRateLimits k snapshot clk p =
     with_account k (\<lambda>a. a\<lparr>rateLimit := served_reading (rateLimit a) snapshot (stamp_of snapshot clk),
                           adoptedFrom := None, requestCount := requestCount a + 1\<rparr>) p"

definition rejected_reading :: "rate_limit_snapshot \<Rightarrow> rate_limit_snapshot \<Rightarrow> ms \<Rightarrow> rate_limit_snapshot" where
  "rejected_reading prev snapshot now =
     (let exh = isWindowRejection snapshot;
          merged = withBoundBuckets prev snapshot;
          buckets = (if exh \<and> \<not> isUnifiedWindowRejection snapshot then exhaustedBuckets snapshot else [])
      in if length buckets > 0
         then merged\<lparr>rl_status := ''rejected'', exhausted := Some True, parkedBuckets := Some buckets,
                     parkedBucketsUntil := Some (if rl_reset snapshot > 0 then rl_reset snapshot * 1000
                                                 else now + NON_WINDOW_REJECTION_COOLDOWN_MS)\<rparr>
         else if exh
         then merged\<lparr>rl_status := ''rejected'', exhausted := Some True,
                     parkedBuckets := None, parkedBucketsUntil := None\<rparr>
         else (withParkedBuckets prev merged now)
                \<lparr>rl_status := ''rejected'', exhausted := Some False,
                 cooldownUntil := Some (now + opt_or (retryAfterMs snapshot) NON_WINDOW_REJECTION_COOLDOWN_MS)\<rparr>)"

definition was_parked :: "pool_account \<Rightarrow> ms \<Rightarrow> bool" where
  "was_parked a now \<longleftrightarrow> rl_status (rateLimit a) = ''rejected'' \<and> \<not> rateLimitWindowPassed (rateLimit a) now"

definition markRejected ::
  "string \<Rightarrow> rate_limit_snapshot \<Rightarrow> ms \<Rightarrow> account_pool \<Rightarrow> bool \<times> account_pool" where
  "markRejected k snapshot clk p =
     (case map_of (accounts p) k of
        None \<Rightarrow> (False, p)
      | Some a \<Rightarrow>
          (let now = stamp_of snapshot clk
           in (\<not> was_parked a now,
               with_account k (\<lambda>a. a\<lparr>rateLimit := rejected_reading (rateLimit a) snapshot now,
                                     adoptedFrom := None, rejectedCount := rejectedCount a + 1,
                                     lastRejectedAt := Some now\<rparr>) p)))"

definition noteOrganization :: "string \<Rightarrow> string \<Rightarrow> account_pool \<Rightarrow> bool \<times> account_pool" where
  "noteOrganization k org p =
     (case map_of (accounts p) k of
        None \<Rightarrow> (False, p)
      | Some a \<Rightarrow> (if org = [] \<or> organizationId a = Some org then (False, p)
                   else (True, with_account k (\<lambda>a. a\<lparr>organizationId := Some org\<rparr>) p)))"

definition adopted_reading :: "rate_limit_snapshot \<Rightarrow> rate_limit_snapshot \<Rightarrow> bool \<Rightarrow> rate_limit_snapshot" where
  "adopted_reading prev snapshot rej =
     (let merged = withBoundBuckets prev snapshot
      in if rej then merged\<lparr>rl_status := ''rejected''\<rparr> else merged)"

definition adoptSnapshot ::
  "string \<Rightarrow> rate_limit_snapshot \<Rightarrow> bool \<Rightarrow> string \<Rightarrow> account_pool \<Rightarrow> bool \<times> account_pool" where
  "adoptSnapshot k snapshot rej peer p =
     (map_of (accounts p) k \<noteq> None,
      with_account k (\<lambda>a. a\<lparr>rateLimit := adopted_reading (rateLimit a) snapshot rej,
                            adoptedFrom := Some peer\<rparr>) p)"

definition updateTokens :: "string \<Rightarrow> string \<Rightarrow> string \<Rightarrow> ms \<Rightarrow> account_pool \<Rightarrow> account_pool" where
  "updateTokens k access refresh expires p =
     with_account k (\<lambda>a. a\<lparr>accessToken := access, refreshToken := refresh, expiresAt := expires\<rparr>) p"

section \<open>Status\<close>

record pool_status =
  st_strategy :: pool_strategy
  st_headroomFloor :: ratio
  st_accounts :: nat
  st_healthy :: nat
  st_exhausted :: nat
  st_totalHeadroom :: int
  st_bestAccount :: string
  st_queued :: nat

definition pool_status_of :: "account_pool \<Rightarrow> ms \<Rightarrow> pool_status" where
  "pool_status_of p now =
     (let all = pool_accounts p;
          healthy = filter (\<lambda>a. isAccountEligible a now None) all;
          headrooms = map (\<lambda>a. computeHeadroom (rateLimit a) None now) all;
          avg = (if length headrooms > 0 then sum_list headrooms / of_nat (length headrooms) else 0)
      in \<lparr> st_strategy = strategy p, st_headroomFloor = headroomFloor p,
           st_accounts = length all, st_healthy = length healthy,
           st_exhausted = length all - length healthy,
           st_totalHeadroom = js_round (avg * 100),
           st_bestAccount = (case pool_select p None now of None \<Rightarrow> ''none'' | Some a \<Rightarrow> acc_alias a),
           st_queued = length (pool_queue p) \<rparr>)"

section \<open>Waiting for a seat\<close>

datatype wait_result = Wait_immediate pool_account | Wait_queue_full | Wait_queued

definition serves_queue :: "account_pool \<Rightarrow> pool_account \<Rightarrow> ms \<Rightarrow> bool" where
  "serves_queue p a now \<longleftrightarrow> hardHeadroomFloor p \<or> above_floor None (headroomFloor p) now a"

definition waitForAccount :: "nat \<Rightarrow> ms \<Rightarrow> account_pool \<Rightarrow> wait_result \<times> account_pool" where
  "waitForAccount i clk p =
     (case pool_select p None clk of
        Some a \<Rightarrow>
          (if serves_queue p a clk then (Wait_immediate a, p)
           else if length (pool_queue p) \<ge> queueMaxSize then (Wait_queue_full, p)
           else (Wait_queued, p\<lparr>drainTimer := True, pool_queue := pool_queue p @ [\<lparr>q_id = i, q_enqueuedAt = clk\<rparr>]\<rparr>))
      | None \<Rightarrow>
          (if length (pool_queue p) \<ge> queueMaxSize then (Wait_queue_full, p)
           else (Wait_queued, p\<lparr>drainTimer := True, pool_queue := pool_queue p @ [\<lparr>q_id = i, q_enqueuedAt = clk\<rparr>]\<rparr>)))"

text \<open>The entry's own timer: it leaves the queue and is rejected if it is still there.\<close>

definition wait_timeout :: "nat \<Rightarrow> account_pool \<Rightarrow> bool \<times> account_pool" where
  "wait_timeout i p =
     (list_ex (\<lambda>q. q_id q = i) (pool_queue p),
      p\<lparr>pool_queue := filter (\<lambda>q. q_id q \<noteq> i) (pool_queue p)\<rparr>)"

text \<open>The drain loop: it hands seats to the head of the queue while \<open>select\<close> names one.\<close>

fun drain_loop :: "account_pool \<Rightarrow> ms \<Rightarrow> queued_request list \<Rightarrow> (nat \<times> pool_account) list \<times> queued_request list" where
  "drain_loop p clk [] = ([], [])"
| "drain_loop p clk (q # qs) =
     (case pool_select (p\<lparr>pool_queue := q # qs\<rparr>) None clk of
        None \<Rightarrow> ([], q # qs)
      | Some a \<Rightarrow>
          (if \<not> serves_queue p a clk then ([], q # qs)
           else (let (served, left) = drain_loop p clk qs in ((q_id q, a) # served, left))))"

definition drainQueue :: "ms \<Rightarrow> account_pool \<Rightarrow> (nat \<times> pool_account) list \<times> nat list \<times> account_pool" where
  "drainQueue clk p =
     (if pool_queue p = [] then ([], [], p\<lparr>drainTimer := False\<rparr>)
      else let expired = filter (\<lambda>q. clk - q_enqueuedAt q > queueTimeoutMs) (pool_queue p);
               live = filter (\<lambda>q. \<not> clk - q_enqueuedAt q > queueTimeoutMs) (pool_queue p);
               (served, left) = drain_loop p clk live
           in (served, map q_id expired,
               p\<lparr>pool_queue := left, drainTimer := (if left = [] then False else drainTimer p)\<rparr>))"

section \<open>Reconciling with the accounts on disk\<close>

record reconcilable_account =
  r_alias :: string
  r_accessToken :: string
  r_refreshToken :: string
  r_expiresAt :: ms
  r_deviceId :: string
  r_accountUuid :: string
  r_grantedAt :: "ms option"
  r_organizationId :: "string option"

definition reconcile_opts :: "reconcilable_account \<Rightarrow> add_opts" where
  "reconcile_opts r =
     \<lparr> o_accessToken = r_accessToken r, o_refreshToken = r_refreshToken r, o_expiresAt = r_expiresAt r,
       o_deviceId = r_deviceId r, o_accountUuid = r_accountUuid r, o_grantedAt = r_grantedAt r,
       o_organizationId = r_organizationId r, o_accountId = None, o_accountEmail = None,
       o_rateLimitTier = None, o_seatTier = None \<rparr>"

definition add_reconciled :: "(nat \<Rightarrow> string) \<Rightarrow> account_pool \<Rightarrow> nat \<times> reconcilable_account \<Rightarrow> account_pool" where
  "add_reconciled uuids p r = pool_add (r_alias (snd r)) (reconcile_opts (snd r)) (uuids (fst r)) p"

definition reconcilePoolAccounts ::
  "(nat \<Rightarrow> string) \<Rightarrow> reconcilable_account list \<Rightarrow> account_pool \<Rightarrow> nat \<times> account_pool" where
  "reconcilePoolAccounts uuids accs p =
     (let wanted = map r_alias accs;
          p1 = foldl (add_reconciled uuids) p (enumerate 0 accs);
          p2 = foldl (\<lambda>p a. if acc_alias a \<notin> set wanted then pool_remove (acc_alias a) p else p) p1 (pool_accounts p1)
      in (length (accounts p2), p2))"

end
