(* ===== verification/Pool_Props.thy ===== *)
theory Pool_Props
  imports Pool_State
begin

text \<open>
  What the pool promises: \<open>select()\<close> returns a seat that may be asked and returns one whenever it
  can, each strategy returns its best seat, \<open>parkedUntil\<close> names a time before which nothing can
  serve, a rejection parks exactly what it exhausted, sticky bindings hold, the waiting queue is
  served in order, reconciling follows the disk, and every operation keeps the pool well formed.
\<close>

section \<open>Selecting\<close>

lemma select_eligible_in:
  assumes "select_eligible p es f now = Some a"
  shows "a \<in> set es"
  using assms
  by (auto simp: select_eligible_def Let_def
      dest: fill_first.pick_in expiring_first.pick_in max_headroom.pick_in floor_probe.pick_in
      split: option.splits pool_strategy.splits if_splits)

lemma first_pick_None:
  assumes "(case strategy p of
              Fill_first \<Rightarrow> pickFillFirst es f (headroomFloor p) now
            | Expiring_first \<Rightarrow> pickExpiringFirst es f (headroomFloor p) now
            | _ \<Rightarrow> None) = Some b"
  shows "b \<in> set es \<and> above_floor f (headroomFloor p) now b"
  using assms fill_first.pick_in expiring_first.pick_in by (auto split: pool_strategy.splits)

lemma select_eligible_None:
  assumes "es \<noteq> []"
  shows "select_eligible p es f now = None \<longleftrightarrow>
    hardHeadroomFloor p
    \<and> (\<forall>a \<in> set es. \<not> above_floor f (headroomFloor p) now a \<and> \<not> floor_stale f (headroomFloor p) now a)"
proof -
  let ?first = "(case strategy p of
              Fill_first \<Rightarrow> pickFillFirst es f (headroomFloor p) now
            | Expiring_first \<Rightarrow> pickExpiringFirst es f (headroomFloor p) now
            | _ \<Rightarrow> None)"
  have mx: "pickMaxHeadroom xs f b now = None \<longleftrightarrow> xs = []" for xs b
    by (cases xs) (auto simp: pickMaxHeadroom_def)
  show ?thesis
  proof (cases ?first)
    case (Some b)
    then show ?thesis using first_pick_None [OF Some] by (auto simp: select_eligible_def Let_def)
  next
    case None
    then show ?thesis using assms
      by (auto simp: select_eligible_def Let_def mx floor_probe.pick_None_iff filter_empty_conv)
  qed
qed

lemma length_filter_pos: "0 < length (filter P xs) \<longleftrightarrow> (\<exists>a \<in> set xs. P a)"
  by (simp add: filter_empty_conv)

lemma canServe_iff: "canServe p f now \<longleftrightarrow> (\<exists>a \<in> set (pool_accounts p). isAccountEligible a now f)"
  by (auto simp: canServe_def list_ex_iff)

lemma pool_select_eligible:
  "canServe p f now \<Longrightarrow>
     pool_select p f now = select_eligible p (filter (\<lambda>a. isAccountEligible a now f) (pool_accounts p)) f now"
  unfolding pool_select_def canServe_iff Let_def length_filter_pos by auto

lemma pool_select_probe:
  "\<not> canServe p f now \<Longrightarrow>
     pool_select p f now = leastUsed (filter (\<lambda>a. isProbeable a now f) (pool_accounts p))"
  unfolding pool_select_def canServe_iff Let_def length_filter_pos length_0_conv
  using least_used.pick_Nil
  by (cases "accounts p = []"; cases "filter (\<lambda>a. isProbeable a now f) (pool_accounts p) = []") simp_all

lemma pool_select_in:
  assumes "pool_select p f now = Some a"
  shows "a \<in> set (pool_accounts p)" and "isProbeable a now f"
    and "canServe p f now \<Longrightarrow> isAccountEligible a now f"
proof -
  have "a \<in> set (pool_accounts p) \<and> isProbeable a now f \<and> (canServe p f now \<longrightarrow> isAccountEligible a now f)"
  proof (cases "canServe p f now")
    case True
    then have "a \<in> set (filter (\<lambda>a. isAccountEligible a now f) (pool_accounts p))"
      using assms select_eligible_in by (metis pool_select_eligible)
    then show ?thesis using eligible_probeable [of a now f] by simp
  next
    case False
    then have "a \<in> set (filter (\<lambda>a. isProbeable a now f) (pool_accounts p))"
      using assms least_used.pick_in by (metis pool_select_probe)
    then show ?thesis using False by simp
  qed
  then show "a \<in> set (pool_accounts p)" and "isProbeable a now f"
    and "canServe p f now \<Longrightarrow> isAccountEligible a now f" by auto
qed

lemma pool_select_None_cases:
  "pool_select p f now = None \<longleftrightarrow>
     (if canServe p f now
      then hardHeadroomFloor p
           \<and> (\<forall>a \<in> set (pool_accounts p). isAccountEligible a now f \<longrightarrow>
                 \<not> above_floor f (headroomFloor p) now a \<and> \<not> floor_stale f (headroomFloor p) now a)
      else (\<forall>a \<in> set (pool_accounts p). \<not> isProbeable a now f))"
proof (cases "canServe p f now")
  case True
  then have "filter (\<lambda>a. isAccountEligible a now f) (pool_accounts p) \<noteq> []"
    by (auto simp: canServe_iff filter_empty_conv)
  with True show ?thesis by (auto simp: pool_select_eligible select_eligible_None)
next
  case False
  then show ?thesis by (simp add: pool_select_probe least_used.pick_None_iff)
qed

section \<open>Parked until\<close>

lemma parked_seat_not_selectable:
  assumes "parked_seat_until p f now a = Some t"
  shows "(now < t \<and> \<not> isProbeable a now f \<and> \<not> isAccountEligible a now f)
         \<or> (hardHeadroomFloor p \<and> isAccountEligible a now f \<and> now < t
            \<and> \<not> above_floor f (headroomFloor p) now a \<and> \<not> floor_stale f (headroomFloor p) now a)"
proof -
  consider (park) "isParkedInLiveWindow a now f" | (cool) "\<not> isParkedInLiveWindow a now f" "isCoolingAfterRejection a now"
    | (floor) "\<not> isParkedInLiveWindow a now f" "\<not> isCoolingAfterRejection a now" by blast
  then show ?thesis
  proof cases
    case park
    then have "now < t" using assms familyParked_until [of "rateLimit a" f now]
      by (auto simp: parked_seat_until_def isParkedInLiveWindow_def Let_def split: if_splits)
    then show ?thesis using park eligible_probeable [of a now f] by (auto simp: isProbeable_def)
  next
    case cool
    then have "now < t" using assms
      by (auto simp: parked_seat_until_def isCoolingAfterRejection_def Let_def split: option.splits)
    then show ?thesis using cool eligible_probeable [of a now f] by (auto simp: isProbeable_def)
  next
    case floor
    then have "hardHeadroomFloor p \<and> isAccountEligible a now f
               \<and> floorParkedUntil (rateLimit a) f (headroomFloor p) now = Some t"
      using assms by (auto simp: parked_seat_until_def Let_def split: if_splits)
    then show ?thesis using floorParkedUntil_Some [of "rateLimit a" f "headroomFloor p" now t]
      by (auto simp: above_floor_def floor_stale_def)
  qed
qed

lemma parkedUntil_min:
  assumes "parkedUntil p f now = Some t"
  shows "pool_accounts p \<noteq> []"
    and "a \<in> set (pool_accounts p) \<Longrightarrow> \<exists>u. parked_seat_until p f now a = Some u \<and> t \<le> u"
    and "\<exists>a \<in> set (pool_accounts p). parked_seat_until p f now a = Some t"
proof -
  let ?u = "map (parked_seat_until p f now) (pool_accounts p)"
  obtain r rs where m: "map the ?u = r # rs" and all: "list_all (\<lambda>r. r \<noteq> None) ?u" and t: "t = min_of r rs"
    and ne: "?u \<noteq> []"
    using assms by (auto simp: parkedUntil_def Let_def split: list.splits if_splits)
  show "pool_accounts p \<noteq> []" using ne by simp
  show "\<exists>u. parked_seat_until p f now a = Some u \<and> t \<le> u" if "a \<in> set (pool_accounts p)"
  proof -
    have "the (parked_seat_until p f now a) \<in> set (map the ?u)"
      using that by (metis image_eqI list.set_map)
    then have "t \<le> the (parked_seat_until p f now a)"
      using min_of_lower [of "the (parked_seat_until p f now a)" r rs] unfolding m t by simp
    then show ?thesis using all that by (auto simp: list_all_iff)
  qed
  have "t \<in> set (map the ?u)" using min_of_in [of r rs] m t by (metis list.set(2))
  then obtain a where a: "a \<in> set (pool_accounts p)" and ta: "t = the (parked_seat_until p f now a)"
    unfolding set_map by blast
  from all a have "parked_seat_until p f now a \<noteq> None" by (auto simp: list_all_iff)
  with a ta show "\<exists>a \<in> set (pool_accounts p). parked_seat_until p f now a = Some t" by (intro bexI [of _ a]) auto
qed

text \<open>A seat out of service keeps out of service until the time \<open>parkedUntil\<close> reads for it.\<close>

lemma parked_seat_ineligible_until:
  assumes "parked_seat_until p f now a = Some u" and "\<not> isAccountEligible a now f"
    and "now \<le> now'" and "now' < u"
  shows "\<not> isAccountEligible a now' f"
proof -
  let ?rl = "rateLimit a"
  consider (bucket) "familyParkedOnBuckets ?rl f now" "isParkedInLiveWindow a now f"
    | (window) "\<not> familyParkedOnBuckets ?rl f now" "isParkedInLiveWindow a now f"
    | (cool) "\<not> isParkedInLiveWindow a now f" "isCoolingAfterRejection a now"
    using assms(1,2) by (auto simp: parked_seat_until_def Let_def split: if_splits)
  then have "accountIneligibility a now' f = Some Rate_limited"
  proof cases
    case bucket
    then have "parkedBucketsUntil ?rl = Some u"
      using assms(1) familyParked_until [of ?rl f now] by (auto simp: parked_seat_until_def Let_def)
    then have "familyParkedOnBuckets ?rl f now'"
      using bucket(1) assms(4) by (auto simp: familyParked_iff)
    then show ?thesis by (simp add: rate_limited_iff)
  next
    case window
    then have "u = rl_reset ?rl * 1000" "rl_status ?rl = ''rejected''" "exhausted ?rl \<noteq> Some False"
      "\<not> isBucketScopedRejection ?rl"
      using assms(1) by (auto simp: parked_seat_until_def isParkedInLiveWindow_def Let_def split: if_splits)
    then show ?thesis using assms(4) by (simp add: rate_limited_iff rateLimitWindowPassed_def)
  next
    case cool
    then have "isCoolingAfterRejection a now'"
      using assms(1,4) by (auto simp: parked_seat_until_def isCoolingAfterRejection_def Let_def split: option.splits)
    then show ?thesis by (rule cooling_rate_limited)
  qed
  then show ?thesis by (simp add: eligible_iff)
qed

section \<open>Properties of selecting\<close>

text \<open>A seat for the witnesses: its utilisations, a token good for an hour, nothing parked.\<close>

definition sample_seat :: "string \<Rightarrow> ratio \<Rightarrow> ratio \<Rightarrow> ms \<Rightarrow> pool_account" where
  "sample_seat k u5 u7 now =
     \<lparr> acc_alias = k, accessToken = ''at'', refreshToken = ''rt'', expiresAt = now + 3600000,
       identity = \<lparr>deviceId = ''d'', accountUuid = ''u'', sessionId = ''s''\<rparr>,
       rateLimit = EMPTY_SNAPSHOT\<lparr>rl_status := ''allowed'', util5h := u5, util7d := u7\<rparr>,
       requestCount = 0, rejectedCount = 0, lastRejectedAt = None, accountId = None, accountEmail = None,
       rateLimitTier = None, seatTier = None, organizationId = None, adoptedFrom = None,
       grantedAt = None, lastAuthFailureAt = None, consecutiveAuthFailures = 0 \<rparr>"

definition sample_pool :: "pool_strategy \<Rightarrow> pool_account list \<Rightarrow> account_pool" where
  "sample_pool s as = (new_pool s None)\<lparr>accounts := map (\<lambda>a. (acc_alias a, a)) as\<rparr>"

text \<open>
  C1. \<open>select()\<close> never routes to a seat it must not ask: the seat it returns is in the pool, is not
  in an authentication cool-down, not parked in a live window and not cooling after a rejection; it
  is eligible whenever any seat is; and under an operator's floor it is above the floor or is a
  probe of a seat whose floor reading names no future reset.
\<close>

theorem pool_select_sound:
  assumes "pool_select p family now = Some a"
  shows "a \<in> set (pool_accounts p) \<and> isProbeable a now family
         \<and> (canServe p family now \<longrightarrow> isAccountEligible a now family)
         \<and> (canServe p family now \<and> hardHeadroomFloor p \<longrightarrow>
              above_floor family (headroomFloor p) now a \<or> floor_stale family (headroomFloor p) now a)"
proof -
  have "above_floor family (headroomFloor p) now a \<or> floor_stale family (headroomFloor p) now a"
    if "canServe p family now" "hardHeadroomFloor p"
    using assms that
    by (auto simp: pool_select_eligible select_eligible_def Let_def split: option.splits if_splits
        dest: first_pick_None max_headroom.pick_in floor_probe.pick_in)
  with pool_select_in [OF assms] show ?thesis by blast
qed

theorem pool_select_sound_witness:
  "isProbeable (sample_seat ''a'' (1/10) 0 1000) 1000 None"
proof -
  have "pool_select (sample_pool Headroom [sample_seat ''a'' (1/10) 0 1000]) None 1000
        = Some (sample_seat ''a'' (1/10) 0 1000)" by code_simp
  from pool_select_sound [OF this] show ?thesis by simp
qed

text \<open>
  C2. \<open>select()\<close> gives up only when it must. While some seat is eligible it returns none exactly
  under an operator's floor that every eligible seat is at or below with a known reset ahead; with
  no eligible seat it returns none exactly when no seat may be asked at all.
\<close>

theorem pool_select_none_iff:
  "pool_select p family now = None \<longleftrightarrow>
     (if \<exists>a \<in> set (pool_accounts p). isAccountEligible a now family
      then hardHeadroomFloor p
           \<and> (\<forall>a \<in> set (pool_accounts p). isAccountEligible a now family \<longrightarrow>
                \<not> above_floor family (headroomFloor p) now a
                \<and> floorParkedUntil (rateLimit a) family (headroomFloor p) now \<noteq> None)
      else (\<forall>a \<in> set (pool_accounts p).
              isInAuthCooldown a now \<or> isParkedInLiveWindow a now family \<or> isCoolingAfterRejection a now))"
  unfolding pool_select_None_cases canServe_iff by (auto simp: floor_stale_def isProbeable_def)

theorem pool_select_none_iff_witness:
  "pool_select (sample_pool Headroom
      [(sample_seat ''a'' 1 0 1000)\<lparr>lastAuthFailureAt := Some 900, consecutiveAuthFailures := 1\<rparr>]) None 1000 = None"
  unfolding pool_select_none_iff by code_simp

text \<open>
  C4. Each strategy returns its best seat. Against any eligible seat \<open>b\<close> above the floor,
  fill-first returns a seat above the floor with no later alias, expiring-first one whose weekly
  window ends no later, and both headroom strategies one with no lower score; with no operator
  floor the headroom strategies compare with every eligible seat.
\<close>

theorem pool_select_best:
  assumes "pool_select p family now = Some a"
    and "b \<in> set (pool_accounts p)" and "isAccountEligible b now family"
    and "above_floor family (headroomFloor p) now b
         \<or> strategy p \<in> {Headroom, Headroom_by_plan} \<and> \<not> hardHeadroomFloor p"
  shows "case strategy p of
           Fill_first \<Rightarrow> above_floor family (headroomFloor p) now a \<and> acc_alias a \<le> acc_alias b
         | Expiring_first \<Rightarrow> above_floor family (headroomFloor p) now a \<and> expiry_key now a \<le> expiry_key now b
         | s \<Rightarrow> headroom_score family (s = Headroom_by_plan) now b
                  \<le> headroom_score family (s = Headroom_by_plan) now a"
proof -
  let ?E = "filter (\<lambda>a. isAccountEligible a now family) (pool_accounts p)"
  let ?above = "above_floor family (headroomFloor p) now"
  have b: "b \<in> set ?E" using assms(2,3) by simp
  have sel: "select_eligible p ?E family now = Some a"
    using assms(1-3) pool_select_eligible canServe_iff by metis
  have mx: "headroom_score family byPlan now b \<le> headroom_score family byPlan now a"
    if "pickMaxHeadroom xs family byPlan now = Some a" "b \<in> set xs" for xs byPlan
    using max_headroom.pick_best [OF that(1) that(2)] by simp
  show ?thesis
  proof (cases "strategy p")
    case Fill_first
    with assms(4) have "?above b" by simp
    from fill_first.pick_Some_ex [OF b this] obtain c where "pickFillFirst ?E family (headroomFloor p) now = Some c" ..
    with sel Fill_first have "pickFillFirst ?E family (headroomFloor p) now = Some a"
      by (simp add: select_eligible_def)
    from fill_first.pick_in [OF this] fill_first.pick_best [OF this b \<open>?above b\<close>] Fill_first
    show ?thesis by simp
  next
    case Expiring_first
    with assms(4) have "?above b" by simp
    from expiring_first.pick_Some_ex [OF b this] obtain c where "pickExpiringFirst ?E family (headroomFloor p) now = Some c" ..
    with sel Expiring_first have "pickExpiringFirst ?E family (headroomFloor p) now = Some a"
      by (simp add: select_eligible_def)
    from expiring_first.pick_in [OF this] expiring_first.pick_best [OF this b \<open>?above b\<close>] Expiring_first
    show ?thesis by simp
  next
    case Headroom
    then show ?thesis using sel b assms(4) mx [of ?E False] mx [of "filter ?above ?E" False]
      by (auto simp: select_eligible_def Let_def filter_empty_conv split: if_splits)
  next
    case Headroom_by_plan
    then show ?thesis using sel b assms(4) mx [of ?E True] mx [of "filter ?above ?E" True]
      by (auto simp: select_eligible_def Let_def filter_empty_conv split: if_splits)
  qed
qed

theorem pool_select_best_witness:
  "acc_alias (sample_seat ''a'' (1/2) 0 1000) \<le> acc_alias (sample_seat ''b'' (1/10) 0 1000)"
proof -
  let ?p = "sample_pool Fill_first [sample_seat ''b'' (1/10) 0 1000, sample_seat ''a'' (1/2) 0 1000]"
  have sel: "pool_select ?p None 1000 = Some (sample_seat ''a'' (1/2) 0 1000)" by code_simp
  have m: "sample_seat ''b'' (1/10) 0 1000 \<in> set (pool_accounts ?p)" by (simp add: sample_pool_def)
  have e: "isAccountEligible (sample_seat ''b'' (1/10) 0 1000) 1000 None" by code_simp
  have f: "above_floor None (headroomFloor ?p) 1000 (sample_seat ''b'' (1/10) 0 1000)" by code_simp
  have s: "strategy ?p = Fill_first" by (simp add: sample_pool_def new_pool_def)
  from pool_select_best [OF sel m e disjI1 [OF f]] show ?thesis by (simp add: s)
qed

text \<open>
  C5. \<open>parkedUntil\<close> is honest. When it names a time, that time is ahead, \<open>select()\<close> has nothing to
  offer now, and no seat that is out of service now can serve the family at any moment before it.
\<close>

theorem parkedUntil_honest:
  assumes "parkedUntil p family now = Some t"
  shows "now < t \<and> pool_select p family now = None
         \<and> (\<forall>a \<in> set (pool_accounts p). \<forall>now'. \<not> isAccountEligible a now family \<and> now \<le> now' \<and> now' < t
               \<longrightarrow> \<not> isAccountEligible a now' family)"
proof (intro conjI ballI allI impI)
  have seat: "\<exists>u. parked_seat_until p family now a = Some u \<and> t \<le> u" if "a \<in> set (pool_accounts p)" for a
    using parkedUntil_min(2) [OF assms that] .
  obtain a where "a \<in> set (pool_accounts p)" "parked_seat_until p family now a = Some t"
    using parkedUntil_min(3) [OF assms] by blast
  then show "now < t" using parked_seat_not_selectable [of p family now a t] by blast
  show "pool_select p family now = None"
    unfolding pool_select_None_cases canServe_iff
    using seat parked_seat_not_selectable [of p family now] by fastforce
  fix a now' assume "a \<in> set (pool_accounts p)"
    and h: "\<not> isAccountEligible a now family \<and> now \<le> now' \<and> now' < t"
  with seat obtain u where "parked_seat_until p family now a = Some u" "t \<le> u" by blast
  with h show "\<not> isAccountEligible a now' family"
    using parked_seat_ineligible_until [of p family now a u now'] by simp
qed

theorem parkedUntil_honest_witness:
  "pool_select (sample_pool Headroom
     [(sample_seat ''a'' 1 0 1000)\<lparr>rateLimit := EMPTY_SNAPSHOT\<lparr>rl_status := ''rejected'', exhausted := Some True, rl_reset := 5\<rparr>\<rparr>])
     None 1000 = None"
proof -
  let ?p = "sample_pool Headroom
     [(sample_seat ''a'' 1 0 1000)\<lparr>rateLimit := EMPTY_SNAPSHOT\<lparr>rl_status := ''rejected'', exhausted := Some True, rl_reset := 5\<rparr>\<rparr>]"
  have "parkedUntil ?p None 1000 = Some 5000" by code_simp
  from parkedUntil_honest [OF this] show ?thesis by simp
qed

section \<open>Rejections\<close>

lemma map_of_with_account:
  "map_of (accounts (with_account k g p)) =
     (case map_of (accounts p) k of None \<Rightarrow> map_of (accounts p) | Some a \<Rightarrow> (map_of (accounts p))(k \<mapsto> g a))"
  by (auto simp: with_account_def jm.get_put split: option.splits)

lemma markRejected_seat:
  "map_of (accounts p) k = Some a \<Longrightarrow>
     map_of (accounts (snd (markRejected k s clk p))) k =
       Some (a\<lparr>rateLimit := rejected_reading (rateLimit a) s (stamp_of s clk),
               adoptedFrom := None, rejectedCount := rejectedCount a + 1,
               lastRejectedAt := Some (stamp_of s clk)\<rparr>)"
  by (simp add: markRejected_def Let_def map_of_with_account)

lemma rejected_reading_unified:
  assumes "isUnifiedWindowRejection s"
  shows "rejected_reading prev s now =
    (withBoundBuckets prev s)\<lparr>rl_status := ''rejected'', exhausted := Some True,
                     parkedBuckets := None, parkedBucketsUntil := None\<rparr>"
  using assms by (simp add: rejected_reading_def Let_def isWindowRejection_def)

lemma rejected_reading_buckets:
  assumes "\<not> isUnifiedWindowRejection s" and "exhaustedBuckets s \<noteq> []"
  shows "rejected_reading prev s now =
    (withBoundBuckets prev s)\<lparr>rl_status := ''rejected'', exhausted := Some True,
       parkedBuckets := Some (exhaustedBuckets s),
       parkedBucketsUntil := Some (if rl_reset s > 0 then rl_reset s * 1000
                                   else now + NON_WINDOW_REJECTION_COOLDOWN_MS)\<rparr>"
  using assms by (simp add: rejected_reading_def Let_def isWindowRejection_def)

lemma rejected_reading_burst:
  assumes "\<not> isWindowRejection s"
  shows "rejected_reading prev s now =
    (withParkedBuckets prev (withBoundBuckets prev s) now)
       \<lparr>rl_status := ''rejected'', exhausted := Some False,
        cooldownUntil := Some (now + opt_or (retryAfterMs s) NON_WINDOW_REJECTION_COOLDOWN_MS)\<rparr>"
  using assms by (simp add: rejected_reading_def Let_def)

lemma binding_after_rejection:
  "boundBuckets (rejected_reading prev s now) = mergeBoundBuckets (boundBuckets prev) (boundBuckets s)"
  by (simp add: rejected_reading_def Let_def)

text \<open>
  C6. A 429 that exhausted a shared window takes the seat out for every family until the reset it
  states, and no longer: after \<open>markRejected\<close> the seat is rate limited at a time exactly when that
  time is before the reset.
\<close>

theorem markRejected_window:
  assumes "map_of (accounts p) k = Some a" and "isUnifiedWindowRejection s" and "0 < rl_reset s"
  shows "\<exists>a'. map_of (accounts (snd (markRejected k s clk p))) k = Some a'
           \<and> (\<forall>now family. accountIneligibility a' now family = Some Rate_limited \<longleftrightarrow> now < rl_reset s * 1000)"
proof -
  let ?r = "rejected_reading (rateLimit a) s (stamp_of s clk)"
  have "rl_status ?r = ''rejected''" "exhausted ?r = Some True" "parkedBuckets ?r = None" "rl_reset ?r = rl_reset s"
    by (simp_all add: rejected_reading_unified [OF assms(2)])
  then have "(rl_status ?r = ''rejected'' \<and> \<not> rateLimitWindowPassed ?r now \<and> \<not> isBucketScopedRejection ?r)
             \<or> familyParkedOnBuckets ?r family now \<longleftrightarrow> now < rl_reset s * 1000" for now family
    using assms(3) by (auto simp: rateLimitWindowPassed_def isBucketScopedRejection_def familyParked_iff)
  then show ?thesis by (simp add: markRejected_seat [OF assms(1)] rate_limited_iff)
qed

theorem markRejected_window_witness:
  "\<exists>a'. map_of (accounts (snd (markRejected ''a'' (EMPTY_SNAPSHOT\<lparr>util5h := 1, rl_reset := 9\<rparr>) 1000
            (sample_pool Headroom [sample_seat ''a'' 0 0 1000])))) ''a'' = Some a'
     \<and> (\<forall>now family. accountIneligibility a' now family = Some Rate_limited \<longleftrightarrow> now < 9000)"
  using markRejected_window [of "sample_pool Headroom [sample_seat ''a'' 0 0 1000]" "''a''"
      "sample_seat ''a'' 0 0 1000" "EMPTY_SNAPSHOT\<lparr>util5h := 1, rl_reset := 9\<rparr>" 1000]
  by (simp add: sample_pool_def isUnifiedWindowRejection_def EMPTY_SNAPSHOT_def sample_seat_def)

text \<open>
  A 429 that only exhausted per-model buckets parks only the families those buckets bind: the
  seat is rate limited for a family exactly while the bucket's reset is ahead (a minute when the
  response names none) and some exhausted bucket binds that family, by name, by the wire table, or
  as this seat learned from its own responses, this one included.
\<close>

theorem markRejected_buckets:
  assumes "map_of (accounts p) k = Some a"
    and "\<not> isUnifiedWindowRejection s" and "exhaustedBuckets s \<noteq> []"
    and "opt_map_wf (boundBuckets (rateLimit a))" and "opt_map_wf (boundBuckets s)"
  shows "\<exists>a'. map_of (accounts (snd (markRejected k s clk p))) k = Some a'
           \<and> (\<forall>now family. accountIneligibility a' now (Some family) = Some Rate_limited \<longleftrightarrow>
                 family \<noteq> []
                 \<and> now < (if rl_reset s > 0 then rl_reset s * 1000
                          else stamp_of s clk + NON_WINDOW_REJECTION_COOLDOWN_MS)
                 \<and> set (exhaustedBuckets s) \<inter>
                     ({family} \<union> (if family = ''fable'' then {''oi''} else {})
                      \<union> opt_bound_set (boundBuckets (rateLimit a)) family
                      \<union> opt_bound_set (boundBuckets s) family) \<noteq> {})"
proof -
  let ?r = "rejected_reading (rateLimit a) s (stamp_of s clk)"
  have r: "rl_status ?r = ''rejected''" "exhausted ?r = Some True" "parkedBuckets ?r = Some (exhaustedBuckets s)"
    "parkedBucketsUntil ?r = Some (if rl_reset s > 0 then rl_reset s * 1000
                                   else stamp_of s clk + NON_WINDOW_REJECTION_COOLDOWN_MS)"
    by (simp_all add: rejected_reading_buckets [OF assms(2,3)])
  have b: "set (bucketsBindingFamily ?r f) = {f} \<union> (if f = ''fable'' then {''oi''} else {})
             \<union> opt_bound_set (boundBuckets (rateLimit a)) f \<union> opt_bound_set (boundBuckets s) f" for f
    by (simp add: set_bucketsBindingFamily_bound binding_after_rejection opt_bound_set_merge [OF assms(4,5)] Un_assoc)
  have "isBucketScopedRejection ?r" using r assms(3) by (simp add: isBucketScoped_iff)
  then show ?thesis
    using r(3,4) by (simp add: markRejected_seat [OF assms(1)] rate_limited_iff familyParked_iff truthy_Some_iff b
        disjoint_iff Bex_def [symmetric])
qed

theorem markRejected_buckets_witness:
  "\<exists>a'. map_of (accounts (snd (markRejected ''a'' (EMPTY_SNAPSHOT\<lparr>perModel7d := [(''oi'', 1)], rl_reset := 9\<rparr>) 1000
            (sample_pool Headroom [sample_seat ''a'' 0 0 1000])))) ''a'' = Some a'
     \<and> accountIneligibility a' 8999 (Some ''fable'') = Some Rate_limited
     \<and> accountIneligibility a' 8999 (Some ''opus'') \<noteq> Some Rate_limited"
proof -
  let ?s = "EMPTY_SNAPSHOT\<lparr>perModel7d := [(''oi'', 1)], rl_reset := 9\<rparr>"
  let ?a = "sample_seat ''a'' 0 0 1000"
  have h: "map_of (accounts (sample_pool Headroom [?a])) ''a'' = Some ?a"
    "\<not> isUnifiedWindowRejection ?s" "exhaustedBuckets ?s = [''oi'']"
    "boundBuckets (rateLimit ?a) = None" "boundBuckets ?s = None" "0 < rl_reset ?s"
    by (simp_all add: sample_pool_def sample_seat_def isUnifiedWindowRejection_def exhaustedBuckets_def EMPTY_SNAPSHOT_def)
  from h markRejected_buckets [of "sample_pool Headroom [?a]" "''a''" ?a ?s 1000]
  obtain a' where "map_of (accounts (snd (markRejected ''a'' ?s 1000 (sample_pool Headroom [?a])))) ''a'' = Some a'"
    and "\<And>now family. accountIneligibility a' now (Some family) = Some Rate_limited \<longleftrightarrow>
           family \<noteq> [] \<and> now < rl_reset ?s * 1000
           \<and> {''oi''} \<inter> ({family} \<union> (if family = ''fable'' then {''oi''} else {})) \<noteq> {}"
    by (auto simp: opt_map_wf_def opt_bound_set_def)
  then show ?thesis by (auto simp: EMPTY_SNAPSHOT_def)
qed

text \<open>
  A 429 that exhausted no window (a request burst) cools the seat for every family exactly as
  long as it asks, a minute when it does not say, and parks nothing: the seat's stated windows are
  ignored.
\<close>

theorem markRejected_burst:
  assumes "map_of (accounts p) k = Some a" and "\<not> isWindowRejection s" and "parkedBuckets s = None"
    and "activeParkedBuckets (rateLimit a) (stamp_of s clk) = []"
  shows "\<exists>a'. map_of (accounts (snd (markRejected k s clk p))) k = Some a'
           \<and> (\<forall>now family. accountIneligibility a' now family = Some Rate_limited \<longleftrightarrow>
                now < stamp_of s clk + opt_or (retryAfterMs s) 60000)
           \<and> (\<forall>now family. \<not> isParkedInLiveWindow a' now family)"
proof -
  let ?r = "rejected_reading (rateLimit a) s (stamp_of s clk)"
  have r: "rl_status ?r = ''rejected''" "exhausted ?r = Some False" "parkedBuckets ?r = None"
    "cooldownUntil ?r = Some (stamp_of s clk + opt_or (retryAfterMs s) NON_WINDOW_REJECTION_COOLDOWN_MS)"
    using assms(3,4) by (simp_all add: rejected_reading_burst [OF assms(2)] withParkedBuckets_def)
  then have "\<not> familyParkedOnBuckets ?r f now" "\<not> isBucketScopedRejection ?r" for f now
    by (simp_all add: familyParked_iff isBucketScoped_iff)
  then show ?thesis using r
    by (simp add: markRejected_seat [OF assms(1)] rate_limited_iff rateLimitWindowPassed_def
        isParkedInLiveWindow_def NON_WINDOW_REJECTION_COOLDOWN_MS_def)
qed

theorem markRejected_burst_witness:
  "\<exists>a'. map_of (accounts (snd (markRejected ''a'' (EMPTY_SNAPSHOT\<lparr>util5h := 1/2, rl_reset := 9\<rparr>) 1000
            (sample_pool Headroom [sample_seat ''a'' 0 0 1000])))) ''a'' = Some a'
     \<and> (\<forall>now family. accountIneligibility a' now family = Some Rate_limited \<longleftrightarrow> now < 61000)
     \<and> (\<forall>now family. \<not> isParkedInLiveWindow a' now family)"
  using markRejected_burst [of "sample_pool Headroom [sample_seat ''a'' 0 0 1000]" "''a''"
      "sample_seat ''a'' 0 0 1000" "EMPTY_SNAPSHOT\<lparr>util5h := 1/2, rl_reset := 9\<rparr>" 1000]
  by (simp add: sample_pool_def isWindowRejection_def isUnifiedWindowRejection_def exhaustedBuckets_def
      EMPTY_SNAPSHOT_def sample_seat_def activeParkedBuckets_def stamp_of_def)

text \<open>
  A served response does not lift a bucket park it has no evidence against. After
  \<open>updateRateLimits\<close> a family is parked on buckets exactly when some bucket that was in force still
  has no reading under 99% in the new response, binds the family, and its reset is ahead.
\<close>

theorem updateRateLimits_keeps_park:
  assumes "map_of (accounts p) k = Some a" and "parkedBuckets s = None"
  shows "\<exists>a'. map_of (accounts (updateRateLimits k s clk p)) k = Some a'
           \<and> (\<forall>now f. familyParkedOnBuckets (rateLimit a') (Some f) now \<longleftrightarrow>
                 f \<noteq> [] \<and> (\<exists>u. parkedBucketsUntil (rateLimit a) = Some u \<and> now < u)
                 \<and> (\<exists>b \<in> set (activeParkedBuckets (rateLimit a) (stamp_of s clk)).
                       \<not> (\<exists>r. map_of (perModel7d s) b = Some r \<and> r < 99/100)
                       \<and> b \<in> set (bucketsBindingFamily (rateLimit a') f)))"
proof -
  let ?at = "stamp_of s clk" and ?prev = "rateLimit a"
  let ?r = "served_reading ?prev s ?at"
  let ?kept = "filter (\<lambda>b. \<not> (case map_of (perModel7d s) b of None \<Rightarrow> False | Some u \<Rightarrow> u < 99/100))
                 (activeParkedBuckets ?prev ?at)"
  have pb: "parkedBuckets ?r = (if ?kept = [] then None else Some ?kept)"
    "?kept \<noteq> [] \<Longrightarrow> parkedBucketsUntil ?r = parkedBucketsUntil ?prev"
    using assms(2) by (auto simp: served_reading_def withParkedBuckets_def Let_def)
  have "familyParkedOnBuckets ?r (Some f) now \<longleftrightarrow>
          f \<noteq> [] \<and> (\<exists>u. parkedBucketsUntil ?prev = Some u \<and> now < u)
          \<and> (\<exists>b \<in> set ?kept. b \<in> set (bucketsBindingFamily ?r f))" for f now
    using pb by (cases "?kept = []") (auto simp: familyParked_iff truthy_Some_iff)
  moreover have "map_of (accounts (updateRateLimits k s clk p)) k =
      Some (a\<lparr>rateLimit := ?r, adoptedFrom := None, requestCount := requestCount a + 1\<rparr>)"
    using assms(1) by (simp add: updateRateLimits_def map_of_with_account)
  ultimately show ?thesis by (auto split: option.splits)
qed

theorem updateRateLimits_keeps_park_witness:
  "\<exists>a'. map_of (accounts (updateRateLimits ''a'' (EMPTY_SNAPSHOT\<lparr>updatedAt := 1000\<rparr>) 1000
          (sample_pool Headroom [(sample_seat ''a'' 0 0 1000)\<lparr>rateLimit := EMPTY_SNAPSHOT\<lparr>rl_status := ''rejected'',
              exhausted := Some True, rl_reset := 9, parkedBuckets := Some [''opus''], parkedBucketsUntil := Some 9000\<rparr>\<rparr>])))
        ''a'' = Some a' \<and> familyParkedOnBuckets (rateLimit a') (Some ''opus'') 8999"
proof -
  let ?a = "(sample_seat ''a'' 0 0 1000)\<lparr>rateLimit := EMPTY_SNAPSHOT\<lparr>rl_status := ''rejected'',
              exhausted := Some True, rl_reset := 9, parkedBuckets := Some [''opus''], parkedBucketsUntil := Some 9000\<rparr>\<rparr>"
  have "map_of (accounts (sample_pool Headroom [?a])) ''a'' = Some ?a" "parkedBuckets (EMPTY_SNAPSHOT\<lparr>updatedAt := 1000\<rparr>) = None"
    by (simp_all add: sample_pool_def sample_seat_def EMPTY_SNAPSHOT_def)
  from updateRateLimits_keeps_park [OF this, of 1000] show ?thesis
    by (auto simp: activeParkedBuckets_def stamp_of_def EMPTY_SNAPSHOT_def)
qed

section \<open>Authentication failures\<close>

lemma auth_failed_in_cooldown:
  "isInAuthCooldown a now \<Longrightarrow> consecutiveAuthFailures (auth_failed now a) = consecutiveAuthFailures a"
  by (simp add: auth_failed_def)

lemma auth_failed_cools:
  assumes "now \<noteq> 0" and "0 < consecutiveAuthFailures (auth_failed now a)" and "now \<le> t"
  shows "isInAuthCooldown (auth_failed now a) t \<longleftrightarrow> t < now + authCooldownMs (consecutiveAuthFailures (auth_failed now a))"
  using assms by (auto simp: isInAuthCooldown_def auth_failed_def)

lemma auth_failed_positive: "0 < consecutiveAuthFailures (auth_failed now a)"
  by (auto simp: auth_failed_def isInAuthCooldown_def split: option.splits)

lemma burst_counts_once:
  assumes "lastAuthFailureAt a = Some t0" and "0 < t0" and "0 < consecutiveAuthFailures a"
    and "sorted (t0 # ts)" and "\<forall>t \<in> set ts. t < t0 + authCooldownMs (consecutiveAuthFailures a)"
  shows "consecutiveAuthFailures (fold auth_failed ts a) = consecutiveAuthFailures a
         \<and> lastAuthFailureAt (fold auth_failed ts a) = Some (last (t0 # ts))"
  using assms
proof (induction ts arbitrary: a t0)
  case Nil
  then show ?case by simp
next
  case (Cons t ts)
  then have "isInAuthCooldown a t" by (auto simp: isInAuthCooldown_def)
  then have c: "consecutiveAuthFailures (auth_failed t a) = consecutiveAuthFailures a"
    and l: "lastAuthFailureAt (auth_failed t a) = Some t" by (simp_all add: auth_failed_def)
  have "consecutiveAuthFailures (fold auth_failed ts (auth_failed t a)) = consecutiveAuthFailures (auth_failed t a)
         \<and> lastAuthFailureAt (fold auth_failed ts (auth_failed t a)) = Some (last (t # ts))"
    using Cons.prems by (intro Cons.IH l) (force simp: c)+
  then show ?case by (simp add: c)
qed

lemma markAuthFailure_run:
  "map_of (accounts p) k = Some a \<Longrightarrow>
     map_of (accounts (fold (markAuthFailure k) ts p)) k = Some (fold auth_failed ts a)"
  by (induction ts arbitrary: p a) (simp_all add: markAuthFailure_def map_of_with_account)

text \<open>
  A burst of authentication failures escalates the cool-down once. Whatever in-flight requests
  report inside the cool-down the first failure opened, the seat's failure count is one more than
  before the burst, it cools from the last report for the time that count sets, at least a minute
  and at most thirty, and one success clears it.
\<close>

theorem auth_burst_escalates_once:
  assumes "map_of (accounts p) k = Some a" and "0 < tf" and "\<not> isInAuthCooldown a tf"
    and "sorted (tf # ts)"
    and "\<forall>t \<in> set ts. t < tf + authCooldownMs (consecutiveAuthFailures a + 1)"
  shows "\<exists>a'. map_of (accounts (fold (markAuthFailure k) (tf # ts) p)) k = Some a'
           \<and> consecutiveAuthFailures a' = consecutiveAuthFailures a + 1
           \<and> (\<forall>now \<ge> last (tf # ts). isInAuthCooldown a' now \<longleftrightarrow>
                 now < last (tf # ts) + authCooldownMs (consecutiveAuthFailures a + 1))
           \<and> 60000 \<le> authCooldownMs (consecutiveAuthFailures a + 1)
           \<and> authCooldownMs (consecutiveAuthFailures a + 1) \<le> 1800000
           \<and> (\<forall>now. \<not> isInAuthCooldown (auth_cleared a') now)"
proof -
  let ?b = "auth_failed tf a" and ?n = "consecutiveAuthFailures a + 1" and ?l = "last (tf # ts)"
  have b: "consecutiveAuthFailures ?b = ?n" "lastAuthFailureAt ?b = Some tf"
    using assms(3) by (simp_all add: auth_failed_def)
  let ?c = "fold auth_failed ts ?b"
  have c: "consecutiveAuthFailures ?c = ?n" "lastAuthFailureAt ?c = Some ?l"
    using burst_counts_once [OF b(2) assms(2) _ assms(4)] assms(5) by (simp_all add: b(1))
  have "tf \<le> ?l" using assms(4) by (cases ts) auto
  then have "0 < ?l" using assms(2) by simp
  then have cool: "isInAuthCooldown ?c now \<longleftrightarrow> now < ?l + authCooldownMs ?n" for now
    using c by (auto simp: isInAuthCooldown_def)
  have bounds: "60000 \<le> authCooldownMs ?n" "authCooldownMs ?n \<le> 1800000"
    using authCooldown_min [of ?n] authCooldown_bounds [of ?n]
    by (simp_all add: AUTH_COOLDOWN_BASE_MS_def AUTH_COOLDOWN_MAX_MS_def)
  have clear: "\<not> isInAuthCooldown (auth_cleared ?c) now" for now
    using c by (simp add: auth_cleared_def isInAuthCooldown_def)
  have "map_of (accounts (fold (markAuthFailure k) (tf # ts) p)) k = Some ?c"
    using markAuthFailure_run [OF assms(1), of "tf # ts"] by simp
  then show ?thesis using c(1) cool bounds clear by blast
qed

theorem auth_burst_escalates_once_witness:
  "\<exists>a'. map_of (accounts (fold (markAuthFailure ''a'') [1000, 2000, 60999]
             (sample_pool Headroom [sample_seat ''a'' 0 0 1000]))) ''a'' = Some a'
        \<and> consecutiveAuthFailures a' = 1"
proof -
  have "map_of (accounts (sample_pool Headroom [sample_seat ''a'' 0 0 1000])) ''a'' = Some (sample_seat ''a'' 0 0 1000)"
    by (simp add: sample_pool_def sample_seat_def)
  moreover have "\<not> isInAuthCooldown (sample_seat ''a'' 0 0 1000) 1000" "authCooldownMs 1 = 60000"
    "consecutiveAuthFailures (sample_seat ''a'' 0 0 1000) = 0"
    by (simp_all add: sample_seat_def isInAuthCooldown_def authCooldownMs_def AUTH_COOLDOWN_BASE_MS_def AUTH_COOLDOWN_MAX_MS_def)
  ultimately show ?thesis
    using auth_burst_escalates_once [where ts = "[2000, 60999]" and tf = 1000 and k = "''a''"] by fastforce
qed

end
