(* ===== verification/Pool_Invariant.thy ===== *)
theory Pool_Invariant
  imports Pool_Props
begin

text \<open>
  The pool's well-formedness, kept by every operation of \<open>AccountPool\<close> in any order: one seat per
  alias, filed under its own alias, one binding per conversation, learned buckets as one entry per
  family, at most \<open>queueMaxSize\<close> waiting requests and a drain timer whenever one waits. Then the
  properties of sticky sessions, the waiting queue and reconciliation that rest on it.
\<close>

section \<open>Well-formed pools\<close>

definition seat_wf :: "pool_account \<Rightarrow> bool" where
  "seat_wf a \<longleftrightarrow> opt_map_wf (boundBuckets (rateLimit a))"

definition pool_wf :: "account_pool \<Rightarrow> bool" where
  "pool_wf p \<longleftrightarrow>
     map_wf (accounts p)
     \<and> (\<forall>(k, a) \<in> set (accounts p). acc_alias a = k \<and> seat_wf a)
     \<and> map_wf (sticky p)
     \<and> length (pool_queue p) \<le> queueMaxSize
     \<and> (pool_queue p \<noteq> [] \<longrightarrow> drainTimer p)"

lemma pool_wf_seat:
  "pool_wf p \<Longrightarrow> map_of (accounts p) k = Some a \<Longrightarrow> acc_alias a = k \<and> seat_wf a"
  by (auto simp: pool_wf_def dest!: map_of_SomeD)

lemma pool_wf_member:
  assumes "pool_wf p" and "a \<in> set (pool_accounts p)"
  shows "map_of (accounts p) (acc_alias a) = Some a"
  using assms by (auto simp: pool_wf_def map_wf_map_of [symmetric])

lemma pool_wf_new: "pool_wf (new_pool s f)"
  by (simp add: pool_wf_def new_pool_def)

lemma map_wf_merge: "map_wf m \<Longrightarrow> map_wf (foldl merge_entry m es)"
  by (induction es arbitrary: m) (auto simp: merge_entry_def intro: inv_intros)

lemma opt_map_wf_merge: "opt_map_wf p \<Longrightarrow> opt_map_wf n \<Longrightarrow> opt_map_wf (mergeBoundBuckets p n)"
  by (auto simp: opt_map_wf_def mergeBoundBuckets_def map_wf_merge split: option.splits)

lemma seat_wf_parse: "opt_map_wf (boundBuckets (parseRateLimits dp hs f now))"
  by (simp add: parseRateLimits_def Let_def opt_map_wf_def map_wf_def split: prod.splits option.splits list.splits)

lemma boundBuckets_served:
  "boundBuckets (served_reading prev s at_ms) = mergeBoundBuckets (boundBuckets prev) (boundBuckets s)"
  by (simp add: served_reading_def Let_def)

lemma boundBuckets_adopted:
  "boundBuckets (adopted_reading prev s rej) = mergeBoundBuckets (boundBuckets prev) (boundBuckets s)"
  by (simp add: adopted_reading_def Let_def)

section \<open>The operations\<close>

lemma set_accounts_update:
  "x \<in> set (AList.update k v m) \<Longrightarrow> x = (k, v) \<or> x \<in> set m"
  using set_update_le [of k v m] by blast

lemma wf_with_account [inv_intros]:
  assumes "pool_wf p"
    and "\<And>a. map_of (accounts p) k = Some a \<Longrightarrow> seat_wf a \<Longrightarrow> acc_alias a = k
            \<Longrightarrow> acc_alias (g a) = k \<and> seat_wf (g a)"
  shows "pool_wf (with_account k g p)"
proof (cases "map_of (accounts p) k")
  case None
  then show ?thesis using assms(1) by (simp add: with_account_def)
next
  case (Some a)
  have "acc_alias (g a) = k \<and> seat_wf (g a)" using assms(2) Some pool_wf_seat [OF assms(1) Some] by blast
  then show ?thesis using assms(1) Some
    by (auto simp: with_account_def pool_wf_def intro: inv_intros dest!: set_accounts_update)
qed

lemma seat_wf_empty: "seat_wf (a\<lparr>rateLimit := EMPTY_SNAPSHOT\<rparr>)"
  by (simp add: seat_wf_def EMPTY_SNAPSHOT_def opt_map_wf_def)

lemma added_account_wf:
  "(\<And>a. e = Some a \<Longrightarrow> seat_wf a) \<Longrightarrow> acc_alias (added_account k opts u e) = k \<and> seat_wf (added_account k opts u e)"
  by (auto simp: added_account_def seat_wf_def EMPTY_SNAPSHOT_def opt_map_wf_def split: option.splits)

lemma wf_add [inv_intros]:
  assumes "pool_wf p"
  shows "pool_wf (pool_add k opts u p)"
proof -
  have "acc_alias (added_account k opts u (kept (map_of (accounts p) k) opts)) = k
        \<and> seat_wf (added_account k opts u (kept (map_of (accounts p) k) opts))"
    using pool_wf_seat [OF assms] by (intro added_account_wf) (auto simp: kept_def split: if_splits)
  then show ?thesis using assms
    by (auto simp: pool_add_def pool_wf_def intro: inv_intros dest!: set_accounts_update)
qed

lemma wf_remove [inv_intros]: "pool_wf p \<Longrightarrow> pool_wf (pool_remove k p)"
  using set_delete_le [of k "accounts p"] by (auto simp: pool_remove_def pool_wf_def intro: inv_intros)

lemma map_wf_foldl_delete: "map_wf m \<Longrightarrow> map_wf (foldl (\<lambda>m e. AList.delete (fst e) m) m es)"
  by (induction es arbitrary: m) (auto intro: inv_intros)

lemma cleanupSticky_frame [frame_simps, simp]:
  "accounts (cleanupSticky now p) = accounts p"
  "pool_queue (cleanupSticky now p) = pool_queue p"
  "drainTimer (cleanupSticky now p) = drainTimer p"
  "strategy (cleanupSticky now p) = strategy p"
  "headroomFloor (cleanupSticky now p) = headroomFloor p"
  "hardHeadroomFloor (cleanupSticky now p) = hardHeadroomFloor p"
  by (simp_all add: cleanupSticky_def evict_sticky_def sweep_sticky_def Let_def)

lemma map_wf_cleanup: "map_wf (sticky p) \<Longrightarrow> map_wf (sticky (cleanupSticky now p))"
  by (auto simp: cleanupSticky_def evict_sticky_def sweep_sticky_def Let_def intro: map_wf_foldl_delete inv_intros)

lemma wf_cleanup [inv_intros]: "pool_wf p \<Longrightarrow> pool_wf (cleanupSticky now p)"
  by (simp add: pool_wf_def map_wf_cleanup)

lemma wf_bind [inv_intros]: "pool_wf p \<Longrightarrow> pool_wf (bind_sticky key k now p)"
  by (simp add: pool_wf_def bind_sticky_def map_wf_update)

lemma wf_sticky_update: "pool_wf p \<Longrightarrow> pool_wf (p\<lparr>sticky := AList.update key b (sticky p)\<rparr>)"
  by (simp add: pool_wf_def map_wf_update)

lemma wf_selectSticky [inv_intros]: "pool_wf p \<Longrightarrow> pool_wf (snd (selectSticky key f now clk p))"
  by (auto simp: selectSticky_def Let_def intro: inv_intros wf_sticky_update split: option.splits)

lemma wf_rebind [inv_intros]: "pool_wf p \<Longrightarrow> pool_wf (rebindSticky key k clk p)"
  by (auto simp: rebindSticky_def intro: inv_intros split: option.splits)

lemma wf_wait [inv_intros]: "pool_wf p \<Longrightarrow> pool_wf (snd (waitForAccount i clk p))"
  by (auto simp: waitForAccount_def pool_wf_def split: option.splits)

lemma wf_timeout [inv_intros]: "pool_wf p \<Longrightarrow> pool_wf (snd (wait_timeout i p))"
  using le_trans [OF length_filter_le [of "\<lambda>q. q_id q \<noteq> i" "pool_queue p"]]
  by (auto simp: wait_timeout_def pool_wf_def)

lemma drain_loop_length: "length (snd (drain_loop p clk qs)) \<le> length qs"
  by (induction p clk qs rule: drain_loop.induct) (auto split: option.splits prod.splits)

lemma wf_drain [inv_intros]:
  assumes "pool_wf p"
  shows "pool_wf (snd (snd (drainQueue clk p)))"
proof -
  let ?live = "filter (\<lambda>q. \<not> clk - q_enqueuedAt q > queueTimeoutMs) (pool_queue p)"
  obtain served left where d: "drain_loop p clk ?live = (served, left)" by fastforce
  have "length left \<le> length (pool_queue p)"
    using le_trans [OF drain_loop_length [of p clk ?live] length_filter_le] d by simp
  then show ?thesis using assms d by (auto simp: drainQueue_def pool_wf_def Let_def)
qed

lemma wf_foldl: "pool_wf p \<Longrightarrow> (\<And>p x. pool_wf p \<Longrightarrow> pool_wf (g p x)) \<Longrightarrow> pool_wf (foldl g p xs)"
  by (induction xs arbitrary: p) auto

lemma wf_reconcile [inv_intros]: "pool_wf p \<Longrightarrow> pool_wf (snd (reconcilePoolAccounts us rs p))"
  unfolding reconcilePoolAccounts_def Let_def snd_conv
  by (rule wf_foldl, rule wf_foldl) (auto simp: add_reconciled_def intro: inv_intros)

datatype pool_op =
    Op_add string add_opts string
  | Op_remove string
  | Op_select "string option" "string option" ms ms
  | Op_rebind "string option" string ms
  | Op_auth_failed string ms
  | Op_auth_cleared string
  | Op_served string rate_limit_snapshot ms
  | Op_rejected string rate_limit_snapshot ms
  | Op_organization string string
  | Op_adopt string rate_limit_snapshot bool string
  | Op_tokens string string string ms
  | Op_wait nat ms
  | Op_wait_timeout nat
  | Op_drain ms
  | Op_reconcile "nat \<Rightarrow> string" "reconcilable_account list"

fun pool_step :: "pool_op \<Rightarrow> account_pool \<Rightarrow> account_pool" where
  "pool_step (Op_add k opts u) p = pool_add k opts u p"
| "pool_step (Op_remove k) p = pool_remove k p"
| "pool_step (Op_select key f now clk) p = snd (selectSticky key f now clk p)"
| "pool_step (Op_rebind key k clk) p = rebindSticky key k clk p"
| "pool_step (Op_auth_failed k clk) p = markAuthFailure k clk p"
| "pool_step (Op_auth_cleared k) p = clearAuthFailure k p"
| "pool_step (Op_served k s clk) p = updateRateLimits k s clk p"
| "pool_step (Op_rejected k s clk) p = snd (markRejected k s clk p)"
| "pool_step (Op_organization k org) p = snd (noteOrganization k org p)"
| "pool_step (Op_adopt k s rej peer) p = snd (adoptSnapshot k s rej peer p)"
| "pool_step (Op_tokens k acc ref e) p = updateTokens k acc ref e p"
| "pool_step (Op_wait i clk) p = snd (waitForAccount i clk p)"
| "pool_step (Op_wait_timeout i) p = snd (wait_timeout i p)"
| "pool_step (Op_drain clk) p = snd (snd (drainQueue clk p))"
| "pool_step (Op_reconcile us rs) p = snd (reconcilePoolAccounts us rs p)"

text \<open>The readings callers hand in carry one entry per family, as \<open>parseRateLimits\<close> builds them.\<close>

fun pool_op_ok :: "pool_op \<Rightarrow> account_pool \<Rightarrow> bool" where
  "pool_op_ok (Op_served k s clk) p = opt_map_wf (boundBuckets s)"
| "pool_op_ok (Op_rejected k s clk) p = opt_map_wf (boundBuckets s)"
| "pool_op_ok (Op_adopt k s rej peer) p = opt_map_wf (boundBuckets s)"
| "pool_op_ok _ p = True"

lemma wf_markRejected:
  assumes "pool_wf p" and "opt_map_wf (boundBuckets s)"
  shows "pool_wf (snd (markRejected k s clk p))"
proof (cases "map_of (accounts p) k")
  case (Some a)
  then show ?thesis using assms
    by (auto simp: markRejected_def Let_def seat_wf_def binding_after_rejection intro!: wf_with_account opt_map_wf_merge)
qed (simp add: markRejected_def assms)

interpretation pool_machine: inv_machine pool_step pool_op_ok pool_wf
proof
  fix p e assume wf: "pool_wf p" and ok: "pool_op_ok e p"
  show "pool_wf (pool_step e p)"
  proof (cases e)
    case (Op_auth_failed k clk)
    then show ?thesis using wf by (auto simp: markAuthFailure_def auth_failed_def seat_wf_def intro: wf_with_account)
  next
    case (Op_auth_cleared k)
    then show ?thesis using wf by (auto simp: clearAuthFailure_def auth_cleared_def seat_wf_def intro: wf_with_account)
  next
    case (Op_served k s clk)
    then show ?thesis using wf ok
      by (auto simp: updateRateLimits_def seat_wf_def boundBuckets_served intro!: wf_with_account opt_map_wf_merge)
  next
    case (Op_rejected k s clk)
    then show ?thesis using wf ok by (simp add: wf_markRejected)
  next
    case (Op_organization k org)
    then show ?thesis using wf by (auto simp: noteOrganization_def seat_wf_def split: option.splits intro!: wf_with_account)
  next
    case (Op_adopt k s rej peer)
    then show ?thesis using wf ok
      by (auto simp: adoptSnapshot_def seat_wf_def boundBuckets_adopted intro!: wf_with_account opt_map_wf_merge)
  next
    case (Op_tokens k acc ref e)
    then show ?thesis using wf by (auto simp: updateTokens_def seat_wf_def intro: wf_with_account)
  qed (use wf in \<open>simp_all add: inv_intros\<close>)
qed

text \<open>
  C20. Whatever sequence of operations a caller issues, the pool stays well formed: one seat per
  alias under its own alias, one binding per conversation, one learned entry per family, at most
  fifty requests waiting, and a drain timer set whenever one waits.
\<close>

theorem pool_runs_well_formed:
  assumes "pool_machine.allowed ops (new_pool strat flr)"
  shows "pool_wf (fold pool_step ops (new_pool strat flr))"
  by (rule pool_machine.run_inv [OF pool_wf_new assms])

theorem pool_runs_well_formed_witness:
  "pool_wf (fold pool_step [Op_remove ''a'', Op_rejected ''b'' EMPTY_SNAPSHOT 5, Op_wait 1 5] (new_pool Headroom None))"
proof -
  have "pool_machine.allowed [Op_remove ''a'', Op_rejected ''b'' EMPTY_SNAPSHOT 5, Op_wait 1 5] (new_pool Headroom None)"
    by (simp add: EMPTY_SNAPSHOT_def opt_map_wf_def)
  from pool_runs_well_formed [OF this] show ?thesis .
qed

section \<open>Sticky sessions\<close>

lemma foldl_delete_filter:
  "foldl (\<lambda>m e. AList.delete (fst e) m) m es = filter (\<lambda>e. fst e \<notin> fst ` set es) m"
  by (induction es arbitrary: m) (auto simp: AList.delete_eq intro!: filter_cong)

lemma length_delete_entries:
  assumes "map_wf m" and "distinct es" and "set es \<subseteq> set m"
  shows "length (foldl (\<lambda>m e. AList.delete (fst e) m) m es) = length m - length es"
proof -
  have d: "distinct m" using assms(1) by (simp add: map_wf_def distinct_map)
  have "fst e \<notin> fst ` set es \<longleftrightarrow> e \<notin> set es" if "e \<in> set m" for e
    using assms(1,3) that by (auto simp: map_wf_def distinct_map dest: inj_onD)
  then have "foldl (\<lambda>m e. AList.delete (fst e) m) m es = filter (\<lambda>e. e \<notin> set es) m"
    unfolding foldl_delete_filter by (intro filter_cong refl) blast
  moreover have "length (filter (\<lambda>e. e \<notin> set es) m) = card (set m - set es)"
    using d by (simp add: distinct_card [symmetric] set_diff_eq)
  ultimately show ?thesis
    using assms(2,3) d by (simp add: card_Diff_subset distinct_card)
qed

lemma length_evict:
  assumes "map_wf (sticky p)"
  shows "length (sticky (evict_sticky p)) =
           (if length (sticky p) > STICKY_MAX_ENTRIES then 1600 else length (sticky p))"
proof -
  let ?s = "sort_key (\<lambda>e. lastUsedAt (snd e)) (sticky p)"
  have "distinct (sticky p)" using assms by (simp add: map_wf_def distinct_map)
  then have "distinct (take n ?s)" "set (take n ?s) \<subseteq> set (sticky p)" for n
    using set_take_subset [of n ?s] by simp_all
  from length_delete_entries [OF assms this] show ?thesis
    by (simp add: evict_sticky_def STICKY_MAX_ENTRIES_def Let_def)
qed

lemma length_cleanup:
  assumes "map_wf (sticky p)"
  shows "length (sticky (cleanupSticky now p)) \<le> STICKY_MAX_ENTRIES"
proof -
  have "map_wf (sticky (sweep_sticky now p))" using assms by (simp add: sweep_sticky_def map_wf_filter)
  from length_evict [OF this] show ?thesis by (simp add: cleanupSticky_def STICKY_MAX_ENTRIES_def)
qed

lemma length_update_le: "length (AList.update k v m) \<le> Suc (length m)"
  using jm.size_put_le [of k v m] by simp

text \<open>
  The sticky table stays bounded: after \<open>selectSticky\<close> with a conversation key it holds at most
  \<open>STICKY_MAX_ENTRIES\<close> bindings and the one just made, whatever it held before, because the
  least recently used fifth is evicted as soon as the limit is passed.
\<close>

theorem selectSticky_bounded:
  assumes "map_wf (sticky p)" and "key \<noteq> []"
  shows "length (sticky (snd (selectSticky (Some key) family now clk p))) \<le> 2001"
proof -
  let ?c = "cleanupSticky now p"
  have le: "length (sticky ?c) \<le> 2000" using length_cleanup [OF assms(1)] by (simp add: STICKY_MAX_ENTRIES_def)
  have upd: "length (AList.update key v (sticky ?c)) \<le> 2001" for v
    using length_update_le [of key v "sticky ?c"] le by linarith
  have "sticky (snd (selectSticky (Some key) family now clk p)) = sticky ?c
        \<or> (\<exists>v. sticky (snd (selectSticky (Some key) family now clk p)) = AList.update key v (sticky ?c))"
    using assms(2) by (auto simp: selectSticky_def truthy_nonempty bind_sticky_def Let_def split: option.split)
  then show ?thesis using le upd by auto
qed

theorem selectSticky_bounded_witness:
  "length (sticky (snd (selectSticky (Some ''k'') None 0 0 (sample_pool Headroom [sample_seat ''a'' 0 0 0])))) \<le> 2001"
  by (rule selectSticky_bounded) (simp_all add: sample_pool_def new_pool_def)

lemma selectSticky_binds:
  assumes "pool_wf p" and "key \<noteq> []"
    and "selectSticky (Some key) family now clk p = (Some a, p')"
  shows "accounts p' = accounts p" and "a \<in> set (pool_accounts p)"
    and "\<exists>b. map_of (sticky p') key = Some b \<and> sb_alias b = acc_alias a \<and> lastUsedAt b = now"
    and "headroomFloor p' = headroomFloor p"
proof -
  let ?c = "cleanupSticky now p"
  have t: "truthy (Some key) = Some key" using assms(2) by (rule truthy_nonempty)
  consider (bound) b where "bound_seat ?c key family now clk = Some (b, a)"
      "p' = ?c\<lparr>sticky := AList.update key (b\<lparr>lastUsedAt := now\<rparr>) (sticky ?c)\<rparr>"
    | (sel) "bound_seat ?c key family now clk = None" "pool_select ?c family clk = Some a"
      "p' = bind_sticky key (acc_alias a) now ?c"
    using assms(3) by (auto simp: selectSticky_def t Let_def split: option.splits)
  then have "accounts p' = accounts p \<and> a \<in> set (pool_accounts p)
      \<and> (\<exists>b. map_of (sticky p') key = Some b \<and> sb_alias b = acc_alias a \<and> lastUsedAt b = now)
      \<and> headroomFloor p' = headroomFloor p"
  proof cases
    case bound
    then have m: "map_of (accounts p) (sb_alias b) = Some a"
      by (auto simp: bound_seat_def split: option.splits if_splits)
    then have "acc_alias a = sb_alias b" "a \<in> set (pool_accounts p)"
      using pool_wf_seat [OF assms(1) m] map_of_SomeD [OF m] by (simp_all add: rev_image_eqI)
    then show ?thesis using bound(2) by (simp add: jm.get_put)
  next
    case sel
    then have "a \<in> set (pool_accounts ?c)" using pool_select_in(1) by blast
    then show ?thesis using sel(3) by (simp add: bind_sticky_def jm.get_put)
  qed
  then show "accounts p' = accounts p" and "a \<in> set (pool_accounts p)"
    and "\<exists>b. map_of (sticky p') key = Some b \<and> sb_alias b = acc_alias a \<and> lastUsedAt b = now"
    and "headroomFloor p' = headroomFloor p" by blast+
qed

lemma cleanup_keeps_binding:
  assumes "map_of (sticky p) key = Some b" and "length (sticky p) \<le> STICKY_MAX_ENTRIES" and "map_wf (sticky p)"
    and "map_of (accounts p) (sb_alias b) \<noteq> None" and "now - lastUsedAt b \<le> STICKY_IDLE_TTL_MS"
  shows "map_of (sticky (cleanupSticky now p)) key = Some b"
proof -
  let ?P = "\<lambda>(k, b). \<not> (map_of (accounts p) (sb_alias b) = None \<or> now - lastUsedAt b > STICKY_IDLE_TTL_MS)"
  have "length (filter ?P (sticky p)) \<le> STICKY_MAX_ENTRIES"
    using le_trans [OF length_filter_le assms(2)] .
  moreover have "map_of (filter ?P (sticky p)) key = Some b"
  proof -
    have "(key, b) \<in> set (filter ?P (sticky p))" using assms(1,4,5) by (auto dest: map_of_SomeD)
    then show ?thesis using map_wf_map_of [OF map_wf_filter [OF assms(3)]] by blast
  qed
  ultimately show ?thesis using assms(1,2)
    by (auto simp: cleanupSticky_def evict_sticky_def sweep_sticky_def)
qed

text \<open>
  A conversation stays on its seat. Once \<open>selectSticky\<close> has answered a conversation with a
  seat, the next call for it within the idle limit answers with the same seat as long as that seat
  is eligible for the request and above the floor.
\<close>

theorem selectSticky_stays:
  assumes "pool_wf p" and "key \<noteq> []"
    and "selectSticky (Some key) family now clk p = (Some a, p')"
    and "length (sticky p') \<le> STICKY_MAX_ENTRIES"
    and "now' - now \<le> STICKY_IDLE_TTL_MS"
    and "isAccountEligible a now' family'" and "above_floor family' (headroomFloor p) clk' a"
  shows "fst (selectSticky (Some key) family' now' clk' p') = Some a"
proof -
  note s = selectSticky_binds [OF assms(1-3)]
  obtain b where b: "map_of (sticky p') key = Some b" "sb_alias b = acc_alias a" "lastUsedAt b = now"
    using s(3) by blast
  have acc: "map_of (accounts p') (sb_alias b) = Some a"
    using pool_wf_member [OF assms(1) s(2)] s(1) b(2) by simp
  have "map_wf (sticky p')" using wf_selectSticky [OF assms(1), of "Some key" family now clk] assms(3)
    by (simp add: pool_wf_def)
  then have "map_of (sticky (cleanupSticky now' p')) key = Some b"
    using cleanup_keeps_binding [OF b(1) assms(4)] acc assms(5) b(3) by simp
  then have "bound_seat (cleanupSticky now' p') key family' now' clk' = Some (b, a)"
    using acc assms(6,7) s(4) by (simp add: bound_seat_def)
  then show ?thesis using assms(2) by (simp add: selectSticky_def truthy_nonempty Let_def)
qed

theorem selectSticky_stays_witness:
  "fst (selectSticky (Some ''k'') None 2000 2000
      (snd (selectSticky (Some ''k'') None 1000 1000 (sample_pool Headroom [sample_seat ''a'' 0 0 1000]))))
    = Some (sample_seat ''a'' 0 0 1000)"
proof -
  let ?a = "sample_seat ''a'' 0 0 1000"
  let ?p = "sample_pool Headroom [?a]"
  let ?q = "snd (selectSticky (Some ''k'') None 1000 1000 ?p)"
  have wf: "pool_wf ?p"
    by (simp add: pool_wf_def sample_pool_def new_pool_def map_wf_def seat_wf_def sample_seat_def EMPTY_SNAPSHOT_def opt_map_wf_def)
  have sel: "selectSticky (Some ''k'') None 1000 1000 ?p = (Some ?a, ?q)" by code_simp
  have len: "length (sticky ?q) \<le> STICKY_MAX_ENTRIES" by code_simp
  have idle: "(2000::ms) - 1000 \<le> STICKY_IDLE_TTL_MS" by (simp add: STICKY_IDLE_TTL_MS_def)
  have e: "isAccountEligible ?a 2000 None" by code_simp
  have f: "above_floor None (headroomFloor ?p) 2000 ?a" by code_simp
  show ?thesis by (rule selectSticky_stays [OF wf _ sel len idle e f]) simp
qed

section \<open>The waiting queue\<close>

lemma pool_select_queue [simp]: "pool_select (p\<lparr>pool_queue := q\<rparr>) f clk = pool_select p f clk"
  by (simp add: pool_select_def select_eligible_def Let_def cong: option.case_cong pool_strategy.case_cong)

lemma serves_queue_queue [simp]: "serves_queue (p\<lparr>pool_queue := q\<rparr>) a clk = serves_queue p a clk"
  by (simp add: serves_queue_def)

definition hands_out :: "account_pool \<Rightarrow> ms \<Rightarrow> pool_account option" where
  "hands_out p clk = (case pool_select p None clk of None \<Rightarrow> None | Some a \<Rightarrow> if serves_queue p a clk then Some a else None)"

lemma drain_loop_eq:
  "drain_loop p clk qs = (case hands_out p clk of None \<Rightarrow> ([], qs) | Some a \<Rightarrow> (map (\<lambda>q. (q_id q, a)) qs, []))"
  by (induction qs) (auto simp: hands_out_def Let_def split: option.splits prod.splits)

text \<open>
  Draining the waiting queue loses nothing and keeps the order: a request that waited past the
  timeout is rejected; while \<open>select\<close> offers a seat the queue may use, every other request gets it,
  in the order they arrived, and otherwise all of them keep waiting; and a newly arriving request
  goes straight through exactly when the queue would drain.
\<close>

theorem drainQueue_order:
  "drainQueue clk p =
     (let live = filter (\<lambda>q. clk - q_enqueuedAt q \<le> 60000) (pool_queue p);
          expired = filter (\<lambda>q. clk - q_enqueuedAt q > 60000) (pool_queue p)
      in case hands_out p clk of
           Some a \<Rightarrow> (map (\<lambda>q. (q_id q, a)) live, map q_id expired, p\<lparr>pool_queue := [], drainTimer := False\<rparr>)
         | None \<Rightarrow> ([], map q_id expired, p\<lparr>pool_queue := live, drainTimer := drainTimer p \<and> live \<noteq> []\<rparr>))
   \<and> (waitForAccount i clk p =
        (case hands_out p clk of
           Some a \<Rightarrow> (Wait_immediate a, p)
         | None \<Rightarrow> if 50 \<le> length (pool_queue p) then (Wait_queue_full, p)
                   else (Wait_queued, p\<lparr>drainTimer := True,
                           pool_queue := pool_queue p @ [\<lparr>q_id = i, q_enqueuedAt = clk\<rparr>]\<rparr>)))"
proof
  show "drainQueue clk p =
     (let live = filter (\<lambda>q. clk - q_enqueuedAt q \<le> 60000) (pool_queue p);
          expired = filter (\<lambda>q. clk - q_enqueuedAt q > 60000) (pool_queue p)
      in case hands_out p clk of
           Some a \<Rightarrow> (map (\<lambda>q. (q_id q, a)) live, map q_id expired, p\<lparr>pool_queue := [], drainTimer := False\<rparr>)
         | None \<Rightarrow> ([], map q_id expired, p\<lparr>pool_queue := live, drainTimer := drainTimer p \<and> live \<noteq> []\<rparr>))"
    by (cases p; cases "pool_queue p = []")
       (simp_all add: drainQueue_def drain_loop_eq not_less queueTimeoutMs_def Let_def split: option.split)
  show "waitForAccount i clk p =
        (case hands_out p clk of
           Some a \<Rightarrow> (Wait_immediate a, p)
         | None \<Rightarrow> if 50 \<le> length (pool_queue p) then (Wait_queue_full, p)
                   else (Wait_queued, p\<lparr>drainTimer := True,
                           pool_queue := pool_queue p @ [\<lparr>q_id = i, q_enqueuedAt = clk\<rparr>]\<rparr>))"
    by (auto simp: waitForAccount_def hands_out_def queueMaxSize_def split: option.splits)
qed

section \<open>Reconciling\<close>

lemma map_of_pool_add:
  "map_of (accounts (pool_add k opts u p)) =
     (map_of (accounts p))(k \<mapsto> added_account k opts u (kept (map_of (accounts p) k) opts))"
  by (simp add: pool_add_def jm.get_put)

lemma reconcile_add_other:
  "k \<notin> r_alias ` set rs \<Longrightarrow>
     map_of (accounts (foldl (add_reconciled us) p (enumerate n rs))) k = map_of (accounts p) k"
  by (induction rs arbitrary: n p) (simp_all add: add_reconciled_def map_of_pool_add)

lemma reconcile_add_in:
  "distinct (map r_alias rs) \<Longrightarrow> r \<in> set rs \<Longrightarrow>
     \<exists>i. map_of (accounts (foldl (add_reconciled us) p (enumerate n rs))) (r_alias r) =
           Some (added_account (r_alias r) (reconcile_opts r) (us i)
                  (kept (map_of (accounts p) (r_alias r)) (reconcile_opts r)))"
proof (induction rs arbitrary: n p)
  case Nil
  then show ?case by simp
next
  case (Cons x rs)
  let ?p = "add_reconciled us p (n, x)"
  show ?case
  proof (cases "r = x")
    case True
    with Cons.prems(1) have "r_alias r \<notin> r_alias ` set rs" by simp
    moreover have "map_of (accounts ?p) (r_alias x) = Some (added_account (r_alias x) (reconcile_opts x) (us n)
                  (kept (map_of (accounts p) (r_alias x)) (reconcile_opts x)))"
      by (simp add: add_reconciled_def map_of_pool_add)
    ultimately show ?thesis using reconcile_add_other [of "r_alias r" rs us ?p "Suc n"] True by auto
  next
    case False
    with Cons.prems have r: "r \<in> set rs" and ne: "r_alias r \<noteq> r_alias x" by (auto, metis image_eqI)
    have "map_of (accounts ?p) (r_alias r) = map_of (accounts p) (r_alias r)"
      using ne by (simp add: add_reconciled_def map_of_pool_add)
    with Cons.IH [of ?p "Suc n"] Cons.prems(1) r show ?thesis by simp
  qed
qed

lemma reconcile_remove:
  "map_of (accounts (foldl (\<lambda>p a. if acc_alias a \<notin> W then pool_remove (acc_alias a) p else p) p xs)) k =
     (if k \<notin> W \<and> k \<in> acc_alias ` set xs then None else map_of (accounts p) k)"
  by (induction xs arbitrary: p) (auto simp: pool_remove_def jm.get_del)

lemma reconcile_lookup:
  assumes "pool_wf p" and "distinct (map r_alias rs)"
  shows "map_of (accounts (snd (reconcilePoolAccounts us rs p))) k =
     (if k \<in> r_alias ` set rs then map_of (accounts (foldl (add_reconciled us) p (enumerate 0 rs))) k else None)"
proof -
  let ?p1 = "foldl (add_reconciled us) p (enumerate 0 rs)"
  have wf: "pool_wf ?p1" by (rule wf_foldl [OF assms(1)]) (auto simp: add_reconciled_def intro: wf_add)
  have "map_of (accounts ?p1) k \<noteq> None \<Longrightarrow> k \<in> acc_alias ` set (pool_accounts ?p1)"
    using pool_wf_seat [OF wf, of k] by (force dest: map_of_SomeD)
  then show ?thesis unfolding reconcilePoolAccounts_def Let_def snd_conv reconcile_remove set_map by auto
qed

text \<open>
  Reconciling makes the pool the accounts on disk: exactly the listed aliases remain, each with
  the tokens on disk. A seat the pool already had keeps its reading, its counters and its session
  unless the disk shows a new grant, in which case it starts afresh.
\<close>

theorem reconcile_follows_disk:
  assumes "pool_wf p" and "distinct (map r_alias rs)"
  shows "set (keys_of (accounts (snd (reconcilePoolAccounts us rs p)))) = r_alias ` set rs
    \<and> fst (reconcilePoolAccounts us rs p) = length rs
    \<and> (\<forall>r \<in> set rs. \<exists>a'. map_of (accounts (snd (reconcilePoolAccounts us rs p))) (r_alias r) = Some a'
         \<and> accessToken a' = r_accessToken r \<and> refreshToken a' = r_refreshToken r \<and> expiresAt a' = r_expiresAt r
         \<and> (\<forall>a. map_of (accounts p) (r_alias r) = Some a \<longrightarrow>
              (if r_grantedAt r \<noteq> None \<and> r_grantedAt r \<noteq> grantedAt a
               then rateLimit a' = EMPTY_SNAPSHOT \<and> consecutiveAuthFailures a' = 0 \<and> grantedAt a' = r_grantedAt r
               else rateLimit a' = rateLimit a \<and> requestCount a' = requestCount a
                    \<and> consecutiveAuthFailures a' = consecutiveAuthFailures a
                    \<and> sessionId (identity a') = sessionId (identity a) \<and> grantedAt a' = grantedAt a)))"
    (is "?keys \<and> ?count \<and> ?seats")
proof -
  let ?q = "snd (reconcilePoolAccounts us rs p)"
  have at: "\<exists>i. map_of (accounts ?q) (r_alias r) = Some (added_account (r_alias r) (reconcile_opts r) (us i)
                  (kept (map_of (accounts p) (r_alias r)) (reconcile_opts r)))" if "r \<in> set rs" for r
    using reconcile_add_in [OF assms(2) that, of us p 0] reconcile_lookup [OF assms, of us "r_alias r"] that by simp
  have keys: ?keys
  proof (intro set_eqI iffI)
    fix k assume "k \<in> set (keys_of (accounts ?q))"
    then have "map_of (accounts ?q) k \<noteq> None" by (simp add: map_of_eq_None_iff)
    then show "k \<in> r_alias ` set rs" using reconcile_lookup [OF assms, of us k] by (auto split: if_splits)
  next
    fix k assume "k \<in> r_alias ` set rs"
    with at have "map_of (accounts ?q) k \<noteq> None" by force
    then show "k \<in> set (keys_of (accounts ?q))" by (simp add: map_of_eq_None_iff)
  qed
  have "distinct (keys_of (accounts ?q))" using wf_reconcile [OF assms(1)] by (simp add: pool_wf_def map_wf_def)
  then have "length (accounts ?q) = card (r_alias ` set rs)"
    using keys by (metis distinct_card length_map)
  then have count: ?count using assms(2) distinct_card [of "map r_alias rs"]
    by (simp add: reconcilePoolAccounts_def Let_def)
  have ?seats
  proof
    fix r assume "r \<in> set rs"
    with at obtain i where i: "map_of (accounts ?q) (r_alias r) = Some (added_account (r_alias r) (reconcile_opts r) (us i)
                  (kept (map_of (accounts p) (r_alias r)) (reconcile_opts r)))" by blast
    show "\<exists>a'. map_of (accounts ?q) (r_alias r) = Some a'
         \<and> accessToken a' = r_accessToken r \<and> refreshToken a' = r_refreshToken r \<and> expiresAt a' = r_expiresAt r
         \<and> (\<forall>a. map_of (accounts p) (r_alias r) = Some a \<longrightarrow>
              (if r_grantedAt r \<noteq> None \<and> r_grantedAt r \<noteq> grantedAt a
               then rateLimit a' = EMPTY_SNAPSHOT \<and> consecutiveAuthFailures a' = 0 \<and> grantedAt a' = r_grantedAt r
               else rateLimit a' = rateLimit a \<and> requestCount a' = requestCount a
                    \<and> consecutiveAuthFailures a' = consecutiveAuthFailures a
                    \<and> sessionId (identity a') = sessionId (identity a) \<and> grantedAt a' = grantedAt a))"
      unfolding i by (auto simp: added_account_def kept_def regranted_def reconcile_opts_def opt_else_def split: option.split)
  qed
  with keys count show ?thesis by blast
qed

theorem reconcile_follows_disk_witness:
  "set (keys_of (accounts (snd (reconcilePoolAccounts (\<lambda>_. ''u'')
      [\<lparr>r_alias = ''b'', r_accessToken = ''t'', r_refreshToken = ''r'', r_expiresAt = 9, r_deviceId = ''d'',
        r_accountUuid = ''x'', r_grantedAt = Some 5, r_organizationId = None\<rparr>]
      ((new_pool Headroom None)\<lparr>accounts := [(''a'', sample_seat ''a'' 0 0 0)]\<rparr>))))) = {''b''}"
proof -
  let ?r = "\<lparr>r_alias = ''b'', r_accessToken = ''t'', r_refreshToken = ''r'', r_expiresAt = 9, r_deviceId = ''d'',
        r_accountUuid = ''x'', r_grantedAt = Some 5, r_organizationId = None\<rparr>"
  let ?p = "(new_pool Headroom None)\<lparr>accounts := [(''a'', sample_seat ''a'' 0 0 0)]\<rparr>"
  have "pool_wf ?p"
    by (simp add: pool_wf_def new_pool_def map_wf_def seat_wf_def sample_seat_def EMPTY_SNAPSHOT_def opt_map_wf_def)
  moreover have "distinct (map r_alias [?r])" by simp
  ultimately show ?thesis using reconcile_follows_disk [of ?p "[?r]" "\<lambda>_. ''u''"] by simp
qed

section \<open>Learned buckets\<close>

text \<open>
  \<open>familiesBoundToBuckets\<close> and \<open>bucketsBindingFamily\<close> are one relation read both ways: among the
  families routing knows or a seat has learned about, the operator is told a family is bound to
  some of the given buckets exactly when routing would park it on one of them.
\<close>

theorem families_and_buckets_agree:
  assumes "opt_map_wf (boundBuckets rl)"
    and "f \<in> set KNOWN_FAMILIES \<or> (\<exists>m. boundBuckets rl = Some m \<and> map_of m f \<noteq> None)"
    and "f \<notin> set buckets \<or> f \<in> set KNOWN_FAMILIES"
  shows "f \<in> set (familiesBoundToBuckets rl buckets) \<longleftrightarrow> (\<exists>b \<in> set buckets. b \<in> set (bucketsBindingFamily rl f))"
proof -
  have learned: "f \<in> fst ` set (filter (\<lambda>e. b \<in> set (snd e)) (case boundBuckets rl of None \<Rightarrow> [] | Some m \<Rightarrow> m))
        \<longleftrightarrow> b \<in> opt_bound_set (boundBuckets rl) f" for b
  proof (cases "boundBuckets rl")
    case (Some m)
    then have "map_wf m" using assms(1) by (simp add: opt_map_wf_def)
    then have "(f, bs) \<in> set m \<longleftrightarrow> map_of m f = Some bs" for bs by (rule map_wf_map_of)
    then show ?thesis using Some
      by (force simp: opt_bound_set_def bound_set_def image_iff split: option.splits)
  qed (simp add: opt_bound_set_def)
  have "f \<in> set (families_of_bucket rl b) \<longleftrightarrow> b \<in> set (bucketsBindingFamily rl f)" if "b \<in> set buckets" for b
    unfolding families_of_bucket_def set_append Un_iff set_map learned set_bucketsBindingFamily_bound
    using assms(3) that by (auto simp: WIRE_BUCKET_BINDINGS_def split: if_splits)
  then show ?thesis by (simp add: familiesBoundToBuckets_def)
qed

theorem families_and_buckets_agree_witness:
  "''fable'' \<in> set (familiesBoundToBuckets EMPTY_SNAPSHOT [''oi'']) \<longleftrightarrow>
     (\<exists>b \<in> set [''oi'']. b \<in> set (bucketsBindingFamily EMPTY_SNAPSHOT ''fable''))"
  by (rule families_and_buckets_agree) (simp_all add: EMPTY_SNAPSHOT_def opt_map_wf_def KNOWN_FAMILIES_def)

lemma opt_bound_set_grows:
  assumes "opt_map_wf (boundBuckets prev)" and "opt_map_wf (boundBuckets s)"
  shows "opt_bound_set (boundBuckets prev) f \<subseteq> opt_bound_set (mergeBoundBuckets (boundBuckets prev) (boundBuckets s)) f"
  by (simp add: opt_bound_set_merge [OF assms])

text \<open>
  What a seat has learned is kept: no response, rejection or adopted peer reading makes it
  forget that a bucket binds a family, and each adds what it proves itself.
\<close>

theorem learned_bindings_kept:
  assumes "opt_map_wf (boundBuckets prev)" and "opt_map_wf (boundBuckets s)"
    and "r \<in> {served_reading prev s t, rejected_reading prev s t, adopted_reading prev s rej}"
  shows "set (bucketsBindingFamily r f) = set (bucketsBindingFamily prev f) \<union> set (bucketsBindingFamily s f)"
proof -
  have "boundBuckets r = mergeBoundBuckets (boundBuckets prev) (boundBuckets s)"
    using assms(3) boundBuckets_served binding_after_rejection boundBuckets_adopted by blast
  then show ?thesis
    unfolding set_bucketsBindingFamily_bound by (simp add: opt_bound_set_merge [OF assms(1,2)])
qed

theorem learned_bindings_kept_witness:
  "set (bucketsBindingFamily (served_reading (EMPTY_SNAPSHOT\<lparr>boundBuckets := Some [(''opus'', [''x''])]\<rparr>) EMPTY_SNAPSHOT 5) ''opus'')
     = {''opus'', ''x''}"
  using learned_bindings_kept [of "EMPTY_SNAPSHOT\<lparr>boundBuckets := Some [(''opus'', [''x''])]\<rparr>" EMPTY_SNAPSHOT
      "served_reading (EMPTY_SNAPSHOT\<lparr>boundBuckets := Some [(''opus'', [''x''])]\<rparr>) EMPTY_SNAPSHOT 5" 5 False "''opus''"]
  by (simp add: opt_map_wf_def map_wf_def EMPTY_SNAPSHOT_def set_bucketsBindingFamily_bound opt_bound_set_def bound_set_def)

end
