(* ===== verification/Pool_Sync.thy ===== *)
theory Pool_Sync
  imports Pool_Invariant Timers
begin

text \<open>
  Pool state shared between instances (\<open>pool-sync.ts\<close>): which peer reading replaces ours, a pull of the
  peers' readings into the pool of \<open>Pool_State\<close>, the coalesced push of our own, the shared sticky
  bindings, and the failure of the service. A reply of the service is an argument; a push is in flight
  between its call and its completion, which are two steps.
\<close>

section \<open>Records\<close>

record shared_seat =
  sh_instance :: string
  sh_at :: "ms option"
  sh_snapshot :: "rate_limit_snapshot option"
  sh_rejected :: bool

record sync_stats =
  sy_lastPullAt :: "ms option"
  sy_lastOkAt :: "ms option"
  sy_adopted :: nat
  sy_reported :: nat
  sy_stickyPushed :: nat
  sy_stickyAdopted :: nat
  sy_errors :: nat
  sy_lastError :: "string option"

datatype sync_notice = Unreachable string | Reachable_again | Seat_parked string string

text \<open>\<open>reporting\<close> holds whether the push in flight for an alias made a call; \<open>sy_sent\<close> is what was sent.\<close>

record pool_sync =
  sy_instance :: string
  sy_intervalMs :: rat
  sy_stickyTtlMs :: ms
  sy_timer :: bool
  sy_reporting :: "(string, bool) jsmap"
  sy_dirty :: "string list"
  sy_down :: bool
  sy_stats :: sync_stats
  sy_log :: "sync_notice list"
  sy_sent :: "(string \<times> shared_seat) list"

definition DEFAULT_POOL_SYNC_INTERVAL_MS :: rat where
  "DEFAULT_POOL_SYNC_INTERVAL_MS = 2000"

definition SHARED_SEAT_MAX_AGE_MS :: ms where
  "SHARED_SEAT_MAX_AGE_MS = 6 * 3600000"

definition new_pool_sync :: "string \<Rightarrow> rat option \<Rightarrow> ms option \<Rightarrow> pool_sync" where
  "new_pool_sync inst interval ttl =
     \<lparr>sy_instance = inst, sy_intervalMs = clampTimerMs (Fin (max 200 (opt_or interval DEFAULT_POOL_SYNC_INTERVAL_MS))),
      sy_stickyTtlMs = opt_or ttl (6 * 3600000), sy_timer = False, sy_reporting = [], sy_dirty = [], sy_down = False,
      sy_stats = \<lparr>sy_lastPullAt = None, sy_lastOkAt = None, sy_adopted = 0, sy_reported = 0, sy_stickyPushed = 0,
                  sy_stickyAdopted = 0, sy_errors = 0, sy_lastError = None\<rparr>,
      sy_log = [], sy_sent = []\<rparr>"

definition sync_start :: "pool_sync \<Rightarrow> pool_sync" where
  "sync_start y = y\<lparr>sy_timer := True\<rparr>"

definition sync_stop :: "pool_sync \<Rightarrow> pool_sync" where
  "sync_stop y = y\<lparr>sy_timer := False\<rparr>"

section \<open>The service\<close>

text \<open>A call that answered, or failed with a message.\<close>

datatype 'a service_reply = Answer 'a | Fails string

definition note_call :: "'a service_reply \<Rightarrow> ms \<Rightarrow> pool_sync \<Rightarrow> pool_sync" where
  "note_call reply now y =
     (case reply of
        Answer _ \<Rightarrow>
          let y1 = y\<lparr>sy_stats := (sy_stats y)\<lparr>sy_lastOkAt := Some now\<rparr>\<rparr>
          in if sy_down y then y1\<lparr>sy_down := False, sy_log := sy_log y @ [Reachable_again]\<rparr> else y1
      | Fails msg \<Rightarrow>
          let y1 = y\<lparr>sy_stats := (sy_stats y)\<lparr>sy_errors := sy_errors (sy_stats y) + 1, sy_lastError := Some msg\<rparr>\<rparr>
          in if sy_down y then y1 else y1\<lparr>sy_down := True, sy_log := sy_log y @ [Unreachable msg]\<rparr>)"

section \<open>Pulling\<close>

definition shouldAdopt :: "rate_limit_snapshot \<Rightarrow> shared_seat option \<Rightarrow> string \<Rightarrow> ms \<Rightarrow> bool" where
  "shouldAdopt here remote me now \<longleftrightarrow>
     (case remote of
        None \<Rightarrow> False
      | Some r \<Rightarrow>
          if sh_instance r = me then False
          else (case (sh_snapshot r, sh_at r) of
                  (Some _, Some t) \<Rightarrow> (if \<not> t > 0 then False
                                      else if now - t > SHARED_SEAT_MAX_AGE_MS then False
                                      else t > updatedAt here)
                | _ \<Rightarrow> False))"

definition pull_entry :: "ms \<Rightarrow> string \<times> shared_seat option \<Rightarrow> nat \<times> pool_sync \<times> account_pool \<Rightarrow> nat \<times> pool_sync \<times> account_pool" where
  "pull_entry now e st =
     (case st of (n, y, p) \<Rightarrow>
        (case map_of (accounts p) (fst e) of
           None \<Rightarrow> (n, y, p)
         | Some seat \<Rightarrow>
             if \<not> shouldAdopt (rateLimit seat) (snd e) (sy_instance y) now then (n, y, p)
             else (case snd e of
                     Some r \<Rightarrow>
                       (case sh_snapshot r of
                          Some snap \<Rightarrow>
                            let wasParked = rl_status (rateLimit seat) = ''rejected'' \<and> \<not> rateLimitWindowPassed (rateLimit seat) now;
                                (ok, p1) = adoptSnapshot (fst e) snap (sh_rejected r) (sh_instance r) p
                            in if \<not> ok then (n, y, p1)
                               else (n + 1, if sh_rejected r \<and> \<not> wasParked then y\<lparr>sy_log := sy_log y @ [Seat_parked (fst e) (sh_instance r)]\<rparr> else y, p1)
                        | None \<Rightarrow> (n, y, p))
                   | None \<Rightarrow> (n, y, p))))"

text \<open>\<open>pullOnce\<close>: the reply carries the seats of the answer, none when it has no such object.\<close>

definition pullOnce ::
  "((string \<times> shared_seat option) list option) service_reply \<Rightarrow> ms \<Rightarrow> pool_sync \<Rightarrow> account_pool \<Rightarrow> nat \<times> pool_sync \<times> account_pool" where
  "pullOnce reply now y p =
     (let y1 = note_call reply now (y\<lparr>sy_stats := (sy_stats y)\<lparr>sy_lastPullAt := Some now\<rparr>\<rparr>)
      in case reply of
           Answer (Some entries) \<Rightarrow>
             let (n, y2, p2) = fold (pull_entry now) entries (0, y1, p)
             in (n, y2\<lparr>sy_stats := (sy_stats y2)\<lparr>sy_adopted := sy_adopted (sy_stats y2) + n\<rparr>\<rparr>, p2)
         | _ \<Rightarrow> (0, y1, p))"

section \<open>Pushing\<close>

definition seat_body :: "string \<Rightarrow> ms \<Rightarrow> pool_account \<Rightarrow> shared_seat" where
  "seat_body me now seat =
     \<lparr>sh_instance = me, sh_at = Some (if updatedAt (rateLimit seat) = 0 then now else updatedAt (rateLimit seat)),
      sh_snapshot = Some (rateLimit seat), sh_rejected = (rl_status (rateLimit seat) = ''rejected'')\<rparr>"

definition start_push :: "string \<Rightarrow> ms \<Rightarrow> account_pool \<Rightarrow> pool_sync \<Rightarrow> pool_sync" where
  "start_push alias now p y =
     (case map_of (accounts p) alias of
        None \<Rightarrow> y\<lparr>sy_reporting := AList.update alias False (sy_reporting y)\<rparr>
      | Some seat \<Rightarrow> y\<lparr>sy_reporting := AList.update alias True (sy_reporting y),
                      sy_sent := sy_sent y @ [(alias, seat_body (sy_instance y) now seat)]\<rparr>)"

definition reportSeat :: "string \<Rightarrow> ms \<Rightarrow> account_pool \<Rightarrow> pool_sync \<Rightarrow> pool_sync" where
  "reportSeat alias now p y =
     (if map_of (sy_reporting y) alias \<noteq> None then y\<lparr>sy_dirty := List.insert alias (sy_dirty y)\<rparr>
      else start_push alias now p y)"

definition push_done :: "string \<Rightarrow> unit service_reply \<Rightarrow> ms \<Rightarrow> account_pool \<Rightarrow> pool_sync \<Rightarrow> pool_sync" where
  "push_done alias reply now p y =
     (case map_of (sy_reporting y) alias of
        None \<Rightarrow> y
      | Some called \<Rightarrow>
          let y1 = (if called then note_call reply now y else y);
              y2 = (case reply of
                      Answer _ \<Rightarrow> (if called then y1\<lparr>sy_stats := (sy_stats y1)\<lparr>sy_reported := sy_reported (sy_stats y1) + 1\<rparr>\<rparr> else y1)
                    | Fails _ \<Rightarrow> y1);
              y3 = y2\<lparr>sy_reporting := AList.delete alias (sy_reporting y2)\<rparr>
          in if alias \<in> set (sy_dirty y3) then reportSeat alias now p (y3\<lparr>sy_dirty := removeAll alias (sy_dirty y3)\<rparr>)
             else y3)"

section \<open>Shared sticky bindings\<close>

definition lookupSticky :: "string option service_reply \<Rightarrow> ms \<Rightarrow> pool_sync \<Rightarrow> string option \<times> pool_sync" where
  "lookupSticky reply now y =
     (let y1 = note_call reply now y
      in case reply of
           Answer a \<Rightarrow> (case truthy a of
                          Some alias \<Rightarrow> (Some alias, y1\<lparr>sy_stats := (sy_stats y1)\<lparr>sy_stickyAdopted := sy_stickyAdopted (sy_stats y1) + 1\<rparr>\<rparr>)
                        | None \<Rightarrow> (None, y1))
         | Fails _ \<Rightarrow> (None, y1))"

definition sync_bindSticky :: "string option \<Rightarrow> unit service_reply \<Rightarrow> ms \<Rightarrow> pool_sync \<Rightarrow> pool_sync" where
  "sync_bindSticky key reply now y =
     (case truthy key of
        None \<Rightarrow> y
      | Some _ \<Rightarrow>
          let y1 = note_call reply now y
          in case reply of
               Answer _ \<Rightarrow> y1\<lparr>sy_stats := (sy_stats y1)\<lparr>sy_stickyPushed := sy_stickyPushed (sy_stats y1) + 1\<rparr>\<rparr>
             | Fails _ \<Rightarrow> y1)"

section \<open>What a pull does to the pool\<close>

lemma with_account_get:
  "map_of (accounts (with_account k f p)) j =
     (if j = k then map_option f (map_of (accounts p) k) else map_of (accounts p) j)"
  by (auto simp: with_account_def jm.get_put split: option.split)

lemma adopted_updatedAt [simp]: "updatedAt (adopted_reading prev s b) = updatedAt s"
  by (simp add: adopted_reading_def Let_def)

lemma shouldAdopt_iff:
  "shouldAdopt here e me now \<longleftrightarrow>
     (\<exists>r s t. e = Some r \<and> sh_instance r \<noteq> me \<and> sh_snapshot r = Some s \<and> sh_at r = Some t \<and> 0 < t
        \<and> now - t \<le> SHARED_SEAT_MAX_AGE_MS \<and> updatedAt here < t)"
  by (auto simp: shouldAdopt_def split: option.splits if_splits)

text \<open>What an entry makes of the account it names.\<close>

definition taken :: "string \<Rightarrow> ms \<Rightarrow> shared_seat option \<Rightarrow> pool_account \<Rightarrow> pool_account" where
  "taken me now e seat =
     (if shouldAdopt (rateLimit seat) e me now
      then (case e of
              Some r \<Rightarrow> (case sh_snapshot r of
                           Some s \<Rightarrow> seat\<lparr>rateLimit := adopted_reading (rateLimit seat) s (sh_rejected r), adoptedFrom := Some (sh_instance r)\<rparr>
                         | None \<Rightarrow> seat)
            | None \<Rightarrow> seat)
      else seat)"

lemma pull_entry_get:
  assumes "pull_entry now (k, e) (n, y, p) = (n1, y1, p1)"
  shows "map_of (accounts p1) j =
      (if j = k then map_option (taken (sy_instance y) now e) (map_of (accounts p) k) else map_of (accounts p) j)"
    and "sy_instance y1 = sy_instance y"
  using assms
  by (auto simp: pull_entry_def taken_def adoptSnapshot_def shouldAdopt_iff with_account_get Let_def
      split: option.splits if_splits)

lemma pull_entry_none:
  assumes "\<And>seat. map_of (accounts p) k = Some seat \<Longrightarrow> \<not> shouldAdopt (rateLimit seat) e (sy_instance y) now"
  shows "pull_entry now (k, e) (n, y, p) = (n, y, p)"
  using assms by (simp add: pull_entry_def split: option.split)

lemma pull_fold_get:
  assumes "distinct (map fst entries)" and "fold (pull_entry now) entries (n, y, p) = (n1, y1, p1)"
  shows "map_of (accounts p1) j =
      (case map_of entries j of
         Some e \<Rightarrow> map_option (taken (sy_instance y) now e) (map_of (accounts p) j)
       | None \<Rightarrow> map_of (accounts p) j)
    \<and> sy_instance y1 = sy_instance y"
  using assms
proof (induction entries arbitrary: n y p)
  case Nil
  then show ?case by simp
next
  case (Cons x entries)
  obtain k e where x: "x = (k, e)" by (cases x)
  obtain n2 y2 p2 where st: "pull_entry now (k, e) (n, y, p) = (n2, y2, p2)" by (metis prod_cases3)
  note g = pull_entry_get [OF st]
  have "fold (pull_entry now) entries (n2, y2, p2) = (n1, y1, p1)" using Cons.prems(2) x st by simp
  moreover have "distinct (map fst entries)" "map_of entries k = None"
    using Cons.prems(1) x by (auto simp: map_of_eq_None_iff)
  ultimately show ?case using Cons.IH [of n2 y2 p2] x g by (auto split: option.split)
qed

text \<open>A reading is sent with its own time.\<close>

definition honest_entry :: "shared_seat option \<Rightarrow> bool" where
  "honest_entry e \<longleftrightarrow> (case e of None \<Rightarrow> True
     | Some r \<Rightarrow> (case sh_snapshot r of None \<Rightarrow> True | Some s \<Rightarrow> sh_at r = Some (updatedAt s)))"

lemma taken_newer:
  assumes "honest_entry e"
  shows "updatedAt (rateLimit seat) \<le> updatedAt (rateLimit (taken me now e seat))"
    and "now \<le> now2 \<Longrightarrow> \<not> shouldAdopt (rateLimit (taken me now e seat)) e me now2"
    and "updatedAt (rateLimit (taken me now e seat)) = updatedAt (rateLimit seat) \<Longrightarrow> taken me now e seat = seat"
  using assms by (auto simp: taken_def honest_entry_def shouldAdopt_iff split: option.splits)

text \<open>
  The record of another instance that a pull at \<open>now\<close> has on offer for a seat: complete, not stale, and read later than
  what the seat holds.
\<close>

definition on_offer :: "string \<Rightarrow> ms \<Rightarrow> pool_account \<Rightarrow> shared_seat option \<Rightarrow> (shared_seat \<times> rate_limit_snapshot) option" where
  "on_offer me now seat e =
     (case e of
        None \<Rightarrow> None
      | Some r \<Rightarrow>
          (case (sh_snapshot r, sh_at r) of
             (Some s, Some t) \<Rightarrow>
               (if sh_instance r \<noteq> me \<and> 0 < t \<and> now \<le> t + SHARED_SEAT_MAX_AGE_MS \<and> updatedAt (rateLimit seat) < updatedAt s
                then Some (r, s) else None)
           | _ \<Rightarrow> None))"

text \<open>
  The seat has taken a reading: every field is the record's, but that a rejected seat is marked so and that what was
  known of the buckets that bind a family is kept beside the record's; the rest of the seat is as it was.
\<close>

definition holds_reading :: "pool_account \<Rightarrow> shared_seat \<Rightarrow> rate_limit_snapshot \<Rightarrow> pool_account \<Rightarrow> bool" where
  "holds_reading seat r s seat1 \<longleftrightarrow>
     (rateLimit seat1)\<lparr>boundBuckets := None\<rparr> = (if sh_rejected r then s\<lparr>rl_status := ''rejected'', boundBuckets := None\<rparr> else s\<lparr>boundBuckets := None\<rparr>)
     \<and> (opt_map_wf (boundBuckets (rateLimit seat)) \<longrightarrow> opt_map_wf (boundBuckets s) \<longrightarrow>
          (\<forall>f. opt_bound_set (boundBuckets (rateLimit seat1)) f
                 = opt_bound_set (boundBuckets (rateLimit seat)) f \<union> opt_bound_set (boundBuckets s) f))
     \<and> adoptedFrom seat1 = Some (sh_instance r)
     \<and> seat1\<lparr>rateLimit := rateLimit seat, adoptedFrom := adoptedFrom seat\<rparr> = seat"

lemma adopt_offer:
  assumes "honest_entry e"
  shows "shouldAdopt (rateLimit seat) e me now \<longleftrightarrow> on_offer me now seat e \<noteq> None"
  using assms by (auto simp: shouldAdopt_iff on_offer_def honest_entry_def split: option.splits)

lemma adopted_holds:
  "holds_reading seat r s (seat\<lparr>rateLimit := adopted_reading (rateLimit seat) s (sh_rejected r), adoptedFrom := Some (sh_instance r)\<rparr>)"
proof -
  have b: "boundBuckets (adopted_reading p s b) = mergeBoundBuckets (boundBuckets p) (boundBuckets s)" for p b
    by (auto simp: adopted_reading_def withBoundBuckets_def mergeBoundBuckets_def Let_def split: option.split)
  have r: "(adopted_reading p s b)\<lparr>boundBuckets := None\<rparr> = (if b then s\<lparr>rl_status := ''rejected'', boundBuckets := None\<rparr> else s\<lparr>boundBuckets := None\<rparr>)" for p b
    by (auto simp: adopted_reading_def withBoundBuckets_def Let_def split: option.split)
  show ?thesis by (simp add: holds_reading_def r b opt_bound_set_merge)
qed

lemma taken_offer:
  assumes "honest_entry e"
  shows "case on_offer me now seat e of Some (r, s) \<Rightarrow> holds_reading seat r s (taken me now e seat) | None \<Rightarrow> taken me now e seat = seat"
  using adopt_offer [OF assms, of seat me now] adopted_holds
  by (auto simp: taken_def on_offer_def split: option.splits if_splits)

text \<open>
  C15. A pull leaves each seat with the newest reading on offer. When the peers' records carry the time of their readings and
  name each seat once, a seat for which the answer has a complete record of another instance, not stale and newer than the
  seat's own, holds that record's reading afterwards, field by field; every other seat is unchanged. Nothing in the answer is then on
  offer any more, and pulling the same answer again, at any later time, adopts nothing and leaves the pool as it is.
\<close>

theorem pull_settles:
  assumes pull: "pullOnce (Answer (Some entries)) now y p = (n, y1, p1)" and dist: "distinct (map fst entries)"
    and honest: "\<forall>(k, e) \<in> set entries. honest_entry e" and later: "now \<le> now2"
  shows "(\<forall>k seat. map_of (accounts p) k = Some seat \<longrightarrow>
        (\<exists>seat1. map_of (accounts p1) k = Some seat1 \<and>
           (case on_offer (sy_instance y) now seat (opt_or (map_of entries k) None) of
              Some (r, s) \<Rightarrow> holds_reading seat r s seat1
            | None \<Rightarrow> seat1 = seat)))
    \<and> (\<forall>k e seat1. (k, e) \<in> set entries \<longrightarrow> map_of (accounts p1) k = Some seat1 \<longrightarrow> on_offer (sy_instance y) now2 seat1 e = None)
    \<and> fst (pullOnce (Answer (Some entries)) now2 y1 p1) = 0
    \<and> snd (snd (pullOnce (Answer (Some entries)) now2 y1 p1)) = p1"
proof -
  define y0 where "y0 = note_call (Answer (Some entries)) now (y\<lparr>sy_stats := (sy_stats y)\<lparr>sy_lastPullAt := Some now\<rparr>\<rparr>)"
  have inst0: "sy_instance y0 = sy_instance y" by (simp add: y0_def note_call_def Let_def)
  obtain m ya where f: "fold (pull_entry now) entries (0, y0, p) = (m, ya, p1)" and y1: "sy_instance y1 = sy_instance ya"
    using pull by (auto simp: pullOnce_def y0_def Let_def split: prod.splits)
  note g = pull_fold_get [OF dist f, unfolded inst0]
  have inst1: "sy_instance y1 = sy_instance y" using g y1 by simp
  have ent: "map_of entries k = Some e" if "(k, e) \<in> set entries" for k e using that dist by simp
  have a: "\<exists>seat1. map_of (accounts p1) k = Some seat1 \<and>
      (case on_offer (sy_instance y) now seat (opt_or (map_of entries k) None) of
         Some (r, s) \<Rightarrow> holds_reading seat r s seat1 | None \<Rightarrow> seat1 = seat)"
    if "map_of (accounts p) k = Some seat" for k seat
  proof (cases "map_of entries k")
    case None
    then show ?thesis using g [of k] that by (simp add: on_offer_def)
  next
    case (Some e)
    then have "honest_entry e" using honest map_of_SomeD by fastforce
    from taken_offer [OF this, of "sy_instance y" now seat] Some g [of k] that show ?thesis by simp
  qed
  have b: "\<not> shouldAdopt (rateLimit seat1) e (sy_instance y) now2"
    if "(k, e) \<in> set entries" "map_of (accounts p1) k = Some seat1" for k e seat1
  proof -
    have "honest_entry e" using honest that(1) by auto
    note no = taken_newer(2) [OF this later]
    from ent [OF that(1)] g [of k] that(2) obtain seat where "seat1 = taken (sy_instance y) now e seat"
      by (cases "map_of (accounts p) k") auto
    then show ?thesis using no by simp
  qed
  have b': "on_offer (sy_instance y) now2 seat1 e = None"
    if "(k, e) \<in> set entries" "map_of (accounts p1) k = Some seat1" for k e seat1
  proof -
    have "honest_entry e" using honest that(1) by auto
    from adopt_offer [OF this, of seat1 "sy_instance y" now2] b [OF that] show ?thesis by (metis not_None_eq)
  qed
  have "fold (pull_entry now2) es (0, z, p1) = (0, z, p1)" if "set es \<subseteq> set entries" "sy_instance z = sy_instance y" for es z
    using that
  proof (induction es)
    case (Cons x es)
    obtain k e where x: "x = (k, e)" by (cases x)
    then have "pull_entry now2 x (0, z, p1) = (0, z, p1)"
      using Cons.prems b by (auto intro!: pull_entry_none)
    with Cons show ?case by simp
  qed simp
  from this [OF order_refl] have c: "fold (pull_entry now2) entries (0, z, p1) = (0, z, p1)" if "sy_instance z = sy_instance y" for z
    using that by blast
  have "fst (pullOnce (Answer (Some entries)) now2 y1 p1) = 0 \<and> snd (snd (pullOnce (Answer (Some entries)) now2 y1 p1)) = p1"
    using inst1 by (simp add: pullOnce_def Let_def note_call_def c)
  with a b' show ?thesis by blast
qed

definition sample_offer :: "(string \<times> shared_seat option) list" where
  "sample_offer = [(''a'', Some \<lparr>sh_instance = ''peer'', sh_at = Some 900,
      sh_snapshot = Some (EMPTY_SNAPSHOT\<lparr>util5h := 1 / 2, updatedAt := 900\<rparr>), sh_rejected = True\<rparr>)]"

definition sample_pulled :: "nat \<times> pool_sync \<times> account_pool" where
  "sample_pulled = pullOnce (Answer (Some sample_offer)) 1000 (new_pool_sync ''me'' None None) (sample_pool Headroom [sample_seat ''a'' 0 0 0])"

theorem pull_settles_witness:
  "\<exists>seat1. map_of (accounts (snd (snd sample_pulled))) ''a'' = Some seat1 \<and> util5h (rateLimit seat1) = 1 / 2
      \<and> rl_status (rateLimit seat1) = ''rejected'' \<and> adoptedFrom seat1 = Some ''peer''
      \<and> fst (pullOnce (Answer (Some sample_offer)) 2000 (fst (snd sample_pulled)) (snd (snd sample_pulled))) = 0"
proof -
  have p: "pullOnce (Answer (Some sample_offer)) 1000 (new_pool_sync ''me'' None None) (sample_pool Headroom [sample_seat ''a'' 0 0 0])
      = (fst sample_pulled, fst (snd sample_pulled), snd (snd sample_pulled))" by (simp add: sample_pulled_def)
  have h: "distinct (map fst sample_offer)" "\<forall>(k, e) \<in> set sample_offer. honest_entry e" "(1000 :: ms) \<le> 2000"
    by (simp_all add: sample_offer_def honest_entry_def)
  have "case map_of (accounts (sample_pool Headroom [sample_seat ''a'' 0 0 0])) ''a'' of Some seat \<Rightarrow> updatedAt (rateLimit seat) < 900 | None \<Rightarrow> False"
    by code_simp
  then obtain seat where s: "map_of (accounts (sample_pool Headroom [sample_seat ''a'' 0 0 0])) ''a'' = Some seat"
    and u: "updatedAt (rateLimit seat) < 900" by (auto split: option.splits)
  have i: "sy_instance (new_pool_sync ''me'' None None) = ''me''" by code_simp
  note t = pull_settles [OF p h, unfolded i]
  from t [THEN conjunct1, rule_format, OF s] obtain seat1 where
    m: "map_of (accounts (snd (snd sample_pulled))) ''a'' = Some seat1" and
    o': "case on_offer ''me'' 1000 seat (opt_or (map_of sample_offer ''a'') None) of Some (r, s) \<Rightarrow> holds_reading seat r s seat1 | None \<Rightarrow> seat1 = seat"
    by blast
  have "holds_reading seat (the (the (map_of sample_offer ''a''))) (EMPTY_SNAPSHOT\<lparr>util5h := 1 / 2, updatedAt := 900\<rparr>) seat1"
    using o' u by (simp add: sample_offer_def on_offer_def SHARED_SEAT_MAX_AGE_MS_def)
  then have l: "(rateLimit seat1)\<lparr>boundBuckets := None\<rparr> = EMPTY_SNAPSHOT\<lparr>util5h := 1 / 2, updatedAt := 900, rl_status := ''rejected'', boundBuckets := None\<rparr>"
    and f: "adoptedFrom seat1 = Some ''peer''" by (simp_all add: holds_reading_def sample_offer_def)
  have "util5h (rateLimit seat1) = util5h ((rateLimit seat1)\<lparr>boundBuckets := None\<rparr>)"
    "rl_status (rateLimit seat1) = rl_status ((rateLimit seat1)\<lparr>boundBuckets := None\<rparr>)" by simp_all
  then show ?thesis using m f t unfolding l by auto
qed

section \<open>Pushes catch up\<close>

text \<open>
  A seat's new reading is reported at once; pushes complete whenever they do. The list is of the aliases
  reported so far.
\<close>

datatype sync_event =
    Reading string rate_limit_snapshot ms
  | Completed string "unit service_reply" ms

type_synonym sync_world = "pool_sync \<times> account_pool \<times> string list"

fun sync_step :: "sync_event \<Rightarrow> sync_world \<Rightarrow> sync_world" where
  "sync_step (Reading al snap now) (y, p, known) =
     (let p1 = with_account al (\<lambda>a. a\<lparr>rateLimit := snap\<rparr>) p in (reportSeat al now p1 y, p1, al # known))"
| "sync_step (Completed al reply now) (y, p, known) = (push_done al reply now p y, p, known)"

definition last_sent :: "pool_sync \<Rightarrow> string \<Rightarrow> shared_seat option" where
  "last_sent y al = map_of (rev (sy_sent y)) al"

definition in_flight :: "pool_sync \<Rightarrow> string \<Rightarrow> bool" where
  "in_flight y al \<longleftrightarrow> map_of (sy_reporting y) al \<noteq> None"

definition current_sent :: "pool_sync \<Rightarrow> account_pool \<Rightarrow> string \<Rightarrow> bool" where
  "current_sent y p al \<longleftrightarrow>
     (\<forall>seat. map_of (accounts p) al = Some seat \<longrightarrow> (\<exists>b. last_sent y al = Some b \<and> sh_snapshot b = Some (rateLimit seat)))"

text \<open>Whatever is not marked to be pushed again has been sent as it now reads.\<close>

definition sync_inv :: "sync_world \<Rightarrow> bool" where
  "sync_inv w = (case w of (y, p, known) \<Rightarrow>
     (\<forall>al \<in> set (sy_dirty y). in_flight y al)
     \<and> (\<forall>al \<in> set known. al \<notin> set (sy_dirty y) \<longrightarrow> current_sent y p al))"

lemma note_call_frame [simp]:
  "sy_reporting (note_call r now y) = sy_reporting y" "sy_dirty (note_call r now y) = sy_dirty y"
  "sy_sent (note_call r now y) = sy_sent y" "sy_instance (note_call r now y) = sy_instance y"
  by (simp_all add: note_call_def Let_def split: service_reply.split)

lemma start_push_facts:
  "in_flight (start_push al now p y) j \<longleftrightarrow> j = al \<or> in_flight y j"
  "sy_dirty (start_push al now p y) = sy_dirty y"
  "current_sent (start_push al now p y) p al"
  "j \<noteq> al \<Longrightarrow> last_sent (start_push al now p y) j = last_sent y j"
  by (auto simp: start_push_def in_flight_def current_sent_def last_sent_def jm.get_put seat_body_def split: option.split)

lemma report_facts:
  "in_flight (reportSeat al now p y) j \<longleftrightarrow> j = al \<or> in_flight y j"
  "set (sy_dirty (reportSeat al now p y)) = (if in_flight y al then insert al (set (sy_dirty y)) else set (sy_dirty y))"
  "\<not> in_flight y al \<Longrightarrow> current_sent (reportSeat al now p y) p al"
  "j \<noteq> al \<Longrightarrow> last_sent (reportSeat al now p y) j = last_sent y j"
  using start_push_facts [where al = al and now = now and p = p and y = y]
  by (auto simp: reportSeat_def in_flight_def last_sent_def)

text \<open>A completion: the push is over, and a dirty alias is pushed again as it now reads.\<close>

definition cleared :: "string \<Rightarrow> unit service_reply \<Rightarrow> ms \<Rightarrow> pool_sync \<Rightarrow> pool_sync" where
  "cleared al reply now y =
     (let called = the (map_of (sy_reporting y) al);
          y1 = (if called then note_call reply now y else y);
          y2 = (case reply of
                  Answer _ \<Rightarrow> (if called then y1\<lparr>sy_stats := (sy_stats y1)\<lparr>sy_reported := sy_reported (sy_stats y1) + 1\<rparr>\<rparr> else y1)
                | Fails _ \<Rightarrow> y1)
      in y2\<lparr>sy_reporting := AList.delete al (sy_reporting y2)\<rparr>)"

lemma cleared_frame:
  "sy_dirty (cleared al reply now y) = sy_dirty y" "sy_sent (cleared al reply now y) = sy_sent y"
  "sy_reporting (cleared al reply now y) = AList.delete al (sy_reporting y)"
  by (simp_all add: cleared_def Let_def split: service_reply.split)

lemma push_done_eq:
  "push_done al reply now p y =
     (if in_flight y al then
        (if al \<in> set (sy_dirty y) then reportSeat al now p ((cleared al reply now y)\<lparr>sy_dirty := removeAll al (sy_dirty y)\<rparr>)
         else cleared al reply now y)
      else y)"
  by (auto simp: push_done_def cleared_def in_flight_def Let_def split: option.split service_reply.split)

lemma push_done_facts:
  assumes "in_flight y al"
  shows "in_flight (push_done al reply now p y) j \<longleftrightarrow> (if j = al then al \<in> set (sy_dirty y) else in_flight y j)"
    and "set (sy_dirty (push_done al reply now p y)) = set (sy_dirty y) - {al}"
    and "al \<in> set (sy_dirty y) \<Longrightarrow> current_sent (push_done al reply now p y) p al"
    and "al \<notin> set (sy_dirty y) \<or> j \<noteq> al \<Longrightarrow> last_sent (push_done al reply now p y) j = last_sent y j"
proof -
  define y1 where "y1 = (cleared al reply now y)\<lparr>sy_dirty := removeAll al (sy_dirty y)\<rparr>"
  have y1: "\<not> in_flight y1 al" "in_flight y1 j = (j \<noteq> al \<and> in_flight y j)" "set (sy_dirty y1) = set (sy_dirty y) - {al}"
    "last_sent y1 j = last_sent y j"
    by (auto simp: y1_def in_flight_def last_sent_def cleared_frame jm.get_del)
  have cl: "in_flight (cleared al reply now y) j = (j \<noteq> al \<and> in_flight y j)" "last_sent (cleared al reply now y) j = last_sent y j"
    by (auto simp: in_flight_def last_sent_def cleared_frame jm.get_del)
  note r = report_facts [where al = al and now = now and p = p and y = y1]
  show "in_flight (push_done al reply now p y) j \<longleftrightarrow> (if j = al then al \<in> set (sy_dirty y) else in_flight y j)"
    using assms r(1) [where j = j] y1 cl by (auto simp: push_done_eq y1_def [symmetric])
  show "set (sy_dirty (push_done al reply now p y)) = set (sy_dirty y) - {al}"
    using assms r(2) y1 by (auto simp: push_done_eq y1_def [symmetric] cleared_frame)
  show "al \<in> set (sy_dirty y) \<Longrightarrow> current_sent (push_done al reply now p y) p al"
    using assms r(3) y1 by (simp add: push_done_eq y1_def [symmetric])
  show "al \<notin> set (sy_dirty y) \<or> j \<noteq> al \<Longrightarrow> last_sent (push_done al reply now p y) j = last_sent y j"
    using assms r(4) [where j = j] y1 cl by (auto simp: push_done_eq y1_def [symmetric])
qed

lemma current_sent_cong:
  "last_sent y1 al = last_sent y al \<Longrightarrow> map_of (accounts p1) al = map_of (accounts p) al \<Longrightarrow>
     current_sent y1 p1 al = current_sent y p al"
  by (simp add: current_sent_def)

lemma sync_step_inv:
  assumes "sync_inv w"
  shows "sync_inv (sync_step e w)"
proof -
  obtain y p known where w: "w = (y, p, known)" by (cases w)
  show ?thesis
  proof (cases e)
    case (Reading al snap now)
    define p1 where "p1 = with_account al (\<lambda>a. a\<lparr>rateLimit := snap\<rparr>) p"
    have keep: "map_of (accounts p1) j = map_of (accounts p) j" if "j \<noteq> al" for j
      using that by (simp add: p1_def with_account_get)
    note r = report_facts [where al = al and now = now and p = p1 and y = y]
    have "current_sent (reportSeat al now p1 y) p1 j"
      if j: "j \<in> set (al # known)" "j \<notin> set (sy_dirty (reportSeat al now p1 y))" for j
    proof (cases "j = al")
      case True
      with j(2) r(2,3) show ?thesis by (auto split: if_splits)
    next
      case False
      with j r(2) have "j \<in> set known" "j \<notin> set (sy_dirty y)" by (auto split: if_splits)
      with assms w have "current_sent y p j" by (auto simp: sync_inv_def)
      with current_sent_cong [OF r(4) [OF False] keep [OF False]] show ?thesis by simp
    qed
    moreover have "\<forall>j \<in> set (sy_dirty (reportSeat al now p1 y)). in_flight (reportSeat al now p1 y) j"
      using assms w r(1,2) by (auto simp: sync_inv_def)
    ultimately show ?thesis using Reading w by (simp add: sync_inv_def Let_def p1_def [symmetric])
  next
    case (Completed al reply now)
    show ?thesis
    proof (cases "in_flight y al")
      case False
      with assms w Completed show ?thesis by (simp add: push_done_eq)
    next
      case True
      note d = push_done_facts [OF True, where reply = reply and now = now and p = p]
      have "current_sent (push_done al reply now p y) p j"
        if j: "j \<in> set known" "j \<notin> set (sy_dirty y) - {al}" for j
      proof (cases "j = al \<and> al \<in> set (sy_dirty y)")
        case True
        with d(3) show ?thesis by simp
      next
        case False
        with j have nd: "j \<notin> set (sy_dirty y)" by auto
        with assms w j have "current_sent y p j" by (auto simp: sync_inv_def)
        moreover have "last_sent (push_done al reply now p y) j = last_sent y j" using False nd by (intro d(4)) auto
        ultimately show ?thesis by (simp add: current_sent_def)
      qed
      moreover have "\<forall>j \<in> set (sy_dirty y) - {al}. in_flight (push_done al reply now p y) j"
        using assms w d(1) by (auto simp: sync_inv_def)
      ultimately show ?thesis using Completed w d(2) by (simp add: sync_inv_def)
    qed
  qed
qed

interpretation sync_machine: total_machine sync_step sync_inv
  by unfold_locales (rule sync_step_inv)

text \<open>
  C14. Peers catch up with the latest reading. Whatever readings were reported and whatever pushes succeeded or
  failed in whatever order, once the pushes in flight for a seat have completed - two completions are always
  enough - none is in flight, and the last record sent for the seat is its reading as it is now, however many
  reports were made in between.
\<close>

theorem push_catches_up:
  assumes "fold sync_step es (new_pool_sync me iv ttl, p0, []) = (y, p, known)" and "al \<in> set known"
    and "map_of (accounts p) al = Some seat"
  shows "\<not> in_flight (push_done al r2 t2 p (push_done al r1 t1 p y)) al
    \<and> (\<exists>b. last_sent (push_done al r2 t2 p (push_done al r1 t1 p y)) al = Some b \<and> sh_snapshot b = Some (rateLimit seat))"
proof -
  have init: "sync_inv (new_pool_sync me iv ttl, p0, [])" by (simp add: sync_inv_def new_pool_sync_def)
  let ?y1 = "push_done al r1 t1 p y"
  let ?y2 = "push_done al r2 t2 p ?y1"
  have inv: "sync_inv (y, p, known)" using sync_machine.run_any [OF init, of es] assms(1) by simp
  have inv2: "sync_inv (?y2, p, known)"
    using sync_step_inv [OF sync_step_inv [OF inv, of "Completed al r1 t1"], of "Completed al r2 t2"] by simp
  have nd1: "al \<notin> set (sy_dirty ?y1)"
    using inv push_done_facts(2) [where y = y and al = al and reply = r1 and now = t1 and p = p] by (cases "in_flight y al") (auto simp: sync_inv_def push_done_eq)
  have idle: "\<not> in_flight ?y2 al"
    using nd1 push_done_facts(1) [where y = ?y1 and al = al and reply = r2 and now = t2 and p = p and j = al] by (cases "in_flight ?y1 al") (auto simp: push_done_eq [where al = al and reply = r2])
  have "al \<notin> set (sy_dirty ?y2)"
    using nd1 push_done_facts(2) [where y = ?y1 and al = al and reply = r2 and now = t2 and p = p] by (cases "in_flight ?y1 al") (auto simp: push_done_eq [where al = al and reply = r2])
  then have "current_sent ?y2 p al" using inv2 assms(2) by (auto simp: sync_inv_def)
  with idle assms(3) show ?thesis by (simp add: current_sent_def)
qed

definition sample_pushes :: sync_world where
  "sample_pushes = fold sync_step [Reading ''a'' (EMPTY_SNAPSHOT\<lparr>updatedAt := 5\<rparr>) 5, Reading ''a'' (EMPTY_SNAPSHOT\<lparr>updatedAt := 7\<rparr>) 7]
     (new_pool_sync ''me'' None None, sample_pool Headroom [sample_seat ''a'' 0 0 0], [])"

theorem push_catches_up_witness:
  "\<exists>b. last_sent (push_done ''a'' (Answer ()) 9 (fst (snd sample_pushes))
        (push_done ''a'' (Fails ''timeout'') 8 (fst (snd sample_pushes)) (fst sample_pushes))) ''a'' = Some b
     \<and> sh_snapshot b = Some (EMPTY_SNAPSHOT\<lparr>updatedAt := 7\<rparr>)"
proof -
  have run: "fold sync_step [Reading ''a'' (EMPTY_SNAPSHOT\<lparr>updatedAt := 5\<rparr>) 5, Reading ''a'' (EMPTY_SNAPSHOT\<lparr>updatedAt := 7\<rparr>) 7]
      (new_pool_sync ''me'' None None, sample_pool Headroom [sample_seat ''a'' 0 0 0], []) =
      (fst sample_pushes, fst (snd sample_pushes), snd (snd sample_pushes))"
    by (simp only: sample_pushes_def prod.collapse)
  have k: "''a'' \<in> set (snd (snd sample_pushes))" by code_simp
  have s: "map_of (accounts (fst (snd sample_pushes))) ''a'' =
      Some ((sample_seat ''a'' 0 0 0)\<lparr>rateLimit := EMPTY_SNAPSHOT\<lparr>updatedAt := 7\<rparr>\<rparr>)" by code_simp
  from push_catches_up [OF run k s, of "Answer ()" 9 "Fails ''timeout''" 8] show ?thesis by simp
qed

end
