(* ===== verification/Request_Queue.thy ===== *)
theory Request_Queue
  imports Prelude_Dario Timers "HOL-Library.Multiset"
begin

text \<open>
  The bounded request queue (\<open>src/request-queue.ts\<close>): at most \<open>maxConcurrent\<close> requests in flight, at
  most \<open>maxConcurrentPerConsumer\<close> of one consumer, at most \<open>maxQueued\<close> waiting. \<open>acquire\<close> and
  \<open>release\<close> are functions on the queue's state; a promise they settle is part of the result. A
  queued entry is identified by a number the caller supplies, as the source identifies it by
  object. The clock is the argument \<open>now\<close>.
\<close>

section \<open>State\<close>

datatype slot_wait_gate = Gate_global | Gate_consumer

record queue_entry =
  qe_id :: nat
  qe_enqueuedAt :: ms
  qe_consumer :: "string option"
  qe_gate :: slot_wait_gate

record request_queue =
  maxConcurrent :: int
  maxQueued :: int
  rq_queueTimeoutMs :: rat
  maxConcurrentPerConsumer :: int
  active :: int
  activeByConsumer :: "(string, int) jsmap"
  rq_queue :: "queue_entry list"
  stalledSince :: "ms option"
  maxWaitMs :: ms
  slowWaitAnnounced :: bool

definition DEFAULT_MAX_CONCURRENT :: int where "DEFAULT_MAX_CONCURRENT = 10"
definition DEFAULT_MAX_QUEUED :: int where "DEFAULT_MAX_QUEUED = 128"
definition DEFAULT_QUEUE_TIMEOUT_MS :: rat where "DEFAULT_QUEUE_TIMEOUT_MS = 60000"
definition SLOT_WAIT_ANNOUNCE_MS :: ms where "SLOT_WAIT_ANNOUNCE_MS = 2000"

definition resolveMaxConcurrent :: "int option \<Rightarrow> int \<Rightarrow> int" where
  "resolveMaxConcurrent explicit poolSize =
     (case explicit of
        Some n \<Rightarrow> n
      | None \<Rightarrow> (if poolSize > 0 then poolSize * DEFAULT_MAX_CONCURRENT else DEFAULT_MAX_CONCURRENT))"

definition new_queue :: "int option \<Rightarrow> int option \<Rightarrow> jsnum option \<Rightarrow> int option \<Rightarrow> request_queue" where
  "new_queue conc queued tmo perConsumer =
     \<lparr> maxConcurrent = opt_or conc DEFAULT_MAX_CONCURRENT,
       maxQueued = opt_or queued DEFAULT_MAX_QUEUED,
       rq_queueTimeoutMs = clampTimerMs (opt_or tmo (Fin DEFAULT_QUEUE_TIMEOUT_MS)),
       maxConcurrentPerConsumer = max 0 (opt_or perConsumer 0),
       active = 0, activeByConsumer = [], rq_queue = [], stalledSince = None,
       maxWaitMs = 0, slowWaitAnnounced = False \<rparr>"

section \<open>Admission\<close>

record queue_state =
  qs_active :: int
  qs_queued :: int
  qs_maxConcurrent :: int
  qs_maxQueued :: int

datatype admit_decision = Admit | Enqueue | Reject_queue_full

definition decideAdmit :: "queue_state \<Rightarrow> admit_decision" where
  "decideAdmit s =
     (if qs_active s < qs_maxConcurrent s then Admit
      else if qs_queued s < qs_maxQueued s then Enqueue
      else Reject_queue_full)"

definition decideConsumerAdmit :: "int \<Rightarrow> int \<Rightarrow> queue_state \<Rightarrow> admit_decision option" where
  "decideConsumerAdmit activeForConsumer cap s =
     (if cap \<le> 0 \<or> activeForConsumer < cap then None
      else if qs_queued s < qs_maxQueued s then Some Enqueue
      else Some Reject_queue_full)"

definition isQueueEntryExpired :: "ms \<Rightarrow> ms \<Rightarrow> ms \<Rightarrow> bool" where
  "isQueueEntryExpired enqueuedAt now timeoutMs \<longleftrightarrow> now - enqueuedAt > timeoutMs"

definition queue_snapshot :: "request_queue \<Rightarrow> queue_state" where
  "queue_snapshot q =
     \<lparr> qs_active = active q, qs_queued = int (length (rq_queue q)),
       qs_maxConcurrent = maxConcurrent q, qs_maxQueued = maxQueued q \<rparr>"

section \<open>Operations\<close>

definition at_capacity :: "request_queue \<Rightarrow> bool" where
  "at_capacity q \<longleftrightarrow> active q \<ge> maxConcurrent q \<and> length (rq_queue q) > 0"

definition updateStall :: "ms \<Rightarrow> request_queue \<Rightarrow> request_queue" where
  "updateStall now q =
     (if \<not> at_capacity q then q\<lparr>stalledSince := None\<rparr>
      else if stalledSince q = None then q\<lparr>stalledSince := Some now\<rparr>
      else q)"

definition active_of :: "request_queue \<Rightarrow> string \<Rightarrow> int" where
  "active_of q c = opt_or (map_of (activeByConsumer q) c) 0"

definition underCap :: "request_queue \<Rightarrow> string option \<Rightarrow> bool" where
  "underCap q consumer \<longleftrightarrow>
     (case truthy consumer of
        None \<Rightarrow> True
      | Some c \<Rightarrow> maxConcurrentPerConsumer q \<le> 0 \<or> active_of q c < maxConcurrentPerConsumer q)"

definition admit :: "string option \<Rightarrow> ms \<Rightarrow> request_queue \<Rightarrow> request_queue" where
  "admit consumer now q =
     (let q1 = q\<lparr>active := active q + 1\<rparr>;
          q2 = (case truthy consumer of
                  None \<Rightarrow> q1
                | Some c \<Rightarrow> q1\<lparr>activeByConsumer := AList.update c (active_of q1 c + 1) (activeByConsumer q1)\<rparr>)
      in updateStall now q2)"

datatype acquire_result = Acquired | Queue_full_error | Waiting

definition acquire :: "nat \<Rightarrow> string option \<Rightarrow> ms \<Rightarrow> request_queue \<Rightarrow> acquire_result \<times> request_queue" where
  "acquire i consumer now q =
     (let s = queue_snapshot q;
          gated = (case truthy consumer of
                     None \<Rightarrow> None
                   | Some c \<Rightarrow> decideConsumerAdmit (active_of q c) (maxConcurrentPerConsumer q) s);
          decision = (case gated of None \<Rightarrow> decideAdmit s | Some d \<Rightarrow> d)
      in case decision of
           Admit \<Rightarrow> (Acquired, admit consumer now q)
         | Reject_queue_full \<Rightarrow> (Queue_full_error, q)
         | Enqueue \<Rightarrow>
             (Waiting,
              updateStall now
                (q\<lparr>rq_queue := rq_queue q @
                   [\<lparr>qe_id = i, qe_enqueuedAt = now, qe_consumer = consumer,
                     qe_gate = (if gated \<noteq> None then Gate_consumer else Gate_global)\<rparr>]\<rparr>)))"

text \<open>The entry's timer: it rejects the promise if the entry is still queued.\<close>

definition queue_timeout :: "nat \<Rightarrow> ms \<Rightarrow> request_queue \<Rightarrow> bool \<times> request_queue" where
  "queue_timeout i now q =
     (if list_ex (\<lambda>e. qe_id e = i) (rq_queue q)
      then (True, updateStall now (q\<lparr>rq_queue := filter (\<lambda>e. qe_id e \<noteq> i) (rq_queue q)\<rparr>))
      else (False, q))"

record slot_wait_info =
  sw_waitedMs :: ms
  sw_active :: int
  sw_queued :: int
  sw_gate :: slot_wait_gate
  sw_consumer :: "string option"

definition free_slot :: "string option \<Rightarrow> request_queue \<Rightarrow> request_queue" where
  "free_slot consumer q =
     (let q1 = (if active q > 0 then q\<lparr>active := active q - 1\<rparr> else q)
      in case truthy consumer of
           None \<Rightarrow> q1
         | Some c \<Rightarrow>
             (let left = active_of q1 c - 1
              in if left \<le> 0 then q1\<lparr>activeByConsumer := AList.delete c (activeByConsumer q1)\<rparr>
                 else q1\<lparr>activeByConsumer := AList.update c left (activeByConsumer q1)\<rparr>))"

text \<open>\<open>findIndex\<close> and \<open>splice\<close>: the first entry that may be admitted, and the queue without it.\<close>

fun take_first :: "('a \<Rightarrow> bool) \<Rightarrow> 'a list \<Rightarrow> ('a \<times> 'a list) option" where
  "take_first P [] = None"
| "take_first P (x # xs) =
     (if P x then Some (x, xs)
      else (case take_first P xs of None \<Rightarrow> None | Some (y, ys) \<Rightarrow> Some (y, x # ys)))"

definition note_wait :: "ms \<Rightarrow> queue_entry \<Rightarrow> request_queue \<Rightarrow> slot_wait_info option \<times> request_queue" where
  "note_wait now e q =
     (let waited = now - qe_enqueuedAt e;
          q1 = (if waited > maxWaitMs q then q\<lparr>maxWaitMs := waited\<rparr> else q)
      in if waited \<ge> SLOT_WAIT_ANNOUNCE_MS \<and> \<not> slowWaitAnnounced q1
         then (Some \<lparr>sw_waitedMs = waited, sw_active = active q1, sw_queued = int (length (rq_queue q1)),
                     sw_gate = qe_gate e,
                     sw_consumer = (if qe_gate e = Gate_consumer then qe_consumer e else None)\<rparr>,
               q1\<lparr>slowWaitAnnounced := True\<rparr>)
         else (None, q1))"

text \<open>The end of \<open>release\<close>: an empty queue ends the episode, and a release is turnover.\<close>

definition settle :: "ms \<Rightarrow> request_queue \<Rightarrow> request_queue" where
  "settle now q =
     (let q1 = (if length (rq_queue q) = 0 then q\<lparr>slowWaitAnnounced := False\<rparr> else q)
      in updateStall now (q1\<lparr>stalledSince := None\<rparr>))"

definition release ::
  "string option \<Rightarrow> ms \<Rightarrow> request_queue \<Rightarrow> queue_entry option \<times> slot_wait_info option \<times> request_queue" where
  "release consumer now q =
     (let q1 = free_slot consumer q
      in case take_first (\<lambda>e. underCap q1 (qe_consumer e)) (rq_queue q1) of
           None \<Rightarrow> (None, None, settle now q1)
         | Some (nxt, rest) \<Rightarrow>
             (let (info, q2) = note_wait now nxt (admit (qe_consumer nxt) now (q1\<lparr>rq_queue := rest\<rparr>))
              in (Some nxt, info, settle now q2)))"

section \<open>Frames\<close>

lemma updateStall_frame [frame_simps, simp]:
  "maxConcurrent (updateStall now q) = maxConcurrent q"
  "maxQueued (updateStall now q) = maxQueued q"
  "maxConcurrentPerConsumer (updateStall now q) = maxConcurrentPerConsumer q"
  "active (updateStall now q) = active q"
  "activeByConsumer (updateStall now q) = activeByConsumer q"
  "rq_queue (updateStall now q) = rq_queue q"
  by (simp_all add: updateStall_def)

lemma at_capacity_cong:
  "active q = active q' \<Longrightarrow> maxConcurrent q = maxConcurrent q' \<Longrightarrow> rq_queue q = rq_queue q' \<Longrightarrow>
     at_capacity q = at_capacity q'"
  by (simp add: at_capacity_def)

lemma at_capacity_stalled [simp]: "at_capacity (q\<lparr>stalledSince := s\<rparr>) = at_capacity q"
  by (simp add: at_capacity_def)

lemma at_capacity_updateStall [simp]: "at_capacity (updateStall now q) = at_capacity q"
  by (simp add: at_capacity_def)

lemma stalled_updateStall:
  "stalledSince (updateStall now q) =
     (if \<not> at_capacity q then None else Some (opt_or (stalledSince q) now))"
  by (auto simp: updateStall_def)

lemma admit_frame [frame_simps, simp]:
  "maxConcurrent (admit c now q) = maxConcurrent q"
  "maxQueued (admit c now q) = maxQueued q"
  "maxConcurrentPerConsumer (admit c now q) = maxConcurrentPerConsumer q"
  "active (admit c now q) = active q + 1"
  "rq_queue (admit c now q) = rq_queue q"
  by (simp_all add: admit_def Let_def split: option.split)

lemma active_of_admit:
  "active_of (admit c now q) d = active_of q d + (if truthy c = Some d then 1 else 0)"
  by (auto simp: admit_def active_of_def Let_def jm.get_put split: option.split)

lemma note_wait_frame [frame_simps, simp]:
  "maxConcurrent (snd (note_wait now e q)) = maxConcurrent q"
  "maxQueued (snd (note_wait now e q)) = maxQueued q"
  "maxConcurrentPerConsumer (snd (note_wait now e q)) = maxConcurrentPerConsumer q"
  "active (snd (note_wait now e q)) = active q"
  "activeByConsumer (snd (note_wait now e q)) = activeByConsumer q"
  "rq_queue (snd (note_wait now e q)) = rq_queue q"
  by (simp_all add: note_wait_def Let_def)

lemma free_slot_frame [frame_simps, simp]:
  "maxConcurrent (free_slot c q) = maxConcurrent q"
  "maxQueued (free_slot c q) = maxQueued q"
  "maxConcurrentPerConsumer (free_slot c q) = maxConcurrentPerConsumer q"
  "active (free_slot c q) = (if active q > 0 then active q - 1 else active q)"
  "rq_queue (free_slot c q) = rq_queue q"
  by (simp_all add: free_slot_def Let_def split: option.split)

lemma active_of_free:
  "active_of (free_slot c q) d =
     (if truthy c = Some d then max 0 (active_of q d - 1) else active_of q d)"
  by (auto simp: free_slot_def active_of_def Let_def jm.get_put jm.get_del split: option.split)

lemma underCap_cong:
  "activeByConsumer q = activeByConsumer q' \<Longrightarrow> maxConcurrentPerConsumer q = maxConcurrentPerConsumer q' \<Longrightarrow>
     underCap q c = underCap q' c"
  by (simp add: underCap_def active_of_def split: option.split)

lemma settle_frame [frame_simps, simp]:
  "maxConcurrent (settle now q) = maxConcurrent q"
  "maxQueued (settle now q) = maxQueued q"
  "maxConcurrentPerConsumer (settle now q) = maxConcurrentPerConsumer q"
  "active (settle now q) = active q"
  "activeByConsumer (settle now q) = activeByConsumer q"
  "rq_queue (settle now q) = rq_queue q"
  by (simp_all add: settle_def Let_def)

lemma stalled_settle: "stalledSince (settle now q) = (if at_capacity q then Some now else None)"
  by (simp add: settle_def Let_def stalled_updateStall at_capacity_def)

lemma take_first_SomeD:
  "take_first P xs = Some (x, ys) \<Longrightarrow>
     \<exists>pre post. xs = pre @ x # post \<and> ys = pre @ post \<and> P x \<and> (\<forall>e \<in> set pre. \<not> P e)"
proof (induction xs arbitrary: ys)
  case Nil
  then show ?case by simp
next
  case (Cons a xs)
  show ?case
  proof (cases "P a")
    case True
    with Cons.prems show ?thesis by (intro exI [of _ "[]"] exI [of _ ys]) auto
  next
    case False
    with Cons.prems obtain zs where z: "take_first P xs = Some (x, zs)" "ys = a # zs"
      by (auto split: option.splits)
    from Cons.IH [OF z(1)] obtain pre post where
      "xs = pre @ x # post" "zs = pre @ post" "P x" "\<forall>e \<in> set pre. \<not> P e" by blast
    with False z(2) show ?thesis by (intro exI [of _ "a # pre"] exI [of _ post]) auto
  qed
qed

lemma take_first_None: "take_first P xs = None \<longleftrightarrow> (\<forall>x \<in> set xs. \<not> P x)"
  by (induction xs) (auto split: option.splits)

text \<open>What \<open>release\<close> does, by whether some waiter may be admitted.\<close>

lemma release_none:
  assumes "\<forall>e \<in> set (rq_queue q). \<not> underCap (free_slot c q) (qe_consumer e)"
  shows "release c now q = (None, None, settle now (free_slot c q))"
proof -
  have "take_first (\<lambda>e. underCap (free_slot c q) (qe_consumer e)) (rq_queue (free_slot c q)) = None"
    using assms by (simp add: take_first_None)
  then show ?thesis by (simp add: release_def Let_def)
qed

definition admitted_next :: "string option \<Rightarrow> ms \<Rightarrow> queue_entry \<Rightarrow> queue_entry list \<Rightarrow> request_queue \<Rightarrow> request_queue" where
  "admitted_next c now e rest q = admit (qe_consumer e) now ((free_slot c q)\<lparr>rq_queue := rest\<rparr>)"

lemma release_some:
  assumes "\<exists>e \<in> set (rq_queue q). underCap (free_slot c q) (qe_consumer e)"
  obtains e pre post where "rq_queue q = pre @ e # post"
    and "underCap (free_slot c q) (qe_consumer e)"
    and "\<forall>x \<in> set pre. \<not> underCap (free_slot c q) (qe_consumer x)"
    and "release c now q = (Some e, fst (note_wait now e (admitted_next c now e (pre @ post) q)),
           settle now (snd (note_wait now e (admitted_next c now e (pre @ post) q))))"
proof -
  let ?P = "\<lambda>e. underCap (free_slot c q) (qe_consumer e)"
  obtain e rest where t: "take_first ?P (rq_queue q) = Some (e, rest)"
    using assms take_first_None [of ?P "rq_queue q"] by (metis not_None_eq surj_pair)
  from take_first_SomeD [OF t] obtain pre post where "rq_queue q = pre @ e # post" "rest = pre @ post"
    "?P e" "\<forall>x \<in> set pre. \<not> ?P x" by blast
  with t show thesis
    by (intro that [of pre e post]) (simp_all add: release_def admitted_next_def Let_def split: prod.split)
qed

end
