(* ===== verification/Request_Queue_Inv.thy ===== *)
theory Request_Queue_Inv
  imports Request_Queue
begin

text \<open>
  The request queue as a machine. Beside the queue's state runs the multiset of the consumers whose
  requests are in flight (\<open>None\<close> for a request with no consumer): a caller releases only what it
  holds, as the proxy's \<open>try\<close>/\<open>finally\<close> does. The invariant ties the counters to that multiset,
  keeps every ceiling, and says no request waits that could be admitted.
\<close>

section \<open>The machine\<close>

datatype queue_op =
    Q_acquire nat "string option" ms
  | Q_release "string option" ms
  | Q_timeout nat ms

type_synonym queue_sys = "request_queue \<times> string option multiset"

definition resumed :: "queue_entry option \<Rightarrow> string option multiset" where
  "resumed res = (case res of None \<Rightarrow> {#} | Some e \<Rightarrow> {#truthy (qe_consumer e)#})"

fun queue_step :: "queue_op \<Rightarrow> queue_sys \<Rightarrow> queue_sys" where
  "queue_step (Q_acquire i c now) (q, fl) =
     (let (r, q') = acquire i c now q in (q', if r = Acquired then add_mset (truthy c) fl else fl))"
| "queue_step (Q_release c now) (q, fl) =
     (let (res, _, q') = release c now q in (q', fl - {#truthy c#} + resumed res))"
| "queue_step (Q_timeout i now) (q, fl) = (snd (queue_timeout i now q), fl)"

fun queue_op_ok :: "queue_op \<Rightarrow> queue_sys \<Rightarrow> bool" where
  "queue_op_ok (Q_release c now) (q, fl) = (truthy c \<in># fl)"
| "queue_op_ok _ _ = True"

section \<open>The invariant\<close>

definition tracks :: "request_queue \<Rightarrow> string option multiset \<Rightarrow> bool" where
  "tracks q fl \<longleftrightarrow> active q = int (size fl) \<and> (\<forall>c. active_of q c = int (count fl (Some c)))"

definition within_caps :: "request_queue \<Rightarrow> bool" where
  "within_caps q \<longleftrightarrow>
     active q \<le> max 0 (maxConcurrent q)
     \<and> int (length (rq_queue q)) \<le> max 0 (maxQueued q)
     \<and> (maxConcurrentPerConsumer q > 0 \<longrightarrow> (\<forall>c. active_of q c \<le> maxConcurrentPerConsumer q))"

definition no_stranded :: "request_queue \<Rightarrow> bool" where
  "no_stranded q \<longleftrightarrow>
     (active q < maxConcurrent q \<longrightarrow> (\<forall>e \<in> set (rq_queue q). \<not> underCap q (qe_consumer e)))"

definition stall_ok :: "request_queue \<Rightarrow> bool" where
  "stall_ok q \<longleftrightarrow> (stalledSince q \<noteq> None \<longleftrightarrow> at_capacity q)"

fun queue_inv :: "queue_sys \<Rightarrow> bool" where
  "queue_inv (q, fl) = (tracks q fl \<and> within_caps q \<and> no_stranded q \<and> stall_ok q)"

lemma tracks_cong:
  "active q = active q' \<Longrightarrow> activeByConsumer q = activeByConsumer q' \<Longrightarrow> tracks q fl = tracks q' fl"
  by (simp add: tracks_def active_of_def)

lemma active_of_cong: "activeByConsumer q = activeByConsumer q' \<Longrightarrow> active_of q c = active_of q' c"
  by (simp add: active_of_def)

lemma active_of_simps [simp]:
  "active_of (updateStall now q) d = active_of q d"
  "active_of (settle now q) d = active_of q d"
  "active_of (snd (note_wait now e q)) d = active_of q d"
  "active_of (q\<lparr>rq_queue := qs\<rparr>) d = active_of q d"
  by (simp_all add: active_of_def)

lemma underCap_simps [simp]:
  "underCap (updateStall now q) d = underCap q d"
  "underCap (settle now q) d = underCap q d"
  "underCap (snd (note_wait now e q)) d = underCap q d"
  "underCap (q\<lparr>rq_queue := qs\<rparr>) d = underCap q d"
  by (simp_all add: underCap_def cong: option.case_cong)

lemma stall_ok_updateStall [simp]: "stall_ok (updateStall now q)"
  by (simp add: stall_ok_def stalled_updateStall)

lemma stall_ok_settle [simp]: "stall_ok (settle now q)"
proof -
  have "at_capacity (settle now q) = at_capacity q" by (rule at_capacity_cong) simp_all
  then show ?thesis by (simp add: stall_ok_def stalled_settle)
qed

text \<open>Admitting one more request only tightens every consumer's cap.\<close>

lemma underCap_admit: "underCap (admit c now q) d \<Longrightarrow> underCap q d"
  by (auto simp: underCap_def active_of_admit split: option.splits if_splits)

lemma tracks_admit: "tracks q fl \<Longrightarrow> tracks (admit c now q) (add_mset (truthy c) fl)"
  by (auto simp: tracks_def active_of_admit)

lemma held_pos: "x \<in># M \<Longrightarrow> 0 < size M"
  by (cases M) auto

lemma tracks_free:
  assumes "tracks q fl" and "truthy c \<in># fl"
  shows "tracks (free_slot c q) (fl - {#truthy c#})"
proof -
  have pos: "0 < size fl" using assms(2) by (rule held_pos)
  have cnt: "truthy c = Some d \<Longrightarrow> 0 < count fl (Some d)" for d using assms(2) by simp
  have "active (free_slot c q) = int (size (fl - {#truthy c#}))"
    using assms pos by (simp add: tracks_def size_Diff_singleton)
  moreover have "active_of (free_slot c q) d = int (count (fl - {#truthy c#}) (Some d))" for d
    using assms(1) cnt [of d] by (auto simp: tracks_def active_of_free)
  ultimately show ?thesis by (simp add: tracks_def)
qed

lemma underCap_free_other:
  "truthy d \<noteq> truthy c \<Longrightarrow> underCap (free_slot c q) d = underCap q d"
  by (auto simp: underCap_def active_of_free split: option.splits)

section \<open>Each operation keeps it\<close>

lemma acquire_eq:
  "acquire i c now q =
     (if underCap q c \<and> active q < maxConcurrent q then (Acquired, admit c now q)
      else if int (length (rq_queue q)) < maxQueued q
      then (Waiting, updateStall now (q\<lparr>rq_queue := rq_queue q @
              [\<lparr>qe_id = i, qe_enqueuedAt = now, qe_consumer = c,
                qe_gate = (if underCap q c then Gate_global else Gate_consumer)\<rparr>]\<rparr>))
      else (Queue_full_error, q))"
  by (auto simp: acquire_def decideAdmit_def decideConsumerAdmit_def underCap_def queue_snapshot_def Let_def
      split: option.splits)

text \<open>
  What \<open>acquire\<close> decides, in one equation: a request goes straight in exactly when a slot is
  free and its consumer is under its cap; otherwise it joins the end of the queue if that has room,
  remembering which of the two ceilings held it, and is refused with \<open>queue-full\<close>, changing
  nothing, if not.
\<close>

theorem acquire_decides:
  "acquire i c now q =
     (if underCap q c \<and> active q < maxConcurrent q then (Acquired, admit c now q)
      else if int (length (rq_queue q)) < maxQueued q
      then (Waiting, updateStall now (q\<lparr>rq_queue := rq_queue q @
              [\<lparr>qe_id = i, qe_enqueuedAt = now, qe_consumer = c,
                qe_gate = (if underCap q c then Gate_global else Gate_consumer)\<rparr>]\<rparr>))
      else (Queue_full_error, q))"
  by (rule acquire_eq)

lemma within_caps_admit:
  assumes "within_caps q" and "underCap q c" and "active q < maxConcurrent q"
  shows "within_caps (admit c now q)"
  using assms by (auto simp: within_caps_def active_of_admit underCap_def split: option.splits)

lemma no_stranded_admit: "no_stranded q \<Longrightarrow> no_stranded (admit c now q)"
  by (auto simp: no_stranded_def dest: underCap_admit)

lemma stall_ok_admit [simp]: "stall_ok (admit c now q)"
  by (simp add: admit_def Let_def)

lemma no_stranded_updateStall [simp]: "no_stranded (updateStall now q) = no_stranded q"
  by (simp add: no_stranded_def)

lemma within_caps_updateStall [simp]: "within_caps (updateStall now q) = within_caps q"
  by (simp add: within_caps_def)

lemma inv_acquire:
  assumes "queue_inv (q, fl)"
  shows "queue_inv (queue_step (Q_acquire i c now) (q, fl))"
proof -
  consider (go) "underCap q c" "active q < maxConcurrent q"
    | (wait) "\<not> (underCap q c \<and> active q < maxConcurrent q)" "int (length (rq_queue q)) < maxQueued q"
    | (full) "\<not> (underCap q c \<and> active q < maxConcurrent q)" "\<not> int (length (rq_queue q)) < maxQueued q" by blast
  then show ?thesis
  proof cases
    case go
    then show ?thesis using assms
      by (simp add: acquire_eq tracks_admit within_caps_admit no_stranded_admit)
  next
    case wait
    let ?e = "\<lparr>qe_id = i, qe_enqueuedAt = now, qe_consumer = c,
                qe_gate = (if underCap q c then Gate_global else Gate_consumer)\<rparr>"
    let ?q = "updateStall now (q\<lparr>rq_queue := rq_queue q @ [?e]\<rparr>)"
    have "tracks ?q fl" using assms tracks_cong [of ?q q fl] by simp
    moreover have "within_caps ?q" using assms wait(2) by (auto simp: within_caps_def)
    moreover have "no_stranded ?q" using assms wait(1) by (auto simp: no_stranded_def)
    ultimately show ?thesis using wait by (auto simp: acquire_eq)
  next
    case full
    then show ?thesis using assms by (auto simp: acquire_eq)
  qed
qed

lemma inv_timeout:
  assumes "queue_inv (q, fl)"
  shows "queue_inv (queue_step (Q_timeout i now) (q, fl))"
proof -
  let ?q = "updateStall now (q\<lparr>rq_queue := filter (\<lambda>e. qe_id e \<noteq> i) (rq_queue q)\<rparr>)"
  have "tracks ?q fl" using assms tracks_cong [of ?q q fl] by simp
  moreover have "int (length (filter (\<lambda>e. qe_id e \<noteq> i) (rq_queue q))) \<le> int (length (rq_queue q))" by simp
  then have "int (length (filter (\<lambda>e. qe_id e \<noteq> i) (rq_queue q))) \<le> max 0 (maxQueued q)"
    by (rule order_trans) (use assms in \<open>simp add: within_caps_def\<close>)
  then have "within_caps ?q" using assms by (simp add: within_caps_def)
  moreover have "no_stranded ?q" using assms by (auto simp: no_stranded_def)
  ultimately show ?thesis using assms by (simp add: queue_timeout_def)
qed

lemma within_caps_free:
  assumes "tracks q fl" and "within_caps q"
  shows "within_caps (free_slot c q)"
proof -
  have "active_of (free_slot c q) d \<le> active_of q d" for d
    using assms(1) by (auto simp: tracks_def active_of_free)
  then show ?thesis using assms(2) by (auto simp: within_caps_def intro: order_trans)
qed

text \<open>The request let in on a release takes back the slot, and the consumer's place, just given up.\<close>

lemma no_stranded_admitted_next:
  assumes "queue_inv (q, fl)" and "truthy c \<in># fl" and q: "rq_queue q = pre @ e # post"
    and u: "underCap (free_slot c q) (qe_consumer e)"
  shows "no_stranded (admitted_next c now e (pre @ post) q)"
proof (cases "active q < maxConcurrent q")
  case False
  have "0 < active q" using assms(1) held_pos [OF assms(2)] by (simp add: tracks_def)
  with False show ?thesis by (simp add: admitted_next_def no_stranded_def)
next
  case True
  then have none: "\<not> underCap q (qe_consumer x)" if "x \<in> set (rq_queue q)" for x
    using assms(1) that by (simp add: no_stranded_def)
  then have ne: "\<not> underCap q (qe_consumer e)" using q by simp
  with u have same: "truthy (qe_consumer e) = truthy c" using underCap_free_other by blast
  with ne obtain d where d: "truthy c = Some d" by (auto simp: underCap_def split: option.splits)
  have "0 < active_of q d" using assms(1,2) d by (simp add: tracks_def)
  then have counts: "active_of (admitted_next c now e (pre @ post) q) y = active_of q y" for y
    using d same by (auto simp: admitted_next_def active_of_admit active_of_free)
  have "underCap (admitted_next c now e (pre @ post) q) z = underCap q z" for z
    unfolding underCap_def counts by (simp add: admitted_next_def split: option.split)
  then show ?thesis using none q by (auto simp: no_stranded_def admitted_next_def)
qed

lemma inv_release:
  assumes inv: "queue_inv (q, fl)" and held: "truthy c \<in># fl"
  shows "queue_inv (queue_step (Q_release c now) (q, fl))"
proof (cases "\<forall>e \<in> set (rq_queue q). \<not> underCap (free_slot c q) (qe_consumer e)")
  case True
  let ?q = "settle now (free_slot c q)"
  have "tracks ?q (fl - {#truthy c#})"
    using tracks_free [of q fl c] inv held tracks_cong [of ?q "free_slot c q"] by simp
  moreover have "within_caps ?q"
    using within_caps_free [of q fl c] inv unfolding within_caps_def queue_inv.simps by simp
  moreover have "no_stranded ?q" using True by (simp add: no_stranded_def)
  ultimately show ?thesis by (simp add: release_none [OF True] resumed_def)
next
  case False
  then have ex: "\<exists>e \<in> set (rq_queue q). underCap (free_slot c q) (qe_consumer e)" by blast
  obtain e pre post where q: "rq_queue q = pre @ e # post" and u: "underCap (free_slot c q) (qe_consumer e)"
    and "\<forall>x \<in> set pre. \<not> underCap (free_slot c q) (qe_consumer x)"
    and r: "release c now q = (Some e, fst (note_wait now e (admitted_next c now e (pre @ post) q)),
           settle now (snd (note_wait now e (admitted_next c now e (pre @ post) q))))"
    by (rule release_some [OF ex, where now = now])
  let ?n = "admitted_next c now e (pre @ post) q"
  let ?q = "settle now (snd (note_wait now e ?n))"
  let ?f = "(free_slot c q)\<lparr>rq_queue := pre @ post\<rparr>"
  have fs: "tracks ?f (fl - {#truthy c#})"
    using tracks_free [of q fl c] inv held tracks_cong [of ?f "free_slot c q"] by simp
  have size: "0 < active q" "active q \<le> max 0 (maxConcurrent q)"
    using inv held_pos [OF held] by (simp_all add: tracks_def within_caps_def)
  have "within_caps (free_slot c q)" using within_caps_free inv by auto
  then have "within_caps ?f" using q unfolding within_caps_def by simp
  then have "within_caps ?n" unfolding admitted_next_def
    by (rule within_caps_admit) (use u size in auto)
  moreover have "tracks ?n (add_mset (truthy (qe_consumer e)) (fl - {#truthy c#}))"
    unfolding admitted_next_def by (rule tracks_admit [OF fs])
  moreover have "no_stranded ?n" by (rule no_stranded_admitted_next [OF inv held q u])
  ultimately show ?thesis
    using tracks_cong [of ?q ?n]
    by (simp add: r resumed_def within_caps_def no_stranded_def)
qed

interpretation queue_machine: inv_machine queue_step queue_op_ok queue_inv
proof
  fix s :: queue_sys and e assume "queue_inv s" and "queue_op_ok e s"
  then show "queue_inv (queue_step e s)"
    using inv_acquire inv_release inv_timeout by (cases s; cases e) auto
qed

lemma queue_inv_new: "queue_inv (new_queue conc queued tmo per, {#})"
  by (auto simp: new_queue_def tracks_def active_of_def within_caps_def no_stranded_def stall_ok_def at_capacity_def)

text \<open>
  C3. The ceilings hold and nobody is stranded. After any sequence of arrivals, timeouts and
  releases in which callers release only what they hold, the counters say exactly who is in flight,
  no ceiling is exceeded (total, per consumer, waiting), and while a slot is free no waiting request
  belongs to a consumer that may take it.
\<close>

theorem queue_run_safe:
  assumes "queue_machine.allowed ops (new_queue conc queued tmo per, {#})"
    and "fold queue_step ops (new_queue conc queued tmo per, {#}) = (q, fl)"
  shows "active q = int (size fl) \<and> (\<forall>c. active_of q c = int (count fl (Some c)))
         \<and> active q \<le> max 0 (maxConcurrent q)
         \<and> int (length (rq_queue q)) \<le> max 0 (maxQueued q)
         \<and> (maxConcurrentPerConsumer q > 0 \<longrightarrow> (\<forall>c. active_of q c \<le> maxConcurrentPerConsumer q))
         \<and> (active q < maxConcurrent q \<longrightarrow> (\<forall>e \<in> set (rq_queue q). \<not> underCap q (qe_consumer e)))
         \<and> (stalledSince q \<noteq> None \<longleftrightarrow> active q \<ge> maxConcurrent q \<and> rq_queue q \<noteq> [])"
  using queue_machine.run_inv [OF queue_inv_new assms(1)]
  unfolding assms(2) queue_inv.simps tracks_def within_caps_def no_stranded_def stall_ok_def at_capacity_def
  by auto

theorem queue_run_safe_witness:
  "active (fst (fold queue_step
      [Q_acquire 1 (Some ''a'') 0, Q_acquire 2 (Some ''a'') 1, Q_acquire 3 (Some ''b'') 2, Q_release (Some ''a'') 3]
      (new_queue (Some 2) None None (Some 1), {#}))) = 2"
proof -
  let ?ops = "[Q_acquire 1 (Some ''a'') 0, Q_acquire 2 (Some ''a'') 1, Q_acquire 3 (Some ''b'') 2, Q_release (Some ''a'') 3]"
  let ?s = "(new_queue (Some 2) None None (Some 1), {#})"
  note ev = acquire_eq release_def new_queue_def underCap_def active_of_def admit_def updateStall_def at_capacity_def
    free_slot_def note_wait_def settle_def resumed_def Let_def DEFAULT_MAX_QUEUED_def SLOT_WAIT_ANNOUNCE_MS_def
  have fl: "snd (fold queue_step ?ops ?s) = {#Some ''b'', Some ''a''#}" by (simp add: ev)
  have ok: "queue_machine.allowed ?ops ?s" by (simp add: ev)
  have "fold queue_step ?ops ?s = (fst (fold queue_step ?ops ?s), {#Some ''b'', Some ''a''#})"
    using fl by (metis prod.collapse)
  from queue_run_safe [OF ok this]
  have "active (fst (fold queue_step ?ops ?s)) = int (size {#Some ''b'', Some ''a''#})" by (rule conjunct1)
  also have "\<dots> = 2" by simp
  finally show ?thesis .
qed

section \<open>Order, turnover and progress\<close>

lemma release_takes:
  assumes "release c now q = (res, info, q')"
  shows "case res of
           None \<Rightarrow> rq_queue q' = rq_queue q \<and> (\<forall>e \<in> set (rq_queue q). \<not> underCap (free_slot c q) (qe_consumer e))
         | Some e \<Rightarrow> (\<exists>pre post. rq_queue q = pre @ e # post \<and> rq_queue q' = pre @ post
                      \<and> underCap (free_slot c q) (qe_consumer e)
                      \<and> (\<forall>x \<in> set pre. \<not> underCap (free_slot c q) (qe_consumer x)))"
proof (cases "\<forall>e \<in> set (rq_queue q). \<not> underCap (free_slot c q) (qe_consumer e)")
  case True
  from assms [unfolded release_none [OF True]] True show ?thesis by auto
next
  case False
  then have ex: "\<exists>e \<in> set (rq_queue q). underCap (free_slot c q) (qe_consumer e)" by blast
  obtain e pre post where q: "rq_queue q = pre @ e # post" and u: "underCap (free_slot c q) (qe_consumer e)"
    and n: "\<forall>x \<in> set pre. \<not> underCap (free_slot c q) (qe_consumer x)"
    and r: "release c now q = (Some e, fst (note_wait now e (admitted_next c now e (pre @ post) q)),
           settle now (snd (note_wait now e (admitted_next c now e (pre @ post) q))))"
    by (rule release_some [OF ex, where now = now])
  then show ?thesis using assms by (auto simp: admitted_next_def)
qed

text \<open>
  \<open>release\<close> is first come first served among those it may admit: it lets in the earliest waiter
  whose consumer is under its cap once the slot is given back, passing over only capped ones, and
  leaves the others in their order; it lets nobody in only if every waiter is capped.
\<close>

theorem release_first_admissible:
  assumes "release c now q = (res, info, q')"
  shows "case res of
           None \<Rightarrow> rq_queue q' = rq_queue q \<and> (\<forall>e \<in> set (rq_queue q). \<not> underCap (free_slot c q) (qe_consumer e))
         | Some e \<Rightarrow> (\<exists>pre post. rq_queue q = pre @ e # post \<and> rq_queue q' = pre @ post
                      \<and> underCap (free_slot c q) (qe_consumer e)
                      \<and> (\<forall>x \<in> set pre. \<not> underCap (free_slot c q) (qe_consumer x)))"
  by (rule release_takes [OF assms])

theorem release_first_admissible_witness:
  "\<exists>pre post. [\<lparr>qe_id = 1, qe_enqueuedAt = 0, qe_consumer = None, qe_gate = Gate_global\<rparr>] =
     pre @ \<lparr>qe_id = 1, qe_enqueuedAt = 0, qe_consumer = None, qe_gate = Gate_global\<rparr> # post \<and> pre @ post = []"
proof -
  let ?e = "\<lparr>qe_id = 1, qe_enqueuedAt = 0, qe_consumer = None, qe_gate = Gate_global\<rparr>"
  let ?q = "(new_queue (Some 1) None None None)\<lparr>active := 1, rq_queue := [?e]\<rparr>"
  have u: "underCap (free_slot None ?q) None" by (simp add: underCap_def)
  let ?r = "release None 5 ?q"
  have "fst ?r = Some ?e" "rq_queue (snd (snd ?r)) = []"
    by (simp_all add: release_def new_queue_def underCap_def Let_def free_slot_def split_def)
  then obtain info q' where r: "?r = (Some ?e, info, q')" and q': "rq_queue q' = []" by (metis prod.collapse)
  from release_first_admissible [OF r] q' show ?thesis by (simp add: new_queue_def)
qed

text \<open>
  \<open>stalledSince\<close> dates the stall, not the last look at it: an arrival or a timeout that finds the
  queue at capacity keeps the stamp there was, and stamps now only when capacity is reached by it;
  every release starts it afresh; and away from capacity there is no stamp.
\<close>

theorem stall_stamp:
  assumes "stall_ok q"
  shows "stalledSince (snd (acquire i c now q)) =
           (if at_capacity (snd (acquire i c now q)) then Some (opt_or (stalledSince q) now) else None)
       \<and> stalledSince (snd (queue_timeout i now q)) =
           (if at_capacity (snd (queue_timeout i now q)) then Some (opt_or (stalledSince q) now) else None)
       \<and> stalledSince (snd (snd (release c now q))) =
           (if at_capacity (snd (snd (release c now q))) then Some now else None)"
proof (intro conjI)
  have adm: "stalledSince (admit c now q) = (if at_capacity (admit c now q) then Some (opt_or (stalledSince q) now) else None)"
    by (auto simp: admit_def Let_def stalled_updateStall split: option.split)
  show "stalledSince (snd (acquire i c now q)) =
           (if at_capacity (snd (acquire i c now q)) then Some (opt_or (stalledSince q) now) else None)"
    using assms adm by (cases "stalledSince q") (auto simp: acquire_eq stalled_updateStall stall_ok_def)
  show "stalledSince (snd (queue_timeout i now q)) =
           (if at_capacity (snd (queue_timeout i now q)) then Some (opt_or (stalledSince q) now) else None)"
    using assms by (cases "stalledSince q") (auto simp: queue_timeout_def stalled_updateStall stall_ok_def)
  have settled: "stalledSince (settle now p) = (if at_capacity (settle now p) then Some now else None)" for p
    using at_capacity_cong [of "settle now p" p] by (simp add: stalled_settle)
  have "\<exists>p. snd (snd (release c now q)) = settle now p"
    by (auto simp: release_def Let_def split: option.split prod.split)
  then show "stalledSince (snd (snd (release c now q))) =
           (if at_capacity (snd (snd (release c now q))) then Some now else None)"
    using settled by auto
qed

theorem stall_stamp_witness:
  "stalledSince (snd (acquire 2 None 7 (new_queue (Some 0) None None None))) = Some 7"
proof -
  let ?q = "new_queue (Some 0) None None None"
  have "stall_ok ?q" by (simp add: stall_ok_def new_queue_def at_capacity_def)
  from stall_stamp [OF this, of 2 None 7]
  have "stalledSince (snd (acquire 2 None 7 ?q)) =
     (if at_capacity (snd (acquire 2 None 7 ?q)) then Some (opt_or (stalledSince ?q) 7) else None)" by (rule conjunct1)
  then show ?thesis
    by (simp add: acquire_eq new_queue_def DEFAULT_MAX_QUEUED_def at_capacity_def)
qed

text \<open>The waiters let in by a run, in the order they are let in.\<close>

fun let_in :: "queue_op list \<Rightarrow> request_queue \<Rightarrow> queue_entry list" where
  "let_in [] q = []"
| "let_in (Q_acquire i c now # ops) q = let_in ops (snd (acquire i c now q))"
| "let_in (Q_timeout i now # ops) q = let_in ops (snd (queue_timeout i now q))"
| "let_in (Q_release c now # ops) q =
     (let (res, _, q') = release c now q in (case res of None \<Rightarrow> [] | Some e \<Rightarrow> [e]) @ let_in ops q')"

fun releases :: "queue_op list \<Rightarrow> nat" where
  "releases [] = 0"
| "releases (Q_release c now # ops) = Suc (releases ops)"
| "releases (_ # ops) = releases ops"

lemma acquire_queue:
  "rq_queue (snd (acquire i c now q)) = rq_queue q \<or> (\<exists>e. rq_queue (snd (acquire i c now q)) = rq_queue q @ [e])"
  "maxConcurrentPerConsumer (snd (acquire i c now q)) = maxConcurrentPerConsumer q"
  by (auto simp: acquire_eq)

lemma release_config: "maxConcurrentPerConsumer (snd (snd (release c now q))) = maxConcurrentPerConsumer q"
  by (simp add: release_def Let_def split_def split: option.split)

lemma uncapped_free: "maxConcurrentPerConsumer q \<le> 0 \<Longrightarrow> underCap (free_slot c q) d"
  by (simp add: underCap_def split: option.split)

lemma release_uncapped:
  assumes "maxConcurrentPerConsumer q \<le> 0" and "release c now q = (res, info, q')"
  shows "rq_queue q = (case res of None \<Rightarrow> [] | Some e \<Rightarrow> [e]) @ rq_queue q'"
proof -
  note u = uncapped_free [OF assms(1), of c]
  show ?thesis
  proof (cases res)
    case None
    then have "rq_queue q' = rq_queue q" "\<forall>e \<in> set (rq_queue q). False"
      using release_takes [OF assms(2)] u by auto
    then show ?thesis using None by simp
  next
    case (Some e)
    then obtain pre post where p: "rq_queue q = pre @ e # post" "rq_queue q' = pre @ post"
      and "\<forall>x \<in> set pre. False"
      using release_takes [OF assms(2)] u by auto
    then have "pre = []" by simp
    then show ?thesis using Some p by simp
  qed
qed

lemma let_in_prefix:
  assumes "maxConcurrentPerConsumer q \<le> 0" and "\<forall>i now. Q_timeout i now \<notin> set ops"
  shows "\<exists>rest. let_in ops q = take (releases ops) (rq_queue q) @ rest"
  using assms
proof (induction ops q rule: let_in.induct)
  case (1 q)
  then show ?case by simp
next
  case (2 i c now ops q)
  then obtain rest where r: "let_in ops (snd (acquire i c now q)) = take (releases ops) (rq_queue (snd (acquire i c now q))) @ rest"
    by (auto simp: acquire_queue)
  then show ?case using acquire_queue(1) [of i c now q] by (auto simp: take_append)
next
  case (3 i now ops q)
  then show ?case by auto
next
  case (4 c now ops q)
  obtain res info q' where r: "release c now q = (res, info, q')" by (metis prod_cases3)
  have cap: "maxConcurrentPerConsumer q' \<le> 0" using release_config [of c now q] r 4(2) by simp
  obtain rest where IH: "let_in ops q' = take (releases ops) (rq_queue q') @ rest"
    using 4(1) [OF r [symmetric] refl refl cap] 4(3) by auto
  show ?case
  proof (cases res)
    case None
    with release_uncapped [OF 4(2) r] have "rq_queue q = rq_queue q'" by simp
    moreover from release_takes [OF r] None uncapped_free [OF 4(2), of c]
    have "\<forall>e \<in> set (rq_queue q). False" by simp
    ultimately show ?thesis by simp
  next
    case (Some e)
    with release_uncapped [OF 4(2) r] have "rq_queue q = e # rq_queue q'" by simp
    with Some IH r show ?thesis by simp
  qed
qed

text \<open>
  Everyone who waits gets in. With no per-consumer cap, once as many requests have been released
  as were waiting, everyone who was waiting has been let in, in the order they arrived and before
  anyone who arrived later, provided no wait timed out.
\<close>

theorem waiters_get_in:
  assumes "maxConcurrentPerConsumer q \<le> 0" and "\<forall>i now. Q_timeout i now \<notin> set ops"
    and "length (rq_queue q) \<le> releases ops"
  shows "take (length (rq_queue q)) (let_in ops q) = rq_queue q"
  using let_in_prefix [OF assms(1,2)] assms(3) by auto

theorem waiters_get_in_witness:
  "take 1 (let_in [Q_acquire 2 None 6, Q_release None 7]
     ((new_queue (Some 1) None None None)\<lparr>active := 1,
        rq_queue := [\<lparr>qe_id = 1, qe_enqueuedAt = 0, qe_consumer = None, qe_gate = Gate_global\<rparr>]\<rparr>))
   = [\<lparr>qe_id = 1, qe_enqueuedAt = 0, qe_consumer = None, qe_gate = Gate_global\<rparr>]"
proof -
  let ?q = "(new_queue (Some 1) None None None)\<lparr>active := 1,
        rq_queue := [\<lparr>qe_id = 1, qe_enqueuedAt = 0, qe_consumer = None, qe_gate = Gate_global\<rparr>]\<rparr>"
  have "maxConcurrentPerConsumer ?q \<le> 0" by (simp add: new_queue_def)
  from waiters_get_in [OF this, of "[Q_acquire 2 None 6, Q_release None 7]"] show ?thesis
    by (simp del: let_in.simps)
qed

end
