(* ===== verification/Pricing.thy ===== *)
theory Pricing
  imports Js_Text
begin

text \<open>
  Billing claims and prices (\<open>src/analytics.ts\<close>): which bucket a claim is billed to, the published
  price lists, what a model id is priced as, and what tokens cost. No entry of the lists carries an
  introductory rate, so \<open>intro\<close> has no value here and the time of a request does not change its
  price. \<open>PRICING[id]\<close> is a lookup in the list (ids inherited from \<open>Object.prototype\<close>, such as
  \<open>constructor\<close>, are outside the model).
\<close>

section \<open>Billing claims\<close>

datatype billing_bucket = Subscription | Subscription_fallback | Extra_usage | Api | Credits | Unknown_bucket

definition CREDITS_CLAIM :: string where "CREDITS_CLAIM = ''anthropic_credits''"
definition CODEX_CLAIM :: string where "CODEX_CLAIM = ''chatgpt_subscription''"
definition NO_BILLING_CLAIM :: string where "NO_BILLING_CLAIM = ''unknown''"

definition billingBucketFromClaim :: "string option \<Rightarrow> billing_bucket" where
  "billingBucketFromClaim claim =
     (case claim of
        None \<Rightarrow> Unknown_bucket
      | Some c \<Rightarrow>
          (if c \<in> set [''five_hour'', ''seven_day'', ''five_hour_overage_included'',
                       ''seven_day_overage_included'', ''chatgpt_subscription''] then Subscription
           else if c \<in> set [''five_hour_fallback'', ''seven_day_fallback''] then Subscription_fallback
           else if c = ''overage'' then Extra_usage
           else if c = ''api'' then Api
           else if c = CREDITS_CLAIM then Credits
           else Unknown_bucket))"

definition SUBSCRIPTION_CLAIMS :: "string list" where
  "SUBSCRIPTION_CLAIMS =
     [''five_hour'', ''seven_day'', ''five_hour_fallback'', ''seven_day_fallback'',
      ''five_hour_overage_included'', ''seven_day_overage_included'', ''chatgpt_subscription'']"

definition isNonSubscriptionBilling :: "string option \<Rightarrow> bool" where
  "isNonSubscriptionBilling claim \<longleftrightarrow>
     (case truthy claim of
        None \<Rightarrow> False
      | Some c \<Rightarrow> (if c = NO_BILLING_CLAIM then False
                   else if c = CREDITS_CLAIM then False
                   else c \<notin> set SUBSCRIPTION_CLAIMS))"

section \<open>Price lists\<close>

record rate =
  r_input :: ratio
  r_output :: ratio
  r_cacheRead :: ratio
  r_cacheCreate :: ratio

definition mk_rate :: "ratio \<Rightarrow> ratio \<Rightarrow> ratio \<Rightarrow> ratio \<Rightarrow> rate" where
  "mk_rate i out cr cc = \<lparr>r_input = i, r_output = out, r_cacheRead = cr, r_cacheCreate = cc\<rparr>"

definition PRICING :: "(string, rate) jsmap" where
  "PRICING =
     [(''claude-fable-5'', mk_rate 10 50 1 (25/2)),
      (''claude-opus-5'', mk_rate 5 25 (1/2) (25/4)),
      (''claude-opus-5-5'', mk_rate 4 20 (1/5) 5),
      (''claude-opus-4-8'', mk_rate 5 25 (1/2) (25/4)),
      (''claude-opus-4-7'', mk_rate 5 25 (1/2) (25/4)),
      (''claude-opus-4-6'', mk_rate 5 25 (1/2) (25/4)),
      (''claude-sonnet-5'', mk_rate 2 10 (1/5) (5/2)),
      (''claude-sonnet-4-6'', mk_rate 3 15 (3/10) (15/4)),
      (''claude-haiku-4-5'', mk_rate 1 5 (1/10) (5/4))]"

definition OPENAI_PRICING :: "(string, rate) jsmap" where
  "OPENAI_PRICING =
     [(''gpt-6-astra'', mk_rate 10 50 1 (25/2)),
      (''gpt-6-sol'', mk_rate 2 10 (1/5) (5/2)),
      (''gpt-6-luna'', mk_rate (1/10) (1/2) (1/100) (1/8)),
      (''gpt-5.6-sol'', mk_rate 4 20 (2/5) 5),
      (''gpt-5.6-terra'', mk_rate 2 12 (1/5) (5/2)),
      (''gpt-5.6-luna'', mk_rate (1/5) (6/5) (1/50) (1/4)),
      (''gpt-5.5'', mk_rate 5 30 (1/2) 5),
      (''gpt-5.4'', mk_rate (5/2) 15 (1/4) (5/2)),
      (''gpt-5.4-mini'', mk_rate (3/4) (9/2) (3/40) (3/4)),
      (''gpt-5.4-nano'', mk_rate (1/5) (5/4) (1/50) (1/5))]"

definition OPENAI_FALLBACK_MODEL :: string where
  "OPENAI_FALLBACK_MODEL = ''gpt-5.6-terra''"

definition is_alpha :: "char \<Rightarrow> bool" where
  "is_alpha c \<longleftrightarrow> is_upper c \<or> is_lower c"

text \<open>\<open>/\[[^[\]]*\]$/\<close>, \<open>/:[a-z]+$/i\<close> and \<open>/-\d{8}$/\<close>, each removed at the end of the string.\<close>

definition strip_tag :: "string \<Rightarrow> string" where
  "strip_tag s =
     (case rev s of
        [] \<Rightarrow> s
      | c # rs \<Rightarrow>
          (if c = CHR '']'' then
             (case dropWhile (\<lambda>x. x \<noteq> CHR ''['' \<and> x \<noteq> CHR '']'') rs of
                [] \<Rightarrow> s
              | d # ds \<Rightarrow> (if d = CHR ''['' then rev ds else s))
           else s))"

definition strip_effort :: "string \<Rightarrow> string" where
  "strip_effort s =
     (if takeWhile is_alpha (rev s) = [] then s
      else (case dropWhile is_alpha (rev s) of
              [] \<Rightarrow> s
            | d # ds \<Rightarrow> (if d = CHR '':'' then rev ds else s)))"

definition strip_date :: "string \<Rightarrow> string" where
  "strip_date s =
     (let t = take_last 9 s
      in if length t = 9 \<and> hd t = CHR ''-'' \<and> list_all is_digit (tl t) then drop_last 9 s else s)"

definition pricingBaseModel :: "string \<Rightarrow> string" where
  "pricingBaseModel model = strip_date (strip_effort (strip_tag model))"

datatype pricing_provider = Anthropic | Openai

definition providerOfModel :: "string \<Rightarrow> pricing_provider" where
  "providerOfModel model =
     (let m = to_lower model
      in if starts_with m ''gpt-'' \<or> (starts_with m ''o'' \<and> length m > 1 \<and> is_digit (m ! 1))
            \<or> starts_with m ''codex'' \<or> starts_with m ''chatgpt''
         then Openai else Anthropic)"

definition pricingRateFor :: "string \<Rightarrow> ms \<Rightarrow> rate" where
  "pricingRateFor model atMs =
     (let baseModel = pricingBaseModel model
      in case providerOfModel baseModel of
           Openai \<Rightarrow> (case map_of OPENAI_PRICING baseModel of
                        Some r \<Rightarrow> r | None \<Rightarrow> the (map_of OPENAI_PRICING OPENAI_FALLBACK_MODEL))
         | Anthropic \<Rightarrow> (case map_of PRICING baseModel of
                        Some r \<Rightarrow> r | None \<Rightarrow> the (map_of PRICING ''claude-sonnet-4-6'')))"

definition hasPublishedRate :: "string \<Rightarrow> bool" where
  "hasPublishedRate model \<longleftrightarrow>
     (let base = pricingBaseModel model
      in map_of PRICING base \<noteq> None \<or> map_of OPENAI_PRICING base \<noteq> None)"

definition all_rates :: "rate list" where
  "all_rates = values_of OPENAI_PRICING @ values_of PRICING"

definition highest_of :: "(rate \<Rightarrow> ratio) \<Rightarrow> ratio" where
  "highest_of f = (case map f all_rates of [] \<Rightarrow> 0 | x # xs \<Rightarrow> max_of x xs)"

definition highestPublishedRate :: rate where
  "highestPublishedRate =
     mk_rate (highest_of r_input) (highest_of r_output) (highest_of r_cacheRead) (highest_of r_cacheCreate)"

record token_cell =
  inputTokens :: ratio
  outputTokens :: ratio
  cacheReadTokens :: ratio
  cacheCreateTokens :: ratio

definition price_at :: "rate \<Rightarrow> token_cell \<Rightarrow> ratio" where
  "price_at p t =
     (inputTokens t * r_input p + outputTokens t * r_output p
      + cacheReadTokens t * r_cacheRead p + cacheCreateTokens t * r_cacheCreate p) / 1000000"

definition costOfTokens :: "string \<Rightarrow> ms \<Rightarrow> token_cell \<Rightarrow> ratio" where
  "costOfTokens model atMs t = price_at (pricingRateFor model atMs) t"

definition costOfTokensFailClosed :: "string \<Rightarrow> ms \<Rightarrow> token_cell \<Rightarrow> ratio" where
  "costOfTokensFailClosed model atMs t =
     (let i = to_lower model
      in if hasPublishedRate i then costOfTokens i atMs t else price_at highestPublishedRate t)"

section \<open>Lemmas\<close>

text \<open>A cache write is the dearest way to send a prompt token, in every row and in the bound.\<close>

definition rate_wf :: "rate \<Rightarrow> bool" where
  "rate_wf r \<longleftrightarrow> 0 \<le> r_input r \<and> 0 \<le> r_output r \<and> 0 \<le> r_cacheRead r
                 \<and> r_input r \<le> r_cacheCreate r \<and> r_cacheRead r \<le> r_cacheCreate r"

lemma all_rates_wf: "r \<in> set all_rates \<Longrightarrow> rate_wf r"
  by (auto simp: all_rates_def OPENAI_PRICING_def PRICING_def rate_wf_def mk_rate_def)

lemma highest_value: "highestPublishedRate = mk_rate 10 50 1 (25/2)"
  by (simp add: highestPublishedRate_def highest_of_def all_rates_def OPENAI_PRICING_def PRICING_def mk_rate_def max_def)

lemma rate_in_lists: "pricingRateFor m at_ms \<in> set all_rates"
proof -
  have "map_of OPENAI_PRICING OPENAI_FALLBACK_MODEL = Some (mk_rate 2 12 (1/5) (5/2))"
    "map_of PRICING ''claude-sonnet-4-6'' = Some (mk_rate 3 15 (3/10) (15/4))"
    by (simp_all add: OPENAI_PRICING_def PRICING_def OPENAI_FALLBACK_MODEL_def)
  then show ?thesis
    by (auto simp: pricingRateFor_def all_rates_def Let_def dest!: map_of_SomeD split: pricing_provider.splits option.splits
        intro: rev_image_eqI)
qed

lemma below_highest:
  assumes "r \<in> set all_rates"
  shows "r_input r \<le> 10" "r_output r \<le> 50" "r_cacheRead r \<le> 1" "r_cacheCreate r \<le> 25/2"
  using assms by (auto simp: all_rates_def OPENAI_PRICING_def PRICING_def mk_rate_def)

definition cell_nonneg :: "token_cell \<Rightarrow> bool" where
  "cell_nonneg t \<longleftrightarrow> 0 \<le> inputTokens t \<and> 0 \<le> outputTokens t \<and> 0 \<le> cacheReadTokens t \<and> 0 \<le> cacheCreateTokens t"

text \<open>Any mix of prompt tokens costs at most the same number written to the cache.\<close>

lemma price_at_prompt_bound:
  assumes "rate_wf r" and "cell_nonneg t"
    and "inputTokens t + cacheReadTokens t + cacheCreateTokens t \<le> p" and "outputTokens t \<le> out"
  shows "price_at r t \<le> price_at r \<lparr>inputTokens = 0, outputTokens = out, cacheReadTokens = 0, cacheCreateTokens = p\<rparr>"
proof -
  have a: "inputTokens t * r_input r \<le> inputTokens t * r_cacheCreate r"
    "cacheReadTokens t * r_cacheRead r \<le> cacheReadTokens t * r_cacheCreate r"
    "outputTokens t * r_output r \<le> out * r_output r"
    using assms by (auto simp: rate_wf_def cell_nonneg_def intro: mult_left_mono mult_right_mono)
  have "0 \<le> r_cacheCreate r" using assms(1) by (auto simp: rate_wf_def)
  then have "(inputTokens t + cacheReadTokens t + cacheCreateTokens t) * r_cacheCreate r \<le> p * r_cacheCreate r"
    using assms(3) by (rule mult_right_mono [rotated])
  then show ?thesis using a by (simp add: price_at_def algebra_simps divide_right_mono)
qed

lemma price_at_below_highest:
  assumes "r \<in> set all_rates" and "cell_nonneg t"
  shows "price_at r t \<le> price_at highestPublishedRate t"
proof -
  have n: "0 \<le> inputTokens t" "0 \<le> outputTokens t" "0 \<le> cacheReadTokens t" "0 \<le> cacheCreateTokens t"
    using assms(2) by (simp_all add: cell_nonneg_def)
  note b = below_highest [OF assms(1)]
  have "inputTokens t * r_input r \<le> inputTokens t * 10" "outputTokens t * r_output r \<le> outputTokens t * 50"
    "cacheReadTokens t * r_cacheRead r \<le> cacheReadTokens t * 1" "cacheCreateTokens t * r_cacheCreate r \<le> cacheCreateTokens t * (25/2)"
    by (rule mult_left_mono [OF b(1) n(1)] mult_left_mono [OF b(2) n(2)]
             mult_left_mono [OF b(3) n(3)] mult_left_mono [OF b(4) n(4)])+
  then show ?thesis by (simp add: highest_value price_at_def mk_rate_def)
qed

lemma fail_closed_upper:
  assumes "cell_nonneg t"
  shows "costOfTokens (to_lower m) at_ms t \<le> costOfTokensFailClosed m at_ms t"
  using price_at_below_highest [OF rate_in_lists assms]
  by (auto simp: costOfTokensFailClosed_def costOfTokens_def Let_def)

end
