(* ===== verification/Key_Budget.thy ===== *)
theory Key_Budget
  imports Pricing "HOL-Library.Multiset"
begin

text \<open>
  A named key's daily budget (\<open>src/keys.ts\<close>) and how the proxy enforces it (\<open>src/proxy.ts\<close>): a
  request is admitted while what the ledger has counted today plus what is reserved for requests in
  flight is under the cap, is held at an upper bound of its cost until the ledger has it, and gives
  the reservation back when it is done. Dollar amounts are rationals; the source's are doubles.
\<close>

section \<open>Budgets\<close>

record key_budget =
  usdPerDay :: "ratio option"
  tokensPerDay :: "ratio option"

datatype budget_error = Usd_not_positive | Tokens_not_positive

definition normalizeBudget :: "key_budget option \<Rightarrow> budget_error + key_budget option" where
  "normalizeBudget b =
     (case b of
        None \<Rightarrow> Inr None
      | Some b \<Rightarrow>
          (if (case usdPerDay b of None \<Rightarrow> False | Some u \<Rightarrow> u \<le> 0) then Inl Usd_not_positive
           else if (case tokensPerDay b of None \<Rightarrow> False | Some t \<Rightarrow> t \<le> 0) then Inl Tokens_not_positive
           else let u = map_option (\<lambda>u. of_int (js_round (u * 100)) / 100) (usdPerDay b);
                    t = map_option (\<lambda>t. of_int (js_round t)) (tokensPerDay b)
                in Inr (if u = None \<and> t = None then None else Some \<lparr>usdPerDay = u, tokensPerDay = t\<rparr>)))"

record key_usage =
  u_usd :: ratio
  u_tokens :: ratio
  u_requests :: int

record reservation =
  rv_count :: int
  rv_usd :: ratio
  rv_tokens :: ratio

definition EMPTY_RESERVATION :: reservation where
  "EMPTY_RESERVATION = \<lparr>rv_count = 0, rv_usd = 0, rv_tokens = 0\<rparr>"

definition BUDGET_BYTES_PER_TOKEN :: ratio where "BUDGET_BYTES_PER_TOKEN = 3"
definition BUDGET_DEFAULT_MAX_TOKENS :: ratio where "BUDGET_DEFAULT_MAX_TOKENS = 8192"

definition reserved_output :: "jsnum option \<Rightarrow> ratio" where
  "reserved_output maxTokens =
     (case maxTokens of
        Some (Fin n) \<Rightarrow> (if n > 0 then of_int \<lceil>n\<rceil> else BUDGET_DEFAULT_MAX_TOKENS)
      | _ \<Rightarrow> BUDGET_DEFAULT_MAX_TOKENS)"

definition reserved_input :: "ratio \<Rightarrow> ratio \<Rightarrow> ratio" where
  "reserved_input bodyBytes extraPromptBytes =
     of_int \<lceil>(max 0 bodyBytes + max 0 extraPromptBytes) / BUDGET_BYTES_PER_TOKEN\<rceil>"

text \<open>One model is the list of it; an empty list is the list of the empty id.\<close>

definition requestBudgetReservation ::
  "string list \<Rightarrow> ratio \<Rightarrow> jsnum option \<Rightarrow> (string \<Rightarrow> ms \<Rightarrow> token_cell \<Rightarrow> ratio) \<Rightarrow> ms \<Rightarrow> ratio \<Rightarrow> reservation" where
  "requestBudgetReservation models bodyBytes maxTokens priceOf now extraPromptBytes =
     (let inp = reserved_input bodyBytes extraPromptBytes;
          out = reserved_output maxTokens;
          cell = \<lparr>inputTokens = 0, outputTokens = out, cacheReadTokens = 0, cacheCreateTokens = inp\<rparr>;
          usd = (case models of
                   [] \<Rightarrow> priceOf [] now cell
                 | m # ms \<Rightarrow> max_of (priceOf m now cell) (map (\<lambda>m. priceOf m now cell) ms))
      in \<lparr>rv_count = 1, rv_usd = usd, rv_tokens = inp + out\<rparr>)"

definition addReservation :: "reservation \<Rightarrow> reservation \<Rightarrow> reservation" where
  "addReservation a b =
     \<lparr>rv_count = rv_count a + rv_count b, rv_usd = rv_usd a + rv_usd b, rv_tokens = rv_tokens a + rv_tokens b\<rparr>"

definition subtractReservation :: "reservation \<Rightarrow> reservation \<Rightarrow> reservation" where
  "subtractReservation a b =
     (let count = max 0 (rv_count a - rv_count b)
      in if count = 0 then EMPTY_RESERVATION
         else \<lparr>rv_count = count, rv_usd = max 0 (rv_usd a - rv_usd b), rv_tokens = max 0 (rv_tokens a - rv_tokens b)\<rparr>)"

text \<open>\<open>Date.UTC(year, month, day + 1)\<close> of a UTC date: the next multiple of a day.\<close>

definition nextUtcMidnight :: "ms \<Rightarrow> ms" where
  "nextUtcMidnight now = (now div 86400000 + 1) * 86400000"

datatype budget_reason = Over_usd | Over_tokens

record budget_verdict =
  bv_reason :: "budget_reason option"
  bv_projected :: key_usage
  bv_resetAt :: ms
  bv_retryAfterSec :: int

definition bv_over :: "budget_verdict \<Rightarrow> bool" where
  "bv_over v \<longleftrightarrow> bv_reason v \<noteq> None"

definition budgetVerdict :: "key_budget \<Rightarrow> key_usage \<Rightarrow> ms \<Rightarrow> reservation \<Rightarrow> budget_verdict" where
  "budgetVerdict budget usage now inflight =
     (let resetAt = nextUtcMidnight now;
          projected = \<lparr>u_usd = u_usd usage + rv_usd inflight, u_tokens = u_tokens usage + rv_tokens inflight,
                       u_requests = u_requests usage + rv_count inflight\<rparr>;
          reason = (if (case usdPerDay budget of None \<Rightarrow> False | Some c \<Rightarrow> u_usd projected \<ge> c) then Some Over_usd
                    else if (case tokensPerDay budget of None \<Rightarrow> False | Some c \<Rightarrow> u_tokens projected \<ge> c) then Some Over_tokens
                    else None)
      in \<lparr>bv_reason = reason, bv_projected = projected, bv_resetAt = resetAt,
          bv_retryAfterSec = max 1 \<lceil>(of_int (resetAt - now) :: rat) / 1000\<rceil>\<rparr>)"

text \<open>
  The reservation is an upper bound. Whatever mix of input, cache-read and cache-write tokens
  the prompt turns out to be, as long as it fits the reserved bytes and the output fits the reserved
  maximum, the request costs no more than what was reserved for the model it was billed as, and
  uses no more tokens, whichever of the candidate models that was.
\<close>

theorem reservation_covers_cost:
  assumes "m \<in> set models" and "cell_nonneg t"
    and "inputTokens t + cacheReadTokens t + cacheCreateTokens t \<le> reserved_input bodyBytes extra"
    and "outputTokens t \<le> reserved_output maxTokens"
  shows "let r = requestBudgetReservation models bodyBytes maxTokens costOfTokensFailClosed now extra
         in costOfTokens (to_lower m) billed_at t \<le> rv_usd r
            \<and> inputTokens t + cacheReadTokens t + cacheCreateTokens t + outputTokens t \<le> rv_tokens r"
proof -
  let ?p = "reserved_input bodyBytes extra" and ?o = "reserved_output maxTokens"
  let ?cell = "\<lparr>inputTokens = 0, outputTokens = ?o, cacheReadTokens = 0, cacheCreateTokens = ?p\<rparr>"
  let ?r = "requestBudgetReservation models bodyBytes maxTokens costOfTokensFailClosed now extra"
  have n: "0 \<le> ?p" "0 \<le> ?o" using assms(2-4) by (auto simp: cell_nonneg_def)
  then have cn: "cell_nonneg ?cell" by (simp add: cell_nonneg_def)
  have "costOfTokens (to_lower m) billed_at t \<le> costOfTokens (to_lower m) billed_at ?cell"
    unfolding costOfTokens_def
    by (rule price_at_prompt_bound [OF all_rates_wf [OF rate_in_lists] assms(2-4)])
  also have "\<dots> = costOfTokens (to_lower m) now ?cell" by (simp add: costOfTokens_def pricingRateFor_def)
  also have "\<dots> \<le> costOfTokensFailClosed m now ?cell" by (rule fail_closed_upper [OF cn])
  also have "\<dots> \<le> rv_usd ?r"
  proof (cases models)
    case Nil
    then show ?thesis using assms(1) by simp
  next
    case (Cons x xs)
    then have "costOfTokensFailClosed m now ?cell
        \<in> insert (costOfTokensFailClosed x now ?cell) (set (map (\<lambda>m. costOfTokensFailClosed m now ?cell) xs))"
      using assms(1) by auto
    from max_of_upper [OF this] Cons show ?thesis by (simp add: requestBudgetReservation_def Let_def)
  qed
  finally have usd: "costOfTokens (to_lower m) billed_at t \<le> rv_usd ?r" .
  have "rv_tokens ?r = ?p + ?o" by (simp add: requestBudgetReservation_def Let_def)
  then show ?thesis using usd assms(3,4) by (simp add: Let_def)
qed

theorem reservation_covers_cost_witness:
  "costOfTokens ''claude-opus-5'' 0 \<lparr>inputTokens = 100, outputTokens = 50, cacheReadTokens = 200, cacheCreateTokens = 0\<rparr>
     \<le> rv_usd (requestBudgetReservation [''Claude-Opus-5''] 900 (Some (Fin 64)) costOfTokensFailClosed 0 0)"
proof -
  have "to_lower ''Claude-Opus-5'' = ''claude-opus-5''" by code_simp
  then show ?thesis
    using reservation_covers_cost [of "''Claude-Opus-5''" "[''Claude-Opus-5'']"
        "\<lparr>inputTokens = 100, outputTokens = 50, cacheReadTokens = 200, cacheCreateTokens = 0\<rparr>" 900 0 "Some (Fin 64)" 0 0]
    by (simp add: cell_nonneg_def reserved_input_def reserved_output_def BUDGET_BYTES_PER_TOKEN_def Let_def)
qed

section \<open>Enforcement\<close>

text \<open>
  One key on one UTC day: what the ledger has, the reservation the proxy keeps for it, and, beside
  the state, the requests in flight, each with its reservation and whether the ledger has it yet.
\<close>

record budget_day =
  bd_usage :: key_usage
  bd_inflight :: reservation
  bd_open :: "(reservation \<times> bool) multiset"

definition new_budget_day :: budget_day where
  "new_budget_day = \<lparr>bd_usage = \<lparr>u_usd = 0, u_tokens = 0, u_requests = 0\<rparr>,
                     bd_inflight = EMPTY_RESERVATION, bd_open = {#}\<rparr>"

datatype budget_op =
    B_arrive ms reservation
  | B_ledger reservation ratio ratio
  | B_finish reservation bool

definition admit_request :: "key_budget \<Rightarrow> ms \<Rightarrow> reservation \<Rightarrow> budget_day \<Rightarrow> budget_day" where
  "admit_request b now r d =
     (if bv_over (budgetVerdict b (bd_usage d) now (bd_inflight d)) then d
      else d\<lparr>bd_inflight := addReservation (bd_inflight d) r, bd_open := add_mset (r, False) (bd_open d)\<rparr>)"

definition finish_request :: "reservation \<Rightarrow> bool \<Rightarrow> budget_day \<Rightarrow> budget_day" where
  "finish_request r rec d =
     d\<lparr>bd_inflight := (let left = subtractReservation (bd_inflight d) r
                      in if rv_count left > 0 then left else EMPTY_RESERVATION),
       bd_open := bd_open d - {#(r, rec)#}\<rparr>"

fun budget_step :: "key_budget \<Rightarrow> budget_op \<Rightarrow> budget_day \<Rightarrow> budget_day" where
  "budget_step b (B_arrive now r) d = admit_request b now r d"
| "budget_step b (B_ledger r usd tokens) d =
     d\<lparr>bd_usage := \<lparr>u_usd = u_usd (bd_usage d) + usd, u_tokens = u_tokens (bd_usage d) + tokens,
                    u_requests = u_requests (bd_usage d) + 1\<rparr>,
       bd_open := add_mset (r, True) (bd_open d - {#(r, False)#})\<rparr>"
| "budget_step b (B_finish r rec) d = finish_request r rec d"

text \<open>\<open>U\<close> and \<open>T\<close> bound what one request reserves; the ledger counts at most the reservation.\<close>

fun budget_op_ok :: "ratio \<Rightarrow> ratio \<Rightarrow> budget_op \<Rightarrow> budget_day \<Rightarrow> bool" where
  "budget_op_ok U T (B_arrive now r) d =
     (rv_count r = 1 \<and> 0 \<le> rv_usd r \<and> rv_usd r \<le> U \<and> 0 \<le> rv_tokens r \<and> rv_tokens r \<le> T)"
| "budget_op_ok U T (B_ledger r usd tokens) d = ((r, False) \<in># bd_open d \<and> usd \<le> rv_usd r \<and> tokens \<le> rv_tokens r)"
| "budget_op_ok U T (B_finish r rec) d = ((r, rec) \<in># bd_open d)"

definition held :: "(reservation \<Rightarrow> ratio) \<Rightarrow> budget_day \<Rightarrow> ratio" where
  "held f d = (\<Sum>x \<in># bd_open d. f (fst x))"

text \<open>What requests the ledger does not have yet may still add.\<close>

definition pending :: "(reservation \<Rightarrow> ratio) \<Rightarrow> budget_day \<Rightarrow> ratio" where
  "pending f d = (\<Sum>x \<in># bd_open d. if snd x then 0 else f (fst x))"

definition open_ok :: "budget_day \<Rightarrow> bool" where
  "open_ok d \<longleftrightarrow> (\<forall>x \<in># bd_open d. rv_count (fst x) = 1 \<and> 0 \<le> rv_usd (fst x) \<and> 0 \<le> rv_tokens (fst x))"

definition under_cap :: "ratio option \<Rightarrow> ratio \<Rightarrow> ratio \<Rightarrow> bool" where
  "under_cap cap used slack \<longleftrightarrow> (case cap of None \<Rightarrow> True | Some c \<Rightarrow> used < c + slack)"

definition budget_inv :: "key_budget \<Rightarrow> ratio \<Rightarrow> ratio \<Rightarrow> budget_day \<Rightarrow> bool" where
  "budget_inv b U T d \<longleftrightarrow>
     open_ok d
     \<and> rv_count (bd_inflight d) = int (size (bd_open d))
     \<and> rv_usd (bd_inflight d) = held rv_usd d \<and> rv_tokens (bd_inflight d) = held rv_tokens d
     \<and> under_cap (usdPerDay b) (u_usd (bd_usage d) + pending rv_usd d) U
     \<and> under_cap (tokensPerDay b) (u_tokens (bd_usage d) + pending rv_tokens d) T"

lemma pending_le_held:
  assumes "\<forall>x \<in># bd_open d. 0 \<le> f (fst x)"
  shows "pending f d \<le> held f d"
  unfolding pending_def held_def by (rule sum_mset_mono) (use assms in auto)

lemma held_nonneg:
  assumes "\<forall>x \<in># M. 0 \<le> f (fst x)"
  shows "0 \<le> (\<Sum>x \<in># M. f (fst x) :: rat)"
  using assms by (induction M) auto

lemma budget_new:
  assumes "\<And>c. usdPerDay b = Some c \<Longrightarrow> 0 < c" and "\<And>c. tokensPerDay b = Some c \<Longrightarrow> 0 < c"
    and "0 \<le> U" and "0 \<le> T"
  shows "budget_inv b U T new_budget_day"
  using assms by (auto simp: budget_inv_def new_budget_day_def open_ok_def EMPTY_RESERVATION_def held_def pending_def
      under_cap_def intro: add_pos_nonneg split: option.split)

lemma not_over_under:
  assumes "\<not> bv_over (budgetVerdict b u now r)"
  shows "under_cap (usdPerDay b) (u_usd u + rv_usd r) 0" and "under_cap (tokensPerDay b) (u_tokens u + rv_tokens r) 0"
  using assms by (auto simp: bv_over_def budgetVerdict_def under_cap_def Let_def not_le split: option.splits if_splits)

lemma under_cap_le: "under_cap cap x s \<Longrightarrow> y - s' \<le> x - s \<Longrightarrow> under_cap cap y s'"
  by (auto simp: under_cap_def split: option.splits)

lemma inv_admit:
  assumes "budget_inv b U T d" and "budget_op_ok U T (B_arrive now r) d"
  shows "budget_inv b U T (admit_request b now r d)"
proof (cases "bv_over (budgetVerdict b (bd_usage d) now (bd_inflight d))")
  case True
  then show ?thesis using assms(1) by (simp add: admit_request_def)
next
  case False
  let ?d = "d\<lparr>bd_inflight := addReservation (bd_inflight d) r, bd_open := add_mset (r, False) (bd_open d)\<rparr>"
  note i = assms(1) [unfolded budget_inv_def]
  have le: "pending rv_usd d \<le> held rv_usd d" "pending rv_tokens d \<le> held rv_tokens d"
    using i by (auto simp: open_ok_def intro: pending_le_held)
  have p: "pending f ?d = f r + pending f d" "held f ?d = f r + held f d" for f
    by (simp_all add: pending_def held_def)
  have "under_cap (usdPerDay b) (u_usd (bd_usage d) + pending rv_usd ?d) U"
    using not_over_under(1) [OF False] by (rule under_cap_le) (use i le assms(2) p in simp)
  moreover have "under_cap (tokensPerDay b) (u_tokens (bd_usage d) + pending rv_tokens ?d) T"
    using not_over_under(2) [OF False] by (rule under_cap_le) (use i le assms(2) p in simp)
  ultimately show ?thesis using False i assms(2) p
    by (simp add: admit_request_def budget_inv_def addReservation_def open_ok_def)
qed

lemma inv_ledger:
  assumes "budget_inv b U T d" and "budget_op_ok U T (B_ledger r usd tokens) d"
  shows "budget_inv b U T (budget_step b (B_ledger r usd tokens) d)"
proof -
  obtain M where M: "bd_open d = add_mset (r, False) M" using assms(2) by (auto dest: multi_member_split)
  note i = assms(1) [unfolded budget_inv_def]
  have "under_cap (usdPerDay b) (u_usd (bd_usage d) + usd + (pending rv_usd d - rv_usd r)) U"
    by (rule under_cap_le [where x = "u_usd (bd_usage d) + pending rv_usd d" and s = U]) (use i assms(2) in auto)
  moreover have "under_cap (tokensPerDay b) (u_tokens (bd_usage d) + tokens + (pending rv_tokens d - rv_tokens r)) T"
    by (rule under_cap_le [where x = "u_tokens (bd_usage d) + pending rv_tokens d" and s = T]) (use i assms(2) in auto)
  ultimately show ?thesis using i M
    by (simp add: budget_inv_def open_ok_def held_def pending_def)
qed

lemma inv_finish:
  assumes "budget_inv b U T d" and "(r, rec) \<in># bd_open d"
  shows "budget_inv b U T (finish_request r rec d)"
proof -
  obtain M where M: "bd_open d = add_mset (r, rec) M" using assms(2) by (auto dest: multi_member_split)
  note i = assms(1) [unfolded budget_inv_def]
  have r: "rv_count r = 1" "0 \<le> rv_usd r" "0 \<le> rv_tokens r" using i M by (auto simp: open_ok_def)
  have nn: "0 \<le> (\<Sum>x \<in># M. rv_usd (fst x))" "0 \<le> (\<Sum>x \<in># M. rv_tokens (fst x))"
    using i M by (auto simp: open_ok_def intro!: held_nonneg)
  have infl: "bd_inflight d = \<lparr>rv_count = 1 + int (size M), rv_usd = rv_usd r + (\<Sum>x \<in># M. rv_usd (fst x)),
                rv_tokens = rv_tokens r + (\<Sum>x \<in># M. rv_tokens (fst x))\<rparr>"
    using i M by (intro reservation.equality) (simp_all add: held_def)
  have left: "bd_inflight (finish_request r rec d) =
      \<lparr>rv_count = int (size M), rv_usd = (\<Sum>x \<in># M. rv_usd (fst x)), rv_tokens = (\<Sum>x \<in># M. rv_tokens (fst x))\<rparr>"
    using nn r by (cases "M = {#}")
      (auto simp: finish_request_def infl subtractReservation_def EMPTY_RESERVATION_def Let_def nonempty_has_size)
  have op: "bd_open (finish_request r rec d) = M" "bd_usage (finish_request r rec d) = bd_usage d"
    using M by (simp_all add: finish_request_def)
  have le: "pending rv_usd (finish_request r rec d) \<le> pending rv_usd d"
    "pending rv_tokens (finish_request r rec d) \<le> pending rv_tokens d"
    using r by (simp_all add: pending_def op M)
  show ?thesis unfolding budget_inv_def op left
    using i le M under_cap_le [where s = U and s' = U] under_cap_le [where s = T and s' = T]
    by (auto simp: open_ok_def op held_def intro: under_cap_le)
qed

interpretation budget_machine: inv_machine "budget_step b" "budget_op_ok U T" "budget_inv b U T" for b U T
proof
  fix d e assume "budget_inv b U T d" and "budget_op_ok U T e d"
  then show "budget_inv b U T (budget_step b e d)"
    using inv_admit inv_ledger inv_finish by (cases e) auto
qed

text \<open>
  C35. A burst cannot break the budget. However many requests of a key arrive at once and in whatever
  order they complete, what the ledger counts in a day stays under each cap plus one request's
  reservation, and what is still in flight is inside that same margin.
\<close>

theorem budget_burst_bounded:
  assumes "\<And>c. usdPerDay b = Some c \<Longrightarrow> 0 < c" and "\<And>c. tokensPerDay b = Some c \<Longrightarrow> 0 < c"
    and "0 \<le> U" and "0 \<le> T"
    and "budget_machine.allowed b U T ops new_budget_day"
    and "fold (budget_step b) ops new_budget_day = d"
  shows "(\<forall>c. usdPerDay b = Some c \<longrightarrow> u_usd (bd_usage d) < c + U \<and> u_usd (bd_usage d) + pending rv_usd d < c + U)
       \<and> (\<forall>c. tokensPerDay b = Some c \<longrightarrow> u_tokens (bd_usage d) < c + T \<and> u_tokens (bd_usage d) + pending rv_tokens d < c + T)"
proof -
  have i: "budget_inv b U T d"
    using budget_machine.run_inv [OF budget_new [OF assms(1-4)] assms(5)] assms(6) by simp
  have "0 \<le> pending rv_usd d" "0 \<le> pending rv_tokens d"
  proof -
    have "0 \<le> (\<Sum>x \<in># M. if snd x then 0 else f (fst x))" if "\<forall>x \<in># M. 0 \<le> f (fst x)"
      for M :: "(reservation \<times> bool) multiset" and f :: "reservation \<Rightarrow> ratio"
      using that by (induction M) auto
    then show "0 \<le> pending rv_usd d" "0 \<le> pending rv_tokens d"
      using i by (auto simp: budget_inv_def open_ok_def pending_def)
  qed
  then show ?thesis using i by (auto simp: budget_inv_def under_cap_def)
qed

theorem budget_burst_bounded_witness:
  "u_usd (bd_usage (fold (budget_step \<lparr>usdPerDay = Some 1, tokensPerDay = None\<rparr>)
      [B_arrive 0 \<lparr>rv_count = 1, rv_usd = 2, rv_tokens = 10\<rparr>, B_arrive 0 \<lparr>rv_count = 1, rv_usd = 2, rv_tokens = 10\<rparr>,
       B_ledger \<lparr>rv_count = 1, rv_usd = 2, rv_tokens = 10\<rparr> 2 10] new_budget_day)) < 1 + 2"
proof -
  let ?b = "\<lparr>usdPerDay = Some 1, tokensPerDay = None\<rparr>"
  let ?r = "\<lparr>rv_count = 1, rv_usd = 2, rv_tokens = 10\<rparr>"
  let ?ops = "[B_arrive 0 ?r, B_arrive 0 ?r, B_ledger ?r 2 10]"
  have "budget_machine.allowed ?b 2 10 ?ops new_budget_day"
    by (simp add: admit_request_def budgetVerdict_def bv_over_def new_budget_day_def EMPTY_RESERVATION_def
        addReservation_def Let_def)
  from budget_burst_bounded [OF _ _ _ _ this refl] show ?thesis by simp
qed

text \<open>
  Which budgets survive being stored. Normalising rounds to whole cents and whole tokens; the
  result is one \<open>normalizeBudget\<close> accepts again, as it must when the file is re-read, exactly when the
  dollar cap is at least half a cent and the token cap at least half a token. A positive cap below
  that is accepted and rounded to zero, and the zero is then refused.
\<close>

theorem normalizeBudget_stable_iff:
  assumes "normalizeBudget (Some b) = Inr (Some b')"
  shows "(normalizeBudget (Some b') = Inr (Some b') \<longleftrightarrow>
            (\<forall>u. usdPerDay b = Some u \<longrightarrow> 1/200 \<le> u) \<and> (\<forall>t. tokensPerDay b = Some t \<longrightarrow> 1/2 \<le> t))
         \<and> (\<forall>u. usdPerDay b = Some u \<and> u < 1/200 \<longrightarrow>
              usdPerDay b' = Some 0 \<and> normalizeBudget (Some b') = Inl Usd_not_positive)"
proof -
  have pos: "\<And>u. usdPerDay b = Some u \<Longrightarrow> 0 < u" "\<And>t. tokensPerDay b = Some t \<Longrightarrow> 0 < t"
    using assms by (auto simp: normalizeBudget_def Let_def split: option.splits if_splits)
  have b': "usdPerDay b' = map_option (\<lambda>u. of_int (js_round (u * 100)) / 100) (usdPerDay b)"
    "tokensPerDay b' = map_option (\<lambda>t. of_int (js_round t)) (tokensPerDay b)"
    using assms by (auto simp: normalizeBudget_def Let_def split: if_splits)
  have r: "js_round x \<le> 0 \<longleftrightarrow> x < 1/2" for x :: rat unfolding js_round_def by linarith
  have z: "0 \<le> x \<Longrightarrow> x < 1/2 \<Longrightarrow> js_round x = 0" for x :: rat unfolding js_round_def by linarith
  have half: "x * 100 < 1/2 \<longleftrightarrow> x < 1/200" for x :: rat by linarith
  obtain mu mt where s: "b' = \<lparr>usdPerDay = mu, tokensPerDay = mt\<rparr>" by (cases b') auto
  have ne: "mu \<noteq> None \<or> mt \<noteq> None" using assms s by (auto simp: normalizeBudget_def Let_def split: if_splits)
  show ?thesis
  proof (cases "usdPerDay b")
    case None
    then show ?thesis using b' s ne r pos
      by (cases "tokensPerDay b") (auto simp: normalizeBudget_def Let_def not_le)
  next
    case (Some u)
    then have u: "0 < u" "mu = Some (of_int (js_round (u * 100)) / 100)" using pos b' s by auto
    show ?thesis
    proof (cases "u < 1/200")
      case True
      then have "js_round (u * 100) = 0" using z [of "u * 100"] half u(1) by simp
      then show ?thesis using True Some s u(2) by (auto simp: normalizeBudget_def)
    next
      case False
      then have "\<not> js_round (u * 100) \<le> 0" using r [of "u * 100"] half by simp
      then show ?thesis using False Some b' s u(2) r pos
        by (cases "tokensPerDay b") (auto simp: normalizeBudget_def Let_def not_le)
    qed
  qed
qed

theorem normalizeBudget_stable_iff_witness:
  "normalizeBudget (Some \<lparr>usdPerDay = Some 0, tokensPerDay = None\<rparr>) = Inl Usd_not_positive"
proof -
  have "normalizeBudget (Some \<lparr>usdPerDay = Some (1/250), tokensPerDay = None\<rparr>) = Inr (Some \<lparr>usdPerDay = Some 0, tokensPerDay = None\<rparr>)"
    by code_simp
  from normalizeBudget_stable_iff [OF this, THEN conjunct2, THEN spec, of "1/250"] show ?thesis by simp
qed

end
