(* ===== verification/Keys.thy ===== *)
theory Keys
  imports Key_Budget
begin

text \<open>
  Named keys (\<open>src/keys.ts\<close>): the records of \<open>keys.json\<close>, minting, revoking, deleting and rotating
  them, which record a presented secret belongs to, the parser of the file and what is written to
  it. A timestamp is a string; \<open>toISOString\<close> is the argument \<open>to_iso\<close>, \<open>Date.parse\<close> the argument \<open>dp\<close>
  (\<open>None\<close> for \<open>NaN\<close>), \<open>sha256\<close> the argument \<open>hash\<close>. Random bytes are drawn by the caller: the
  secret and the candidate ids are arguments.
\<close>

section \<open>JSON\<close>

datatype json =
    JNull
  | JBool bool
  | JNum rat
  | JStr string
  | JArr "json list"
  | JObj "(string, json) jsmap"

text \<open>\<open>v[k]\<close>, \<open>undefined\<close> being \<open>None\<close>.\<close>

definition jget :: "json \<Rightarrow> string \<Rightarrow> json option" where
  "jget v k = (case v of JObj m \<Rightarrow> map_of m k | _ \<Rightarrow> None)"

definition as_str :: "json option \<Rightarrow> string option" where
  "as_str v = (case v of Some (JStr s) \<Rightarrow> Some s | _ \<Rightarrow> None)"

definition as_num :: "json option \<Rightarrow> rat option" where
  "as_num v = (case v of Some (JNum n) \<Rightarrow> Some n | _ \<Rightarrow> None)"

definition is_obj :: "json \<Rightarrow> bool" where
  "is_obj v = (case v of JObj _ \<Rightarrow> True | JArr _ \<Rightarrow> True | _ \<Rightarrow> False)"

section \<open>Records\<close>

definition KEYS_VERSION :: rat where "KEYS_VERSION = 1"
definition KEY_PREFIX :: string where "KEY_PREFIX = ''dk_''"

definition name_char :: "char \<Rightarrow> bool" where
  "name_char c \<longleftrightarrow> is_alnum c \<or> c \<in> set ''_-.''"

definition KEY_NAME_RE :: "string \<Rightarrow> bool" where
  "KEY_NAME_RE s \<longleftrightarrow> (case s of [] \<Rightarrow> False | c # cs \<Rightarrow> is_alnum c \<and> length cs \<le> 63 \<and> list_all name_char cs)"

definition hex_of_length :: "nat \<Rightarrow> string \<Rightarrow> bool" where
  "hex_of_length n s \<longleftrightarrow> length s = n \<and> list_all is_hex_lower s"

definition KEY_EFFORT_VALUES :: "string list" where
  "KEY_EFFORT_VALUES = [''low'', ''medium'', ''high'', ''xhigh'', ''max'']"

definition isKeyEffort :: "string \<Rightarrow> bool" where
  "isKeyEffort v \<longleftrightarrow> v \<in> set KEY_EFFORT_VALUES"

record key_record =
  k_id :: string
  k_name :: string
  k_hash :: string
  k_created :: string
  k_lastUsed :: "string option"
  k_disabled :: bool
  k_expires :: "string option"
  k_seat :: "string option"
  k_models :: "string list option"
  k_budget :: "key_budget option"
  k_effort :: "string option"
  k_transcript :: bool

type_synonym keys_file = "key_record list"

datatype key_error =
    Not_a_keys_file
  | Invalid_name
  | Name_taken
  | Invalid_seat
  | Invalid_budget budget_error
  | Invalid_effort
  | Expiry_not_future
  | No_fresh_id

section \<open>The file\<close>

definition iso_or :: "(string \<Rightarrow> ms option) \<Rightarrow> json option \<Rightarrow> string option" where
  "iso_or dp v = (case as_str v of Some s \<Rightarrow> (if dp s = None then None else Some s) | None \<Rightarrow> None)"

definition parse_models :: "json option \<Rightarrow> string list option" where
  "parse_models v =
     (case v of
        Some (JArr xs) \<Rightarrow>
          (let models = List.map_filter (\<lambda>x. case x of JStr s \<Rightarrow> (if trim s = [] then None else Some (trim s)) | _ \<Rightarrow> None) xs
           in if models = [] then None else Some models)
      | _ \<Rightarrow> None)"

definition parse_budget :: "json option \<Rightarrow> key_budget option" where
  "parse_budget v =
     (case v of
        Some b \<Rightarrow>
          (if is_obj b
           then (case normalizeBudget (Some \<lparr>usdPerDay = as_num (jget b ''usdPerDay''),
                                             tokensPerDay = as_num (jget b ''tokensPerDay'')\<rparr>) of
                   Inl _ \<Rightarrow> None | Inr b' \<Rightarrow> b')
           else None)
      | None \<Rightarrow> None)"

text \<open>One record of the file, if it is well formed and its name is new.\<close>

definition parse_record ::
  "(ms \<Rightarrow> string) \<Rightarrow> (string \<Rightarrow> ms option) \<Rightarrow> string list \<Rightarrow> json \<Rightarrow> key_record option" where
  "parse_record to_iso dp seen k =
     (if \<not> is_obj k then None
      else case as_str (jget k ''name'') of
             None \<Rightarrow> None
           | Some name \<Rightarrow>
               (if \<not> KEY_NAME_RE name \<or> name \<in> set seen then None
                else case as_str (jget k ''hash'') of
                       None \<Rightarrow> None
                     | Some h \<Rightarrow>
                         (if \<not> hex_of_length 64 h then None
                          else case as_str (jget k ''id'') of
                                 None \<Rightarrow> None
                               | Some i \<Rightarrow>
                                   (if \<not> hex_of_length 8 i then None
                                    else Some
                                      \<lparr> k_id = i, k_name = name, k_hash = h,
                                        k_created = opt_or (iso_or dp (jget k ''created'')) (to_iso 0),
                                        k_lastUsed = iso_or dp (jget k ''lastUsed''),
                                        k_disabled = (jget k ''disabled'' = Some (JBool True)),
                                        k_expires = iso_or dp (jget k ''expires''),
                                        k_seat = (case as_str (jget k ''seat'') of
                                                    Some s \<Rightarrow> (if KEY_NAME_RE s then Some s else None) | None \<Rightarrow> None),
                                        k_models = parse_models (jget k ''models''),
                                        k_budget = parse_budget (jget k ''budget''),
                                        k_effort = (case as_str (jget k ''effort'') of
                                                      Some e \<Rightarrow> (if isKeyEffort e then Some e else None) | None \<Rightarrow> None),
                                        k_transcript = (jget k ''transcript'' = Some (JBool True)) \<rparr>))))"

definition parse_step ::
  "(ms \<Rightarrow> string) \<Rightarrow> (string \<Rightarrow> ms option) \<Rightarrow> keys_file \<Rightarrow> json \<Rightarrow> keys_file" where
  "parse_step to_iso dp keys k =
     (case parse_record to_iso dp (map k_name keys) k of None \<Rightarrow> keys | Some r \<Rightarrow> keys @ [r])"

text \<open>\<open>parseKeysFile\<close> of what \<open>JSON.parse\<close> returned, \<open>None\<close> when that threw.\<close>

definition parseKeysFile ::
  "(ms \<Rightarrow> string) \<Rightarrow> (string \<Rightarrow> ms option) \<Rightarrow> json option \<Rightarrow> key_error + keys_file" where
  "parseKeysFile to_iso dp raw =
     (case raw of
        Some (JObj m) \<Rightarrow>
          (if map_of m ''version'' = Some (JNum KEYS_VERSION)
           then (case map_of m ''keys'' of
                   Some (JArr ks) \<Rightarrow> Inr (foldl (parse_step to_iso dp) [] ks)
                 | _ \<Rightarrow> Inl Not_a_keys_file)
           else Inl Not_a_keys_file)
      | _ \<Rightarrow> Inl Not_a_keys_file)"

text \<open>\<open>JSON.stringify\<close>: a field that is not set is not written.\<close>

definition field :: "string \<Rightarrow> json option \<Rightarrow> (string, json) jsmap" where
  "field k v = (case v of None \<Rightarrow> [] | Some x \<Rightarrow> [(k, x)])"

definition budget_json :: "key_budget \<Rightarrow> json" where
  "budget_json b = JObj (field ''usdPerDay'' (map_option JNum (usdPerDay b)) @ field ''tokensPerDay'' (map_option JNum (tokensPerDay b)))"

definition record_json :: "key_record \<Rightarrow> json" where
  "record_json k =
     JObj ([(''id'', JStr (k_id k)), (''name'', JStr (k_name k)), (''hash'', JStr (k_hash k)), (''created'', JStr (k_created k))]
           @ field ''lastUsed'' (map_option JStr (k_lastUsed k))
           @ field ''disabled'' (if k_disabled k then Some (JBool True) else None)
           @ field ''expires'' (map_option JStr (k_expires k))
           @ field ''seat'' (map_option JStr (k_seat k))
           @ field ''models'' (map_option (\<lambda>ms. JArr (map JStr ms)) (k_models k))
           @ field ''budget'' (map_option budget_json (k_budget k))
           @ field ''effort'' (map_option JStr (k_effort k))
           @ field ''transcript'' (if k_transcript k then Some (JBool True) else None))"

definition keys_json :: "keys_file \<Rightarrow> json" where
  "keys_json f = JObj [(''version'', JNum KEYS_VERSION), (''keys'', JArr (map record_json f))]"

section \<open>Changing the file\<close>

definition find_key :: "keys_file \<Rightarrow> string \<Rightarrow> key_record option" where
  "find_key f name = List.find (\<lambda>k. k_name k = name) f"

fun change_key :: "string \<Rightarrow> (key_record \<Rightarrow> key_record) \<Rightarrow> keys_file \<Rightarrow> keys_file" where
  "change_key name g [] = []"
| "change_key name g (k # ks) = (if k_name k = name then g k # ks else k # change_key name g ks)"

fun drop_key :: "string \<Rightarrow> keys_file \<Rightarrow> keys_file" where
  "drop_key name [] = []"
| "drop_key name (k # ks) = (if k_name k = name then ks else k # drop_key name ks)"

record create_opts =
  co_seat :: "string option"
  co_models :: "string list option"
  co_budget :: "key_budget option"
  co_expiresAt :: "ms option"
  co_effort :: "string option"

text \<open>The first drawn id no record has yet; the source draws until it finds one.\<close>

definition newId :: "string list \<Rightarrow> keys_file \<Rightarrow> string option" where
  "newId draws f = List.find (\<lambda>i. i \<notin> set (map k_id f)) draws"

definition created_record ::
  "(ms \<Rightarrow> string) \<Rightarrow> (string \<Rightarrow> string) \<Rightarrow> string \<Rightarrow> string \<Rightarrow> string \<Rightarrow> create_opts \<Rightarrow> key_budget option \<Rightarrow> ms \<Rightarrow> key_record" where
  "created_record to_iso hash i name secret opts budget now =
     \<lparr> k_id = i, k_name = name, k_hash = hash secret, k_created = to_iso now, k_lastUsed = None, k_disabled = False,
       k_expires = map_option to_iso (co_expiresAt opts),
       k_seat = truthy (co_seat opts),
       k_models = (case co_models opts of
                     None \<Rightarrow> None
                   | Some ms \<Rightarrow> (if ms = [] then None else Some (filter (\<lambda>m. m \<noteq> []) (map trim ms)))),
       k_budget = budget,
       k_effort = truthy (co_effort opts),
       k_transcript = False \<rparr>"

definition createKey ::
  "(ms \<Rightarrow> string) \<Rightarrow> (string \<Rightarrow> string) \<Rightarrow> string list \<Rightarrow> string \<Rightarrow> keys_file \<Rightarrow> string \<Rightarrow> create_opts \<Rightarrow> ms
     \<Rightarrow> key_error + key_record \<times> keys_file" where
  "createKey to_iso hash draws secret f name opts now =
     (let trimmed = trim name in
      if \<not> KEY_NAME_RE trimmed then Inl Invalid_name
      else if trimmed \<in> set (map k_name f) then Inl Name_taken
      else if (case co_seat opts of None \<Rightarrow> False | Some s \<Rightarrow> \<not> KEY_NAME_RE s) then Inl Invalid_seat
      else case newId draws f of
             None \<Rightarrow> Inl No_fresh_id
           | Some i \<Rightarrow>
               (case normalizeBudget (co_budget opts) of
                  Inl e \<Rightarrow> Inl (Invalid_budget e)
                | Inr budget \<Rightarrow>
                    (if (case truthy (co_effort opts) of None \<Rightarrow> False | Some e \<Rightarrow> \<not> isKeyEffort e) then Inl Invalid_effort
                     else if (case co_expiresAt opts of None \<Rightarrow> False | Some t \<Rightarrow> t \<le> now) then Inl Expiry_not_future
                     else let r = created_record to_iso hash i trimmed secret opts budget now
                          in Inr (r, f @ [r]))))"

definition revokeKey :: "keys_file \<Rightarrow> string \<Rightarrow> bool \<times> keys_file" where
  "revokeKey f name = (find_key f name \<noteq> None, change_key name (\<lambda>k. k\<lparr>k_disabled := True\<rparr>) f)"

definition deleteKey :: "keys_file \<Rightarrow> string \<Rightarrow> bool \<times> keys_file" where
  "deleteKey f name = (find_key f name \<noteq> None, drop_key name f)"

definition rotateKey ::
  "(ms \<Rightarrow> string) \<Rightarrow> (string \<Rightarrow> string) \<Rightarrow> string \<Rightarrow> keys_file \<Rightarrow> string \<Rightarrow> ms \<Rightarrow> key_record option \<times> keys_file" where
  "rotateKey to_iso hash secret f name now =
     (let g = (\<lambda>k. k\<lparr>k_hash := hash secret, k_created := to_iso now, k_lastUsed := None, k_disabled := False\<rparr>)
      in (map_option g (find_key f name), change_key name g f))"

definition setKeyBudget :: "keys_file \<Rightarrow> string \<Rightarrow> key_budget option \<Rightarrow> key_error + bool \<times> keys_file" where
  "setKeyBudget f name b =
     (if find_key f name = None then Inr (False, f)
      else case normalizeBudget b of
             Inl e \<Rightarrow> Inl (Invalid_budget e)
           | Inr b' \<Rightarrow> Inr (True, change_key name (\<lambda>k. k\<lparr>k_budget := b'\<rparr>) f))"

definition setKeyEffort :: "keys_file \<Rightarrow> string \<Rightarrow> string option \<Rightarrow> key_error + bool \<times> keys_file" where
  "setKeyEffort f name e =
     (if find_key f name = None then Inr (False, f)
      else case truthy e of
             None \<Rightarrow> Inr (True, change_key name (\<lambda>k. k\<lparr>k_effort := None\<rparr>) f)
           | Some v \<Rightarrow> (if isKeyEffort v then Inr (True, change_key name (\<lambda>k. k\<lparr>k_effort := Some v\<rparr>) f)
                       else Inl Invalid_effort))"

definition setKeyTranscript :: "keys_file \<Rightarrow> string \<Rightarrow> bool \<Rightarrow> bool \<times> keys_file" where
  "setKeyTranscript f name arm =
     (find_key f name \<noteq> None, change_key name (\<lambda>k. k\<lparr>k_transcript := arm\<rparr>) f)"

section \<open>Authenticating\<close>

definition keyIsUsable :: "(string \<Rightarrow> ms option) \<Rightarrow> key_record \<Rightarrow> ms \<Rightarrow> bool" where
  "keyIsUsable dp k now \<longleftrightarrow>
     (if k_disabled k then False
      else case truthy (k_expires k) of
             None \<Rightarrow> True
           | Some e \<Rightarrow> (case dp e of None \<Rightarrow> True | Some t \<Rightarrow> \<not> t \<le> now))"

text \<open>Hashes are compared byte for byte; those of a keys file are lower-case hexadecimal.\<close>

definition match_step ::
  "(string \<Rightarrow> ms option) \<Rightarrow> string \<Rightarrow> ms \<Rightarrow> key_record option \<Rightarrow> key_record \<Rightarrow> key_record option" where
  "match_step dp h now found k = (if k_hash k = h \<and> keyIsUsable dp k now then Some k else found)"

definition matchKey ::
  "(string \<Rightarrow> string) \<Rightarrow> (string \<Rightarrow> ms option) \<Rightarrow> keys_file \<Rightarrow> string \<Rightarrow> ms \<Rightarrow> key_record option" where
  "matchKey hash dp f provided now =
     (if provided = [] then None else foldl (match_step dp (hash provided) now) None f)"

definition model_entry_matches :: "string \<Rightarrow> string \<Rightarrow> bool" where
  "model_entry_matches m entry \<longleftrightarrow>
     (let e = to_lower entry in if ends_with e ''*'' then starts_with m (drop_last 1 e) else m = e)"

definition keyAllowsModel :: "key_record \<Rightarrow> string option \<Rightarrow> bool" where
  "keyAllowsModel k model \<longleftrightarrow>
     (case k_models k of
        None \<Rightarrow> True
      | Some ms \<Rightarrow> ms = [] \<or> list_ex (model_entry_matches (to_lower (opt_or model []))) ms)"

datatype key_status = Key_active | Key_revoked | Key_expired

definition key_status_of :: "(string \<Rightarrow> ms option) \<Rightarrow> key_record \<Rightarrow> ms \<Rightarrow> key_status" where
  "key_status_of dp k now =
     (if k_disabled k then Key_revoked
      else case truthy (k_expires k) of
             None \<Rightarrow> Key_active
           | Some e \<Rightarrow> (case dp e of None \<Rightarrow> Key_active | Some t \<Rightarrow> (if t \<le> now then Key_expired else Key_active)))"

section \<open>Specifications given on the command line\<close>

text \<open>\<open>/^(\d+)([hdw])$/i\<close>, else a date.\<close>

definition parseExpiry :: "(string \<Rightarrow> ms option) \<Rightarrow> string \<Rightarrow> ms \<Rightarrow> ms option" where
  "parseExpiry dp value now =
     (let v = trim value; ds = drop_last 1 v; u = to_lower (take_last 1 v)
      in if ds \<noteq> [] \<and> list_all is_digit ds \<and> u \<in> set [''h'', ''d'', ''w'']
         then (let n = int (nat_of_digits ds);
                   unit = (if u = ''h'' then 3600000 else if u = ''d'' then 86400000 else 7 * 86400000)
               in if n > 0 then Some (now + n * unit) else None)
         else dp v)"

text \<open>\<open>lastIndexOf('=')\<close> splits an absolute path from a key name.\<close>

definition parseKeySocketSpec :: "string \<Rightarrow> (string \<times> string) option" where
  "parseKeySocketSpec spec =
     (case cut_at CHR ''='' (rev spec) of
        None \<Rightarrow> None
      | Some (rk, rp) \<Rightarrow>
          (let path = rev rp; key = rev rk
           in if path = [] \<or> \<not> starts_with path ''/'' \<or> CHR 0x00 \<in> set path \<or> \<not> KEY_NAME_RE key then None
              else Some (path, key)))"

end
