(* ===== verification/Keys_Props.thy ===== *)
theory Keys_Props
  imports Keys
begin

text \<open>
  What named keys promise: the file survives being written and re-read, a secret opens exactly the
  usable record that carries its hash, minting, rotating, revoking and deleting a key change who
  may enter with that key's secrets and nobody else's, and the running proxy's view of the file
  never loses the last good state nor an edit made beside it.
\<close>

section \<open>Round trip\<close>

definition budget_ok :: "key_budget option \<Rightarrow> bool" where
  "budget_ok b \<longleftrightarrow> b = None \<or> normalizeBudget b = Inr b"

definition models_ok :: "string list option \<Rightarrow> bool" where
  "models_ok ms \<longleftrightarrow> (case ms of None \<Rightarrow> True | Some l \<Rightarrow> l \<noteq> [] \<and> (\<forall>m \<in> set l. m \<noteq> [] \<and> trim m = m))"

definition record_wf :: "(string \<Rightarrow> ms option) \<Rightarrow> key_record \<Rightarrow> bool" where
  "record_wf dp k \<longleftrightarrow>
     KEY_NAME_RE (k_name k) \<and> hex_of_length 64 (k_hash k) \<and> hex_of_length 8 (k_id k)
     \<and> dp (k_created k) \<noteq> None
     \<and> (\<forall>t. k_lastUsed k = Some t \<longrightarrow> dp t \<noteq> None) \<and> (\<forall>t. k_expires k = Some t \<longrightarrow> dp t \<noteq> None)
     \<and> (\<forall>s. k_seat k = Some s \<longrightarrow> KEY_NAME_RE s) \<and> models_ok (k_models k) \<and> budget_ok (k_budget k)
     \<and> (\<forall>e. k_effort k = Some e \<longrightarrow> isKeyEffort e)"

definition keys_wf :: "(string \<Rightarrow> ms option) \<Rightarrow> keys_file \<Rightarrow> bool" where
  "keys_wf dp f \<longleftrightarrow> distinct (map k_name f) \<and> (\<forall>k \<in> set f. record_wf dp k)"

lemma map_of_field [js_simps]: "map_of (field k v) q = (if q = k then v else None)"
  by (simp add: field_def split: option.split)

lemma jget_record_json:
  "jget (record_json k) ''id'' = Some (JStr (k_id k))"
  "jget (record_json k) ''name'' = Some (JStr (k_name k))"
  "jget (record_json k) ''hash'' = Some (JStr (k_hash k))"
  "jget (record_json k) ''created'' = Some (JStr (k_created k))"
  "jget (record_json k) ''lastUsed'' = map_option JStr (k_lastUsed k)"
  "jget (record_json k) ''disabled'' = (if k_disabled k then Some (JBool True) else None)"
  "jget (record_json k) ''expires'' = map_option JStr (k_expires k)"
  "jget (record_json k) ''seat'' = map_option JStr (k_seat k)"
  "jget (record_json k) ''models'' = map_option (\<lambda>ms. JArr (map JStr ms)) (k_models k)"
  "jget (record_json k) ''budget'' = map_option budget_json (k_budget k)"
  "jget (record_json k) ''effort'' = map_option JStr (k_effort k)"
  "jget (record_json k) ''transcript'' = (if k_transcript k then Some (JBool True) else None)"
  by (simp_all add: jget_def record_json_def map_add_def map_of_field split: option.split)

lemma as_str_map [js_simps]: "as_str (map_option JStr s) = s"
  by (cases s) (simp_all add: as_str_def)

lemma as_num_map [js_simps]: "as_num (map_option JNum n) = n"
  by (cases n) (simp_all add: as_num_def)

lemma parse_models_json: "models_ok ms \<Longrightarrow> parse_models (map_option (\<lambda>ms. JArr (map JStr ms)) ms) = ms"
proof (cases ms)
  case (Some l)
  assume "models_ok ms"
  then have ok: "l \<noteq> []" "\<forall>m \<in> set l. m \<noteq> [] \<and> trim m = m" using Some by (auto simp: models_ok_def)
  have "List.map_filter (\<lambda>x. case x of JStr s \<Rightarrow> (if trim s = [] then None else Some (trim s)) | _ \<Rightarrow> None) (map JStr l) = l"
    using ok(2) by (induction l) (auto simp: List.map_filter_def)
  then show ?thesis using Some ok(1) by (simp add: parse_models_def Let_def)
qed (simp add: parse_models_def)

lemma parse_budget_json: "budget_ok b \<Longrightarrow> parse_budget (map_option budget_json b) = b"
proof (cases b)
  case (Some c)
  assume "budget_ok b"
  moreover have "jget (budget_json c) ''usdPerDay'' = map_option JNum (usdPerDay c)"
    "jget (budget_json c) ''tokensPerDay'' = map_option JNum (tokensPerDay c)"
    by (simp_all add: jget_def budget_json_def map_add_def map_of_field split: option.split)
  moreover have "is_obj (budget_json c)" by (simp add: is_obj_def budget_json_def)
  ultimately show ?thesis using Some by (cases c) (simp add: parse_budget_def budget_ok_def as_num_map)
qed (simp add: parse_budget_def)

lemma iso_or_json: "(\<And>t. s = Some t \<Longrightarrow> dp t \<noteq> None) \<Longrightarrow> iso_or dp (map_option JStr s) = s"
  by (cases s) (auto simp: iso_or_def as_str_def)

lemma parse_record_json:
  assumes "record_wf dp k" and "k_name k \<notin> set seen"
  shows "parse_record to_iso dp seen (record_json k) = Some k"
proof -
  note w = assms(1) [unfolded record_wf_def]
  have str: "as_str (Some (JStr s)) = Some s" for s by (simp add: as_str_def)
  have obj: "is_obj (record_json k)" by (simp add: is_obj_def record_json_def)
  have times: "iso_or dp (map_option JStr (k_lastUsed k)) = k_lastUsed k" "iso_or dp (map_option JStr (k_expires k)) = k_expires k"
    using w by (auto intro: iso_or_json)
  have created: "iso_or dp (Some (JStr (k_created k))) = Some (k_created k)" using w by (simp add: iso_or_def as_str_def)
  show ?thesis
    using w assms(2)
    by (auto simp: parse_record_def obj jget_record_json str as_str_map times created parse_models_json parse_budget_json
        split: option.splits)
qed

lemma parse_fold_json:
  assumes "\<forall>k \<in> set f. record_wf dp k" and "distinct (map k_name (acc @ f))"
  shows "foldl (parse_step to_iso dp) acc (map record_json f) = acc @ f"
  using assms
proof (induction f arbitrary: acc)
  case Nil
  then show ?case by simp
next
  case (Cons k f)
  then have "parse_record to_iso dp (map k_name acc) (record_json k) = Some k" by (intro parse_record_json) auto
  then have "parse_step to_iso dp acc (record_json k) = acc @ [k]" by (simp add: parse_step_def)
  with Cons.IH [of "acc @ [k]"] Cons.prems show ?case by simp
qed

lemma keys_roundtrip:
  assumes "keys_wf dp f"
  shows "parseKeysFile to_iso dp (Some (keys_json f)) = Inr f"
  using parse_fold_json [of f dp "[]"] assms by (simp add: parseKeysFile_def keys_json_def keys_wf_def)

text \<open>
  A keys file survives the disk: writing well-formed records and parsing the file back gives the
  same records in the same order, every optional field included, so a restart or another process's
  re-read changes nobody's access, limits or expiry.
\<close>

theorem keys_file_roundtrip:
  assumes "keys_wf dp f"
  shows "parseKeysFile to_iso dp (Some (keys_json f)) = Inr f"
  by (rule keys_roundtrip [OF assms])

text \<open>A record for the witnesses.\<close>

definition sample_key :: "string \<Rightarrow> char \<Rightarrow> key_record" where
  "sample_key name h =
     \<lparr> k_id = replicate 8 h, k_name = name, k_hash = replicate 64 h, k_created = ''0'', k_lastUsed = None,
       k_disabled = False, k_expires = None, k_seat = Some ''pro1'', k_models = Some [''claude-*''],
       k_budget = Some \<lparr>usdPerDay = Some 5, tokensPerDay = None\<rparr>, k_effort = Some ''high'', k_transcript = False \<rparr>"

lemma sample_key_wf: "h \<in> set ''abcdef'' \<Longrightarrow> KEY_NAME_RE name \<Longrightarrow> record_wf (\<lambda>_. Some 0) (sample_key name h)"
proof -
  assume h: "h \<in> set ''abcdef''" and n: "KEY_NAME_RE name"
  have "is_hex_lower h" using h by (auto simp: is_hex_lower_def code_of_def of_char_def)
  moreover have "trim ''claude-*'' = ''claude-*''" "KEY_NAME_RE ''pro1''" "isKeyEffort ''high''"
    "normalizeBudget (Some \<lparr>usdPerDay = Some 5, tokensPerDay = None\<rparr>) = Inr (Some \<lparr>usdPerDay = Some 5, tokensPerDay = None\<rparr>)"
    by code_simp+
  ultimately show ?thesis using n
    by (simp add: record_wf_def sample_key_def hex_of_length_def list_all_iff models_ok_def budget_ok_def)
qed

theorem keys_file_roundtrip_witness:
  "parseKeysFile (\<lambda>_. ''0'') (\<lambda>_. Some 0) (Some (keys_json [sample_key ''alice'' CHR ''a'', sample_key ''bob'' CHR ''b'']))
     = Inr [sample_key ''alice'' CHR ''a'', sample_key ''bob'' CHR ''b'']"
proof -
  have "KEY_NAME_RE ''alice''" "KEY_NAME_RE ''bob''" by code_simp+
  then have "keys_wf (\<lambda>_. Some 0) [sample_key ''alice'' CHR ''a'', sample_key ''bob'' CHR ''b'']"
    using sample_key_wf by (simp add: keys_wf_def) (simp add: sample_key_def)
  from keys_file_roundtrip [OF this] show ?thesis .
qed

section \<open>Who may enter\<close>

lemma match_fold:
  "foldl (match_step dp h now) acc ks =
     (case List.find (\<lambda>k. k_hash k = h \<and> keyIsUsable dp k now) (rev ks) of None \<Rightarrow> acc | Some k \<Rightarrow> Some k)"
  by (induction ks rule: rev_induct) (auto simp: match_step_def)

definition opens :: "(string \<Rightarrow> string) \<Rightarrow> (string \<Rightarrow> ms option) \<Rightarrow> string \<Rightarrow> ms \<Rightarrow> key_record \<Rightarrow> bool" where
  "opens hash dp p now k \<longleftrightarrow> p \<noteq> [] \<and> k_hash k = hash p \<and> keyIsUsable dp k now"

lemma matchKey_Some_iff:
  assumes "distinct (map k_hash f)"
  shows "matchKey hash dp f p now = Some k \<longleftrightarrow> k \<in> set f \<and> opens hash dp p now k"
proof (cases "List.find (\<lambda>k. k_hash k = hash p \<and> keyIsUsable dp k now) (rev f)")
  case None
  then show ?thesis by (auto simp: matchKey_def match_fold opens_def dest: find_NoneD)
next
  case (Some r)
  then have r: "r \<in> set f" "k_hash r = hash p" "keyIsUsable dp r now" using find_SomeD [OF Some] by auto
  have "k \<in> set f \<Longrightarrow> k_hash k = hash p \<Longrightarrow> k = r"
    using assms r by (metis distinct_map inj_onD)
  with Some r show ?thesis by (auto simp: matchKey_def match_fold opens_def)
qed

lemma option_eqI: "(\<And>k. a = Some k \<longleftrightarrow> b = Some k) \<Longrightarrow> a = b"
  by (cases a; cases b) auto

lemma matchKey_eqI:
  assumes "distinct (map k_hash f)" and "\<And>k. k \<in> set f \<and> opens hash dp p now k \<longleftrightarrow> m = Some k"
  shows "matchKey hash dp f p now = m"
  by (rule option_eqI) (simp add: matchKey_Some_iff [OF assms(1)] assms(2))

lemma change_key_map: "distinct (map k_name f) \<Longrightarrow> change_key name g f = map (\<lambda>k. if k_name k = name then g k else k) f"
  by (induction f) (auto intro!: map_idI [symmetric], metis image_eqI)

lemma drop_key_filter: "distinct (map k_name f) \<Longrightarrow> drop_key name f = filter (\<lambda>k. k_name k \<noteq> name) f"
  by (induction f) (auto intro!: filter_True [symmetric], metis image_eqI)

lemma find_key_Some: "find_key f name = Some k \<Longrightarrow> k \<in> set f \<and> k_name k = name"
  unfolding find_key_def by (drule find_SomeD)

lemma find_key_in: "distinct (map k_name f) \<Longrightarrow> k \<in> set f \<Longrightarrow> find_key f (k_name k) = Some k"
  by (induction f) (auto simp: find_key_def)

text \<open>The keys of a file are told apart by name and by secret.\<close>

definition keys_apart :: "keys_file \<Rightarrow> bool" where
  "keys_apart f \<longleftrightarrow> distinct (map k_name f) \<and> distinct (map k_hash f)"

text \<open>
  C39. A secret opens exactly the record that carries its hash. Among keys told apart by their
  secrets, \<open>matchKey\<close> answers with a record precisely when that record is in the file, carries the
  hash of the presented secret, and is neither revoked nor expired; an empty secret opens nothing.
\<close>

theorem matchKey_authenticates:
  assumes "distinct (map k_hash f)"
  shows "matchKey hash dp f p now = Some k \<longleftrightarrow>
           k \<in> set f \<and> p \<noteq> [] \<and> k_hash k = hash p \<and> \<not> k_disabled k
           \<and> (\<forall>e t. k_expires k = Some e \<and> e \<noteq> [] \<and> dp e = Some t \<longrightarrow> now < t)"
  unfolding matchKey_Some_iff [OF assms] opens_def keyIsUsable_def
  by (auto simp: truthy_Some_iff truthy_None_iff not_le split: option.splits)

theorem matchKey_authenticates_witness:
  "matchKey (\<lambda>p. replicate 64 (hd p)) (\<lambda>_. Some 0) [sample_key ''alice'' CHR ''a'', sample_key ''bob'' CHR ''b''] ''b'' 5
     = Some (sample_key ''bob'' CHR ''b'')"
proof -
  have "distinct (map k_hash [sample_key ''alice'' CHR ''a'', sample_key ''bob'' CHR ''b''])"
    by (simp add: sample_key_def)
  from matchKey_authenticates [OF this] show ?thesis by (simp add: sample_key_def)
qed

lemma createKey_result:
  assumes "createKey to_iso hash draws secret f name opts now = Inr (r, f')"
  shows "f' = f @ [r]" and "k_name r = trim name" and "k_name r \<notin> set (map k_name f)" and "KEY_NAME_RE (k_name r)"
    and "k_hash r = hash secret" and "k_id r \<notin> set (map k_id f)" and "\<not> k_disabled r"
    and "k_expires r = map_option to_iso (co_expiresAt opts)"
    and "\<And>t. co_expiresAt opts = Some t \<Longrightarrow> now < t"
  using assms find_SomeD [of "\<lambda>i. i \<notin> set (map k_id f)" draws]
  by (auto simp: createKey_def Let_def newId_def created_record_def split: if_splits option.splits sum.splits)

text \<open>
  Minting a key lets in its own secret and changes nothing else: the new record answers to the
  secret until its expiry, every other presented value is answered as before, and the new name and
  id were in use by no key.
\<close>

theorem createKey_isolated:
  assumes "keys_apart f" and "hash secret \<notin> set (map k_hash f)"
    and "createKey to_iso hash draws secret f name opts now0 = Inr (r, f')"
    and "\<And>t. dp (to_iso t) = Some t" and "\<And>t. to_iso t \<noteq> []"
  shows "keys_apart f' \<and> k_id r \<notin> set (map k_id f)
         \<and> matchKey hash dp f' p now =
             (if p \<noteq> [] \<and> hash p = hash secret
              then (if \<forall>t. co_expiresAt opts = Some t \<longrightarrow> now < t then Some r else None)
              else matchKey hash dp f p now)"
proof -
  note c = createKey_result [OF assms(3)]
  have apart: "keys_apart f'" using assms(1,2) c(1-3,5) by (auto simp: keys_apart_def)
  have usable: "keyIsUsable dp r now \<longleftrightarrow> (\<forall>t. co_expiresAt opts = Some t \<longrightarrow> now < t)"
    using c(7,8) assms(4,5) truthy_nonempty by (cases "co_expiresAt opts") (auto simp: keyIsUsable_def not_le)
  have d: "distinct (map k_hash f)" "distinct (map k_hash f')" using assms(1) apart by (auto simp: keys_apart_def)
  have "matchKey hash dp f' p now =
             (if p \<noteq> [] \<and> hash p = hash secret
              then (if keyIsUsable dp r now then Some r else None)
              else matchKey hash dp f p now)"
  proof (rule matchKey_eqI [OF d(2)])
    fix k
    have "k \<in> set f \<Longrightarrow> k_hash k \<noteq> hash secret" using assms(2) by (metis image_eqI list.set_map)
    then show "k \<in> set f' \<and> opens hash dp p now k \<longleftrightarrow>
       (if p \<noteq> [] \<and> hash p = hash secret then (if keyIsUsable dp r now then Some r else None) else matchKey hash dp f p now) = Some k"
      using c(5) by (auto simp: c(1) matchKey_Some_iff [OF d(1)] opens_def)
  qed
  with apart usable c(6) show ?thesis by simp
qed

definition sample_iso :: "ms \<Rightarrow> string" where
  "sample_iso t = (if 0 \<le> t then replicate (nat t + 1) CHR ''p'' else replicate (nat (- t)) CHR ''n'')"

definition sample_dp :: "string \<Rightarrow> ms option" where
  "sample_dp s = (case s of [] \<Rightarrow> None | c # _ \<Rightarrow> Some (if c = CHR ''p'' then int (length s) - 1 else - int (length s)))"

definition sample_hash :: "string \<Rightarrow> string" where
  "sample_hash p = replicate 64 (hd p)"

lemma sample_times: "sample_dp (sample_iso t) = Some t" "sample_iso t \<noteq> []"
  by (cases "nat (- t)"; auto simp: sample_dp_def sample_iso_def split: list.split)+

theorem createKey_isolated_witness:
  "\<exists>r f'. createKey sample_iso sample_hash [''12345678''] ''c'' [sample_key ''alice'' CHR ''a'']
             ''bob'' \<lparr>co_seat = None, co_models = None, co_budget = None, co_expiresAt = Some 9, co_effort = None\<rparr> 1 = Inr (r, f')
     \<and> matchKey sample_hash sample_dp f' ''c'' 8 = Some r"
proof -
  let ?o = "\<lparr>co_seat = None, co_models = None, co_budget = None, co_expiresAt = Some 9, co_effort = None\<rparr>"
  let ?c = "createKey sample_iso sample_hash [''12345678''] ''c'' [sample_key ''alice'' CHR ''a''] ''bob'' ?o 1"
  have "\<not> isl ?c" by code_simp
  then obtain r f' where c: "?c = Inr (r, f')" by (cases ?c) auto
  have a: "keys_apart [sample_key ''alice'' CHR ''a'']" by (simp add: keys_apart_def)
  have h: "sample_hash ''c'' \<notin> set (map k_hash [sample_key ''alice'' CHR ''a''])"
    by (simp add: sample_hash_def sample_key_def)
  from createKey_isolated [where hash = sample_hash and p = "''c''" and now = 8, OF a h c sample_times] c
  show ?thesis by simp
qed

text \<open>The answers with one key's taken away.\<close>

definition without :: "string \<Rightarrow> key_record option \<Rightarrow> key_record option" where
  "without name m = (case m of None \<Rightarrow> None | Some k \<Rightarrow> if k_name k = name then None else Some k)"

lemma without_Some: "without name m = Some k \<longleftrightarrow> m = Some k \<and> k_name k \<noteq> name"
  by (auto simp: without_def split: option.splits)

lemma distinct_hash_map:
  assumes "distinct (map k_hash f)" and "\<And>k. k_hash (g k) = k_hash k"
  shows "distinct (map k_hash (map (\<lambda>k. if k_name k = name then g k else k) f))"
proof -
  have "map k_hash (map (\<lambda>k. if k_name k = name then g k else k) f) = map k_hash f"
    using assms(2) by (induction f) auto
  then show ?thesis using assms(1) by metis
qed

text \<open>
  Revoking or deleting a key shuts out its secrets and no others: afterwards every presented
  value is answered as before, except that what used to open the key opens nothing; the name is
  reported missing exactly when no key has it.
\<close>

theorem revoke_delete_isolated:
  assumes "keys_apart f"
  shows "matchKey hash dp (snd (revokeKey f name)) p now = without name (matchKey hash dp f p now)
       \<and> matchKey hash dp (snd (deleteKey f name)) p now = without name (matchKey hash dp f p now)
       \<and> fst (revokeKey f name) = (name \<in> set (map k_name f))
       \<and> fst (deleteKey f name) = (name \<in> set (map k_name f))
       \<and> set (map k_name (snd (deleteKey f name))) = set (map k_name f) - {name}"
proof -
  have d: "distinct (map k_name f)" "distinct (map k_hash f)" using assms by (auto simp: keys_apart_def)
  let ?g = "\<lambda>k. k\<lparr>k_disabled := True\<rparr>"
  have r: "snd (revokeKey f name) = map (\<lambda>k. if k_name k = name then ?g k else k) f"
    by (simp add: revokeKey_def change_key_map [OF d(1)])
  have l: "snd (deleteKey f name) = filter (\<lambda>k. k_name k \<noteq> name) f"
    by (simp add: deleteKey_def drop_key_filter [OF d(1)])
  have dr: "distinct (map k_hash (snd (revokeKey f name)))" unfolding r by (rule distinct_hash_map [OF d(2)]) simp
  have dl: "distinct (map k_hash (snd (deleteKey f name)))" unfolding l using d(2) by (rule distinct_map_filter)
  have "matchKey hash dp (snd (revokeKey f name)) p now = without name (matchKey hash dp f p now)"
    by (rule matchKey_eqI [OF dr])
      (auto simp: matchKey_Some_iff [OF d(2)] without_Some r opens_def keyIsUsable_def split: if_splits)
  moreover have "matchKey hash dp (snd (deleteKey f name)) p now = without name (matchKey hash dp f p now)"
    by (rule matchKey_eqI [OF dl]) (auto simp: matchKey_Some_iff [OF d(2)] without_Some l)
  moreover have "find_key f name \<noteq> None \<longleftrightarrow> name \<in> set (map k_name f)"
    unfolding find_key_def using find_Some_ex [of _ f "\<lambda>k. k_name k = name"] by (force dest: find_SomeD)
  ultimately show ?thesis by (auto simp: revokeKey_def deleteKey_def l [unfolded deleteKey_def snd_conv])
qed

theorem revoke_delete_isolated_witness:
  "matchKey (\<lambda>p. replicate 64 (hd p)) (\<lambda>_. Some 0)
     (snd (revokeKey [sample_key ''alice'' CHR ''a'', sample_key ''bob'' CHR ''b''] ''bob'')) ''b'' 5 = None"
proof -
  have "keys_apart [sample_key ''alice'' CHR ''a'', sample_key ''bob'' CHR ''b'']"
    by (simp add: keys_apart_def sample_key_def)
  from revoke_delete_isolated [OF this, of "\<lambda>p. replicate 64 (hd p)" "\<lambda>_. Some 0" "''bob''" "''b''" 5]
  have "matchKey (\<lambda>p. replicate 64 (hd p)) (\<lambda>_. Some 0)
     (snd (revokeKey [sample_key ''alice'' CHR ''a'', sample_key ''bob'' CHR ''b''] ''bob'')) ''b'' 5 =
     without ''bob'' (matchKey (\<lambda>p. replicate 64 (hd p)) (\<lambda>_. Some 0) [sample_key ''alice'' CHR ''a'', sample_key ''bob'' CHR ''b''] ''b'' 5)"
    by (rule conjunct1)
  then show ?thesis by (simp add: without_def matchKey_def match_step_def sample_key_def keyIsUsable_def)
qed

text \<open>
  Rotating a key moves it to its new secret at once: the new secret opens the key, enabled
  again, until its expiry, no older secret of it opens anything, and nobody else's access changes.
\<close>

theorem rotate_isolated:
  assumes "keys_apart f" and "find_key f name = Some k0" and "hash secret \<notin> set (map k_hash f)"
  shows "\<exists>k1. rotateKey to_iso hash secret f name now0 = (Some k1, change_key name (\<lambda>_. k1) f)
           \<and> k_name k1 = name \<and> k_seat k1 = k_seat k0 \<and> k_models k1 = k_models k0 \<and> k_budget k1 = k_budget k0
           \<and> k_expires k1 = k_expires k0 \<and> \<not> k_disabled k1
           \<and> matchKey hash dp (snd (rotateKey to_iso hash secret f name now0)) p now =
               (if p \<noteq> [] \<and> hash p = hash secret then (if keyIsUsable dp k1 now then Some k1 else None)
                else without name (matchKey hash dp f p now))"
proof -
  let ?g = "\<lambda>k. k\<lparr>k_hash := hash secret, k_created := to_iso now0, k_lastUsed := None, k_disabled := False\<rparr>"
  let ?k1 = "?g k0"
  have d: "distinct (map k_name f)" "distinct (map k_hash f)" using assms(1) by (auto simp: keys_apart_def)
  have k0: "k0 \<in> set f" "k_name k0 = name" using find_key_Some [OF assms(2)] by auto
  have only: "k \<in> set f \<Longrightarrow> k_name k = name \<Longrightarrow> k = k0" for k
    using find_key_in [OF d(1), of k] assms(2) by simp
  let ?f = "map (\<lambda>k. if k_name k = name then ?k1 else k) f"
  have same: "change_key name ?g f = ?f" "change_key name (\<lambda>_. ?k1) f = ?f"
    unfolding change_key_map [OF d(1)] using only by auto
  have notin: "k \<in> set f \<Longrightarrow> k_hash k \<noteq> hash secret" for k using assms(3) by (metis image_eqI list.set_map)
  have df: "distinct (map k_hash ?f)"
    using d only notin unfolding distinct_map inj_on_def by (auto simp: distinct_map) metis
  have set_f: "k \<in> set ?f \<longleftrightarrow> k = ?k1 \<or> (k \<in> set f \<and> k_name k \<noteq> name)" for k
    using k0 by force
  have "matchKey hash dp ?f p now =
               (if p \<noteq> [] \<and> hash p = hash secret then (if keyIsUsable dp ?k1 now then Some ?k1 else None)
                else without name (matchKey hash dp f p now))"
    by (rule matchKey_eqI [OF df], unfold set_f)
      (auto simp: matchKey_Some_iff [OF d(2)] without_Some opens_def dest: notin)
  then show ?thesis
    using k0 by (intro exI [of _ ?k1]) (simp add: rotateKey_def assms(2) same)
qed

theorem rotate_isolated_witness:
  "matchKey sample_hash sample_dp (snd (rotateKey sample_iso sample_hash ''c'' [sample_key ''alice'' CHR ''a''] ''alice'' 1)) ''a'' 8 = None"
proof -
  have a: "keys_apart [sample_key ''alice'' CHR ''a'']" by (simp add: keys_apart_def)
  have f: "find_key [sample_key ''alice'' CHR ''a''] ''alice'' = Some (sample_key ''alice'' CHR ''a'')"
    by (simp add: find_key_def sample_key_def)
  have h: "sample_hash ''c'' \<notin> set (map k_hash [sample_key ''alice'' CHR ''a''])"
    by (simp add: sample_hash_def sample_key_def)
  have hac: "sample_hash ''a'' \<noteq> sample_hash ''c''" by (simp add: sample_hash_def)
  from rotate_isolated [where hash = sample_hash and secret = "''c''" and p = "''a''" and now = 8
      and to_iso = sample_iso and dp = sample_dp, OF a f h]
  have "matchKey sample_hash sample_dp (snd (rotateKey sample_iso sample_hash ''c'' [sample_key ''alice'' CHR ''a''] ''alice'' 1)) ''a'' 8
      = without ''alice'' (matchKey sample_hash sample_dp [sample_key ''alice'' CHR ''a''] ''a'' 8)"
    using hac by auto
  also have "\<dots> = None"
    by (simp add: without_def matchKey_def match_step_def sample_key_def sample_hash_def keyIsUsable_def)
  finally show ?thesis .
qed

section \<open>The proxy's view of the file\<close>

text \<open>
  What is on disk: nothing, or a text with its modification time; the text is what \<open>JSON.parse\<close> makes
  of it, \<open>None\<close> when it throws. A write replaces it and gets a modification time of its own.
\<close>

type_synonym keys_disk = "(ms \<times> json option) option"

record key_store =
  ks_file :: keys_file
  ks_mtimeMs :: ms
  ks_loadError :: "key_error option"
  ks_dirtyLastUsed :: "(string, string) jsmap"
  ks_flushTimer :: bool

definition new_store :: key_store where
  "new_store = \<lparr>ks_file = [], ks_mtimeMs = -1, ks_loadError = None, ks_dirtyLastUsed = [], ks_flushTimer = False\<rparr>"

definition disk_mtime :: "keys_disk \<Rightarrow> ms" where
  "disk_mtime d = (case d of None \<Rightarrow> -1 | Some (t, _) \<Rightarrow> t)"

definition readKeysFile ::
  "(ms \<Rightarrow> string) \<Rightarrow> (string \<Rightarrow> ms option) \<Rightarrow> keys_disk \<Rightarrow> key_error + keys_file" where
  "readKeysFile to_iso dp d = (case d of None \<Rightarrow> Inr [] | Some (_, raw) \<Rightarrow> parseKeysFile to_iso dp raw)"

definition writeKeysFile :: "ms \<Rightarrow> keys_file \<Rightarrow> keys_disk" where
  "writeKeysFile mtime f = Some (mtime, Some (keys_json f))"

definition store_load ::
  "(ms \<Rightarrow> string) \<Rightarrow> (string \<Rightarrow> ms option) \<Rightarrow> keys_disk \<Rightarrow> key_store \<Rightarrow> key_store" where
  "store_load to_iso dp d s =
     (if disk_mtime d = ks_mtimeMs s then s
      else (case readKeysFile to_iso dp d of
              Inr f \<Rightarrow> s\<lparr>ks_file := f, ks_loadError := None, ks_mtimeMs := disk_mtime d\<rparr>
            | Inl e \<Rightarrow> s\<lparr>ks_loadError := Some e, ks_mtimeMs := disk_mtime d\<rparr>))"

definition store_match ::
  "(ms \<Rightarrow> string) \<Rightarrow> (string \<Rightarrow> string) \<Rightarrow> (string \<Rightarrow> ms option) \<Rightarrow> keys_disk \<Rightarrow> string option \<Rightarrow> ms
     \<Rightarrow> key_store \<Rightarrow> key_record option \<times> key_store" where
  "store_match to_iso hash dp d provided now s =
     (let s' = store_load to_iso dp d s
      in (case truthy provided of
            None \<Rightarrow> None
          | Some p \<Rightarrow> (if length (ks_file s') = 0 then None else matchKey hash dp (ks_file s') p now), s'))"

definition store_byName ::
  "(ms \<Rightarrow> string) \<Rightarrow> (string \<Rightarrow> ms option) \<Rightarrow> keys_disk \<Rightarrow> string \<Rightarrow> ms \<Rightarrow> key_store
     \<Rightarrow> key_record option \<times> key_store" where
  "store_byName to_iso dp d name now s =
     (let s' = store_load to_iso dp d s
      in (case find_key (ks_file s') name of
            None \<Rightarrow> None | Some k \<Rightarrow> (if keyIsUsable dp k now then Some k else None), s'))"

text \<open>\<open>touch\<close> stamps the record it is given, which is one of the store's.\<close>

definition store_touch :: "(ms \<Rightarrow> string) \<Rightarrow> key_record \<Rightarrow> ms \<Rightarrow> key_store \<Rightarrow> key_store" where
  "store_touch to_iso k now s =
     s\<lparr>ks_file := map (\<lambda>r. if r = k then r\<lparr>k_lastUsed := Some (to_iso now)\<rparr> else r) (ks_file s),
       ks_dirtyLastUsed := AList.update (k_id k) (to_iso now) (ks_dirtyLastUsed s),
       ks_flushTimer := True\<rparr>"

definition store_mutate ::
  "(ms \<Rightarrow> string) \<Rightarrow> (string \<Rightarrow> ms option) \<Rightarrow> ms \<Rightarrow> (keys_file \<Rightarrow> key_error + 'a \<times> keys_file) \<Rightarrow> keys_disk \<Rightarrow> key_store
     \<Rightarrow> key_error + 'a \<times> keys_disk \<times> key_store" where
  "store_mutate to_iso dp mtime change d s =
     (case readKeysFile to_iso dp d of
        Inl e \<Rightarrow> Inl e
      | Inr current \<Rightarrow>
          (case change current of
             Inl e \<Rightarrow> Inl e
           | Inr (out, f) \<Rightarrow> Inr (out, writeKeysFile mtime f, s\<lparr>ks_file := f, ks_mtimeMs := mtime\<rparr>)))"

text \<open>A pending stamp is applied to a record it is newer than.\<close>

definition later :: "(string \<Rightarrow> ms option) \<Rightarrow> string \<Rightarrow> string \<Rightarrow> bool" where
  "later dp a b \<longleftrightarrow> (case (dp a, dp b) of (Some x, Some y) \<Rightarrow> x > y | _ \<Rightarrow> False)"

definition stamped :: "(string \<Rightarrow> ms option) \<Rightarrow> (string, string) jsmap \<Rightarrow> key_record \<Rightarrow> key_record" where
  "stamped dp dirty k =
     (case truthy (map_of dirty (k_id k)) of
        None \<Rightarrow> k
      | Some t \<Rightarrow> (if (case truthy (k_lastUsed k) of None \<Rightarrow> True | Some l \<Rightarrow> later dp t l)
                  then k\<lparr>k_lastUsed := Some t\<rparr> else k))"

definition store_flush ::
  "(ms \<Rightarrow> string) \<Rightarrow> (string \<Rightarrow> ms option) \<Rightarrow> ms \<Rightarrow> keys_disk \<Rightarrow> key_store \<Rightarrow> keys_disk \<times> key_store" where
  "store_flush to_iso dp mtime d s =
     (if ks_dirtyLastUsed s = [] then (d, s)
      else let s1 = s\<lparr>ks_dirtyLastUsed := []\<rparr>
           in (case store_mutate to_iso dp mtime (\<lambda>f. Inr ((), map (stamped dp (ks_dirtyLastUsed s)) f)) d s1 of
                 Inl _ \<Rightarrow> (d, s1)
               | Inr (_, d', s') \<Rightarrow> (d', s')))"

text \<open>
  The proxy's view follows the disk and never forgets on a bad file: after a load the keys are
  those on disk when the file was changed and parses, the ones held before when it was changed and
  does not parse (the error is kept to be reported), and unchanged when the file was not touched;
  removing the file removes every key.
\<close>

theorem store_load_follows:
  "ks_file (store_load to_iso dp d s) =
     (if disk_mtime d = ks_mtimeMs s then ks_file s
      else case readKeysFile to_iso dp d of Inr f \<Rightarrow> f | Inl _ \<Rightarrow> ks_file s)
   \<and> ks_mtimeMs (store_load to_iso dp d s) = disk_mtime d
   \<and> store_load to_iso dp d (store_load to_iso dp d s) = store_load to_iso dp d s
   \<and> (ks_mtimeMs s \<noteq> -1 \<longrightarrow> ks_file (store_load to_iso dp None s) = [])"
  by (auto simp: store_load_def readKeysFile_def disk_mtime_def split: sum.splits)

theorem store_load_follows_witness:
  "ks_file (store_load sample_iso sample_dp None (new_store\<lparr>ks_mtimeMs := 4, ks_file := [sample_key ''alice'' CHR ''a'']\<rparr>)) = []"
proof -
  let ?s = "new_store\<lparr>ks_mtimeMs := 4, ks_file := [sample_key ''alice'' CHR ''a'']\<rparr>"
  have "ks_mtimeMs ?s \<noteq> -1" by simp
  then show ?thesis using store_load_follows [of sample_iso sample_dp None ?s] by blast
qed

lemma stamped_only:
  "(stamped dp dirty k)\<lparr>k_lastUsed := x\<rparr> = k\<lparr>k_lastUsed := x\<rparr>"
  by (simp add: stamped_def split: option.split)

lemma stamped_wf:
  assumes "record_wf dp k" and "\<And>i t. map_of dirty i = Some t \<Longrightarrow> dp t \<noteq> None"
  shows "record_wf dp (stamped dp dirty k)"
  using assms by (auto simp: stamped_def record_wf_def truthy_Some_iff split: option.splits)

text \<open>
  Recording who was seen never undoes an edit. \<open>flush\<close> re-reads the file first: what it writes is
  what is on disk at that moment, the records the CLI or the admin API changed in between included,
  with nothing but last-used stamps moved, and those only forward; if the file cannot be read it
  writes nothing.
\<close>

theorem flush_keeps_edits:
  assumes "keys_wf dp edited" and "\<And>i t. map_of (ks_dirtyLastUsed s) i = Some t \<Longrightarrow> dp t \<noteq> None"
    and "ks_dirtyLastUsed s \<noteq> []"
  shows "\<exists>f s'. store_flush to_iso dp m (Some (t, Some (keys_json edited))) s = (writeKeysFile m f, s')
           \<and> readKeysFile to_iso dp (writeKeysFile m f) = Inr f \<and> ks_file s' = f
           \<and> map (\<lambda>k. k\<lparr>k_lastUsed := None\<rparr>) f = map (\<lambda>k. k\<lparr>k_lastUsed := None\<rparr>) edited
           \<and> (\<forall>i < length f. \<forall>a b. k_lastUsed (edited ! i) = Some a \<and> a \<noteq> [] \<and> k_lastUsed (f ! i) = Some b
                 \<longrightarrow> b = a \<or> later dp b a)
         \<and> store_flush to_iso dp m (Some (t, None)) s = (Some (t, None), s\<lparr>ks_dirtyLastUsed := []\<rparr>)"
proof -
  let ?f = "map (stamped dp (ks_dirtyLastUsed s)) edited"
  have names: "map k_name ?f = map k_name edited"
    by (simp add: stamped_def split: option.split)
  have "record_wf dp (stamped dp (ks_dirtyLastUsed s) k)" if "k \<in> set edited" for k
    using stamped_wf [where dirty = "ks_dirtyLastUsed s"] assms(1,2) that by (simp add: keys_wf_def)
  then have wf: "keys_wf dp ?f" using assms(1) unfolding keys_wf_def names by simp
  have r: "readKeysFile to_iso dp (Some (t, Some (keys_json edited))) = Inr edited"
    by (simp add: readKeysFile_def keys_roundtrip [OF assms(1)])
  have "readKeysFile to_iso dp (writeKeysFile m ?f) = Inr ?f"
    by (simp add: readKeysFile_def writeKeysFile_def keys_roundtrip [OF wf])
  moreover have "store_flush to_iso dp m (Some (t, Some (keys_json edited))) s =
      (writeKeysFile m ?f, s\<lparr>ks_dirtyLastUsed := [], ks_file := ?f, ks_mtimeMs := m\<rparr>)"
    using assms(3) by (simp add: store_flush_def store_mutate_def r Let_def)
  moreover have "map (\<lambda>k. k\<lparr>k_lastUsed := None\<rparr>) ?f = map (\<lambda>k. k\<lparr>k_lastUsed := None\<rparr>) edited"
    by (simp add: stamped_only)
  moreover have "\<forall>i < length ?f. \<forall>a b. k_lastUsed (edited ! i) = Some a \<and> a \<noteq> [] \<and> k_lastUsed (?f ! i) = Some b
                 \<longrightarrow> b = a \<or> later dp b a"
    by (auto simp: stamped_def truthy_nonempty split: option.splits if_splits)
  moreover have "store_flush to_iso dp m (Some (t, None)) s = (Some (t, None), s\<lparr>ks_dirtyLastUsed := []\<rparr>)"
    using assms(3) by (simp add: store_flush_def store_mutate_def readKeysFile_def parseKeysFile_def Let_def)
  ultimately show ?thesis
    by (intro exI [of _ ?f] exI [of _ "s\<lparr>ks_dirtyLastUsed := [], ks_file := ?f, ks_mtimeMs := m\<rparr>"]) simp
qed

theorem flush_keeps_edits_witness:
  "\<exists>f s'. store_flush sample_iso (\<lambda>_. Some 0) 7 (Some (6, Some (keys_json [sample_key ''alice'' CHR ''a''])))
      (new_store\<lparr>ks_dirtyLastUsed := [(''aaaaaaaa'', ''p'')]\<rparr>) = (writeKeysFile 7 f, s')
     \<and> map (\<lambda>k. k\<lparr>k_lastUsed := None\<rparr>) f = [sample_key ''alice'' CHR ''a'']"
proof -
  let ?k = "sample_key ''alice'' CHR ''a''" and ?s = "new_store\<lparr>ks_dirtyLastUsed := [(''aaaaaaaa'', ''p'')]\<rparr>"
  have "KEY_NAME_RE ''alice''" by code_simp
  then have "keys_wf (\<lambda>_. Some 0) [?k]" using sample_key_wf by (simp add: keys_wf_def)
  moreover have "ks_dirtyLastUsed ?s \<noteq> []" by simp
  moreover have "map (\<lambda>k. k\<lparr>k_lastUsed := None\<rparr>) [?k] = [?k]" by (simp add: sample_key_def)
  ultimately show ?thesis
    using flush_keeps_edits [of "\<lambda>_. Some 0" "[?k]" ?s sample_iso 7 6] by fastforce
qed

end
