(* ===== verification/Ledger.thy ===== *)
theory Ledger
  imports Key_Budget
begin

text \<open>
  The lifetime ledger (\<open>ledger.ts\<close>): which served request is counted and as what, the per-day table
  of token counts with its split by consumer, its pruning, the usage of one consumer on one day that
  the key budgets read, and the ledger object with its delayed write. A day is the number of the
  UTC day, which the code renders as \<open>YYYY-MM-DD\<close>; the rendering keeps the order for four-digit
  years. Names of models and consumers are ordinary keys: the members every JavaScript object
  inherits (\<open>constructor\<close>, \<open>__proto__\<close>) are outside the model.
\<close>

section \<open>Cells, rows and the file\<close>

definition LEDGER_MAX_DAYS :: int where "LEDGER_MAX_DAYS = 730"

datatype ledger_bucket = Covered | Metered

record ledger_cell = token_cell +
  lc_requests :: int
  thinkingTokens :: ratio

record request_record = token_cell +
  rec_timestamp :: ms
  rec_consumer :: "string option"
  rec_model :: string
  rec_thinking :: jsnum
  rec_claim :: string
  rec_status :: int

record ledger_row =
  row_covered :: "ledger_cell option"
  row_metered :: "ledger_cell option"

type_synonym ledger_rows = "(string, ledger_row) jsmap"

record ledger_file =
  lf_since :: ms
  lf_updated :: ms
  lf_days :: "(int, ledger_rows) jsmap"
  lf_consumers :: "(int, (string, ledger_rows) jsmap) jsmap option"

definition emptyCell :: ledger_cell where
  "emptyCell = \<lparr>inputTokens = 0, outputTokens = 0, cacheReadTokens = 0, cacheCreateTokens = 0,
     lc_requests = 0, thinkingTokens = 0\<rparr>"

definition emptyLedger :: "ms \<Rightarrow> ledger_file" where
  "emptyLedger now = \<lparr>lf_since = now, lf_updated = now, lf_days = [], lf_consumers = None\<rparr>"

definition empty_row :: ledger_row where
  "empty_row = \<lparr>row_covered = None, row_metered = None\<rparr>"

definition dayKey :: "ms \<Rightarrow> int" where
  "dayKey atMs = atMs div 86400000"

definition dayMs :: "int \<Rightarrow> ms" where
  "dayMs day = day * 86400000 + 12 * 3600000"

section \<open>Counting a record\<close>

definition ledgerBucketFor :: "int \<Rightarrow> string option \<Rightarrow> ledger_bucket option" where
  "ledgerBucketFor status claim =
     (if status < 200 \<or> status \<ge> 300 then None
      else let bucket = billingBucketFromClaim claim
           in Some (if bucket = Api \<or> bucket = Extra_usage \<or> bucket = Credits then Metered else Covered))"

text \<open>\<open>addCell\<close>: what one record adds to a cell, and the row with that cell in place.\<close>

definition thinking_share :: "request_record \<Rightarrow> ratio" where
  "thinking_share r =
     (let thinking = (case rec_thinking r of Fin t \<Rightarrow> (if t > 0 then t else 0) | _ \<Rightarrow> 0)
      in min thinking (outputTokens r))"

definition add_record :: "request_record \<Rightarrow> ledger_cell \<Rightarrow> ledger_cell" where
  "add_record r cell =
     cell\<lparr>lc_requests := lc_requests cell + 1,
          inputTokens := inputTokens cell + inputTokens r,
          outputTokens := outputTokens cell + outputTokens r,
          cacheReadTokens := cacheReadTokens cell + cacheReadTokens r,
          cacheCreateTokens := cacheCreateTokens cell + cacheCreateTokens r,
          thinkingTokens := thinkingTokens cell + thinking_share r\<rparr>"

definition row_cell :: "ledger_bucket \<Rightarrow> ledger_row \<Rightarrow> ledger_cell option" where
  "row_cell b row = (case b of Covered \<Rightarrow> row_covered row | Metered \<Rightarrow> row_metered row)"

definition addCell :: "ledger_bucket \<Rightarrow> request_record \<Rightarrow> ledger_row \<Rightarrow> ledger_row" where
  "addCell b r row =
     (let cell = add_record r (opt_or (row_cell b row) emptyCell)
      in case b of Covered \<Rightarrow> row\<lparr>row_covered := Some cell\<rparr> | Metered \<Rightarrow> row\<lparr>row_metered := Some cell\<rparr>)"

definition add_row :: "ledger_bucket \<Rightarrow> string \<Rightarrow> request_record \<Rightarrow> ledger_rows \<Rightarrow> ledger_rows" where
  "add_row b model r rows = AList.update model (addCell b r (opt_or (map_of rows model) empty_row)) rows"

definition pruneLedger :: "int \<Rightarrow> ledger_file \<Rightarrow> ledger_file" where
  "pruneLedger maxDays f =
     (let days = sort (keys_of (lf_days f));
          days' = fold AList.delete (take (nat (int (length days) - maxDays)) days) (lf_days f)
      in f\<lparr>lf_days := days',
           lf_consumers := (case lf_consumers f of
               None \<Rightarrow> None
             | Some cs \<Rightarrow> let cs' = filter (\<lambda>e. fst e \<in> set (keys_of days')) cs
                          in if cs' = [] then None else Some cs')\<rparr>)"

definition addToLedger :: "request_record \<Rightarrow> ledger_file \<Rightarrow> bool \<times> ledger_file" where
  "addToLedger r f =
     (case ledgerBucketFor (rec_status r) (Some (rec_claim r)) of
        None \<Rightarrow> (False, f)
      | Some b \<Rightarrow>
          let day = dayKey (rec_timestamp r);
              model = opt_or (truthy (Some (rec_model r))) ''unknown'';
              f1 = f\<lparr>lf_days := AList.update day (add_row b model r (opt_list (map_of (lf_days f) day))) (lf_days f)\<rparr>;
              f2 = (case truthy (rec_consumer r) of
                      None \<Rightarrow> f1
                    | Some c \<Rightarrow>
                        let cs = opt_list (lf_consumers f1); byConsumer = opt_list (map_of cs day)
                        in f1\<lparr>lf_consumers := Some (AList.update day
                             (AList.update c (add_row b model r (opt_list (map_of byConsumer c))) byConsumer) cs)\<rparr>);
              f3 = (if lf_since f2 > rec_timestamp r then f2\<lparr>lf_since := rec_timestamp r\<rparr> else f2)
          in (True, pruneLedger LEDGER_MAX_DAYS f3))"

section \<open>What a consumer used on a day\<close>

definition ledger_round :: "ratio \<Rightarrow> ratio" where
  "ledger_round usd = of_int (js_round (usd * 1000000)) / 1000000"

definition row_cells :: "ledger_row \<Rightarrow> ledger_cell list" where
  "row_cells row = List.map_filter id [row_covered row, row_metered row]"

definition cell_tokens :: "ledger_cell \<Rightarrow> ratio" where
  "cell_tokens c = inputTokens c + outputTokens c + cacheReadTokens c + cacheCreateTokens c"

definition cell_cost :: "ms \<Rightarrow> string \<Rightarrow> ledger_cell \<Rightarrow> ratio" where
  "cell_cost atMs model c = costOfTokens model atMs (token_cell.truncate c)"

definition usage_step :: "ms \<Rightarrow> string \<Rightarrow> ledger_cell \<Rightarrow> key_usage \<Rightarrow> key_usage" where
  "usage_step atMs model c u =
     u\<lparr>u_usd := u_usd u + cell_cost atMs model c, u_tokens := u_tokens u + cell_tokens c,
       u_requests := u_requests u + lc_requests c\<rparr>"

definition rows_usage :: "ms \<Rightarrow> ledger_rows \<Rightarrow> key_usage" where
  "rows_usage atMs rows =
     fold (\<lambda>(model, row). fold (usage_step atMs model) (row_cells row)) rows
          \<lparr>u_usd = 0, u_tokens = 0, u_requests = 0\<rparr>"

definition consumer_rows :: "ledger_file \<Rightarrow> int \<Rightarrow> string \<Rightarrow> ledger_rows option" where
  "consumer_rows f day c =
     (case map_of (opt_list (lf_consumers f)) day of None \<Rightarrow> None | Some byConsumer \<Rightarrow> map_of byConsumer c)"

definition consumerDayUsage :: "ledger_file \<Rightarrow> string \<Rightarrow> ms \<Rightarrow> key_usage" where
  "consumerDayUsage f consumer now =
     (case consumer_rows f (dayKey now) consumer of
        None \<Rightarrow> \<lparr>u_usd = 0, u_tokens = 0, u_requests = 0\<rparr>
      | Some rows \<Rightarrow> let u = rows_usage (dayMs (dayKey now)) rows in u\<lparr>u_usd := ledger_round (u_usd u)\<rparr>)"

section \<open>Cells of a table\<close>

definition cell_of :: "ledger_rows \<Rightarrow> string \<Rightarrow> ledger_bucket \<Rightarrow> ledger_cell" where
  "cell_of rows model b =
     (case map_of rows model of None \<Rightarrow> emptyCell | Some row \<Rightarrow> opt_or (row_cell b row) emptyCell)"

lemma cell_of_Nil [simp]: "cell_of [] m b = emptyCell"
  by (simp add: cell_of_def)

lemma row_cell_addCell [simp]:
  "row_cell b' (addCell b r row) =
     (if b' = b then Some (add_record r (opt_or (row_cell b row) emptyCell)) else row_cell b' row)"
  by (cases b; cases b') (simp_all add: addCell_def row_cell_def)

lemma row_cell_empty [simp]: "row_cell b empty_row = None"
  by (cases b) (simp_all add: row_cell_def empty_row_def)

lemma cell_of_add_row:
  "cell_of (add_row b m r rows) m' b' =
     (if m' = m \<and> b' = b then add_record r (cell_of rows m b) else cell_of rows m' b')"
  by (simp add: cell_of_def add_row_def update_conv' split: option.split)

text \<open>The sum over a table after one of its entries changed.\<close>

lemma sum_update:
  fixes F :: "'k \<Rightarrow> 'v \<Rightarrow> 'n::ab_group_add"
  assumes "map_wf m"
  shows "sum_list (map (\<lambda>e. F (fst e) (snd e)) (AList.update k v m)) =
           sum_list (map (\<lambda>e. F (fst e) (snd e)) m)
             - (case map_of m k of None \<Rightarrow> 0 | Some v' \<Rightarrow> F k v') + F k v"
  using assms
proof (induction m)
  case Nil
  show ?case by simp
next
  case (Cons e m)
  then have IH: "sum_list (map (\<lambda>e. F (fst e) (snd e)) (AList.update k v m)) =
      sum_list (map (\<lambda>e. F (fst e) (snd e)) m) - (case map_of m k of None \<Rightarrow> 0 | Some v' \<Rightarrow> F k v') + F k v"
    by (auto simp: map_wf_def)
  show ?case by (cases e) (auto simp: IH algebra_simps)
qed

section \<open>Pruning\<close>

lemma fold_delete:
  "map_of (fold AList.delete ds m) k = (if k \<in> set ds then None else map_of m k)"
  "keys_of (fold AList.delete ds m) = filter (\<lambda>k. k \<notin> set ds) (keys_of m)"
proof (induction ds arbitrary: m)
  case Nil
  { case 1 show ?case by simp next case 2 show ?case by simp }
next
  case (Cons d ds)
  { case 1 show ?case by (simp add: Cons.IH(1) delete_conv')
  next case 2 show ?case by (simp add: Cons.IH(2) jm.keys_del conj_commute) }
qed

text \<open>The days that stay: the last \<open>maxDays\<close> of the sorted ones.\<close>

definition kept_days :: "int \<Rightarrow> int list \<Rightarrow> int set" where
  "kept_days maxDays ds = set (drop (nat (int (length ds) - maxDays)) (sort ds))"

lemma set_diff_take:
  assumes "distinct xs"
  shows "set xs - set (take j (sort xs)) = set (drop j (sort xs))"
proof -
  have "set xs = set (take j (sort xs)) \<union> set (drop j (sort xs))"
    by (metis append_take_drop_id set_append set_sort)
  moreover have "set (take j (sort xs)) \<inter> set (drop j (sort xs)) = {}"
    using assms by (intro set_take_disj_set_drop_if_distinct) auto
  ultimately show ?thesis by auto
qed

lemma prune_days:
  assumes "map_wf (lf_days f)"
  shows "map_of (lf_days (pruneLedger n f)) d =
           (if d \<in> kept_days n (keys_of (lf_days f)) then map_of (lf_days f) d else None)"
    and "set (keys_of (lf_days (pruneLedger n f))) = kept_days n (keys_of (lf_days f))"
    and "map_wf (lf_days (pruneLedger n f))"
proof -
  let ?ks = "keys_of (lf_days f)" and ?j = "nat (int (length (lf_days f)) - n)"
  have dist: "distinct ?ks" using assms by (simp add: map_wf_def)
  have days: "lf_days (pruneLedger n f) = fold AList.delete (take ?j (sort ?ks)) (lf_days f)"
    by (simp add: pruneLedger_def Let_def)
  have kept: "kept_days n ?ks = set ?ks - set (take ?j (sort ?ks))"
    by (simp only: set_diff_take [OF dist] kept_days_def length_map)
  show "map_of (lf_days (pruneLedger n f)) d = (if d \<in> kept_days n ?ks then map_of (lf_days f) d else None)"
    unfolding days fold_delete(1) kept by (auto simp: map_of_eq_None_iff)
  show "set (keys_of (lf_days (pruneLedger n f))) = kept_days n ?ks"
    unfolding days fold_delete(2) kept by auto
  show "map_wf (lf_days (pruneLedger n f))"
    unfolding map_wf_def days fold_delete(2) using dist by simp
qed

lemma prune_bound:
  assumes "map_wf (lf_days f)" and "0 \<le> n"
  shows "int (length (lf_days (pruneLedger n f))) \<le> n"
proof -
  let ?ks = "keys_of (lf_days f)"
  have "length (lf_days (pruneLedger n f)) = card (set (keys_of (lf_days (pruneLedger n f))))"
    using prune_days(3) [OF assms(1), of n] by (metis distinct_card length_map map_wf_def)
  also have "\<dots> \<le> length (drop (nat (int (length ?ks) - n)) (sort ?ks))"
    unfolding prune_days(2) [OF assms(1)] kept_days_def by (rule card_length)
  finally show ?thesis using assms(2) by simp
qed

lemma map_of_filter_keys:
  "map_of (filter (\<lambda>e. fst e \<in> S) m) k = (if k \<in> S then map_of m k else None)"
  by (induction m) auto

lemma prune_consumers:
  assumes "map_wf (lf_days f)"
  shows "map_of (opt_list (lf_consumers (pruneLedger n f))) d =
           (if d \<in> kept_days n (keys_of (lf_days f)) then map_of (opt_list (lf_consumers f)) d else None)"
    and "map_wf (opt_list (lf_consumers f)) \<Longrightarrow> map_wf (opt_list (lf_consumers (pruneLedger n f)))"
proof -
  have c: "opt_list (lf_consumers (pruneLedger n f)) =
      filter (\<lambda>e. fst e \<in> set (keys_of (lf_days (pruneLedger n f)))) (opt_list (lf_consumers f))"
    by (simp add: pruneLedger_def Let_def split: option.split)
  show "map_of (opt_list (lf_consumers (pruneLedger n f))) d =
           (if d \<in> kept_days n (keys_of (lf_days f)) then map_of (opt_list (lf_consumers f)) d else None)"
    unfolding c map_of_filter_keys prune_days(2) [OF assms] ..
  show "map_wf (opt_list (lf_consumers f)) \<Longrightarrow> map_wf (opt_list (lf_consumers (pruneLedger n f)))"
    unfolding c by (rule map_wf_filter)
qed

section \<open>What a run of records keeps\<close>

definition rows_of :: "ledger_file \<Rightarrow> int \<Rightarrow> ledger_rows" where
  "rows_of f d = opt_list (map_of (lf_days f) d)"

definition by_day :: "ledger_file \<Rightarrow> int \<Rightarrow> (string, ledger_rows) jsmap" where
  "by_day f d = opt_list (map_of (opt_list (lf_consumers f)) d)"

text \<open>The counts of a cell that add up, and the sum of one over the consumers of a day.\<close>

definition measures :: "(ledger_cell \<Rightarrow> ratio) set" where
  "measures = {\<lambda>c. of_int (lc_requests c), inputTokens, outputTokens, cacheReadTokens, cacheCreateTokens}"

definition split_total :: "(ledger_cell \<Rightarrow> ratio) \<Rightarrow> (string, ledger_rows) jsmap \<Rightarrow> string \<Rightarrow> ledger_bucket \<Rightarrow> ratio" where
  "split_total g by m b = sum_list (map (\<lambda>e. g (cell_of (snd e) m b)) by)"

definition record_ok :: "request_record \<Rightarrow> bool" where
  "record_ok r \<longleftrightarrow> 0 \<le> inputTokens r \<and> 0 \<le> outputTokens r \<and> 0 \<le> cacheReadTokens r \<and> 0 \<le> cacheCreateTokens r"

definition rows_ok :: "ledger_rows \<Rightarrow> bool" where
  "rows_ok rows \<longleftrightarrow> map_wf rows \<and> (\<forall>m b. thinkingTokens (cell_of rows m b) \<le> outputTokens (cell_of rows m b))"

definition table_inv :: "ledger_file \<Rightarrow> bool" where
  "table_inv f \<longleftrightarrow>
     map_wf (lf_days f) \<and> map_wf (opt_list (lf_consumers f)) \<and> (\<forall>d. map_wf (by_day f d))
     \<and> (\<forall>g \<in> measures. \<forall>d m b. split_total g (by_day f d) m b \<le> g (cell_of (rows_of f d) m b))
     \<and> (\<forall>d. rows_ok (rows_of f d)) \<and> (\<forall>d c. rows_ok (opt_list (map_of (by_day f d) c)))"

definition ledger_inv :: "ledger_file \<Rightarrow> bool" where
  "ledger_inv f \<longleftrightarrow> table_inv f \<and> int (length (lf_days f)) \<le> LEDGER_MAX_DAYS"

lemma measures_add:
  assumes "g \<in> measures"
  shows "g (add_record r c) = g c + g (add_record r emptyCell)" and "g emptyCell = 0"
    and "record_ok r \<Longrightarrow> 0 \<le> g (add_record r emptyCell)"
  using assms by (auto simp: measures_def add_record_def emptyCell_def record_ok_def)

lemma rows_ok_Nil [simp]: "rows_ok []"
  by (simp add: rows_ok_def emptyCell_def)

lemma rows_ok_add_row: "rows_ok rows \<Longrightarrow> rows_ok (add_row b m r rows)"
  by (auto simp: rows_ok_def cell_of_add_row add_record_def thinking_share_def Let_def intro: add_mono)
    (simp add: add_row_def map_wf_update)

lemma split_total_update:
  assumes "map_wf by" and "g \<in> measures"
  shows "split_total g (AList.update c (add_row b m r (opt_list (map_of by c))) by) m' b' =
           split_total g by m' b' + (if m' = m \<and> b' = b then g (add_record r emptyCell) else 0)"
proof -
  have "split_total g (AList.update c v by) m' b' = split_total g by m' b'
      - g (cell_of (opt_list (map_of by c)) m' b') + g (cell_of v m' b')" for v
    using sum_update [OF assms(1), of "\<lambda>_ rows. g (cell_of rows m' b')" c v] measures_add(2) [OF assms(2)]
    by (simp add: split_total_def split: option.splits)
  then show ?thesis
    using measures_add(1) [OF assms(2), of r "cell_of (opt_list (map_of by c)) m b"] by (simp add: cell_of_add_row)
qed

text \<open>\<open>addToLedger\<close> before it prunes.\<close>

definition rec_model_key :: "request_record \<Rightarrow> string" where
  "rec_model_key r = opt_or (truthy (Some (rec_model r))) ''unknown''"

definition counted :: "ledger_bucket \<Rightarrow> request_record \<Rightarrow> ledger_file \<Rightarrow> ledger_file" where
  "counted b r f =
     f\<lparr>lf_days := AList.update (dayKey (rec_timestamp r))
         (add_row b (rec_model_key r) r (rows_of f (dayKey (rec_timestamp r)))) (lf_days f),
       lf_consumers :=
         (case truthy (rec_consumer r) of
            None \<Rightarrow> lf_consumers f
          | Some c \<Rightarrow> Some (AList.update (dayKey (rec_timestamp r))
              (AList.update c (add_row b (rec_model_key r) r (opt_list (map_of (by_day f (dayKey (rec_timestamp r))) c)))
                 (by_day f (dayKey (rec_timestamp r)))) (opt_list (lf_consumers f)))),
       lf_since := (if lf_since f > rec_timestamp r then rec_timestamp r else lf_since f)\<rparr>"

lemma addToLedger_counted:
  "addToLedger r f =
     (case ledgerBucketFor (rec_status r) (Some (rec_claim r)) of
        None \<Rightarrow> (False, f) | Some b \<Rightarrow> (True, pruneLedger LEDGER_MAX_DAYS (counted b r f)))"
  by (cases "truthy (rec_consumer r)"; cases "lf_since f > rec_timestamp r")
    (simp_all add: addToLedger_def counted_def rec_model_key_def rows_of_def by_day_def Let_def
      cong: option.case_cong)

lemma counted_rows:
  "rows_of (counted b r f) d =
     (if d = dayKey (rec_timestamp r) then add_row b (rec_model_key r) r (rows_of f d) else rows_of f d)"
  by (simp add: counted_def rows_of_def update_conv')

lemma counted_by_day:
  "by_day (counted b r f) d =
     (case truthy (rec_consumer r) of
        None \<Rightarrow> by_day f d
      | Some c \<Rightarrow> (if d = dayKey (rec_timestamp r)
                   then AList.update c (add_row b (rec_model_key r) r (opt_list (map_of (by_day f d) c))) (by_day f d)
                   else by_day f d))"
  by (simp add: counted_def by_day_def update_conv' split: option.split)

lemma counted_inv:
  assumes "table_inv f" and "record_ok r"
  shows "table_inv (counted b r f)"
proof -
  let ?day = "dayKey (rec_timestamp r)" and ?f = "counted b r f"
  have wf: "map_wf (lf_days f)" "map_wf (opt_list (lf_consumers f))" "map_wf (by_day f d)" for d
    using assms(1) by (simp_all add: table_inv_def)
  have think: "rows_ok (rows_of f d)" "rows_ok (opt_list (map_of (by_day f d) c))" for d c
    using assms(1) by (simp_all add: table_inv_def)
  have "split_total g (by_day ?f d) m b' \<le> g (cell_of (rows_of ?f d) m b')" if g: "g \<in> measures" for g d m b'
  proof -
    have "split_total g (by_day f d) m b' \<le> g (cell_of (rows_of f d) m b')"
      using assms(1) g by (simp add: table_inv_def)
    moreover have "0 \<le> g (add_record r emptyCell)" by (rule measures_add(3) [OF g assms(2)])
    ultimately show ?thesis
      using measures_add(1) [OF g, of r "cell_of (rows_of f d) m b'"]
      by (auto simp: counted_rows counted_by_day cell_of_add_row split_total_update [OF wf(3) g] split: option.split)
  qed
  moreover have "map_wf (lf_days ?f)" "map_wf (opt_list (lf_consumers ?f))"
    using wf by (simp_all add: counted_def map_wf_update split: option.split)
  moreover have "map_wf (by_day ?f d)" for d
    using wf by (simp add: counted_by_day map_wf_update split: option.split)
  moreover have "rows_ok (rows_of ?f d)" for d
    using think by (simp add: counted_rows rows_ok_add_row)
  moreover have "rows_ok (opt_list (map_of (by_day ?f d) c))" for d c
    using think(2) [of d] by (auto simp: counted_by_day update_conv' rows_ok_add_row split: option.split)
  ultimately show ?thesis unfolding table_inv_def by blast
qed

lemma prune_rows:
  assumes "map_wf (lf_days f)"
  shows "rows_of (pruneLedger n f) d = (if d \<in> kept_days n (keys_of (lf_days f)) then rows_of f d else [])"
    and "by_day (pruneLedger n f) d = (if d \<in> kept_days n (keys_of (lf_days f)) then by_day f d else [])"
  by (simp_all add: rows_of_def by_day_def prune_days(1) [OF assms] prune_consumers(1) [OF assms])

lemma prune_inv:
  assumes "table_inv f" and "0 \<le> n"
  shows "table_inv (pruneLedger n f) \<and> int (length (lf_days (pruneLedger n f))) \<le> n"
proof -
  have wf: "map_wf (lf_days f)" "map_wf (opt_list (lf_consumers f))" using assms(1) by (simp_all add: table_inv_def)
  note rows = prune_rows [OF wf(1), of n]
  have "split_total g (by_day (pruneLedger n f) d) m b \<le> g (cell_of (rows_of (pruneLedger n f) d) m b)"
    if "g \<in> measures" for g d m b
    using assms(1) that measures_add(2) [OF that] by (simp add: rows table_inv_def) (simp add: split_total_def)
  moreover have "map_wf (by_day (pruneLedger n f) d) \<and> rows_ok (rows_of (pruneLedger n f) d)
      \<and> (\<forall>c. rows_ok (opt_list (map_of (by_day (pruneLedger n f) d) c)))" for d
    using assms(1) by (simp add: rows table_inv_def)
  ultimately show ?thesis
    unfolding table_inv_def
    using prune_days(3) [OF wf(1), of n] prune_consumers(2) [OF wf, of n] prune_bound [OF wf(1) assms(2)] by blast
qed

interpretation ledger_machine: inv_machine "\<lambda>r f. snd (addToLedger r f)" "\<lambda>r _. record_ok r" ledger_inv
proof
  fix f r assume inv: "ledger_inv f" and ok: "record_ok r"
  show "ledger_inv (snd (addToLedger r f))"
  proof (cases "ledgerBucketFor (rec_status r) (Some (rec_claim r))")
    case None
    then show ?thesis using inv by (simp add: addToLedger_counted)
  next
    case (Some b)
    have "table_inv (counted b r f)" using inv ok counted_inv by (simp add: ledger_inv_def)
    from prune_inv [OF this, of LEDGER_MAX_DAYS] Some show ?thesis
      by (simp add: addToLedger_counted ledger_inv_def LEDGER_MAX_DAYS_def)
  qed
qed

lemma ledger_inv_empty: "ledger_inv (emptyLedger t)"
  by (simp add: measures_add(2) ledger_inv_def table_inv_def emptyLedger_def rows_of_def by_day_def split_total_def LEDGER_MAX_DAYS_def)

text \<open>
  C34. What every sequence of served requests leaves on file: at most two years of days, one row per
  day; thinking tokens that never exceed the output they are a share of; and a split by consumer
  that claims, for any day, model and bucket, no more requests or tokens than the day's own row.
\<close>

theorem ledger_run_safe:
  assumes "\<forall>r \<in> set rs. record_ok r" and "g \<in> measures"
    and "f = fold (\<lambda>r f. snd (addToLedger r f)) rs (emptyLedger t)"
  shows "int (length (lf_days f)) \<le> 730 \<and> distinct (keys_of (lf_days f))
       \<and> thinkingTokens (cell_of (rows_of f d) m b) \<le> outputTokens (cell_of (rows_of f d) m b)
       \<and> sum_list (map (\<lambda>e. g (cell_of (snd e) m b)) (by_day f d)) \<le> g (cell_of (rows_of f d) m b)"
proof -
  have "ledger_machine.allowed rs s" for s
    using assms(1) by (induction rs arbitrary: s) simp_all
  then have "ledger_inv f"
    unfolding assms(3) by (intro ledger_machine.run_inv ledger_inv_empty)
  then have "table_inv f" and "int (length (lf_days f)) \<le> 730" by (simp_all add: ledger_inv_def LEDGER_MAX_DAYS_def)
  with assms(2) show ?thesis
    by (simp add: table_inv_def map_wf_def rows_ok_def split_total_def)
qed

definition sample_record :: "string \<Rightarrow> ms \<Rightarrow> request_record" where
  "sample_record c t = \<lparr>inputTokens = 100, outputTokens = 50, cacheReadTokens = 0, cacheCreateTokens = 0,
     rec_timestamp = t, rec_consumer = Some c, rec_model = ''claude-opus-4-8'', rec_thinking = Fin 80,
     rec_claim = ''five_hour'', rec_status = 200\<rparr>"

theorem ledger_run_safe_witness:
  "thinkingTokens (cell_of (rows_of (snd (addToLedger (sample_record ''bob'' 0) (emptyLedger 0))) 0) ''claude-opus-4-8'' Covered)
     \<le> outputTokens (cell_of (rows_of (snd (addToLedger (sample_record ''bob'' 0) (emptyLedger 0))) 0) ''claude-opus-4-8'' Covered)"
proof -
  have ok: "\<forall>r \<in> set [sample_record ''bob'' 0]. record_ok r" by (simp add: sample_record_def record_ok_def)
  have g: "inputTokens \<in> measures" by (simp add: measures_def)
  from ledger_run_safe [OF ok g refl, of 0 0 "''claude-opus-4-8''" Covered]
  show ?thesis by simp
qed

section \<open>One consumer's day\<close>

definition row_sum :: "(ledger_cell \<Rightarrow> 'n::ab_group_add) \<Rightarrow> ledger_row \<Rightarrow> 'n" where
  "row_sum F row = sum_list (map F (row_cells row))"

lemma row_sum_add:
  assumes "\<And>c. F (add_record r c) = F c + G" and "F emptyCell = 0"
  shows "row_sum F (addCell b r row) = row_sum F row + G"
  using assms
  by (cases b; cases "row_covered row"; cases "row_metered row")
    (simp_all add: row_sum_def row_cells_def addCell_def row_cell_def List.map_filter_def algebra_simps)

lemma row_sum_empty [simp]: "row_sum F empty_row = 0"
  by (simp add: row_sum_def row_cells_def empty_row_def List.map_filter_def)

lemma sum_add_row:
  assumes "map_wf rows" and "\<And>c. F m (add_record r c) = F m c + G" and "F m emptyCell = 0"
  shows "sum_list (map (\<lambda>e. row_sum (F (fst e)) (snd e)) (add_row b m r rows)) =
           sum_list (map (\<lambda>e. row_sum (F (fst e)) (snd e)) rows) + (G :: 'n::ab_group_add)"
  using sum_update [OF assms(1), of "\<lambda>m. row_sum (F m)" m "addCell b r (opt_or (map_of rows m) empty_row)"]
    row_sum_add [where F = "F m", OF assms(2,3)]
  by (simp add: add_row_def split: option.splits)

text \<open>The fold of \<open>consumerDayUsage\<close> is three sums.\<close>

lemma fold_usage_step:
  "fold (usage_step t m) cs u =
     u\<lparr>u_usd := u_usd u + sum_list (map (cell_cost t m) cs), u_tokens := u_tokens u + sum_list (map cell_tokens cs),
       u_requests := u_requests u + sum_list (map lc_requests cs)\<rparr>"
  by (induction cs arbitrary: u) (simp_all add: usage_step_def algebra_simps)

lemma rows_usage_sums:
  "rows_usage t rows =
     \<lparr>u_usd = sum_list (map (\<lambda>e. row_sum (cell_cost t (fst e)) (snd e)) rows),
      u_tokens = sum_list (map (\<lambda>e. row_sum cell_tokens (snd e)) rows),
      u_requests = sum_list (map (\<lambda>e. row_sum lc_requests (snd e)) rows)\<rparr>"
proof -
  have "fold (\<lambda>(m, row). fold (usage_step t m) (row_cells row)) rows u =
      u\<lparr>u_usd := u_usd u + sum_list (map (\<lambda>e. row_sum (cell_cost t (fst e)) (snd e)) rows),
        u_tokens := u_tokens u + sum_list (map (\<lambda>e. row_sum cell_tokens (snd e)) rows),
        u_requests := u_requests u + sum_list (map (\<lambda>e. row_sum lc_requests (snd e)) rows)\<rparr>" for u
    by (induction rows arbitrary: u) (simp_all add: split_def fold_usage_step row_sum_def algebra_simps)
  then show ?thesis by (simp add: rows_usage_def)
qed

definition record_cost :: "ms \<Rightarrow> request_record \<Rightarrow> ratio" where
  "record_cost t r = costOfTokens (rec_model_key r) t (token_cell.truncate r)"

lemma cell_cost_add:
  "cell_cost t (rec_model_key r) (add_record r c) = cell_cost t (rec_model_key r) c + record_cost t r"
  by (simp add: cell_cost_def record_cost_def costOfTokens_def price_at_def add_record_def
      token_cell.truncate_def field_simps)

lemma cell_cost_empty [simp]: "cell_cost t m emptyCell = 0"
  by (simp add: cell_cost_def costOfTokens_def price_at_def emptyCell_def token_cell.truncate_def)

lemma round_error: "\<bar>ledger_round x - x\<bar> \<le> 1 / 2000000"
proof -
  have "\<bar>of_int (js_round (x * 1000000)) - x * 1000000\<bar> \<le> 1 / 2"
    unfolding js_round_def by linarith
  then show ?thesis unfolding ledger_round_def by (simp add: abs_le_iff field_simps)
qed

lemma round_add: "\<bar>ledger_round (x + y) - (ledger_round x + y)\<bar> \<le> 1 / 1000000"
  using round_error [of x] round_error [of "x + y"] by linarith

lemma kept_max:
  assumes "d \<in> set ks" and "\<And>k. k \<in> set ks \<Longrightarrow> k \<le> d" and "0 < n"
  shows "d \<in> kept_days n ks"
proof -
  have ne: "sort ks \<noteq> []" using assms(1) by (metis empty_iff list.set(1) set_sort)
  have split: "sort ks = butlast (sort ks) @ [last (sort ks)]" using ne by simp
  have "sorted (butlast (sort ks) @ [last (sort ks)])" using sorted_sort [of ks] split by simp
  then have "\<forall>x \<in> set (sort ks). x \<le> last (sort ks)"
    using split by (metis Un_iff order_refl set_ConsD set_append sorted_append empty_iff list.set(1) list.set_intros(1))
  moreover have "last (sort ks) \<in> set ks" using last_in_set [OF ne] by simp
  ultimately have "last (sort ks) = d" using assms(1,2) by (simp add: order_antisym)
  moreover have "nat (int (length ks) - n) < length (sort ks)" using assms(3) ne by (cases ks) auto
  ultimately show ?thesis using last_in_drop unfolding kept_days_def by metis
qed

lemma consumerDayUsage_rows:
  "consumerDayUsage f c now =
     (let u = rows_usage (dayMs (dayKey now)) (opt_list (map_of (by_day f (dayKey now)) c))
      in u\<lparr>u_usd := ledger_round (u_usd u)\<rparr>)"
  by (simp add: consumerDayUsage_def consumer_rows_def by_day_def rows_usage_def Let_def ledger_round_def
      js_round_of_int [of 0, simplified] split: option.split)

text \<open>
  The figure a key's budget is held against is exact. When a served request of a consumer is
  counted and no later day is on file, that consumer's usage of the day goes up by one request, by
  all the tokens of the request, and by its price at the day's rate up to the rounding to a
  millionth of a dollar; nobody else's usage of that day moves.
\<close>

theorem consumer_usage_exact:
  assumes "ledger_inv f" and "ledgerBucketFor (rec_status r) (Some (rec_claim r)) = Some b"
    and "rec_consumer r = Some c" and "c \<noteq> []" and "dayKey (rec_timestamp r) = dayKey now"
    and "\<And>d. d \<in> set (keys_of (lf_days f)) \<Longrightarrow> d \<le> dayKey now"
  shows "let u = consumerDayUsage f c now; u' = consumerDayUsage (snd (addToLedger r f)) c now
         in u_requests u' = u_requests u + 1
            \<and> u_tokens u' = u_tokens u + inputTokens r + outputTokens r + cacheReadTokens r + cacheCreateTokens r
            \<and> \<bar>u_usd u' - (u_usd u + record_cost (dayMs (dayKey now)) r)\<bar> \<le> 1 / 1000000
            \<and> (\<forall>c'. c' \<noteq> c \<longrightarrow> consumerDayUsage (snd (addToLedger r f)) c' now = consumerDayUsage f c' now)"
proof -
  let ?d = "dayKey now" and ?rows = "opt_list (map_of (by_day f (dayKey now)) c)"
  have inv: "table_inv f" using assms(1) by (simp add: ledger_inv_def)
  have wf: "map_wf (lf_days f)" "map_wf ?rows" using inv by (simp_all add: table_inv_def rows_ok_def)
  have wfc: "map_wf (lf_days (counted b r f))" using wf(1) by (simp add: counted_def map_wf_update)
  have keys: "set (keys_of (lf_days (counted b r f))) = insert ?d (set (keys_of (lf_days f)))"
    by (simp add: counted_def dom_update [unfolded dom_map_of_conv_image_fst] assms(5))
  have "?d \<in> kept_days LEDGER_MAX_DAYS (keys_of (lf_days (counted b r f)))"
    using assms(6) by (intro kept_max) (simp only: keys insertI1, simp only: keys, blast, simp add: LEDGER_MAX_DAYS_def)
  then have day: "by_day (snd (addToLedger r f)) ?d = AList.update c (add_row b (rec_model_key r) r ?rows) (by_day f ?d)"
    using assms(2,3,4,5) prune_rows(2) [OF wfc, of LEDGER_MAX_DAYS ?d]
    by (simp add: addToLedger_counted counted_by_day truthy_nonempty)
  have own: "consumerDayUsage (snd (addToLedger r f)) c now =
      (let u = rows_usage (dayMs ?d) (add_row b (rec_model_key r) r ?rows) in u\<lparr>u_usd := ledger_round (u_usd u)\<rparr>)"
    by (simp add: consumerDayUsage_rows day update_conv')
  let ?m = "rec_model_key r"
  have "sum_list (map (\<lambda>e. row_sum lc_requests (snd e)) (add_row b ?m r ?rows)) =
      sum_list (map (\<lambda>e. row_sum lc_requests (snd e)) ?rows) + 1"
    by (rule sum_add_row [where F = "\<lambda>_. lc_requests", OF wf(2)]) (simp_all add: add_record_def emptyCell_def)
  moreover have "sum_list (map (\<lambda>e. row_sum cell_tokens (snd e)) (add_row b ?m r ?rows)) =
      sum_list (map (\<lambda>e. row_sum cell_tokens (snd e)) ?rows)
        + (inputTokens r + outputTokens r + cacheReadTokens r + cacheCreateTokens r)"
    by (rule sum_add_row [where F = "\<lambda>_. cell_tokens", OF wf(2)])
      (simp_all add: add_record_def emptyCell_def cell_tokens_def)
  moreover have "sum_list (map (\<lambda>e. row_sum (cell_cost (dayMs ?d) (fst e)) (snd e)) (add_row b ?m r ?rows)) =
      sum_list (map (\<lambda>e. row_sum (cell_cost (dayMs ?d) (fst e)) (snd e)) ?rows) + record_cost (dayMs ?d) r"
    by (rule sum_add_row [where F = "cell_cost (dayMs ?d)", OF wf(2)]) (simp_all add: cell_cost_add)
  ultimately have "let u = consumerDayUsage f c now; u' = consumerDayUsage (snd (addToLedger r f)) c now
         in u_requests u' = u_requests u + 1
            \<and> u_tokens u' = u_tokens u + inputTokens r + outputTokens r + cacheReadTokens r + cacheCreateTokens r
            \<and> \<bar>u_usd u' - (u_usd u + record_cost (dayMs (dayKey now)) r)\<bar> \<le> 1 / 1000000"
    using round_add [of "sum_list (map (\<lambda>e. row_sum (cell_cost (dayMs ?d) (fst e)) (snd e)) ?rows)"
        "record_cost (dayMs ?d) r"]
    by (simp add: own consumerDayUsage_rows [of f] rows_usage_sums Let_def)
  moreover have "consumerDayUsage (snd (addToLedger r f)) c' now = consumerDayUsage f c' now" if "c' \<noteq> c" for c'
    using that by (simp add: consumerDayUsage_rows day update_conv')
  ultimately show ?thesis by (simp add: Let_def)
qed

theorem consumer_usage_exact_witness:
  "u_requests (consumerDayUsage (snd (addToLedger (sample_record ''bob'' 5) (emptyLedger 0))) ''bob'' 9) = 1
   \<and> u_tokens (consumerDayUsage (snd (addToLedger (sample_record ''bob'' 5) (emptyLedger 0))) ''bob'' 9) = 150"
proof -
  have "ledgerBucketFor (rec_status (sample_record ''bob'' 5)) (Some (rec_claim (sample_record ''bob'' 5))) = Some Covered"
    "rec_consumer (sample_record ''bob'' 5) = Some ''bob''" "''bob'' \<noteq> []"
    "dayKey (rec_timestamp (sample_record ''bob'' 5)) = dayKey 9"
    by (simp_all add: sample_record_def ledgerBucketFor_def billingBucketFromClaim_def dayKey_def)
  from consumer_usage_exact [OF ledger_inv_empty this, of 0] show ?thesis
    by (simp add: Let_def sample_record_def consumerDayUsage_def consumer_rows_def emptyLedger_def)
qed

lemma metered_iff:
  "(billingBucketFromClaim (Some c) = Api \<or> billingBucketFromClaim (Some c) = Extra_usage
     \<or> billingBucketFromClaim (Some c) = Credits) \<longleftrightarrow> c \<in> {''overage'', ''api'', CREDITS_CLAIM}"
  by (simp add: billingBucketFromClaim_def CREDITS_CLAIM_def)

lemma covered_iff:
  "ledgerBucketFor status (Some c) = Some Covered \<longleftrightarrow>
     200 \<le> status \<and> status < 300 \<and> c \<notin> {''overage'', ''api'', CREDITS_CLAIM}"
  unfolding metered_iff [symmetric] by (auto simp: ledgerBucketFor_def Let_def)

lemma nonsub_iff:
  "isNonSubscriptionBilling (Some c) \<longleftrightarrow>
     c \<noteq> [] \<and> c \<noteq> NO_BILLING_CLAIM \<and> c \<noteq> CREDITS_CLAIM \<and> c \<notin> set SUBSCRIPTION_CLAIMS"
  by (cases c) (auto simp: isNonSubscriptionBilling_def truthy_nonempty)

text \<open>
  Paid traffic that is booked as covered. A served request is filed as covered by the plan while
  the overage guard takes its claim for paid billing exactly when the claim is one neither list
  knows: the guard halts on it, and the ledger counts its price as saved.
\<close>

theorem covered_yet_overage_iff:
  "(ledgerBucketFor status (Some claim) = Some Covered \<and> isNonSubscriptionBilling (Some claim)) \<longleftrightarrow>
     200 \<le> status \<and> status < 300 \<and> claim \<noteq> [] \<and> claim \<noteq> NO_BILLING_CLAIM
     \<and> claim \<notin> set SUBSCRIPTION_CLAIMS \<and> claim \<notin> {''overage'', ''api'', CREDITS_CLAIM}"
  unfolding covered_iff nonsub_iff by blast

end
