(* ===== verification/Overage_Guard.thy ===== *)
theory Overage_Guard
  imports Pricing Timers
begin

text \<open>
  The overage guard (\<open>overage-guard.ts\<close>): the first response billed outside the subscription halts the
  proxy until someone resumes it or the cool-down ends. The state is the halt, the armed timer and
  the listener; the events the guard emits are a list, newest last. Wall-clock readings and the
  firing of the timer are arguments and operations of the machine; the desktop notification is text
  for people and is not modelled.
\<close>

section \<open>State\<close>

record overage_record =
  or_timestamp :: ms
  or_model :: string
  or_account :: string
  or_claim :: string

record halt_state =
  h_since :: ms
  h_cooldownUntil :: rat
  h_request :: overage_record

datatype guard_behavior = Behavior_halt | Behavior_warn

record guard_options =
  g_enabled :: bool
  g_behavior :: guard_behavior
  g_cooldownMs :: rat

datatype resume_reason = Manual | Cooldown

datatype guard_event = Ev_halt halt_state | Ev_warn halt_state | Ev_resume resume_reason ms

text \<open>The timer carries the \<open>since\<close> its closure captured.\<close>

record overage_guard =
  g_opts :: guard_options
  g_halted :: "halt_state option"
  g_timer :: "ms option"
  g_listening :: bool
  g_events :: "guard_event list"

definition new_guard :: "bool \<Rightarrow> guard_behavior \<Rightarrow> jsnum \<Rightarrow> overage_guard" where
  "new_guard enabled behavior cooldown =
     \<lparr>g_opts = \<lparr>g_enabled = enabled, g_behavior = behavior, g_cooldownMs = clampTimerMs cooldown\<rparr>,
      g_halted = None, g_timer = None, g_listening = False, g_events = []\<rparr>"

section \<open>Operations\<close>

definition guard_attach :: "overage_guard \<Rightarrow> overage_guard" where
  "guard_attach g = (if \<not> g_enabled (g_opts g) then g\<lparr>g_listening := False\<rparr> else g\<lparr>g_listening := True\<rparr>)"

text \<open>The two readings of the clock are separate arguments.\<close>

definition onOverageDetected :: "overage_record \<Rightarrow> ms \<Rightarrow> ms \<Rightarrow> overage_guard \<Rightarrow> overage_guard" where
  "onOverageDetected r now now' g =
     (if g_halted g \<noteq> None then g
      else let state = \<lparr>h_since = now, h_cooldownUntil = of_int now' + g_cooldownMs (g_opts g), h_request = r\<rparr>
           in case g_behavior (g_opts g) of
                Behavior_halt \<Rightarrow> g\<lparr>g_halted := Some state, g_timer := Some (h_since state),
                                   g_events := g_events g @ [Ev_halt state]\<rparr>
              | Behavior_warn \<Rightarrow> g\<lparr>g_events := g_events g @ [Ev_warn state]\<rparr>)"

definition guard_clear :: "resume_reason \<Rightarrow> overage_guard \<Rightarrow> overage_guard" where
  "guard_clear reason g =
     (case g_halted g of
        None \<Rightarrow> g
      | Some h \<Rightarrow> g\<lparr>g_halted := None, g_timer := None, g_events := g_events g @ [Ev_resume reason (h_since h)]\<rparr>)"

text \<open>The timer fires: it is spent, and it resumes only the halt that armed it.\<close>

definition guard_timer_fires :: "overage_guard \<Rightarrow> overage_guard" where
  "guard_timer_fires g =
     (case g_timer g of
        None \<Rightarrow> g
      | Some since \<Rightarrow>
          (case g_halted g of
             Some h \<Rightarrow> (if h_since h = since then guard_clear Cooldown g else g\<lparr>g_timer := None\<rparr>)
           | None \<Rightarrow> g\<lparr>g_timer := None\<rparr>))"

definition guard_record :: "overage_record \<Rightarrow> ms \<Rightarrow> ms \<Rightarrow> overage_guard \<Rightarrow> overage_guard" where
  "guard_record r now now' g =
     (if g_listening g \<and> isNonSubscriptionBilling (Some (or_claim r)) then onOverageDetected r now now' g else g)"

definition isHalted :: "overage_guard \<Rightarrow> bool" where
  "isHalted g \<longleftrightarrow> g_halted g \<noteq> None \<and> g_behavior (g_opts g) = Behavior_halt"

definition guard_destroy :: "overage_guard \<Rightarrow> overage_guard" where
  "guard_destroy g = g\<lparr>g_timer := None, g_halted := None, g_listening := False\<rparr>"

section \<open>The guard as a machine\<close>

datatype guard_op = G_attach | G_record overage_record ms ms | G_clear resume_reason | G_timer

fun guard_step :: "guard_op \<Rightarrow> overage_guard \<Rightarrow> overage_guard" where
  "guard_step G_attach g = guard_attach g"
| "guard_step (G_record r now now') g = guard_record r now now' g"
| "guard_step (G_clear reason) g = guard_clear reason g"
| "guard_step G_timer g = guard_timer_fires g"

text \<open>Replays a log from a halt or none: the halt it ends in, or nothing if a halt falls inside another
  or a resume ends no halt or the wrong one.\<close>

fun replay :: "ms option \<Rightarrow> guard_event list \<Rightarrow> ms option option" where
  "replay s [] = Some s"
| "replay s (Ev_warn _ # es) = replay s es"
| "replay None (Ev_halt h # es) = replay (Some (h_since h)) es"
| "replay (Some t) (Ev_halt h # es) = None"
| "replay (Some t) (Ev_resume _ u # es) = (if u = t then replay None es else None)"
| "replay None (Ev_resume _ u # es) = None"

lemma replay_append:
  "replay s (es @ fs) = (case replay s es of None \<Rightarrow> None | Some s' \<Rightarrow> replay s' fs)"
  by (induction s es rule: replay.induct) simp_all

definition guard_inv :: "overage_guard \<Rightarrow> bool" where
  "guard_inv g \<longleftrightarrow>
     g_timer g = map_option h_since (g_halted g)
     \<and> replay None (g_events g) = Some (map_option h_since (g_halted g))
     \<and> (g_behavior (g_opts g) = Behavior_warn \<longrightarrow> g_halted g = None)
     \<and> (g_listening g \<longrightarrow> g_enabled (g_opts g))
     \<and> 0 \<le> g_cooldownMs (g_opts g) \<and> g_cooldownMs (g_opts g) \<le> MAX_TIMER_MS"

interpretation guard_machine: total_machine guard_step guard_inv
proof
  fix g e assume "guard_inv g"
  then show "guard_inv (guard_step e g)"
    by (cases e)
      (auto simp: guard_inv_def guard_attach_def guard_record_def onOverageDetected_def guard_clear_def
        guard_timer_fires_def replay_append Let_def split: option.splits guard_behavior.splits)
qed

text \<open>
  C26. The guard never strands the proxy and never halts it twice. After any sequence of records,
  resumes and timer firings: it is halted exactly when the cool-down that ends this very halt is
  armed, so it always resumes by itself; and in the log halts and resumes alternate, each resume
  naming the halt before it. A warn-only guard is never halted.
\<close>

theorem guard_run_safe:
  assumes "g = fold guard_step ops (new_guard enabled behavior cooldown)"
  shows "g_timer g = map_option h_since (g_halted g)
       \<and> replay None (g_events g) = Some (map_option h_since (g_halted g))
       \<and> (g_halted g \<noteq> None \<longrightarrow> isHalted g \<and> \<not> isHalted (guard_timer_fires g))"
proof -
  have "guard_inv (new_guard enabled behavior cooldown)"
    using clampTimer_range [of cooldown] by (simp add: guard_inv_def new_guard_def)
  then have inv: "guard_inv g" unfolding assms by (rule guard_machine.run_any)
  then have "isHalted g \<and> \<not> isHalted (guard_timer_fires g)" if "g_halted g \<noteq> None"
    using that by (cases "g_behavior (g_opts g)")
      (auto simp: guard_inv_def isHalted_def guard_timer_fires_def guard_clear_def)
  with inv show ?thesis by (simp add: guard_inv_def)
qed

definition sample_overage :: overage_record where
  "sample_overage = \<lparr>or_timestamp = 0, or_model = ''m'', or_account = ''a'', or_claim = ''overage''\<rparr>"

theorem guard_run_safe_witness:
  "isHalted (fold guard_step [G_attach, G_record sample_overage 5 5] (new_guard True Behavior_halt (Fin 1000)))
   \<and> \<not> isHalted (guard_timer_fires (fold guard_step [G_attach, G_record sample_overage 5 5] (new_guard True Behavior_halt (Fin 1000))))"
proof -
  have "g_halted (fold guard_step [G_attach, G_record sample_overage 5 5] (new_guard True Behavior_halt (Fin 1000))) \<noteq> None"
    by code_simp
  with guard_run_safe [OF refl, of "[G_attach, G_record sample_overage 5 5]" True Behavior_halt "Fin 1000"]
  show ?thesis by blast
qed

text \<open>
  What halts the proxy. A listening guard that halts is halted right after a record exactly when
  it was before or the claim is outside the plan: not absent, not the sentinel of a response with no
  header, not the configured credits rung, not a subscription claim. What halted it stays until it is
  cleared.
\<close>

theorem guard_halts_iff:
  assumes "g_listening g" and "g_behavior (g_opts g) = Behavior_halt"
  shows "(isHalted (guard_record r now now' g) \<longleftrightarrow>
            isHalted g \<or> or_claim r \<notin> set ([] # NO_BILLING_CLAIM # CREDITS_CLAIM # SUBSCRIPTION_CLAIMS))
       \<and> (isHalted g \<longrightarrow> guard_record r now now' g = g)"
proof -
  have "isNonSubscriptionBilling (Some c) \<longleftrightarrow> c \<notin> set ([] # NO_BILLING_CLAIM # CREDITS_CLAIM # SUBSCRIPTION_CLAIMS)" for c
    by (cases c) (auto simp: isNonSubscriptionBilling_def truthy_nonempty)
  then show ?thesis
    using assms by (auto simp: guard_record_def onOverageDetected_def isHalted_def Let_def)
qed

theorem guard_halts_iff_witness:
  "isHalted (guard_record sample_overage 5 5 (guard_attach (new_guard True Behavior_halt (Fin 1000))))"
proof -
  have "g_listening (guard_attach (new_guard True Behavior_halt (Fin 1000)))"
    "g_behavior (g_opts (guard_attach (new_guard True Behavior_halt (Fin 1000)))) = Behavior_halt"
    by (simp_all add: guard_attach_def new_guard_def)
  from guard_halts_iff [OF this, of sample_overage 5 5] show ?thesis
    by (simp add: sample_overage_def NO_BILLING_CLAIM_def CREDITS_CLAIM_def SUBSCRIPTION_CLAIMS_def)
qed

end
