(* ===== verification/Token_Bucket.thy ===== *)
theory Token_Bucket
  imports Prelude_Dario
begin

text \<open>
  The token bucket that throttles the admin API (\<open>rate-limit.ts\<close>). Tokens are rationals, the clock
  is the argument each call carries. Its calls form a machine any caller may drive in any order,
  with a clock that may step back.
\<close>

record token_bucket =
  tb_tokens :: rat
  tb_last :: ms

definition createTokenBucket :: "rat \<Rightarrow> ms \<Rightarrow> token_bucket" where
  "createTokenBucket capacity now = \<lparr>tb_tokens = capacity, tb_last = now\<rparr>"

definition refill :: "rat \<Rightarrow> rat \<Rightarrow> ms \<Rightarrow> token_bucket \<Rightarrow> token_bucket" where
  "refill capacity refillPerSec t b =
     (if t \<le> tb_last b then b
      else b\<lparr>tb_tokens := min capacity (tb_tokens b + of_int (t - tb_last b) / 1000 * refillPerSec), tb_last := t\<rparr>)"

definition tryRemove :: "rat \<Rightarrow> rat \<Rightarrow> ms \<Rightarrow> token_bucket \<Rightarrow> bool \<times> token_bucket" where
  "tryRemove capacity refillPerSec now b =
     (let b' = refill capacity refillPerSec now b
      in if tb_tokens b' \<ge> 1 then (True, b'\<lparr>tb_tokens := tb_tokens b' - 1\<rparr>) else (False, b'))"

text \<open>\<open>None\<close> stands for \<open>Infinity\<close>: the bucket never refills.\<close>

definition retryAfterMs :: "rat \<Rightarrow> rat \<Rightarrow> ms \<Rightarrow> token_bucket \<Rightarrow> ms option \<times> token_bucket" where
  "retryAfterMs capacity refillPerSec now b =
     (let b' = refill capacity refillPerSec now b
      in (if tb_tokens b' \<ge> 1 then Some 0
          else if refillPerSec \<le> 0 then None
          else Some \<lceil>(1 - tb_tokens b') / refillPerSec * 1000\<rceil>, b'))"

section \<open>The bucket as a machine\<close>

text \<open>A state is the bucket and the number of calls it has let through.\<close>

datatype bucket_op = B_try ms | B_ask ms

fun bucket_step :: "rat \<Rightarrow> rat \<Rightarrow> bucket_op \<Rightarrow> token_bucket \<times> nat \<Rightarrow> token_bucket \<times> nat" where
  "bucket_step cap rps (B_try t) (b, n) = (let (ok, b') = tryRemove cap rps t b in (b', if ok then Suc n else n))"
| "bucket_step cap rps (B_ask t) (b, n) = (snd (retryAfterMs cap rps t b), n)"

fun time_of :: "bucket_op \<Rightarrow> ms" where
  "time_of (B_try t) = t"
| "time_of (B_ask t) = t"

text \<open>Every token handed out or still held was there at the start or was added since.\<close>

definition bucket_inv :: "rat \<Rightarrow> rat \<Rightarrow> ms \<Rightarrow> token_bucket \<times> nat \<Rightarrow> bool" where
  "bucket_inv cap rps start s \<longleftrightarrow>
     (let (b, n) = s in
      0 \<le> rps \<and> 0 \<le> tb_tokens b \<and> tb_tokens b \<le> cap \<and> start \<le> tb_last b
      \<and> of_nat n + tb_tokens b \<le> cap + rps * of_int (tb_last b - start) / 1000)"

lemma refill_mono:
  assumes "0 \<le> rps" and "0 \<le> tb_tokens b" and "tb_tokens b \<le> cap"
  shows "tb_tokens b \<le> tb_tokens (refill cap rps t b)" and "tb_tokens (refill cap rps t b) \<le> cap"
    and "tb_last b \<le> tb_last (refill cap rps t b)"
    and "tb_tokens (refill cap rps t b) \<le> tb_tokens b + rps * of_int (tb_last (refill cap rps t b) - tb_last b) / 1000"
proof -
  have "0 \<le> (of_int (t - tb_last b) :: rat) / 1000 * rps" if "tb_last b < t"
    using that assms(1) by simp
  with assms show "tb_tokens b \<le> tb_tokens (refill cap rps t b)" and "tb_tokens (refill cap rps t b) \<le> cap"
    by (auto simp: refill_def)
  show "tb_last b \<le> tb_last (refill cap rps t b)" by (simp add: refill_def)
  show "tb_tokens (refill cap rps t b) \<le> tb_tokens b + rps * of_int (tb_last (refill cap rps t b) - tb_last b) / 1000"
    by (auto simp: refill_def min_def mult.commute)
qed

lemma refill_inv [inv_intros]:
  assumes "bucket_inv cap rps start (b, n)"
  shows "bucket_inv cap rps start (refill cap rps t b, n)"
proof -
  have inv: "0 \<le> rps" "0 \<le> tb_tokens b" "tb_tokens b \<le> cap" "start \<le> tb_last b"
    "of_nat n + tb_tokens b \<le> cap + rps * of_int (tb_last b - start) / 1000"
    using assms by (simp_all add: bucket_inv_def)
  note m = refill_mono [OF inv(1,2,3), of t]
  have "rps * of_int (tb_last (refill cap rps t b) - start) / 1000
      = rps * of_int (tb_last (refill cap rps t b) - tb_last b) / 1000 + rps * of_int (tb_last b - start) / 1000"
    by (simp add: algebra_simps diff_divide_distrib)
  with inv(5) m(4) have "of_nat n + tb_tokens (refill cap rps t b)
      \<le> cap + rps * of_int (tb_last (refill cap rps t b) - start) / 1000" by linarith
  with inv m show ?thesis unfolding bucket_inv_def Let_def split_conv by (intro conjI) linarith+
qed

lemma take_inv:
  "bucket_inv cap rps start (b, n) \<Longrightarrow> 1 \<le> tb_tokens b \<Longrightarrow>
     bucket_inv cap rps start (b\<lparr>tb_tokens := tb_tokens b - 1\<rparr>, Suc n)"
  by (simp add: bucket_inv_def)

interpretation bucket_machine: total_machine "bucket_step cap rps" "bucket_inv cap rps start"
  for cap rps :: rat and start :: ms
proof
  fix s e assume inv: "bucket_inv cap rps start s"
  obtain b n where s: "s = (b, n)" by fastforce
  show "bucket_inv cap rps start (bucket_step cap rps e s)"
    using inv by (cases e) (auto simp: s tryRemove_def retryAfterMs_def Let_def intro: take_inv refill_inv)
qed

text \<open>The clock of a bucket is its start or the latest time a call carried.\<close>

lemma bucket_clock:
  "tb_last (fst (fold (bucket_step cap rps) ops (b, n))) = max_of (tb_last b) (map time_of ops)"
proof (induction ops arbitrary: b n)
  case Nil
  show ?case by simp
next
  case (Cons e ops)
  obtain b' n' where s: "bucket_step cap rps e (b, n) = (b', n')" by fastforce
  have "tb_last b' = max (tb_last b) (time_of e)"
    using s by (cases e) (auto simp: tryRemove_def retryAfterMs_def Let_def refill_def max_def split: if_splits)
  with Cons.IH [of b' n'] s show ?case by simp
qed

text \<open>
  The bucket limits the rate. Over any sequence of calls, whatever their order and whatever the
  clock does, the number let through is at most the burst size plus the refill over the time from
  the bucket's creation to the latest call.
\<close>

theorem token_bucket_rate:
  assumes "0 \<le> capacity" and "0 \<le> refillPerSec"
  shows "of_nat (snd (fold (bucket_step capacity refillPerSec) ops (createTokenBucket capacity start, 0)))
           \<le> capacity + refillPerSec * of_int (max_of start (map time_of ops) - start) / 1000"
proof -
  have "bucket_inv capacity refillPerSec start (createTokenBucket capacity start, 0)"
    using assms by (simp add: bucket_inv_def createTokenBucket_def)
  then have inv: "bucket_inv capacity refillPerSec start
      (fold (bucket_step capacity refillPerSec) ops (createTokenBucket capacity start, 0))"
    by (rule bucket_machine.run_any)
  obtain b n where r: "fold (bucket_step capacity refillPerSec) ops (createTokenBucket capacity start, 0) = (b, n)"
    by fastforce
  have "tb_last b = max_of start (map time_of ops)"
    using bucket_clock [of capacity refillPerSec ops "createTokenBucket capacity start" 0] unfolding r
    by (simp add: createTokenBucket_def)
  moreover have "0 \<le> tb_tokens b" "of_nat n + tb_tokens b \<le> capacity + refillPerSec * of_int (tb_last b - start) / 1000"
    using inv by (simp_all add: r bucket_inv_def)
  ultimately show ?thesis by (simp add: r)
qed

theorem token_bucket_rate_witness:
  "snd (fold (bucket_step 2 1) [B_try 0, B_try 0, B_try 0, B_try 1000] (createTokenBucket 2 0, 0)) \<le> 3"
proof -
  have "of_nat (snd (fold (bucket_step 2 1) [B_try 0, B_try 0, B_try 0, B_try 1000] (createTokenBucket 2 0, 0)))
      \<le> (2 :: rat) + 1 * of_int (max_of 0 (map time_of [B_try 0, B_try 0, B_try 0, B_try 1000]) - 0) / 1000"
    by (rule token_bucket_rate) simp_all
  then have "of_nat (snd (fold (bucket_step 2 1) [B_try 0, B_try 0, B_try 0, B_try 1000] (createTokenBucket 2 0, 0)))
      \<le> (of_nat 3 :: rat)" by simp
  then show ?thesis by (simp only: of_nat_le_iff)
qed

text \<open>
  \<open>Retry-After\<close> is honest: a caller told to wait is refused if it comes back at once, and is let
  through if it comes back after that long; a bucket that reports none never lets anyone through
  again.
\<close>

theorem retry_after_honest:
  assumes "1 \<le> capacity" and "0 \<le> tb_tokens b" and "tb_tokens b \<le> capacity" and "tb_last b \<le> now"
  shows "case retryAfterMs capacity refillPerSec now b of
           (Some wait, b') \<Rightarrow> 0 \<le> wait \<and> fst (tryRemove capacity refillPerSec (now + wait) b')
                              \<and> (0 < wait \<longrightarrow> \<not> fst (tryRemove capacity refillPerSec now b))
         | (None, b') \<Rightarrow> \<forall>later \<ge> now. \<not> fst (tryRemove capacity refillPerSec later b')"
proof -
  let ?b = "refill capacity refillPerSec now b"
  have last: "tb_last ?b = now" using assms(4) by (simp add: refill_def)
  have again: "refill capacity refillPerSec now ?b = ?b" by (simp add: refill_def)
  show ?thesis
  proof (cases "1 \<le> tb_tokens ?b")
    case True
    then show ?thesis by (simp add: retryAfterMs_def tryRemove_def Let_def again)
  next
    case short: False
    show ?thesis
    proof (cases "refillPerSec \<le> 0")
      case True
      have "\<not> 1 \<le> tb_tokens (refill capacity refillPerSec later ?b)" if "now \<le> later" for later
      proof -
        have "(of_int (later - now) :: rat) / 1000 * refillPerSec \<le> 0"
          using that True by (intro mult_nonneg_nonpos) auto
        then show ?thesis using short last unfolding refill_def [of _ _ later] by (simp add: min_def)
      qed
      then show ?thesis using short True by (simp add: retryAfterMs_def tryRemove_def Let_def)
    next
      case False
      define w where "w = \<lceil>(1 - tb_tokens ?b) / refillPerSec * 1000\<rceil>"
      have pos: "0 < (1 - tb_tokens ?b) / refillPerSec * 1000" using short False by simp
      then have w: "0 < w" by (simp add: w_def)
      have "(1 - tb_tokens ?b) / refillPerSec * 1000 \<le> of_int w" by (simp add: w_def)
      then have "(1 - tb_tokens ?b) / refillPerSec \<le> of_int w / 1000" by simp
      then have "1 - tb_tokens ?b \<le> of_int w / 1000 * refillPerSec"
        using False by (simp only: pos_divide_le_eq not_le)
      then have "1 \<le> tb_tokens (refill capacity refillPerSec (now + w) ?b)"
        using w last assms(1) unfolding refill_def [of _ _ "now + w"] by simp
      moreover have "retryAfterMs capacity refillPerSec now b = (Some w, ?b)"
        using short False by (simp add: retryAfterMs_def Let_def w_def)
      ultimately show ?thesis using short w by (simp add: tryRemove_def Let_def)
    qed
  qed
qed

theorem retry_after_honest_witness:
  "fst (tryRemove 2 1 (10 + 800) (snd (retryAfterMs 2 1 10 \<lparr>tb_tokens = 1 / 5, tb_last = 10\<rparr>)))"
  using retry_after_honest [where capacity = 2 and refillPerSec = 1 and now = 10
      and b = "\<lparr>tb_tokens = 1 / 5, tb_last = 10\<rparr>"]
  by (simp add: retryAfterMs_def refill_def Let_def)

end
