(* ===== verification/Refresh_Grant.thy ===== *)
theory Refresh_Grant
  imports Js_Text
begin

text \<open>
  The age of a refresh-token grant (\<open>refresh-grant.ts\<close>): the thresholds from the environment, the
  level of one seat and the level of the pool. Times are rationals in milliseconds, days of them may
  be fractional.
\<close>

datatype grant_level = Grant_ok | Grant_warn | Grant_urgent | Grant_unknown

record grant_thresholds =
  lifetimeDays :: rat
  warnDays :: rat
  urgentDays :: rat

record grant_age =
  ga_level :: grant_level
  ga_ageDays :: "int option"
  ga_wallAt :: "rat option"
  ga_daysToWall :: "int option"

definition DAY_MS :: rat where "DAY_MS = 86400000"

definition envDays :: "string \<Rightarrow> rat \<Rightarrow> (string \<Rightarrow> string option) \<Rightarrow> rat" where
  "envDays name fallback env =
     (case truthy (env name) of
        None \<Rightarrow> fallback
      | Some raw \<Rightarrow> (case js_number raw of Fin n \<Rightarrow> (if n > 0 then n else fallback) | _ \<Rightarrow> fallback))"

definition grantThresholds :: "(string \<Rightarrow> string option) \<Rightarrow> grant_thresholds" where
  "grantThresholds env =
     (let lifetime = envDays ''DARIO_REFRESH_GRANT_LIFETIME_DAYS'' 28 env;
          urgent = min (envDays ''DARIO_REFRESH_GRANT_URGENT_DAYS'' 26 env) lifetime;
          warn = min (envDays ''DARIO_REFRESH_GRANT_WARN_DAYS'' 21 env) urgent
      in \<lparr>lifetimeDays = lifetime, warnDays = warn, urgentDays = urgent\<rparr>)"

definition grantAge :: "jsnum option \<Rightarrow> rat \<Rightarrow> grant_thresholds \<Rightarrow> grant_age" where
  "grantAge grantedAt now t =
     (case grantedAt of
        Some (Fin g) \<Rightarrow>
          if g \<le> 0 then \<lparr>ga_level = Grant_unknown, ga_ageDays = None, ga_wallAt = None, ga_daysToWall = None\<rparr>
          else let ageDays = \<lfloor>max 0 (now - g) / DAY_MS\<rfloor>;
                   wallAt = g + lifetimeDays t * DAY_MS;
                   daysToWall = \<lfloor>(wallAt - now) / DAY_MS\<rfloor>;
                   level = (if of_int ageDays \<ge> urgentDays t then Grant_urgent
                            else if of_int ageDays \<ge> warnDays t then Grant_warn else Grant_ok)
               in \<lparr>ga_level = level, ga_ageDays = Some ageDays, ga_wallAt = Some wallAt,
                   ga_daysToWall = Some daysToWall\<rparr>
      | _ \<Rightarrow> \<lparr>ga_level = Grant_unknown, ga_ageDays = None, ga_wallAt = None, ga_daysToWall = None\<rparr>)"

definition level_rank :: "grant_level \<Rightarrow> nat" where
  "level_rank l = (case l of Grant_ok \<Rightarrow> 0 | Grant_unknown \<Rightarrow> 1 | Grant_warn \<Rightarrow> 2 | Grant_urgent \<Rightarrow> 3)"

definition worstGrantLevel :: "grant_level list \<Rightarrow> grant_level" where
  "worstGrantLevel levels =
     foldl (\<lambda>worst l. if level_rank l > level_rank worst then l else worst) Grant_ok levels"

section \<open>Lemmas\<close>

lemma envDays_pos: "0 < fallback \<Longrightarrow> 0 < envDays name fallback env"
  by (simp add: envDays_def split: option.split jsnum.split)

lemma thresholds_ordered:
  "0 < warnDays (grantThresholds env) \<and> warnDays (grantThresholds env) \<le> urgentDays (grantThresholds env)
   \<and> urgentDays (grantThresholds env) \<le> lifetimeDays (grantThresholds env)"
  by (simp add: grantThresholds_def Let_def envDays_pos min.coboundedI2)

lemma worst_level:
  "(\<forall>l \<in> set levels. level_rank l \<le> level_rank (worstGrantLevel levels))
   \<and> worstGrantLevel levels \<in> insert Grant_ok (set levels)"
  unfolding worstGrantLevel_def
  using foldl_choose_best [of "\<lambda>worst l. if level_rank l > level_rank worst then l else worst" level_rank Grant_ok levels]
    foldl_choose_in [of "\<lambda>worst l. if level_rank l > level_rank worst then l else worst" Grant_ok levels]
  by auto

text \<open>A level of a stamped seat only rises with time.\<close>

lemma grant_level_mono:
  assumes "0 < g" and "now \<le> later" and "warnDays t \<le> urgentDays t"
  shows "level_rank (ga_level (grantAge (Some (Fin g)) now t)) \<le> level_rank (ga_level (grantAge (Some (Fin g)) later t))"
proof -
  have "\<lfloor>max 0 (now - g) / DAY_MS\<rfloor> \<le> \<lfloor>max 0 (later - g) / DAY_MS\<rfloor>"
    using assms(2) by (intro floor_mono divide_right_mono) (auto simp: DAY_MS_def)
  then have "(of_int \<lfloor>max 0 (now - g) / DAY_MS\<rfloor> :: rat) \<le> of_int \<lfloor>max 0 (later - g) / DAY_MS\<rfloor>" by simp
  with assms show ?thesis by (simp add: grantAge_def Let_def level_rank_def)
qed

text \<open>
  When a seat past its projected wall is sure to be urgent. With thresholds as the environment
  gives them, every seat at or past the wall is urgent exactly when the urgent threshold is at most
  the whole days of the lifetime. Whole-day settings satisfy that; an urgent threshold within a
  fractional last day does not, and then a seat at the wall is still reported below urgent.
\<close>

theorem past_wall_urgent_iff:
  fixes env :: "string \<Rightarrow> string option"
  defines "t \<equiv> grantThresholds env"
  assumes "0 < g"
  shows "(\<forall>now. g + lifetimeDays t * DAY_MS \<le> now \<longrightarrow> ga_level (grantAge (Some (Fin g)) now t) = Grant_urgent)
           \<longleftrightarrow> urgentDays t \<le> of_int \<lfloor>lifetimeDays t\<rfloor>"
proof -
  let ?wall = "g + lifetimeDays t * DAY_MS"
  have pos: "0 < lifetimeDays t" "urgentDays t \<le> lifetimeDays t" "warnDays t \<le> urgentDays t"
    using thresholds_ordered [of env] by (auto simp: t_def)
  have age: "\<lfloor>max 0 (lifetimeDays t * DAY_MS) / DAY_MS\<rfloor> = \<lfloor>lifetimeDays t\<rfloor>"
    using pos by (simp add: DAY_MS_def)
  have wall: "ga_level (grantAge (Some (Fin g)) ?wall t) = Grant_urgent \<longleftrightarrow> urgentDays t \<le> of_int \<lfloor>lifetimeDays t\<rfloor>"
    using assms(2) by (simp add: grantAge_def Let_def age)
  have "ga_level (grantAge (Some (Fin g)) now t) = Grant_urgent"
    if "?wall \<le> now" and "urgentDays t \<le> of_int \<lfloor>lifetimeDays t\<rfloor>" for now
  proof -
    have "level_rank Grant_urgent \<le> level_rank (ga_level (grantAge (Some (Fin g)) now t))"
      using grant_level_mono [OF assms(2) that(1) pos(3)] wall that(2) by simp
    then show ?thesis by (cases "ga_level (grantAge (Some (Fin g)) now t)") (simp_all add: level_rank_def)
  qed
  then show ?thesis using wall by blast
qed

lemma js_number_fraction: "js_number ''25.5'' = Fin (51 / 2)"
proof -
  have "trim ''25.5'' = ''25.5''" "decimal_prefix ''25.5'' = Some (51 / 2, [])" "sign_split ''25.5'' = (False, ''25.5'')"
    "to_lower (take 2 ''25.5'') = ''25''"
    by code_simp+
  then show ?thesis by (simp add: js_number_def Let_def js_finite_def)
qed

theorem past_wall_urgent_iff_witness:
  "\<not> (\<forall>now. 1 + lifetimeDays (grantThresholds [''DARIO_REFRESH_GRANT_LIFETIME_DAYS'' \<mapsto> ''25.5'']) * DAY_MS \<le> now \<longrightarrow>
        ga_level (grantAge (Some (Fin 1)) now (grantThresholds [''DARIO_REFRESH_GRANT_LIFETIME_DAYS'' \<mapsto> ''25.5''])) = Grant_urgent)"
proof -
  have whole: "\<lfloor>51 / 2 :: rat\<rfloor> = 25" by (simp add: floor_eq_iff)
  have "\<not> urgentDays (grantThresholds [''DARIO_REFRESH_GRANT_LIFETIME_DAYS'' \<mapsto> ''25.5''])
      \<le> of_int \<lfloor>lifetimeDays (grantThresholds [''DARIO_REFRESH_GRANT_LIFETIME_DAYS'' \<mapsto> ''25.5''])\<rfloor>"
    by (simp add: grantThresholds_def envDays_def js_number_fraction Let_def whole)
  with past_wall_urgent_iff [of 1 "[''DARIO_REFRESH_GRANT_LIFETIME_DAYS'' \<mapsto> ''25.5'']"] show ?thesis by simp
qed

end
