(* ===== verification/Model_Catalog.thy ===== *)
theory Model_Catalog
  imports Pool_Snapshot Pricing
begin

text \<open>
  The model catalogue (\<open>model-catalog.ts\<close>): the suspended families, the rule for long-context variants,
  the normalisation of an upstream listing, and the resolution of family shorthands. The sort is
  JavaScript's stable one with the source's comparator. The suspension setting is the text of its
  variable. The cached fetch of the listing is network code and is not modelled.
\<close>

section \<open>A stable sort by a comparator\<close>

fun insert_by :: "('a \<Rightarrow> 'a \<Rightarrow> int) \<Rightarrow> 'a \<Rightarrow> 'a list \<Rightarrow> 'a list" where
  "insert_by cmp x [] = [x]"
| "insert_by cmp x (y # ys) = (if cmp x y \<le> 0 then x # y # ys else y # insert_by cmp x ys)"

definition sort_by :: "('a \<Rightarrow> 'a \<Rightarrow> int) \<Rightarrow> 'a list \<Rightarrow> 'a list" where
  "sort_by cmp xs = foldr (insert_by cmp) xs []"

text \<open>What a sort needs of its comparator.\<close>

locale comparator =
  fixes cmp :: "'a \<Rightarrow> 'a \<Rightarrow> int"
  assumes total: "0 < cmp x y \<Longrightarrow> cmp y x \<le> 0"
    and trans: "cmp x y \<le> 0 \<Longrightarrow> cmp y z \<le> 0 \<Longrightarrow> cmp x z \<le> 0"
begin

lemma set_insert_by [simp]: "set (insert_by cmp x ys) = insert x (set ys)"
  by (induction ys) auto

lemma set_sort_by: "set (sort_by cmp xs) = set xs"
  unfolding sort_by_def by (induction xs) auto

lemma sorted_insert_by:
  "sorted_wrt (\<lambda>x y. cmp x y \<le> 0) ys \<Longrightarrow> sorted_wrt (\<lambda>x y. cmp x y \<le> 0) (insert_by cmp x ys)"
proof (induction ys)
  case Nil
  show ?case by simp
next
  case (Cons y ys)
  show ?case
  proof (cases "cmp x y \<le> 0")
    case True
    then show ?thesis using Cons.prems trans by auto
  next
    case False
    then have "cmp y x \<le> 0" by (intro total) simp
    with False Cons show ?thesis by simp
  qed
qed

lemma sorted_sort_by: "sorted_wrt (\<lambda>x y. cmp x y \<le> 0) (sort_by cmp xs)"
  unfolding sort_by_def by (induction xs) (simp_all add: sorted_insert_by)

lemma hd_sort_by:
  assumes "xs \<noteq> []"
  shows "hd (sort_by cmp xs) \<in> set xs" and "\<And>y. y \<in> set xs \<Longrightarrow> y = hd (sort_by cmp xs) \<or> cmp (hd (sort_by cmp xs)) y \<le> 0"
proof -
  have set: "set (sort_by cmp xs) = set xs" by (rule set_sort_by)
  with assms obtain z zs where s: "sort_by cmp xs = z # zs"
    by (cases "sort_by cmp xs") auto
  then show "hd (sort_by cmp xs) \<in> set xs" using set by auto
  fix y assume "y \<in> set xs"
  then have "y \<in> set (z # zs)" using set s by simp
  moreover have "\<forall>w \<in> set zs. cmp z w \<le> 0" using sorted_sort_by [of xs] s by simp
  ultimately show "y = hd (sort_by cmp xs) \<or> cmp (hd (sort_by cmp xs)) y \<le> 0" using s by auto
qed

end

section \<open>Versions\<close>

text \<open>\<open>id.match(/\d+/g)\<close> as numbers: the maximal runs of digits.\<close>

fun digit_runs :: "string \<Rightarrow> string \<Rightarrow> string list" where
  "digit_runs cur [] = (if cur = [] then [] else [rev cur])"
| "digit_runs cur (c # cs) =
     (if is_digit c then digit_runs (c # cur) cs
      else (if cur = [] then [] else [rev cur]) @ digit_runs [] cs)"

definition modelVersionKey :: "string \<Rightarrow> int list" where
  "modelVersionKey i = map (\<lambda>d. int (nat_of_digits d)) (digit_runs [] i)"

text \<open>The loop of \<open>cmpVersionDesc\<close> up to the longer length, a missing number read as -1.\<close>

fun cmpVersionDesc :: "int list \<Rightarrow> int list \<Rightarrow> int" where
  "cmpVersionDesc [] [] = 0"
| "cmpVersionDesc (a # as) [] = (if -1 - a \<noteq> 0 then -1 - a else cmpVersionDesc as [])"
| "cmpVersionDesc [] (b # bs) = (if b - (-1) \<noteq> 0 then b - (-1) else cmpVersionDesc [] bs)"
| "cmpVersionDesc (a # as) (b # bs) = (if b - a \<noteq> 0 then b - a else cmpVersionDesc as bs)"

section \<open>The catalogue\<close>

definition BAKED_BASE_MODELS :: "string list" where
  "BAKED_BASE_MODELS =
     [''claude-fable-5'', ''claude-opus-5-5'', ''claude-opus-5'', ''claude-opus-4-8'', ''claude-opus-4-7'',
      ''claude-opus-4-6'', ''claude-sonnet-5'', ''claude-sonnet-4-6'', ''claude-haiku-4-5'']"

definition suspendedFamilies :: "string option \<Rightarrow> string list" where
  "suspendedFamilies env =
     map (\<lambda>s. opt_or (modelFamily (Some s)) (to_lower s))
       (filter (\<lambda>s. length s > 0) (map trim (split_on CHR '','' (opt_or env ''''))))"

definition isSuspendedModel :: "string option \<Rightarrow> string \<Rightarrow> bool" where
  "isSuspendedModel env model \<longleftrightarrow>
     (case modelFamily (Some model) of None \<Rightarrow> False | Some fam \<Rightarrow> fam \<in> set (suspendedFamilies env))"

definition dropSuspendedModels :: "string option \<Rightarrow> string list \<Rightarrow> string list" where
  "dropSuspendedModels env bases = filter (\<lambda>b. \<not> isSuspendedModel env b) bases"

definition longContextEligible :: "string \<Rightarrow> bool" where
  "longContextEligible i \<longleftrightarrow>
     (let m = to_lower i
      in starts_with m ''claude-'' \<and> \<not> has_sub m ''haiku'' \<and> \<not> ends_with m ''[1m]'')"

definition withLongContextVariants :: "string list \<Rightarrow> string list" where
  "withLongContextVariants bases =
     concat (map (\<lambda>b. if longContextEligible b then [b, b @ ''[1m]''] else [b]) bases)"

definition FAMILY_RANK :: "(string, int) jsmap" where
  "FAMILY_RANK = [(''fable'', 0), (''opus'', 1), (''sonnet'', 2), (''haiku'', 3)]"

definition family_rank :: "string \<Rightarrow> int" where
  "family_rank i = opt_or (map_of FAMILY_RANK (opt_or (modelFamily (Some i)) '''')) 99"

definition MIN_GENERATION :: int where "MIN_GENERATION = 4"

definition undated_key :: "string \<Rightarrow> string" where
  "undated_key i = to_lower (strip_date i)"

definition keep_short :: "(string, string) jsmap \<Rightarrow> string \<Rightarrow> (string, string) jsmap" where
  "keep_short byKey i =
     (let key = undated_key i
      in case map_of byKey key of
           None \<Rightarrow> AList.update key i byKey
         | Some existing \<Rightarrow> (if to_lower i = key \<and> to_lower existing \<noteq> key then AList.update key i byKey else byKey))"

definition advertised_order :: "string \<Rightarrow> string \<Rightarrow> int" where
  "advertised_order a b =
     (if family_rank a \<noteq> family_rank b then family_rank a - family_rank b
      else cmpVersionDesc (modelVersionKey a) (modelVersionKey b))"

definition usable_id :: "string \<Rightarrow> bool" where
  "usable_id i \<longleftrightarrow>
     starts_with (to_lower i) ''claude-'' \<and> CHR ''['' \<notin> set i
     \<and> (let fam = modelFamily (Some i)
        in if fam = None \<or> fam = Some ''fable'' then True
           else (case modelVersionKey i of [] \<Rightarrow> 0 | v # _ \<Rightarrow> v) \<ge> MIN_GENERATION)"

definition normalizeUpstreamIds :: "string list \<Rightarrow> string list" where
  "normalizeUpstreamIds ids =
     sort_by advertised_order (values_of (foldl keep_short [] (filter usable_id ids)))"

definition resolveFamilyBase :: "string \<Rightarrow> string list \<Rightarrow> string option" where
  "resolveFamilyBase family bases =
     (let candidates = filter (\<lambda>b. modelFamily (Some b) = Some family \<and> CHR ''['' \<notin> set b) bases
      in if length candidates = 0 then None
         else Some (hd (sort_by (\<lambda>a b. cmpVersionDesc (modelVersionKey a) (modelVersionKey b)) candidates)))"

definition FAMILY_ALIASES :: "string list" where
  "FAMILY_ALIASES = [''fable'', ''opus'', ''sonnet'', ''haiku'']"

text \<open>\<open>/^([a-z]+)1m$/\<close> with its group.\<close>

definition long_alias :: "string \<Rightarrow> string option" where
  "long_alias m =
     (if ends_with m ''1m'' \<and> length m > 2 \<and> list_all is_lower (drop_last 2 m) then Some (drop_last 2 m) else None)"

definition resolveAliasAgainst :: "string \<Rightarrow> string list \<Rightarrow> string option" where
  "resolveAliasAgainst model bases =
     (let m = trim (to_lower model)
      in if m \<in> set FAMILY_ALIASES then resolveFamilyBase m bases
         else case long_alias m of
                Some f \<Rightarrow>
                  (if f \<in> set FAMILY_ALIASES then
                     (case resolveFamilyBase f bases of
                        Some base \<Rightarrow> (if longContextEligible base then Some (base @ ''[1m]'') else None)
                      | None \<Rightarrow> None)
                   else None)
              | None \<Rightarrow> None)"

section \<open>The orders\<close>

lemma cmpVersion_flip: "cmpVersionDesc a b = - cmpVersionDesc b a"
  by (induction a b rule: cmpVersionDesc.induct) auto

lemma cmpVersion_trans:
  "cmpVersionDesc a b \<le> 0 \<Longrightarrow> cmpVersionDesc b c \<le> 0 \<Longrightarrow> cmpVersionDesc a c \<le> 0"
proof (induction a b arbitrary: c rule: cmpVersionDesc.induct)
  case 1
  then show ?case by simp
next
  case (2 x xs)
  then show ?case by (cases c) (auto split: if_splits)
next
  case (3 y ys)
  then show ?case by (cases c) (auto split: if_splits)
next
  case (4 x xs y ys)
  then show ?case by (cases c) (auto split: if_splits)
qed

lemma cmpVersion_total: "0 < cmpVersionDesc a b \<Longrightarrow> cmpVersionDesc b a \<le> 0"
  using cmpVersion_flip [of a b] by linarith

interpretation by_version: comparator "\<lambda>a b. cmpVersionDesc (modelVersionKey a) (modelVersionKey b)"
  by unfold_locales (rule cmpVersion_total, assumption, rule cmpVersion_trans)

lemma advertised_le_iff:
  "advertised_order a b \<le> 0 \<longleftrightarrow>
     family_rank a < family_rank b
     \<or> family_rank a = family_rank b \<and> cmpVersionDesc (modelVersionKey a) (modelVersionKey b) \<le> 0"
  by (auto simp: advertised_order_def)

interpretation advertised: comparator advertised_order
proof
  fix x y z
  show "0 < advertised_order x y \<Longrightarrow> advertised_order y x \<le> 0"
    using cmpVersion_total [of "modelVersionKey x" "modelVersionKey y"]
    by (auto simp: advertised_order_def split: if_splits)
  show "advertised_order x y \<le> 0 \<Longrightarrow> advertised_order y z \<le> 0 \<Longrightarrow> advertised_order x z \<le> 0"
    using cmpVersion_trans [of "modelVersionKey x" "modelVersionKey y" "modelVersionKey z"]
    by (auto simp: advertised_le_iff)
qed

section \<open>Shorthands\<close>

definition candidates_of :: "string \<Rightarrow> string list \<Rightarrow> string list" where
  "candidates_of family bases = filter (\<lambda>b. modelFamily (Some b) = Some family \<and> CHR ''['' \<notin> set b) bases"

lemma resolveFamilyBase_Some:
  "resolveFamilyBase family bases = Some b \<Longrightarrow>
     b \<in> set (candidates_of family bases)
     \<and> (\<forall>c \<in> set (candidates_of family bases). c = b \<or> cmpVersionDesc (modelVersionKey b) (modelVersionKey c) \<le> 0)"
  using by_version.hd_sort_by [of "candidates_of family bases"]
  by (auto simp: resolveFamilyBase_def candidates_of_def [symmetric] Let_def split: if_splits)

lemma resolveFamilyBase_None: "resolveFamilyBase family bases = None \<longleftrightarrow> candidates_of family bases = []"
  by (simp add: resolveFamilyBase_def candidates_of_def Let_def)

lemma alias_family:
  "f \<in> set FAMILY_ALIASES \<Longrightarrow> resolveAliasAgainst f bases = resolveFamilyBase f bases"
  by (auto simp: resolveAliasAgainst_def FAMILY_ALIASES_def to_lower_def trim_def trim_start_def lower_char_def
      is_upper_def is_ws_def code_of_def Let_def)

lemma alias_long:
  assumes "f \<in> set FAMILY_ALIASES"
  shows "resolveAliasAgainst (f @ ''1m'') bases =
     (case resolveFamilyBase f bases of
        Some base \<Rightarrow> (if longContextEligible base then Some (base @ ''[1m]'') else None) | None \<Rightarrow> None)"
proof -
  have "trim (to_lower (f @ ''1m'')) = f @ ''1m''" "f @ ''1m'' \<notin> set FAMILY_ALIASES" "long_alias (f @ ''1m'') = Some f"
    using assms by (auto simp: FAMILY_ALIASES_def) (code_simp+)
  then show ?thesis using assms by (simp add: resolveAliasAgainst_def Let_def)
qed

text \<open>
  A family shorthand names one model. It resolves to a listed base of that family that no listed
  base of the family precedes in version order, to nothing exactly when the family is not listed, and
  its long-context spelling is that same base with the tag, or nothing for a base that takes none.
\<close>

theorem shorthand_resolves:
  assumes "f \<in> set FAMILY_ALIASES"
  shows "(case resolveAliasAgainst f bases of
            None \<Rightarrow> \<forall>b \<in> set bases. modelFamily (Some b) = Some f \<longrightarrow> CHR ''['' \<in> set b
          | Some b \<Rightarrow> b \<in> set bases \<and> modelFamily (Some b) = Some f \<and> CHR ''['' \<notin> set b
              \<and> (\<forall>c \<in> set bases. modelFamily (Some c) = Some f \<and> CHR ''['' \<notin> set c \<longrightarrow>
                    c = b \<or> cmpVersionDesc (modelVersionKey b) (modelVersionKey c) \<le> 0))
       \<and> resolveAliasAgainst (f @ ''1m'') bases =
           (case resolveAliasAgainst f bases of
              Some b \<Rightarrow> (if longContextEligible b then Some (b @ ''[1m]'') else None) | None \<Rightarrow> None)"
  using resolveFamilyBase_Some [of f bases] resolveFamilyBase_None [of f bases]
  by (auto simp: alias_family [OF assms] alias_long [OF assms] candidates_of_def filter_empty_conv split: option.split)

theorem shorthand_resolves_witness:
  "resolveAliasAgainst ''opus1m'' BAKED_BASE_MODELS = Some ''claude-opus-5-5[1m]''"
proof -
  have f: "''opus'' \<in> set FAMILY_ALIASES" by (simp add: FAMILY_ALIASES_def)
  have "resolveAliasAgainst ''opus'' BAKED_BASE_MODELS = Some ''claude-opus-5-5''" "longContextEligible ''claude-opus-5-5''"
    by code_simp+
  with shorthand_resolves [OF f, of BAKED_BASE_MODELS] show ?thesis by simp
qed

text \<open>
  A date counts as a minor version. When the catalogue lists a model only under its dated id with no
  minor version, and a later minor version of the same generation, the family shorthand resolves to
  the dated, older one, because the date is compared with the minor version and is larger.
\<close>

theorem dated_base_wins:
  assumes "modelVersionKey old = [g, date]" and "modelVersionKey new = g # minor # rest" and "minor < date"
    and "candidates_of f bases = [new, old]"
  shows "resolveFamilyBase f bases = Some old"
  using assms by (simp add: resolveFamilyBase_def candidates_of_def [symmetric] Let_def sort_by_def)

theorem dated_base_wins_witness:
  "resolveFamilyBase ''sonnet'' [''claude-sonnet-4-5-20250929'', ''claude-sonnet-4-20250514''] = Some ''claude-sonnet-4-20250514''"
proof -
  have "digit_runs [] ''claude-sonnet-4-20250514'' = [''4'', ''20250514'']"
    "digit_runs [] ''claude-sonnet-4-5-20250929'' = [''4'', ''5'', ''20250929'']"
    by code_simp+
  then have "modelVersionKey ''claude-sonnet-4-20250514'' = [4, 20250514]"
    "modelVersionKey ''claude-sonnet-4-5-20250929'' = 4 # 5 # [20250929]"
    by (simp_all add: modelVersionKey_def nat_of_digits_def digit_val_def code_of_def)
  moreover have "(5::int) < 20250514" by simp
  moreover have "candidates_of ''sonnet'' [''claude-sonnet-4-5-20250929'', ''claude-sonnet-4-20250514''] =
      [''claude-sonnet-4-5-20250929'', ''claude-sonnet-4-20250514'']"
    by code_simp
  ultimately show ?thesis by (rule dated_base_wins)
qed

section \<open>Normalising a listing\<close>

text \<open>What the pass over the listing has built after the ids \<open>seen\<close>.\<close>

definition short_inv :: "string list \<Rightarrow> (string, string) jsmap \<Rightarrow> bool" where
  "short_inv seen m \<longleftrightarrow>
     map_wf m
     \<and> (\<forall>k i. map_of m k = Some i \<longrightarrow> i \<in> set seen \<and> undated_key i = k)
     \<and> (\<forall>i \<in> set seen. \<exists>j. map_of m (undated_key i) = Some j
          \<and> (to_lower i = undated_key i \<longrightarrow> to_lower j = undated_key i))"

lemma keep_short_inv:
  assumes "short_inv seen m"
  shows "short_inv (seen @ [i]) (keep_short m i)"
proof -
  have wf: "map_wf m"
    and val: "\<And>k j. map_of m k = Some j \<Longrightarrow> j \<in> set seen \<and> undated_key j = k"
    and rep: "\<And>x. x \<in> set seen \<Longrightarrow> \<exists>j. map_of m (undated_key x) = Some j
                  \<and> (to_lower x = undated_key x \<longrightarrow> to_lower j = undated_key x)"
    using assms by (auto simp: short_inv_def)
  show ?thesis
  proof (cases "\<exists>e. map_of m (undated_key i) = Some e \<and> \<not> (to_lower i = undated_key i \<and> to_lower e \<noteq> undated_key i)")
    case True
    then have k: "keep_short m i = m" by (auto simp: keep_short_def Let_def)
    have "\<exists>j. map_of m (undated_key i) = Some j \<and> (to_lower i = undated_key i \<longrightarrow> to_lower j = undated_key i)"
      using True by auto
    then show ?thesis unfolding short_inv_def k using wf val rep by auto
  next
    case False
    then have k: "keep_short m i = AList.update (undated_key i) i m"
      by (auto simp: keep_short_def Let_def split: option.split)
    have "\<exists>j. map_of (keep_short m i) (undated_key x) = Some j \<and> (to_lower x = undated_key x \<longrightarrow> to_lower j = undated_key x)"
      if "x \<in> set seen" for x
    proof (cases "undated_key x = undated_key i")
      case True
      then show ?thesis using rep [OF that] False by (auto simp: k update_conv')
    next
      case ne: False
      then show ?thesis using rep [OF that] by (simp add: k update_conv')
    qed
    then show ?thesis
      unfolding short_inv_def using wf val by (auto simp: k update_conv' map_wf_update split: if_splits)
  qed
qed

lemma foldl_keep_short: "short_inv seen m \<Longrightarrow> short_inv (seen @ ids) (foldl keep_short m ids)"
proof (induction ids arbitrary: seen m)
  case Nil
  then show ?case by simp
next
  case (Cons i ids)
  from Cons.IH [OF keep_short_inv [OF Cons.prems]] show ?case by simp
qed

text \<open>
  The advertised list. It holds ids of the listing only, each a usable Claude id; it holds every
  usable model once, under whatever spelling, and under its short spelling when the listing has one;
  and it is in the advertised order, family rank first and then newest version.
\<close>

theorem normalize_listing:
  "set (normalizeUpstreamIds ids) \<subseteq> {i \<in> set ids. usable_id i}
   \<and> (\<forall>i \<in> set ids. usable_id i \<longrightarrow>
        (\<exists>!j. j \<in> set (normalizeUpstreamIds ids) \<and> undated_key j = undated_key i)
        \<and> (to_lower i = undated_key i \<longrightarrow>
             (\<exists>j \<in> set (normalizeUpstreamIds ids). to_lower j = undated_key i)))
   \<and> sorted_wrt (\<lambda>a b. advertised_order a b \<le> 0) (normalizeUpstreamIds ids)"
proof -
  let ?m = "foldl keep_short [] (filter usable_id ids)"
  have "short_inv [] []" by (simp add: short_inv_def)
  from foldl_keep_short [OF this, of "filter usable_id ids"]
  have inv: "short_inv (filter usable_id ids) ?m" by simp
  have set: "set (normalizeUpstreamIds ids) = set (values_of ?m)"
    unfolding normalizeUpstreamIds_def by (rule advertised.set_sort_by)
  have mem: "j \<in> set (values_of ?m) \<longleftrightarrow> map_of ?m (undated_key j) = Some j" for j
  proof
    assume "j \<in> set (values_of ?m)"
    then obtain k where "(k, j) \<in> set ?m" by auto
    moreover have wf: "map_wf ?m" using inv unfolding short_inv_def by blast
    ultimately have k: "map_of ?m k = Some j" by (rule iffD1 [OF map_wf_map_of, rotated])
    with inv have "undated_key j = k" unfolding short_inv_def by blast
    with k show "map_of ?m (undated_key j) = Some j" by simp
  next
    assume "map_of ?m (undated_key j) = Some j"
    from map_of_SomeD [OF this] show "j \<in> set (values_of ?m)" by force
  qed
  have rep: "\<exists>j. map_of ?m (undated_key j) = Some j \<and> undated_key j = undated_key i
        \<and> (to_lower i = undated_key i \<longrightarrow> to_lower j = undated_key i)"
    if "i \<in> set ids" and "usable_id i" for i
  proof -
    have "i \<in> set (filter usable_id ids)" using that by simp
    with inv obtain j where j: "map_of ?m (undated_key i) = Some j"
      "to_lower i = undated_key i \<longrightarrow> to_lower j = undated_key i"
      unfolding short_inv_def by blast
    from j(1) inv have k: "undated_key j = undated_key i" unfolding short_inv_def by blast
    from j(1) have "map_of ?m (undated_key j) = Some j" by (simp only: k)
    then show ?thesis using k j(2) by blast
  qed
  have one: "j = j'" if "map_of ?m (undated_key j) = Some j" "map_of ?m (undated_key j') = Some j'"
    "undated_key j = undated_key j'" for j j'
  proof -
    have "map_of ?m (undated_key j') = Some j" by (rule that(1) [unfolded that(3)])
    from trans [OF this [symmetric] that(2)] show ?thesis by (rule option.inject [THEN iffD1])
  qed
  have "\<forall>i \<in> set ids. usable_id i \<longrightarrow>
        (\<exists>!j. j \<in> set (values_of ?m) \<and> undated_key j = undated_key i)
        \<and> (to_lower i = undated_key i \<longrightarrow> (\<exists>j \<in> set (values_of ?m). to_lower j = undated_key i))"
  proof (intro ballI impI)
    fix i assume "i \<in> set ids" and "usable_id i"
    then obtain j where j: "map_of ?m (undated_key j) = Some j" "undated_key j = undated_key i"
      "to_lower i = undated_key i \<longrightarrow> to_lower j = undated_key i" using rep by blast
    from j(1) have "j \<in> set (values_of ?m)" by (rule iffD2 [OF mem])
    moreover have "j' = j" if "j' \<in> set (values_of ?m)" "undated_key j' = undated_key i" for j'
      using one [OF iffD1 [OF mem that(1)] j(1)] that(2) j(2) by simp
    ultimately show "(\<exists>!j. j \<in> set (values_of ?m) \<and> undated_key j = undated_key i)
        \<and> (to_lower i = undated_key i \<longrightarrow> (\<exists>j \<in> set (values_of ?m). to_lower j = undated_key i))"
      using j by blast
  qed
  moreover have "set (values_of ?m) \<subseteq> {i \<in> set ids. usable_id i}"
  proof
    fix j assume "j \<in> set (values_of ?m)"
    then have "map_of ?m (undated_key j) = Some j" by (rule iffD1 [OF mem])
    with inv have "j \<in> set (filter usable_id ids)" unfolding short_inv_def by blast
    then show "j \<in> {i \<in> set ids. usable_id i}" by simp
  qed
  moreover have "sorted_wrt (\<lambda>a b. advertised_order a b \<le> 0) (normalizeUpstreamIds ids)"
    unfolding normalizeUpstreamIds_def by (rule advertised.sorted_sort_by)
  ultimately show ?thesis unfolding set by blast
qed

theorem normalize_listing_witness:
  "\<exists>!j. j \<in> set (normalizeUpstreamIds [''claude-sonnet-5'', ''gpt-5'', ''claude-opus-5''])
     \<and> undated_key j = undated_key ''claude-opus-5''"
proof -
  have "usable_id ''claude-opus-5''" by code_simp
  with normalize_listing [of "[''claude-sonnet-5'', ''gpt-5'', ''claude-opus-5'']"] show ?thesis by simp
qed

end
