(* ===== verification/Model_Resolution.thy ===== *)
theory Model_Resolution
  imports Model_Catalog
begin

text \<open>
  Which model a failover chain entry names: the effort suffix of a model name (\<open>effort.ts\<close>), what the
  Claude pool would serve an entry as (\<open>claude-model.ts\<close>), the first entry each provider takes
  (\<open>codex-backend.ts\<close>) and the credits rung (\<open>credits-rung.ts\<close>). The operator's alias pipeline is an
  argument, absent when the caller passes none.
\<close>

section \<open>The effort suffix\<close>

datatype effort_value = Low | Medium | High | Xhigh | Ultracode | Max | Client

definition effort_text :: "effort_value \<Rightarrow> string" where
  "effort_text e =
     (case e of Low \<Rightarrow> ''low'' | Medium \<Rightarrow> ''medium'' | High \<Rightarrow> ''high'' | Xhigh \<Rightarrow> ''xhigh''
      | Ultracode \<Rightarrow> ''ultracode'' | Max \<Rightarrow> ''max'' | Client \<Rightarrow> ''client'')"

definition SUFFIX_EFFORTS :: "effort_value list" where
  "SUFFIX_EFFORTS = [Ultracode, Medium, Xhigh, High, Low, Max]"

definition effortForCodex :: "effort_value option \<Rightarrow> effort_value option" where
  "effortForCodex effort =
     (case effort of
        None \<Rightarrow> None
      | Some e \<Rightarrow> (if e = Ultracode then Some Max else if e = Client then None else Some e))"

text \<open>The tags in the order the two loops try them.\<close>

definition effort_tags :: "(effort_value \<times> string) list" where
  "effort_tags = concat (map (\<lambda>e. [(e, CHR '':'' # effort_text e), (e, CHR ''-'' # effort_text e)]) SUFFIX_EFFORTS)"

definition parseEffortSuffix :: "string \<Rightarrow> string \<times> effort_value option" where
  "parseEffortSuffix model =
     (case List.find (\<lambda>(e, tag). length model > length tag \<and> ends_with model tag) effort_tags of
        Some (e, tag) \<Rightarrow> (drop_last (length tag) model, Some e)
      | None \<Rightarrow> (model, None))"

section \<open>What the Claude pool serves\<close>

type_synonym model_target = "string \<times> effort_value option"

definition CLAUDE_PREFIXES :: "string list" where
  "CLAUDE_PREFIXES = [''claude'', ''anthropic'']"

definition stripClaudePrefix :: "string \<Rightarrow> string option" where
  "stripClaudePrefix model =
     (case cut_at CHR '':'' model of
        Some (p, rest) \<Rightarrow>
          (if p = [] then truthy (Some model)
           else if p \<notin> set CLAUDE_PREFIXES then None
           else truthy (Some rest))
      | None \<Rightarrow> truthy (Some model))"

definition base_of :: "string \<Rightarrow> string" where
  "base_of resolved = (if ends_with resolved ''[1m]'' then drop_last 4 resolved else resolved)"

definition servableTarget :: "string \<Rightarrow> string list \<Rightarrow> string option" where
  "servableTarget target bases =
     (case stripClaudePrefix target of
        None \<Rightarrow> None
      | Some stripped \<Rightarrow>
          let resolved = opt_or (resolveAliasAgainst stripped bases) stripped;
              key = strip_date (base_of resolved)
          in if (\<exists>b \<in> set bases. strip_date (to_lower b) = key) then Some resolved else None)"

definition alias_target :: "string list \<Rightarrow> (string \<Rightarrow> string) option \<Rightarrow> string \<Rightarrow> string" where
  "alias_target bases resolve entry =
     to_lower (trim (case resolve of Some f \<Rightarrow> f entry | None \<Rightarrow> opt_or (resolveAliasAgainst entry bases) entry))"

definition resolveClaudeTarget :: "string \<Rightarrow> string list \<Rightarrow> (string \<Rightarrow> string) option \<Rightarrow> model_target option" where
  "resolveClaudeTarget model bases resolve =
     (case stripClaudePrefix (to_lower (trim model)) of
        None \<Rightarrow> None
      | Some entry \<Rightarrow>
          let target = alias_target bases resolve entry
          in case truthy (servableTarget target bases) of
               Some direct \<Rightarrow> Some (direct, None)
             | None \<Rightarrow>
                 let eff = parseEffortSuffix target
                 in (case snd eff of
                       None \<Rightarrow> None
                     | Some e \<Rightarrow>
                         (case truthy (servableTarget (fst eff) bases) of
                            Some stripped \<Rightarrow> Some (stripped, Some e)
                          | None \<Rightarrow> None)))"

definition resolveClaudeServable :: "string \<Rightarrow> string list \<Rightarrow> (string \<Rightarrow> string) option \<Rightarrow> string option" where
  "resolveClaudeServable model bases resolve = map_option fst (resolveClaudeTarget model bases resolve)"

definition isClaudeServableModel :: "string \<Rightarrow> string list \<Rightarrow> (string \<Rightarrow> string) option \<Rightarrow> bool" where
  "isClaudeServableModel model bases resolve \<longleftrightarrow> resolveClaudeTarget model bases resolve \<noteq> None"

section \<open>The chain\<close>

definition isCodexModel :: "string \<Rightarrow> string list \<Rightarrow> bool" where
  "isCodexModel model slugs \<longleftrightarrow>
     model \<noteq> [] \<and> (\<exists>s \<in> set slugs. to_lower s = to_lower model)"

fun pickCodexFallback :: "string list \<Rightarrow> string list \<Rightarrow> model_target option" where
  "pickCodexFallback [] slugs = None"
| "pickCodexFallback (m # ms) slugs =
     (if isCodexModel m slugs then Some (m, None)
      else let eff = parseEffortSuffix m
           in if snd eff \<noteq> None \<and> isCodexModel (fst eff) slugs then Some eff
              else pickCodexFallback ms slugs)"

fun pickClaudeTarget ::
  "string list \<Rightarrow> string list \<Rightarrow> string list \<Rightarrow> (string \<Rightarrow> string) option \<Rightarrow> model_target option" where
  "pickClaudeTarget [] slugs bases resolve = None"
| "pickClaudeTarget (m # ms) slugs bases resolve =
     (if isCodexModel m slugs then pickClaudeTarget ms slugs bases resolve
      else case resolveClaudeTarget m bases resolve of
             Some target \<Rightarrow> Some target
           | None \<Rightarrow> pickClaudeTarget ms slugs bases resolve)"

definition pickClaudeFallback ::
  "string list \<Rightarrow> string list \<Rightarrow> string list \<Rightarrow> (string \<Rightarrow> string) option \<Rightarrow> string option" where
  "pickClaudeFallback models slugs bases resolve = map_option fst (pickClaudeTarget models slugs bases resolve)"

section \<open>The credits rung\<close>

definition CREDITS_PREFIX :: string where "CREDITS_PREFIX = ''credits:''"

definition isCreditsEntry :: "string \<Rightarrow> bool" where
  "isCreditsEntry entry = starts_with (to_lower (trim entry)) CREDITS_PREFIX"

definition creditsEntryModel :: "string \<Rightarrow> string option" where
  "creditsEntryModel entry =
     (let e = trim entry
      in if \<not> starts_with (to_lower e) CREDITS_PREFIX then None
         else truthy (Some (trim (drop (length CREDITS_PREFIX) e))))"

definition creditsEntries :: "string list \<Rightarrow> string list" where
  "creditsEntries chain = List.map_filter creditsEntryModel chain"

definition withoutCreditsEntries :: "string list \<Rightarrow> string list" where
  "withoutCreditsEntries chain = filter (\<lambda>e. \<not> isCreditsEntry e) chain"

fun first_index :: "('a \<Rightarrow> bool) \<Rightarrow> 'a list \<Rightarrow> int" where
  "first_index P [] = -1"
| "first_index P (x # xs) = (if P x then 0 else let i = first_index P xs in if i < 0 then -1 else i + 1)"

definition creditsBeforePlain :: "string list \<Rightarrow> bool" where
  "creditsBeforePlain chain \<longleftrightarrow>
     (let credits = first_index isCreditsEntry chain;
          plain = first_index (\<lambda>e. \<not> isCreditsEntry e) chain
      in \<not> credits < 0 \<and> (plain < 0 \<or> credits < plain))"

fun pickCreditsTarget :: "string list \<Rightarrow> string list \<Rightarrow> (string \<Rightarrow> string) option \<Rightarrow> model_target option" where
  "pickCreditsTarget [] bases resolve = None"
| "pickCreditsTarget (entry # chain) bases resolve =
     (case creditsEntryModel entry of
        None \<Rightarrow> pickCreditsTarget chain bases resolve
      | Some model \<Rightarrow>
          (case resolveClaudeTarget model bases resolve of
             Some target \<Rightarrow> Some target
           | None \<Rightarrow> pickCreditsTarget chain bases resolve))"

text \<open>The betas a credits request carries: the client's own, less the OAuth flag.\<close>

definition OAUTH_BETA :: string where "OAUTH_BETA = ''oauth-2025-04-20''"

definition credits_betas :: "string option \<Rightarrow> string list" where
  "credits_betas clientBeta =
     filter (\<lambda>b. length b > 0 \<and> b \<noteq> OAUTH_BETA) (map trim (split_on CHR '','' (opt_or clientBeta '''')))"

section \<open>The suffix is read back\<close>

lemma ends_with_append: "ends_with (m @ s) t \<Longrightarrow> ends_with s t \<or> ends_with t s"
  by (auto simp: ends_with_iff append_eq_append_conv2)

lemma ends_with_self [simp]: "ends_with (m @ t) t"
  by (auto simp: ends_with_iff)

lemma drop_last_append [simp]: "drop_last (length t) (m @ t) = m"
  by (simp add: drop_last_def)

lemma tags_apart:
  assumes "x \<in> set effort_tags" and "y \<in> set effort_tags" and "snd x \<noteq> snd y"
  shows "\<not> ends_with (snd x) (snd y)"
proof -
  have "list_all (\<lambda>x. list_all (\<lambda>y. snd x = snd y \<or> \<not> ends_with (snd x) (snd y)) effort_tags) effort_tags"
    by code_simp
  then show ?thesis using assms by (auto simp: list_all_iff)
qed

lemma tags_unique:
  assumes "x \<in> set effort_tags" and "y \<in> set effort_tags" and "snd x = snd y"
  shows "x = y"
proof -
  have "distinct (map snd effort_tags)" by code_simp
  then show ?thesis using assms by (metis distinct_map inj_onD)
qed

lemma parse_tagged:
  assumes "(e, tag) \<in> set effort_tags" and "m \<noteq> []"
  shows "parseEffortSuffix (m @ tag) = (m, Some e)"
proof -
  let ?P = "\<lambda>(e, t). length (m @ tag) > length t \<and> ends_with (m @ tag) t"
  have ex: "?P (e, tag)" using assms(2) by simp
  obtain y where y: "List.find ?P effort_tags = Some y"
    using find_Some_ex [where P = ?P, OF assms(1) ex] by blast
  then have yin: "y \<in> set effort_tags" "?P y" by (simp_all only: find_SomeD)
  have "snd y = tag"
  proof (rule ccontr)
    assume "snd y \<noteq> tag"
    then show False
      using ends_with_append [of m tag "snd y"] yin(2) tags_apart [OF assms(1) yin(1)] tags_apart [OF yin(1) assms(1)]
      by (auto simp: split_def)
  qed
  then have "y = (e, tag)" using tags_unique [OF yin(1) assms(1)] by simp
  with y show ?thesis by (simp add: parseEffortSuffix_def)
qed

lemma parse_untagged:
  "snd (parseEffortSuffix m) = None \<Longrightarrow> fst (parseEffortSuffix m) = m"
  by (auto simp: parseEffortSuffix_def split: option.splits)

text \<open>
  A suffix and nothing else is read off a model name. A nonempty name followed by a colon or a hyphen and
  an effort word is read back as that name and that effort, whatever the name is; and whenever an
  effort is read, the name as written is the name read followed by such a tag.
\<close>

theorem effort_suffix_roundtrip:
  assumes "m \<noteq> []" and "e \<in> set SUFFIX_EFFORTS" and "sep = CHR '':'' \<or> sep = CHR ''-''"
  shows "parseEffortSuffix (m @ sep # effort_text e) = (m, Some e)
       \<and> (\<forall>n m' e'. parseEffortSuffix n = (m', Some e') \<longrightarrow>
            m' \<noteq> [] \<and> e' \<in> set SUFFIX_EFFORTS \<and> (n = m' @ CHR '':'' # effort_text e' \<or> n = m' @ CHR ''-'' # effort_text e'))"
proof (intro conjI allI impI)
  have "(e, sep # effort_text e) \<in> set effort_tags"
    using assms(2,3) by (auto simp: effort_tags_def)
  then show "parseEffortSuffix (m @ sep # effort_text e) = (m, Some e)"
    using parse_tagged [OF _ assms(1)] by simp
next
  fix n m' e' assume p: "parseEffortSuffix n = (m', Some e')"
  then obtain x where x: "List.find (\<lambda>(e, tag). length n > length tag \<and> ends_with n tag) effort_tags = Some x"
    and r: "m' = drop_last (length (snd x)) n" "e' = fst x"
    by (auto simp: parseEffortSuffix_def split: option.splits)
  from find_SomeD [OF x] have xin: "x \<in> set effort_tags" "length n > length (snd x)" "ends_with n (snd x)"
    by (auto simp: split_def)
  then obtain t where n: "n = t @ snd x" by (auto simp: ends_with_iff)
  then have "m' = t" using r(1) by simp
  moreover have "snd x = CHR '':'' # effort_text e' \<or> snd x = CHR ''-'' # effort_text e'" "e' \<in> set SUFFIX_EFFORTS"
    using xin(1) r(2) by (auto simp: effort_tags_def)
  ultimately show "m' \<noteq> []" "e' \<in> set SUFFIX_EFFORTS"
    "n = m' @ CHR '':'' # effort_text e' \<or> n = m' @ CHR ''-'' # effort_text e'"
    using n xin(2) by auto
qed

theorem effort_suffix_roundtrip_witness:
  "parseEffortSuffix (''gpt-5.6-terra'' @ CHR ''-'' # effort_text Xhigh) = (''gpt-5.6-terra'', Some Xhigh)"
  using effort_suffix_roundtrip [of "''gpt-5.6-terra''" Xhigh "CHR ''-''"] by (simp add: SUFFIX_EFFORTS_def)

section \<open>Nothing unlisted is ever chosen\<close>

definition listed :: "string list \<Rightarrow> string \<Rightarrow> bool" where
  "listed bases i \<longleftrightarrow> (\<exists>b \<in> set bases. strip_date (to_lower b) = strip_date (base_of i))"

lemma servable_listed: "servableTarget t bases = Some i \<Longrightarrow> listed bases i"
  by (auto simp: servableTarget_def listed_def Let_def split: option.splits if_splits)

lemma target_listed:
  "resolveClaudeTarget m bases resolve = Some (i, e) \<Longrightarrow> listed bases i \<and> i \<noteq> []
     \<and> (\<forall>x. e = Some x \<longrightarrow> x \<in> set SUFFIX_EFFORTS)"
proof -
  assume r: "resolveClaudeTarget m bases resolve = Some (i, e)"
  have eff: "x \<in> set SUFFIX_EFFORTS" if "snd (parseEffortSuffix t) = Some x" for t x
    using that by (auto simp: parseEffortSuffix_def effort_tags_def dest!: find_SomeD split: option.splits)
  show ?thesis
    using r servable_listed eff
    by (auto simp: resolveClaudeTarget_def Let_def truthy_Some_iff split: option.splits)
qed

lemma codex_listed:
  "pickCodexFallback ms slugs = Some (i, e) \<Longrightarrow> isCodexModel i slugs"
  by (induction ms) (auto simp: Let_def split: if_splits)

lemma claude_first:
  "pickClaudeTarget ms slugs bases resolve = Some t \<Longrightarrow>
     \<exists>pre m post. ms = pre @ m # post \<and> \<not> isCodexModel m slugs \<and> resolveClaudeTarget m bases resolve = Some t
       \<and> (\<forall>x \<in> set pre. isCodexModel x slugs \<or> resolveClaudeTarget x bases resolve = None)"
proof (induction ms)
  case Nil
  then show ?case by simp
next
  case (Cons m ms)
  show ?case
  proof (cases "\<not> isCodexModel m slugs \<and> resolveClaudeTarget m bases resolve \<noteq> None")
    case True
    with Cons.prems have "resolveClaudeTarget m bases resolve = Some t" by (auto split: option.splits)
    with True show ?thesis by (intro exI [of _ "[]"] exI [of _ m] exI [of _ ms]) simp
  next
    case False
    with Cons.prems have "pickClaudeTarget ms slugs bases resolve = Some t"
      by (auto split: option.splits if_splits)
    from Cons.IH [OF this] obtain pre n post where
      "ms = pre @ n # post \<and> \<not> isCodexModel n slugs \<and> resolveClaudeTarget n bases resolve = Some t
       \<and> (\<forall>x \<in> set pre. isCodexModel x slugs \<or> resolveClaudeTarget x bases resolve = None)" by blast
    with False show ?thesis by (intro exI [of _ "m # pre"]) auto
  qed
qed

lemma claude_none:
  "pickClaudeTarget ms slugs bases resolve = None \<longleftrightarrow>
     (\<forall>m \<in> set ms. isCodexModel m slugs \<or> resolveClaudeTarget m bases resolve = None)"
  by (induction ms) (auto split: option.split)

lemma credits_listed:
  "pickCreditsTarget ms bases resolve = Some t \<Longrightarrow>
     \<exists>m \<in> set ms. isCreditsEntry m \<and> (\<exists>n. creditsEntryModel m = Some n \<and> resolveClaudeTarget n bases resolve = Some t)"
proof (induction ms)
  case Nil
  then show ?case by simp
next
  case (Cons m ms)
  have "isCreditsEntry m" if "creditsEntryModel m = Some n" for n
    using that by (auto simp: creditsEntryModel_def isCreditsEntry_def Let_def split: if_splits)
  with Cons show ?case by (fastforce split: option.splits)
qed

text \<open>
  Failover never trades a rate limit for an unknown model. Each provider takes the first chain entry it
  can serve: what the Codex side is given is a slug its account lists, what the Claude side and the
  credits rung are given is listed in the catalogue, and the Claude side passes over an entry only
  because it is a Codex slug or no listed model; a Codex slug as written never goes to Claude.
\<close>

theorem chain_picks_listed:
  assumes "pickClaudeTarget models slugs bases resolve = Some (i, e)"
  shows "listed bases i
       \<and> (\<exists>pre m post. models = pre @ m # post \<and> \<not> isCodexModel m slugs
            \<and> resolveClaudeTarget m bases resolve = Some (i, e)
            \<and> (\<forall>x \<in> set pre. isCodexModel x slugs \<or> \<not> isClaudeServableModel x bases resolve))
       \<and> (\<forall>j f. pickCodexFallback models slugs = Some (j, f) \<longrightarrow> isCodexModel j slugs)
       \<and> (\<forall>j f. pickCreditsTarget models bases resolve = Some (j, f) \<longrightarrow> listed bases j)"
  using claude_first [OF assms] target_listed codex_listed credits_listed
  unfolding isClaudeServableModel_def by (metis (no_types, opaque_lifting))

theorem chain_picks_listed_witness:
  "\<exists>i e. pickClaudeTarget [''gpt-5.6-sol'', ''claude-sonnet-6'', ''claude:opus:high''] [''gpt-5.6-sol''] BAKED_BASE_MODELS None
     = Some (i, e) \<and> listed BAKED_BASE_MODELS i \<and> e = Some High"
proof -
  have p: "pickClaudeTarget [''gpt-5.6-sol'', ''claude-sonnet-6'', ''claude:opus:high''] [''gpt-5.6-sol''] BAKED_BASE_MODELS None
     = Some (''claude-opus-5-5'', Some High)" by code_simp
  from chain_picks_listed [OF p] p show ?thesis by blast
qed

end
