(* ===== verification/Failover.thy ===== *)
theory Failover
  imports Model_Resolution
begin

text \<open>
  Who serves a request and what happens when a provider cannot: the routing decision and the outcome
  of an exhausted pool (\<open>provider-adapter.ts\<close>), the cool-downs of the providers (\<open>provider-cooldown.ts\<close>),
  the switch to another model family (\<open>family-fallback.ts\<close>), the tiered fallback target
  (\<open>pool-fallback-tier.ts\<close>), the classification of a refusal (\<open>upstream-rejection.ts\<close>), the pinning of
  a request to one seat (\<open>seat-pin.ts\<close>) and what a closed client connection does (\<open>stream-drain.ts\<close>).
\<close>

section \<open>Routing\<close>

datatype provider_id = Claude | Openai_compat | Codex

record route_context =
  isOpenAIPath :: bool
  rc_model :: string
  forcedProvider :: "provider_id option"
  hasOpenAIBackend :: bool
  hasCodexAccount :: bool
  codexModels :: "string list"
  poolFallbackModel :: "string option"
  poolSize :: int

record route_decision =
  rd_provider :: provider_id
  rd_fallback :: "provider_id option"

record provider_adapter =
  pa_id :: provider_id
  pa_priority :: int
  claimsPrimary :: "route_context \<Rightarrow> bool"

definition OPENAI_MODEL_PATTERNS :: "string list" where
  "OPENAI_MODEL_PATTERNS =
     [''gpt-'', ''o1-'', ''o3-'', ''o4-'', ''chatgpt-'', ''text-davinci'', ''text-embedding-'']"

definition isOpenAIModel :: "string \<Rightarrow> bool" where
  "isOpenAIModel model \<longleftrightarrow> (\<exists>p \<in> set OPENAI_MODEL_PATTERNS. starts_with (to_lower model) p)"

definition codexAdapter :: provider_adapter where
  "codexAdapter =
     \<lparr>pa_id = Codex, pa_priority = 200,
      claimsPrimary = (\<lambda>ctx.
        if \<not> hasCodexAccount ctx then False
        else if forcedProvider ctx = Some Claude \<or> forcedProvider ctx = Some Openai_compat then False
        else forcedProvider ctx = Some Codex \<or> isCodexModel (rc_model ctx) (codexModels ctx))\<rparr>"

definition openaiAdapter :: provider_adapter where
  "openaiAdapter =
     \<lparr>pa_id = Openai_compat, pa_priority = 100,
      claimsPrimary = (\<lambda>ctx.
        if \<not> hasOpenAIBackend ctx then False
        else if \<not> isOpenAIPath ctx then False
        else if forcedProvider ctx = Some Claude \<or> forcedProvider ctx = Some Codex then False
        else forcedProvider ctx = Some Openai_compat \<or> isOpenAIModel (rc_model ctx))\<rparr>"

definition claudeAdapter :: provider_adapter where
  "claudeAdapter = \<lparr>pa_id = Claude, pa_priority = 0, claimsPrimary = (\<lambda>_. True)\<rparr>"

definition DEFAULT_ADAPTERS :: "provider_adapter list" where
  "DEFAULT_ADAPTERS = [codexAdapter, openaiAdapter, claudeAdapter]"

datatype pool_fallback_outcome = Fallback_codex | Fallback_openai | Fallback_unavailable

definition poolFallbackOutcome :: "string list \<Rightarrow> int \<Rightarrow> bool \<Rightarrow> bool \<Rightarrow> bool \<Rightarrow> pool_fallback_outcome" where
  "poolFallbackOutcome fallbackModels poolCount codexServes hasBackend openaiPath =
     (if length fallbackModels = 0 \<or> poolCount = 0 then Fallback_unavailable
      else if codexServes then Fallback_codex
      else if hasBackend \<and> openaiPath then Fallback_openai
      else Fallback_unavailable)"

definition route :: "provider_adapter list \<Rightarrow> route_context \<Rightarrow> route_decision" where
  "route adapters ctx =
     (let ordered = sort_by (\<lambda>a b. pa_priority b - pa_priority a) adapters;
          primary = opt_or (List.find (\<lambda>a. claimsPrimary a ctx) ordered) claudeAdapter;
          fallback =
            (if pa_id primary = Claude \<and> poolFallbackModel ctx \<noteq> None \<and> poolSize ctx > 0 then
               (if hasCodexAccount ctx \<and> isCodexModel (opt_or (poolFallbackModel ctx) '''') (codexModels ctx)
                then Some Codex
                else if hasOpenAIBackend ctx \<and> isOpenAIPath ctx then Some Openai_compat
                else None)
             else None)
      in \<lparr>rd_provider = pa_id primary, rd_fallback = fallback\<rparr>)"

section \<open>Cool-downs\<close>

definition DEFAULT_COOLDOWN_MS :: ms where "DEFAULT_COOLDOWN_MS = 60000"
definition MAX_COOLDOWN_MS :: ms where "MAX_COOLDOWN_MS = 15 * 60000"

text \<open>\<open>retry-after\<close>: seconds, or a date read by \<open>Date.parse\<close>, an argument.\<close>

definition retryAfterHeaderMs :: "(string \<Rightarrow> ms option) \<Rightarrow> string option \<Rightarrow> ms \<Rightarrow> ms option" where
  "retryAfterHeaderMs date_parse value now =
     (case value of
        None \<Rightarrow> None
      | Some v \<Rightarrow>
          let trimmed = trim v
          in if length trimmed = 0 then None
             else if list_all is_digit trimmed then Some (min (int (nat_of_digits trimmed) * 1000) MAX_COOLDOWN_MS)
             else (case date_parse trimmed of
                     None \<Rightarrow> None
                   | Some t \<Rightarrow> Some (min (max (t - now) 0) MAX_COOLDOWN_MS)))"

type_synonym cooldowns = "(string, ms) jsmap"

definition cooldown_note :: "ms \<Rightarrow> string \<Rightarrow> ms option \<Rightarrow> ms \<Rightarrow> cooldowns \<Rightarrow> ms \<times> cooldowns" where
  "cooldown_note defaultMs provider retryAfter now c =
     (let ms = (case retryAfter of None \<Rightarrow> defaultMs | Some r \<Rightarrow> min (max r 0) MAX_COOLDOWN_MS)
      in (ms, AList.update provider (now + ms) c))"

definition cooldown_clear :: "string \<Rightarrow> cooldowns \<Rightarrow> cooldowns" where
  "cooldown_clear provider c = AList.delete provider c"

definition remainingMs :: "string \<Rightarrow> ms \<Rightarrow> cooldowns \<Rightarrow> ms \<times> cooldowns" where
  "remainingMs provider now c =
     (case map_of c provider of
        None \<Rightarrow> (0, c)
      | Some ends \<Rightarrow> let left = ends - now in if left \<le> 0 then (0, AList.delete provider c) else (left, c))"

definition isCooled :: "string \<Rightarrow> ms \<Rightarrow> cooldowns \<Rightarrow> bool \<times> cooldowns" where
  "isCooled provider now c = (let (left, c') = remainingMs provider now c in (left > 0, c'))"

definition canAttempt :: "string \<Rightarrow> string list \<Rightarrow> ms \<Rightarrow> cooldowns \<Rightarrow> bool \<times> cooldowns" where
  "canAttempt provider attempted now c =
     (if provider \<in> set attempted then (False, c)
      else let (cooled, c') = isCooled provider now c in (\<not> cooled, c'))"

text \<open>\<open>every\<close> stops at the first provider that is not cooled.\<close>

fun all_cooled :: "string list \<Rightarrow> ms \<Rightarrow> cooldowns \<Rightarrow> bool \<times> cooldowns" where
  "all_cooled [] now c = (True, c)"
| "all_cooled (p # ps) now c =
     (let (cooled, c') = isCooled p now c in if cooled then all_cooled ps now c' else (False, c'))"

definition allProvidersCooled :: "string list \<Rightarrow> ms \<Rightarrow> cooldowns \<Rightarrow> bool \<times> cooldowns" where
  "allProvidersCooled providers now c =
     (if length providers > 0 then all_cooled providers now c else (False, c))"

fun longest_left :: "ms \<Rightarrow> string list \<Rightarrow> ms \<Rightarrow> cooldowns \<Rightarrow> ms \<times> cooldowns" where
  "longest_left m [] now c = (m, c)"
| "longest_left m (p # ps) now c = (let (left, c') = remainingMs p now c in longest_left (max m left) ps now c')"

definition cooldownRetryAfterMs :: "string list \<Rightarrow> ms \<Rightarrow> cooldowns \<Rightarrow> ms \<times> cooldowns" where
  "cooldownRetryAfterMs providers now c = longest_left 0 providers now c"

section \<open>Family fallback\<close>

datatype fallback_error = Not_a_family string | No_target string | Bad_target string string | Same_family string string

definition is_claude_name :: "string \<Rightarrow> bool" where
  "is_claude_name s = starts_with (to_lower s) ''claude-''"

text \<open>A specification in text splits into pairs; a map of the configuration file is one.\<close>

definition fallback_pairs :: "string \<Rightarrow> (string \<times> string option) list" where
  "fallback_pairs spec =
     map (\<lambda>entry. case cut_at CHR ''='' entry of None \<Rightarrow> (entry, None) | Some (a, b) \<Rightarrow> (a, Some b))
       (filter (\<lambda>s. s \<noteq> []) (map trim (split_on CHR '','' spec)))"

definition fallback_step ::
  "(string, string) jsmap \<times> fallback_error list \<Rightarrow> string \<times> string option
     \<Rightarrow> (string, string) jsmap \<times> fallback_error list" where
  "fallback_step s p =
     (let (m, errs) = s; (rawFrom, rawTo) = p;
          src = to_lower (trim rawFrom);
          dest = (case rawTo of Some t \<Rightarrow> trim t | None \<Rightarrow> '''')
      in if src \<notin> set KNOWN_FAMILIES then (m, errs @ [Not_a_family rawFrom])
         else if dest = [] then (m, errs @ [No_target rawFrom])
         else (case modelFamily (Some dest) of
                 None \<Rightarrow> (m, errs @ [Bad_target rawFrom dest])
               | Some toFamily \<Rightarrow>
                   if \<not> is_claude_name dest then (m, errs @ [Bad_target rawFrom dest])
                   else if toFamily = src then (m, errs @ [Same_family rawFrom dest])
                   else (AList.update src dest m, errs)))"

definition parseFamilyFallback :: "(string \<times> string option) list \<Rightarrow> (string, string) jsmap \<times> fallback_error list" where
  "parseFamilyFallback pairs = foldl fallback_step ([], []) pairs"

definition has_1m :: "string \<Rightarrow> bool" where
  "has_1m s = ends_with (to_lower s) ''[1m]''"

definition printable_name :: "string \<Rightarrow> bool" where
  "printable_name s \<longleftrightarrow>
     1 \<le> length s \<and> length s \<le> 256 \<and> list_all (\<lambda>c. 33 \<le> code_of c \<and> code_of c \<le> 126) s"

definition familyFallbackModel ::
  "(string, string) jsmap \<Rightarrow> string \<Rightarrow> (string \<Rightarrow> bool) \<Rightarrow> (string \<Rightarrow> bool) \<Rightarrow> string option" where
  "familyFallbackModel m model parked servable =
     (if m = [] then None
      else if \<not> printable_name model then None
      else (case modelFamily (Some model) of
              None \<Rightarrow> None
            | Some family \<Rightarrow>
                (case truthy (map_of m family) of
                   None \<Rightarrow> None
                 | Some target \<Rightarrow>
                     (case modelFamily (Some target) of
                        None \<Rightarrow> None
                      | Some targetFamily \<Rightarrow>
                          if \<not> parked family \<or> \<not> servable targetFamily then None
                          else Some (if has_1m (trim model) \<and> \<not> has_1m target then target @ ''[1m]'' else target)))))"

section \<open>Tiered fallback\<close>

definition TIERS :: "string list" where
  "TIERS = [''haiku'', ''sonnet'', ''opus'', ''default'']"

definition is_tier_entry :: "string \<Rightarrow> bool" where
  "is_tier_entry entry \<longleftrightarrow> (\<exists>t \<in> set TIERS. starts_with (to_lower entry) (t @ '':''))"

definition tier_step :: "(string, string) jsmap \<Rightarrow> string \<Rightarrow> (string, string) jsmap" where
  "tier_step tiers entry =
     (case cut_at CHR '':'' entry of
        None \<Rightarrow> tiers
      | Some (a, b) \<Rightarrow>
          let tier = to_lower (trim a); model = trim b
          in if tier \<noteq> [] \<and> model \<noteq> [] then AList.update tier model tiers else tiers)"

definition model_tier :: "string \<Rightarrow> string" where
  "model_tier requested =
     (let m = to_lower requested
      in if (\<exists>w \<in> set [''haiku'', ''mini'', ''small'', ''luna'']. has_sub m w) then ''haiku''
         else if (\<exists>w \<in> set [''opus'', ''sol'', ''large'']. has_sub m w) then ''opus''
         else if (\<exists>w \<in> set [''sonnet'', ''terra'', ''medium'']. has_sub m w) then ''sonnet''
         else ''default'')"

definition selectPoolFallbackModels :: "string option \<Rightarrow> string \<Rightarrow> string list" where
  "selectPoolFallbackModels spec requestedModel =
     (let entries = filter (\<lambda>s. s \<noteq> []) (map trim (split_on CHR '','' (trim (opt_or spec ''''))))
      in if length entries = 0 then []
         else if \<not> list_all is_tier_entry entries then entries
         else let tiers = foldl tier_step [] entries;
                  target = opt_else (map_of tiers (model_tier requestedModel))
                             (opt_else (map_of tiers ''default'')
                               (case tiers of [] \<Rightarrow> None | (_, v) # _ \<Rightarrow> Some v))
              in (case truthy target of Some t \<Rightarrow> [t] | None \<Rightarrow> []))"

section \<open>Refusals, pins and closed connections\<close>

datatype rejection_class = Billing | Rate_limit | Credential | Other_rejection

definition classifyUpstreamRejection :: "int \<Rightarrow> string \<Rightarrow> rejection_class" where
  "classifyUpstreamRejection status body =
     (let n = to_lower body;
          billing = (status = 402 \<or> has_sub n ''payment_required'' \<or> has_sub n ''credit balance''
                     \<or> has_sub n ''plans & billing''
                     \<or> status = 403 \<and> has_sub n ''oauth_not_allowed_for_organization'')
      in if billing then Billing
         else if status = 429 then Rate_limit
         else if status = 401 \<or> has_sub n ''authentication_error'' \<or> has_sub n ''invalid_grant'' then Credential
         else Other_rejection)"

definition rejectionReason :: "rejection_class \<Rightarrow> string" where
  "rejectionReason c =
     (case c of Billing \<Rightarrow> ''billing-required'' | Rate_limit \<Rightarrow> ''rate-limited''
      | Credential \<Rightarrow> ''auth-rejected'' | Other_rejection \<Rightarrow> ''upstream-rejected'')"

datatype seat_pin = Pin_none | Pin_disabled | Pin_unauthorized | Pin_invalid_alias string | Pinned string

definition alias_ok :: "string \<Rightarrow> bool" where
  "alias_ok s \<longleftrightarrow>
     (case s of
        [] \<Rightarrow> False
      | c # cs \<Rightarrow> is_alnum c \<and> length cs \<le> 63 \<and> list_all (\<lambda>x. is_alnum x \<or> x \<in> {CHR ''_'', CHR ''-'', CHR ''.''}) cs)"

text \<open>A header is its list of values; the admin token's bytes are compared as text.\<close>

definition first_value :: "string list option \<Rightarrow> string option" where
  "first_value v = (case v of Some (x # _) \<Rightarrow> Some x | _ \<Rightarrow> None)"

definition resolveSeatPin :: "string list option \<Rightarrow> string list option \<Rightarrow> bool \<Rightarrow> string option \<Rightarrow> seat_pin" where
  "resolveSeatPin pin token adminEnabled adminToken =
     (case first_value pin of
        None \<Rightarrow> Pin_none
      | Some raw \<Rightarrow>
          let seat = trim raw
          in (case (adminEnabled, adminToken) of
                (True, Some secret) \<Rightarrow>
                  (case truthy (first_value token) of
                     None \<Rightarrow> Pin_unauthorized
                   | Some provided \<Rightarrow>
                       if length provided \<noteq> length secret \<or> provided \<noteq> secret then Pin_unauthorized
                       else if \<not> alias_ok seat then Pin_invalid_alias seat
                       else Pinned seat)
              | _ \<Rightarrow> Pin_disabled))"

datatype client_close_action = Close_abort | Close_drain | Close_noop

definition decideOnClientClose :: "bool \<Rightarrow> bool \<Rightarrow> bool \<Rightarrow> client_close_action" where
  "decideOnClientClose writableEnded upstreamAborted drainOnClose =
     (if writableEnded \<or> upstreamAborted then Close_noop
      else if drainOnClose then Close_drain else Close_abort)"

definition resolveDrainOnClose :: "bool option \<Rightarrow> string option \<Rightarrow> bool" where
  "resolveDrainOnClose explicit env =
     (case explicit of
        Some b \<Rightarrow> b
      | None \<Rightarrow> let v = to_lower (opt_or env '''') in v = ''1'' \<or> v = ''true'' \<or> v = ''yes'')"

section \<open>Where a request goes\<close>

lemma default_order:
  "sort_by (\<lambda>a b. pa_priority b - pa_priority a) DEFAULT_ADAPTERS = [codexAdapter, openaiAdapter, claudeAdapter]"
  by (simp add: sort_by_def DEFAULT_ADAPTERS_def codexAdapter_def openaiAdapter_def claudeAdapter_def)

definition outcome_provider :: "pool_fallback_outcome \<Rightarrow> provider_id option" where
  "outcome_provider out =
     (case out of Fallback_codex \<Rightarrow> Some Codex | Fallback_openai \<Rightarrow> Some Openai_compat | Fallback_unavailable \<Rightarrow> None)"

text \<open>
  C31. Routing only uses what is configured and never goes against a forced provider. Codex gets a request only with a
  stored account and a forced or listed model, the API-key backend only when configured and on the
  OpenAI path, and neither against a forced provider; all else is Claude's, also a request that forces a provider
  which is not configured, or the backend on the Anthropic path. Only a Claude request has
  a fallback, and it is the one the pool-exhaustion matrix names.
\<close>

theorem route_sound:
  assumes "0 \<le> poolSize ctx"
  shows "let d = route DEFAULT_ADAPTERS ctx in
           (rd_provider d = Codex \<longleftrightarrow> hasCodexAccount ctx
              \<and> (forcedProvider ctx = Some Codex
                  \<or> forcedProvider ctx = None \<and> isCodexModel (rc_model ctx) (codexModels ctx)))
         \<and> (rd_provider d = Openai_compat \<longleftrightarrow> hasOpenAIBackend ctx \<and> isOpenAIPath ctx
              \<and> (forcedProvider ctx = Some Openai_compat
                  \<or> forcedProvider ctx = None \<and> isOpenAIModel (rc_model ctx)
                      \<and> \<not> (hasCodexAccount ctx \<and> isCodexModel (rc_model ctx) (codexModels ctx))))
         \<and> rd_fallback d =
             (if rd_provider d = Claude
              then outcome_provider (poolFallbackOutcome
                     (case poolFallbackModel ctx of None \<Rightarrow> [] | Some m \<Rightarrow> [m]) (poolSize ctx)
                     (hasCodexAccount ctx \<and> isCodexModel (opt_or (poolFallbackModel ctx) '''') (codexModels ctx))
                     (hasOpenAIBackend ctx) (isOpenAIPath ctx))
              else None)"
proof -
  let ?c = "claimsPrimary codexAdapter ctx" and ?o = "claimsPrimary openaiAdapter ctx"
  have ids: "pa_id codexAdapter = Codex" "pa_id openaiAdapter = Openai_compat" "pa_id claudeAdapter = Claude"
    "claimsPrimary claudeAdapter ctx"
    by (simp_all add: codexAdapter_def openaiAdapter_def claudeAdapter_def)
  have prov: "rd_provider (route DEFAULT_ADAPTERS ctx) = (if ?c then Codex else if ?o then Openai_compat else Claude)"
    by (simp add: route_def Let_def default_order ids)
  have fb: "rd_fallback (route DEFAULT_ADAPTERS ctx) =
      (if \<not> ?c \<and> \<not> ?o \<and> poolFallbackModel ctx \<noteq> None \<and> poolSize ctx > 0 then
         (if hasCodexAccount ctx \<and> isCodexModel (opt_or (poolFallbackModel ctx) '''') (codexModels ctx) then Some Codex
          else if hasOpenAIBackend ctx \<and> isOpenAIPath ctx then Some Openai_compat else None)
       else None)"
    by (simp add: route_def Let_def default_order ids)
  have c: "?c \<longleftrightarrow> hasCodexAccount ctx \<and> (forcedProvider ctx = Some Codex
      \<or> forcedProvider ctx = None \<and> isCodexModel (rc_model ctx) (codexModels ctx))"
    by (cases "forcedProvider ctx"; cases "the (forcedProvider ctx)") (auto simp: codexAdapter_def)
  have o: "?o \<longleftrightarrow> hasOpenAIBackend ctx \<and> isOpenAIPath ctx \<and> (forcedProvider ctx = Some Openai_compat
      \<or> forcedProvider ctx = None \<and> isOpenAIModel (rc_model ctx))"
    by (cases "forcedProvider ctx"; cases "the (forcedProvider ctx)") (auto simp: openaiAdapter_def)
  have out: "outcome_provider (poolFallbackOutcome (case poolFallbackModel ctx of None \<Rightarrow> [] | Some m \<Rightarrow> [m]) (poolSize ctx)
        (hasCodexAccount ctx \<and> isCodexModel (opt_or (poolFallbackModel ctx) '''') (codexModels ctx))
        (hasOpenAIBackend ctx) (isOpenAIPath ctx)) =
      (if poolFallbackModel ctx \<noteq> None \<and> poolSize ctx > 0 then
         (if hasCodexAccount ctx \<and> isCodexModel (opt_or (poolFallbackModel ctx) '''') (codexModels ctx) then Some Codex
          else if hasOpenAIBackend ctx \<and> isOpenAIPath ctx then Some Openai_compat else None)
       else None)"
    using assms by (auto simp: poolFallbackOutcome_def outcome_provider_def split: option.split)
  show ?thesis unfolding Let_def prov fb out c o by auto
qed

definition sample_context :: route_context where
  "sample_context = \<lparr>isOpenAIPath = False, rc_model = ''claude-opus-5'', forcedProvider = None, hasOpenAIBackend = True,
     hasCodexAccount = True, codexModels = [''gpt-5.6-sol''], poolFallbackModel = Some ''gpt-5.6-sol'', poolSize = 2\<rparr>"

theorem route_sound_witness:
  "rd_provider (route DEFAULT_ADAPTERS sample_context) \<noteq> Codex
   \<and> rd_fallback (route DEFAULT_ADAPTERS sample_context) = Some Codex"
proof -
  have "0 \<le> poolSize sample_context" by (simp add: sample_context_def)
  from route_sound [OF this] show ?thesis
    by (cases "rd_provider (route DEFAULT_ADAPTERS sample_context)") (simp_all add: Let_def sample_context_def isCodexModel_def to_lower_def lower_char_def is_upper_def code_of_def
        isOpenAIModel_def poolFallbackOutcome_def outcome_provider_def)
qed

section \<open>How long a provider is left alone\<close>

definition left_of :: "cooldowns \<Rightarrow> ms \<Rightarrow> string \<Rightarrow> ms" where
  "left_of c now p = (case map_of c p of None \<Rightarrow> 0 | Some ends \<Rightarrow> max 0 (ends - now))"

lemma remainingMs_left:
  "fst (remainingMs p now c) = left_of c now p"
  "now \<le> t \<Longrightarrow> left_of (snd (remainingMs p now c)) t q = left_of c t q"
  by (auto simp: remainingMs_def left_of_def Let_def delete_conv' split: option.splits)

lemma isCooled_left:
  "fst (isCooled p now c) = (0 < left_of c now p)"
  "now \<le> t \<Longrightarrow> left_of (snd (isCooled p now c)) t q = left_of c t q"
  using remainingMs_left(1) [of p now c] remainingMs_left(2) [of now t p c]
  by (simp_all add: isCooled_def split_def)

lemma canAttempt_left:
  "fst (canAttempt p tried now c) = (p \<notin> set tried \<and> left_of c now p = 0)"
  using isCooled_left(1) [of p now c]
  by (auto simp: canAttempt_def split_def left_of_def split: option.splits)

lemma all_cooled_left: "fst (all_cooled ps now c) = (\<forall>p \<in> set ps. 0 < left_of c now p)"
  by (induction ps arbitrary: c) (simp_all add: split_def isCooled_left Let_def)

lemma longest_left_max: "fst (longest_left m ps now c) = max_of m (map (left_of c now) ps)"
proof (induction ps arbitrary: m c)
  case Nil
  show ?case by simp
next
  case (Cons p ps)
  have "left_of (snd (remainingMs p now c)) now = left_of c now"
    by (simp add: fun_eq_iff remainingMs_left)
  with Cons.IH show ?case by (simp add: split_def remainingMs_left(1))
qed

lemma left_later: "0 \<le> w \<Longrightarrow> left_of c (now + w) p = max 0 (left_of c now p - w)"
  by (auto simp: left_of_def split: option.split)

text \<open>
  A provider that declined is left alone exactly as long as it asked, within bounds. After a 429 noted at
  a time, this provider may be tried again, by a request it has not declined, exactly from the end of
  the stated wait, capped at a quarter of an hour, or of the default one; no other provider is
  affected. When all are cooling, the wait reported is the one after which none is, and no shorter.
\<close>

theorem cooldown_exact:
  assumes "noted \<le> now" and "cooldown_note defaultMs p retryAfter noted c = (applied, c')"
  shows "applied = (case retryAfter of None \<Rightarrow> defaultMs | Some r \<Rightarrow> min (max r 0) MAX_COOLDOWN_MS)
       \<and> (fst (canAttempt p tried now c') \<longleftrightarrow> p \<notin> set tried \<and> noted + applied \<le> now)
       \<and> (\<forall>q. q \<noteq> p \<longrightarrow> fst (canAttempt q tried now c') = fst (canAttempt q tried now c))
       \<and> (fst (allProvidersCooled ps now c') \<longrightarrow>
            (let w = fst (cooldownRetryAfterMs ps now c')
             in 0 < w \<and> (\<forall>q \<in> set ps. fst (canAttempt q [] (now + w) c'))
                \<and> (\<exists>q \<in> set ps. \<not> fst (canAttempt q [] (now + (w - 1)) c'))))"
proof -
  have app: "applied = (case retryAfter of None \<Rightarrow> defaultMs | Some r \<Rightarrow> min (max r 0) MAX_COOLDOWN_MS)"
    and c': "c' = AList.update p (noted + applied) c"
    using assms(2) by (auto simp: cooldown_note_def Let_def)
  have own: "left_of c' now p = max 0 (noted + applied - now)" by (simp add: c' left_of_def update_conv')
  have other: "left_of c' now q = left_of c now q" if "q \<noteq> p" for q
    using that by (simp add: c' left_of_def update_conv')
  have wait: "let w = fst (cooldownRetryAfterMs ps now c')
      in 0 < w \<and> (\<forall>q \<in> set ps. fst (canAttempt q [] (now + w) c'))
         \<and> (\<exists>q \<in> set ps. \<not> fst (canAttempt q [] (now + (w - 1)) c'))"
    if all: "fst (allProvidersCooled ps now c')"
  proof -
    let ?w = "max_of 0 (map (left_of c' now) ps)"
    have pos: "\<forall>q \<in> set ps. 0 < left_of c' now q" and "ps \<noteq> []"
      using all by (auto simp: allProvidersCooled_def all_cooled_left split: if_splits)
    then obtain q where q: "q \<in> set ps" by (cases ps) auto
    have le: "left_of c' now q \<le> ?w" if "q \<in> set ps" for q
      using that by (intro max_of_upper) auto
    have w: "0 < ?w" using le [OF q] pos q by fastforce
    then obtain q' where "q' \<in> set ps" "left_of c' now q' = ?w"
      using max_of_in [of 0 "map (left_of c' now) ps"] by auto
    then have "\<exists>q \<in> set ps. \<not> fst (canAttempt q [] (now + (?w - 1)) c')"
      using w by (auto simp: canAttempt_left left_later intro!: bexI [of _ q'])
    moreover have "\<forall>q \<in> set ps. fst (canAttempt q [] (now + ?w) c')"
      using w le by (auto simp: canAttempt_left left_later)
    ultimately show ?thesis using w by (simp add: cooldownRetryAfterMs_def longest_left_max)
  qed
  show ?thesis using app own other wait by (auto simp: canAttempt_left)
qed

theorem cooldown_exact_witness:
  "\<not> fst (canAttempt ''codex'' [] 20 (snd (cooldown_note DEFAULT_COOLDOWN_MS ''codex'' (Some 100) 0 [])))"
proof -
  have "(0::ms) \<le> 20" by simp
  moreover have "cooldown_note DEFAULT_COOLDOWN_MS ''codex'' (Some 100) 0 [] = (100, [(''codex'', 100)])"
    by (simp add: cooldown_note_def MAX_COOLDOWN_MS_def)
  ultimately show ?thesis using cooldown_exact [of 0 20 DEFAULT_COOLDOWN_MS "''codex''" "Some 100" "[]" 100 "[(''codex'', 100)]" "[]" "[]"]
    by simp
qed

section \<open>Switching family\<close>

definition fallback_entry_ok :: "string \<Rightarrow> string \<Rightarrow> bool" where
  "fallback_entry_ok f t \<longleftrightarrow>
     f \<in> set KNOWN_FAMILIES \<and> t \<noteq> [] \<and> is_claude_name t \<and> (\<exists>g. modelFamily (Some t) = Some g \<and> g \<noteq> f)"

lemma fallback_step_ok:
  assumes "\<And>f t. map_of (fst s) f = Some t \<Longrightarrow> fallback_entry_ok f t"
    and "map_of (fst (fallback_step s p)) f = Some t"
  shows "fallback_entry_ok f t"
  using assms
  by (auto simp: fallback_step_def split_def Let_def fallback_entry_ok_def update_conv'
      split: if_splits option.splits)

lemma parse_fallback_ok:
  "map_of (fst (parseFamilyFallback pairs)) f = Some t \<Longrightarrow> fallback_entry_ok f t"
proof -
  have "\<lbrakk>\<And>f t. map_of (fst s) f = Some t \<Longrightarrow> fallback_entry_ok f t; map_of (fst (foldl fallback_step s pairs)) f = Some t\<rbrakk>
      \<Longrightarrow> fallback_entry_ok f t" for s
  proof (induction pairs arbitrary: s)
    case Nil
    then show ?case by simp
  next
    case (Cons p pairs)
    show ?case
    proof (rule Cons.IH [of "fallback_step s p"])
      show "fallback_entry_ok f' t'" if "map_of (fst (fallback_step s p)) f' = Some t'" for f' t'
        by (rule fallback_step_ok [OF Cons.prems(1) that])
      show "map_of (fst (foldl fallback_step (fallback_step s p) pairs)) f = Some t"
        using Cons.prems(2) by simp
    qed
  qed
  from this [of "([], [])"] show "map_of (fst (parseFamilyFallback pairs)) f = Some t \<Longrightarrow> fallback_entry_ok f t"
    by (simp add: parseFamilyFallback_def)
qed

text \<open>A separator that is not in the word splits a search.\<close>

lemma has_sub_split:
  assumes "c \<notin> set w" and "w \<noteq> []"
  shows "has_sub (m @ c # t) w \<longleftrightarrow> has_sub m w \<or> has_sub t w"
proof
  assume "has_sub (m @ c # t) w"
  then obtain a b where "a @ w @ b = m @ c # t" unfolding has_sub_iff by metis
  then have "(a @ w) @ b = m @ c # t" by simp
  then obtain us where us: "a @ w = m @ us \<and> us @ b = c # t \<or> (a @ w) @ us = m \<and> b = us @ c # t"
    unfolding append_eq_append_conv2 by blast
  show "has_sub m w \<or> has_sub t w"
  proof (cases "(a @ w) @ us = m \<or> us = []")
    case True
    then show ?thesis using us unfolding has_sub_iff by (metis append.assoc append_Nil2)
  next
    case False
    with us obtain us' where u: "us = c # us'" "us' @ b = t" and aw: "a @ w = m @ c # us'"
      by (cases us) auto
    from aw obtain vs where vs: "a = m @ vs \<and> vs @ w = c # us' \<or> a @ vs = m \<and> w = vs @ c # us'"
      unfolding append_eq_append_conv2 by blast
    with assms(1) obtain vs' where "vs = c # vs'" "us' = vs' @ w" by (cases vs) auto
    then have "t = vs' @ w @ b" using u(2) by simp
    then show ?thesis unfolding has_sub_iff by blast
  qed
next
  assume "has_sub m w \<or> has_sub t w"
  then show "has_sub (m @ c # t) w"
    unfolding has_sub_iff by (metis append.assoc append_Cons)
qed

lemma modelFamily_1m:
  assumes "t \<noteq> []"
  shows "modelFamily (Some (t @ ''[1m]'')) = modelFamily (Some t)"
proof -
  have low: "to_lower (t @ ''[1m]'') = to_lower t @ CHR ''['' # ''1m]''"
    by (simp add: to_lower_def lower_char_def is_upper_def code_of_def)
  have sub: "has_sub (to_lower t @ CHR ''['' # ''1m]'') w = has_sub (to_lower t) w"
    if "w \<in> {''opus'', ''sonnet'', ''haiku'', ''fable''}" for w
  proof -
    have "\<not> has_sub ''1m]'' w" using that by (elim insertE emptyE) (simp_all, code_simp+)
    moreover have "CHR ''['' \<notin> set w" "w \<noteq> []" using that by auto
    ultimately show ?thesis by (simp only: has_sub_split simp_thms)
  qed
  show ?thesis
    using assms sub unfolding modelFamily_def by (simp add: truthy_nonempty Let_def low)
qed

lemma has_1m_append: "has_1m (t @ ''[1m]'')"
  by (simp add: has_1m_def to_lower_append) (simp add: to_lower_def lower_char_def is_upper_def code_of_def)

text \<open>
  The family switch is one safe step. When a request is served as another model, the map of a parsed setting
  being used, its own family is parked on every seat, the new model is a Claude model of another
  family some seat can serve now, and a long-context request keeps its long context.
\<close>

theorem family_switch_safe:
  assumes "familyFallbackModel (fst (parseFamilyFallback pairs)) model parked servable = Some r"
  shows "\<exists>f g. modelFamily (Some model) = Some f \<and> modelFamily (Some r) = Some g \<and> f \<noteq> g
           \<and> parked f \<and> servable g \<and> is_claude_name r \<and> (has_1m (trim model) \<longrightarrow> has_1m r)"
proof -
  from assms obtain f t g where f: "modelFamily (Some model) = Some f"
    and t: "map_of (fst (parseFamilyFallback pairs)) f = Some t" "t \<noteq> []"
    and g: "modelFamily (Some t) = Some g" "parked f" "servable g"
    and r: "r = (if has_1m (trim model) \<and> \<not> has_1m t then t @ ''[1m]'' else t)"
    by (auto simp: familyFallbackModel_def truthy_Some_iff split: if_splits option.splits)
  have ok: "fallback_entry_ok f t" by (rule parse_fallback_ok [OF t(1)])
  have "modelFamily (Some r) = Some g" using r g(1) modelFamily_1m [OF t(2)] by simp
  moreover have "is_claude_name r"
    using ok r by (auto simp: fallback_entry_ok_def is_claude_name_def to_lower_append starts_with_iff)
  moreover have "has_1m (trim model) \<longrightarrow> has_1m r" using r by (simp add: has_1m_append)
  ultimately show ?thesis using ok f g by (auto simp: fallback_entry_ok_def)
qed

theorem family_switch_safe_witness:
  "\<exists>g. modelFamily (Some ''claude-opus-5-5[1m]'') = Some g \<and> g \<noteq> ''fable''"
proof -
  have r: "familyFallbackModel (fst (parseFamilyFallback (fallback_pairs ''fable=claude-opus-5-5, x=y''))) ''claude-fable-5[1m]''
      (\<lambda>f. f = ''fable'') (\<lambda>f. f = ''opus'') = Some ''claude-opus-5-5[1m]''"
    by code_simp
  from family_switch_safe [OF r] show ?thesis by metis
qed

end
