(* ===== verification/Stream_State.thy ===== *)
theory Stream_State
  imports Sse_Frames
begin

text \<open>
  What the client of a stream has seen so far (\<open>ClientStreamState\<close> of \<open>midstream.ts\<close>): the content
  blocks, whether the message has started or ended, and which closing frames are withheld from it. The
  array of blocks is a map from its indices, as an upstream may number its blocks with gaps; a gap is
  what makes \<open>findIndex\<close> throw. The fields of a frame have their declared types: a string field that is
  no string is read as absent where the code does not test it.
\<close>

section \<open>State\<close>

datatype wire_shape = Anthropic | OpenAI

datatype js_error = Type_Error

record block_state =
  b_type :: utext
  b_open :: bool
  b_text :: utext

record client_state =
  cs_shape :: wire_shape
  cs_started :: bool
  cs_finished :: bool
  cs_blocks :: "(rat, block_state) jsmap"
  cs_withheld :: "sse_frame list"
  cs_upstreamFailed :: bool
  cs_toolInProgress :: bool
  cs_model :: "utext option"

definition new_client_state :: "wire_shape \<Rightarrow> client_state" where
  "new_client_state shape =
     \<lparr>cs_shape = shape, cs_started = False, cs_finished = False, cs_blocks = [], cs_withheld = [],
      cs_upstreamFailed = False, cs_toolInProgress = False, cs_model = None\<rparr>"

text \<open>\<open>length\<close> of an array: one more than its largest index; other keys are plain properties.\<close>

definition array_index :: "rat \<Rightarrow> nat option" where
  "array_index k = (if 0 \<le> k \<and> of_int \<lfloor>k\<rfloor> = k then Some (nat \<lfloor>k\<rfloor>) else None)"

definition blocks_length :: "(rat, block_state) jsmap \<Rightarrow> nat" where
  "blocks_length m = max_of 0 (map Suc (List.map_filter (\<lambda>e. array_index (fst e)) m))"

definition block_at :: "(rat, block_state) jsmap \<Rightarrow> nat \<Rightarrow> block_state option" where
  "block_at m i = map_of m (of_nat i)"

text \<open>\<open>findIndex((b) => b.open)\<close> looks at every place of the array, \<open>filter\<close> skips the gaps.\<close>

fun find_open :: "(rat, block_state) jsmap \<Rightarrow> nat list \<Rightarrow> js_error + int" where
  "find_open m [] = Inr (-1)"
| "find_open m (i # is) =
     (case block_at m i of
        None \<Rightarrow> Inl Type_Error
      | Some b \<Rightarrow> (if b_open b then Inr (int i) else find_open m is))"

definition openIdx :: "client_state \<Rightarrow> js_error + int" where
  "openIdx s = find_open (cs_blocks s) [0..<blocks_length (cs_blocks s)]"

definition openType :: "client_state \<Rightarrow> js_error + utext option" where
  "openType s =
     (case openIdx s of
        Inl e \<Rightarrow> Inl e
      | Inr i \<Rightarrow> Inr (if i < 0 then None else map_option b_type (block_at (cs_blocks s) (nat i))))"

definition textSoFar :: "client_state \<Rightarrow> utext" where
  "textSoFar s =
     concat (map b_text (filter (\<lambda>b. b_type b = lit ''text'')
       (List.map_filter (block_at (cs_blocks s)) [0..<blocks_length (cs_blocks s)])))"

definition openText :: "client_state \<Rightarrow> js_error + utext" where
  "openText s =
     (case openIdx s of
        Inl e \<Rightarrow> Inl e
      | Inr i \<Rightarrow> Inr (case (if i < 0 then None else block_at (cs_blocks s) (nat i)) of
                       Some b \<Rightarrow> (if b_type b = lit ''text'' then b_text b else [])
                     | None \<Rightarrow> []))"

definition continuable :: "client_state \<Rightarrow> js_error + bool" where
  "continuable s =
     (if \<not> cs_started s \<or> cs_finished s \<or> cs_toolInProgress s then Inr False
      else (case openType s of
              Inl e \<Rightarrow> Inl e
            | Inr None \<Rightarrow> Inr True
            | Inr (Some t) \<Rightarrow> Inr (t \<in> {lit ''text'', lit ''thinking'', lit ''redacted_thinking''})))"

section \<open>Observing a frame\<close>

definition num_of :: "jvalue option \<Rightarrow> rat option" where
  "num_of v = (case v of Some (J_num n) \<Rightarrow> Some n | _ \<Rightarrow> None)"

definition withhold :: "sse_frame \<Rightarrow> client_state \<Rightarrow> bool \<times> client_state" where
  "withhold f s = (False, s\<lparr>cs_withheld := cs_withheld s @ [f]\<rparr>)"

definition frame_type :: "sse_frame \<Rightarrow> utext option" where
  "frame_type f = str_of (jprop (map_option J_obj (f_data f)) ''type'')"

definition field :: "sse_frame \<Rightarrow> string \<Rightarrow> jvalue option" where
  "field f k = jprop (map_option J_obj (f_data f)) k"

definition is_tool_type :: "utext \<Rightarrow> bool" where
  "is_tool_type t \<longleftrightarrow> t = lit ''tool_use'' \<or> t = lit ''server_tool_use''"

definition start_block :: "sse_frame \<Rightarrow> client_state \<Rightarrow> client_state" where
  "start_block f s =
     (let idx = opt_or (num_of (field f ''index'')) (of_nat (blocks_length (cs_blocks s)));
          cb = field f ''content_block'';
          ty = opt_or (str_of (jprop cb ''type'')) (lit ''text'');
          s1 = s\<lparr>cs_blocks := AList.update idx
                  \<lparr>b_type = ty, b_open = True, b_text = opt_or (str_of (jprop cb ''text'')) []\<rparr> (cs_blocks s)\<rparr>
      in if is_tool_type ty then s1\<lparr>cs_toolInProgress := True\<rparr> else s1)"

definition delta_text :: "jvalue option \<Rightarrow> utext option" where
  "delta_text d = (if str_of (jprop d ''type'') = Some (lit ''text_delta'') then str_of (jprop d ''text'') else None)"

definition delta_block :: "sse_frame \<Rightarrow> client_state \<Rightarrow> client_state" where
  "delta_block f s =
     (let idx = opt_or (num_of (field f ''index'')) (-1)
      in case (map_of (cs_blocks s) idx, delta_text (field f ''delta'')) of
           (Some b, Some t) \<Rightarrow> s\<lparr>cs_blocks := AList.update idx (b\<lparr>b_text := b_text b @ t\<rparr>) (cs_blocks s)\<rparr>
         | _ \<Rightarrow> s)"

definition stop_block :: "sse_frame \<Rightarrow> client_state \<Rightarrow> client_state" where
  "stop_block f s =
     (let idx = opt_or (num_of (field f ''index'')) (-1)
      in case map_of (cs_blocks s) idx of
           Some b \<Rightarrow> s\<lparr>cs_blocks := AList.update idx (b\<lparr>b_open := False\<rparr>) (cs_blocks s)\<rparr>
         | None \<Rightarrow> s)"

definition start_message :: "sse_frame \<Rightarrow> client_state \<Rightarrow> client_state" where
  "start_message f s =
     s\<lparr>cs_started := True,
       cs_model := opt_else (str_of (jprop (field f ''message'') ''model'')) (cs_model s)\<rparr>"

definition observeAnthropic :: "sse_frame \<Rightarrow> client_state \<Rightarrow> bool \<times> client_state" where
  "observeAnthropic f s =
     (case f_data f of
        None \<Rightarrow> (True, s)
      | Some _ \<Rightarrow>
          let ty = frame_type f
          in if ty = Some (lit ''message_start'') then (True, start_message f s)
             else if ty = Some (lit ''content_block_start'') then (True, start_block f s)
             else if ty = Some (lit ''content_block_delta'') then (True, delta_block f s)
             else if ty = Some (lit ''content_block_stop'') then (True, stop_block f s)
             else if ty = Some (lit ''message_delta'') then
               (if cs_upstreamFailed s then withhold f s else (True, s))
             else if ty = Some (lit ''message_stop'') then
               (if cs_upstreamFailed s then withhold f s else (True, s\<lparr>cs_finished := True\<rparr>))
             else if ty = Some (lit ''error'') then
               (if \<not> cs_started s then (True, s) else withhold f s)
             else (True, s))"

definition choice_delta :: "jvalue \<Rightarrow> string \<Rightarrow> jvalue option" where
  "choice_delta c k = jprop (jprop (Some c) ''delta'') k"

definition choice_text :: "jvalue \<Rightarrow> utext" where
  "choice_text c = opt_or (str_of (choice_delta c ''content'')) []"

definition first_choice :: "sse_frame \<Rightarrow> jvalue option" where
  "first_choice f =
     (case field f ''choices'' of
        Some (J_arr (c # cs)) \<Rightarrow> (if js_truthy (Some c) then Some c else None)
      | _ \<Rightarrow> None)"

definition has_choices :: "sse_frame \<Rightarrow> bool" where
  "has_choices f = (case field f ''choices'' of Some (J_arr _) \<Rightarrow> True | _ \<Rightarrow> False)"

definition add_content :: "utext \<Rightarrow> client_state \<Rightarrow> client_state" where
  "add_content t s =
     (if t = [] then s
      else
        let m = (if blocks_length (cs_blocks s) = 0
                 then AList.update 0 \<lparr>b_type = lit ''text'', b_open = True, b_text = []\<rparr> (cs_blocks s)
                 else cs_blocks s)
        in s\<lparr>cs_blocks := (case map_of m 0 of None \<Rightarrow> m | Some b \<Rightarrow> AList.update 0 (b\<lparr>b_text := b_text b @ t\<rparr>) m)\<rparr>)"

definition observe_choice :: "sse_frame \<Rightarrow> jvalue \<Rightarrow> client_state \<Rightarrow> bool \<times> client_state" where
  "observe_choice f c s =
     (let s1 = (if js_truthy (choice_delta c ''tool_calls'') then s\<lparr>cs_toolInProgress := True\<rparr> else s);
          s2 = add_content (choice_text c) s1
      in if js_truthy (jprop (Some c) ''finish_reason'') then
           (if cs_upstreamFailed s2 then withhold f s2 else (True, s2\<lparr>cs_finished := True\<rparr>))
         else (True, s2))"

definition truthy_text :: "utext option \<Rightarrow> bool" where
  "truthy_text t = (case t of Some (c # cs) \<Rightarrow> True | _ \<Rightarrow> False)"

definition observeOpenAI :: "sse_frame \<Rightarrow> client_state \<Rightarrow> bool \<times> client_state" where
  "observeOpenAI f s =
     (if f_dataText f = Some DONE_TEXT then
        (if cs_upstreamFailed s \<and> cs_started s then withhold f s else (True, s\<lparr>cs_finished := True\<rparr>))
      else case f_data f of
        None \<Rightarrow> (True, s)
      | Some _ \<Rightarrow>
          if js_truthy (field f ''error'') \<and> cs_started s then withhold f s
          else if \<not> has_choices f then (True, s)
          else
            let s1 = s\<lparr>cs_started := True,
                       cs_model := (if truthy_text (cs_model s) then cs_model s
                                    else opt_else (str_of (field f ''model'')) (cs_model s))\<rparr>
            in case first_choice f of None \<Rightarrow> (True, s1) | Some c \<Rightarrow> observe_choice f c s1)"

definition observe :: "sse_frame \<Rightarrow> client_state \<Rightarrow> bool \<times> client_state" where
  "observe f s =
     (if f_comment f \<or> f_dataText f = None then (True, s)
      else case cs_shape s of Anthropic \<Rightarrow> observeAnthropic f s | OpenAI \<Rightarrow> observeOpenAI f s)"

definition markUpstreamFailed :: "client_state \<Rightarrow> client_state" where
  "markUpstreamFailed s = s\<lparr>cs_upstreamFailed := True\<rparr>"

end
