(* ===== verification/Seam.thy ===== *)
theory Seam
  imports Stream_State
begin

text \<open>
  Where a continuation is joined to the partial answer (\<open>midstream.ts\<close>): the anchor the model is asked
  to repeat, finding it again at the head of the continuation, the exact-overlap fallback, the repair
  of a paragraph break inside a sentence, and the request that asks for the rest. Texts are lists of
  UTF-16 code units, so a slice may cut a surrogate pair as the source's slices do.
\<close>

section \<open>The anchor\<close>

definition ANCHOR_CHARS :: nat where
  "ANCHOR_CHARS = 40"

definition HOLD_CHARS :: nat where
  "HOLD_CHARS = 240"

definition anchorOf :: "utext \<Rightarrow> utext" where
  "anchorOf partial = dropWhile js_space (take_last ANCHOR_CHARS partial)"

text \<open>
  \<open>normalize\<close>: runs of white space become one space and curly quotes straight ones; each character
  kept carries its offset in the raw text (\<open>out\<close> and \<open>map\<close> of the source, as one list of pairs).
\<close>

definition fold_quote :: "int \<Rightarrow> int" where
  "fold_quote c = (if c = 8216 \<or> c = 8217 then 39 else if c = 8220 \<or> c = 8221 then 34 else c)"

fun normalize_from :: "nat \<Rightarrow> bool \<Rightarrow> utext \<Rightarrow> (int \<times> nat) list" where
  "normalize_from i ws [] = []"
| "normalize_from i ws (c # s) =
     (if js_space c then (if ws then normalize_from (Suc i) True s else (32, i) # normalize_from (Suc i) True s)
      else (fold_quote c, i) # normalize_from (Suc i) False s)"

definition normalize :: "utext \<Rightarrow> (int \<times> nat) list" where
  "normalize s = normalize_from 0 False s"

definition norm_out :: "utext \<Rightarrow> utext" where
  "norm_out s = map fst (normalize s)"

text \<open>\<open>indexOf\<close> a text.\<close>

fun index_of :: "'a list \<Rightarrow> 'a list \<Rightarrow> nat option" where
  "index_of p [] = (if p = [] then Some 0 else None)"
| "index_of p (x # xs) = (if has_prefix (x # xs) p then Some 0 else map_option Suc (index_of p xs))"

definition try_anchor :: "utext \<Rightarrow> utext \<Rightarrow> nat \<Rightarrow> (nat \<times> bool) option" where
  "try_anchor full head len =
     (if len > length full then None
      else
        let H = normalize (take (HOLD_CHARS * 3) head);
            tail = take_last len full;
            a = text_trim (norm_out tail)
        in if length a < 8 then None
           else case index_of a (map fst H) of
             None \<Rightarrow> None
           | Some pos \<Rightarrow>
               if pos > 8 then None
               else
                 let endNorm = pos + length a;
                     cut = (if endNorm < length H then snd (H ! endNorm) else length head)
                 in Some (cut, take cut head = tail))"

fun first_some :: "('a \<Rightarrow> 'b option) \<Rightarrow> 'a list \<Rightarrow> 'b option" where
  "first_some f [] = None"
| "first_some f (x # xs) = (case f x of Some y \<Rightarrow> Some y | None \<Rightarrow> first_some f xs)"

definition findAnchor :: "utext \<Rightarrow> utext \<Rightarrow> (nat \<times> bool) option" where
  "findAnchor partial head =
     (let full = anchorOf partial
      in if length full < 8 then None else first_some (try_anchor full head) [length full, 32, 24, 16, 12])"

text \<open>\<open>tailOverlap\<close> with its default minimum of six characters.\<close>

definition OVERLAP_MIN :: nat where
  "OVERLAP_MIN = 6"

definition tailOverlap :: "utext \<Rightarrow> utext \<Rightarrow> nat" where
  "tailOverlap partial head =
     opt_or (List.find (\<lambda>k. has_suffix partial (take k head))
       (rev [OVERLAP_MIN..<Suc (min (length partial) (length head))])) 0"

section \<open>The seam\<close>

definition FENCE :: utext where
  "FENCE = [96, 96, 96]"

fun fence_count :: "utext \<Rightarrow> nat" where
  "fence_count (a # b # c # s) =
     (if [a, b, c] = FENCE then Suc (fence_count s) else fence_count (b # c # s))"
| "fence_count _ = 0"

definition insideCodeFence :: "utext \<Rightarrow> bool" where
  "insideCodeFence partial \<longleftrightarrow> fence_count partial mod 2 = 1"

definition is_blank :: "int \<Rightarrow> bool" where
  "is_blank c \<longleftrightarrow> c = 32 \<or> c = 9"

definition opens_with_break :: "utext \<Rightarrow> bool" where
  "opens_with_break s \<longleftrightarrow> has_prefix (dropWhile is_blank s) [10]"

definition word_unit :: "int \<Rightarrow> bool" where
  "word_unit c \<longleftrightarrow> 65 \<le> c \<and> c \<le> 90 \<or> 97 \<le> c \<and> c \<le> 122 \<or> 48 \<le> c \<and> c \<le> 57 \<or> c = 44 \<or> c = 59 \<or> c = 58"

definition fixSeam :: "utext \<Rightarrow> utext \<Rightarrow> utext" where
  "fixSeam partial cont =
     (if \<not> opens_with_break cont then cont
      else if partial = [] \<or> js_space (last partial) then cont
      else if \<not> word_unit (last partial) then cont
      else if insideCodeFence partial then cont
      else 32 # dropWhile (\<lambda>c. is_blank c \<or> c = 10) (drop 1 (dropWhile is_blank cont)))"

section \<open>The resume request\<close>

text \<open>The notice is its fixed wording around the quoted anchor; the wording is an argument.\<close>

record notice_words =
  nw_nothing :: utext
  nw_before :: utext
  nw_after :: utext

definition resumeNotice :: "notice_words \<Rightarrow> utext \<Rightarrow> utext" where
  "resumeNotice w anchor =
     (if anchor = [] then nw_nothing w else nw_before w @ [171] @ anchor @ [187] @ nw_after w)"

definition text_message :: "wire_shape \<Rightarrow> string \<Rightarrow> utext \<Rightarrow> jvalue" where
  "text_message shape role t =
     J_obj [(lit ''role'', J_str (lit role)),
            (lit ''content'',
             case shape of
               Anthropic \<Rightarrow> J_arr [J_obj [(lit ''type'', J_str (lit ''text'')), (lit ''text'', J_str t)]]
             | OpenAI \<Rightarrow> J_str t)]"

definition buildResumeBody :: "notice_words \<Rightarrow> wire_shape \<Rightarrow> jobject \<Rightarrow> utext \<Rightarrow> utext \<Rightarrow> jobject" where
  "buildResumeBody w shape body target partial =
     (let b = AList.update (lit ''stream'') (J_bool True) (AList.update (lit ''model'') (J_str target) body);
          msgs = (case map_of body (lit ''messages'') of Some (J_arr ms) \<Rightarrow> ms | _ \<Rightarrow> []);
          msgs' = (if partial = [] then msgs
                   else msgs @ [text_message shape ''assistant'' partial,
                                text_message shape ''user'' (resumeNotice w (anchorOf partial))])
      in AList.delete (lit ''tool_choice'') (AList.update (lit ''messages'') (J_arr msgs') b))"

section \<open>Prefixes, suffixes and positions\<close>

lemma has_prefix_iff: "has_prefix s p \<longleftrightarrow> (\<exists>t. s = p @ t)"
proof
  assume "has_prefix s p"
  then have "s = p @ drop (length p) s" by (metis append_take_drop_id has_prefix_def)
  then show "\<exists>t. s = p @ t" by blast
qed (auto simp: has_prefix_def)

lemma has_suffix_iff: "has_suffix s p \<longleftrightarrow> (\<exists>t. s = t @ p)"
proof
  assume e: "has_suffix s p"
  have "s = take (length s - length p) s @ drop (length s - length p) s" by simp
  with e show "\<exists>t. s = t @ p" unfolding has_suffix_def by metis
qed (auto simp: has_suffix_def)

lemma index_of_prefix: "index_of p (p @ t) = Some 0"
proof (cases "p @ t")
  case (Cons x xs)
  have "has_prefix (p @ t) p" by (simp add: has_prefix_iff)
  then show ?thesis using Cons by simp
qed simp

lemma first_some_head: "f x = Some y \<Longrightarrow> first_some f (x # xs) = Some y"
  by simp

lemma normalize_from_append:
  "normalize_from i b (xs @ ys) =
     normalize_from i b xs @ normalize_from (i + length xs) (if xs = [] then b else js_space (last xs)) ys"
  by (induction xs arbitrary: i b) auto

lemma normalize_from_fst: "map fst (normalize_from i b s) = map fst (normalize_from j b s)"
  by (induction s arbitrary: i j b) auto

lemma normalize_all_space:
  "\<forall>c \<in> set s. js_space c \<Longrightarrow> normalize_from i b s = (if b \<or> s = [] then [] else [(32, i)])"
  by (induction s arbitrary: i b) auto


lemma js_space_fold_quote [simp]: "js_space (fold_quote c) = js_space c"
  by (auto simp: fold_quote_def js_space_def)

lemma normalize_length_le: "length (normalize_from i b s) \<le> length s"
  by (induction s arbitrary: i b) (auto intro: le_SucI)

lemma normalize_from_snd_hd: "\<not> b \<Longrightarrow> s \<noteq> [] \<Longrightarrow> normalize_from i b s \<noteq> [] \<and> snd (hd (normalize_from i b s)) = i"
  by (cases s) auto

lemma norm_hd: "w \<noteq> [] \<Longrightarrow> \<not> js_space (hd w) \<Longrightarrow> norm_out w \<noteq> [] \<and> \<not> js_space (hd (norm_out w))"
  by (cases w) (auto simp: norm_out_def normalize_def)

lemma norm_last:
  assumes "w \<noteq> []" and "\<not> js_space (last w)"
  shows "norm_out w \<noteq> [] \<and> \<not> js_space (last (norm_out w))"
proof -
  from assms have "normalize w = normalize_from 0 False (butlast w @ [last w])"
    by (simp add: normalize_def)
  then show ?thesis using assms(2) by (simp add: norm_out_def normalize_from_append)
qed

lemma norm_out_trail:
  assumes "w \<noteq> []" and "\<not> js_space (last w)" and "\<forall>c \<in> set ws. js_space c"
  shows "norm_out (w @ ws) = norm_out w @ (if ws = [] then [] else [32])"
  using assms by (simp add: norm_out_def normalize_def normalize_from_append normalize_all_space)

lemma text_trim_both:
  assumes "t \<noteq> []" and "\<not> js_space (hd t)" and "\<not> js_space (last t)" and "\<forall>c \<in> set ws. js_space c"
  shows "text_trim (t @ ws) = t"
proof -
  from assms(1) obtain x xs where t: "t = x # xs" by (cases t) auto
  with assms(2) have "dropWhile js_space (t @ ws) = t @ ws" by simp
  moreover have "dropWhile js_space (rev (t @ ws)) = dropWhile js_space (rev t)"
    using assms(4) by (subst rev_append, intro dropWhile_append2) auto
  moreover have "dropWhile js_space (rev t) = rev t"
    using assms(1,3) by (cases t rule: rev_cases) simp_all
  ultimately show ?thesis by (simp add: text_trim_def)
qed

lemma anchorOf_length: "length (anchorOf partial) \<le> 40"
  using length_dropWhile_le [of js_space "take_last ANCHOR_CHARS partial"]
  by (simp add: anchorOf_def take_last_def ANCHOR_CHARS_def)

lemma anchorOf_hd: "anchorOf partial = c # s \<Longrightarrow> \<not> js_space c"
  unfolding anchorOf_def by (metis dropWhile_eq_Cons_conv)

lemma anchorOf_suffix: "has_suffix partial (anchorOf partial)"
proof -
  have "partial = take (length partial - ANCHOR_CHARS) partial @ take_last ANCHOR_CHARS partial"
    by (simp add: take_last_def)
  also have "take_last ANCHOR_CHARS partial =
      takeWhile js_space (take_last ANCHOR_CHARS partial) @ anchorOf partial"
    by (simp add: anchorOf_def)
  finally show ?thesis unfolding has_suffix_iff by (metis append.assoc)
qed

section \<open>The seam shows neither the anchor twice nor a hole\<close>

lemma try_anchor_repeated:
  assumes full: "full = w @ ws" and w: "w \<noteq> []" "\<not> js_space (hd w)" "\<not> js_space (last w)"
    and ws: "\<forall>c \<in> set ws. js_space c" and long: "8 \<le> length (norm_out w)" and short: "length full \<le> 40"
  shows "try_anchor full (full @ rest) (length full) = Some (length w, ws = [])"
proof -
  define r where "r = ws @ take (720 - length full) rest"
  have head: "take (HOLD_CHARS * 3) (full @ rest) = w @ r"
    using short by (simp add: HOLD_CHARS_def r_def full)
  have H: "normalize (w @ r) = normalize w @ normalize_from (length w) False r"
    using w by (simp add: normalize_def normalize_from_append)
  have a: "text_trim (norm_out (take_last (length full) full)) = norm_out w"
    using norm_out_trail [OF w(1,3) ws] norm_hd [OF w(1,2)] norm_last [OF w(1,3)]
      text_trim_both [of "norm_out w" "if ws = [] then [] else [32]"]
    by (simp add: take_last_def full js_space_def split: if_splits)
  have idx: "index_of (norm_out w) (map fst (normalize (w @ r))) = Some 0"
    unfolding H map_append norm_out_def [symmetric] by (rule index_of_prefix)
  have r: "r = [] \<longleftrightarrow> ws = [] \<and> rest = []"
    using short by (auto simp: r_def)
  have cut: "(if length (norm_out w) < length (normalize (w @ r)) then snd (normalize (w @ r) ! length (norm_out w))
      else length (full @ rest)) = length w"
  proof (cases "r = []")
    case True
    then show ?thesis using r by (simp add: H norm_out_def full)
  next
    case False
    with normalize_from_snd_hd [of False r "length w"] show ?thesis
      by (cases "normalize_from (length w) False r") (simp_all add: H norm_out_def nth_append)
  qed
  show ?thesis
    unfolding try_anchor_def Let_def head a idx option.case add_0 cut using long
    by simp (simp add: full take_last_def)
qed

text \<open>
  A continuation that begins with the anchor word for word is cut just behind it: the client reads the
  anchor once and nothing is missing. White space the anchor ends in is the exception: the cut is in front
  of it, so that white space reaches the client a second time.
\<close>

theorem repeated_anchor_cut:
  assumes "anchorOf partial = w @ ws" and "w \<noteq> []" and "\<not> js_space (last w)"
    and "\<forall>c \<in> set ws. js_space c" and "8 \<le> length (norm_out w)"
  shows "findAnchor partial (anchorOf partial @ rest) = Some (length w, ws = [])
    \<and> partial @ drop (length w) (anchorOf partial @ rest) = partial @ ws @ rest"
proof -
  from assms(1,2) obtain c s where "anchorOf partial = c # s" and "hd w = c" by (cases w) auto
  then have hd: "\<not> js_space (hd w)" using anchorOf_hd by simp
  have "length (norm_out w) \<le> length w" by (simp add: norm_out_def normalize_def normalize_length_le)
  then have "\<not> length (anchorOf partial) < 8" using assms(1,5) by simp
  moreover have "try_anchor (anchorOf partial) (anchorOf partial @ rest) (length (anchorOf partial)) = Some (length w, ws = [])"
    using assms hd anchorOf_length [of partial] by (intro try_anchor_repeated) auto
  ultimately show ?thesis using assms(1) by (simp add: findAnchor_def Let_def)
qed

theorem repeated_anchor_cut_witness:
  "findAnchor (lit ''The quick brown fox '') (lit ''The quick brown fox '' @ lit ''jumps'') = Some (19, False)"
proof -
  have a: "anchorOf (lit ''The quick brown fox '') = lit ''The quick brown fox'' @ lit '' ''" by code_simp
  have b: "lit ''The quick brown fox'' \<noteq> []" "\<not> js_space (last (lit ''The quick brown fox''))"
    "\<forall>c \<in> set (lit '' ''). js_space c" "8 \<le> length (norm_out (lit ''The quick brown fox''))"
    by code_simp+
  have c: "length (lit ''The quick brown fox'') = 19" "(lit '' '' = []) = False"
    "anchorOf (lit ''The quick brown fox '') = lit ''The quick brown fox ''" by code_simp+
  from repeated_anchor_cut [OF a b, of "lit ''jumps''"] show ?thesis
    unfolding c by (rule conjunct1)
qed

lemma find_greatest:
  "(List.find P (rev [a..<b]) = None \<longleftrightarrow> (\<forall>k \<in> {a..<b}. \<not> P k))
   \<and> (List.find P (rev [a..<b]) = Some k \<longrightarrow> P k \<and> a \<le> k \<and> k < b \<and> (\<forall>j \<in> {a..<b}. P j \<longrightarrow> j \<le> k))"
proof (induction b)
  case 0
  show ?case by simp
next
  case (Suc b)
  then show ?case by (auto simp: less_Suc_eq)
qed

text \<open>
  Without an anchor the overlap dropped is the longest: the continuation loses exactly the longest prefix of
  at least six characters that the partial answer ends in, or nothing when there is none.
\<close>

theorem tail_overlap_longest:
  "(tailOverlap partial head = 0 \<longleftrightarrow>
      (\<nexists>p. 6 \<le> length p \<and> has_prefix head p \<and> has_suffix partial p))
   \<and> (tailOverlap partial head \<noteq> 0 \<longrightarrow>
      6 \<le> tailOverlap partial head \<and> has_suffix partial (take (tailOverlap partial head) head)
      \<and> (\<forall>p. has_prefix head p \<and> has_suffix partial p \<longrightarrow> length p \<le> tailOverlap partial head))"
proof -
  define m where "m = Suc (min (length partial) (length head))"
  define P where "P = (\<lambda>k. has_suffix partial (take k head))"
  have key: "has_prefix head p \<and> has_suffix partial p \<longleftrightarrow> length p < m \<and> P (length p) \<and> p = take (length p) head" for p
    by (auto simp: m_def P_def has_prefix_def has_suffix_def min_def dest: sym)
  show ?thesis
  proof (cases "List.find P (rev [6..<m])")
    case None
    then have z: "tailOverlap partial head = 0"
      by (simp add: tailOverlap_def OVERLAP_MIN_def P_def m_def)
    have "\<forall>k \<in> {6..<m}. \<not> P k" using None find_greatest by blast
    then have "\<nexists>p. 6 \<le> length p \<and> has_prefix head p \<and> has_suffix partial p" unfolding key by auto
    then show ?thesis using z by blast
  next
    case (Some k)
    then have k: "tailOverlap partial head = k"
      by (simp add: tailOverlap_def OVERLAP_MIN_def P_def m_def)
    have g: "P k \<and> 6 \<le> k \<and> k < m \<and> (\<forall>j \<in> {6..<m}. P j \<longrightarrow> j \<le> k)" using Some find_greatest by blast
    then have "k \<le> length head" unfolding m_def by linarith
    then have "length (take k head) = k" by simp
    moreover have "has_prefix head (take k head)" by (metis append_take_drop_id has_prefix_iff)
    moreover have "length p \<le> k" if "has_prefix head p \<and> has_suffix partial p" for p
      using that [unfolded key] g by (cases "6 \<le> length p") auto
    ultimately show ?thesis using g k unfolding P_def by (metis less_numeral_extra(3) not_less rel_simps(28) zero_less_numeral)
  qed
qed

theorem tail_overlap_longest_witness:
  "tailOverlap (lit ''and then he'') (lit ''then he said'') = 7
   \<and> has_suffix (lit ''and then he'') (take (tailOverlap (lit ''and then he'') (lit ''then he said'')) (lit ''then he said''))"
proof -
  have n: "tailOverlap (lit ''and then he'') (lit ''then he said'') = 7" by code_simp
  then have "tailOverlap (lit ''and then he'') (lit ''then he said'') \<noteq> 0" by simp
  then show ?thesis
    using tail_overlap_longest [of "lit ''and then he''" "lit ''then he said''"] n by simp
qed

end
