(* ===== verification/Splicer.thy ===== *)
theory Splicer
  imports Seam
begin

text \<open>
  The splicer of \<open>midstream.ts\<close>: it turns the frames of a resume stream into frames that continue the
  message the client already has. One definition per method; the frames a method returns come with
  the new state. An emitted frame is the resume's own frame forwarded raw, an event made here, or a
  chunk of the OpenAI shape; \<open>frame_wire\<close> renders it with \<open>JSON.stringify\<close> as an argument.
\<close>

section \<open>Emitted frames\<close>

datatype out_frame =
    Raw sse_frame
  | Event string jobject
  | Chunk jobject "jvalue option"

definition openai_chunk :: "int \<Rightarrow> jobject \<Rightarrow> jvalue option \<Rightarrow> jvalue" where
  "openai_chunk created delta finish =
     J_obj [(lit ''id'', J_str (lit ''chatcmpl-dario'')), (lit ''object'', J_str (lit ''chat.completion.chunk'')),
            (lit ''created'', J_num (of_int created)), (lit ''model'', J_str (lit ''claude'')),
            (lit ''choices'', J_arr [J_obj [(lit ''index'', J_num 0), (lit ''delta'', J_obj delta),
               (lit ''finish_reason'', opt_or finish J_null)]])]"

definition frame_wire :: "(jvalue \<Rightarrow> utext) \<Rightarrow> int \<Rightarrow> out_frame \<Rightarrow> utext" where
  "frame_wire json_print now f =
     (case f of
        Raw g \<Rightarrow> f_raw g
      | Event ev d \<Rightarrow> formatFrame json_print (lit ev) (J_obj d)
      | Chunk d fin \<Rightarrow> lit ''data: '' @ json_print (openai_chunk now d fin) @ [10, 10])"

section \<open>State\<close>

datatype mapped = Skip | To int

datatype anchor_kind = NA | Exact | Fuzzy | Overlap | No_anchor

record splicer =
  sp_shape :: wire_shape
  sp_partial :: utext
  sp_clientOpenIdx :: int
  sp_clientOpenType :: "utext option"
  sp_idxMap :: "(rat option, mapped) jsmap"
  sp_nextIdx :: int
  sp_originalClosed :: bool
  sp_continuingClosed :: bool
  sp_firstTextMapped :: bool
  sp_continuingIdx :: int
  sp_hold :: utext
  sp_holding :: bool
  sp_stopReasonSeen :: bool
  sp_doneSeen :: bool
  sp_terminalSeen :: bool
  sp_anchor :: anchor_kind
  sp_dropped :: nat
  sp_emitted :: nat
  sp_resumeModel :: "utext option"

text \<open>The constructor; it reads \<open>openIdx\<close>, which throws on a gap in the client's blocks.\<close>

definition new_splicer :: "client_state \<Rightarrow> utext \<Rightarrow> js_error + splicer" where
  "new_splicer s partial =
     (case (openIdx s, openType s) of
        (Inr i, Inr t) \<Rightarrow> Inr
          \<lparr>sp_shape = cs_shape s, sp_partial = partial, sp_clientOpenIdx = i, sp_clientOpenType = t,
           sp_idxMap = [], sp_nextIdx = int (blocks_length (cs_blocks s)),
           sp_originalClosed = False, sp_continuingClosed = False, sp_firstTextMapped = False,
           sp_continuingIdx = -1, sp_hold = [], sp_holding = (partial \<noteq> []),
           sp_stopReasonSeen = False, sp_doneSeen = False, sp_terminalSeen = False,
           sp_anchor = NA, sp_dropped = 0, sp_emitted = 0, sp_resumeModel = None\<rparr>
      | _ \<Rightarrow> Inl Type_Error)"

type_synonym emit = "out_frame list \<times> splicer"

text \<open>Two steps of a method, the frames of both.\<close>

definition and_then :: "(splicer \<Rightarrow> emit) \<Rightarrow> (splicer \<Rightarrow> emit) \<Rightarrow> splicer \<Rightarrow> emit" where
  "and_then f g s = (let (o1, s1) = f s; (o2, s2) = g s1 in (o1 @ o2, s2))"

definition emit_one :: "out_frame \<Rightarrow> splicer \<Rightarrow> emit" where
  "emit_one f s = ([f], s)"

definition index_obj :: "int \<Rightarrow> jobject" where
  "index_obj i = [(lit ''type'', J_str (lit ''content_block_stop'')), (lit ''index'', J_num (of_int i))]"

definition with_index :: "int \<Rightarrow> jobject \<Rightarrow> jobject" where
  "with_index i d = AList.update (lit ''index'') (J_num (of_int i)) d"

definition text_delta_obj :: "int \<Rightarrow> utext \<Rightarrow> jobject" where
  "text_delta_obj i t =
     [(lit ''type'', J_str (lit ''content_block_delta'')), (lit ''index'', J_num (of_int i)),
      (lit ''delta'', J_obj [(lit ''type'', J_str (lit ''text_delta'')), (lit ''text'', J_str t)])]"

section \<open>Closing blocks and releasing the held text\<close>

definition closeContinuing :: "splicer \<Rightarrow> emit" where
  "closeContinuing s =
     (if sp_continuingIdx s < 0 \<or> sp_continuingClosed s then ([], s)
      else
        ([Event ''content_block_stop'' (index_obj (sp_continuingIdx s))],
         s\<lparr>sp_continuingClosed := True,
           sp_originalClosed := (if sp_continuingIdx s = sp_clientOpenIdx s then True else sp_originalClosed s)\<rparr>))"

definition closeOriginal :: "splicer \<Rightarrow> emit" where
  "closeOriginal s =
     (if sp_clientOpenIdx s < 0 \<or> sp_originalClosed s then ([], s)
      else if sp_continuingIdx s = sp_clientOpenIdx s \<and> \<not> sp_continuingClosed s then ([], s)
      else ([Event ''content_block_stop'' (index_obj (sp_clientOpenIdx s))], s\<lparr>sp_originalClosed := True\<rparr>))"

text \<open>The held text once the search for the anchor is over: what is cut, and the seam repaired.\<close>

definition settle_hold :: "splicer \<Rightarrow> splicer" where
  "settle_hold s =
     (let (kind, k) = (case findAnchor (sp_partial s) (sp_hold s) of
            Some (c, exact) \<Rightarrow> (if exact then Exact else Fuzzy, c)
          | None \<Rightarrow> (let k = tailOverlap (sp_partial s) (sp_hold s) in (if k > 0 then Overlap else No_anchor, k)))
      in s\<lparr>sp_anchor := kind, sp_dropped := k,
           sp_hold := fixSeam (sp_partial s) (drop k (sp_hold s)), sp_holding := False\<rparr>)"

definition keeps_holding :: "bool \<Rightarrow> splicer \<Rightarrow> bool" where
  "keeps_holding final s \<longleftrightarrow>
     sp_holding s \<and> findAnchor (sp_partial s) (sp_hold s) = None \<and> \<not> final \<and> length (sp_hold s) < HOLD_CHARS"

definition releaseHold :: "bool \<Rightarrow> splicer \<Rightarrow> emit" where
  "releaseHold final s =
     (if keeps_holding final s then ([], s)
      else
        let s1 = (if sp_holding s then settle_hold s else s);
            t = sp_hold s1
        in if t = [] then ([], s1)
           else
             let s2 = s1\<lparr>sp_hold := [], sp_emitted := sp_emitted s1 + length t\<rparr>
             in case sp_shape s2 of
                  Anthropic \<Rightarrow>
                    (if sp_continuingIdx s2 < 0 \<or> sp_continuingClosed s2 then ([], s2)
                     else ([Event ''content_block_delta'' (text_delta_obj (sp_continuingIdx s2) t)], s2))
                | OpenAI \<Rightarrow> ([Chunk [(lit ''content'', J_str t)] None], s2))"

definition abandon :: "splicer \<Rightarrow> emit" where
  "abandon s = releaseHold True s"

section \<open>The Anthropic shape\<close>

definition block_type_of :: "jobject \<Rightarrow> utext" where
  "block_type_of d = opt_or (str_of (jprop (jprop (Some (J_obj d)) ''content_block'') ''type'')) (lit ''text'')"

definition index_of_event :: "jobject \<Rightarrow> rat option" where
  "index_of_event d = num_of (map_of d (lit ''index''))"

definition map_index :: "rat option \<Rightarrow> mapped \<Rightarrow> splicer \<Rightarrow> splicer" where
  "map_index idx m s = s\<lparr>sp_idxMap := AList.update idx m (sp_idxMap s)\<rparr>"

definition is_thinking :: "utext \<Rightarrow> bool" where
  "is_thinking t \<longleftrightarrow> t = lit ''thinking'' \<or> t = lit ''redacted_thinking''"

definition splice_block_start :: "jobject \<Rightarrow> splicer \<Rightarrow> emit" where
  "splice_block_start d s =
     (let idx = index_of_event d; ty = block_type_of d
      in if is_thinking ty then ([], map_index idx Skip s)
         else if ty = lit ''text'' \<and> \<not> sp_firstTextMapped s then
           let s1 = s\<lparr>sp_firstTextMapped := True\<rparr>
           in if sp_clientOpenIdx s1 \<ge> 0 \<and> sp_clientOpenType s1 = Some (lit ''text'') then
                ([], map_index idx (To (sp_clientOpenIdx s1)) (s1\<lparr>sp_continuingIdx := sp_clientOpenIdx s1\<rparr>))
              else
                let (out, s2) = closeOriginal s1;
                    c = sp_nextIdx s2
                in (out @ [Event ''content_block_start'' (with_index c d)],
                    map_index idx (To c) (s2\<lparr>sp_continuingIdx := c, sp_nextIdx := c + 1\<rparr>))
         else
           let m = sp_nextIdx s;
               s1 = map_index idx (To m) (s\<lparr>sp_nextIdx := m + 1\<rparr>)
           in and_then (releaseHold True) (and_then closeContinuing (and_then closeOriginal
                (emit_one (Event ''content_block_start'' (with_index m d))))) s1)"

definition splice_delta :: "jobject \<Rightarrow> splicer \<Rightarrow> emit" where
  "splice_delta d s =
     (case map_of (sp_idxMap s) (index_of_event d) of
        None \<Rightarrow> ([], s)
      | Some Skip \<Rightarrow> ([], s)
      | Some (To m) \<Rightarrow>
          (case (if m = sp_continuingIdx s then delta_text (map_of d (lit ''delta'')) else None) of
             Some t \<Rightarrow> releaseHold False (s\<lparr>sp_hold := sp_hold s @ t\<rparr>)
           | None \<Rightarrow> ([Event ''content_block_delta'' (with_index m d)], s)))"

definition splice_block_stop :: "jobject \<Rightarrow> splicer \<Rightarrow> emit" where
  "splice_block_stop d s =
     (case map_of (sp_idxMap s) (index_of_event d) of
        None \<Rightarrow> ([], s)
      | Some Skip \<Rightarrow> ([], s)
      | Some (To m) \<Rightarrow>
          (if m = sp_continuingIdx s then and_then (releaseHold True) closeContinuing s
           else ([Event ''content_block_stop'' (with_index m d)], s)))"

definition feedAnthropic :: "sse_frame \<Rightarrow> splicer \<Rightarrow> emit" where
  "feedAnthropic f s =
     (case f_data f of
        None \<Rightarrow> ([], s)
      | Some d \<Rightarrow>
          let ty = frame_type f
          in if ty = Some (lit ''ping'') then ([Raw f], s)
             else if ty = Some (lit ''message_start'') then
               ([], s\<lparr>sp_resumeModel := opt_else (str_of (jprop (field f ''message'') ''model'')) (sp_resumeModel s)\<rparr>)
             else if ty = Some (lit ''content_block_start'') then splice_block_start d s
             else if ty = Some (lit ''content_block_delta'') then splice_delta d s
             else if ty = Some (lit ''content_block_stop'') then splice_block_stop d s
             else if ty = Some (lit ''message_delta'') then
               and_then (releaseHold True) (and_then closeContinuing (and_then closeOriginal (emit_one (Raw f))))
                 (s\<lparr>sp_stopReasonSeen := True\<rparr>)
             else if ty = Some (lit ''message_stop'') then ([Raw f], s\<lparr>sp_terminalSeen := True\<rparr>)
             else ([], s))"

section \<open>The OpenAI shape\<close>

definition splice_content :: "jvalue \<Rightarrow> splicer \<Rightarrow> emit" where
  "splice_content c s =
     (if choice_text c \<noteq> [] then releaseHold False (s\<lparr>sp_hold := sp_hold s @ choice_text c\<rparr>)
      else
        (case choice_delta c ''tool_calls'' of
           Some tc \<Rightarrow>
             (if js_truthy (Some tc) then and_then (releaseHold True) (emit_one (Chunk [(lit ''tool_calls'', tc)] None)) s
              else ([], s))
         | None \<Rightarrow> ([], s)))"

definition splice_finish :: "jvalue \<Rightarrow> splicer \<Rightarrow> emit" where
  "splice_finish c s =
     (if js_truthy (jprop (Some c) ''finish_reason'') then
        and_then (releaseHold True) (emit_one (Chunk [] (jprop (Some c) ''finish_reason''))) (s\<lparr>sp_stopReasonSeen := True\<rparr>)
      else ([], s))"

definition finish_if_unseen :: "splicer \<Rightarrow> emit" where
  "finish_if_unseen s =
     (if sp_stopReasonSeen s then ([], s)
      else ([Chunk [] (Some (J_str (lit ''stop'')))], s\<lparr>sp_stopReasonSeen := True\<rparr>))"

definition feedOpenAI :: "sse_frame \<Rightarrow> splicer \<Rightarrow> emit" where
  "feedOpenAI f s =
     (if f_dataText f = Some DONE_TEXT then
        and_then (releaseHold True) (and_then finish_if_unseen (emit_one (Raw f)))
          (s\<lparr>sp_doneSeen := True, sp_terminalSeen := True\<rparr>)
      else
        (case first_choice f of
           None \<Rightarrow> ([], s)
         | Some c \<Rightarrow>
             and_then (splice_content c) (splice_finish c)
               (s\<lparr>sp_resumeModel := (if truthy_text (sp_resumeModel s) then sp_resumeModel s
                                      else opt_else (str_of (field f ''model'')) (sp_resumeModel s))\<rparr>)))"

section \<open>One frame of the resume\<close>

definition SEAM_COMMENT_PREFIX :: utext where
  "SEAM_COMMENT_PREFIX = lit '': dario continuation''"

definition splicer_feed :: "sse_frame \<Rightarrow> splicer \<Rightarrow> emit" where
  "splicer_feed f s =
     (if f_comment f then (if has_prefix (f_raw f) SEAM_COMMENT_PREFIX then ([Raw f], s) else ([], s))
      else if f_dataText f = None then ([], s)
      else case sp_shape s of Anthropic \<Rightarrow> feedAnthropic f s | OpenAI \<Rightarrow> feedOpenAI f s)"

definition feed_frames :: "sse_frame list \<Rightarrow> splicer \<Rightarrow> emit" where
  "feed_frames fs s = foldl (\<lambda>(out, s) f. let (o1, s1) = splicer_feed f s in (out @ o1, s1)) ([], s) fs"

end
