(* ===== verification/Wire_Protocol.thy ===== *)
theory Wire_Protocol
  imports Prelude_Dario
begin

text \<open>
  The protocol of a streamed message as its client checks it, the specification of everything that writes
  one: the message starts once, one block is open at a time and the indices are in sequence, a delta or stop
  is for the open block, and one \<open>message_delta\<close> and one \<open>message_stop\<close> end the message when every block is closed.
\<close>

datatype wire_event =
    Msg_start
  | Block_start int
  | Block_delta int
  | Block_stop int
  | Msg_delta
  | Msg_stop
  | Other
  | Bad

section \<open>The protocol\<close>

record wire =
  w_started :: bool
  w_open :: "int option"
  w_next :: int
  w_delta :: bool
  w_done :: bool

definition fresh_wire :: wire where
  "fresh_wire = \<lparr>w_started = False, w_open = None, w_next = 0, w_delta = False, w_done = False\<rparr>"

definition wire_step :: "wire_event \<Rightarrow> wire \<Rightarrow> wire option" where
  "wire_step e w =
     (case e of
        Msg_start \<Rightarrow> (if \<not> w_started w then Some (w\<lparr>w_started := True\<rparr>) else None)
      | Block_start i \<Rightarrow>
          (if w_started w \<and> \<not> w_delta w \<and> w_open w = None \<and> i = w_next w
           then Some (w\<lparr>w_open := Some i, w_next := i + 1\<rparr>) else None)
      | Block_delta i \<Rightarrow> (if w_open w = Some i then Some w else None)
      | Block_stop i \<Rightarrow> (if w_open w = Some i then Some (w\<lparr>w_open := None\<rparr>) else None)
      | Msg_delta \<Rightarrow> (if w_started w \<and> \<not> w_delta w \<and> w_open w = None then Some (w\<lparr>w_delta := True\<rparr>) else None)
      | Msg_stop \<Rightarrow> (if w_delta w \<and> \<not> w_done w then Some (w\<lparr>w_done := True\<rparr>) else None)
      | Other \<Rightarrow> Some w
      | Bad \<Rightarrow> None)"

fun wire_run :: "wire_event list \<Rightarrow> wire \<Rightarrow> wire option" where
  "wire_run [] w = Some w"
| "wire_run (e # es) w = (case wire_step e w of None \<Rightarrow> None | Some w' \<Rightarrow> wire_run es w')"

lemma wire_run_append:
  "wire_run (es @ fs) w = (case wire_run es w of None \<Rightarrow> None | Some w' \<Rightarrow> wire_run fs w')"
  by (induction es arbitrary: w) (auto split: option.splits)

lemma wire_run_snoc: "wire_run (es @ [e]) w = (case wire_run es w of None \<Rightarrow> None | Some w' \<Rightarrow> wire_step e w')"
  by (simp add: wire_run_append split: option.splits)

lemma wire_run_cat:
  "wire_run es w = Some w1 \<Longrightarrow> wire_run (es @ fs) w = wire_run fs w1"
  by (simp add: wire_run_append)

end
