(* ===== verification/Splice_Legal.thy ===== *)
theory Splice_Legal
  imports Splicer Wire_Protocol
begin

text \<open>
  The wire protocol a client of the Anthropic shape checks, and that the splicer's output obeys it: one
  block open at a time, indices in sequence, one \<open>message_delta\<close> and one \<open>message_stop\<close> when every block
  is closed. The checker is the specification: it reads the frames as a client does.
\<close>

section \<open>The client's view of a frame\<close>

definition obj_type :: "jobject \<Rightarrow> utext option" where
  "obj_type d = str_of (map_of d (lit ''type''))"

definition with_int :: "jobject \<Rightarrow> (int \<Rightarrow> wire_event) \<Rightarrow> wire_event" where
  "with_int d k = (case index_of_event d of Some q \<Rightarrow> (if of_int \<lfloor>q\<rfloor> = q then k \<lfloor>q\<rfloor> else Bad) | None \<Rightarrow> Bad)"

definition obj_event :: "jobject \<Rightarrow> wire_event" where
  "obj_event d =
     (let ty = obj_type d
      in if ty = Some (lit ''message_start'') then Msg_start
         else if ty = Some (lit ''content_block_start'') then with_int d Block_start
         else if ty = Some (lit ''content_block_delta'') then with_int d Block_delta
         else if ty = Some (lit ''content_block_stop'') then with_int d Block_stop
         else if ty = Some (lit ''message_delta'') then Msg_delta
         else if ty = Some (lit ''message_stop'') then Msg_stop
         else Other)"

definition frame_event :: "sse_frame \<Rightarrow> wire_event" where
  "frame_event f =
     (if f_comment f \<or> f_dataText f = None then Other
      else case f_data f of None \<Rightarrow> Other | Some d \<Rightarrow> obj_event d)"

definition out_event :: "out_frame \<Rightarrow> wire_event" where
  "out_event x = (case x of Raw f \<Rightarrow> frame_event f | Event ev d \<Rightarrow> obj_event d | Chunk _ _ \<Rightarrow> Other)"

section \<open>What the made frames mean to the client\<close>

lemma obj_type_with_index [simp]: "obj_type (with_index i d) = obj_type d"
  by (simp add: obj_type_def with_index_def update_conv')

lemma with_int_with_index [simp]: "with_int (with_index i d) k = k i"
  by (simp add: with_int_def index_of_event_def with_index_def update_conv' num_of_def)

lemma out_event_stop [simp]: "out_event (Event ev (index_obj i)) = Block_stop i"
  by (simp add: out_event_def obj_event_def index_obj_def obj_type_def str_of_def with_int_def
      index_of_event_def num_of_def)

lemma out_event_text [simp]: "out_event (Event ev (text_delta_obj i t)) = Block_delta i"
  by (simp add: out_event_def obj_event_def text_delta_obj_def obj_type_def str_of_def with_int_def
      index_of_event_def num_of_def)

lemma out_event_start:
  "obj_type d = Some (lit ''content_block_start'') \<Longrightarrow> out_event (Event ev (with_index i d)) = Block_start i"
  by (simp add: out_event_def obj_event_def)

lemma out_event_delta:
  "obj_type d = Some (lit ''content_block_delta'') \<Longrightarrow> out_event (Event ev (with_index i d)) = Block_delta i"
  by (simp add: out_event_def obj_event_def)

lemma out_event_block_stop:
  "obj_type d = Some (lit ''content_block_stop'') \<Longrightarrow> out_event (Event ev (with_index i d)) = Block_stop i"
  by (simp add: out_event_def obj_event_def)

lemma frame_type_obj: "f_data f = Some d \<Longrightarrow> frame_type f = obj_type d"
  by (simp add: frame_type_def jprop_def obj_type_def)

section \<open>What releasing and closing do\<close>

text \<open>The fields that decide which blocks the client sees.\<close>

definition same_control :: "splicer \<Rightarrow> splicer \<Rightarrow> bool" where
  "same_control s t \<longleftrightarrow>
     sp_shape t = sp_shape s \<and> sp_clientOpenIdx t = sp_clientOpenIdx s \<and> sp_clientOpenType t = sp_clientOpenType s
     \<and> sp_idxMap t = sp_idxMap s \<and> sp_nextIdx t = sp_nextIdx s \<and> sp_originalClosed t = sp_originalClosed s
     \<and> sp_continuingClosed t = sp_continuingClosed s \<and> sp_firstTextMapped t = sp_firstTextMapped s
     \<and> sp_continuingIdx t = sp_continuingIdx s"

lemma settle_hold_control: "same_control s (settle_hold s)"
  by (simp add: settle_hold_def same_control_def Let_def split_def)

lemma releaseHold_control: "same_control s (snd (releaseHold final s))"
  using settle_hold_control [of s]
  by (auto simp: releaseHold_def same_control_def Let_def split: wire_shape.splits)

lemmas releaseHold_keeps [simp] = releaseHold_control [unfolded same_control_def, THEN conjunct1]
  releaseHold_control [unfolded same_control_def, THEN conjunct2, THEN conjunct1]
  releaseHold_control [unfolded same_control_def, THEN conjunct2, THEN conjunct2, THEN conjunct1]
  releaseHold_control [unfolded same_control_def, THEN conjunct2, THEN conjunct2, THEN conjunct2, THEN conjunct1]
  releaseHold_control [unfolded same_control_def, THEN conjunct2, THEN conjunct2, THEN conjunct2, THEN conjunct2, THEN conjunct1]
  releaseHold_control [unfolded same_control_def, THEN conjunct2, THEN conjunct2, THEN conjunct2, THEN conjunct2, THEN conjunct2, THEN conjunct1]
  releaseHold_control [unfolded same_control_def, THEN conjunct2, THEN conjunct2, THEN conjunct2, THEN conjunct2, THEN conjunct2, THEN conjunct2, THEN conjunct1]
  releaseHold_control [unfolded same_control_def, THEN conjunct2, THEN conjunct2, THEN conjunct2, THEN conjunct2, THEN conjunct2, THEN conjunct2, THEN conjunct2, THEN conjunct1]
  releaseHold_control [unfolded same_control_def, THEN conjunct2, THEN conjunct2, THEN conjunct2, THEN conjunct2, THEN conjunct2, THEN conjunct2, THEN conjunct2, THEN conjunct2]

lemma releaseHold_out:
  "sp_shape s = Anthropic \<Longrightarrow>
     fst (releaseHold final s) = []
     \<or> (\<exists>t. fst (releaseHold final s) = [Event ''content_block_delta'' (text_delta_obj (sp_continuingIdx s) t)]
          \<and> sp_continuingIdx s \<ge> 0 \<and> \<not> sp_continuingClosed s)"
  using settle_hold_control [of s] by (auto simp: releaseHold_def same_control_def Let_def)

lemma releaseHold_quiet:
  "sp_shape s = Anthropic \<Longrightarrow> sp_continuingIdx s < 0 \<or> sp_continuingClosed s \<Longrightarrow> fst (releaseHold final s) = []"
  using releaseHold_out [of s final] by auto

lemma releaseHold_legal:
  assumes "sp_shape s = Anthropic" and "w_open c = Some (sp_continuingIdx s)"
  shows "wire_run (map out_event (fst (releaseHold final s))) c = Some c"
  using releaseHold_out [OF assms(1), of final] assms(2) by (auto simp: wire_step_def)

lemma fst_and_then: "fst (and_then f g s) = fst (f s) @ fst (g (snd (f s)))"
  by (simp add: and_then_def Let_def split_def)

lemma snd_and_then: "snd (and_then f g s) = snd (g (snd (f s)))"
  by (simp add: and_then_def Let_def split_def)

lemma emit_one_simps [simp]: "fst (emit_one f s) = [f]" "snd (emit_one f s) = s"
  by (simp_all add: emit_one_def)

section \<open>The relation between the resume, the client and the splicer\<close>

definition orig_open :: "splicer \<Rightarrow> bool" where
  "orig_open s \<longleftrightarrow> sp_clientOpenIdx s \<ge> 0 \<and> \<not> sp_originalClosed s"

definition control_ok :: "splicer \<Rightarrow> bool" where
  "control_ok s \<longleftrightarrow>
     sp_shape s = Anthropic
     \<and> (if sp_firstTextMapped s then sp_continuingIdx s \<ge> 0 else sp_continuingIdx s = -1 \<and> \<not> sp_continuingClosed s)
     \<and> (sp_continuingIdx s = sp_clientOpenIdx s \<and> sp_continuingClosed s \<longrightarrow> sp_originalClosed s)"

text \<open>Between two visible blocks of the resume.\<close>

definition idle :: "wire \<Rightarrow> splicer \<Rightarrow> bool" where
  "idle c s \<longleftrightarrow>
     w_open c = (if orig_open s then Some (sp_clientOpenIdx s) else None)
     \<and> (sp_firstTextMapped s \<longrightarrow> sp_continuingClosed s)"

text \<open>Inside a visible block, written to the client's block \<open>m\<close>.\<close>

definition writing :: "int \<Rightarrow> wire \<Rightarrow> splicer \<Rightarrow> bool" where
  "writing m c s \<longleftrightarrow>
     w_open c = Some m
     \<and> (if m = sp_continuingIdx s then sp_firstTextMapped s \<and> \<not> sp_continuingClosed s \<and> m \<ge> 0
          \<and> (m \<noteq> sp_clientOpenIdx s \<longrightarrow> \<not> orig_open s)
        else (sp_firstTextMapped s \<longrightarrow> sp_continuingClosed s) \<and> \<not> orig_open s)"

definition visible_start :: "sse_frame \<Rightarrow> utext option" where
  "visible_start f =
     (case f_data f of
        Some d \<Rightarrow> (if \<not> f_comment f \<and> f_dataText f \<noteq> None \<and> obj_type d = Some (lit ''content_block_start'')
                     \<and> \<not> is_thinking (block_type_of d) then Some (block_type_of d) else None)
      | None \<Rightarrow> None)"

fun first_visible :: "sse_frame list \<Rightarrow> utext option" where
  "first_visible [] = None"
| "first_visible (f # fs) = (case visible_start f of Some t \<Rightarrow> Some t | None \<Rightarrow> first_visible fs)"

text \<open>While the client's text block waits to be continued, the next visible block has to be text.\<close>

definition text_next :: "bool \<Rightarrow> sse_frame list \<Rightarrow> splicer \<Rightarrow> bool" where
  "text_next ended fs s \<longleftrightarrow>
     (sp_clientOpenIdx s \<ge> 0 \<and> sp_clientOpenType s = Some (lit ''text'') \<and> \<not> sp_firstTextMapped s \<and> \<not> ended \<longrightarrow>
        \<not> sp_originalClosed s \<and> (first_visible fs = None \<or> first_visible fs = Some (lit ''text'')))"

definition splice_rel :: "wire \<Rightarrow> wire \<Rightarrow> splicer \<Rightarrow> bool" where
  "splice_rel r c s \<longleftrightarrow>
     w_started c \<and> w_delta c = w_delta r \<and> w_done c = w_done r
     \<and> w_next c = sp_nextIdx s \<and> sp_clientOpenIdx s < sp_nextIdx s \<and> sp_continuingIdx s < sp_nextIdx s
     \<and> 0 \<le> sp_nextIdx s
     \<and> control_ok s
     \<and> (w_delta r \<longrightarrow> w_open r = None)
     \<and> (case w_open r of
          None \<Rightarrow> idle c s
        | Some i \<Rightarrow>
            (case map_of (sp_idxMap s) (Some (of_int i)) of
               None \<Rightarrow> False
             | Some Skip \<Rightarrow> idle c s
             | Some (To m) \<Rightarrow> writing m c s))"

lemma splice_rel_control: "same_control s t \<Longrightarrow> splice_rel r c s \<Longrightarrow> splice_rel r c t"
  by (simp only: same_control_def splice_rel_def control_ok_def idle_def writing_def orig_open_def simp_thms) blast

lemma step_with_int:
  assumes "wire_step (with_int d k) r = Some r'"
  shows "\<exists>i. index_of_event d = Some (of_int i) \<and> wire_step (k i) r = Some r'"
proof -
  have "wire_step Bad r = None" by (simp add: wire_step_def)
  with assms show ?thesis by (auto simp: with_int_def split: option.splits if_splits)
qed

lemma closing_idle:
  assumes "control_ok s" and "idle c s"
  shows "fst (and_then (releaseHold True) (and_then closeContinuing closeOriginal) s) =
           (if orig_open s then [Event ''content_block_stop'' (index_obj (sp_clientOpenIdx s))] else [])"
    and "\<not> orig_open (snd (and_then (releaseHold True) (and_then closeContinuing closeOriginal) s))"
  using assms
  by (auto simp: control_ok_def idle_def fst_and_then snd_and_then closeContinuing_def closeOriginal_def
      orig_open_def releaseHold_quiet split: if_splits)

lemma closing_keeps:
  assumes "control_ok s" and "idle c s"
  defines "t \<equiv> snd (and_then (releaseHold True) (and_then closeContinuing closeOriginal) s)"
  shows "sp_shape t = sp_shape s" "sp_clientOpenIdx t = sp_clientOpenIdx s" "sp_clientOpenType t = sp_clientOpenType s"
    "sp_idxMap t = sp_idxMap s" "sp_nextIdx t = sp_nextIdx s" "sp_continuingClosed t = sp_continuingClosed s"
    "sp_firstTextMapped t = sp_firstTextMapped s" "sp_continuingIdx t = sp_continuingIdx s"
    "sp_originalClosed s \<Longrightarrow> sp_originalClosed t"
  using assms
  by (auto simp: control_ok_def idle_def snd_and_then closeContinuing_def closeOriginal_def
      orig_open_def split: if_splits)

lemma closing_legal:
  assumes "control_ok s" and "idle c s"
  shows "wire_run (map out_event (fst (and_then (releaseHold True) (and_then closeContinuing closeOriginal) s))) c =
    Some (c\<lparr>w_open := None\<rparr>)"
  unfolding closing_idle(1) [OF assms] using assms by (auto simp: idle_def wire_step_def)

lemma closing_then:
  "fst (and_then (releaseHold b) (and_then closeContinuing (and_then closeOriginal (emit_one x))) s) =
     fst (and_then (releaseHold b) (and_then closeContinuing closeOriginal) s) @ [x]"
  "snd (and_then (releaseHold b) (and_then closeContinuing (and_then closeOriginal (emit_one x))) s) =
     snd (and_then (releaseHold b) (and_then closeContinuing closeOriginal) s)"
  by (simp_all add: fst_and_then snd_and_then)

section \<open>One frame\<close>

lemma start_idle:
  assumes "splice_rel r c s" and "wire_step (Block_start i) r = Some r'"
  shows "idle c s" "r' = r\<lparr>w_open := Some i, w_next := i + 1\<rparr>" "\<not> w_delta r" "w_open r = None" "\<not> w_delta c"
  using assms by (auto simp: splice_rel_def wire_step_def split: if_splits)

lemma map_index_simps [simp]:
  "sp_shape (map_index k m s) = sp_shape s" "sp_clientOpenIdx (map_index k m s) = sp_clientOpenIdx s"
  "sp_clientOpenType (map_index k m s) = sp_clientOpenType s" "sp_nextIdx (map_index k m s) = sp_nextIdx s"
  "sp_originalClosed (map_index k m s) = sp_originalClosed s" "sp_continuingClosed (map_index k m s) = sp_continuingClosed s"
  "sp_firstTextMapped (map_index k m s) = sp_firstTextMapped s" "sp_continuingIdx (map_index k m s) = sp_continuingIdx s"
  "map_of (sp_idxMap (map_index k m s)) = (map_of (sp_idxMap s))(k \<mapsto> m)"
  by (simp_all add: map_index_def update_conv')

lemma map_index_keeps [simp]:
  "control_ok (map_index k m s) = control_ok s" "orig_open (map_index k m s) = orig_open s"
  "idle c (map_index k m s) = idle c s"
  by (simp_all add: control_ok_def orig_open_def idle_def)

lemma splice_start_thinking:
  assumes rel: "splice_rel r c s" and step: "wire_step (Block_start i) r = Some r'"
    and idx: "index_of_event d = Some (of_int i)" and ty: "is_thinking (block_type_of d)"
  shows "\<exists>c'. wire_run (map out_event (fst (splice_block_start d s))) c = Some c' \<and> splice_rel r' c' (snd (splice_block_start d s))"
  using rel start_idle [OF rel step] ty
  by (simp add: splice_block_start_def idx splice_rel_def idle_def orig_open_def)

lemma splice_start_continuing:
  assumes rel: "splice_rel r c s" and step: "wire_step (Block_start i) r = Some r'"
    and idx: "index_of_event d = Some (of_int i)" and ty: "block_type_of d = lit ''text''" "\<not> sp_firstTextMapped s"
    and cl: "sp_clientOpenIdx s \<ge> 0" "sp_clientOpenType s = Some (lit ''text'')" "\<not> sp_originalClosed s"
  shows "\<exists>c'. wire_run (map out_event (fst (splice_block_start d s))) c = Some c' \<and> splice_rel r' c' (snd (splice_block_start d s))"
  using rel start_idle [OF rel step] ty cl
  by (simp add: splice_block_start_def idx splice_rel_def control_ok_def idle_def writing_def orig_open_def
      is_thinking_def Let_def)

lemma closeOriginal_idle:
  assumes "control_ok s" and "idle c s" and "\<not> sp_firstTextMapped s"
  shows "closeOriginal s =
    (if orig_open s then ([Event ''content_block_stop'' (index_obj (sp_clientOpenIdx s))], s\<lparr>sp_originalClosed := True\<rparr>)
     else ([], s))"
  using assms by (auto simp: closeOriginal_def orig_open_def control_ok_def)

lemma control_ok_first [simp]: "sp_firstTextMapped s \<Longrightarrow> s\<lparr>sp_firstTextMapped := True\<rparr> = s"
  by simp

lemma splice_start_fresh_text:
  assumes rel: "splice_rel r c s" and step: "wire_step (Block_start i) r = Some r'"
    and idx: "index_of_event d = Some (of_int i)" and ty: "block_type_of d = lit ''text''" "\<not> sp_firstTextMapped s"
    and cl: "\<not> (sp_clientOpenIdx s \<ge> 0 \<and> sp_clientOpenType s = Some (lit ''text''))"
    and st: "obj_type d = Some (lit ''content_block_start'')"
  shows "\<exists>c'. wire_run (map out_event (fst (splice_block_start d s))) c = Some c' \<and> splice_rel r' c' (snd (splice_block_start d s))"
proof -
  define s1 where "s1 = s\<lparr>sp_firstTextMapped := True\<rparr>"
  have out: "closeOriginal s1 =
    (if orig_open s then ([Event ''content_block_stop'' (index_obj (sp_clientOpenIdx s))], s1\<lparr>sp_originalClosed := True\<rparr>)
     else ([], s1))"
    using rel ty(2) by (auto simp: s1_def closeOriginal_def orig_open_def control_ok_def splice_rel_def)
  have start: "out_event (Event ''content_block_start'' (with_index (sp_nextIdx s) d)) = Block_start (sp_nextIdx s)"
    by (rule out_event_start [OF st])
  show ?thesis
    using rel start_idle [OF rel step] ty cl
    by (auto simp: splice_block_start_def idx Let_def is_thinking_def s1_def [symmetric] out start)
      (auto simp: s1_def splice_rel_def control_ok_def idle_def writing_def orig_open_def wire_step_def start)
qed

lemma splice_start_other:
  assumes rel: "splice_rel r c s" and step: "wire_step (Block_start i) r = Some r'"
    and idx: "index_of_event d = Some (of_int i)" and ty: "\<not> is_thinking (block_type_of d)"
      "block_type_of d \<noteq> lit ''text'' \<or> sp_firstTextMapped s"
    and st: "obj_type d = Some (lit ''content_block_start'')"
  shows "\<exists>c'. wire_run (map out_event (fst (splice_block_start d s))) c = Some c' \<and> splice_rel r' c' (snd (splice_block_start d s))"
proof -
  define s1 where "s1 = map_index (Some (of_int i)) (To (sp_nextIdx s)) (s\<lparr>sp_nextIdx := sp_nextIdx s + 1\<rparr>)"
  define x where "x = Event ''content_block_start'' (with_index (sp_nextIdx s) d)"
  have s1: "control_ok s1" "idle c s1"
    using rel start_idle [OF rel step] by (auto simp: s1_def control_ok_def splice_rel_def idle_def orig_open_def)
  have eq: "splice_block_start d s = and_then (releaseHold True) (and_then closeContinuing (and_then closeOriginal (emit_one x))) s1"
    using ty by (auto simp: splice_block_start_def idx Let_def s1_def x_def)
  have x: "out_event x = Block_start (sp_nextIdx s)"
    unfolding x_def by (rule out_event_start [OF st])
  have run: "wire_run (map out_event (fst (splice_block_start d s))) c =
      Some (c\<lparr>w_open := Some (sp_nextIdx s), w_next := sp_nextIdx s + 1\<rparr>)"
    using rel start_idle [OF rel step]
    by (simp add: eq closing_then wire_run_append closing_legal [OF s1] x wire_step_def splice_rel_def)
  define t where "t = snd (splice_block_start d s)"
  have t: "sp_shape t = sp_shape s" "sp_clientOpenIdx t = sp_clientOpenIdx s" "sp_clientOpenType t = sp_clientOpenType s"
    "map_of (sp_idxMap t) (Some (of_int i)) = Some (To (sp_nextIdx s))" "sp_nextIdx t = sp_nextIdx s + 1"
    "sp_continuingClosed t = sp_continuingClosed s" "sp_firstTextMapped t = sp_firstTextMapped s"
    "sp_continuingIdx t = sp_continuingIdx s" "sp_originalClosed s \<Longrightarrow> sp_originalClosed t" "\<not> orig_open t"
    using closing_keeps [OF s1] closing_idle(2) [OF s1] by (simp_all add: t_def eq closing_then) (simp_all add: s1_def)
  have "splice_rel r' (c\<lparr>w_open := Some (sp_nextIdx s), w_next := sp_nextIdx s + 1\<rparr>) t"
    using rel start_idle [OF rel step] t
    by (auto simp: splice_rel_def control_ok_def writing_def idle_def)
  with run show ?thesis unfolding t_def by blast
qed

lemma splice_delta_step:
  assumes rel: "splice_rel r c s" and step: "wire_step (Block_delta i) r = Some r'"
    and idx: "index_of_event d = Some (of_int i)" and ty: "obj_type d = Some (lit ''content_block_delta'')"
  shows "wire_run (map out_event (fst (splice_delta d s))) c = Some c \<and> splice_rel r' c (snd (splice_delta d s))"
proof -
  from step have r: "w_open r = Some i" "r' = r" by (auto simp: wire_step_def split: if_splits)
  consider (skip) "map_of (sp_idxMap s) (Some (of_int i)) = Some Skip"
    | (to) m where "map_of (sp_idxMap s) (Some (of_int i)) = Some (To m)" "writing m c s"
    using rel r by (auto simp: splice_rel_def split: option.splits mapped.splits)
  then show ?thesis
  proof cases
    case skip
    then show ?thesis using rel r by (simp add: splice_delta_def idx)
  next
    case to
    show ?thesis
    proof (cases "if m = sp_continuingIdx s then delta_text (map_of d (lit ''delta'')) else None")
      case None
      then show ?thesis using rel r to out_event_delta [OF ty, of "''content_block_delta''" m]
        by (simp add: splice_delta_def idx writing_def wire_step_def)
    next
      case (Some t)
      then have m: "m = sp_continuingIdx s" by (simp split: if_splits)
      define s1 where "s1 = s\<lparr>sp_hold := sp_hold s @ t\<rparr>"
      have eq: "splice_delta d s = releaseHold False s1" using to Some by (simp add: splice_delta_def idx s1_def)
      have "wire_run (map out_event (fst (releaseHold False s1))) c = Some c"
        using rel to m by (intro releaseHold_legal) (auto simp: s1_def splice_rel_def control_ok_def writing_def)
      moreover have "splice_rel r' c (snd (releaseHold False s1))"
        using splice_rel_control [OF releaseHold_control splice_rel_control [OF _ rel]] r
        by (simp add: s1_def same_control_def)
      ultimately show ?thesis by (simp add: eq)
    qed
  qed
qed

lemma splice_stop_step:
  assumes rel: "splice_rel r c s" and step: "wire_step (Block_stop i) r = Some r'"
    and idx: "index_of_event d = Some (of_int i)" and ty: "obj_type d = Some (lit ''content_block_stop'')"
  shows "\<exists>c'. wire_run (map out_event (fst (splice_block_stop d s))) c = Some c' \<and> splice_rel r' c' (snd (splice_block_stop d s))"
proof -
  from step have r: "w_open r = Some i" "r' = r\<lparr>w_open := None\<rparr>" by (auto simp: wire_step_def split: if_splits)
  with rel have nd: "\<not> w_delta r" by (auto simp: splice_rel_def)
  consider (skip) "map_of (sp_idxMap s) (Some (of_int i)) = Some Skip" "idle c s"
    | (to) m where "map_of (sp_idxMap s) (Some (of_int i)) = Some (To m)" "writing m c s"
    using rel r by (auto simp: splice_rel_def split: option.splits mapped.splits)
  then show ?thesis
  proof cases
    case skip
    then show ?thesis using rel r by (simp add: splice_block_stop_def idx splice_rel_def)
  next
    case to
    show ?thesis
    proof (cases "m = sp_continuingIdx s")
      case False
      with to rel r nd show ?thesis
        by (simp add: splice_block_stop_def idx out_event_block_stop [OF ty] writing_def wire_step_def)
          (simp add: splice_rel_def idle_def)
    next
      case True
      have eq: "splice_block_stop d s = and_then (releaseHold True) closeContinuing s"
        using to True by (simp add: splice_block_stop_def idx)
      have w: "w_open c = Some (sp_continuingIdx s)" "sp_continuingIdx s \<ge> 0" "\<not> sp_continuingClosed s"
        "sp_shape s = Anthropic" "sp_firstTextMapped s"
        using rel to True by (auto simp: splice_rel_def control_ok_def writing_def)
      have "wire_run (map out_event (fst (splice_block_stop d s))) c = Some (c\<lparr>w_open := None\<rparr>)"
        using w by (simp add: eq fst_and_then wire_run_append releaseHold_legal closeContinuing_def wire_step_def)
      moreover have "splice_rel r' (c\<lparr>w_open := None\<rparr>) (snd (splice_block_stop d s))"
        using rel r nd w to True
        by (auto simp: eq snd_and_then closeContinuing_def splice_rel_def control_ok_def idle_def writing_def orig_open_def)
      ultimately show ?thesis by blast
    qed
  qed
qed

lemma splice_message_delta_step:
  assumes rel: "splice_rel r c s" and step: "wire_step Msg_delta r = Some r'" and ev: "frame_event f = Msg_delta"
  defines "e \<equiv> and_then (releaseHold True) (and_then closeContinuing (and_then closeOriginal (emit_one (Raw f)))) (s\<lparr>sp_stopReasonSeen := True\<rparr>)"
  shows "\<exists>c'. wire_run (map out_event (fst e)) c = Some c' \<and> splice_rel r' c' (snd e)"
proof -
  define s1 where "s1 = s\<lparr>sp_stopReasonSeen := True\<rparr>"
  from step have r: "w_open r = None" "\<not> w_delta r" "r' = r\<lparr>w_delta := True\<rparr>"
    by (auto simp: wire_step_def split: if_splits)
  have s1: "control_ok s1" "idle c s1"
    using rel r by (auto simp: s1_def control_ok_def splice_rel_def idle_def orig_open_def)
  have x: "out_event (Raw f) = Msg_delta" by (simp add: out_event_def ev)
  have "wire_run (map out_event (fst e)) c = Some (c\<lparr>w_open := None, w_delta := True\<rparr>)"
    using rel r by (simp add: e_def s1_def [symmetric] closing_then wire_run_append closing_legal [OF s1] x wire_step_def splice_rel_def)
  moreover define t where "t = snd e"
  have t: "sp_shape t = sp_shape s" "sp_clientOpenIdx t = sp_clientOpenIdx s" "sp_nextIdx t = sp_nextIdx s"
    "sp_continuingClosed t = sp_continuingClosed s" "sp_firstTextMapped t = sp_firstTextMapped s"
    "sp_continuingIdx t = sp_continuingIdx s" "sp_originalClosed s \<Longrightarrow> sp_originalClosed t" "\<not> orig_open t"
    using closing_keeps [OF s1] closing_idle(2) [OF s1]
    by (simp_all add: t_def e_def s1_def [symmetric] closing_then) (simp_all add: s1_def)
  have "splice_rel r' (c\<lparr>w_open := None, w_delta := True\<rparr>) t"
    using rel r t by (auto simp: splice_rel_def control_ok_def idle_def)
  ultimately show ?thesis unfolding t_def by blast
qed

lemma splice_message_stop_step:
  assumes rel: "splice_rel r c s" and step: "wire_step Msg_stop r = Some r'" and ev: "frame_event f = Msg_stop"
  shows "\<exists>c'. wire_run (map out_event [Raw f]) c = Some c' \<and> splice_rel r' c' (s\<lparr>sp_terminalSeen := True\<rparr>)"
  using rel step
  by (auto simp: out_event_def ev wire_step_def splice_rel_def control_ok_def idle_def orig_open_def split: if_splits)

section \<open>A whole resume stream\<close>

lemma closers_keep [simp]:
  "sp_clientOpenIdx (snd (closeContinuing s)) = sp_clientOpenIdx s" "sp_clientOpenIdx (snd (closeOriginal s)) = sp_clientOpenIdx s"
  "sp_clientOpenType (snd (closeContinuing s)) = sp_clientOpenType s" "sp_clientOpenType (snd (closeOriginal s)) = sp_clientOpenType s"
  "sp_firstTextMapped (snd (closeContinuing s)) = sp_firstTextMapped s" "sp_firstTextMapped (snd (closeOriginal s)) = sp_firstTextMapped s"
  "sp_shape (snd (closeContinuing s)) = sp_shape s" "sp_shape (snd (closeOriginal s)) = sp_shape s"
  by (simp_all add: closeContinuing_def closeOriginal_def)

lemma start_client_fields:
  "sp_clientOpenIdx (snd (splice_block_start d s)) = sp_clientOpenIdx s
   \<and> sp_clientOpenType (snd (splice_block_start d s)) = sp_clientOpenType s
   \<and> (sp_firstTextMapped s \<longrightarrow> sp_firstTextMapped (snd (splice_block_start d s)))"
  by (simp add: splice_block_start_def Let_def split_def snd_and_then)

lemma delta_fields:
  "sp_clientOpenIdx (snd (splice_delta d s)) = sp_clientOpenIdx s
   \<and> sp_clientOpenType (snd (splice_delta d s)) = sp_clientOpenType s
   \<and> sp_firstTextMapped (snd (splice_delta d s)) = sp_firstTextMapped s
   \<and> sp_originalClosed (snd (splice_delta d s)) = sp_originalClosed s"
  by (simp add: splice_delta_def split: option.split mapped.split)

lemma stop_fields:
  "sp_clientOpenIdx (snd (splice_block_stop d s)) = sp_clientOpenIdx s
   \<and> sp_clientOpenType (snd (splice_block_stop d s)) = sp_clientOpenType s
   \<and> sp_firstTextMapped (snd (splice_block_stop d s)) = sp_firstTextMapped s
   \<and> (control_ok s \<and> \<not> sp_firstTextMapped s \<longrightarrow> sp_originalClosed (snd (splice_block_stop d s)) = sp_originalClosed s)"
  by (auto simp: splice_block_stop_def snd_and_then closeContinuing_def control_ok_def split: option.split mapped.split)

text \<open>The events of the frames \<open>feedAnthropic\<close> acts on.\<close>

lemma frame_event_cases:
  assumes "\<not> f_comment f" and "f_dataText f \<noteq> None" and "f_data f = Some d"
  shows "frame_event f = obj_event d" and "frame_type f = obj_type d"
  using assms by (auto simp: frame_event_def frame_type_obj)

lemma splice_step:
  assumes rel: "splice_rel r c s" and step: "wire_step (frame_event f) r = Some r'"
    and nxt: "text_next (w_delta r) (f # fs) s"
  shows "\<exists>c'. wire_run (map out_event (fst (splicer_feed f s))) c = Some c'
    \<and> splice_rel r' c' (snd (splicer_feed f s)) \<and> text_next (w_delta r') fs (snd (splicer_feed f s))"
proof (cases "f_comment f \<or> f_dataText f = None \<or> f_data f = None")
  case True
  then have "frame_event f = Other" "visible_start f = None"
    by (auto simp: frame_event_def visible_start_def split: option.split)
  moreover have "splicer_feed f s = ([], s) \<or> splicer_feed f s = ([Raw f], s)"
    using True rel by (auto simp: splicer_feed_def feedAnthropic_def splice_rel_def control_ok_def)
  ultimately show ?thesis
    using rel step nxt by (auto simp: wire_step_def out_event_def text_next_def)
next
  case False
  then obtain d where d: "\<not> f_comment f" "f_dataText f \<noteq> None" "f_data f = Some d" by auto
  note ev = frame_event_cases [OF d]
  have sh: "sp_shape s = Anthropic" and ctl: "control_ok s" using rel by (auto simp: splice_rel_def control_ok_def)
  have feed: "splicer_feed f s = feedAnthropic f s" using d sh by (auto simp: splicer_feed_def)
  have vis: "visible_start f = (if obj_type d = Some (lit ''content_block_start'') \<and> \<not> is_thinking (block_type_of d)
      then Some (block_type_of d) else None)"
    using d by (simp add: visible_start_def)
  consider (start) "obj_type d = Some (lit ''content_block_start'')" | (delta) "obj_type d = Some (lit ''content_block_delta'')"
    | (stop) "obj_type d = Some (lit ''content_block_stop'')" | (mdelta) "obj_type d = Some (lit ''message_delta'')"
    | (mstop) "obj_type d = Some (lit ''message_stop'')" | (mstart) "obj_type d = Some (lit ''message_start'')"
    | (other) "obj_event d = Other" "feedAnthropic f s = ([Raw f], s) \<or> feedAnthropic f s = ([], s)"
  proof -
    have "obj_event d = Other \<and> (feedAnthropic f s = ([Raw f], s) \<or> feedAnthropic f s = ([], s))"
      if "obj_type d \<notin> Some ` lit ` {''content_block_start'', ''content_block_delta'', ''content_block_stop'',
        ''message_delta'', ''message_stop'', ''message_start''}"
      using that d(3) by (simp add: obj_event_def Let_def feedAnthropic_def ev(2))
    then show ?thesis using that by blast
  qed
  then show ?thesis
  proof cases
    case start
    then have e: "feedAnthropic f s = splice_block_start d s" using d(3) by (simp add: feedAnthropic_def Let_def ev(2))
    from start step obtain i where i: "index_of_event d = Some (of_int i)" "wire_step (Block_start i) r = Some r'"
      using step_with_int [of d Block_start r r'] by (auto simp: ev obj_event_def Let_def)
    have nd: "\<not> w_delta r" and w': "w_delta r' = w_delta r" using start_idle [OF rel i(2)] by auto
    define t where "t = snd (splice_block_start d s)"
    have fields: "sp_clientOpenIdx t = sp_clientOpenIdx s" "sp_clientOpenType t = sp_clientOpenType s"
      "sp_firstTextMapped s \<Longrightarrow> sp_firstTextMapped t"
      using start_client_fields [of d s] by (auto simp: t_def)
    consider (thinking) "is_thinking (block_type_of d)"
      | (first) "block_type_of d = lit ''text''" "\<not> sp_firstTextMapped s"
      | (more) "\<not> is_thinking (block_type_of d)" "block_type_of d \<noteq> lit ''text'' \<or> sp_firstTextMapped s"
      by blast
    then have "(\<exists>c'. wire_run (map out_event (fst (splice_block_start d s))) c = Some c' \<and> splice_rel r' c' t)
        \<and> text_next (w_delta r') fs t"
    proof cases
      case thinking
      then have "t = map_index (Some (of_int i)) Skip s" by (simp add: t_def splice_block_start_def i)
      with splice_start_thinking [OF rel i(2,1) thinking] nxt thinking vis show ?thesis
        by (simp add: t_def text_next_def w' start)
    next
      case first
      have nth: "\<not> is_thinking (block_type_of d)" by (simp add: is_thinking_def first)
      have "sp_firstTextMapped t"
        using first nth by (simp add: t_def splice_block_start_def i Let_def split_def)
      then have "text_next (w_delta r') fs t" by (simp add: text_next_def)
      moreover have "\<exists>c'. wire_run (map out_event (fst (splice_block_start d s))) c = Some c' \<and> splice_rel r' c' t"
      proof (cases "sp_clientOpenIdx s \<ge> 0 \<and> sp_clientOpenType s = Some (lit ''text'')")
        case True
        then have "\<not> sp_originalClosed s" using nxt first nd by (simp add: text_next_def)
        then show ?thesis unfolding t_def using splice_start_continuing [OF rel i(2,1) first] True by blast
      next
        case False
        then show ?thesis unfolding t_def using splice_start_fresh_text [OF rel i(2,1) first] start by blast
      qed
      ultimately show ?thesis by blast
    next
      case more
      have "text_next (w_delta r') fs t"
        using nxt more vis start nd fields by (auto simp: text_next_def)
      then show ?thesis using splice_start_other [OF rel i(2,1) more start] by (simp add: t_def)
    qed
    then show ?thesis by (simp add: feed e t_def)
  next
    case delta
    then have e: "feedAnthropic f s = splice_delta d s" using d(3) by (simp add: feedAnthropic_def Let_def ev(2))
    from delta step obtain i where i: "index_of_event d = Some (of_int i)" "wire_step (Block_delta i) r = Some r'"
      using step_with_int [of d Block_delta r r'] by (auto simp: ev obj_event_def Let_def)
    have "r' = r" using i(2) by (auto simp: wire_step_def split: if_splits)
    then have "text_next (w_delta r') fs (snd (splice_delta d s))"
      using nxt delta_fields [of d s] vis delta by (simp add: text_next_def)
    then show ?thesis using splice_delta_step [OF rel i(2,1) delta] by (simp add: feed e)
  next
    case stop
    then have e: "feedAnthropic f s = splice_block_stop d s" using d(3) by (simp add: feedAnthropic_def Let_def ev(2))
    from stop step obtain i where i: "index_of_event d = Some (of_int i)" "wire_step (Block_stop i) r = Some r'"
      using step_with_int [of d Block_stop r r'] by (auto simp: ev obj_event_def Let_def)
    have "w_delta r' = w_delta r" using i(2) by (auto simp: wire_step_def split: if_splits)
    then have "text_next (w_delta r') fs (snd (splice_block_stop d s))"
      using nxt stop_fields [of d s] vis stop ctl by (simp add: text_next_def)
    then show ?thesis using splice_stop_step [OF rel i(2,1) stop] by (simp add: feed e)
  next
    case mdelta
    then have w: "frame_event f = Msg_delta" by (simp add: ev obj_event_def)
    then have "text_next (w_delta r') fs u" for u
      using step by (auto simp: wire_step_def text_next_def split: if_splits)
    then show ?thesis
      using splice_message_delta_step [OF rel step [unfolded w] w] d(3) mdelta
      by (simp add: feed feedAnthropic_def Let_def ev(2))
  next
    case mstop
    then have w: "frame_event f = Msg_stop" by (simp add: ev obj_event_def)
    have "text_next (w_delta r') fs (s\<lparr>sp_terminalSeen := True\<rparr>)"
      using step nxt vis mstop w by (auto simp: wire_step_def text_next_def split: if_splits)
    then show ?thesis
      using splice_message_stop_step [OF rel step [unfolded w] w] d(3) mstop
      by (simp add: feed feedAnthropic_def Let_def ev(2))
  next
    case mstart
    then have w: "frame_event f = Msg_start" by (simp add: ev obj_event_def)
    then have r: "w_delta r' = w_delta r" "splice_rel r' c s"
      using step rel by (auto simp: wire_step_def splice_rel_def split: if_splits)
    obtain m where e: "feedAnthropic f s = ([], s\<lparr>sp_resumeModel := m\<rparr>)"
      using d(3) mstart by (simp add: feedAnthropic_def Let_def ev(2))
    have "same_control s (s\<lparr>sp_resumeModel := m\<rparr>)" by (simp add: same_control_def)
    from splice_rel_control [OF this r(2)] show ?thesis
      using nxt vis r(1) mstart by (simp add: feed e text_next_def)
  next
    case other
    then have "frame_event f = Other" by (simp add: ev)
    moreover have "visible_start f = None" using vis other by (auto simp: obj_event_def Let_def with_int_def split: option.splits if_splits)
    ultimately show ?thesis using other step rel nxt
      by (auto simp: feed out_event_def wire_step_def text_next_def)
  qed
qed

end
