(* ===== verification/Continuation.thy ===== *)
theory Continuation
  imports Splice_Legal
begin

text \<open>
  The primary stream as the guard forwards it, followed by the spliced resume: \<open>ClientStreamState\<close> is
  an abstraction of what the client holds, and the two parts together obey the protocol of
  \<open>Splice_Legal\<close>.
\<close>

section \<open>The primary stream\<close>

text \<open>What reaches a guard before the end: a client-bound frame, or the site's word that the turn failed.\<close>

datatype upstream_event = Frame sse_frame | Failed

definition guard_event :: "upstream_event \<Rightarrow> client_state \<times> sse_frame list \<Rightarrow> client_state \<times> sse_frame list" where
  "guard_event e p =
     (case e of
        Failed \<Rightarrow> (markUpstreamFailed (fst p), snd p)
      | Frame f \<Rightarrow> (let (forward, s) = observe f (fst p) in (s, if forward then snd p @ [f] else snd p)))"

definition guard_events :: "upstream_event list \<Rightarrow> wire_shape \<Rightarrow> client_state \<times> sse_frame list" where
  "guard_events es shape = fold guard_event es (new_client_state shape, [])"

fun frames_of :: "upstream_event list \<Rightarrow> sse_frame list" where
  "frames_of [] = []"
| "frames_of (Frame f # es) = f # frames_of es"
| "frames_of (Failed # es) = frames_of es"

section \<open>The blocks as an array\<close>

definition array_upto :: "nat \<Rightarrow> (rat, block_state) jsmap \<Rightarrow> bool" where
  "array_upto n m \<longleftrightarrow> (\<forall>k. map_of m k \<noteq> None \<longleftrightarrow> (\<exists>i < n. k = of_nat i))"

lemma array_index_of_nat [simp]: "array_index (of_nat i) = Some i"
  by (simp add: array_index_def)

lemma blocks_length_array:
  assumes "array_upto n m"
  shows "blocks_length m = n"
proof -
  let ?xs = "map Suc (List.map_filter (\<lambda>e. array_index (fst e)) m)"
  have xs: "set ?xs = Suc ` {..<n}"
  proof (intro equalityI subsetI)
    fix x assume "x \<in> set ?xs"
    then obtain e j where e: "e \<in> set m" "array_index (fst e) = Some j" "x = Suc j"
      by (auto simp: map_filter_set)
    then have "map_of m (fst e) \<noteq> None" by (auto simp: map_of_eq_None_iff)
    then obtain i where "i < n" "fst e = of_nat i" using assms by (auto simp: array_upto_def)
    then show "x \<in> Suc ` {..<n}" using e by auto
  next
    fix x assume "x \<in> Suc ` {..<n}"
    then obtain i where i: "i < n" "x = Suc i" by auto
    then obtain b where "map_of m (of_nat i) = Some b" using assms by (auto simp: array_upto_def)
    then have "(of_nat i, b) \<in> set m" by (rule map_of_SomeD)
    then show "x \<in> set ?xs" unfolding set_map map_filter_set using i by force
  qed
  show ?thesis
  proof (rule antisym)
    show "blocks_length m \<le> n" unfolding blocks_length_def max_of_le_iff xs by auto
    show "n \<le> blocks_length m"
    proof (cases n)
      case (Suc k)
      then have "Suc k \<in> insert 0 (set ?xs)" unfolding xs by auto
      then show ?thesis unfolding Suc blocks_length_def by (rule max_of_upper)
    qed simp
  qed
qed

lemma array_upto_Nil [simp]: "array_upto 0 []"
  by (simp add: array_upto_def)

lemma array_upto_extend: "array_upto n m \<Longrightarrow> array_upto (Suc n) (AList.update (of_nat n) b m)"
  by (auto simp: array_upto_def update_conv' less_Suc_eq)

lemma array_upto_update: "array_upto n m \<Longrightarrow> map_of m k \<noteq> None \<Longrightarrow> array_upto n (AList.update k b m)"
  by (auto simp: array_upto_def update_conv')

definition opens :: "int option \<Rightarrow> (rat, block_state) jsmap \<Rightarrow> bool" where
  "opens o' m \<longleftrightarrow> (\<forall>i b. map_of m (of_nat i) = Some b \<longrightarrow> b_open b = (o' = Some (int i)))"

lemma find_open_spec:
  assumes "\<forall>i \<in> set is. \<exists>b. block_at m i = Some b \<and> b_open b = (o' = Some (int i))"
  shows "find_open m is = Inr (case o' of Some j \<Rightarrow> if j \<in> int ` set is then j else -1 | None \<Rightarrow> -1)"
  using assms by (induction "is") (auto split: option.splits)

lemma openIdx_spec:
  assumes "array_upto n (cs_blocks s)" and "opens o' (cs_blocks s)" and "\<forall>j. o' = Some j \<longrightarrow> 0 \<le> j \<and> j < int n"
  shows "openIdx s = Inr (case o' of Some j \<Rightarrow> j | None \<Rightarrow> -1)"
proof -
  have "\<forall>i \<in> set [0..<n]. \<exists>b. block_at (cs_blocks s) i = Some b \<and> b_open b = (o' = Some (int i))"
  proof
    fix i assume "i \<in> set [0..<n]"
    then have "map_of (cs_blocks s) (of_nat i) \<noteq> None" using assms(1) unfolding array_upto_def by (metis atLeastLessThan_iff set_upt)
    then show "\<exists>b. block_at (cs_blocks s) i = Some b \<and> b_open b = (o' = Some (int i))"
      using assms(2) unfolding opens_def block_at_def by blast
  qed
  from find_open_spec [OF this] have e: "openIdx s = Inr (case o' of Some j \<Rightarrow> if j \<in> int ` {0..<n} then j else -1 | None \<Rightarrow> -1)"
    unfolding openIdx_def blocks_length_array [OF assms(1)] set_upt .
  have "j \<in> int ` {0..<n}" if "o' = Some j" for j
  proof (rule image_eqI)
    from assms(3) that have j: "0 \<le> j" "j < int n" by blast+
    show "j = int (nat j)" using j(1) by simp
    show "nat j \<in> {0..<n}" using j by (simp add: nat_less_iff)
  qed
  with e show ?thesis by (simp split: option.split)
qed

section \<open>The state abstracts the client's wire\<close>

definition observes :: "wire \<Rightarrow> wire \<Rightarrow> client_state \<Rightarrow> bool" where
  "observes w c s \<longleftrightarrow>
     cs_shape s = Anthropic \<and> cs_started s = w_started c \<and> cs_finished s = w_done c
     \<and> w_started c = w_started w \<and> w_open c = w_open w \<and> w_next c = w_next w
     \<and> (\<not> cs_upstreamFailed s \<longrightarrow> w_delta c = w_delta w \<and> w_done c = w_done w)
     \<and> (w_delta c \<longrightarrow> w_delta w) \<and> (w_delta w \<longrightarrow> w_open w = None)
     \<and> 0 \<le> w_next c \<and> (\<forall>i. w_open c = Some i \<longrightarrow> 0 \<le> i \<and> i < w_next c)
     \<and> array_upto (nat (w_next c)) (cs_blocks s) \<and> opens (w_open c) (cs_blocks s)"

lemma observes_fresh: "observes fresh_wire fresh_wire (new_client_state Anthropic)"
  by (simp add: observes_def fresh_wire_def new_client_state_def opens_def)

lemma rat_of_nat_int: "0 \<le> i \<Longrightarrow> (of_int i :: rat) = of_nat (nat i)"
  by (metis nat_0_le of_int_of_nat_eq)


lemma start_block_observes:
  assumes "observes w c s" and "wire_step (Block_start i) w = Some w'" and "num_of (field f ''index'') = Some (of_int i)"
  shows "\<exists>c'. wire_step (Block_start i) c = Some c' \<and> observes w' c' (start_block f s)"
proof -
  from assms(2) have w: "w_started w" "\<not> w_delta w" "w_open w = None" "i = w_next w"
    "w' = w\<lparr>w_open := Some i, w_next := i + 1\<rparr>"
    by (auto simp: wire_step_def split: if_splits)
  have i: "0 \<le> i" "w_next c = i" "w_open c = None" using assms(1) w by (auto simp: observes_def)
  have key: "(of_int i :: rat) = of_nat (nat i)" by (rule rat_of_nat_int [OF i(1)])
  have nat: "nat (i + 1) = Suc (nat i)" using i by simp
  define b where "b = \<lparr>b_type = opt_or (str_of (jprop (field f ''content_block'') ''type'')) (lit ''text''),
      b_open = True, b_text = opt_or (str_of (jprop (field f ''content_block'') ''text'')) []\<rparr>"
  have m: "cs_blocks (start_block f s) = AList.update (of_nat (nat i)) b (cs_blocks s)"
    by (simp add: start_block_def Let_def assms(3) key b_def)
  have upto: "array_upto (nat i) (cs_blocks s)" and op: "opens None (cs_blocks s)"
    using assms(1) i by (auto simp: observes_def)
  have "opens (Some i) (cs_blocks (start_block f s))"
    using op i(1) unfolding m by (auto simp: opens_def update_conv' b_def)
  moreover have "array_upto (nat (i + 1)) (cs_blocks (start_block f s))"
    unfolding m nat by (rule array_upto_extend [OF upto])
  ultimately show ?thesis using assms(1) w i
    by (auto simp: observes_def wire_step_def start_block_def Let_def)
qed

lemma delta_block_observes:
  assumes "observes w c s" and "wire_step (Block_delta i) w = Some w'"
  shows "wire_step (Block_delta i) c = Some c \<and> observes w' c (delta_block f s)"
proof -
  have w: "w' = w" "w_open c = Some i" using assms by (auto simp: wire_step_def observes_def split: if_splits)
  have "array_upto n (cs_blocks (delta_block f s))" if "array_upto n (cs_blocks s)" for n
    using that by (auto simp: delta_block_def Let_def intro: array_upto_update split: option.splits)
  moreover have "opens o' (cs_blocks (delta_block f s))" if "opens o' (cs_blocks s)" for o'
    using that by (auto simp: delta_block_def Let_def opens_def update_conv' split: option.splits)
  moreover have "cs_shape (delta_block f s) = cs_shape s" "cs_started (delta_block f s) = cs_started s"
    "cs_finished (delta_block f s) = cs_finished s" "cs_upstreamFailed (delta_block f s) = cs_upstreamFailed s"
    by (simp_all add: delta_block_def Let_def split: option.splits)
  ultimately show ?thesis using assms(1) w by (auto simp: observes_def wire_step_def)
qed

lemma stop_block_observes:
  assumes "observes w c s" and "wire_step (Block_stop i) w = Some w'" and "num_of (field f ''index'') = Some (of_int i)"
  shows "wire_step (Block_stop i) c = Some (c\<lparr>w_open := None\<rparr>) \<and> observes w' (c\<lparr>w_open := None\<rparr>) (stop_block f s)"
proof -
  have w: "w' = w\<lparr>w_open := None\<rparr>" "w_open c = Some i" "0 \<le> i" "i < w_next c"
    using assms(1,2) by (auto simp: wire_step_def observes_def split: if_splits)
  have key: "(of_int i :: rat) = of_nat (nat i)" by (rule rat_of_nat_int [OF w(3)])
  have upto: "array_upto (nat (w_next c)) (cs_blocks s)" and op: "opens (Some i) (cs_blocks s)"
    using assms(1) w by (auto simp: observes_def)
  have "nat i < nat (w_next c)" using w by simp
  then have "map_of (cs_blocks s) (of_nat (nat i)) \<noteq> None" using upto unfolding array_upto_def by blast
  then obtain b where b: "map_of (cs_blocks s) (of_nat (nat i)) = Some b" by blast
  have m: "cs_blocks (stop_block f s) = AList.update (of_nat (nat i)) (b\<lparr>b_open := False\<rparr>) (cs_blocks s)"
    by (simp add: stop_block_def Let_def assms(3) key b)
  have "opens None (cs_blocks (stop_block f s))"
    using op w unfolding m by (auto simp: opens_def update_conv')
  moreover have "array_upto (nat (w_next c)) (cs_blocks (stop_block f s))"
    unfolding m using upto b by (intro array_upto_update) auto
  moreover have "cs_shape (stop_block f s) = cs_shape s" "cs_started (stop_block f s) = cs_started s"
    "cs_finished (stop_block f s) = cs_finished s" "cs_upstreamFailed (stop_block f s) = cs_upstreamFailed s"
    by (simp_all add: stop_block_def Let_def split: option.splits)
  moreover have "wire_step (Block_stop i) c = Some (c\<lparr>w_open := None\<rparr>)" using w(2) by (simp add: wire_step_def)
  ultimately show ?thesis using assms(1) unfolding w(1) observes_def by simp
qed


lemma index_of_field: "f_data f = Some d \<Longrightarrow> num_of (field f ''index'') = index_of_event d"
  by (simp add: field_def jprop_def index_of_event_def)

lemma observes_mark: "observes w c s \<Longrightarrow> observes w c (markUpstreamFailed s)"
  by (auto simp: observes_def markUpstreamFailed_def)

lemma observes_withhold: "observes w c s \<Longrightarrow> observes w c (snd (withhold f s))"
  by (auto simp: observes_def withhold_def)

lemma observes_delta_withheld:
  assumes "observes w c s" and "wire_step Msg_delta w = Some w'" and "cs_upstreamFailed s"
  shows "observes w' c s"
  using assms by (auto simp: observes_def wire_step_def split: if_splits)

lemma observes_stop_withheld:
  assumes "observes w c s" and "wire_step Msg_stop w = Some w'" and "cs_upstreamFailed s"
  shows "observes w' c s"
  using assms by (auto simp: observes_def wire_step_def split: if_splits)

text \<open>One frame: what is forwarded the client accepts, and the state stays an abstraction of its view.\<close>

lemma observe_step:
  assumes obs: "observes w c s" and step: "wire_step (frame_event f) w = Some w'"
  shows "\<exists>c'. wire_run (map frame_event (if fst (observe f s) then [f] else [])) c = Some c'
    \<and> observes w' c' (snd (observe f s))"
proof (cases "f_comment f \<or> f_dataText f = None \<or> f_data f = None")
  case True
  then have "frame_event f = Other" by (auto simp: frame_event_def split: option.split)
  moreover have "observe f s = (True, s)"
    using True obs by (auto simp: observe_def observeAnthropic_def observes_def)
  ultimately show ?thesis using step obs by (simp add: wire_step_def)
next
  case False
  then obtain d where d: "\<not> f_comment f" "f_dataText f \<noteq> None" "f_data f = Some d" by auto
  note ev = frame_event_cases [OF d]
  have "observe f s = observeAnthropic f s" using d obs by (auto simp: observe_def observes_def)
  note eqs = this observeAnthropic_def Let_def ev(2) d(3) option.case
  consider (start) "obj_type d = Some (lit ''content_block_start'')" | (delta) "obj_type d = Some (lit ''content_block_delta'')"
    | (stop) "obj_type d = Some (lit ''content_block_stop'')" | (mdelta) "obj_type d = Some (lit ''message_delta'')"
    | (mstop) "obj_type d = Some (lit ''message_stop'')" | (mstart) "obj_type d = Some (lit ''message_start'')"
    | (other) "obj_event d = Other" "observe f s = (True, s) \<or> observe f s = withhold f s"
  proof -
    have "obj_event d = Other \<and> (observe f s = (True, s) \<or> observe f s = withhold f s)"
      if "obj_type d \<notin> Some ` lit ` {''content_block_start'', ''content_block_delta'', ''content_block_stop'',
        ''message_delta'', ''message_stop'', ''message_start''}"
      using that by (simp add: obj_event_def eqs)
    then show ?thesis using that by blast
  qed
  then show ?thesis
  proof cases
    case start
    with step obtain i where i: "index_of_event d = Some (of_int i)" "wire_step (Block_start i) w = Some w'"
      using step_with_int [of d Block_start w w'] by (auto simp: ev obj_event_def Let_def)
    have "frame_event f = Block_start i" using start i by (simp add: ev obj_event_def with_int_def)
    then show ?thesis
      using start_block_observes [OF obs i(2), of f] i(1) start by (simp add: eqs index_of_field [OF d(3)])
        (auto split: option.split)
  next
    case delta
    with step obtain i where i: "index_of_event d = Some (of_int i)" "wire_step (Block_delta i) w = Some w'"
      using step_with_int [of d Block_delta w w'] by (auto simp: ev obj_event_def Let_def)
    have "frame_event f = Block_delta i" using delta i by (simp add: ev obj_event_def with_int_def)
    then show ?thesis using delta_block_observes [OF obs i(2), of f] delta by (simp add: eqs)
  next
    case stop
    with step obtain i where i: "index_of_event d = Some (of_int i)" "wire_step (Block_stop i) w = Some w'"
      using step_with_int [of d Block_stop w w'] by (auto simp: ev obj_event_def Let_def)
    have "frame_event f = Block_stop i" using stop i by (simp add: ev obj_event_def with_int_def)
    then show ?thesis
      using stop_block_observes [OF obs i(2), of f] i(1) stop by (simp add: eqs index_of_field [OF d(3)])
  next
    case mdelta
    then have m: "frame_event f = Msg_delta" by (simp add: ev obj_event_def)
    show ?thesis
    proof (cases "cs_upstreamFailed s")
      case True
      with observes_withhold [OF observes_delta_withheld [OF obs step [unfolded m]], of f] mdelta show ?thesis
        by (simp add: eqs withhold_def)
    next
      case False
      with obs step [unfolded m] mdelta show ?thesis
        by (auto simp: eqs observes_def wire_step_def m split: if_splits)
    qed
  next
    case mstop
    then have m: "frame_event f = Msg_stop" by (simp add: ev obj_event_def)
    show ?thesis
    proof (cases "cs_upstreamFailed s")
      case True
      with observes_withhold [OF observes_stop_withheld [OF obs step [unfolded m]], of f] mstop show ?thesis
        by (simp add: eqs withhold_def)
    next
      case False
      with obs step [unfolded m] mstop show ?thesis
        by (auto simp: eqs observes_def wire_step_def m split: if_splits)
    qed
  next
    case mstart
    then have m: "frame_event f = Msg_start" by (simp add: ev obj_event_def)
    with obs step mstart show ?thesis
      by (auto simp: eqs start_message_def observes_def wire_step_def split: if_splits)
  next
    case other
    then have "frame_event f = Other" by (simp add: ev)
    with other step obs observes_withhold [OF obs, of f] show ?thesis
      by (auto simp: wire_step_def withhold_def)
  qed
qed


lemma guard_events_observe:
  assumes "observes w c s" and "wire_run (map frame_event (frames_of es)) w = Some w'"
  shows "\<exists>c' new. snd (fold guard_event es (s, fwd)) = fwd @ new \<and> wire_run (map frame_event new) c = Some c'
    \<and> observes w' c' (fst (fold guard_event es (s, fwd)))"
  using assms
proof (induction es arbitrary: w c s fwd)
  case Nil
  then show ?case by simp
next
  case (Cons e es)
  show ?case
  proof (cases e)
    case Failed
    with Cons.prems Cons.IH [OF observes_mark [OF Cons.prems(1)], of fwd] show ?thesis
      by (simp add: guard_event_def)
  next
    case (Frame f)
    with Cons.prems obtain w1 where w1: "wire_step (frame_event f) w = Some w1"
      "wire_run (map frame_event (frames_of es)) w1 = Some w'"
      by (auto split: option.splits)
    define new1 where "new1 = (if fst (observe f s) then [f] else [])"
    from observe_step [OF Cons.prems(1) w1(1)] obtain c1 where
      c1: "wire_run (map frame_event new1) c = Some c1" "observes w1 c1 (snd (observe f s))"
      unfolding new1_def by blast
    have e: "guard_event e (s, fwd) = (snd (observe f s), fwd @ new1)"
      using Frame by (simp add: guard_event_def Let_def split_def new1_def)
    from Cons.IH [OF c1(2) w1(2), of "fwd @ new1"] obtain c' new where
      "snd (fold guard_event es (snd (observe f s), fwd @ new1)) = (fwd @ new1) @ new"
      "wire_run (map frame_event new) c1 = Some c'"
      "observes w' c' (fst (fold guard_event es (snd (observe f s), fwd @ new1)))" by blast
    then show ?thesis
      using c1(1) by (intro exI [of _ c'] exI [of _ "new1 @ new"]) (simp add: e wire_run_append)
  qed
qed

section \<open>The spliced stream\<close>

lemma new_splicer_rel:
  assumes obs: "observes w c s" and new: "new_splicer s partial = Inr sp" and un: "\<not> w_delta c" "\<not> w_done c" "w_started c"
  shows "splice_rel fresh_wire c sp" and "sp_clientOpenType sp = (case openType s of Inr t \<Rightarrow> t | Inl _ \<Rightarrow> None)"
    and "\<not> sp_firstTextMapped sp" and "\<not> sp_originalClosed sp" and "\<not> sp_terminalSeen sp" and "sp_shape sp = Anthropic"
proof -
  have idx: "openIdx s = Inr (case w_open c of Some j \<Rightarrow> j | None \<Rightarrow> -1)"
    by (rule openIdx_spec [where n = "nat (w_next c)"]) (use obs in \<open>auto simp: observes_def\<close>)
  have len: "int (blocks_length (cs_blocks s)) = w_next c"
    using blocks_length_array [of "nat (w_next c)" "cs_blocks s"] obs by (auto simp: observes_def)
  obtain t where t: "openType s = Inr t" using idx by (simp add: openType_def)
  have sp: "sp = \<lparr>sp_shape = Anthropic, sp_partial = partial, sp_clientOpenIdx = (case w_open c of Some j \<Rightarrow> j | None \<Rightarrow> -1),
      sp_clientOpenType = t, sp_idxMap = [], sp_nextIdx = w_next c, sp_originalClosed = False, sp_continuingClosed = False,
      sp_firstTextMapped = False, sp_continuingIdx = -1, sp_hold = [], sp_holding = (partial \<noteq> []), sp_stopReasonSeen = False,
      sp_doneSeen = False, sp_terminalSeen = False, sp_anchor = NA, sp_dropped = 0, sp_emitted = 0, sp_resumeModel = None\<rparr>"
    using new obs by (simp add: new_splicer_def idx t len observes_def)
  have r: "\<And>j. w_open c = Some j \<Longrightarrow> 0 \<le> j \<and> j < w_next c" "0 \<le> w_next c"
    using obs by (auto simp: observes_def)
  show "splice_rel fresh_wire c sp"
    using un r by (auto simp: sp splice_rel_def fresh_wire_def control_ok_def idle_def orig_open_def split: option.splits)
  show "sp_clientOpenType sp = (case openType s of Inr t \<Rightarrow> t | Inl _ \<Rightarrow> None)" by (simp add: sp t)
  show "\<not> sp_firstTextMapped sp" "\<not> sp_originalClosed sp" "\<not> sp_terminalSeen sp" "sp_shape sp = Anthropic" by (simp_all add: sp)
qed

lemma feed_frames_Nil [simp]: "feed_frames [] s = ([], s)"
  by (simp add: feed_frames_def)

lemma feed_frames_acc:
  "foldl (\<lambda>(out, s) f. let (o1, s1) = splicer_feed f s in (out @ o1, s1)) (out, s) fs =
     (out @ fst (feed_frames fs s), snd (feed_frames fs s))"
proof (induction fs arbitrary: out s)
  case Nil
  show ?case by simp
next
  case (Cons f fs)
  show ?case
    using Cons [of "out @ fst (splicer_feed f s)" "snd (splicer_feed f s)"]
      Cons [of "fst (splicer_feed f s)" "snd (splicer_feed f s)"]
    by (simp add: feed_frames_def Let_def split_def)
qed

lemma feed_frames_Cons:
  "feed_frames (f # fs) s =
     (fst (splicer_feed f s) @ fst (feed_frames fs (snd (splicer_feed f s))), snd (feed_frames fs (snd (splicer_feed f s))))"
  using feed_frames_acc [of "fst (splicer_feed f s)" "snd (splicer_feed f s)" fs]
  by (simp add: feed_frames_def Let_def split_def)

lemma feed_frames_legal:
  assumes "splice_rel r c s" and "wire_run (map frame_event fs) r = Some r'" and "text_next (w_delta r) fs s"
  shows "\<exists>c'. wire_run (map out_event (fst (feed_frames fs s))) c = Some c' \<and> splice_rel r' c' (snd (feed_frames fs s))"
  using assms
proof (induction fs arbitrary: r c s)
  case Nil
  then show ?case by simp
next
  case (Cons f fs)
  from Cons.prems(2) obtain r1 where r1: "wire_step (frame_event f) r = Some r1"
    "wire_run (map frame_event fs) r1 = Some r'" by (auto split: option.splits)
  from splice_step [OF Cons.prems(1) r1(1) Cons.prems(3)] obtain c1 where
    c1: "wire_run (map out_event (fst (splicer_feed f s))) c = Some c1" "splice_rel r1 c1 (snd (splicer_feed f s))"
    "text_next (w_delta r1) fs (snd (splicer_feed f s))" by blast
  from Cons.IH [OF c1(2) r1(2) c1(3)] c1(1) show ?case
    by (simp add: feed_frames_Cons wire_run_append)
qed


lemma releaseHold_terminal [simp]: "sp_terminalSeen (snd (releaseHold final s)) = sp_terminalSeen s"
  by (auto simp: releaseHold_def settle_hold_def Let_def split_def split: wire_shape.splits)

lemma closers_terminal [simp]:
  "sp_terminalSeen (snd (closeContinuing s)) = sp_terminalSeen s" "sp_terminalSeen (snd (closeOriginal s)) = sp_terminalSeen s"
  by (simp_all add: closeContinuing_def closeOriginal_def)

lemma map_index_terminal [simp]: "sp_terminalSeen (map_index k m s) = sp_terminalSeen s"
  by (simp add: map_index_def)

lemma feed_terminal:
  assumes "sp_shape s = Anthropic"
  shows "sp_shape (snd (splicer_feed f s)) = Anthropic
    \<and> sp_terminalSeen (snd (splicer_feed f s)) = (sp_terminalSeen s \<or> frame_event f = Msg_stop)"
proof (cases "f_comment f \<or> f_dataText f = None \<or> f_data f = None")
  case True
  then have "frame_event f = Other" by (auto simp: frame_event_def split: option.split)
  then show ?thesis using True assms by (auto simp: splicer_feed_def feedAnthropic_def)
next
  case False
  then obtain d where d: "\<not> f_comment f" "f_dataText f \<noteq> None" "f_data f = Some d" by auto
  note ev = frame_event_cases [OF d]
  have st: "frame_event f = Msg_stop \<longleftrightarrow> obj_type d = Some (lit ''message_stop'')"
    by (auto simp: ev obj_event_def Let_def with_int_def split: option.splits)
  have feed: "splicer_feed f s = feedAnthropic f s" using d assms by (auto simp: splicer_feed_def)
  have "sp_shape (snd (splice_block_start d s)) = Anthropic \<and> sp_terminalSeen (snd (splice_block_start d s)) = sp_terminalSeen s"
    using assms by (simp add: splice_block_start_def Let_def split_def snd_and_then)
  moreover have "sp_shape (snd (splice_delta d s)) = Anthropic \<and> sp_terminalSeen (snd (splice_delta d s)) = sp_terminalSeen s"
    using assms by (simp add: splice_delta_def split: option.split mapped.split)
  moreover have "sp_shape (snd (splice_block_stop d s)) = Anthropic \<and> sp_terminalSeen (snd (splice_block_stop d s)) = sp_terminalSeen s"
    using assms by (simp add: splice_block_stop_def snd_and_then split: option.split mapped.split)
  ultimately show ?thesis
    unfolding st feed using assms d(3) by (auto simp: feedAnthropic_def Let_def ev(2) snd_and_then)
qed

lemma feed_frames_terminal:
  "sp_shape s = Anthropic \<Longrightarrow>
     sp_terminalSeen (snd (feed_frames fs s)) = (sp_terminalSeen s \<or> Msg_stop \<in> set (map frame_event fs))"
  by (induction fs arbitrary: s) (auto simp: feed_frames_Cons feed_terminal)

lemma wire_step_flags:
  "wire_step e w = Some w' \<Longrightarrow> w_done w' = (w_done w \<or> e = Msg_stop) \<and> w_delta w' = (w_delta w \<or> e = Msg_delta)"
  by (auto simp: wire_step_def split: wire_event.splits if_splits)

lemma wire_run_flags:
  "wire_run es w = Some w' \<Longrightarrow>
     w_done w' = (w_done w \<or> Msg_stop \<in> set es) \<and> w_delta w' = (w_delta w \<or> Msg_delta \<in> set es)"
  by (induction es arbitrary: w) (auto split: option.splits dest: wire_step_flags)

text \<open>
  C23. A continued answer is one legal message. Let the upstream's frames be legal so far, and the guard find the
  stream continuable with no \<open>message_delta\<close> forwarded. Then whatever legal resume stream follows - its first
  visible block being text when the client has a text block open - the client, reading what was
  forwarded and what the splicer emits as one stream, never sees a protocol violation; and it is handed a
  finished message exactly when the resume delivered its own \<open>message_stop\<close>.
\<close>

theorem continued_stream_legal:
  assumes up: "wire_run (map frame_event (frames_of es)) fresh_wire = Some w"
    and run: "guard_events es Anthropic = (s, fwd)"
    and cont: "continuable s = Inr True" and nodelta: "Msg_delta \<notin> set (map frame_event fwd)"
    and new: "new_splicer s (textSoFar s) = Inr sp"
    and resume: "wire_run (map frame_event rs) fresh_wire = Some r"
    and first: "openType s = Inr (Some (lit ''text'')) \<Longrightarrow> first_visible rs \<in> {None, Some (lit ''text'')}"
  shows "\<exists>c. wire_run (map frame_event fwd @ map out_event (fst (feed_frames rs sp))) fresh_wire = Some c
    \<and> w_done c = w_done r \<and> w_done c = sp_terminalSeen (snd (feed_frames rs sp))"
proof -
  from guard_events_observe [OF observes_fresh up, of "[]"] run obtain c where
    c: "wire_run (map frame_event fwd) fresh_wire = Some c" "observes w c s"
    by (auto simp: guard_events_def)
  have live: "\<not> w_delta c" "\<not> w_done c" "w_started c"
    using wire_run_flags [OF c(1)] nodelta cont c(2)
    by (auto simp: fresh_wire_def continuable_def observes_def split: if_splits)
  note sp = new_splicer_rel [OF c(2) new live]
  have "text_next (w_delta fresh_wire) rs sp"
    using first sp(2,4) by (auto simp: text_next_def split: sum.splits)
  from feed_frames_legal [OF sp(1) resume this] obtain c' where
    c': "wire_run (map out_event (fst (feed_frames rs sp))) c = Some c'" "splice_rel r c' (snd (feed_frames rs sp))" by blast
  have "w_done c' = w_done r" using c'(2) by (simp add: splice_rel_def)
  moreover have "w_done r = sp_terminalSeen (snd (feed_frames rs sp))"
    using feed_frames_terminal [OF sp(6)] sp(5) wire_run_flags [OF resume] by (simp add: fresh_wire_def)
  ultimately show ?thesis using c(1) c'(1) by (auto simp: wire_run_append)
qed


text \<open>Frames for the examples: a type and the other fields of the data.\<close>

definition sample :: "string \<Rightarrow> jobject \<Rightarrow> sse_frame" where
  "sample ty d = \<lparr>f_raw = [], f_event = lit ty, f_data = Some ((lit ''type'', J_str (lit ty)) # d), f_dataText = Some [],
     f_comment = False\<rparr>"

definition sample_start :: "int \<Rightarrow> string \<Rightarrow> sse_frame" where
  "sample_start i ty = sample ''content_block_start''
     [(lit ''index'', J_num (of_int i)), (lit ''content_block'', J_obj [(lit ''type'', J_str (lit ty))])]"

definition sample_text :: "int \<Rightarrow> string \<Rightarrow> sse_frame" where
  "sample_text i t = sample ''content_block_delta''
     [(lit ''index'', J_num (of_int i)), (lit ''delta'', J_obj [(lit ''type'', J_str (lit ''text_delta'')), (lit ''text'', J_str (lit t))])]"

definition sample_stop :: "int \<Rightarrow> sse_frame" where
  "sample_stop i = sample ''content_block_stop'' [(lit ''index'', J_num (of_int i))]"

definition sample_primary :: "upstream_event list" where
  "sample_primary = [Frame (sample ''message_start'' []), Frame (sample_start 0 ''text''), Frame (sample_text 0 ''Hello wor'')]"

definition sample_resume :: "sse_frame list" where
  "sample_resume = [sample ''message_start'' [], sample_start 0 ''thinking'', sample_stop 0, sample_start 1 ''text'',
     sample_text 1 ''ld.'', sample_stop 1, sample ''message_delta'' [], sample ''message_stop'' []]"

definition sample_splicer :: splicer where
  "sample_splicer = (case new_splicer (fst (guard_events sample_primary Anthropic)) (lit ''Hello wor'') of
     Inr sp \<Rightarrow> sp | Inl _ \<Rightarrow> undefined)"

theorem continued_stream_legal_witness:
  "\<exists>c. wire_run (map frame_event (snd (guard_events sample_primary Anthropic))
      @ map out_event (fst (feed_frames sample_resume sample_splicer))) fresh_wire = Some c
    \<and> w_done c \<and> sp_terminalSeen (snd (feed_frames sample_resume sample_splicer))"
proof -
  define s where "s = fst (guard_events sample_primary Anthropic)"
  have up: "wire_run (map frame_event (frames_of sample_primary)) fresh_wire =
      Some \<lparr>w_started = True, w_open = Some 0, w_next = 1, w_delta = False, w_done = False\<rparr>" by code_simp
  have run: "guard_events sample_primary Anthropic = (s, snd (guard_events sample_primary Anthropic))" by (simp add: s_def)
  have cont: "continuable s = Inr True" unfolding s_def by code_simp
  have nodelta: "Msg_delta \<notin> set (map frame_event (snd (guard_events sample_primary Anthropic)))" by code_simp
  have part: "textSoFar s = lit ''Hello wor''" unfolding s_def by code_simp
  have new: "new_splicer s (textSoFar s) = Inr sample_splicer" unfolding part unfolding s_def by code_simp
  have resume: "wire_run (map frame_event sample_resume) fresh_wire =
      Some \<lparr>w_started = True, w_open = None, w_next = 2, w_delta = True, w_done = True\<rparr>" by code_simp
  have first: "first_visible sample_resume \<in> {None, Some (lit ''text'')}" by code_simp
  from continued_stream_legal [OF up run cont nodelta new resume] first show ?thesis by auto
qed

section \<open>A tool before the text\<close>

text \<open>
  The condition on the first visible block is needed. When the client has a text block open and the
  resume opens with a block that is neither text nor thinking, the splicer closes the client's block;
  the text block that follows is then still written into it: a delta for an index that is closed, which
  no client accepts.
\<close>

theorem closed_block_written:
  assumes sp: "control_ok s" "sp_clientOpenIdx s = i" "0 \<le> i" "sp_clientOpenType s = Some (lit ''text'')"
      "\<not> sp_firstTextMapped s" "\<not> sp_originalClosed s" "\<not> sp_holding s" "sp_hold s = []"
      "sp_nextIdx s = n" "i < n"
    and tool: "ty \<notin> {''text'', ''thinking'', ''redacted_thinking''}" and t: "t \<noteq> []"
  shows "map out_event (fst (feed_frames [sample_start 0 ty, sample_stop 0, sample_start 1 ''text'', sample_text 1 t] s)) =
      [Block_stop i, Block_start n, Block_stop n, Block_delta i]
    \<and> wire_run (map out_event (fst (feed_frames [sample_start 0 ty, sample_stop 0, sample_start 1 ''text'', sample_text 1 t] s))) c = None"
proof -
  note defs = splicer_feed_def feedAnthropic_def sample_start_def sample_stop_def sample_text_def sample_def frame_type_def
    jprop_def str_of_def num_of_def Let_def
  have sh: "sp_shape s = Anthropic" "sp_continuingIdx s = -1" "\<not> sp_continuingClosed s"
    using sp(1,5) by (simp_all add: control_ok_def)
  define s1 where "s1 = s\<lparr>sp_idxMap := AList.update (Some 0) (To n) (sp_idxMap s), sp_nextIdx := n + 1, sp_originalClosed := True\<rparr>"
  define d where "d = (lit ''type'', J_str (lit ''content_block_start''))
      # [(lit ''index'', J_num (of_int 0)), (lit ''content_block'', J_obj [(lit ''type'', J_str (lit ty))])]"
  have q: "releaseHold b u = ([], u)" if "\<not> sp_holding u" "sp_hold u = []" for b u
    using that by (simp add: releaseHold_def keeps_holding_def)
  have one: "splicer_feed (sample_start 0 ty) s =
      ([Event ''content_block_stop'' (index_obj i), Event ''content_block_start'' (with_index n d)], s1)"
    using sp sh tool
    by (simp add: defs splice_block_start_def index_of_event_def block_type_of_def is_thinking_def d_def
        and_then_def q map_index_def closeContinuing_def closeOriginal_def emit_one_def s1_def)
  define d2 where "d2 = [(lit ''type'', J_str (lit ''content_block_stop'')), (lit ''index'', J_num 0)]"
  have two: "splicer_feed (sample_stop 0) s1 = ([Event ''content_block_stop'' (with_index n d2)], s1)"
    using sp sh
    by (simp add: defs splice_block_stop_def index_of_event_def s1_def update_conv' d2_def)
  define s2 where "s2 = s1\<lparr>sp_firstTextMapped := True, sp_continuingIdx := i, sp_idxMap := AList.update (Some 1) (To i) (sp_idxMap s1)\<rparr>"
  have three: "splicer_feed (sample_start 1 ''text'') s1 = ([], s2)"
    using sp sh
    by (simp add: defs splice_block_start_def index_of_event_def block_type_of_def is_thinking_def map_index_def s2_def s1_def)
  have four: "fst (splicer_feed (sample_text 1 t) s2) = [Event ''content_block_delta'' (text_delta_obj i (lit t))]"
    using sp sh t
    by (simp add: defs splice_delta_def index_of_event_def delta_text_def s2_def s1_def update_conv' releaseHold_def
        keeps_holding_def lit_def)
  have "obj_type d = Some (lit ''content_block_start'')" "obj_type d2 = Some (lit ''content_block_stop'')"
    by (simp_all add: d_def d2_def obj_type_def str_of_def)
  then have ev: "map out_event (fst (feed_frames [sample_start 0 ty, sample_stop 0, sample_start 1 ''text'', sample_text 1 t] s)) =
      [Block_stop i, Block_start n, Block_stop n, Block_delta i]"
    by (auto simp: feed_frames_Cons one two three four out_event_start out_event_block_stop)
  then show ?thesis using sp by (auto simp: wire_step_def)
qed

theorem closed_block_written_witness:
  "\<exists>s. new_splicer (fst (guard_events [Frame (sample ''message_start'' []), Frame (sample_start 0 ''text'')] Anthropic)) [] = Inr s
    \<and> map out_event (fst (feed_frames [sample_start 0 ''server_tool_use'', sample_stop 0, sample_start 1 ''text'', sample_text 1 ''Hi''] s))
        = [Block_stop 0, Block_start 1, Block_stop 1, Block_delta 0]"
proof -
  define s where "s = \<lparr>sp_shape = Anthropic, sp_partial = [], sp_clientOpenIdx = 0, sp_clientOpenType = Some (lit ''text''),
    sp_idxMap = [], sp_nextIdx = 1, sp_originalClosed = False, sp_continuingClosed = False,
    sp_firstTextMapped = False, sp_continuingIdx = -1, sp_hold = [], sp_holding = False, sp_stopReasonSeen = False,
    sp_doneSeen = False, sp_terminalSeen = False, sp_anchor = NA, sp_dropped = 0, sp_emitted = 0, sp_resumeModel = None\<rparr>"
  have "new_splicer (fst (guard_events [Frame (sample ''message_start'' []), Frame (sample_start 0 ''text'')] Anthropic)) [] = Inr s"
    unfolding s_def by code_simp
  moreover have "control_ok s" by (simp add: s_def control_ok_def)
  moreover note closed_block_written [of s 0 1 "''server_tool_use''" "''Hi''"]
  ultimately show ?thesis by (auto simp: s_def)
qed

end
