(* ===== verification/Midstream_Guard.thy ===== *)
theory Midstream_Guard
  imports Continuation
begin

text \<open>
  The guard a streaming site talks to (\<open>MidstreamGuard\<close> of \<open>midstream.ts\<close>). What the outside does is an
  environment: the target of each choice (a rejected promise is no target), the client's body, and the
  reply to the loopback request, which is refused, fails, or is a body of chunks that ends, is left by
  the client, or breaks. The client is the list of texts written to it. Log lines are not modelled.
\<close>

section \<open>Headers of a continuation\<close>

definition MAX_CONTINUATION_DEPTH :: nat where
  "MAX_CONTINUATION_DEPTH = 2"

text \<open>A header that may have been sent more than once.\<close>

definition continuationDepth :: "string list option \<Rightarrow> int" where
  "continuationDepth v =
     (case opt_list v of
        [] \<Rightarrow> 0
      | s # _ \<Rightarrow> (case parse_int10 s of Some n \<Rightarrow> (if n > 0 then n else 1) | None \<Rightarrow> 1))"

definition continuationOfRequest :: "string list option \<Rightarrow> int option" where
  "continuationOfRequest v =
     (case opt_list v of
        [] \<Rightarrow> None
      | s # _ \<Rightarrow> (case parse_int10 s of Some n \<Rightarrow> (if n \<ge> 0 then Some n else None) | None \<Rightarrow> None))"

definition loopback_host :: "string \<Rightarrow> string" where
  "loopback_host host =
     (let h = to_lower (trim host)
      in if h \<in> {'''', ''0.0.0.0'', ''127.0.0.1'', ''localhost''} then ''127.0.0.1''
         else if h = ''::'' \<or> h = ''::1'' then ''[::1]''
         else if has_sub h '':'' then ''['' @ h @ '']''
         else h)"

section \<open>State and environment\<close>

datatype finish_outcome =
    Clean | Continued | Continued_unfinished | Ended | Not_continuable | No_target | Resume_failed

record target =
  tg_model :: utext
  tg_label :: utext

datatype body_end = Eof | Client_left | Broke

datatype resume_reply =
    Refused
  | Threw
  | Body "utext list" body_end

record outside =
  out_clientGone :: bool
  out_resolve :: "nat \<Rightarrow> target option"
  out_clientBody :: "jobject option"
  out_fetch :: "nat \<Rightarrow> jobject \<Rightarrow> resume_reply"
  out_words :: notice_words
  out_parse :: "utext \<Rightarrow> jvalue option"
  out_print :: "jvalue \<Rightarrow> utext"
  out_now :: int

record guard_state =
  mg_state :: client_state
  mg_buf :: utext
  mg_finished :: bool
  mg_depth :: nat
  mg_resume :: bool
  mg_sent :: "utext list"
  mg_ended :: bool
  mg_outcome :: "finish_outcome option"
  mg_continuedBy :: "utext option"
  mg_partialChars :: nat

definition new_midstream_guard :: "wire_shape \<Rightarrow> nat \<Rightarrow> bool \<Rightarrow> guard_state" where
  "new_midstream_guard shape depth resume =
     \<lparr>mg_state = new_client_state shape, mg_buf = [], mg_finished = False, mg_depth = depth, mg_resume = resume,
      mg_sent = [], mg_ended = False, mg_outcome = None, mg_continuedBy = None, mg_partialChars = 0\<rparr>"

definition send :: "utext list \<Rightarrow> guard_state \<Rightarrow> guard_state" where
  "send ts g = g\<lparr>mg_sent := mg_sent g @ ts\<rparr>"

definition end_response :: "guard_state \<Rightarrow> guard_state" where
  "end_response g = g\<lparr>mg_ended := True\<rparr>"

section \<open>Writing\<close>

definition guard_mark_failed :: "guard_state \<Rightarrow> guard_state" where
  "guard_mark_failed g = g\<lparr>mg_state := markUpstreamFailed (mg_state g)\<rparr>"

definition guard_forward :: "guard_state \<Rightarrow> sse_frame \<Rightarrow> guard_state" where
  "guard_forward g f =
     (let (forward, s) = observe f (mg_state g)
      in (if forward then send [f_raw f] else id) (g\<lparr>mg_state := s\<rparr>))"

definition guard_write :: "(utext \<Rightarrow> jvalue option) \<Rightarrow> utext \<Rightarrow> guard_state \<Rightarrow> guard_state" where
  "guard_write json_parse chunk g =
     (if mg_finished g then g
      else
        let (fs, left) = splitter_feed json_parse (mg_buf g) chunk
        in foldl guard_forward (g\<lparr>mg_buf := left\<rparr>) fs)"

section \<open>Reading the resume\<close>

definition is_error_frame :: "sse_frame \<Rightarrow> bool" where
  "is_error_frame f \<longleftrightarrow> f_data f \<noteq> None \<and> (frame_type f = Some (lit ''error'') \<or> js_truthy (field f ''error''))"

text \<open>What has been read of a resume: the frames emitted, the splicer and the error that ended it.\<close>

record resume_run =
  rr_out :: "out_frame list"
  rr_splicer :: splicer
  rr_error :: "sse_frame option"

fun resume_frames :: "sse_frame list \<Rightarrow> out_frame list \<Rightarrow> splicer \<Rightarrow> resume_run" where
  "resume_frames [] out sp = \<lparr>rr_out = out, rr_splicer = sp, rr_error = None\<rparr>"
| "resume_frames (f # fs) out sp =
     (if is_error_frame f then \<lparr>rr_out = out, rr_splicer = sp, rr_error = Some f\<rparr>
      else let (o1, sp1) = splicer_feed f sp in resume_frames fs (out @ o1) sp1)"

fun resume_chunks :: "(utext \<Rightarrow> jvalue option) \<Rightarrow> utext list \<Rightarrow> utext \<Rightarrow> out_frame list \<Rightarrow> splicer \<Rightarrow> resume_run" where
  "resume_chunks json_parse [] buf out sp = \<lparr>rr_out = out, rr_splicer = sp, rr_error = None\<rparr>"
| "resume_chunks json_parse (c # cs) buf out sp =
     (let (fs, left) = splitter_feed json_parse buf c;
          r = resume_frames fs out sp
      in if rr_error r = None then resume_chunks json_parse cs left (rr_out r) (rr_splicer r) else r)"

section \<open>One choice\<close>

definition seam_comment :: "utext \<Rightarrow> nat \<Rightarrow> utext" where
  "seam_comment label n = SEAM_COMMENT_PREFIX @ [32] @ label @ lit '' after '' @ decimal n @ lit '' chars'' @ [10, 10]"

datatype leg_outcome = Failed_leg | Finished_leg | Unfinished_leg

definition wires :: "outside \<Rightarrow> out_frame list \<Rightarrow> utext list" where
  "wires w fs = map (frame_wire (out_print w) (out_now w)) fs"

text \<open>The reply once its body is read; \<open>sawContent\<close> is that a frame was emitted.\<close>

definition after_body :: "outside \<Rightarrow> body_end \<Rightarrow> resume_run \<Rightarrow> leg_outcome \<times> utext list" where
  "after_body w e r =
     (case rr_error r of
        Some f \<Rightarrow> (if rr_out r = [] then (Failed_leg, []) else (Unfinished_leg, wires w (rr_out r) @ [f_raw f]))
      | None \<Rightarrow>
          if e = Broke then (Failed_leg, wires w (rr_out r))
          else if sp_terminalSeen (rr_splicer r) then (Finished_leg, wires w (rr_out r))
          else
            let rest = fst (abandon (rr_splicer r))
            in (if rr_out r = [] \<and> rest = [] then Failed_leg else Unfinished_leg, wires w (rr_out r @ rest)))"

definition continueFrom :: "outside \<Rightarrow> nat \<Rightarrow> target \<Rightarrow> utext \<Rightarrow> guard_state \<Rightarrow> js_error + leg_outcome \<times> guard_state" where
  "continueFrom w choice tg partial g =
     (case out_clientBody w of
        None \<Rightarrow> Inr (Failed_leg, g)
      | Some client_body \<Rightarrow>
          (case new_splicer (mg_state g) partial of
             Inl e \<Rightarrow> Inl e
           | Inr sp \<Rightarrow>
               (case out_fetch w choice (buildResumeBody (out_words w) (cs_shape (mg_state g)) client_body (tg_model tg) partial) of
                  Refused \<Rightarrow> Inr (Failed_leg, g)
                | Threw \<Rightarrow> Inr (Failed_leg, g)
                | Body chunks e \<Rightarrow>
                    let (leg, ts) = after_body w e (resume_chunks (out_parse w) chunks [] [] sp)
                    in Inr (leg, send (seam_comment (tg_label tg) (length partial) # ts) g))))"

section \<open>The end of the stream\<close>

definition clean_end :: "utext \<Rightarrow> guard_state \<Rightarrow> guard_state" where
  "clean_end tail g =
     end_response (send ((if tail = [] then [] else [tail]) @ map f_raw (cs_withheld (mg_state g))) g)"

text \<open>The loop over the choices; \<open>tried\<close> counts those with a target.\<close>

fun try_choices :: "outside \<Rightarrow> utext \<Rightarrow> utext \<Rightarrow> nat list \<Rightarrow> nat \<Rightarrow> guard_state \<Rightarrow> js_error + finish_outcome \<times> guard_state" where
  "try_choices w tail partial [] tried g =
     (let oc = (if tried = 0 then No_target else Resume_failed) in Inr (oc, (clean_end tail g)\<lparr>mg_outcome := Some oc\<rparr>))"
| "try_choices w tail partial (choice # cs) tried g =
     (case out_resolve w choice of
        None \<Rightarrow> try_choices w tail partial cs tried g
      | Some tg \<Rightarrow>
          (case continueFrom w choice tg partial g of
             Inl e \<Rightarrow> Inl e
           | Inr (leg, g1) \<Rightarrow>
               (if leg = Failed_leg then try_choices w tail partial cs (tried + 1) g1
                else
                  let oc = (if leg = Finished_leg then Continued else Continued_unfinished)
                  in Inr (oc, (end_response g1)\<lparr>mg_continuedBy := Some (tg_label tg), mg_outcome := Some oc\<rparr>))))"

definition guard_choices :: "guard_state \<Rightarrow> nat list" where
  "guard_choices g = [Suc (mg_depth g)..<Suc MAX_CONTINUATION_DEPTH]"

definition guard_finish :: "outside \<Rightarrow> guard_state \<Rightarrow> js_error + finish_outcome \<times> guard_state" where
  "guard_finish w g =
     (if mg_finished g then Inr (Ended, g)
      else
        let s = mg_state g;
            (tail, buf) = splitter_flush (mg_buf g);
            g = g\<lparr>mg_finished := True, mg_buf := buf\<rparr>
        in if cs_finished s \<or> \<not> cs_started s then Inr (if cs_finished s then Clean else Ended, clean_end tail g)
           else if out_clientGone w then Inr (Ended, end_response g)
           else (case continuable s of
                   Inl e \<Rightarrow> Inl e
                 | Inr ok \<Rightarrow>
                     if \<not> ok \<or> \<not> mg_resume g then Inr (Not_continuable, clean_end tail g)
                     else
                       let partial = textSoFar s
                       in try_choices w tail partial (guard_choices g) 0 (g\<lparr>mg_partialChars := length partial\<rparr>)))"

section \<open>Reading chunks is reading frames\<close>

lemma resume_frames_append:
  "resume_frames (fs @ gs) out sp =
     (let r = resume_frames fs out sp in if rr_error r = None then resume_frames gs (rr_out r) (rr_splicer r) else r)"
  by (induction fs arbitrary: out sp) (simp_all add: Let_def split_def)

lemma resume_chunks_frames:
  "cut_frame buf = None \<Longrightarrow>
     resume_chunks jp cs buf out sp = resume_frames (fst (splitter_feed jp buf (concat cs))) out sp"
proof (induction cs arbitrary: buf out sp)
  case Nil
  then show ?case by (simp add: splitter_feed_def split_frames_None)
next
  case (Cons c cs)
  have "cut_frame (snd (splitter_feed jp buf c)) = None"
    using frame_reader.split_rest [of "buf @ c"] by (simp add: splitter_feed_def Let_def split_def)
  from Cons.IH [OF this] show ?case
    by (simp add: splitter_feed_split resume_frames_append Let_def split_def)
qed

lemma resume_frames_feed:
  "\<forall>f \<in> set fs. \<not> is_error_frame f \<Longrightarrow>
     resume_frames fs out sp = \<lparr>rr_out = out @ fst (feed_frames fs sp), rr_splicer = snd (feed_frames fs sp), rr_error = None\<rparr>"
  by (induction fs arbitrary: out sp) (simp_all add: feed_frames_Cons Let_def split_def)

section \<open>What finishing does\<close>

lemma send_simps [simp]:
  "mg_sent (send ts g) = mg_sent g @ ts" "mg_state (send ts g) = mg_state g" "mg_finished (send ts g) = mg_finished g"
  "mg_ended (send ts g) = mg_ended g" "mg_depth (send ts g) = mg_depth g" "mg_resume (send ts g) = mg_resume g"
  by (simp_all add: send_def)

lemma end_response_simps [simp]:
  "mg_sent (end_response g) = mg_sent g" "mg_state (end_response g) = mg_state g" "mg_finished (end_response g) = mg_finished g"
  "mg_ended (end_response g)"
  by (simp_all add: end_response_def)

lemma clean_end_simps [simp]:
  "mg_sent (clean_end tail g) = mg_sent g @ (if tail = [] then [] else [tail]) @ map f_raw (cs_withheld (mg_state g))"
  "mg_state (clean_end tail g) = mg_state g" "mg_finished (clean_end tail g) = mg_finished g" "mg_ended (clean_end tail g)"
  by (simp_all add: clean_end_def)

lemma continueFrom_keeps:
  assumes "continueFrom w choice tg partial g = Inr (leg, g1)"
  shows "mg_state g1 = mg_state g \<and> mg_finished g1 = mg_finished g \<and> (\<exists>ts. mg_sent g1 = mg_sent g @ ts)"
  using assms by (auto simp: continueFrom_def Let_def split_def split: option.splits sum.splits resume_reply.splits)

lemma try_choices_ends:
  assumes "try_choices w tail partial cs tried g = Inr (oc, g1)"
  shows "mg_ended g1 \<and> mg_finished g1 = mg_finished g \<and> (\<exists>ts. mg_sent g1 = mg_sent g @ ts)"
  using assms
proof (induction cs arbitrary: tried g)
  case Nil
  then show ?case by (auto simp: Let_def)
next
  case (Cons choice cs)
  show ?case
  proof (cases "out_resolve w choice")
    case None
    with Cons show ?thesis by simp
  next
    case (Some tg)
    with Cons.prems obtain leg g2 where c: "continueFrom w choice tg partial g = Inr (leg, g2)"
      by (auto split: sum.splits)
    note keeps = continueFrom_keeps [OF c]
    show ?thesis
    proof (cases "leg = Failed_leg")
      case True
      with Cons.prems Some c have "try_choices w tail partial cs (tried + 1) g2 = Inr (oc, g1)" by simp
      from Cons.IH [OF this] keeps show ?thesis by auto
    next
      case False
      with Cons.prems Some c keeps show ?thesis by (auto simp: Let_def)
    qed
  qed
qed

text \<open>
  The client's stream is ended exactly once. A \<open>finish\<close> that returns has ended the response and kept
  everything the client had been sent before; a second \<open>finish\<close> and any later write change nothing.
\<close>

theorem finish_ends_once:
  assumes "guard_finish w g = Inr (oc, g1)" and "\<not> mg_finished g"
  shows "mg_ended g1 \<and> (\<exists>ts. mg_sent g1 = mg_sent g @ ts) \<and> guard_finish w2 g1 = Inr (Ended, g1) \<and> guard_write jp chunk g1 = g1"
proof -
  have "mg_ended g1 \<and> mg_finished g1 \<and> (\<exists>ts. mg_sent g1 = mg_sent g @ ts)"
    using assms
    by (auto simp: guard_finish_def Let_def splitter_flush_def split: if_splits sum.splits dest!: try_choices_ends)
  then show ?thesis by (simp add: guard_finish_def guard_write_def)
qed

text \<open>What the choices before the one that delivered have left with the client.\<close>

definition only_comments :: "utext list \<Rightarrow> bool" where
  "only_comments ts \<longleftrightarrow> (\<forall>t \<in> set ts. has_prefix t SEAM_COMMENT_PREFIX)"

lemma seam_comment_prefix [simp]: "has_prefix (seam_comment label n) SEAM_COMMENT_PREFIX"
  by (simp add: seam_comment_def has_prefix_iff)

definition breaks :: "outside \<Rightarrow> bool" where
  "breaks w \<longleftrightarrow> (\<exists>choice body chunks. out_fetch w choice body = Body chunks Broke)"

lemma failed_leg_silent:
  assumes "continueFrom w choice tg partial g = Inr (Failed_leg, g1)" and "\<not> breaks w"
  shows "mg_state g1 = mg_state g \<and> (\<exists>ts. mg_sent g1 = mg_sent g @ ts \<and> only_comments ts)"
proof -
  have ab: "ts = []" if "after_body w e r = (Failed_leg, ts)" "e \<noteq> Broke" for e r ts
    using that by (auto simp: after_body_def Let_def wires_def split: option.splits if_splits)
  show ?thesis
    using assms continueFrom_keeps [OF assms(1)]
    by (auto simp: continueFrom_def Let_def only_comments_def breaks_def split: option.splits sum.splits
        resume_reply.splits prod.splits dest!: ab)
qed

definition delivers :: "outside \<Rightarrow> nat \<Rightarrow> utext \<Rightarrow> client_state \<Rightarrow> finish_outcome \<Rightarrow> utext list \<Rightarrow> bool" where
  "delivers w choice partial s oc ts \<longleftrightarrow>
     (\<exists>tg sp body chunks e. out_resolve w choice = Some tg \<and> new_splicer s partial = Inr sp
        \<and> out_fetch w choice body = Body chunks e
        \<and> (let r = resume_chunks (out_parse w) chunks [] [] sp
           in ts = seam_comment (tg_label tg) (length partial) # snd (after_body w e r)
              \<and> (oc = Continued \<longleftrightarrow> rr_error r = None \<and> sp_terminalSeen (rr_splicer r))))"

lemma leg_delivers:
  assumes "continueFrom w choice tg partial g = Inr (leg, g1)" and "leg \<noteq> Failed_leg" and "out_resolve w choice = Some tg"
    and "oc = (if leg = Finished_leg then Continued else Continued_unfinished)"
  shows "\<exists>ts. mg_sent g1 = mg_sent g @ ts \<and> delivers w choice partial (mg_state g) oc ts"
proof -
  from assms(1,2) obtain cb sp chunks e where
    b: "out_clientBody w = Some cb" "new_splicer (mg_state g) partial = Inr sp"
      "out_fetch w choice (buildResumeBody (out_words w) (cs_shape (mg_state g)) cb (tg_model tg) partial) = Body chunks e"
    by (auto simp: continueFrom_def split: option.splits sum.splits resume_reply.splits)
  define r where "r = resume_chunks (out_parse w) chunks [] [] sp"
  have leg: "leg = fst (after_body w e r)"
    "mg_sent g1 = mg_sent g @ seam_comment (tg_label tg) (length partial) # snd (after_body w e r)"
    using assms(1) by (auto simp: continueFrom_def b r_def Let_def split_def)
  have "oc = Continued \<longleftrightarrow> rr_error r = None \<and> sp_terminalSeen (rr_splicer r)"
    using assms(2,4) by (auto simp: leg(1) after_body_def Let_def split: option.splits if_splits)
  then have "delivers w choice partial (mg_state g) oc (seam_comment (tg_label tg) (length partial) # snd (after_body w e r))"
    unfolding delivers_def using b assms(3) r_def by (auto simp: Let_def)
  then show ?thesis using leg(2) by blast
qed

lemma try_choices_trace:
  assumes "try_choices w tail partial cs tried g = Inr (oc, g1)" and "\<not> breaks w"
  shows "\<exists>pre. only_comments pre \<and>
    (if oc = No_target \<or> oc = Resume_failed
     then mg_sent g1 = mg_sent g @ pre @ (if tail = [] then [] else [tail]) @ map f_raw (cs_withheld (mg_state g))
     else \<exists>choice ts. choice \<in> set cs \<and> delivers w choice partial (mg_state g) oc ts \<and> mg_sent g1 = mg_sent g @ pre @ ts)"
  using assms(1)
proof (induction cs arbitrary: tried g)
  case Nil
  then show ?case by (cases "tried = 0") (auto simp: Let_def only_comments_def intro!: exI [of _ "[]"])
next
  case (Cons choice cs)
  show ?case
  proof (cases "out_resolve w choice")
    case None
    with Cons have "try_choices w tail partial cs tried g = Inr (oc, g1)" by simp
    from Cons.IH [OF this] show ?thesis by (auto split: if_splits)
  next
    case (Some tg)
    with Cons.prems obtain leg g2 where c: "continueFrom w choice tg partial g = Inr (leg, g2)"
      by (auto split: sum.splits)
    show ?thesis
    proof (cases "leg = Failed_leg")
      case True
      from failed_leg_silent [OF c [unfolded True] assms(2)] obtain ts where
        ts: "mg_state g2 = mg_state g" "mg_sent g2 = mg_sent g @ ts" "only_comments ts" by blast
      from Cons.prems Some c True have "try_choices w tail partial cs (tried + 1) g2 = Inr (oc, g1)" by simp
      from Cons.IH [OF this] obtain pre where pre: "only_comments pre"
        "if oc = No_target \<or> oc = Resume_failed
         then mg_sent g1 = mg_sent g2 @ pre @ (if tail = [] then [] else [tail]) @ map f_raw (cs_withheld (mg_state g2))
         else \<exists>choice ts. choice \<in> set cs \<and> delivers w choice partial (mg_state g2) oc ts \<and> mg_sent g1 = mg_sent g2 @ pre @ ts"
        by blast
      have "only_comments (ts @ pre)" using ts(3) pre(1) by (auto simp: only_comments_def)
      with pre(2) show ?thesis unfolding ts(1,2) by (intro exI [of _ "ts @ pre"]) (auto split: if_splits)
    next
      case False
      define oc1 where "oc1 = (if leg = Finished_leg then Continued else Continued_unfinished)"
      from Cons.prems Some c False have g1: "oc = oc1" "mg_sent g1 = mg_sent g2" by (auto simp: Let_def oc1_def)
      from leg_delivers [OF c False Some oc1_def] obtain ts where
        "mg_sent g2 = mg_sent g @ ts" "delivers w choice partial (mg_state g) oc1 ts" by blast
      moreover have "\<not> (oc1 = No_target \<or> oc1 = Resume_failed)" by (simp add: oc1_def)
      ultimately show ?thesis unfolding g1 by (intro exI [of _ "[]"]) (auto simp: only_comments_def)
    qed
  qed
qed

text \<open>
  C33. Choices that deliver nothing leave nothing. When no resume body breaks off, finishing adds to the
  client's stream, after comments no parser reads, either exactly what the one delivering choice emitted -
  and the outcome is \<open>continued\<close> exactly when that resume brought its own terminal event without an error -
  or, when none delivered, exactly the buffered tail and the withheld frames the client would have got
  without the guard; a client that left gets nothing. A choice is never below the guard's depth nor above
  the limit.
\<close>

theorem finish_delivers_one:
  assumes fin: "guard_finish w g = Inr (oc, g1)" and live: "\<not> mg_finished g" and whole: "\<not> breaks w"
  shows "\<exists>pre. only_comments pre \<and>
    (if oc = Continued \<or> oc = Continued_unfinished
     then \<exists>choice ts. mg_depth g < choice \<and> choice \<le> MAX_CONTINUATION_DEPTH
        \<and> delivers w choice (textSoFar (mg_state g)) (mg_state g) oc ts \<and> mg_sent g1 = mg_sent g @ pre @ ts
     else mg_sent g1 = mg_sent g @ pre @ (if mg_buf g = [] then [] else [mg_buf g]) @ map f_raw (cs_withheld (mg_state g))
        \<or> out_clientGone w \<and> mg_sent g1 = mg_sent g)"
proof -
  let ?s = "mg_state g"
  let ?p = "textSoFar ?s"
  define g0 where "g0 = g\<lparr>mg_finished := True, mg_buf := [], mg_partialChars := length ?p\<rparr>"
  consider (tried) "try_choices w (mg_buf g) ?p (guard_choices g0) 0 g0 = Inr (oc, g1)"
    | (plain) "oc \<noteq> Continued" "oc \<noteq> Continued_unfinished"
        "mg_sent g1 = mg_sent g @ (if mg_buf g = [] then [] else [mg_buf g]) @ map f_raw (cs_withheld ?s)
         \<or> out_clientGone w \<and> mg_sent g1 = mg_sent g"
    using fin live by (auto simp: guard_finish_def Let_def splitter_flush_def g0_def guard_choices_def split: if_splits sum.splits)
  then show ?thesis
  proof cases
    case plain
    then show ?thesis by (intro exI [of _ "[]"]) (auto simp: only_comments_def)
  next
    case tried
    have g0: "mg_state g0 = ?s" "mg_sent g0 = mg_sent g" "\<And>c. c \<in> set (guard_choices g0) \<longleftrightarrow> mg_depth g < c \<and> c \<le> MAX_CONTINUATION_DEPTH"
      by (auto simp: g0_def guard_choices_def)
    have oc: "oc = No_target \<or> oc = Resume_failed \<longleftrightarrow> \<not> (oc = Continued \<or> oc = Continued_unfinished)"
      if "try_choices w t p cs n h = Inr (oc, g1)" for t p cs n h
      using that
    proof (induction cs arbitrary: n h)
      case (Cons c cs)
      then show ?case by (auto simp: Let_def split: option.splits sum.splits if_splits prod.splits)
    qed (auto simp: Let_def split: if_splits)
    from try_choices_trace [OF tried whole, unfolded g0 oc [OF tried]] show ?thesis
      by (auto split: if_splits)
  qed
qed

section \<open>A resume that breaks\<close>

text \<open>
  A resume that breaks off is served again from the start. When the read of the first choice's body fails
  after frames of it were written to the client, the second choice is asked with the same partial answer
  and spliced from the same state: the client receives the frames of both resumes.
\<close>

theorem broken_resume_repeats:
  assumes new: "new_splicer (mg_state g) partial = Inr sp" and cb: "out_clientBody w = Some cb"
    and targets: "out_resolve w 1 = Some t1" "out_resolve w 2 = Some t2"
    and one: "out_fetch w 1 (buildResumeBody (out_words w) (cs_shape (mg_state g)) cb (tg_model t1) partial) = Body ch1 Broke"
      "r1 = resume_chunks (out_parse w) ch1 [] [] sp" "rr_error r1 = None"
    and two: "out_fetch w 2 (buildResumeBody (out_words w) (cs_shape (mg_state g)) cb (tg_model t2) partial) = Body ch2 Eof"
      "r2 = resume_chunks (out_parse w) ch2 [] [] sp" "rr_error r2 = None" "sp_terminalSeen (rr_splicer r2)"
  shows "\<exists>g1. try_choices w tail partial [1, 2] 0 g = Inr (Continued, g1)
    \<and> mg_sent g1 = mg_sent g @ seam_comment (tg_label t1) (length partial) # wires w (rr_out r1)
        @ seam_comment (tg_label t2) (length partial) # wires w (rr_out r2)"
proof -
  define g2 where "g2 = send (seam_comment (tg_label t1) (length partial) # wires w (rr_out r1)) g"
  have "continueFrom w 1 t1 partial g = Inr (Failed_leg, g2)"
    using one by (simp add: continueFrom_def cb new after_body_def g2_def)
  moreover have "continueFrom w 2 t2 partial g2 =
      Inr (Finished_leg, send (seam_comment (tg_label t2) (length partial) # wires w (rr_out r2)) g2)"
    using two new by (simp add: continueFrom_def cb after_body_def g2_def)
  ultimately show ?thesis by (simp add: targets Let_def del: One_nat_def) (simp add: g2_def)
qed

definition sample_outside :: outside where
  "sample_outside =
     \<lparr>out_clientGone = False, out_resolve = (\<lambda>_. Some \<lparr>tg_model = lit ''m'', tg_label = lit ''m''\<rparr>), out_clientBody = Some [],
      out_fetch = (\<lambda>c _. if c = 1 then Body [lit ''data: 1'' @ [10, 10]] Broke
                          else Body [lit ''data: 1'' @ [10, 10], lit ''data: [DONE]'' @ [10, 10]] Eof),
      out_words = \<lparr>nw_nothing = [], nw_before = [], nw_after = []\<rparr>,
      out_parse = (\<lambda>t. if t = lit ''1'' then
          Some (J_obj [(lit ''choices'', J_arr [J_obj [(lit ''delta'', J_obj [(lit ''content'', J_str (lit ''Hi''))])]])]) else None),
      out_print = (\<lambda>_. []), out_now = 0\<rparr>"

definition sample_guard :: guard_state where
  "sample_guard = (new_midstream_guard OpenAI 0 True)\<lparr>mg_state := (new_client_state OpenAI)\<lparr>cs_started := True\<rparr>\<rparr>"

definition sample_openai_splicer :: splicer where
  "sample_openai_splicer = \<lparr>sp_shape = OpenAI, sp_partial = [], sp_clientOpenIdx = -1, sp_clientOpenType = None,
    sp_idxMap = [], sp_nextIdx = 0, sp_originalClosed = False, sp_continuingClosed = False,
    sp_firstTextMapped = False, sp_continuingIdx = -1, sp_hold = [], sp_holding = False, sp_stopReasonSeen = False,
    sp_doneSeen = False, sp_terminalSeen = False, sp_anchor = NA, sp_dropped = 0, sp_emitted = 0, sp_resumeModel = None\<rparr>"

theorem broken_resume_repeats_witness:
  "\<exists>g1 rest. try_choices sample_outside [] [] [1, 2] 0 sample_guard = Inr (Continued, g1)
    \<and> mg_sent g1 = seam_comment (lit ''m'') 0 # wires sample_outside [Chunk [(lit ''content'', J_str (lit ''Hi''))] None]
       @ seam_comment (lit ''m'') 0 # wires sample_outside ([Chunk [(lit ''content'', J_str (lit ''Hi''))] None] @ rest)"
proof -
  let ?t = "\<lparr>tg_model = lit ''m'', tg_label = lit ''m''\<rparr>"
  have new: "new_splicer (mg_state sample_guard) [] = Inr sample_openai_splicer" by code_simp
  have res: "out_resolve sample_outside n = Some ?t" and cb: "out_clientBody sample_outside = Some []" for n
    by (simp_all add: sample_outside_def)
  have fetch: "out_fetch sample_outside 1 b = Body [lit ''data: 1'' @ [10, 10]] Broke"
    "out_fetch sample_outside 2 b = Body [lit ''data: 1'' @ [10, 10], lit ''data: [DONE]'' @ [10, 10]] Eof" for b
    by (simp_all add: sample_outside_def)
  define r1 where "r1 = resume_chunks (out_parse sample_outside) [lit ''data: 1'' @ [10, 10]] [] [] sample_openai_splicer"
  define r2 where "r2 = resume_chunks (out_parse sample_outside) [lit ''data: 1'' @ [10, 10], lit ''data: [DONE]'' @ [10, 10]] [] [] sample_openai_splicer"
  have one: "rr_error r1 = None" "rr_out r1 = [Chunk [(lit ''content'', J_str (lit ''Hi''))] None]"
    unfolding r1_def by code_simp+
  have two: "rr_error r2 = None" "sp_terminalSeen (rr_splicer r2)"
    "rr_out r2 = [Chunk [(lit ''content'', J_str (lit ''Hi''))] None] @ tl (rr_out r2)"
    unfolding r2_def by code_simp+
  have sent: "mg_sent sample_guard = []" by (simp add: sample_guard_def new_midstream_guard_def)
  from broken_resume_repeats [OF new cb res res fetch(1) r1_def one(1) fetch(2) r2_def two(1,2), of "[]"] one(2) two(3) sent
  show ?thesis by (metis append_Nil list.size(3) target.select_convs(2))
qed

definition sample_whole :: outside where
  "sample_whole = sample_outside\<lparr>out_fetch := (\<lambda>_ _. Body [lit ''data: 1'' @ [10, 10], lit ''data: [DONE]'' @ [10, 10]] Eof)\<rparr>"

definition sample_finished :: guard_state where
  "sample_finished = (case guard_finish sample_whole sample_guard of Inr (oc, g) \<Rightarrow> g | Inl _ \<Rightarrow> sample_guard)"

lemma sample_finish: "guard_finish sample_whole sample_guard = Inr (Continued, sample_finished)"
  by code_simp

theorem finish_ends_once_witness:
  "mg_ended sample_finished \<and> guard_finish sample_whole sample_finished = Inr (Ended, sample_finished)"
proof -
  have "\<not> mg_finished sample_guard" by code_simp
  from finish_ends_once [OF sample_finish this] show ?thesis by blast
qed

theorem finish_delivers_one_witness:
  "\<exists>pre choice ts. only_comments pre \<and> 0 < choice \<and> choice \<le> 2
     \<and> delivers sample_whole choice [] (mg_state sample_guard) Continued ts \<and> mg_sent sample_finished = pre @ ts"
proof -
  have "\<not> mg_finished sample_guard" by code_simp
  moreover have "\<not> breaks sample_whole" by (simp add: breaks_def sample_whole_def)
  moreover have "textSoFar (mg_state sample_guard) = []" by code_simp
  moreover have "mg_depth sample_guard = 0" "mg_sent sample_guard = []" by (simp_all add: sample_guard_def new_midstream_guard_def)
  ultimately show ?thesis using finish_delivers_one [OF sample_finish] by (auto simp: MAX_CONTINUATION_DEPTH_def)
qed

end
