(* ===== verification/Splice_Text.thy ===== *)
theory Splice_Text
  imports Continuation
begin

text \<open>
  The text of a continuation: what the hold releases is the resume's text with only its repeated head cut
  and the seam repaired, and the partial answer the guard tracks on the OpenAI shape is the text it has
  forwarded.
\<close>

section \<open>The hold loses nothing but the repeated head\<close>

text \<open>The text a client reads from an emitted frame.\<close>

definition out_text :: "out_frame \<Rightarrow> utext" where
  "out_text x =
     (case x of
        Event ev d \<Rightarrow> opt_or (delta_text (map_of d (lit ''delta''))) []
      | Chunk d fin \<Rightarrow> opt_or (str_of (map_of d (lit ''content''))) []
      | Raw f \<Rightarrow> [])"

text \<open>Deltas arriving one by one for the block the resume writes into, then its end.\<close>

fun hold_texts :: "utext list \<Rightarrow> splicer \<Rightarrow> emit" where
  "hold_texts [] s = releaseHold True s"
| "hold_texts (t # ts) s = and_then (releaseHold False) (hold_texts ts) (s\<lparr>sp_hold := sp_hold s @ t\<rparr>)"

definition can_write :: "splicer \<Rightarrow> bool" where
  "can_write s \<longleftrightarrow> sp_shape s = OpenAI \<or> sp_continuingIdx s \<ge> 0 \<and> \<not> sp_continuingClosed s"

definition seam_cut :: "utext \<Rightarrow> utext \<Rightarrow> nat" where
  "seam_cut partial head = (case findAnchor partial head of Some (c, _) \<Rightarrow> c | None \<Rightarrow> tailOverlap partial head)"

lemma out_text_made [simp]:
  "out_text (Event ev (text_delta_obj i t)) = t" "out_text (Chunk [(lit ''content'', J_str t)] fin) = t"
  by (simp_all add: out_text_def text_delta_obj_def delta_text_def jprop_def str_of_def)

lemma can_write_control: "same_control s t \<Longrightarrow> can_write s \<Longrightarrow> can_write t"
  by (simp add: same_control_def can_write_def)

lemma settle_hold_simps:
  "sp_hold (settle_hold s) = fixSeam (sp_partial s) (drop (seam_cut (sp_partial s) (sp_hold s)) (sp_hold s))"
  "\<not> sp_holding (settle_hold s)" "sp_partial (settle_hold s) = sp_partial s" "can_write (settle_hold s) = can_write s"
  by (auto simp: settle_hold_def seam_cut_def Let_def split_def can_write_def split: option.splits)

text \<open>A release writes out everything held, or keeps it all.\<close>

lemma release_out:
  assumes "can_write s" and "\<not> keeps_holding final s"
  shows "concat (map out_text (fst (releaseHold final s))) = sp_hold (if sp_holding s then settle_hold s else s)"
    and "\<not> sp_holding (snd (releaseHold final s))" and "sp_hold (snd (releaseHold final s)) = []"
    and "can_write (snd (releaseHold final s))"
  using assms settle_hold_simps [of s]
  by (auto simp: releaseHold_def Let_def can_write_def split: wire_shape.split)

lemma hold_texts_released:
  "\<not> sp_holding s \<Longrightarrow> can_write s \<Longrightarrow> concat (map out_text (fst (hold_texts ts s))) = sp_hold s @ concat ts"
proof (induction ts arbitrary: s)
  case Nil
  then have "\<not> keeps_holding True s" by (simp add: keeps_holding_def)
  with release_out [OF Nil(2) this] Nil(1) show ?case by simp
next
  case (Cons t ts)
  define u where "u = s\<lparr>sp_hold := sp_hold s @ t\<rparr>"
  have u: "\<not> sp_holding u" "can_write u" "\<not> keeps_holding False u"
    using Cons.prems by (simp_all add: u_def can_write_def keeps_holding_def)
  note r = release_out [OF u(2,3)]
  from Cons.IH [OF r(2,4)] show ?case
    using r(1,3) u(1) by (simp add: fst_and_then u_def [symmetric]) (simp add: u_def)
qed

lemma hold_texts_holding:
  assumes "sp_holding s" and "can_write s"
  shows "\<exists>head rest. sp_hold s @ concat ts = head @ rest
    \<and> concat (map out_text (fst (hold_texts ts s))) = fixSeam (sp_partial s) (drop (seam_cut (sp_partial s) head) head) @ rest"
  using assms
proof (induction ts arbitrary: s)
  case Nil
  then have "\<not> keeps_holding True s" by (simp add: keeps_holding_def)
  with release_out(1) [OF Nil(2) this] Nil(1) show ?case
    by (intro exI [of _ "sp_hold s"] exI [of _ "[]"]) (simp add: settle_hold_simps)
next
  case (Cons t ts)
  define u where "u = s\<lparr>sp_hold := sp_hold s @ t\<rparr>"
  have u: "sp_holding u" "can_write u" "sp_partial u = sp_partial s" "sp_hold u = sp_hold s @ t"
    using Cons.prems by (simp_all add: u_def can_write_def)
  have eq: "hold_texts (t # ts) s = and_then (releaseHold False) (hold_texts ts) u" by (simp add: u_def)
  show ?case
  proof (cases "keeps_holding False u")
    case True
    then have "releaseHold False u = ([], u)" by (simp add: releaseHold_def)
    with Cons.IH [OF u(1,2)] show ?thesis unfolding eq fst_and_then by (simp add: u)
  next
    case False
    note r = release_out [OF u(2) False]
    from hold_texts_released [OF r(2,4), of ts] r(1,3) u show ?thesis
      by (intro exI [of _ "sp_hold u"] exI [of _ "concat ts"]) (unfold eq fst_and_then, simp add: settle_hold_simps)
  qed
qed

text \<open>
  A continuation loses nothing but the repeated words. However the resume's text is cut into deltas, what
  the client is written is that text with the anchor (or the overlap) cut from its head and the seam
  repaired there; everything after the head that was held arrives unchanged and in order. With an
  empty partial answer the text arrives as it is.
\<close>

theorem continuation_text_kept:
  assumes "can_write s" and "sp_hold s = []" and "sp_holding s \<longleftrightarrow> sp_partial s \<noteq> []"
  shows "\<exists>head rest. concat ts = head @ rest
    \<and> concat (map out_text (fst (hold_texts ts s))) =
        (if sp_partial s = [] then concat ts
         else fixSeam (sp_partial s) (drop (seam_cut (sp_partial s) head) head) @ rest)"
proof (cases "sp_partial s = []")
  case True
  with hold_texts_released [OF _ assms(1), of ts] assms show ?thesis
    by (intro exI [of _ "concat ts"] exI [of _ "[]"]) simp
next
  case False
  with hold_texts_holding [OF _ assms(1), of ts] assms show ?thesis by simp
qed

theorem continuation_text_kept_witness:
  "\<exists>head rest. lit ''lo world, the rest'' = head @ rest
    \<and> concat (map out_text (fst (hold_texts [lit ''lo world'', lit '', the rest''] (sample_splicer\<lparr>sp_continuingIdx := 0\<rparr>)))) =
        fixSeam (lit ''Hello wor'') (drop (seam_cut (lit ''Hello wor'') head) head) @ rest"
proof -
  let ?s = "sample_splicer\<lparr>sp_continuingIdx := 0\<rparr>"
  have a: "can_write ?s" "sp_hold ?s = []" "sp_holding ?s \<longleftrightarrow> sp_partial ?s \<noteq> []" by code_simp+
  have b: "sp_partial ?s = lit ''Hello wor''" by code_simp
  have c: "concat [lit ''lo world'', lit '', the rest''] = lit ''lo world, the rest''" by code_simp
  have d: "lit ''Hello wor'' \<noteq> []" by code_simp
  from continuation_text_kept [OF a, of "[lit ''lo world'', lit '', the rest'']"] d show ?thesis
    unfolding b c by simp
qed

section \<open>The tracked partial answer on the OpenAI shape\<close>

definition frame_content :: "sse_frame \<Rightarrow> utext" where
  "frame_content f =
     (if f_comment f \<or> f_dataText f = None \<or> f_dataText f = Some DONE_TEXT \<or> f_data f = None then []
      else case first_choice f of None \<Rightarrow> [] | Some c \<Rightarrow> choice_text c)"

text \<open>The implicit block: absent, or one text block at index 0.\<close>

definition one_block :: "client_state \<Rightarrow> bool" where
  "one_block s \<longleftrightarrow> cs_shape s = OpenAI
     \<and> (cs_blocks s = [] \<or> (\<exists>b. cs_blocks s = [(0, b)] \<and> b_type b = lit ''text''))"

lemma one_block_text:
  "cs_blocks s = [] \<Longrightarrow> textSoFar s = []"
  "cs_blocks s = [(0, b)] \<Longrightarrow> b_type b = lit ''text'' \<Longrightarrow> textSoFar s = b_text b"
proof -
  have n: "blocks_length [] = 0" "blocks_length [(0, b)] = 1"
    by (simp_all add: blocks_length_def List.map_filter_def array_index_def)
  show "cs_blocks s = [] \<Longrightarrow> textSoFar s = []" by (simp add: textSoFar_def n List.map_filter_def)
  show "cs_blocks s = [(0, b)] \<Longrightarrow> b_type b = lit ''text'' \<Longrightarrow> textSoFar s = b_text b"
    by (simp add: textSoFar_def n List.map_filter_def block_at_def)
qed

lemma add_content_text:
  assumes "one_block s"
  shows "one_block (add_content t s) \<and> textSoFar (add_content t s) = textSoFar s @ t
    \<and> cs_withheld (add_content t s) = cs_withheld s \<and> cs_upstreamFailed (add_content t s) = cs_upstreamFailed s"
proof (cases "t = []")
  case True
  with assms show ?thesis by (simp add: add_content_def)
next
  case False
  have n: "blocks_length [] = 0" "\<And>b. blocks_length [(0, b)] = 1"
    by (simp_all add: blocks_length_def List.map_filter_def array_index_def)
  from assms consider "cs_blocks s = []" | b where "cs_blocks s = [(0, b)]" "b_type b = lit ''text''"
    by (auto simp: one_block_def)
  then show ?thesis
  proof cases
    case 1
    have "cs_blocks (add_content t s) = [(0, \<lparr>b_type = lit ''text'', b_open = True, b_text = t\<rparr>)]"
      using 1 False by (simp add: add_content_def n Let_def)
    moreover from this have "textSoFar (add_content t s) = t" using one_block_text(2) by force
    ultimately show ?thesis using assms one_block_text(1) [OF 1]
      by (simp add: one_block_def) (simp add: add_content_def Let_def)
  next
    case 2
    have "cs_blocks (add_content t s) = [(0, b\<lparr>b_text := b_text b @ t\<rparr>)]"
      using 2 False by (simp add: add_content_def n Let_def)
    moreover from this have "textSoFar (add_content t s) = b_text b @ t" using one_block_text(2) 2 by force
    ultimately show ?thesis using assms 2 one_block_text(2) [OF 2]
      by (simp add: one_block_def) (simp add: add_content_def Let_def)
  qed
qed

lemma textSoFar_blocks: "cs_blocks t = cs_blocks s \<Longrightarrow> textSoFar t = textSoFar s"
  by (simp add: textSoFar_def)

lemma observe_openai_text:
  assumes ob: "one_block s" and noerr: "\<not> js_truthy (field f ''error'')"
  shows "one_block (snd (observe f s)) \<and> textSoFar (snd (observe f s)) = textSoFar s @ frame_content f
    \<and> cs_withheld (snd (observe f s)) = cs_withheld s @ (if fst (observe f s) then [] else [f])"
proof (cases "f_comment f \<or> f_dataText f = None \<or> f_dataText f = Some DONE_TEXT \<or> f_data f = None \<or> first_choice f = None")
  case True
  then have "frame_content f = []" by (auto simp: frame_content_def)
  moreover have "cs_blocks (snd (observe f s)) = cs_blocks s" "cs_shape (snd (observe f s)) = OpenAI"
    "cs_withheld (snd (observe f s)) = cs_withheld s @ (if fst (observe f s) then [] else [f])"
    using True ob noerr
    by (auto simp: observe_def observeOpenAI_def one_block_def withhold_def Let_def split: option.split)
  ultimately show ?thesis using ob textSoFar_blocks [of "snd (observe f s)" s] by (simp add: one_block_def)
next
  case False
  then obtain c d where c: "\<not> f_comment f" "f_dataText f \<noteq> None" "f_dataText f \<noteq> Some DONE_TEXT" "f_data f = Some d"
    "first_choice f = Some c" by auto
  have has: "has_choices f"
    using c(5) by (auto simp: first_choice_def has_choices_def split: option.splits jvalue.splits list.splits if_splits)
  define s1 where "s1 = s\<lparr>cs_started := True, cs_model := (if truthy_text (cs_model s) then cs_model s
      else opt_else (str_of (field f ''model'')) (cs_model s))\<rparr>"
  have obs: "observe f s = observe_choice f c s1"
    using c has noerr ob by (auto simp: observe_def observeOpenAI_def one_block_def s1_def Let_def)
  define s2 where "s2 = (if js_truthy (choice_delta c ''tool_calls'') then s1\<lparr>cs_toolInProgress := True\<rparr> else s1)"
  have s2: "one_block s2" "textSoFar s2 = textSoFar s" "cs_withheld s2 = cs_withheld s"
    using ob by (auto simp: s2_def s1_def one_block_def intro: textSoFar_blocks)
  define s3 where "s3 = add_content (choice_text c) s2"
  note s3 = add_content_text [OF s2(1), of "choice_text c", folded s3_def, unfolded s2(2,3)]
  have fc: "frame_content f = choice_text c" using c by (auto simp: frame_content_def)
  have "observe f s = (if js_truthy (jprop (Some c) ''finish_reason'') then
      (if cs_upstreamFailed s3 then withhold f s3 else (True, s3\<lparr>cs_finished := True\<rparr>)) else (True, s3))"
    by (simp add: obs observe_choice_def Let_def s2_def [symmetric] s3_def [symmetric])
  then show ?thesis using s3 fc
    textSoFar_blocks [of "s3\<lparr>cs_finished := True\<rparr>" s3] textSoFar_blocks [of "s3\<lparr>cs_withheld := cs_withheld s3 @ [f]\<rparr>" s3]
    by (auto simp: withhold_def one_block_def)
qed

lemma guard_events_text:
  assumes "one_block s" and "\<forall>f \<in> set (frames_of es). \<not> js_truthy (field f ''error'')"
    and "length (textSoFar s) = length (concat (map frame_content fwd)) + length (concat (map frame_content (cs_withheld s)))"
    and "(\<forall>f \<in> set (cs_withheld s). frame_content f = []) \<longrightarrow> textSoFar s = concat (map frame_content fwd)"
  shows "let (t, fwd') = fold guard_event es (s, fwd) in
      length (textSoFar t) = length (concat (map frame_content fwd')) + length (concat (map frame_content (cs_withheld t)))
      \<and> ((\<forall>f \<in> set (cs_withheld t). frame_content f = []) \<longrightarrow> textSoFar t = concat (map frame_content fwd'))"
  using assms
proof (induction es arbitrary: s fwd)
  case Nil
  then show ?case by simp
next
  case (Cons e es)
  show ?case
  proof (cases e)
    case Failed
    have "one_block (markUpstreamFailed s)" "textSoFar (markUpstreamFailed s) = textSoFar s"
      "cs_withheld (markUpstreamFailed s) = cs_withheld s"
      using Cons.prems(1) by (auto simp: markUpstreamFailed_def one_block_def intro: textSoFar_blocks)
    with Cons.IH [of "markUpstreamFailed s" fwd] Cons.prems Failed show ?thesis by (simp add: guard_event_def)
  next
    case (Frame f)
    note o1 = observe_openai_text [OF Cons.prems(1), of f]
    define fwd1 where "fwd1 = (if fst (observe f s) then fwd @ [f] else fwd)"
    have e: "guard_event e (s, fwd) = (snd (observe f s), fwd1)"
      using Frame by (simp add: guard_event_def Let_def split_def fwd1_def)
    show ?thesis
      unfolding fold.simps o_apply e
      using Frame Cons.prems o1 by (intro Cons.IH) (auto simp: fwd1_def)
  qed
qed

text \<open>
  The partial answer a continuation starts from is what the client has, with one exception: on the
  OpenAI shape, for a stream without in-band errors, the tracked text is the text of the forwarded frames
  exactly when no withheld frame carries text. A closing chunk with both text and a finish reason, withheld because
  the turn failed, counts as sent although the client never got it.
\<close>

theorem openai_partial_exact:
  assumes "guard_events es OpenAI = (s, fwd)" and "\<forall>f \<in> set (frames_of es). \<not> js_truthy (field f ''error'')"
  shows "textSoFar s = concat (map frame_content fwd) \<longleftrightarrow> (\<forall>f \<in> set (cs_withheld s). frame_content f = [])"
proof -
  have init: "one_block (new_client_state OpenAI)" "textSoFar (new_client_state OpenAI) = []"
    "cs_withheld (new_client_state OpenAI) = []"
    by (simp_all add: one_block_def new_client_state_def one_block_text(1))
  from guard_events_text [OF init(1) assms(2), of "[]"] init assms(1)
  have r: "length (textSoFar s) = length (concat (map frame_content fwd)) + length (concat (map frame_content (cs_withheld s)))"
    "(\<forall>f \<in> set (cs_withheld s). frame_content f = []) \<longrightarrow> textSoFar s = concat (map frame_content fwd)"
    by (auto simp: guard_events_def)
  show ?thesis
  proof
    assume "textSoFar s = concat (map frame_content fwd)"
    with r(1) have "concat (map frame_content (cs_withheld s)) = []" by simp
    then show "\<forall>f \<in> set (cs_withheld s). frame_content f = []" by simp
  qed (use r(2) in blast)
qed

definition sample_chunk :: "string \<Rightarrow> jvalue \<Rightarrow> sse_frame" where
  "sample_chunk t fin = \<lparr>f_raw = [], f_event = [],
     f_data = Some [(lit ''choices'', J_arr [J_obj [(lit ''delta'', J_obj [(lit ''content'', J_str (lit t))]),
       (lit ''finish_reason'', fin)]])], f_dataText = Some [], f_comment = False\<rparr>"

theorem openai_partial_exact_witness:
  "textSoFar (fst (guard_events [Frame (sample_chunk ''Hello'' J_null), Failed, Frame (sample_chunk '' world'' (J_str (lit ''stop'')))] OpenAI))
   \<noteq> concat (map frame_content (snd (guard_events [Frame (sample_chunk ''Hello'' J_null), Failed, Frame (sample_chunk '' world'' (J_str (lit ''stop'')))] OpenAI)))"
proof -
  let ?es = "[Frame (sample_chunk ''Hello'' J_null), Failed, Frame (sample_chunk '' world'' (J_str (lit ''stop'')))]"
  have a: "guard_events ?es OpenAI = (fst (guard_events ?es OpenAI), snd (guard_events ?es OpenAI))" by simp
  have b: "\<forall>f \<in> set (frames_of ?es). \<not> js_truthy (field f ''error'')" by code_simp
  have c: "\<not> (\<forall>f \<in> set (cs_withheld (fst (guard_events ?es OpenAI))). frame_content f = [])" by code_simp
  show ?thesis using openai_partial_exact [OF a b] c by blast
qed

end
