(* ===== verification/Responses_Stream.thy ===== *)
theory Responses_Stream
  imports Stream_State Wire_Protocol
begin

text \<open>
  The streaming translator from the Responses protocol to the Messages protocol
  (\<open>responsesStreamToAnthropicSSE\<close> of \<open>anthropic-responses-translate.ts\<close>): its state is that of the closure,
  and each function of the closure is a function on that state. \<open>rx_out\<close> is the array of events the call
  at hand has produced. An upstream event is a JSON value; \<open>JSON.stringify\<close>, used for the input of a web
  search, is an argument.
\<close>

section \<open>The events sent to the client\<close>

record web_result =
  wr_url :: utext
  wr_title :: utext
  wr_encrypted :: utext

record web_citation =
  wc_url :: utext
  wc_title :: utext
  wc_cited_text :: utext
  wc_encrypted_index :: utext

datatype start_block =
    Text_block utext
  | Thinking_block utext
  | Tool_use utext utext
  | Server_tool_use utext
  | Web_search_tool_result utext "web_result list"

datatype content_delta =
    Text_delta utext
  | Thinking_delta utext
  | Input_json_delta utext
  | Citations_delta web_citation

datatype stop_reason = End_turn | Max_tokens | Stop_sequence | Tool_use_stop

record anthropic_usage =
  us_input :: rat
  us_output :: rat
  us_cache_read :: "rat option"
  us_cache_creation :: "rat option"

text \<open>The usage of \<open>message_delta\<close>; only the output is always there.\<close>

record delta_usage =
  du_output :: rat
  du_input :: "rat option"
  du_cache_read :: "rat option"
  du_cache_creation :: "rat option"

text \<open>The envelope of \<open>message_start\<close>: id and model; no content, no stop reason, usage 0/0.\<close>

datatype anthropic_event =
    Message_start utext utext
  | Content_block_start int start_block
  | Content_block_delta int content_delta
  | Content_block_stop int
  | Message_delta stop_reason delta_usage
  | Message_stop

section \<open>Reading upstream values\<close>

definition strOr :: "jvalue option \<Rightarrow> utext" where
  "strOr v = opt_or (str_of v) []"

definition numOr :: "jvalue option \<Rightarrow> rat \<Rightarrow> rat" where
  "numOr v d = opt_or (num_of v) d"

definition is_object :: "jvalue option \<Rightarrow> bool" where
  "is_object v = (case v of Some (J_obj _) \<Rightarrow> True | Some (J_arr _) \<Rightarrow> True | _ \<Rightarrow> False)"

text \<open>\<open>a || b\<close> on strings, and \<open>s.slice(from, to)\<close>, which truncates and counts negatives from the end.\<close>

definition or_text :: "utext \<Rightarrow> utext \<Rightarrow> utext" where
  "or_text a b = (if a = [] then b else a)"

definition slice_pos :: "nat \<Rightarrow> rat \<Rightarrow> nat" where
  "slice_pos n q =
     (let i = (if q < 0 then \<lceil>q\<rceil> else \<lfloor>q\<rfloor>)
      in nat (if i < 0 then max 0 (int n + i) else min (int n) i))"

definition js_slice :: "'a list \<Rightarrow> rat \<Rightarrow> rat \<Rightarrow> 'a list" where
  "js_slice s from to = (let a = slice_pos (length s) from; b = slice_pos (length s) to in take (b - a) (drop a s))"

text \<open>\<open>typeof a.x === 'number' && a.x > 0 ? a.x : 0\<close>.\<close>

definition positive_or_zero :: "jvalue option \<Rightarrow> rat" where
  "positive_or_zero v = (case num_of v of Some n \<Rightarrow> (if n > 0 then n else 0) | None \<Rightarrow> 0)"

definition anthropicUsageFromResponses :: "jvalue option \<Rightarrow> anthropic_usage" where
  "anthropicUsageFromResponses u =
     (let inp = numOr (jprop u ''input_tokens'') 0;
          out = numOr (jprop u ''output_tokens'') 0;
          d = jprop u ''input_tokens_details''
      in if \<not> is_object d then \<lparr>us_input = inp, us_output = out, us_cache_read = None, us_cache_creation = None\<rparr>
         else
           let cached = positive_or_zero (jprop d ''cached_tokens'');
               written = positive_or_zero (jprop d ''cache_write_tokens'')
           in \<lparr>us_input = max 0 (inp - cached - written), us_output = out,
               us_cache_read = Some cached, us_cache_creation = Some written\<rparr>)"

definition deriveStopReason :: "jvalue option \<Rightarrow> bool \<Rightarrow> stop_reason" where
  "deriveStopReason resp sawToolCall =
     (if sawToolCall then Tool_use_stop
      else if str_of (jprop resp ''status'') = Some (lit ''incomplete'') then
        (if str_of (jprop (jprop resp ''incomplete_details'') ''reason'') = Some (lit ''content_filter'') then End_turn
         else Max_tokens)
      else End_turn)"

definition anthropicMessageId :: "jvalue option \<Rightarrow> utext" where
  "anthropicMessageId v =
     (case str_of v of
        Some i \<Rightarrow> (if i \<noteq> [] then (if has_prefix i (lit ''msg_'') then i else lit ''msg_'' @ i) else lit ''msg_responses_translate'')
      | None \<Rightarrow> lit ''msg_responses_translate'')"

definition completedArguments :: "utext \<Rightarrow> jvalue option \<Rightarrow> utext" where
  "completedArguments have' final =
     (case str_of final of
        Some f \<Rightarrow> (if length f > length have' \<and> has_prefix f have' then f else have')
      | None \<Rightarrow> have')"

section \<open>State\<close>

datatype block_kind = K_text | K_thinking | K_tool | K_search

record open_block =
  ob_kind :: block_kind
  ob_index :: int
  ob_outputIndex :: rat

record tool_call_state =
  tc_item :: "jvalue option"
  tc_args :: utext
  tc_sent :: nat
  tc_done :: bool

record responses_state =
  rx_started :: bool
  rx_ended :: bool
  rx_model :: "utext option"
  rx_messageId :: utext
  rx_nextIndex :: int
  rx_open :: "open_block option"
  rx_blockByOutputIndex :: "(rat, block_kind \<times> int) jsmap"
  rx_sawToolCall :: bool
  rx_syntheticToolSeq :: nat
  rx_textByOutputIndex :: "(rat, utext) jsmap"
  rx_searchIdByOutputIndex :: "(rat, utext) jsmap"
  rx_toolCalls :: "(rat, tool_call_state) jsmap"
  rx_waitingTools :: "rat list"
  rx_out :: "anthropic_event list"

definition new_responses_state :: "utext option \<Rightarrow> responses_state" where
  "new_responses_state requestModel =
     \<lparr>rx_started = False, rx_ended = False, rx_model = requestModel, rx_messageId = lit ''msg_responses_translate'',
      rx_nextIndex = 0, rx_open = None, rx_blockByOutputIndex = [], rx_sawToolCall = False, rx_syntheticToolSeq = 0,
      rx_textByOutputIndex = [], rx_searchIdByOutputIndex = [], rx_toolCalls = [], rx_waitingTools = [], rx_out = []\<rparr>"

definition rx_emit :: "anthropic_event \<Rightarrow> responses_state \<Rightarrow> responses_state" where
  "rx_emit e s = s\<lparr>rx_out := rx_out s @ [e]\<rparr>"

section \<open>Opening and closing\<close>

definition ensureStarted :: "jvalue option \<Rightarrow> responses_state \<Rightarrow> responses_state" where
  "ensureStarted ev s =
     (if rx_started s then s
      else
        let i = anthropicMessageId (jprop (jprop ev ''response'') ''id'');
            resolvedModel = (case rx_model s of
                               Some m \<Rightarrow> m
                             | None \<Rightarrow> or_text (strOr (jprop (jprop ev ''response'') ''model'')) (lit ''unknown''))
        in rx_emit (Message_start i resolvedModel)
             (s\<lparr>rx_started := True, rx_messageId := i, rx_model := Some resolvedModel\<rparr>))"

definition closeOpenBlock :: "responses_state \<Rightarrow> responses_state" where
  "closeOpenBlock s =
     (case rx_open s of
        None \<Rightarrow> s
      | Some b \<Rightarrow> (rx_emit (Content_block_stop (ob_index b)) s)\<lparr>rx_open := None\<rparr>)"

text \<open>What every opening does: take the next index, make the block the open one, and remember it.\<close>

definition place_block :: "block_kind \<Rightarrow> rat \<Rightarrow> responses_state \<Rightarrow> responses_state" where
  "place_block k oi s =
     s\<lparr>rx_nextIndex := rx_nextIndex s + 1,
       rx_open := Some \<lparr>ob_kind = k, ob_index = rx_nextIndex s, ob_outputIndex = oi\<rparr>,
       rx_blockByOutputIndex := AList.update oi (k, rx_nextIndex s) (rx_blockByOutputIndex s)\<rparr>"

text \<open>A generated id: a prefix and the next number of the sequence, when the item names none.\<close>

definition synthetic_id :: "utext \<Rightarrow> string \<Rightarrow> responses_state \<Rightarrow> utext \<times> responses_state" where
  "synthetic_id own prefix s =
     (if own \<noteq> [] then (own, s)
      else (lit prefix @ decimal (rx_syntheticToolSeq s), s\<lparr>rx_syntheticToolSeq := rx_syntheticToolSeq s + 1\<rparr>))"

definition openToolBlock :: "jvalue option \<Rightarrow> rat \<Rightarrow> responses_state \<Rightarrow> responses_state" where
  "openToolBlock item oi s =
     (let index = rx_nextIndex s;
          s1 = (place_block K_tool oi s)\<lparr>rx_sawToolCall := True\<rparr>;
          (i, s2) = synthetic_id (or_text (strOr (jprop item ''call_id'')) (strOr (jprop item ''id''))) ''toolu_responses_'' s1
      in rx_emit (Content_block_start index (Tool_use i (strOr (jprop item ''name'')))) s2)"

definition openSearchBlock :: "jvalue option \<Rightarrow> rat \<Rightarrow> responses_state \<Rightarrow> responses_state" where
  "openSearchBlock item oi s =
     (let index = rx_nextIndex s;
          (i, s1) = synthetic_id (strOr (jprop item ''id'')) ''srvtoolu_responses_'' (place_block K_search oi s)
      in rx_emit (Content_block_start index (Server_tool_use i))
           (s1\<lparr>rx_searchIdByOutputIndex := AList.update oi i (rx_searchIdByOutputIndex s1)\<rparr>))"

definition openThinkingBlock :: "rat \<Rightarrow> responses_state \<Rightarrow> responses_state" where
  "openThinkingBlock oi s =
     rx_emit (Content_block_start (rx_nextIndex s) (Thinking_block [])) (place_block K_thinking oi s)"

definition open_is :: "block_kind \<Rightarrow> rat \<Rightarrow> responses_state \<Rightarrow> bool" where
  "open_is k oi s = (case rx_open s of Some b \<Rightarrow> ob_kind b = k \<and> ob_outputIndex b = oi | None \<Rightarrow> False)"

definition open_index :: "responses_state \<Rightarrow> int" where
  "open_index s = (case rx_open s of Some b \<Rightarrow> ob_index b | None \<Rightarrow> -1)"

text \<open>The index of the text block of an item, opened if it is not the open one.\<close>

definition ensureTextBlock :: "rat \<Rightarrow> responses_state \<Rightarrow> int \<times> responses_state" where
  "ensureTextBlock oi s =
     (if open_is K_text oi s then (open_index s, s)
      else
        let s1 = closeOpenBlock s;
            index = rx_nextIndex s1
        in (index, rx_emit (Content_block_start index (Text_block [])) (place_block K_text oi s1)))"

definition resolveThinkingBlock :: "rat \<Rightarrow> responses_state \<Rightarrow> int \<times> responses_state" where
  "resolveThinkingBlock oi s =
     (if open_is K_thinking oi s then (open_index s, s)
      else (case map_of (rx_blockByOutputIndex s) oi of
              Some (K_thinking, index) \<Rightarrow> (index, s)
            | _ \<Rightarrow> (rx_nextIndex s, openThinkingBlock oi s)))"

section \<open>Tool calls\<close>

definition fresh_call :: "jvalue option \<Rightarrow> tool_call_state" where
  "fresh_call item = \<lparr>tc_item = item, tc_args = [], tc_sent = 0, tc_done = False\<rparr>"

definition toolCall :: "rat \<Rightarrow> jvalue option \<Rightarrow> responses_state \<Rightarrow> tool_call_state \<times> responses_state" where
  "toolCall oi item s =
     (case map_of (rx_toolCalls s) oi of
        None \<Rightarrow> (let c = fresh_call item in (c, s\<lparr>rx_toolCalls := AList.update oi c (rx_toolCalls s)\<rparr>))
      | Some c \<Rightarrow>
          (if \<not> js_truthy (tc_item c) then
             let c' = c\<lparr>tc_item := item\<rparr> in (c', s\<lparr>rx_toolCalls := AList.update oi c' (rx_toolCalls s)\<rparr>)
           else (c, s)))"

text \<open>An assignment to a call that \<open>toolCall\<close> has returned.\<close>

definition set_call :: "rat \<Rightarrow> tool_call_state \<Rightarrow> responses_state \<Rightarrow> responses_state" where
  "set_call oi c s = s\<lparr>rx_toolCalls := AList.update oi c (rx_toolCalls s)\<rparr>"

definition toolInFlight :: "responses_state \<Rightarrow> bool" where
  "toolInFlight s =
     (case rx_open s of
        Some b \<Rightarrow> ob_kind b = K_tool \<and> (case map_of (rx_toolCalls s) (ob_outputIndex b) of Some c \<Rightarrow> \<not> tc_done c | None \<Rightarrow> False)
      | None \<Rightarrow> False)"

definition sendToolArgs :: "rat \<Rightarrow> tool_call_state \<Rightarrow> responses_state \<Rightarrow> responses_state" where
  "sendToolArgs oi c s =
     (if \<not> open_is K_tool oi s \<or> length (tc_args c) = tc_sent c then s
      else set_call oi (c\<lparr>tc_sent := length (tc_args c)\<rparr>)
             (rx_emit (Content_block_delta (open_index s) (Input_json_delta (drop (tc_sent c) (tc_args c)))) s))"

definition placeToolCall :: "rat \<Rightarrow> tool_call_state \<Rightarrow> responses_state \<Rightarrow> responses_state" where
  "placeToolCall oi c s =
     (if map_of (rx_blockByOutputIndex s) oi \<noteq> None \<or> oi \<in> set (rx_waitingTools s) then sendToolArgs oi c s
      else if toolInFlight s then s\<lparr>rx_waitingTools := rx_waitingTools s @ [oi]\<rparr>
      else sendToolArgs oi c (openToolBlock (tc_item c) oi (closeOpenBlock s)))"

text \<open>One turn of the loop of \<open>drainToolCalls\<close>: the first waiting call gets the open block.\<close>

definition drain_one :: "rat \<Rightarrow> responses_state \<Rightarrow> responses_state" where
  "drain_one oi s =
     (let (c, s1) = toolCall oi None s;
          s2 = sendToolArgs oi c (openToolBlock (tc_item c) oi (closeOpenBlock s1))
      in if tc_done c then closeOpenBlock s2 else s2)"

fun drain_queue :: "rat list \<Rightarrow> responses_state \<Rightarrow> responses_state" where
  "drain_queue [] s = s\<lparr>rx_waitingTools := []\<rparr>"
| "drain_queue (oi # w) s =
     (if toolInFlight s then s\<lparr>rx_waitingTools := oi # w\<rparr> else drain_queue w (drain_one oi (s\<lparr>rx_waitingTools := w\<rparr>)))"

definition drainToolCalls :: "responses_state \<Rightarrow> responses_state" where
  "drainToolCalls s = drain_queue (rx_waitingTools s) s"

definition settleToolCalls :: "responses_state \<Rightarrow> responses_state" where
  "settleToolCalls s =
     closeOpenBlock (drainToolCalls (s\<lparr>rx_toolCalls := map (\<lambda>(oi, c). (oi, c\<lparr>tc_done := True\<rparr>)) (rx_toolCalls s)\<rparr>))"

section \<open>Web searches\<close>

definition search_input :: "jvalue option \<Rightarrow> jvalue" where
  "search_input action =
     J_obj (if str_of (jprop action ''type'') = Some (lit ''search'') \<or> js_truthy (jprop action ''query'') then
              [(lit ''query'', J_str (or_text (strOr (jprop action ''query''))
                 (case jprop action ''queries'' of Some (J_arr (q # _)) \<Rightarrow> strOr (Some q) | _ \<Rightarrow> [])))]
            else if js_truthy (jprop action ''url'') then
              (lit ''url'', J_str (strOr (jprop action ''url'')))
              # (if js_truthy (jprop action ''pattern'') then [(lit ''pattern'', J_str (strOr (jprop action ''pattern'')))] else [])
            else [])"

definition search_urls :: "jvalue option \<Rightarrow> utext list" where
  "search_urls action =
     (case jprop action ''sources'' of
        Some (J_arr srcs) \<Rightarrow> filter (\<lambda>u. u \<noteq> []) (map (\<lambda>s. strOr (jprop (Some s) ''url'')) srcs)
      | _ \<Rightarrow> (if js_truthy (jprop action ''url'') then [strOr (jprop action ''url'')] else []))"

fun first_seen :: "utext list \<Rightarrow> utext list \<Rightarrow> utext list" where
  "first_seen seen [] = []"
| "first_seen seen (u # us) = (if u \<in> set seen then first_seen seen us else u # first_seen (u # seen) us)"

definition search_results :: "jvalue option \<Rightarrow> web_result list" where
  "search_results action =
     map (\<lambda>u. \<lparr>wr_url = u, wr_title = [], wr_encrypted = []\<rparr>) (first_seen [] (search_urls action))"

definition finishSearchBlock :: "(jvalue \<Rightarrow> utext) \<Rightarrow> jvalue option \<Rightarrow> rat \<Rightarrow> responses_state \<Rightarrow> responses_state" where
  "finishSearchBlock json_print item oi s =
     (let action = jprop item ''action'';
          s1 = (case map_of (rx_blockByOutputIndex s) oi of
                  Some (K_search, index) \<Rightarrow>
                    rx_emit (Content_block_delta index (Input_json_delta (json_print (search_input action)))) s
                | _ \<Rightarrow> s);
          s2 = closeOpenBlock s1;
          index = rx_nextIndex s2
      in rx_emit (Content_block_stop index)
           (rx_emit (Content_block_start index
                (Web_search_tool_result (opt_or (map_of (rx_searchIdByOutputIndex s2) oi) []) (search_results action)))
              (s2\<lparr>rx_nextIndex := index + 1\<rparr>)))"

section \<open>The end of the stream\<close>

definition final_usage :: "jvalue option \<Rightarrow> delta_usage" where
  "final_usage resp =
     (let u = jprop resp ''usage'';
          out = numOr (jprop u ''output_tokens'') 0
      in if num_of (jprop u ''input_tokens'') = None
         then \<lparr>du_output = out, du_input = None, du_cache_read = None, du_cache_creation = None\<rparr>
         else
           let a = anthropicUsageFromResponses u
           in \<lparr>du_output = out, du_input = Some (us_input a), du_cache_read = us_cache_read a,
               du_cache_creation = us_cache_creation a\<rparr>)"

definition finalize :: "jvalue option \<Rightarrow> responses_state \<Rightarrow> responses_state" where
  "finalize resp s =
     (let s1 = settleToolCalls s
      in (rx_emit Message_stop (rx_emit (Message_delta (deriveStopReason resp (rx_sawToolCall s1)) (final_usage resp)) s1))
           \<lparr>rx_ended := True\<rparr>)"

section \<open>One upstream event\<close>

definition nonempty_delta :: "jvalue option \<Rightarrow> utext option" where
  "nonempty_delta ev = (case str_of (jprop ev ''delta'') of Some d \<Rightarrow> (if d = [] then None else Some d) | None \<Rightarrow> None)"

definition out_index :: "jvalue option \<Rightarrow> rat" where
  "out_index ev = numOr (jprop ev ''output_index'') 0"

definition item_type :: "jvalue option \<Rightarrow> utext option" where
  "item_type ev = str_of (jprop (jprop ev ''item'') ''type'')"

definition item_added :: "jvalue option \<Rightarrow> responses_state \<Rightarrow> responses_state" where
  "item_added ev s =
     (let oi = out_index ev; item = jprop ev ''item''
      in if item_type ev = Some (lit ''function_call'') then
           (let (c, s1) = toolCall oi item s in placeToolCall oi c s1)
         else
           let s1 = settleToolCalls s
           in if item_type ev = Some (lit ''reasoning'') then openThinkingBlock oi s1
              else if item_type ev = Some (lit ''web_search_call'') then openSearchBlock item oi s1
              else s1)"

definition text_arrived :: "jvalue option \<Rightarrow> responses_state \<Rightarrow> responses_state" where
  "text_arrived ev s =
     (case nonempty_delta ev of
        None \<Rightarrow> s
      | Some d \<Rightarrow>
          let oi = out_index ev;
              (index, s1) = ensureTextBlock oi s;
              s2 = s1\<lparr>rx_textByOutputIndex :=
                AList.update oi (opt_or (map_of (rx_textByOutputIndex s1) oi) [] @ d) (rx_textByOutputIndex s1)\<rparr>
          in rx_emit (Content_block_delta index (Text_delta d)) s2)"

text \<open>A \<open>url_citation\<close> with a url; any other annotation is passed over.\<close>

definition citation_url :: "jvalue option \<Rightarrow> utext option" where
  "citation_url ev =
     (let a = jprop ev ''annotation''
      in if str_of (jprop a ''type'') = Some (lit ''url_citation'') then str_of (jprop a ''url'') else None)"

definition annotation_arrived :: "jvalue option \<Rightarrow> responses_state \<Rightarrow> responses_state" where
  "annotation_arrived ev s =
     (case citation_url ev of
        None \<Rightarrow> s
      | Some url \<Rightarrow>
          let a = jprop ev ''annotation'';
              oi = out_index ev;
              (index, s1) = ensureTextBlock oi s;
              t = opt_or (map_of (rx_textByOutputIndex s1) oi) [];
              from = numOr (jprop a ''start_index'') 0;
              to = numOr (jprop a ''end_index'') from
          in rx_emit (Content_block_delta index (Citations_delta
               \<lparr>wc_url = url, wc_title = strOr (jprop a ''title''), wc_cited_text = js_slice t (max 0 from) (max from to),
                wc_encrypted_index = []\<rparr>)) s1)"

definition arguments_arrived :: "jvalue option \<Rightarrow> responses_state \<Rightarrow> responses_state" where
  "arguments_arrived ev s =
     (case nonempty_delta ev of
        None \<Rightarrow> s
      | Some d \<Rightarrow>
          let oi = out_index ev;
              (c, s1) = toolCall oi None s;
              c' = c\<lparr>tc_args := tc_args c @ d\<rparr>
          in placeToolCall oi c' (set_call oi c' s1))"

definition arguments_done :: "jvalue option \<Rightarrow> responses_state \<Rightarrow> responses_state" where
  "arguments_done ev s =
     (let oi = out_index ev;
          (c, s1) = toolCall oi None s;
          c' = c\<lparr>tc_args := completedArguments (tc_args c) (jprop ev ''arguments'')\<rparr>
      in placeToolCall oi c' (set_call oi c' s1))"

definition reasoning_arrived :: "jvalue option \<Rightarrow> responses_state \<Rightarrow> responses_state" where
  "reasoning_arrived ev s =
     (case nonempty_delta ev of
        None \<Rightarrow> s
      | Some d \<Rightarrow>
          let (index, s1) = resolveThinkingBlock (out_index ev) s
          in rx_emit (Content_block_delta index (Thinking_delta d)) s1)"

definition close_if_open :: "rat \<Rightarrow> responses_state \<Rightarrow> responses_state" where
  "close_if_open oi s =
     (case rx_open s of Some b \<Rightarrow> (if ob_outputIndex b = oi then closeOpenBlock s else s) | None \<Rightarrow> s)"

text \<open>\<open>call.done = true\<close> on the object in the map, which \<open>placeToolCall\<close> may have changed.\<close>

definition mark_done :: "rat \<Rightarrow> responses_state \<Rightarrow> responses_state" where
  "mark_done oi s =
     (case map_of (rx_toolCalls s) oi of Some c \<Rightarrow> set_call oi (c\<lparr>tc_done := True\<rparr>) s | None \<Rightarrow> s)"

definition item_done :: "(jvalue \<Rightarrow> utext) \<Rightarrow> jvalue option \<Rightarrow> responses_state \<Rightarrow> responses_state" where
  "item_done json_print ev s =
     (let oi = out_index ev; item = jprop ev ''item''
      in if item_type ev = Some (lit ''web_search_call'') then finishSearchBlock json_print item oi s
         else if item_type ev = Some (lit ''function_call'') then
           (let (c, s1) = toolCall oi item s;
                c' = c\<lparr>tc_args := completedArguments (tc_args c) (jprop item ''arguments'')\<rparr>;
                s2 = mark_done oi (placeToolCall oi c' (set_call oi c' s1))
            in drainToolCalls (close_if_open oi s2))
         else close_if_open oi s)"

definition terminal_type :: "utext \<Rightarrow> bool" where
  "terminal_type t \<longleftrightarrow> t \<in> {lit ''response.completed'', lit ''response.incomplete'', lit ''response.failed''}"

definition push_typed :: "(jvalue \<Rightarrow> utext) \<Rightarrow> utext \<Rightarrow> jvalue option \<Rightarrow> responses_state \<Rightarrow> responses_state" where
  "push_typed json_print t ev s =
     (if terminal_type t then finalize (jprop ev ''response'') (ensureStarted ev s)
      else if t = lit ''error'' then finalize None (ensureStarted ev s)
      else
        let s1 = ensureStarted ev s
        in if t = lit ''response.output_item.added'' then item_added ev s1
           else if t = lit ''response.output_text.delta'' then text_arrived ev s1
           else if t = lit ''response.output_text.annotation.added'' then annotation_arrived ev s1
           else if t = lit ''response.function_call_arguments.delta'' then arguments_arrived ev s1
           else if t = lit ''response.function_call_arguments.done'' then arguments_done ev s1
           else if t = lit ''response.reasoning_summary_text.delta'' \<or> t = lit ''response.reasoning_text.delta''
             then reasoning_arrived ev s1
           else if t = lit ''response.output_item.done'' then item_done json_print ev s1
           else s1)"

definition responses_push :: "(jvalue \<Rightarrow> utext) \<Rightarrow> jvalue \<Rightarrow> responses_state \<Rightarrow> anthropic_event list \<times> responses_state" where
  "responses_push json_print ev s =
     (if rx_ended s then ([], s)
      else (case str_of (jprop (Some ev) ''type'') of
              None \<Rightarrow> ([], s)
            | Some t \<Rightarrow> (let s1 = push_typed json_print t (Some ev) (s\<lparr>rx_out := []\<rparr>) in (rx_out s1, s1))))"

definition responses_end :: "responses_state \<Rightarrow> anthropic_event list \<times> responses_state" where
  "responses_end s =
     (if rx_ended s then ([], s)
      else (let s1 = finalize None (ensureStarted None (s\<lparr>rx_out := []\<rparr>)) in (rx_out s1, s1)))"

text \<open>A whole stream: what each event produces, and the closing call.\<close>

fun responses_feed :: "(jvalue \<Rightarrow> utext) \<Rightarrow> jvalue list \<Rightarrow> responses_state \<Rightarrow> anthropic_event list \<times> responses_state" where
  "responses_feed json_print [] s = ([], s)"
| "responses_feed json_print (ev # evs) s =
     (let (out, s1) = responses_push json_print ev s;
          (rest, s2) = responses_feed json_print evs s1
      in (out @ rest, s2))"

definition responses_stream :: "(jvalue \<Rightarrow> utext) \<Rightarrow> utext option \<Rightarrow> jvalue list \<Rightarrow> anthropic_event list" where
  "responses_stream json_print requestModel evs =
     (let (out, s) = responses_feed json_print evs (new_responses_state requestModel) in out @ fst (responses_end s))"

end
