(* ===== verification/Responses_Request.thy ===== *)
theory Responses_Request
  imports Responses_Stream
begin

text \<open>
  The request side of the translation (\<open>anthropicToResponsesRequest\<close> of \<open>anthropic-responses-translate.ts\<close>): a
  Messages body, a JSON value, becomes a Responses request, and a whole Responses answer becomes a
  Messages answer. \<open>JSON.stringify\<close> and \<open>JSON.parse\<close> are arguments.
\<close>

section \<open>The Responses request\<close>

datatype message_role = Role_user | Role_assistant

datatype input_part = Input_text utext | Input_image utext

datatype message_content = Plain utext | Parts "input_part list"

datatype input_item =
    Input_message message_role message_content
  | Function_call utext utext utext
  | Function_call_output utext utext

record search_location =
  sl_city :: "utext option"
  sl_region :: "utext option"
  sl_country :: "utext option"
  sl_timezone :: "utext option"

datatype responses_tool =
    Function_tool utext jvalue "utext option"
  | Web_search_tool "utext list option" "search_location option"

datatype responses_tool_choice = Choice_auto | Choice_none | Choice_required | Choice_function utext | Choice_web_search

datatype responses_effort = E_none | E_minimal | E_low | E_medium | E_high | E_xhigh | E_max

datatype reasoning_summary = S_auto | S_concise | S_detailed

record responses_request =
  rq_model :: utext
  rq_input :: "input_item list"
  rq_store :: bool
  rq_instructions :: "utext option"
  rq_tools :: "responses_tool list option"
  rq_include_sources :: bool
  rq_tool_choice :: "responses_tool_choice option"
  rq_no_parallel :: bool
  rq_reasoning :: "(responses_effort \<times> reasoning_summary option) option"
  rq_max_output_tokens :: "rat option"
  rq_temperature :: "rat option"
  rq_top_p :: "rat option"
  rq_stream :: bool

section \<open>Helpers of the request\<close>

definition REASONING_EFFORT_LOW_MAX :: rat where "REASONING_EFFORT_LOW_MAX = 4096"
definition REASONING_EFFORT_MEDIUM_MAX :: rat where "REASONING_EFFORT_MEDIUM_MAX = 16384"

definition type_is :: "jvalue \<Rightarrow> string \<Rightarrow> bool" where
  "type_is v t \<longleftrightarrow> str_of (jprop (Some v) ''type'') = Some (lit t)"

definition thinkingToReasoningEffort :: "jvalue option \<Rightarrow> responses_effort option" where
  "thinkingToReasoningEffort thinking =
     (if \<not> js_truthy thinking \<or> str_of (jprop thinking ''type'') \<noteq> Some (lit ''enabled'') then None
      else (case num_of (jprop thinking ''budget_tokens'') of
              None \<Rightarrow> None
            | Some budget \<Rightarrow>
                (if budget \<le> 0 then None
                 else if budget \<le> REASONING_EFFORT_LOW_MAX then Some E_low
                 else if budget \<le> REASONING_EFFORT_MEDIUM_MAX then Some E_medium
                 else Some E_high)))"

definition text_of_block :: "jvalue \<Rightarrow> utext option" where
  "text_of_block b = (if type_is b ''text'' then str_of (jprop (Some b) ''text'') else None)"

fun join_texts :: "utext \<Rightarrow> utext list \<Rightarrow> utext" where
  "join_texts sep [] = []"
| "join_texts sep [t] = t"
| "join_texts sep (t # ts) = t @ sep @ join_texts sep ts"

definition flattenSystem :: "jvalue option \<Rightarrow> utext" where
  "flattenSystem system =
     (case system of
        Some (J_str s) \<Rightarrow> s
      | Some (J_arr bs) \<Rightarrow> join_texts [10, 10] (List.map_filter text_of_block bs)
      | _ \<Rightarrow> [])"

definition toolResultContentToString :: "(jvalue \<Rightarrow> utext) \<Rightarrow> jvalue option \<Rightarrow> utext" where
  "toolResultContentToString json_print content =
     (case content of
        None \<Rightarrow> []
      | Some J_null \<Rightarrow> []
      | Some (J_str s) \<Rightarrow> s
      | Some (J_arr bs) \<Rightarrow>
          (let texts = List.map_filter text_of_block bs
           in if texts \<noteq> [] then join_texts [10] texts else if bs \<noteq> [] then json_print (J_arr bs) else [])
      | Some v \<Rightarrow> json_print v)"

definition imageBlockToResponsesPart :: "jvalue \<Rightarrow> input_part option" where
  "imageBlockToResponsesPart block =
     (let source = jprop (Some block) ''source''
      in if \<not> is_object source then None
         else if str_of (jprop source ''type'') = Some (lit ''base64'') \<and> str_of (jprop source ''data'') \<noteq> None then
           Some (Input_image (lit ''data:'' @ opt_or (str_of (jprop source ''media_type'')) (lit ''image/png'')
             @ lit '';base64,'' @ strOr (jprop source ''data'')))
         else if str_of (jprop source ''type'') = Some (lit ''url'') then map_option Input_image (str_of (jprop source ''url''))
         else None)"

definition stringifyToolInput :: "(jvalue \<Rightarrow> utext) \<Rightarrow> jvalue option \<Rightarrow> utext" where
  "stringifyToolInput json_print inp =
     json_print (case inp of None \<Rightarrow> J_obj [] | Some J_null \<Rightarrow> J_obj [] | Some v \<Rightarrow> v)"

section \<open>Messages\<close>

definition user_output :: "(jvalue \<Rightarrow> utext) \<Rightarrow> jvalue \<Rightarrow> input_item option" where
  "user_output json_print b =
     (if type_is b ''tool_result'' then
        Some (Function_call_output (strOr (jprop (Some b) ''tool_use_id''))
          (toolResultContentToString json_print (jprop (Some b) ''content'')))
      else None)"

definition user_part :: "jvalue \<Rightarrow> input_part option" where
  "user_part b =
     (if type_is b ''tool_result'' then None
      else if text_of_block b \<noteq> None then map_option Input_text (text_of_block b)
      else if type_is b ''image'' then imageBlockToResponsesPart b
      else None)"

definition translateUserBlocks :: "(jvalue \<Rightarrow> utext) \<Rightarrow> jvalue list \<Rightarrow> input_item list" where
  "translateUserBlocks json_print blocks =
     (let out = List.map_filter (user_output json_print) blocks;
          parts = List.map_filter user_part blocks
      in out @ (case parts of
                  [Input_text t] \<Rightarrow> [Input_message Role_user (Plain t)]
                | [] \<Rightarrow> []
                | _ \<Rightarrow> [Input_message Role_user (Parts parts)]))"

definition assistant_call :: "(jvalue \<Rightarrow> utext) \<Rightarrow> jvalue \<Rightarrow> input_item option" where
  "assistant_call json_print b =
     (if type_is b ''tool_use'' then
        Some (Function_call (strOr (jprop (Some b) ''id'')) (strOr (jprop (Some b) ''name''))
          (stringifyToolInput json_print (jprop (Some b) ''input'')))
      else None)"

definition translateAssistantBlocks :: "(jvalue \<Rightarrow> utext) \<Rightarrow> jvalue list \<Rightarrow> input_item list" where
  "translateAssistantBlocks json_print blocks =
     (let texts = List.map_filter text_of_block blocks
      in (if texts \<noteq> [] then [Input_message Role_assistant (Plain (join_texts [10, 10] texts))] else [])
         @ List.map_filter (assistant_call json_print) blocks)"

definition translate_message :: "(jvalue \<Rightarrow> utext) \<Rightarrow> jvalue \<Rightarrow> input_item list" where
  "translate_message json_print msg =
     (let assistant = (str_of (jprop (Some msg) ''role'') = Some (lit ''assistant''))
      in (case jprop (Some msg) ''content'' of
            Some (J_str s) \<Rightarrow> [Input_message (if assistant then Role_assistant else Role_user) (Plain s)]
          | Some (J_arr bs) \<Rightarrow> (if assistant then translateAssistantBlocks json_print bs else translateUserBlocks json_print bs)
          | _ \<Rightarrow> []))"

section \<open>Tools\<close>

definition translate_location :: "jvalue option \<Rightarrow> search_location option" where
  "translate_location loc =
     (if is_object loc then
        Some \<lparr>sl_city = str_of (jprop loc ''city''), sl_region = str_of (jprop loc ''region''),
              sl_country = str_of (jprop loc ''country''), sl_timezone = str_of (jprop loc ''timezone'')\<rparr>
      else None)"

definition web_search_of :: "jvalue \<Rightarrow> responses_tool" where
  "web_search_of t =
     Web_search_tool
       (case jprop (Some t) ''allowed_domains'' of
          Some (J_arr ds) \<Rightarrow> (if ds = [] then None else Some (List.map_filter (\<lambda>d. str_of (Some d)) ds))
        | _ \<Rightarrow> None)
       (translate_location (jprop (Some t) ''user_location''))"

definition is_web_search :: "jvalue \<Rightarrow> bool" where
  "is_web_search t = (case str_of (jprop (Some t) ''type'') of Some s \<Rightarrow> has_prefix s (lit ''web_search'') | None \<Rightarrow> False)"

definition function_tool :: "jvalue \<Rightarrow> utext \<Rightarrow> responses_tool option" where
  "function_tool t name =
     (if is_object (jprop (Some t) ''input_schema'')
      then Some (Function_tool name (the (jprop (Some t) ''input_schema'')) (str_of (jprop (Some t) ''description'')))
      else None)"

text \<open>The loop over the tools: what is declared so far, and the name of the hosted search once there is one.\<close>

definition tool_step :: "jvalue \<Rightarrow> responses_tool list \<times> utext option \<Rightarrow> responses_tool list \<times> utext option" where
  "tool_step t acc =
     (case str_of (jprop (Some t) ''name'') of
        None \<Rightarrow> acc
      | Some name \<Rightarrow>
          (if is_web_search t \<and> snd acc = None then (fst acc @ [web_search_of t], Some name)
           else (case function_tool t name of None \<Rightarrow> acc | Some f \<Rightarrow> (fst acc @ [f], snd acc))))"

definition translate_tools :: "jvalue option \<Rightarrow> responses_tool list \<times> utext option" where
  "translate_tools tools = (case tools of Some (J_arr ts) \<Rightarrow> fold tool_step ts ([], None) | _ \<Rightarrow> ([], None))"

definition translateToolChoice :: "jvalue option \<Rightarrow> utext option \<Rightarrow> responses_tool_choice option" where
  "translateToolChoice choice webSearchName =
     (case str_of (jprop choice ''type'') of
        None \<Rightarrow> None
      | Some t \<Rightarrow>
          (if t = lit ''auto'' then Some Choice_auto
           else if t = lit ''none'' then Some Choice_none
           else if t = lit ''any'' then Some Choice_required
           else if t = lit ''tool'' then
             (case str_of (jprop choice ''name'') of
                None \<Rightarrow> Some Choice_required
              | Some n \<Rightarrow> Some (if webSearchName = Some n then Choice_web_search else Choice_function n))
           else None))"

section \<open>The request\<close>

fun REASONING_HEADROOM :: "responses_effort \<Rightarrow> rat" where
  "REASONING_HEADROOM E_none = 0"
| "REASONING_HEADROOM E_minimal = 6000"
| "REASONING_HEADROOM E_low = 12000"
| "REASONING_HEADROOM E_medium = 25000"
| "REASONING_HEADROOM E_high = 50000"
| "REASONING_HEADROOM E_xhigh = 80000"
| "REASONING_HEADROOM E_max = 120000"

definition RESPONSES_MAX_OUTPUT_CAP :: rat where "RESPONSES_MAX_OUTPUT_CAP = 128000"

text \<open>\<open>reasoningSummary\<close>: absent, \<open>null\<close>, or a value.\<close>

record translate_options =
  to_summary :: "reasoning_summary option option"
  to_effort :: "responses_effort option"
  to_store :: "bool option"

definition anthropicToResponsesRequest :: "(jvalue \<Rightarrow> utext) \<Rightarrow> jvalue \<Rightarrow> utext \<Rightarrow> translate_options \<Rightarrow> responses_request" where
  "anthropicToResponsesRequest json_print body targetModel options =
     (let p = jprop (Some body);
          inp = (case p ''messages'' of Some (J_arr ms) \<Rightarrow> concat (map (translate_message json_print) ms) | _ \<Rightarrow> []);
          instructions = flattenSystem (p ''system'');
          (tools, webSearchName) = translate_tools (p ''tools'');
          effort = (case to_effort options of Some e \<Rightarrow> Some e | None \<Rightarrow> thinkingToReasoningEffort (p ''thinking''))
      in \<lparr>rq_model = targetModel, rq_input = inp, rq_store = opt_or (to_store options) False,
          rq_instructions = (if instructions = [] then None else Some instructions),
          rq_tools = (if tools = [] then None else Some tools),
          rq_include_sources = (webSearchName \<noteq> None),
          rq_tool_choice = (if tools = [] then None else translateToolChoice (p ''tool_choice'') webSearchName),
          rq_no_parallel = (tools \<noteq> [] \<and> jprop (p ''tool_choice'') ''disable_parallel_tool_use'' = Some (J_bool True)),
          rq_reasoning = map_option (\<lambda>e. (e, case to_summary options of None \<Rightarrow> Some S_auto | Some s \<Rightarrow> s)) effort,
          rq_max_output_tokens =
            (case num_of (p ''max_tokens'') of
               None \<Rightarrow> None
             | Some n \<Rightarrow> (if n > 0
                 then Some (min RESPONSES_MAX_OUTPUT_CAP (n + (case effort of Some e \<Rightarrow> REASONING_HEADROOM e | None \<Rightarrow> 0)))
                 else None)),
          rq_temperature = (if effort = None then num_of (p ''temperature'') else None),
          rq_top_p = (if effort = None then num_of (p ''top_p'') else None),
          rq_stream = (p ''stream'' = Some (J_bool True))\<rparr>)"

section \<open>The shape of a request\<close>

text \<open>What the Responses API takes, as far as the code's comments say.\<close>

fun input_item_ok :: "input_item \<Rightarrow> bool" where
  "input_item_ok (Input_message Role_assistant (Parts _)) = False"
| "input_item_ok (Input_message Role_user (Parts [])) = False"
| "input_item_ok (Input_message Role_user (Parts [Input_text _])) = False"
| "input_item_ok _ = True"

fun is_hosted_search :: "responses_tool \<Rightarrow> bool" where
  "is_hosted_search (Web_search_tool _ _) = True"
| "is_hosted_search _ = False"

fun responses_tool_ok :: "responses_tool \<Rightarrow> bool" where
  "responses_tool_ok (Function_tool _ schema _) = is_object (Some schema)"
| "responses_tool_ok (Web_search_tool _ _) = True"

definition declared_tools :: "responses_request \<Rightarrow> responses_tool list" where
  "declared_tools r = opt_or (rq_tools r) []"

definition declared_functions :: "responses_request \<Rightarrow> utext set" where
  "declared_functions r = {n. \<exists>s d. Function_tool n s d \<in> set (declared_tools r)}"

definition request_shape :: "responses_request \<Rightarrow> bool" where
  "request_shape r \<longleftrightarrow>
     list_all input_item_ok (rq_input r) \<and> rq_instructions r \<noteq> Some [] \<and> rq_tools r \<noteq> Some []
     \<and> list_all responses_tool_ok (declared_tools r)
     \<and> length (filter is_hosted_search (declared_tools r)) = (if rq_include_sources r then 1 else 0)
     \<and> (rq_tools r = None \<longrightarrow> rq_tool_choice r = None \<and> \<not> rq_no_parallel r)
     \<and> (rq_tool_choice r = Some Choice_web_search \<longrightarrow> rq_include_sources r)
     \<and> (case rq_max_output_tokens r of Some n \<Rightarrow> 0 < n \<and> n \<le> RESPONSES_MAX_OUTPUT_CAP | None \<Rightarrow> True)
     \<and> (rq_reasoning r \<noteq> None \<longrightarrow> rq_temperature r = None \<and> rq_top_p r = None)"

text \<open>
  The last demand of the API: a function that is forced is one of the declared ones (the backend answers 400
  otherwise, says the comment in \<open>translateToolChoice\<close>). Beside it, the same question asked of the client's body:
  does a tool of that name come with a schema?
\<close>

definition forced_function :: "responses_request \<Rightarrow> utext option" where
  "forced_function r = (case rq_tool_choice r of Some (Choice_function n) \<Rightarrow> Some n | _ \<Rightarrow> None)"

definition request_ok :: "responses_request \<Rightarrow> bool" where
  "request_ok r \<longleftrightarrow> request_shape r \<and> set_option (forced_function r) \<subseteq> declared_functions r"

definition has_schema :: "utext \<Rightarrow> jvalue \<Rightarrow> bool" where
  "has_schema n t \<longleftrightarrow> str_of (jprop (Some t) ''name'') = Some n \<and> is_object (jprop (Some t) ''input_schema'')"

definition body_tools :: "jvalue \<Rightarrow> jvalue list" where
  "body_tools body = (case jprop (Some body) ''tools'' of Some (J_arr ts) \<Rightarrow> ts | _ \<Rightarrow> [])"

definition forced_has_schema :: "jvalue \<Rightarrow> responses_request \<Rightarrow> bool" where
  "forced_has_schema body r = (case forced_function r of Some n \<Rightarrow> list_ex (has_schema n) (body_tools body) | None \<Rightarrow> True)"

lemma map_filter_Nil [simp]: "List.map_filter f [] = []"
  by (simp add: map_filter_simps)

lemma map_filter_Cons: "List.map_filter f (x # xs) = (case f x of None \<Rightarrow> [] | Some y \<Rightarrow> [y]) @ List.map_filter f xs"
  by (simp add: map_filter_simps split: option.splits)

lemma user_blocks_ok: "list_all input_item_ok (translateUserBlocks pr bs)"
proof -
  have "list_all input_item_ok (List.map_filter (user_output pr) bs)"
    by (induction bs) (auto simp: map_filter_Cons user_output_def split: option.splits if_splits)
  then show ?thesis
    unfolding translateUserBlocks_def Let_def
    by (auto split: list.splits input_part.splits)
qed

lemma assistant_blocks_ok: "list_all input_item_ok (translateAssistantBlocks pr bs)"
proof -
  have "list_all input_item_ok (List.map_filter (assistant_call pr) bs)"
    by (induction bs) (auto simp: map_filter_Cons assistant_call_def split: option.splits if_splits)
  then show ?thesis unfolding translateAssistantBlocks_def Let_def by auto
qed

lemma message_ok: "list_all input_item_ok (translate_message pr msg)"
  unfolding translate_message_def Let_def
  by (auto simp: user_blocks_ok assistant_blocks_ok split: option.splits jvalue.splits)

definition tools_ok :: "responses_tool list \<times> utext option \<Rightarrow> bool" where
  "tools_ok acc \<longleftrightarrow> list_all responses_tool_ok (fst acc)
     \<and> length (filter is_hosted_search (fst acc)) = (if snd acc = None then 0 else 1)"

lemma function_tool_ok: "function_tool t n = Some f \<Longrightarrow> responses_tool_ok f \<and> \<not> is_hosted_search f"
  unfolding function_tool_def by (auto simp: is_object_def split: if_splits option.splits)

lemma search_tool_ok [simp]: "responses_tool_ok (web_search_of t)" "is_hosted_search (web_search_of t)"
  by (simp_all add: web_search_of_def)

lemma tool_step_ok: "tools_ok acc \<Longrightarrow> tools_ok (tool_step t acc)"
  unfolding tools_ok_def tool_step_def
  by (auto dest: function_tool_ok split: option.splits)

lemma translate_tools_ok: "tools_ok (translate_tools v)"
proof -
  have "tools_ok (fold tool_step ts acc)" if "tools_ok acc" for ts acc
    using that by (induction ts arbitrary: acc) (auto simp: tool_step_ok)
  moreover have "tools_ok ([], None)" by (simp add: tools_ok_def)
  ultimately show ?thesis unfolding translate_tools_def by (auto split: option.splits jvalue.splits)
qed

lemma choice_search_named: "translateToolChoice c w = Some Choice_web_search \<Longrightarrow> w \<noteq> None"
  unfolding translateToolChoice_def by (auto split: option.splits if_splits)

lemma headroom_nonneg: "0 \<le> REASONING_HEADROOM e"
  by (cases e) simp_all

lemma translated_shape: "request_shape (anthropicToResponsesRequest json_print body targetModel opts)"
proof -
  obtain tools w where tw: "translate_tools (jprop (Some body) ''tools'') = (tools, w)" by fastforce
  have t: "list_all responses_tool_ok tools" "length (filter is_hosted_search tools) = (if w = None then 0 else 1)"
    using translate_tools_ok [of "jprop (Some body) ''tools''"] unfolding tw tools_ok_def by auto
  have w: "tools = [] \<Longrightarrow> w = None" using t(2) by (auto split: if_splits)
  have inp: "list_all input_item_ok (concat (map (translate_message json_print) ms))" for ms
    by (induction ms) (simp_all add: message_ok)
  have pos: "0 < n \<Longrightarrow> 0 < n + REASONING_HEADROOM e" for n e using headroom_nonneg [of e] by linarith
  show ?thesis
    unfolding request_shape_def anthropicToResponsesRequest_def Let_def tw declared_tools_def
    using t w inp
    by (auto simp: RESPONSES_MAX_OUTPUT_CAP_def pos dest: choice_search_named split: option.splits jvalue.splits)
qed

lemma function_declared_from:
  "Function_tool n s d \<in> set (fst (fold tool_step ts acc))
     \<Longrightarrow> Function_tool n s d \<in> set (fst acc) \<or> (\<exists>t \<in> set ts. has_schema n t)"
proof (induction ts arbitrary: acc)
  case (Cons t ts)
  have "Function_tool n s d \<in> set (fst (tool_step t acc)) \<Longrightarrow> Function_tool n s d \<in> set (fst acc) \<or> has_schema n t"
    unfolding tool_step_def
    by (auto simp: web_search_of_def function_tool_def has_schema_def split: option.splits if_splits)
  with Cons.IH [of "tool_step t acc"] Cons.prems show ?case by fastforce
qed simp

lemma translate_tools_body: "translate_tools (jprop (Some body) ''tools'') = fold tool_step (body_tools body) ([], None)"
  by (simp add: translate_tools_def body_tools_def split: option.splits jvalue.splits)

lemma declared_tools_translated:
  "declared_tools (anthropicToResponsesRequest json_print body m opts) = fst (translate_tools (jprop (Some body) ''tools''))"
  unfolding declared_tools_def anthropicToResponsesRequest_def Let_def by (simp split: prod.split)

lemma declared_functions_from:
  "n \<in> declared_functions (anthropicToResponsesRequest json_print body m opts) \<Longrightarrow> \<exists>t \<in> set (body_tools body). has_schema n t"
  unfolding declared_functions_def declared_tools_translated translate_tools_body
  using function_declared_from [where acc = "([], None)"] by fastforce

text \<open>A tool with a schema is declared under its name, unless it is the one that becomes the hosted search.\<close>

lemma tool_step_declares:
  "has_schema n t \<Longrightarrow> (\<exists>s d. Function_tool n s d \<in> set (fst (tool_step t acc))) \<or> snd (tool_step t acc) = Some n"
  unfolding has_schema_def tool_step_def function_tool_def by (cases acc) auto

lemma tool_step_keeps:
  "f \<in> set (fst acc) \<Longrightarrow> f \<in> set (fst (tool_step t acc))"
  "snd acc = Some n \<Longrightarrow> snd (tool_step t acc) = Some n"
  unfolding tool_step_def by (auto split: option.splits)

lemma tool_steps_keep:
  "f \<in> set (fst acc) \<Longrightarrow> f \<in> set (fst (fold tool_step ts acc))"
  "snd acc = Some n \<Longrightarrow> snd (fold tool_step ts acc) = Some n"
  by (induction ts arbitrary: acc) (simp_all add: tool_step_keeps)

lemma schema_declared:
  "\<lbrakk>t \<in> set ts; has_schema n t\<rbrakk>
     \<Longrightarrow> (\<exists>s d. Function_tool n s d \<in> set (fst (fold tool_step ts acc))) \<or> snd (fold tool_step ts acc) = Some n"
proof (induction ts arbitrary: acc)
  case (Cons u us)
  show ?case
  proof (cases "t = u")
    case True
    with tool_step_declares [OF Cons.prems(2), of acc] show ?thesis by (auto intro: tool_steps_keep)
  next
    case False
    with Cons show ?thesis by simp
  qed
qed simp

lemma forced_not_search:
  "forced_function (anthropicToResponsesRequest json_print body m opts) = Some n
     \<Longrightarrow> snd (translate_tools (jprop (Some body) ''tools'')) \<noteq> Some n"
  unfolding forced_function_def anthropicToResponsesRequest_def Let_def translateToolChoice_def
  by (auto split: prod.splits option.splits if_splits)

lemma forced_declared_iff:
  assumes "forced_function (anthropicToResponsesRequest json_print body m opts) = Some n"
  shows "n \<in> declared_functions (anthropicToResponsesRequest json_print body m opts) \<longleftrightarrow> list_ex (has_schema n) (body_tools body)"
proof
  assume "list_ex (has_schema n) (body_tools body)"
  then obtain t where "t \<in> set (body_tools body)" "has_schema n t" by (auto simp: list_ex_iff)
  from schema_declared [OF this, of "([], None)"] forced_not_search [OF assms]
  show "n \<in> declared_functions (anthropicToResponsesRequest json_print body m opts)"
    by (auto simp: declared_functions_def declared_tools_translated translate_tools_body)
qed (auto simp: list_ex_iff dest: declared_functions_from)

text \<open>
  C30. Whatever Messages body arrives, the request that is sent has the shape the Responses API takes: a user
  message with parts has some and is not a lone text, an assistant message is plain text, every function
  carries a schema, there is at most one hosted search and its sources are asked for exactly when it is there,
  a tool choice or a ban on parallel calls goes only with tools, the hosted search is forced only when it is
  declared, the output limit is positive and at most 128000, and sampling parameters go only without reasoning.
  The last demand, that a forced function is one the request declares, is met exactly when the client declares a
  tool of that name with a schema; when it does not, the choice is sent all the same
  (\<open>forced_choice_undeclared\<close>).
\<close>

theorem translated_request_typed:
  "request_shape (anthropicToResponsesRequest json_print body targetModel opts)
    \<and> (request_ok (anthropicToResponsesRequest json_print body targetModel opts)
         \<longleftrightarrow> forced_has_schema body (anthropicToResponsesRequest json_print body targetModel opts))"
  by (auto simp: request_ok_def translated_shape forced_has_schema_def forced_declared_iff split: option.splits)

section \<open>A forced tool\<close>

text \<open>
  A choice that forces a tool the translation skips, one without an \<open>input_schema\<close>, is still sent, as long as
  another tool is declared: the request forces a function it never declares, which the comment in
  \<open>translateToolChoice\<close> says the backend answers with a 400.
\<close>

theorem forced_choice_undeclared:
  assumes "str_of (jprop (jprop (Some body) ''tool_choice'') ''type'') = Some (lit ''tool'')"
    and "str_of (jprop (jprop (Some body) ''tool_choice'') ''name'') = Some n"
    and "\<not> list_ex (has_schema n) (body_tools body)"
    and "declared_tools (anthropicToResponsesRequest json_print body m opts) \<noteq> []"
    and "snd (translate_tools (jprop (Some body) ''tools'')) \<noteq> Some n"
  shows "rq_tool_choice (anthropicToResponsesRequest json_print body m opts) = Some (Choice_function n)
    \<and> n \<notin> declared_functions (anthropicToResponsesRequest json_print body m opts)"
proof
  show "rq_tool_choice (anthropicToResponsesRequest json_print body m opts) = Some (Choice_function n)"
    using assms unfolding declared_tools_def anthropicToResponsesRequest_def Let_def translateToolChoice_def
    by (auto split: prod.splits if_splits)
  show "n \<notin> declared_functions (anthropicToResponsesRequest json_print body m opts)"
    using declared_functions_from assms(3) by (metis list_ex_iff)
qed

definition forced_body :: jvalue where
  "forced_body =
     J_obj [(lit ''tools'', J_arr
              [J_obj [(lit ''name'', J_str (lit ''bash'')), (lit ''type'', J_str (lit ''bash_20250124''))],
               J_obj [(lit ''name'', J_str (lit ''read'')), (lit ''input_schema'', J_obj [])]]),
            (lit ''tool_choice'', J_obj [(lit ''type'', J_str (lit ''tool'')), (lit ''name'', J_str (lit ''bash''))])]"

definition plain_options :: translate_options where
  "plain_options = \<lparr>to_summary = None, to_effort = None, to_store = None\<rparr>"

theorem forced_choice_undeclared_witness:
  "rq_tool_choice (anthropicToResponsesRequest (\<lambda>_. []) forced_body (lit ''gpt'') plain_options) = Some (Choice_function (lit ''bash''))
    \<and> lit ''bash'' \<notin> declared_functions (anthropicToResponsesRequest (\<lambda>_. []) forced_body (lit ''gpt'') plain_options)"
  by (rule forced_choice_undeclared) code_simp+

end
