(* ===== verification/Responses_Legal.thy ===== *)
theory Responses_Legal
  imports Responses_Stream
begin

text \<open>
  The translated stream is a legal message when the upstream keeps its own order: the deltas of a reasoning
  item come while it is the last item added, and a web search is finished before another item begins. Where
  a reasoning delta comes outside its item, the stream is not legal.
\<close>

section \<open>What the client sees\<close>

fun ant_wire :: "anthropic_event \<Rightarrow> wire_event" where
  "ant_wire (Message_start _ _) = Msg_start"
| "ant_wire (Content_block_start i _) = Block_start i"
| "ant_wire (Content_block_delta i _) = Block_delta i"
| "ant_wire (Content_block_stop i) = Block_stop i"
| "ant_wire (Message_delta _ _) = Msg_delta"
| "ant_wire Message_stop = Msg_stop"

text \<open>A client's state and the translator's: before the end.\<close>

definition at_wire :: "wire \<Rightarrow> responses_state \<Rightarrow> bool" where
  "at_wire w s \<longleftrightarrow> rx_started s \<and> \<not> rx_ended s \<and>
     w = \<lparr>w_started = True, w_open = map_option ob_index (rx_open s), w_next = rx_nextIndex s, w_delta = False, w_done = False\<rparr>"

definition legal_from :: "wire \<Rightarrow> responses_state \<Rightarrow> bool" where
  "legal_from w0 s \<longleftrightarrow> (\<exists>w. wire_run (map ant_wire (rx_out s)) w0 = Some w \<and> at_wire w s)"

named_theorems legal_ops \<open>an operation keeps the stream legal\<close>

lemma legal_emit:
  assumes "legal_from w0 s" and "\<And>w. at_wire w s \<Longrightarrow> \<exists>w'. wire_step (ant_wire e) w = Some w' \<and> at_wire w' t"
    and "rx_out t = rx_out s @ [e]"
  shows "legal_from w0 t"
  using assms by (auto simp: legal_from_def wire_run_snoc)

lemma legal_silent:
  "legal_from w0 s \<Longrightarrow> rx_out t = rx_out s \<Longrightarrow> rx_started t = rx_started s \<Longrightarrow> rx_ended t = rx_ended s \<Longrightarrow>
     rx_open t = rx_open s \<Longrightarrow> rx_nextIndex t = rx_nextIndex s \<Longrightarrow> legal_from w0 t"
  by (simp add: legal_from_def at_wire_def)

lemma legal_close [legal_ops]: "legal_from w0 s \<Longrightarrow> legal_from w0 (closeOpenBlock s)"
  by (cases "rx_open s")
    (auto simp: closeOpenBlock_def intro!: legal_emit [of w0 s] simp: rx_emit_def at_wire_def wire_step_def)

lemma close_open [simp]: "rx_open (closeOpenBlock s) = None"
  by (auto simp: closeOpenBlock_def rx_emit_def split: option.split)

lemma close_frame [simp]:
  "rx_nextIndex (closeOpenBlock s) = rx_nextIndex s" "rx_blockByOutputIndex (closeOpenBlock s) = rx_blockByOutputIndex s"
  "rx_toolCalls (closeOpenBlock s) = rx_toolCalls s" "rx_waitingTools (closeOpenBlock s) = rx_waitingTools s"
  "rx_started (closeOpenBlock s) = rx_started s" "rx_ended (closeOpenBlock s) = rx_ended s"
  "rx_textByOutputIndex (closeOpenBlock s) = rx_textByOutputIndex s" "rx_sawToolCall (closeOpenBlock s) = rx_sawToolCall s"
  by (auto simp: closeOpenBlock_def rx_emit_def split: option.split)

text \<open>Opening a block when none is open.\<close>

lemma legal_open:
  assumes "legal_from w0 s" and "rx_open s = None" and "rx_out t = rx_out s @ [Content_block_start (rx_nextIndex s) b]"
    and "rx_open t = Some \<lparr>ob_kind = k, ob_index = rx_nextIndex s, ob_outputIndex = oi\<rparr>" and "rx_nextIndex t = rx_nextIndex s + 1"
    and "rx_started t = rx_started s" and "rx_ended t = rx_ended s"
  shows "legal_from w0 t"
  by (rule legal_emit [OF assms(1) _ assms(3)]) (use assms in \<open>auto simp: at_wire_def wire_step_def\<close>)

lemma synthetic_frame [simp]:
  "rx_out (snd (synthetic_id own p s)) = rx_out s" "rx_open (snd (synthetic_id own p s)) = rx_open s"
  "rx_nextIndex (snd (synthetic_id own p s)) = rx_nextIndex s" "rx_started (snd (synthetic_id own p s)) = rx_started s"
  "rx_ended (snd (synthetic_id own p s)) = rx_ended s" "rx_toolCalls (snd (synthetic_id own p s)) = rx_toolCalls s"
  "rx_waitingTools (snd (synthetic_id own p s)) = rx_waitingTools s"
  "rx_blockByOutputIndex (snd (synthetic_id own p s)) = rx_blockByOutputIndex s"
  by (simp_all add: synthetic_id_def)

lemma legal_openTool [legal_ops]: "legal_from w0 s \<Longrightarrow> rx_open s = None \<Longrightarrow> legal_from w0 (openToolBlock item oi s)"
  by (rule legal_open, assumption, assumption)
    (auto simp: openToolBlock_def rx_emit_def place_block_def Let_def split_def)

lemma legal_openSearch [legal_ops]: "legal_from w0 s \<Longrightarrow> rx_open s = None \<Longrightarrow> legal_from w0 (openSearchBlock item oi s)"
  by (rule legal_open, assumption, assumption)
    (auto simp: openSearchBlock_def rx_emit_def place_block_def Let_def split_def)

lemma legal_openThinking [legal_ops]: "legal_from w0 s \<Longrightarrow> rx_open s = None \<Longrightarrow> legal_from w0 (openThinkingBlock oi s)"
  by (rule legal_open, assumption, assumption) (auto simp: openThinkingBlock_def rx_emit_def place_block_def)

lemma legal_delta:
  assumes "legal_from w0 s" and "rx_open s = Some b"
  shows "legal_from w0 (rx_emit (Content_block_delta (ob_index b) d) s)"
  by (rule legal_emit [OF assms(1)]) (use assms in \<open>auto simp: at_wire_def wire_step_def rx_emit_def\<close>)

lemma open_is_Some: "open_is k oi s \<longleftrightarrow> (\<exists>b. rx_open s = Some b \<and> ob_kind b = k \<and> ob_outputIndex b = oi)"
  by (simp add: open_is_def split: option.split)

lemma legal_set_call [legal_ops]: "legal_from w0 s \<Longrightarrow> legal_from w0 (set_call oi c s)"
  by (erule legal_silent) (simp_all add: set_call_def)

lemma legal_toolCall [legal_ops]: "legal_from w0 s \<Longrightarrow> legal_from w0 (snd (toolCall oi item s))"
  by (erule legal_silent) (auto simp: toolCall_def Let_def split: option.split)

lemma legal_send [legal_ops]: "legal_from w0 s \<Longrightarrow> legal_from w0 (sendToolArgs oi c s)"
  using legal_delta [of w0 s]
  by (auto simp: sendToolArgs_def open_is_Some open_index_def intro!: legal_set_call)

lemma legal_ensureText [legal_ops]: "legal_from w0 s \<Longrightarrow> legal_from w0 (snd (ensureTextBlock oi s))"
proof (cases "open_is K_text oi s")
  case False
  assume "legal_from w0 s"
  then have l: "legal_from w0 (closeOpenBlock s)" by (rule legal_close)
  have "legal_from w0 (rx_emit (Content_block_start (rx_nextIndex (closeOpenBlock s)) (Text_block []))
      (place_block K_text oi (closeOpenBlock s)))"
    by (rule legal_open [OF l close_open]) (auto simp: rx_emit_def place_block_def)
  with False show ?thesis by (simp add: ensureTextBlock_def Let_def)
qed (simp add: ensureTextBlock_def)

lemma ensureText_open:
  "\<exists>b. rx_open (snd (ensureTextBlock oi s)) = Some b \<and> ob_index b = fst (ensureTextBlock oi s)
     \<and> ob_kind b = K_text \<and> ob_outputIndex b = oi"
  by (auto simp: ensureTextBlock_def open_is_Some open_index_def Let_def rx_emit_def place_block_def)

lemma legal_place [legal_ops]: "legal_from w0 s \<Longrightarrow> legal_from w0 (placeToolCall oi c s)"
  by (auto simp: placeToolCall_def intro!: legal_send legal_openTool legal_close elim: legal_silent)

lemma legal_drain_one [legal_ops]: "legal_from w0 s \<Longrightarrow> legal_from w0 (drain_one oi s)"
  by (auto simp: drain_one_def Let_def split_def intro!: legal_send legal_openTool legal_close legal_toolCall)

lemma legal_waiting: "legal_from w0 s \<Longrightarrow> legal_from w0 (s\<lparr>rx_waitingTools := ws\<rparr>)"
  by (erule legal_silent) simp_all

lemma legal_drain_queue: "legal_from w0 s \<Longrightarrow> legal_from w0 (drain_queue ws s)"
  by (induction ws s rule: drain_queue.induct) (auto intro: legal_waiting legal_drain_one)

lemma legal_settle [legal_ops]: "legal_from w0 s \<Longrightarrow> legal_from w0 (settleToolCalls s)"
  unfolding settleToolCalls_def drainToolCalls_def
  by (intro legal_close legal_drain_queue) (erule legal_silent, simp_all)

lemma settle_open [simp]: "rx_open (settleToolCalls s) = None"
  by (simp add: settleToolCalls_def)

lemma legal_close_if [legal_ops]: "legal_from w0 s \<Longrightarrow> legal_from w0 (close_if_open oi s)"
  by (auto simp: close_if_open_def intro: legal_close split: option.split)

lemma legal_mark [legal_ops]: "legal_from w0 s \<Longrightarrow> legal_from w0 (mark_done oi s)"
  by (auto simp: mark_done_def intro: legal_set_call split: option.split)

section \<open>The upstream's order\<close>

text \<open>
  The reasoning or search item in progress, if the last item added is one and nothing else has begun;
  \<open>None\<close> in place of a next state when the event is out of order.
\<close>

type_synonym item_in_progress = "(block_kind \<times> rat) option"

definition added_item :: "jvalue option \<Rightarrow> item_in_progress" where
  "added_item ev =
     (if item_type ev = Some (lit ''reasoning'') then Some (K_thinking, out_index ev)
      else if item_type ev = Some (lit ''web_search_call'') then Some (K_search, out_index ev) else None)"

definition upstream_typed :: "utext \<Rightarrow> jvalue option \<Rightarrow> item_in_progress \<Rightarrow> item_in_progress option" where
  "upstream_typed t ev cur =
     (if t = lit ''response.output_item.added'' then Some (added_item ev)
      else if t = lit ''response.output_text.delta'' then Some (if nonempty_delta ev = None then cur else None)
      else if t = lit ''response.output_text.annotation.added'' then Some (if citation_url ev = None then cur else None)
      else if t = lit ''response.function_call_arguments.delta'' \<or> t = lit ''response.function_call_arguments.done'' then Some None
      else if t = lit ''response.reasoning_summary_text.delta'' \<or> t = lit ''response.reasoning_text.delta'' then
        (if nonempty_delta ev = None \<or> cur = Some (K_thinking, out_index ev) then Some cur else None)
      else if t = lit ''response.output_item.done'' then
        (if item_type ev = Some (lit ''web_search_call'') then (if cur = Some (K_search, out_index ev) then Some None else None)
         else if item_type ev = Some (lit ''function_call'') then Some None
         else Some (if map_option snd cur = Some (out_index ev) then None else cur))
      else Some cur)"

definition upstream_step :: "jvalue \<Rightarrow> item_in_progress \<Rightarrow> item_in_progress option" where
  "upstream_step ev cur =
     (case str_of (jprop (Some ev) ''type'') of None \<Rightarrow> Some cur | Some t \<Rightarrow> upstream_typed t (Some ev) cur)"

fun upstream_ordered :: "jvalue list \<Rightarrow> item_in_progress \<Rightarrow> bool" where
  "upstream_ordered [] cur = True"
| "upstream_ordered (ev # evs) cur = (case upstream_step ev cur of None \<Rightarrow> False | Some cur' \<Rightarrow> upstream_ordered evs cur')"

text \<open>The item in progress has the open block.\<close>

definition in_progress :: "item_in_progress \<Rightarrow> responses_state \<Rightarrow> bool" where
  "in_progress cur s \<longleftrightarrow>
     (case cur of
        None \<Rightarrow> True
      | Some (k, oi) \<Rightarrow> open_is k oi s \<and> (k = K_search \<longrightarrow> map_of (rx_blockByOutputIndex s) oi = Some (K_search, open_index s)))"

lemma in_progress_None [simp]: "in_progress None s"
  by (simp add: in_progress_def)

lemma in_progress_cong:
  "rx_open t = rx_open s \<Longrightarrow> rx_blockByOutputIndex t = rx_blockByOutputIndex s \<Longrightarrow> in_progress cur t = in_progress cur s"
  by (cases cur) (auto simp: in_progress_def open_is_def open_index_def)

section \<open>Every event keeps the stream legal\<close>

lemma legal_finishSearch:
  assumes "legal_from w0 s" and "in_progress (Some (K_search, oi)) s"
  shows "legal_from w0 (finishSearchBlock json_print item oi s)"
proof -
  let ?d = "Input_json_delta (json_print (search_input (jprop item ''action'')))"
  from assms(2) obtain b where b: "rx_open s = Some b" "map_of (rx_blockByOutputIndex s) oi = Some (K_search, ob_index b)"
    by (auto simp: in_progress_def open_is_Some open_index_def)
  define t where "t = closeOpenBlock (rx_emit (Content_block_delta (ob_index b) ?d) s)"
  have t: "legal_from w0 t" "rx_open t = None"
    unfolding t_def by (simp_all add: legal_close legal_delta [OF assms(1) b(1)])
  let ?r = "Web_search_tool_result (opt_or (map_of (rx_searchIdByOutputIndex t) oi) []) (search_results (jprop item ''action''))"
  define u where "u = (rx_emit (Content_block_start (rx_nextIndex t) ?r) (t\<lparr>rx_nextIndex := rx_nextIndex t + 1\<rparr>))
      \<lparr>rx_open := Some \<lparr>ob_kind = K_search, ob_index = rx_nextIndex t, ob_outputIndex = oi\<rparr>\<rparr>"
  have "legal_from w0 u" by (rule legal_open [OF t]) (auto simp: u_def rx_emit_def)
  then have "legal_from w0 (closeOpenBlock u)" by (rule legal_close)
  moreover have "rx_nextIndex s = rx_nextIndex t" by (simp add: t_def rx_emit_def)
  with t(2) have "closeOpenBlock u = finishSearchBlock json_print item oi s"
    unfolding finishSearchBlock_def b(2) option.case prod.case block_kind.case t_def [symmetric] Let_def
    by (cases t) (simp add: closeOpenBlock_def u_def rx_emit_def)
  ultimately show ?thesis by simp
qed

lemma legal_item_added: "legal_from w0 s \<Longrightarrow> legal_from w0 (item_added ev s)"
  by (auto simp: item_added_def Let_def split_def intro!: legal_place legal_toolCall legal_openThinking legal_openSearch legal_settle)

lemma added_in_progress: "in_progress (added_item ev) (item_added ev s)"
  by (auto simp: added_item_def item_added_def in_progress_def open_is_def open_index_def Let_def split_def
      openThinkingBlock_def openSearchBlock_def rx_emit_def place_block_def update_conv')

lemma legal_delta_ensured:
  assumes "legal_from w0 s" and "rx_open t = rx_open (snd (ensureTextBlock oi s))"
    and "rx_out t = rx_out (snd (ensureTextBlock oi s))" and "rx_nextIndex t = rx_nextIndex (snd (ensureTextBlock oi s))"
    and "rx_started t = rx_started (snd (ensureTextBlock oi s))" and "rx_ended t = rx_ended (snd (ensureTextBlock oi s))"
  shows "legal_from w0 (rx_emit (Content_block_delta (fst (ensureTextBlock oi s)) d) t)"
proof -
  from ensureText_open [of oi s] assms(2) obtain b
    where b: "rx_open t = Some b" "ob_index b = fst (ensureTextBlock oi s)" by auto
  have "legal_from w0 t" using assms by (intro legal_silent [OF legal_ensureText [OF assms(1)]])
  from legal_delta [OF this b(1)] b(2) show ?thesis by simp
qed

lemma legal_text: "legal_from w0 s \<Longrightarrow> legal_from w0 (text_arrived ev s)"
  by (auto simp: text_arrived_def Let_def split_def intro!: legal_delta_ensured split: option.split)

lemma legal_annotation: "legal_from w0 s \<Longrightarrow> legal_from w0 (annotation_arrived ev s)"
  by (auto simp: annotation_arrived_def Let_def split_def intro!: legal_delta_ensured split: option.split)

lemma legal_arguments: "legal_from w0 s \<Longrightarrow> legal_from w0 (arguments_arrived ev s)"
  by (auto simp: arguments_arrived_def Let_def split_def intro!: legal_place legal_set_call legal_toolCall split: option.split)

lemma legal_arguments_done: "legal_from w0 s \<Longrightarrow> legal_from w0 (arguments_done ev s)"
  by (auto simp: arguments_done_def Let_def split_def intro!: legal_place legal_set_call legal_toolCall)

lemma legal_reasoning:
  assumes "legal_from w0 s" and "nonempty_delta ev = None \<or> in_progress (Some (K_thinking, out_index ev)) s"
  shows "legal_from w0 (reasoning_arrived ev s) \<and> rx_open (reasoning_arrived ev s) = rx_open s
    \<and> rx_blockByOutputIndex (reasoning_arrived ev s) = rx_blockByOutputIndex s"
proof (cases "nonempty_delta ev")
  case None
  with assms(1) show ?thesis by (simp add: reasoning_arrived_def)
next
  case (Some d)
  with assms(2) obtain b where b: "rx_open s = Some b" "open_is K_thinking (out_index ev) s"
    by (auto simp: in_progress_def open_is_Some)
  then have "reasoning_arrived ev s = rx_emit (Content_block_delta (ob_index b) (Thinking_delta d)) s"
    by (simp add: reasoning_arrived_def Some resolveThinkingBlock_def open_index_def)
  with legal_delta [OF assms(1) b(1)] show ?thesis by (simp add: rx_emit_def)
qed

lemma legal_drainAll: "legal_from w0 s \<Longrightarrow> legal_from w0 (drainToolCalls s)"
  by (simp add: drainToolCalls_def legal_drain_queue)

lemma legal_item_done:
  assumes "legal_from w0 s" and "item_type ev = Some (lit ''web_search_call'') \<longrightarrow> in_progress (Some (K_search, out_index ev)) s"
  shows "legal_from w0 (item_done json_print ev s)"
  using assms
  by (auto simp: item_done_def Let_def split_def
      intro!: legal_finishSearch legal_drainAll legal_close_if legal_mark legal_place legal_set_call legal_toolCall)

lemma done_in_progress:
  assumes "in_progress cur s" and "item_type ev \<noteq> Some (lit ''web_search_call'')" and "item_type ev \<noteq> Some (lit ''function_call'')"
    and "map_option snd cur \<noteq> Some (out_index ev)"
  shows "in_progress cur (item_done json_print ev s)"
  using assms by (auto simp: item_done_def close_if_open_def in_progress_def open_is_Some split: option.splits)

section \<open>The whole stream\<close>

text \<open>A client's state and the translator's between two calls.\<close>

definition at_rest :: "wire \<Rightarrow> responses_state \<Rightarrow> bool" where
  "at_rest w s \<longleftrightarrow>
     (if rx_ended s then w_done w \<and> w_open w = None
      else if rx_started s then at_wire w s
      else w = fresh_wire \<and> rx_open s = None \<and> rx_nextIndex s = 0)"

lemma legal_start:
  assumes "at_rest w s" and "\<not> rx_ended s"
  shows "legal_from w (ensureStarted ev (s\<lparr>rx_out := []\<rparr>))"
  using assms
  by (auto simp: at_rest_def ensureStarted_def legal_from_def at_wire_def rx_emit_def fresh_wire_def wire_step_def Let_def split: if_splits)

lemma started_frame [simp]:
  "rx_open (ensureStarted ev s) = rx_open s" "rx_blockByOutputIndex (ensureStarted ev s) = rx_blockByOutputIndex s"
  "rx_ended (ensureStarted ev s) = rx_ended s" "rx_toolCalls (ensureStarted ev s) = rx_toolCalls s"
  "rx_waitingTools (ensureStarted ev s) = rx_waitingTools s"
  by (simp_all add: ensureStarted_def rx_emit_def Let_def)

lemma in_progress_start: "in_progress cur (ensureStarted ev (s\<lparr>rx_out := []\<rparr>)) = in_progress cur s"
  by (rule in_progress_cong) simp_all

lemma finalize_ends:
  assumes "legal_from w0 s"
  shows "\<exists>w. wire_run (map ant_wire (rx_out (finalize resp s))) w0 = Some w \<and> at_rest w (finalize resp s) \<and> rx_ended (finalize resp s)"
  using legal_settle [OF assms]
  by (auto simp: finalize_def Let_def rx_emit_def legal_from_def at_wire_def at_rest_def wire_run_append wire_step_def)

lemma legal_at_rest:
  "legal_from w0 s \<Longrightarrow> \<exists>w. wire_run (map ant_wire (rx_out s)) w0 = Some w \<and> at_rest w s"
  by (auto simp: legal_from_def at_rest_def at_wire_def)

lemma typed_legal:
  assumes "legal_from w0 (ensureStarted ev s)" and "\<not> terminal_type t" "t \<noteq> lit ''error''"
    and "upstream_typed t ev cur = Some cur'" and "in_progress cur (ensureStarted ev s)"
  shows "legal_from w0 (push_typed json_print t ev s) \<and> in_progress cur' (push_typed json_print t ev s)"
proof -
  note t = assms(4) [unfolded upstream_typed_def]
  consider (added) "t = lit ''response.output_item.added''"
    | (txt') "t = lit ''response.output_text.delta''"
    | (ann) "t = lit ''response.output_text.annotation.added''"
    | (args) "t = lit ''response.function_call_arguments.delta''"
    | (args_done) "t = lit ''response.function_call_arguments.done''"
    | (reason) "t = lit ''response.reasoning_summary_text.delta'' \<or> t = lit ''response.reasoning_text.delta''"
    | (finished) "t = lit ''response.output_item.done''"
    | (other) "t \<noteq> lit ''response.output_item.added''" "t \<noteq> lit ''response.output_text.delta''"
        "t \<noteq> lit ''response.output_text.annotation.added''" "t \<noteq> lit ''response.function_call_arguments.delta''"
        "t \<noteq> lit ''response.function_call_arguments.done''"
        "\<not> (t = lit ''response.reasoning_summary_text.delta'' \<or> t = lit ''response.reasoning_text.delta'')"
        "t \<noteq> lit ''response.output_item.done''" by blast
  then show ?thesis
  proof cases
    case added
    with t have "cur' = added_item ev" by simp
    with added assms show ?thesis by (simp add: push_typed_def legal_item_added added_in_progress)
  next
    case txt'
    with t assms show ?thesis
      by (auto simp: push_typed_def legal_text split: if_splits) (simp add: text_arrived_def)
  next
    case ann
    with t assms show ?thesis
      by (auto simp: push_typed_def legal_annotation split: if_splits) (simp add: annotation_arrived_def)
  next
    case args
    with t assms show ?thesis by (auto simp: push_typed_def legal_arguments)
  next
    case args_done
    with t assms show ?thesis by (auto simp: push_typed_def legal_arguments_done)
  next
    case reason
    then have r: "push_typed json_print t ev s = reasoning_arrived ev (ensureStarted ev s)"
      using assms(2,3) by (auto simp: push_typed_def)
    from reason t have c: "nonempty_delta ev = None \<or> cur = Some (K_thinking, out_index ev)" "cur' = cur"
      by (auto split: if_splits)
    with assms(5) have "nonempty_delta ev = None \<or> in_progress (Some (K_thinking, out_index ev)) (ensureStarted ev s)" by auto
    note l = legal_reasoning [OF assms(1) this]
    have "in_progress cur (reasoning_arrived ev (ensureStarted ev s)) = in_progress cur (ensureStarted ev s)"
      by (rule in_progress_cong) (use l in simp_all)
    with l assms(5) c(2) show ?thesis unfolding r by simp
  next
    case finished
    then have r: "push_typed json_print t ev s = item_done json_print ev (ensureStarted ev s)"
      using assms(2,3) by (auto simp: push_typed_def)
    from finished t assms(5) have "legal_from w0 (item_done json_print ev (ensureStarted ev s))"
      by (intro legal_item_done [OF assms(1)]) (auto split: if_splits)
    moreover have "in_progress cur' (item_done json_print ev (ensureStarted ev s))"
      using finished t assms(5) done_in_progress [OF assms(5)] by (auto split: if_splits)
    ultimately show ?thesis unfolding r by simp
  next
    case other
    with t assms show ?thesis by (simp add: push_typed_def)
  qed
qed

lemma push_legal:
  assumes "at_rest w s" and "in_progress cur s" and "upstream_step ev cur = Some cur'"
    and p: "responses_push json_print ev s = (out, s')"
  shows "\<exists>w'. wire_run (map ant_wire out) w = Some w' \<and> at_rest w' s' \<and> (rx_ended s' \<or> in_progress cur' s')"
proof (cases "rx_ended s")
  case True
  with assms show ?thesis by (simp add: responses_push_def)
next
  case nended: False
  show ?thesis
  proof (cases "str_of (jprop (Some ev) ''type'')")
    case None
    with assms nended show ?thesis by (simp add: responses_push_def upstream_step_def)
  next
    case (Some t)
    let ?e = "Some ev"
    let ?s1 = "push_typed json_print t ?e (s\<lparr>rx_out := []\<rparr>)"
    have o: "out = rx_out ?s1" "s' = ?s1" using p nended Some by (auto simp: responses_push_def Let_def)
    have l: "legal_from w (ensureStarted ?e (s\<lparr>rx_out := []\<rparr>))" by (rule legal_start [OF assms(1) nended])
    show ?thesis
    proof (cases "terminal_type t \<or> t = lit ''error''")
      case True
      then obtain resp where "?s1 = finalize resp (ensureStarted ?e (s\<lparr>rx_out := []\<rparr>))"
        by (cases "terminal_type t") (simp_all add: push_typed_def)
      with finalize_ends [OF l, of resp] o show ?thesis by auto
    next
      case False
      have "upstream_typed t ?e cur = Some cur'" using assms(3) Some by (simp add: upstream_step_def)
      with False typed_legal [OF l, of t cur cur'] assms(2) legal_at_rest [of w ?s1] o
      show ?thesis by (auto simp: in_progress_start)
    qed
  qed
qed

lemma ended_feed: "rx_ended s \<Longrightarrow> responses_feed json_print evs s = ([], s)"
  by (induction evs) (simp_all add: responses_push_def)

lemma feed_legal:
  assumes "at_rest w s" and "rx_ended s \<or> in_progress cur s" and "upstream_ordered evs cur"
    and "responses_feed json_print evs s = (out, s')"
  shows "\<exists>w'. wire_run (map ant_wire out) w = Some w' \<and> at_rest w' s'"
  using assms
proof (induction evs arbitrary: w s cur out)
  case Nil
  then show ?case by simp
next
  case (Cons ev evs)
  show ?case
  proof (cases "rx_ended s")
    case True
    have "out = [] \<and> s' = s" using Cons.prems(4) unfolding ended_feed [OF True] by simp
    with Cons.prems(1) show ?thesis by simp
  next
    case False
    obtain o1 s1 where p: "responses_push json_print ev s = (o1, s1)" by fastforce
    obtain o2 where f: "responses_feed json_print evs s1 = (o2, s')" and out: "out = o1 @ o2"
      using Cons.prems(4) p by (auto simp: Let_def split: prod.splits)
    obtain cur' where u: "upstream_step ev cur = Some cur'" "upstream_ordered evs cur'"
      using Cons.prems(3) by (auto split: option.splits)
    from push_legal [OF Cons.prems(1) _ u(1) p] Cons.prems(2) False
    obtain w1 where w1: "wire_run (map ant_wire o1) w = Some w1" "at_rest w1 s1" "rx_ended s1 \<or> in_progress cur' s1" by auto
    from Cons.IH [OF w1(2,3) u(2) f] w1(1) out show ?thesis by (auto simp: wire_run_append)
  qed
qed

lemma end_legal:
  assumes "at_rest w s"
  shows "\<exists>w'. wire_run (map ant_wire (fst (responses_end s))) w = Some w' \<and> w_done w' \<and> w_open w' = None"
proof (cases "rx_ended s")
  case True
  with assms show ?thesis by (simp add: responses_end_def at_rest_def)
next
  case False
  from finalize_ends [OF legal_start [OF assms False, of None], of None] show ?thesis
    by (auto simp: responses_end_def Let_def at_rest_def False)
qed

text \<open>
  C7. The translated stream is one legal message. Whatever events arrive - any number of messages, function
  calls that overlap, searches, unknown events, in any number and with any fields - as long as a reasoning
  delta comes while its item is in progress and a search is finished before another item begins, what the
  client gets, the closing call included, is a complete message of the protocol: one start, blocks one at a
  time with indices in sequence, deltas only for the open block, every block closed before the one
  \<open>message_delta\<close> and the one \<open>message_stop\<close>, and nothing after it.
\<close>

theorem translated_stream_legal:
  assumes "upstream_ordered evs None"
  shows "\<exists>w. wire_run (map ant_wire (responses_stream json_print requestModel evs)) fresh_wire = Some w
    \<and> w_done w \<and> w_open w = None"
proof -
  let ?s = "new_responses_state requestModel"
  obtain out s where f: "responses_feed json_print evs ?s = (out, s)" by fastforce
  have "at_rest fresh_wire ?s" by (simp add: at_rest_def new_responses_state_def)
  from feed_legal [OF this _ assms f] obtain w where "wire_run (map ant_wire out) fresh_wire = Some w" "at_rest w s" by auto
  with end_legal [of w s] f show ?thesis by (auto simp: responses_stream_def wire_run_append)
qed

text \<open>Two overlapping calls after a piece of reasoning.\<close>

definition sample_event :: "string \<Rightarrow> rat \<Rightarrow> (utext \<times> jvalue) list \<Rightarrow> jvalue" where
  "sample_event t oi rest = J_obj ([(lit ''type'', J_str (lit t)), (lit ''output_index'', J_num oi)] @ rest)"

definition sample_item :: "string \<Rightarrow> string \<Rightarrow> (utext \<times> jvalue) list" where
  "sample_item t i = [(lit ''item'', J_obj [(lit ''type'', J_str (lit t)), (lit ''call_id'', J_str (lit i)), (lit ''name'', J_str (lit ''run''))])]"

definition sample_delta :: "string \<Rightarrow> (utext \<times> jvalue) list" where
  "sample_delta d = [(lit ''delta'', J_str (lit d))]"

definition sample_calls :: "jvalue list" where
  "sample_calls =
     [sample_event ''response.output_item.added'' 0 (sample_item ''reasoning'' []),
      sample_event ''response.reasoning_text.delta'' 0 (sample_delta ''hm''),
      sample_event ''response.output_item.added'' 1 (sample_item ''function_call'' ''a''),
      sample_event ''response.output_item.added'' 2 (sample_item ''function_call'' ''b''),
      sample_event ''response.function_call_arguments.delta'' 2 (sample_delta ''{}''),
      sample_event ''response.function_call_arguments.delta'' 1 (sample_delta ''[]''),
      sample_event ''response.output_item.done'' 2 (sample_item ''function_call'' ''b''),
      sample_event ''response.output_item.done'' 1 (sample_item ''function_call'' ''a'')]"

theorem translated_stream_legal_witness:
  "\<exists>w. wire_run (map ant_wire (responses_stream (\<lambda>_. []) None sample_calls)) fresh_wire = Some w \<and> w_done w \<and> w_open w = None"
proof -
  have "upstream_ordered sample_calls None" by code_simp
  from translated_stream_legal [OF this] show ?thesis .
qed

section \<open>The map of blocks\<close>

text \<open>Every block has its own index, below the next one, and the open block is in the map under its item.\<close>

definition blocks_ok :: "responses_state \<Rightarrow> bool" where
  "blocks_ok s \<longleftrightarrow>
     (\<forall>oi k i. map_of (rx_blockByOutputIndex s) oi = Some (k, i) \<longrightarrow> i < rx_nextIndex s)
     \<and> (\<forall>oi oi' k k' i. map_of (rx_blockByOutputIndex s) oi = Some (k, i) \<longrightarrow>
          map_of (rx_blockByOutputIndex s) oi' = Some (k', i) \<longrightarrow> oi' = oi)
     \<and> (\<forall>b. rx_open s = Some b \<longrightarrow> map_of (rx_blockByOutputIndex s) (ob_outputIndex b) = Some (ob_kind b, ob_index b))"

lemma blocks_ok_frame:
  "blocks_ok s \<Longrightarrow> rx_blockByOutputIndex t = rx_blockByOutputIndex s \<Longrightarrow> rx_nextIndex t = rx_nextIndex s \<Longrightarrow>
     rx_open t = rx_open s \<Longrightarrow> blocks_ok t"
  by (simp add: blocks_ok_def)

lemma blocks_ok_emit [simp]: "blocks_ok (rx_emit e s) = blocks_ok s"
  by (simp add: blocks_ok_def rx_emit_def)

lemma blocks_ok_close [legal_ops]: "blocks_ok s \<Longrightarrow> blocks_ok (closeOpenBlock s)"
  by (simp add: blocks_ok_def)

lemma blocks_ok_place_block: "blocks_ok s \<Longrightarrow> blocks_ok (place_block k oi s)"
  by (fastforce simp: blocks_ok_def place_block_def update_conv' split: if_splits)

lemma blocks_ok_synthetic [simp]: "blocks_ok (snd (synthetic_id own p s)) = blocks_ok s"
  by (simp add: blocks_ok_def)

lemma blocks_ok_openTool [legal_ops]: "blocks_ok s \<Longrightarrow> blocks_ok (openToolBlock item oi s)"
  using blocks_ok_place_block [of s K_tool oi]
  by (simp add: openToolBlock_def Let_def split_def) (erule blocks_ok_frame, simp_all)

lemma blocks_ok_openSearch: "blocks_ok s \<Longrightarrow> blocks_ok (openSearchBlock item oi s)"
  unfolding openSearchBlock_def Let_def split_def blocks_ok_emit
  by (rule blocks_ok_frame [of "snd (synthetic_id (strOr (jprop item ''id'')) ''srvtoolu_responses_'' (place_block K_search oi s))"])
    (simp_all add: blocks_ok_place_block)

lemma blocks_ok_openThinking: "blocks_ok s \<Longrightarrow> blocks_ok (openThinkingBlock oi s)"
  by (simp add: openThinkingBlock_def blocks_ok_place_block)

lemma blocks_ok_set_call [simp]: "blocks_ok (set_call oi c s) = blocks_ok s"
  by (simp add: blocks_ok_def set_call_def)

lemma blocks_ok_toolCall [simp]: "blocks_ok (snd (toolCall oi item s)) = blocks_ok s"
  by (auto simp: blocks_ok_def toolCall_def Let_def split: option.split)

lemma blocks_ok_send [simp]: "blocks_ok (sendToolArgs oi c s) = blocks_ok s"
  by (simp add: sendToolArgs_def)

lemma blocks_ok_waiting [simp]: "blocks_ok (s\<lparr>rx_waitingTools := ws\<rparr>) = blocks_ok s"
  by (simp add: blocks_ok_def)

lemma blocks_ok_place: "blocks_ok s \<Longrightarrow> blocks_ok (placeToolCall oi c s)"
  by (simp add: placeToolCall_def blocks_ok_openTool blocks_ok_close)

lemma blocks_ok_drain_one: "blocks_ok s \<Longrightarrow> blocks_ok (drain_one oi s)"
  by (simp add: drain_one_def Let_def split_def blocks_ok_openTool blocks_ok_close)

lemma blocks_ok_drain_queue: "blocks_ok s \<Longrightarrow> blocks_ok (drain_queue ws s)"
  by (induction ws s rule: drain_queue.induct) (simp_all add: blocks_ok_drain_one)

lemma blocks_ok_settle: "blocks_ok s \<Longrightarrow> blocks_ok (settleToolCalls s)"
  unfolding settleToolCalls_def drainToolCalls_def
  by (intro blocks_ok_close blocks_ok_drain_queue) (erule blocks_ok_frame, simp_all)

lemma blocks_ok_ensureText: "blocks_ok s \<Longrightarrow> blocks_ok (snd (ensureTextBlock oi s))"
  by (simp add: ensureTextBlock_def Let_def blocks_ok_place_block blocks_ok_close)

lemma blocks_ok_finishSearch: "blocks_ok s \<Longrightarrow> blocks_ok (finishSearchBlock json_print item oi s)"
proof -
  have a: "blocks_ok (t\<lparr>rx_nextIndex := n + 1\<rparr>)" if "blocks_ok t" "n = rx_nextIndex t" for t n
    using that unfolding blocks_ok_def by simp (meson less_imp_le)
  assume "blocks_ok s"
  then show ?thesis
    by (auto simp: finishSearchBlock_def Let_def intro!: a blocks_ok_close split: option.split block_kind.split)
qed

lemma blocks_ok_text_frame: "blocks_ok (s\<lparr>rx_textByOutputIndex := m\<rparr>) = blocks_ok s"
  by (simp add: blocks_ok_def)

lemma blocks_ok_finalize: "blocks_ok s \<Longrightarrow> blocks_ok (finalize resp s)"
  unfolding finalize_def Let_def by (rule blocks_ok_frame [OF blocks_ok_settle]) (simp_all add: rx_emit_def)

lemma blocks_ok_typed:
  assumes "blocks_ok s"
  shows "blocks_ok (push_typed json_print t ev s)"
proof -
  have st: "blocks_ok (ensureStarted ev s)" using assms by (rule blocks_ok_frame) (simp_all add: ensureStarted_def rx_emit_def Let_def)
  then have "blocks_ok (item_added ev (ensureStarted ev s))" "blocks_ok (text_arrived ev (ensureStarted ev s))"
    "blocks_ok (annotation_arrived ev (ensureStarted ev s))" "blocks_ok (arguments_arrived ev (ensureStarted ev s))"
    "blocks_ok (arguments_done ev (ensureStarted ev s))" "blocks_ok (reasoning_arrived ev (ensureStarted ev s))"
    "blocks_ok (item_done json_print ev (ensureStarted ev s))"
    by (auto simp: item_added_def text_arrived_def annotation_arrived_def arguments_arrived_def arguments_done_def
        reasoning_arrived_def item_done_def resolveThinkingBlock_def close_if_open_def mark_done_def drainToolCalls_def
        blocks_ok_text_frame Let_def split_def
        intro!: blocks_ok_place blocks_ok_openThinking blocks_ok_openSearch blocks_ok_settle blocks_ok_ensureText
          blocks_ok_finishSearch blocks_ok_drain_queue blocks_ok_close
        split: option.split block_kind.split)
  with st show ?thesis
    by (simp add: push_typed_def Let_def blocks_ok_finalize)
qed

lemma blocks_ok_feed: "blocks_ok s \<Longrightarrow> blocks_ok (snd (responses_feed json_print evs s))"
proof (induction evs arbitrary: s)
  case (Cons ev evs)
  have "blocks_ok (s\<lparr>rx_out := []\<rparr>)" using Cons.prems by (simp add: blocks_ok_def)
  then have "blocks_ok (snd (responses_push json_print ev s))"
    using Cons.prems by (auto simp: responses_push_def Let_def intro: blocks_ok_typed split: option.split)
  with Cons.IH show ?case by (simp add: Let_def split_def)
qed simp

text \<open>
  A reasoning delta outside its item breaks the stream. After any events in order, when a block of another
  item is open, a reasoning delta is answered either with a second block start while the first is still open,
  or with a delta for a block that has been closed: the client has seen a legal stream so far and cannot take
  what comes next.
\<close>

theorem stray_reasoning_breaks:
  assumes ord: "upstream_ordered evs None" and f: "responses_feed json_print evs (new_responses_state m) = (out, s)"
    and b: "rx_open s = Some b" and ended: "\<not> rx_ended s" and other: "out_index (Some ev) \<noteq> ob_outputIndex b"
    and d: "nonempty_delta (Some ev) = Some d" and ty: "str_of (jprop (Some ev) ''type'') = Some (lit ''response.reasoning_text.delta'')"
  shows "(\<exists>w. wire_run (map ant_wire out) fresh_wire = Some w)
    \<and> wire_run (map ant_wire (out @ fst (responses_push json_print ev s))) fresh_wire = None"
proof -
  let ?oi = "out_index (Some ev)" and ?s = "s\<lparr>rx_out := []\<rparr>"
  have "at_rest fresh_wire (new_responses_state m)" by (simp add: at_rest_def new_responses_state_def)
  from feed_legal [OF this _ ord f] obtain w
    where w: "wire_run (map ant_wire out) fresh_wire = Some w" "at_rest w s" by auto
  have st: "rx_started s" using w(2) b ended by (auto simp: at_rest_def split: if_splits)
  have wo: "w_open w = Some (ob_index b)" using w(2) st b ended by (auto simp: at_rest_def at_wire_def)
  have "blocks_ok (new_responses_state m)" by (simp add: blocks_ok_def new_responses_state_def)
  from blocks_ok_feed [OF this, of json_print evs] f have ok: "blocks_ok s" by simp
  have "ensureStarted (Some ev) ?s = ?s" using st by (simp add: ensureStarted_def)
  then have p: "fst (responses_push json_print ev s) = rx_out (reasoning_arrived (Some ev) ?s)"
    using ended ty by (simp add: responses_push_def push_typed_def terminal_type_def Let_def)
  have no: "\<not> open_is K_thinking ?oi ?s" using b other by (simp add: open_is_def)
  have "wire_run (map ant_wire (rx_out (reasoning_arrived (Some ev) ?s))) w = None"
  proof (cases "map_of (rx_blockByOutputIndex s) ?oi")
    case None
    with wo no d show ?thesis
      by (simp add: reasoning_arrived_def resolveThinkingBlock_def openThinkingBlock_def rx_emit_def place_block_def wire_step_def)
  next
    case (Some kb)
    then obtain k i where k: "map_of (rx_blockByOutputIndex s) ?oi = Some (k, i)" by (cases kb) simp
    have "i \<noteq> ob_index b" using ok k b other by (auto simp: blocks_ok_def)
    with wo no d k show ?thesis
      by (cases k) (simp_all add: reasoning_arrived_def resolveThinkingBlock_def openThinkingBlock_def rx_emit_def place_block_def wire_step_def)
  qed
  with w(1) show ?thesis unfolding p by (simp add: wire_run_append)
qed

theorem stray_reasoning_breaks_witness:
  "wire_run (map ant_wire (responses_stream (\<lambda>_. []) None
     [sample_event ''response.output_text.delta'' 0 (sample_delta ''hi''),
      sample_event ''response.reasoning_text.delta'' 1 (sample_delta ''hm'')])) fresh_wire = None"
proof -
  let ?a = "sample_event ''response.output_text.delta'' 0 (sample_delta ''hi'')"
  let ?b = "sample_event ''response.reasoning_text.delta'' 1 (sample_delta ''hm'')"
  let ?f = "responses_feed (\<lambda>_. []) [?a] (new_responses_state None)"
  have o: "upstream_ordered [?a] None" by code_simp
  have f: "responses_feed (\<lambda>_. []) [?a] (new_responses_state None) = (fst ?f, snd ?f)" by simp
  have s: "rx_open (snd ?f) = Some \<lparr>ob_kind = K_text, ob_index = 0, ob_outputIndex = 0\<rparr>" by code_simp
  have e: "\<not> rx_ended (snd ?f)" by code_simp
  have i: "out_index (Some ?b) \<noteq> ob_outputIndex \<lparr>ob_kind = K_text, ob_index = 0, ob_outputIndex = 0\<rparr>" by code_simp
  have d: "nonempty_delta (Some ?b) = Some (lit ''hm'')" by code_simp
  have t: "str_of (jprop (Some ?b) ''type'') = Some (lit ''response.reasoning_text.delta'')" by code_simp
  from stray_reasoning_breaks [OF o f s e i d t]
  have "wire_run (map ant_wire (fst ?f @ fst (responses_push (\<lambda>_. []) ?b (snd ?f)))) fresh_wire = None" by (rule conjunct2)
  then show ?thesis by (simp add: responses_stream_def Let_def split_def wire_run_append split: option.splits)
qed

end
