(* ===== verification/Responses_Calls.thy ===== *)
theory Responses_Calls
  imports Responses_Legal
begin

text \<open>
  The arguments of function calls reach the client whole. Calls may overlap in any way; as long as no other
  item writes while a call is unfinished, every call gets one block that carries exactly its arguments. Where
  text arrives while a call is unfinished, the rest of its arguments is lost.
\<close>

section \<open>The calls as the upstream sends them\<close>

text \<open>The unfinished calls, each call with its item and arguments so far, and the indices of other items.\<close>

record call_view =
  cv_pending :: "rat list"
  cv_calls :: "(rat, jvalue option \<times> utext) jsmap"
  cv_others :: "rat list"

definition no_calls :: call_view where
  "no_calls = \<lparr>cv_pending = [], cv_calls = [], cv_others = []\<rparr>"

definition cv_args :: "rat \<Rightarrow> (utext \<Rightarrow> utext) \<Rightarrow> call_view \<Rightarrow> call_view" where
  "cv_args oi f v =
     (case map_of (cv_calls v) oi of
        Some (item, a) \<Rightarrow> v\<lparr>cv_calls := AList.update oi (item, f a) (cv_calls v)\<rparr>
      | None \<Rightarrow> v)"

text \<open>
  The last word on a call's arguments, as the upstream means it: a final event that repeats what was streamed and goes on
  is the whole; one that contradicts it comes too late.
\<close>

definition told_arguments :: "utext \<Rightarrow> jvalue option \<Rightarrow> utext" where
  "told_arguments a final = (case final of Some (J_str t) \<Rightarrow> (if take (length a) t = a then t else a) | _ \<Rightarrow> a)"

text \<open>Another item writes: only while no call is unfinished, and under an index of its own.\<close>

definition cv_other :: "rat \<Rightarrow> call_view \<Rightarrow> call_view option" where
  "cv_other oi v =
     (if cv_pending v = [] \<and> map_of (cv_calls v) oi = None then Some (v\<lparr>cv_others := oi # cv_others v\<rparr>) else None)"

definition quiet_typed :: "utext \<Rightarrow> jvalue option \<Rightarrow> call_view \<Rightarrow> call_view option" where
  "quiet_typed t ev v =
     (let oi = out_index ev
      in if terminal_type t \<or> t = lit ''error'' then None
         else if t = lit ''response.output_item.added'' then
           (if item_type ev = Some (lit ''function_call'') then
              (if map_of (cv_calls v) oi = None \<and> oi \<notin> set (cv_others v)
               then Some (v\<lparr>cv_pending := oi # cv_pending v, cv_calls := AList.update oi (jprop ev ''item'', []) (cv_calls v)\<rparr>)
               else None)
            else cv_other oi v)
         else if t = lit ''response.output_text.delta'' \<or> t = lit ''response.reasoning_summary_text.delta''
             \<or> t = lit ''response.reasoning_text.delta'' then
           (if nonempty_delta ev = None then Some v else cv_other oi v)
         else if t = lit ''response.output_text.annotation.added'' then
           (if citation_url ev = None then Some v else cv_other oi v)
         else if t = lit ''response.function_call_arguments.delta'' then
           (case nonempty_delta ev of
              None \<Rightarrow> Some v
            | Some d \<Rightarrow> (if oi \<in> set (cv_pending v) then Some (cv_args oi (\<lambda>a. a @ d) v) else None))
         else if t = lit ''response.function_call_arguments.done'' then
           (if oi \<in> set (cv_pending v) then Some (cv_args oi (\<lambda>a. told_arguments a (jprop ev ''arguments'')) v) else None)
         else if t = lit ''response.output_item.done'' then
           (if item_type ev = Some (lit ''function_call'') then
              (if oi \<in> set (cv_pending v)
               then Some ((cv_args oi (\<lambda>a. told_arguments a (jprop (jprop ev ''item'') ''arguments'')) v)
                      \<lparr>cv_pending := removeAll oi (cv_pending v)\<rparr>)
               else None)
            else cv_other oi v)
         else Some v)"

definition quiet_step :: "jvalue \<Rightarrow> call_view \<Rightarrow> call_view option" where
  "quiet_step ev v =
     (case str_of (jprop (Some ev) ''type'') of None \<Rightarrow> Some v | Some t \<Rightarrow> quiet_typed t (Some ev) v)"

fun quiet_run :: "jvalue list \<Rightarrow> call_view \<Rightarrow> call_view option" where
  "quiet_run [] v = Some v"
| "quiet_run (ev # evs) v = (case quiet_step ev v of None \<Rightarrow> None | Some v' \<Rightarrow> quiet_run evs v')"

section \<open>What the client reads of a block\<close>

fun json_delta :: "int \<Rightarrow> anthropic_event \<Rightarrow> utext" where
  "json_delta i (Content_block_delta j (Input_json_delta t)) = (if j = i then t else [])"
| "json_delta i _ = []"

definition json_of :: "int \<Rightarrow> anthropic_event list \<Rightarrow> utext" where
  "json_of i es = concat (map (json_delta i) es)"

lemma json_of_simps [simp]:
  "json_of i [] = []" "json_of i (es @ fs) = json_of i es @ json_of i fs" "json_of i (e # es) = json_delta i e @ json_of i es"
  by (simp_all add: json_of_def)

text \<open>The tool blocks that were started: their index, id and name.\<close>

fun tool_start :: "anthropic_event \<Rightarrow> (int \<times> utext \<times> utext) list" where
  "tool_start (Content_block_start i (Tool_use d n)) = [(i, d, n)]"
| "tool_start _ = []"

definition tool_starts :: "anthropic_event list \<Rightarrow> (int \<times> utext \<times> utext) list" where
  "tool_starts es = concat (map tool_start es)"

lemma tool_starts_simps [simp]:
  "tool_starts [] = []" "tool_starts (es @ fs) = tool_starts es @ tool_starts fs" "tool_starts (e # es) = tool_start e @ tool_starts es"
  by (simp_all add: tool_starts_def)

lemma in_tool_starts: "(i, d, n) \<in> set (tool_starts es) \<longleftrightarrow> Content_block_start i (Tool_use d n) \<in> set es"
proof (induction es)
  case (Cons e es)
  then show ?case by (cases e rule: tool_start.cases) auto
qed simp

definition own_id :: "jvalue option \<Rightarrow> utext" where
  "own_id item = or_text (strOr (jprop item ''call_id'')) (strOr (jprop item ''id''))"

text \<open>A call's block was started under its id and name.\<close>

definition announced :: "int \<Rightarrow> jvalue option \<Rightarrow> anthropic_event list \<Rightarrow> bool" where
  "announced i item es \<longleftrightarrow>
     (\<exists>d. Content_block_start i (Tool_use d (strOr (jprop item ''name''))) \<in> set es \<and> (own_id item \<noteq> [] \<longrightarrow> d = own_id item))"

lemma announced_mono: "announced i item es \<Longrightarrow> set es \<subseteq> set fs \<Longrightarrow> announced i item fs"
  by (auto simp: announced_def)

lemma blocks_below: "blocks_ok s \<Longrightarrow> map_of (rx_blockByOutputIndex s) oi = Some (k, i) \<Longrightarrow> i < rx_nextIndex s"
  unfolding blocks_ok_def by blast

lemma blocks_inj:
  "blocks_ok s \<Longrightarrow> map_of (rx_blockByOutputIndex s) oi = Some (k, i) \<Longrightarrow>
     map_of (rx_blockByOutputIndex s) oj = Some (k', i) \<Longrightarrow> oj = oi"
  unfolding blocks_ok_def by blast

section \<open>The invariant\<close>

text \<open>Each call is either in a block of its own with all it has sent, or waits with nothing sent.\<close>

definition call_placed :: "anthropic_event list \<Rightarrow> responses_state \<Rightarrow> rat \<Rightarrow> tool_call_state \<Rightarrow> bool" where
  "call_placed es s oi c \<longleftrightarrow>
     (\<exists>i. map_of (rx_blockByOutputIndex s) oi = Some (K_tool, i) \<and> json_of i es = tc_args c \<and> tc_sent c = length (tc_args c)
        \<and> announced i (tc_item c) es)"

lemma call_placed_keep:
  assumes "call_placed es s oi c" and "map_of (rx_blockByOutputIndex t) oi = map_of (rx_blockByOutputIndex s) oi"
    and "\<And>k i. map_of (rx_blockByOutputIndex s) oi = Some (k, i) \<Longrightarrow> json_of i fs = json_of i es" and "set es \<subseteq> set fs"
  shows "call_placed fs t oi c"
proof -
  from assms(1) obtain i where i: "map_of (rx_blockByOutputIndex s) oi = Some (K_tool, i)" "json_of i es = tc_args c"
    "tc_sent c = length (tc_args c)" "announced i (tc_item c) es" by (auto simp: call_placed_def)
  from i assms(2) assms(3) [OF i(1)] announced_mono [OF i(4) assms(4)] show ?thesis by (auto simp: call_placed_def)
qed

definition call_waits :: "responses_state \<Rightarrow> rat \<Rightarrow> tool_call_state \<Rightarrow> bool" where
  "call_waits s oi c \<longleftrightarrow> oi \<in> set (rx_waitingTools s) \<and> map_of (rx_blockByOutputIndex s) oi = None \<and> tc_sent c = 0"

definition calls_core :: "anthropic_event list \<Rightarrow> call_view \<Rightarrow> responses_state \<Rightarrow> bool" where
  "calls_core es v s \<longleftrightarrow>
     blocks_ok s \<and> (\<forall>i \<ge> rx_nextIndex s. json_of i es = [])
     \<and> distinct (map fst (tool_starts es))
     \<and> (\<forall>i \<in> fst ` set (tool_starts es). \<exists>oi. map_of (rx_blockByOutputIndex s) oi = Some (K_tool, i) \<and> map_of (cv_calls v) oi \<noteq> None)
     \<and> (\<forall>oi. map_of (cv_calls v) oi = map_option (\<lambda>c. (tc_item c, tc_args c)) (map_of (rx_toolCalls s) oi))
     \<and> (\<forall>oi c. map_of (rx_toolCalls s) oi = Some c \<longrightarrow>
          js_truthy (tc_item c) \<and> (tc_done c \<longleftrightarrow> oi \<notin> set (cv_pending v)) \<and> (call_placed es s oi c \<or> call_waits s oi c))
     \<and> (\<forall>oi. map_of (rx_blockByOutputIndex s) oi \<noteq> None \<longrightarrow> oi \<in> set (cv_others v) \<or> map_of (cv_calls v) oi \<noteq> None)
     \<and> (\<forall>oi \<in> set (cv_others v). map_of (cv_calls v) oi = None)
     \<and> (\<forall>oi \<in> set (cv_pending v). map_of (cv_calls v) oi \<noteq> None)
     \<and> (\<forall>oi \<in> set (cv_pending v). map_of (rx_blockByOutputIndex s) oi \<noteq> None \<longrightarrow> open_is K_tool oi s)
     \<and> distinct (rx_waitingTools s)
     \<and> (\<forall>oi \<in> set (rx_waitingTools s). map_of (rx_blockByOutputIndex s) oi = None \<and> map_of (cv_calls v) oi \<noteq> None)"

lemma coreD:
  assumes "calls_core es v s"
  shows "blocks_ok s" "\<And>i. rx_nextIndex s \<le> i \<Longrightarrow> json_of i es = []"
    "\<And>oi. map_of (cv_calls v) oi = map_option (\<lambda>c. (tc_item c, tc_args c)) (map_of (rx_toolCalls s) oi)"
    "\<And>oi c. map_of (rx_toolCalls s) oi = Some c \<Longrightarrow> js_truthy (tc_item c)"
    "\<And>oi c. map_of (rx_toolCalls s) oi = Some c \<Longrightarrow> tc_done c \<longleftrightarrow> oi \<notin> set (cv_pending v)"
    "\<And>oi c. map_of (rx_toolCalls s) oi = Some c \<Longrightarrow> call_placed es s oi c \<or> call_waits s oi c"
    "\<And>oi kb. map_of (rx_blockByOutputIndex s) oi = Some kb \<Longrightarrow> oi \<in> set (cv_others v) \<or> map_of (cv_calls v) oi \<noteq> None"
    "\<And>oi. oi \<in> set (cv_others v) \<Longrightarrow> map_of (cv_calls v) oi = None"
    "\<And>oi. oi \<in> set (cv_pending v) \<Longrightarrow> \<exists>c. map_of (rx_toolCalls s) oi = Some c"
    "\<And>oi kb. oi \<in> set (cv_pending v) \<Longrightarrow> map_of (rx_blockByOutputIndex s) oi = Some kb \<Longrightarrow> open_is K_tool oi s"
    "distinct (rx_waitingTools s)"
    "\<And>oi. oi \<in> set (rx_waitingTools s) \<Longrightarrow> map_of (rx_blockByOutputIndex s) oi = None"
    "\<And>oi. oi \<in> set (rx_waitingTools s) \<Longrightarrow> \<exists>c. map_of (rx_toolCalls s) oi = Some c"
    "distinct (map fst (tool_starts es))"
    "\<And>i. i \<in> fst ` set (tool_starts es) \<Longrightarrow> \<exists>oi c. map_of (rx_blockByOutputIndex s) oi = Some (K_tool, i) \<and> map_of (rx_toolCalls s) oi = Some c"
proof -
  note c = assms [unfolded calls_core_def]
  show "blocks_ok s" "distinct (rx_waitingTools s)" "distinct (map fst (tool_starts es))" using c by blast+
  show "rx_nextIndex s \<le> i \<Longrightarrow> json_of i es = []" for i using c by blast
  show eq: "map_of (cv_calls v) oi = map_option (\<lambda>c. (tc_item c, tc_args c)) (map_of (rx_toolCalls s) oi)" for oi using c by blast
  show "map_of (rx_toolCalls s) oi = Some x \<Longrightarrow> js_truthy (tc_item x)"
    "map_of (rx_toolCalls s) oi = Some x \<Longrightarrow> tc_done x \<longleftrightarrow> oi \<notin> set (cv_pending v)"
    "map_of (rx_toolCalls s) oi = Some x \<Longrightarrow> call_placed es s oi x \<or> call_waits s oi x" for oi x using c by blast+
  show "map_of (rx_blockByOutputIndex s) oi = Some kb \<Longrightarrow> oi \<in> set (cv_others v) \<or> map_of (cv_calls v) oi \<noteq> None" for oi kb
    using c by (metis option.distinct(1))
  show "oi \<in> set (cv_others v) \<Longrightarrow> map_of (cv_calls v) oi = None" for oi using c by blast
  show "oi \<in> set (cv_pending v) \<Longrightarrow> \<exists>x. map_of (rx_toolCalls s) oi = Some x" for oi
    using c eq [of oi] by (cases "map_of (rx_toolCalls s) oi") auto
  show "oi \<in> set (cv_pending v) \<Longrightarrow> map_of (rx_blockByOutputIndex s) oi = Some kb \<Longrightarrow> open_is K_tool oi s" for oi kb
    using c by (metis option.distinct(1))
  show "oi \<in> set (rx_waitingTools s) \<Longrightarrow> map_of (rx_blockByOutputIndex s) oi = None" for oi using c by blast
  show "oi \<in> set (rx_waitingTools s) \<Longrightarrow> \<exists>x. map_of (rx_toolCalls s) oi = Some x" for oi
    using c eq [of oi] by (cases "map_of (rx_toolCalls s) oi") auto
  show "\<exists>oi c. map_of (rx_blockByOutputIndex s) oi = Some (K_tool, i) \<and> map_of (rx_toolCalls s) oi = Some c"
    if "i \<in> fst ` set (tool_starts es)" for i
  proof -
    have "\<exists>oi. map_of (rx_blockByOutputIndex s) oi = Some (K_tool, i) \<and> map_of (cv_calls v) oi \<noteq> None"
      using c [THEN conjunct2, THEN conjunct2, THEN conjunct2, THEN conjunct1] that by (rule bspec)
    then obtain oi where o: "map_of (rx_blockByOutputIndex s) oi = Some (K_tool, i)" "map_of (cv_calls v) oi \<noteq> None" by (elim exE conjE)
    then show ?thesis using eq [of oi] by (cases "map_of (rx_toolCalls s) oi") auto
  qed
qed

lemma coreI:
  assumes "blocks_ok s" and "\<And>i. rx_nextIndex s \<le> i \<Longrightarrow> json_of i es = []"
    and "\<And>oi. map_of (cv_calls v) oi = map_option (\<lambda>c. (tc_item c, tc_args c)) (map_of (rx_toolCalls s) oi)"
    and "\<And>oi c. map_of (rx_toolCalls s) oi = Some c \<Longrightarrow> js_truthy (tc_item c)"
    and "\<And>oi c. map_of (rx_toolCalls s) oi = Some c \<Longrightarrow> tc_done c \<longleftrightarrow> oi \<notin> set (cv_pending v)"
    and "\<And>oi c. map_of (rx_toolCalls s) oi = Some c \<Longrightarrow> call_placed es s oi c \<or> call_waits s oi c"
    and "\<And>oi kb. map_of (rx_blockByOutputIndex s) oi = Some kb \<Longrightarrow> oi \<in> set (cv_others v) \<or> map_of (cv_calls v) oi \<noteq> None"
    and "\<And>oi. oi \<in> set (cv_others v) \<Longrightarrow> map_of (cv_calls v) oi = None"
    and "\<And>oi. oi \<in> set (cv_pending v) \<Longrightarrow> \<exists>c. map_of (rx_toolCalls s) oi = Some c"
    and "\<And>oi kb. oi \<in> set (cv_pending v) \<Longrightarrow> map_of (rx_blockByOutputIndex s) oi = Some kb \<Longrightarrow> open_is K_tool oi s"
    and "distinct (rx_waitingTools s)"
    and "\<And>oi. oi \<in> set (rx_waitingTools s) \<Longrightarrow> map_of (rx_blockByOutputIndex s) oi = None"
    and "\<And>oi. oi \<in> set (rx_waitingTools s) \<Longrightarrow> \<exists>c. map_of (rx_toolCalls s) oi = Some c"
    and "distinct (map fst (tool_starts es))"
    and "\<And>i. i \<in> fst ` set (tool_starts es) \<Longrightarrow> \<exists>oi c. map_of (rx_blockByOutputIndex s) oi = Some (K_tool, i) \<and> map_of (rx_toolCalls s) oi = Some c"
  shows "calls_core es v s"
proof -
  have "map_of (cv_calls v) oi \<noteq> None" if "\<exists>c. map_of (rx_toolCalls s) oi = Some c" for oi
    using that assms(3) [of oi] by auto
  then show ?thesis unfolding calls_core_def
    by (intro conjI allI ballI impI) (use assms in \<open>blast | metis option.exhaust\<close>)+
qed

lemma starts_below: "calls_core es v s \<Longrightarrow> i \<in> fst ` set (tool_starts es) \<Longrightarrow> i < rx_nextIndex s"
  using coreD(15) [of es v s i] blocks_below [OF coreD(1)] by blast

definition calls_inv :: "anthropic_event list \<Rightarrow> call_view \<Rightarrow> responses_state \<Rightarrow> bool" where
  "calls_inv es v s \<longleftrightarrow> calls_core es v s \<and> (rx_waitingTools s \<noteq> [] \<longrightarrow> toolInFlight s)"

lemma pending_in_flight:
  assumes "calls_core es v s" and "oi \<in> set (cv_pending v)" and "map_of (rx_blockByOutputIndex s) oi \<noteq> None"
  shows "toolInFlight s"
proof -
  from assms coreD(10) [OF assms(1,2)] obtain b where b: "rx_open s = Some b" "ob_kind b = K_tool" "ob_outputIndex b = oi"
    by (auto simp: open_is_Some)
  from coreD(9) [OF assms(1,2)] obtain c where c: "map_of (rx_toolCalls s) oi = Some c" by blast
  with coreD(5) [OF assms(1) c] assms(2) b show ?thesis by (simp add: toolInFlight_def)
qed

text \<open>A call not waiting for the open block has it or is finished.\<close>

lemma idle_no_pending:
  assumes "calls_inv es v s" and "\<not> toolInFlight s"
  shows "cv_pending v = []" and "rx_waitingTools s = []"
proof -
  note core = assms(1) [unfolded calls_inv_def, THEN conjunct1]
  show w: "rx_waitingTools s = []" using assms by (auto simp: calls_inv_def)
  have "oi \<notin> set (cv_pending v)" for oi
  proof
    assume oi: "oi \<in> set (cv_pending v)"
    from coreD(9) [OF core oi] obtain c where c: "map_of (rx_toolCalls s) oi = Some c" by blast
    with coreD(6) [OF core c] w have "map_of (rx_blockByOutputIndex s) oi \<noteq> None" by (auto simp: call_placed_def call_waits_def)
    with pending_in_flight [OF core oi] assms(2) show False by blast
  qed
  then show "cv_pending v = []" by (metis list.set_intros(1) neq_Nil_conv)
qed

lemma flight_pending:
  assumes "calls_core es v s" and "toolInFlight s"
  shows "\<exists>oi. oi \<in> set (cv_pending v) \<and> open_is K_tool oi s"
  using assms coreD(5) [OF assms(1)] by (fastforce simp: toolInFlight_def open_is_Some split: option.splits)

section \<open>A waiting call gets the open block\<close>

lemma close_json [simp]: "json_of i (rx_out (closeOpenBlock s)) = json_of i (rx_out s)"
  by (auto simp: closeOpenBlock_def rx_emit_def split: option.split)

lemma close_starts [simp]: "tool_starts (rx_out (closeOpenBlock s)) = tool_starts (rx_out s)"
  by (auto simp: closeOpenBlock_def rx_emit_def split: option.split)

lemma close_out: "set (rx_out s) \<subseteq> set (rx_out (closeOpenBlock s))"
  by (auto simp: closeOpenBlock_def rx_emit_def split: option.split)

lemma synthetic_own: "own \<noteq> [] \<Longrightarrow> fst (synthetic_id own p s) = own"
  by (simp add: synthetic_id_def)

lemma openTool_facts:
  "rx_nextIndex (openToolBlock item oi s) = rx_nextIndex s + 1"
  "rx_blockByOutputIndex (openToolBlock item oi s) = AList.update oi (K_tool, rx_nextIndex s) (rx_blockByOutputIndex s)"
  "rx_toolCalls (openToolBlock item oi s) = rx_toolCalls s" "rx_waitingTools (openToolBlock item oi s) = rx_waitingTools s"
  "rx_open (openToolBlock item oi s) = Some \<lparr>ob_kind = K_tool, ob_index = rx_nextIndex s, ob_outputIndex = oi\<rparr>"
  "json_of i (rx_out (openToolBlock item oi s)) = json_of i (rx_out s)"
  "set (rx_out s) \<subseteq> set (rx_out (openToolBlock item oi s))"
  "announced (rx_nextIndex s) item (rx_out (openToolBlock item oi s))"
  "map fst (tool_starts (rx_out (openToolBlock item oi s))) = map fst (tool_starts (rx_out s)) @ [rx_nextIndex s]"
  by (auto simp: openToolBlock_def rx_emit_def place_block_def Let_def split_def announced_def own_id_def synthetic_own)

lemma send_facts:
  assumes "rx_open s = Some b" and "ob_kind b = K_tool" and "ob_outputIndex b = oi"
    and "map_of (rx_toolCalls s) oi = Some c" and "tc_sent c \<le> length (tc_args c)"
  shows "rx_nextIndex (sendToolArgs oi c s) = rx_nextIndex s" "rx_blockByOutputIndex (sendToolArgs oi c s) = rx_blockByOutputIndex s"
    "rx_waitingTools (sendToolArgs oi c s) = rx_waitingTools s" "rx_open (sendToolArgs oi c s) = rx_open s"
    "map_of (rx_toolCalls (sendToolArgs oi c s)) = (map_of (rx_toolCalls s))(oi \<mapsto> c\<lparr>tc_sent := length (tc_args c)\<rparr>)"
    "json_of i (rx_out (sendToolArgs oi c s)) = json_of i (rx_out s) @ (if i = ob_index b then drop (tc_sent c) (tc_args c) else [])"
    "set (rx_out s) \<subseteq> set (rx_out (sendToolArgs oi c s))" "tool_starts (rx_out (sendToolArgs oi c s)) = tool_starts (rx_out s)"
  using assms by (auto simp: sendToolArgs_def open_is_def open_index_def set_call_def rx_emit_def update_conv' fun_eq_iff)

lemma drain_one_facts:
  assumes c: "map_of (rx_toolCalls s) oi = Some c" and "js_truthy (tc_item c)" and sent: "tc_sent c = 0"
  defines "t \<equiv> drain_one oi s"
  shows "rx_nextIndex t = rx_nextIndex s + 1"
    and "map_of (rx_blockByOutputIndex t) = (map_of (rx_blockByOutputIndex s))(oi \<mapsto> (K_tool, rx_nextIndex s))"
    and "rx_waitingTools t = rx_waitingTools s"
    and "map_of (rx_toolCalls t) = (map_of (rx_toolCalls s))(oi \<mapsto> c\<lparr>tc_sent := length (tc_args c)\<rparr>)"
    and "json_of i (rx_out t) = json_of i (rx_out s) @ (if i = rx_nextIndex s then tc_args c else [])"
    and "set (rx_out s) \<subseteq> set (rx_out t)" and "announced (rx_nextIndex s) (tc_item c) (rx_out t)"
    and "rx_open t = (if tc_done c then None else Some \<lparr>ob_kind = K_tool, ob_index = rx_nextIndex s, ob_outputIndex = oi\<rparr>)"
    and "map fst (tool_starts (rx_out t)) = map fst (tool_starts (rx_out s)) @ [rx_nextIndex s]"
proof -
  define u where "u = openToolBlock (tc_item c) oi (closeOpenBlock s)"
  note o = openTool_facts [where item = "tc_item c" and oi = oi and s = "closeOpenBlock s", folded u_def]
  have cu: "map_of (rx_toolCalls u) oi = Some c" and le: "tc_sent c \<le> length (tc_args c)" using c o sent by simp_all
  note f = send_facts [OF o(5) _ _ cu le, simplified]
  have "toolCall oi None s = (c, s)" using assms by (simp add: toolCall_def)
  then have t: "t = (if tc_done c then closeOpenBlock (sendToolArgs oi c u) else sendToolArgs oi c u)"
    by (simp add: t_def drain_one_def u_def)
  show "rx_nextIndex t = rx_nextIndex s + 1" "rx_waitingTools t = rx_waitingTools s"
    "map_of (rx_blockByOutputIndex t) = (map_of (rx_blockByOutputIndex s))(oi \<mapsto> (K_tool, rx_nextIndex s))"
    "map_of (rx_toolCalls t) = (map_of (rx_toolCalls s))(oi \<mapsto> c\<lparr>tc_sent := length (tc_args c)\<rparr>)"
    "json_of i (rx_out t) = json_of i (rx_out s) @ (if i = rx_nextIndex s then tc_args c else [])"
    "rx_open t = (if tc_done c then None else Some \<lparr>ob_kind = K_tool, ob_index = rx_nextIndex s, ob_outputIndex = oi\<rparr>)"
    "map fst (tool_starts (rx_out t)) = map fst (tool_starts (rx_out s)) @ [rx_nextIndex s]"
    using sent by (simp_all add: t f o update_conv')
  have sub: "set (rx_out s) \<subseteq> set (rx_out u)" "set (rx_out u) \<subseteq> set (rx_out t)"
    using o(7) close_out [of s] f(7) close_out [of "sendToolArgs oi c u"] by (auto simp: t)
  then show "set (rx_out s) \<subseteq> set (rx_out t)" by blast
  show "announced (rx_nextIndex s) (tc_item c) (rx_out t)" using announced_mono [OF o(8) sub(2)] by simp
qed

lemma core_drain_one:
  assumes core: "calls_core (E @ rx_out s) v s" and w: "rx_waitingTools s = oi # w" and idle: "\<not> toolInFlight s"
  defines "t \<equiv> drain_one oi (s\<lparr>rx_waitingTools := w\<rparr>)"
  shows "calls_core (E @ rx_out t) v t" and "rx_waitingTools t = w"
proof -
  note d = coreD [OF core]
  have "oi \<in> set (rx_waitingTools s)" using w by simp
  with d(13) obtain c where c: "map_of (rx_toolCalls s) oi = Some c" by blast
  have nb: "map_of (rx_blockByOutputIndex s) oi = None" using d(12) w by simp
  then have sent: "tc_sent c = 0" using d(6) [OF c] by (auto simp: call_placed_def call_waits_def)
  let ?s = "s\<lparr>rx_waitingTools := w\<rparr>"
  note f = drain_one_facts [of ?s oi c, folded t_def, simplified, OF c d(4) [OF c] sent]
  show w': "rx_waitingTools t = w" by (rule f)
  have ok: "blocks_ok t" unfolding t_def by (rule blocks_ok_drain_one) (simp add: d(1))
  have new: "json_of (rx_nextIndex s) E = []" "json_of (rx_nextIndex s) (rx_out s) = []" using d(2) [of "rx_nextIndex s"] by simp_all
  have later: "json_of i (E @ rx_out t) = []" if "rx_nextIndex t \<le> i" for i using d(2) [of i] that f(1) f(5) [of i] by simp
  have old: "k \<noteq> rx_nextIndex s" if "map_of (rx_blockByOutputIndex s) o' = Some (kk, k)" for o' kk k
    using d(1) that by (auto simp: blocks_ok_def)
  have placed: "call_placed (E @ rx_out t) t o' x \<or> call_waits t o' x" if x: "map_of (rx_toolCalls t) o' = Some x" for o' x
  proof (cases "o' = oi")
    case True
    with x f have "x = c\<lparr>tc_sent := length (tc_args c)\<rparr>" by simp
    with True f new show ?thesis by (auto simp: call_placed_def intro: announced_mono)
  next
    case False
    with x f have xs: "map_of (rx_toolCalls s) o' = Some x" by simp
    from d(6) [OF xs] show ?thesis
    proof
      assume "call_placed (E @ rx_out s) s o' x"
      then have "call_placed (E @ rx_out t) t o' x"
        by (rule call_placed_keep) (use False f(2,5,6) old in auto)
      then show ?thesis ..
    next
      assume "call_waits s o' x"
      with False f w w' show ?thesis by (auto simp: call_waits_def)
    qed
  qed
  have pend: "open_is K_tool o' t" if p: "o' \<in> set (cv_pending v)" "map_of (rx_blockByOutputIndex t) o' \<noteq> None" for o'
  proof -
    have "o' = oi" using pending_in_flight [OF core p(1)] idle p(2) f(2) by (auto split: if_splits)
    with d(5) [OF c] p(1) f(8) show ?thesis by (simp add: open_is_def)
  qed
  show "calls_core (E @ rx_out t) v t"
  proof (rule coreI)
    show "map_of (cv_calls v) o' = map_option (\<lambda>c. (tc_item c, tc_args c)) (map_of (rx_toolCalls t) o')" for o'
      using d(3) [of o'] c f(4) by simp
    show "js_truthy (tc_item x)" "tc_done x \<longleftrightarrow> o' \<notin> set (cv_pending v)" if "map_of (rx_toolCalls t) o' = Some x" for o' x
      using that d(4,5) c f(4) by (auto split: if_splits)
    show "o' \<in> set (cv_others v) \<or> map_of (cv_calls v) o' \<noteq> None" if "map_of (rx_blockByOutputIndex t) o' = Some kb" for o' kb
      using that d(3) [of oi] d(7) c f(2) by (cases "o' = oi") auto
    show "map_of (rx_blockByOutputIndex t) o' = None" "\<exists>x. map_of (rx_toolCalls t) o' = Some x"
      if "o' \<in> set (rx_waitingTools t)" for o'
      using that w w' d(11) d(12,13) [of o'] f(2,4) by auto
    show "distinct (rx_waitingTools t)" using w w' d(11) by simp
    show "\<exists>x. map_of (rx_toolCalls t) o' = Some x" if "o' \<in> set (cv_pending v)" for o' using d(9) [OF that] f(4) by auto
    have st: "map fst (tool_starts (E @ rx_out t)) = map fst (tool_starts (E @ rx_out s)) @ [rx_nextIndex s]" using f(9) by simp
    show "distinct (map fst (tool_starts (E @ rx_out t)))" unfolding st using d(14) starts_below [OF core] by fastforce
    show "\<exists>o' x. map_of (rx_blockByOutputIndex t) o' = Some (K_tool, i) \<and> map_of (rx_toolCalls t) o' = Some x"
      if "i \<in> fst ` set (tool_starts (E @ rx_out t))" for i
    proof (cases "i = rx_nextIndex s")
      case True
      then show ?thesis using f(2,4) by auto
    next
      case False
      have "set (map fst (tool_starts (E @ rx_out t))) = set (map fst (tool_starts (E @ rx_out s)) @ [rx_nextIndex s])" using st by simp
      with that False have "i \<in> fst ` set (tool_starts (E @ rx_out s))" by auto
      from d(15) [OF this] obtain o' x where "map_of (rx_blockByOutputIndex s) o' = Some (K_tool, i)" "map_of (rx_toolCalls s) o' = Some x" by blast
      moreover from this nb have "o' \<noteq> oi" by auto
      ultimately show ?thesis using f(2,4) by auto
    qed
  qed (use ok later placed pend d(8) in auto)
qed

lemma waiting_same: "rx_waitingTools s = w \<Longrightarrow> s\<lparr>rx_waitingTools := w\<rparr> = s"
  by (cases s) simp

lemma in_flight_waiting [simp]: "toolInFlight (s\<lparr>rx_waitingTools := w\<rparr>) = toolInFlight s"
  by (simp add: toolInFlight_def split: option.split)

lemma drain_queue_inv:
  "calls_core (E @ rx_out s) v s \<Longrightarrow> rx_waitingTools s = ws \<Longrightarrow>
     calls_inv (E @ rx_out (drain_queue ws s)) v (drain_queue ws s)"
proof (induction ws s rule: drain_queue.induct)
  case (1 s)
  then show ?case by (simp add: waiting_same calls_inv_def)
next
  case (2 oi w s)
  show ?case
  proof (cases "toolInFlight s")
    case True
    with 2 show ?thesis by (simp add: waiting_same calls_inv_def)
  next
    case False
    from 2(1) [OF False] core_drain_one [OF 2(2) 2(3) False] False show ?thesis by simp
  qed
qed

section \<open>A call is added\<close>

lemma no_tool_open:
  "blocks_ok s \<Longrightarrow> map_of (rx_blockByOutputIndex s) oi = None \<Longrightarrow> \<not> open_is k oi s"
  by (auto simp: open_is_Some blocks_ok_def)

lemma in_flight_other:
  assumes "\<not> open_is K_tool oi s" and "rx_open t = rx_open s"
    and "\<And>oj. oj \<noteq> oi \<Longrightarrow> map_of (rx_toolCalls t) oj = map_of (rx_toolCalls s) oj"
  shows "toolInFlight t = toolInFlight s"
  using assms by (auto simp: toolInFlight_def open_is_def split: option.splits)

lemma added_inv:
  assumes inv: "calls_inv (E @ rx_out s) v s" and new: "map_of (cv_calls v) oi = None" "oi \<notin> set (cv_others v)" and item: "js_truthy item"
  defines "t \<equiv> (let (c, s1) = toolCall oi item s in placeToolCall oi c s1)"
    and "v' \<equiv> v\<lparr>cv_pending := oi # cv_pending v, cv_calls := AList.update oi (item, []) (cv_calls v)\<rparr>"
  shows "calls_inv (E @ rx_out t) v' t"
proof -
  note core = inv [unfolded calls_inv_def, THEN conjunct1]
  note d = coreD [OF core]
  have nc: "map_of (rx_toolCalls s) oi = None" using d(3) [of oi] new(1) by simp
  have nb: "map_of (rx_blockByOutputIndex s) oi = None" using d(7) [of oi] new by (cases "map_of (rx_blockByOutputIndex s) oi") auto
  have nw: "oi \<notin> set (rx_waitingTools s)" using d(13) [of oi] nc by auto
  define s1 where "s1 = s\<lparr>rx_toolCalls := AList.update oi (fresh_call item) (rx_toolCalls s)\<rparr>"
  define s2 where "s2 = s1\<lparr>rx_waitingTools := rx_waitingTools s @ [oi]\<rparr>"
  have calls: "map_of (rx_toolCalls s2) = (map_of (rx_toolCalls s))(oi \<mapsto> fresh_call item)" by (simp add: s2_def s1_def update_conv')
  have fr: "rx_blockByOutputIndex s2 = rx_blockByOutputIndex s" "rx_nextIndex s2 = rx_nextIndex s" "rx_open s2 = rx_open s" "rx_out s2 = rx_out s"
    "rx_waitingTools s2 = rx_waitingTools s @ [oi]" by (simp_all add: s2_def s1_def)
  have core2: "calls_core (E @ rx_out s2) v' s2"
  proof (rule coreI)
    show "blocks_ok s2" using d(1) fr by (simp add: blocks_ok_def)
    show "map_of (cv_calls v') o' = map_option (\<lambda>c. (tc_item c, tc_args c)) (map_of (rx_toolCalls s2) o')" for o'
      using d(3) [of o'] calls by (simp add: v'_def update_conv' fresh_call_def)
    show "js_truthy (tc_item c)" "tc_done c \<longleftrightarrow> o' \<notin> set (cv_pending v')" if "map_of (rx_toolCalls s2) o' = Some c" for o' c
      using that calls d(4,5) item by (auto simp: fresh_call_def v'_def split: if_splits)
    show "call_placed (E @ rx_out s2) s2 o' c \<or> call_waits s2 o' c" if "map_of (rx_toolCalls s2) o' = Some c" for o' c
    proof (cases "o' = oi")
      case True
      with that calls fr nb show ?thesis by (auto simp: call_waits_def fresh_call_def)
    next
      case False
      with that calls have "map_of (rx_toolCalls s) o' = Some c" by simp
      from d(6) [OF this] show ?thesis using fr by (auto simp: call_placed_def call_waits_def)
    qed
    show "o' \<in> set (cv_others v') \<or> map_of (cv_calls v') o' \<noteq> None" if "map_of (rx_blockByOutputIndex s2) o' = Some kb" for o' kb
      using that d(7) fr by (auto simp: v'_def update_conv')
    show "map_of (cv_calls v') o' = None" if "o' \<in> set (cv_others v')" for o' using that d(8) new by (auto simp: v'_def update_conv')
    show "open_is K_tool o' s2" if "o' \<in> set (cv_pending v')" "map_of (rx_blockByOutputIndex s2) o' = Some kb" for o' kb
      using that d(10) [of o' kb] nb fr by (auto simp: v'_def open_is_def)
    show "\<exists>o' x. map_of (rx_blockByOutputIndex s2) o' = Some (K_tool, i) \<and> map_of (rx_toolCalls s2) o' = Some x"
      if "i \<in> fst ` set (tool_starts (E @ rx_out s2))" for i
      using d(15) [of i] that fr calls nc by (metis fun_upd_other option.distinct(1))
    show "distinct (map fst (tool_starts (E @ rx_out s2)))" using d(14) fr by simp
  qed (use d fr calls nw nb in \<open>auto simp: v'_def\<close>)
  have fl: "toolInFlight s2 = toolInFlight s" using no_tool_open [OF d(1) nb] by (rule in_flight_other) (simp_all add: fr calls)
  have "t = drain_queue (rx_waitingTools s2) s2"
  proof (cases "toolInFlight s")
    case True
    have "drain_queue (rx_waitingTools s2) s2 = s2"
      by (cases "rx_waitingTools s2") (use True fl fr in \<open>simp_all add: waiting_same\<close>)
    moreover have "toolInFlight s1 = toolInFlight s2" by (simp add: s2_def)
    ultimately show ?thesis using True fl nc nb nw
      by (simp add: t_def toolCall_def placeToolCall_def s1_def [symmetric] Let_def) (simp add: s1_def s2_def)
  next
    case False
    then have w: "rx_waitingTools s = []" using inv by (auto simp: calls_inv_def)
    have s12: "s2\<lparr>rx_waitingTools := []\<rparr> = s1" using w by (simp add: s2_def s1_def waiting_same)
    have f1: "\<not> toolInFlight s1" using False fl by (simp add: s2_def)
    have c1: "toolCall oi None s1 = (fresh_call item, s1)" using item by (simp add: toolCall_def s1_def update_conv' fresh_call_def)
    have "t = drain_one oi s1"
      using nc nb nw f1 c1
      by (simp add: t_def toolCall_def placeToolCall_def Let_def s1_def [symmetric] drain_one_def) (simp add: s1_def fresh_call_def)
    moreover have "rx_waitingTools (drain_one oi s1) = []"
      using core_drain_one(2) [OF core2, of oi "[]"] w fl False s12 by (simp add: fr)
    ultimately show ?thesis using w False fl s12 by (simp add: fr waiting_same)
  qed
  with drain_queue_inv [OF core2 refl] show ?thesis by simp
qed

section \<open>Arguments arrive\<close>

lemma completed_told: "completedArguments a f = told_arguments a f"
proof -
  have "t = a" if "take (length a) t = a" "\<not> length a < length t" for t using that by simp
  then show ?thesis by (auto simp: completedArguments_def told_arguments_def has_prefix_def str_of_def split: option.split jvalue.split)
qed

lemma completed_extends: "\<exists>d. completedArguments a f = a @ d"
  by (auto simp: completedArguments_def has_prefix_def split: option.split) (metis append_take_drop_id)

lemma call_found:
  "calls_core es v s \<Longrightarrow> map_of (rx_toolCalls s) oi = Some c \<Longrightarrow> toolCall oi item s = (c, s)"
  using coreD(4) by (simp add: toolCall_def)

definition grown :: "bool \<Rightarrow> utext \<Rightarrow> tool_call_state \<Rightarrow> tool_call_state" where
  "grown placed a c = (if placed then c\<lparr>tc_args := a, tc_sent := length a\<rparr> else c\<lparr>tc_args := a\<rparr>)"

lemma grown_simps [simp]:
  "tc_item (grown pl a c) = tc_item c" "tc_args (grown pl a c) = a" "tc_done (grown pl a c) = tc_done c"
  "tc_sent (grown pl a c) = (if pl then length a else tc_sent c)"
  by (simp_all add: grown_def)

lemma pending_seat:
  assumes "calls_core es v s" and "oi \<in> set (cv_pending v)" and "map_of (rx_toolCalls s) oi = Some c"
  shows "open_is K_tool oi s \<Longrightarrow> call_placed es s oi c" and "\<not> open_is K_tool oi s \<Longrightarrow> call_waits s oi c"
proof -
  note k = coreD [OF assms(1)]
  have "open_is K_tool oi s \<longleftrightarrow> map_of (rx_blockByOutputIndex s) oi \<noteq> None"
    using k(10) [OF assms(2)] no_tool_open [OF k(1), of oi K_tool]
    by (cases "map_of (rx_blockByOutputIndex s) oi") auto
  with k(6) [OF assms(3)] show "open_is K_tool oi s \<Longrightarrow> call_placed es s oi c" "\<not> open_is K_tool oi s \<Longrightarrow> call_waits s oi c"
    by (auto simp: call_placed_def call_waits_def)
qed

lemma grow_facts:
  assumes core: "calls_core es v s" and p: "oi \<in> set (cv_pending v)" and c: "map_of (rx_toolCalls s) oi = Some c"
    and a: "a = tc_args c @ d"
  defines "t \<equiv> placeToolCall oi (c\<lparr>tc_args := a\<rparr>) (set_call oi (c\<lparr>tc_args := a\<rparr>) s)"
  shows "rx_blockByOutputIndex t = rx_blockByOutputIndex s \<and> rx_nextIndex t = rx_nextIndex s \<and> rx_open t = rx_open s
    \<and> rx_waitingTools t = rx_waitingTools s
    \<and> map_of (rx_toolCalls t) = (map_of (rx_toolCalls s))(oi \<mapsto> grown (open_is K_tool oi s) a c) \<and> set (rx_out s) \<subseteq> set (rx_out t)
    \<and> tool_starts (rx_out t) = tool_starts (rx_out s)
    \<and> json_of i (rx_out t) = json_of i (rx_out s) @
        (if open_is K_tool oi s \<and> map_of (rx_blockByOutputIndex s) oi = Some (K_tool, i) then d else [])"
proof -
  define u where "u = set_call oi (c\<lparr>tc_args := a\<rparr>) s"
  have u: "rx_blockByOutputIndex u = rx_blockByOutputIndex s" "rx_nextIndex u = rx_nextIndex s" "rx_open u = rx_open s"
    "rx_out u = rx_out s" "rx_waitingTools u = rx_waitingTools s" "map_of (rx_toolCalls u) = (map_of (rx_toolCalls s))(oi \<mapsto> c\<lparr>tc_args := a\<rparr>)"
    by (simp_all add: u_def set_call_def update_conv')
  have "map_of (rx_blockByOutputIndex s) oi \<noteq> None \<or> oi \<in> set (rx_waitingTools s)"
    using coreD(6) [OF core c] by (auto simp: call_placed_def call_waits_def)
  then have t: "t = sendToolArgs oi (c\<lparr>tc_args := a\<rparr>) u" by (simp add: t_def placeToolCall_def u_def [symmetric] u)
  show ?thesis
  proof (cases "open_is K_tool oi s")
    case True
    then obtain b where b: "rx_open u = Some b" "ob_kind b = K_tool" "ob_outputIndex b = oi" by (auto simp: open_is_Some u)
    have bi: "map_of (rx_blockByOutputIndex s) oi = Some (K_tool, ob_index b)" using coreD(1) [OF core] b u by (auto simp: blocks_ok_def)
    have sent: "tc_sent c = length (tc_args c)" using pending_seat(1) [OF core p c True] by (auto simp: call_placed_def)
    from send_facts [OF b, where c = "c\<lparr>tc_args := a\<rparr>"] u sent a True bi show ?thesis by (simp add: t grown_def)
  next
    case False
    then have "t = u" by (simp add: t sendToolArgs_def open_is_def u)
    with False u show ?thesis by (simp add: grown_def)
  qed
qed

text \<open>What \<open>placeToolCall\<close> does for a call that has its place: it sends what is new if its block is open.\<close>

lemma grow_inv:
  assumes inv: "calls_inv (E @ rx_out s) v s" and p: "oi \<in> set (cv_pending v)" and c: "map_of (rx_toolCalls s) oi = Some c"
    and a: "f (tc_args c) = tc_args c @ d"
  defines "t \<equiv> placeToolCall oi (c\<lparr>tc_args := f (tc_args c)\<rparr>) (set_call oi (c\<lparr>tc_args := f (tc_args c)\<rparr>) s)"
  shows "calls_inv (E @ rx_out t) (cv_args oi f v) t" and "rx_open t = rx_open s"
proof -
  note core = inv [unfolded calls_inv_def, THEN conjunct1]
  note k = coreD [OF core]
  define pl where "pl \<longleftrightarrow> open_is K_tool oi s"
  note g = grow_facts [OF core p c a, folded t_def pl_def]
  have fr: "rx_blockByOutputIndex t = rx_blockByOutputIndex s" "rx_nextIndex t = rx_nextIndex s" "rx_open t = rx_open s"
    "rx_waitingTools t = rx_waitingTools s" "map_of (rx_toolCalls t) = (map_of (rx_toolCalls s))(oi \<mapsto> grown pl (f (tc_args c)) c)"
    "set (rx_out s) \<subseteq> set (rx_out t)" "tool_starts (rx_out t) = tool_starts (rx_out s)" using g by blast+
  have json: "json_of i (rx_out t) = json_of i (rx_out s) @ (if pl \<and> map_of (rx_blockByOutputIndex s) oi = Some (K_tool, i) then d else [])" for i
    using g by blast
  show "rx_open t = rx_open s" by (rule fr)
  have vc: "map_of (cv_calls v) oi = Some (tc_item c, tc_args c)" using k(3) [of oi] c by simp
  have v': "map_of (cv_calls (cv_args oi f v)) = (map_of (cv_calls v))(oi \<mapsto> (tc_item c, f (tc_args c)))"
    "cv_pending (cv_args oi f v) = cv_pending v" "cv_others (cv_args oi f v) = cv_others v"
    using vc by (simp_all add: cv_args_def update_conv')
  have below: "\<not> rx_nextIndex s \<le> i" if "map_of (rx_blockByOutputIndex s) oi = Some (K_tool, i)" for i
    using blocks_below [OF k(1) that] by simp
  have seat: "call_placed (E @ rx_out t) t oi (grown pl (f (tc_args c)) c) \<or> call_waits t oi (grown pl (f (tc_args c)) c)"
  proof (cases pl)
    case True
    from pending_seat(1) [OF core p c] True obtain i where i: "map_of (rx_blockByOutputIndex s) oi = Some (K_tool, i)"
      "json_of i (E @ rx_out s) = tc_args c" "announced i (tc_item c) (E @ rx_out s)" by (auto simp: call_placed_def pl_def)
    have "announced i (tc_item c) (E @ rx_out t)" by (rule announced_mono [OF i(3)]) (use fr(6) in auto)
    with i True fr json [of i] a show ?thesis by (auto simp: call_placed_def)
  next
    case False
    with pending_seat(2) [OF core p c] fr show ?thesis by (simp add: call_waits_def pl_def)
  qed
  have other: "call_placed (E @ rx_out t) t o' x \<or> call_waits t o' x" if "o' \<noteq> oi" and x: "map_of (rx_toolCalls s) o' = Some x" for o' x
    using k(6) [OF x]
  proof
    assume "call_placed (E @ rx_out s) s o' x"
    moreover have "i' \<noteq> i" if "map_of (rx_blockByOutputIndex s) o' = Some (k1, i)" "map_of (rx_blockByOutputIndex s) oi = Some (k2, i')" for i i' k1 k2
      using k(1) that \<open>o' \<noteq> oi\<close> by (auto simp: blocks_ok_def)
    ultimately have "call_placed (E @ rx_out t) t o' x" by (elim call_placed_keep) (use fr json in auto)
    then show ?thesis ..
  qed (simp add: call_waits_def fr)
  have "calls_core (E @ rx_out t) (cv_args oi f v) t"
  proof (rule coreI)
    show "blocks_ok t" by (rule blocks_ok_frame [OF k(1)]) (simp_all add: fr)
    show "json_of i (E @ rx_out t) = []" if "rx_nextIndex t \<le> i" for i
      using below k(2) [of i] that json [of i] fr(2) by auto
    show "map_of (cv_calls (cv_args oi f v)) o' = map_option (\<lambda>c. (tc_item c, tc_args c)) (map_of (rx_toolCalls t) o')" for o'
      using k(3) [of o'] fr v' by simp
    show "js_truthy (tc_item x)" "tc_done x \<longleftrightarrow> o' \<notin> set (cv_pending (cv_args oi f v))" if "map_of (rx_toolCalls t) o' = Some x" for o' x
      using that fr k(4,5) c v' by (auto split: if_splits)
    show "call_placed (E @ rx_out t) t o' x \<or> call_waits t o' x" if "map_of (rx_toolCalls t) o' = Some x" for o' x
      using seat other that fr(5) by (cases "o' = oi") simp_all
    show "open_is K_tool o' t" if "o' \<in> set (cv_pending (cv_args oi f v))" "map_of (rx_blockByOutputIndex t) o' = Some kb" for o' kb
      using that k(10) v' fr by (simp add: open_is_def)
    show "\<exists>o' x. map_of (rx_blockByOutputIndex t) o' = Some (K_tool, i) \<and> map_of (rx_toolCalls t) o' = Some x"
      if "i \<in> fst ` set (tool_starts (E @ rx_out t))" for i
      using k(15) [of i] that fr by (metis fun_upd_apply tool_starts_simps(2))
    show "distinct (map fst (tool_starts (E @ rx_out t)))" using k(14) fr by simp
  qed (use k fr v' c vc in auto)
  moreover have "toolInFlight t = toolInFlight s"
    using c fr by (auto simp: toolInFlight_def split: option.splits)
  ultimately show "calls_inv (E @ rx_out t) (cv_args oi f v) t" using inv fr by (simp add: calls_inv_def)
qed

section \<open>A call is finished\<close>

lemma finish_inv:
  assumes inv: "calls_inv (E @ rx_out s) v s" and p: "oi \<in> set (cv_pending v)"
  defines "t \<equiv> drainToolCalls (close_if_open oi (mark_done oi s))"
  shows "calls_inv (E @ rx_out t) (v\<lparr>cv_pending := removeAll oi (cv_pending v)\<rparr>) t"
proof -
  note core = inv [unfolded calls_inv_def, THEN conjunct1]
  note k = coreD [OF core]
  let ?v = "v\<lparr>cv_pending := removeAll oi (cv_pending v)\<rparr>"
  obtain c where c: "map_of (rx_toolCalls s) oi = Some c" using k(9) [OF p] by blast
  define u where "u = close_if_open oi (mark_done oi s)"
  have u: "rx_blockByOutputIndex u = rx_blockByOutputIndex s" "rx_nextIndex u = rx_nextIndex s" "rx_waitingTools u = rx_waitingTools s"
    "map_of (rx_toolCalls u) = (map_of (rx_toolCalls s))(oi \<mapsto> c\<lparr>tc_done := True\<rparr>)"
    "json_of i (rx_out u) = json_of i (rx_out s)" "set (rx_out s) \<subseteq> set (rx_out u)"
    "o' \<noteq> oi \<Longrightarrow> open_is K_tool o' u = open_is K_tool o' s" "tool_starts (rx_out u) = tool_starts (rx_out s)" for i o'
    by (auto simp: u_def close_if_open_def mark_done_def c set_call_def closeOpenBlock_def rx_emit_def update_conv' open_is_def split: option.split)
  have cu: "calls_core (E @ rx_out u) ?v u"
  proof (rule coreI)
    show "blocks_ok u" unfolding u_def
      using k(1) by (auto simp: close_if_open_def mark_done_def c intro: blocks_ok_close split: option.split)
    show "map_of (cv_calls ?v) o' = map_option (\<lambda>c. (tc_item c, tc_args c)) (map_of (rx_toolCalls u) o')" for o'
      using k(3) [of o'] c u(4) by simp
    show "js_truthy (tc_item x)" "tc_done x \<longleftrightarrow> o' \<notin> set (cv_pending ?v)" if "map_of (rx_toolCalls u) o' = Some x" for o' x
      using that k(4,5) c u(4) by (auto split: if_splits)
    show "call_placed (E @ rx_out u) u o' x \<or> call_waits u o' x" if x: "map_of (rx_toolCalls u) o' = Some x" for o' x
    proof -
      obtain y where y: "map_of (rx_toolCalls s) o' = Some y" "tc_item x = tc_item y" "tc_args x = tc_args y" "tc_sent x = tc_sent y"
        using x c u(4) by (auto split: if_splits)
      have "call_placed (E @ rx_out u) u o' y \<or> call_waits u o' y" using k(6) [OF y(1)]
      proof
        assume "call_placed (E @ rx_out s) s o' y"
        then have "call_placed (E @ rx_out u) u o' y" by (rule call_placed_keep) (use u in auto)
        then show ?thesis ..
      qed (simp add: call_waits_def u)
      then show ?thesis using y by (simp add: call_placed_def call_waits_def)
    qed
    show "open_is K_tool o' u" if "o' \<in> set (cv_pending ?v)" "map_of (rx_blockByOutputIndex u) o' = Some kb" for o' kb
      using that k(10) u by auto
    show "\<exists>o' x. map_of (rx_blockByOutputIndex u) o' = Some (K_tool, i) \<and> map_of (rx_toolCalls u) o' = Some x"
      if "i \<in> fst ` set (tool_starts (E @ rx_out u))" for i
      using k(15) [of i] that u by (metis fun_upd_apply tool_starts_simps(2))
    show "distinct (map fst (tool_starts (E @ rx_out u)))" using k(14) u by simp
  qed (use k u c in auto)
  show ?thesis using drain_queue_inv [OF cu refl] by (simp add: t_def u_def [symmetric] drainToolCalls_def)
qed

section \<open>Other items\<close>

text \<open>What another item's event may do: nothing to the calls, and no arguments.\<close>

definition quiet_rel :: "rat \<Rightarrow> responses_state \<Rightarrow> responses_state \<Rightarrow> bool" where
  "quiet_rel oi s t \<longleftrightarrow>
     (\<forall>i. json_of i (rx_out t) = json_of i (rx_out s)) \<and> set (rx_out s) \<subseteq> set (rx_out t)
     \<and> (\<forall>o'. o' \<noteq> oi \<longrightarrow> map_of (rx_blockByOutputIndex t) o' = map_of (rx_blockByOutputIndex s) o')
     \<and> map_of (rx_toolCalls t) = map_of (rx_toolCalls s) \<and> rx_waitingTools t = rx_waitingTools s
     \<and> rx_nextIndex s \<le> rx_nextIndex t \<and> tool_starts (rx_out t) = tool_starts (rx_out s)"

lemma quiet_refl [simp]: "quiet_rel oi s s"
  by (simp add: quiet_rel_def)

lemma quiet_trans: "quiet_rel oi s t \<Longrightarrow> quiet_rel oi t u \<Longrightarrow> quiet_rel oi s u"
  by (auto simp: quiet_rel_def)

lemma quiet_close: "quiet_rel oi s (closeOpenBlock s)"
  using close_out [of s] by (simp add: quiet_rel_def)

lemma quiet_close_if: "quiet_rel oi s (close_if_open o' s)"
  by (auto simp: close_if_open_def quiet_close split: option.split)

lemma quiet_emit: "(\<And>i. json_delta i e = []) \<Longrightarrow> tool_start e = [] \<Longrightarrow> quiet_rel oi s (rx_emit e s)"
  by (auto simp: quiet_rel_def rx_emit_def)

lemma quiet_place: "quiet_rel oi s (place_block k oi s)"
  by (simp add: quiet_rel_def place_block_def update_conv')

lemma quiet_openThinking: "quiet_rel oi s (openThinkingBlock oi s)"
  unfolding openThinkingBlock_def by (rule quiet_trans [OF quiet_place quiet_emit]) simp_all

lemma quiet_openSearch: "quiet_rel oi s (openSearchBlock item oi s)"
  using quiet_place [of oi s K_search]
  by (auto simp: openSearchBlock_def quiet_rel_def rx_emit_def Let_def split_def)

lemma quiet_ensureText: "quiet_rel oi s (snd (ensureTextBlock oi s))"
  by (auto simp: ensureTextBlock_def Let_def intro: quiet_trans [OF quiet_close quiet_trans [OF quiet_place quiet_emit]])

lemma quiet_text: "quiet_rel (out_index ev) s (text_arrived ev s)"
  using quiet_ensureText [of "out_index ev" s]
  by (auto simp: text_arrived_def quiet_rel_def rx_emit_def Let_def split_def split: option.split)

lemma quiet_annotation: "quiet_rel (out_index ev) s (annotation_arrived ev s)"
  using quiet_ensureText [of "out_index ev" s]
  by (auto simp: annotation_arrived_def quiet_rel_def rx_emit_def Let_def split_def split: option.split)

lemma quiet_resolve: "quiet_rel oi s (snd (resolveThinkingBlock oi s))"
  using quiet_openThinking [of oi s]
  by (simp add: resolveThinkingBlock_def split: option.split block_kind.split)

lemma quiet_reasoning: "quiet_rel (out_index ev) s (reasoning_arrived ev s)"
proof (cases "nonempty_delta ev")
  case (Some d)
  have "reasoning_arrived ev s = rx_emit (Content_block_delta (fst (resolveThinkingBlock (out_index ev) s)) (Thinking_delta d))
      (snd (resolveThinkingBlock (out_index ev) s))" by (simp add: reasoning_arrived_def Some Let_def split_def)
  then show ?thesis using quiet_trans [OF quiet_resolve quiet_emit] by simp
qed (simp add: reasoning_arrived_def)

lemma quiet_settle:
  assumes "rx_waitingTools s = []" and "\<And>o' c. map_of (rx_toolCalls s) o' = Some c \<Longrightarrow> tc_done c"
  shows "quiet_rel oi s (settleToolCalls s)"
proof -
  let ?s = "s\<lparr>rx_toolCalls := map (\<lambda>(oi, c). (oi, c\<lparr>tc_done := True\<rparr>)) (rx_toolCalls s)\<rparr>"
  have "c\<lparr>tc_done := True\<rparr> = c" if "tc_done c" for c :: tool_call_state using that by (cases c) simp
  then have "map_of (rx_toolCalls ?s) o' = map_of (rx_toolCalls s) o'" for o'
    using assms(2) [of o'] by (cases "map_of (rx_toolCalls s) o'") (simp_all add: map_of_map)
  then have "quiet_rel oi s (?s\<lparr>rx_waitingTools := []\<rparr>)" using assms(1) by (simp add: quiet_rel_def fun_eq_iff)
  from quiet_trans [OF this quiet_close] show ?thesis using assms(1) by (simp add: settleToolCalls_def drainToolCalls_def)
qed

lemma quiet_inv:
  assumes inv: "calls_inv es v s" and idle: "cv_pending v = []" and ok: "blocks_ok t" and new: "map_of (cv_calls v) oi = None"
    and sub: "set es \<subseteq> set fs" and json: "\<And>i k o'. o' \<noteq> oi \<Longrightarrow> map_of (rx_blockByOutputIndex s) o' = Some (k, i) \<Longrightarrow> json_of i fs = json_of i es"
    and above: "\<And>i. rx_nextIndex t \<le> i \<Longrightarrow> json_of i fs = []" and starts: "tool_starts fs = tool_starts es"
    and fr: "\<And>o'. o' \<noteq> oi \<Longrightarrow> map_of (rx_blockByOutputIndex t) o' = map_of (rx_blockByOutputIndex s) o'"
      "map_of (rx_toolCalls t) = map_of (rx_toolCalls s)" "rx_waitingTools t = rx_waitingTools s"
  shows "calls_inv fs (v\<lparr>cv_others := oi # cv_others v\<rparr>) t"
proof -
  note core = inv [unfolded calls_inv_def, THEN conjunct1]
  note k = coreD [OF core]
  have "\<not> toolInFlight s" using flight_pending [OF core] idle by auto
  then have w: "rx_waitingTools s = []" using inv by (auto simp: calls_inv_def)
  have nc: "map_of (rx_toolCalls s) oi = None" using k(3) [of oi] new by simp
  have "calls_core fs (v\<lparr>cv_others := oi # cv_others v\<rparr>) t"
  proof (rule coreI)
    show "call_placed fs t o' c \<or> call_waits t o' c" if c: "map_of (rx_toolCalls t) o' = Some c" for o' c
    proof -
      have ne: "o' \<noteq> oi" using c nc fr(2) by auto
      have "call_placed es s o' c" using k(6) [of o' c] c fr(2) w by (auto simp: call_waits_def)
      then have "call_placed fs t o' c" by (rule call_placed_keep) (use ne fr json sub in auto)
      then show ?thesis ..
    qed
    show "o' \<in> set (cv_others (v\<lparr>cv_others := oi # cv_others v\<rparr>)) \<or> map_of (cv_calls (v\<lparr>cv_others := oi # cv_others v\<rparr>)) o' \<noteq> None"
      if "map_of (rx_blockByOutputIndex t) o' = Some kb" for o' kb
      using that k(7) fr(1) by (cases "o' = oi") auto
    show "\<exists>o' x. map_of (rx_blockByOutputIndex t) o' = Some (K_tool, i) \<and> map_of (rx_toolCalls t) o' = Some x"
      if "i \<in> fst ` set (tool_starts fs)" for i
      using k(15) [of i] that fr(1,2) nc starts by (metis option.distinct(1))
    show "distinct (map fst (tool_starts fs))" using k(14) starts by simp
  qed (use ok above fr k idle new w in auto)
  with w fr show ?thesis by (simp add: calls_inv_def)
qed

section \<open>Every event\<close>

lemma ended_ops [simp]:
  "rx_ended (rx_emit e s) = rx_ended s" "rx_ended (place_block k oi s) = rx_ended s" "rx_ended (set_call oi c s) = rx_ended s"
  "rx_ended (snd (toolCall oi item s)) = rx_ended s" "rx_ended (sendToolArgs oi c s) = rx_ended s"
  "rx_ended (openToolBlock item oi s) = rx_ended s" "rx_ended (openSearchBlock item oi s) = rx_ended s"
  "rx_ended (openThinkingBlock oi s) = rx_ended s" "rx_ended (close_if_open oi s) = rx_ended s" "rx_ended (mark_done oi s) = rx_ended s"
  "rx_ended (placeToolCall oi c s) = rx_ended s" "rx_ended (snd (ensureTextBlock oi s)) = rx_ended s"
  "rx_ended (snd (resolveThinkingBlock oi s)) = rx_ended s" "rx_ended (finishSearchBlock jp item oi s) = rx_ended s"
  by (auto simp: rx_emit_def place_block_def set_call_def toolCall_def sendToolArgs_def openToolBlock_def openSearchBlock_def
      openThinkingBlock_def close_if_open_def mark_done_def placeToolCall_def ensureTextBlock_def resolveThinkingBlock_def
      finishSearchBlock_def Let_def split_def split: option.split block_kind.split)

lemma ended_drain [simp]: "rx_ended (drain_queue ws s) = rx_ended s"
  by (induction ws s rule: drain_queue.induct) (simp_all add: drain_one_def Let_def split_def)

lemma ended_typed:
  assumes "\<not> terminal_type t" and "t \<noteq> lit ''error''"
  shows "rx_ended (push_typed jp t ev s) = rx_ended s"
  using assms
  by (simp add: push_typed_def item_added_def text_arrived_def annotation_arrived_def arguments_arrived_def arguments_done_def
      reasoning_arrived_def item_done_def settleToolCalls_def drainToolCalls_def Let_def split_def split: option.split)

text \<open>A quiet change of an item that is no call.\<close>

lemma quiet_rel_inv:
  assumes inv: "calls_inv (E @ rx_out s) v s" and o: "cv_other oi v = Some v'" and q: "quiet_rel oi s t" and ok: "blocks_ok t"
  shows "calls_inv (E @ rx_out t) v' t"
proof -
  have o': "cv_pending v = []" "map_of (cv_calls v) oi = None" "v' = v\<lparr>cv_others := oi # cv_others v\<rparr>"
    using o by (auto simp: cv_other_def split: if_splits)
  note k = coreD [OF inv [unfolded calls_inv_def, THEN conjunct1]]
  show ?thesis unfolding o'(3)
  proof (rule quiet_inv [OF inv o'(1) ok o'(2)])
    show "json_of i (E @ rx_out t) = []" if "rx_nextIndex t \<le> i" for i
      using k(2) [of i] that q by (auto simp: quiet_rel_def)
  qed (use q in \<open>auto simp: quiet_rel_def\<close>)
qed

lemma search_inv:
  assumes inv: "calls_inv (E @ rx_out s) v s" and o: "cv_other oi v = Some v'"
  shows "calls_inv (E @ rx_out (finishSearchBlock jp item oi s)) v' (finishSearchBlock jp item oi s)"
proof -
  let ?t = "finishSearchBlock jp item oi s"
  have o': "cv_pending v = []" "map_of (cv_calls v) oi = None" "v' = v\<lparr>cv_others := oi # cv_others v\<rparr>"
    using o by (auto simp: cv_other_def split: if_splits)
  note k = coreD [OF inv [unfolded calls_inv_def, THEN conjunct1]]
  have fr: "rx_blockByOutputIndex ?t = rx_blockByOutputIndex s" "rx_toolCalls ?t = rx_toolCalls s" "rx_waitingTools ?t = rx_waitingTools s"
    "rx_nextIndex ?t = rx_nextIndex s + 1" "set (rx_out s) \<subseteq> set (rx_out ?t)" "tool_starts (rx_out ?t) = tool_starts (rx_out s)"
    by (auto simp: finishSearchBlock_def rx_emit_def closeOpenBlock_def Let_def split: option.split block_kind.split)
  have json: "json_of i (rx_out ?t) = json_of i (rx_out s)" if "\<forall>k. map_of (rx_blockByOutputIndex s) oi \<noteq> Some (k, i)" for i
    using that by (auto simp: finishSearchBlock_def rx_emit_def closeOpenBlock_def Let_def split: option.split block_kind.split)
  show ?thesis unfolding o'(3)
  proof (rule quiet_inv [OF inv o'(1) blocks_ok_finishSearch [OF k(1)] o'(2)])
    show "json_of i (E @ rx_out ?t) = json_of i (E @ rx_out s)"
      if "o' \<noteq> oi" "map_of (rx_blockByOutputIndex s) o' = Some (kk, i)" for i kk o'
      using json [of i] blocks_inj [OF k(1) that(2)] that(1) by auto
    show "json_of i (E @ rx_out ?t) = []" if "rx_nextIndex ?t \<le> i" for i
      using json [of i] k(2) [of i] blocks_below [OF k(1)] that fr(4) by fastforce
  qed (use fr in auto)
qed

lemma idle_settle:
  assumes "calls_inv es v s" and "cv_pending v = []"
  shows "quiet_rel oi s (settleToolCalls s)"
proof (rule quiet_settle)
  note core = assms(1) [unfolded calls_inv_def, THEN conjunct1]
  have "\<not> toolInFlight s" using flight_pending [OF core] assms(2) by auto
  then show "rx_waitingTools s = []" using assms(1) by (auto simp: calls_inv_def)
  show "tc_done c" if "map_of (rx_toolCalls s) o' = Some c" for o' c using coreD(5) [OF core that] assms(2) by simp
qed

lemma item_added_inv:
  assumes inv: "calls_inv (E @ rx_out s) v s" and q: "quiet_typed (lit ''response.output_item.added'') ev v = Some v'"
  shows "calls_inv (E @ rx_out (item_added ev s)) v' (item_added ev s)"
proof (cases "item_type ev = Some (lit ''function_call'')")
  case True
  then have "js_truthy (jprop ev ''item'')"
    by (auto simp: item_type_def str_of_def js_truthy_def split: option.splits jvalue.splits) (auto simp: jprop_def split: option.splits jvalue.splits)
  with True q added_inv [OF inv] show ?thesis
    by (auto simp: quiet_typed_def item_added_def terminal_type_def Let_def split: if_splits)
next
  case False
  with q have o: "cv_other (out_index ev) v = Some v'" by (simp add: quiet_typed_def terminal_type_def Let_def)
  then have "cv_pending v = []" by (auto simp: cv_other_def split: if_splits)
  note st = idle_settle [OF inv this, of "out_index ev"]
  note ok = blocks_ok_settle [OF coreD(1) [OF inv [unfolded calls_inv_def, THEN conjunct1]]]
  show ?thesis
    by (rule quiet_rel_inv [OF inv o])
      (use False st ok in \<open>auto simp: item_added_def Let_def intro: quiet_trans [OF st] quiet_openThinking quiet_openSearch
         blocks_ok_openThinking blocks_ok_openSearch\<close>)
qed

lemma arguments_inv:
  assumes inv: "calls_inv (E @ rx_out s) v s" and p: "out_index ev \<in> set (cv_pending v)"
  shows "nonempty_delta ev = Some d \<Longrightarrow>
      calls_inv (E @ rx_out (arguments_arrived ev s)) (cv_args (out_index ev) (\<lambda>a. a @ d) v) (arguments_arrived ev s)"
    and "calls_inv (E @ rx_out (arguments_done ev s))
      (cv_args (out_index ev) (\<lambda>a. told_arguments a (jprop ev ''arguments'')) v) (arguments_done ev s)"
proof -
  note core = inv [unfolded calls_inv_def, THEN conjunct1]
  obtain c where c: "map_of (rx_toolCalls s) (out_index ev) = Some c" using coreD(9) [OF core p] by blast
  note tc = call_found [OF core c]
  show "calls_inv (E @ rx_out (arguments_arrived ev s)) (cv_args (out_index ev) (\<lambda>a. a @ d) v) (arguments_arrived ev s)"
    if "nonempty_delta ev = Some d"
    using grow_inv(1) [OF inv p c, of "\<lambda>a. a @ d" d] that by (simp add: arguments_arrived_def tc Let_def)
  obtain e where e: "told_arguments (tc_args c) (jprop ev ''arguments'') = tc_args c @ e"
    using completed_extends [of "tc_args c"] unfolding completed_told by blast
  show "calls_inv (E @ rx_out (arguments_done ev s))
      (cv_args (out_index ev) (\<lambda>a. told_arguments a (jprop ev ''arguments'')) v) (arguments_done ev s)"
    using grow_inv(1) [OF inv p c, of "\<lambda>a. told_arguments a (jprop ev ''arguments'')" e] e
    by (simp add: arguments_done_def completed_told tc Let_def)
qed

lemma item_done_inv:
  assumes inv: "calls_inv (E @ rx_out s) v s" and q: "quiet_typed (lit ''response.output_item.done'') ev v = Some v'"
  shows "calls_inv (E @ rx_out (item_done jp ev s)) v' (item_done jp ev s)"
proof -
  note core = inv [unfolded calls_inv_def, THEN conjunct1]
  let ?oi = "out_index ev"
  consider (call) "item_type ev = Some (lit ''function_call'')" | (search) "item_type ev = Some (lit ''web_search_call'')"
    | (other) "item_type ev \<noteq> Some (lit ''function_call'')" "item_type ev \<noteq> Some (lit ''web_search_call'')" by blast
  then show ?thesis
  proof cases
    case call
    let ?f = "\<lambda>a. told_arguments a (jprop (jprop ev ''item'') ''arguments'')"
    have p: "?oi \<in> set (cv_pending v)" and v': "v' = (cv_args ?oi ?f v)\<lparr>cv_pending := removeAll ?oi (cv_pending v)\<rparr>"
      using q call by (auto simp: quiet_typed_def terminal_type_def Let_def split: if_splits)
    obtain c where c: "map_of (rx_toolCalls s) ?oi = Some c" using coreD(9) [OF core p] by blast
    obtain e where e: "?f (tc_args c) = tc_args c @ e" using completed_extends [of "tc_args c"] unfolding completed_told by blast
    have pv: "cv_pending (cv_args ?oi ?f v) = cv_pending v" by (simp add: cv_args_def split: option.split)
    note g = grow_inv(1) [OF inv p c, of ?f e, OF e]
    from finish_inv [OF g, of ?oi] p pv call show ?thesis unfolding v'
      by (simp add: item_done_def completed_told call_found [OF core c] Let_def)
  next
    case search
    with q have "cv_other ?oi v = Some v'" by (simp add: quiet_typed_def terminal_type_def Let_def)
    from search_inv [OF inv this] search show ?thesis by (simp add: item_done_def)
  next
    case other
    with q have "cv_other ?oi v = Some v'" by (simp add: quiet_typed_def terminal_type_def Let_def)
    moreover have "blocks_ok (close_if_open ?oi s)"
      using coreD(1) [OF core] by (auto simp: close_if_open_def intro: blocks_ok_close split: option.split)
    ultimately show ?thesis using quiet_rel_inv [OF inv _ quiet_close_if] other by (simp add: item_done_def Let_def)
  qed
qed

lemma typed_inv:
  assumes inv: "calls_inv (E @ rx_out (ensureStarted ev s)) v (ensureStarted ev s)" and q: "quiet_typed t ev v = Some v'"
  shows "calls_inv (E @ rx_out (push_typed jp t ev s)) v' (push_typed jp t ev s)"
proof -
  note ok = coreD(1) [OF inv [unfolded calls_inv_def, THEN conjunct1]]
  have nt: "\<not> terminal_type t" "t \<noteq> lit ''error''" using q by (auto simp: quiet_typed_def split: if_splits)
  have okp: "blocks_ok (push_typed jp t ev s)"
    if "push_typed jp t ev s = push_typed jp t ev (ensureStarted ev s)" using blocks_ok_typed [OF ok, of jp t ev] that by simp
  have "rx_started (ensureStarted ev s)" by (simp add: ensureStarted_def rx_emit_def Let_def)
  then have "ensureStarted ev (ensureStarted ev s) = ensureStarted ev s" by (simp add: ensureStarted_def [of ev "ensureStarted ev s"])
  then have "push_typed jp t ev s = push_typed jp t ev (ensureStarted ev s)" by (simp add: push_typed_def)
  note okp = okp [OF this]
  consider (added) "t = lit ''response.output_item.added''"
    | (txt') "t = lit ''response.output_text.delta''"
    | (ann) "t = lit ''response.output_text.annotation.added''"
    | (args) "t = lit ''response.function_call_arguments.delta''"
    | (args_done) "t = lit ''response.function_call_arguments.done''"
    | (reason) "t = lit ''response.reasoning_summary_text.delta'' \<or> t = lit ''response.reasoning_text.delta''"
    | (finished) "t = lit ''response.output_item.done''"
    | (other) "t \<noteq> lit ''response.output_item.added''" "t \<noteq> lit ''response.output_text.delta''"
        "t \<noteq> lit ''response.output_text.annotation.added''" "t \<noteq> lit ''response.function_call_arguments.delta''"
        "t \<noteq> lit ''response.function_call_arguments.done''"
        "\<not> (t = lit ''response.reasoning_summary_text.delta'' \<or> t = lit ''response.reasoning_text.delta'')"
        "t \<noteq> lit ''response.output_item.done''" by blast
  then show ?thesis
  proof cases
    case added
    with q item_added_inv [OF inv] nt show ?thesis by (simp add: push_typed_def)
  next
    case txt'
    then have r: "push_typed jp t ev s = text_arrived ev (ensureStarted ev s)" using nt by (simp add: push_typed_def)
    show ?thesis using txt' q nt quiet_rel_inv [OF inv _ quiet_text] inv okp unfolding r
      by (auto simp: quiet_typed_def text_arrived_def Let_def split: if_splits)
  next
    case ann
    then have r: "push_typed jp t ev s = annotation_arrived ev (ensureStarted ev s)" using nt by (simp add: push_typed_def)
    show ?thesis using ann q nt quiet_rel_inv [OF inv _ quiet_annotation] inv okp unfolding r
      by (auto simp: quiet_typed_def annotation_arrived_def Let_def split: if_splits)
  next
    case args
    then have r: "push_typed jp t ev s = arguments_arrived ev (ensureStarted ev s)" using nt by (simp add: push_typed_def)
    show ?thesis
    proof (cases "nonempty_delta ev")
      case None
      with args q nt inv show ?thesis unfolding r by (simp add: quiet_typed_def arguments_arrived_def Let_def)
    next
      case (Some d)
      with args q nt arguments_inv(1) [OF inv] show ?thesis unfolding r by (auto simp: quiet_typed_def Let_def split: if_splits)
    qed
  next
    case args_done
    with q nt arguments_inv(2) [OF inv] show ?thesis by (auto simp: push_typed_def quiet_typed_def Let_def split: if_splits)
  next
    case reason
    then have r: "push_typed jp t ev s = reasoning_arrived ev (ensureStarted ev s)" using nt by (auto simp: push_typed_def)
    show ?thesis using reason q nt quiet_rel_inv [OF inv _ quiet_reasoning] inv okp unfolding r
      by (auto simp: quiet_typed_def reasoning_arrived_def Let_def split: if_splits)
  next
    case finished
    with q item_done_inv [OF inv] nt show ?thesis by (simp add: push_typed_def)
  next
    case other
    with q nt inv show ?thesis by (auto simp: push_typed_def quiet_typed_def Let_def)
  qed
qed

section \<open>The whole stream\<close>

lemma calls_inv_start:
  assumes "calls_inv es v s"
  shows "calls_inv (es @ rx_out (ensureStarted ev (s\<lparr>rx_out := []\<rparr>))) v (ensureStarted ev (s\<lparr>rx_out := []\<rparr>))"
proof -
  let ?t = "ensureStarted ev (s\<lparr>rx_out := []\<rparr>)"
  note k = coreD [OF assms [unfolded calls_inv_def, THEN conjunct1]]
  have fr: "rx_blockByOutputIndex ?t = rx_blockByOutputIndex s" "rx_nextIndex ?t = rx_nextIndex s" "rx_open ?t = rx_open s"
    "rx_waitingTools ?t = rx_waitingTools s" "rx_toolCalls ?t = rx_toolCalls s" "json_of i (rx_out ?t) = []" "tool_starts (rx_out ?t) = []" for i
    by (simp_all add: ensureStarted_def rx_emit_def Let_def)
  have "calls_core (es @ rx_out ?t) v ?t"
  proof (rule coreI)
    show "blocks_ok ?t" by (rule blocks_ok_frame [OF k(1)]) (simp_all add: fr)
    show "call_placed (es @ rx_out ?t) ?t oi c \<or> call_waits ?t oi c" if c: "map_of (rx_toolCalls ?t) oi = Some c" for oi c
      using k(6) [of oi c] c
      by (auto simp: fr call_waits_def intro!: call_placed_keep [where t = ?t and fs = "es @ rx_out ?t" and es = es and s = s])
    show "open_is K_tool oi ?t" if "oi \<in> set (cv_pending v)" "map_of (rx_blockByOutputIndex ?t) oi = Some kb" for oi kb
      using k(10) that by (simp add: fr open_is_def)
    show "\<exists>o' x. map_of (rx_blockByOutputIndex ?t) o' = Some (K_tool, i) \<and> map_of (rx_toolCalls ?t) o' = Some x"
      if "i \<in> fst ` set (tool_starts (es @ rx_out ?t))" for i using k(15) [of i] that by (simp add: fr)
    show "distinct (map fst (tool_starts (es @ rx_out ?t)))" using k(14) by (simp add: fr)
  qed (use k in \<open>simp_all add: fr\<close>)
  moreover have "toolInFlight ?t = toolInFlight s" by (simp only: toolInFlight_def fr)
  ultimately show ?thesis using assms by (simp add: calls_inv_def fr)
qed

lemma push_calls:
  assumes inv: "calls_inv es v s" and ended: "\<not> rx_ended s" and q: "quiet_step ev v = Some v'"
    and p: "responses_push jp ev s = (out, s')"
  shows "calls_inv (es @ out) v' s'" and "\<not> rx_ended s'"
proof -
  have "calls_inv (es @ out) v' s' \<and> \<not> rx_ended s'"
  proof (cases "str_of (jprop (Some ev) ''type'')")
    case None
    with assms show ?thesis by (simp add: responses_push_def quiet_step_def)
  next
    case (Some t)
    let ?s = "push_typed jp t (Some ev) (s\<lparr>rx_out := []\<rparr>)"
    have o: "out = rx_out ?s" "s' = ?s" using p ended Some by (auto simp: responses_push_def Let_def)
    have q': "quiet_typed t (Some ev) v = Some v'" using q Some by (simp add: quiet_step_def)
    then have nt: "\<not> terminal_type t" "t \<noteq> lit ''error''" by (auto simp: quiet_typed_def split: if_splits)
    from typed_inv [OF calls_inv_start [OF inv] q'] ended_typed [OF nt] ended o show ?thesis by simp
  qed
  then show "calls_inv (es @ out) v' s'" "\<not> rx_ended s'" by blast+
qed

lemma feed_calls:
  assumes "calls_inv es v s" and "\<not> rx_ended s" and "quiet_run evs v = Some v'" and "responses_feed jp evs s = (out, s')"
  shows "calls_inv (es @ out) v' s' \<and> \<not> rx_ended s'"
  using assms
proof (induction evs arbitrary: es v s out)
  case Nil
  then show ?case by simp
next
  case (Cons ev evs)
  obtain o1 s1 where p: "responses_push jp ev s = (o1, s1)" by fastforce
  obtain o2 where f: "responses_feed jp evs s1 = (o2, s')" and out: "out = o1 @ o2"
    using Cons.prems(4) p by (auto simp: Let_def split: prod.splits)
  obtain v1 where q: "quiet_step ev v = Some v1" "quiet_run evs v1 = Some v'" using Cons.prems(3) by (auto split: option.splits)
  note s1 = push_calls [OF Cons.prems(1,2) q(1) p]
  from Cons.IH [OF s1 q(2) f] out show ?case by simp
qed

lemma new_calls_inv: "calls_inv [] no_calls (new_responses_state m)"
  by (simp add: calls_inv_def calls_core_def no_calls_def new_responses_state_def blocks_ok_def)

text \<open>
  C8. Every call reaches the client once and with exactly its arguments. Function calls may be added, fed and finished
  in any interleaving - all opened before any has arguments, arguments only at the end, calls finished out of
  order - and text, reasoning and searches may come before, between and after them. As long as nothing else
  writes while a call is unfinished and every call is finished, the tool blocks the client is given are the calls, one for
  one: no index is started twice, each block belongs to one call and each call to one block, started under the call's id
  and name, and the fragments of that block together are the arguments the upstream told - the deltas, and what the final
  events add to them - nothing missing and nothing twice.
\<close>

theorem calls_arrive_whole:
  assumes "quiet_run evs no_calls = Some v" and "cv_pending v = []"
    and "out = fst (responses_feed jp evs (new_responses_state m))"
  shows "distinct (map fst (tool_starts out))
    \<and> (\<exists>f. bij_betw f (dom (map_of (cv_calls v))) (fst ` set (tool_starts out))
        \<and> (\<forall>oi item args. map_of (cv_calls v) oi = Some (item, args) \<longrightarrow>
             (\<exists>d. (f oi, d, strOr (jprop item ''name'')) \<in> set (tool_starts out) \<and> (own_id item \<noteq> [] \<longrightarrow> d = own_id item))
             \<and> json_of (f oi) out = args))"
proof -
  obtain s where f: "responses_feed jp evs (new_responses_state m) = (out, s)" using assms(3) by (metis prod.collapse)
  have "\<not> rx_ended (new_responses_state m)" by (simp add: new_responses_state_def)
  from feed_calls [OF new_calls_inv this assms(1) f] have inv: "calls_inv out v s" by simp
  note core = inv [unfolded calls_inv_def, THEN conjunct1]
  note k = coreD [OF core]
  have "\<not> toolInFlight s" using flight_pending [OF core] assms(2) by auto
  then have w: "rx_waitingTools s = []" using inv by (auto simp: calls_inv_def)
  define g where "g oi = snd (the (map_of (rx_blockByOutputIndex s) oi))" for oi
  have placed: "map_of (rx_blockByOutputIndex s) oi = Some (K_tool, g oi)
      \<and> (\<exists>d. (g oi, d, strOr (jprop item ''name'')) \<in> set (tool_starts out) \<and> (own_id item \<noteq> [] \<longrightarrow> d = own_id item)) \<and> json_of (g oi) out = args"
    if c: "map_of (cv_calls v) oi = Some (item, args)" for oi item args
  proof -
    obtain c where c: "map_of (rx_toolCalls s) oi = Some c" "tc_item c = item" "tc_args c = args"
      using k(3) [of oi] c by (cases "map_of (rx_toolCalls s) oi") auto
    from k(6) [OF c(1)] w c(2,3) show ?thesis by (auto simp: call_placed_def call_waits_def announced_def in_tool_starts g_def)
  qed
  have "inj_on g (dom (map_of (cv_calls v)))"
  proof (rule inj_onI)
    fix oi oj assume "oi \<in> dom (map_of (cv_calls v))" "oj \<in> dom (map_of (cv_calls v))" and e: "g oi = g oj"
    then obtain x a y b where "map_of (cv_calls v) oi = Some (x, a)" "map_of (cv_calls v) oj = Some (y, b)" by auto
    from placed [OF this(1)] placed [OF this(2)] e
    have "map_of (rx_blockByOutputIndex s) oi = Some (K_tool, g oj)" "map_of (rx_blockByOutputIndex s) oj = Some (K_tool, g oj)" by simp_all
    then show "oi = oj" using blocks_inj [OF k(1)] by blast
  qed
  moreover have "g ` dom (map_of (cv_calls v)) = fst ` set (tool_starts out)"
  proof (intro equalityI subsetI)
    fix i assume "i \<in> fst ` set (tool_starts out)"
    from k(15) [OF this] obtain oi c where o: "map_of (rx_blockByOutputIndex s) oi = Some (K_tool, i)" "map_of (rx_toolCalls s) oi = Some c" by blast
    with k(3) [of oi] show "i \<in> g ` dom (map_of (cv_calls v))" by (intro image_eqI [of _ _ oi]) (auto simp: g_def)
  next
    fix i assume "i \<in> g ` dom (map_of (cv_calls v))"
    then obtain oi item args where "map_of (cv_calls v) oi = Some (item, args)" "i = g oi" by auto
    with placed [OF this(1)] show "i \<in> fst ` set (tool_starts out)" by force
  qed
  ultimately show ?thesis using k(14) placed by (intro conjI exI [of _ g]) (auto simp: bij_betw_def)
qed

theorem calls_arrive_whole_witness:
  "\<exists>f. inj_on f {1, 2 :: rat} \<and> card (fst ` set (tool_starts (fst (responses_feed (\<lambda>_. []) sample_calls (new_responses_state None))))) = 2
     \<and> (f 2, lit ''b'', lit ''run'') \<in> set (tool_starts (fst (responses_feed (\<lambda>_. []) sample_calls (new_responses_state None))))
     \<and> json_of (f 2) (fst (responses_feed (\<lambda>_. []) sample_calls (new_responses_state None))) = lit ''{}''"
proof -
  let ?out = "fst (responses_feed (\<lambda>_. []) sample_calls (new_responses_state None))"
  let ?item = "Some (J_obj [(lit ''type'', J_str (lit ''function_call'')), (lit ''call_id'', J_str (lit ''b'')), (lit ''name'', J_str (lit ''run''))])"
  have "\<exists>v. quiet_run sample_calls no_calls = Some v \<and> cv_pending v = [] \<and> map_of (cv_calls v) 2 = Some (?item, lit ''{}'')
      \<and> set (map fst (cv_calls v)) = {1, 2}"
  proof -
    have "(case quiet_run sample_calls no_calls of None \<Rightarrow> False
        | Some v \<Rightarrow> cv_pending v = [] \<and> map_of (cv_calls v) 2 = Some (?item, lit ''{}'') \<and> set (map fst (cv_calls v)) = {1, 2})" by code_simp
    then show ?thesis by (auto split: option.splits)
  qed
  then obtain v where v: "quiet_run sample_calls no_calls = Some v" "cv_pending v = []" "map_of (cv_calls v) 2 = Some (?item, lit ''{}'')"
    "dom (map_of (cv_calls v)) = {1, 2}" by (auto simp: dom_map_of_conv_image_fst)
  have n: "strOr (jprop ?item ''name'') = lit ''run''" "own_id ?item = lit ''b''" "lit ''b'' \<noteq> []" by code_simp+
  from calls_arrive_whole [OF v(1,2) refl, of "\<lambda>_. []" None] obtain f where
    f: "bij_betw f (dom (map_of (cv_calls v))) (fst ` set (tool_starts ?out))" and
    g: "\<forall>oi item args. map_of (cv_calls v) oi = Some (item, args) \<longrightarrow>
             (\<exists>d. (f oi, d, strOr (jprop item ''name'')) \<in> set (tool_starts ?out) \<and> (own_id item \<noteq> [] \<longrightarrow> d = own_id item))
             \<and> json_of (f oi) ?out = args" by (elim conjE exE)
  from g [rule_format, OF v(3)] have g: "(f 2, lit ''b'', lit ''run'') \<in> set (tool_starts ?out)" "json_of (f 2) ?out = lit ''{}''"
    unfolding n by (auto simp: n(3))
  note f = f [unfolded v(4)]
  have "card (fst ` set (tool_starts ?out)) = 2" using bij_betw_same_card [OF f] by simp
  then show ?thesis using f g by (intro exI [of _ f]) (simp add: bij_betw_def)
qed

section \<open>A call interrupted by text\<close>

text \<open>The events that carry a call's arguments.\<close>

definition argument_event :: "rat \<Rightarrow> jvalue \<Rightarrow> bool" where
  "argument_event oi ev \<longleftrightarrow>
     out_index (Some ev) = oi
     \<and> (str_of (jprop (Some ev) ''type'') \<in> {Some (lit ''response.function_call_arguments.delta''), Some (lit ''response.function_call_arguments.done'')}
        \<or> str_of (jprop (Some ev) ''type'') = Some (lit ''response.output_item.done'') \<and> item_type (Some ev) = Some (lit ''function_call''))"

definition displaced :: "rat \<Rightarrow> responses_state \<Rightarrow> bool" where
  "displaced oi s \<longleftrightarrow>
     rx_started s \<and> \<not> rx_ended s \<and> rx_waitingTools s = [] \<and> (\<exists>b. rx_open s = Some b \<and> ob_outputIndex b \<noteq> oi)
     \<and> map_of (rx_blockByOutputIndex s) oi \<noteq> None \<and> (\<exists>c. map_of (rx_toolCalls s) oi = Some c \<and> js_truthy (tc_item c))"

lemma displaced_silent:
  assumes "displaced oi s" and "argument_event oi ev" and "responses_push jp ev s = (out, s')"
  shows "out = [] \<and> displaced oi s'"
proof -
  obtain c b where c: "map_of (rx_toolCalls s) oi = Some c" "js_truthy (tc_item c)" and b: "rx_open s = Some b" "ob_outputIndex b \<noteq> oi"
    using assms(1) by (auto simp: displaced_def)
  let ?s = "s\<lparr>rx_out := []\<rparr>"
  have st: "rx_started s" "\<not> rx_ended s" "rx_waitingTools s = []" "map_of (rx_blockByOutputIndex s) oi \<noteq> None"
    using assms(1) by (auto simp: displaced_def)
  have tc: "toolCall oi item ?s = (c, ?s)" for item using c by (simp add: toolCall_def)
  have pl: "placeToolCall oi c' (set_call oi c' ?s) = set_call oi c' ?s" for c'
    using st(4) b by (auto simp: placeToolCall_def sendToolArgs_def set_call_def open_is_def)
  have dn: "drainToolCalls (close_if_open oi (mark_done oi (set_call oi c' ?s))) = set_call oi (c'\<lparr>tc_done := True\<rparr>) (set_call oi c' ?s)" for c'
    using b st(3) by (simp add: close_if_open_def mark_done_def set_call_def update_conv' drainToolCalls_def waiting_same)
  have d: "displaced oi (set_call oi c' u)" if "js_truthy (tc_item c')" "displaced oi u" for c' u
    using that by (auto simp: displaced_def set_call_def update_conv')
  have d0: "displaced oi ?s" using assms(1) by (simp add: displaced_def)
  have oi: "out_index (Some ev) = oi" using assms(2) by (simp add: argument_event_def)
  have out: "rx_out (set_call oi c' u) = rx_out u" for c' u by (simp add: set_call_def)
  have en: "ensureStarted (Some ev) ?s = ?s" using st(1) by (simp add: ensureStarted_def)
  have "rx_out u = [] \<and> displaced oi u"
    if u: "u = push_typed jp t (Some ev) ?s" and t: "str_of (jprop (Some ev) ''type'') = Some t" for u t
  proof -
    consider (delta) "t = lit ''response.function_call_arguments.delta''" | (whole) "t = lit ''response.function_call_arguments.done''"
      | (fin) "t = lit ''response.output_item.done''" "item_type (Some ev) = Some (lit ''function_call'')"
      using assms(2) unfolding argument_event_def t by auto
    then show ?thesis
    proof cases
      case delta
      then have "u = (case nonempty_delta (Some ev) of None \<Rightarrow> ?s | Some x \<Rightarrow> set_call oi (c\<lparr>tc_args := tc_args c @ x\<rparr>) ?s)"
        by (simp add: u push_typed_def terminal_type_def en arguments_arrived_def oi tc pl split: option.split)
      then show ?thesis using d0 c(2) by (cases "nonempty_delta (Some ev)") (simp_all add: d out)
    next
      case whole
      then show ?thesis using d0 c(2)
        by (simp add: u push_typed_def terminal_type_def en arguments_done_def oi tc pl d out Let_def)
    next
      case fin
      then show ?thesis using d0 c(2)
        by (simp add: u push_typed_def terminal_type_def en item_done_def oi tc pl dn d out Let_def)
    qed
  qed
  note step = this
  obtain t where t: "str_of (jprop (Some ev) ''type'') = Some t" using assms(2) by (auto simp: argument_event_def)
  have o: "out = rx_out (push_typed jp t (Some ev) ?s)" "s' = push_typed jp t (Some ev) ?s"
    using assms(3) st(2) t by (auto simp: responses_push_def Let_def)
  show ?thesis unfolding o by (rule step [OF refl t])
qed

lemma displaced_feed:
  "displaced oi s \<Longrightarrow> \<forall>ev \<in> set evs. argument_event oi ev \<Longrightarrow> responses_feed jp evs s = (out, s') \<Longrightarrow> out = [] \<and> displaced oi s'"
proof (induction evs arbitrary: s out)
  case (Cons ev evs)
  obtain o1 s1 where p: "responses_push jp ev s = (o1, s1)" by fastforce
  with Cons show ?case using displaced_silent [OF Cons.prems(1) _ p] by (auto simp: Let_def split: prod.splits)
qed simp

lemma displaced_end: "displaced oi s \<Longrightarrow> json_of i (fst (responses_end s)) = []"
  by (auto simp: displaced_def responses_end_def finalize_def settleToolCalls_def drainToolCalls_def ensureStarted_def
      closeOpenBlock_def rx_emit_def Let_def split: option.split)

lemma feed_append:
  "responses_feed jp (xs @ ys) s =
     (let (o1, s1) = responses_feed jp xs s; (o2, s2) = responses_feed jp ys s1 in (o1 @ o2, s2))"
  by (induction xs arbitrary: s) (simp_all add: Let_def split_def)

text \<open>
  Text in the middle of a call cuts its arguments. Let a call be the one call of a stream so far and still
  unfinished. When text of another item arrives, its block is closed; then whatever more of its arguments
  comes, in fragments or with its final events, none of it is sent: when the stream has ended, the call's
  block carries the arguments received before the text and nothing else.
\<close>

theorem interrupted_call_truncated:
  assumes run: "quiet_run evs no_calls = Some v" and p: "cv_pending v = [oi]"
    and v: "\<forall>oj. map_of (cv_calls v) oj \<noteq> None \<longrightarrow> oj = oi" "map_of (cv_calls v) oi = Some (item, args)"
    and t: "str_of (jprop (Some tev) ''type'') = Some (lit ''response.output_text.delta'')" "nonempty_delta (Some tev) \<noteq> None"
      "out_index (Some tev) \<noteq> oi"
    and rest: "\<forall>ev \<in> set rest. argument_event oi ev"
  shows "\<exists>i d. Content_block_start i (Tool_use d (strOr (jprop item ''name''))) \<in> set (responses_stream jp m (evs @ tev # rest))
    \<and> json_of i (responses_stream jp m (evs @ tev # rest)) = args"
proof -
  obtain o1 s1 where f1: "responses_feed jp evs (new_responses_state m) = (o1, s1)" by fastforce
  obtain o2 s2 where f2: "responses_push jp tev s1 = (o2, s2)" by fastforce
  obtain o3 s3 where f3: "responses_feed jp rest s2 = (o3, s3)" by fastforce
  have "\<not> rx_ended (new_responses_state m)" by (simp add: new_responses_state_def)
  from feed_calls [OF new_calls_inv this run f1] have inv: "calls_inv o1 v s1" and ne: "\<not> rx_ended s1" by simp_all
  note core = inv [unfolded calls_inv_def, THEN conjunct1]
  note k = coreD [OF core]
  obtain c where c: "map_of (rx_toolCalls s1) oi = Some c" "tc_item c = item" "tc_args c = args"
    using k(3) [of oi] v(2) by (cases "map_of (rx_toolCalls s1) oi") auto
  have op: "open_is K_tool oi s1"
  proof (rule ccontr)
    assume n: "\<not> open_is K_tool oi s1"
    have "oi \<in> set (cv_pending v)" using p by simp
    from pending_seat(2) [OF core this c(1) n] have "rx_waitingTools s1 \<noteq> []" by (auto simp: call_waits_def)
    then have "toolInFlight s1" using inv by (simp add: calls_inv_def)
    from flight_pending [OF core this] n p show False by auto
  qed
  then obtain b where b: "rx_open s1 = Some b" "ob_kind b = K_tool" "ob_outputIndex b = oi" by (auto simp: open_is_Some)
  have pl: "call_placed o1 s1 oi c" using pending_seat(1) [OF core _ c(1) op] p by simp
  then obtain i d where i: "map_of (rx_blockByOutputIndex s1) oi = Some (K_tool, i)" "json_of i o1 = args"
    "Content_block_start i (Tool_use d (strOr (jprop item ''name''))) \<in> set o1" using c by (auto simp: call_placed_def announced_def)
  have w: "rx_waitingTools s1 = []"
  proof (rule ccontr)
    assume "rx_waitingTools s1 \<noteq> []"
    then obtain oj where oj: "oj \<in> set (rx_waitingTools s1)" by (cases "rx_waitingTools s1") auto
    from k(13) [OF oj] k(3) [of oj] v(1) have "oj = oi" by auto
    with k(12) [OF oj] i(1) show False by simp
  qed
  let ?s = "ensureStarted (Some tev) (s1\<lparr>rx_out := []\<rparr>)"
  have st: "rx_started ?s" by (simp add: ensureStarted_def rx_emit_def Let_def)
  have s2: "s2 = text_arrived (Some tev) ?s" "o2 = rx_out s2"
    using f2 ne t(1) by (auto simp: responses_push_def push_typed_def terminal_type_def Let_def)
  have nt: "\<not> open_is K_text (out_index (Some tev)) ?s" using b by (simp add: open_is_def)
  obtain dl where dl: "nonempty_delta (Some tev) = Some dl" using t(2) by auto
  have fr: "rx_toolCalls s2 = rx_toolCalls s1" "rx_waitingTools s2 = []" "rx_ended s2 = False" "rx_started s2"
    "map_of (rx_blockByOutputIndex s2) oi = Some (K_tool, i)" "\<exists>b. rx_open s2 = Some b \<and> ob_outputIndex b \<noteq> oi"
    using w ne st i(1) t(3) nt
    by (auto simp: s2(1) text_arrived_def dl ensureTextBlock_def rx_emit_def place_block_def update_conv' Let_def)
  have disp: "displaced oi s2" using fr c(1) k(4) [OF c(1)] by (simp add: displaced_def)
  have j2: "json_of i o2 = []"
    using quiet_text [of "Some tev" ?s] by (simp add: s2 quiet_rel_def) (simp add: ensureStarted_def rx_emit_def Let_def)
  note d3 = displaced_feed [OF disp rest f3]
  have "responses_stream jp m (evs @ tev # rest) = o1 @ o2 @ o3 @ fst (responses_end s3)"
    by (simp add: responses_stream_def feed_append f1 f2 f3)
  moreover have "json_of i (o1 @ o2 @ o3 @ fst (responses_end s3)) = args"
    using i(2) j2 d3 displaced_end [of oi s3] by simp
  ultimately show ?thesis using i(3) by (intro exI [of _ i] exI [of _ d]) simp
qed

theorem interrupted_call_truncated_witness:
  "\<exists>i d. Content_block_start i (Tool_use d (lit ''run'')) \<in> set (responses_stream (\<lambda>_. []) None
       ([sample_event ''response.output_item.added'' 1 (sample_item ''function_call'' ''a''),
         sample_event ''response.function_call_arguments.delta'' 1 (sample_delta ''[1'')]
        @ sample_event ''response.output_text.delta'' 2 (sample_delta ''hi'')
        # [sample_event ''response.function_call_arguments.delta'' 1 (sample_delta '',2]'')]))
     \<and> json_of i (responses_stream (\<lambda>_. []) None
       ([sample_event ''response.output_item.added'' 1 (sample_item ''function_call'' ''a''),
         sample_event ''response.function_call_arguments.delta'' 1 (sample_delta ''[1'')]
        @ sample_event ''response.output_text.delta'' 2 (sample_delta ''hi'')
        # [sample_event ''response.function_call_arguments.delta'' 1 (sample_delta '',2]'')])) = lit ''[1''"
proof -
  let ?item = "Some (J_obj [(lit ''type'', J_str (lit ''function_call'')), (lit ''call_id'', J_str (lit ''a'')), (lit ''name'', J_str (lit ''run''))])"
  let ?evs = "[sample_event ''response.output_item.added'' 1 (sample_item ''function_call'' ''a''),
         sample_event ''response.function_call_arguments.delta'' 1 (sample_delta ''[1'')]"
  let ?t = "sample_event ''response.output_text.delta'' 2 (sample_delta ''hi'')"
  let ?r = "[sample_event ''response.function_call_arguments.delta'' 1 (sample_delta '',2]'')]"
  let ?v = "\<lparr>cv_pending = [1], cv_calls = [(1, (?item, lit ''[1''))], cv_others = []\<rparr>"
  have q: "quiet_run ?evs no_calls = Some ?v" by code_simp
  have t: "str_of (jprop (Some ?t) ''type'') = Some (lit ''response.output_text.delta'')" "nonempty_delta (Some ?t) \<noteq> None"
      "out_index (Some ?t) \<noteq> 1" by code_simp+
  have r: "\<forall>ev \<in> set ?r. argument_event 1 ev" by code_simp
  have n: "strOr (jprop ?item ''name'') = lit ''run''" by code_simp
  have v: "\<forall>oj. map_of (cv_calls ?v) oj \<noteq> None \<longrightarrow> oj = 1" "map_of (cv_calls ?v) 1 = Some (?item, lit ''[1'')" "cv_pending ?v = [1]" by simp_all
  from interrupted_call_truncated [OF q v(3,1,2) t r, of "\<lambda>_. []" None] show ?thesis unfolding n .
qed

end
