(* ===== verification/Responses_Assemble.thy ===== *)
theory Responses_Assemble
  imports Responses_Calls
begin

text \<open>
  The two ends of the translator (\<open>anthropic-responses-translate.ts\<close>): the parser that cuts upstream text into
  events (\<open>createResponsesSSEParser\<close>) and the assembler that folds the translated stream into one message for
  a client that does not stream (\<open>createAnthropicMessageAssembler\<close>). \<open>JSON.parse\<close> is an argument.
\<close>

section \<open>The parser\<close>

text \<open>\<open>/\r?\n\r?\n/\<close> at the front of a text: what is behind it.\<close>

definition skip_cr :: "utext \<Rightarrow> utext" where
  "skip_cr s = (case s of x # r \<Rightarrow> (if x = 13 then r else s) | [] \<Rightarrow> [])"

definition skip_lf :: "utext \<Rightarrow> utext option" where
  "skip_lf s = (case s of x # r \<Rightarrow> (if x = 10 then Some r else None) | [] \<Rightarrow> None)"

definition boundary_at :: "utext \<Rightarrow> utext option" where
  "boundary_at s = (case skip_lf (skip_cr s) of None \<Rightarrow> None | Some r \<Rightarrow> skip_lf (skip_cr r))"

fun cut_record :: "utext \<Rightarrow> (utext \<times> utext) option" where
  "cut_record [] = None"
| "cut_record (x # s) =
     (case boundary_at (x # s) of
        Some r \<Rightarrow> Some ([], r)
      | None \<Rightarrow> map_option (\<lambda>(f, r). (x # f, r)) (cut_record s))"

lemma skip_shorter: "skip_lf (skip_cr s) = Some r \<Longrightarrow> length r < length s"
  by (auto simp: skip_lf_def skip_cr_def split: list.splits if_splits)

lemma boundary_shorter: "boundary_at s = Some r \<Longrightarrow> length r < length s"
  by (auto simp: boundary_at_def dest!: skip_shorter split: option.splits)

lemma cut_record_shorter [termination_simp]: "cut_record s = Some (f, r) \<Longrightarrow> length r < length s"
  by (induction s arbitrary: f) (auto dest: boundary_shorter split: option.splits)

fun split_records :: "utext \<Rightarrow> utext list \<times> utext" where
  "split_records buf =
     (case cut_record buf of
        None \<Rightarrow> ([], buf)
      | Some (rec, rest) \<Rightarrow> (let (rs, left) = split_records rest in (rec # rs, left)))"

declare split_records.simps [simp del]

definition drop_cr :: "utext \<Rightarrow> utext" where
  "drop_cr line = (if has_suffix line [13] then butlast line else line)"

definition parseResponsesSSEEvent :: "(utext \<Rightarrow> jvalue option) \<Rightarrow> utext option \<Rightarrow> utext \<Rightarrow> jvalue option" where
  "parseResponsesSSEEvent json_parse eventLine dataLine =
     (let dtrim = drop_cr dataLine
      in if \<not> has_prefix dtrim (lit ''data:'') then None
         else
           let payload = text_trim (drop 5 dtrim)
           in if payload = [] \<or> payload = DONE_TEXT then None
              else (case json_parse payload of
                      Some (J_obj ob) \<Rightarrow>
                        let ob' = (case (str_of (map_of ob (lit ''type'')), eventLine) of
                                     (None, Some l) \<Rightarrow>
                                       let etrim = drop_cr l
                                       in if has_prefix etrim (lit ''event:'')
                                          then AList.update (lit ''type'') (J_str (text_trim (drop 6 etrim))) ob else ob
                                   | _ \<Rightarrow> ob)
                        in if str_of (map_of ob' (lit ''type'')) \<noteq> None then Some (J_obj ob') else None
                    | _ \<Rightarrow> None))"

record sse_record =
  sr_eventLine :: "utext option"
  sr_dataParts :: "utext list"

definition record_line :: "sse_record \<Rightarrow> utext \<Rightarrow> sse_record" where
  "record_line a raw =
     (let line = drop_cr raw
      in if has_prefix line (lit ''event:'') then a\<lparr>sr_eventLine := Some line\<rparr>
         else if has_prefix line (lit ''data:'') then
           a\<lparr>sr_dataParts := sr_dataParts a @ [let d = drop 5 line in if has_prefix d [32] then drop 1 d else d]\<rparr>
         else a)"

definition join_with :: "'a list \<Rightarrow> 'a list list \<Rightarrow> 'a list" where
  "join_with sep parts = (case parts of [] \<Rightarrow> [] | p # ps \<Rightarrow> p @ concat (map (\<lambda>q. sep @ q) ps))"

definition parseRecord :: "(utext \<Rightarrow> jvalue option) \<Rightarrow> utext \<Rightarrow> jvalue option" where
  "parseRecord json_parse rec =
     (let a = foldl record_line \<lparr>sr_eventLine = None, sr_dataParts = []\<rparr> (split_list 10 rec)
      in if sr_dataParts a = [] then None
         else parseResponsesSSEEvent json_parse (sr_eventLine a) (lit ''data: '' @ join_with [10] (sr_dataParts a)))"

definition responses_parser_push :: "(utext \<Rightarrow> jvalue option) \<Rightarrow> utext \<Rightarrow> utext \<Rightarrow> jvalue list \<times> utext" where
  "responses_parser_push json_parse buf chunk =
     (if chunk = [] then ([], buf)
      else (let (rs, left) = split_records (buf @ chunk) in (List.map_filter (parseRecord json_parse) rs, left)))"

definition responses_parser_flush :: "(utext \<Rightarrow> jvalue option) \<Rightarrow> utext \<Rightarrow> jvalue list \<times> utext" where
  "responses_parser_flush json_parse buf =
     (let rest = text_trim buf
      in (if rest = [] then [] else (case parseRecord json_parse rest of Some ev \<Rightarrow> [ev] | None \<Rightarrow> []), []))"

lemma skip_append: "skip_lf (skip_cr a) = Some r \<Longrightarrow> skip_lf (skip_cr (a @ b)) = Some (r @ b)"
  by (auto simp: skip_lf_def skip_cr_def split: list.splits if_splits)

lemma boundary_append: "boundary_at a = Some r \<Longrightarrow> boundary_at (a @ b) = Some (r @ b)"
  by (auto simp: boundary_at_def skip_append split: option.splits)

text \<open>Where a later boundary is complete, an earlier one cannot be a matter of what comes next.\<close>

lemma boundary_settled: "boundary_at s = None \<Longrightarrow> cut_record s = Some p \<Longrightarrow> boundary_at (s @ b) = None"
  by (cases s; cases "tl s"; cases "tl (tl s)"; cases "tl (tl (tl s))")
    (auto simp: boundary_at_def skip_lf_def skip_cr_def split: list.splits if_splits option.splits)

lemma cut_record_extend: "cut_record a = Some (f, r) \<Longrightarrow> cut_record (a @ b) = Some (f, r @ b)"
proof (induction a arbitrary: f)
  case (Cons x a)
  show ?case
  proof (cases "boundary_at (x # a)")
    case None
    with Cons.prems obtain g where g: "cut_record a = Some (g, r)" "f = x # g" by auto
    have "boundary_at ((x # a) @ b) = None" by (rule boundary_settled [OF None Cons.prems])
    with Cons.IH [OF g(1)] g(2) show ?thesis by simp
  next
    case (Some q)
    with Cons.prems boundary_append [OF Some, of b] show ?thesis by simp
  qed
qed simp

lemma split_records_None: "cut_record s = None \<Longrightarrow> split_records s = ([], s)"
  by (simp add: split_records.simps)

lemma split_records_Some:
  "cut_record s = Some (f, r) \<Longrightarrow> split_records s = (f # fst (split_records r), snd (split_records r))"
  by (simp add: split_records.simps [of s] Let_def split_def)

interpretation record_reader: chunked_reader cut_record split_records
  by unfold_locales (auto intro: split_records_None split_records_Some cut_record_shorter cut_record_extend)

text \<open>The events of the chunks of a stream, and what stays buffered.\<close>

definition parse_chunks :: "(utext \<Rightarrow> jvalue option) \<Rightarrow> utext list \<Rightarrow> jvalue list \<times> utext" where
  "parse_chunks json_parse chunks =
     foldl (\<lambda>(evs, b) c. let (es, b') = responses_parser_push json_parse b c in (evs @ es, b')) ([], []) chunks"

lemma push_buffered:
  assumes "cut_record buf = None"
  shows "responses_parser_push json_parse buf c =
    (List.map_filter (parseRecord json_parse) (fst (split_records (buf @ c))), snd (split_records (buf @ c)))"
  using assms by (auto simp: responses_parser_push_def record_reader.split_None Let_def split_def)

lemma parse_chunks_from:
  assumes "cut_record buf = None"
  shows "foldl (\<lambda>(evs, b) c. let (es, b') = responses_parser_push json_parse b c in (evs @ es, b')) (evs, buf) chunks =
    foldl (\<lambda>(fs, b) c. (fs @ List.map_filter (parseRecord json_parse) (fst (split_records (b @ c))), snd (split_records (b @ c)))) (evs, buf) chunks"
  using assms
  by (induction chunks arbitrary: evs buf) (simp_all add: push_buffered record_reader.split_rest)

text \<open>
  The events do not depend on how the upstream's bytes were cut. Whatever the chunks, empty ones and
  chunks that end inside a line break or between the two breaks of a boundary included, the parser yields
  the events of the whole text at once and is left with the same rest, and no complete record is held back.
\<close>

theorem responses_parser_chunk_independent:
  "parse_chunks json_parse chunks = responses_parser_push json_parse [] (concat chunks)
   \<and> cut_record (snd (parse_chunks json_parse chunks)) = None"
proof -
  have "parse_chunks json_parse chunks =
      (List.map_filter (parseRecord json_parse) (fst (split_records (concat chunks))), snd (split_records (concat chunks)))"
    unfolding parse_chunks_def
    by (subst parse_chunks_from, simp, rule record_reader.chunks_whole) (simp_all add: map_filter_def)
  then show ?thesis by (simp add: push_buffered record_reader.split_rest)
qed

section \<open>The assembler\<close>

text \<open>A block under construction: how it was started, if it was, and the fields the deltas have written.\<close>

record asm_block =
  ab_start :: "start_block option"
  ab_text :: "utext option"
  ab_thinking :: "utext option"
  ab_citations :: "web_citation list"
  ab_input :: "jobject option"

record asm_message =
  am_id :: utext
  am_model :: utext
  am_stop :: "stop_reason option"
  am_usage :: anthropic_usage

record assembler =
  as_msg :: "asm_message option"
  as_blocks :: "(int, asm_block) jsmap"
  as_partialJson :: "(int, utext) jsmap"

definition new_assembler :: assembler where
  "new_assembler = \<lparr>as_msg = None, as_blocks = [], as_partialJson = []\<rparr>"

definition empty_block :: asm_block where
  "empty_block = \<lparr>ab_start = None, ab_text = None, ab_thinking = None, ab_citations = [], ab_input = None\<rparr>"

definition started_block :: "start_block \<Rightarrow> asm_block" where
  "started_block b =
     empty_block\<lparr>ab_start := Some b,
       ab_text := (case b of Text_block t \<Rightarrow> Some t | _ \<Rightarrow> None),
       ab_thinking := (case b of Thinking_block t \<Rightarrow> Some t | _ \<Rightarrow> None)\<rparr>"

definition takes_json :: "start_block option \<Rightarrow> bool" where
  "takes_json b = (case b of Some (Tool_use _ _) \<Rightarrow> True | Some (Server_tool_use _) \<Rightarrow> True | _ \<Rightarrow> False)"

definition delta_into :: "content_delta \<Rightarrow> asm_block \<Rightarrow> asm_block" where
  "delta_into d b =
     (case d of
        Text_delta t \<Rightarrow> b\<lparr>ab_text := Some (opt_or (ab_text b) [] @ t)\<rparr>
      | Thinking_delta t \<Rightarrow> b\<lparr>ab_thinking := Some (opt_or (ab_thinking b) [] @ t)\<rparr>
      | Input_json_delta t \<Rightarrow> b
      | Citations_delta c \<Rightarrow> b\<lparr>ab_citations := ab_citations b @ [c]\<rparr>)"

definition merge_usage :: "delta_usage \<Rightarrow> anthropic_usage \<Rightarrow> anthropic_usage" where
  "merge_usage e u =
     \<lparr>us_input = opt_or (du_input e) (us_input u), us_output = du_output e,
      us_cache_read = (case du_cache_read e of Some n \<Rightarrow> Some n | None \<Rightarrow> us_cache_read u),
      us_cache_creation = (case du_cache_creation e of Some n \<Rightarrow> Some n | None \<Rightarrow> us_cache_creation u)\<rparr>"

fun assemble_event :: "anthropic_event \<Rightarrow> assembler \<Rightarrow> assembler" where
  "assemble_event (Message_start i m) a =
     a\<lparr>as_msg := Some \<lparr>am_id = i, am_model = m, am_stop = None,
        am_usage = \<lparr>us_input = 0, us_output = 0, us_cache_read = None, us_cache_creation = None\<rparr>\<rparr>\<rparr>"
| "assemble_event (Content_block_start i b) a =
     a\<lparr>as_blocks := AList.update i (started_block b) (as_blocks a),
       as_partialJson := (if takes_json (Some b) then AList.update i [] (as_partialJson a) else as_partialJson a)\<rparr>"
| "assemble_event (Content_block_delta i d) a =
     a\<lparr>as_blocks := AList.update i (delta_into d (opt_or (map_of (as_blocks a) i) empty_block)) (as_blocks a),
       as_partialJson := (case d of
          Input_json_delta t \<Rightarrow> AList.update i (opt_or (map_of (as_partialJson a) i) [] @ t) (as_partialJson a)
        | _ \<Rightarrow> as_partialJson a)\<rparr>"
| "assemble_event (Content_block_stop i) a = a"
| "assemble_event (Message_delta r u) a =
     a\<lparr>as_msg := map_option (\<lambda>m. m\<lparr>am_stop := Some r, am_usage := merge_usage u (am_usage m)\<rparr>) (as_msg a)\<rparr>"
| "assemble_event Message_stop a = a"

definition assembler_push :: "anthropic_event list \<Rightarrow> assembler \<Rightarrow> assembler" where
  "assembler_push es a = fold assemble_event es a"

definition safeParseArguments :: "(utext \<Rightarrow> jvalue option) \<Rightarrow> utext \<Rightarrow> jobject" where
  "safeParseArguments json_parse raw =
     (if text_trim raw = [] then []
      else (case json_parse raw of Some (J_obj ob) \<Rightarrow> ob | _ \<Rightarrow> []))"

definition finished_block :: "(utext \<Rightarrow> jvalue option) \<Rightarrow> assembler \<Rightarrow> int \<Rightarrow> asm_block \<Rightarrow> asm_block" where
  "finished_block json_parse a i b =
     (case map_of (as_partialJson a) i of
        Some raw \<Rightarrow> (if takes_json (ab_start b) then b\<lparr>ab_input := Some (safeParseArguments json_parse raw)\<rparr> else b)
      | None \<Rightarrow> b)"

text \<open>\<open>blocks.filter(Boolean)\<close>: the array in the order of its indices, without its gaps.\<close>

definition asm_content :: "(utext \<Rightarrow> jvalue option) \<Rightarrow> assembler \<Rightarrow> asm_block list" where
  "asm_content json_parse a =
     List.map_filter (\<lambda>i. map_option (finished_block json_parse a i) (map_of (as_blocks a) i))
       [0..max_of (-1) (map fst (as_blocks a))]"

definition assembled_message :: "(utext \<Rightarrow> jvalue option) \<Rightarrow> utext \<Rightarrow> assembler \<Rightarrow> asm_message \<times> asm_block list" where
  "assembled_message json_parse fallbackModel a =
     (opt_or (as_msg a)
        \<lparr>am_id = lit ''msg_dario'', am_model = fallbackModel, am_stop = Some End_turn,
         am_usage = \<lparr>us_input = 0, us_output = 0, us_cache_read = None, us_cache_creation = None\<rparr>\<rparr>,
      asm_content json_parse a)"

section \<open>What a streaming client makes of the same events\<close>

fun delta_of :: "int \<Rightarrow> anthropic_event \<Rightarrow> content_delta list" where
  "delta_of i (Content_block_delta j d) = (if j = i then [d] else [])"
| "delta_of i _ = []"

fun start_of :: "int \<Rightarrow> anthropic_event \<Rightarrow> start_block list" where
  "start_of i (Content_block_start j b) = (if j = i then [b] else [])"
| "start_of i _ = []"

definition deltas_of :: "int \<Rightarrow> anthropic_event list \<Rightarrow> content_delta list" where
  "deltas_of i es = concat (map (delta_of i) es)"

definition starts_of :: "int \<Rightarrow> anthropic_event list \<Rightarrow> start_block list" where
  "starts_of i es = concat (map (start_of i) es)"

text \<open>A block as read from the stream: its start, the texts of its deltas joined, and its arguments parsed at the end.\<close>

fun text_in :: "content_delta \<Rightarrow> utext option" where
  "text_in (Text_delta t) = Some t"
| "text_in _ = None"

fun thinking_in :: "content_delta \<Rightarrow> utext option" where
  "thinking_in (Thinking_delta t) = Some t"
| "thinking_in _ = None"

fun cited_in :: "content_delta \<Rightarrow> web_citation option" where
  "cited_in (Citations_delta t) = Some t"
| "cited_in _ = None"

definition written :: "utext option \<Rightarrow> utext list \<Rightarrow> utext option" where
  "written t ts = (if t = None \<and> ts = [] then None else Some (opt_or t [] @ concat ts))"

definition streamed_block :: "(utext \<Rightarrow> jvalue option) \<Rightarrow> anthropic_event list \<Rightarrow> int \<Rightarrow> asm_block" where
  "streamed_block json_parse es i =
     (let b = hd (starts_of i es); ds = deltas_of i es
      in \<lparr>ab_start = Some b,
          ab_text = written (case b of Text_block t \<Rightarrow> Some t | _ \<Rightarrow> None) (List.map_filter text_in ds),
          ab_thinking = written (case b of Thinking_block t \<Rightarrow> Some t | _ \<Rightarrow> None) (List.map_filter thinking_in ds),
          ab_citations = List.map_filter cited_in ds,
          ab_input = (if takes_json (Some b) then Some (safeParseArguments json_parse (json_of i es)) else None)\<rparr>)"

lemma written_simps [simp]: "written t [] = t" "written (written t ts) us = written t (ts @ us)"
  by (auto simp: written_def opt_or_def split: option.splits)

lemma written_Cons: "written (Some (opt_or t [] @ u)) ts = written t (u # ts)"
  by (simp add: written_def)

lemma delta_into_eqs:
  "delta_into (Text_delta t) b = b\<lparr>ab_text := Some (opt_or (ab_text b) [] @ t)\<rparr>"
  "delta_into (Thinking_delta t) b = b\<lparr>ab_thinking := Some (opt_or (ab_thinking b) [] @ t)\<rparr>"
  "delta_into (Input_json_delta t) b = b"
  "delta_into (Citations_delta c) b = b\<lparr>ab_citations := ab_citations b @ [c]\<rparr>"
  by (simp_all add: delta_into_def)

lemma fold_delta_into:
  "fold delta_into ds b =
     b\<lparr>ab_text := written (ab_text b) (List.map_filter text_in ds),
       ab_thinking := written (ab_thinking b) (List.map_filter thinking_in ds),
       ab_citations := ab_citations b @ List.map_filter cited_in ds\<rparr>"
proof (induction ds arbitrary: b)
  case (Cons d ds)
  show ?case
    by (cases d) (simp_all add: Cons delta_into_eqs map_filter_simps written_Cons)
qed (simp add: map_filter_simps)

lemma map_filter_total: "(\<And>x. x \<in> set xs \<Longrightarrow> f x = Some (g x)) \<Longrightarrow> List.map_filter f xs = map g xs"
  by (induction xs) (simp_all add: map_filter_simps)

lemma of_snoc [simp]:
  "deltas_of i (es @ [e]) = deltas_of i es @ delta_of i e" "starts_of i (es @ [e]) = starts_of i es @ start_of i e"
  "deltas_of i [] = []" "starts_of i [] = []"
  by (simp_all add: deltas_of_def starts_of_def)

lemma json_no_deltas: "deltas_of i es = [] \<Longrightarrow> json_of i es = []"
proof (induction es)
  case (Cons e es)
  have "delta_of i e = [] \<Longrightarrow> json_delta i e = []" by (cases "(i, e)" rule: json_delta.cases) auto
  with Cons show ?case by (simp add: deltas_of_def)
qed simp

lemma delta_into_start [simp]: "ab_start (delta_into d b) = ab_start b"
  by (cases d) (simp_all add: delta_into_def)

lemma fold_delta_start [simp]: "ab_start (fold delta_into ds b) = ab_start b"
  by (induction ds arbitrary: b) simp_all

lemma started_start [simp]: "ab_start (started_block b) = Some b"
  by (simp add: started_block_def)

definition raw_block :: "anthropic_event list \<Rightarrow> int \<Rightarrow> asm_block" where
  "raw_block es i = fold delta_into (deltas_of i es) (started_block (hd (starts_of i es)))"

lemma raw_block_streamed:
  "streamed_block json_parse es i =
     (raw_block es i)\<lparr>ab_input := (if takes_json (ab_start (raw_block es i))
        then Some (safeParseArguments json_parse (json_of i es)) else None)\<rparr>"
  by (simp add: raw_block_def streamed_block_def fold_delta_into started_block_def empty_block_def Let_def)

lemma raw_block_input: "ab_input (raw_block es i) = None"
  by (simp add: raw_block_def fold_delta_into started_block_def empty_block_def)

text \<open>What the assembler holds when the client has read the same events.\<close>

definition assembled :: "anthropic_event list \<Rightarrow> wire \<Rightarrow> assembler \<Rightarrow> bool" where
  "assembled es w a \<longleftrightarrow>
     0 \<le> w_next w \<and> (\<forall>i. w_open w = Some i \<longrightarrow> 0 \<le> i \<and> i < w_next w)
     \<and> (\<forall>i. map_of (as_blocks a) i = (if 0 \<le> i \<and> i < w_next w then Some (raw_block es i) else None))
     \<and> (\<forall>i. (length (starts_of i es) = (if 0 \<le> i \<and> i < w_next w then 1 else 0)) \<and> (\<not> (0 \<le> i \<and> i < w_next w) \<longrightarrow> deltas_of i es = []))
     \<and> (\<forall>i. 0 \<le> i \<and> i < w_next w \<longrightarrow> takes_json (Some (hd (starts_of i es))) \<longrightarrow> map_of (as_partialJson a) i = Some (json_of i es))"

text \<open>The usage a client has read when the message is over: nothing at its start, and what the closing event says.\<close>

definition streamed_usage :: "delta_usage \<Rightarrow> anthropic_usage" where
  "streamed_usage u =
     \<lparr>us_input = (case du_input u of Some n \<Rightarrow> n | None \<Rightarrow> 0), us_output = du_output u,
      us_cache_read = du_cache_read u, us_cache_creation = du_cache_creation u\<rparr>"

definition assembled_head :: "anthropic_event list \<Rightarrow> wire \<Rightarrow> assembler \<Rightarrow> bool" where
  "assembled_head es w a \<longleftrightarrow>
     (w_delta w \<longrightarrow> w_started w)
     \<and> (w_started w \<longrightarrow> (\<exists>m. as_msg a = Some m \<and> (\<not> w_delta w \<longrightarrow>
            am_usage m = \<lparr>us_input = 0, us_output = 0, us_cache_read = None, us_cache_creation = None\<rparr>)))
     \<and> (\<forall>i mo. Message_start i mo \<in> set es \<longrightarrow> w_started w \<and> (\<exists>m. as_msg a = Some m \<and> am_id m = i \<and> am_model m = mo))
     \<and> (\<forall>r u. Message_delta r u \<in> set es \<longrightarrow>
          w_delta w \<and> (\<exists>m. as_msg a = Some m \<and> am_stop m = Some r \<and> am_usage m = streamed_usage u))"

lemma merge_fresh:
  "merge_usage u \<lparr>us_input = 0, us_output = 0, us_cache_read = None, us_cache_creation = None\<rparr> = streamed_usage u"
  by (simp add: merge_usage_def streamed_usage_def opt_or_def split: option.split)

lemma assembled_head_step:
  assumes "assembled_head es w a" and "wire_step (ant_wire e) w = Some w'"
  shows "assembled_head (es @ [e]) w' (assemble_event e a)"
  using assms
  by (cases e) (auto simp: assembled_head_def wire_step_def merge_fresh split: if_splits)

lemma assembled_frame:
  assumes "assembled es w a" and "\<And>i. delta_of i e = []" "\<And>i. start_of i e = []" "\<And>i. json_delta i e = []"
    and "w_next w' = w_next w" "\<And>i. w_open w' = Some i \<Longrightarrow> w_open w = Some i"
    and "as_blocks a' = as_blocks a" "as_partialJson a' = as_partialJson a"
  shows "assembled (es @ [e]) w' a'"
  using assms by (simp add: assembled_def raw_block_def)

lemma assembled_start:
  assumes inv: "assembled es w a" and w: "w' = w\<lparr>w_open := Some (w_next w), w_next := w_next w + 1\<rparr>"
  shows "assembled (es @ [Content_block_start (w_next w) b]) w' (assemble_event (Content_block_start (w_next w) b) a)"
proof -
  let ?n = "w_next w" and ?e = "Content_block_start (w_next w) b"
  note i = inv [unfolded assembled_def]
  have n: "deltas_of ?n es = []" "starts_of ?n es = []" using i by auto
  have jn: "json_of ?n es = []" by (rule json_no_deltas [OF n(1)])
  have rng: "0 \<le> k \<and> k < ?n + 1 \<longleftrightarrow> k = ?n \<or> 0 \<le> k \<and> k < ?n" for k using i by auto
  have raw: "raw_block (es @ [?e]) k = (if k = ?n then started_block b else raw_block es k)" for k
    using n by (auto simp: raw_block_def)
  have hd: "hd (starts_of k (es @ [?e])) = (if k = ?n then b else hd (starts_of k es))" for k using n by auto
  show ?thesis
    unfolding assembled_def
  proof (intro conjI allI impI)
    show "map_of (as_blocks (assemble_event ?e a)) k = (if 0 \<le> k \<and> k < w_next w' then Some (raw_block (es @ [?e]) k) else None)" for k
      using i rng [of k] by (auto simp: w raw update_conv')
    show "map_of (as_partialJson (assemble_event ?e a)) k = Some (json_of k (es @ [?e]))"
      if "0 \<le> k \<and> k < w_next w'" "takes_json (Some (hd (starts_of k (es @ [?e]))))" for k
      using i that rng [of k] jn unfolding hd by (auto simp: w update_conv' split: if_splits)
    show "length (starts_of k (es @ [?e])) = (if 0 \<le> k \<and> k < w_next w' then 1 else 0)" for k
      using i rng [of k] n by (auto simp: w)
    show "deltas_of k (es @ [?e]) = []" if "\<not> (0 \<le> k \<and> k < w_next w')" for k using i that rng [of k] by (auto simp: w)
  qed (use i w in auto)
qed

lemma assembled_delta:
  assumes inv: "assembled es w a" and k: "w_open w = Some k"
  shows "assembled (es @ [Content_block_delta k d]) w (assemble_event (Content_block_delta k d) a)"
proof -
  let ?e = "Content_block_delta k d"
  note i = inv [unfolded assembled_def]
  have r: "0 \<le> k \<and> k < w_next w" using i k by auto
  have b: "map_of (as_blocks a) k = Some (raw_block es k)" using i r by auto
  have raw: "raw_block (es @ [?e]) j = (if j = k then delta_into d (raw_block es k) else raw_block es j)" for j
    by (simp add: raw_block_def)
  have js: "json_delta j ?e = (case d of Input_json_delta t \<Rightarrow> (if j = k then t else []) | _ \<Rightarrow> [])" for j
    by (cases d) auto
  show ?thesis
    unfolding assembled_def
  proof (intro conjI allI impI)
    show "map_of (as_blocks (assemble_event ?e a)) j = (if 0 \<le> j \<and> j < w_next w then Some (raw_block (es @ [?e]) j) else None)" for j
      using i r b by (auto simp: raw update_conv' opt_or_def)
    show "map_of (as_partialJson (assemble_event ?e a)) j = Some (json_of j (es @ [?e]))"
      if j: "0 \<le> j \<and> j < w_next w" "takes_json (Some (hd (starts_of j (es @ [?e]))))" for j
    proof -
      have "map_of (as_partialJson a) j = Some (json_of j es)" using i j by simp
      then show ?thesis by (cases d) (auto simp: js update_conv' opt_or_def)
    qed
    show "deltas_of j (es @ [?e]) = []" if "\<not> (0 \<le> j \<and> j < w_next w)" for j using i that r by auto
  qed (use i in auto)
qed

lemma assembled_step:
  assumes inv: "assembled es w a" and st: "wire_step (ant_wire e) w = Some w'"
  shows "assembled (es @ [e]) w' (assemble_event e a)"
proof (cases e)
  case (Content_block_start i b)
  with st have "i = w_next w" "w' = w\<lparr>w_open := Some (w_next w), w_next := w_next w + 1\<rparr>" by (auto simp: wire_step_def split: if_splits)
  with assembled_start [OF inv] Content_block_start show ?thesis by simp
next
  case (Content_block_delta i d)
  with st have "w_open w = Some i" "w' = w" by (auto simp: wire_step_def split: if_splits)
  with assembled_delta [OF inv] Content_block_delta show ?thesis by simp
qed (use st in \<open>auto simp: wire_step_def split: if_splits intro!: assembled_frame [OF inv]\<close>)

lemma assembler_run:
  "wire_run (map ant_wire es) fresh_wire = Some w \<Longrightarrow>
     assembled es w (assembler_push es new_assembler) \<and> assembled_head es w (assembler_push es new_assembler)"
proof (induction es arbitrary: w rule: rev_induct)
  case Nil
  then show ?case by (auto simp: assembler_push_def assembled_def assembled_head_def fresh_wire_def new_assembler_def)
next
  case (snoc e es)
  then obtain w1 where w1: "wire_run (map ant_wire es) fresh_wire = Some w1" "wire_step (ant_wire e) w1 = Some w"
    by (auto simp: wire_run_snoc split: option.splits)
  from snoc.IH [OF w1(1)] assembled_step [OF _ w1(2)] assembled_head_step [OF _ w1(2)]
  show ?case by (simp add: assembler_push_def)
qed

text \<open>
  C25. The assembled message is the streamed one. Of any legal stream the assembler makes one block per index
  in the order of the indices, each started once; a block's text, thinking and citations are what a streaming
  client collects from its deltas, a tool's input is the parse of all its fragments, an unparsable one
  becoming the empty object; its id and model are those of the opening event, and its stop reason and all four counts of its
  usage those of the closing event, a count the event does not give being zero or absent.
\<close>

theorem assembled_is_streamed:
  assumes "wire_run (map ant_wire es) fresh_wire = Some w"
  shows "snd (assembled_message json_parse fb (assembler_push es new_assembler)) = map (streamed_block json_parse es) [0..w_next w - 1]
    \<and> (\<forall>i \<in> set [0..w_next w - 1]. length (starts_of i es) = 1)
    \<and> (\<forall>i mo. Message_start i mo \<in> set es \<longrightarrow>
         (let m = fst (assembled_message json_parse fb (assembler_push es new_assembler)) in am_id m = i \<and> am_model m = mo))
    \<and> (\<forall>r u. Message_delta r u \<in> set es \<longrightarrow>
         (let m = fst (assembled_message json_parse fb (assembler_push es new_assembler))
          in am_stop m = Some r \<and> am_usage m = streamed_usage u))"
proof -
  let ?a = "assembler_push es new_assembler" and ?n = "w_next w"
  have i: "assembled es w ?a" and h: "assembled_head es w ?a" using assembler_run [OF assms] by auto
  note i = i [unfolded assembled_def]
  have keys: "k \<in> set (map fst (as_blocks ?a)) \<longleftrightarrow> 0 \<le> k \<and> k < ?n" for k
    using i dom_map_of_conv_image_fst [of "as_blocks ?a"] by (metis domIff image_set option.distinct(1))
  have mx: "max_of (-1) (map fst (as_blocks ?a)) = ?n - 1"
  proof (rule antisym)
    show "max_of (-1) (map fst (as_blocks ?a)) \<le> ?n - 1" unfolding max_of_le_iff using keys i by auto
    have "?n - 1 \<in> insert (-1) (set (map fst (as_blocks ?a)))" using keys [of "?n - 1"] i by (cases "?n = 0") simp_all
    then show "?n - 1 \<le> max_of (-1) (map fst (as_blocks ?a))" by (rule max_of_upper)
  qed
  have blk: "map_option (finished_block json_parse ?a k) (map_of (as_blocks ?a) k) = Some (streamed_block json_parse es k)"
    if "k \<in> set [0..?n - 1]" for k
  proof -
    have k: "0 \<le> k \<and> k < ?n" using that by simp
    have b: "map_of (as_blocks ?a) k = Some (raw_block es k)" using i k by simp
    have s: "ab_start (raw_block es k) = Some (hd (starts_of k es))" by (simp add: raw_block_def)
    have j: "takes_json (Some (hd (starts_of k es))) \<Longrightarrow> map_of (as_partialJson ?a) k = Some (json_of k es)" using i k by blast
    show ?thesis
      by (cases "takes_json (Some (hd (starts_of k es)))")
        (simp_all add: b finished_block_def s j raw_block_streamed raw_block_input split: option.split)
  qed
  have "asm_content json_parse ?a = map (streamed_block json_parse es) [0..?n - 1]"
    unfolding asm_content_def mx by (rule map_filter_total) (rule blk)
  then show ?thesis using i h by (auto simp: assembled_message_def assembled_head_def Let_def opt_or_def)
qed

theorem assembled_is_streamed_witness:
  "snd (assembled_message (\<lambda>_. None) [] (assembler_push (responses_stream (\<lambda>_. []) None sample_calls) new_assembler)) =
    map (streamed_block (\<lambda>_. None) (responses_stream (\<lambda>_. []) None sample_calls)) [0, 1, 2]"
proof -
  have "\<exists>w. wire_run (map ant_wire (responses_stream (\<lambda>_. []) None sample_calls)) fresh_wire = Some w \<and> w_next w = 3"
  proof -
    have "(case wire_run (map ant_wire (responses_stream (\<lambda>_. []) None sample_calls)) fresh_wire of
        None \<Rightarrow> False | Some w \<Rightarrow> w_next w = 3)" by code_simp
    then show ?thesis by (auto split: option.splits)
  qed
  then obtain w where w: "wire_run (map ant_wire (responses_stream (\<lambda>_. []) None sample_calls)) fresh_wire = Some w" "w_next w = 3" by blast
  have "[0..w_next w - 1] = [0, 1, 2 :: int]" unfolding w(2) by code_simp
  with assembled_is_streamed [OF w(1), of "\<lambda>_. None" "[]"] show ?thesis by simp
qed

end
