(* ===== verification/Responses_Reply.thy ===== *)
theory Responses_Reply
  imports Responses_Request Responses_Assemble
begin

text \<open>
  A whole Responses answer as a Messages answer (\<open>responsesToAnthropicResponse\<close> of
  \<open>anthropic-responses-translate.ts\<close>), and what becomes of it when the client sends it back as history.
\<close>

section \<open>The answer\<close>

datatype reply_block = Reply_text utext | Reply_thinking utext | Reply_tool_use utext utext jobject

record reply_message =
  rm_id :: utext
  rm_model :: utext
  rm_content :: "reply_block list"
  rm_stop_reason :: stop_reason
  rm_usage :: anthropic_usage

definition items_of :: "jvalue option \<Rightarrow> jvalue list" where
  "items_of v = (case v of Some (J_arr vs) \<Rightarrow> vs | _ \<Rightarrow> [])"

definition typed_text :: "string \<Rightarrow> jvalue \<Rightarrow> utext option" where
  "typed_text t v = (if type_is v t then str_of (jprop (Some v) ''text'') else None)"

definition reasoningItemText :: "jvalue \<Rightarrow> utext" where
  "reasoningItemText item =
     (let summary = List.map_filter (typed_text ''summary_text'') (items_of (jprop (Some item) ''summary''));
          parts = (if summary = [] then List.map_filter (typed_text ''reasoning_text'') (items_of (jprop (Some item) ''content''))
                   else summary)
      in text_trim (join_texts [10] parts))"

definition nonempty :: "utext option \<Rightarrow> utext option" where
  "nonempty v = (case v of Some t \<Rightarrow> (if t = [] then None else Some t) | None \<Rightarrow> None)"

definition message_part :: "jvalue \<Rightarrow> reply_block option" where
  "message_part part =
     (if type_is part ''output_text'' then map_option Reply_text (nonempty (str_of (jprop (Some part) ''text'')))
      else if type_is part ''refusal'' then map_option Reply_text (nonempty (str_of (jprop (Some part) ''refusal'')))
      else None)"

definition call_id_of :: "jvalue \<Rightarrow> utext" where
  "call_id_of fc =
     (case nonempty (str_of (jprop (Some fc) ''call_id'')) of
        Some i \<Rightarrow> i
      | None \<Rightarrow> opt_or (nonempty (str_of (jprop (Some fc) ''id''))) (lit ''toolu_responses_translate''))"

definition call_input :: "(utext \<Rightarrow> jvalue option) \<Rightarrow> jvalue \<Rightarrow> jobject" where
  "call_input json_parse fc =
     (case str_of (jprop (Some fc) ''arguments'') of Some raw \<Rightarrow> safeParseArguments json_parse raw | None \<Rightarrow> [])"

definition reply_item :: "(utext \<Rightarrow> jvalue option) \<Rightarrow> jvalue \<Rightarrow> reply_block list" where
  "reply_item json_parse item =
     (if type_is item ''message'' then List.map_filter message_part (items_of (jprop (Some item) ''content''))
      else if type_is item ''function_call'' then
        [Reply_tool_use (call_id_of item) (strOr (jprop (Some item) ''name'')) (call_input json_parse item)]
      else if type_is item ''reasoning'' then
        (let text = reasoningItemText item in if text \<noteq> [] then [Reply_thinking text] else [])
      else [])"

definition responsesToAnthropicResponse :: "(utext \<Rightarrow> jvalue option) \<Rightarrow> jvalue \<Rightarrow> utext \<Rightarrow> reply_message" where
  "responsesToAnthropicResponse json_parse resp requestModel =
     (let p = jprop (Some resp); output = items_of (p ''output'');
          content = concat (map (reply_item json_parse) output);
          sawToolCall = list_ex (\<lambda>item. type_is item ''function_call'') output;
          text = nonempty (str_of (p ''output_text''))
      in \<lparr>rm_id = anthropicMessageId (p ''id''), rm_model = requestModel,
          rm_content = (if content = [] then (case text of Some t \<Rightarrow> [Reply_text t] | None \<Rightarrow> []) else content),
          rm_stop_reason = deriveStopReason (Some resp) sawToolCall,
          rm_usage = anthropicUsageFromResponses (p ''usage'')\<rparr>)"

section \<open>The answer as history\<close>

text \<open>The blocks as the client reads and returns them, and its answers to the calls.\<close>

fun block_json :: "reply_block \<Rightarrow> jvalue" where
  "block_json (Reply_text t) = J_obj [(lit ''type'', J_str (lit ''text'')), (lit ''text'', J_str t)]"
| "block_json (Reply_thinking t) = J_obj [(lit ''type'', J_str (lit ''thinking'')), (lit ''thinking'', J_str t)]"
| "block_json (Reply_tool_use i n a) =
     J_obj [(lit ''type'', J_str (lit ''tool_use'')), (lit ''id'', J_str i), (lit ''name'', J_str n), (lit ''input'', J_obj a)]"

definition assistant_turn :: "reply_message \<Rightarrow> jvalue" where
  "assistant_turn r =
     J_obj [(lit ''role'', J_str (lit ''assistant'')), (lit ''content'', J_arr (map block_json (rm_content r)))]"

fun tool_result_json :: "utext \<times> jvalue \<Rightarrow> jvalue" where
  "tool_result_json (i, v) =
     J_obj [(lit ''type'', J_str (lit ''tool_result'')), (lit ''tool_use_id'', J_str i), (lit ''content'', v)]"

definition user_turn :: "(utext \<times> jvalue) list \<Rightarrow> jvalue" where
  "user_turn rs = J_obj [(lit ''role'', J_str (lit ''user'')), (lit ''content'', J_arr (map tool_result_json rs))]"

fun block_text :: "reply_block \<Rightarrow> utext option" where
  "block_text (Reply_text t) = Some t"
| "block_text _ = None"

definition said_again :: "utext list \<Rightarrow> input_item list" where
  "said_again texts = (if texts \<noteq> [] then [Input_message Role_assistant (Plain (join_texts [10, 10] texts))] else [])"

lemma jprop_obj: "jprop (Some (J_obj ob)) k = map_of ob (lit k)"
  by (simp add: jprop_def)

lemma map_filter_map: "List.map_filter f (map g xs) = List.map_filter (\<lambda>x. f (g x)) xs"
  by (induction xs) (simp_all add: map_filter_simps split: option.splits)

lemma map_filter_append: "List.map_filter f (xs @ ys) = List.map_filter f xs @ List.map_filter f ys"
  by (induction xs) (simp_all add: map_filter_simps split: option.splits)

lemma text_back: "text_of_block (block_json b) = block_text b"
  by (cases b) (simp_all add: text_of_block_def type_is_def jprop_obj str_of_def)

fun call_back :: "(jvalue \<Rightarrow> utext) \<Rightarrow> reply_block \<Rightarrow> input_item option" where
  "call_back pr (Reply_tool_use i n a) = Some (Function_call i n (pr (J_obj a)))"
| "call_back pr _ = None"

lemma assistant_call_back: "assistant_call pr (block_json b) = call_back pr b"
  by (cases b) (simp_all add: assistant_call_def type_is_def jprop_obj str_of_def strOr_def stringifyToolInput_def)

lemma outputs_back:
  "List.map_filter (user_output pr) (map tool_result_json rs) = map (\<lambda>(i, v). Function_call_output i (toolResultContentToString pr (Some v))) rs"
  "List.map_filter user_part (map tool_result_json rs) = []"
  by (induction rs) (auto simp: map_filter_Cons user_output_def user_part_def type_is_def jprop_obj str_of_def strOr_def)

text \<open>
  What an item of the upstream's output tells, read off the item itself: the texts and refusals of a message, a call with
  its call id, name and arguments, or nothing that goes back. The arguments are the object their text parses to.
\<close>

datatype told = Told_texts "utext list" | Told_call utext utext jobject | Told_nothing

definition part_tells :: "jvalue \<Rightarrow> utext \<Rightarrow> bool" where
  "part_tells p t \<longleftrightarrow> t \<noteq> [] \<and>
     (str_of (jprop (Some p) ''type'') = Some (lit ''output_text'') \<and> jprop (Some p) ''text'' = Some (J_str t)
      \<or> str_of (jprop (Some p) ''type'') = Some (lit ''refusal'') \<and> jprop (Some p) ''refusal'' = Some (J_str t))"

fun item_tells :: "(utext \<Rightarrow> jvalue option) \<Rightarrow> jvalue \<Rightarrow> told \<Rightarrow> bool" where
  "item_tells json_parse item (Told_texts ts) \<longleftrightarrow>
     str_of (jprop (Some item) ''type'') = Some (lit ''message'')
     \<and> (\<exists>ps. jprop (Some item) ''content'' = Some (J_arr ps) \<and> list_all2 part_tells ps ts)"
| "item_tells json_parse item (Told_call i n args) \<longleftrightarrow>
     str_of (jprop (Some item) ''type'') = Some (lit ''function_call'')
     \<and> i \<noteq> [] \<and> jprop (Some item) ''call_id'' = Some (J_str i) \<and> jprop (Some item) ''name'' = Some (J_str n)
     \<and> (\<exists>raw. jprop (Some item) ''arguments'' = Some (J_str raw)
          \<and> (if text_trim raw = [] then args = [] else json_parse raw = Some (J_obj args)))"
| "item_tells json_parse item Told_nothing \<longleftrightarrow>
     str_of (jprop (Some item) ''type'') \<notin> {Some (lit ''message''), Some (lit ''function_call'')}"

fun told_texts :: "told \<Rightarrow> utext list" where
  "told_texts (Told_texts ts) = ts"
| "told_texts _ = []"

fun told_calls :: "told \<Rightarrow> (utext \<times> utext \<times> jobject) list" where
  "told_calls (Told_call i n args) = [(i, n, args)]"
| "told_calls _ = []"

lemma parts_told: "list_all2 part_tells ps ts \<Longrightarrow> List.map_filter message_part ps = map Reply_text ts"
  by (induction rule: list_all2_induct)
    (auto simp: map_filter_Cons part_tells_def message_part_def type_is_def nonempty_def str_of_def split: list.splits)

lemma reply_told:
  assumes "item_tells json_parse item x"
  shows "List.map_filter block_text (reply_item json_parse item) = told_texts x"
    and "List.map_filter (call_back pr) (reply_item json_parse item) = map (\<lambda>(i, n, args). Function_call i n (pr (J_obj args))) (told_calls x)"
    and "told_texts x \<noteq> [] \<or> told_calls x \<noteq> [] \<Longrightarrow> reply_item json_parse item \<noteq> []"
proof -
  have t: "List.map_filter block_text (map Reply_text ts) = ts" "List.map_filter (call_back pr) (map Reply_text ts) = []" for ts
    by (induction ts) (simp_all add: map_filter_Cons)
  have "List.map_filter block_text (reply_item json_parse item) = told_texts x
    \<and> List.map_filter (call_back pr) (reply_item json_parse item) = map (\<lambda>(i, n, args). Function_call i n (pr (J_obj args))) (told_calls x)
    \<and> (told_texts x \<noteq> [] \<or> told_calls x \<noteq> [] \<longrightarrow> reply_item json_parse item \<noteq> [])"
  proof (cases x)
    case (Told_texts ts)
    then obtain ps where ps: "str_of (jprop (Some item) ''type'') = Some (lit ''message'')"
      "jprop (Some item) ''content'' = Some (J_arr ps)" "list_all2 part_tells ps ts" using assms by auto
    have "reply_item json_parse item = map Reply_text ts"
      using ps parts_told [OF ps(3)] by (simp add: reply_item_def type_is_def items_of_def)
    then show ?thesis by (simp add: Told_texts t)
  next
    case (Told_call i n args)
    then show ?thesis using assms
      by (auto simp: reply_item_def type_is_def call_id_of_def call_input_def nonempty_def strOr_def str_of_def safeParseArguments_def map_filter_Cons
          split: if_splits)
  next
    case Told_nothing
    then show ?thesis using assms by (auto simp: reply_item_def type_is_def map_filter_Cons Let_def)
  qed
  then show "List.map_filter block_text (reply_item json_parse item) = told_texts x"
    and "List.map_filter (call_back pr) (reply_item json_parse item) = map (\<lambda>(i, n, args). Function_call i n (pr (J_obj args))) (told_calls x)"
    and "told_texts x \<noteq> [] \<or> told_calls x \<noteq> [] \<Longrightarrow> reply_item json_parse item \<noteq> []" by blast+
qed

lemma replies_told:
  assumes "list_all2 (item_tells json_parse) items xs"
  shows "List.map_filter block_text (concat (map (reply_item json_parse) items)) = concat (map told_texts xs)"
    and "List.map_filter (call_back pr) (concat (map (reply_item json_parse) items))
       = map (\<lambda>(i, n, args). Function_call i n (pr (J_obj args))) (concat (map told_calls xs))"
    and "concat (map told_texts xs) \<noteq> [] \<or> concat (map told_calls xs) \<noteq> [] \<Longrightarrow> concat (map (reply_item json_parse) items) \<noteq> []"
  using assms by (induction rule: list_all2_induct) (auto simp: map_filter_append reply_told)

lemma user_turn_back:
  "translate_message json_print (user_turn rs) = map (\<lambda>(i, v). Function_call_output i (toolResultContentToString json_print (Some v))) rs"
  unfolding translate_message_def user_turn_def Let_def translateUserBlocks_def by (simp add: jprop_obj str_of_def outputs_back)

lemma assistant_turn_back:
  "translate_message json_print (assistant_turn r)
     = said_again (List.map_filter block_text (rm_content r)) @ List.map_filter (call_back json_print) (rm_content r)"
  unfolding translate_message_def assistant_turn_def Let_def translateAssistantBlocks_def
  by (simp add: jprop_obj str_of_def map_filter_map text_back assistant_call_back said_again_def)

text \<open>
  C27. A conversation turn survives the round trip. Let the upstream's answer tell its texts and its calls, reasoning and other
  items among them, and something at all. When the client sends the translated answer back as history, followed by one result
  text for each call, the next upstream request carries the texts of the answer as one assistant message, then every call
  in order, under the call id, with the name and the arguments the upstream gave, then exactly one output per call, the
  client's text under the same ids in the same order; the reasoning is left out.
\<close>

theorem turn_round_trip:
  assumes "jprop (Some resp) ''output'' = Some (J_arr items)" and "list_all2 (item_tells json_parse) items tolds"
    and "texts = concat (map told_texts tolds)" and "calls = concat (map told_calls tolds)"
    and "texts \<noteq> [] \<or> calls \<noteq> []" and "length results = length calls"
  shows "concat (map (translate_message json_print)
        [assistant_turn (responsesToAnthropicResponse json_parse resp m), user_turn (zip (map fst calls) (map J_str results))])
      = (if texts = [] then [] else [Input_message Role_assistant (Plain (join_texts [10, 10] texts))])
        @ map (\<lambda>(i, n, args). Function_call i n (json_print (J_obj args))) calls
        @ map2 (\<lambda>c t. Function_call_output (fst c) t) calls results"
proof -
  note r = replies_told [OF assms(2)]
  have c: "rm_content (responsesToAnthropicResponse json_parse resp m) = concat (map (reply_item json_parse) items)"
    using r(3) assms(1,3-5) by (simp add: responsesToAnthropicResponse_def items_of_def Let_def del: concat_eq_Nil_conv)
  have u: "translate_message json_print (user_turn (zip (map fst calls) (map J_str results)))
      = map2 (\<lambda>c t. Function_call_output (fst c) t) calls results"
    by (simp add: user_turn_back zip_map1 zip_map2 split_def toolResultContentToString_def)
  show ?thesis by (simp add: assistant_turn_back c r said_again_def u assms(3,4) [symmetric] del: concat_eq_Nil_conv)
qed

definition sample_reply :: jvalue where
  "sample_reply =
     J_obj [(lit ''output'', J_arr
       [J_obj [(lit ''type'', J_str (lit ''message'')),
               (lit ''content'', J_arr [J_obj [(lit ''type'', J_str (lit ''output_text'')), (lit ''text'', J_str (lit ''hi''))]])],
        J_obj [(lit ''type'', J_str (lit ''function_call'')), (lit ''call_id'', J_str (lit ''c1'')),
               (lit ''name'', J_str (lit ''read'')), (lit ''arguments'', J_str (lit ''x''))]])]"

theorem turn_round_trip_witness:
  "concat (map (translate_message (\<lambda>_. lit ''{}''))
        [assistant_turn (responsesToAnthropicResponse (\<lambda>_. Some (J_obj [])) sample_reply (lit ''m'')),
         user_turn (zip [lit ''c1''] [J_str (lit ''ok'')])])
     = [Input_message Role_assistant (Plain (lit ''hi'')), Function_call (lit ''c1'') (lit ''read'') (lit ''{}''),
        Function_call_output (lit ''c1'') (lit ''ok'')]"
proof -
  let ?tolds = "[Told_texts [lit ''hi''], Told_call (lit ''c1'') (lit ''read'') []]"
  let ?items = "items_of (jprop (Some sample_reply) ''output'')"
  have o: "jprop (Some sample_reply) ''output'' = Some (J_arr ?items)" by code_simp
  have t: "list_all2 (item_tells (\<lambda>_. Some (J_obj []))) ?items ?tolds"
    by (simp add: sample_reply_def items_of_def jprop_def str_of_def part_tells_def) (simp add: lit_def)
  have "length [lit ''ok''] = length [(lit ''c1'', lit ''read'', [] :: jobject)]" by simp
  from turn_round_trip [OF o t, of "[lit ''hi'']" "[(lit ''c1'', lit ''read'', [])]" "[lit ''ok'']" "\<lambda>_. lit ''{}''" "lit ''m''"] this
  show ?thesis by simp
qed

end
