(* ===== verification/Account_Store.thy ===== *)
theory Account_Store
  imports Js_Text
begin

text \<open>
  The two places an account's credentials live: the files of one instance with the removals this process made
  (\<open>accounts.ts\<close>), and the shared registry on the lock service in its two reference backends
  (\<open>redis-lock/server.mjs\<close>, \<open>cloudflare/refresh-lock/worker.mjs\<close>). Both are ordered by the last event of an
  alias, a grant or a removal, and the interface \<open>account_registry\<close> states what the sync needs of a backend.
\<close>

section \<open>Credentials\<close>

text \<open>What the sync reads of a record; the other fields of an engine's record are the extension of this one.\<close>

record synced_credentials =
  sc_alias :: string
  sc_accessToken :: string
  sc_refreshToken :: string
  sc_expiresAt :: ms
  sc_grantedAt :: "ms option"

type_synonym 'r cred = "'r synced_credentials_scheme"

text \<open>What ordering two credentials needs: the grant, if it is known, and the expiry.\<close>

type_synonym live_seat = "ms option \<times> ms"

definition stamp_of :: "'r cred \<Rightarrow> live_seat" where
  "stamp_of c = (sc_grantedAt c, sc_expiresAt c)"

fun credentialsAreNewer :: "live_seat \<Rightarrow> live_seat \<Rightarrow> bool" where
  "credentialsAreNewer (Some a, ea) (Some b, eb) = (if a \<noteq> b then a > b else ea > eb)"
| "credentialsAreNewer (a, ea) (b, eb) = (ea > eb)"

definition grantedAfter :: "live_seat \<Rightarrow> ms option \<Rightarrow> bool" where
  "grantedAfter c removedAt =
     (case removedAt of None \<Rightarrow> True | Some t \<Rightarrow> (case fst c of Some g \<Rightarrow> g > t | None \<Rightarrow> False))"

definition isValidAccountAlias :: "string \<Rightarrow> bool" where
  "isValidAccountAlias a =
     (case a of
        [] \<Rightarrow> False
      | c # cs \<Rightarrow> is_alnum c \<and> length cs \<le> 63 \<and> list_all (\<lambda>d. is_alnum d \<or> d \<in> {CHR ''_'', CHR ''-'', CHR ''.''}) cs)"

section \<open>The files of an instance\<close>

record 'r account_files =
  af_files :: "(string, 'r cred) jsmap"
  af_removals :: "(string, ms) jsmap"

definition loadAccount :: "string \<Rightarrow> 'r account_files \<Rightarrow> 'r cred option" where
  "loadAccount alias f = (if isValidAccountAlias alias then map_of (af_files f) alias else None)"

definition loadAllAccounts :: "'r account_files \<Rightarrow> 'r cred list" where
  "loadAllAccounts f = List.map_filter (\<lambda>a. loadAccount a f) (keys_of (af_files f))"

definition write_file :: "'r cred \<Rightarrow> 'r account_files \<Rightarrow> 'r account_files" where
  "write_file c f = f\<lparr>af_files := AList.update (sc_alias c) c (af_files f)\<rparr>"

definition delete_file :: "string \<Rightarrow> 'r account_files \<Rightarrow> 'r account_files" where
  "delete_file alias f = f\<lparr>af_files := AList.delete alias (af_files f)\<rparr>"

text \<open>\<open>None\<close> is the exception for an invalid alias.\<close>

definition saveAccount :: "'r cred \<Rightarrow> 'r account_files \<Rightarrow> 'r account_files option" where
  "saveAccount c f = (if isValidAccountAlias (sc_alias c) then Some (write_file c f) else None)"

text \<open>\<open>unlinks\<close> says whether the file system deletes the file when it is there.\<close>

definition removeAccount :: "string \<Rightarrow> ms \<Rightarrow> bool \<Rightarrow> 'r account_files \<Rightarrow> bool \<times> 'r account_files" where
  "removeAccount alias now unlinks f =
     (if isValidAccountAlias alias \<and> map_of (af_files f) alias \<noteq> None \<and> unlinks
      then (True, (delete_file alias f)\<lparr>af_removals := AList.update alias now (af_removals f)\<rparr>)
      else (False, f))"

record 'r save_result =
  sr_saved :: bool
  sr_replaced :: "'r cred option"

definition saveSharedAccount :: "'r cred \<Rightarrow> ms \<Rightarrow> ms option \<Rightarrow> 'r account_files \<Rightarrow> 'r save_result \<times> 'r account_files" where
  "saveSharedAccount c fetchedAt removedAt f =
     (let current = loadAccount (sc_alias c) f; refused = \<lparr>sr_saved = False, sr_replaced = None\<rparr>
      in if \<not> isValidAccountAlias (sc_alias c) then (refused, f)
         else if (case map_of (af_removals f) (sc_alias c) of Some t \<Rightarrow> t \<ge> fetchedAt | None \<Rightarrow> False) then (refused, f)
         else if (case current of
                    Some d \<Rightarrow> grantedAfter (stamp_of d) removedAt \<and> \<not> credentialsAreNewer (stamp_of c) (stamp_of d)
                  | None \<Rightarrow> False) then (refused, f)
         else (\<lparr>sr_saved = True, sr_replaced = current\<rparr>, write_file c f))"

definition removeSharedAccount :: "string \<Rightarrow> ms \<Rightarrow> bool \<Rightarrow> 'r account_files \<Rightarrow> bool \<times> 'r account_files" where
  "removeSharedAccount alias removedAt unlinks f =
     (case loadAccount alias f of
        None \<Rightarrow> (False, f)
      | Some c \<Rightarrow>
          (if grantedAfter (stamp_of c) (Some removedAt) \<or> \<not> unlinks then (False, f) else (True, delete_file alias f)))"

section \<open>The registry\<close>

record 'r registry =
  rg_records :: "(string, 'r cred) jsmap"
  rg_markers :: "(string, ms) jsmap"

text \<open>The Redis backend: the two scripts it evaluates.\<close>

definition redis_put :: "'r cred \<Rightarrow> 'r registry \<Rightarrow> bool \<times> 'r registry" where
  "redis_put c s =
     (let alias = sc_alias c; g = sc_grantedAt c; e = sc_expiresAt c; rm = map_of (rg_markers s) alias
      in if (case rm of Some t \<Rightarrow> (case g of None \<Rightarrow> True | Some x \<Rightarrow> x \<le> t) | None \<Rightarrow> False) then (False, s)
         else if (case map_of (rg_records s) alias of
                    None \<Rightarrow> False
                  | Some cur \<Rightarrow>
                      (case (g, sc_grantedAt cur) of
                         (Some x, Some y) \<Rightarrow> (if x \<noteq> y then x < y else e \<le> sc_expiresAt cur)
                       | _ \<Rightarrow> e \<le> sc_expiresAt cur)) then (False, s)
         else (True, s\<lparr>rg_records := AList.update alias c (rg_records s), rg_markers := AList.delete alias (rg_markers s)\<rparr>))"

definition redis_remove :: "string \<Rightarrow> ms \<Rightarrow> 'r registry \<Rightarrow> bool \<times> 'r registry" where
  "redis_remove alias removedAt s =
     (if (case map_of (rg_records s) alias of
            Some cur \<Rightarrow> (case sc_grantedAt cur of Some y \<Rightarrow> y > removedAt | None \<Rightarrow> False)
          | None \<Rightarrow> False) then (False, s)
      else (True, s\<lparr>rg_records := AList.delete alias (rg_records s),
                   rg_markers := (case map_of (rg_markers s) alias of
                      None \<Rightarrow> AList.update alias removedAt (rg_markers s)
                    | Some t \<Rightarrow> (if removedAt > t then AList.update alias removedAt (rg_markers s) else rg_markers s))\<rparr>))"

text \<open>The Cloudflare backend. A stored expiry of 0 counts as none.\<close>

definition isNewer :: "live_seat \<Rightarrow> live_seat \<Rightarrow> bool" where
  "isNewer cached current =
     (case (fst cached, fst current) of
        (Some x, Some y) \<Rightarrow> (if x \<noteq> y then x > y else snd current = 0 \<or> snd cached > snd current)
      | _ \<Rightarrow> snd current = 0 \<or> snd cached > snd current)"

definition worker_put :: "'r cred \<Rightarrow> 'r registry \<Rightarrow> bool \<times> 'r registry" where
  "worker_put c s =
     (let alias = sc_alias c; rm = map_of (rg_markers s) alias
      in if (case rm of Some t \<Rightarrow> \<not> grantedAfter (stamp_of c) (Some t) | None \<Rightarrow> False) then (False, s)
         else if (case map_of (rg_records s) alias of
                    None \<Rightarrow> False | Some cur \<Rightarrow> \<not> isNewer (stamp_of c) (stamp_of cur)) then (False, s)
         else (True, s\<lparr>rg_records := AList.update alias c (rg_records s),
                      rg_markers := (if rm = None then rg_markers s else AList.delete alias (rg_markers s))\<rparr>))"

definition worker_remove :: "string \<Rightarrow> ms \<Rightarrow> 'r registry \<Rightarrow> bool \<times> 'r registry" where
  "worker_remove alias removedAt s =
     (let current = map_of (rg_records s) alias
      in if (case current of Some cur \<Rightarrow> grantedAfter (stamp_of cur) (Some removedAt) | None \<Rightarrow> False) then (False, s)
         else let s1 = (if current = None then s else s\<lparr>rg_records := AList.delete alias (rg_records s)\<rparr>)
              in (True, (case map_of (rg_markers s1) alias of
                    None \<Rightarrow> s1\<lparr>rg_markers := AList.update alias removedAt (rg_markers s1)\<rparr>
                  | Some prior \<Rightarrow> (if removedAt > prior then s1\<lparr>rg_markers := AList.update alias removedAt (rg_markers s1)\<rparr> else s1))))"

section \<open>The last event of an alias\<close>

text \<open>
  What an instance or the registry knows of an alias: nothing, a grant with an expiry, or a removal. A removal
  beats the grants made up to its time and loses to the later ones, so the events are in one line.
\<close>

datatype account_event = Nothing_known | Granted ms ms | Removed_at ms

instantiation account_event :: linorder
begin

fun less_eq_account_event :: "account_event \<Rightarrow> account_event \<Rightarrow> bool" where
  "less_eq_account_event Nothing_known _ = True"
| "less_eq_account_event _ Nothing_known = False"
| "less_eq_account_event (Granted g e) (Granted h f) = (g < h \<or> g = h \<and> e \<le> f)"
| "less_eq_account_event (Granted g e) (Removed_at t) = (g \<le> t)"
| "less_eq_account_event (Removed_at t) (Granted g e) = (t < g)"
| "less_eq_account_event (Removed_at t) (Removed_at u) = (t \<le> u)"

definition less_account_event :: "account_event \<Rightarrow> account_event \<Rightarrow> bool" where
  "less_account_event x y = (x \<le> y \<and> \<not> y \<le> x)"

instance
proof
  fix x y z :: account_event
  show "(x < y) = (x \<le> y \<and> \<not> y \<le> x)" by (rule less_account_event_def)
  show "x \<le> x" by (cases x) auto
  show "x \<le> y \<Longrightarrow> y \<le> z \<Longrightarrow> x \<le> z" by (cases x; cases y; cases z) auto
  show "x \<le> y \<Longrightarrow> y \<le> x \<Longrightarrow> x = y" by (cases x; cases y) auto
  show "x \<le> y \<or> y \<le> x" by (cases x; cases y) auto
qed

end

lemma event_less [simp]:
  "Granted g e < Granted h f \<longleftrightarrow> g < h \<or> g = h \<and> e < f" "Granted g e < Removed_at t \<longleftrightarrow> g \<le> t"
  "Removed_at t < Granted g e \<longleftrightarrow> t < g" "Removed_at t < Removed_at u \<longleftrightarrow> t < u"
  "\<not> x < Nothing_known" "Nothing_known < x \<longleftrightarrow> x \<noteq> Nothing_known"
  by (cases x; auto simp: less_account_event_def)+

lemma nothing_max [simp]: "max Nothing_known x = x" "max x Nothing_known = x"
  by (auto simp: max_def) (metis antisym less_eq_account_event.simps(1))+

definition grant_event :: "'r cred \<Rightarrow> account_event" where
  "grant_event c = (case sc_grantedAt c of Some g \<Rightarrow> Granted g (sc_expiresAt c) | None \<Rightarrow> Nothing_known)"

definition held_event :: "(string, 'r cred) jsmap \<Rightarrow> string \<Rightarrow> account_event" where
  "held_event m a = (case map_of m a of Some c \<Rightarrow> grant_event c | None \<Rightarrow> Nothing_known)"

definition removed_event :: "(string, ms) jsmap \<Rightarrow> string \<Rightarrow> account_event" where
  "removed_event m a = (case map_of m a of Some t \<Rightarrow> Removed_at t | None \<Rightarrow> Nothing_known)"

definition registry_event :: "'r registry \<Rightarrow> string \<Rightarrow> account_event" where
  "registry_event s a = max (held_event (rg_records s) a) (removed_event (rg_markers s) a)"

text \<open>
  Records as this code writes them: under their own alias, with the time of their grant and a real expiry.
\<close>

definition dated :: "'r cred \<Rightarrow> bool" where
  "dated c \<longleftrightarrow> sc_grantedAt c \<noteq> None \<and> sc_expiresAt c > 0"

definition records_ok :: "(string, 'r cred) jsmap \<Rightarrow> bool" where
  "records_ok m \<longleftrightarrow> map_wf m \<and> (\<forall>a c. map_of m a = Some c \<longrightarrow> sc_alias c = a \<and> dated c)"

definition registry_ok :: "'r registry \<Rightarrow> bool" where
  "registry_ok s \<longleftrightarrow> records_ok (rg_records s) \<and> map_wf (rg_markers s)
     \<and> (\<forall>a. map_of (rg_records s) a = None \<or> map_of (rg_markers s) a = None)"

lemma dated_event: "dated c \<Longrightarrow> \<exists>g. sc_grantedAt c = Some g \<and> grant_event c = Granted g (sc_expiresAt c)"
  by (auto simp: dated_def grant_event_def)

lemma newer_iff: "dated c \<Longrightarrow> dated d \<Longrightarrow> credentialsAreNewer (stamp_of c) (stamp_of d) \<longleftrightarrow> grant_event d < grant_event c"
  by (auto simp: dated_def stamp_of_def grant_event_def split: if_splits)

lemma after_iff: "dated c \<Longrightarrow> grantedAfter (stamp_of c) (Some t) \<longleftrightarrow> Removed_at t < grant_event c"
  by (auto simp: dated_def stamp_of_def grant_event_def grantedAfter_def)

lemma after_none [simp]: "grantedAfter c None"
  by (simp add: grantedAfter_def)

lemma held_update [simp]: "held_event (AList.update a c m) b = (if b = a then grant_event c else held_event m b)"
  by (simp add: held_event_def update_conv')

lemma held_delete [simp]: "held_event (AList.delete a m) b = (if b = a then Nothing_known else held_event m b)"
  by (simp add: held_event_def delete_conv')

lemma removed_update [simp]: "removed_event (AList.update a t m) b = (if b = a then Removed_at t else removed_event m b)"
  by (simp add: removed_event_def update_conv')

lemma removed_delete [simp]: "removed_event (AList.delete a m) b = (if b = a then Nothing_known else removed_event m b)"
  by (simp add: removed_event_def delete_conv')

lemma records_ok_update: "records_ok m \<Longrightarrow> dated c \<Longrightarrow> records_ok (AList.update (sc_alias c) c m)"
  by (auto simp: records_ok_def update_conv' inv_intros)

lemma records_ok_delete: "records_ok m \<Longrightarrow> records_ok (AList.delete a m)"
  by (auto simp: records_ok_def delete_conv' inv_intros split: if_splits)

section \<open>What the sync needs of a backend\<close>

text \<open>A message to the registry, and what it says of an alias.\<close>

type_synonym 'r registry_message = "'r cred + string \<times> ms"

definition send_event ::
  "('r cred \<Rightarrow> 'r registry \<Rightarrow> bool \<times> 'r registry) \<Rightarrow> (string \<Rightarrow> ms \<Rightarrow> 'r registry \<Rightarrow> bool \<times> 'r registry)
    \<Rightarrow> 'r registry_message \<Rightarrow> 'r registry \<Rightarrow> 'r registry" where
  "send_event put remove m s = (case m of Inl c \<Rightarrow> snd (put c s) | Inr (a, t) \<Rightarrow> snd (remove a t s))"

definition sent_about :: "string \<Rightarrow> 'r registry_message \<Rightarrow> account_event" where
  "sent_about a m = (case m of Inl c \<Rightarrow> (if sc_alias c = a then grant_event c else Nothing_known)
     | Inr (b, t) \<Rightarrow> (if b = a then Removed_at t else Nothing_known))"

text \<open>
  A backend keeps, for every alias, the last of the events it has been sent, whatever their order; it says
  whether a record was taken; it invents nothing; and it stays well formed.
\<close>

locale account_registry =
  fixes put :: "'r cred \<Rightarrow> 'r registry \<Rightarrow> bool \<times> 'r registry"
    and remove :: "string \<Rightarrow> ms \<Rightarrow> 'r registry \<Rightarrow> bool \<times> 'r registry"
  assumes put_ok: "registry_ok s \<Longrightarrow> dated c \<Longrightarrow> registry_ok (snd (put c s))"
    and put_event: "registry_ok s \<Longrightarrow> dated c \<Longrightarrow>
      registry_event (snd (put c s)) a = (if a = sc_alias c then max (registry_event s a) (grant_event c) else registry_event s a)"
    and put_taken: "registry_ok s \<Longrightarrow> dated c \<Longrightarrow> fst (put c s) \<longleftrightarrow> registry_event s (sc_alias c) < grant_event c"
    and put_sources: "set (rg_records (snd (put c s))) \<subseteq> insert (sc_alias c, c) (set (rg_records s))"
    and put_markers: "set (keys_of (rg_markers (snd (put c s)))) \<subseteq> set (keys_of (rg_markers s))"
    and remove_ok: "registry_ok s \<Longrightarrow> registry_ok (snd (remove alias t s))"
    and remove_event: "registry_ok s \<Longrightarrow>
      registry_event (snd (remove alias t s)) a = (if a = alias then max (registry_event s a) (Removed_at t) else registry_event s a)"
    and remove_taken: "registry_ok s \<Longrightarrow> fst (remove alias t s) \<longleftrightarrow> (\<forall>g e. registry_event s alias = Granted g e \<longrightarrow> g \<le> t)"
    and remove_sources: "set (rg_records (snd (remove alias t s))) \<subseteq> set (rg_records s)"
    and remove_markers: "set (keys_of (rg_markers (snd (remove alias t s)))) \<subseteq> insert alias (set (keys_of (rg_markers s)))"
begin

lemma put_grows: "registry_ok s \<Longrightarrow> dated c \<Longrightarrow> registry_event s a \<le> registry_event (snd (put c s)) a"
  by (simp add: put_event)

lemma remove_grows: "registry_ok s \<Longrightarrow> registry_event s a \<le> registry_event (snd (remove alias t s)) a"
  by (simp add: remove_event)

lemma send_run:
  assumes "registry_ok s" and "\<forall>c. Inl c \<in> set ms \<longrightarrow> dated c"
  shows "registry_ok (fold (send_event put remove) ms s)
    \<and> registry_event (fold (send_event put remove) ms s) a = max_of (registry_event s a) (map (sent_about a) ms)"
  using assms
proof (induction ms arbitrary: s)
  case (Cons m ms)
  have "registry_ok (send_event put remove m s) \<and> registry_event (send_event put remove m s) a = max (registry_event s a) (sent_about a m)"
    using Cons.prems by (auto simp: send_event_def sent_about_def put_ok put_event remove_ok remove_event split: sum.split)
  with Cons show ?case by simp
qed simp

end

section \<open>Both backends provide it\<close>

lemma registry_event_cases:
  assumes "registry_ok s"
  shows "registry_event s a = (case map_of (rg_records s) a of Some c \<Rightarrow> grant_event c
     | None \<Rightarrow> (case map_of (rg_markers s) a of Some t \<Rightarrow> Removed_at t | None \<Rightarrow> Nothing_known))"
proof -
  have "map_of (rg_records s) a = None \<or> map_of (rg_markers s) a = None" using assms by (simp add: registry_ok_def)
  then show ?thesis by (auto simp: registry_event_def held_event_def removed_event_def split: option.splits)
qed

lemma stored_dated: "registry_ok s \<Longrightarrow> map_of (rg_records s) a = Some c \<Longrightarrow> dated c \<and> sc_alias c = a \<and> map_of (rg_markers s) a = None"
  by (force simp: registry_ok_def records_ok_def)

definition stored :: "'r cred \<Rightarrow> 'r registry \<Rightarrow> 'r registry" where
  "stored c s = s\<lparr>rg_records := AList.update (sc_alias c) c (rg_records s), rg_markers := AList.delete (sc_alias c) (rg_markers s)\<rparr>"

definition marked :: "string \<Rightarrow> ms \<Rightarrow> 'r registry \<Rightarrow> 'r registry" where
  "marked alias t s = s\<lparr>rg_records := AList.delete alias (rg_records s),
     rg_markers := (case map_of (rg_markers s) alias of None \<Rightarrow> AList.update alias t (rg_markers s)
       | Some u \<Rightarrow> (if t > u then AList.update alias t (rg_markers s) else rg_markers s))\<rparr>"

lemma delete_absent: "map_of m a = None \<Longrightarrow> AList.delete a m = m"
  by (simp add: delete_id map_of_eq_None_iff)

lemma redis_put_spec:
  assumes "registry_ok s" and "dated c"
  shows "redis_put c s = (if registry_event s (sc_alias c) < grant_event c then (True, stored c s) else (False, s))"
proof (cases "map_of (rg_records s) (sc_alias c)")
  case None
  then show ?thesis
    using assms by (auto simp: redis_put_def Let_def registry_event_cases stored_def grant_event_def dated_def split: option.splits)
next
  case (Some d)
  note st = stored_dated [OF assms(1) Some]
  show ?thesis
    using assms st Some
    by (auto simp: redis_put_def Let_def registry_event_cases stored_def grant_event_def dated_def split: option.splits if_splits)
qed

lemma worker_put_redis:
  assumes "registry_ok s" and "dated c"
  shows "worker_put c s = redis_put c s"
proof (cases "map_of (rg_records s) (sc_alias c)")
  case None
  then show ?thesis
    using assms by (auto simp: redis_put_def worker_put_def Let_def grantedAfter_def stamp_of_def dated_def delete_absent split: option.splits)
next
  case (Some d)
  note st = stored_dated [OF assms(1) Some]
  show ?thesis
    using assms st Some
    by (auto simp: redis_put_def worker_put_def Let_def isNewer_def stamp_of_def dated_def delete_absent split: option.splits if_splits)
qed

lemma redis_remove_spec:
  assumes "registry_ok s"
  shows "redis_remove alias t s =
    (if \<exists>g e. registry_event s alias = Granted g e \<and> t < g then (False, s) else (True, marked alias t s))"
proof (cases "map_of (rg_records s) alias")
  case None
  then show ?thesis
    using assms by (auto simp: redis_remove_def registry_event_cases marked_def split: option.splits)
next
  case (Some d)
  note st = stored_dated [OF assms Some]
  show ?thesis
    using assms st Some
    by (auto simp: redis_remove_def registry_event_cases marked_def grant_event_def dated_def split: option.splits)
qed

lemma worker_remove_redis: "worker_remove alias t s = redis_remove alias t s"
  by (auto simp: worker_remove_def redis_remove_def Let_def grantedAfter_def stamp_of_def delete_absent split: option.splits)

lemma stored_ok: "registry_ok s \<Longrightarrow> dated c \<Longrightarrow> registry_ok (stored c s)"
  by (auto simp: registry_ok_def stored_def records_ok_update inv_intros update_conv' delete_conv')

lemma stored_event: "registry_event (stored c s) a = (if a = sc_alias c then grant_event c else registry_event s a)"
  by (simp add: registry_event_def stored_def)

lemma marked_ok: "registry_ok s \<Longrightarrow> registry_ok (marked alias t s)"
  by (auto simp: registry_ok_def marked_def records_ok_delete inv_intros update_conv' delete_conv' split: option.splits)

lemma marked_event:
  assumes "registry_ok s" and "\<not> (\<exists>g e. registry_event s alias = Granted g e \<and> t < g)"
  shows "registry_event (marked alias t s) a = (if a = alias then max (registry_event s a) (Removed_at t) else registry_event s a)"
proof (cases "map_of (rg_records s) alias")
  case None
  then show ?thesis
    by (auto simp: registry_event_def marked_def held_event_def removed_event_def delete_absent update_conv' max_def split: option.splits)
next
  case (Some d)
  note st = stored_dated [OF assms(1) Some]
  then obtain g where g: "grant_event d = Granted g (sc_expiresAt d)" using dated_event by blast
  then have "g \<le> t" using assms(2) Some by (simp add: registry_event_cases [OF assms(1)])
  then show ?thesis
    using st Some g
    by (auto simp: registry_event_def marked_def held_event_def removed_event_def delete_conv' update_conv' max_def)
qed

lemma set_keys_delete: "set (keys_of (AList.delete k m)) \<subseteq> set (keys_of m)"
  using set_delete_le [of k m] by auto

interpretation redis: account_registry redis_put redis_remove
proof
  fix s :: "'r registry" and c :: "'r cred" and a k t
  show "registry_ok s \<Longrightarrow> dated c \<Longrightarrow> registry_ok (snd (redis_put c s))" by (simp add: redis_put_spec stored_ok)
  show "registry_ok s \<Longrightarrow> dated c \<Longrightarrow> registry_event (snd (redis_put c s)) a =
      (if a = sc_alias c then max (registry_event s a) (grant_event c) else registry_event s a)"
    by (auto simp: redis_put_spec stored_event max_def)
  show "registry_ok s \<Longrightarrow> dated c \<Longrightarrow> fst (redis_put c s) \<longleftrightarrow> registry_event s (sc_alias c) < grant_event c"
    by (simp add: redis_put_spec)
  show "set (rg_records (snd (redis_put c s))) \<subseteq> insert (sc_alias c, c) (set (rg_records s))"
    using set_update_le [of "sc_alias c" c "rg_records s"] by (auto simp: redis_put_def Let_def)
  show "set (keys_of (rg_markers (snd (redis_put c s)))) \<subseteq> set (keys_of (rg_markers s))"
    using set_keys_delete [of "sc_alias c" "rg_markers s"] by (auto simp: redis_put_def Let_def)
  show "registry_ok s \<Longrightarrow> registry_ok (snd (redis_remove k t s))" by (simp add: redis_remove_spec marked_ok)
  show "registry_ok s \<Longrightarrow> registry_event (snd (redis_remove k t s)) a =
      (if a = k then max (registry_event s a) (Removed_at t) else registry_event s a)"
    by (auto simp: redis_remove_spec marked_event max_def)
  show "registry_ok s \<Longrightarrow> fst (redis_remove k t s) \<longleftrightarrow> (\<forall>g e. registry_event s k = Granted g e \<longrightarrow> g \<le> t)"
    by (auto simp: redis_remove_spec not_less)
  show "set (rg_records (snd (redis_remove k t s))) \<subseteq> set (rg_records s)"
    using set_delete_le [of k "rg_records s"] by (auto simp: redis_remove_def)
  show "set (keys_of (rg_markers (snd (redis_remove k t s)))) \<subseteq> insert k (set (keys_of (rg_markers s)))"
    using set_update_le [of k t "rg_markers s"] by (auto simp: redis_remove_def split: option.splits if_splits)
qed

interpretation worker: account_registry worker_put worker_remove
proof
  fix s :: "'r registry" and c :: "'r cred" and a k t
  show "registry_ok s \<Longrightarrow> dated c \<Longrightarrow> registry_ok (snd (worker_put c s))" by (simp add: worker_put_redis redis.put_ok)
  show "registry_ok s \<Longrightarrow> dated c \<Longrightarrow> registry_event (snd (worker_put c s)) a =
      (if a = sc_alias c then max (registry_event s a) (grant_event c) else registry_event s a)"
    by (simp add: worker_put_redis redis.put_event)
  show "registry_ok s \<Longrightarrow> dated c \<Longrightarrow> fst (worker_put c s) \<longleftrightarrow> registry_event s (sc_alias c) < grant_event c"
    by (simp add: worker_put_redis redis.put_taken)
  show "set (rg_records (snd (worker_put c s))) \<subseteq> insert (sc_alias c, c) (set (rg_records s))"
    using set_update_le [of "sc_alias c" c "rg_records s"] by (auto simp: worker_put_def Let_def)
  show "set (keys_of (rg_markers (snd (worker_put c s)))) \<subseteq> set (keys_of (rg_markers s))"
    using set_keys_delete [of "sc_alias c" "rg_markers s"] by (auto simp: worker_put_def Let_def)
  show "registry_ok s \<Longrightarrow> registry_ok (snd (worker_remove k t s))" by (simp add: worker_remove_redis redis.remove_ok)
  show "registry_ok s \<Longrightarrow> registry_event (snd (worker_remove k t s)) a =
      (if a = k then max (registry_event s a) (Removed_at t) else registry_event s a)"
    by (simp add: worker_remove_redis redis.remove_event)
  show "registry_ok s \<Longrightarrow> fst (worker_remove k t s) \<longleftrightarrow> (\<forall>g e. registry_event s k = Granted g e \<longrightarrow> g \<le> t)"
    by (simp add: worker_remove_redis redis.remove_taken)
  show "set (rg_records (snd (worker_remove k t s))) \<subseteq> set (rg_records s)"
    unfolding worker_remove_redis by (rule redis.remove_sources)
  show "set (keys_of (rg_markers (snd (worker_remove k t s)))) \<subseteq> insert k (set (keys_of (rg_markers s)))"
    unfolding worker_remove_redis by (rule redis.remove_markers)
qed

text \<open>
  C22. The two backends are one register for dated records. Sent the same records and removals in the same order, every
  record with a known grant time and so those stored before, the Redis scripts and the Cloudflare worker hold the last
  event of every alias - the greatest of what was there and what was sent, so the order of sending does not matter, and
  a removal made before a grant does not undo it. A record without its grant time can undo a newer one
  (\<open>undated_login_loses_newer\<close>).
\<close>

theorem backends_keep_last_event:
  assumes "registry_ok s" and "\<forall>c. Inl c \<in> set ms \<longrightarrow> dated c"
  shows "registry_event (fold (send_event redis_put redis_remove) ms s) a = max_of (registry_event s a) (map (sent_about a) ms)
    \<and> registry_event (fold (send_event worker_put worker_remove) ms s) a = max_of (registry_event s a) (map (sent_about a) ms)"
  using redis.send_run [OF assms] worker.send_run [OF assms] by simp

definition empty_registry :: "'r registry" where
  "empty_registry = \<lparr>rg_records = [], rg_markers = []\<rparr>"

definition sample_cred :: "string \<Rightarrow> string \<Rightarrow> ms option \<Rightarrow> ms \<Rightarrow> synced_credentials" where
  "sample_cred a tok g e = \<lparr>sc_alias = a, sc_accessToken = tok, sc_refreshToken = tok, sc_expiresAt = e, sc_grantedAt = g\<rparr>"

lemma empty_registry_ok [simp]: "registry_ok empty_registry"
  by (simp add: registry_ok_def records_ok_def empty_registry_def)

theorem backends_keep_last_event_witness:
  "registry_event (fold (send_event worker_put worker_remove)
      [Inl (sample_cred ''a'' ''new'' (Some 30) 90), Inr (''a'', 20), Inl (sample_cred ''a'' ''old'' (Some 10) 99)] empty_registry) ''a''
    = Granted 30 90"
proof -
  have d: "\<forall>c. Inl c \<in> set [Inl (sample_cred ''a'' ''new'' (Some 30) 90), Inr (''a'', 20), Inl (sample_cred ''a'' ''old'' (Some 10) 99)]
      \<longrightarrow> dated c"
    by (auto simp: dated_def sample_cred_def)
  show ?thesis unfolding backends_keep_last_event [OF empty_registry_ok d, THEN conjunct2] by code_simp
qed

text \<open>
  The order is not transitive once a record lacks its grant time: such a record replaces a later login by its
  expiry alone, and is itself replaced by an older login that expires later still.
\<close>

theorem undated_login_loses_newer:
  "map_of (rg_records (fold (\<lambda>c s. snd (redis_put c s))
      [sample_cred ''a'' ''newest'' (Some 5) 1, sample_cred ''a'' ''undated'' None 2, sample_cred ''a'' ''oldest'' (Some 3) 3] empty_registry)) ''a''
    = Some (sample_cred ''a'' ''oldest'' (Some 3) 3)"
  by code_simp

end
