(* ===== verification/Account_Sync.thy ===== *)
theory Account_Sync
  imports Account_Store Timers
begin

text \<open>
  The shared account registry (\<open>account-sync.ts\<close>): the merge of an instance's files with the registry, and one
  run of the sync in its two parts - publish the removals made here and read the registry; then apply the merge to
  the files, push, and tell the pool - between which other instances and other work of this process go on. The
  backend's \<open>put\<close> and \<open>remove\<close> are arguments; \<open>fates\<close> says which calls to it fail, with what message, and whether
  the service had done what it was asked before the answer was lost.
\<close>

section \<open>The merge\<close>

record 'r sync_plan =
  sp_save :: "('r cred \<times> ms option) list"
  sp_remove :: "(string \<times> ms) list"
  sp_push :: "'r cred list"

definition removalTime :: "string \<Rightarrow> (string, ms) jsmap \<Rightarrow> (string, ms) jsmap \<Rightarrow> ms option" where
  "removalTime alias markers localRemovals =
     (case map_of markers alias of
        None \<Rightarrow> map_of localRemovals alias
      | Some a \<Rightarrow> (case map_of localRemovals alias of None \<Rightarrow> Some a | Some b \<Rightarrow> Some (max a b)))"

definition by_alias :: "'r cred list \<Rightarrow> (string, 'r cred) jsmap" where
  "by_alias local = fold (\<lambda>c. AList.update (sc_alias c) c) local []"

definition counts :: "'r cred option \<Rightarrow> ms option \<Rightarrow> bool" where
  "counts c removedAt = (case c of Some r \<Rightarrow> grantedAfter (stamp_of r) removedAt | None \<Rightarrow> False)"

definition plan_alias ::
  "('r cred option) \<Rightarrow> ('r cred option) \<Rightarrow> ms option \<Rightarrow> string \<Rightarrow> 'r sync_plan \<Rightarrow> 'r sync_plan" where
  "plan_alias mine theirs removedAt alias p =
     (if counts theirs removedAt
         \<and> (\<not> counts mine removedAt \<or> credentialsAreNewer (stamp_of (the theirs)) (stamp_of (the mine))) then
        p\<lparr>sp_save := sp_save p @ [(the theirs, removedAt)]\<rparr>
      else if counts mine removedAt then
        (if \<not> counts theirs removedAt \<or> credentialsAreNewer (stamp_of (the mine)) (stamp_of (the theirs))
         then p\<lparr>sp_push := sp_push p @ [the mine]\<rparr> else p)
      else (case (mine, removedAt) of (Some _, Some t) \<Rightarrow> p\<lparr>sp_remove := sp_remove p @ [(alias, t)]\<rparr> | _ \<Rightarrow> p))"

definition plan_keys :: "string list \<Rightarrow> string list \<Rightarrow> string list" where
  "plan_keys xs ys = xs @ filter (\<lambda>y. y \<notin> set xs) ys"

definition planAccountSync ::
  "'r cred list \<Rightarrow> (string, 'r cred) jsmap \<Rightarrow> (string, ms) jsmap \<Rightarrow> (string, ms) jsmap \<Rightarrow> 'r sync_plan" where
  "planAccountSync local registry markers localRemovals =
     (let localByAlias = by_alias local
      in fold (\<lambda>a. plan_alias (map_of localByAlias a) (map_of registry a) (removalTime a markers localRemovals) a)
           (plan_keys (keys_of localByAlias) (keys_of registry)) \<lparr>sp_save = [], sp_remove = [], sp_push = []\<rparr>)"

section \<open>Reading the registry\<close>

definition isRegistryRecord :: "string \<Rightarrow> 'r cred \<Rightarrow> bool" where
  "isRegistryRecord alias c \<longleftrightarrow>
     sc_alias c = alias \<and> isValidAccountAlias alias \<and> sc_accessToken c \<noteq> [] \<and> sc_refreshToken c \<noteq> []"

definition parseRegistry :: "(string \<Rightarrow> 'r cred \<Rightarrow> bool) \<Rightarrow> (string, 'r cred) jsmap \<Rightarrow> (string, 'r cred) jsmap" where
  "parseRegistry isRecord raw = filter (\<lambda>(a, c). isRecord a c) raw"

definition parseMarkers :: "(string, ms) jsmap \<Rightarrow> (string, ms) jsmap" where
  "parseMarkers raw = filter (\<lambda>(a, _). isValidAccountAlias a) raw"

section \<open>State of the sync\<close>

datatype account_notice =
    Service_down string | Service_back
  | Removed_elsewhere string | Added_from_registry string | Other_subscription string | Published string

record account_sync =
  ay_intervalMs :: rat
  ay_timer :: bool
  ay_published :: "(string, ms) jsmap"
  ay_markers :: "(string, ms) jsmap"
  ay_down :: bool
  ay_lastSyncAt :: "ms option"
  ay_lastOkAt :: "ms option"
  ay_registryAccounts :: "nat option"
  ay_registryRemoved :: "nat option"
  ay_saved :: nat
  ay_removed :: nat
  ay_pushed :: nat
  ay_removalsPublished :: nat
  ay_errors :: nat
  ay_lastError :: "string option"
  ay_log :: "account_notice list"

definition DEFAULT_ACCOUNT_SYNC_INTERVAL_MS :: rat where "DEFAULT_ACCOUNT_SYNC_INTERVAL_MS = 15000"

definition new_account_sync :: "rat option \<Rightarrow> account_sync" where
  "new_account_sync interval =
     \<lparr>ay_intervalMs = clampTimerMs (Fin (max 1000 (opt_or interval DEFAULT_ACCOUNT_SYNC_INTERVAL_MS))), ay_timer = False,
      ay_published = [], ay_markers = [], ay_down = False, ay_lastSyncAt = None, ay_lastOkAt = None,
      ay_registryAccounts = None, ay_registryRemoved = None, ay_saved = 0, ay_removed = 0, ay_pushed = 0,
      ay_removalsPublished = 0, ay_errors = 0, ay_lastError = None, ay_log = []\<rparr>"

definition account_sync_start :: "account_sync \<Rightarrow> account_sync" where "account_sync_start y = y\<lparr>ay_timer := True\<rparr>"

definition account_sync_stop :: "account_sync \<Rightarrow> account_sync" where "account_sync_stop y = y\<lparr>ay_timer := False\<rparr>"

definition removalOf :: "string \<Rightarrow> 'r account_files \<Rightarrow> account_sync \<Rightarrow> ms option" where
  "removalOf alias f y = removalTime alias (ay_markers y) (af_removals f)"

definition tell :: "account_notice \<Rightarrow> account_sync \<Rightarrow> account_sync" where
  "tell n y = y\<lparr>ay_log := ay_log y @ [n]\<rparr>"

text \<open>The bookkeeping of \<open>call\<close>: one line in the log when the service goes away, one when it is back.\<close>

type_synonym call_fate = "(string \<times> bool) option"

definition executed_anyway :: "call_fate \<Rightarrow> bool" where
  "executed_anyway fate = (case fate of None \<Rightarrow> False | Some (_, e) \<Rightarrow> e)"

definition noted_call :: "call_fate \<Rightarrow> ms \<Rightarrow> account_sync \<Rightarrow> account_sync" where
  "noted_call fate now y =
     (case fate of
        None \<Rightarrow>
          let y1 = y\<lparr>ay_lastOkAt := Some now\<rparr> in (if ay_down y then tell Service_back (y1\<lparr>ay_down := False\<rparr>) else y1)
      | Some (msg, _) \<Rightarrow>
          let y1 = y\<lparr>ay_errors := ay_errors y + 1, ay_lastError := Some msg\<rparr>
          in (if ay_down y then y1 else tell (Service_down msg) (y1\<lparr>ay_down := True\<rparr>)))"

definition next_fate :: "call_fate list \<Rightarrow> call_fate \<times> call_fate list" where
  "next_fate fates = (case fates of [] \<Rightarrow> (None, []) | f # fs \<Rightarrow> (f, fs))"

section \<open>The first part of a run\<close>

fun publish_removals ::
  "(string \<Rightarrow> ms \<Rightarrow> 'r registry \<Rightarrow> bool \<times> 'r registry) \<Rightarrow> ms \<Rightarrow> (string \<times> ms) list \<Rightarrow> call_fate list
    \<Rightarrow> account_sync \<Rightarrow> 'r registry \<Rightarrow> call_fate list \<times> account_sync \<times> 'r registry" where
  "publish_removals remove now [] fates y s = (fates, y, s)"
| "publish_removals remove now ((a, t) # rs) fates y s =
     (if (case map_of (ay_published y) a of Some p \<Rightarrow> p \<ge> t | None \<Rightarrow> False) then publish_removals remove now rs fates y s
      else
        let (fate, fates1) = next_fate fates; y1 = noted_call fate now y
        in (if fate \<noteq> None then (fates1, y1, if executed_anyway fate then snd (remove a t s) else s)
            else publish_removals remove now rs fates1
                   (y1\<lparr>ay_published := AList.update a t (ay_published y1), ay_removalsPublished := ay_removalsPublished y1 + 1\<rparr>)
                   (snd (remove a t s))))"

text \<open>What the second part works on.\<close>

record 'r pending_sync =
  pe_fetchedAt :: ms
  pe_registry :: "(string, 'r cred) jsmap"
  pe_markers :: "(string, ms) jsmap"
  pe_plan :: "'r sync_plan"
  pe_kept :: "(string, 'r cred) jsmap"

definition outliving :: "'r cred list \<Rightarrow> (string, ms) jsmap \<Rightarrow> (string, ms) jsmap \<Rightarrow> (string, 'r cred) jsmap" where
  "outliving local markers localRemovals =
     fold (\<lambda>c m. if grantedAfter (stamp_of c) (removalTime (sc_alias c) markers localRemovals)
                 then AList.update (sc_alias c) c m else m) local []"

definition sync_begin ::
  "(string \<Rightarrow> ms \<Rightarrow> 'r registry \<Rightarrow> bool \<times> 'r registry) \<Rightarrow> (string \<Rightarrow> 'r cred \<Rightarrow> bool) \<Rightarrow> ms \<Rightarrow> call_fate list
    \<Rightarrow> 'r account_files \<Rightarrow> account_sync \<Rightarrow> 'r registry \<Rightarrow> 'r pending_sync option \<times> account_sync \<times> 'r registry" where
  "sync_begin remove isRecord now fates f y s =
     (let (fates1, y1, s1) = publish_removals remove now (af_removals f) fates (y\<lparr>ay_lastSyncAt := Some now\<rparr>) s;
          (fate, fates2) = next_fate fates1;
          y2 = noted_call fate now y1
      in if fate \<noteq> None then (None, y2, s1)
         else
           let registry = parseRegistry isRecord (rg_records s1); markers = parseMarkers (rg_markers s1);
               local = loadAllAccounts f
           in (Some \<lparr>pe_fetchedAt = now, pe_registry = registry, pe_markers = markers,
                    pe_plan = planAccountSync local registry markers (af_removals f),
                    pe_kept = outliving local markers (af_removals f)\<rparr>,
               y2\<lparr>ay_markers := markers, ay_registryAccounts := Some (length registry), ay_registryRemoved := Some (length markers)\<rparr>, s1))"

section \<open>The second part\<close>

text \<open>The files, the records kept for the pool, the removals reported to it, and the sync's own state.\<close>

record 'r sync_work =
  wk_files :: "'r account_files"
  wk_kept :: "(string, 'r cred) jsmap"
  wk_removed :: "(string \<times> ms) list"
  wk_sync :: account_sync

definition apply_remove :: "bool \<Rightarrow> string \<times> ms \<Rightarrow> 'r sync_work \<Rightarrow> 'r sync_work" where
  "apply_remove unlinks r w =
     (let (gone, f) = removeSharedAccount (fst r) (snd r) unlinks (wk_files w); y = wk_sync w
      in if \<not> gone then w
         else w\<lparr>wk_files := f, wk_kept := AList.delete (fst r) (wk_kept w), wk_removed := wk_removed w @ [r],
                wk_sync := tell (Removed_elsewhere (fst r)) (y\<lparr>ay_removed := ay_removed y + 1\<rparr>)\<rparr>)"

definition apply_save :: "('r cred \<Rightarrow> 'r cred \<Rightarrow> bool) \<Rightarrow> ms \<Rightarrow> 'r cred \<times> ms option \<Rightarrow> 'r sync_work \<Rightarrow> 'r sync_work" where
  "apply_save differ fetchedAt r w =
     (let c = fst r; (res, f) = saveSharedAccount c fetchedAt (snd r) (wk_files w); y = wk_sync w
      in if \<not> sr_saved res then w
         else let y1 = y\<lparr>ay_saved := ay_saved y + 1\<rparr>
              in w\<lparr>wk_files := f, wk_kept := AList.update (sc_alias c) c (wk_kept w),
                   wk_sync := (case sr_replaced res of
                      None \<Rightarrow> tell (Added_from_registry (sc_alias c)) y1
                    | Some was \<Rightarrow> (if differ was c then tell (Other_subscription (sc_alias c)) y1 else y1))\<rparr>)"

fun push_records ::
  "('r cred \<Rightarrow> 'r registry \<Rightarrow> bool \<times> 'r registry) \<Rightarrow> (string, 'r cred) jsmap \<Rightarrow> ms \<Rightarrow> 'r account_files \<Rightarrow> 'r cred list
    \<Rightarrow> call_fate list \<Rightarrow> account_sync \<Rightarrow> 'r registry \<Rightarrow> account_sync \<times> 'r registry" where
  "push_records put registry now f [] fates y s = (y, s)"
| "push_records put registry now f (c # cs) fates y s =
     (if \<not> grantedAfter (stamp_of c) (map_of (af_removals f) (sc_alias c)) then push_records put registry now f cs fates y s
      else
        let (fate, fates1) = next_fate fates; y1 = noted_call fate now y
        in (if fate \<noteq> None then (y1, if executed_anyway fate then snd (put c s) else s)
            else
              let (stored, s1) = put c s; y2 = y1\<lparr>ay_pushed := ay_pushed y1 + 1\<rparr>
              in push_records put registry now f cs fates1
                   (if \<not> stored then y1
                    else if map_of registry (sc_alias c) = None then tell (Published (sc_alias c)) y2 else y2) s1))"

record 'r sync_change =
  ch_records :: "'r cred list"
  ch_removed :: "(string \<times> ms) list"

definition still_kept :: "(string, 'r cred) jsmap \<Rightarrow> (string, ms) jsmap \<Rightarrow> (string, 'r cred) jsmap" where
  "still_kept kept removedNow = filter (\<lambda>(a, c). grantedAfter (stamp_of c) (map_of removedNow a)) kept"

text \<open>What the pool is told: \<open>live\<close> reads the credentials a seat holds, and is absent until a pool is attached.\<close>

definition pool_change ::
  "(string \<Rightarrow> live_seat option) option \<Rightarrow> 'r pending_sync \<Rightarrow> 'r sync_work \<Rightarrow> 'r sync_change" where
  "pool_change live p w =
     (case live of
        None \<Rightarrow> \<lparr>ch_records = [], ch_removed = wk_removed w\<rparr>
      | Some seat_of \<Rightarrow>
          let removedNow = af_removals (wk_files w);
              kept = still_kept (wk_kept w) removedNow;
              newer = (\<lambda>c. case seat_of (sc_alias c) of None \<Rightarrow> True | Some seat \<Rightarrow> credentialsAreNewer (stamp_of c) seat);
              planned = map fst (sp_remove (pe_plan p));
              gone = (\<lambda>a. if map_of kept a \<noteq> None \<or> a \<in> set planned then None
                          else (case (seat_of a, removalTime a (pe_markers p) removedNow) of
                                  (Some seat, Some t) \<Rightarrow> (if grantedAfter seat (Some t) then None else Some (a, t))
                                | _ \<Rightarrow> None))
          in \<lparr>ch_records = filter newer (values_of kept),
              ch_removed = wk_removed w @ List.map_filter gone (plan_keys (keys_of (pe_markers p)) (keys_of removedNow))\<rparr>)"

definition sync_end ::
  "('r cred \<Rightarrow> 'r registry \<Rightarrow> bool \<times> 'r registry) \<Rightarrow> ('r cred \<Rightarrow> 'r cred \<Rightarrow> bool) \<Rightarrow> (string \<Rightarrow> live_seat option) option
    \<Rightarrow> ms \<Rightarrow> bool \<Rightarrow> call_fate list \<Rightarrow> 'r pending_sync \<Rightarrow> 'r account_files \<Rightarrow> account_sync \<Rightarrow> 'r registry
    \<Rightarrow> 'r sync_change \<times> 'r account_files \<times> account_sync \<times> 'r registry" where
  "sync_end put differ live now unlinks fates p f y s =
     (let plan = pe_plan p;
          w1 = fold (apply_remove unlinks) (sp_remove plan) \<lparr>wk_files = f, wk_kept = pe_kept p, wk_removed = [], wk_sync = y\<rparr>;
          w2 = fold (apply_save differ (pe_fetchedAt p)) (sp_save plan) w1;
          (y3, s3) = push_records put (pe_registry p) now (wk_files w2) (sp_push plan) fates (wk_sync w2) s
      in (pool_change live p w2, wk_files w2, y3, s3))"

section \<open>Removing an account everywhere\<close>

datatype shared_removal = Removed_everywhere | Registry_newer | Local_newer | Local_failed

definition removeAccountEverywhere ::
  "(string \<Rightarrow> ms \<Rightarrow> 'r registry \<Rightarrow> bool \<times> 'r registry) \<Rightarrow> string \<Rightarrow> ms \<Rightarrow> bool \<Rightarrow> call_fate
    \<Rightarrow> 'r account_files \<Rightarrow> 'r registry \<Rightarrow> (string + shared_removal) \<times> 'r account_files \<times> 'r registry" where
  "removeAccountEverywhere remove alias removedAt unlinks fate f s =
     (case fate of
        Some (msg, executed) \<Rightarrow> (Inl msg, f, if executed then snd (remove alias removedAt s) else s)
      | None \<Rightarrow>
          let (taken, s1) = remove alias removedAt s
          in if \<not> taken then (Inr Registry_newer, f, s1)
             else
               let (gone, f1) = removeSharedAccount alias removedAt unlinks f
               in if gone then (Inr Removed_everywhere, f1, s1)
                  else (case List.find (\<lambda>c. sc_alias c = alias) (loadAllAccounts f1) of
                          None \<Rightarrow> (Inr Removed_everywhere, f1, s1)
                        | Some c \<Rightarrow>
                            (Inr (if grantedAfter (stamp_of c) (Some removedAt) then Local_newer else Local_failed), f1, s1)))"

end
