(* ===== verification/Account_Converge.thy ===== *)
theory Account_Converge
  imports Account_Sync
begin

text \<open>
  What the shared registry guarantees: a sync never takes back a later login or removal, and the instances that
  share a registry end on the same accounts, the last event of each alias, however their syncs interleave.
\<close>

section \<open>Well-formed files\<close>

definition files_ok :: "'r account_files \<Rightarrow> bool" where
  "files_ok f \<longleftrightarrow> map_wf (af_files f) \<and> map_wf (af_removals f)
     \<and> (\<forall>a c. map_of (af_files f) a = Some c \<longrightarrow> isRegistryRecord a c \<and> dated c)
     \<and> (\<forall>a t. map_of (af_removals f) a = Some t \<longrightarrow> isValidAccountAlias a)"

lemma files_okD:
  assumes "files_ok f" and "map_of (af_files f) a = Some c"
  shows "sc_alias c = a" "isValidAccountAlias a" "isRegistryRecord a c" "dated c"
  using assms by (auto simp: files_ok_def isRegistryRecord_def)

lemma loadAccount_file: "files_ok f \<Longrightarrow> loadAccount a f = map_of (af_files f) a"
  using files_okD(2) [of f a] by (cases "map_of (af_files f) a") (auto simp: loadAccount_def)

lemma by_alias_fold:
  "map_of (fold (\<lambda>c. AList.update (sc_alias c) c) cs m) a
     = (case List.find (\<lambda>c. sc_alias c = a) (rev cs) of Some c \<Rightarrow> Some c | None \<Rightarrow> map_of m a)"
proof (induction cs rule: rev_induct)
  case (snoc c cs)
  then show ?case by (simp add: update_conv')
qed simp

lemma map_wf_by_alias: "map_wf (by_alias cs)"
proof -
  have "map_wf m \<Longrightarrow> map_wf (fold (\<lambda>c. AList.update (sc_alias c) c) cs m)" for m :: "(string, 'a cred) jsmap"
    by (induction cs arbitrary: m) (simp_all add: inv_intros)
  then show ?thesis by (simp add: by_alias_def)
qed

lemma loadAll_set:
  assumes "files_ok f"
  shows "c \<in> set (loadAllAccounts f) \<longleftrightarrow> map_of (af_files f) (sc_alias c) = Some c"
proof -
  have "c \<in> set (loadAllAccounts f) \<longleftrightarrow> (\<exists>a \<in> set (keys_of (af_files f)). map_of (af_files f) a = Some c)"
    by (simp add: loadAllAccounts_def map_filter_set loadAccount_file [OF assms])
  also have "\<dots> \<longleftrightarrow> map_of (af_files f) (sc_alias c) = Some c"
    using files_okD(1) [OF assms] jm.get_keys [of "af_files f"] by (metis option.distinct(1))
  finally show ?thesis .
qed

lemma by_alias_loaded: "files_ok f \<Longrightarrow> map_of (by_alias (loadAllAccounts f)) a = map_of (af_files f) a"
proof -
  assume ok: "files_ok f"
  show ?thesis
  proof (cases "List.find (\<lambda>c. sc_alias c = a) (rev (loadAllAccounts f))")
    case None
    then have "c \<in> set (loadAllAccounts f) \<Longrightarrow> sc_alias c \<noteq> a" for c using find_NoneD by fastforce
    then have "map_of (af_files f) a = None"
      using loadAll_set [OF ok] files_okD(1) [OF ok] by (metis not_Some_eq)
    then show ?thesis by (simp add: by_alias_def by_alias_fold None)
  next
    case (Some c)
    then have "c \<in> set (loadAllAccounts f)" "sc_alias c = a" using find_SomeD by fastforce+
    then have "map_of (af_files f) a = Some c" using loadAll_set [OF ok] by blast
    then show ?thesis by (simp add: by_alias_def by_alias_fold Some)
  qed
qed

section \<open>The plan, alias by alias\<close>

definition save_entry :: "'r cred option \<Rightarrow> 'r cred option \<Rightarrow> ms option \<Rightarrow> ('r cred \<times> ms option) option" where
  "save_entry mine theirs r =
     (if counts theirs r \<and> (\<not> counts mine r \<or> credentialsAreNewer (stamp_of (the theirs)) (stamp_of (the mine)))
      then Some (the theirs, r) else None)"

definition push_entry :: "'r cred option \<Rightarrow> 'r cred option \<Rightarrow> ms option \<Rightarrow> 'r cred option" where
  "push_entry mine theirs r =
     (if save_entry mine theirs r = None \<and> counts mine r
         \<and> (\<not> counts theirs r \<or> credentialsAreNewer (stamp_of (the mine)) (stamp_of (the theirs)))
      then mine else None)"

definition remove_entry :: "string \<Rightarrow> 'r cred option \<Rightarrow> 'r cred option \<Rightarrow> ms option \<Rightarrow> (string \<times> ms) option" where
  "remove_entry a mine theirs r =
     (if \<not> counts theirs r \<and> \<not> counts mine r \<and> mine \<noteq> None then map_option (Pair a) r else None)"

definition opt_to_list :: "'a option \<Rightarrow> 'a list" where
  "opt_to_list x = (case x of None \<Rightarrow> [] | Some v \<Rightarrow> [v])"

lemma plan_alias_entries:
  "plan_alias mine theirs r a p =
     p\<lparr>sp_save := sp_save p @ opt_to_list (save_entry mine theirs r),
       sp_remove := sp_remove p @ opt_to_list (remove_entry a mine theirs r),
       sp_push := sp_push p @ opt_to_list (push_entry mine theirs r)\<rparr>"
  by (cases mine; cases theirs; cases r)
    (auto simp: plan_alias_def save_entry_def push_entry_def remove_entry_def opt_to_list_def counts_def)

lemma map_filter_cons: "List.map_filter g (x # xs) = opt_to_list (g x) @ List.map_filter g xs"
  by (simp add: map_filter_simps opt_to_list_def split: option.split)

lemma plan_fold:
  "fold (\<lambda>a. plan_alias (m a) (t a) (r a) a) ks p =
     p\<lparr>sp_save := sp_save p @ List.map_filter (\<lambda>a. save_entry (m a) (t a) (r a)) ks,
       sp_remove := sp_remove p @ List.map_filter (\<lambda>a. remove_entry a (m a) (t a) (r a)) ks,
       sp_push := sp_push p @ List.map_filter (\<lambda>a. push_entry (m a) (t a) (r a)) ks\<rparr>"
proof (induction ks arbitrary: p)
  case (Cons a ks)
  then show ?case by (simp add: plan_alias_entries map_filter_cons del: map_filter_simps)
qed (simp add: map_filter_simps)

lemma plan_lists:
  fixes local :: "'r cred list" and registry :: "(string, 'r cred) jsmap"
  defines "m \<equiv> map_of (by_alias local)"
  defines "ks \<equiv> plan_keys (keys_of (by_alias local)) (keys_of registry)"
  shows "planAccountSync local registry markers lr =
    \<lparr>sp_save = List.map_filter (\<lambda>a. save_entry (m a) (map_of registry a) (removalTime a markers lr)) ks,
     sp_remove = List.map_filter (\<lambda>a. remove_entry a (m a) (map_of registry a) (removalTime a markers lr)) ks,
     sp_push = List.map_filter (\<lambda>a. push_entry (m a) (map_of registry a) (removalTime a markers lr)) ks\<rparr>"
  unfolding planAccountSync_def Let_def m_def ks_def by (simp add: plan_fold)

lemma set_plan_keys: "set (plan_keys xs ys) = set xs \<union> set ys"
  by (auto simp: plan_keys_def)

lemma distinct_plan_keys: "distinct xs \<Longrightarrow> distinct ys \<Longrightarrow> distinct (plan_keys xs ys)"
  by (auto simp: plan_keys_def)

section \<open>One entry applied to the files\<close>

definition save_allowed :: "'r cred \<Rightarrow> ms \<Rightarrow> ms option \<Rightarrow> 'r account_files \<Rightarrow> bool" where
  "save_allowed c fetchedAt r f \<longleftrightarrow> isValidAccountAlias (sc_alias c)
     \<and> (\<forall>t. map_of (af_removals f) (sc_alias c) = Some t \<longrightarrow> t < fetchedAt)
     \<and> (\<forall>d. loadAccount (sc_alias c) f = Some d \<longrightarrow> grantedAfter (stamp_of d) r \<longrightarrow> credentialsAreNewer (stamp_of c) (stamp_of d))"

lemma saveShared_eq:
  "saveSharedAccount c ft r f = (if save_allowed c ft r f then (\<lparr>sr_saved = True, sr_replaced = loadAccount (sc_alias c) f\<rparr>, write_file c f)
     else (\<lparr>sr_saved = False, sr_replaced = None\<rparr>, f))"
  by (auto simp: saveSharedAccount_def save_allowed_def Let_def not_le split: option.splits)

definition remove_allowed :: "string \<Rightarrow> ms \<Rightarrow> bool \<Rightarrow> 'r account_files \<Rightarrow> bool" where
  "remove_allowed a t unlinks f \<longleftrightarrow> unlinks \<and> (\<exists>c. loadAccount a f = Some c \<and> \<not> grantedAfter (stamp_of c) (Some t))"

lemma removeShared_eq: "removeSharedAccount a t unlinks f = (if remove_allowed a t unlinks f then (True, delete_file a f) else (False, f))"
  by (auto simp: removeSharedAccount_def remove_allowed_def split: option.splits)

lemma write_file_simps [simp]:
  "map_of (af_files (write_file c f)) b = (if b = sc_alias c then Some c else map_of (af_files f) b)"
  "af_removals (write_file c f) = af_removals f"
  "loadAccount b (write_file c f) = (if b = sc_alias c \<and> isValidAccountAlias b then Some c else loadAccount b f)"
  by (auto simp: write_file_def update_conv' loadAccount_def)

lemma delete_file_simps [simp]:
  "map_of (af_files (delete_file a f)) b = (if b = a then None else map_of (af_files f) b)"
  "af_removals (delete_file a f) = af_removals f"
  "loadAccount b (delete_file a f) = (if b = a then None else loadAccount b f)"
  by (auto simp: delete_file_def delete_conv' loadAccount_def)

lemma apply_remove_files: "wk_files (apply_remove u r w) = snd (removeSharedAccount (fst r) (snd r) u (wk_files w))"
  by (auto simp: apply_remove_def Let_def removeShared_eq)

lemma apply_save_files: "wk_files (apply_save differ ft r w) = snd (saveSharedAccount (fst r) ft (snd r) (wk_files w))"
  by (auto simp: apply_save_def Let_def saveShared_eq)

text \<open>A list of entries, one per alias at most, acts on each alias by its own entry.\<close>

lemma apply_removes:
  assumes "distinct ks" and "\<And>a e. ent a = Some e \<Longrightarrow> fst e = a"
  shows "af_removals (wk_files (fold (apply_remove u) (List.map_filter ent ks) w)) = af_removals (wk_files w)
    \<and> map_of (af_files (wk_files (fold (apply_remove u) (List.map_filter ent ks) w))) b
      = (if b \<in> set ks \<and> (\<exists>t. ent b = Some (b, t) \<and> remove_allowed b t u (wk_files w)) then None else map_of (af_files (wk_files w)) b)
    \<and> loadAccount b (wk_files (fold (apply_remove u) (List.map_filter ent ks) w))
      = (if b \<in> set ks \<and> (\<exists>t. ent b = Some (b, t) \<and> remove_allowed b t u (wk_files w)) then None else loadAccount b (wk_files w))"
  using assms(1)
proof (induction ks arbitrary: w)
  case (Cons a ks)
  show ?case
  proof (cases "ent a")
    case None
    with Cons show ?thesis by (auto simp: map_filter_simps)
  next
    case (Some e)
    then obtain t where e: "ent a = Some (a, t)" using assms(2) by (metis prod.collapse)
    let ?w = "apply_remove u (a, t) w"
    have f: "wk_files ?w = (if remove_allowed a t u (wk_files w) then delete_file a (wk_files w) else wk_files w)"
      by (simp add: apply_remove_files removeShared_eq)
    have o: "b \<noteq> a \<Longrightarrow> remove_allowed b s u (wk_files ?w) = remove_allowed b s u (wk_files w)" for s
      by (simp add: remove_allowed_def f)
    show ?thesis
      using Cons.prems Cons.IH [of ?w] e o by (cases "b = a") (auto simp: map_filter_simps f)
  qed
qed (simp add: map_filter_simps)

lemma apply_saves:
  assumes "distinct ks" and "\<And>a e. ent a = Some e \<Longrightarrow> sc_alias (fst e) = a"
  shows "af_removals (wk_files (fold (apply_save differ ft) (List.map_filter ent ks) w)) = af_removals (wk_files w)
    \<and> map_of (af_files (wk_files (fold (apply_save differ ft) (List.map_filter ent ks) w))) b
      = (case if b \<in> set ks then ent b else None of
           None \<Rightarrow> map_of (af_files (wk_files w)) b
         | Some (c, r) \<Rightarrow> (if save_allowed c ft r (wk_files w) then Some c else map_of (af_files (wk_files w)) b))"
  using assms(1)
proof (induction ks arbitrary: w)
  case (Cons a ks)
  show ?case
  proof (cases "ent a")
    case None
    with Cons show ?thesis by (auto simp: map_filter_simps)
  next
    case (Some e)
    obtain c r where e: "e = (c, r)" by fastforce
    have c: "sc_alias c = a" using assms(2) [OF Some] e by simp
    let ?w = "apply_save differ ft (c, r) w"
    have f: "wk_files ?w = (if save_allowed c ft r (wk_files w) then write_file c (wk_files w) else wk_files w)"
      by (simp add: apply_save_files saveShared_eq)
    have o: "sc_alias d \<noteq> a \<Longrightarrow> save_allowed d ft s (wk_files ?w) = save_allowed d ft s (wk_files w)" for d s
      by (simp add: save_allowed_def f c)
    have ob: "b \<noteq> a \<Longrightarrow> ent b = Some (d, s) \<Longrightarrow> save_allowed d ft s (wk_files ?w) = save_allowed d ft s (wk_files w)" for d s
      using assms(2) o by fastforce
    show ?thesis
      using Cons.prems Cons.IH [of ?w] Some e c ob
      by (cases "b = a") (auto simp: map_filter_simps f split: option.splits)
  qed
qed (simp add: map_filter_simps)

section \<open>The files after the second part\<close>

lemma wf_parse: "map_wf raw \<Longrightarrow> map_wf (parseRegistry isRecord raw)"
  by (simp add: parseRegistry_def inv_intros)

lemma map_of_parse: "map_wf raw \<Longrightarrow> map_of (parseRegistry isRecord raw) a
    = (case map_of raw a of Some c \<Rightarrow> (if isRecord a c then Some c else None) | None \<Rightarrow> None)"
  unfolding parseRegistry_def by (induction raw) (auto simp: map_wf_def map_of_eq_None_iff [symmetric] image_iff split: option.splits)

lemma map_of_parseMarkers: "map_wf raw \<Longrightarrow> map_of (parseMarkers raw) a = (if isValidAccountAlias a then map_of raw a else None)"
  unfolding parseMarkers_def by (induction raw) (auto simp: map_wf_def)

text \<open>What the plan decides for an alias, on what was read.\<close>

definition planned_save :: "'r cred list \<Rightarrow> 'r pending_sync \<Rightarrow> (string, ms) jsmap \<Rightarrow> string \<Rightarrow> ('r cred \<times> ms option) option" where
  "planned_save loc p lr a = save_entry (map_of (by_alias loc) a) (map_of (pe_registry p) a) (removalTime a (pe_markers p) lr)"

definition planned_remove :: "'r cred list \<Rightarrow> 'r pending_sync \<Rightarrow> (string, ms) jsmap \<Rightarrow> string \<Rightarrow> (string \<times> ms) option" where
  "planned_remove loc p lr a = remove_entry a (map_of (by_alias loc) a) (map_of (pe_registry p) a) (removalTime a (pe_markers p) lr)"

definition planned_push :: "'r cred list \<Rightarrow> 'r pending_sync \<Rightarrow> (string, ms) jsmap \<Rightarrow> string \<Rightarrow> 'r cred option" where
  "planned_push loc p lr a = push_entry (map_of (by_alias loc) a) (map_of (pe_registry p) a) (removalTime a (pe_markers p) lr)"

definition planned_from :: "'r cred list \<Rightarrow> (string, ms) jsmap \<Rightarrow> 'r pending_sync \<Rightarrow> bool" where
  "planned_from loc lr p \<longleftrightarrow> pe_plan p = planAccountSync loc (pe_registry p) (pe_markers p) lr
     \<and> map_wf (pe_registry p) \<and> (\<forall>a c. map_of (pe_registry p) a = Some c \<longrightarrow> isRegistryRecord a c)"

lemma planned_lists:
  assumes "planned_from loc lr p"
  defines "ks \<equiv> plan_keys (keys_of (by_alias loc)) (keys_of (pe_registry p))"
  shows "sp_save (pe_plan p) = List.map_filter (planned_save loc p lr) ks"
    and "sp_remove (pe_plan p) = List.map_filter (planned_remove loc p lr) ks"
    and "sp_push (pe_plan p) = List.map_filter (planned_push loc p lr) ks"
    and "distinct ks"
proof -
  have fns: "planned_save loc p lr = (\<lambda>a. save_entry (map_of (by_alias loc) a) (map_of (pe_registry p) a) (removalTime a (pe_markers p) lr))"
    "planned_remove loc p lr = (\<lambda>a. remove_entry a (map_of (by_alias loc) a) (map_of (pe_registry p) a) (removalTime a (pe_markers p) lr))"
    "planned_push loc p lr = (\<lambda>a. push_entry (map_of (by_alias loc) a) (map_of (pe_registry p) a) (removalTime a (pe_markers p) lr))"
    by (simp_all add: fun_eq_iff planned_save_def planned_remove_def planned_push_def)
  show "sp_save (pe_plan p) = List.map_filter (planned_save loc p lr) ks"
    and "sp_remove (pe_plan p) = List.map_filter (planned_remove loc p lr) ks"
    and "sp_push (pe_plan p) = List.map_filter (planned_push loc p lr) ks"
    and "distinct ks"
    using assms(1) map_wf_by_alias [of loc]
    by (simp_all add: planned_from_def plan_lists fns ks_def distinct_plan_keys map_wf_def)
qed

lemma outside_plan:
  assumes "a \<notin> set (plan_keys (keys_of (by_alias loc)) (keys_of (pe_registry p)))"
  shows "planned_save loc p lr a = None" "planned_remove loc p lr a = None" "planned_push loc p lr a = None"
proof -
  have "map_of (by_alias loc) a = None" "map_of (pe_registry p) a = None"
    using assms by (simp_all add: set_plan_keys map_of_eq_None_iff)
  then show "planned_save loc p lr a = None" "planned_remove loc p lr a = None" "planned_push loc p lr a = None"
    by (simp_all add: planned_save_def planned_remove_def planned_push_def save_entry_def remove_entry_def push_entry_def counts_def)
qed

lemma planned_save_alias: "planned_from loc lr p \<Longrightarrow> planned_save loc p lr a = Some e \<Longrightarrow> sc_alias (fst e) = a"
  by (auto simp: planned_from_def planned_save_def save_entry_def counts_def isRegistryRecord_def split: if_splits option.splits)

lemma planned_remove_alias: "planned_remove loc p lr a = Some e \<Longrightarrow> fst e = a"
  by (auto simp: planned_remove_def remove_entry_def split: if_splits)

lemma by_alias_key: "map_of (by_alias loc) a = Some c \<Longrightarrow> sc_alias c = a"
  by (auto simp: by_alias_def by_alias_fold dest: find_SomeD split: option.splits)

lemma planned_push_alias: "planned_push loc p lr a = Some c \<Longrightarrow> sc_alias c = a"
  by (auto simp: planned_push_def push_entry_def by_alias_key split: if_splits)

lemma save_not_remove: "planned_save loc p lr a = Some e \<Longrightarrow> planned_remove loc p lr a = None"
  by (auto simp: planned_save_def planned_remove_def save_entry_def remove_entry_def split: if_splits)

lemma end_files:
  assumes plan: "planned_from loc lr p" and e: "sync_end put differ live now u fates p f y s = (ch, f', y', s')"
  shows "af_removals f' = af_removals f
    \<and> map_of (af_files f') a =
      (case planned_save loc p lr a of
         Some (c, r) \<Rightarrow> (if save_allowed c (pe_fetchedAt p) r f then Some c else map_of (af_files f) a)
       | None \<Rightarrow> (if \<exists>t. planned_remove loc p lr a = Some (a, t) \<and> remove_allowed a t u f then None else map_of (af_files f) a))"
proof -
  let ?ks = "plan_keys (keys_of (by_alias loc)) (keys_of (pe_registry p))"
  let ?w0 = "\<lparr>wk_files = f, wk_kept = pe_kept p, wk_removed = [], wk_sync = y\<rparr>"
  let ?w1 = "fold (apply_remove u) (List.map_filter (planned_remove loc p lr) ?ks) ?w0"
  note lists = planned_lists [OF plan]
  have f': "f' = wk_files (fold (apply_save differ (pe_fetchedAt p)) (List.map_filter (planned_save loc p lr) ?ks) ?w1)"
    using e lists by (simp add: sync_end_def Let_def split: prod.splits)
  have r: "af_removals (wk_files ?w1) = af_removals f"
    "map_of (af_files (wk_files ?w1)) b = (if b \<in> set ?ks \<and> (\<exists>t. planned_remove loc p lr b = Some (b, t) \<and> remove_allowed b t u f)
       then None else map_of (af_files f) b)"
    "loadAccount b (wk_files ?w1) = (if b \<in> set ?ks \<and> (\<exists>t. planned_remove loc p lr b = Some (b, t) \<and> remove_allowed b t u f)
       then None else loadAccount b f)" for b
    using apply_removes [where ent = "planned_remove loc p lr" and u = u and w = ?w0 and b = b,
        OF lists(4) planned_remove_alias [of loc p lr]] by (auto split: if_splits)
  have s: "af_removals f' = af_removals f"
    "map_of (af_files f') a = (case if a \<in> set ?ks then planned_save loc p lr a else None of
           None \<Rightarrow> map_of (af_files (wk_files ?w1)) a
         | Some (c, q) \<Rightarrow> (if save_allowed c (pe_fetchedAt p) q (wk_files ?w1) then Some c else map_of (af_files (wk_files ?w1)) a))"
    using apply_saves [where ent = "planned_save loc p lr" and w = ?w1 and b = a and differ = differ and ft = "pe_fetchedAt p",
        OF lists(4) planned_save_alias [OF plan]] r(1)
    unfolding f' by simp_all
  have same: "planned_save loc p lr a = Some (c, q) \<Longrightarrow> save_allowed c (pe_fetchedAt p) q (wk_files ?w1) = save_allowed c (pe_fetchedAt p) q f"
    for c q
    using planned_save_alias [OF plan, of a] save_not_remove [of loc p lr a] by (auto simp: save_allowed_def r)
  have o: "a \<notin> set ?ks \<Longrightarrow> planned_save loc p lr a = None \<and> planned_remove loc p lr a = None"
    using outside_plan by blast
  show ?thesis
    using s o same save_not_remove [of loc p lr a] by (auto simp: r split: option.splits)
qed

section \<open>The registry after either part\<close>

lemma noted_call_published [simp]:
  "ay_published (noted_call fate now y) = ay_published y" "ay_published (tell n y) = ay_published y"
  by (simp_all add: noted_call_def tell_def Let_def split: option.split prod.split)

lemma publish_sent:
  assumes "publish_removals remove now rs fates y s = (fates', y', s')"
  shows "\<exists>sent. set sent \<subseteq> set rs \<and> s' = fold (\<lambda>(a, t). \<lambda>s. snd (remove a t s)) sent s
    \<and> (\<forall>a t. map_of (ay_published y') a = Some t \<longrightarrow> map_of (ay_published y) a = Some t \<or> (a, t) \<in> set sent)
    \<and> (fates = [] \<longrightarrow> fates' = [] \<and> (\<forall>a t. (a, t) \<in> set rs \<longrightarrow> (\<exists>q \<ge> t. map_of (ay_published y) a = Some q \<or> (a, q) \<in> set sent)))"
  using assms
proof (induction remove now rs fates y s rule: publish_removals.induct)
  case (2 remove now b t rs fates y s)
  show ?case
  proof (cases "case map_of (ay_published y) b of Some q \<Rightarrow> q \<ge> t | None \<Rightarrow> False")
    case True
    then have "publish_removals remove now rs fates y s = (fates', y', s')" using "2.prems" by simp
    then obtain sent where "set sent \<subseteq> set rs" "s' = fold (\<lambda>(a, t). \<lambda>s. snd (remove a t s)) sent s"
      "\<forall>a t. map_of (ay_published y') a = Some t \<longrightarrow> map_of (ay_published y) a = Some t \<or> (a, t) \<in> set sent"
      "fates = [] \<longrightarrow> fates' = [] \<and> (\<forall>a t. (a, t) \<in> set rs \<longrightarrow> (\<exists>q \<ge> t. map_of (ay_published y) a = Some q \<or> (a, q) \<in> set sent))"
      using "2.IH"(1) [OF True] by blast
    then show ?thesis using True by (intro exI [of _ sent]) (auto split: option.splits)
  next
    case send: False
    obtain fate fates1 where nf: "next_fate fates = (fate, fates1)" by fastforce
    show ?thesis
    proof (cases fate)
      case (Some msg)
      then show ?thesis using "2.prems" send nf
        by (intro exI [of _ "if executed_anyway fate then [(b, t)] else []"]) (auto simp: Let_def next_fate_def split: list.splits)
    next
      case None
      let ?y = "(noted_call fate now y)\<lparr>ay_published := AList.update b t (ay_published y),
        ay_removalsPublished := ay_removalsPublished (noted_call fate now y) + 1\<rparr>"
      have "publish_removals remove now rs fates1 ?y (snd (remove b t s)) = (fates', y', s')"
        using "2.prems" send nf None by (simp add: Let_def)
      then obtain sent where h: "set sent \<subseteq> set rs" "s' = fold (\<lambda>(a, t). \<lambda>s. snd (remove a t s)) sent (snd (remove b t s))"
        "\<forall>a u. map_of (ay_published y') a = Some u \<longrightarrow> map_of (ay_published ?y) a = Some u \<or> (a, u) \<in> set sent"
        "fates1 = [] \<longrightarrow> fates' = [] \<and> (\<forall>a u. (a, u) \<in> set rs \<longrightarrow> (\<exists>q \<ge> u. map_of (ay_published ?y) a = Some q \<or> (a, q) \<in> set sent))"
        using "2.IH"(2) [OF send nf [symmetric] refl] None by (auto simp: noted_call_published)
      have p: "map_of (ay_published ?y) a = Some u \<Longrightarrow> map_of (ay_published y) a = Some u \<or> (a, u) \<in> set ((b, t) # sent)" for a u
        by (auto simp: update_conv' split: if_splits)
      have f1: "fates = [] \<Longrightarrow> fates1 = []" using nf by (simp add: next_fate_def)
      show ?thesis
      proof (intro exI [of _ "(b, t) # sent"] conjI allI impI)
        show "set ((b, t) # sent) \<subseteq> set ((b, t) # rs)" using h(1) by auto
        show "s' = fold (\<lambda>(a, t). \<lambda>s. snd (remove a t s)) ((b, t) # sent) s" using h(2) by simp
        show "map_of (ay_published y) a = Some u \<or> (a, u) \<in> set ((b, t) # sent)" if "map_of (ay_published y') a = Some u" for a u
          using that h(3) p by fastforce
        assume "fates = []"
        then have "fates' = []" and all: "\<forall>a u. (a, u) \<in> set rs \<longrightarrow> (\<exists>q \<ge> u. map_of (ay_published ?y) a = Some q \<or> (a, q) \<in> set sent)"
          using h(4) f1 by auto
        then show "fates' = []" by simp
        show "\<exists>q \<ge> u. map_of (ay_published y) a = Some q \<or> (a, q) \<in> set ((b, t) # sent)" if mem: "(a, u) \<in> set ((b, t) # rs)" for a u
        proof (cases "(a, u) = (b, t)")
          case False
          then obtain q where "q \<ge> u" "map_of (ay_published ?y) a = Some q \<or> (a, q) \<in> set sent" using all mem by auto
          then show ?thesis using p by auto
        qed (auto simp: update_conv' exI [of _ t])
      qed
    qed
  qed
qed simp

context account_registry
begin

lemma removes_run:
  assumes "registry_ok s" and "s' = fold (\<lambda>(a, t). \<lambda>s. snd (remove a t s)) sent s"
  shows "registry_ok s'"
    and "registry_event s' a = max_of (registry_event s a) (map (\<lambda>(b, t). if b = a then Removed_at t else Nothing_known) sent)"
    and "set (rg_records s') \<subseteq> set (rg_records s)"
    and "set (keys_of (rg_markers s')) \<subseteq> set (keys_of (rg_markers s)) \<union> set (map fst sent)"
proof -
  have "registry_ok s' \<and> registry_event s' a = max_of (registry_event s a) (map (\<lambda>(b, t). if b = a then Removed_at t else Nothing_known) sent)
    \<and> set (rg_records s') \<subseteq> set (rg_records s)
    \<and> set (keys_of (rg_markers s')) \<subseteq> set (keys_of (rg_markers s)) \<union> set (map fst sent)"
    using assms
  proof (induction sent arbitrary: s)
    case (Cons r sent)
    obtain b t where r: "r = (b, t)" by fastforce
    have ok: "registry_ok (snd (remove b t s))" using Cons.prems(1) by (rule remove_ok)
    have s': "s' = fold (\<lambda>(a, t). \<lambda>s. snd (remove a t s)) sent (snd (remove b t s))" using Cons.prems(2) r by simp
    note ih = Cons.IH [OF ok s']
    have "registry_event s' a = max_of (registry_event s a) (map (\<lambda>(b, t). if b = a then Removed_at t else Nothing_known) (r # sent))"
      using ih remove_event [OF Cons.prems(1), of b t a] by (auto simp: r)
    moreover have "set (rg_records s') \<subseteq> set (rg_records s)"
      using ih remove_sources [of b t s] by (meson order_trans)
    moreover have "set (keys_of (rg_markers s')) \<subseteq> insert b (set (keys_of (rg_markers s))) \<union> set (map fst sent)"
      using ih by (meson order_trans remove_markers Un_mono order_refl)
    then have "set (keys_of (rg_markers s')) \<subseteq> set (keys_of (rg_markers s)) \<union> set (map fst (r # sent))" by (simp add: r)
    ultimately show ?case using ih by blast
  qed simp
  then show "registry_ok s'"
    and "registry_event s' a = max_of (registry_event s a) (map (\<lambda>(b, t). if b = a then Removed_at t else Nothing_known) sent)"
    and "set (rg_records s') \<subseteq> set (rg_records s)"
    and "set (keys_of (rg_markers s')) \<subseteq> set (keys_of (rg_markers s)) \<union> set (map fst sent)"
    by blast+
qed

end

section \<open>What is pushed\<close>

lemma push_sent:
  assumes "push_records put registry now f cs fates y s = (y', s')"
  shows "\<exists>sent. set sent \<subseteq> {c \<in> set cs. grantedAfter (stamp_of c) (map_of (af_removals f) (sc_alias c))}
    \<and> s' = fold (\<lambda>c s. snd (put c s)) sent s \<and> ay_published y' = ay_published y
    \<and> (fates = [] \<longrightarrow> set sent = {c \<in> set cs. grantedAfter (stamp_of c) (map_of (af_removals f) (sc_alias c))})"
  using assms
proof (induction put registry now f cs fates y s rule: push_records.induct)
  case (2 put registry now f c cs fates y s)
  show ?case
  proof (cases "grantedAfter (stamp_of c) (map_of (af_removals f) (sc_alias c))")
    case False
    with "2.IH"(1) [OF False] "2.prems" show ?thesis by auto
  next
    case True
    obtain fate fates1 where nf: "next_fate fates = (fate, fates1)" by fastforce
    show ?thesis
    proof (cases fate)
      case (Some msg)
      then show ?thesis using "2.prems" True nf
        by (intro exI [of _ "if executed_anyway fate then [c] else []"]) (auto simp: Let_def next_fate_def split: list.splits)
    next
      case None
      obtain st s1 where st: "put c s = (st, s1)" by fastforce
      let ?y1 = "noted_call fate now y"
      let ?y = "if \<not> st then ?y1
        else if map_of registry (sc_alias c) = None then tell (Published (sc_alias c)) (?y1\<lparr>ay_pushed := ay_pushed ?y1 + 1\<rparr>)
        else ?y1\<lparr>ay_pushed := ay_pushed ?y1 + 1\<rparr>"
      have r: "push_records put registry now f cs fates1 ?y s1 = (y', s')"
        using "2.prems" True nf None st by (simp add: Let_def split del: if_split cong: if_cong)
      have pub: "ay_published ?y = ay_published y" by simp
      obtain sent where h: "set sent \<subseteq> {c \<in> set cs. grantedAfter (stamp_of c) (map_of (af_removals f) (sc_alias c))}"
        "s' = fold (\<lambda>c s. snd (put c s)) sent s1" "ay_published y' = ay_published ?y"
        "fates1 = [] \<longrightarrow> set sent = {c \<in> set cs. grantedAfter (stamp_of c) (map_of (af_removals f) (sc_alias c))}"
        using "2.IH"(2) [OF _ refl nf [symmetric] refl _ refl st [symmetric] refl r] True None by auto
      have f1: "fates = [] \<Longrightarrow> fates1 = []" using nf by (simp add: next_fate_def)
      have "set (c # sent) \<subseteq> {d \<in> set (c # cs). grantedAfter (stamp_of d) (map_of (af_removals f) (sc_alias d))}"
        using h(1) True by auto
      moreover have "s' = fold (\<lambda>c s. snd (put c s)) (c # sent) s" using h(2) st by simp
      moreover have "fates = [] \<longrightarrow>
          set (c # sent) = {d \<in> set (c # cs). grantedAfter (stamp_of d) (map_of (af_removals f) (sc_alias d))}"
        using h(4) f1 True by auto
      ultimately show ?thesis using h(3) pub by (intro exI [of _ "c # sent"]) simp
    qed
  qed
qed simp

text \<open>What the second part does to an alias, on whatever files it finds.\<close>

lemma end_push:
  assumes plan: "planned_from loc lr p" and e: "sync_end put differ live now u fates p f y s = (ch, f', y', s')"
  shows "\<exists>sent. s' = fold (\<lambda>c s. snd (put c s)) sent s \<and> ay_published y' = ay_published (wk_sync
        (fold (apply_save differ (pe_fetchedAt p)) (sp_save (pe_plan p))
          (fold (apply_remove u) (sp_remove (pe_plan p)) \<lparr>wk_files = f, wk_kept = pe_kept p, wk_removed = [], wk_sync = y\<rparr>)))
    \<and> (\<forall>c \<in> set sent. planned_push loc p lr (sc_alias c) = Some c \<and> grantedAfter (stamp_of c) (map_of (af_removals f) (sc_alias c)))
    \<and> (fates = [] \<longrightarrow> (\<forall>a c. planned_push loc p lr a = Some c \<longrightarrow> grantedAfter (stamp_of c) (map_of (af_removals f) a) \<longrightarrow> c \<in> set sent))"
proof -
  let ?w = "fold (apply_save differ (pe_fetchedAt p)) (sp_save (pe_plan p))
    (fold (apply_remove u) (sp_remove (pe_plan p)) \<lparr>wk_files = f, wk_kept = pe_kept p, wk_removed = [], wk_sync = y\<rparr>)"
  have r: "push_records put (pe_registry p) now f' (sp_push (pe_plan p)) fates (wk_sync ?w) s = (y', s')" "f' = wk_files ?w"
    using e by (auto simp: sync_end_def Let_def split: prod.splits)
  have rem: "af_removals f' = af_removals f" using end_files [OF plan e, of "''''"] by blast
  obtain sent where h: "set sent \<subseteq> {c \<in> set (sp_push (pe_plan p)). grantedAfter (stamp_of c) (map_of (af_removals f) (sc_alias c))}"
    "s' = fold (\<lambda>c s. snd (put c s)) sent s" "ay_published y' = ay_published (wk_sync ?w)"
    "fates = [] \<longrightarrow> set sent = {c \<in> set (sp_push (pe_plan p)). grantedAfter (stamp_of c) (map_of (af_removals f) (sc_alias c))}"
    using push_sent [OF r(1)] unfolding rem by blast
  have inp: "c \<in> set (sp_push (pe_plan p)) \<longleftrightarrow> planned_push loc p lr (sc_alias c) = Some c" for c
  proof
    assume "c \<in> set (sp_push (pe_plan p))"
    then obtain a where a: "planned_push loc p lr a = Some c" unfolding planned_lists(3) [OF plan] map_filter_set by auto
    with planned_push_alias [OF a] show "planned_push loc p lr (sc_alias c) = Some c" by simp
  next
    assume c: "planned_push loc p lr (sc_alias c) = Some c"
    then have "sc_alias c \<in> set (plan_keys (keys_of (by_alias loc)) (keys_of (pe_registry p)))"
      using outside_plan(3) by (metis option.distinct(1))
    with c show "c \<in> set (sp_push (pe_plan p))" unfolding planned_lists(3) [OF plan] map_filter_set by auto
  qed
  have "c \<in> set sent" if "fates = []" "planned_push loc p lr a = Some c" "grantedAfter (stamp_of c) (map_of (af_removals f) a)" for a c
    using h(4) that inp planned_push_alias [OF that(2)] by auto
  then show ?thesis using h(1,2,3) inp by (intro exI [of _ sent]) auto
qed

lemma wk_sync_published:
  "ay_published (wk_sync (fold (apply_remove u) rs w)) = ay_published (wk_sync w)"
  "ay_published (wk_sync (fold (apply_save differ ft) es w)) = ay_published (wk_sync w)"
proof (induction rs arbitrary: w)
  case Nil
  { case 1 show ?case by simp }
  { case 2 show ?case
    proof (induction es arbitrary: w)
      case (Cons e es)
      have "ay_published (wk_sync (apply_save differ ft e w)) = ay_published (wk_sync w)"
        by (auto simp: apply_save_def Let_def split: prod.splits option.splits)
      with Cons show ?case by simp
    qed simp }
next
  case (Cons r rs)
  { case 1
    have "ay_published (wk_sync (apply_remove u r w)) = ay_published (wk_sync w)"
      by (auto simp: apply_remove_def Let_def split: prod.splits)
    with Cons(1) show ?case by simp }
  { case 2 show ?case by (rule Cons(2)) }
qed

section \<open>Both parts, in events\<close>

definition registry_fit :: "'r registry \<Rightarrow> bool" where
  "registry_fit s \<longleftrightarrow> registry_ok s \<and> (\<forall>(a, c) \<in> set (rg_records s). isRegistryRecord a c)
     \<and> (\<forall>a \<in> set (keys_of (rg_markers s)). isValidAccountAlias a)"

definition published_ok :: "account_sync \<Rightarrow> 'r registry \<Rightarrow> bool" where
  "published_ok y s \<longleftrightarrow> (\<forall>a t. map_of (ay_published y) a = Some t \<longrightarrow> Removed_at t \<le> registry_event s a)"

text \<open>The pending sync \<open>p\<close> was planned for the files \<open>f\<close> on what the registry \<open>s\<close> held.\<close>

definition read_from :: "'r pending_sync \<Rightarrow> 'r account_files \<Rightarrow> 'r registry \<Rightarrow> bool" where
  "read_from p f s \<longleftrightarrow> planned_from (loadAllAccounts f) (af_removals f) p
     \<and> (\<forall>a. map_of (pe_registry p) a = map_of (rg_records s) a \<and> map_of (pe_markers p) a = map_of (rg_markers s) a)"

lemma fit_record: "registry_fit s \<Longrightarrow> map_of (rg_records s) a = Some c \<Longrightarrow> isRegistryRecord a c \<and> dated c"
  using map_of_SomeD stored_dated by (fastforce simp: registry_fit_def)

lemma fit_marker: "registry_fit s \<Longrightarrow> map_of (rg_markers s) a = Some t \<Longrightarrow> isValidAccountAlias a"
  using map_of_SomeD by (fastforce simp: registry_fit_def)

lemma snapshot_reads:
  assumes "registry_fit s"
    and "pe_registry p = parseRegistry isRegistryRecord (rg_records s)" "pe_markers p = parseMarkers (rg_markers s)"
    and "pe_plan p = planAccountSync (loadAllAccounts f) (pe_registry p) (pe_markers p) (af_removals f)"
  shows "read_from p f s"
proof -
  have wf: "map_wf (rg_records s)" "map_wf (rg_markers s)" using assms(1) by (auto simp: registry_fit_def registry_ok_def records_ok_def)
  have r: "map_of (pe_registry p) a = map_of (rg_records s) a" for a
    unfolding assms(2) map_of_parse [OF wf(1)] using fit_record [OF assms(1)] by (auto split: option.split)
  have m: "map_of (pe_markers p) a = map_of (rg_markers s) a" for a
    unfolding assms(3) map_of_parseMarkers [OF wf(2)] using fit_marker [OF assms(1), of a] by (cases "map_of (rg_markers s) a") auto
  have "map_wf (pe_registry p)" unfolding assms(2) by (rule wf_parse [OF wf(1)])
  then show ?thesis
    using r m fit_record [OF assms(1)] assms(4) by (auto simp: read_from_def planned_from_def)
qed

context account_registry
begin

lemma begin_effect:
  assumes f: "files_ok f" and s: "registry_fit s" and y: "published_ok y s"
    and b: "sync_begin remove isRegistryRecord now fates f y s = (po, y', s')"
  shows "registry_fit s' \<and> published_ok y' s'
    \<and> (\<forall>a. registry_event s a \<le> registry_event s' a \<and> registry_event s' a \<le> max (registry_event s a) (removed_event (af_removals f) a))
    \<and> (fates = [] \<longrightarrow> po \<noteq> None \<and> (\<forall>a. removed_event (af_removals f) a \<le> registry_event s' a))
    \<and> (\<forall>p. po = Some p \<longrightarrow> read_from p f s' \<and> pe_fetchedAt p = now)"
proof -
  obtain fates1 y1 s1 where p: "publish_removals remove now (af_removals f) fates (y\<lparr>ay_lastSyncAt := Some now\<rparr>) s = (fates1, y1, s1)"
    by (metis prod_cases3)
  from publish_sent [OF p] obtain sent where h: "set sent \<subseteq> set (af_removals f)" "s1 = fold (\<lambda>(a, t). \<lambda>s. snd (remove a t s)) sent s"
    "\<forall>a t. map_of (ay_published y1) a = Some t \<longrightarrow> map_of (ay_published y) a = Some t \<or> (a, t) \<in> set sent"
    "fates = [] \<longrightarrow> fates1 = [] \<and> (\<forall>a t. (a, t) \<in> set (af_removals f) \<longrightarrow> (\<exists>q \<ge> t. map_of (ay_published y) a = Some q \<or> (a, q) \<in> set sent))"
    by auto
  note run = removes_run [OF _ h(2)]
  have ok: "registry_ok s" using s by (simp add: registry_fit_def)
  have wfr: "map_wf (af_removals f)" using f by (simp add: files_ok_def)
  have in_sent: "removed_event (af_removals f) a = Removed_at t" if "(a, t) \<in> set sent" for a t
    using that h(1) map_wf_map_of [OF wfr] by (auto simp: removed_event_def)
  have s': "s' = s1" using b p by (auto simp: sync_begin_def Let_def split: prod.splits if_splits)
  have lower: "registry_event s a \<le> registry_event s1 a" for a
    unfolding run(2) [OF ok] by (rule max_of_upper) simp
  have upper: "registry_event s1 a \<le> max (registry_event s a) (removed_event (af_removals f) a)" for a
    unfolding run(2) [OF ok] max_of_le_iff using in_sent by fastforce
  have sent_le: "(a, t) \<in> set sent \<Longrightarrow> Removed_at t \<le> registry_event s1 a" for a t
    unfolding run(2) [OF ok] by (rule max_of_upper) force
  have old_le: "map_of (ay_published y) a = Some t \<Longrightarrow> Removed_at t \<le> registry_event s1 a" for a t
    using y lower [of a] unfolding published_ok_def by (blast intro: order_trans)
  have fit: "registry_fit s1"
  proof -
    have "isValidAccountAlias a" if "(a, t) \<in> set sent" for a t
      using that h(1) f map_wf_map_of [OF wfr] unfolding files_ok_def by blast
    then have "\<forall>a \<in> set (map fst sent). isValidAccountAlias a" by auto
    then show ?thesis using s run(1,3,4) [OF ok] unfolding registry_fit_def by blast
  qed
  have pub: "published_ok y1 s1"
    unfolding published_ok_def using h(3) old_le sent_le by blast
  have y': "ay_published y' = ay_published y1" using b p by (auto simp: sync_begin_def Let_def split: prod.splits if_splits)
  have full: "po \<noteq> None \<and> (\<forall>a. removed_event (af_removals f) a \<le> registry_event s' a)" if f0: "fates = []"
  proof
    have "next_fate fates1 = (None, [])" using f0 h(4) by (simp add: next_fate_def)
    then show "po \<noteq> None" using b p by (auto simp: sync_begin_def Let_def)
    show "\<forall>a. removed_event (af_removals f) a \<le> registry_event s' a"
    proof
      fix a
      show "removed_event (af_removals f) a \<le> registry_event s' a"
      proof (cases "map_of (af_removals f) a")
        case (Some t)
        then have "(a, t) \<in> set (af_removals f)" by (rule map_of_SomeD)
        then obtain q where q: "q \<ge> t" "map_of (ay_published y) a = Some q \<or> (a, q) \<in> set sent"
          using h(4) f0 by blast
        then have "Removed_at q \<le> registry_event s' a"
          using old_le sent_le unfolding s' by blast
        moreover have "Removed_at t \<le> Removed_at q" using q by simp
        ultimately have "Removed_at t \<le> registry_event s' a" by (rule order_trans [rotated])
        then show ?thesis by (simp add: removed_event_def Some)
      qed (simp add: removed_event_def)
    qed
  qed
  have reads: "read_from p f s' \<and> pe_fetchedAt p = now" if "po = Some p" for p
  proof
    show "read_from p f s'"
      by (rule snapshot_reads [OF fit [folded s']])
        (use that b p in \<open>auto simp: sync_begin_def Let_def s' split: prod.splits if_splits\<close>)
    show "pe_fetchedAt p = now" using that b by (auto simp: sync_begin_def Let_def split: prod.splits if_splits)
  qed
  show ?thesis
    using fit pub lower upper full reads y' by (simp add: s' published_ok_def)
qed

end

lemma end_files_cases:
  assumes plan: "planned_from loc lr p" and e: "sync_end put differ live now u fates p f y s = (ch, f', y', s')"
    and f: "files_ok f" and r: "r = removalTime a (pe_markers p) lr"
  shows "map_of (af_files f') a = map_of (af_files f) a
    \<or> (\<exists>c. map_of (af_files f') a = Some c \<and> map_of (pe_registry p) a = Some c
        \<and> (\<forall>t. map_of (af_removals f) a = Some t \<longrightarrow> t < pe_fetchedAt p)
        \<and> (\<forall>d. map_of (af_files f) a = Some d \<longrightarrow>
             credentialsAreNewer (stamp_of c) (stamp_of d) \<or> \<not> grantedAfter (stamp_of d) r))
    \<or> map_of (af_files f') a = None \<and> (\<exists>d. map_of (af_files f) a = Some d \<and> \<not> grantedAfter (stamp_of d) r)"
proof (cases "planned_save loc p lr a")
  case (Some e')
  obtain c q where cq: "e' = (c, q)" by fastforce
  have al: "sc_alias c = a" using planned_save_alias [OF plan Some] cq by simp
  have c: "map_of (pe_registry p) a = Some c" "q = r"
    using Some cq r by (auto simp: planned_save_def save_entry_def counts_def split: if_splits option.splits)
  show ?thesis
    using end_files [OF plan e, of a] Some cq c al
    by (auto simp: save_allowed_def loadAccount_file [OF f])
next
  case None
  have "planned_remove loc p lr a = Some (a, t) \<Longrightarrow> r = Some t" for t
    using r by (auto simp: planned_remove_def remove_entry_def split: if_splits)
  then show ?thesis
    using end_files [OF plan e, of a] None by (auto simp: remove_allowed_def loadAccount_file [OF f])
qed

text \<open>The backends the repository ships.\<close>

definition reference_backend ::
  "('r cred \<Rightarrow> 'r registry \<Rightarrow> bool \<times> 'r registry) \<Rightarrow> (string \<Rightarrow> ms \<Rightarrow> 'r registry \<Rightarrow> bool \<times> 'r registry) \<Rightarrow> bool" where
  "reference_backend put remove \<longleftrightarrow> put = redis_put \<and> remove = redis_remove \<or> put = worker_put \<and> remove = worker_remove"

lemma reference_registry: "reference_backend put remove \<Longrightarrow> account_registry put remove"
  using redis.account_registry_axioms worker.account_registry_axioms unfolding reference_backend_def by blast

text \<open>
  C13. A sync never takes back what happened while it ran. Between its two parts logins and removals of this process,
  and anything on the registry, may go on. When it then writes a file, the record comes from the registry as
  read, no removal made here since forbids it, and the file it replaces is older or removed; when it deletes a
  file, that file's grant is covered by the removal as read; and it pushes only records it read here itself
  that outlive every removal made here by then.
\<close>

theorem sync_keeps_later_work:
  assumes "reference_backend put remove"
    and "files_ok f0" "registry_fit s0" "published_ok y0 s0"
    and "sync_begin remove isRegistryRecord now0 fates0 f0 y0 s0 = (Some p, y1, s1)"
    and "files_ok f" and "sync_end put differ live now unlinks fates p f y s = (ch, f', y', s')"
    and "r = removalTime a (rg_markers s1) (af_removals f0)"
  shows "(map_of (af_files f') a = map_of (af_files f) a
    \<or> (\<exists>c. map_of (af_files f') a = Some c \<and> map_of (rg_records s1) a = Some c
        \<and> (\<forall>t. map_of (af_removals f) a = Some t \<longrightarrow> t < now0)
        \<and> (\<forall>d. map_of (af_files f) a = Some d \<longrightarrow>
             credentialsAreNewer (stamp_of c) (stamp_of d) \<or> \<not> grantedAfter (stamp_of d) r))
    \<or> map_of (af_files f') a = None \<and> (\<exists>d. map_of (af_files f) a = Some d \<and> \<not> grantedAfter (stamp_of d) r))
    \<and> (\<exists>sent. s' = fold (\<lambda>c s. snd (put c s)) sent s
        \<and> (\<forall>c \<in> set sent. map_of (af_files f0) (sc_alias c) = Some c
             \<and> grantedAfter (stamp_of c) (map_of (af_removals f) (sc_alias c))))"
proof -
  have p: "read_from p f0 s1" "pe_fetchedAt p = now0"
    using account_registry.begin_effect [OF reference_registry [OF assms(1)] assms(2-5)] by auto
  have plan: "planned_from (loadAllAccounts f0) (af_removals f0) p" using p(1) by (simp add: read_from_def)
  have r: "r = removalTime a (pe_markers p) (af_removals f0)" using p(1) assms(8) by (simp add: read_from_def removalTime_def)
  have mine: "planned_push (loadAllAccounts f0) p (af_removals f0) (sc_alias c) = Some c \<Longrightarrow> map_of (af_files f0) (sc_alias c) = Some c" for c
    by (auto simp: planned_push_def push_entry_def by_alias_loaded [OF assms(2)] split: if_splits)
  show ?thesis
    using end_files_cases [OF plan assms(7,6) r] end_push [OF plan assms(7)] mine p by (auto simp: read_from_def)
qed

definition sample_files :: "unit account_files" where
  "sample_files = \<lparr>af_files = [(''a'', sample_cred ''a'' ''mine'' (Some 10) 99), (''b'', sample_cred ''b'' ''kept'' (Some 35) 80)],
     af_removals = [(''c'', 20)]\<rparr>"

definition sample_registry :: "unit registry" where
  "sample_registry = \<lparr>rg_records = [(''a'', sample_cred ''a'' ''theirs'' (Some 30) 90), (''c'', sample_cred ''c'' ''old'' (Some 15) 70)],
     rg_markers = [(''b'', 25)]\<rparr>"

definition sample_begin :: "unit pending_sync option \<times> account_sync \<times> unit registry" where
  "sample_begin = sync_begin redis_remove isRegistryRecord 40 [] sample_files (new_account_sync None) sample_registry"

definition sample_end :: "unit sync_change \<times> unit account_files \<times> account_sync \<times> unit registry" where
  "sample_end = sync_end redis_put (\<lambda>_ _. False) None 41 True [] (the (fst sample_begin)) sample_files (fst (snd sample_begin)) (snd (snd sample_begin))"

lemma sample_aliases [simp]: "isValidAccountAlias ''a''" "isValidAccountAlias ''b''" "isValidAccountAlias ''c''"
  by code_simp+

lemma sample_ok: "files_ok sample_files" "registry_fit sample_registry" "published_ok (new_account_sync None) sample_registry"
  by (auto simp: files_ok_def registry_fit_def registry_ok_def records_ok_def published_ok_def sample_files_def sample_registry_def
      sample_cred_def map_wf_def isRegistryRecord_def dated_def new_account_sync_def split: if_splits)

theorem sync_keeps_later_work_witness:
  "map_of (af_files (fst (snd sample_end))) ''a'' = Some (sample_cred ''a'' ''theirs'' (Some 30) 90)
    \<and> (\<exists>sent. snd (snd (snd sample_end)) = fold (\<lambda>c s. snd (redis_put c s)) sent (snd (snd sample_begin))
        \<and> list_all (\<lambda>c. map_of (af_files sample_files) (sc_alias c) = Some c) sent)"
proof -
  have "fst sample_begin \<noteq> None" by code_simp
  then obtain p where "fst sample_begin = Some p" by blast
  then obtain y1 s1 where b: "sample_begin = (Some p, y1, s1)" by (metis prod.collapse)
  obtain ch f' y' s' where e: "sample_end = (ch, f', y', s')" by (cases sample_end)
  have bk: "reference_backend (redis_put :: unit cred \<Rightarrow> _) redis_remove" by (simp add: reference_backend_def)
  have e': "sync_end redis_put (\<lambda>_ _. False) None 41 True [] p sample_files y1 s1 = (ch, f', y', s')"
    using e unfolding sample_end_def b by simp
  have "map_of (af_files (fst (snd sample_end))) ''a'' = Some (sample_cred ''a'' ''theirs'' (Some 30) 90)" by code_simp
  then show ?thesis
    using sync_keeps_later_work [OF bk sample_ok b [unfolded sample_begin_def] sample_ok(1) e' refl, of "''a''"]
    unfolding e b list_all_iff by auto
qed

section \<open>Removing an account everywhere\<close>

lemma reference_remove: "reference_backend put remove \<Longrightarrow> remove = redis_remove"
  by (auto simp: reference_backend_def worker_remove_redis fun_eq_iff)

lemma find_loaded:
  assumes "files_ok f"
  shows "List.find (\<lambda>c. sc_alias c = a) (loadAllAccounts f) = map_of (af_files f) a"
proof (cases "map_of (af_files f) a")
  case None
  then have "\<not> (\<exists>c \<in> set (loadAllAccounts f). sc_alias c = a)"
    using assms files_okD(1) by (fastforce simp: loadAll_set)
  then show ?thesis using None by (simp add: find_None_iff)
next
  case (Some c)
  then have "c \<in> set (loadAllAccounts f) \<and> sc_alias c = a" using assms files_okD(1) by (fastforce simp: loadAll_set)
  then obtain d where d: "List.find (\<lambda>c. sc_alias c = a) (loadAllAccounts f) = Some d"
    by (metis (mono_tags, lifting) find_None_iff option.exhaust)
  then have "d \<in> set (loadAllAccounts f) \<and> sc_alias d = a" by (metis (mono_tags, lifting) find_Some_iff nth_mem)
  then have "map_of (af_files f) a = Some d" using assms files_okD(1) by (fastforce simp: loadAll_set)
  then show ?thesis using d by simp
qed

lemma redis_remove_outcome:
  assumes "registry_ok s" and "redis_remove a t s = (taken, s')"
  shows "\<not> taken \<and> s' = s \<and> Removed_at t < held_event (rg_records s) a
    \<or> taken \<and> Removed_at t \<le> removed_event (rg_markers s') a \<and> map_of (rg_records s') a = None"
proof (cases "\<exists>g e. registry_event s a = Granted g e \<and> t < g")
  case True
  then show ?thesis
    using assms by (auto simp: redis_remove_spec registry_event_cases held_event_def split: option.splits)
next
  case False
  then have "taken" "s' = marked a t s" using assms(2) unfolding redis_remove_spec [OF assms(1)] if_not_P [OF False] by simp_all
  then show ?thesis
    by (auto simp: marked_def removed_event_def update_conv' delete_conv' split: option.split)
qed

text \<open>
  C36. What \<open>dario accounts remove\<close> reports is so. If the service does not answer, the files are as they were, and the
  registry is as it was unless the service had taken the call before the answer was lost: then it has the removal, or a
  newer login. Where a newer login on the registry is reported nothing has changed, and a newer login in the file is
  really there and untouched, the registry having the removal; an account reported as removed has no
  file, and the registry has the removal, so that no instance brings it back; a file is only reported as failed
  when the removal covers it and the file system refused. No other account is affected.
\<close>

theorem removal_result_honest:
  assumes "reference_backend put remove" and "files_ok f" and "registry_ok s"
    and run: "removeAccountEverywhere remove a t unlinks fate f s = (res, f', s')"
  shows "(case res of
       Inl msg \<Rightarrow> f' = f \<and> (fate = Some (msg, False) \<and> s' = s
         \<or> fate = Some (msg, True) \<and> (s' = s \<and> Removed_at t < held_event (rg_records s) a
              \<or> map_of (rg_records s') a = None \<and> Removed_at t \<le> removed_event (rg_markers s') a))
     | Inr Registry_newer \<Rightarrow> f' = f \<and> s' = s \<and> Removed_at t < held_event (rg_records s) a
     | Inr Removed_everywhere \<Rightarrow> map_of (af_files f') a = None \<and> map_of (rg_records s') a = None
         \<and> Removed_at t \<le> removed_event (rg_markers s') a
     | Inr Local_newer \<Rightarrow> f' = f \<and> Removed_at t \<le> removed_event (rg_markers s') a \<and> Removed_at t < held_event (af_files f) a
     | Inr Local_failed \<Rightarrow> f' = f \<and> Removed_at t \<le> removed_event (rg_markers s') a \<and> \<not> unlinks
         \<and> map_of (af_files f) a \<noteq> None \<and> held_event (af_files f) a < Removed_at t)
    \<and> (\<forall>b. b \<noteq> a \<longrightarrow> map_of (af_files f') b = map_of (af_files f) b \<and> registry_event s' b = registry_event s b)"
proof -
  obtain taken s1 where r: "remove a t s = (taken, s1)" by (cases "remove a t s")
  then have rr: "redis_remove a t s = (taken, s1)" using reference_remove [OF assms(1)] by simp
  note out = redis_remove_outcome [OF assms(3) rr]
  have others: "b \<noteq> a \<Longrightarrow> registry_event s1 b = registry_event s b" for b
    using redis.remove_event [OF assms(3), of a t b] rr by simp
  consider (failed) msg e where "fate = Some (msg, e)" | (absent) "fate = None" "map_of (af_files f) a = None"
    | (present) c where "fate = None" "map_of (af_files f) a = Some c" by fastforce
  then show ?thesis
  proof cases
    case failed
    then show ?thesis using run r out others by (auto simp: removeAccountEverywhere_def split: if_splits)
  next
    case absent
    then show ?thesis
      using run r out others
      by (auto simp: removeAccountEverywhere_def removeShared_eq remove_allowed_def loadAccount_file [OF assms(2)] find_loaded [OF assms(2)]
          split: if_splits option.splits)
  next
    case (present c)
    then have d: "held_event (af_files f) a = grant_event c" "grantedAfter (stamp_of c) (Some t) \<longleftrightarrow> Removed_at t < grant_event c"
      using files_okD(4) [OF assms(2)] by (auto simp: held_event_def after_iff)
    have ne: "grant_event c \<noteq> Removed_at t" by (simp add: grant_event_def split: option.split)
    show ?thesis
      using run r out others present d ne
      by (auto simp: removeAccountEverywhere_def removeShared_eq remove_allowed_def loadAccount_file [OF assms(2)] find_loaded [OF assms(2)]
          not_less delete_conv' split: if_splits)
  qed
qed

theorem removal_result_honest_witness:
  "map_of (af_files (fst (snd (removeAccountEverywhere worker_remove ''b'' 36 True None sample_files sample_registry)))) ''b'' = None
    \<and> removed_event (rg_markers (snd (snd (removeAccountEverywhere worker_remove ''b'' 36 True None sample_files sample_registry)))) ''b''
        \<ge> Removed_at 36"
proof -
  let ?r = "removeAccountEverywhere worker_remove ''b'' 36 True None sample_files sample_registry"
  have b: "reference_backend (worker_put :: unit cred \<Rightarrow> _) worker_remove" by (simp add: reference_backend_def)
  have s: "registry_ok sample_registry" using sample_ok(2) by (simp add: registry_fit_def)
  have "?r = (fst ?r, fst (snd ?r), snd (snd ?r))" by simp
  moreover have "fst ?r = Inr Removed_everywhere" by code_simp
  ultimately show ?thesis using removal_result_honest [OF b sample_ok(1) s, of "''b''" 36 True None] by fastforce
qed

section \<open>Both parts of one sync, in events\<close>

definition alive :: "account_event \<Rightarrow> account_event" where
  "alive x = (case x of Granted g e \<Rightarrow> x | _ \<Rightarrow> Nothing_known)"

lemma alive_simps [simp]: "alive Nothing_known = Nothing_known" "alive (Granted g e) = Granted g e" "alive (Removed_at t) = Nothing_known"
  by (simp_all add: alive_def)

lemma alive_grant: "dated c \<Longrightarrow> alive (grant_event c) = grant_event c \<and> grant_event c \<noteq> Nothing_known"
  using dated_event by fastforce

definition time_event :: "ms option \<Rightarrow> account_event" where
  "time_event r = (case r of Some t \<Rightarrow> Removed_at t | None \<Rightarrow> Nothing_known)"

lemma time_event_simps [simp]: "time_event None = Nothing_known" "time_event (Some t) = Removed_at t"
  by (simp_all add: time_event_def)

lemma alive_time [simp]: "alive (time_event r) = Nothing_known"
  by (cases r) simp_all

lemma removal_event: "time_event (removalTime a m l) = max (removed_event m a) (removed_event l a)"
  by (auto simp: removalTime_def removed_event_def max_def split: option.split)

lemma after_event: "dated c \<Longrightarrow> grantedAfter (stamp_of c) r \<longleftrightarrow> time_event r < grant_event c"
  by (cases r) (auto simp: after_iff alive_grant)

lemma counts_event: "(\<forall>c. x = Some c \<longrightarrow> dated c) \<Longrightarrow>
    counts x r \<longleftrightarrow> time_event r < (case x of Some c \<Rightarrow> grant_event c | None \<Rightarrow> Nothing_known)"
  by (cases x) (auto simp: counts_def after_event)

lemma end_held:
  assumes rd: "read_from p f s1" and f: "files_ok f" and s1: "registry_fit s1"
    and clock: "\<forall>t. map_of (af_removals f) a = Some t \<longrightarrow> t < pe_fetchedAt p"
    and e: "sync_end put differ live now u fates p f y s = (ch, f', y', s')"
  defines "D \<equiv> held_event (af_files f) a"
  defines "J \<equiv> max D (max (removed_event (af_removals f) a) (registry_event s1 a))"
  shows "held_event (af_files f') a = (if u then alive J else held_event (af_files f') a)
    \<and> (held_event (af_files f') a = D \<or> held_event (af_files f') a = alive J)"
proof -
  let ?loc = "loadAllAccounts f" and ?r = "removalTime a (rg_markers s1) (af_removals f)"
  have plan: "planned_from ?loc (af_removals f) p" using rd by (simp add: read_from_def)
  have m: "map_of (by_alias ?loc) a = map_of (af_files f) a" by (rule by_alias_loaded [OF f])
  have reg: "map_of (pe_registry p) a = map_of (rg_records s1) a" "removalTime a (pe_markers p) (af_removals f) = ?r"
    using rd by (simp_all add: read_from_def removalTime_def)
  have dm: "map_of (af_files f) a = Some c \<Longrightarrow> dated c" for c using files_okD(4) [OF f] by blast
  have dt: "map_of (rg_records s1) a = Some c \<Longrightarrow> dated c \<and> isRegistryRecord a c" for c using fit_record [OF s1] by blast
  define T where "T = held_event (rg_records s1) a"
  define V where "V = time_event ?r"
  have J: "J = max D (max V T)"
    by (simp add: J_def V_def removal_event registry_event_def T_def max.assoc max.left_commute max.commute)
  have cm: "counts (map_of (af_files f) a) ?r \<longleftrightarrow> V < D"
    using counts_event [of "map_of (af_files f) a" ?r] dm by (simp add: V_def D_def held_event_def)
  have ct: "counts (map_of (rg_records s1) a) ?r \<longleftrightarrow> V < T"
    using counts_event [of "map_of (rg_records s1) a" ?r] dt by (simp add: V_def T_def held_event_def)
  note fl = end_files [OF plan e, of a, THEN conjunct2]
  show ?thesis
  proof (cases "planned_save ?loc p (af_removals f) a")
    case (Some q)
    have se: "save_entry (map_of (af_files f) a) (map_of (rg_records s1) a) ?r = Some q"
      using Some by (simp add: planned_save_def m reg)
    then obtain c where c: "map_of (rg_records s1) a = Some c" "q = (c, ?r)" and vt: "V < T"
      and o: "\<not> V < D \<or> credentialsAreNewer (stamp_of c) (stamp_of (the (map_of (af_files f) a)))"
      using cm ct by (cases "map_of (rg_records s1) a") (auto simp: save_entry_def counts_def split: if_splits)
    have ca: "sc_alias c = a" "isValidAccountAlias a" "dated c" using dt [OF c(1)] by (auto simp: isRegistryRecord_def)
    have T: "T = grant_event c" by (simp add: T_def held_event_def c)
    have newer: "grantedAfter (stamp_of d) ?r \<Longrightarrow> credentialsAreNewer (stamp_of c) (stamp_of d)"
      if "map_of (af_files f) a = Some d" for d
      using o that after_event [OF dm [OF that], of ?r] by (simp add: V_def D_def held_event_def)
    have ok: "save_allowed c (pe_fetchedAt p) ?r f"
      using clock newer ca by (auto simp: save_allowed_def loadAccount_file [OF f])
    have D: "D \<le> T"
    proof (cases "V < D")
      case True
      then obtain d where d: "map_of (af_files f) a = Some d" unfolding D_def held_event_def by (cases "map_of (af_files f) a") auto
      then show ?thesis using o True newer_iff [OF ca(3) dm [OF d]] by (simp add: T D_def held_event_def d)
    qed (use vt in simp)
    have "map_of (af_files f') a = Some c" using fl Some c(2) ok by simp
    then have "held_event (af_files f') a = T" by (simp add: held_event_def T)
    moreover have "alive J = T" using D less_imp_le [OF vt] alive_grant [OF ca(3)] by (simp add: J T max_absorb2)
    ultimately show ?thesis by simp
  next
    case None
    have se: "save_entry (map_of (af_files f) a) (map_of (rg_records s1) a) ?r = None"
      using None by (simp add: planned_save_def m reg)
    show ?thesis
    proof (cases "V < D")
      case True
      then obtain d where d: "map_of (af_files f) a = Some d" unfolding D_def held_event_def by (cases "map_of (af_files f) a") auto
      have nr: "planned_remove ?loc p (af_removals f) a = None" using True cm by (simp add: planned_remove_def m reg remove_entry_def)
      have "T \<le> D"
      proof (cases "V < T")
        case vt: True
        then obtain c where c: "map_of (rg_records s1) a = Some c" unfolding T_def held_event_def by (cases "map_of (rg_records s1) a") auto
        then have "\<not> credentialsAreNewer (stamp_of c) (stamp_of d)" using se vt ct cm True d by (simp add: save_entry_def split: if_splits)
        then show ?thesis using newer_iff [OF _ dm [OF d], of c] dt [OF c] by (simp add: T_def D_def held_event_def c d)
      qed (use True in simp)
      then have "J = D" using less_imp_le [OF True] by (simp add: J max_absorb1)
      then have "alive J = D" using alive_grant [OF dm [OF d]] by (simp add: D_def held_event_def d)
      moreover have "held_event (af_files f') a = D" using fl None nr by (simp add: held_event_def D_def)
      ultimately show ?thesis by simp
    next
      case cov: False
      have nt: "\<not> V < T"
        using se ct cm cov by (auto simp: save_entry_def split: if_splits)
      then have "J = V" using cov by (simp add: J not_less max_absorb1 max_absorb2)
      then have j: "alive J = Nothing_known" by (simp add: V_def)
      show ?thesis
      proof (cases "map_of (af_files f) a")
        case None2: None
        then have "planned_remove ?loc p (af_removals f) a = None" by (simp add: planned_remove_def m reg remove_entry_def)
        then have "held_event (af_files f') a = D" using fl None by (simp add: held_event_def D_def)
        moreover have "D = Nothing_known" by (simp add: D_def held_event_def None2)
        ultimately show ?thesis using j by simp
      next
        case (Some d)
        have "\<exists>t. ?r = Some t"
          using cov alive_grant [OF dm [OF Some]] by (cases ?r) (simp_all add: V_def D_def held_event_def Some)
        then obtain t where t: "?r = Some t" by blast
        have pr: "planned_remove ?loc p (af_removals f) a = Some (a, t)"
          using nt cov ct cm t by (simp add: planned_remove_def m reg remove_entry_def Some)
        have "\<not> grantedAfter (stamp_of d) (Some t)"
          using cov after_event [OF dm [OF Some], of ?r] by (simp add: V_def D_def held_event_def Some t)
        then have al: "remove_allowed a t u f \<longleftrightarrow> u" by (simp add: remove_allowed_def loadAccount_file [OF f] Some)
        show ?thesis using fl None pr al j by (cases u) (simp_all add: held_event_def D_def)
      qed
    qed
  qed
qed

lemma map_wf_apply:
  "map_wf (af_files (wk_files w)) \<Longrightarrow> map_wf (af_files (wk_files (fold (apply_remove u) rs w)))"
  "map_wf (af_files (wk_files w)) \<Longrightarrow> map_wf (af_files (wk_files (fold (apply_save differ ft) es w)))"
proof -
  show "map_wf (af_files (wk_files w)) \<Longrightarrow> map_wf (af_files (wk_files (fold (apply_remove u) rs w)))"
    by (induction rs arbitrary: w) (simp_all add: apply_remove_files removeShared_eq delete_file_def inv_intros)
  show "map_wf (af_files (wk_files w)) \<Longrightarrow> map_wf (af_files (wk_files (fold (apply_save differ ft) es w)))"
    by (induction es arbitrary: w) (simp_all add: apply_save_files saveShared_eq write_file_def inv_intros)
qed

lemma end_files_ok:
  assumes rd: "read_from p f s1" and f: "files_ok f" and s1: "registry_fit s1"
    and e: "sync_end put differ live now u fates p f y s = (ch, f', y', s')"
  shows "files_ok f' \<and> af_removals f' = af_removals f"
proof -
  have plan: "planned_from (loadAllAccounts f) (af_removals f) p" using rd by (simp add: read_from_def)
  have rem: "af_removals f' = af_removals f" using end_files [OF plan e, of "''''"] by blast
  have "map_wf (af_files f')"
    using e f by (auto simp: sync_end_def Let_def files_ok_def map_wf_apply split: prod.splits)
  moreover have "isRegistryRecord a c \<and> dated c" if c: "map_of (af_files f') a = Some c" for a c
    using end_files_cases [OF plan e f refl, of a] c files_okD(3,4) [OF f] fit_record [OF s1] rd
    by (auto simp: read_from_def)
  ultimately show ?thesis using f rem by (auto simp: files_ok_def)
qed

context account_registry
begin

lemma puts_run:
  assumes "registry_fit s" and "\<forall>c \<in> set sent. isRegistryRecord (sc_alias c) c \<and> dated c"
  shows "registry_fit (fold (\<lambda>c s. snd (put c s)) sent s)
    \<and> registry_event (fold (\<lambda>c s. snd (put c s)) sent s) a
        = max_of (registry_event s a) (map (\<lambda>c. if sc_alias c = a then grant_event c else Nothing_known) sent)"
  using assms
proof (induction sent arbitrary: s)
  case (Cons c sent)
  have ok: "registry_ok s" "dated c" "isRegistryRecord (sc_alias c) c" using Cons.prems by (auto simp: registry_fit_def)
  have "registry_fit (snd (put c s))"
    using put_ok [OF ok(1,2)] put_sources [of c s] put_markers [of c s] ok(3) Cons.prems(1) unfolding registry_fit_def by blast
  with Cons show ?case using put_event [OF ok(1,2), of a] by auto
qed simp

lemma end_registry:
  assumes rd: "read_from p f s1" and f: "files_ok f" and s1: "registry_fit s1" and s: "registry_fit s" and y: "published_ok y s"
    and grown: "\<And>a. registry_event s1 a \<le> registry_event s a"
    and e: "sync_end put differ live now u fates p f y s = (ch, f', y', s')"
  shows "registry_fit s' \<and> published_ok y' s'
    \<and> (\<forall>a. registry_event s a \<le> registry_event s' a \<and> registry_event s' a \<le> max (registry_event s a) (held_event (af_files f) a))
    \<and> (fates = [] \<longrightarrow> (\<forall>a. held_event (af_files f) a \<le> max (registry_event s' a) (removed_event (af_removals f) a)))"
proof -
  let ?loc = "loadAllAccounts f"
  have plan: "planned_from ?loc (af_removals f) p" using rd by (simp add: read_from_def)
  have pp: "planned_push ?loc p (af_removals f) a
      = push_entry (map_of (af_files f) a) (map_of (rg_records s1) a) (removalTime a (rg_markers s1) (af_removals f))" for a
    using rd by (simp add: planned_push_def by_alias_loaded [OF f] read_from_def removalTime_def)
  have mine: "planned_push ?loc p (af_removals f) a = Some c \<Longrightarrow> map_of (af_files f) a = Some c" for a c
    unfolding pp by (auto simp: push_entry_def split: if_splits)
  obtain sent where h: "s' = fold (\<lambda>c s. snd (put c s)) sent s" "ay_published y' = ay_published y"
    "\<forall>c \<in> set sent. planned_push ?loc p (af_removals f) (sc_alias c) = Some c"
    "fates = [] \<Longrightarrow> planned_push ?loc p (af_removals f) a = Some c \<Longrightarrow> grantedAfter (stamp_of c) (map_of (af_removals f) a) \<Longrightarrow> c \<in> set sent"
    for a c
    using end_push [OF plan e] by (auto simp: wk_sync_published)
  have sent_file: "map_of (af_files f) (sc_alias c) = Some c" if "c \<in> set sent" for c using mine h(3) that by blast
  have good: "\<forall>c \<in> set sent. isRegistryRecord (sc_alias c) c \<and> dated c" using sent_file files_okD(3,4) [OF f] by blast
  note run = puts_run [OF s good, folded h(1)]
  have lower: "registry_event s a \<le> registry_event s' a" for a
    unfolding conjunct2 [OF run] by (rule max_of_upper) simp
  have sent_le: "c \<in> set sent \<Longrightarrow> grant_event c \<le> registry_event s' (sc_alias c)" for c
    unfolding conjunct2 [OF run] by (rule max_of_upper) force
  have upper: "registry_event s' a \<le> max (registry_event s a) (held_event (af_files f) a)" for a
    unfolding conjunct2 [OF run] max_of_le_iff using sent_file by (auto simp: held_event_def le_max_iff_disj)
  have pub: "published_ok y' s'"
    using y lower unfolding published_ok_def h(2) by (blast intro: order_trans)
  have full: "held_event (af_files f) a \<le> max (registry_event s' a) (removed_event (af_removals f) a)" if f0: "fates = []" for a
  proof (cases "map_of (af_files f) a")
    case (Some d)
    let ?r = "removalTime a (rg_markers s1) (af_removals f)"
    define T where "T = held_event (rg_records s1) a"
    have dd: "dated d" "sc_alias d = a" using files_okD [OF f Some] by auto
    have D: "held_event (af_files f) a = grant_event d" by (simp add: held_event_def Some)
    have TR: "T \<le> registry_event s' a" "removed_event (rg_markers s1) a \<le> registry_event s' a"
      using order_trans [OF grown [of a] lower [of a]] unfolding registry_event_def [of s1] T_def by simp_all
    have ct: "counts (map_of (rg_records s1) a) ?r \<longleftrightarrow> time_event ?r < T"
      using counts_event [of "map_of (rg_records s1) a" ?r] fit_record [OF s1] by (simp add: T_def held_event_def)
    have cm: "counts (map_of (af_files f) a) ?r \<longleftrightarrow> time_event ?r < grant_event d"
      using after_event [OF dd(1)] by (simp add: counts_def Some)
    have nw: "credentialsAreNewer (stamp_of d) (stamp_of (the (map_of (rg_records s1) a))) \<longleftrightarrow> T < grant_event d" if "time_event ?r < T"
      using that newer_iff [OF dd(1)] fit_record [OF s1] by (auto simp: T_def held_event_def split: option.splits)
    show ?thesis
    proof (cases "time_event ?r < grant_event d \<and> T < grant_event d")
      case True
      have "planned_push ?loc p (af_removals f) a = Some d"
        using True ct cm nw fit_record [OF s1, of a]
        by (auto simp: pp push_entry_def save_entry_def Some T_def held_event_def newer_iff dd(1) dest: less_asym split: option.splits)
      moreover have "grantedAfter (stamp_of d) (map_of (af_removals f) a)"
        using conjunct1 [OF True, unfolded removal_event] by (simp add: after_event [OF dd(1)] removed_event_def time_event_def)
      ultimately have "d \<in> set sent" using h(4) f0 by blast
      then show ?thesis using sent_le [of d] by (simp add: D dd(2) le_max_iff_disj)
    next
      case False
      then have "grant_event d \<le> T \<or> grant_event d \<le> time_event ?r" by auto
      then show ?thesis
        using TR by (auto simp: D removal_event le_max_iff_disj intro: order_trans)
    qed
  qed (simp add: held_event_def)
  show ?thesis using run pub lower upper full by blast
qed

end

end
