(* ===== verification/Account_Peers.thy ===== *)
theory Account_Peers
  imports Account_Converge
begin

text \<open>
  Several instances that share a registry: a system of instances whose syncs interleave in two steps each, and the
  proof that they end on the same accounts, the last event of each alias.
\<close>

section \<open>Instances that share a registry\<close>

record 'r account_instance =
  im_files :: "'r account_files"
  im_sync :: account_sync
  im_pending :: "'r pending_sync option"

record 'r sync_system =
  ss_registry :: "'r registry"
  ss_instances :: "'r account_instance list"

text \<open>
  A sync of one instance is two operations, and those of the others go on in between. An instance runs one sync
  at a time: a begin while one is pending does nothing.
\<close>

datatype sync_op = Begin_sync nat ms "call_fate list" | End_sync nat ms bool "call_fate list"

fun actor :: "sync_op \<Rightarrow> nat" where
  "actor (Begin_sync i _ _) = i"
| "actor (End_sync i _ _ _) = i"

definition begin_instance ::
  "(string \<Rightarrow> ms \<Rightarrow> 'r registry \<Rightarrow> bool \<times> 'r registry) \<Rightarrow> ms \<Rightarrow> call_fate list \<Rightarrow> 'r registry \<Rightarrow> 'r account_instance
    \<Rightarrow> 'r registry \<times> 'r account_instance" where
  "begin_instance remove now fates s im =
     (if im_pending im \<noteq> None then (s, im)
      else let (p, y, s1) = sync_begin remove isRegistryRecord now fates (im_files im) (im_sync im) s
           in (s1, im\<lparr>im_sync := y, im_pending := p\<rparr>))"

definition end_instance ::
  "('r cred \<Rightarrow> 'r registry \<Rightarrow> bool \<times> 'r registry) \<Rightarrow> ms \<Rightarrow> bool \<Rightarrow> call_fate list \<Rightarrow> 'r registry \<Rightarrow> 'r account_instance
    \<Rightarrow> 'r registry \<times> 'r account_instance" where
  "end_instance put now unlinks fates s im =
     (case im_pending im of
        None \<Rightarrow> (s, im)
      | Some p \<Rightarrow>
          let (ch, f, y, s1) = sync_end put (\<lambda>_ _. False) None now unlinks fates p (im_files im) (im_sync im) s
          in (s1, \<lparr>im_files = f, im_sync = y, im_pending = None\<rparr>))"

definition instance_step ::
  "('r cred \<Rightarrow> 'r registry \<Rightarrow> bool \<times> 'r registry) \<Rightarrow> (string \<Rightarrow> ms \<Rightarrow> 'r registry \<Rightarrow> bool \<times> 'r registry) \<Rightarrow> sync_op
    \<Rightarrow> 'r registry \<Rightarrow> 'r account_instance \<Rightarrow> 'r registry \<times> 'r account_instance" where
  "instance_step put remove op' s im =
     (case op' of Begin_sync _ now fates \<Rightarrow> begin_instance remove now fates s im
      | End_sync _ now unlinks fates \<Rightarrow> end_instance put now unlinks fates s im)"

definition sync_step ::
  "('r cred \<Rightarrow> 'r registry \<Rightarrow> bool \<times> 'r registry) \<Rightarrow> (string \<Rightarrow> ms \<Rightarrow> 'r registry \<Rightarrow> bool \<times> 'r registry) \<Rightarrow> sync_op
    \<Rightarrow> 'r sync_system \<Rightarrow> 'r sync_system" where
  "sync_step put remove op' g =
     (let i = actor op' in if i < length (ss_instances g) then
        let (s, im) = instance_step put remove op' (ss_registry g) (ss_instances g ! i)
        in \<lparr>ss_registry = s, ss_instances = (ss_instances g)[i := im]\<rparr>
      else g)"

abbreviation held_at :: "'r sync_system \<Rightarrow> nat \<Rightarrow> string \<Rightarrow> account_event" where
  "held_at g i a \<equiv> held_event (af_files (im_files (ss_instances g ! i))) a"

abbreviation removed_at :: "'r sync_system \<Rightarrow> nat \<Rightarrow> string \<Rightarrow> account_event" where
  "removed_at g i a \<equiv> removed_event (af_removals (im_files (ss_instances g ! i))) a"

abbreviation pending_at :: "'r sync_system \<Rightarrow> nat \<Rightarrow> 'r pending_sync option" where
  "pending_at g i \<equiv> im_pending (ss_instances g ! i)"

text \<open>The last event of an alias anybody knows of.\<close>

definition last_event :: "'r sync_system \<Rightarrow> string \<Rightarrow> account_event" where
  "last_event g a = max_of (registry_event (ss_registry g) a)
     (map (\<lambda>im. max (held_event (af_files (im_files im)) a) (removed_event (af_removals (im_files im)) a)) (ss_instances g))"

definition clock_ahead :: "'r account_files \<Rightarrow> ms \<Rightarrow> bool" where
  "clock_ahead f now \<longleftrightarrow> (\<forall>a t. map_of (af_removals f) a = Some t \<longrightarrow> t < now)"

definition pending_ok :: "'r registry \<Rightarrow> 'r account_instance \<Rightarrow> (string \<Rightarrow> account_event) \<Rightarrow> bool" where
  "pending_ok s im R \<longleftrightarrow> (\<forall>p. im_pending im = Some p \<longrightarrow>
     clock_ahead (im_files im) (pe_fetchedAt p)
     \<and> (\<exists>s1. read_from p (im_files im) s1 \<and> registry_fit s1
          \<and> (\<forall>a. R a \<le> registry_event s1 a \<and> registry_event s1 a \<le> registry_event s a)))"

definition instance_ok :: "'r registry \<Rightarrow> 'r account_instance \<Rightarrow> bool" where
  "instance_ok s im \<longleftrightarrow> files_ok (im_files im) \<and> published_ok (im_sync im) s \<and> pending_ok s im (\<lambda>_. Nothing_known)"

definition system_ok :: "'r sync_system \<Rightarrow> bool" where
  "system_ok g \<longleftrightarrow> registry_fit (ss_registry g) \<and> (\<forall>im \<in> set (ss_instances g). instance_ok (ss_registry g) im)"

definition op_in_time :: "'r account_files \<Rightarrow> sync_op \<Rightarrow> bool" where
  "op_in_time f op' = (case op' of Begin_sync _ now _ \<Rightarrow> clock_ahead f now | End_sync _ _ _ _ \<Rightarrow> True)"

lemma pending_ok_grows:
  "pending_ok s im R \<Longrightarrow> (\<And>a. registry_event s a \<le> registry_event s' a) \<Longrightarrow> pending_ok s' im R"
  unfolding pending_ok_def by (meson order_trans)

lemma instance_ok_grows:
  "instance_ok s im \<Longrightarrow> (\<And>a. registry_event s a \<le> registry_event s' a) \<Longrightarrow> instance_ok s' im"
  unfolding instance_ok_def published_ok_def using pending_ok_grows by (blast intro: order_trans)

lemma alive_le: "alive x \<le> x"
  by (cases x) simp_all

lemma alive_bound: "x \<le> K \<Longrightarrow> alive x \<le> K"
  using alive_le order_trans by blast

lemma alive_covers: "\<forall>t. D \<noteq> Removed_at t \<Longrightarrow> x = max D m \<Longrightarrow> D \<le> max (alive x) m"
  by (cases D; cases m) (auto simp: max_def)

context account_registry
begin

text \<open>One operation of one instance, from any pending sync that has read at least \<open>R\<close>.\<close>

lemma instance_effect:
  assumes im: "instance_ok s im" "pending_ok s im R" and s: "registry_fit s" and c: "op_in_time (im_files im) op'"
    and RS: "\<And>a. R a \<le> registry_event s a"
    and st: "instance_step put remove op' s im = (s', im')"
  defines "D \<equiv> held_event (af_files (im_files im))" and "D' \<equiv> held_event (af_files (im_files im'))"
    and "L \<equiv> removed_event (af_removals (im_files im))"
  shows "registry_fit s' \<and> instance_ok s' im' \<and> pending_ok s' im' R \<and> af_removals (im_files im') = af_removals (im_files im)
    \<and> (\<forall>a. registry_event s a \<le> registry_event s' a \<and> registry_event s' a \<le> max (registry_event s a) (max (D a) (L a)))
    \<and> (\<forall>a. D' a = D a \<or> (\<exists>r. R a \<le> r \<and> r \<le> registry_event s a \<and> D' a = alive (max (D a) (max (L a) r))))"
proof (cases op')
  case (Begin_sync i now fates)
  show ?thesis
  proof (cases "im_pending im")
    case None
    obtain p y' where b: "sync_begin remove isRegistryRecord now fates (im_files im) (im_sync im) s = (p, y', s')"
      and im': "im' = im\<lparr>im_sync := y', im_pending := p\<rparr>"
      using st Begin_sync None by (auto simp: instance_step_def begin_instance_def split: prod.splits)
    have ok: "files_ok (im_files im)" "published_ok (im_sync im) s" using im(1) by (simp_all add: instance_ok_def)
    note e = begin_effect [OF ok(1) s ok(2) b]
    have grow: "registry_event s a \<le> registry_event s' a" for a using e by blast
    have pend: "pending_ok s' im' Q" if "\<And>a. Q a \<le> registry_event s' a" for Q
      using e that c Begin_sync unfolding pending_ok_def im' by (auto simp: op_in_time_def)
    have "pending_ok s' im' R" by (rule pend) (rule order_trans [OF RS grow])
    moreover have "instance_ok s' im'" using e ok pend [of "\<lambda>_. Nothing_known"] by (simp add: instance_ok_def im')
    moreover have "registry_event s' a \<le> max (registry_event s a) (max (D a) (L a))" for a
      using e by (metis L_def le_max_iff_disj order_trans)
    ultimately show ?thesis using e grow by (simp add: im' D_def D'_def)
  next
    case (Some p)
    then have "s' = s" "im' = im" using st Begin_sync by (simp_all add: instance_step_def begin_instance_def)
    then show ?thesis using im s by (simp add: D_def D'_def)
  qed
next
  case (End_sync i now u fates)
  show ?thesis
  proof (cases "im_pending im")
    case None
    then have "s' = s" "im' = im" using st End_sync by (simp_all add: instance_step_def end_instance_def)
    then show ?thesis using im s by (simp add: D_def D'_def)
  next
    case (Some p)
    obtain ch f' y' where e: "sync_end put (\<lambda>_ _. False) None now u fates p (im_files im) (im_sync im) s = (ch, f', y', s')"
      and im': "im' = \<lparr>im_files = f', im_sync = y', im_pending = None\<rparr>"
      using st End_sync Some by (auto simp: instance_step_def end_instance_def split: prod.splits)
    have ok: "files_ok (im_files im)" "published_ok (im_sync im) s" using im(1) by (simp_all add: instance_ok_def)
    obtain s1 where r: "read_from p (im_files im) s1" "registry_fit s1"
      "\<And>a. R a \<le> registry_event s1 a" "\<And>a. registry_event s1 a \<le> registry_event s a"
      and clk: "clock_ahead (im_files im) (pe_fetchedAt p)"
      using im(2) Some unfolding pending_ok_def by blast
    note g = end_registry [OF r(1) ok(1) r(2) s ok(2) r(4) e] and f = end_files_ok [OF r(1) ok(1) r(2) e]
    have h: "D' a = D a \<or> D' a = alive (max (D a) (max (L a) (registry_event s1 a)))" for a
      using end_held [OF r(1) ok(1) r(2) _ e, of a] clk by (simp add: im' D_def D'_def L_def clock_ahead_def)
    have "registry_event s' a \<le> max (registry_event s a) (max (D a) (L a))" for a
      using g by (metis D_def max.assoc max.coboundedI1)
    moreover have "instance_ok s' im'" "pending_ok s' im' R"
      using g f by (simp_all add: instance_ok_def pending_ok_def im')
    moreover have "D' a = D a \<or> (\<exists>r. R a \<le> r \<and> r \<le> registry_event s a \<and> D' a = alive (max (D a) (max (L a) r)))" for a
      using h [of a] r(3) [of a] r(4) [of a] by blast
    ultimately show ?thesis using g f by (simp add: im')
  qed
qed

end

section \<open>Runs of the system\<close>

definition in_time :: "'r sync_system \<Rightarrow> sync_op list \<Rightarrow> bool" where
  "in_time g ops \<longleftrightarrow> (\<forall>op' \<in> set ops. actor op' < length (ss_instances g)
     \<and> op_in_time (im_files (ss_instances g ! actor op')) op')"

definition bounded :: "account_event \<Rightarrow> string \<Rightarrow> 'r sync_system \<Rightarrow> bool" where
  "bounded K a g \<longleftrightarrow> registry_event (ss_registry g) a \<le> K
     \<and> (\<forall>i < length (ss_instances g). held_at g i a \<le> K \<and> removed_at g i a \<le> K)"

definition same_removals :: "'r sync_system \<Rightarrow> 'r sync_system \<Rightarrow> bool" where
  "same_removals g h \<longleftrightarrow> length (ss_instances h) = length (ss_instances g)
     \<and> (\<forall>i < length (ss_instances g). af_removals (im_files (ss_instances h ! i)) = af_removals (im_files (ss_instances g ! i)))"

lemma in_time_same: "same_removals g h \<Longrightarrow> in_time h ops \<longleftrightarrow> in_time g ops"
  by (auto simp: in_time_def same_removals_def op_in_time_def clock_ahead_def split: sync_op.splits)

lemma in_time_Cons: "in_time g (op' # ops) \<Longrightarrow> in_time g [op'] \<and> in_time g ops"
  by (simp add: in_time_def)

lemma in_time_simps [simp]:
  "in_time g []" "in_time g (xs @ ys) \<longleftrightarrow> in_time g xs \<and> in_time g ys"
  by (auto simp: in_time_def)

lemma same_removals_trans: "same_removals g h \<Longrightarrow> same_removals h k \<Longrightarrow> same_removals g k"
  by (simp add: same_removals_def)

lemma same_removals_refl [simp]: "same_removals g g"
  by (simp add: same_removals_def)

lemma held_not_removed [simp]: "held_event m a \<noteq> Removed_at t"
  by (auto simp: held_event_def grant_event_def split: option.splits)

lemma bounded_last: "bounded (last_event g a) a g"
proof -
  have "max (held_at g i a) (removed_at g i a) \<le> last_event g a" if "i < length (ss_instances g)" for i
    unfolding last_event_def using that by (intro max_of_upper) force
  moreover have "registry_event (ss_registry g) a \<le> last_event g a" unfolding last_event_def by (rule max_of_upper) simp
  ultimately show ?thesis by (simp add: bounded_def)
qed

lemma last_event_reached:
  assumes "registry_event (ss_registry g) a \<le> K"
    and "\<And>i. i < length (ss_instances g) \<Longrightarrow> held_at g i a \<le> K \<and> removed_at g i a \<le> K"
  shows "last_event g a \<le> K"
  unfolding last_event_def max_of_le_iff using assms by (auto simp: in_set_conv_nth)

context account_registry
begin

lemma other_instance: "j \<noteq> actor op' \<Longrightarrow> ss_instances (sync_step put remove op' g) ! j = ss_instances g ! j"
  by (simp add: sync_step_def Let_def split: prod.split)

lemma step_shape:
  assumes "actor op' < length (ss_instances g)"
    and "instance_step put remove op' (ss_registry g) (ss_instances g ! actor op') = (s', im')"
  shows "sync_step put remove op' g = \<lparr>ss_registry = s', ss_instances = (ss_instances g)[actor op' := im']\<rparr>"
  using assms by (simp add: sync_step_def)

lemma system_effect:
  assumes g: "system_ok g" and t: "in_time g [op']"
    and R: "pending_ok (ss_registry g) (ss_instances g ! i) R" "\<forall>a. R a \<le> registry_event (ss_registry g) a"
  defines "h \<equiv> sync_step put remove op' g"
  shows "system_ok h \<and> same_removals g h
    \<and> (\<forall>a. registry_event (ss_registry g) a \<le> registry_event (ss_registry h) a)
    \<and> (\<forall>a K. bounded K a g \<longrightarrow> bounded K a h)
    \<and> (\<forall>j < length (ss_instances g). \<forall>a. held_at h j a = held_at g j a
         \<or> (\<exists>r \<le> registry_event (ss_registry g) a. held_at h j a = alive (max (held_at g j a) (max (removed_at g j a) r))))
    \<and> pending_ok (ss_registry h) (ss_instances h ! i) R
    \<and> (\<forall>a. held_at h i a = held_at g i a \<or> (\<exists>r. R a \<le> r \<and> r \<le> registry_event (ss_registry g) a
         \<and> held_at h i a = alive (max (held_at g i a) (max (removed_at g i a) r))))"
proof -
  let ?k = "actor op'" and ?s = "ss_registry g"
  let ?im = "ss_instances g ! ?k"
  have k: "?k < length (ss_instances g)" "op_in_time (im_files ?im) op'" using t by (simp_all add: in_time_def)
  obtain s' im' where st: "instance_step put remove op' ?s ?im = (s', im')" by fastforce
  have h: "h = \<lparr>ss_registry = s', ss_instances = (ss_instances g)[?k := im']\<rparr>" unfolding h_def by (rule step_shape [OF k(1) st])
  have im: "instance_ok ?s ?im" using g k(1) by (auto simp: system_ok_def)
  have s: "registry_fit ?s" using g by (simp add: system_ok_def)
  define Q where "Q = (if ?k = i then R else (\<lambda>_. Nothing_known))"
  have q: "pending_ok ?s ?im Q" "\<And>a. Q a \<le> registry_event ?s a" using R im by (simp_all add: Q_def instance_ok_def)
  note e = instance_effect [OF im q(1) s k(2) q(2) st]
  have grow: "registry_event ?s a \<le> registry_event s' a" for a using e by blast
  have ok: "system_ok h"
    using e g instance_ok_grows [OF _ grow] unfolding system_ok_def h
    by (auto dest!: subsetD [OF set_update_subset_insert])
  have same: "same_removals g h" using e k(1) by (auto simp: same_removals_def h nth_list_update)
  have held: "held_at h j a = held_at g j a
      \<or> (\<exists>r \<le> registry_event ?s a. held_at h j a = alive (max (held_at g j a) (max (removed_at g j a) r)))" for j a
  proof (cases "j = ?k")
    case True
    have "held_event (af_files (im_files im')) a = held_event (af_files (im_files ?im)) a
      \<or> (\<exists>r. Q a \<le> r \<and> r \<le> registry_event ?s a \<and> held_event (af_files (im_files im')) a
          = alive (max (held_event (af_files (im_files ?im)) a) (max (removed_event (af_removals (im_files ?im)) a) r)))"
      using e by blast
    then show ?thesis using True k(1) by (auto simp: h)
  qed (simp add: h)
  have bound: "bounded K a h" if b: "bounded K a g" for K a
  proof -
    have K: "held_at g j a \<le> K" "removed_at g j a \<le> K" if "j < length (ss_instances g)" for j using b that by (auto simp: bounded_def)
    have sK: "registry_event ?s a \<le> K" using b by (simp add: bounded_def)
    have "registry_event s' a \<le> K"
      using e K [OF k(1)] sK by (meson max.boundedI order_trans)
    moreover have "held_at h j a \<le> K" if "j < length (ss_instances g)" for j
      using held [of j a] K [OF that] sK by (auto intro!: alive_bound intro: order_trans)
    moreover have "removed_at h j a \<le> K" if "j < length (ss_instances g)" for j
      using same K [OF that] that by (simp add: same_removals_def)
    ultimately show ?thesis using same by (simp add: bounded_def same_removals_def h)
  qed
  have pend: "pending_ok (ss_registry h) (ss_instances h ! i) R"
  proof (cases "?k = i")
    case True
    then show ?thesis using e k(1) by (simp add: h Q_def)
  qed (use pending_ok_grows [OF R(1) grow] in \<open>simp add: h\<close>)
  have heldR: "held_at h i a = held_at g i a \<or> (\<exists>r. R a \<le> r \<and> r \<le> registry_event ?s a
         \<and> held_at h i a = alive (max (held_at g i a) (max (removed_at g i a) r)))" for a
  proof (cases "?k = i")
    case True
    have "held_event (af_files (im_files im')) a = held_event (af_files (im_files ?im)) a
      \<or> (\<exists>r. Q a \<le> r \<and> r \<le> registry_event ?s a \<and> held_event (af_files (im_files im')) a
          = alive (max (held_event (af_files (im_files ?im)) a) (max (removed_event (af_removals (im_files ?im)) a) r)))"
      using e by blast
    then show ?thesis using True k(1) by (auto simp: h Q_def)
  qed (simp add: h)
  have "registry_event ?s a \<le> registry_event (ss_registry h) a" for a using grow by (simp add: h)
  then show ?thesis using ok same held bound pend heldR by blast
qed

end

text \<open>One sync of an instance from its begin to its end, every call answered, with nothing of its own in between.\<close>

definition full_sync ::
  "('r cred \<Rightarrow> 'r registry \<Rightarrow> bool \<times> 'r registry) \<Rightarrow> (string \<Rightarrow> ms \<Rightarrow> 'r registry \<Rightarrow> bool \<times> 'r registry) \<Rightarrow> nat
    \<Rightarrow> sync_op list \<Rightarrow> 'r sync_system \<Rightarrow> bool" where
  "full_sync put remove i ops g \<longleftrightarrow>
     (\<exists>before now meanwhile now' rest. ops = before @ Begin_sync i now [] # meanwhile @ End_sync i now' True [] # rest
        \<and> pending_at (fold (sync_step put remove) before g) i = None \<and> (\<forall>op' \<in> set meanwhile. actor op' \<noteq> i))"

context account_registry
begin

lemma pending_any: "system_ok g \<Longrightarrow> i < length (ss_instances g) \<Longrightarrow> pending_ok (ss_registry g) (ss_instances g ! i) (\<lambda>_. Nothing_known)"
  by (simp add: system_ok_def instance_ok_def)

lemma system_run:
  assumes "system_ok g" and "in_time g ops" and i: "i < length (ss_instances g)"
  shows "system_ok (fold (sync_step put remove) ops g) \<and> same_removals g (fold (sync_step put remove) ops g)
    \<and> (\<forall>a. registry_event (ss_registry g) a \<le> registry_event (ss_registry (fold (sync_step put remove) ops g)) a)
    \<and> (\<forall>a K. bounded K a g \<longrightarrow> bounded K a (fold (sync_step put remove) ops g))
    \<and> (\<forall>a. held_at g i a \<le> max (held_at (fold (sync_step put remove) ops g) i a)
         (max (removed_at g i a) (registry_event (ss_registry (fold (sync_step put remove) ops g)) a)))"
  using assms
proof (induction ops arbitrary: g)
  case (Cons op' ops)
  let ?h = "sync_step put remove op' g"
  have least: "\<forall>a. Nothing_known \<le> registry_event (ss_registry g) a" by simp
  have t: "in_time g [op']" "in_time g ops" using in_time_Cons [OF Cons.prems(2)] by simp_all
  note e = system_effect [OF Cons.prems(1) t(1) pending_any [OF Cons.prems(1,3)] least]
  note c = conjunct2 [OF e]
  note h = conjunct1 [OF e] conjunct1 [OF c]
  note grow = conjunct1 [OF conjunct2 [OF c]] and bnd = conjunct1 [OF conjunct2 [OF conjunct2 [OF c]]]
    and held = conjunct1 [OF conjunct2 [OF conjunct2 [OF conjunct2 [OF c]]]]
  have th: "in_time ?h ops" "i < length (ss_instances ?h)" using h(2) t(2) Cons.prems(3) by (simp_all add: in_time_same) (simp add: same_removals_def)
  note ih = Cons.IH [OF h(1) th]
  let ?k = "fold (sync_step put remove) ops ?h"
  have rem: "removed_at ?h i a = removed_at g i a" for a using h(2) Cons.prems(3) by (simp add: same_removals_def)
  have "held_at g i a \<le> max (held_at ?k i a) (max (removed_at g i a) (registry_event (ss_registry ?k) a))" for a
  proof -
    have le: "registry_event (ss_registry g) a \<le> registry_event (ss_registry ?k) a"
      by (rule order_trans [OF spec [OF grow]]) (use ih in blast)
    have k: "held_at ?h i a \<le> max (held_at ?k i a) (max (removed_at g i a) (registry_event (ss_registry ?k) a))"
      using ih rem by simp
    have "held_at ?h i a = held_at g i a \<or> (\<exists>r \<le> registry_event (ss_registry g) a.
        held_at ?h i a = alive (max (held_at g i a) (max (removed_at g i a) r)))"
      using held Cons.prems(3) by blast
    then show ?thesis
    proof
      assume "\<exists>r \<le> registry_event (ss_registry g) a. held_at ?h i a = alive (max (held_at g i a) (max (removed_at g i a) r))"
      then obtain r where r: "r \<le> registry_event (ss_registry g) a"
        "held_at ?h i a = alive (max (held_at g i a) (max (removed_at g i a) r))" by blast
      have "held_at g i a \<le> max (held_at ?h i a) (max (removed_at g i a) r)"
        unfolding r(2) by (rule alive_covers) simp_all
      then show ?thesis using k order_trans [OF r(1) le] by (auto simp: le_max_iff_disj)
    qed (use k in simp)
  qed
  moreover have "registry_event (ss_registry g) a \<le> registry_event (ss_registry ?k) a" for a
    by (rule order_trans [OF spec [OF grow]]) (use ih in blast)
  moreover have "bounded K a g \<Longrightarrow> bounded K a ?k" for K a using bnd ih by blast
  moreover have "same_removals g ?k" using h(2) ih by (blast intro: same_removals_trans)
  ultimately show ?case using ih by simp
qed simp

end

context account_registry
begin

lemma idle_instance:
  "\<forall>op' \<in> set ops. actor op' \<noteq> i \<Longrightarrow> ss_instances (fold (sync_step put remove) ops g) ! i = ss_instances g ! i"
  by (induction ops arbitrary: g) (auto simp: other_instance)

lemma run_splits:
  assumes "system_ok g" and "in_time g (xs @ ys)" and "i < length (ss_instances g)"
  defines "h \<equiv> fold (sync_step put remove) xs g"
  shows "system_ok h" "in_time h ys" "i < length (ss_instances h)" "same_removals g h"
    "registry_event (ss_registry g) a \<le> registry_event (ss_registry h) a" "bounded K a g \<Longrightarrow> bounded K a h"
    "held_at g i a \<le> max (held_at h i a) (max (removed_at g i a) (registry_event (ss_registry h) a))"
    "removed_at h i a = removed_at g i a"
proof -
  have t: "in_time g xs" "in_time g ys" using assms(2) by simp_all
  note r = system_run [OF assms(1) t(1) assms(3), folded h_def]
  show sr: "same_removals g h" using r by blast
  show "system_ok h" "registry_event (ss_registry g) a \<le> registry_event (ss_registry h) a" "bounded K a g \<Longrightarrow> bounded K a h"
    "held_at g i a \<le> max (held_at h i a) (max (removed_at g i a) (registry_event (ss_registry h) a))" using r by blast+
  show "in_time h ys" using t(2) sr by (simp add: in_time_same)
  show "i < length (ss_instances h)" "removed_at h i a = removed_at g i a" using sr assms(3) by (simp_all add: same_removals_def)
qed

text \<open>The two parts of a full sync: the begin publishes the removals made here, the end pushes and writes the files.\<close>

lemma begin_step:
  fixes now :: ms
  assumes g: "system_ok g" and t: "in_time g [Begin_sync i now []]" and idle: "pending_at g i = None"
  defines "h \<equiv> sync_step put remove (Begin_sync i now []) g"
  shows "\<exists>p. pending_at h i = Some p \<and> read_from p (im_files (ss_instances h ! i)) (ss_registry h) \<and> registry_fit (ss_registry h)
    \<and> clock_ahead (im_files (ss_instances h ! i)) (pe_fetchedAt p)
    \<and> (\<forall>a. removed_at h i a \<le> registry_event (ss_registry h) a)"
proof -
  have i: "i < length (ss_instances g)" "clock_ahead (im_files (ss_instances g ! i)) now"
    using t by (simp_all add: in_time_def op_in_time_def)
  obtain po y' s' where b: "sync_begin remove isRegistryRecord now [] (im_files (ss_instances g ! i)) (im_sync (ss_instances g ! i)) (ss_registry g)
      = (po, y', s')" by (metis prod_cases3)
  have h: "ss_registry h = s'" "ss_instances h ! i = (ss_instances g ! i)\<lparr>im_sync := y', im_pending := po\<rparr>"
    using i idle b by (simp_all add: h_def sync_step_def instance_step_def begin_instance_def)
  have im: "files_ok (im_files (ss_instances g ! i))" "published_ok (im_sync (ss_instances g ! i)) (ss_registry g)"
    using g i by (auto simp: system_ok_def instance_ok_def)
  have s: "registry_fit (ss_registry g)" using g by (simp add: system_ok_def)
  show ?thesis using begin_effect [OF im(1) s im(2) b] i(2) by (auto simp: h)
qed

lemma end_step:
  fixes now :: ms
  assumes g: "system_ok g" and i: "i < length (ss_instances g)" and p: "pending_at g i = Some p"
    and rd: "read_from p (im_files (ss_instances g ! i)) s1" "registry_fit s1" "\<And>a. registry_event s1 a \<le> registry_event (ss_registry g) a"
    and clk: "clock_ahead (im_files (ss_instances g ! i)) (pe_fetchedAt p)"
  defines "h \<equiv> sync_step put remove (End_sync i now True []) g"
  shows "pending_at h i = None"
    and "held_at h i a = alive (max (held_at g i a) (max (removed_at g i a) (registry_event s1 a)))"
    and "held_at g i a \<le> max (registry_event (ss_registry h) a) (removed_at g i a)"
proof -
  obtain ch f' y' s' where e: "sync_end put (\<lambda>_ _. False) None now True [] p (im_files (ss_instances g ! i)) (im_sync (ss_instances g ! i))
      (ss_registry g) = (ch, f', y', s')" by (metis prod_cases4)
  have h: "ss_registry h = s'" "ss_instances h ! i = \<lparr>im_files = f', im_sync = y', im_pending = None\<rparr>"
    using i p e by (simp_all add: h_def sync_step_def instance_step_def end_instance_def)
  have im: "files_ok (im_files (ss_instances g ! i))" "published_ok (im_sync (ss_instances g ! i)) (ss_registry g)"
    using g i by (auto simp: system_ok_def instance_ok_def)
  have s: "registry_fit (ss_registry g)" using g by (simp add: system_ok_def)
  show "pending_at h i = None" by (simp add: h)
  show "held_at h i a = alive (max (held_at g i a) (max (removed_at g i a) (registry_event s1 a)))"
    using end_held [OF rd(1) im(1) rd(2) _ e, of a] clk by (simp add: h clock_ahead_def)
  show "held_at g i a \<le> max (registry_event (ss_registry h) a) (removed_at g i a)"
    using end_registry [OF rd(1) im(1) rd(2) s im(2) rd(3) e] by (simp add: h)
qed

text \<open>After a full sync the registry knows everything the instance knew.\<close>

lemma full_sync_delivers:
  assumes g: "system_ok g" and t: "in_time g ops" and i: "i < length (ss_instances g)" and full: "full_sync put remove i ops g"
  defines "h \<equiv> fold (sync_step put remove) ops g"
  shows "held_at g i a \<le> registry_event (ss_registry h) a" and "removed_at g i a \<le> registry_event (ss_registry h) a"
    and "\<lbrakk>registry_event (ss_registry g) a = K; bounded K a g\<rbrakk> \<Longrightarrow>
      \<exists>rest k. h = fold (sync_step put remove) rest k \<and> system_ok k \<and> in_time k rest \<and> i < length (ss_instances k)
        \<and> pending_at k i = None \<and> held_at k i a = alive K \<and> registry_event (ss_registry k) a = K \<and> bounded K a k"
proof -
  obtain xs now ys now' zs where ops: "ops = xs @ Begin_sync i now [] # ys @ End_sync i now' True [] # zs"
    and idle: "pending_at (fold (sync_step put remove) xs g) i = None" and ys: "\<forall>op' \<in> set ys. actor op' \<noteq> i"
    using full unfolding full_sync_def by blast
  let ?b = "Begin_sync i now []" and ?e = "End_sync i now' True []"
  define gA where "gA = fold (sync_step put remove) xs g"
  define gB where "gB = fold (sync_step put remove) [?b] gA"
  define gC where "gC = fold (sync_step put remove) ys gB"
  define gD where "gD = fold (sync_step put remove) [?e] gC"
  have gBD: "sync_step put remove ?b gA = gB" "sync_step put remove ?e gC = gD" by (simp_all add: gB_def gD_def)
  have h: "h = fold (sync_step put remove) zs gD" by (simp add: h_def ops gA_def gB_def gC_def gD_def)
  have tA: "in_time g (xs @ ([?b] @ (ys @ ([?e] @ zs))))" using t by (simp add: ops)
  note A = run_splits [OF g tA i, folded gA_def]
  note B = run_splits [OF A(1) A(2) A(3), folded gB_def]
  note C = run_splits [OF B(1) B(2) B(3), folded gC_def]
  note D = run_splits [OF C(1) C(2) C(3), folded gD_def]
  have tD: "in_time gD (zs @ [])" using D(2) by simp
  note Z = run_splits [OF D(1) tD D(3), folded h]
  have tb: "in_time gA [?b]" using A(2) unfolding in_time_simps by blast
  obtain p where p: "pending_at gB i = Some p" "read_from p (im_files (ss_instances gB ! i)) (ss_registry gB)" "registry_fit (ss_registry gB)"
    "clock_ahead (im_files (ss_instances gB ! i)) (pe_fetchedAt p)" "\<And>a. removed_at gB i a \<le> registry_event (ss_registry gB) a"
    using begin_step [OF A(1) tb idle [folded gA_def], unfolded gBD] by blast
  have same: "ss_instances gC ! i = ss_instances gB ! i" unfolding gC_def by (rule idle_instance [OF ys])
  note e = end_step [where now = now', OF C(1) C(3), unfolded gBD same, OF p(1,2,3) C(5) p(4)]
  have L: "removed_at g i a \<le> registry_event (ss_registry gB) a" for a using p(5) [of a] A(8) B(8) by simp
  have BD: "registry_event (ss_registry gB) a \<le> registry_event (ss_registry gD) a" for a by (rule order_trans [OF C(5) D(5)])
  show "removed_at g i a \<le> registry_event (ss_registry h) a" by (rule order_trans [OF L order_trans [OF BD Z(5)]])
  have toB: "held_at g i a \<le> max (held_at gB i a) (max (removed_at g i a) (registry_event (ss_registry gB) a))"
    using A(7) [of a] B(7) [of a] A(8) [of a] B(5) [of a] by (auto simp: le_max_iff_disj intro: order_trans)
  have "held_at gB i a \<le> registry_event (ss_registry gD) a"
    using e(3) [of a] p(5) [of a] BD [of a] by (auto simp: le_max_iff_disj intro: order_trans)
  then have "held_at g i a \<le> registry_event (ss_registry gD) a"
    using toB L [of a] BD [of a] by (auto simp: le_max_iff_disj intro: order_trans)
  then show "held_at g i a \<le> registry_event (ss_registry h) a" by (rule order_trans [OF _ Z(5)])
  show "\<exists>rest k. h = fold (sync_step put remove) rest k \<and> system_ok k \<and> in_time k rest \<and> i < length (ss_instances k)
        \<and> pending_at k i = None \<and> held_at k i a = alive K \<and> registry_event (ss_registry k) a = K \<and> bounded K a k"
    if K: "registry_event (ss_registry g) a = K" "bounded K a g"
  proof (intro exI conjI)
    show "h = fold (sync_step put remove) zs gD" by (rule h)
    show "system_ok gD" "in_time gD zs" "i < length (ss_instances gD)" using D by simp_all
    show "pending_at gD i = None" by (rule e(1))
    have bB: "bounded K a gB" by (rule B(6) [OF A(6) [OF K(2)]])
    show bD: "bounded K a gD" by (rule D(6) [OF C(6) [OF bB]])
    have "K \<le> registry_event (ss_registry gB) a" using order_trans [OF A(5) [of a] B(5) [of a]] unfolding K(1) .
    then have KB: "registry_event (ss_registry gB) a = K" using bB by (simp add: bounded_def)
    then show "registry_event (ss_registry gD) a = K" using BD [of a] bD by (simp add: bounded_def)
    have "max (held_at gB i a) (max (removed_at gB i a) K) = K" using bB B(3) by (simp add: bounded_def max_absorb2)
    then show "held_at gD i a = alive K" unfolding e(2) KB by simp
  qed
qed

end

context account_registry
begin

text \<open>Once the registry holds the last event and an instance has followed it, it stays so.\<close>

lemma settled_run:
  assumes "system_ok g" "in_time g ops" "i < length (ss_instances g)" "registry_event (ss_registry g) a = K" "bounded K a g"
    and "pending_ok (ss_registry g) (ss_instances g ! i) ((\<lambda>_. Nothing_known)(a := K))" "held_at g i a = alive K"
  shows "held_at (fold (sync_step put remove) ops g) i a = alive K"
  using assms
proof (induction ops arbitrary: g)
  case (Cons op' ops)
  let ?h = "sync_step put remove op' g" and ?R = "(\<lambda>_. Nothing_known)(a := K)"
  have t: "in_time g [op']" "in_time g ops" using in_time_Cons [OF Cons.prems(2)] by simp_all
  have least: "\<forall>b. ?R b \<le> registry_event (ss_registry g) b" using Cons.prems(4) by simp
  note e = system_effect [OF Cons.prems(1) t(1) Cons.prems(6) least]
  have sr: "same_removals g ?h" and ok: "system_ok ?h" using e by blast+
  have b: "bounded K a ?h" using e Cons.prems(5) by blast
  have grow: "registry_event (ss_registry g) a \<le> registry_event (ss_registry ?h) a" using e by blast
  have K: "registry_event (ss_registry ?h) a = K" using grow b Cons.prems(4) by (simp add: bounded_def)
  have "max (held_at g i a) (max (removed_at g i a) K) = K"
    using Cons.prems(3,5) by (simp add: bounded_def max_absorb2)
  then have "held_at ?h i a = alive K"
    using e Cons.prems(4,7) by (metis (no_types, lifting) antisym fun_upd_same)
  moreover have "pending_ok (ss_registry ?h) (ss_instances ?h ! i) ?R" using e by blast
  moreover have "i < length (ss_instances ?h)" "in_time ?h ops"
    using sr Cons.prems(3) t(2) by (simp_all add: same_removals_def in_time_same [OF sr])
  ultimately have "held_at (fold (sync_step put remove) ops ?h) i a = alive K"
    using Cons.IH [OF ok _ _ K b] by blast
  then show ?case by simp
qed simp

lemma converge:
  assumes g: "system_ok g" and t: "in_time g (first @ second)" and "ss_instances g \<noteq> []"
    and full1: "\<forall>i < length (ss_instances g). full_sync put remove i first g"
    and full2: "\<forall>i < length (ss_instances g). full_sync put remove i second (fold (sync_step put remove) first g)"
  defines "h \<equiv> fold (sync_step put remove) (first @ second) g"
  shows "registry_event (ss_registry h) a = last_event g a
    \<and> (\<forall>i < length (ss_instances g). held_at h i a = alive (last_event g a))"
proof -
  define m where "m = fold (sync_step put remove) first g"
  let ?K = "last_event g a"
  have zero: "0 < length (ss_instances g)" using assms(3) by simp
  have t1: "in_time g first" using t by simp
  note M = run_splits [OF g t zero, folded m_def]
  have len: "length (ss_instances m) = length (ss_instances g)" using M(4) by (simp add: same_removals_def)
  have bm: "bounded ?K a m" by (rule M(6) [OF bounded_last])
  have "?K \<le> registry_event (ss_registry m) a"
  proof (rule last_event_reached)
    show "registry_event (ss_registry g) a \<le> registry_event (ss_registry m) a" by (rule M(5))
    show "held_at g i a \<le> registry_event (ss_registry m) a \<and> removed_at g i a \<le> registry_event (ss_registry m) a"
      if "i < length (ss_instances g)" for i
      using full_sync_delivers(1,2) [OF g t1 that, folded m_def] full1 that by blast
  qed
  then have K: "registry_event (ss_registry m) a = ?K" using bm by (simp add: bounded_def)
  have h: "h = fold (sync_step put remove) second m" by (simp add: h_def m_def)
  have "held_at h i a = alive ?K" if i: "i < length (ss_instances g)" for i
  proof -
    have im: "i < length (ss_instances m)" using i len by simp
    obtain rest k where k: "h = fold (sync_step put remove) rest k" "system_ok k" "in_time k rest" "i < length (ss_instances k)"
      "pending_at k i = None" "held_at k i a = alive ?K" "registry_event (ss_registry k) a = ?K" "bounded ?K a k"
      using full_sync_delivers(3) [OF M(1,2) im _ K bm] full2 i unfolding h m_def by blast
    have "pending_ok (ss_registry k) (ss_instances k ! i) R" for R using k(5) by (simp add: pending_ok_def)
    then show ?thesis unfolding k(1) by (intro settled_run [OF k(2,3,4,7,8)] k(6))
  qed
  moreover have "registry_event (ss_registry h) a = ?K"
  proof -
    have t2: "in_time m (second @ [])" using M(2) by simp
    have z: "0 < length (ss_instances m)" using zero len by simp
    note H = run_splits [OF M(1) t2 z, folded h]
    show ?thesis using H(5) [of a] H(6) [OF bm] K by (simp add: bounded_def)
  qed
  ultimately show ?thesis by blast
qed

end

text \<open>
  C11. Instances that share a registry end on the same accounts. Whatever the instances and the registry hold at first,
  however their syncs interleave and however many of them fail half way, let all their logins carry the time of
  their grant, and each sync begin at a time past the removals its instance has recorded. Once every instance has
  completed a sync, and after that every instance has completed another, begun and ended since, the registry holds
  the last event of each alias that anybody knew of, and every instance holds exactly that login, or no file when the
  last event is a removal. That each has completed two is not enough: one that did both before the others
  began has not heard from them.
\<close>

theorem instances_converge:
  assumes "reference_backend put remove" and "system_ok g" and "in_time g (first @ second)" and "ss_instances g \<noteq> []"
    and "\<forall>i < length (ss_instances g). full_sync put remove i first g"
    and "\<forall>i < length (ss_instances g). full_sync put remove i second (fold (sync_step put remove) first g)"
  shows "registry_event (ss_registry (fold (sync_step put remove) (first @ second) g)) a = last_event g a
    \<and> (\<forall>i < length (ss_instances g). held_at (fold (sync_step put remove) (first @ second) g) i a = alive (last_event g a))"
  using account_registry.converge [OF reference_registry [OF assms(1)] assms(2-6)] .

definition sample_system :: "unit sync_system" where
  "sample_system = \<lparr>ss_registry = sample_registry, ss_instances =
     [\<lparr>im_files = sample_files, im_sync = new_account_sync None, im_pending = None\<rparr>,
      \<lparr>im_files = \<lparr>af_files = [(''a'', sample_cred ''a'' ''stale'' (Some 5) 99), (''b'', sample_cred ''b'' ''undone'' (Some 20) 60)],
         af_removals = []\<rparr>, im_sync = new_account_sync None, im_pending = None\<rparr>]\<rparr>"

definition sample_round :: "ms \<Rightarrow> sync_op list" where
  "sample_round t = [Begin_sync 0 t [], Begin_sync 1 t [], End_sync 0 (t + 1) True [], End_sync 1 (t + 1) True []]"

lemma sample_system_ok: "system_ok sample_system"
proof -
  have "files_ok (im_files (ss_instances sample_system ! 1))"
    by (auto simp: sample_system_def files_ok_def sample_cred_def map_wf_def isRegistryRecord_def dated_def split: if_splits)
  then show ?thesis
    using sample_ok by (simp add: system_ok_def instance_ok_def pending_ok_def sample_system_def)
qed

lemma sample_round_full:
  assumes "pending_at g 0 = None" and "pending_at (sync_step put remove (Begin_sync 0 t []) g) 1 = None"
  shows "\<forall>i < (2::nat). full_sync put remove i (sample_round t) g"
proof -
  have "full_sync put remove 0 (sample_round t) g"
    unfolding full_sync_def sample_round_def
    by (rule exI [of _ "[]"], rule exI [of _ t], rule exI [of _ "[Begin_sync 1 t []]"], rule exI [of _ "t + 1"],
        rule exI [of _ "[End_sync 1 (t + 1) True []]"]) (simp add: assms)
  moreover have "full_sync put remove 1 (sample_round t) g"
    unfolding full_sync_def sample_round_def
    by (rule exI [of _ "[Begin_sync 0 t []]"], rule exI [of _ t], rule exI [of _ "[End_sync 0 (t + 1) True []]"],
        rule exI [of _ "t + 1"], rule exI [of _ "[]"]) (use assms in simp)
  ultimately show ?thesis by (auto simp: less_2_cases_iff)
qed

theorem instances_converge_witness:
  "registry_event (ss_registry (fold (sync_step worker_put worker_remove) (sample_round 40 @ sample_round 50) sample_system)) ''a'' = Granted 30 90
    \<and> held_at (fold (sync_step worker_put worker_remove) (sample_round 40 @ sample_round 50) sample_system) 0 ''a'' = Granted 30 90
    \<and> held_at (fold (sync_step worker_put worker_remove) (sample_round 40 @ sample_round 50) sample_system) 1 ''a'' = Granted 30 90"
proof -
  let ?m = "fold (sync_step worker_put worker_remove) (sample_round 40) sample_system"
  have b: "reference_backend (worker_put :: unit cred \<Rightarrow> _) worker_remove" by (simp add: reference_backend_def)
  have t: "in_time sample_system (sample_round 40 @ sample_round 50)"
    by (auto simp: in_time_def op_in_time_def clock_ahead_def sample_round_def sample_system_def sample_files_def split: if_splits)
  have n: "length (ss_instances sample_system) = 2" "ss_instances sample_system \<noteq> []" by (simp_all add: sample_system_def)
  have f1: "\<forall>i < length (ss_instances sample_system). full_sync worker_put worker_remove i (sample_round 40) sample_system"
    unfolding n by (rule sample_round_full; code_simp)
  have f2: "\<forall>i < length (ss_instances sample_system). full_sync worker_put worker_remove i (sample_round 50) ?m"
    unfolding n by (rule sample_round_full; code_simp)
  have "last_event sample_system ''a'' = Granted 30 90" by code_simp
  then show ?thesis
    using instances_converge [OF b sample_system_ok t n(2) f1 f2, of "''a''"] by (simp add: n)
qed

end
