(* ===== verification/Refresh_Lock.thy ===== *)
theory Refresh_Lock
  imports Account_Store
begin

text \<open>
  The refresh of an account's token when several instances share the account (\<open>accounts.ts\<close>, the lock service in
  \<open>redis-lock/server.mjs\<close> and \<open>cloudflare/refresh-lock/worker.mjs\<close>). A refresh token works once, so an instance asks
  for a lock before it exchanges one, and leaves the new credentials with the lock for the others to adopt.
\<close>

section \<open>The lock service\<close>

text \<open>The lock with the end of its lease, and the credentials left by the last release with the time they were left.\<close>

record 'r lock_store =
  ls_lock :: "(string \<times> ms) option"
  ls_creds :: "('r cred \<times> ms) option"

definition CREDS_KEEP_MS :: ms where "CREDS_KEEP_MS = 30 * 86400000"

definition lease_ms :: "ms option \<Rightarrow> ms" where
  "lease_ms ttlMs = (case ttlMs of Some t \<Rightarrow> min (max t 1000) 60000 | None \<Rightarrow> 20000)"

definition cachedCredentials :: "ms \<Rightarrow> 'r lock_store \<Rightarrow> 'r cred option" where
  "cachedCredentials now s =
     (case ls_creds s of Some (c, at_) \<Rightarrow> (if now - at_ < CREDS_KEEP_MS then Some c else None) | None \<Rightarrow> None)"

definition newer_cached :: "ms \<Rightarrow> live_seat \<Rightarrow> 'r lock_store \<Rightarrow> 'r cred option" where
  "newer_cached now current s =
     (case cachedCredentials now s of Some c \<Rightarrow> (if isNewer (stamp_of c) current then Some c else None) | None \<Rightarrow> None)"

datatype 'r lock_answer = Adopt "'r cred" | Acquired string | Held ms

text \<open>The Cloudflare worker: each request is one step of the object.\<close>

definition worker_acquire :: "ms \<Rightarrow> string \<Rightarrow> ms option \<Rightarrow> live_seat \<Rightarrow> 'r lock_store \<Rightarrow> 'r lock_answer \<times> 'r lock_store" where
  "worker_acquire now lockId ttlMs current s =
     (case newer_cached now current s of
        Some c \<Rightarrow> (Adopt c, s)
      | None \<Rightarrow>
          (case ls_lock s of
             Some (l, e) \<Rightarrow>
               (if e > now then (Held (e - now), s) else (Acquired lockId, s\<lparr>ls_lock := Some (lockId, now + lease_ms ttlMs)\<rparr>))
           | None \<Rightarrow> (Acquired lockId, s\<lparr>ls_lock := Some (lockId, now + lease_ms ttlMs)\<rparr>)))"

definition worker_release :: "ms \<Rightarrow> string \<Rightarrow> 'r cred option \<Rightarrow> 'r lock_store \<Rightarrow> bool \<times> 'r lock_store" where
  "worker_release now lockId credentials s =
     (case ls_lock s of
        None \<Rightarrow> (False, s)
      | Some (l, _) \<Rightarrow>
          (if l \<noteq> lockId then (False, s)
           else let s1 = s\<lparr>ls_lock := None\<rparr>
                in (True, (case credentials of None \<Rightarrow> s1 | Some c \<Rightarrow> s1\<lparr>ls_creds := Some (c, now)\<rparr>))))"

definition worker_peek :: "ms \<Rightarrow> live_seat \<Rightarrow> 'r lock_store \<Rightarrow> 'r cred option" where
  "worker_peek now current s = newer_cached now current s"

text \<open>The Redis server: a request is two commands, and those of other requests may run in between.\<close>

definition redis_acquire_get :: "ms \<Rightarrow> live_seat \<Rightarrow> 'r lock_store \<Rightarrow> 'r lock_answer option" where
  "redis_acquire_get now current s = map_option Adopt (newer_cached now current s)"

definition redis_acquire_set :: "ms \<Rightarrow> string \<Rightarrow> ms option \<Rightarrow> 'r lock_store \<Rightarrow> 'r lock_answer \<times> 'r lock_store" where
  "redis_acquire_set now lockId ttlMs s =
     (case ls_lock s of
        Some (l, e) \<Rightarrow>
          (if e > now then (Held (e - now), s) else (Acquired lockId, s\<lparr>ls_lock := Some (lockId, now + lease_ms ttlMs)\<rparr>))
      | None \<Rightarrow> (Acquired lockId, s\<lparr>ls_lock := Some (lockId, now + lease_ms ttlMs)\<rparr>))"

definition redis_release_del :: "ms \<Rightarrow> string \<Rightarrow> 'r lock_store \<Rightarrow> bool \<times> 'r lock_store" where
  "redis_release_del now lockId s =
     (case ls_lock s of
        Some (l, e) \<Rightarrow> (if e > now \<and> l = lockId then (True, s\<lparr>ls_lock := None\<rparr>) else (False, s))
      | None \<Rightarrow> (False, s))"

definition redis_release_set :: "ms \<Rightarrow> 'r cred option \<Rightarrow> 'r lock_store \<Rightarrow> 'r lock_store" where
  "redis_release_set now credentials s = (case credentials of None \<Rightarrow> s | Some c \<Rightarrow> s\<lparr>ls_creds := Some (c, now)\<rparr>)"

text \<open>One request after the other, the two services give the same answers while the lease lasts.\<close>

definition redis_acquire :: "ms \<Rightarrow> string \<Rightarrow> ms option \<Rightarrow> live_seat \<Rightarrow> 'r lock_store \<Rightarrow> 'r lock_answer \<times> 'r lock_store" where
  "redis_acquire now lockId ttlMs current s =
     (case redis_acquire_get now current s of Some r \<Rightarrow> (r, s) | None \<Rightarrow> redis_acquire_set now lockId ttlMs s)"

definition redis_release :: "ms \<Rightarrow> string \<Rightarrow> 'r cred option \<Rightarrow> 'r lock_store \<Rightarrow> bool \<times> 'r lock_store" where
  "redis_release now lockId credentials s =
     (let (gone, s1) = redis_release_del now lockId s in if gone then (True, redis_release_set now credentials s1) else (False, s1))"

lemma redis_acquire_worker: "redis_acquire now l ttl cur s = worker_acquire now l ttl cur s"
  by (auto simp: redis_acquire_def redis_acquire_get_def redis_acquire_set_def worker_acquire_def split: option.split)

lemma redis_release_worker:
  "(\<And>l e. ls_lock s = Some (l, e) \<Longrightarrow> e > now) \<Longrightarrow> redis_release now lockId c s = worker_release now lockId c s"
  by (auto simp: redis_release_def redis_release_del_def redis_release_set_def worker_release_def Let_def split: option.split)

section \<open>The client\<close>

definition MAX_ATTEMPTS :: nat where "MAX_ATTEMPTS = 8"
definition LOCK_DOWN_DEFER_MS :: ms where "LOCK_DOWN_DEFER_MS = 20 * 60 * 1000"
definition ADOPTED_MIN_LIFE_MS :: ms where "ADOPTED_MIN_LIFE_MS = 5 * 60 * 1000"
definition lock_ttl :: "ms option" where "lock_ttl = Some 20000"

text \<open>What one answer of the service makes the client do; \<open>None\<close> is no answer. An adopted login is saved first.\<close>

datatype 'r refresh_next =
    Defer_refresh | Exchange_direct "'r cred" | Return_adopted "'r cred" | Ask_again "'r cred" "'r cred option" ms
  | Exchange_locked "'r cred" string

definition refresh_next :: "ms \<Rightarrow> 'r cred \<Rightarrow> 'r lock_answer option \<Rightarrow> 'r refresh_next" where
  "refresh_next now c answer =
     (case answer of
        None \<Rightarrow> (if sc_expiresAt c - now > LOCK_DOWN_DEFER_MS then Defer_refresh else Exchange_direct c)
      | Some (Adopt d) \<Rightarrow> (if sc_expiresAt d - now \<ge> ADOPTED_MIN_LIFE_MS then Return_adopted d else Ask_again d (Some d) 0)
      | Some (Acquired l) \<Rightarrow> Exchange_locked c l
      | Some (Held w) \<Rightarrow> Ask_again c None (min w 3000))"

text \<open>The attempts of \<open>doRefreshAccountTokenDistributed\<close> up to the exchange, given the time and answer of each.\<close>

fun refresh_attempts :: "nat \<Rightarrow> 'r cred \<Rightarrow> (ms \<times> 'r lock_answer option) list \<Rightarrow> 'r refresh_next" where
  "refresh_attempts 0 c answers = Exchange_direct c"
| "refresh_attempts (Suc n) c [] = Ask_again c None 0"
| "refresh_attempts (Suc n) c ((now, a) # answers) =
     (case refresh_next now c a of Ask_again d _ _ \<Rightarrow> refresh_attempts n d answers | r \<Rightarrow> r)"

record token_grant =
  tg_access :: string
  tg_refresh :: string
  tg_expires_in :: int

definition refreshed :: "ms \<Rightarrow> token_grant \<Rightarrow> 'r cred \<Rightarrow> 'r cred" where
  "refreshed now g c =
     c\<lparr>sc_accessToken := tg_access g, sc_refreshToken := tg_refresh g, sc_expiresAt := now + tg_expires_in g * 1000\<rparr>"

text \<open>\<open>adoptSharedCredentials\<close>: the answer of the peek is compared with the file as it is when it arrives.\<close>

definition adoptSharedCredentials ::
  "string \<Rightarrow> live_seat \<Rightarrow> 'r cred option \<Rightarrow> 'r account_files \<Rightarrow> 'r cred option \<times> 'r account_files" where
  "adoptSharedCredentials alias local shared f =
     (case shared of
        None \<Rightarrow> (None, f)
      | Some c \<Rightarrow>
          (if sc_alias c \<noteq> alias \<or> \<not> isValidAccountAlias alias then (None, f)
           else (case loadAccount alias f of
                   None \<Rightarrow> (None, f)
                 | Some d \<Rightarrow>
                     (if credentialsAreNewer (stamp_of c) (stamp_of d) then (Some c, write_file c f)
                      else if credentialsAreNewer (stamp_of d) local then (Some d, f) else (None, f)))))"

end
