(* ===== verification/Refresh_Protocol.thy ===== *)
theory Refresh_Protocol
  imports Refresh_Lock
begin

text \<open>
  Instances that refresh one shared account through the lock of the Cloudflare worker, as a system whose steps
  interleave: while the worker answers and leases outlast their holders, no refresh token is presented again once it has
  been exchanged, and no instance is left behind with a spent one. The Redis service leaves a gap.
\<close>

section \<open>The system\<close>

datatype 'r refresh_phase =
  Resting | Asking nat "'r cred" | Exchanging "'r cred" "string option" | Releasing string "'r cred option"

text \<open>An instance with its files; \<open>rf_lease\<close> only records when the lease it was last given ends.\<close>

record 'r refresher =
  rf_files :: "'r account_files"
  rf_phase :: "'r refresh_phase"
  rf_lease :: ms

text \<open>The log holds the refresh tokens presented to the token server and whether each was exchanged.\<close>

record 'r refresh_system =
  ry_lock :: "'r lock_store"
  ry_instances :: "'r refresher list"
  ry_log :: "(string \<times> bool) list"

datatype refresh_op =
    Start_refresh nat
  | Ask nat ms bool string
  | Exchange nat ms "token_grant option"
  | Release nat ms bool
  | Peek_shared nat ms live_seat

fun refresher_of :: "refresh_op \<Rightarrow> nat" where
  "refresher_of (Start_refresh i) = i"
| "refresher_of (Ask i _ _ _) = i"
| "refresher_of (Exchange i _ _) = i"
| "refresher_of (Release i _ _) = i"
| "refresher_of (Peek_shared i _ _) = i"

text \<open>An account read from a file has a valid alias, so the exception of \<open>saveAccount\<close> does not arise.\<close>

definition save_login :: "'r cred \<Rightarrow> 'r account_files \<Rightarrow> 'r account_files" where
  "save_login c f = opt_or (saveAccount c f) f"

definition start_refresher :: "string \<Rightarrow> 'r refresher \<Rightarrow> 'r refresher" where
  "start_refresher a im =
     (case (rf_phase im, loadAccount a (rf_files im)) of
        (Resting, Some c) \<Rightarrow> im\<lparr>rf_phase := Asking MAX_ATTEMPTS c\<rparr> | _ \<Rightarrow> im)"

definition follow_next :: "ms \<Rightarrow> nat \<Rightarrow> 'r refresh_next \<Rightarrow> 'r refresher \<Rightarrow> 'r refresher" where
  "follow_next now n r im =
     (case r of
        Defer_refresh \<Rightarrow> im\<lparr>rf_phase := Resting\<rparr>
      | Exchange_direct c \<Rightarrow> im\<lparr>rf_phase := Exchanging c None\<rparr>
      | Return_adopted d \<Rightarrow> im\<lparr>rf_files := save_login d (rf_files im), rf_phase := Resting\<rparr>
      | Ask_again d adopted w \<Rightarrow>
          im\<lparr>rf_files := (case adopted of Some d' \<Rightarrow> save_login d' (rf_files im) | None \<Rightarrow> rf_files im), rf_phase := Asking n d\<rparr>
      | Exchange_locked c l \<Rightarrow> im\<lparr>rf_phase := Exchanging c (Some l), rf_lease := now + lease_ms lock_ttl\<rparr>)"

definition ask_refresher :: "ms \<Rightarrow> bool \<Rightarrow> string \<Rightarrow> 'r lock_store \<Rightarrow> 'r refresher \<Rightarrow> 'r lock_store \<times> 'r refresher" where
  "ask_refresher now up lockId s im =
     (case rf_phase im of
        Asking 0 c \<Rightarrow> (s, im\<lparr>rf_phase := Exchanging c None\<rparr>)
      | Asking (Suc n) c \<Rightarrow>
          (if up then let (ans, s1) = worker_acquire now lockId lock_ttl (stamp_of c) s
                      in (s1, follow_next now n (refresh_next now c (Some ans)) im)
           else (s, follow_next now n (refresh_next now c None) im))
      | _ \<Rightarrow> (s, im))"

definition exchange_refresher :: "ms \<Rightarrow> token_grant option \<Rightarrow> 'r refresher \<Rightarrow> 'r refresher \<times> (string \<times> bool) list" where
  "exchange_refresher now g im =
     (case rf_phase im of
        Exchanging c l \<Rightarrow>
          (let u = map_option (\<lambda>g. refreshed now g c) g
           in (im\<lparr>rf_files := (case u of Some d \<Rightarrow> save_login d (rf_files im) | None \<Rightarrow> rf_files im),
                  rf_phase := (case l of Some k \<Rightarrow> Releasing k u | None \<Rightarrow> Resting)\<rparr>,
               [(sc_refreshToken c, g \<noteq> None)]))
      | _ \<Rightarrow> (im, []))"

definition release_refresher :: "ms \<Rightarrow> bool \<Rightarrow> 'r lock_store \<Rightarrow> 'r refresher \<Rightarrow> 'r lock_store \<times> 'r refresher" where
  "release_refresher now delivered s im =
     (case rf_phase im of
        Releasing l u \<Rightarrow> ((if delivered then snd (worker_release now l u s) else s), im\<lparr>rf_phase := Resting\<rparr>)
      | _ \<Rightarrow> (s, im))"

definition peek_refresher :: "string \<Rightarrow> ms \<Rightarrow> live_seat \<Rightarrow> 'r lock_store \<Rightarrow> 'r refresher \<Rightarrow> 'r refresher" where
  "peek_refresher a now seat s im =
     im\<lparr>rf_files := snd (adoptSharedCredentials a seat (worker_peek now seat s) (rf_files im))\<rparr>"

definition refresher_step ::
  "string \<Rightarrow> refresh_op \<Rightarrow> 'r lock_store \<Rightarrow> 'r refresher \<Rightarrow> 'r lock_store \<times> 'r refresher \<times> (string \<times> bool) list" where
  "refresher_step a op' s im =
     (case op' of
        Start_refresh _ \<Rightarrow> (s, start_refresher a im, [])
      | Ask _ now up l \<Rightarrow> (let (s1, im1) = ask_refresher now up l s im in (s1, im1, []))
      | Exchange _ now g \<Rightarrow> (let (im1, es) = exchange_refresher now g im in (s, im1, es))
      | Release _ now delivered \<Rightarrow> (let (s1, im1) = release_refresher now delivered s im in (s1, im1, []))
      | Peek_shared _ now seat \<Rightarrow> (s, peek_refresher a now seat s im, []))"

definition refresh_step :: "string \<Rightarrow> refresh_op \<Rightarrow> 'r refresh_system \<Rightarrow> 'r refresh_system" where
  "refresh_step a op' g =
     (let i = refresher_of op' in if i < length (ry_instances g) then
        let (s, im, es) = refresher_step a op' (ry_lock g) (ry_instances g ! i)
        in \<lparr>ry_lock = s, ry_instances = (ry_instances g)[i := im], ry_log = ry_log g @ es\<rparr>
      else g)"

section \<open>When the lock can keep its promise\<close>

fun holds_lock :: "'r refresh_phase \<Rightarrow> string option" where
  "holds_lock (Exchanging c l) = l"
| "holds_lock (Releasing l u) = Some l"
| "holds_lock _ = None"

text \<open>
  The conditions on a run: the service answers, no instance asks nine times in vain, whoever holds the lock is done
  and heard before the lease ends, credentials are not asked for a month after the last refresh, and
  the token server hands out tokens never seen before that outlive those they replace.
\<close>

definition leases_run :: "ms \<Rightarrow> 'r refresh_system \<Rightarrow> bool" where
  "leases_run now g \<longleftrightarrow> (\<forall>im \<in> set (ry_instances g). holds_lock (rf_phase im) \<noteq> None \<longrightarrow> now < rf_lease im)"

definition grant_fits :: "ms \<Rightarrow> token_grant \<Rightarrow> (string \<times> bool) list \<Rightarrow> 'r refresh_phase \<Rightarrow> bool" where
  "grant_fits now g es p \<longleftrightarrow> (\<forall>c l. p = Exchanging c l \<longrightarrow>
     tg_refresh g \<notin> insert (sc_refreshToken c) (fst ` set es) \<and> sc_expiresAt c < sc_expiresAt (refreshed now g c))"

definition op_fine :: "'r refresh_system \<Rightarrow> refresh_op \<Rightarrow> bool" where
  "op_fine g op' \<longleftrightarrow> refresher_of op' < length (ry_instances g) \<and>
     (case op' of
        Start_refresh _ \<Rightarrow> True
      | Ask i now up l \<Rightarrow> leases_run now g \<and> up \<and> (\<forall>c. rf_phase (ry_instances g ! i) \<noteq> Asking 0 c)
          \<and> (\<forall>c t. ls_creds (ry_lock g) = Some (c, t) \<longrightarrow> now - t < CREDS_KEEP_MS)
      | Exchange i now r \<Rightarrow> leases_run now g \<and> (\<forall>x. r = Some x \<longrightarrow> grant_fits now x (ry_log g) (rf_phase (ry_instances g ! i)))
      | Release i now delivered \<Rightarrow> leases_run now g \<and> delivered
      | Peek_shared _ _ _ \<Rightarrow> True)"

primrec fine_run :: "string \<Rightarrow> 'r refresh_system \<Rightarrow> refresh_op list \<Rightarrow> bool" where
  "fine_run a g [] = True"
| "fine_run a g (op' # ops) = (op_fine g op' \<and> fine_run a (refresh_step a op' g) ops)"

definition spent_once :: "(string \<times> bool) list \<Rightarrow> bool" where
  "spent_once es \<longleftrightarrow> (\<forall>k < length es. (fst (es ! k), True) \<notin> set (take k es))"

lemma spent_once_Nil [simp]: "spent_once []"
  by (simp add: spent_once_def)

lemma spent_once_snoc [simp]: "spent_once (es @ [(t, b)]) \<longleftrightarrow> spent_once es \<and> (t, True) \<notin> set es"
  by (auto simp: spent_once_def less_Suc_eq nth_append)

section \<open>The invariant\<close>

text \<open>\<open>cur\<close> is the login last issued; every other copy in the system is the same or expires earlier.\<close>

definition same_login :: "'r cred \<Rightarrow> 'r cred \<Rightarrow> bool" where
  "same_login cur d \<longleftrightarrow> sc_refreshToken d = sc_refreshToken cur \<and> sc_expiresAt d = sc_expiresAt cur"

definition copy_of :: "string \<Rightarrow> 'r cred \<Rightarrow> 'r cred \<Rightarrow> bool" where
  "copy_of a cur d \<longleftrightarrow> sc_alias d = a \<and> sc_grantedAt d = sc_grantedAt cur \<and> 0 < sc_expiresAt d
     \<and> (same_login cur d \<or> sc_expiresAt d < sc_expiresAt cur)"

fun phase_creds :: "'r refresh_phase \<Rightarrow> 'r cred set" where
  "phase_creds Resting = {}"
| "phase_creds (Asking n c) = {c}"
| "phase_creds (Exchanging c l) = {c}"
| "phase_creds (Releasing l u) = set_option u"

definition copies :: "string \<Rightarrow> 'r refresher \<Rightarrow> 'r cred set" where
  "copies a im = set_option (loadAccount a (rf_files im)) \<union> phase_creds (rf_phase im)"

fun phase_current :: "'r cred \<Rightarrow> 'r refresh_phase \<Rightarrow> bool" where
  "phase_current cur (Exchanging c l) = (l \<noteq> None \<and> same_login cur c)"
| "phase_current cur (Releasing l (Some u)) = same_login cur u"
| "phase_current cur _ = True"

fun unshared :: "'r refresh_phase \<Rightarrow> bool" where
  "unshared (Releasing l (Some u)) = True"
| "unshared _ = False"

definition lock_held :: "'r refresher list \<Rightarrow> (string \<times> ms) option \<Rightarrow> bool" where
  "lock_held ims lk \<longleftrightarrow> (\<forall>im \<in> set ims. holds_lock (rf_phase im) = None)
     \<or> (\<exists>k < length ims. \<exists>l. holds_lock (rf_phase (ims ! k)) = Some l \<and> lk = Some (l, rf_lease (ims ! k))
         \<and> (\<forall>j < length ims. j \<noteq> k \<longrightarrow> holds_lock (rf_phase (ims ! j)) = None))"

definition cache_current :: "'r cred \<Rightarrow> 'r lock_store \<Rightarrow> bool" where
  "cache_current cur s \<longleftrightarrow> (\<exists>c t. ls_creds s = Some (c, t) \<and> same_login cur c)"

definition caught_up :: "string \<Rightarrow> 'r cred \<Rightarrow> 'r lock_store \<Rightarrow> 'r refresher list \<Rightarrow> bool" where
  "caught_up a cur s ims \<longleftrightarrow> cache_current cur s \<or> (\<forall>im \<in> set ims. \<forall>d \<in> copies a im. same_login cur d)"

definition refresh_inv :: "string \<Rightarrow> 'r cred \<Rightarrow> 'r refresh_system \<Rightarrow> bool" where
  "refresh_inv a cur g \<longleftrightarrow>
     lock_held (ry_instances g) (ls_lock (ry_lock g))
     \<and> (\<forall>im \<in> set (ry_instances g). phase_current cur (rf_phase im) \<and> (\<forall>d \<in> copies a im. copy_of a cur d))
     \<and> (\<forall>c t. ls_creds (ry_lock g) = Some (c, t) \<longrightarrow> copy_of a cur c)
     \<and> ((\<forall>im \<in> set (ry_instances g). \<not> unshared (rf_phase im)) \<longrightarrow> caught_up a cur (ry_lock g) (ry_instances g))
     \<and> spent_once (ry_log g) \<and> (sc_refreshToken cur, True) \<notin> set (ry_log g)"

lemma nobody_holds: "(\<forall>im \<in> set ims. P im) \<longleftrightarrow> (\<forall>j < length ims. P (ims ! j))"
  by (simp add: all_set_conv_all_nth)

lemma lock_keep:
  assumes "lock_held ims lk" and "i < length ims"
    and "holds_lock (rf_phase im') = holds_lock (rf_phase (ims ! i))" "rf_lease im' = rf_lease (ims ! i)"
  shows "lock_held (ims[i := im']) lk"
proof -
  have "holds_lock (rf_phase (ims[i := im'] ! j)) = holds_lock (rf_phase (ims ! j)) \<and> rf_lease (ims[i := im'] ! j) = rf_lease (ims ! j)" for j
    using assms(2-4) by (cases "j = i") simp_all
  then show ?thesis using assms(1) by (simp add: lock_held_def nobody_holds)
qed

lemma lock_drop:
  assumes "lock_held ims lk" and "i < length ims" and "holds_lock (rf_phase (ims ! i)) \<noteq> None" "holds_lock (rf_phase im') = None"
  shows "lock_held (ims[i := im']) lk'"
proof -
  have "\<forall>j < length ims. j \<noteq> i \<longrightarrow> holds_lock (rf_phase (ims ! j)) = None"
    using assms(1-3) unfolding lock_held_def nobody_holds by metis
  then have "\<forall>j < length ims. holds_lock (rf_phase (ims[i := im'] ! j)) = None"
    using assms(2,4) by (simp add: nth_list_update)
  then show ?thesis by (simp add: lock_held_def nobody_holds)
qed

lemma lock_take:
  assumes "\<forall>im \<in> set ims. holds_lock (rf_phase im) = None" and "i < length ims" and "holds_lock (rf_phase im') = Some l"
    and "lk = Some (l, rf_lease im')"
  shows "lock_held (ims[i := im']) lk"
  unfolding lock_held_def
  using assms by (intro disjI2 exI [of _ i]) (simp add: nobody_holds)

lemma lock_free:
  assumes "lock_held ims lk" and "\<forall>im \<in> set ims. holds_lock (rf_phase im) \<noteq> None \<longrightarrow> now < rf_lease im"
    and "\<And>l e. lk = Some (l, e) \<Longrightarrow> e \<le> now"
  shows "\<forall>im \<in> set ims. holds_lock (rf_phase im) = None"
proof (rule ccontr)
  assume "\<not> ?thesis"
  then obtain k l where k: "k < length ims" "holds_lock (rf_phase (ims ! k)) = Some l" "lk = Some (l, rf_lease (ims ! k))"
    using assms(1) unfolding lock_held_def by blast
  then have "now < rf_lease (ims ! k)" using assms(2) by (simp add: nobody_holds)
  with assms(3) [OF k(3)] show False by simp
qed

lemma stamps_newer:
  "0 < e \<Longrightarrow> isNewer (g, e') (g, e) \<longleftrightarrow> e < e'" "credentialsAreNewer (g, e') (g, e) \<longleftrightarrow> e < e'"
  by (auto simp: isNewer_def split: option.split) (cases g; simp)+

lemma copy_newer:
  assumes "copy_of a cur c" and "copy_of a cur d"
  shows "isNewer (stamp_of c) (stamp_of d) \<longleftrightarrow> sc_expiresAt d < sc_expiresAt c"
    and "credentialsAreNewer (stamp_of c) (stamp_of d) \<longleftrightarrow> sc_expiresAt d < sc_expiresAt c"
  using assms by (simp_all add: copy_of_def stamp_of_def stamps_newer)

lemma copy_latest: "\<lbrakk>copy_of a cur d; sc_expiresAt cur \<le> sc_expiresAt d\<rbrakk> \<Longrightarrow> same_login cur d"
  by (auto simp: copy_of_def)

lemma inv_same_cur:
  assumes inv: "refresh_inv a cur g" and i: "i < length (ry_instances g)"
    and creds: "ls_creds s' = ls_creds (ry_lock g)" and lock: "lock_held ((ry_instances g)[i := im']) (ls_lock s')"
    and ph: "phase_current cur (rf_phase im')" "unshared (rf_phase im') = unshared (rf_phase (ry_instances g ! i))"
    and cps: "\<And>d. d \<in> copies a im' \<Longrightarrow> d \<in> copies a (ry_instances g ! i)
        \<or> copy_of a cur d \<and> (\<exists>d0 \<in> copies a (ry_instances g ! i). sc_expiresAt d0 < sc_expiresAt d)"
    and es: "\<forall>(t, b) \<in> set es. t = sc_refreshToken cur \<and> \<not> b" "length es \<le> 1"
  shows "refresh_inv a cur \<lparr>ry_lock = s', ry_instances = (ry_instances g)[i := im'], ry_log = ry_log g @ es\<rparr>"
proof -
  let ?ims = "ry_instances g"
  have im: "?ims ! i \<in> set ?ims" using i by simp
  have sub: "im \<in> set (?ims[i := im']) \<Longrightarrow> im = im' \<or> im \<in> set ?ims" for im
    using set_update_subset_insert [of ?ims i im'] by auto
  have new: "\<forall>d \<in> copies a im'. copy_of a cur d" using inv im cps unfolding refresh_inv_def by blast
  have old: "\<exists>im2 \<in> set (?ims[i := im']). unshared (rf_phase im2)" if "im \<in> set ?ims" "unshared (rf_phase im)" for im
    using that ph(2) i by (metis in_set_conv_nth length_list_update nth_list_update_eq nth_list_update_neq)
  have caught: "caught_up a cur s' (?ims[i := im'])" if "\<forall>im \<in> set (?ims[i := im']). \<not> unshared (rf_phase im)"
  proof -
    have c: "caught_up a cur (ry_lock g) ?ims" using inv old that unfolding refresh_inv_def by blast
    show ?thesis
    proof (cases "cache_current cur (ry_lock g)")
      case True
      then show ?thesis by (simp add: caught_up_def cache_current_def creds)
    next
      case False
      then have all: "\<forall>im \<in> set ?ims. \<forall>d \<in> copies a im. same_login cur d" using c by (simp add: caught_up_def)
      have "same_login cur d" if "d \<in> copies a im'" for d
        using cps [OF that]
      proof
        assume "d \<in> copies a (?ims ! i)"
        then show ?thesis using all im by blast
      next
        assume n: "copy_of a cur d \<and> (\<exists>d0 \<in> copies a (?ims ! i). sc_expiresAt d0 < sc_expiresAt d)"
        then obtain d0 where "d0 \<in> copies a (?ims ! i)" "sc_expiresAt d0 < sc_expiresAt d" by blast
        then have "sc_expiresAt cur < sc_expiresAt d" using all im by (auto simp: same_login_def)
        then show ?thesis using n copy_latest [of a cur d] by (simp add: less_imp_le)
      qed
      then show ?thesis using all sub unfolding caught_up_def by blast
    qed
  qed
  have "spent_once (ry_log g @ es) \<and> (sc_refreshToken cur, True) \<notin> set (ry_log g @ es)"
  proof (cases es)
    case Nil
    then show ?thesis using inv by (simp add: refresh_inv_def)
  next
    case (Cons e es')
    then have "es = [(sc_refreshToken cur, False)]" using es by (cases e) auto
    then show ?thesis using inv by (simp add: refresh_inv_def)
  qed
  moreover have "\<forall>im \<in> set (?ims[i := im']). phase_current cur (rf_phase im) \<and> (\<forall>d \<in> copies a im. copy_of a cur d)"
    using inv ph(1) new sub unfolding refresh_inv_def by blast
  moreover have "\<forall>c t. ls_creds s' = Some (c, t) \<longrightarrow> copy_of a cur c" using inv by (simp add: refresh_inv_def creds)
  ultimately show ?thesis using lock caught by (simp add: refresh_inv_def)
qed

lemma save_login_load:
  "loadAccount a (save_login d f) = (if sc_alias d = a \<and> isValidAccountAlias a then Some d else loadAccount a f)"
  by (auto simp: save_login_def saveAccount_def opt_or_def loadAccount_def write_file_def update_conv' split: if_splits)

lemma inv_parts:
  assumes "refresh_inv a cur g" and "i < length (ry_instances g)"
  shows "lock_held (ry_instances g) (ls_lock (ry_lock g))" and "phase_current cur (rf_phase (ry_instances g ! i))"
    and "d \<in> copies a (ry_instances g ! i) \<Longrightarrow> copy_of a cur d"
    and "ls_creds (ry_lock g) = Some (c, t) \<Longrightarrow> copy_of a cur c"
    and "\<forall>im \<in> set (ry_instances g). \<not> unshared (rf_phase im) \<Longrightarrow> caught_up a cur (ry_lock g) (ry_instances g)"
  using assms nth_mem [OF assms(2)] unfolding refresh_inv_def by blast+

lemma newer_cachedD: "newer_cached now st s = Some c \<Longrightarrow> isNewer (stamp_of c) st \<and> (\<exists>t. ls_creds s = Some (c, t))"
  by (auto simp: newer_cached_def cachedCredentials_def split: option.splits if_splits)

lemma holds_unshared: "holds_lock p = None \<Longrightarrow> \<not> unshared p"
  by (cases p rule: unshared.cases) auto

lemma step_keeps_start:
  assumes inv: "refresh_inv a cur g" and i: "i < length (ry_instances g)"
  shows "refresh_inv a cur (refresh_step a (Start_refresh i) g)"
proof -
  let ?im = "ry_instances g ! i"
  have lk: "lock_held ((ry_instances g)[i := start_refresher a ?im]) (ls_lock (ry_lock g))"
    by (rule lock_keep [OF inv_parts(1) [OF inv i] i]) (auto simp: start_refresher_def split: refresh_phase.split option.split)
  have "refresh_inv a cur \<lparr>ry_lock = ry_lock g, ry_instances = (ry_instances g)[i := start_refresher a ?im], ry_log = ry_log g @ []\<rparr>"
    using inv_parts(2) [OF inv i]
    by (intro inv_same_cur [OF inv i refl lk])
      (auto simp: start_refresher_def copies_def split: refresh_phase.splits option.splits)
  then show ?thesis using i by (simp add: refresh_step_def refresher_step_def)
qed

lemma step_keeps_peek:
  assumes inv: "refresh_inv a cur g" and i: "i < length (ry_instances g)"
  shows "refresh_inv a cur (refresh_step a (Peek_shared i now seat) g)"
proof -
  let ?im = "ry_instances g ! i" and ?im' = "peek_refresher a now seat (ry_lock g) (ry_instances g ! i)"
  have lk: "lock_held ((ry_instances g)[i := ?im']) (ls_lock (ry_lock g))"
    by (rule lock_keep [OF inv_parts(1) [OF inv i] i]) (simp_all add: peek_refresher_def)
  have "refresh_inv a cur \<lparr>ry_lock = ry_lock g, ry_instances = (ry_instances g)[i := ?im'], ry_log = ry_log g @ []\<rparr>"
  proof (rule inv_same_cur [OF inv i refl lk])
    show "phase_current cur (rf_phase ?im')" "unshared (rf_phase ?im') = unshared (rf_phase ?im)"
      using inv_parts(2) [OF inv i] by (simp_all add: peek_refresher_def)
    fix d
    assume d: "d \<in> copies a ?im'"
    show "d \<in> copies a ?im \<or> copy_of a cur d \<and> (\<exists>d0 \<in> copies a ?im. sc_expiresAt d0 < sc_expiresAt d)"
    proof (cases "d \<in> copies a ?im")
      case False
      obtain c e where c: "worker_peek now seat (ry_lock g) = Some c" "sc_alias c = a" "loadAccount a (rf_files ?im) = Some e"
          "credentialsAreNewer (stamp_of c) (stamp_of e)" "d = c"
        using d False unfolding copies_def peek_refresher_def adoptSharedCredentials_def
        by (auto simp: loadAccount_def write_file_def update_conv' split: option.splits if_splits)
      have cc: "copy_of a cur c" using newer_cachedD c(1) inv_parts(4) [OF inv i] unfolding worker_peek_def by blast
      have e: "e \<in> copies a ?im" using c(3) by (simp add: copies_def)
      have "sc_expiresAt e < sc_expiresAt c" using copy_newer(2) [OF cc inv_parts(3) [OF inv i e]] c(4) by blast
      then show ?thesis using cc e c(5) by blast
    qed simp
  qed simp_all
  then show ?thesis using i by (simp add: refresh_step_def refresher_step_def)
qed

lemma system_eta [simp]: "\<lparr>ry_lock = ry_lock g, ry_instances = ry_instances g, ry_log = ry_log g\<rparr> = (g :: 'r refresh_system)"
  by simp

lemma step_keeps_release:
  assumes inv: "refresh_inv a cur g" and i: "i < length (ry_instances g)"
  shows "refresh_inv a cur (refresh_step a (Release i now True) g)"
proof (cases "rf_phase (ry_instances g ! i)")
  case (Releasing l u)
  let ?ims = "ry_instances g" and ?s = "ry_lock g"
  let ?im = "?ims ! i" and ?s' = "snd (worker_release now l u (ry_lock g))"
  let ?im' = "?im\<lparr>rf_phase := Resting\<rparr>"
  have g': "refresh_step a (Release i now True) g = \<lparr>ry_lock = ?s', ry_instances = ?ims[i := ?im'], ry_log = ry_log g\<rparr>"
    using i Releasing by (simp add: refresh_step_def refresher_step_def release_refresher_def)
  note L = inv_parts(1) [OF inv i]
  have own: "ls_lock ?s = Some (l, rf_lease ?im)"
    using L i Releasing unfolding lock_held_def nobody_holds by (metis holds_lock.simps(2) option.distinct(1) option.inject)
  have free: "\<forall>j < length ?ims. j \<noteq> i \<longrightarrow> holds_lock (rf_phase (?ims ! j)) = None"
    using L i Releasing unfolding lock_held_def nobody_holds by (metis holds_lock.simps(2) option.distinct(1))
  have lk: "lock_held (?ims[i := ?im']) (ls_lock ?s')" by (rule lock_drop [OF L i]) (simp_all add: Releasing)
  have s': "ls_creds ?s' = (case u of Some c \<Rightarrow> Some (c, now) | None \<Rightarrow> ls_creds ?s)"
    using own by (simp add: worker_release_def split: option.split)
  show ?thesis
  proof (cases u)
    case None
    have "refresh_inv a cur \<lparr>ry_lock = ?s', ry_instances = ?ims[i := ?im'], ry_log = ry_log g @ []\<rparr>"
      by (rule inv_same_cur [OF inv i _ lk]) (use s' None Releasing in \<open>auto simp: copies_def\<close>)
    then show ?thesis by (simp add: g')
  next
    case (Some c)
    have c: "same_login cur c" using inv_parts(2) [OF inv i] Releasing Some by simp
    have cc: "copy_of a cur c" by (rule inv_parts(3) [OF inv i]) (simp add: copies_def Releasing Some)
    have "cache_current cur ?s'" using s' Some c by (simp add: cache_current_def)
    moreover have "\<forall>im \<in> set (?ims[i := ?im']). phase_current cur (rf_phase im) \<and> (\<forall>d \<in> copies a im. copy_of a cur d)"
      using inv_parts(2,3) [OF inv] i by (auto simp: nobody_holds nth_list_update copies_def)
    ultimately show ?thesis
      using inv lk s' Some cc unfolding g' by (simp add: refresh_inv_def caught_up_def)
  qed
next
  case Resting
  then show ?thesis using inv i by (simp add: refresh_step_def refresher_step_def release_refresher_def)
next
  case (Asking n c)
  then show ?thesis using inv i by (simp add: refresh_step_def refresher_step_def release_refresher_def)
next
  case (Exchanging c l)
  then show ?thesis using inv i by (simp add: refresh_step_def refresher_step_def release_refresher_def)
qed

lemma step_keeps_exchange:
  assumes inv: "refresh_inv a cur g" and i: "i < length (ry_instances g)"
    and fits: "\<And>x. r = Some x \<Longrightarrow> grant_fits now x (ry_log g) (rf_phase (ry_instances g ! i))"
    and a: "isValidAccountAlias a"
  shows "\<exists>cur'. refresh_inv a cur' (refresh_step a (Exchange i now r) g)"
proof (cases "rf_phase (ry_instances g ! i)")
  case (Exchanging c lo)
  let ?ims = "ry_instances g" and ?s = "ry_lock g"
  let ?im = "?ims ! i"
  obtain l where l: "lo = Some l" and c: "same_login cur c" using inv_parts(2) [OF inv i] Exchanging by auto
  have cc: "copy_of a cur c" by (rule inv_parts(3) [OF inv i]) (simp add: copies_def Exchanging)
  note L = inv_parts(1) [OF inv i]
  have lk: "lock_held (?ims[i := im']) (ls_lock ?s)" if "rf_phase im' = Releasing l u" "rf_lease im' = rf_lease ?im" for im' u
    by (rule lock_keep [OF L i]) (simp_all add: that Exchanging l)
  show ?thesis
  proof (cases r)
    case None
    let ?im' = "?im\<lparr>rf_phase := Releasing l None\<rparr>"
    have "refresh_inv a cur \<lparr>ry_lock = ?s, ry_instances = ?ims[i := ?im'], ry_log = ry_log g @ [(sc_refreshToken c, False)]\<rparr>"
      by (rule inv_same_cur [OF inv i refl]) (use lk c Exchanging in \<open>auto simp: copies_def same_login_def\<close>)
    then show ?thesis using i None Exchanging l by (auto simp: refresh_step_def refresher_step_def exchange_refresher_def)
  next
    case (Some x)
    let ?u = "refreshed now x c"
    let ?im' = "?im\<lparr>rf_files := save_login ?u (rf_files ?im), rf_phase := Releasing l (Some ?u)\<rparr>"
    have f: "tg_refresh x \<notin> insert (sc_refreshToken c) (fst ` set (ry_log g))" "sc_expiresAt c < sc_expiresAt ?u"
      using fits [OF Some] Exchanging by (auto simp: grant_fits_def)
    have u: "sc_alias ?u = a" "sc_refreshToken ?u = tg_refresh x" "sc_grantedAt ?u = sc_grantedAt cur" "0 < sc_expiresAt ?u"
      using cc f(2) by (simp_all add: refreshed_def copy_of_def)
    have older: "copy_of a ?u d" if "copy_of a cur d" for d
      using that c f(2) u(3) unfolding copy_of_def same_login_def by auto
    have self: "copy_of a ?u ?u" using u by (simp add: copy_of_def same_login_def)
    have cps: "copies a ?im' = {?u}" using u(1) a by (simp add: copies_def save_login_load)
    have "\<forall>j < length ?ims. j \<noteq> i \<longrightarrow> holds_lock (rf_phase (?ims ! j)) = None"
      using L i Exchanging l unfolding lock_held_def nobody_holds by (metis holds_lock.simps(1) option.distinct(1))
    then have others: "phase_current v (rf_phase (?ims ! j))" if "j < length ?ims" "j \<noteq> i" for j v
      using that inv_parts(2) [OF inv that(1)] by (cases "rf_phase (?ims ! j)") auto
    have g': "refresh_step a (Exchange i now r) g = \<lparr>ry_lock = ?s, ry_instances = ?ims[i := ?im'], ry_log = ry_log g @ [(sc_refreshToken c, True)]\<rparr>"
      using i Some Exchanging l by (simp add: refresh_step_def refresher_step_def exchange_refresher_def)
    have ims: "\<forall>im \<in> set (?ims[i := ?im']). phase_current ?u (rf_phase im) \<and> (\<forall>d \<in> copies a im. copy_of a ?u d)"
      using others cps self older inv_parts(3) [OF inv] i
      by (auto simp: nobody_holds nth_list_update same_login_def)
    have un: "\<exists>im \<in> set (?ims[i := ?im']). unshared (rf_phase im)"
      using i set_update_memI [OF i, of ?im'] by (intro bexI [of _ ?im']) simp_all
    have log: "spent_once (ry_log g @ [(sc_refreshToken c, True)]) \<and> (sc_refreshToken ?u, True) \<notin> set (ry_log g @ [(sc_refreshToken c, True)])"
      using inv c f(1) u(2) by (auto simp: refresh_inv_def same_login_def image_iff)
    have "\<forall>c' t. ls_creds ?s = Some (c', t) \<longrightarrow> copy_of a ?u c'" using inv_parts(4) [OF inv i] older by blast
    then have "refresh_inv a ?u (refresh_step a (Exchange i now r) g)"
      using ims un log lk [of ?im' "Some ?u"] unfolding g' refresh_inv_def by auto
    then show ?thesis by blast
  qed
next
  case Resting
  then show ?thesis using inv i by (auto simp: refresh_step_def refresher_step_def exchange_refresher_def)
next
  case (Asking n c)
  then show ?thesis using inv i by (auto simp: refresh_step_def refresher_step_def exchange_refresher_def)
next
  case (Releasing l u)
  then show ?thesis using inv i by (auto simp: refresh_step_def refresher_step_def exchange_refresher_def)
qed

lemma step_keeps_ask:
  assumes inv: "refresh_inv a cur g" and i: "i < length (ry_instances g)"
    and leases: "leases_run now g" and n: "\<forall>c. rf_phase (ry_instances g ! i) \<noteq> Asking 0 c"
    and kept: "\<forall>c t. ls_creds (ry_lock g) = Some (c, t) \<longrightarrow> now - t < CREDS_KEEP_MS"
    and a: "isValidAccountAlias a"
  shows "refresh_inv a cur (refresh_step a (Ask i now True lid) g)"
proof (cases "\<exists>n c. rf_phase (ry_instances g ! i) = Asking (Suc n) c")
  case True
  then obtain m c where ph: "rf_phase (ry_instances g ! i) = Asking (Suc m) c" by blast
  let ?ims = "ry_instances g" and ?s = "ry_lock g"
  let ?im = "?ims ! i"
  have c: "c \<in> copies a ?im" by (simp add: copies_def ph)
  have cc: "copy_of a cur c" by (rule inv_parts(3) [OF inv i c])
  note L = inv_parts(1) [OF inv i]
  have idle: "lock_held (?ims[i := im']) (ls_lock ?s)" if "holds_lock (rf_phase im') = None" "rf_lease im' = rf_lease ?im" for im'
    by (rule lock_keep [OF L i]) (simp_all add: that ph)
  obtain ans s1 where w: "worker_acquire now lid lock_ttl (stamp_of c) ?s = (ans, s1)" by force
  let ?im' = "follow_next now m (refresh_next now c (Some ans)) ?im"
  have g': "refresh_step a (Ask i now True lid) g = \<lparr>ry_lock = s1, ry_instances = ?ims[i := ?im'], ry_log = ry_log g @ []\<rparr>"
    using i by (simp add: refresh_step_def refresher_step_def ask_refresher_def ph w)
  show ?thesis
  proof (cases ans)
    case (Adopt d)
    have s1: "s1 = ?s" and nd: "newer_cached now (stamp_of c) ?s = Some d"
      using w Adopt by (auto simp: worker_acquire_def split: option.splits if_splits)
    have dd: "copy_of a cur d" using newer_cachedD [OF nd] inv_parts(4) [OF inv i] by blast
    have less: "sc_expiresAt c < sc_expiresAt d"
      using newer_cachedD [OF nd] copy_newer(1) [OF dd cc] by blast
    have al: "sc_alias d = a" using dd by (simp add: copy_of_def)
    show ?thesis
      unfolding g' Adopt s1
    proof (rule inv_same_cur [OF inv i refl])
      show "lock_held (?ims[i := follow_next now m (refresh_next now c (Some (Adopt d))) ?im]) (ls_lock ?s)"
        by (rule idle) (simp_all add: refresh_next_def follow_next_def)
      fix d'
      assume "d' \<in> copies a (follow_next now m (refresh_next now c (Some (Adopt d))) ?im)"
      then have "d' = d" using al a by (auto simp: copies_def refresh_next_def follow_next_def save_login_load split: if_splits)
      then show "d' \<in> copies a ?im \<or> copy_of a cur d' \<and> (\<exists>d0 \<in> copies a ?im. sc_expiresAt d0 < sc_expiresAt d')"
        using dd c less by blast
    qed (simp_all add: refresh_next_def follow_next_def ph)
  next
    case (Held r)
    have s1: "s1 = ?s" using w Held by (auto simp: worker_acquire_def split: option.splits if_splits)
    show ?thesis
      unfolding g' Held s1
    proof (rule inv_same_cur [OF inv i refl])
      show "lock_held (?ims[i := follow_next now m (refresh_next now c (Some (Held r))) ?im]) (ls_lock ?s)"
        by (rule idle) (simp_all add: refresh_next_def follow_next_def)
    qed (auto simp: refresh_next_def follow_next_def ph copies_def)
  next
    case (Acquired l)
    have s1: "s1 = ?s\<lparr>ls_lock := Some (lid, now + lease_ms lock_ttl)\<rparr>" and l: "l = lid"
      and nn: "newer_cached now (stamp_of c) ?s = None" and fr: "\<And>k e. ls_lock ?s = Some (k, e) \<Longrightarrow> e \<le> now"
      using w Acquired by (auto simp: worker_acquire_def split: option.splits if_splits)
    have none: "\<forall>im \<in> set ?ims. holds_lock (rf_phase im) = None"
      by (rule lock_free [OF L _ fr]) (use leases in \<open>simp add: leases_run_def\<close>)
    have up: "caught_up a cur ?s ?ims" using inv_parts(5) [OF inv i] none holds_unshared by blast
    have same: "same_login cur c"
    proof (cases "cache_current cur ?s")
      case True
      then obtain d t where d: "ls_creds ?s = Some (d, t)" "same_login cur d" unfolding cache_current_def by blast
      have "cachedCredentials now ?s = Some d" using d(1) kept by (simp add: cachedCredentials_def)
      then have "\<not> isNewer (stamp_of d) (stamp_of c)" using nn by (simp add: newer_cached_def split: if_splits)
      then have "sc_expiresAt cur \<le> sc_expiresAt c"
        using copy_newer(1) [OF inv_parts(4) [OF inv i d(1)] cc] d(2) by (simp add: same_login_def)
      then show ?thesis by (rule copy_latest [OF cc])
    next
      case False
      then show ?thesis using up c i by (auto simp: caught_up_def)
    qed
    show ?thesis
      unfolding g' Acquired s1 l
    proof (rule inv_same_cur [OF inv i])
      show "lock_held (?ims[i := follow_next now m (refresh_next now c (Some (Acquired lid))) ?im])
          (ls_lock (?s\<lparr>ls_lock := Some (lid, now + lease_ms lock_ttl)\<rparr>))"
        by (rule lock_take [OF none i]) (simp_all add: refresh_next_def follow_next_def)
    qed (use same in \<open>auto simp: refresh_next_def follow_next_def ph copies_def\<close>)
  qed
next
  case False
  then have "ask_refresher now True lid (ry_lock g) (ry_instances g ! i) = (ry_lock g, ry_instances g ! i)"
    using n unfolding ask_refresher_def by (auto split: refresh_phase.split nat.split)
  then show ?thesis using inv i by (simp add: refresh_step_def refresher_step_def)
qed

section \<open>No token is spent twice\<close>

lemma fine_step:
  assumes "\<exists>cur. refresh_inv a cur g" and "op_fine g op'" and a: "isValidAccountAlias a"
  shows "\<exists>cur. refresh_inv a cur (refresh_step a op' g)"
proof -
  obtain cur where inv: "refresh_inv a cur g" using assms(1) by blast
  have i: "refresher_of op' < length (ry_instances g)" using assms(2) by (simp add: op_fine_def)
  show ?thesis
  proof (cases op')
    case (Start_refresh i)
    then show ?thesis using step_keeps_start [OF inv] assms(2) i by auto
  next
    case (Ask i now up l)
    then show ?thesis using step_keeps_ask [OF inv _ _ _ _ a, of i now l] assms(2) by (auto simp: op_fine_def)
  next
    case (Exchange i now r)
    then show ?thesis using step_keeps_exchange [OF inv _ _ a, of i r now] assms(2) by (simp add: op_fine_def)
  next
    case (Release i now d)
    then show ?thesis using step_keeps_release [OF inv, of i now] assms(2) by (auto simp: op_fine_def)
  next
    case (Peek_shared i now seat)
    then show ?thesis using step_keeps_peek [OF inv, of i now seat] i by auto
  qed
qed

lemma fine_run_inv:
  "\<lbrakk>\<exists>cur. refresh_inv a cur g; fine_run a g ops; isValidAccountAlias a\<rbrakk> \<Longrightarrow> \<exists>cur. refresh_inv a cur (fold (refresh_step a) ops g)"
proof (induction ops arbitrary: g)
  case (Cons op' ops)
  then show ?case using fine_step [of a g op'] by simp
qed simp

text \<open>Every instance has a copy of one login, or an older one while the service holds the newest.\<close>

definition one_family :: "string \<Rightarrow> 'r cred \<Rightarrow> 'r refresh_system \<Rightarrow> bool" where
  "one_family a cur g \<longleftrightarrow> ry_log g = []
     \<and> (\<forall>im \<in> set (ry_instances g). rf_phase im = Resting \<and> (\<forall>c. loadAccount a (rf_files im) = Some c \<longrightarrow> copy_of a cur c))
     \<and> (\<forall>c t. ls_creds (ry_lock g) = Some (c, t) \<longrightarrow> copy_of a cur c)
     \<and> (cache_current cur (ry_lock g) \<or> (\<forall>im \<in> set (ry_instances g). \<forall>c. loadAccount a (rf_files im) = Some c \<longrightarrow> same_login cur c))"

lemma one_family_inv: "one_family a cur g \<Longrightarrow> refresh_inv a cur g"
  unfolding one_family_def refresh_inv_def lock_held_def caught_up_def copies_def by auto

lemma handed_over:
  assumes inv: "refresh_inv a cur g" and im: "im \<in> set (ry_instances g)" and c: "loadAccount a (rf_files im) = Some c"
    and rest: "\<forall>im \<in> set (ry_instances g). rf_phase im = Resting"
    and kept: "\<forall>c t. ls_creds (ry_lock g) = Some (c, t) \<longrightarrow> now - t < CREDS_KEEP_MS"
  shows "same_login cur c \<or> (\<exists>d. worker_peek now (stamp_of c) (ry_lock g) = Some d \<and> same_login cur d)"
proof -
  obtain i where i: "i < length (ry_instances g)" "im = ry_instances g ! i" using im by (auto simp: in_set_conv_nth)
  have cm: "c \<in> copies a im" using c by (simp add: copies_def)
  have cc: "copy_of a cur c" using inv_parts(3) [OF inv i(1)] cm i(2) by blast
  have "\<forall>im \<in> set (ry_instances g). \<not> unshared (rf_phase im)" using rest by simp
  then have up: "caught_up a cur (ry_lock g) (ry_instances g)" by (rule inv_parts(5) [OF inv i(1)])
  show ?thesis
  proof (cases "cache_current cur (ry_lock g) \<and> \<not> same_login cur c")
    case True
    then obtain d t where d: "ls_creds (ry_lock g) = Some (d, t)" "same_login cur d" unfolding cache_current_def by blast
    have "sc_expiresAt c < sc_expiresAt d" using True cc d(2) by (auto simp: copy_of_def same_login_def)
    then have "isNewer (stamp_of d) (stamp_of c)" using copy_newer(1) [OF inv_parts(4) [OF inv i(1) d(1)] cc] by blast
    then have "worker_peek now (stamp_of c) (ry_lock g) = Some d"
      using d(1) kept by (simp add: worker_peek_def newer_cached_def cachedCredentials_def)
    then show ?thesis using d(2) by blast
  next
    case False
    then show ?thesis using up cm im by (auto simp: caught_up_def)
  qed
qed

text \<open>
  C9. Instances that refresh one account through the Cloudflare worker's lock never spend a token twice, and never lose
  it. Let all start from one login, or older copies of it the worker can replace, with nobody refreshing. Let the run
  be fine: the service answers every question and every release is delivered, whoever holds the lock is done before
  its lease ends, nobody runs out of the eight attempts, no one asks when the login the worker keeps is over a month
  old, and the token server hands out tokens never seen before that outlive those they replace. Then, whatever the
  order of the steps, no refresh token is presented again once it has been exchanged; and whenever no refresh is
  under way and the kept login is not over a month old, there is one unspent login that each instance with a login
  holds or is handed when it next asks. The Redis service does not promise this: it gives the lock and the login in
  two commands (\<open>redis_handoff_gap\<close>).
\<close>

theorem refresh_token_spent_once:
  assumes "isValidAccountAlias a" and "one_family a cur0 g" and "fine_run a g ops"
  defines "h \<equiv> fold (refresh_step a) ops g"
  shows "spent_once (ry_log h) \<and> (\<exists>cur. (sc_refreshToken cur, True) \<notin> set (ry_log h) \<and>
      ((\<forall>im \<in> set (ry_instances h). rf_phase im = Resting) \<longrightarrow> (\<forall>c t. ls_creds (ry_lock h) = Some (c, t) \<longrightarrow> now - t < CREDS_KEEP_MS) \<longrightarrow>
        (\<forall>im \<in> set (ry_instances h). \<forall>c. loadAccount a (rf_files im) = Some c \<longrightarrow>
           same_login cur c \<or> (\<exists>d. worker_peek now (stamp_of c) (ry_lock h) = Some d \<and> same_login cur d))))"
proof -
  obtain cur where inv: "refresh_inv a cur h"
    using fine_run_inv [OF _ assms(3,1)] one_family_inv [OF assms(2)] unfolding h_def by blast
  have "spent_once (ry_log h)" "(sc_refreshToken cur, True) \<notin> set (ry_log h)" using inv by (simp_all add: refresh_inv_def)
  then show ?thesis using handed_over [OF inv] by blast
qed

definition sample_refreshers :: "unit refresh_system" where
  "sample_refreshers =
     (let c = sample_cred ''a'' ''first'' (Some 1) 50; f = \<lparr>af_files = [(''a'', c)], af_removals = []\<rparr>;
          im = \<lparr>rf_files = f, rf_phase = Resting, rf_lease = 0\<rparr>
      in \<lparr>ry_lock = \<lparr>ls_lock = None, ls_creds = None\<rparr>, ry_instances = [im, im], ry_log = []\<rparr>)"

definition sample_refresh_run :: "refresh_op list" where
  "sample_refresh_run =
     [Start_refresh 0, Start_refresh 1, Ask 0 10 True ''x'', Ask 1 11 True ''y'',
      Exchange 0 12 (Some \<lparr>tg_access = ''second'', tg_refresh = ''second'', tg_expires_in = 28800\<rparr>), Release 0 13 True, Ask 1 14 True ''z'']"

theorem refresh_token_spent_once_witness:
  "spent_once (ry_log (fold (refresh_step ''a'') sample_refresh_run sample_refreshers))
    \<and> ry_log (fold (refresh_step ''a'') sample_refresh_run sample_refreshers) = [(''first'', True)]"
proof -
  have v: "isValidAccountAlias ''a''" by code_simp
  have one: "one_family ''a'' (sample_cred ''a'' ''first'' (Some 1) 50) sample_refreshers"
    by (simp add: one_family_def sample_refreshers_def Let_def sample_cred_def copy_of_def same_login_def loadAccount_def)
  have fine: "fine_run ''a'' sample_refreshers sample_refresh_run"
    using v by (simp add: sample_refresh_run_def sample_refreshers_def Let_def sample_cred_def op_fine_def leases_run_def grant_fits_def
        refresh_step_def refresher_step_def start_refresher_def ask_refresher_def exchange_refresher_def release_refresher_def
        follow_next_def refresh_next_def worker_acquire_def worker_release_def newer_cached_def cachedCredentials_def loadAccount_def
        refreshed_def save_login_def saveAccount_def write_file_def opt_or_def MAX_ATTEMPTS_def lock_ttl_def lease_ms_def
        numeral_eq_Suc CREDS_KEEP_MS_def)
  show ?thesis using conjunct1 [OF refresh_token_spent_once [OF v one fine]] by (rule conjI) code_simp
qed

section \<open>Waiting out a lease\<close>

text \<open>
  The attempts are enough to outwait one holder. A client that is told to wait, again and again, for one and
  the same lease, and sleeps as long as it is told up to three seconds, has an attempt left when the lease is over.
\<close>

theorem waiting_outlasts_lease:
  assumes lease: "\<And>k. k < length ts \<Longrightarrow> ls_lock (s k) = Some (l, taken + lease_ms lock_ttl)" and "ts \<noteq> [] \<longrightarrow> taken \<le> hd ts"
    and held: "\<And>k. k < length ts \<Longrightarrow> fst (worker_acquire (ts ! k) lid lock_ttl (stamp_of c) (s k)) = Held (w k)"
    and sleeps: "\<And>k. Suc k < length ts \<Longrightarrow>
      \<exists>pause. refresh_next (ts ! k) c (Some (Held (w k))) = Ask_again c None pause \<and> ts ! k + pause \<le> ts ! Suc k"
  shows "length ts < MAX_ATTEMPTS"
proof (rule ccontr)
  assume "\<not> length ts < MAX_ATTEMPTS"
  then have n: "8 \<le> length ts" by (simp add: MAX_ATTEMPTS_def)
  let ?e = "taken + 20000"
  have e: "taken + lease_ms lock_ttl = ?e" by (simp add: lease_ms_def lock_ttl_def)
  have w: "ts ! k < ?e \<and> w k = ?e - ts ! k" if "k < length ts" for k
    using held [OF that] lease [OF that] e by (auto simp: worker_acquire_def split: option.splits if_splits)
  have "taken + 3000 * int k \<le> ts ! k" if "k < length ts" for k
    using that
  proof (induction k)
    case 0
    then show ?case using assms(2) by (cases ts) auto
  next
    case (Suc k)
    have "ts ! k + min (w k) 3000 \<le> ts ! Suc k" using sleeps [OF Suc.prems] by (auto simp: refresh_next_def)
    then show ?case using Suc w [of k] w [OF Suc.prems] by auto
  qed
  from this [of 7] have "taken + 21000 \<le> ts ! 7" using n by simp
  then show False using w [of 7] n by simp
qed

theorem waiting_outlasts_lease_witness:
  "length [5000::ms, 8000, 11000, 14000, 17000, 20000] < MAX_ATTEMPTS"
proof (rule waiting_outlasts_lease [where s = "\<lambda>_. \<lparr>ls_lock = Some (''x'', 1000 + lease_ms lock_ttl), ls_creds = None\<rparr>" and l = "''x''"
      and taken = 1000 and lid = "''y''" and c = "sample_cred ''a'' ''first'' (Some 1) 50" and w = "\<lambda>k. 16000 - 3000 * int k"])
  let ?ts = "[5000::ms, 8000, 11000, 14000, 17000, 20000]"
  fix k
  show "ls_lock \<lparr>ls_lock = Some (''x'', 1000 + lease_ms lock_ttl), ls_creds = None\<rparr> = Some (''x'', 1000 + lease_ms lock_ttl)" by simp
  show "?ts \<noteq> [] \<longrightarrow> 1000 \<le> hd ?ts" by simp
  assume k: "k < length ?ts"
  then have "k = 0 \<or> k = 1 \<or> k = 2 \<or> k = 3 \<or> k = 4 \<or> k = 5" by auto
  then show "fst (worker_acquire (?ts ! k) ''y'' lock_ttl (stamp_of (sample_cred ''a'' ''first'' (Some 1) 50))
      \<lparr>ls_lock = Some (''x'', 1000 + lease_ms lock_ttl), ls_creds = None\<rparr>) = Held (16000 - 3000 * int k)"
    by (elim disjE) (simp_all add: worker_acquire_def newer_cached_def cachedCredentials_def lease_ms_def lock_ttl_def)
next
  let ?ts = "[5000::ms, 8000, 11000, 14000, 17000, 20000]"
  fix k
  assume k: "Suc k < length ?ts"
  then have "k = 0 \<or> k = 1 \<or> k = 2 \<or> k = 3 \<or> k = 4" by auto
  then show "\<exists>pause. refresh_next (?ts ! k) (sample_cred ''a'' ''first'' (Some 1) 50) (Some (Held (16000 - 3000 * int k)))
      = Ask_again (sample_cred ''a'' ''first'' (Some 1) 50) None pause \<and> ?ts ! k + pause \<le> ?ts ! Suc k"
    by (elim disjE) (simp_all add: refresh_next_def)
qed

section \<open>Where the promise is not kept\<close>

text \<open>
  The Redis server frees the lock before it leaves the new login. A client whose two commands fall in between is
  given the lock for a token that is already spent; the worker hands it the new login.
\<close>

theorem redis_handoff_gap:
  "let old = sample_cred ''a'' ''first'' (Some 1) 50; new = sample_cred ''a'' ''second'' (Some 1) 28800000;
       s = \<lparr>ls_lock = Some (''x'', 20000), ls_creds = None\<rparr>;
       s1 = snd (redis_release_del 10 ''x'' s)
   in fst (redis_acquire 10 ''y'' lock_ttl (stamp_of old) s1) = Acquired ''y''
     \<and> fst (redis_acquire 10 ''y'' lock_ttl (stamp_of old) (redis_release_set 10 (Some new) s1)) = Adopt new
     \<and> fst (worker_acquire 10 ''y'' lock_ttl (stamp_of old) (snd (worker_release 10 ''x'' (Some new) s))) = Adopt new"
  by code_simp

text \<open>
  The exchange writes the file whatever has become of it: an account removed while the token server was asked is
  back, and a login made in the meantime is replaced by the older one.
\<close>

theorem refresh_undoes_later_work:
  "let old = sample_cred ''a'' ''first'' (Some 1) 50; login = sample_cred ''a'' ''login'' (Some 5) 90;
       f = \<lparr>af_files = [(''a'', old)], af_removals = []\<rparr>;
       u = refreshed 10 \<lparr>tg_access = ''second'', tg_refresh = ''second'', tg_expires_in = 28800\<rparr> old
   in loadAccount ''a'' (save_login u (snd (removeAccount ''a'' 9 True f))) = Some u
     \<and> loadAccount ''a'' (save_login u (save_login login f)) = Some u \<and> credentialsAreNewer (stamp_of login) (stamp_of u)"
  by code_simp

end
