(* ===== verification/Tool_Map.thy ===== *)
theory Tool_Map
  imports Responses_Request
begin

text \<open>
  The table of client tools (\<open>TOOL_MAP\<close> of \<open>cc-template.ts\<close>): which tool of Claude Code stands for a client's tool, and
  how the arguments of a call are written for the one and for the other. Arguments are JSON values; \<open>String(x)\<close> of a
  value that is no string is an argument. A translation that throws is \<open>None\<close>.
\<close>

section \<open>Arguments\<close>

type_synonym translation = "jvalue \<Rightarrow> jvalue option"

definition arg :: "jvalue \<Rightarrow> string \<Rightarrow> jvalue option" where
  "arg a k = jprop (Some a) k"

definition jtext :: "string \<Rightarrow> jvalue" where "jtext s = J_str (lit s)"

text \<open>\<open>a.x || a.y || d\<close>, \<open>a.x ?? d\<close> and \<open>...(a.x ? { k: a.x } : {})\<close>.\<close>

definition first_true :: "jvalue \<Rightarrow> string list \<Rightarrow> jvalue option" where
  "first_true a ks = (case List.find (\<lambda>k. js_truthy (arg a k)) ks of Some k \<Rightarrow> arg a k | None \<Rightarrow> None)"

definition pick :: "jvalue \<Rightarrow> string list \<Rightarrow> jvalue \<Rightarrow> jvalue" where
  "pick a ks d = opt_or (first_true a ks) d"

definition nullish_or :: "jvalue \<Rightarrow> string \<Rightarrow> jvalue \<Rightarrow> jvalue" where
  "nullish_or a k d = (case arg a k of None \<Rightarrow> d | Some J_null \<Rightarrow> d | Some v \<Rightarrow> v)"

definition when_true :: "string \<Rightarrow> jvalue option \<Rightarrow> jobject" where
  "when_true k v = (case v of Some x \<Rightarrow> [(lit k, x)] | None \<Rightarrow> [])"

text \<open>The fields of a translation are read off the arguments, which throws when they are \<open>null\<close>.\<close>

definition reads :: "(jvalue \<Rightarrow> jobject) \<Rightarrow> translation" where
  "reads f a = (if a = J_null then None else Some (J_obj (f a)))"

definition named :: "(string \<times> jvalue) list \<Rightarrow> jobject" where
  "named kvs = map (\<lambda>(k, v). (lit k, v)) kvs"

text \<open>\<open>Number(x)\<close>; a result that is not finite is \<open>null\<close> once printed.\<close>

fun number_value :: "jvalue option \<Rightarrow> jsnum" where
  "number_value None = NaN"
| "number_value (Some J_null) = Fin 0"
| "number_value (Some (J_bool b)) = Fin (if b then 1 else 0)"
| "number_value (Some (J_num n)) = Fin n"
| "number_value (Some (J_str s)) =
     (let t = text_trim s in if list_all (\<lambda>c. 0 \<le> c \<and> c < 256) t then js_number (map char_of t) else NaN)"
| "number_value (Some (J_arr [])) = Fin 0"
| "number_value (Some (J_arr [J_null])) = Fin 0"
| "number_value (Some (J_arr [J_bool b])) = NaN"
| "number_value (Some (J_arr [v])) = number_value (Some v)"
| "number_value (Some (J_arr (v # w # vs))) = NaN"
| "number_value (Some (J_obj m)) = NaN"

definition number_sum :: "jsnum \<Rightarrow> jsnum \<Rightarrow> rat \<Rightarrow> rat \<Rightarrow> jvalue" where
  "number_sum x y sign c = (case (x, y) of (Fin m, Fin n) \<Rightarrow> J_num (m + sign * n + c) | _ \<Rightarrow> J_null)"

section \<open>Mappings\<close>

record tool_mapping =
  tm_ccTool :: utext
  tm_args :: "translation option"
  tm_back :: "translation option"
  tm_fields :: "utext list option"
  tm_score :: "nat option"

definition tool_entry :: "string \<Rightarrow> translation option \<Rightarrow> translation option \<Rightarrow> nat option \<Rightarrow> tool_mapping" where
  "tool_entry cc f b score = \<lparr>tm_ccTool = lit cc, tm_args = f, tm_back = b, tm_fields = None, tm_score = score\<rparr>"

text \<open>The shapes most entries share: each field with the names it may have on the other side.\<close>

definition from_names :: "(string \<times> string list) list \<Rightarrow> translation" where
  "from_names fs = reads (\<lambda>a. named (map (\<lambda>(k, ks). (k, pick a ks (jtext []))) fs))"

definition to_names :: "(string \<times> string) list \<Rightarrow> translation" where
  "to_names fs = reads (\<lambda>a. named (map (\<lambda>(k, c). (k, nullish_or a c (jtext []))) fs))"

definition two_way :: "string \<Rightarrow> (string \<times> string list) list \<Rightarrow> (string \<times> string) list \<Rightarrow> tool_mapping" where
  "two_way cc fs bs = tool_entry cc (Some (from_names fs)) (Some (to_names bs)) None"

definition scored :: "nat \<Rightarrow> tool_mapping \<Rightarrow> tool_mapping" where
  "scored n m = m\<lparr>tm_score := Some n\<rparr>"

definition WEBFETCH_DEFAULT_PROMPT :: string where
  "WEBFETCH_DEFAULT_PROMPT = ''Extract and return the main content of this page.''"

definition js_string :: "(jvalue \<Rightarrow> utext) \<Rightarrow> jvalue \<Rightarrow> utext" where
  "js_string str v = (case v of J_str s \<Rightarrow> s | _ \<Rightarrow> str v)"

definition webFetchArgs :: "(jvalue \<Rightarrow> utext) \<Rightarrow> jvalue option \<Rightarrow> jvalue option \<Rightarrow> jobject" where
  "webFetchArgs str url clientPrompt =
     named [(''url'', J_str (js_string str (if js_truthy url then the url else jtext []))),
            (''prompt'', (case clientPrompt of
               Some (J_str s) \<Rightarrow> (if text_trim s \<noteq> [] then J_str s else jtext WEBFETCH_DEFAULT_PROMPT)
             | _ \<Rightarrow> jtext WEBFETCH_DEFAULT_PROMPT))]"

definition or_prop :: "jvalue \<Rightarrow> string list \<Rightarrow> jvalue option" where
  "or_prop a ks = (case List.find (\<lambda>k. js_truthy (arg a k)) (butlast ks) of Some k \<Rightarrow> arg a k | None \<Rightarrow> arg a (last ks))"

subsection \<open>Commands\<close>

definition bash_args :: "string list \<Rightarrow> string \<Rightarrow> translation" where
  "bash_args ks descr = reads (\<lambda>a. named [(''command'', pick a ks (jtext []))] @ when_true ''description'' (first_true a [descr]))"

definition bash_back :: "(string \<times> jvalue) list \<Rightarrow> translation" where
  "bash_back extra = reads (\<lambda>a. named ((''command'', nullish_or a ''command'' (jtext [])) # extra)
     @ named [(''description'', pick a [''description''] (nullish_or a ''command'' (jtext [])))])"

definition bash_like :: "string list \<Rightarrow> tool_mapping" where
  "bash_like ks = tool_entry ''Bash'' (Some (bash_args ks ''description'')) (Some (bash_back [])) None"

definition explained_back :: "(string \<times> jvalue) list \<Rightarrow> translation" where
  "explained_back extra = reads (\<lambda>a. named ((''command'', nullish_or a ''command'' (jtext [])) # extra)
     @ when_true ''explanation'' (first_true a [''description'']))"

definition command_tools :: "(string \<times> tool_mapping) list" where
  "command_tools =
     [(''bash'', bash_like [''cmd'', ''command'', ''c'']), (''exec'', bash_like [''cmd'', ''command'', ''c'']),
      (''shell'', bash_like [''cmd'', ''command'', ''c'']), (''run'', bash_like [''cmd'', ''command'']),
      (''command'', bash_like [''cmd'', ''command'']), (''terminal'', bash_like [''cmd'', ''command'']),
      (''execute_command'', tool_entry ''Bash'' (Some (bash_args [''command'', ''cmd''] ''description''))
         (Some (bash_back [(''requires_approval'', J_bool False)])) None),
      (''run_terminal_cmd'', tool_entry ''Bash'' (Some (bash_args [''command''] ''explanation''))
         (Some (explained_back [(''is_background'', J_bool False)])) None),
      (''run_command'', tool_entry ''Bash'' (Some (from_names [(''command'', [''CommandLine'', ''command''])]))
         (Some (reads (\<lambda>a. named [(''CommandLine'', nullish_or a ''command'' (jtext [])), (''Blocking'', J_bool True)]))) None),
      (''builtin_run_terminal_command'', two_way ''Bash'' [(''command'', [''command''])] [(''command'', ''command'')]),
      (''run_in_terminal'', tool_entry ''Bash'' (Some (bash_args [''command''] ''explanation'')) (Some (explained_back [])) None),
      (''execute_bash'', tool_entry ''Bash'' (Some (from_names [(''command'', [''command''])]))
         (Some (reads (\<lambda>a. named [(''command'', nullish_or a ''command'' (jtext [])), (''is_input'', jtext ''false''),
            (''security_risk'', jtext ''LOW'')]))) None),
      (''process'', scored 1 (two_way ''Bash'' [(''command'', [''action'', ''cmd''])] [(''action'', ''command'')]))]"

subsection \<open>Files\<close>

definition view_args :: translation where
  "view_args = reads (\<lambda>a. named [(''file_path'', pick a [''AbsolutePath'', ''path''] (jtext []))]
     @ when_true ''offset'' (first_true a [''StartLine''])
     @ (if js_truthy (arg a ''EndLine'') \<and> js_truthy (arg a ''StartLine'')
        then named [(''limit'', number_sum (number_value (arg a ''EndLine'')) (number_value (arg a ''StartLine'')) (-1) 1)] else []))"

definition view_back :: translation where
  "view_back = reads (\<lambda>a.
     let offset = number_value (Some (nullish_or a ''offset'' (J_num 1)))
     in named [(''AbsolutePath'', nullish_or a ''file_path'' (jtext [])), (''StartLine'', number_sum offset (Fin 0) 1 0),
               (''EndLine'', number_sum offset (number_value (Some (nullish_or a ''limit'' (J_num 200)))) 1 (-1))])"

definition read_tools :: "(string \<times> tool_mapping) list" where
  "read_tools =
     [(''read'', two_way ''Read'' [(''file_path'', [''filePath'', ''path'', ''file_path''])]
         [(''path'', ''file_path''), (''filePath'', ''file_path'')]),
      (''read_file'', two_way ''Read'' [(''file_path'', [''filePath'', ''path'', ''file_path'', ''target_file''])]
         [(''path'', ''file_path''), (''filePath'', ''file_path''), (''target_file'', ''file_path'')]),
      (''view_file'', tool_entry ''Read'' (Some view_args) (Some view_back) None),
      (''builtin_read_file'', two_way ''Read'' [(''file_path'', [''path''])] [(''path'', ''file_path'')])]"

definition write_tools :: "(string \<times> tool_mapping) list" where
  "write_tools =
     [(''write'', two_way ''Write'' [(''file_path'', [''filePath'', ''path'', ''file_path'']), (''content'', [''content''])]
         [(''path'', ''file_path''), (''filePath'', ''file_path''), (''content'', ''content'')]),
      (''write_file'', two_way ''Write'' [(''file_path'', [''filePath'', ''path'', ''file_path'']), (''content'', [''content''])]
         [(''path'', ''file_path''), (''filePath'', ''file_path''), (''content'', ''content'')]),
      (''write_to_file'', two_way ''Write''
         [(''file_path'', [''path'', ''filePath'', ''file_path'', ''TargetFile'']), (''content'', [''content'', ''CodeContent''])]
         [(''path'', ''file_path''), (''filePath'', ''file_path''), (''content'', ''content''), (''TargetFile'', ''file_path'')]),
      (''builtin_create_new_file'', two_way ''Write'' [(''file_path'', [''path'']), (''content'', [''content''])]
         [(''path'', ''file_path''), (''content'', ''content'')]),
      (''create_file'', two_way ''Write'' [(''file_path'', [''filePath'', ''file_path'', ''path'']), (''content'', [''content''])]
         [(''filePath'', ''file_path''), (''content'', ''content'')])]"

text \<open>A template string writes \<open>String(x)\<close> of what it holds.\<close>

definition search_replace_diff :: "(jvalue \<Rightarrow> utext) \<Rightarrow> jvalue \<Rightarrow> jvalue" where
  "search_replace_diff str a =
     J_str (lit ''------- SEARCH'' @ [10] @ js_string str (nullish_or a ''old_string'' (jtext [])) @ [10] @ lit ''======='' @ [10]
       @ js_string str (nullish_or a ''new_string'' (jtext [])) @ [10] @ lit ''+++++++ REPLACE'')"

definition edit_tools :: "(jvalue \<Rightarrow> utext) \<Rightarrow> (string \<times> tool_mapping) list" where
  "edit_tools str =
     [(''edit'', two_way ''Edit''
         [(''file_path'', [''filePath'', ''path'', ''file_path'']), (''old_string'', [''oldString'', ''old'', ''old_string'']),
          (''new_string'', [''newString'', ''new'', ''new_string''])]
         [(''path'', ''file_path''), (''filePath'', ''file_path''), (''old'', ''old_string''), (''oldString'', ''old_string''),
          (''new'', ''new_string''), (''newString'', ''new_string'')]),
      (''edit_file'', two_way ''Edit''
         [(''file_path'', [''file_path'', ''path'', ''target_file'', ''filePath'']), (''old_string'', [''old_string'', ''old'', ''old_str'']),
          (''new_string'', [''new_string'', ''new'', ''new_str''])]
         [(''file_path'', ''file_path''), (''old_string'', ''old_string''), (''new_string'', ''new_string'')]),
      (''replace_in_file'', tool_entry ''Edit''
         (Some (from_names [(''file_path'', [''path'', ''filePath'', ''file_path'']), (''old_string'', [''old_string'', ''old'']),
            (''new_string'', [''new_string'', ''new''])]))
         (Some (reads (\<lambda>a. named [(''path'', nullish_or a ''file_path'' (jtext [])), (''diff'', search_replace_diff str a)]))) None),
      (''apply_diff'', scored 1 (tool_entry ''Edit''
         (Some (from_names [(''file_path'', [''path'', ''file_path'']), (''old_string'', [''old_string'']), (''new_string'', [''new_string''])]))
         (Some (reads (\<lambda>a. named [(''path'', nullish_or a ''file_path'' (jtext [])), (''diff'', jtext [])]))) None)),
      (''search_replace'', two_way ''Edit''
         [(''file_path'', [''file_path'', ''path'']), (''old_string'', [''old_string'']), (''new_string'', [''new_string''])]
         [(''file_path'', ''file_path''), (''old_string'', ''old_string''), (''new_string'', ''new_string'')]),
      (''builtin_edit_existing_file'', two_way ''Edit''
         [(''file_path'', [''path'']), (''old_string'', [''old_string'']), (''new_string'', [''replacement'', ''new_string''])]
         [(''path'', ''file_path''), (''replacement'', ''new_string'')]),
      (''insert_edit_into_file'', tool_entry ''Edit''
         (Some (from_names [(''file_path'', [''filePath'', ''file_path'']), (''old_string'', [''old_string'']), (''new_string'', [''code'', ''new_string''])]))
         (Some (reads (\<lambda>a. named [(''filePath'', nullish_or a ''file_path'' (jtext [])), (''code'', nullish_or a ''new_string'' (jtext [])),
            (''explanation'', jtext [])]))) None),
      (''str_replace_editor'', tool_entry ''Edit''
         (Some (from_names [(''file_path'', [''path'']), (''old_string'', [''old_str'']), (''new_string'', [''new_str''])]))
         (Some (reads (\<lambda>a. named [(''command'', jtext ''str_replace''), (''path'', nullish_or a ''file_path'' (jtext [])),
            (''old_str'', nullish_or a ''old_string'' (jtext [])), (''new_str'', nullish_or a ''new_string'' (jtext [])),
            (''security_risk'', jtext ''LOW'')]))) None),
      (''patch'', tool_entry ''Edit''
         (Some (from_names [(''file_path'', [''path'']), (''old_string'', [''old_string'']), (''new_string'', [''new_string''])]))
         (Some (reads (\<lambda>a. named [(''mode'', jtext ''replace''), (''path'', nullish_or a ''file_path'' (jtext [])),
            (''old_string'', nullish_or a ''old_string'' (jtext [])), (''new_string'', nullish_or a ''new_string'' (jtext [])),
            (''replace_all'', J_bool False)]))) None)]"

subsection \<open>Searches\<close>

definition plain_tool :: "string \<Rightarrow> tool_mapping" where "plain_tool cc = tool_entry cc None None None"

definition glob_tools :: "(string \<times> tool_mapping) list" where
  "glob_tools =
     [(''glob'', plain_tool ''Glob''),
      (''find_files'', two_way ''Glob'' [(''pattern'', [''pattern'', ''query''])] [(''pattern'', ''pattern'')]),
      (''list_files'', tool_entry ''Glob''
         (Some (reads (\<lambda>a. named [(''pattern'', pick a [''pattern''] (jtext ''*''))] @ when_true ''path'' (first_true a [''path'']))))
         (Some (reads (\<lambda>a. named [(''pattern'', nullish_or a ''pattern'' (jtext [])), (''path'', nullish_or a ''path'' (jtext ''.'')),
            (''recursive'', J_bool False)]))) None),
      (''file_search'', two_way ''Glob'' [(''pattern'', [''glob_pattern'', ''query'', ''pattern''])]
         [(''glob_pattern'', ''pattern''), (''query'', ''pattern'')]),
      (''list_dir'', scored 3 (tool_entry ''Glob''
         (Some (reads (\<lambda>a. named [(''pattern'', jtext ''*'')] @ when_true ''path'' (first_true a [''target_directory'', ''DirectoryPath'', ''path'']))))
         (Some (reads (\<lambda>a. named (map (\<lambda>k. (k, nullish_or a ''path'' (jtext ''.''))) [''target_directory'', ''DirectoryPath'', ''path''])))) None)),
      (''find_by_name'', scored 5 (tool_entry ''Glob''
         (Some (reads (\<lambda>a. named [(''pattern'', pick a [''Pattern'', ''pattern''] (jtext ''*''))] @ when_true ''path'' (first_true a [''SearchDirectory'']))))
         (Some (reads (\<lambda>a. named [(''Pattern'', nullish_or a ''pattern'' (jtext [])), (''SearchDirectory'', nullish_or a ''path'' (jtext ''.''))]))) None)),
      (''builtin_file_glob_search'', two_way ''Glob'' [(''pattern'', [''glob'', ''pattern''])] [(''glob'', ''pattern'')]),
      (''builtin_ls'', scored 1 (tool_entry ''Glob''
         (Some (reads (\<lambda>a. named [(''pattern'', jtext ''*'')] @ when_true ''path'' (first_true a [''path'']))))
         (Some (reads (\<lambda>a. named [(''path'', nullish_or a ''path'' (jtext ''.''))]))) None))]"

text \<open>The first of \<open>Includes\<close>, when it is a list whose first entry is true, replaces the glob.\<close>

definition included_glob :: "jvalue \<Rightarrow> jvalue option" where
  "included_glob a = (case arg a ''Includes'' of
     Some (J_arr (x # xs)) \<Rightarrow> (if js_truthy (Some x) then Some x else first_true a [''glob'']) | _ \<Rightarrow> first_true a [''glob''])"

definition grep_tools :: "(string \<times> tool_mapping) list" where
  "grep_tools =
     [(''grep'', plain_tool ''Grep''),
      (''search'', tool_entry ''Grep''
         (Some (reads (\<lambda>a. named [(''pattern'', pick a [''query'', ''pattern''] (jtext []))] @ when_true ''path'' (first_true a [''path'']))))
         (Some (reads (\<lambda>a. named [(''query'', nullish_or a ''pattern'' (jtext [])), (''pattern'', nullish_or a ''pattern'' (jtext [])),
            (''path'', nullish_or a ''path'' (jtext ''.''))]))) None),
      (''search_files'', tool_entry ''Grep''
         (Some (reads (\<lambda>a. named [(''pattern'', pick a [''query'', ''pattern'', ''regex''] (jtext []))] @ when_true ''path'' (first_true a [''path''])
            @ when_true ''glob'' (first_true a [''filePattern'', ''file_pattern'']))))
         (Some (reads (\<lambda>a. named [(''query'', nullish_or a ''pattern'' (jtext [])), (''pattern'', nullish_or a ''pattern'' (jtext [])),
            (''regex'', nullish_or a ''pattern'' (jtext [])), (''path'', nullish_or a ''path'' (jtext ''.'')),
            (''filePattern'', nullish_or a ''glob'' (jtext [])), (''file_pattern'', nullish_or a ''glob'' (jtext []))]))) None),
      (''grep_search'', tool_entry ''Grep''
         (Some (reads (\<lambda>a. named [(''pattern'', pick a [''pattern'', ''query'', ''Query''] (jtext []))]
            @ when_true ''path'' (first_true a [''path'', ''SearchPath'']) @ when_true ''glob'' (included_glob a))))
         (Some (reads (\<lambda>a. named [(''pattern'', nullish_or a ''pattern'' (jtext [])), (''Query'', nullish_or a ''pattern'' (jtext [])),
            (''path'', nullish_or a ''path'' (jtext ''.'')), (''SearchPath'', nullish_or a ''path'' (jtext ''.''))]
            @ when_true ''glob'' (first_true a [''glob''])))) None),
      (''codebase_search'', scored 3 (two_way ''Grep'' [(''pattern'', [''query'', ''Query'', ''pattern''])]
         [(''query'', ''pattern''), (''Query'', ''pattern'')])),
      (''builtin_grep_search'', tool_entry ''Grep''
         (Some (reads (\<lambda>a. named [(''pattern'', pick a [''pattern''] (jtext []))] @ when_true ''path'' (first_true a [''path'']))))
         (Some (reads (\<lambda>a. named [(''pattern'', nullish_or a ''pattern'' (jtext [])), (''path'', nullish_or a ''path'' (jtext ''.''))]))) None),
      (''semantic_search'', scored 2 (two_way ''Grep'' [(''pattern'', [''query''])] [(''query'', ''pattern'')]))]"

subsection \<open>The web and the rest\<close>

definition fetch_args :: "(jvalue \<Rightarrow> utext) \<Rightarrow> string list \<Rightarrow> string list \<Rightarrow> translation" where
  "fetch_args str urls prompts = reads (\<lambda>a. webFetchArgs str (or_prop a urls) (or_prop a prompts))"

definition fetch_tool :: "(jvalue \<Rightarrow> utext) \<Rightarrow> string list \<Rightarrow> string list \<Rightarrow> tool_mapping" where
  "fetch_tool str urls prompts = tool_entry ''WebFetch'' (Some (fetch_args str urls prompts)) (Some (to_names [(''url'', ''url'')])) None"

definition web_tools :: "(jvalue \<Rightarrow> utext) \<Rightarrow> (string \<times> tool_mapping) list" where
  "web_tools str =
     [(''web_search'', two_way ''WebSearch'' [(''query'', [''query'', ''search_term'', ''q''])]
         [(''query'', ''query''), (''search_term'', ''query'')]),
      (''websearch'', two_way ''WebSearch'' [(''query'', [''query'', ''q''])] [(''query'', ''query'')]),
      (''web_fetch'', fetch_tool str [''url'', ''u''] [''prompt'']), (''webfetch'', fetch_tool str [''url'', ''u''] [''prompt'']),
      (''fetch'', fetch_tool str [''url''] [''prompt'']), (''browse'', fetch_tool str [''url''] [''prompt'']),
      (''read_url_content'', tool_entry ''WebFetch'' (Some (fetch_args str [''Url'', ''url''] [''prompt'']))
         (Some (to_names [(''Url'', ''url''), (''url'', ''url'')])) None),
      (''web_extract'', tool_entry ''WebFetch''
         (Some (reads (\<lambda>a. webFetchArgs str
            (case arg a ''urls'' of Some (J_arr us) \<Rightarrow> (case us of [] \<Rightarrow> None | u # _ \<Rightarrow> Some u) | _ \<Rightarrow> arg a ''url'') (arg a ''prompt''))))
         (Some (reads (\<lambda>a. named [(''urls'', J_arr [nullish_or a ''url'' (jtext [])])]))) None),
      (''fetch_webpage'', fetch_tool str [''url''] [''query'', ''prompt'']),
      (''search_web'', two_way ''WebSearch'' [(''query'', [''query''])] [(''query'', ''query'')]),
      (''builtin_search_web'', tool_entry ''WebSearch'' (Some (from_names [(''query'', [''query''])]))
         (Some (reads (\<lambda>a. named [(''query'', nullish_or a ''query'' (jtext [])), (''num_results'', J_num 5)]))) None),
      (''notebook'', plain_tool ''NotebookEdit''), (''notebook_edit'', plain_tool ''NotebookEdit''),
      (''browser'', fetch_tool str [''url''] [''prompt'']),
      (''enter_plan_mode'', plain_tool ''EnterPlanMode''), (''exit_plan_mode'', plain_tool ''ExitPlanMode''),
      (''enter_worktree'', tool_entry ''EnterWorktree''
         (Some (reads (\<lambda>a. case arg a ''path'' of Some v \<Rightarrow> named [(''path'', v)] | None \<Rightarrow> []))) (Some (to_names [(''path'', ''path'')])) None),
      (''exit_worktree'', plain_tool ''ExitWorktree'')]"

definition TOOL_MAP :: "(jvalue \<Rightarrow> utext) \<Rightarrow> (string \<times> tool_mapping) list" where
  "TOOL_MAP str = command_tools @ read_tools @ write_tools @ edit_tools str @ glob_tools @ grep_tools @ web_tools str"

definition tool_alias :: "(jvalue \<Rightarrow> utext) \<Rightarrow> utext \<Rightarrow> tool_mapping option" where
  "tool_alias str name = map_of (map (\<lambda>(k, m). (lit k, m)) (TOOL_MAP str)) name"

section \<open>A call survives the client\<close>

lemma arg_obj [simp]: "arg (J_obj m) k = map_of m (lit k)"
  by (simp add: arg_def jprop_def)

lemma map_of_named [simp]: "map_of (named kvs) (lit k) = map_of kvs k"
  by (induction kvs) (auto simp: named_def)

lemma when_true_simps [simp]: "when_true k None = []" "when_true k (Some v) = [(lit k, v)]"
  by (simp_all add: when_true_def)

lemma map_of_when_true [simp]: "map_of (when_true k v) (lit j) = (if j = k then v else None)"
  by (cases v) auto

lemma first_true_simps [simp]:
  "first_true a [] = None"
  "first_true a (k # ks) = (if js_truthy (arg a k) then arg a k else first_true a ks)"
  by (simp_all add: first_true_def)

lemma pick_text [simp]:
  "pick a [] d = d"
  "arg a k = Some (J_str s) \<Longrightarrow> pick a (k # ks) d = (if s = [] then pick a ks d else J_str s)"
  "arg a k = None \<Longrightarrow> pick a (k # ks) d = pick a ks d"
  by (simp_all add: pick_def opt_or_def js_truthy_def)

lemma same_text [simp]: "(if s = [] then J_str [] else J_str s) = J_str s"
  by simp

lemma nullish_text [simp]: "arg a k = Some (J_str s) \<Longrightarrow> nullish_or a k d = J_str s"
  by (simp add: nullish_or_def)

lemma jtext_Nil [simp]: "jtext [] = J_str []"
  by (simp add: jtext_def lit_def)

lemma reads_object [simp]: "a \<noteq> J_null \<Longrightarrow> reads f a = Some (J_obj (f a))"
  by (simp add: reads_def)

text \<open>The arguments without which a call of a tool of Claude Code means nothing.\<close>

definition needed_args :: "utext \<Rightarrow> string list" where
  "needed_args cc =
     (if cc = lit ''Bash'' then [''command''] else if cc = lit ''Read'' then [''file_path'']
      else if cc = lit ''Write'' then [''file_path'', ''content''] else if cc = lit ''Edit'' then [''file_path'', ''old_string'', ''new_string'']
      else if cc = lit ''Glob'' \<or> cc = lit ''Grep'' then [''pattern''] else if cc = lit ''WebSearch'' then [''query'']
      else if cc = lit ''WebFetch'' then [''url''] else [])"

definition lossy_tools :: "string list" where
  "lossy_tools = [''replace_in_file'', ''apply_diff'', ''builtin_edit_existing_file'', ''insert_edit_into_file'', ''list_dir'', ''builtin_ls'']"

text \<open>\<open>a\<close> holds the needed arguments of \<open>m\<close> as texts; a pattern for files is not empty.\<close>

definition call_given :: "tool_mapping \<Rightarrow> jvalue \<Rightarrow> bool" where
  "call_given m a \<longleftrightarrow> a \<noteq> J_null \<and> (\<forall>k \<in> set (needed_args (tm_ccTool m)). \<exists>s. arg a k = Some (J_str s) \<and> (tm_ccTool m = lit ''Glob'' \<longrightarrow> s \<noteq> []))"

definition call_returns :: "tool_mapping \<Rightarrow> jvalue \<Rightarrow> bool" where
  "call_returns m a \<longleftrightarrow> (\<forall>f b. tm_args m = Some f \<longrightarrow> tm_back m = Some b \<longrightarrow>
     (\<exists>v w. b a = Some v \<and> f v = Some w \<and> (\<forall>k \<in> set (needed_args (tm_ccTool m)). arg w k = arg a k)))"

lemmas tool_simps = tool_entry_def two_way_def scored_def bash_like_def bash_args_def bash_back_def explained_back_def from_names_def to_names_def
  view_args_def view_back_def plain_tool_def fetch_tool_def fetch_args_def webFetchArgs_def or_prop_def js_string_def js_truthy_def Let_def

text \<open>Among the names \<open>ks\<close>, \<open>v\<close> has the text \<open>s\<close> and no other value.\<close>

definition sees :: "jvalue \<Rightarrow> string list \<Rightarrow> utext \<Rightarrow> bool" where
  "sees v ks s \<longleftrightarrow> (\<forall>k \<in> set ks. arg v k = None \<or> arg v k = Some (J_str s)) \<and> (\<exists>k \<in> set ks. arg v k = Some (J_str s))"

lemma pick_same:
  assumes "\<forall>k \<in> set ks. arg v k = None \<or> arg v k = Some (J_str s)" and "s = [] \<or> (\<exists>k \<in> set ks. arg v k = Some (J_str s))"
  shows "pick v ks (J_str []) = J_str s"
  using assms
proof (induction ks)
  case (Cons k ks)
  show ?case
  proof (cases "arg v k = Some (J_str s) \<and> s \<noteq> []")
    case False
    then have "s = [] \<or> arg v k = None" using Cons.prems(1) by auto
    then have "pick v ks (J_str []) = J_str s" using Cons by auto
    then show ?thesis using Cons.prems(1) by auto
  qed simp
qed simp

text \<open>A translation field by field brings a call back when each field finds its text under one of its names.\<close>

lemma names_return:
  assumes f: "tm_args m = Some (from_names fs)" and b: "tm_back m = Some (reads g)"
    and n: "\<forall>k \<in> set (needed_args (tm_ccTool m)). \<exists>ks. map_of fs k = Some ks \<and> (\<forall>s. arg a k = Some (J_str s) \<longrightarrow> sees (J_obj (g a)) ks s)"
    and a: "call_given m a"
  shows "call_returns m a"
proof -
  have "arg (J_obj (named (map (\<lambda>(k, ks). (k, pick (J_obj (g a)) ks (jtext []))) fs))) k = arg a k"
    if k: "k \<in> set (needed_args (tm_ccTool m))" for k
  proof -
    obtain s where s: "arg a k = Some (J_str s)" using a k by (auto simp: call_given_def)
    obtain ks where ks: "map_of fs k = Some ks" "sees (J_obj (g a)) ks s" using n k s by blast
    have "pick (J_obj (g a)) ks (J_str []) = J_str s" using ks(2) by (intro pick_same) (auto simp: sees_def)
    then show ?thesis using ks(1) s by (simp add: map_of_map)
  qed
  then show ?thesis using f b a by (auto simp: call_returns_def call_given_def from_names_def)
qed

lemma to_names_reads: "to_names bs = reads (\<lambda>a. named (map (\<lambda>(k, c). (k, nullish_or a c (jtext []))) bs))"
  by (simp add: to_names_def)

lemma two_way_returns:
  assumes "\<forall>k \<in> set (needed_args (lit cc)). \<exists>ks. map_of fs k = Some ks
      \<and> (\<forall>s. arg a k = Some (J_str s) \<longrightarrow> sees (J_obj (named (map (\<lambda>(k, c). (k, nullish_or a c (jtext []))) bs))) ks s)"
    and "call_given (two_way cc fs bs) a"
  shows "call_returns (two_way cc fs bs) a"
  by (rule names_return [of _ fs "\<lambda>a. named (map (\<lambda>(k, c). (k, nullish_or a c (jtext []))) bs)"])
    (use assms in \<open>simp_all add: two_way_def tool_entry_def to_names_def\<close>)

lemma scored_returns: "call_returns (scored n m) a = call_returns m a" "call_given (scored n m) a = call_given m a"
  by (simp_all add: call_returns_def call_given_def scored_def)

lemma plain_returns [simp]: "call_returns (plain_tool cc) a"
  by (simp add: plain_tool_def tool_entry_def call_returns_def)

definition all_return :: "(string \<times> tool_mapping) list \<Rightarrow> bool" where
  "all_return ms \<longleftrightarrow> (\<forall>n m a. (n, m) \<in> set ms \<longrightarrow> n \<notin> set lossy_tools \<longrightarrow> call_given m a \<longrightarrow> call_returns m a)"

lemma all_return_Nil [simp]: "all_return []"
  by (simp add: all_return_def)

lemma all_return_Cons: "(\<And>a. n \<notin> set lossy_tools \<Longrightarrow> call_given m a \<Longrightarrow> call_returns m a) \<Longrightarrow> all_return ms \<Longrightarrow> all_return ((n, m) # ms)"
  by (auto simp: all_return_def)

lemma all_return_append: "all_return (xs @ ys) \<longleftrightarrow> all_return xs \<and> all_return ys"
  by (auto simp: all_return_def)

lemma tool_entry_returns:
  assumes "\<forall>k \<in> set (needed_args (lit cc)). \<exists>ks. map_of fs k = Some ks
      \<and> (\<forall>s. arg a k = Some (J_str s) \<longrightarrow> sees (J_obj (g a)) ks s)"
    and "call_given (tool_entry cc (Some (from_names fs)) (Some (reads g)) n) a"
  shows "call_returns (tool_entry cc (Some (from_names fs)) (Some (reads g)) n) a"
  by (rule names_return [of _ fs g]) (use assms in \<open>simp_all add: tool_entry_def\<close>)

lemma bash_returns:
  assumes "call_given (tool_entry ''Bash'' (Some (bash_args ks d)) (Some (reads g)) n) a"
    and "\<forall>s. arg a ''command'' = Some (J_str s) \<longrightarrow> sees (J_obj (g a)) ks s"
  shows "call_returns (tool_entry ''Bash'' (Some (bash_args ks d)) (Some (reads g)) n) a"
proof -
  obtain s where s: "arg a ''command'' = Some (J_str s)" "a \<noteq> J_null"
    using assms(1) by (auto simp: call_given_def tool_entry_def needed_args_def)
  then have "pick (J_obj (g a)) ks (J_str []) = J_str s" using assms(2) by (intro pick_same) (auto simp: sees_def)
  then show ?thesis using s by (simp add: call_returns_def tool_entry_def needed_args_def bash_args_def)
qed

lemma command_tools_return: "all_return command_tools"
  unfolding command_tools_def bash_like_def bash_back_def explained_back_def
  by (intro all_return_Cons all_return_Nil; (unfold scored_returns)?;
    (rule two_way_returns tool_entry_returns, simp add: needed_args_def sees_def, assumption | rule bash_returns, assumption, simp add: sees_def))

lemma read_tools_return: "all_return read_tools"
  unfolding read_tools_def
  by (intro all_return_Cons all_return_Nil;
    (rule two_way_returns, simp add: needed_args_def sees_def, assumption | auto simp: call_given_def call_returns_def needed_args_def tool_simps))

lemma write_tools_return: "all_return write_tools"
  unfolding write_tools_def
  by (intro all_return_Cons all_return_Nil; rule two_way_returns, simp add: needed_args_def sees_def, assumption)

lemma edit_tools_return: "all_return (edit_tools str)"
  unfolding edit_tools_def
  by (intro all_return_Cons all_return_Nil; (unfold scored_returns)?;
    (rule two_way_returns tool_entry_returns, simp add: needed_args_def sees_def, assumption | simp add: lossy_tools_def))

lemma glob_tools_return: "all_return glob_tools"
  unfolding glob_tools_def
  by (intro all_return_Cons all_return_Nil; (unfold scored_returns)?;
    (rule two_way_returns, simp add: needed_args_def sees_def, assumption | simp add: lossy_tools_def; fail
     | auto simp: call_given_def call_returns_def needed_args_def tool_simps))

lemma grep_tools_return: "all_return grep_tools"
  unfolding grep_tools_def
  by (intro all_return_Cons all_return_Nil; (unfold scored_returns)?;
    (rule two_way_returns, simp add: needed_args_def sees_def, assumption
     | auto simp: call_given_def call_returns_def needed_args_def tool_simps))

lemma web_tools_return: "all_return (web_tools str)"
  unfolding web_tools_def
  by (intro all_return_Cons all_return_Nil;
    (rule two_way_returns, simp add: needed_args_def sees_def, assumption
     | auto simp: call_given_def call_returns_def needed_args_def tool_simps))

lemma tool_map_returns: "all_return (TOOL_MAP str)"
  unfolding TOOL_MAP_def all_return_append
  by (intro conjI command_tools_return read_tools_return write_tools_return edit_tools_return glob_tools_return grep_tools_return web_tools_return)

text \<open>
  C21. A call survives the client. Let a client's tool that is written both ways not be one of the six \<open>lossy_tools\<close>,
  whose own arguments have no room for all of the model's (\<open>edits_lose_their_place\<close>), and let the model give as
  texts the arguments its call cannot do without - the command, the file, the texts of an edit, the pattern, the query,
  the address - with a pattern for files that is not empty. When that call is written in the arguments of the
  client's tool, and comes back in the history and is written for Claude Code again, those arguments are the ones the
  model gave.
\<close>

theorem call_survives_client:
  assumes "(n, m) \<in> set (TOOL_MAP str)" and "n \<notin> set lossy_tools" and "tm_args m = Some f" and "tm_back m = Some b"
    and "a \<noteq> J_null"
    and "\<forall>k \<in> set (needed_args (tm_ccTool m)). \<exists>s. arg a k = Some (J_str s) \<and> (tm_ccTool m = lit ''Glob'' \<longrightarrow> s \<noteq> [])"
  shows "\<exists>v w. b a = Some v \<and> f v = Some w \<and> (\<forall>k \<in> set (needed_args (tm_ccTool m)). arg w k = arg a k)"
  using tool_map_returns assms unfolding all_return_def call_given_def call_returns_def by blast

definition sample_edit :: jvalue where
  "sample_edit = J_obj (named [(''file_path'', jtext ''/a''), (''old_string'', jtext ''x''), (''new_string'', jtext '''')])"

theorem call_survives_client_witness:
  "\<exists>v w. the (tm_back (the (map_of (TOOL_MAP (\<lambda>_. [])) ''str_replace_editor''))) sample_edit = Some v
    \<and> the (tm_args (the (map_of (TOOL_MAP (\<lambda>_. [])) ''str_replace_editor''))) v = Some w \<and> arg w ''old_string'' = Some (jtext ''x'')"
proof -
  obtain m where m: "map_of (TOOL_MAP (\<lambda>_. [])) ''str_replace_editor'' = Some m" and cc: "tm_ccTool m = lit ''Edit''"
    and f: "tm_args m = Some (the (tm_args m))" and b: "tm_back m = Some (the (tm_back m))"
    by (simp add: TOOL_MAP_def command_tools_def read_tools_def write_tools_def edit_tools_def tool_entry_def)
  have "\<forall>k \<in> set (needed_args (tm_ccTool m)). \<exists>s. arg sample_edit k = Some (J_str s) \<and> (tm_ccTool m = lit ''Glob'' \<longrightarrow> s \<noteq> [])"
    by (simp add: cc needed_args_def sample_edit_def jtext_def)
  from call_survives_client [OF map_of_SomeD [OF m] _ f b _ this]
  show ?thesis by (auto simp: m cc needed_args_def lossy_tools_def sample_edit_def)
qed

text \<open>What the excepted tools lose: an edit reaches \<open>apply_diff\<close> with an empty diff, and \<open>insert_edit_into_file\<close> without its place.\<close>

theorem edits_lose_their_place:
  "map_option (\<lambda>m. the (tm_back m) sample_edit) (map_of (TOOL_MAP (\<lambda>_. [])) ''apply_diff'')
     = Some (Some (J_obj (named [(''path'', jtext ''/a''), (''diff'', jtext '''')])))
   \<and> map_option (\<lambda>m. the (tm_back m) sample_edit) (map_of (TOOL_MAP (\<lambda>_. [])) ''insert_edit_into_file'')
     = Some (Some (J_obj (named [(''filePath'', jtext ''/a''), (''code'', jtext ''''), (''explanation'', jtext '''')])))"
  by code_simp

end
