(* ===== verification/Tool_Reverse.thy ===== *)
theory Tool_Reverse
  imports Tool_Map Splice_Legal
begin

text \<open>
  The way back of a tool call (\<open>cc-template.ts\<close>): which client tool a Claude Code tool stands for, the calls of a whole
  answer rewritten in place, and those of a stream, whose arguments are held until their block ends. \<open>JSON.parse\<close> and
  \<open>JSON.stringify\<close> are arguments. Names are put in lower case over ASCII and the Kelvin
  sign, the only other code unit whose lower case is an ASCII letter: the names they are compared with are ASCII.
\<close>

section \<open>The reverse lookup\<close>

definition text_lower :: "utext \<Rightarrow> utext" where
  "text_lower s = map (\<lambda>c. if 65 \<le> c \<and> c \<le> 90 then c + 32 else if c = 8490 then 107 else c) s"

type_synonym tool_map = "(utext, tool_mapping) jsmap"
type_synonym reverse_map = "(utext, utext \<times> tool_mapping) jsmap"

definition score_of :: "tool_mapping \<Rightarrow> nat" where
  "score_of m = opt_or (tm_score m) 10"

definition same_name :: "utext \<times> tool_mapping \<Rightarrow> bool" where
  "same_name e \<longleftrightarrow> text_lower (fst e) = text_lower (tm_ccTool (snd e))"

definition claim_own :: "utext \<times> tool_mapping \<Rightarrow> reverse_map \<Rightarrow> reverse_map" where
  "claim_own e r = (if same_name e then AList.update (tm_ccTool (snd e)) e r else r)"

definition claim_best :: "utext set \<Rightarrow> utext \<times> tool_mapping \<Rightarrow> reverse_map \<Rightarrow> reverse_map" where
  "claim_best own e r =
     (if same_name e \<or> tm_ccTool (snd e) \<in> own \<or> score_of (snd e) = 0 then r
      else (case map_of r (tm_ccTool (snd e)) of
              None \<Rightarrow> AList.update (tm_ccTool (snd e)) e r
            | Some f \<Rightarrow> (if score_of (snd e) > score_of (snd f) then AList.update (tm_ccTool (snd e)) e r else r)))"

definition buildReverseLookup :: "tool_map \<Rightarrow> reverse_map" where
  "buildReverseLookup tm =
     (let own = (\<lambda>e. tm_ccTool (snd e)) ` set (filter same_name tm)
      in fold (claim_best own) tm (fold claim_own tm []))"

section \<open>Request context\<close>

record request_context =
  rc_sessionId :: utext
  rc_requestId :: utext
  rc_channelId :: "utext option"
  rc_userId :: "utext option"
  rc_timestamp :: utext

definition CONTEXT_FIELD_SOURCES :: "(string \<times> (request_context \<Rightarrow> utext option)) list" where
  "CONTEXT_FIELD_SOURCES =
     [(''sessionid'', Some \<circ> rc_sessionId), (''session_id'', Some \<circ> rc_sessionId), (''requestid'', Some \<circ> rc_requestId),
      (''request_id'', Some \<circ> rc_requestId), (''channelid'', rc_channelId), (''channel_id'', rc_channelId), (''userid'', rc_userId),
      (''user_id'', rc_userId), (''timestamp'', Some \<circ> rc_timestamp), (''createdat'', Some \<circ> rc_timestamp), (''created_at'', Some \<circ> rc_timestamp)]"

definition context_value :: "request_context \<Rightarrow> utext \<Rightarrow> utext option" where
  "context_value ctx fld =
     (case map_of (map (\<lambda>(k, g). (lit k, g)) CONTEXT_FIELD_SOURCES) (text_lower fld) of None \<Rightarrow> None | Some g \<Rightarrow> g ctx)"

definition inject_field :: "request_context \<Rightarrow> utext \<Rightarrow> jobject \<Rightarrow> jobject" where
  "inject_field ctx fld m =
     (if \<not> (map_of m fld = None \<or> map_of m fld = Some J_null \<or> map_of m fld = Some (J_str [])) then m
      else (case context_value ctx fld of None \<Rightarrow> m | Some v \<Rightarrow> AList.update fld (J_str v) m))"

text \<open>
  \<open>None\<close>: the input is no object at all, and \<open>fld in input\<close> throws. A property set on an array is not printed.
\<close>

definition injectContextFields :: "utext list option \<Rightarrow> request_context option \<Rightarrow> jvalue \<Rightarrow> jvalue option" where
  "injectContextFields wanted ctx v =
     (case (wanted, ctx) of
        (Some fs, Some c) \<Rightarrow>
          (case v of
             J_obj m \<Rightarrow> Some (J_obj (fold (inject_field c) fs m))
           | J_arr _ \<Rightarrow> Some v
           | _ \<Rightarrow> (if fs = [] then Some v else None))
      | _ \<Rightarrow> Some v)"

section \<open>A whole answer\<close>

definition is_record :: "jvalue option \<Rightarrow> bool" where
  "is_record v = (case v of Some (J_obj _) \<Rightarrow> True | Some (J_arr _) \<Rightarrow> True | _ \<Rightarrow> False)"

definition translated_back :: "tool_mapping \<Rightarrow> jvalue \<Rightarrow> jvalue" where
  "translated_back m v = (case tm_back m of None \<Rightarrow> v | Some b \<Rightarrow> opt_or (b v) v)"

definition rewrite_input :: "tool_mapping \<Rightarrow> request_context option \<Rightarrow> jobject \<Rightarrow> jobject" where
  "rewrite_input m ctx block =
     (let block1 = (if is_record (map_of block (lit ''input''))
                    then AList.update (lit ''input'') (translated_back m (the (map_of block (lit ''input'')))) block else block)
      in if is_record (map_of block1 (lit ''input'')) then
           AList.update (lit ''input'')
             (opt_or (injectContextFields (tm_fields m) ctx (the (map_of block1 (lit ''input'')))) (the (map_of block1 (lit ''input'')))) block1
         else block1)"

definition rewriteToolUseBlock :: "reverse_map \<Rightarrow> request_context option \<Rightarrow> jobject \<Rightarrow> jobject" where
  "rewriteToolUseBlock r ctx block =
     (case map_of block (lit ''name'') of
        Some (J_str cc) \<Rightarrow>
          (case map_of r cc of
             None \<Rightarrow> block
           | Some (client, m) \<Rightarrow> rewrite_input m ctx (AList.update (lit ''name'') (J_str client) block))
      | _ \<Rightarrow> block)"

definition rewrite_content :: "reverse_map \<Rightarrow> request_context option \<Rightarrow> jvalue \<Rightarrow> jvalue" where
  "rewrite_content r ctx block =
     (case block of
        J_obj b \<Rightarrow> (if str_of (map_of b (lit ''type'')) = Some (lit ''tool_use'') then J_obj (rewriteToolUseBlock r ctx b) else block)
      | _ \<Rightarrow> block)"

definition reverseMapResponse ::
  "(utext \<Rightarrow> jvalue option) \<Rightarrow> (jvalue \<Rightarrow> utext) \<Rightarrow> tool_map \<Rightarrow> request_context option \<Rightarrow> utext \<Rightarrow> js_error + utext" where
  "reverseMapResponse json_parse json_print tm ctx body =
     (if tm = [] then Inr body
      else (case json_parse body of
              None \<Rightarrow> Inr body
            | Some J_null \<Rightarrow> Inl Type_Error
            | Some (J_obj p) \<Rightarrow>
                (case map_of p (lit ''content'') of
                   Some (J_arr blocks) \<Rightarrow>
                     Inr (json_print (J_obj (AList.update (lit ''content'') (J_arr (map (rewrite_content (buildReverseLookup tm) ctx) blocks)) p)))
                 | _ \<Rightarrow> Inr body)
            | Some _ \<Rightarrow> Inr body))"

section \<open>A stream\<close>

record buffered_block =
  bb_mapping :: tool_mapping
  bb_partial :: utext

type_synonym buffered = "(rat, buffered_block) jsmap"

definition MAX_TOOL_PARTIAL_BYTES :: nat where "MAX_TOOL_PARTIAL_BYTES = 2000000"

definition needs_translation :: "tool_mapping \<Rightarrow> bool" where
  "needs_translation m \<longleftrightarrow> tm_back m \<noteq> None \<or> (case tm_fields m of Some (f # fs) \<Rightarrow> True | _ \<Rightarrow> False)"

text \<open>What becomes of an event: it is passed on as it came, or replaced by other events, or by none.\<close>

datatype group_result = Keep | Emit "(string \<times> jvalue) list"

definition event_idx :: "jvalue \<Rightarrow> rat option" where
  "event_idx ev = (case num_of (jprop (Some ev) ''index'') of Some i \<Rightarrow> (if i \<ge> 0 then Some i else None) | None \<Rightarrow> None)"

definition partial_event :: "rat \<Rightarrow> utext \<Rightarrow> jvalue" where
  "partial_event i t =
     J_obj [(lit ''type'', J_str (lit ''content_block_delta'')), (lit ''index'', J_num i),
            (lit ''delta'', J_obj [(lit ''type'', J_str (lit ''input_json_delta'')), (lit ''partial_json'', J_str t)])]"

definition tool_block_of :: "jvalue \<Rightarrow> (jobject \<times> utext) option" where
  "tool_block_of ev =
     (case jprop (Some ev) ''content_block'' of
        Some (J_obj b) \<Rightarrow>
          (if str_of (map_of b (lit ''type'')) = Some (lit ''tool_use'') then map_option (Pair b) (str_of (map_of b (lit ''name''))) else None)
      | _ \<Rightarrow> None)"

definition with_block :: "jvalue \<Rightarrow> jobject \<Rightarrow> jvalue" where
  "with_block ev b = (case ev of J_obj m \<Rightarrow> J_obj (AList.update (lit ''content_block'') (J_obj b) m) | _ \<Rightarrow> ev)"

definition start_group :: "reverse_map \<Rightarrow> jvalue \<Rightarrow> buffered \<Rightarrow> group_result \<times> buffered" where
  "start_group r ev bs =
     (case tool_block_of ev of
        None \<Rightarrow> (Keep, bs)
      | Some (b, cc) \<Rightarrow>
          (case map_of r cc of
             None \<Rightarrow> (Keep, bs)
           | Some (client, m) \<Rightarrow>
               let b1 = AList.update (lit ''name'') (J_str client) b
               in (case event_idx ev of
                     Some i \<Rightarrow>
                       (if needs_translation m then
                          (Emit [(''content_block_start'', with_block ev (AList.update (lit ''input'') (J_obj []) b1))],
                           AList.update i \<lparr>bb_mapping = m, bb_partial = []\<rparr> bs)
                        else (Emit [(''content_block_start'', with_block ev b1)], bs))
                   | None \<Rightarrow> (Emit [(''content_block_start'', with_block ev b1)], bs))))"

definition partial_of :: "jvalue \<Rightarrow> utext option" where
  "partial_of ev =
     (let d = jprop (Some ev) ''delta''
      in if str_of (jprop d ''type'') = Some (lit ''input_json_delta'') then str_of (jprop d ''partial_json'') else None)"

definition buffered_at :: "jvalue \<Rightarrow> buffered \<Rightarrow> (rat \<times> buffered_block) option" where
  "buffered_at ev bs = (case event_idx ev of None \<Rightarrow> None | Some i \<Rightarrow> map_option (Pair i) (map_of bs i))"

definition delta_group :: "jvalue \<Rightarrow> buffered \<Rightarrow> group_result \<times> buffered" where
  "delta_group ev bs =
     (case buffered_at ev bs of
        None \<Rightarrow> (Keep, bs)
      | Some (i, b) \<Rightarrow>
          (case partial_of ev of
             None \<Rightarrow> (Keep, bs)
           | Some t \<Rightarrow>
               (if length (bb_partial b) + length t > MAX_TOOL_PARTIAL_BYTES
                then (Emit [(''content_block_delta'', partial_event i (bb_partial b @ t))], AList.delete i bs)
                else (Emit [], AList.update i (b\<lparr>bb_partial := bb_partial b @ t\<rparr>) bs))))"

text \<open>The arguments of a block that ends; \<open>None\<close> when the text is not JSON or a translation throws.\<close>

definition handed_back :: "tool_mapping \<Rightarrow> jvalue \<Rightarrow> jvalue option" where
  "handed_back m v = (case tm_back m of None \<Rightarrow> Some v | Some back \<Rightarrow> back v)"

definition finished_input :: "(utext \<Rightarrow> jvalue option) \<Rightarrow> request_context option \<Rightarrow> buffered_block \<Rightarrow> jvalue option" where
  "finished_input json_parse ctx b =
     (case json_parse (if bb_partial b = [] then lit ''{}'' else bb_partial b) of
        None \<Rightarrow> None
      | Some v \<Rightarrow>
          (case handed_back (bb_mapping b) v of
             None \<Rightarrow> None
           | Some w \<Rightarrow>
               (case tm_fields (bb_mapping b) of
                  Some (f # fs) \<Rightarrow> injectContextFields (Some (f # fs)) ctx w
                | _ \<Rightarrow> Some w)))"

definition stop_group ::
  "(utext \<Rightarrow> jvalue option) \<Rightarrow> (jvalue \<Rightarrow> utext) \<Rightarrow> request_context option \<Rightarrow> jvalue \<Rightarrow> buffered \<Rightarrow> group_result \<times> buffered" where
  "stop_group json_parse json_print ctx ev bs =
     (case buffered_at ev bs of
        None \<Rightarrow> (Keep, bs)
      | Some (i, b) \<Rightarrow>
          (Emit [(''content_block_delta'', partial_event i (case finished_input json_parse ctx b of
                    Some w \<Rightarrow> json_print w | None \<Rightarrow> bb_partial b)),
                 (''content_block_stop'', ev)],
           AList.delete i bs))"

definition map_event ::
  "(utext \<Rightarrow> jvalue option) \<Rightarrow> (jvalue \<Rightarrow> utext) \<Rightarrow> reverse_map \<Rightarrow> request_context option \<Rightarrow> jvalue \<Rightarrow> buffered \<Rightarrow> group_result \<times> buffered" where
  "map_event json_parse json_print r ctx ev bs =
     (let ty = str_of (jprop (Some ev) ''type'')
      in if ty = Some (lit ''content_block_start'') then start_group r ev bs
         else if ty = Some (lit ''content_block_delta'') then delta_group ev bs
         else if ty = Some (lit ''content_block_stop'') then stop_group json_parse json_print ctx ev bs
         else (Keep, bs))"

definition buildEvent :: "(jvalue \<Rightarrow> utext) \<Rightarrow> string \<Rightarrow> jvalue \<Rightarrow> utext" where
  "buildEvent json_print ty payload = lit ''event: '' @ lit ty @ [10] @ lit ''data: '' @ json_print payload"

definition data_text :: "utext \<Rightarrow> utext option" where
  "data_text g = map_option (\<lambda>l. text_trim (drop 5 l)) (List.find (\<lambda>l. has_prefix l (lit ''data:'')) (split_list 10 g))"

text \<open>One group of lines; \<open>null\<close> as its data makes the reader throw.\<close>

definition processEventGroup ::
  "(utext \<Rightarrow> jvalue option) \<Rightarrow> (jvalue \<Rightarrow> utext) \<Rightarrow> reverse_map \<Rightarrow> request_context option \<Rightarrow> utext \<Rightarrow> buffered
    \<Rightarrow> js_error + utext list \<times> buffered" where
  "processEventGroup json_parse json_print r ctx g bs =
     (case data_text g of
        None \<Rightarrow> Inr ([g], bs)
      | Some t \<Rightarrow>
          (if t = [] \<or> t = DONE_TEXT then Inr ([g], bs)
           else (case json_parse t of
                   None \<Rightarrow> Inr ([g], bs)
                 | Some J_null \<Rightarrow> Inl Type_Error
                 | Some ev \<Rightarrow>
                     (case map_event json_parse json_print r ctx ev bs of
                        (Keep, bs1) \<Rightarrow> Inr ([g], bs1)
                      | (Emit es, bs1) \<Rightarrow> Inr (map (\<lambda>(ty, p). buildEvent json_print ty p) es, bs1)))))"

fun process_groups ::
  "(utext \<Rightarrow> jvalue option) \<Rightarrow> (jvalue \<Rightarrow> utext) \<Rightarrow> reverse_map \<Rightarrow> request_context option \<Rightarrow> utext list \<Rightarrow> buffered
    \<Rightarrow> js_error + utext \<times> buffered" where
  "process_groups json_parse json_print r ctx [] bs = Inr ([], bs)"
| "process_groups json_parse json_print r ctx (g # gs) bs =
     (if g = [] then process_groups json_parse json_print r ctx gs bs
      else (case processEventGroup json_parse json_print r ctx g bs of
              Inl e \<Rightarrow> Inl e
            | Inr (out, bs1) \<Rightarrow>
                (case process_groups json_parse json_print r ctx gs bs1 of
                   Inl e \<Rightarrow> Inl e
                 | Inr (rest, bs2) \<Rightarrow> Inr (concat (map (\<lambda>o'. o' @ [10, 10]) out) @ rest, bs2))))"

record reverse_mapper =
  rv_group :: utext
  rv_blocks :: buffered

definition new_reverse_mapper :: reverse_mapper where
  "new_reverse_mapper = \<lparr>rv_group = [], rv_blocks = []\<rparr>"

definition mapper_active :: "tool_map \<Rightarrow> bool" where
  "mapper_active tm \<longleftrightarrow> tm \<noteq> [] \<and> list_ex (\<lambda>e. needs_translation (snd e)) (values_of (buildReverseLookup tm))"

text \<open>The parts between blank lines; the last one waits for more text until the stream ends.\<close>

definition groups_of :: "utext \<Rightarrow> utext list \<times> utext" where
  "groups_of buf = (let (fs, left) = split_frames buf in (map (drop_last 2) fs, left))"

definition mapper_feed ::
  "(utext \<Rightarrow> jvalue option) \<Rightarrow> (jvalue \<Rightarrow> utext) \<Rightarrow> tool_map \<Rightarrow> request_context option \<Rightarrow> utext \<Rightarrow> reverse_mapper
    \<Rightarrow> js_error + utext \<times> reverse_mapper" where
  "mapper_feed json_parse json_print tm ctx chunk s =
     (if \<not> mapper_active tm then Inr (chunk, s)
      else
        let (gs, left) = groups_of (rv_group s @ chunk)
        in (case process_groups json_parse json_print (buildReverseLookup tm) ctx gs (rv_blocks s) of
              Inl e \<Rightarrow> Inl e
            | Inr (out, bs) \<Rightarrow> Inr (out, \<lparr>rv_group = left, rv_blocks = bs\<rparr>)))"

definition mapper_end ::
  "(utext \<Rightarrow> jvalue option) \<Rightarrow> (jvalue \<Rightarrow> utext) \<Rightarrow> tool_map \<Rightarrow> request_context option \<Rightarrow> reverse_mapper
    \<Rightarrow> js_error + utext \<times> reverse_mapper" where
  "mapper_end json_parse json_print tm ctx s =
     (if \<not> mapper_active tm then Inr ([], s)
      else
        let (gs, left) = groups_of (rv_group s)
        in (case process_groups json_parse json_print (buildReverseLookup tm) ctx (gs @ [left]) (rv_blocks s) of
              Inl e \<Rightarrow> Inl e
            | Inr (out, bs) \<Rightarrow> Inr (out, \<lparr>rv_group = [], rv_blocks = bs\<rparr>)))"

end
