(* ===== verification/Request_Tools.thy ===== *)
theory Request_Tools
  imports Tool_Reverse
begin

text \<open>
  The tools of an outgoing request (\<open>cc-template.ts\<close>): which client tools are recognised, what each is mapped to or
  carried as, the calls in the history under their new names, the definitions that are advertised, and the
  tool choice. A tool is an object; a name that is no text reads as the empty one. The template, the host
  and \<open>localeCompare\<close> are arguments. The tool table is looked up by its own entries: the two lower-case names
  every JavaScript object has (\<open>constructor\<close>, \<open>__proto__\<close>) are outside the model.
\<close>

section \<open>Definitions of tools\<close>

abbreviation tool_name :: "jobject \<Rightarrow> utext" where
  "tool_name t \<equiv> opt_or (str_of (map_of t (lit ''name''))) []"

definition isMcpToolName :: "utext \<Rightarrow> bool" where
  "isMcpToolName name \<longleftrightarrow> has_prefix name (lit ''mcp__'')"

definition isAdvertisableToolDefinition :: "jobject \<Rightarrow> bool" where
  "isAdvertisableToolDefinition t \<longleftrightarrow>
     (case map_of t (lit ''input_schema'') of Some (J_obj schema) \<Rightarrow> str_of (map_of schema (lit ''type'')) \<noteq> None | _ \<Rightarrow> False)"

definition isAnthropicDefinedTool :: "jobject \<Rightarrow> bool" where
  "isAnthropicDefinedTool t \<longleftrightarrow> (case str_of (map_of t (lit ''type'')) of Some ty \<Rightarrow> ty \<noteq> lit ''custom'' | None \<Rightarrow> False)"

definition PLATFORM_ONLY_TOOLS :: "(string \<times> string list) list" where
  "PLATFORM_ONLY_TOOLS = [(''win32'', [''PowerShell'', ''Glob'', ''Grep''])]"

definition filterToolsForPlatform :: "jobject list \<Rightarrow> utext \<Rightarrow> jobject list" where
  "filterToolsForPlatform ts platform =
     filter (\<lambda>t. list_all (\<lambda>(plat, names). \<not> (tool_name t \<in> lit ` set names \<and> platform \<noteq> lit plat)) PLATFORM_ONLY_TOOLS) ts"

text \<open>The template's tools and the host's platform.\<close>

record tool_template =
  tt_tools :: "jobject list"
  tt_platform :: utext

definition CC_TOOL_DEFINITIONS_UNION :: "tool_template \<Rightarrow> jobject list" where
  "CC_TOOL_DEFINITIONS_UNION tp = filter isAdvertisableToolDefinition (tt_tools tp)"

definition CC_TOOL_DEFINITIONS :: "tool_template \<Rightarrow> jobject list" where
  "CC_TOOL_DEFINITIONS tp = filterToolsForPlatform (CC_TOOL_DEFINITIONS_UNION tp) (tt_platform tp)"

definition CC_NATIVE_NAMES_UNION :: "tool_template \<Rightarrow> utext set" where
  "CC_NATIVE_NAMES_UNION tp = tool_name ` set (tt_tools tp)"

definition CC_TOOL_DEFINITIONS_UNADVERTISABLE :: "tool_template \<Rightarrow> utext set" where
  "CC_TOOL_DEFINITIONS_UNADVERTISABLE tp = tool_name ` set (filter (Not \<circ> isAdvertisableToolDefinition) (tt_tools tp))"

definition CC_TOOL_NAMES_LOWER :: "tool_template \<Rightarrow> utext set" where
  "CC_TOOL_NAMES_LOWER tp =
     (\<lambda>t. text_lower (tool_name t)) ` set (filter (\<lambda>t. \<not> isMcpToolName (tool_name t)) (CC_TOOL_DEFINITIONS_UNION tp))"

section \<open>Whose tools they are\<close>

definition native_or_mcp :: "tool_template \<Rightarrow> utext \<Rightarrow> bool" where
  "native_or_mcp tp name \<longleftrightarrow> name \<in> CC_NATIVE_NAMES_UNION tp \<or> isMcpToolName name"

text \<open>What one tool adds to the count of unmapped ones and to the two kinds of evidence.\<close>

record tool_survey =
  ts_unmapped :: nat
  ts_native :: bool
  ts_shares :: bool

definition survey_tool :: "(jvalue \<Rightarrow> utext) \<Rightarrow> tool_template \<Rightarrow> tool_survey \<Rightarrow> jobject \<Rightarrow> tool_survey" where
  "survey_tool str tp s t =
     (let name = tool_name t
      in if name \<in> CC_NATIVE_NAMES_UNION tp then
           (if name \<in> CC_TOOL_DEFINITIONS_UNADVERTISABLE tp \<and> isAdvertisableToolDefinition t
            then s\<lparr>ts_unmapped := ts_unmapped s + 1\<rparr> else s\<lparr>ts_native := True\<rparr>)
         else
           let s1 = (if text_lower name \<in> CC_TOOL_NAMES_LOWER tp then s\<lparr>ts_shares := True\<rparr> else s)
           in if tool_alias str (text_lower name) = None \<and> \<not> isMcpToolName name then s1\<lparr>ts_unmapped := ts_unmapped s1 + 1\<rparr> else s1)"

text \<open>Whether the answer is \<open>unknown-non-cc\<close>.\<close>

definition detectNonCCByTools :: "(jvalue \<Rightarrow> utext) \<Rightarrow> tool_template \<Rightarrow> jobject list option \<Rightarrow> bool" where
  "detectNonCCByTools str tp tools =
     (case tools of
        None \<Rightarrow> False
      | Some [] \<Rightarrow> False
      | Some ts \<Rightarrow>
          let s = foldl (survey_tool str tp) \<lparr>ts_unmapped = 0, ts_native = False, ts_shares = False\<rparr> ts;
              ratio = (of_nat (ts_unmapped s) / of_nat (length ts) :: rat)
          in ratio = 1 \<or> ts_unmapped s > 0 \<and> \<not> ts_native s \<and> ts_shares s \<or> length ts \<ge> 3 \<and> ratio \<ge> 4 / 5)"

section \<open>The tool map\<close>

definition identity_mapping :: "utext \<Rightarrow> tool_mapping" where
  "identity_mapping name = \<lparr>tm_ccTool = name, tm_args = Some Some, tm_back = Some Some, tm_fields = None, tm_score = None\<rparr>"

definition schema_fields :: "jobject \<Rightarrow> utext list" where
  "schema_fields t = (case jprop (map_of t (lit ''input_schema'')) ''properties'' of Some (J_obj ps) \<Rightarrow> map fst ps | _ \<Rightarrow> [])"

record tool_plan =
  tl_map :: tool_map
  tl_claimed :: "utext list"
  tl_unmapped :: "utext list"
  tl_mcpShaped :: "jobject list"
  tl_uncarried :: "(utext \<times> utext) list"

definition empty_plan :: tool_plan where
  "empty_plan = \<lparr>tl_map = [], tl_claimed = [], tl_unmapped = [], tl_mcpShaped = [], tl_uncarried = []\<rparr>"

definition known_mapping :: "(jvalue \<Rightarrow> utext) \<Rightarrow> tool_template \<Rightarrow> jobject \<Rightarrow> tool_mapping option" where
  "known_mapping str tp t =
     (if native_or_mcp tp (tool_name t) then Some (identity_mapping (tool_name t)) else tool_alias str (text_lower (tool_name t)))"

text \<open>The first pass: tools that are Claude Code's own, of an MCP server, or in the table.\<close>

definition map_known :: "(jvalue \<Rightarrow> utext) \<Rightarrow> tool_template \<Rightarrow> bool \<Rightarrow> tool_plan \<Rightarrow> jobject \<Rightarrow> tool_plan" where
  "map_known str tp hybrid p t =
     (case known_mapping str tp t of
        None \<Rightarrow> p
      | Some m \<Rightarrow>
          p\<lparr>tl_map := AList.update (tool_name t) (if hybrid then m\<lparr>tm_fields := Some (schema_fields t)\<rparr> else m) (tl_map p),
            tl_claimed := List.insert (tm_ccTool m) (tl_claimed p)\<rparr>)"

definition CC_FALLBACK_TOOLS :: "utext list" where
  "CC_FALLBACK_TOOLS = map lit [''Bash'', ''Read'', ''Grep'', ''Glob'', ''WebSearch'', ''WebFetch'']"

definition names_cc_tool :: "tool_template \<Rightarrow> jobject list \<Rightarrow> bool" where
  "names_cc_tool tp ts \<longleftrightarrow>
     list_ex (\<lambda>t. str_of (map_of t (lit ''name'')) \<noteq> None \<and> \<not> isMcpToolName (tool_name t)
       \<and> (text_lower (tool_name t) \<in> CC_TOOL_NAMES_LOWER tp
          \<or> tool_name t \<in> CC_TOOL_DEFINITIONS_UNADVERTISABLE tp \<and> isAnthropicDefinedTool t)) ts"

definition CLIENT_TOOL_MCP_PREFIX :: utext where
  "CLIENT_TOOL_MCP_PREFIX = lit ''mcp__client__''"

text \<open>\<open>/^[a-zA-Z0-9_-]{1,64}$/\<close>\<close>

definition tool_name_fits :: "utext \<Rightarrow> bool" where
  "tool_name_fits n \<longleftrightarrow>
     1 \<le> length n \<and> length n \<le> 64
     \<and> list_all (\<lambda>c. 97 \<le> c \<and> c \<le> 122 \<or> 65 \<le> c \<and> c \<le> 90 \<or> 48 \<le> c \<and> c \<le> 57 \<or> c = 95 \<or> c = 45) n"

definition custom_type :: "jobject \<Rightarrow> bool" where
  "custom_type t \<longleftrightarrow> (case map_of t (lit ''type'') of None \<Rightarrow> True | Some v \<Rightarrow> v = J_str (lit ''custom''))"

text \<open>The arguments of a tool that is put in another's slot.\<close>

definition fallback_args :: "(jvalue \<Rightarrow> utext) \<Rightarrow> (jvalue \<Rightarrow> utext) \<Rightarrow> utext \<Rightarrow> translation" where
  "fallback_args json_print str cc =
     (let text_arg = (\<lambda>a ks d. J_str (js_string str (pick a ks (jtext d))))
      in if cc = lit ''Bash'' then
           (\<lambda>a. Some (J_obj (named [(''command'', J_str (lit ''echo '' @ [34] @ take 200 (json_print a) @ [34]))])))
         else if cc = lit ''Read'' then reads (\<lambda>a. named [(''file_path'', text_arg a [''path'', ''file'', ''url''] ''/tmp/output'')])
         else if cc = lit ''Grep'' then
           reads (\<lambda>a. named [(''pattern'', text_arg a [''query'', ''pattern'', ''search''] ''.''), (''path'', jtext ''.'')])
         else if cc = lit ''Glob'' then reads (\<lambda>a. named [(''pattern'', text_arg a [''pattern'', ''glob''] ''*'')])
         else if cc = lit ''WebSearch'' then reads (\<lambda>a. named [(''query'', text_arg a [''query'', ''q'', ''search''] '''')])
         else if cc = lit ''WebFetch'' then reads (\<lambda>a. named [(''url'', text_arg a [''url'', ''uri''] '''')])
         else Some)"

definition fallback_mapping :: "(jvalue \<Rightarrow> utext) \<Rightarrow> (jvalue \<Rightarrow> utext) \<Rightarrow> utext \<Rightarrow> tool_mapping" where
  "fallback_mapping json_print str cc =
     \<lparr>tm_ccTool = cc, tm_args = Some (fallback_args json_print str cc), tm_back = None, tm_fields = None, tm_score = Some 0\<rparr>"

definition fallback_tool :: "tool_plan \<Rightarrow> utext" where
  "fallback_tool p =
     (let pool = filter (\<lambda>c. c \<notin> set (tl_claimed p)) CC_FALLBACK_TOOLS;
          fallbackPool = (if pool \<noteq> [] then pool else CC_FALLBACK_TOOLS)
      in fallbackPool ! ((length (tl_unmapped p) - 1) mod length fallbackPool))"

text \<open>A tool that goes out under the name of an MCP tool, or the reason it cannot.\<close>

definition carry_tool :: "utext set \<Rightarrow> tool_plan \<Rightarrow> jobject \<Rightarrow> tool_plan" where
  "carry_tool declared p t =
     (let client = tool_name t; wire = CLIENT_TOOL_MCP_PREFIX @ client;
          refuse = (\<lambda>why. p\<lparr>tl_uncarried := tl_uncarried p @ [(client, why)]\<rparr>)
      in if client = [] then refuse (lit ''no name'')
         else if \<not> custom_type t \<or> \<not> isAdvertisableToolDefinition t then refuse (lit ''not a custom tool with an input_schema'')
         else if \<not> tool_name_fits wire then refuse (wire @ lit '' is not a valid tool name of at most 64 characters'')
         else if wire \<in> declared then refuse (lit ''the client also declares '' @ wire)
         else p\<lparr>tl_map := AList.update client (identity_mapping wire) (tl_map p),
                tl_mcpShaped := tl_mcpShaped p @ [AList.update (lit ''name'') (J_str wire) t]\<rparr>)"

definition place_unmapped ::
  "(jvalue \<Rightarrow> utext) \<Rightarrow> (jvalue \<Rightarrow> utext) \<Rightarrow> tool_template \<Rightarrow> bool \<Rightarrow> bool \<Rightarrow> utext set \<Rightarrow> tool_plan \<Rightarrow> jobject \<Rightarrow> tool_plan" where
  "place_unmapped json_print str tp hybrid names_cc declared p t =
     (if known_mapping str tp t \<noteq> None then p
      else
        let p1 = p\<lparr>tl_unmapped := tl_unmapped p @ [tool_name t]\<rparr>
        in if hybrid then p1
           else if names_cc then carry_tool declared p1 t
           else p1\<lparr>tl_map := AList.update (tool_name t) (fallback_mapping json_print str (fallback_tool p1)) (tl_map p1)\<rparr>)"

definition plan_tools ::
  "(jvalue \<Rightarrow> utext) \<Rightarrow> (jvalue \<Rightarrow> utext) \<Rightarrow> tool_template \<Rightarrow> bool \<Rightarrow> jobject list \<Rightarrow> tool_plan" where
  "plan_tools json_print str tp hybrid ts =
     foldl (place_unmapped json_print str tp hybrid (names_cc_tool tp ts) (tool_name ` set ts))
       (foldl (map_known str tp hybrid) empty_plan ts) ts"

section \<open>What is advertised\<close>

fun place_by :: "('a \<Rightarrow> 'a \<Rightarrow> bool) \<Rightarrow> 'a \<Rightarrow> 'a list \<Rightarrow> 'a list" where
  "place_by le x [] = [x]"
| "place_by le x (y # ys) = (if le x y then x # y # ys else y # place_by le x ys)"

text \<open>A stable sort.\<close>

definition order_by :: "('a \<Rightarrow> 'a \<Rightarrow> bool) \<Rightarrow> 'a list \<Rightarrow> 'a list" where
  "order_by le xs = foldr (place_by le) xs []"

fun dedupe_from :: "utext set \<Rightarrow> jobject list \<Rightarrow> jobject list" where
  "dedupe_from seen [] = []"
| "dedupe_from seen (t # ts) =
     (if tool_name t \<noteq> [] \<and> tool_name t \<in> seen then dedupe_from seen ts
      else t # dedupe_from (if tool_name t \<noteq> [] then insert (tool_name t) seen else seen) ts)"

definition dedupeToolsByName :: "jobject list \<Rightarrow> jobject list" where
  "dedupeToolsByName ts = dedupe_from {} ts"

definition available_cc :: "tool_template \<Rightarrow> utext list \<Rightarrow> jobject list \<Rightarrow> jobject list" where
  "available_cc tp claimed ts =
     (let names = (\<lambda>t. text_lower (tool_name t)) ` set (filter (\<lambda>t. tool_name t \<noteq> []) ts);
          namedCC = filter (\<lambda>t. \<not> isMcpToolName (tool_name t) \<and> text_lower (tool_name t) \<in> names) (CC_TOOL_DEFINITIONS_UNION tp)
      in if namedCC \<noteq> []
         then filter (\<lambda>t. \<not> isMcpToolName (tool_name t) \<and> (text_lower (tool_name t) \<in> names \<or> tool_name t \<in> set claimed))
                (CC_TOOL_DEFINITIONS_UNION tp)
         else namedCC)"

definition own_native :: "tool_template \<Rightarrow> jobject list \<Rightarrow> jobject list" where
  "own_native tp ts =
     filter (\<lambda>t. str_of (map_of t (lit ''name'')) \<noteq> None \<and> tool_name t \<in> CC_TOOL_DEFINITIONS_UNADVERTISABLE tp
       \<and> (isAdvertisableToolDefinition t \<or> isAnthropicDefinedTool t)) ts"

definition advertised_tools ::
  "(utext \<Rightarrow> utext \<Rightarrow> bool) \<Rightarrow> tool_template \<Rightarrow> tool_plan \<Rightarrow> jobject list \<Rightarrow> jobject list" where
  "advertised_tools locale_le tp p ts =
     (let natives = order_by (\<lambda>a b. locale_le (tool_name a) (tool_name b)) (available_cc tp (tl_claimed p) ts @ own_native tp ts);
          mcpTools = filter (\<lambda>t. isMcpToolName (tool_name t)) ts
      in if natives \<noteq> [] \<or> mcpTools \<noteq> [] \<or> tl_mcpShaped p \<noteq> []
         then dedupeToolsByName (natives @ mcpTools @ tl_mcpShaped p) else CC_TOOL_DEFINITIONS tp)"

definition merged_tools :: "tool_template \<Rightarrow> jobject list \<Rightarrow> jobject list" where
  "merged_tools tp ts =
     CC_TOOL_DEFINITIONS tp
     @ filter (\<lambda>t. str_of (map_of t (lit ''name'')) \<noteq> None
         \<and> text_lower (tool_name t) \<notin> (\<lambda>u. text_lower (tool_name u)) ` set (CC_TOOL_DEFINITIONS tp)) ts"

section \<open>The choice of a tool\<close>

definition passthroughToolChoice :: "jvalue option \<Rightarrow> jobject list \<Rightarrow> tool_map \<Rightarrow> jobject option" where
  "passthroughToolChoice choice outgoing tm =
     (case choice of
        Some (J_obj c) \<Rightarrow>
          (case str_of (map_of c (lit ''type'')) of
             Some ty \<Rightarrow>
               (if ty = lit ''auto'' \<or> ty = lit ''any'' \<or> ty = lit ''none'' then Some c
                else if ty = lit ''tool'' then
                  (case str_of (map_of c (lit ''name'')) of
                     None \<Rightarrow> None
                   | Some n \<Rightarrow>
                       let name = (case map_of tm n of Some m \<Rightarrow> tm_ccTool m | None \<Rightarrow> n)
                       in if list_ex (\<lambda>t. map_of t (lit ''name'') = Some (J_str name)) outgoing
                          then Some (AList.update (lit ''name'') (J_str name) c) else None)
                else None)
           | None \<Rightarrow> None)
      | _ \<Rightarrow> None)"

section \<open>The calls in the history\<close>

definition remap_call :: "tool_map \<Rightarrow> jobject \<Rightarrow> jobject" where
  "remap_call tm b =
     (case str_of (map_of b (lit ''name'')) of
        None \<Rightarrow> b
      | Some n \<Rightarrow>
          (case map_of tm n of
             None \<Rightarrow> b
           | Some m \<Rightarrow>
               let b1 = AList.update (lit ''name'') (J_str (tm_ccTool m)) b
               in (case tm_args m of
                     Some f \<Rightarrow>
                       (if js_truthy (map_of b1 (lit ''input''))
                        then AList.update (lit ''input'') (let v = the (map_of b1 (lit ''input'')) in opt_or (f v) v) b1 else b1)
                   | None \<Rightarrow> b1)))"

definition strip_result :: "jobject \<Rightarrow> jobject" where
  "strip_result b = filter (\<lambda>(k, v). k \<in> lit ` {''type'', ''tool_use_id'', ''content'', ''is_error''}) b"

definition remap_block :: "tool_map \<Rightarrow> jvalue \<Rightarrow> jvalue" where
  "remap_block tm v =
     (case v of
        J_obj b \<Rightarrow>
          (let ty = str_of (map_of b (lit ''type''))
           in if ty = Some (lit ''tool_use'') then J_obj (remap_call tm b)
              else if ty = Some (lit ''tool_result'') then J_obj (strip_result b) else v)
      | _ \<Rightarrow> v)"

end
