(* ===== verification/Request_Turns.thy ===== *)
theory Request_Turns
  imports Request_Tools
begin

text \<open>
  The turns of an outgoing request (\<open>cc-template.ts\<close>): empty texts and empty turns dropped, the retry of an
  interrupted stream undone, thinking and old cache marks stripped, calls renamed, long results cut, and the cache
  marks placed. A turn is an object; its blocks are JSON values, none of them \<open>null\<close>. The text scrubber is an argument.
\<close>

section \<open>Turns and their blocks\<close>

definition blocks_of :: "jobject \<Rightarrow> jvalue list option" where
  "blocks_of m = (case map_of m (lit ''content'') of Some (J_arr bs) \<Rightarrow> Some bs | _ \<Rightarrow> None)"

definition map_blocks :: "(jvalue list \<Rightarrow> jvalue list) \<Rightarrow> jobject \<Rightarrow> jobject" where
  "map_blocks f m = (case blocks_of m of None \<Rightarrow> m | Some bs \<Rightarrow> AList.update (lit ''content'') (J_arr (f bs)) m)"

definition has_role :: "string \<Rightarrow> jobject \<Rightarrow> bool" where
  "has_role r m \<longleftrightarrow> str_of (map_of m (lit ''role'')) = Some (lit r)"

definition no_blocks :: "jobject \<Rightarrow> bool" where
  "no_blocks m \<longleftrightarrow> blocks_of m = Some []"

definition block_type :: "jvalue \<Rightarrow> utext option" where
  "block_type b = str_of (jprop (Some b) ''type'')"

section \<open>Empty texts and empty turns\<close>

definition blank_text :: "jvalue \<Rightarrow> bool" where
  "blank_text b \<longleftrightarrow>
     block_type b = Some (lit ''text'') \<and> (case str_of (jprop (Some b) ''text'') of None \<Rightarrow> True | Some t \<Rightarrow> text_trim t = [])"

fun drop_middle :: "jobject list \<Rightarrow> jobject list" where
  "drop_middle (m # n # ms) = (if no_blocks m then drop_middle (n # ms) else m # drop_middle (n # ms))"
| "drop_middle ms = ms"

definition drop_trailing :: "jobject list \<Rightarrow> jobject list" where
  "drop_trailing ms = rev (dropWhile (\<lambda>m. has_role ''assistant'' m \<and> no_blocks m) (rev ms))"

definition cleaned_turns :: "jobject list \<Rightarrow> jobject list" where
  "cleaned_turns ms = drop_trailing (drop_middle (map (map_blocks (filter (Not \<circ> blank_text))) ms))"

text \<open>The retry of an interrupted stream: an empty last user turn goes, with the assistant turn before it.\<close>

definition rewind_retry :: "jobject list \<Rightarrow> jobject list" where
  "rewind_retry ms =
     (if ms \<noteq> [] \<and> has_role ''user'' (last ms) \<and> no_blocks (last ms) then
        (let ms1 = butlast ms in if ms1 \<noteq> [] \<and> has_role ''assistant'' (last ms1) then butlast ms1 else ms1)
      else ms)"

section \<open>Marks, thinking, calls and results\<close>

definition unmarked :: "jvalue \<Rightarrow> jvalue" where
  "unmarked b = (case b of J_obj o' \<Rightarrow> J_obj (AList.delete (lit ''cache_control'') o') | _ \<Rightarrow> b)"

definition strip_turn :: "jobject \<Rightarrow> jobject" where
  "strip_turn m =
     map_blocks (map unmarked)
       (if has_role ''assistant'' m then map_blocks (filter (\<lambda>b. block_type b \<noteq> Some (lit ''thinking''))) m else m)"

definition MAX_RESULT_TEXT :: nat where "MAX_RESULT_TEXT = 30000"

definition cut_text :: "utext \<Rightarrow> utext" where
  "cut_text t = (if length t > MAX_RESULT_TEXT then take MAX_RESULT_TEXT t @ [10] @ lit ''[...truncated]'' else t)"

text \<open>\<open>f\<close> on the text a block has under \<open>k\<close>.\<close>

definition on_text :: "string \<Rightarrow> (utext \<Rightarrow> utext) \<Rightarrow> jobject \<Rightarrow> jobject" where
  "on_text k f b = (case map_of b (lit k) of Some (J_str t) \<Rightarrow> AList.update (lit k) (J_str (f t)) b | _ \<Rightarrow> b)"

definition on_part :: "(utext \<Rightarrow> utext) \<Rightarrow> jvalue \<Rightarrow> jvalue" where
  "on_part f s = (case s of J_obj p \<Rightarrow> (if block_type s = Some (lit ''text'') then J_obj (on_text ''text'' f p) else s) | _ \<Rightarrow> s)"

definition on_result :: "(utext \<Rightarrow> utext) \<Rightarrow> jvalue \<Rightarrow> jvalue" where
  "on_result f b =
     (case b of
        J_obj p \<Rightarrow>
          (if block_type b = Some (lit ''tool_result'') then
             (case map_of p (lit ''content'') of
                Some (J_arr ss) \<Rightarrow> J_obj (AList.update (lit ''content'') (J_arr (map (on_part f) ss)) p)
              | _ \<Rightarrow> J_obj (on_text ''content'' f p))
           else b)
      | _ \<Rightarrow> b)"

definition compact_turn :: "jobject \<Rightarrow> jobject" where
  "compact_turn m = map_blocks (map (on_result cut_text)) m"

definition scrub_turn :: "(utext \<Rightarrow> utext) \<Rightarrow> jobject \<Rightarrow> jobject" where
  "scrub_turn scrub m =
     (case blocks_of m of
        Some bs \<Rightarrow> map_blocks (map (\<lambda>b. on_result scrub (on_part scrub b))) m
      | None \<Rightarrow> on_text ''content'' scrub m)"

text \<open>The turns of a request built from the template; \<open>tm\<close> is \<open>None\<close> when tools are preserved.\<close>

definition template_turns :: "(utext \<Rightarrow> utext) \<Rightarrow> tool_map option \<Rightarrow> jobject list \<Rightarrow> jobject list" where
  "template_turns scrub tm ms =
     (let ms1 = drop_trailing (map strip_turn ms);
          ms2 = (case tm of None \<Rightarrow> ms1 | Some m \<Rightarrow> map (map_blocks (map (remap_block m))) ms1)
      in map (scrub_turn scrub) (map compact_turn ms2))"

definition genuine_turns :: "jobject list \<Rightarrow> jobject list" where
  "genuine_turns ms = map (map_blocks (map unmarked)) (rewind_retry ms)"

section \<open>Cache marks\<close>

definition marked_with :: "jobject \<Rightarrow> jobject \<Rightarrow> jobject" where
  "marked_with cc b = AList.update (lit ''cache_control'') (J_obj cc) b"

definition isEmptyTextBlock :: "jvalue \<Rightarrow> bool" where
  "isEmptyTextBlock b \<longleftrightarrow>
     block_type b = Some (lit ''text'') \<and> (case str_of (jprop (Some b) ''text'') of None \<Rightarrow> True | Some t \<Rightarrow> t = [])"

text \<open>The last block that is no empty text, marked; \<open>None\<close> when there is none. A block that is no object has no fields to keep.\<close>

fun mark_last :: "jobject \<Rightarrow> jvalue list \<Rightarrow> jvalue list option" where
  "mark_last cc [] = None"
| "mark_last cc (b # bs) =
     (case mark_last cc bs of
        Some bs' \<Rightarrow> Some (b # bs')
      | None \<Rightarrow> (if isEmptyTextBlock b then None
                 else Some (J_obj (marked_with cc (case b of J_obj o' \<Rightarrow> o' | _ \<Rightarrow> [])) # bs)))"

definition mark_turn :: "jobject \<Rightarrow> jobject \<Rightarrow> jobject option" where
  "mark_turn cc m =
     (if has_role ''user'' m then
        (case blocks_of m of
           Some bs \<Rightarrow> map_option (\<lambda>bs'. AList.update (lit ''content'') (J_arr bs') m) (mark_last cc bs)
         | None \<Rightarrow> None)
      else None)"

text \<open>From the last turn backwards, until \<open>n\<close> turns are marked.\<close>

fun mark_back :: "jobject \<Rightarrow> nat \<Rightarrow> jobject list \<Rightarrow> jobject list" where
  "mark_back cc n [] = []"
| "mark_back cc n (m # ms) =
     (if n = 0 then m # ms
      else (case mark_turn cc m of None \<Rightarrow> m # mark_back cc n ms | Some m' \<Rightarrow> m' # mark_back cc (n - 1) ms))"

definition mark_turns :: "jobject \<Rightarrow> jobject list \<Rightarrow> jobject list" where
  "mark_turns cc ms = rev (mark_back cc 2 (rev ms))"

end
