(* ===== verification/Scrub.thy ===== *)
theory Scrub
  imports Sse_Frames "HOL-Library.Sublist"
begin

text \<open>
  Names of other products in a prompt (\<open>cc-template.ts\<close>): the patterns, matched without regard to case between word
  boundaries, and their removal unless they stand in a path. The patterns need no backtracking but the choice of an alternative.
\<close>

section \<open>Words\<close>

text \<open>\<open>\b\<close>: a word character on one side only.\<close>

definition word_char :: "int \<Rightarrow> bool" where
  "word_char c \<longleftrightarrow> 97 \<le> c \<and> c \<le> 122 \<or> 65 \<le> c \<and> c \<le> 90 \<or> 48 \<le> c \<and> c \<le> 57 \<or> c = 95"

definition word_at :: "utext \<Rightarrow> nat \<Rightarrow> bool" where
  "word_at s i \<longleftrightarrow> i < length s \<and> word_char (s ! i)"

definition word_boundary :: "utext \<Rightarrow> nat \<Rightarrow> bool" where
  "word_boundary s i \<longleftrightarrow> (i > 0 \<and> word_at s (i - 1)) \<noteq> word_at s i"

section \<open>Patterns\<close>

text \<open>A text, \<open>[- ]?\<close>, \<open>\s+\<close>, \<open>[a-z]+\<close> and \<open>[a-z_]+\<close>.\<close>

datatype pat = Text_of string | Maybe_sep | Spaces | Letters | Identifier

definition fold_case :: "int \<Rightarrow> int" where
  "fold_case c = (if 65 \<le> c \<and> c \<le> 90 then c + 32 else c)"

definition lower_letter :: "int \<Rightarrow> bool" where
  "lower_letter c \<longleftrightarrow> 97 \<le> fold_case c \<and> fold_case c \<le> 122"

definition some_of :: "(int \<Rightarrow> bool) \<Rightarrow> utext \<Rightarrow> nat option" where
  "some_of P s = (let n = length (takeWhile P s) in if n = 0 then None else Some n)"

fun pat_length :: "pat \<Rightarrow> utext \<Rightarrow> nat option" where
  "pat_length (Text_of t) s = (if map fold_case (take (length t) s) = lit t then Some (length t) else None)"
| "pat_length Maybe_sep s = (case s of c # _ \<Rightarrow> (if c = 45 \<or> c = 32 then Some 1 else Some 0) | [] \<Rightarrow> Some 0)"
| "pat_length Spaces s = some_of js_space s"
| "pat_length Letters s = some_of lower_letter s"
| "pat_length Identifier s = some_of (\<lambda>c. lower_letter c \<or> c = 95) s"

fun pats_length :: "pat list \<Rightarrow> utext \<Rightarrow> nat option" where
  "pats_length [] s = Some 0"
| "pats_length (p # ps) s =
     (case pat_length p s of None \<Rightarrow> None | Some n \<Rightarrow> map_option (\<lambda>k. n + k) (pats_length ps (drop n s)))"

text \<open>A pattern: whether it is between word boundaries, and its alternatives.\<close>

type_synonym pattern = "bool \<times> pat list list"

definition pattern_at :: "pattern \<Rightarrow> utext \<Rightarrow> nat \<Rightarrow> nat option" where
  "pattern_at p s i =
     (if fst p \<and> \<not> word_boundary s i then None
      else case List.find (\<lambda>alt. case pats_length alt (drop i s) of None \<Rightarrow> False | Some n \<Rightarrow> n > 0 \<and> (fst p \<longrightarrow> word_boundary s (i + n))) (snd p) of
             None \<Rightarrow> None
           | Some alt \<Rightarrow> pats_length alt (drop i s))"

definition words_of :: "string list \<Rightarrow> pattern" where
  "words_of ws = (True, map (\<lambda>w. [Text_of w]) ws)"

definition FRAMEWORK_PATTERNS :: "pattern list" where
  "FRAMEWORK_PATTERNS =
     [(True, [[Text_of ''roo'', Maybe_sep, Text_of ''cline''], [Text_of ''roo'', Maybe_sep, Text_of ''code''],
        [Text_of ''big'', Maybe_sep, Text_of ''agi''], [Text_of ''claude'', Maybe_sep, Text_of ''bridge''], [Text_of ''amazon'', Spaces, Text_of ''q'']]),
      words_of [''openclaw'', ''hermes'', ''aider'', ''cursor'', ''windsurf'', ''cline'', ''continue'', ''copilot'', ''cody''],
      words_of [''zed'', ''plandex'', ''tabby'', ''opencode'', ''daytona''],
      words_of [''librechat'', ''typingmind''],
      words_of [''openai'', ''gpt-4'', ''gpt-3.5''],
      (False, [[Text_of ''powered by '', Letters]]),
      words_of [''gateway''],
      (True, [[Text_of ''sessions_'', Identifier]])]"

definition CONTENT_FRAMEWORK_PATTERNS :: "pattern list" where
  "CONTENT_FRAMEWORK_PATTERNS =
     [(True, [[Text_of ''roo'', Maybe_sep, Text_of ''cline''], [Text_of ''roo'', Maybe_sep, Text_of ''code''],
        [Text_of ''big'', Maybe_sep, Text_of ''agi''], [Text_of ''claude'', Maybe_sep, Text_of ''bridge'']]),
      words_of [''librechat'', ''typingmind'']]"

section \<open>Removal\<close>

text \<open>A match next to a separator of paths or slugs is left alone.\<close>

definition in_path :: "utext \<Rightarrow> nat \<Rightarrow> nat \<Rightarrow> bool" where
  "in_path s i n \<longleftrightarrow> i > 0 \<and> s ! (i - 1) \<in> {46, 47, 92, 45, 95} \<or> i + n < length s \<and> s ! (i + n) \<in> {47, 92}"

fun replace_from :: "nat \<Rightarrow> pattern \<Rightarrow> utext \<Rightarrow> nat \<Rightarrow> utext" where
  "replace_from 0 p s i = drop i s"
| "replace_from (Suc fuel) p s i =
     (if i \<ge> length s then []
      else case pattern_at p s i of
             None \<Rightarrow> s ! i # replace_from fuel p s (Suc i)
           | Some n \<Rightarrow> (if in_path s i n then take n (drop i s) else []) @ replace_from fuel p s (i + n))"

definition scrubWithPatterns :: "utext \<Rightarrow> pattern list \<Rightarrow> utext" where
  "scrubWithPatterns s ps = foldl (\<lambda>s p. replace_from (length s) p s 0) s ps"

definition scrubFrameworkIdentifiers :: "utext \<Rightarrow> utext" where
  "scrubFrameworkIdentifiers s = scrubWithPatterns s FRAMEWORK_PATTERNS"

definition scrubFrameworkIdentifiersInContent :: "utext \<Rightarrow> utext" where
  "scrubFrameworkIdentifiersInContent s = scrubWithPatterns s CONTENT_FRAMEWORK_PATTERNS"

section \<open>Nothing is added\<close>

lemma pattern_found: "pattern_at p s i = Some n \<Longrightarrow> n > 0"
  by (auto simp: pattern_at_def find_Some_iff split: if_splits option.splits)

lemma replace_from_subseq: "subseq (replace_from fuel p s i) (drop i s)"
proof (induction fuel arbitrary: i)
  case (Suc fuel)
  show ?case
  proof (cases "i \<ge> length s")
    case False
    show ?thesis
    proof (cases "pattern_at p s i")
      case None
      then show ?thesis using False Suc [of "Suc i"] by (simp add: Cons_nth_drop_Suc [symmetric])
    next
      case (Some n)
      have "drop i s = take n (drop i s) @ drop (i + n) s" by (metis append_take_drop_id drop_drop add.commute)
      moreover have "subseq ((if in_path s i n then take n (drop i s) else []) @ replace_from fuel p s (i + n)) (take n (drop i s) @ drop (i + n) s)"
        using Suc [of "i + n"] by (intro list_emb_append_mono) auto
      ultimately show ?thesis using False Some by simp
    qed
  qed simp
qed simp

lemma scrub_subseq: "subseq (scrubWithPatterns s ps) s"
proof (induction ps arbitrary: s)
  case (Cons p ps)
  have "subseq (scrubWithPatterns (replace_from (length s) p s 0) ps) (replace_from (length s) p s 0)" by (rule Cons)
  then have "subseq (scrubWithPatterns (replace_from (length s) p s 0) ps) s"
    using replace_from_subseq [of "length s" p s 0] subseq_order.order_trans by fastforce
  then show ?case by (simp add: scrubWithPatterns_def)
qed (simp add: scrubWithPatterns_def)

text \<open>The fuel is enough: every step passes a character.\<close>

lemma replace_enough: "length s - i \<le> fuel \<Longrightarrow> length s - i \<le> more_fuel \<Longrightarrow> replace_from fuel p s i = replace_from more_fuel p s i"
proof (induction fuel arbitrary: i more_fuel)
  case 0
  then show ?case by (cases more_fuel) auto
next
  case (Suc fuel)
  show ?case
  proof (cases more_fuel)
    case 0
    then show ?thesis using Suc.prems by simp
  next
    case (Suc m)
    show ?thesis
    proof (cases "i < length s")
      case True
      have "replace_from fuel p s j = replace_from m p s j" if "j > i" for j
        using that True Suc.prems \<open>more_fuel = Suc m\<close> by (intro Suc.IH) auto
      then show ?thesis using \<open>more_fuel = Suc m\<close> pattern_found [of p s i] by (auto split: option.splits)
    qed (simp add: Suc)
  qed
qed

end
