(* ===== verification/Request_Props.thy ===== *)
theory Request_Props
  imports Request_Body
begin

text \<open>
  What an outgoing request promises: no more cache marks than upstream takes and none on an empty text, no turn
  without content from a genuine client, tools with distinct names among which every mapped tool can be called, and a
  body that keeps its fields under the captured order.
\<close>

section \<open>Fields\<close>

lemma fields_in_order_keep:
  "map_of (fields_in_order seen ks body) k = (if k \<in> set seen then None else map_of body k)"
proof (induction seen ks body rule: fields_in_order.induct)
  case (1 seen body)
  show ?case by (induction body) auto
next
  case (2 seen j ks body)
  then show ?case by (auto split: option.splits)
qed

lemma order_keeps [simp]: "map_of (orderBodyForOutbound order body) k = map_of body k"
  by (simp add: orderBodyForOutbound_def fields_in_order_keep)

lemma order_turns [simp]: "turns_of (orderBodyForOutbound order body) = turns_of body"
  by (simp add: turns_of_def)

lemma order_tools [simp]: "tools_of (orderBodyForOutbound order body) = tools_of body"
  by (simp add: tools_of_def)

lemma of_objects [simp]: "List.map_filter (\<lambda>m. case m of J_obj o' \<Rightarrow> Some o' | _ \<Rightarrow> None) (map J_obj ms) = ms"
  by (induction ms) (simp_all add: List.map_filter_simps)

lemma turns_of_with_turns [simp]: "turns_of (with_turns ms body) = ms"
  by (simp add: turns_of_def with_turns_def update_conv')

lemma with_turns_other [simp]: "k \<noteq> lit ''messages'' \<Longrightarrow> map_of (with_turns ms body) k = map_of body k"
  by (simp add: with_turns_def update_conv')

section \<open>Cache marks\<close>

definition is_marked :: "jvalue \<Rightarrow> bool" where
  "is_marked b \<longleftrightarrow> jprop (Some b) ''cache_control'' \<noteq> None"

definition marks_of :: "jvalue list \<Rightarrow> nat" where
  "marks_of bs = length (filter is_marked bs)"

definition turn_marks :: "jobject \<Rightarrow> nat" where
  "turn_marks m = (case blocks_of m of None \<Rightarrow> 0 | Some bs \<Rightarrow> marks_of bs)"

definition system_blocks :: "jobject \<Rightarrow> jvalue list" where
  "system_blocks body = (case map_of body (lit ''system'') of Some (J_arr bs) \<Rightarrow> bs | _ \<Rightarrow> [])"

definition system_marks :: "jobject \<Rightarrow> nat" where
  "system_marks body = (case map_of body (lit ''system'') of Some (J_arr bs) \<Rightarrow> marks_of bs | _ \<Rightarrow> 0)"

definition tool_marks :: "jobject \<Rightarrow> nat" where
  "tool_marks body = (case tools_of body of None \<Rightarrow> 0 | Some ts \<Rightarrow> marks_of (map J_obj ts))"

text \<open>
  Upstream counts a mark wherever it stands: on a block, or on a part inside it - the parts of a tool's result, or of
  the source of a document. An object's fields of the same name elsewhere, in the input of a call or the schema of a
  tool, are no marks.
\<close>

definition listed :: "jvalue option \<Rightarrow> jvalue list" where
  "listed v = (case v of Some (J_arr vs) \<Rightarrow> vs | _ \<Rightarrow> [])"

definition parts_of :: "jvalue \<Rightarrow> jvalue list" where
  "parts_of b = listed (jprop (Some b) ''content'') @ listed (jprop (jprop (Some b) ''source'') ''content'')"

lemma in_listed: "u \<in> set (listed v) \<longleftrightarrow> (\<exists>vs. v = Some (J_arr vs) \<and> u \<in> set vs)"
  by (auto simp: listed_def split: option.splits jvalue.splits)

lemma part_smaller: "u \<in> set (parts_of b) \<Longrightarrow> size u < size b"
proof -
  assume "u \<in> set (parts_of b)"
  then consider vs where "jprop (Some b) ''content'' = Some (J_arr vs)" "u \<in> set vs"
    | vs where "jprop (jprop (Some b) ''source'') ''content'' = Some (J_arr vs)" "u \<in> set vs"
    by (auto simp: parts_of_def in_listed)
  then show ?thesis
  proof cases
    case 1
    then show ?thesis by (rule jprop_list_size)
  next
    case 2
    then obtain v where v: "jprop (Some b) ''source'' = Some v" by (cases "jprop (Some b) ''source''") (auto simp: jprop_def)
    have "size u < size v" using 2 unfolding v by (rule jprop_list_size)
    with jprop_size [OF v] show ?thesis by simp
  qed
qed

function deep_marks :: "jvalue \<Rightarrow> nat" where
  "deep_marks b = (if is_marked b then 1 else 0) + sum_list (map deep_marks (parts_of b))"
  by pat_completeness auto
termination by (relation "measure size") (auto dest: part_smaller)

declare deep_marks.simps [simp del]

definition inner_marks :: "jvalue \<Rightarrow> nat" where
  "inner_marks b = sum_list (map deep_marks (parts_of b))"

definition turn_blocks :: "jobject \<Rightarrow> jvalue list" where
  "turn_blocks m = (case blocks_of m of None \<Rightarrow> [] | Some bs \<Rightarrow> bs)"

definition cache_marks :: "jobject \<Rightarrow> nat" where
  "cache_marks body = sum_list (map deep_marks (system_blocks body)) + tool_marks body
     + sum_list (map (\<lambda>m. sum_list (map deep_marks (turn_blocks m))) (turns_of body))"

text \<open>The marks inside the blocks of a body, which nothing on the way removes.\<close>

definition inside_marks :: "jvalue list \<Rightarrow> nat" where
  "inside_marks bs = sum_list (map inner_marks bs)"

definition turns_inside :: "jobject list \<Rightarrow> nat" where
  "turns_inside ms = sum_list (map (\<lambda>m. inside_marks (turn_blocks m)) ms)"

definition nested_marks :: "jobject \<Rightarrow> nat" where
  "nested_marks body = inside_marks (system_blocks body) + turns_inside (turns_of body)"

lemma marks_of_simps [simp]:
  "marks_of [] = 0" "marks_of (b # bs) = (if is_marked b then 1 else 0) + marks_of bs" "marks_of (xs @ ys) = marks_of xs + marks_of ys"
  by (simp_all add: marks_of_def)

lemma marked_obj: "is_marked (J_obj o') \<longleftrightarrow> map_of o' (lit ''cache_control'') \<noteq> None"
  by (simp add: is_marked_def jprop_def)

lemma unmarked_obj [simp]: "\<not> is_marked (unmarked b)"
  by (cases b) (simp_all add: is_marked_def unmarked_def jprop_def delete_conv')

lemma marks_unmarked [simp]: "marks_of (map unmarked bs) = 0"
  by (induction bs) simp_all

lemma blocks_of_map [simp]: "blocks_of (map_blocks f m) = map_option f (blocks_of m)"
  by (simp add: map_blocks_def blocks_of_def update_conv' split: option.splits jvalue.splits)

lemma marks_kept: "(\<And>b. is_marked (f b) = is_marked b) \<Longrightarrow> marks_of (map f bs) = marks_of bs"
  by (induction bs) simp_all

lemma marked_on_text [simp]: "k \<noteq> ''cache_control'' \<Longrightarrow> map_of (on_text k f p) (lit ''cache_control'') = map_of p (lit ''cache_control'')"
  by (simp add: on_text_def update_conv' split: option.splits jvalue.splits)

lemma marked_on_part [simp]: "is_marked (on_part f b) = is_marked b"
  by (cases b) (simp_all add: on_part_def marked_obj)

lemma marked_on_result [simp]: "is_marked (on_result f b) = is_marked b"
  by (cases b) (auto simp: on_result_def marked_obj update_conv' split: option.splits jvalue.splits)

lemma marked_remap_call: "map_of (remap_call tm b) (lit ''cache_control'') = map_of b (lit ''cache_control'')"
  by (simp add: remap_call_def update_conv' Let_def split: option.splits)

lemma strip_result_marks: "map_of (strip_result b) (lit ''cache_control'') = None"
  by (induction b) (auto simp: strip_result_def)

lemma remap_no_mark: "\<not> is_marked b \<Longrightarrow> \<not> is_marked (remap_block tm b)"
  by (cases b) (auto simp: remap_block_def marked_obj marked_remap_call strip_result_marks Let_def)

lemma marks_remap: "marks_of bs = 0 \<Longrightarrow> marks_of (map (remap_block tm) bs) = 0"
  by (induction bs) (auto simp: remap_no_mark split: if_splits)

lemma turn_marks_map: "turn_marks (map_blocks f m) = (case blocks_of m of None \<Rightarrow> 0 | Some bs \<Rightarrow> marks_of (f bs))"
  by (simp add: turn_marks_def split: option.splits)

lemma turn_marks_strip [simp]: "turn_marks (strip_turn m) = 0"
  by (simp add: strip_turn_def turn_marks_map split: option.splits)

lemma turn_marks_compact [simp]: "turn_marks (compact_turn m) = turn_marks m"
  unfolding compact_turn_def turn_marks_map by (simp add: turn_marks_def marks_kept split: option.splits)

lemma blocks_on_text: "blocks_of m = None \<Longrightarrow> blocks_of (on_text ''content'' f m) = None"
  by (auto simp: blocks_of_def on_text_def update_conv' split: option.splits jvalue.splits)

lemma turn_marks_scrub [simp]: "turn_marks (scrub_turn f m) = turn_marks m"
proof (cases "blocks_of m")
  case None
  then show ?thesis by (simp add: scrub_turn_def turn_marks_def blocks_on_text)
next
  case (Some bs)
  have "marks_of (map (\<lambda>b. on_result f (on_part f b)) bs) = marks_of bs" by (rule marks_kept) simp
  then show ?thesis using Some unfolding scrub_turn_def by (simp add: turn_marks_def)
qed

lemma turn_marks_remap: "turn_marks m = 0 \<Longrightarrow> turn_marks (map_blocks (map (remap_block tm)) m) = 0"
  by (simp add: turn_marks_def marks_remap split: option.splits)

lemma turn_marks_genuine [simp]: "turn_marks (map_blocks (map unmarked) m) = 0"
  by (simp add: turn_marks_map split: option.splits)

lemma drop_trailing_in: "set (drop_trailing ms) \<subseteq> set ms"
  by (auto simp: drop_trailing_def dest: set_dropWhileD)

lemma template_turns_marks: "m \<in> set (template_turns scrub tm ms) \<Longrightarrow> turn_marks m = 0"
  using drop_trailing_in [of "map strip_turn ms"]
  by (auto simp: template_turns_def Let_def turn_marks_remap split: option.splits)

lemma genuine_turns_marks: "m \<in> set (genuine_turns ms) \<Longrightarrow> turn_marks m = 0"
  by (auto simp: genuine_turns_def)

lemma marked_marks: "is_marked (J_obj (marked_with cc o'))"
  by (simp add: marked_obj marked_with_def update_conv')

text \<open>One mark, on a block that is no empty text, in a turn that had none.\<close>

lemma marked_not_empty: "isEmptyTextBlock (J_obj (marked_with cc o')) = isEmptyTextBlock (J_obj o')"
  by (simp add: isEmptyTextBlock_def block_type_def jprop_def marked_with_def update_conv')

definition well_marked :: "jvalue list \<Rightarrow> bool" where
  "well_marked bs \<longleftrightarrow> list_all (\<lambda>b. is_marked b \<longrightarrow> \<not> isEmptyTextBlock b) bs"

lemma unmarked_well: "marks_of bs = 0 \<Longrightarrow> well_marked bs"
  by (induction bs) (auto simp: well_marked_def split: if_splits)

lemma no_object_text: "isEmptyTextBlock (J_obj []) = False"
  by (simp add: isEmptyTextBlock_def block_type_def jprop_def str_of_def)

lemma mark_last_one: "mark_last cc bs = Some bs' \<Longrightarrow> marks_of bs = 0 \<Longrightarrow> marks_of bs' = 1 \<and> well_marked bs'"
proof (induction bs arbitrary: bs')
  case (Cons b bs)
  show ?case
  proof (cases "mark_last cc bs")
    case None
    then have "bs' = J_obj (marked_with cc (case b of J_obj o' \<Rightarrow> o' | _ \<Rightarrow> [])) # bs" "\<not> isEmptyTextBlock b"
      using Cons.prems by (auto split: if_splits)
    then show ?thesis using Cons.prems(2) unmarked_well [of bs]
      by (cases b) (auto simp: marked_marks well_marked_def marked_not_empty no_object_text split: if_splits)
  next
    case (Some bs1)
    then have "bs' = b # bs1" using Cons.prems by simp
    then show ?thesis using Cons.IH [OF Some] Cons.prems(2) by (auto simp: well_marked_def split: if_splits)
  qed
qed simp

definition turn_well_marked :: "jobject \<Rightarrow> bool" where
  "turn_well_marked m \<longleftrightarrow> (case blocks_of m of None \<Rightarrow> True | Some bs \<Rightarrow> well_marked bs)"

lemma mark_turn_one: "mark_turn cc m = Some m' \<Longrightarrow> turn_marks m = 0 \<Longrightarrow> turn_marks m' = 1 \<and> turn_well_marked m'"
  by (auto simp: mark_turn_def turn_marks_def turn_well_marked_def blocks_of_def update_conv' dest!: mark_last_one
      split: if_splits option.splits jvalue.splits)

lemma unmarked_turn_well: "turn_marks m = 0 \<Longrightarrow> turn_well_marked m"
  by (auto simp: turn_marks_def turn_well_marked_def unmarked_well split: option.splits)

lemma mark_back_bound:
  "\<forall>m \<in> set ms. turn_marks m = 0 \<Longrightarrow> sum_list (map turn_marks (mark_back cc n ms)) \<le> n \<and> list_all turn_well_marked (mark_back cc n ms)"
proof (induction ms arbitrary: n)
  case (Cons m ms)
  show ?case
  proof (cases "n = 0")
    case True
    then show ?thesis using Cons.prems by (auto simp: unmarked_turn_well list_all_iff)
  next
    case False
    then show ?thesis using Cons.IH [of n] Cons.IH [of "n - 1"] Cons.prems mark_turn_one [of cc m]
      by (auto simp: unmarked_turn_well split: option.splits)
  qed
qed simp

lemma mark_turns_bound:
  assumes "\<forall>m \<in> set ms. turn_marks m = 0"
  shows "sum_list (map turn_marks (mark_turns cc ms)) \<le> 2 \<and> list_all turn_well_marked (mark_turns cc ms)"
  using mark_back_bound [of "rev ms" cc 2] assms by (simp add: mark_turns_def rev_map [symmetric] sum_list_rev)

lemma turns_unmarked_tools [simp]: "turns_of (unmarked_tools body) = turns_of body"
  by (simp add: unmarked_tools_def turns_of_def update_conv' split: option.splits list.splits)

lemma turns_of_cached [simp]: "turns_of (applyCcPromptCaching cc body) = mark_turns cc (turns_of body)"
  by (simp add: applyCcPromptCaching_def Let_def mark_turns_def)

lemma system_of_cached [simp]: "system_marks (applyCcPromptCaching cc body) = system_marks body"
  by (simp add: applyCcPromptCaching_def system_marks_def unmarked_tools_def update_conv' Let_def split: option.splits list.splits)

lemma tools_of_with_turns [simp]: "tools_of (with_turns ms body) = tools_of body"
  by (simp add: tools_of_def)

lemma delete_marks: "marks_of (map (\<lambda>t. J_obj (AList.delete (lit ''cache_control'') t)) ts) = 0"
  by (induction ts) (simp_all add: marked_obj delete_conv')

lemma tool_marks_cached [simp]: "tool_marks (applyCcPromptCaching cc body) = 0"
proof -
  have "tool_marks (unmarked_tools body) = 0"
  proof (cases "tools_of body")
    case (Some ts)
    then show ?thesis
    proof (cases ts)
      case (Cons t ts')
      have "tools_of (AList.update (lit ''tools'') (J_arr (map J_obj us)) body) = Some us" for us
        by (simp add: tools_of_def update_conv')
      from this [of "map (AList.delete (lit ''cache_control'')) ts"] show ?thesis using Some Cons delete_marks [of ts]
        by (simp add: unmarked_tools_def tool_marks_def comp_def)
    qed (simp add: unmarked_tools_def tool_marks_def)
  qed (simp add: unmarked_tools_def tool_marks_def)
  then show ?thesis by (simp add: applyCcPromptCaching_def tool_marks_def Let_def)
qed

lemma genuine_block_mark: "is_marked (genuine_block tag cc n i b) \<Longrightarrow> max 1 (n - 2) \<le> i"
  by (auto simp: genuine_block_def marked_obj marked_with_def update_conv' delete_conv' Let_def is_marked_def jprop_def
      split: jvalue.splits if_splits)

lemma genuine_marks_from:
  "marks_of (map (\<lambda>(i, b). genuine_block tag cc n i b) (zip [k..<k + length bs] bs)) \<le> length (filter (\<lambda>i. max 1 (n - 2) \<le> i) [k..<k + length bs])"
proof (induction bs arbitrary: k)
  case (Cons b bs)
  have "[k..<k + length (b # bs)] = k # [Suc k..<Suc k + length bs]" by (simp add: upt_rec)
  then show ?case using Cons [of "Suc k"] genuine_block_mark [of tag cc n k b] by (auto simp del: max.bounded_iff)
qed simp

lemma late_indices: "length (filter (\<lambda>i. max 1 (n - 2) \<le> i) [0..<n]) \<le> 2"
proof -
  let ?l = "filter (\<lambda>i. max 1 (n - 2) \<le> i) [0..<n]"
  have "length ?l = card (set ?l)" by (rule distinct_card [symmetric]) simp
  also have "\<dots> \<le> card {n - 2..<n}" by (rule card_mono) auto
  finally show ?thesis by simp
qed

lemma genuine_system_marks: "marks_of (genuine_system tag cc bs) \<le> 2"
  using genuine_marks_from [of tag cc "length bs" 0 bs] late_indices [of "length bs"] by (simp add: genuine_system_def del: max.bounded_iff)

lemma template_body_fields:
  "map_of (template_body env opts tag cc ident preserve merge p body) (lit ''system'')
     = Some (template_system env tag cc (model_of body) (scrubFrameworkIdentifiers (extractSystemText body)))"
  "turns_of (template_body env opts tag cc ident preserve merge p body)
     = template_turns scrubFrameworkIdentifiersInContent (if preserve then None else Some (tl_map p)) (cleaned_turns (turns_of body))"
  by (simp_all add: template_body_def turns_of_def Let_def split_def)

lemma template_system_marks:
  "template_system env tag cc model client = J_arr bs \<Longrightarrow> marks_of bs \<le> 2"
  by (auto simp: template_system_def marked_marks) (simp add: marked_obj text_block_def)

lemma genuine_body_fields:
  "map_of (genuine_body env tag cc ident body) (lit ''system'')
     = Some (J_arr (case map_of body (lit ''system'') of Some (J_arr bs) \<Rightarrow> genuine_system tag cc bs | _ \<Rightarrow> []))"
  "turns_of (genuine_body env tag cc ident body) =
     (case map_of body (lit ''messages'') of Some (J_arr ms) \<Rightarrow> genuine_turns (cleaned_turns (turns_of body)) | _ \<Rightarrow> [])"
proof -
  show "map_of (genuine_body env tag cc ident body) (lit ''system'')
     = Some (J_arr (case map_of body (lit ''system'') of Some (J_arr bs) \<Rightarrow> genuine_system tag cc bs | _ \<Rightarrow> []))"
    by (simp add: genuine_body_def Let_def update_conv')
  have t: "turns_of (AList.update (lit ''metadata'') x (AList.update (lit ''system'') y b)) = turns_of b" for x y b
    by (simp add: turns_of_def update_conv')
  show "turns_of (genuine_body env tag cc ident body) =
     (case map_of body (lit ''messages'') of Some (J_arr ms) \<Rightarrow> genuine_turns (cleaned_turns (turns_of body)) | _ \<Rightarrow> [])"
    by (simp add: genuine_body_def Let_def t split: option.splits jvalue.splits) (simp add: turns_of_def)
qed

text \<open>What was built, before the marks of the conversation.\<close>

lemma built_unmarked:
  assumes "buildCCRequest env opts tag cc ident body = Inr b"
  shows "system_marks (br_body b) \<le> 2 \<and> (\<forall>m \<in> set (turns_of (br_body b)). turn_marks m = 0)"
proof (cases "isGenuineCCClient body")
  case True
  then have b: "br_body b = genuine_body env tag cc ident body" using assms by (auto simp: buildCCRequest_def)
  show ?thesis unfolding b
    by (auto simp: system_marks_def genuine_body_fields genuine_system_marks genuine_turns_marks split: option.splits jvalue.splits)
next
  case False
  then obtain preserve merge p where
    b: "br_body b = orderBodyForOutbound (be_order env) (template_body env opts tag cc ident preserve merge p body)"
    using assms by (auto simp: buildCCRequest_def Let_def split: if_splits)
  show ?thesis unfolding b
    by (auto simp: system_marks_def template_body_fields template_system_marks dest: template_turns_marks split: option.splits jvalue.splits)
qed

subsection \<open>Marks inside blocks\<close>

lemma deep_split: "sum_list (map deep_marks bs) = marks_of bs + inside_marks bs"
  by (induction bs) (simp_all add: deep_marks.simps [of "_ :: jvalue"] inside_marks_def inner_marks_def)

lemma marks_turn_blocks: "marks_of (turn_blocks m) = turn_marks m"
  by (simp add: turn_blocks_def turn_marks_def split: option.splits)

lemma cache_marks_split:
  "cache_marks body = marks_of (system_blocks body) + tool_marks body + sum_list (map turn_marks (turns_of body)) + nested_marks body"
proof -
  have "sum_list (map (\<lambda>m. sum_list (map deep_marks (turn_blocks m))) ms) = sum_list (map turn_marks ms) + turns_inside ms" for ms
    by (induction ms) (simp_all add: turns_inside_def deep_split marks_turn_blocks)
  then show ?thesis by (simp add: cache_marks_def nested_marks_def deep_split)
qed

lemma inside_simps [simp]:
  "inside_marks [] = 0" "inside_marks (b # bs) = inner_marks b + inside_marks bs" "inside_marks (bs @ cs) = inside_marks bs + inside_marks cs"
  by (simp_all add: inside_marks_def)

lemma turns_inside_simps [simp]:
  "turns_inside [] = 0" "turns_inside (m # ms) = inside_marks (turn_blocks m) + turns_inside ms"
  "turns_inside (ms @ ns) = turns_inside ms + turns_inside ns"
  by (simp_all add: turns_inside_def)

lemma inside_mono: "(\<And>b. inner_marks (f b) \<le> inner_marks b) \<Longrightarrow> inside_marks (map f bs) \<le> inside_marks bs"
  by (induction bs) (simp_all add: add_mono)

lemma inside_filter: "inside_marks (filter P bs) \<le> inside_marks bs"
  by (induction bs) auto

lemma turns_inside_mono:
  "(\<And>m. inside_marks (turn_blocks (f m)) \<le> inside_marks (turn_blocks m)) \<Longrightarrow> turns_inside (map f ms) \<le> turns_inside ms"
  by (induction ms) (simp_all add: add_mono)

lemma turn_blocks_map: "turn_blocks (map_blocks f m) = (case blocks_of m of None \<Rightarrow> [] | Some bs \<Rightarrow> f bs)"
  by (simp add: turn_blocks_def split: option.split)

lemma blocks_inside: "(\<And>bs. inside_marks (f bs) \<le> inside_marks bs) \<Longrightarrow> inside_marks (turn_blocks (map_blocks f m)) \<le> inside_marks (turn_blocks m)"
  by (simp add: turn_blocks_def split: option.split)

text \<open>A block keeps its inner marks when its \<open>content\<close> and its \<open>source\<close> are left alone.\<close>

lemma inner_kept:
  assumes "map_of o' (lit ''content'') = map_of p (lit ''content'')" and "map_of o' (lit ''source'') = map_of p (lit ''source'')"
  shows "inner_marks (J_obj o') = inner_marks (J_obj p)"
  using assms by (simp add: inner_marks_def parts_of_def jprop_def)

lemma inner_unmarked [simp]: "inner_marks (unmarked b) = inner_marks b"
  by (cases b) (auto simp: unmarked_def delete_conv' intro: inner_kept)

lemma inner_marked [simp]: "inner_marks (J_obj (marked_with cc o')) = inner_marks (J_obj o')"
  by (rule inner_kept) (simp_all add: marked_with_def update_conv')

lemma inner_nothing [simp]: "inner_marks (J_obj []) = 0"
  by (simp add: inner_marks_def parts_of_def listed_def jprop_def)

lemma on_text_other: "k \<noteq> j \<Longrightarrow> map_of (on_text j f p) (lit k) = map_of p (lit k)"
  by (simp add: on_text_def update_conv' split: option.splits jvalue.splits)

lemma inner_on_part [simp]: "inner_marks (on_part f b) = inner_marks b"
  by (cases b) (auto simp: on_part_def on_text_other intro: inner_kept)

lemma deep_on_part [simp]: "deep_marks (on_part f b) = deep_marks b"
  using inner_on_part [of f b] by (simp add: deep_marks.simps [of "on_part f b"] deep_marks.simps [of b] inner_marks_def)

lemma listed_on_text: "listed (map_of (on_text k f p) (lit k)) = listed (map_of p (lit k))"
  by (simp add: on_text_def listed_def update_conv' split: option.splits jvalue.splits)

lemma inner_on_result [simp]: "inner_marks (on_result f b) = inner_marks b"
proof (cases b)
  case (J_obj p)
  show ?thesis
  proof (cases "\<exists>ss. map_of p (lit ''content'') = Some (J_arr ss)")
    case True
    then obtain ss where "map_of p (lit ''content'') = Some (J_arr ss)" by blast
    then show ?thesis
      by (simp add: J_obj on_result_def inner_marks_def parts_of_def jprop_def update_conv' listed_def comp_def)
  next
    case False
    then have "on_result f b = (if block_type b = Some (lit ''tool_result'') then J_obj (on_text ''content'' f p) else b)"
      by (auto simp: J_obj on_result_def split: option.split jvalue.split)
    then show ?thesis
      by (simp add: J_obj inner_marks_def parts_of_def jprop_def listed_on_text on_text_other)
  qed
qed (simp_all add: on_result_def)

lemma remap_call_other: "k \<noteq> ''name'' \<Longrightarrow> k \<noteq> ''input'' \<Longrightarrow> map_of (remap_call tm b) (lit k) = map_of b (lit k)"
  by (simp add: remap_call_def update_conv' Let_def split: option.splits)

lemma strip_result_fields:
  "map_of (strip_result b) (lit ''content'') = map_of b (lit ''content'')" "map_of (strip_result b) (lit ''source'') = None"
  by (induction b) (auto simp: strip_result_def)

lemma inner_remap: "inner_marks (remap_block tm b) \<le> inner_marks b"
proof (cases b)
  case (J_obj p)
  have "inner_marks (J_obj (remap_call tm p)) = inner_marks (J_obj p)" by (rule inner_kept) (simp_all add: remap_call_other)
  moreover have "inner_marks (J_obj (strip_result p)) \<le> inner_marks (J_obj p)"
    by (simp add: inner_marks_def parts_of_def jprop_def strip_result_fields listed_def)
  ultimately show ?thesis by (simp add: J_obj remap_block_def Let_def)
qed (simp_all add: remap_block_def)

lemma inside_strip: "inside_marks (turn_blocks (strip_turn m)) \<le> inside_marks (turn_blocks m)"
proof -
  let ?f = "map_blocks (filter (\<lambda>b. block_type b \<noteq> Some (lit ''thinking'')))"
  have "inside_marks (turn_blocks (map_blocks (map unmarked) n)) \<le> inside_marks (turn_blocks n)" for n
    by (rule blocks_inside) (rule inside_mono, simp)
  moreover have "inside_marks (turn_blocks (?f m)) \<le> inside_marks (turn_blocks m)"
    by (rule blocks_inside) (rule inside_filter)
  ultimately show ?thesis unfolding strip_turn_def using order_trans by auto
qed

lemma inside_compact: "inside_marks (turn_blocks (compact_turn m)) \<le> inside_marks (turn_blocks m)"
  unfolding compact_turn_def by (rule blocks_inside) (rule inside_mono, simp)

lemma inside_scrub: "inside_marks (turn_blocks (scrub_turn f m)) \<le> inside_marks (turn_blocks m)"
proof (cases "blocks_of m")
  case None
  then show ?thesis by (simp add: scrub_turn_def turn_blocks_def blocks_on_text)
next
  case (Some bs)
  have "inside_marks (turn_blocks (map_blocks (map (\<lambda>b. on_result f (on_part f b))) m)) \<le> inside_marks (turn_blocks m)"
    by (rule blocks_inside) (rule inside_mono, simp)
  then show ?thesis using Some by (simp add: scrub_turn_def)
qed

lemma inside_drop_middle: "turns_inside (drop_middle ms) \<le> turns_inside ms"
  by (induction ms rule: drop_middle.induct) auto

lemma drop_trailing_split: "\<exists>rest. ms = drop_trailing ms @ rest"
proof -
  have "ms = rev (dropWhile P (rev ms)) @ rev (takeWhile P (rev ms))" for P by (metis rev_append rev_rev_ident takeWhile_dropWhile_id)
  then show ?thesis unfolding drop_trailing_def by blast
qed

lemma inside_drop_trailing: "turns_inside (drop_trailing ms) \<le> turns_inside ms"
proof -
  obtain rest where "ms = drop_trailing ms @ rest" using drop_trailing_split by blast
  then have "turns_inside ms = turns_inside (drop_trailing ms) + turns_inside rest" by (metis turns_inside_simps(3))
  then show ?thesis by simp
qed

lemma inside_butlast: "turns_inside (butlast ms) \<le> turns_inside ms"
  by (cases ms rule: rev_cases) simp_all

lemma inside_rewind: "turns_inside (rewind_retry ms) \<le> turns_inside ms"
  using inside_butlast [of ms] inside_butlast [of "butlast ms"] by (auto simp: rewind_retry_def Let_def)

lemma inside_cleaned: "turns_inside (cleaned_turns ms) \<le> turns_inside ms"
proof -
  have "turns_inside (map (map_blocks (filter (Not \<circ> blank_text))) ms) \<le> turns_inside ms"
    by (rule turns_inside_mono) (rule blocks_inside, rule inside_filter)
  then show ?thesis
    unfolding cleaned_turns_def using inside_drop_trailing inside_drop_middle order_trans by meson
qed

lemma inside_template: "turns_inside (template_turns scrub tm ms) \<le> turns_inside ms"
proof -
  let ?s = "drop_trailing (map strip_turn ms)"
  let ?r = "case tm of None \<Rightarrow> ?s | Some m \<Rightarrow> map (map_blocks (map (remap_block m))) ?s"
  have "turns_inside ?s \<le> turns_inside ms"
    by (rule order_trans [OF inside_drop_trailing]) (rule turns_inside_mono, rule inside_strip)
  moreover have "turns_inside ?r \<le> turns_inside ?s"
    by (auto split: option.split intro!: turns_inside_mono blocks_inside inside_mono inner_remap)
  moreover have "turns_inside (map compact_turn ?r) \<le> turns_inside ?r" by (rule turns_inside_mono) (rule inside_compact)
  moreover have "turns_inside (map (scrub_turn scrub) (map compact_turn ?r)) \<le> turns_inside (map compact_turn ?r)"
    by (rule turns_inside_mono) (rule inside_scrub)
  ultimately show ?thesis unfolding template_turns_def Let_def by linarith
qed

lemma inside_genuine: "turns_inside (genuine_turns ms) \<le> turns_inside ms"
  unfolding genuine_turns_def
  by (rule order_trans [OF turns_inside_mono inside_rewind]) (rule blocks_inside, rule inside_mono, simp)

lemma inside_mark_last: "mark_last cc bs = Some bs' \<Longrightarrow> inside_marks bs' = inside_marks bs"
proof (induction bs arbitrary: bs')
  case (Cons b bs)
  have n: "inner_marks (J_obj (case b of J_obj o' \<Rightarrow> o' | _ \<Rightarrow> [])) = inner_marks b"
    by (cases b) (simp_all add: inner_marks_def parts_of_def listed_def jprop_def)
  show ?case using Cons n by (auto split: option.splits if_splits)
qed simp

lemma inside_mark_turn: "mark_turn cc m = Some m' \<Longrightarrow> inside_marks (turn_blocks m') = inside_marks (turn_blocks m)"
  by (auto simp: mark_turn_def turn_blocks_def blocks_of_def update_conv' dest!: inside_mark_last split: if_splits option.splits jvalue.splits)

lemma inside_mark_back: "turns_inside (mark_back cc n ms) = turns_inside ms"
  by (induction cc n ms rule: mark_back.induct) (auto dest: inside_mark_turn split: option.splits)

lemma turns_inside_rev: "turns_inside (rev ms) = turns_inside ms"
  by (induction ms) simp_all

lemma inside_mark_turns [simp]: "turns_inside (mark_turns cc ms) = turns_inside ms"
  by (simp add: mark_turns_def turns_inside_rev inside_mark_back)

lemma inner_genuine_block: "inner_marks (genuine_block tag cc n i b) = inner_marks b"
  by (cases b) (auto simp: genuine_block_def Let_def update_conv' delete_conv' intro!: inner_kept)

lemma inside_genuine_system: "inside_marks (genuine_system tag cc bs) = inside_marks bs"
proof -
  have "inside_marks (map (\<lambda>(i, b). genuine_block tag cc n i b) (zip is bs)) = inside_marks bs" if "length is = length bs" for "is" n
    using that by (induction "is" bs rule: list_induct2) (simp_all add: inner_genuine_block)
  then show ?thesis by (simp add: genuine_system_def)
qed

lemma inner_text_block [simp]: "inner_marks (J_obj (text_block t)) = 0"
  by (simp add: inner_marks_def parts_of_def listed_def jprop_def text_block_def)

lemma inside_template_system: "template_system env tag cc model client = J_arr bs \<Longrightarrow> inside_marks bs = 0"
  by (auto simp: template_system_def)

lemma built_inside:
  assumes "buildCCRequest env opts tag cc ident body = Inr b"
  shows "nested_marks (br_body b) \<le> nested_marks body"
proof (cases "isGenuineCCClient body")
  case True
  then have b: "br_body b = genuine_body env tag cc ident body" using assms by (auto simp: buildCCRequest_def)
  have "turns_inside (turns_of (genuine_body env tag cc ident body)) \<le> turns_inside (turns_of body)"
    using inside_genuine [of "cleaned_turns (turns_of body)"] inside_cleaned [of "turns_of body"]
    by (auto simp: genuine_body_fields split: option.splits jvalue.splits)
  moreover have "inside_marks (system_blocks (genuine_body env tag cc ident body)) \<le> inside_marks (system_blocks body)"
    by (auto simp: system_blocks_def genuine_body_fields inside_genuine_system split: option.splits jvalue.splits)
  ultimately show ?thesis unfolding b nested_marks_def by linarith
next
  case False
  then obtain preserve merge p where
    b: "br_body b = orderBodyForOutbound (be_order env) (template_body env opts tag cc ident preserve merge p body)"
    using assms by (auto simp: buildCCRequest_def Let_def split: if_splits)
  have "turns_inside (turns_of (br_body b)) \<le> turns_inside (turns_of body)"
    using order_trans [OF inside_template inside_cleaned] by (simp add: b template_body_fields)
  moreover have "inside_marks (system_blocks (br_body b)) = 0"
    by (auto simp: b system_blocks_def template_body_fields dest: inside_template_system split: option.splits jvalue.splits)
  ultimately show ?thesis unfolding nested_marks_def by linarith
qed

lemma system_blocks_cached [simp]: "system_blocks (applyCcPromptCaching cc body) = system_blocks body"
  by (simp add: applyCcPromptCaching_def system_blocks_def unmarked_tools_def update_conv' Let_def split: option.splits list.splits)

lemma system_marks_blocks: "marks_of (system_blocks body) = system_marks body"
  by (simp add: system_blocks_def system_marks_def split: option.splits jvalue.splits)

text \<open>
  C18. No more cache marks than upstream takes. While the step that places the marks is not switched off, a body that
  goes out carries at most four - two on its system blocks, none on its tools, two in the conversation - beside those
  the client had put inside a block, on the parts of a tool's result or of a document, which are left standing; its
  marks on the blocks, the system and the tools are gone. In the conversation none stands on an empty text, for which
  upstream refuses the request.
\<close>

theorem cache_marks_bounded:
  assumes "outbound_body env opts tag cc ident body = Inr out" and "lit ''prompt_cache'' \<notin> set (bo_skip opts)"
  shows "cache_marks out \<le> 4 + nested_marks body \<and> list_all turn_well_marked (turns_of out)"
proof -
  obtain b where b: "buildCCRequest env opts tag cc ident body = Inr b" "out = applyCcPromptCaching cc (br_body b)"
    using assms by (auto simp: outbound_body_def split: sum.splits)
  have n: "nested_marks out = nested_marks (br_body b)" by (simp add: b(2) nested_marks_def)
  show ?thesis
    using built_unmarked [OF b(1)] built_inside [OF b(1)] mark_turns_bound [of "turns_of (br_body b)" cc]
    unfolding cache_marks_split n by (auto simp: b(2) system_marks_blocks)
qed

section \<open>Turns with content\<close>

definition no_blanks :: "jobject \<Rightarrow> bool" where
  "no_blanks m \<longleftrightarrow> (case blocks_of m of None \<Rightarrow> True | Some bs \<Rightarrow> list_all (Not \<circ> blank_text) bs)"

text \<open>Content is a text that is not blank, or blocks: then some, and no blank text among them.\<close>

definition worded :: "jobject \<Rightarrow> bool" where
  "worded m \<longleftrightarrow> (case map_of m (lit ''content'') of Some (J_str t) \<Rightarrow> text_trim t \<noteq> [] | Some (J_arr bs) \<Rightarrow> True | _ \<Rightarrow> False)"

definition turn_sendable :: "jobject \<Rightarrow> bool" where
  "turn_sendable m \<longleftrightarrow> worded m \<and> \<not> no_blocks m \<and> no_blanks m"

definition spoken :: "jobject \<Rightarrow> bool" where
  "spoken m \<longleftrightarrow> has_role ''user'' m \<or> has_role ''assistant'' m"

lemma role_map_blocks [simp]: "has_role r (map_blocks f m) = has_role r m"
  by (simp add: has_role_def map_blocks_def update_conv' split: option.splits)

lemma filtered_no_blanks: "no_blanks (map_blocks (filter (Not \<circ> blank_text)) m)"
  by (simp add: no_blanks_def list_all_iff split: option.splits)

lemma drop_middle_in: "set (drop_middle ms) \<subseteq> set ms"
  by (induction ms rule: drop_middle.induct) auto

lemma drop_middle_Nil [simp]: "drop_middle ms = [] \<longleftrightarrow> ms = []"
  by (induction ms rule: drop_middle.induct) auto

lemma drop_middle_full: "m \<in> set (butlast (drop_middle ms)) \<Longrightarrow> \<not> no_blocks m"
  by (induction ms rule: drop_middle.induct) (auto split: if_splits)

lemma drop_trailing_prefix: "\<exists>rest. ms = drop_trailing ms @ rest"
proof -
  have "rev ms = takeWhile P (rev ms) @ dropWhile P (rev ms)" for P by simp
  then have "ms = rev (dropWhile P (rev ms)) @ rev (takeWhile P (rev ms))" for P by (metis rev_append rev_rev_ident)
  then show ?thesis unfolding drop_trailing_def by blast
qed

lemma drop_trailing_last:
  "drop_trailing ms \<noteq> [] \<Longrightarrow> \<not> (has_role ''assistant'' (last (drop_trailing ms)) \<and> no_blocks (last (drop_trailing ms)))"
  using hd_dropWhile [of "\<lambda>m. has_role ''assistant'' m \<and> no_blocks m" "rev ms"] by (simp add: drop_trailing_def last_rev)

lemma in_butlast_append: "x \<in> set (butlast xs) \<Longrightarrow> x \<in> set (butlast (xs @ ys))"
  by (cases ys) (auto simp: butlast_append dest: in_set_butlastD)

lemma cleaned_middle: "m \<in> set (butlast (cleaned_turns ms)) \<Longrightarrow> \<not> no_blocks m"
proof -
  let ?d = "drop_middle (map (map_blocks (filter (Not \<circ> blank_text))) ms)"
  assume m: "m \<in> set (butlast (cleaned_turns ms))"
  obtain rest where "?d = drop_trailing ?d @ rest" using drop_trailing_prefix by blast
  then have "m \<in> set (butlast ?d)" using m in_butlast_append [of m "drop_trailing ?d" rest] by (simp add: cleaned_turns_def)
  then show ?thesis by (rule drop_middle_full)
qed

lemma cleaned_from:
  assumes "m \<in> set (cleaned_turns ms)"
  shows "\<exists>m0 \<in> set ms. m = map_blocks (filter (Not \<circ> blank_text)) m0"
  using assms drop_trailing_in drop_middle_in unfolding cleaned_turns_def by fastforce

lemma only_last: "x \<in> set xs \<Longrightarrow> x \<notin> set (butlast xs) \<Longrightarrow> x = last xs"
  by (induction xs) (auto split: if_splits)

lemma rewind_full:
  assumes "list_all spoken ms" and "m \<in> set (rewind_retry (cleaned_turns ms))"
  shows "\<not> no_blocks m"
proof (cases "m \<in> set (butlast (cleaned_turns ms))")
  case True
  then show ?thesis by (rule cleaned_middle)
next
  case False
  let ?c = "cleaned_turns ms"
  have r: "set (rewind_retry ?c) \<subseteq> set ?c" and r': "?c \<noteq> [] \<Longrightarrow> has_role ''user'' (last ?c) \<Longrightarrow> no_blocks (last ?c) \<Longrightarrow> set (rewind_retry ?c) \<subseteq> set (butlast ?c)"
    by (auto simp: rewind_retry_def Let_def dest: in_set_butlastD)
  have "?c \<noteq> []" using assms(2) r by auto
  have m: "m = last ?c" using False assms(2) r by (intro only_last) auto
  have "\<not> (has_role ''user'' m \<and> no_blocks m)" using r' m False assms(2) \<open>?c \<noteq> []\<close> by blast
  moreover have "\<not> (has_role ''assistant'' m \<and> no_blocks m)"
    using drop_trailing_last m \<open>?c \<noteq> []\<close> unfolding cleaned_turns_def by blast
  moreover have "spoken m"
  proof -
    have "m \<in> set ?c" using m \<open>?c \<noteq> []\<close> by simp
    then obtain m0 where "m0 \<in> set ms" "m = map_blocks (filter (Not \<circ> blank_text)) m0" using cleaned_from by blast
    then show ?thesis using assms(1) by (auto simp: spoken_def list_all_iff)
  qed
  ultimately show ?thesis by (auto simp: spoken_def)
qed

lemma blank_unmarked [simp]: "blank_text (unmarked b) = blank_text b"
  by (cases b) (simp_all add: blank_text_def block_type_def unmarked_def jprop_def delete_conv')

lemma worded_map_blocks [simp]: "worded (map_blocks f m) = worded m"
  by (simp add: worded_def map_blocks_def blocks_of_def update_conv' split: option.splits jvalue.splits)

lemma unmarked_sendable: "turn_sendable (map_blocks (map unmarked) m) = turn_sendable m"
  by (auto simp: turn_sendable_def no_blocks_def no_blanks_def list_all_iff split: option.splits)

lemma genuine_turns_sendable:
  assumes "list_all spoken ms" and "list_all worded ms" and "m \<in> set (genuine_turns (cleaned_turns ms))"
  shows "turn_sendable m"
proof -
  obtain m1 where m1: "m = map_blocks (map unmarked) m1" "m1 \<in> set (rewind_retry (cleaned_turns ms))"
    using assms(3) by (auto simp: genuine_turns_def)
  have c: "m1 \<in> set (cleaned_turns ms)"
    using m1(2) by (auto simp: rewind_retry_def Let_def dest: in_set_butlastD split: if_splits)
  then have "no_blanks m1" using cleaned_from filtered_no_blanks by blast
  moreover have "worded m1" using cleaned_from [OF c] assms(2) by (auto simp: list_all_iff)
  ultimately show ?thesis using rewind_full [OF assms(1) m1(2)] by (simp add: m1(1) unmarked_sendable) (simp add: turn_sendable_def)
qed

lemma blank_marked: "blank_text (J_obj (marked_with cc o')) = blank_text (J_obj o')"
  by (simp add: blank_text_def block_type_def jprop_def marked_with_def update_conv')

lemma blank_nothing: "\<not> blank_text (J_obj [])"
  by (simp add: blank_text_def block_type_def jprop_def str_of_def)

lemma mark_last_sendable: "mark_last cc bs = Some bs' \<Longrightarrow> bs' \<noteq> [] \<and> (list_all (Not \<circ> blank_text) bs \<longrightarrow> list_all (Not \<circ> blank_text) bs')"
proof (induction bs arbitrary: bs')
  case (Cons b bs)
  then show ?case by (cases b) (auto simp: blank_marked blank_nothing split: option.splits if_splits)
qed simp

lemma mark_turn_Some:
  "mark_turn cc m = Some m' \<Longrightarrow> \<exists>bs bs'. blocks_of m = Some bs \<and> mark_last cc bs = Some bs' \<and> blocks_of m' = Some bs'"
  by (auto simp: mark_turn_def blocks_of_def update_conv' split: if_splits option.splits)

lemma blocks_worded: "blocks_of m = Some bs \<Longrightarrow> worded m"
  by (simp add: blocks_of_def worded_def split: option.splits jvalue.splits)

lemma mark_turn_sendable: "mark_turn cc m = Some m' \<Longrightarrow> turn_sendable m \<Longrightarrow> turn_sendable m'"
  using mark_turn_Some [of cc m m'] mark_last_sendable [of cc] blocks_worded [of m']
  by (fastforce simp: turn_sendable_def no_blocks_def no_blanks_def)

lemma mark_back_sendable: "list_all turn_sendable ms \<Longrightarrow> list_all turn_sendable (mark_back cc n ms)"
  by (induction cc n ms rule: mark_back.induct) (auto dest: mark_turn_sendable split: option.splits)

lemma mark_turns_sendable: "list_all turn_sendable ms \<Longrightarrow> list_all turn_sendable (mark_turns cc ms)"
  using mark_back_sendable [of "rev ms" cc 2] by (simp add: mark_turns_def list_all_iff)

text \<open>
  C19. A request of Claude Code can be sent. Let every turn of its history be the user's or the assistant's, with
  blocks or a text that is not blank for content. Then whatever empty texts, empty turns and interrupted answers the
  history holds, no turn of the body that goes out is without content and no text in it is blank, the two shapes
  upstream refuses. Neither condition can be spared: a last turn of another role can go out without blocks
  (\<open>system_turn_emptied\<close>), and a turn whose content is the empty text goes out as it is
  (\<open>empty_text_kept\<close>).
\<close>

theorem genuine_request_sendable:
  assumes "isGenuineCCClient body" and "list_all spoken (turns_of body)" and "list_all worded (turns_of body)"
    and "outbound_body env opts tag cc ident body = Inr out"
  shows "list_all turn_sendable (turns_of out)"
proof -
  have b: "buildCCRequest env opts tag cc ident body =
      Inr \<lparr>br_body = genuine_body env tag cc ident body, br_toolMap = [], br_unmapped = [], br_genuine = True, br_preserved = False\<rparr>"
    using assms(1) by (simp add: buildCCRequest_def)
  have t: "list_all turn_sendable (turns_of (genuine_body env tag cc ident body))"
    using genuine_turns_sendable [OF assms(2,3)] by (auto simp: genuine_body_fields list_all_iff split: option.splits jvalue.splits)
  show ?thesis using assms(4) t mark_turns_sendable [OF t] by (auto simp: outbound_body_def b split: if_splits)
qed

section \<open>Samples\<close>

definition sample_tool :: "string \<Rightarrow> jobject" where
  "sample_tool n = [(lit ''name'', J_str (lit n)), (lit ''input_schema'', J_obj [(lit ''type'', J_str (lit ''object''))])]"

definition sample_template :: tool_template where
  "sample_template = \<lparr>tt_tools = map sample_tool [''Agent'', ''Bash'', ''Read'', ''Write''], tt_platform = lit ''linux''\<rparr>"

definition sample_env :: build_env where
  "sample_env =
     \<lparr>be_template = sample_template, be_agent = lit ''agent'', be_prompt = (\<lambda>m. lit ''prompt''), be_order = [lit ''stream'', lit ''model''],
      be_print = (\<lambda>v. lit ''json''), be_str = (\<lambda>v. []), be_le = (\<lambda>a b. True)\<rparr>"

definition sample_options :: build_options where
  "sample_options =
     \<lparr>bo_preserve = False, bo_hybrid = False, bo_merge = False, bo_noAutoDetect = False, bo_effort = None, bo_maxTokens = None,
      bo_skip = [], bo_honorThinking = False, bo_preserveFormat = False\<rparr>"

definition sample_identity :: body_identity where
  "sample_identity = \<lparr>bi_device = lit ''d'', bi_account = lit ''a'', bi_session = lit ''s''\<rparr>"

definition sample_mark :: "utext \<times> jvalue" where
  "sample_mark = (lit ''cache_control'', J_obj CC_CACHE_CONTROL)"

definition sample_turn :: "string \<Rightarrow> jobject list \<Rightarrow> jvalue" where
  "sample_turn r bs = J_obj [(lit ''role'', J_str (lit r)), (lit ''content'', J_arr (map J_obj bs))]"

definition sample_turns :: jvalue where
  "sample_turns = J_arr [sample_turn ''user'' [text_block (lit ''hi'') @ [sample_mark]], sample_turn ''assistant'' [text_block (lit ''yes'')],
     sample_turn ''user'' [text_block [32]], sample_turn ''user'' [text_block (lit ''go'') @ [sample_mark], text_block []],
     sample_turn ''assistant'' [text_block (lit ''par'')], sample_turn ''user'' []]"

definition sample_client :: jobject where
  "sample_client = [(lit ''model'', J_str (lit ''claude-opus-5'')), (lit ''messages'', sample_turns)]"

definition sample_genuine :: jobject where
  "sample_genuine = [(lit ''system'', J_arr (map (\<lambda>t. J_obj (text_block (lit t) @ [sample_mark]))
       [''x-anthropic-billing-header: 1'', ''You are Claude Code'', ''More'', ''Most''])), (lit ''messages'', sample_turns)]"

definition sample_out :: "jobject \<Rightarrow> (utext \<times> utext) list + jobject" where
  "sample_out body = outbound_body sample_env sample_options (lit ''tag'') CC_CACHE_CONTROL sample_identity body"

definition out_or_none :: "(utext \<times> utext) list + jobject \<Rightarrow> jobject" where
  "out_or_none r = (case r of Inl e \<Rightarrow> [] | Inr o' \<Rightarrow> o')"

lemma sample_client_out: "\<not> isl (sample_out sample_client)"
proof -
  have "\<not> isGenuineCCClient sample_client" "tools_of sample_client = None"
    by (simp_all add: isGenuineCCClient_def tools_of_def sample_client_def)
  then show ?thesis by (simp add: sample_out_def outbound_body_def buildCCRequest_def empty_plan_def Let_def)
qed

lemma sample_genuine_out: "isGenuineCCClient sample_genuine" "\<not> isl (sample_out sample_genuine)"
proof -
  show g: "isGenuineCCClient sample_genuine" by code_simp
  show "\<not> isl (sample_out sample_genuine)"
    by (simp add: sample_out_def outbound_body_def buildCCRequest_def g)
qed

theorem cache_marks_bounded_witness:
  "cache_marks (out_or_none (sample_out sample_client)) \<le> 4 + nested_marks sample_client \<and> nested_marks sample_client = 0 \<and> list_all turn_well_marked (turns_of (out_or_none (sample_out sample_client)))"
proof -
  obtain out where out: "sample_out sample_client = Inr out" using sample_client_out by (cases "sample_out sample_client") auto
  have "cache_marks out \<le> 4 + nested_marks sample_client \<and> list_all turn_well_marked (turns_of out)"
    by (rule cache_marks_bounded [OF out [unfolded sample_out_def]]) (simp add: sample_options_def)
  moreover have "nested_marks sample_client = 0" by code_simp
  ultimately show ?thesis by (simp add: out out_or_none_def)
qed

theorem genuine_request_sendable_witness:
  "list_all turn_sendable (turns_of (out_or_none (sample_out sample_genuine)))"
proof -
  obtain out where out: "sample_out sample_genuine = Inr out" using sample_genuine_out(2) by (cases "sample_out sample_genuine") auto
  have "list_all turn_sendable (turns_of out)"
    by (rule genuine_request_sendable [OF sample_genuine_out(1) _ _ out [unfolded sample_out_def]])
      (simp_all add: turns_of_def sample_genuine_def sample_turns_def sample_turn_def List.map_filter_simps spoken_def worded_def has_role_def str_of_def)
  then show ?thesis by (simp add: out out_or_none_def)
qed

end
