(* ===== verification/Tool_Props.thy ===== *)
theory Tool_Props
  imports Tool_Reverse
begin

text \<open>
  What the way back of a tool call promises: the lookup gives a Claude Code tool to its best claimant, the reader
  does not see how a stream was cut, the stream stays legal, and the client of a stream gets the calls that a
  whole answer would have given it.
\<close>

section \<open>The best claimant\<close>

definition names_tool :: "utext \<Rightarrow> utext \<times> tool_mapping \<Rightarrow> bool" where
  "names_tool cc e \<longleftrightarrow> tm_ccTool (snd e) = cc"

definition own_claims :: "tool_map \<Rightarrow> utext \<Rightarrow> tool_map" where
  "own_claims tm cc = filter (\<lambda>e. same_name e \<and> names_tool cc e) tm"

definition rival_claims :: "tool_map \<Rightarrow> utext \<Rightarrow> tool_map" where
  "rival_claims tm cc = filter (\<lambda>e. \<not> same_name e \<and> names_tool cc e \<and> score_of (snd e) > 0) tm"

text \<open>The first whose score no other passes.\<close>

definition first_best :: "tool_map \<Rightarrow> (utext \<times> tool_mapping) option" where
  "first_best es = List.find (\<lambda>e. list_all (\<lambda>f. score_of (snd f) \<le> score_of (snd e)) es) es"

definition best_claim :: "tool_map \<Rightarrow> utext \<Rightarrow> (utext \<times> tool_mapping) option" where
  "best_claim tm cc = (if own_claims tm cc \<noteq> [] then Some (last (own_claims tm cc)) else first_best (rival_claims tm cc))"

lemma own_claims_snoc:
  "own_claims (tm @ [e]) cc = own_claims tm cc @ (if same_name e \<and> names_tool cc e then [e] else [])"
  by (simp add: own_claims_def)

lemma rival_claims_snoc:
  "rival_claims (tm @ [e]) cc =
     rival_claims tm cc @ (if \<not> same_name e \<and> names_tool cc e \<and> score_of (snd e) > 0 then [e] else [])"
  by (simp add: rival_claims_def)

lemma find_snoc: "List.find P (xs @ [x]) = (case List.find P xs of None \<Rightarrow> (if P x then Some x else None) | Some y \<Rightarrow> Some y)"
  by (induction xs) auto

lemma first_best_Nil [simp]: "first_best [] = None"
  by (simp add: first_best_def)

lemma first_best_is_best: "first_best es = Some b \<Longrightarrow> b \<in> set es \<and> (\<forall>f \<in> set es. score_of (snd f) \<le> score_of (snd b))"
  by (auto simp: first_best_def find_Some_iff list_all_iff)

lemma first_best_some: "es \<noteq> [] \<Longrightarrow> first_best es \<noteq> None"
proof -
  let ?sc = "\<lambda>e. score_of (snd e)"
  assume "es \<noteq> []"
  then have "Max (?sc ` set es) \<in> ?sc ` set es" by (intro Max_in) auto
  then obtain b where "b \<in> set es" "\<forall>f \<in> set es. ?sc f \<le> ?sc b" by (metis (no_types, lifting) Max_ge finite_imageI finite_set image_iff)
  then show ?thesis unfolding first_best_def find_None_iff list_all_iff by blast
qed

lemma find_cong_set: "(\<And>x. x \<in> set xs \<Longrightarrow> P x = Q x) \<Longrightarrow> List.find P xs = List.find Q xs"
  by (induction xs) auto

lemma first_best_snoc:
  "first_best (es @ [e]) =
     (case first_best es of None \<Rightarrow> Some e | Some b \<Rightarrow> (if score_of (snd e) > score_of (snd b) then Some e else Some b))"
proof (cases "first_best es")
  case None
  then have "es = []" using first_best_some by blast
  then show ?thesis by (simp add: first_best_def)
next
  case (Some b)
  note b = first_best_is_best [OF Some]
  show ?thesis
  proof (cases "score_of (snd e) > score_of (snd b)")
    case True
    then have "List.find (\<lambda>x. list_all (\<lambda>f. score_of (snd f) \<le> score_of (snd x)) (es @ [e])) es = None"
      using b by (fastforce simp: find_None_iff list_all_iff)
    moreover have "list_all (\<lambda>f. score_of (snd f) \<le> score_of (snd e)) es"
      using b True by (fastforce simp: list_all_iff)
    ultimately show ?thesis using True Some by (simp add: first_best_def find_snoc)
  next
    case False
    have "List.find (\<lambda>x. list_all (\<lambda>f. score_of (snd f) \<le> score_of (snd x)) (es @ [e])) es = first_best es"
      unfolding first_best_def using b False
      by (intro find_cong_set) (auto simp: list_all_iff intro: order_trans)
    then show ?thesis using False Some by (simp add: first_best_def find_snoc)
  qed
qed

lemma own_claimed:
  "map_of (fold claim_own tm []) cc = (if own_claims tm cc = [] then None else Some (last (own_claims tm cc)))"
  by (induction tm rule: rev_induct) (auto simp: own_claims_snoc claim_own_def names_tool_def update_conv' own_claims_def)

lemma best_claimed:
  assumes "\<And>cc. map_of r cc = (if cc \<in> own then Some (f cc) else None)"
  shows "map_of (fold (claim_best own) tm r) cc = (if cc \<in> own then Some (f cc) else first_best (rival_claims tm cc))"
proof (induction tm arbitrary: cc rule: rev_induct)
  case Nil
  then show ?case using assms by (simp add: rival_claims_def)
next
  case (snoc e tm)
  then show ?case
    by (auto simp: claim_best_def rival_claims_snoc first_best_snoc names_tool_def update_conv' split: option.splits)
qed

lemma own_names: "cc \<in> (\<lambda>e. tm_ccTool (snd e)) ` set (filter same_name tm) \<longleftrightarrow> own_claims tm cc \<noteq> []"
  by (auto simp: own_claims_def names_tool_def filter_empty_conv)

text \<open>
  C24. A Claude Code tool goes back to its best claimant. The client tool a call is translated for is, of the tools that
  carry the tool's own name but for case, the last; where there is none, of the tools mapped to it whose score is not
  zero, the first with the highest score; and there is none when no tool has a claim.
\<close>

theorem reverse_lookup_best:
  "map_of (buildReverseLookup tm) cc = best_claim tm cc"
proof -
  let ?own = "(\<lambda>e. tm_ccTool (snd e)) ` set (filter same_name tm)"
  have "map_of (fold claim_own tm []) c = (if c \<in> ?own then Some (last (own_claims tm c)) else None)" for c
    unfolding own_names by (simp add: own_claimed)
  from best_claimed [of _ ?own "\<lambda>c. last (own_claims tm c)", OF this]
  show ?thesis unfolding buildReverseLookup_def Let_def best_claim_def own_names by simp
qed

section \<open>The reader does not see chunk boundaries\<close>

text \<open>Two steps of a reader that writes text and may throw, one after the other.\<close>

definition read_then ::
  "(js_error + utext \<times> reverse_mapper) \<Rightarrow> (reverse_mapper \<Rightarrow> js_error + utext \<times> reverse_mapper) \<Rightarrow> js_error + utext \<times> reverse_mapper" where
  "read_then x k =
     (case x of Inl e \<Rightarrow> Inl e | Inr (out, s) \<Rightarrow> (case k s of Inl e \<Rightarrow> Inl e | Inr (out', s') \<Rightarrow> Inr (out @ out', s')))"

fun mapper_feeds ::
  "(utext \<Rightarrow> jvalue option) \<Rightarrow> (jvalue \<Rightarrow> utext) \<Rightarrow> tool_map \<Rightarrow> request_context option \<Rightarrow> utext list \<Rightarrow> reverse_mapper
    \<Rightarrow> js_error + utext \<times> reverse_mapper" where
  "mapper_feeds jp js tm ctx [] s = Inr ([], s)"
| "mapper_feeds jp js tm ctx (c # cs) s = read_then (mapper_feed jp js tm ctx c s) (mapper_feeds jp js tm ctx cs)"

definition mapped_stream ::
  "(utext \<Rightarrow> jvalue option) \<Rightarrow> (jvalue \<Rightarrow> utext) \<Rightarrow> tool_map \<Rightarrow> request_context option \<Rightarrow> utext list \<Rightarrow> js_error + utext \<times> reverse_mapper" where
  "mapped_stream jp js tm ctx cs = read_then (mapper_feeds jp js tm ctx cs new_reverse_mapper) (mapper_end jp js tm ctx)"

lemma process_groups_append:
  "process_groups jp js r ctx (gs @ hs) bs =
     (case process_groups jp js r ctx gs bs of
        Inl e \<Rightarrow> Inl e
      | Inr (out, bs1) \<Rightarrow> (case process_groups jp js r ctx hs bs1 of Inl e \<Rightarrow> Inl e | Inr (out', bs2) \<Rightarrow> Inr (out @ out', bs2)))"
  by (induction gs arbitrary: bs) (auto split: sum.splits)

lemma groups_of_extend:
  "groups_of (a @ b) = (fst (groups_of a) @ fst (groups_of (snd (groups_of a) @ b)), snd (groups_of (snd (groups_of a) @ b)))"
  using frame_reader.split_extend [of a b] by (simp add: groups_of_def split_def Let_def)

lemma mapper_feed_extend:
  "mapper_feed jp js tm ctx (a @ b) s = read_then (mapper_feed jp js tm ctx a s) (mapper_feed jp js tm ctx b)"
proof (cases "mapper_active tm")
  case True
  then show ?thesis
    using groups_of_extend [of "rv_group s @ a" b]
    by (simp add: mapper_feed_def read_then_def Let_def split_def process_groups_append split: sum.splits)
qed (simp add: mapper_feed_def read_then_def)

text \<open>No complete group is held back.\<close>

definition all_read :: "reverse_mapper \<Rightarrow> bool" where
  "all_read s \<longleftrightarrow> cut_frame (rv_group s) = None"

lemma feed_all_read: "all_read s \<Longrightarrow> mapper_feed jp js tm ctx c s = Inr (out, s') \<Longrightarrow> all_read s'"
  by (auto simp: mapper_feed_def all_read_def groups_of_def Let_def split_def frame_reader.split_rest split: sum.splits if_splits)

lemma feed_nothing: "all_read s \<Longrightarrow> mapper_feed jp js tm ctx [] s = Inr ([], s)"
  by (simp add: mapper_feed_def all_read_def groups_of_def split_frames_None)

lemma feeds_whole: "all_read s \<Longrightarrow> mapper_feeds jp js tm ctx cs s = mapper_feed jp js tm ctx (concat cs) s"
proof (induction cs arbitrary: s)
  case (Cons c cs)
  show ?case
  proof (cases "mapper_feed jp js tm ctx c s")
    case (Inr p)
    then obtain out s' where p: "mapper_feed jp js tm ctx c s = Inr (out, s')" by (cases p) auto
    then have "all_read s'" by (rule feed_all_read [OF Cons.prems])
    then show ?thesis using Cons.IH by (simp add: mapper_feed_extend read_then_def p)
  qed (simp add: mapper_feed_extend read_then_def)
qed (simp add: feed_nothing)

text \<open>
  The translation of a stream does not depend on how it was cut. Whatever the chunks a stream arrives in, the text
  written, the error thrown and the state left are those of the stream read in one chunk; so a call whose
  arguments, or whose very events, are split across chunks is translated as if it were whole.
\<close>

theorem mapper_chunk_independent:
  "mapped_stream jp js tm ctx chunks = mapped_stream jp js tm ctx [concat chunks]"
proof -
  have "all_read new_reverse_mapper" by (simp add: all_read_def new_reverse_mapper_def)
  then show ?thesis by (simp add: mapped_stream_def feeds_whole del: mapper_feeds.simps)
qed

section \<open>The stream stays legal\<close>

text \<open>The events a client gets for those of the answer.\<close>

definition sent_for :: "jvalue \<Rightarrow> group_result \<Rightarrow> jvalue list" where
  "sent_for ev g = (case g of Keep \<Rightarrow> [ev] | Emit es \<Rightarrow> map snd es)"

fun map_events ::
  "(utext \<Rightarrow> jvalue option) \<Rightarrow> (jvalue \<Rightarrow> utext) \<Rightarrow> reverse_map \<Rightarrow> request_context option \<Rightarrow> jvalue list \<Rightarrow> buffered
    \<Rightarrow> jvalue list \<times> buffered" where
  "map_events jp js r ctx [] bs = ([], bs)"
| "map_events jp js r ctx (ev # evs) bs =
     (let (g, bs1) = map_event jp js r ctx ev bs; (out, bs2) = map_events jp js r ctx evs bs1 in (sent_for ev g @ out, bs2))"

definition wire_of :: "jvalue \<Rightarrow> wire_event" where
  "wire_of ev = (case ev of J_obj d \<Rightarrow> obj_event d | _ \<Rightarrow> Other)"

lemma wire_of_partial: "event_idx ev = Some i \<Longrightarrow> of_int \<lfloor>i\<rfloor> = i \<Longrightarrow> wire_of (partial_event i t) = Block_delta \<lfloor>i\<rfloor>"
  by (simp add: wire_of_def partial_event_def obj_event_def obj_type_def str_of_def with_int_def index_of_event_def num_of_def)

lemma wire_of_with_block:
  "str_of (jprop (Some ev) ''type'') = Some (lit ''content_block_start'') \<Longrightarrow> wire_of (with_block ev b) = wire_of ev"
  by (cases ev) (simp_all add: with_block_def wire_of_def obj_event_def obj_type_def jprop_def update_conv' with_int_def index_of_event_def)

lemma indexed_event:
  assumes "buffered_at ev bs = Some (i, b)" and "wire_step (wire_of ev) w = Some w'"
  shows "str_of (jprop (Some ev) ''type'') = Some (lit ''content_block_delta'') \<Longrightarrow> wire_of ev = Block_delta \<lfloor>i\<rfloor> \<and> of_int \<lfloor>i\<rfloor> = i"
    and "str_of (jprop (Some ev) ''type'') = Some (lit ''content_block_stop'') \<Longrightarrow> wire_of ev = Block_stop \<lfloor>i\<rfloor> \<and> of_int \<lfloor>i\<rfloor> = i"
proof -
  have i: "num_of (jprop (Some ev) ''index'') = Some i"
    using assms(1) by (auto simp: buffered_at_def event_idx_def split: option.splits if_splits)
  then obtain d where d: "ev = J_obj d" by (cases ev) (auto simp: jprop_def num_of_def)
  have "with_int d k = (if of_int \<lfloor>i\<rfloor> = i then k \<lfloor>i\<rfloor> else Bad)" for k
    using i by (simp add: d with_int_def index_of_event_def jprop_def)
  then show "str_of (jprop (Some ev) ''type'') = Some (lit ''content_block_delta'') \<Longrightarrow> wire_of ev = Block_delta \<lfloor>i\<rfloor> \<and> of_int \<lfloor>i\<rfloor> = i"
    and "str_of (jprop (Some ev) ''type'') = Some (lit ''content_block_stop'') \<Longrightarrow> wire_of ev = Block_stop \<lfloor>i\<rfloor> \<and> of_int \<lfloor>i\<rfloor> = i"
    using assms(2)
    by (auto simp: d wire_of_def obj_event_def obj_type_def jprop_def wire_step_def split: if_splits)
qed

lemma buffered_idx: "buffered_at ev bs = Some (i, b) \<Longrightarrow> event_idx ev = Some i"
  by (auto simp: buffered_at_def split: option.splits)

lemma start_legal:
  assumes "str_of (jprop (Some ev) ''type'') = Some (lit ''content_block_start'')" and "wire_step (wire_of ev) w = Some w'"
  shows "wire_run (map wire_of (sent_for ev (fst (start_group r ev bs)))) w = Some w'"
  using assms by (auto simp: start_group_def sent_for_def wire_of_with_block Let_def split: option.splits)

lemma delta_legal:
  assumes "str_of (jprop (Some ev) ''type'') = Some (lit ''content_block_delta'')" and "wire_step (wire_of ev) w = Some w'"
  shows "wire_run (map wire_of (sent_for ev (fst (delta_group ev bs)))) w = Some w'"
proof (cases "buffered_at ev bs")
  case (Some p)
  then obtain i b where p: "buffered_at ev bs = Some (i, b)" by (cases p) auto
  from indexed_event(1) [OF p assms(2) assms(1)] have e: "wire_of ev = Block_delta \<lfloor>i\<rfloor>" "of_int \<lfloor>i\<rfloor> = i" by auto
  have "wire_of (partial_event i t) = Block_delta \<lfloor>i\<rfloor>" for t by (rule wire_of_partial [OF buffered_idx [OF p] e(2)])
  then show ?thesis using assms(2) e(1)
    by (auto simp: delta_group_def p sent_for_def wire_step_def split: option.splits if_splits)
qed (use assms in \<open>simp add: delta_group_def sent_for_def\<close>)

lemma stop_legal:
  assumes "str_of (jprop (Some ev) ''type'') = Some (lit ''content_block_stop'')" and "wire_step (wire_of ev) w = Some w'"
  shows "wire_run (map wire_of (sent_for ev (fst (stop_group jp js ctx ev bs)))) w = Some w'"
proof (cases "buffered_at ev bs")
  case (Some p)
  then obtain i b where p: "buffered_at ev bs = Some (i, b)" by (cases p) auto
  from indexed_event(2) [OF p assms(2) assms(1)] have e: "wire_of ev = Block_stop \<lfloor>i\<rfloor>" "of_int \<lfloor>i\<rfloor> = i" by auto
  have "wire_of (partial_event i t) = Block_delta \<lfloor>i\<rfloor>" for t by (rule wire_of_partial [OF buffered_idx [OF p] e(2)])
  then show ?thesis using assms(2) e(1)
    by (auto simp: stop_group_def p sent_for_def wire_step_def split: option.splits if_splits)
qed (use assms in \<open>simp add: stop_group_def sent_for_def\<close>)

lemma event_legal:
  "wire_step (wire_of ev) w = Some w' \<Longrightarrow> wire_run (map wire_of (sent_for ev (fst (map_event jp js r ctx ev bs)))) w = Some w'"
  by (simp add: map_event_def Let_def start_legal delta_legal stop_legal) (simp add: sent_for_def)

text \<open>
  C29. The stream stays legal. When the events of the answer obey the protocol of a streamed message, so do those the
  client gets, from the same state to the same state: held arguments come out inside their block, before its stop, and
  whatever is held, flushed or translated, no event is for a block that is not open.
\<close>

theorem mapped_events_legal:
  "wire_run (map wire_of evs) w = Some w' \<Longrightarrow> wire_run (map wire_of (fst (map_events jp js r ctx evs bs))) w = Some w'"
proof (induction evs arbitrary: w bs)
  case (Cons ev evs)
  from Cons.prems obtain w1 where w1: "wire_step (wire_of ev) w = Some w1" "wire_run (map wire_of evs) w1 = Some w'"
    by (auto split: option.splits)
  show ?case
    using Cons.IH [OF w1(2)] by (simp add: split_def Let_def wire_run_cat [OF event_legal [OF w1(1)]])
qed simp

section \<open>A streamed call and a whole one\<close>

text \<open>A block as it is streamed: what its start carries, and its deltas.\<close>

type_synonym streamed_part = "jobject \<times> jvalue list"

definition start_event :: "rat \<Rightarrow> jobject \<Rightarrow> jvalue" where
  "start_event i b = J_obj [(lit ''type'', J_str (lit ''content_block_start'')), (lit ''index'', J_num i), (lit ''content_block'', J_obj b)]"

definition delta_event :: "rat \<Rightarrow> jvalue \<Rightarrow> jvalue" where
  "delta_event i d = J_obj [(lit ''type'', J_str (lit ''content_block_delta'')), (lit ''index'', J_num i), (lit ''delta'', d)]"

definition stop_event :: "rat \<Rightarrow> jvalue" where
  "stop_event i = J_obj [(lit ''type'', J_str (lit ''content_block_stop'')), (lit ''index'', J_num i)]"

definition input_delta :: "utext \<Rightarrow> jvalue" where
  "input_delta t = J_obj [(lit ''type'', J_str (lit ''input_json_delta'')), (lit ''partial_json'', J_str t)]"

definition stream_block :: "rat \<Rightarrow> streamed_part \<Rightarrow> jvalue list" where
  "stream_block i blk = start_event i (fst blk) # map (delta_event i) (snd blk) @ [stop_event i]"

fun stream_from :: "rat \<Rightarrow> streamed_part list \<Rightarrow> jvalue list" where
  "stream_from i [] = []"
| "stream_from i (blk # blks) = stream_block i blk @ stream_from (i + 1) blks"

text \<open>What the client puts together: the blocks in order, the input of a tool block read from its pieces.\<close>

fun received :: "streamed_part \<Rightarrow> jvalue list \<Rightarrow> streamed_part list" where
  "received cur [] = []"
| "received cur (ev # evs) =
     (let ty = str_of (jprop (Some ev) ''type'')
      in if ty = Some (lit ''content_block_start'')
         then received (case jprop (Some ev) ''content_block'' of Some (J_obj b) \<Rightarrow> (b, []) | _ \<Rightarrow> ([], [])) evs
         else if ty = Some (lit ''content_block_delta'')
         then received (fst cur, snd cur @ [opt_or (jprop (Some ev) ''delta'') J_null]) evs
         else if ty = Some (lit ''content_block_stop'') then cur # received ([], []) evs
         else received cur evs)"

definition piece :: "jvalue \<Rightarrow> utext" where
  "piece d = opt_or (str_of (jprop (Some d) ''partial_json'')) []"

definition pieces :: "jvalue list \<Rightarrow> utext" where
  "pieces ds = concat (map piece ds)"

definition or_empty :: "utext \<Rightarrow> utext" where
  "or_empty t = (if t = [] then lit ''{}'' else t)"

definition is_call :: "jobject \<Rightarrow> bool" where
  "is_call b \<longleftrightarrow> str_of (map_of b (lit ''type'')) = Some (lit ''tool_use'')"

definition read_block :: "(utext \<Rightarrow> jvalue option) \<Rightarrow> streamed_part \<Rightarrow> jvalue \<times> jvalue list" where
  "read_block jp blk =
     (if is_call (fst blk) then (J_obj (AList.update (lit ''input'') (opt_or (jp (or_empty (pieces (snd blk)))) J_null) (fst blk)), [])
      else (J_obj (fst blk), snd blk))"

definition answer_content :: "(utext \<Rightarrow> jvalue option) \<Rightarrow> jvalue list \<Rightarrow> (jvalue \<times> jvalue list) list" where
  "answer_content jp evs = map (read_block jp) (received ([], []) evs)"

text \<open>A block that can be translated: its arguments come as text, are an object, and what is made of them can be printed.\<close>

definition translatable ::
  "(utext \<Rightarrow> jvalue option) \<Rightarrow> (jvalue \<Rightarrow> utext) \<Rightarrow> request_context option \<Rightarrow> tool_mapping \<Rightarrow> jvalue option \<Rightarrow> bool" where
  "translatable jp js ctx m v =
     (case v of
        Some (J_obj a) \<Rightarrow>
          (case handed_back m (J_obj a) of
             Some (J_obj o') \<Rightarrow>
               (let w = opt_or (injectContextFields (tm_fields m) ctx (J_obj o')) J_null in js w \<noteq> [] \<and> jp (js w) = Some w)
           | _ \<Rightarrow> False)
      | _ \<Rightarrow> False)"

definition claimant :: "reverse_map \<Rightarrow> jobject \<Rightarrow> (utext \<times> tool_mapping) option" where
  "claimant r b =
     (if is_call b then (case str_of (map_of b (lit ''name'')) of None \<Rightarrow> None | Some cc \<Rightarrow> map_of r cc) else None)"

definition block_ok ::
  "(utext \<Rightarrow> jvalue option) \<Rightarrow> (jvalue \<Rightarrow> utext) \<Rightarrow> reverse_map \<Rightarrow> request_context option \<Rightarrow> streamed_part \<Rightarrow> bool" where
  "block_ok jp js r ctx blk =
     (case claimant r (fst blk) of
        None \<Rightarrow> True
      | Some (client, m) \<Rightarrow>
          needs_translation m \<longrightarrow>
            list_all (\<lambda>d. d = input_delta (piece d)) (snd blk) \<and> length (pieces (snd blk)) \<le> MAX_TOOL_PARTIAL_BYTES
            \<and> translatable jp js ctx m (jp (or_empty (pieces (snd blk)))))"

lemma received_deltas: "received cur (map (delta_event i) ds @ evs) = received (fst cur, snd cur @ ds) evs"
  by (induction ds arbitrary: cur) (simp_all add: delta_event_def jprop_def str_of_def opt_or_def)

lemma received_block: "received cur (stream_block i blk @ evs) = blk # received ([], []) evs"
  by (simp add: stream_block_def start_event_def stop_event_def jprop_def str_of_def received_deltas)

lemma received_stream [simp]: "received ([], []) (stream_from i blks) = blks"
  by (induction blks arbitrary: i) (simp_all add: received_block)

lemma map_events_append:
  "map_events jp js r ctx (xs @ ys) bs =
     (let (out, bs1) = map_events jp js r ctx xs bs; (out', bs2) = map_events jp js r ctx ys bs1 in (out @ out', bs2))"
  by (induction xs arbitrary: bs) (simp_all add: Let_def split_def)

lemma event_types [simp]:
  "jprop (Some (start_event i b)) ''type'' = Some (J_str (lit ''content_block_start''))"
  "jprop (Some (delta_event i d)) ''type'' = Some (J_str (lit ''content_block_delta''))"
  "jprop (Some (stop_event i)) ''type'' = Some (J_str (lit ''content_block_stop''))"
  by (simp_all add: start_event_def delta_event_def stop_event_def jprop_def)

lemma event_indices [simp]:
  "i \<ge> 0 \<Longrightarrow> event_idx (start_event i b) = Some i"
  "i \<ge> 0 \<Longrightarrow> event_idx (delta_event i d) = Some i"
  "i \<ge> 0 \<Longrightarrow> event_idx (stop_event i) = Some i"
  by (simp_all add: event_idx_def start_event_def delta_event_def stop_event_def jprop_def num_of_def)

lemma map_event_types:
  "map_event jp js r ctx (start_event i b) bs = start_group r (start_event i b) bs"
  "map_event jp js r ctx (delta_event i d) bs = delta_group (delta_event i d) bs"
  "map_event jp js r ctx (stop_event i) bs = stop_group jp js ctx (stop_event i) bs"
  by (simp_all add: map_event_def str_of_def)

lemma unbuffered [simp]: "buffered_at ev [] = None"
  by (simp add: buffered_at_def split: option.splits)

lemma map_events_kept: "map_events jp js r ctx (map (delta_event i) ds @ [stop_event i]) [] = (map (delta_event i) ds @ [stop_event i], [])"
  by (induction ds) (simp_all add: map_event_types delta_group_def stop_group_def sent_for_def)

lemma started_call: "tool_block_of (start_event i b) = (if is_call b then map_option (Pair b) (str_of (map_of b (lit ''name''))) else None)"
  by (simp add: tool_block_of_def start_event_def jprop_def is_call_def)

lemma start_with_block [simp]: "with_block (start_event i b) b' = start_event i b'"
  by (simp add: with_block_def start_event_def)

lemma map_events_block:
  "map_events jp js r ctx (stream_block i blk) [] =
     (let (g, bs1) = start_group r (start_event i (fst blk)) [];
          (out, bs2) = map_events jp js r ctx (map (delta_event i) (snd blk) @ [stop_event i]) bs1
      in (sent_for (start_event i (fst blk)) g @ out, bs2))"
  by (simp add: stream_block_def map_event_types)

text \<open>What a block is streamed as to the client.\<close>

definition sent_input :: "(utext \<Rightarrow> jvalue option) \<Rightarrow> (jvalue \<Rightarrow> utext) \<Rightarrow> request_context option \<Rightarrow> tool_mapping \<Rightarrow> utext \<Rightarrow> utext" where
  "sent_input jp js ctx m p = (case finished_input jp ctx \<lparr>bb_mapping = m, bb_partial = p\<rparr> of Some w \<Rightarrow> js w | None \<Rightarrow> p)"

definition sent_block ::
  "(utext \<Rightarrow> jvalue option) \<Rightarrow> (jvalue \<Rightarrow> utext) \<Rightarrow> reverse_map \<Rightarrow> request_context option \<Rightarrow> streamed_part \<Rightarrow> streamed_part" where
  "sent_block jp js r ctx blk =
     (case claimant r (fst blk) of
        None \<Rightarrow> blk
      | Some (client, m) \<Rightarrow>
          (let b1 = AList.update (lit ''name'') (J_str client) (fst blk)
           in if needs_translation m then (AList.update (lit ''input'') (J_obj []) b1, [input_delta (sent_input jp js ctx m (pieces (snd blk)))])
              else (b1, snd blk)))"

lemma piece_input_delta [simp]: "piece (input_delta t) = t"
  by (simp add: piece_def input_delta_def jprop_def str_of_def opt_or_def)

lemma deltas_held:
  assumes "i \<ge> 0" and "list_all (\<lambda>d. d = input_delta (piece d)) ds" and "length p + length (pieces ds) \<le> MAX_TOOL_PARTIAL_BYTES"
  shows "map_events jp js r ctx (map (delta_event i) ds) [(i, \<lparr>bb_mapping = m, bb_partial = p\<rparr>)]
    = ([], [(i, \<lparr>bb_mapping = m, bb_partial = p @ pieces ds\<rparr>)])"
  using assms(2,3)
proof (induction ds arbitrary: p)
  case Nil
  then show ?case by (simp add: pieces_def)
next
  case (Cons d ds)
  obtain t where t: "d = input_delta t" "piece d = t" using Cons.prems(1) by auto
  have ps: "pieces (d # ds) = t @ pieces ds" by (simp add: pieces_def t)
  have p: "partial_of (delta_event i d) = Some t" by (simp add: partial_of_def delta_event_def t input_delta_def jprop_def str_of_def Let_def)
  have "delta_group (delta_event i d) [(i, \<lparr>bb_mapping = m, bb_partial = p\<rparr>)] = (Emit [], [(i, \<lparr>bb_mapping = m, bb_partial = p @ t\<rparr>)])"
    using Cons.prems(2) assms(1) by (simp add: delta_group_def buffered_at_def p ps)
  then show ?case using Cons.IH [of "p @ t"] Cons.prems by (simp add: map_event_types sent_for_def ps)
qed

lemma sent_partial: "partial_event i t = delta_event i (input_delta t)"
  by (simp add: partial_event_def delta_event_def input_delta_def)

lemma map_events_stream_block:
  assumes "i \<ge> 0" and "block_ok jp js r ctx blk"
  shows "map_events jp js r ctx (stream_block i blk) [] = (stream_block i (sent_block jp js r ctx blk), [])"
proof (cases "claimant r (fst blk)")
  case None
  then have "start_group r (start_event i (fst blk)) [] = (Keep, [])"
    by (auto simp: start_group_def started_call claimant_def split: option.splits if_splits)
  then show ?thesis unfolding map_events_block using None by (simp add: map_events_kept sent_for_def sent_block_def stream_block_def)
next
  case (Some p)
  then obtain client m where p: "claimant r (fst blk) = Some (client, m)" by (cases p) auto
  let ?b = "AList.update (lit ''name'') (J_str client) (fst blk)"
  show ?thesis
  proof (cases "needs_translation m")
    case False
    then have "start_group r (start_event i (fst blk)) [] = (Emit [(''content_block_start'', start_event i ?b)], [])"
      using p by (auto simp: start_group_def started_call claimant_def Let_def split: option.splits if_splits)
    then show ?thesis unfolding map_events_block using p False by (simp add: map_events_kept sent_for_def sent_block_def stream_block_def)
  next
    case True
    let ?bs = "\<lambda>t. [(i, \<lparr>bb_mapping = m, bb_partial = t\<rparr>)]"
    have g: "start_group r (start_event i (fst blk)) [] =
        (Emit [(''content_block_start'', start_event i (AList.update (lit ''input'') (J_obj []) ?b))], ?bs [])"
      using p True assms(1) by (auto simp: start_group_def started_call claimant_def Let_def split: option.splits if_splits)
    have d: "map_events jp js r ctx (map (delta_event i) (snd blk)) (?bs []) = ([], ?bs (pieces (snd blk)))"
      using deltas_held [OF assms(1), of "snd blk" "[]"] assms(2) p True by (simp add: block_ok_def)
    have s: "stop_group jp js ctx (stop_event i) (?bs t) =
        (Emit [(''content_block_delta'', partial_event i (sent_input jp js ctx m t)), (''content_block_stop'', stop_event i)], [])" for t
      using assms(1) by (simp add: stop_group_def buffered_at_def sent_input_def split: option.split)
    show ?thesis unfolding map_events_block using p True
      by (simp add: map_events_append g d map_event_types s sent_for_def sent_block_def stream_block_def sent_partial)
  qed
qed

lemma map_events_stream:
  "i \<ge> 0 \<Longrightarrow> list_all (block_ok jp js r ctx) blks \<Longrightarrow>
     map_events jp js r ctx (stream_from i blks) [] = (stream_from i (map (sent_block jp js r ctx) blks), [])"
  by (induction blks arbitrary: i) (simp_all add: map_events_append map_events_stream_block)

lemma update_swap_present: "k \<noteq> l \<Longrightarrow> map_of b k \<noteq> None \<Longrightarrow>
    AList.update l y (AList.update k x b) = AList.update k x (AList.update l y b)"
  by (induction b) auto

lemma update_same: "map_of b k = Some v \<Longrightarrow> AList.update k v b = b"
  by (induction b) auto

lemma update_over [simp]: "AList.update k v (AList.update k w b) = AList.update k v b"
  by (induction b) auto

lemma call_names: "is_call b \<Longrightarrow> rewrite_content r ctx (J_obj b) = J_obj (rewriteToolUseBlock r ctx b)"
  "\<not> is_call b \<Longrightarrow> rewrite_content r ctx (J_obj b) = J_obj b"
  by (simp_all add: rewrite_content_def is_call_def)

lemma is_call_update [simp]: "k \<noteq> lit ''type'' \<Longrightarrow> is_call (AList.update k v b) = is_call b"
  by (simp add: is_call_def update_conv')

lemma claimed_call:
  assumes "claimant r b = Some (client, m)"
  shows "is_call b" and "\<exists>cc. map_of b (lit ''name'') = Some (J_str cc) \<and> map_of r cc = Some (client, m)"
  using assms by (auto simp: claimant_def str_of_def split: if_splits option.splits jvalue.splits)

lemma rewritten_claimed:
  assumes "claimant r b = Some (client, m)"
  shows "rewriteToolUseBlock r ctx (AList.update (lit ''input'') x b) =
    rewrite_input m ctx (AList.update (lit ''input'') x (AList.update (lit ''name'') (J_str client) b))"
proof -
  obtain cc where cc: "map_of b (lit ''name'') = Some (J_str cc)" "map_of r cc = Some (client, m)"
    using claimed_call(2) [OF assms] by blast
  have "AList.update (lit ''name'') (J_str client) (AList.update (lit ''input'') x b)
      = AList.update (lit ''input'') x (AList.update (lit ''name'') (J_str client) b)"
    by (rule update_swap_present [symmetric]) (simp_all add: cc)
  then show ?thesis by (simp add: rewriteToolUseBlock_def cc update_conv')
qed

lemma rewritten_plain:
  assumes "\<not> needs_translation m"
  shows "rewrite_input m ctx (AList.update (lit ''input'') x b) = AList.update (lit ''input'') x b"
  using assms
  by (cases ctx; cases x)
    (auto simp: needs_translation_def rewrite_input_def is_record_def translated_back_def injectContextFields_def update_conv' opt_or_def Let_def
      split: option.splits list.splits)

lemma rewritten_translated:
  assumes "translatable jp js ctx m (jp (or_empty p))"
  shows "rewrite_input m ctx (AList.update (lit ''input'') (opt_or (jp (or_empty p)) J_null) b) =
     AList.update (lit ''input'') (opt_or (jp (or_empty (sent_input jp js ctx m p))) J_null) b"
proof -
  obtain a where v: "jp (or_empty p) = Some (J_obj a)"
    using assms by (auto simp: translatable_def split: option.splits jvalue.splits)
  then obtain o' where "handed_back m (J_obj a) = Some (J_obj o')"
    using assms by (auto simp: translatable_def split: option.splits jvalue.splits)
  with v have a: "jp (or_empty p) = Some (J_obj a)" "handed_back m (J_obj a) = Some (J_obj o')" by simp_all
  obtain w where w: "injectContextFields (tm_fields m) ctx (J_obj o') = Some (J_obj w)"
    by (cases "tm_fields m"; cases ctx) (auto simp: injectContextFields_def)
  have p: "js (J_obj w) \<noteq> []" "jp (js (J_obj w)) = Some (J_obj w)"
    using assms a w by (simp_all add: translatable_def opt_or_def Let_def)
  have f: "finished_input jp ctx \<lparr>bb_mapping = m, bb_partial = p\<rparr> = Some (J_obj w)"
    using a w by (auto simp: finished_input_def or_empty_def injectContextFields_def split: if_splits option.splits list.splits)
  have t: "translated_back m (J_obj a) = J_obj o'" using a(2) by (auto simp: handed_back_def translated_back_def opt_or_def split: option.splits)
  have "rewrite_input m ctx (AList.update (lit ''input'') (J_obj a) b) = AList.update (lit ''input'') (J_obj w) b"
    using w by (simp add: rewrite_input_def is_record_def t update_conv' opt_or_def Let_def)
  moreover have "or_empty (js (J_obj w)) = js (J_obj w)" using p by (simp add: or_empty_def)
  ultimately show ?thesis using p by (simp add: sent_input_def f a opt_or_def)
qed

lemma sent_block_read:
  assumes "block_ok jp js r ctx blk"
  shows "read_block jp (sent_block jp js r ctx blk) = (rewrite_content r ctx (fst (read_block jp blk)), snd (read_block jp blk))"
proof (cases "claimant r (fst blk)")
  case None
  then have "rewriteToolUseBlock r ctx (AList.update (lit ''input'') x (fst blk)) = AList.update (lit ''input'') x (fst blk)"
    if "is_call (fst blk)" for x
    using that by (auto simp: claimant_def rewriteToolUseBlock_def str_of_def update_conv' split: option.splits jvalue.splits)
  then show ?thesis using None by (simp add: sent_block_def read_block_def call_names)
next
  case (Some p)
  then obtain client m where p: "claimant r (fst blk) = Some (client, m)" by (cases p) auto
  note call = claimed_call(1) [OF p]
  show ?thesis
  proof (cases "needs_translation m")
    case False
    then show ?thesis
      by (simp add: sent_block_def p read_block_def call call_names rewritten_claimed [OF p] rewritten_plain)
  next
    case True
    then have "translatable jp js ctx m (jp (or_empty (pieces (snd blk))))" using assms p by (simp add: block_ok_def)
    from rewritten_translated [OF this] show ?thesis using True
      by (simp add: sent_block_def p read_block_def call call_names rewritten_claimed [OF p] pieces_def)
  qed
qed

text \<open>
  C16. A streamed answer is translated like a whole one. Put together by its client, the translated stream has the blocks
  that rewriting the put-together answer gives: each call under its client tool's name and in that tool's arguments,
  request context filled in, and every other block and delta as it was - for arguments cut anywhere, as long as a block's
  arguments are an object within the cap and what is made of them can be printed.
\<close>

theorem stream_translates_like_response:
  assumes "list_all (block_ok jp js r ctx) blks"
  shows "answer_content jp (fst (map_events jp js r ctx (stream_from 0 blks) [])) =
    map (\<lambda>(b, ds). (rewrite_content r ctx b, ds)) (answer_content jp (stream_from 0 blks))"
  using assms by (auto simp: answer_content_def map_events_stream split_def list_all_iff intro!: sent_block_read)

definition args_parse :: "utext \<Rightarrow> jvalue option" where
  "args_parse t =
     (if t = lit ''given'' then Some (J_obj (named [(''command'', jtext ''ls'')]))
      else if t = lit ''made'' then Some (J_obj (named [(''command'', jtext ''ls''), (''description'', jtext ''ls'')]))
      else None)"

definition args_print :: "jvalue \<Rightarrow> utext" where
  "args_print v = lit ''made''"

definition sample_tools :: tool_map where
  "sample_tools = [(lit ''shell'', bash_like [''cmd'', ''command'', ''c''])]"

definition sample_call :: streamed_part where
  "sample_call =
     (named [(''type'', jtext ''tool_use''), (''name'', jtext ''Bash''), (''input'', J_obj [])],
      [input_delta (lit ''giv''), input_delta (lit ''en'')])"

lemma sample_lookup: "buildReverseLookup sample_tools = [(lit ''Bash'', (lit ''shell'', bash_like [''cmd'', ''command'', ''c'']))]"
  by (simp add: buildReverseLookup_def sample_tools_def claim_best_def claim_own_def same_name_def bash_like_def tool_entry_def text_lower_def lit_def
      score_of_def opt_or_def)

lemma sample_pieces: "pieces (snd sample_call) = lit ''given''"
  by (simp add: pieces_def sample_call_def) (simp add: lit_def)

lemma sample_call_view: "is_call (fst sample_call)" "map_of (fst sample_call) (lit ''name'') = Some (jtext ''Bash'')"
  by (simp_all add: sample_call_def is_call_def str_of_def jtext_def)

lemma sample_back: "handed_back (bash_like ks) (J_obj (named [(''command'', jtext ''ls'')]))
    = Some (J_obj (named [(''command'', jtext ''ls''), (''description'', jtext ''ls'')]))"
  by (simp add: handed_back_def bash_like_def tool_entry_def bash_back_def jtext_def pick_def nullish_or_def opt_or_def named_def arg_def jprop_def first_true_def)

lemma sample_claimant: "claimant (buildReverseLookup sample_tools) (fst sample_call) = Some (lit ''shell'', bash_like [''cmd'', ''command'', ''c''])"
  by (simp add: claimant_def sample_call_view str_of_def jtext_def sample_lookup)

lemma sample_call_ok: "block_ok args_parse args_print (buildReverseLookup sample_tools) None sample_call"
proof -
  have t: "translatable args_parse args_print None (bash_like [''cmd'', ''command'', ''c'']) (args_parse (or_empty (lit ''given'')))"
    by (simp add: or_empty_def args_parse_def translatable_def sample_back injectContextFields_def opt_or_def args_print_def split: option.splits)
      (simp add: lit_def)
  have "list_all (\<lambda>d. d = input_delta (piece d)) (snd sample_call)" by (simp add: sample_call_def)
  moreover have "length (lit ''given'') \<le> MAX_TOOL_PARTIAL_BYTES" by (simp add: lit_def MAX_TOOL_PARTIAL_BYTES_def)
  ultimately show ?thesis using t by (simp add: block_ok_def sample_claimant sample_pieces)
qed

theorem stream_translates_like_response_witness:
  "answer_content args_parse
     (fst (map_events args_parse args_print (buildReverseLookup sample_tools) None (stream_from 0 [sample_call]) []))
   = [(J_obj (named [(''type'', jtext ''tool_use''), (''name'', jtext ''shell''),
        (''input'', J_obj (named [(''command'', jtext ''ls''), (''description'', jtext ''ls'')]))]), [])]"
proof -
  have g: "or_empty (lit ''given'') = lit ''given''" by (simp add: or_empty_def lit_def)
  have "answer_content args_parse (stream_from 0 [sample_call]) =
      [(J_obj (named [(''type'', jtext ''tool_use''), (''name'', jtext ''Bash''), (''input'', J_obj (named [(''command'', jtext ''ls'')]))]), [])]"
    by (simp add: answer_content_def read_block_def sample_call_view sample_pieces del: stream_from.simps)
      (simp add: g args_parse_def sample_call_def opt_or_def named_def)
  moreover have "rewrite_content (buildReverseLookup sample_tools) None
      (J_obj (named [(''type'', jtext ''tool_use''), (''name'', jtext ''Bash''), (''input'', J_obj (named [(''command'', jtext ''ls'')]))]))
    = J_obj (named [(''type'', jtext ''tool_use''), (''name'', jtext ''shell''),
        (''input'', J_obj (named [(''command'', jtext ''ls''), (''description'', jtext ''ls'')]))])"
    by (simp add: rewrite_content_def jtext_def str_of_def rewriteToolUseBlock_def sample_lookup rewrite_input_def is_record_def named_def
        injectContextFields_def bash_like_def tool_entry_def translated_back_def bash_back_def opt_or_def pick_def nullish_or_def arg_def jprop_def
        first_true_def split: option.splits)
  ultimately show ?thesis
    using stream_translates_like_response [of args_parse args_print "buildReverseLookup sample_tools" None "[sample_call]"] sample_call_ok
    by (simp del: stream_from.simps)
qed

theorem mapped_events_legal_witness:
  "wire_run (map wire_of (fst (map_events args_parse args_print (buildReverseLookup sample_tools) None (stream_from 0 [sample_call]) [])))
     (fresh_wire\<lparr>w_started := True\<rparr>) = Some (fresh_wire\<lparr>w_started := True, w_next := 1\<rparr>)"
  by (rule mapped_events_legal)
    (simp add: stream_block_def sample_call_def start_event_def delta_event_def stop_event_def wire_of_def obj_event_def obj_type_def str_of_def
      with_int_def index_of_event_def num_of_def wire_step_def fresh_wire_def)

text \<open>
  A stream forgets a plain name. A client that declares only tools without a translation back, such as \<open>glob\<close>, gets its
  own name in a whole answer, but the native one in a stream, where the reader is switched off.
\<close>

theorem plain_name_lost_in_stream:
  "tool_alias str (lit ''glob'') = Some m \<Longrightarrow>
     rewriteToolUseBlock (buildReverseLookup [(lit ''glob'', m)]) ctx [(lit ''name'', J_str (lit ''Glob''))] = [(lit ''name'', J_str (lit ''glob''))]
     \<and> mapped_stream jp js [(lit ''glob'', m)] ctx [answer] = Inr (answer, new_reverse_mapper)"
proof -
  assume "tool_alias str (lit ''glob'') = Some m"
  then have m: "m = plain_tool ''Glob''"
    by (simp add: tool_alias_def TOOL_MAP_def command_tools_def read_tools_def write_tools_def edit_tools_def glob_tools_def)
  have r: "buildReverseLookup [(lit ''glob'', m)] = [(lit ''Glob'', (lit ''glob'', m))]"
    by (simp add: m buildReverseLookup_def claim_own_def claim_best_def same_name_def plain_tool_def tool_entry_def text_lower_def lit_def)
  have "\<not> mapper_active [(lit ''glob'', m)]"
    by (simp add: mapper_active_def r) (simp add: m needs_translation_def plain_tool_def tool_entry_def)
  then show ?thesis
    by (simp add: r rewriteToolUseBlock_def rewrite_input_def is_record_def mapped_stream_def mapper_feed_def mapper_end_def read_then_def)
qed

theorem plain_name_lost_in_stream_witness:
  "mapped_stream (\<lambda>t. None) (\<lambda>v. []) [(lit ''glob'', plain_tool ''Glob'')] None [lit ''x''] = Inr (lit ''x'', new_reverse_mapper)"
  by (rule plain_name_lost_in_stream [of "\<lambda>v. []", THEN conjunct2])
    (simp add: tool_alias_def TOOL_MAP_def command_tools_def read_tools_def write_tools_def edit_tools_def glob_tools_def)

end
