(* ===== verification/Request_Tool_Props.thy ===== *)
theory Request_Tool_Props
  imports Request_Props Tool_Props
begin

text \<open>
  What the tools of an outgoing request promise: their names are distinct, and every tool the client declared beside a tool of
  Claude Code stands for one that the model can call.
\<close>

section \<open>Lists of tools\<close>

lemma set_place_by [simp]: "set (place_by le x xs) = insert x (set xs)"
  by (induction xs) auto

lemma set_order_by [simp]: "set (order_by le xs) = set xs"
  unfolding order_by_def by (induction xs) auto

lemma order_by_Nil [simp]: "order_by le xs = [] \<longleftrightarrow> xs = []"
  using set_order_by [of le xs] by (metis set_empty)

definition tool_names :: "jobject list \<Rightarrow> utext list" where
  "tool_names ts = filter (\<lambda>n. n \<noteq> []) (map (\<lambda>t. tool_name t) ts)"

lemma tool_names_simps [simp]:
  "tool_names [] = []"
  "tool_names (t # ts) = (if tool_name t = [] then tool_names ts else tool_name t # tool_names ts)"
  by (simp_all add: tool_names_def)

lemma dedupe_names:
  "distinct (tool_names (dedupe_from seen ts)) \<and> set (tool_names (dedupe_from seen ts)) = set (tool_names ts) - seen"
proof (induction ts arbitrary: seen)
  case (Cons t ts)
  define n where "n = tool_name t"
  consider "n = []" | "n \<noteq> []" "n \<in> seen" | "n \<noteq> []" "n \<notin> seen" by blast
  then show ?case
  proof cases
    case 3
    then show ?thesis using Cons [of "insert n seen"] by (simp add: n_def [symmetric]) blast
  qed (use Cons [of seen] in \<open>simp_all add: n_def [symmetric] insert_Diff_if\<close>)
qed simp

lemma dedupe_distinct: "distinct (tool_names (dedupeToolsByName ts))"
  and dedupe_keeps: "set (tool_names (dedupeToolsByName ts)) = set (tool_names ts)"
  using dedupe_names [of "{}" ts] by (simp_all add: dedupeToolsByName_def)

text \<open>
  The names of the advertised tools are distinct: upstream refuses a request in which one is used twice. It holds whatever the
  client declares, its MCP tools twice or under a name of the template included, when the template's own names are distinct.
\<close>

theorem advertised_names_distinct:
  assumes "distinct (tool_names (CC_TOOL_DEFINITIONS tp))"
  shows "distinct (tool_names (advertised_tools le tp p ts))"
  using assms by (simp add: advertised_tools_def Let_def dedupe_distinct)

section \<open>What a plan holds\<close>

definition entry_ok :: "(jvalue \<Rightarrow> utext) \<Rightarrow> tool_template \<Rightarrow> jobject list \<Rightarrow> tool_plan \<Rightarrow> tool_mapping \<Rightarrow> bool" where
  "entry_ok str tp ts p m \<longleftrightarrow>
     (\<exists>t \<in> set ts. \<exists>k. known_mapping str tp t = Some k \<and> tm_ccTool m = tm_ccTool k \<and> tm_ccTool m \<in> set (tl_claimed p))
     \<or> (\<exists>t \<in> set (tl_mcpShaped p). tool_name t = tm_ccTool m \<and> tm_ccTool m \<noteq> [])"

definition plan_ok :: "(jvalue \<Rightarrow> utext) \<Rightarrow> tool_template \<Rightarrow> jobject list \<Rightarrow> tool_plan \<Rightarrow> bool" where
  "plan_ok str tp ts p \<longleftrightarrow> (\<forall>n m. map_of (tl_map p) n = Some m \<longrightarrow> entry_ok str tp ts p m)"

lemma entry_ok_grows:
  "entry_ok str tp ts p m \<Longrightarrow> set (tl_claimed p) \<subseteq> set (tl_claimed q) \<Longrightarrow> set (tl_mcpShaped p) \<subseteq> set (tl_mcpShaped q) \<Longrightarrow> entry_ok str tp ts q m"
  unfolding entry_ok_def by blast

lemma map_known_ok:
  assumes "plan_ok str tp ts p" and "t \<in> set ts"
  shows "plan_ok str tp ts (map_known str tp hybrid p t)"
proof (cases "known_mapping str tp t")
  case (Some k)
  let ?q = "map_known str tp hybrid p t"
  have q: "set (tl_claimed p) \<subseteq> set (tl_claimed ?q)" "tl_mcpShaped ?q = tl_mcpShaped p" "tm_ccTool k \<in> set (tl_claimed ?q)"
    by (auto simp: map_known_def Some)
  have "entry_ok str tp ts ?q k'" if "tm_ccTool k' = tm_ccTool k" for k'
    using that q(3) assms(2) Some unfolding entry_ok_def by auto
  moreover have "entry_ok str tp ts ?q m" if "map_of (tl_map p) n = Some m" for n m
    using entry_ok_grows [of str tp ts p m ?q] assms(1) that q unfolding plan_ok_def by auto
  ultimately show ?thesis unfolding plan_ok_def by (auto simp: map_known_def Some update_conv')
qed (use assms in \<open>simp add: map_known_def\<close>)

lemma known_fold_ok: "set us \<subseteq> set ts \<Longrightarrow> plan_ok str tp ts p \<Longrightarrow> plan_ok str tp ts (foldl (map_known str tp hybrid) p us)"
  by (induction us arbitrary: p) (auto intro: map_known_ok)

lemma place_ok:
  assumes "plan_ok str tp ts p"
  shows "plan_ok str tp ts (place_unmapped js str tp hybrid True declared p t)"
proof (cases "tl_map (place_unmapped js str tp hybrid True declared p t) = tl_map p")
  case True
  have "entry_ok str tp ts (place_unmapped js str tp hybrid True declared p t) m" if "entry_ok str tp ts p m" for m
    using that by (rule entry_ok_grows) (auto simp: place_unmapped_def carry_tool_def Let_def)
  then show ?thesis using assms True unfolding plan_ok_def by simp
next
  case False
  let ?wire = "CLIENT_TOOL_MCP_PREFIX @ tool_name t"
  let ?q = "place_unmapped js str tp hybrid True declared p t"
  have q: "tl_map ?q = AList.update (tool_name t) (identity_mapping ?wire) (tl_map p)" "tl_claimed ?q = tl_claimed p"
      "tl_mcpShaped ?q = tl_mcpShaped p @ [AList.update (lit ''name'') (J_str ?wire) t]"
    using False by (auto simp: place_unmapped_def carry_tool_def Let_def split: if_splits)
  have "entry_ok str tp ts ?q (identity_mapping ?wire)"
    unfolding entry_ok_def q by (auto simp: update_conv' str_of_def opt_or_def identity_mapping_def CLIENT_TOOL_MCP_PREFIX_def lit_def)
  moreover have "entry_ok str tp ts ?q m" if "entry_ok str tp ts p m" for m
    using that by (rule entry_ok_grows) (auto simp: q)
  ultimately show ?thesis using assms unfolding plan_ok_def q(1) by (auto simp: update_conv')
qed

lemma place_fold_ok: "plan_ok str tp ts p \<Longrightarrow> plan_ok str tp ts (foldl (place_unmapped js str tp hybrid True declared) p us)"
  by (induction us arbitrary: p) (auto intro: place_ok)

lemma plan_tools_ok: "names_cc_tool tp ts \<Longrightarrow> plan_ok str tp ts (plan_tools js str tp hybrid ts)"
  unfolding plan_tools_def
  by (simp only:, intro place_fold_ok known_fold_ok) (simp_all add: plan_ok_def empty_plan_def)

text \<open>Every tool gets its entry, or the request is refused.\<close>

lemma map_known_dom: "map_of (tl_map p) n \<noteq> None \<Longrightarrow> map_of (tl_map (map_known str tp hybrid p t)) n \<noteq> None"
  by (auto simp: map_known_def update_conv' split: option.splits)

lemma map_known_entry: "known_mapping str tp t \<noteq> None \<Longrightarrow> map_of (tl_map (map_known str tp hybrid p t)) (tool_name t) \<noteq> None"
  by (auto simp: map_known_def update_conv')

lemma known_fold_dom: "map_of (tl_map p) n \<noteq> None \<Longrightarrow> map_of (tl_map (foldl (map_known str tp hybrid) p us)) n \<noteq> None"
  by (induction us arbitrary: p) (simp_all add: map_known_dom del: not_None_eq)

lemma known_fold_entries:
  "t \<in> set us \<Longrightarrow> known_mapping str tp t \<noteq> None \<Longrightarrow> map_of (tl_map (foldl (map_known str tp hybrid) p us)) (tool_name t) \<noteq> None"
proof (induction us arbitrary: p)
  case (Cons u us)
  then show ?case by (cases "t = u") (simp_all add: known_fold_dom map_known_entry del: not_None_eq)
qed simp

lemma place_dom: "map_of (tl_map p) n \<noteq> None \<Longrightarrow> map_of (tl_map (place_unmapped js str tp False c declared p t)) n \<noteq> None"
  by (auto simp: place_unmapped_def carry_tool_def update_conv' Let_def)

lemma place_refused: "tl_uncarried p \<noteq> [] \<Longrightarrow> tl_uncarried (place_unmapped js str tp False c declared p t) \<noteq> []"
  by (auto simp: place_unmapped_def carry_tool_def Let_def)

lemma place_entry:
  "known_mapping str tp t = None \<Longrightarrow> tl_uncarried (place_unmapped js str tp False c declared p t) = []
     \<Longrightarrow> map_of (tl_map (place_unmapped js str tp False c declared p t)) (tool_name t) \<noteq> None"
  by (auto simp: place_unmapped_def carry_tool_def update_conv' Let_def split: if_splits)

lemma place_fold_dom: "map_of (tl_map p) n \<noteq> None \<Longrightarrow> map_of (tl_map (foldl (place_unmapped js str tp False c declared) p us)) n \<noteq> None"
  by (induction us arbitrary: p) (simp_all add: place_dom del: not_None_eq)

lemma place_fold_refused: "tl_uncarried p \<noteq> [] \<Longrightarrow> tl_uncarried (foldl (place_unmapped js str tp False c declared) p us) \<noteq> []"
  by (induction us arbitrary: p) (simp_all add: place_refused)

lemma place_fold_entries:
  "t \<in> set us \<Longrightarrow> known_mapping str tp t = None \<Longrightarrow> tl_uncarried (foldl (place_unmapped js str tp False c declared) p us) = []
     \<Longrightarrow> map_of (tl_map (foldl (place_unmapped js str tp False c declared) p us)) (tool_name t) \<noteq> None"
proof (induction us arbitrary: p)
  case (Cons u us)
  show ?case
  proof (cases "t = u")
    case True
    have "tl_uncarried (place_unmapped js str tp False c declared p u) = []" using Cons.prems(3) place_fold_refused by fastforce
    then show ?thesis using True Cons.prems(2) place_fold_dom [OF place_entry] by (simp del: not_None_eq)
  qed (use Cons in \<open>simp del: not_None_eq\<close>)
qed simp

lemma plan_complete:
  assumes "t \<in> set ts" and "tl_uncarried (plan_tools js str tp False ts) = []"
  shows "map_of (tl_map (plan_tools js str tp False ts)) (tool_name t) \<noteq> None"
proof (cases "known_mapping str tp t")
  case None
  then show ?thesis using assms unfolding plan_tools_def by (rule_tac place_fold_entries) auto
next
  case (Some k)
  then show ?thesis using assms unfolding plan_tools_def by (simp add: place_fold_dom known_fold_entries del: not_None_eq)
qed

section \<open>Every declared tool can be called\<close>

text \<open>The template has what the table maps to, and a tool the template only knows by name comes with a definition of its own.\<close>

definition targets_known :: "(jvalue \<Rightarrow> utext) \<Rightarrow> tool_template \<Rightarrow> jobject list \<Rightarrow> bool" where
  "targets_known str tp ts \<longleftrightarrow>
     list_all (\<lambda>t.
       if isMcpToolName (tool_name t) then True
       else if tool_name t \<in> CC_NATIVE_NAMES_UNION tp then
         tool_name t \<in> set (tool_names (CC_TOOL_DEFINITIONS_UNION tp)) \<or> isAdvertisableToolDefinition t \<or> isAnthropicDefinedTool t
       else (case tool_alias str (text_lower (tool_name t)) of
               None \<Rightarrow> True
             | Some m \<Rightarrow> \<not> isMcpToolName (tm_ccTool m) \<and> tm_ccTool m \<in> set (tool_names (CC_TOOL_DEFINITIONS_UNION tp)))) ts"

definition shares_cc_name :: "tool_template \<Rightarrow> jobject list \<Rightarrow> bool" where
  "shares_cc_name tp ts \<longleftrightarrow> list_ex (\<lambda>t. \<not> isMcpToolName (tool_name t) \<and> text_lower (tool_name t) \<in> CC_TOOL_NAMES_LOWER tp) ts"

lemma named_text: "tool_name t \<noteq> [] \<Longrightarrow> str_of (map_of t (lit ''name'')) \<noteq> None"
  by (cases "str_of (map_of t (lit ''name''))") simp_all

lemma lower_names:
  "x \<in> CC_TOOL_NAMES_LOWER tp \<longleftrightarrow>
     (\<exists>u. u \<in> set (CC_TOOL_DEFINITIONS_UNION tp) \<and> \<not> isMcpToolName (tool_name u) \<and> x = text_lower (tool_name u))"
  unfolding CC_TOOL_NAMES_LOWER_def by auto

lemma shares_names: "list_all (\<lambda>t. tool_name t \<noteq> []) ts \<Longrightarrow> shares_cc_name tp ts \<Longrightarrow> names_cc_tool tp ts"
  using named_text unfolding shares_cc_name_def names_cc_tool_def list_ex_iff list_all_iff by blast

lemma advertised_set:
  assumes "natives = available_cc tp (tl_claimed p) ts @ own_native tp ts" and "natives \<noteq> []" and "n \<noteq> []"
    and "t \<in> set natives \<or> t \<in> set ts \<and> isMcpToolName (tool_name t) \<or> t \<in> set (tl_mcpShaped p)" and "tool_name t = n"
  shows "n \<in> set (tool_names (advertised_tools le tp p ts))"
proof -
  have "n \<in> set (tool_names (order_by (\<lambda>a b. le (tool_name a) (tool_name b)) natives @ filter (\<lambda>t. isMcpToolName (tool_name t)) ts @ tl_mcpShaped p))"
    using assms(3-5) by (auto simp: tool_names_def)
  then show ?thesis using assms(1,2) by (auto simp: advertised_tools_def Let_def dedupe_keeps)
qed

lemma in_tool_names: "n \<in> set (tool_names ts) \<longleftrightarrow> n \<noteq> [] \<and> (\<exists>t \<in> set ts. tool_name t = n)"
  unfolding tool_names_def by auto

lemma available_first:
  assumes "list_all (\<lambda>t. tool_name t \<noteq> []) ts" and "shares_cc_name tp ts" and "d \<in> set (CC_TOOL_DEFINITIONS_UNION tp)" and "\<not> isMcpToolName (tool_name d)"
    and "tool_name d \<in> set claimed \<or> (\<exists>t \<in> set ts. text_lower (tool_name t) = text_lower (tool_name d))"
  shows "d \<in> set (available_cc tp claimed ts)"
proof -
  let ?names = "(\<lambda>t. text_lower (tool_name t)) ` set (filter (\<lambda>t. tool_name t \<noteq> []) ts)"
  obtain t where t: "t \<in> set ts" "\<not> isMcpToolName (tool_name t)" "text_lower (tool_name t) \<in> CC_TOOL_NAMES_LOWER tp"
    using assms(2) by (auto simp: shares_cc_name_def list_ex_iff)
  then obtain u where u: "u \<in> set (CC_TOOL_DEFINITIONS_UNION tp)" "\<not> isMcpToolName (tool_name u)" "text_lower (tool_name u) = text_lower (tool_name t)"
    unfolding lower_names by metis
  have names: "text_lower (tool_name t') \<in> ?names" if "t' \<in> set ts" for t' using that assms(1) by (auto simp: list_all_iff)
  have "filter (\<lambda>t. \<not> isMcpToolName (tool_name t) \<and> text_lower (tool_name t) \<in> ?names) (CC_TOOL_DEFINITIONS_UNION tp) \<noteq> []"
    using u names [OF t(1)] by (auto simp: filter_empty_conv)
  moreover have "text_lower (tool_name d) \<in> ?names \<or> tool_name d \<in> set claimed" using assms(5) names by metis
  ultimately show ?thesis using assms(3,4) unfolding available_cc_def Let_def by (simp del: image_eqI)
qed

lemma entry_named:
  assumes "entry_ok str tp ts p m" and "list_all (\<lambda>t. tool_name t \<noteq> []) ts" and "targets_known str tp ts"
  shows "tm_ccTool m \<noteq> []"
proof -
  have "tm_ccTool k \<noteq> []" if t: "t \<in> set ts" "known_mapping str tp t = Some k" for t k
  proof (cases "native_or_mcp tp (tool_name t)")
    case True
    then show ?thesis using t assms(2) by (auto simp: known_mapping_def identity_mapping_def list_all_iff)
  next
    case False
    then have "tm_ccTool k \<in> set (tool_names (CC_TOOL_DEFINITIONS_UNION tp))"
      using t assms(3) by (fastforce simp: known_mapping_def native_or_mcp_def targets_known_def list_all_iff)
    then show ?thesis by (simp add: tool_names_def)
  qed
  then show ?thesis using assms(1) unfolding entry_ok_def by metis
qed

lemma known_own: "native_or_mcp tp (tool_name t) \<Longrightarrow> known_mapping str tp t = Some k \<Longrightarrow> tm_ccTool k = tool_name t"
  by (auto simp: known_mapping_def identity_mapping_def)

lemma plan_entry_advertised:
  assumes named: "list_all (\<lambda>t. tool_name t \<noteq> []) ts" and shares: "shares_cc_name tp ts" and targets: "targets_known str tp ts"
    and ok: "entry_ok str tp ts p m"
  shows "tm_ccTool m \<in> set (tool_names (advertised_tools le tp p ts))"
proof -
  let ?natives = "available_cc tp (tl_claimed p) ts @ own_native tp ts"
  obtain u t0 where "u \<in> set (CC_TOOL_DEFINITIONS_UNION tp)" "\<not> isMcpToolName (tool_name u)" "t0 \<in> set ts"
      "text_lower (tool_name t0) = text_lower (tool_name u)"
    using shares unfolding shares_cc_name_def list_ex_iff lower_names by metis
  then have "u \<in> set (available_cc tp (tl_claimed p) ts)" using available_first [OF named shares] by metis
  then have some: "?natives \<noteq> []" by auto
  have wire: "tm_ccTool m \<noteq> []" using ok named targets by (rule entry_named)
  note adv = advertised_set [OF refl some wire]
  from ok consider (known) t k where "t \<in> set ts" "known_mapping str tp t = Some k" "tm_ccTool m = tm_ccTool k" "tm_ccTool m \<in> set (tl_claimed p)"
    | (shaped) t where "t \<in> set (tl_mcpShaped p)" "tool_name t = tm_ccTool m"
    unfolding entry_ok_def by blast
  then show ?thesis
  proof cases
    case shaped
    then show ?thesis using adv by blast
  next
    case known
    have tt: "if isMcpToolName (tool_name t) then True
       else if tool_name t \<in> CC_NATIVE_NAMES_UNION tp then
         tool_name t \<in> set (tool_names (CC_TOOL_DEFINITIONS_UNION tp)) \<or> isAdvertisableToolDefinition t \<or> isAnthropicDefinedTool t
       else (case tool_alias str (text_lower (tool_name t)) of
               None \<Rightarrow> True
             | Some m \<Rightarrow> \<not> isMcpToolName (tm_ccTool m) \<and> tm_ccTool m \<in> set (tool_names (CC_TOOL_DEFINITIONS_UNION tp)))"
      using targets known(1) unfolding targets_known_def list_all_iff by blast
    consider (mcp) "isMcpToolName (tool_name t)" | (native) "\<not> isMcpToolName (tool_name t)" "tool_name t \<in> CC_NATIVE_NAMES_UNION tp"
      | (table) "\<not> isMcpToolName (tool_name t)" "tool_name t \<notin> CC_NATIVE_NAMES_UNION tp" by blast
    then show ?thesis
    proof cases
      case mcp
      then have e: "tool_name t = tm_ccTool m" using known(3) known_own [OF _ known(2)] unfolding native_or_mcp_def by metis
      show ?thesis by (rule adv [OF _ e]) (use mcp known(1) in blast)
    next
      case native
      then have m: "tool_name t = tm_ccTool m" using known(3) known_own [OF _ known(2)] unfolding native_or_mcp_def by metis
      show ?thesis
      proof (cases "tool_name t \<in> set (tool_names (CC_TOOL_DEFINITIONS_UNION tp))")
        case True
        then obtain d where d: "d \<in> set (CC_TOOL_DEFINITIONS_UNION tp)" "tool_name d = tool_name t" unfolding in_tool_names by blast
        then have "d \<in> set (available_cc tp (tl_claimed p) ts)" using available_first [OF named shares d(1)] native known(1) by metis
        then have "d \<in> set ?natives" by simp
        then show ?thesis by (intro adv [of d]) (use d(2) m in \<open>blast, metis\<close>)
      next
        case False
        then have "isAdvertisableToolDefinition t \<or> isAnthropicDefinedTool t" using tt native by simp
        moreover have "tool_name t \<in> CC_TOOL_DEFINITIONS_UNADVERTISABLE tp"
          using native False known(1) named
          unfolding CC_NATIVE_NAMES_UNION_def CC_TOOL_DEFINITIONS_UNADVERTISABLE_def in_tool_names CC_TOOL_DEFINITIONS_UNION_def list_all_iff
          by fastforce
        ultimately have "t \<in> set (own_native tp ts)" using known(1) named_text [of t] named unfolding own_native_def list_all_iff by auto
        then have "t \<in> set ?natives" by simp
        then show ?thesis by (intro adv [OF _ m]) blast
      qed
    next
      case table
      then have "tool_alias str (text_lower (tool_name t)) = Some k" using known(2) by (simp add: known_mapping_def native_or_mcp_def)
      then have "\<not> isMcpToolName (tm_ccTool m)" "tm_ccTool m \<in> set (tool_names (CC_TOOL_DEFINITIONS_UNION tp))"
        using tt table known(3) by auto
      then obtain d where d: "d \<in> set (CC_TOOL_DEFINITIONS_UNION tp)" "tool_name d = tm_ccTool m" unfolding in_tool_names by blast
      then have "d \<in> set (available_cc tp (tl_claimed p) ts)"
        using available_first [OF named shares d(1)] known(4) \<open>\<not> isMcpToolName (tm_ccTool m)\<close> by metis
      then have "d \<in> set ?natives" by simp
      then show ?thesis by (intro adv [OF _ d(2)]) blast
    qed
  qed
qed

definition forced_choice :: "utext \<Rightarrow> jobject" where
  "forced_choice n = [(lit ''type'', J_str (lit ''tool'')), (lit ''name'', J_str n)]"

lemma forced_choice_passes:
  assumes "n \<in> set (tool_names out)" and "map_of tm c = Some m" and "tm_ccTool m = n"
  shows "passthroughToolChoice (Some (J_obj (forced_choice c))) out tm = Some (forced_choice n)"
proof -
  obtain t where t: "t \<in> set out" "tool_name t = n" "n \<noteq> []" using assms(1) by (auto simp: tool_names_def)
  then have "map_of t (lit ''name'') = Some (J_str n)"
    by (auto simp: opt_or_def str_of_def split: option.splits jvalue.splits)
  then have "list_ex (\<lambda>t. map_of t (lit ''name'') = Some (J_str n)) out" using t(1) by (auto simp: list_ex_iff)
  then show ?thesis using assms(2,3) by (simp add: passthroughToolChoice_def forced_choice_def str_of_def)
qed

text \<open>
  C12. Every declared tool can be called. Let a client declare tools, each with a name, one of them under the name,
  whatever its case, of a tool the template defines with a schema; outside of hybrid mode let none be refused; let the
  template define what the table maps the declared ones to, and a declared tool the template knows by name only come
  with a schema of its own or be one that Anthropic defines. Then each tool it declared - whether Claude Code's own, an
  alias of the table, an MCP tool, or a foreign one carried under an MCP name - stands in the tool map for a tool that
  is advertised, and forcing it forces that one. A tool known by name only is no such neighbour
  (\<open>alias_lost_beside_advisor\<close>), nor is an MCP tool (\<open>alias_lost_beside_mcp\<close>).
\<close>

theorem declared_tools_callable:
  assumes "list_all (\<lambda>t. tool_name t \<noteq> []) ts" and "shares_cc_name tp ts" and "targets_known str tp ts"
    and "tl_uncarried (plan_tools js str tp False ts) = []" and "t \<in> set ts"
  shows "\<exists>m. map_of (tl_map (plan_tools js str tp False ts)) (tool_name t) = Some m
    \<and> tm_ccTool m \<in> set (tool_names (advertised_tools le tp (plan_tools js str tp False ts) ts))
    \<and> passthroughToolChoice (Some (J_obj (forced_choice (tool_name t)))) (advertised_tools le tp (plan_tools js str tp False ts) ts)
        (tl_map (plan_tools js str tp False ts)) = Some (forced_choice (tm_ccTool m))"
proof -
  let ?p = "plan_tools js str tp False ts"
  obtain m where m: "map_of (tl_map ?p) (tool_name t) = Some m" using plan_complete [OF assms(5,4)] by blast
  then have "entry_ok str tp ts ?p m" using plan_tools_ok [OF shares_names [OF assms(1,2)]] unfolding plan_ok_def by blast
  then have "tm_ccTool m \<in> set (tool_names (advertised_tools le tp ?p ts))" by (rule plan_entry_advertised [OF assms(1-3)])
  then show ?thesis using m forced_choice_passes [OF _ m refl] by blast
qed

definition callable_sample :: "jobject list" where
  "callable_sample = [sample_tool ''Read'', sample_tool ''mcp__x__y'', sample_tool ''lookup'']"

definition no_table_str :: "jvalue \<Rightarrow> utext" where "no_table_str v = []"

lemma lookup_no_alias: "tool_alias no_table_str (lit ''lookup'') = None"
  by (simp add: tool_alias_def TOOL_MAP_def command_tools_def read_tools_def write_tools_def edit_tools_def glob_tools_def grep_tools_def web_tools_def)

lemma sample_tool_name [simp]: "map_of (sample_tool n) (lit ''name'') = Some (J_str (lit n))"
  by (simp add: sample_tool_def)

lemma callable_sample_plan:
  "tl_uncarried (plan_tools no_table_str no_table_str sample_template False callable_sample) = []"
  "shares_cc_name sample_template callable_sample" "targets_known no_table_str sample_template callable_sample"
  "list_all (\<lambda>t. tool_name t \<noteq> []) callable_sample"
proof -
  show "list_all (\<lambda>t. tool_name t \<noteq> []) callable_sample"
    by (simp add: callable_sample_def str_of_def) (simp add: lit_def)
  have low: "text_lower (lit ''lookup'') = lit ''lookup''" by (simp add: text_lower_def lit_def)
  have mcp: "isMcpToolName (lit ''mcp__x__y'')" "\<not> isMcpToolName (lit ''Read'')" "\<not> isMcpToolName (lit ''lookup'')"
      "\<not> isMcpToolName (lit ''Agent'')" "\<not> isMcpToolName (lit ''Bash'')" "\<not> isMcpToolName (lit ''Write'')"
    by (simp_all add: isMcpToolName_def has_prefix_def lit_def)
  have union: "CC_TOOL_DEFINITIONS_UNION sample_template = tt_tools sample_template"
    by (simp add: CC_TOOL_DEFINITIONS_UNION_def sample_template_def sample_tool_def isAdvertisableToolDefinition_def str_of_def)
  have native: "CC_NATIVE_NAMES_UNION sample_template = lit ` {''Agent'', ''Bash'', ''Read'', ''Write''}"
    by (simp add: CC_NATIVE_NAMES_UNION_def sample_template_def str_of_def)
  have lower: "text_lower (lit ''Read'') \<in> CC_TOOL_NAMES_LOWER sample_template"
    unfolding lower_names union by (rule exI [of _ "sample_tool ''Read''"]) (simp add: sample_template_def str_of_def mcp)
  show "shares_cc_name sample_template callable_sample"
    using lower by (simp add: shares_cc_name_def callable_sample_def str_of_def mcp)
  have cust: "custom_type (sample_tool n)" "isAdvertisableToolDefinition (sample_tool n)" for n
    by (simp_all add: custom_type_def sample_tool_def isAdvertisableToolDefinition_def str_of_def)
  show "targets_known no_table_str sample_template callable_sample"
    by (simp add: targets_known_def callable_sample_def str_of_def mcp native low lookup_no_alias cust)
  have names: "names_cc_tool sample_template callable_sample"
    using lower by (simp add: names_cc_tool_def callable_sample_def str_of_def mcp)
  have fits: "tool_name_fits (CLIENT_TOOL_MCP_PREFIX @ lit ''lookup'')"
    by (simp add: tool_name_fits_def CLIENT_TOOL_MCP_PREFIX_def lit_def)
  have fresh: "CLIENT_TOOL_MCP_PREFIX @ lit ''lookup'' \<notin> {lit ''Read'', lit ''mcp__x__y'', lit ''lookup''}"
    by (simp add: CLIENT_TOOL_MCP_PREFIX_def lit_def)
  have known: "known_mapping no_table_str sample_template (sample_tool ''Read'') \<noteq> None"
      "known_mapping no_table_str sample_template (sample_tool ''mcp__x__y'') \<noteq> None"
      "known_mapping no_table_str sample_template (sample_tool ''lookup'') = None"
    by (simp_all add: known_mapping_def native_or_mcp_def str_of_def mcp native low lookup_no_alias)
  have known_refuses: "tl_uncarried (map_known no_table_str sample_template False q t) = tl_uncarried q" for q t
    by (simp add: map_known_def split: option.splits)
  show "tl_uncarried (plan_tools no_table_str no_table_str sample_template False callable_sample) = []"
    using known fits fresh
    by (simp add: plan_tools_def names callable_sample_def place_unmapped_def carry_tool_def str_of_def cust known_refuses Let_def)
      (simp add: empty_plan_def lit_def)
qed

theorem declared_tools_callable_witness:
  "\<exists>m. map_of (tl_map (plan_tools no_table_str no_table_str sample_template False callable_sample)) (lit ''lookup'') = Some m
    \<and> tm_ccTool m \<in> set (tool_names (advertised_tools (\<lambda>a b. True) sample_template
        (plan_tools no_table_str no_table_str sample_template False callable_sample) callable_sample))"
  using declared_tools_callable [OF callable_sample_plan(4,2,3,1), of "sample_tool ''lookup''" "\<lambda>a b. True"]
  by (auto simp: callable_sample_def str_of_def)

theorem advertised_names_distinct_witness:
  "distinct (tool_names (advertised_tools (\<lambda>a b. True) sample_template empty_plan [sample_tool ''mcp__x__y'', sample_tool ''mcp__x__y'']))"
  by (rule advertised_names_distinct) code_simp

end
