(* ===== verification/Request_Gaps.thy ===== *)
theory Request_Gaps
  imports Request_Tool_Props
begin

text \<open>
  Requests that go out other than the code means them to: turns emptied after the check for empty turns, cache marks left
  inside blocks, and tools that are dropped or advertised without a way back. Each is a concrete request.
\<close>

section \<open>Turns emptied late\<close>

definition thinking_block :: jvalue where
  "thinking_block = J_obj [(lit ''type'', J_str (lit ''thinking'')), (lit ''thinking'', J_str (lit ''hm''))]"

definition said :: "string \<Rightarrow> jvalue" where
  "said t = J_obj (text_block (lit t))"

definition turn_of :: "string \<Rightarrow> jvalue list \<Rightarrow> jobject" where
  "turn_of r bs = [(lit ''role'', J_str (lit r)), (lit ''content'', J_arr bs)]"

lemma turn_of_simps [simp]:
  "blocks_of (turn_of r bs) = Some bs" "has_role q (turn_of r bs) \<longleftrightarrow> r = q"
  "map_blocks f (turn_of r bs) = turn_of r (f bs)" "no_blocks (turn_of r bs) \<longleftrightarrow> bs = []"
  by (simp_all add: turn_of_def blocks_of_def has_role_def str_of_def map_blocks_def no_blocks_def)

lemma block_simps [simp]:
  "block_type (said t) = Some (lit ''text'')" "block_type thinking_block = Some (lit ''thinking'')"
  "unmarked (said t) = said t" "unmarked thinking_block = thinking_block" "\<not> blank_text thinking_block"
  "blank_text (said t) \<longleftrightarrow> text_trim (lit t) = []" "on_result f (said t) = said t"
  "on_part f (said t) = J_obj (text_block (f (lit t)))"
  by (simp_all add: said_def thinking_block_def block_type_def jprop_def str_of_def text_block_def unmarked_def blank_text_def
      on_result_def on_part_def on_text_def)

text \<open>
  A thinking-only turn goes out empty. An assistant turn in the middle of the history that holds nothing but thinking passes
  the check for empty turns, loses its thinking, and is sent without content, which upstream refuses.
\<close>

theorem thinking_only_turn_emptied:
  "map no_blocks (template_turns scrub tm (cleaned_turns
      [turn_of ''user'' [said ''hi''], turn_of ''assistant'' [thinking_block], turn_of ''user'' [said ''go'']]))
   = [False, True, False]"
proof -
  have b: "text_trim (lit ''hi'') \<noteq> []" "text_trim (lit ''go'') \<noteq> []"
    by (simp_all add: lit_def text_trim_def js_space_def)
  show ?thesis
    by (cases tm) (simp_all add: cleaned_turns_def b template_turns_def drop_trailing_def strip_turn_def compact_turn_def scrub_turn_def Let_def)
qed

text \<open>
  A scrubbed text goes out empty. A user text that is the name of a product is emptied after the check for empty texts.
\<close>

theorem scrubbed_text_emptied:
  "map no_blanks (template_turns scrubFrameworkIdentifiersInContent tm (cleaned_turns [turn_of ''user'' [said ''TypingMind'']])) = [False]"
proof -
  have b: "text_trim (lit ''TypingMind'') \<noteq> []" by (simp add: lit_def text_trim_def js_space_def)
  have s: "scrubFrameworkIdentifiersInContent (lit ''TypingMind'') = []" by code_simp
  have r: "remap_block m (said t) = said t" for m t by (simp add: remap_block_def said_def text_block_def str_of_def Let_def)
  have e: "on_result f (J_obj (text_block [])) = J_obj (text_block [])" for f
    by (simp add: on_result_def block_type_def jprop_def str_of_def text_block_def)
  have n: "blank_text (J_obj (text_block []))" by (simp add: blank_text_def block_type_def jprop_def str_of_def text_block_def text_trim_def)
  show ?thesis
    by (cases tm) (simp_all add: cleaned_turns_def b template_turns_def drop_trailing_def strip_turn_def compact_turn_def scrub_turn_def
        Let_def s r e n no_blanks_def)
qed

text \<open>
  A last turn of another role goes out empty. The check for empty turns spares the last turn, the drop of trailing ones
  takes only the assistant's and the undoing of a retry only the user's: Claude Code's own turn of role \<open>system\<close>,
  when it comes last and its text is blank, is sent without content.
\<close>

theorem system_turn_emptied:
  "map no_blocks (genuine_turns (cleaned_turns [turn_of ''user'' [said ''hi''], turn_of ''system'' [said '' '']])) = [False, True]"
  by code_simp

text \<open>
  A turn whose content is the empty text is no turn of blocks, and is left as it is. \<open>sanitizeMessages\<close> of
  \<open>proxy.ts\<close>, which would drop it for another client, passes a genuine one by.
\<close>

theorem empty_text_kept:
  "genuine_turns (cleaned_turns [[(lit ''role'', J_str (lit ''user'')), (lit ''content'', J_str [])]])
     = [[(lit ''role'', J_str (lit ''user'')), (lit ''content'', J_str [])]]"
  by code_simp

section \<open>Marks that stay\<close>

definition marked_part :: "string \<Rightarrow> jvalue" where
  "marked_part t = J_obj (text_block (lit t) @ [sample_mark])"

definition marked_result :: jvalue where
  "marked_result = J_obj [(lit ''type'', J_str (lit ''tool_result'')), (lit ''tool_use_id'', J_str (lit ''c'')),
     (lit ''content'', J_arr [marked_part ''a'', marked_part ''b''])]"

definition nested_client :: jobject where
  "nested_client = [(lit ''system'', J_arr (map marked_part [''x-anthropic-billing-header: 1'', ''You are Claude Code'', ''More'', ''Most''])),
     (lit ''messages'', J_arr (map J_obj [turn_of ''user'' [said ''go''], turn_of ''assistant'' [said ''yes''], turn_of ''user'' [marked_result]]))]"

text \<open>
  Marks inside a tool's result stay. The step that clears the client's marks looks at the blocks of a turn and not into
  them: with two on the parts of a result the body goes out with six, two more than the four upstream takes.
\<close>

theorem nested_marks_stay:
  "cache_marks (out_or_none (sample_out nested_client)) = 6 \<and> nested_marks nested_client = 2"
  by code_simp

section \<open>Tools without a way there or back\<close>

definition planned :: "jobject list \<Rightarrow> tool_plan" where
  "planned ts = plan_tools no_table_str no_table_str sample_template False ts"

definition advertised_names :: "jobject list \<Rightarrow> utext list" where
  "advertised_names ts = tool_names (advertised_tools (\<lambda>a b. True) sample_template (planned ts) ts)"

definition beside_mcp :: "jobject list" where
  "beside_mcp = [sample_tool ''read_file'', sample_tool ''mcp__x__y'']"

definition lower_agent :: "jobject list" where
  "lower_agent = [sample_tool ''Read'', sample_tool ''agent'']"

text \<open>
  An alias beside an MCP tool is lost. A client that declares \<open>read_file\<close> and an MCP tool is remapped, and \<open>read_file\<close> stands for
  \<open>Read\<close>, but only the MCP tool is advertised: the model cannot call the other.
\<close>

theorem alias_lost_beside_mcp:
  "\<not> detectNonCCByTools no_table_str sample_template (Some beside_mcp)
   \<and> map_option tm_ccTool (map_of (tl_map (planned beside_mcp)) (lit ''read_file'')) = Some (lit ''Read'')
   \<and> advertised_names beside_mcp = [lit ''mcp__x__y'']"
  by code_simp

text \<open>
  A native tool is advertised for a foreign one. A client that declares \<open>Read\<close> and its own \<open>agent\<close> has the \<open>agent\<close> carried under an
  MCP name and the \<open>Agent\<close> of Claude Code advertised besides, a call of which comes back under a name the client does not have.
\<close>

theorem native_advertised_unmapped:
  "\<not> detectNonCCByTools no_table_str sample_template (Some lower_agent)
   \<and> advertised_names lower_agent = [lit ''Agent'', lit ''Read'', lit ''mcp__client__agent'']
   \<and> map_option fst (map_of (buildReverseLookup (tl_map (planned lower_agent))) (lit ''Agent'')) = None"
  by code_simp

definition advisor_tool :: jobject where
  "advisor_tool = [(lit ''type'', J_str (lit ''advisor_20260301'')), (lit ''name'', J_str (lit ''advisor''))]"

definition advisor_template :: tool_template where
  "advisor_template = sample_template\<lparr>tt_tools := advisor_tool # tt_tools sample_template\<rparr>"

definition beside_advisor :: "jobject list" where
  "beside_advisor = [advisor_tool, sample_tool ''read_file'']"

text \<open>
  An alias beside a tool that only Anthropic defines is lost. Declaring \<open>advisor\<close>, which the template knows by name only,
  passes for naming one of Claude Code's tools, but does not bring the tools of the template along: \<open>read_file\<close>
  stands for \<open>Read\<close>, and only \<open>advisor\<close> is advertised.
\<close>

theorem alias_lost_beside_advisor:
  "names_cc_tool advisor_template beside_advisor
   \<and> map_option tm_ccTool (map_of (tl_map (plan_tools no_table_str no_table_str advisor_template False beside_advisor)) (lit ''read_file''))
       = Some (lit ''Read'')
   \<and> tool_names (advertised_tools (\<lambda>a b. True) advisor_template
         (plan_tools no_table_str no_table_str advisor_template False beside_advisor) beside_advisor) = [lit ''advisor'']"
  by code_simp

end
