(* ===== verification/Inbound_Request.thy ===== *)
theory Inbound_Request
  imports Request_Body
begin

text \<open>
  A Responses client at the front door (\<open>responses-inbound.ts\<close>): its request as the Messages body the rest of the proxy serves.
  \<open>JSON.parse\<close>, \<open>JSON.stringify\<close> and \<open>String\<close> of values that are no text are arguments; the warnings, which are
  log lines about what was dropped, are left out, and so are the names \<open>EFFORTS\<close> inherits as an object.
\<close>

section \<open>Content\<close>

definition DEFAULT_MAX_OUTPUT_TOKENS :: rat where "DEFAULT_MAX_OUTPUT_TOKENS = 32000"

definition EFFORTS :: "(string \<times> string) list" where
  "EFFORTS = [(''none'', ''low''), (''minimal'', ''low''), (''low'', ''low''), (''medium'', ''medium''), (''high'', ''high''), (''xhigh'', ''xhigh''), (''max'', ''max'')]"

definition textPart :: "utext \<Rightarrow> jvalue" where
  "textPart t = J_obj [(lit ''type'', J_str (lit ''text'')), (lit ''text'', J_str t)]"

definition image_of :: "jobject \<Rightarrow> jvalue" where
  "image_of source = J_obj [(lit ''type'', J_str (lit ''image'')), (lit ''source'', J_obj source)]"

text \<open>\<open>data:<media type>;base64,<data>\<close>, or an address.\<close>

definition imagePart :: "utext \<Rightarrow> jvalue option" where
  "imagePart url =
     (let body = drop 5 url; media = takeWhile (\<lambda>c. c \<noteq> 59 \<and> c \<noteq> 44) body; rest = drop (length media) body
      in if has_prefix url (lit ''data:'') \<and> media \<noteq> [] \<and> has_prefix rest (lit '';base64,'') \<and> length rest > 8
         then Some (image_of [(lit ''type'', J_str (lit ''base64'')), (lit ''media_type'', J_str media), (lit ''data'', J_str (drop 8 rest))])
         else if has_prefix url (lit ''http://'') \<or> has_prefix url (lit ''https://'')
         then Some (image_of [(lit ''type'', J_str (lit ''url'')), (lit ''url'', J_str url)])
         else None)"

definition contentPart :: "jvalue \<Rightarrow> jvalue option" where
  "contentPart p =
     (let ty = str_of (jprop (Some p) ''type'')
      in if ty = Some (lit ''input_text'') \<or> ty = Some (lit ''output_text'') \<or> ty = Some (lit ''text'') then
           (case str_of (jprop (Some p) ''text'') of Some (c # t) \<Rightarrow> Some (textPart (c # t)) | _ \<Rightarrow> None)
         else if ty = Some (lit ''refusal'') then map_option textPart (str_of (jprop (Some p) ''refusal''))
         else if ty = Some (lit ''input_image'') then
           (case (case str_of (jprop (Some p) ''image_url'') of Some u \<Rightarrow> Some u | None \<Rightarrow> str_of (jprop (jprop (Some p) ''image_url'') ''url'')) of
              Some u \<Rightarrow> imagePart u
            | None \<Rightarrow> None)
         else None)"

definition contentParts :: "jvalue option \<Rightarrow> jvalue list" where
  "contentParts content =
     (case content of
        Some (J_str t) \<Rightarrow> (if t \<noteq> [] then [textPart t] else [])
      | Some (J_arr ps) \<Rightarrow> List.map_filter contentPart ps
      | _ \<Rightarrow> [])"

definition part_text :: "jvalue \<Rightarrow> utext option" where
  "part_text p = (if str_of (jprop (Some p) ''type'') = Some (lit ''text'') then str_of (jprop (Some p) ''text'') else None)"

definition toolOutput :: "(jvalue \<Rightarrow> utext) \<Rightarrow> jvalue option \<Rightarrow> jvalue" where
  "toolOutput json_print output =
     (case output of
        None \<Rightarrow> J_str []
      | Some J_null \<Rightarrow> J_str []
      | Some (J_str t) \<Rightarrow> J_str t
      | Some (J_arr ps) \<Rightarrow>
          (let parts = contentParts output
           in if list_all (\<lambda>p. part_text p \<noteq> None) parts then J_str (concat (List.map_filter part_text parts)) else J_arr parts)
      | Some v \<Rightarrow> J_str (json_print v))"

definition parseArguments :: "(utext \<Rightarrow> jvalue option) \<Rightarrow> jvalue option \<Rightarrow> jvalue" where
  "parseArguments json_parse args =
     (case args of
        Some (J_str t) \<Rightarrow> (if text_trim t = [] then J_obj [] else case json_parse t of Some (J_obj m) \<Rightarrow> J_obj m | _ \<Rightarrow> J_obj [])
      | _ \<Rightarrow> J_obj [])"

section \<open>Tools\<close>

definition function_tool :: "jvalue \<Rightarrow> jvalue option" where
  "function_tool t =
     (case str_of (jprop (Some t) ''name'') of
        Some (c # n) \<Rightarrow>
          Some (J_obj ([(lit ''name'', J_str (c # n)),
            (lit ''input_schema'', case jprop (Some t) ''parameters'' of
               Some (J_obj p) \<Rightarrow> J_obj p
             | Some (J_arr p) \<Rightarrow> J_arr p
             | _ \<Rightarrow> J_obj [(lit ''type'', J_str (lit ''object'')), (lit ''properties'', J_obj [])])]
           @ (case str_of (jprop (Some t) ''description'') of Some d \<Rightarrow> [(lit ''description'', J_str d)] | None \<Rightarrow> [])))
      | _ \<Rightarrow> None)"

function add_tools :: "jvalue \<Rightarrow> jvalue list" where
  "add_tools t =
     (let ty = str_of (jprop (Some t) ''type'')
      in if ty = Some (lit ''function'') then (case function_tool t of Some u \<Rightarrow> [u] | None \<Rightarrow> [])
         else if ty = Some (lit ''namespace'') then
           (case jprop (Some t) ''tools'' of Some (J_arr ts) \<Rightarrow> concat (map add_tools ts) | _ \<Rightarrow> [])
         else [])"
  by pat_completeness auto
termination by (relation "measure size") (auto dest: jprop_list_size)

declare add_tools.simps [simp del]

definition translateTools :: "jvalue list \<Rightarrow> jvalue list" where
  "translateTools ts = concat (map add_tools ts)"

definition translateToolChoice :: "jvalue option \<Rightarrow> jvalue option \<Rightarrow> jobject option" where
  "translateToolChoice choice par =
     (let kind = (\<lambda>k. Some [(lit ''type'', J_str (lit k))]);
          out = (if choice = None \<or> choice = Some (J_str (lit ''auto'')) then kind ''auto''
                 else if choice = Some (J_str (lit ''required'')) then kind ''any''
                 else if choice = Some (J_str (lit ''none'')) then kind ''none''
                 else (case choice of
                         Some (J_obj c) \<Rightarrow>
                           (case (str_of (map_of c (lit ''type'')), str_of (map_of c (lit ''name''))) of
                              (Some ty, Some n) \<Rightarrow>
                                (if ty = lit ''function'' then Some [(lit ''type'', J_str (lit ''tool'')), (lit ''name'', J_str n)] else kind ''auto'')
                            | _ \<Rightarrow> kind ''auto'')
                       | Some (J_arr _) \<Rightarrow> kind ''auto''
                       | _ \<Rightarrow> None))
      in (case out of
            None \<Rightarrow> None
          | Some c \<Rightarrow>
              (let is = (\<lambda>k. map_of c (lit ''type'') = Some (J_str (lit k)));
                   c1 = (if par = Some (J_bool False) \<and> \<not> is ''none'' then c @ [(lit ''disable_parallel_tool_use'', J_bool True)] else c)
               in if is ''auto'' \<and> c1 = c then None else Some c1)))"

section \<open>The turns\<close>

datatype inbound_error = Model_required | Input_shape | No_content

text \<open>A turn: whether it is the user's, and its parts.\<close>

type_synonym inbound_turn = "bool \<times> jvalue list"

record inbound =
  ib_turns :: "inbound_turn list"
  ib_system :: "utext list"
  ib_tools :: "jvalue list"

definition push_parts :: "bool \<Rightarrow> jvalue list \<Rightarrow> inbound_turn list \<Rightarrow> inbound_turn list" where
  "push_parts user parts ms =
     (if parts = [] then ms
      else if ms \<noteq> [] \<and> fst (last ms) = user then butlast ms @ [(user, snd (last ms) @ parts)]
      else ms @ [(user, parts)])"

definition string_or :: "(jvalue \<Rightarrow> utext) \<Rightarrow> jvalue option \<Rightarrow> utext \<Rightarrow> utext" where
  "string_or str v d = (case v of None \<Rightarrow> d | Some J_null \<Rightarrow> d | Some w \<Rightarrow> js_string str w)"

definition item_kind :: "jvalue \<Rightarrow> utext" where
  "item_kind raw =
     (case str_of (jprop (Some raw) ''type'') of
        Some t \<Rightarrow> t
      | None \<Rightarrow> (if js_truthy (jprop (Some raw) ''role'') then lit ''message'' else []))"

definition is_system_item :: "(jvalue \<Rightarrow> utext) \<Rightarrow> jvalue \<Rightarrow> bool" where
  "is_system_item str raw \<longleftrightarrow>
     item_kind raw = lit ''message'' \<and> string_or str (jprop (Some raw) ''role'') (lit ''user'') \<in> {lit ''system'', lit ''developer''}"

text \<open>What one item says, and who says it.\<close>

definition item_parts :: "(utext \<Rightarrow> jvalue option) \<Rightarrow> (jvalue \<Rightarrow> utext) \<Rightarrow> (jvalue \<Rightarrow> utext) \<Rightarrow> jvalue \<Rightarrow> inbound_turn" where
  "item_parts json_parse json_print str raw =
     (let kind = item_kind raw; get = (\<lambda>k. jprop (Some raw) k)
      in if kind = lit ''message'' then
           (if is_system_item str raw then (True, [])
            else (string_or str (get ''role'') (lit ''user'') \<noteq> lit ''assistant'', contentParts (get ''content'')))
         else if kind = lit ''function_call'' then
           (let name = string_or str (get ''name'') [];
                callId = (if get ''call_id'' = None \<or> get ''call_id'' = Some J_null then string_or str (get ''id'') [] else string_or str (get ''call_id'') [])
            in (False, if name = [] \<or> callId = [] then []
                       else [J_obj [(lit ''type'', J_str (lit ''tool_use'')), (lit ''id'', J_str callId), (lit ''name'', J_str name),
                               (lit ''input'', parseArguments json_parse (get ''arguments''))]]))
         else if kind = lit ''function_call_output'' then
           (let callId = string_or str (get ''call_id'') []
            in (True, if callId = [] then []
                      else [J_obj [(lit ''type'', J_str (lit ''tool_result'')), (lit ''tool_use_id'', J_str callId),
                              (lit ''content'', toolOutput json_print (get ''output''))]]))
         else (True, []))"

definition item_system :: "(jvalue \<Rightarrow> utext) \<Rightarrow> jvalue \<Rightarrow> utext list" where
  "item_system str raw =
     (if is_system_item str raw then
        (let t = join_texts [10] (List.map_filter part_text (contentParts (jprop (Some raw) ''content''))) in if t = [] then [] else [t])
      else [])"

definition item_tools :: "jvalue \<Rightarrow> jvalue list" where
  "item_tools raw =
     (if item_kind raw = lit ''additional_tools'' then (case jprop (Some raw) ''tools'' of Some (J_arr ts) \<Rightarrow> ts | _ \<Rightarrow> []) else [])"

definition take_item :: "(utext \<Rightarrow> jvalue option) \<Rightarrow> (jvalue \<Rightarrow> utext) \<Rightarrow> (jvalue \<Rightarrow> utext) \<Rightarrow> inbound \<Rightarrow> jvalue \<Rightarrow> inbound" where
  "take_item json_parse json_print str s raw =
     (let (user, parts) = item_parts json_parse json_print str raw
      in s\<lparr>ib_turns := push_parts user parts (ib_turns s), ib_system := ib_system s @ item_system str raw, ib_tools := ib_tools s @ item_tools raw\<rparr>)"

definition turn_object :: "inbound_turn \<Rightarrow> jobject" where
  "turn_object m = [(lit ''role'', J_str (lit (if fst m then ''user'' else ''assistant''))), (lit ''content'', J_arr (snd m))]"

definition led_by_user :: "inbound_turn list \<Rightarrow> inbound_turn list" where
  "led_by_user ms = (if ms \<noteq> [] \<and> \<not> fst (hd ms) then (True, [textPart (lit ''(continue)'')]) # ms else ms)"

section \<open>The body\<close>

definition inbound_body :: "jobject \<Rightarrow> utext \<Rightarrow> inbound \<Rightarrow> jobject" where
  "inbound_body req model s =
     (let number = (\<lambda>k. case map_of req (lit k) of Some (J_num n) \<Rightarrow> Some (J_num n) | _ \<Rightarrow> None);
          tools = translateTools ((case map_of req (lit ''tools'') of Some (J_arr ts) \<Rightarrow> ts | _ \<Rightarrow> []) @ ib_tools s);
          choice = translateToolChoice (map_of req (lit ''tool_choice'')) (map_of req (lit ''parallel_tool_calls''));
          effort = (case str_of (jprop (map_of req (lit ''reasoning'')) ''effort'') of
                      None \<Rightarrow> None | Some e \<Rightarrow> map_of (map (\<lambda>(k, v). (lit k, v)) EFFORTS) e)
      in [(lit ''model'', J_str (case effort of None \<Rightarrow> model | Some e \<Rightarrow> model @ [58] @ lit e)),
          (lit ''messages'', J_arr (map (\<lambda>m. J_obj (turn_object m)) (led_by_user (ib_turns s))))]
         @ (if ib_system s = [] then [] else [(lit ''system'', J_str (join_texts [10, 10] (ib_system s)))])
         @ [(lit ''max_tokens'', J_num (case map_of req (lit ''max_output_tokens'') of
               Some (J_num n) \<Rightarrow> (if n > 0 then of_int \<lfloor>n\<rfloor> else DEFAULT_MAX_OUTPUT_TOKENS) | _ \<Rightarrow> DEFAULT_MAX_OUTPUT_TOKENS))]
         @ (if map_of req (lit ''stream'') = Some (J_bool True) then [(lit ''stream'', J_bool True)] else [])
         @ opt_entry ''temperature'' (number ''temperature'') @ opt_entry ''top_p'' (number ''top_p'')
         @ (if tools = [] then [] else (lit ''tools'', J_arr tools) # opt_entry ''tool_choice'' (map_option J_obj choice)))"

definition responsesRequestToAnthropic ::
  "(utext \<Rightarrow> jvalue option) \<Rightarrow> (jvalue \<Rightarrow> utext) \<Rightarrow> (jvalue \<Rightarrow> utext) \<Rightarrow> jobject \<Rightarrow> inbound_error + jobject \<times> bool" where
  "responsesRequestToAnthropic json_parse json_print str req =
     (let model = text_trim (opt_or (str_of (map_of req (lit ''model''))) []);
          stateful = (case map_of req (lit ''previous_response_id'') of None \<Rightarrow> False | Some J_null \<Rightarrow> False | Some _ \<Rightarrow> True);
          instructions = (case str_of (map_of req (lit ''instructions'')) of Some (c # t) \<Rightarrow> [c # t] | _ \<Rightarrow> []);
          start = \<lparr>ib_turns = [], ib_system = instructions, ib_tools = []\<rparr>
      in if model = [] then Inl Model_required
         else (case (case map_of req (lit ''input'') of
                       Some (J_str t) \<Rightarrow> Some (start\<lparr>ib_turns := push_parts True [textPart t] []\<rparr>)
                     | Some (J_arr items) \<Rightarrow> Some (foldl (take_item json_parse json_print str) start items)
                     | _ \<Rightarrow> None) of
                 None \<Rightarrow> Inl Input_shape
               | Some s \<Rightarrow> (if ib_turns s = [] then Inl No_content else Inr (inbound_body req model s, stateful))))"

section \<open>The turns alternate and nothing is lost\<close>

definition alternate :: "inbound_turn list \<Rightarrow> bool" where
  "alternate ms \<longleftrightarrow> list_all (\<lambda>m. snd m \<noteq> []) ms \<and> successively (\<lambda>m n. fst m \<noteq> fst n) ms"

text \<open>Who says what, in order.\<close>

definition spoken_parts :: "inbound_turn list \<Rightarrow> (bool \<times> jvalue) list" where
  "spoken_parts ms = concat (map (\<lambda>m. map (Pair (fst m)) (snd m)) ms)"

lemma spoken_simps [simp]:
  "spoken_parts [] = []" "spoken_parts (m # ms) = map (Pair (fst m)) (snd m) @ spoken_parts ms"
  "spoken_parts (ms @ ns) = spoken_parts ms @ spoken_parts ns"
  by (simp_all add: spoken_parts_def)

lemma push_spoken [simp]: "spoken_parts (push_parts user parts ms) = spoken_parts ms @ map (Pair user) parts"
proof (cases "ms \<noteq> [] \<and> fst (last ms) = user")
  case True
  then have "spoken_parts ms = spoken_parts (butlast ms @ [last ms])" by simp
  then show ?thesis using True by (simp add: push_parts_def del: append_butlast_last_id)
qed (auto simp: push_parts_def)

lemma push_alternate: "alternate ms \<Longrightarrow> alternate (push_parts user parts ms)"
  by (cases ms rule: rev_cases) (auto simp: alternate_def push_parts_def successively_append_iff)

lemma taken_turns:
  "alternate (ib_turns s) \<Longrightarrow> alternate (ib_turns (foldl (take_item jp js str) s items))
     \<and> spoken_parts (ib_turns (foldl (take_item jp js str) s items)) =
         spoken_parts (ib_turns s) @ concat (map (\<lambda>raw. map (Pair (fst (item_parts jp js str raw))) (snd (item_parts jp js str raw))) items)"
  by (induction items arbitrary: s) (simp_all add: take_item_def split_def Let_def push_alternate)

lemma last_turn_kept: "ms \<noteq> [] \<Longrightarrow> alternate ms \<Longrightarrow> \<exists>p ps. spoken_parts ms = (fst (hd ms), p) # ps"
  by (cases ms; cases "snd (hd ms)") (auto simp: alternate_def)

lemma led_alternate: "alternate ms \<Longrightarrow> alternate (led_by_user ms)"
  by (cases ms) (auto simp: alternate_def led_by_user_def)

lemma led_starts: "ms \<noteq> [] \<Longrightarrow> led_by_user ms \<noteq> [] \<and> fst (hd (led_by_user ms))"
  by (auto simp: led_by_user_def)

text \<open>The user's word put before a conversation that the assistant opens.\<close>

definition said_first :: "(bool \<times> jvalue) list \<Rightarrow> (bool \<times> jvalue) list" where
  "said_first said = (case said of (False, _) # _ \<Rightarrow> (True, textPart (lit ''(continue)'')) # said | _ \<Rightarrow> said)"

lemma led_spoken: "alternate ms \<Longrightarrow> spoken_parts (led_by_user ms) = said_first (spoken_parts ms)"
proof (cases "ms = []")
  case False
  assume "alternate ms"
  then obtain p ps where "spoken_parts ms = (fst (hd ms), p) # ps" using last_turn_kept False by blast
  with False show ?thesis by (cases "fst (hd ms)") (auto simp: led_by_user_def said_first_def)
qed (simp add: led_by_user_def said_first_def)

text \<open>What an item says.\<close>

definition item_said :: "(utext \<Rightarrow> jvalue option) \<Rightarrow> (jvalue \<Rightarrow> utext) \<Rightarrow> (jvalue \<Rightarrow> utext) \<Rightarrow> jvalue \<Rightarrow> (bool \<times> jvalue) list" where
  "item_said jp js str raw = (let (user, parts) = item_parts jp js str raw in map (Pair user) parts)"

lemma started_turns:
  assumes "s = foldl (take_item jp js str) \<lparr>ib_turns = [], ib_system = sys, ib_tools = []\<rparr> items"
  shows "alternate (ib_turns s) \<and> spoken_parts (ib_turns s) = concat (map (item_said jp js str) items)"
proof -
  have "(\<lambda>raw. map (Pair (fst (item_parts jp js str raw))) (snd (item_parts jp js str raw))) = item_said jp js str"
    by (simp add: fun_eq_iff item_said_def split_def Let_def)
  then show ?thesis
    using taken_turns [of "\<lparr>ib_turns = [], ib_system = sys, ib_tools = []\<rparr>" jp js str items]
    by (simp add: assms alternate_def)
qed

lemma inbound_body_turns: "turns_of (inbound_body req model s) = map turn_object (led_by_user (ib_turns s))"
proof -
  have "List.map_filter (\<lambda>m. case m of J_obj o' \<Rightarrow> Some o' | _ \<Rightarrow> None) (map (\<lambda>m. J_obj (turn_object m)) ms) = map turn_object ms" for ms
    by (induction ms) (simp_all add: List.map_filter_def)
  then show ?thesis by (simp add: turns_of_def inbound_body_def Let_def)
qed

lemma inbound_items:
  assumes "map_of req (lit ''input'') = Some (J_arr items)" and "responsesRequestToAnthropic jp js str req = Inr (body, stateful)"
  obtains model sys s where "body = inbound_body req model s" and "ib_turns s \<noteq> []"
    and "s = foldl (take_item jp js str) \<lparr>ib_turns = [], ib_system = sys, ib_tools = []\<rparr> items"
  using assms unfolding responsesRequestToAnthropic_def Let_def by (auto split: if_splits)

section \<open>What a client says\<close>

text \<open>
  The items a client sends, as the Responses API has them, apart from how the translation reads them: which object is
  which item (\<open>part_reads\<close>, \<open>item_reads\<close>; other keys may stand beside), and the block of a Messages body that says
  the same (\<open>part_says\<close>, \<open>client_says\<close>).
\<close>

datatype client_part =
    Client_text utext
  | Client_refusal utext
  | Client_image_data utext utext
  | Client_image_url utext
  | Client_unserved

definition typed_as :: "jvalue \<Rightarrow> string \<Rightarrow> bool" where
  "typed_as v t \<longleftrightarrow> str_of (jprop (Some v) ''type'') = Some (lit t)"

definition holds_text :: "jvalue \<Rightarrow> string \<Rightarrow> utext \<Rightarrow> bool" where
  "holds_text v k t \<longleftrightarrow> jprop (Some v) k = Some (J_str t)"

definition is_address :: "utext \<Rightarrow> bool" where
  "is_address u \<longleftrightarrow> has_prefix u (lit ''http://'') \<or> has_prefix u (lit ''https://'')"

fun part_reads :: "jvalue \<Rightarrow> client_part \<Rightarrow> bool" where
  "part_reads p (Client_text t) \<longleftrightarrow>
     (typed_as p ''input_text'' \<or> typed_as p ''output_text'' \<or> typed_as p ''text'') \<and> holds_text p ''text'' t"
| "part_reads p (Client_refusal t) \<longleftrightarrow> typed_as p ''refusal'' \<and> holds_text p ''refusal'' t"
| "part_reads p (Client_image_data media payload) \<longleftrightarrow>
     typed_as p ''input_image'' \<and> holds_text p ''image_url'' (lit ''data:'' @ media @ lit '';base64,'' @ payload)
     \<and> media \<noteq> [] \<and> 59 \<notin> set media \<and> 44 \<notin> set media \<and> payload \<noteq> []"
| "part_reads p (Client_image_url u) \<longleftrightarrow> typed_as p ''input_image'' \<and> holds_text p ''image_url'' u \<and> is_address u"
| "part_reads p Client_unserved \<longleftrightarrow>
     \<not> list_ex (typed_as p) [''input_text'', ''output_text'', ''text'', ''refusal'', ''input_image'']"

fun part_says :: "client_part \<Rightarrow> jvalue list" where
  "part_says (Client_text t) =
     (if t = [] then [] else [J_obj [(lit ''type'', J_str (lit ''text'')), (lit ''text'', J_str t)]])"
| "part_says (Client_refusal t) = [J_obj [(lit ''type'', J_str (lit ''text'')), (lit ''text'', J_str t)]]"
| "part_says (Client_image_data media payload) =
     [J_obj [(lit ''type'', J_str (lit ''image'')), (lit ''source'', J_obj [(lit ''type'', J_str (lit ''base64'')),
        (lit ''media_type'', J_str media), (lit ''data'', J_str payload)])]]"
| "part_says (Client_image_url u) =
     [J_obj [(lit ''type'', J_str (lit ''image'')), (lit ''source'', J_obj [(lit ''type'', J_str (lit ''url'')), (lit ''url'', J_str u)])]]"
| "part_says Client_unserved = []"

text \<open>The words of a part; a picture has none.\<close>

fun part_words :: "client_part \<Rightarrow> utext option" where
  "part_words (Client_text t) = Some t"
| "part_words (Client_refusal t) = Some t"
| "part_words Client_unserved = Some []"
| "part_words _ = None"

datatype client_item =
    Client_message utext "client_part list"
  | Client_call utext utext jobject
  | Client_result utext "client_part list"
  | Client_silent

text \<open>Content is a text, or parts.\<close>

definition content_reads :: "jvalue option \<Rightarrow> client_part list \<Rightarrow> bool" where
  "content_reads content ps \<longleftrightarrow>
     (case content of
        Some (J_str t) \<Rightarrow> ps = [Client_text t]
      | Some (J_arr vs) \<Rightarrow> list_all2 part_reads vs ps
      | _ \<Rightarrow> False)"

text \<open>The object a call's arguments spell; blank arguments, or a text that is no object, are the empty one.\<close>

definition spells :: "(utext \<Rightarrow> jvalue option) \<Rightarrow> utext \<Rightarrow> jobject \<Rightarrow> bool" where
  "spells json_parse t m \<longleftrightarrow>
     (if text_trim t \<noteq> [] \<and> is_object (json_parse t) then json_parse t = Some (J_obj m) else m = [])"

fun item_reads :: "(utext \<Rightarrow> jvalue option) \<Rightarrow> jvalue \<Rightarrow> client_item \<Rightarrow> bool" where
  "item_reads json_parse raw (Client_message role ps) \<longleftrightarrow>
     (typed_as raw ''message'' \<or> str_of (jprop (Some raw) ''type'') = None \<and> role \<noteq> [])
     \<and> holds_text raw ''role'' role \<and> content_reads (jprop (Some raw) ''content'') ps"
| "item_reads json_parse raw (Client_call cid name m) \<longleftrightarrow>
     typed_as raw ''function_call'' \<and> holds_text raw ''call_id'' cid \<and> cid \<noteq> [] \<and> holds_text raw ''name'' name \<and> name \<noteq> []
     \<and> (case jprop (Some raw) ''arguments'' of Some (J_str t) \<Rightarrow> spells json_parse t m | _ \<Rightarrow> False)"
| "item_reads json_parse raw (Client_result cid ps) \<longleftrightarrow>
     typed_as raw ''function_call_output'' \<and> holds_text raw ''call_id'' cid \<and> cid \<noteq> [] \<and> content_reads (jprop (Some raw) ''output'') ps"
| "item_reads json_parse raw Client_silent \<longleftrightarrow>
     str_of (jprop (Some raw) ''type'') \<noteq> None \<and> \<not> list_ex (typed_as raw) [''message'', ''function_call'', ''function_call_output'']"

fun client_says :: "client_item \<Rightarrow> (bool \<times> jvalue) list" where
  "client_says (Client_message role ps) =
     (if role = lit ''system'' \<or> role = lit ''developer'' then []
      else map (Pair (role \<noteq> lit ''assistant'')) (concat (map part_says ps)))"
| "client_says (Client_call cid name m) =
     [(False, J_obj [(lit ''type'', J_str (lit ''tool_use'')), (lit ''id'', J_str cid), (lit ''name'', J_str name), (lit ''input'', J_obj m)])]"
| "client_says (Client_result cid ps) =
     [(True, J_obj [(lit ''type'', J_str (lit ''tool_result'')), (lit ''tool_use_id'', J_str cid),
        (lit ''content'', if list_all (\<lambda>p. part_words p \<noteq> None) ps then J_str (concat (List.map_filter part_words ps))
                         else J_arr (concat (map part_says ps)))])]"
| "client_says Client_silent = []"

text \<open>An item speaks from one side, and an item of the API says what it says.\<close>

definition item_tells :: "(utext \<Rightarrow> jvalue option) \<Rightarrow> jvalue \<Rightarrow> (bool \<times> jvalue) list \<Rightarrow> bool" where
  "item_tells json_parse raw us \<longleftrightarrow>
     (\<exists>side. list_all (\<lambda>u. fst u = side) us) \<and> (\<forall>ci. item_reads json_parse raw ci \<longrightarrow> us = client_says ci)"

lemmas text_evals = str_of_def typed_as_def holds_text_def

lemma read_image_data:
  assumes "media \<noteq> []" and "59 \<notin> set media" and "44 \<notin> set media" and "payload \<noteq> []"
  shows "imagePart (lit ''data:'' @ media @ lit '';base64,'' @ payload)
     = Some (image_of [(lit ''type'', J_str (lit ''base64'')), (lit ''media_type'', J_str media), (lit ''data'', J_str payload)])"
proof -
  have "takeWhile (\<lambda>c. c \<noteq> 59 \<and> c \<noteq> 44) (media @ lit '';base64,'' @ payload) = media"
    using assms(2,3) by (subst takeWhile_append2) (auto simp: lit_def)
  then show ?thesis using assms(1,4) by (simp add: imagePart_def Let_def lit_def has_prefix_def)
qed

lemma read_address:
  assumes "is_address u"
  shows "imagePart u = Some (image_of [(lit ''type'', J_str (lit ''url'')), (lit ''url'', J_str u)])"
proof -
  have "hd u = 104" using assms by (cases u) (auto simp: is_address_def lit_def has_prefix_def)
  then have "\<not> has_prefix u (lit ''data:'')" by (cases u) (auto simp: lit_def has_prefix_def)
  then show ?thesis using assms by (auto simp: is_address_def imagePart_def Let_def)
qed

lemma part_translated: "part_reads p cp \<Longrightarrow> (case contentPart p of None \<Rightarrow> [] | Some v \<Rightarrow> [v]) = part_says cp"
  by (cases cp)
    (auto simp: contentPart_def text_evals textPart_def read_image_data read_address image_of_def Let_def split: list.split)

lemma parts_translated: "list_all2 part_reads vs ps \<Longrightarrow> List.map_filter contentPart vs = concat (map part_says ps)"
proof (induction rule: list_all2_induct)
  case (Cons v vs p ps)
  then show ?case using part_translated [of v p] by (auto simp: List.map_filter_def split: option.splits)
qed (simp add: List.map_filter_def)

lemma content_translated: "content_reads content ps \<Longrightarrow> contentParts content = concat (map part_says ps)"
  by (auto simp: content_reads_def contentParts_def parts_translated textPart_def split: option.splits jvalue.splits)

text \<open>A tool's output: its words, or its parts where a picture is among them.\<close>

lemma part_says_words:
  "list_all (\<lambda>v. part_text v \<noteq> None) (part_says p) \<longleftrightarrow> part_words p \<noteq> None"
  "part_words p = Some t \<Longrightarrow> concat (List.map_filter part_text (part_says p)) = t"
  by (cases p; auto simp: part_text_def text_evals List.map_filter_def jprop_def)+

lemma all_words: "list_all (\<lambda>v. part_text v \<noteq> None) (concat (map part_says ps)) \<longleftrightarrow> list_all (\<lambda>p. part_words p \<noteq> None) ps"
  by (induction ps) (simp_all add: part_says_words(1) del: not_None_eq)

lemma map_filter_app: "List.map_filter f (xs @ ys) = List.map_filter f xs @ List.map_filter f ys"
  by (simp add: List.map_filter_def)

lemma words_joined:
  "list_all (\<lambda>p. part_words p \<noteq> None) ps
     \<Longrightarrow> concat (List.map_filter part_text (concat (map part_says ps))) = concat (List.map_filter part_words ps)"
proof (induction ps)
  case (Cons p ps)
  then obtain t where "part_words p = Some t" by auto
  with Cons part_says_words(2) [OF this] show ?case by (simp add: map_filter_app map_filter_simps)
qed (simp add: List.map_filter_def)

lemma output_translated:
  assumes "content_reads output ps"
  shows "toolOutput js output
     = (if list_all (\<lambda>p. part_words p \<noteq> None) ps then J_str (concat (List.map_filter part_words ps)) else J_arr (concat (map part_says ps)))"
proof (cases "\<exists>t. output = Some (J_str t)")
  case True
  then show ?thesis using assms by (auto simp: content_reads_def toolOutput_def List.map_filter_def)
next
  case False
  then obtain vs where v: "output = Some (J_arr vs)"
    using assms by (auto simp: content_reads_def split: option.splits jvalue.splits)
  show ?thesis using content_translated [OF assms] by (simp add: v toolOutput_def Let_def all_words words_joined del: not_None_eq)
qed

lemma spelled: "spells jp t m \<Longrightarrow> parseArguments jp (Some (J_str t)) = J_obj m"
  by (auto simp: spells_def parseArguments_def is_object_def split: if_splits option.splits jvalue.splits)

lemma said_string [simp]: "string_or str (Some (J_str t)) d = t"
  by (simp add: string_or_def js_string_def)

lemma kind_named: "typed_as raw t \<Longrightarrow> item_kind raw = lit t"
  by (simp add: item_kind_def typed_as_def)

lemma message_read:
  assumes "item_reads jp raw (Client_message role ps)"
  shows "item_said jp js str raw = client_says (Client_message role ps)"
proof -
  have k: "item_kind raw = lit ''message''" "jprop (Some raw) ''role'' = Some (J_str role)"
    using assms by (auto simp: item_kind_def typed_as_def holds_text_def js_truthy_def)
  have c: "contentParts (jprop (Some raw) ''content'') = concat (map part_says ps)"
    using assms content_translated by simp
  show ?thesis by (simp add: item_said_def item_parts_def is_system_item_def k c Let_def)
qed

lemma call_read:
  assumes "item_reads jp raw (Client_call cid name m)"
  shows "item_said jp js str raw = client_says (Client_call cid name m)"
proof -
  obtain t where t: "jprop (Some raw) ''arguments'' = Some (J_str t)" "spells jp t m"
    using assms by (auto split: option.splits jvalue.splits)
  have k: "item_kind raw = lit ''function_call''" "jprop (Some raw) ''call_id'' = Some (J_str cid)" "cid \<noteq> []"
      "jprop (Some raw) ''name'' = Some (J_str name)" "name \<noteq> []"
    using assms by (auto simp: kind_named holds_text_def)
  show ?thesis by (simp add: item_said_def item_parts_def k t spelled Let_def)
qed

lemma result_read:
  assumes "item_reads jp raw (Client_result cid ps)"
  shows "item_said jp js str raw = client_says (Client_result cid ps)"
proof -
  have k: "item_kind raw = lit ''function_call_output''" "jprop (Some raw) ''call_id'' = Some (J_str cid)" "cid \<noteq> []"
    using assms by (auto simp: kind_named holds_text_def)
  have "content_reads (jprop (Some raw) ''output'') ps" using assms by simp
  from output_translated [OF this] show ?thesis by (simp add: item_said_def item_parts_def k Let_def)
qed

lemma silent_read:
  assumes "item_reads jp raw Client_silent"
  shows "item_said jp js str raw = []"
proof -
  obtain t where t: "str_of (jprop (Some raw) ''type'') = Some t" "t \<noteq> lit ''message''" "t \<noteq> lit ''function_call''"
      "t \<noteq> lit ''function_call_output''"
    using assms by (auto simp: typed_as_def)
  then have "item_kind raw = t" by (simp add: item_kind_def)
  with t show ?thesis by (simp add: item_said_def item_parts_def Let_def)
qed

lemma item_read: "item_reads jp raw ci \<Longrightarrow> item_said jp js str raw = client_says ci"
  using message_read call_read result_read silent_read by (cases ci) auto

lemma item_said_tells: "item_tells jp raw (item_said jp js str raw)"
  unfolding item_tells_def
proof (intro conjI allI impI)
  show "\<exists>side. list_all (\<lambda>u. fst u = side) (item_said jp js str raw)"
    by (rule exI [of _ "fst (item_parts jp js str raw)"]) (simp add: item_said_def split_def Let_def list_all_iff)
qed (rule item_read)

lemma inbound_spoken:
  assumes "map_of req (lit ''input'') = Some (J_arr items)" and "responsesRequestToAnthropic jp js str req = Inr (body, stateful)"
  shows "\<exists>ms. turns_of body = map turn_object ms \<and> ms \<noteq> [] \<and> fst (hd ms) \<and> alternate ms
           \<and> spoken_parts ms = said_first (concat (map (item_said jp js str) items))"
proof -
  obtain model sys s where b: "body = inbound_body req model s" and ne: "ib_turns s \<noteq> []"
    and s: "s = foldl (take_item jp js str) \<lparr>ib_turns = [], ib_system = sys, ib_tools = []\<rparr> items"
    by (rule inbound_items [OF assms])
  have t: "alternate (ib_turns s)" "spoken_parts (ib_turns s) = concat (map (item_said jp js str) items)"
    using started_turns [OF s] by simp_all
  show ?thesis
    by (rule exI [of _ "led_by_user (ib_turns s)"])
      (use led_starts [OF ne] led_alternate [OF t(1)] led_spoken [OF t(1)] t(2) in \<open>simp add: b inbound_body_turns\<close>)
qed

text \<open>
  C17. The conversation a Responses client sends arrives whole. The turns of the Messages body alternate, begin with
  the user's and none is empty; read off turn by turn they hold what the items say, in the order of the items and
  each from its own side, after one word of the user where the assistant would have opened. A message, whether its
  content is a text or parts, says its texts and refusals as text blocks and its pictures, as data or by address, as
  image blocks; a call says a call with its id, its name and the object its arguments spell; a tool's output says a
  result under the call's id with the words of the output, or its parts where a picture is among them; reasoning and
  the other kinds say nothing, and the words of the system go elsewhere.
\<close>

theorem inbound_turns:
  assumes "map_of req (lit ''input'') = Some (J_arr items)" and "responsesRequestToAnthropic jp js str req = Inr (body, stateful)"
  shows "\<exists>ms uss. turns_of body = map turn_object ms \<and> ms \<noteq> [] \<and> fst (hd ms) \<and> alternate ms
           \<and> spoken_parts ms = said_first (concat uss) \<and> list_all2 (item_tells jp) items uss"
proof -
  have "list_all2 (item_tells jp) items (map (item_said jp js str) items)"
    by (simp add: list_all2_conv_all_nth item_said_tells)
  then show ?thesis using inbound_spoken [OF assms] by blast
qed

definition sample_item :: "(string \<times> string) list \<Rightarrow> jvalue" where
  "sample_item kvs = J_obj (map (\<lambda>(k, v). (lit k, J_str (lit v))) kvs)"

definition sample_input :: jobject where
  "sample_input =
     [(lit ''model'', jtext ''m''),
      (lit ''input'', J_arr [sample_item [(''type'', ''function_call''), (''name'', ''f''), (''call_id'', ''c''), (''arguments'', ''{n:1}'')],
         sample_item [(''type'', ''function_call_output''), (''call_id'', ''c''), (''output'', ''o'')],
         sample_item [(''role'', ''user''), (''content'', ''go'')]])]"

definition sample_client :: "client_item list" where
  "sample_client = [Client_call (lit ''c'') (lit ''f'') [(lit ''n'', J_num 1)], Client_result (lit ''c'') [Client_text (lit ''o'')],
     Client_message (lit ''user'') [Client_text (lit ''go'')]]"

definition sample_parse :: "utext \<Rightarrow> jvalue option" where
  "sample_parse t = (if t = lit ''{n:1}'' then Some (J_obj [(lit ''n'', J_num 1)]) else None)"

theorem inbound_turns_witness:
  "\<exists>body ms. responsesRequestToAnthropic sample_parse (\<lambda>_. []) (\<lambda>_. []) sample_input = Inr (body, False)
     \<and> turns_of body = map turn_object ms \<and> alternate ms
     \<and> spoken_parts ms = (True, textPart (lit ''(continue)'')) # concat (map client_says sample_client)"
proof -
  let ?call = "sample_item [(''type'', ''function_call''), (''name'', ''f''), (''call_id'', ''c''), (''arguments'', ''{n:1}'')]"
  let ?output = "sample_item [(''type'', ''function_call_output''), (''call_id'', ''c''), (''output'', ''o'')]"
  let ?message = "sample_item [(''role'', ''user''), (''content'', ''go'')]"
  have i: "map_of sample_input (lit ''input'') = Some (J_arr [?call, ?output, ?message])" by code_simp
  have "isl (responsesRequestToAnthropic sample_parse (\<lambda>_. []) (\<lambda>_. []) sample_input) = False
      \<and> snd (projr (responsesRequestToAnthropic sample_parse (\<lambda>_. []) (\<lambda>_. []) sample_input)) = False" by code_simp
  then obtain body where b: "responsesRequestToAnthropic sample_parse (\<lambda>_. []) (\<lambda>_. []) sample_input = Inr (body, False)"
    by (cases "responsesRequestToAnthropic sample_parse (\<lambda>_. []) (\<lambda>_. []) sample_input") auto
  have reads: "item_reads sample_parse ?call (sample_client ! 0)" "item_reads sample_parse ?output (sample_client ! 1)"
      "item_reads sample_parse ?message (sample_client ! 2)" by code_simp+
  obtain ms uss where m: "turns_of body = map turn_object ms" "alternate ms" "spoken_parts ms = said_first (concat uss)"
      "list_all2 (item_tells sample_parse) [?call, ?output, ?message] uss"
    using inbound_turns [OF i b] by blast
  then obtain u v w where u: "uss = [u, v, w]" "item_tells sample_parse ?call u" "item_tells sample_parse ?output v" "item_tells sample_parse ?message w"
    by (auto simp: list_all2_Cons1)
  have "uss = map client_says sample_client"
    using u reads unfolding item_tells_def by (simp add: sample_client_def)
  then have "spoken_parts ms = (True, textPart (lit ''(continue)'')) # concat (map client_says sample_client)"
    using m(3) by (simp add: sample_client_def said_first_def)
  with b m show ?thesis by blast
qed

end
