(* ===== verification/Inbound_Stream.thy ===== *)
theory Inbound_Stream
  imports Inbound_Request
begin

text \<open>
  The way back to a Responses client (\<open>responses-inbound.ts\<close>): a buffered Messages answer as a response object,
  its errors as the client's envelope, the event stream translated frame by frame, and the write boundary that
  picks between them. \<open>JSON.parse\<close>, \<open>JSON.stringify\<close>, \<open>String\<close> of values that are no text, the clock and the
  random id are arguments; the counters of \<open>usage\<close> are numbers.
\<close>

section \<open>A buffered answer\<close>

definition obj :: "(string \<times> jvalue) list \<Rightarrow> jvalue" where "obj kvs = J_obj (named kvs)"

definition nullish :: "jvalue option \<Rightarrow> jvalue \<Rightarrow> jvalue" where
  "nullish v d = (case v of None \<Rightarrow> d | Some J_null \<Rightarrow> d | Some w \<Rightarrow> w)"

definition as_object :: "jvalue option \<Rightarrow> jobject" where
  "as_object v = (case v of Some (J_obj o') \<Rightarrow> o' | _ \<Rightarrow> [])"

text \<open>\<open>{ ...o, k: v }\<close> and \<open>{ ...o, ...u }\<close>.\<close>

definition with_field :: "string \<Rightarrow> jvalue \<Rightarrow> jobject \<Rightarrow> jobject" where
  "with_field k v o' = AList.update (lit k) v o'"

definition spread :: "jobject \<Rightarrow> jobject \<Rightarrow> jobject" where
  "spread o' u = foldl (\<lambda>m (k, v). AList.update k v m) o' u"

definition counter :: "jobject \<Rightarrow> string \<Rightarrow> rat" where
  "counter u k = (case map_of u (lit k) of Some (J_num n) \<Rightarrow> n | _ \<Rightarrow> 0)"

definition responsesUsage :: "jobject \<Rightarrow> jvalue" where
  "responsesUsage u =
     (let cached = counter u ''cache_read_input_tokens'';
          inp = counter u ''input_tokens'' + cached + counter u ''cache_creation_input_tokens'';
          output = counter u ''output_tokens''
      in obj [(''input_tokens'', J_num inp), (''input_tokens_details'', obj [(''cached_tokens'', J_num cached)]),
              (''output_tokens'', J_num output), (''output_tokens_details'', obj [(''reasoning_tokens'', J_num 0)]),
              (''total_tokens'', J_num (inp + output))])"

definition statusFor :: "jvalue option \<Rightarrow> string \<times> jvalue" where
  "statusFor stop =
     (if stop = Some (J_str (lit ''max_tokens'')) then (''incomplete'', obj [(''reason'', jtext ''max_output_tokens'')])
      else (''completed'', J_null))"

definition responseIdFrom :: "utext \<Rightarrow> jvalue option \<Rightarrow> utext" where
  "responseIdFrom fresh mid =
     lit ''resp_'' @ (case str_of mid of
        Some (c # t) \<Rightarrow> (if has_prefix (c # t) (lit ''msg_'') then drop 4 (c # t) else c # t)
      | _ \<Rightarrow> fresh)"

definition baseResponse :: "utext \<Rightarrow> rat \<Rightarrow> utext \<Rightarrow> jobject" where
  "baseResponse rid created model =
     named [(''id'', J_str rid), (''object'', jtext ''response''), (''created_at'', J_num created), (''status'', jtext ''in_progress''),
            (''error'', J_null), (''incomplete_details'', J_null), (''model'', J_str model), (''output'', J_arr []),
            (''parallel_tool_calls'', J_bool True), (''tool_choice'', jtext ''auto''), (''tools'', J_arr []),
            (''store'', J_bool False), (''usage'', J_null)]"

text \<open>An item of the output.\<close>

datatype out_kind = O_message | O_function_call | O_reasoning

record out_item =
  oi_kind :: out_kind
  oi_id :: utext
  oi_completed :: bool
  oi_callId :: utext
  oi_name :: utext
  oi_arguments :: utext
  oi_text :: "utext option"

definition new_item :: "out_kind \<Rightarrow> utext \<Rightarrow> out_item" where
  "new_item k i = \<lparr>oi_kind = k, oi_id = i, oi_completed = False, oi_callId = [], oi_name = [], oi_arguments = [], oi_text = None\<rparr>"

definition text_part :: "utext \<Rightarrow> jvalue" where
  "text_part t = obj [(''type'', jtext ''output_text''), (''text'', J_str t), (''annotations'', J_arr [])]"

definition summary_part :: "utext \<Rightarrow> jvalue" where
  "summary_part t = obj [(''type'', jtext ''summary_text''), (''text'', J_str t)]"

definition item_json :: "out_item \<Rightarrow> jvalue" where
  "item_json i =
     (let status = (''status'', jtext (if oi_completed i then ''completed'' else ''in_progress''))
      in case oi_kind i of
           O_message \<Rightarrow> obj [(''id'', J_str (oi_id i)), (''type'', jtext ''message''), status, (''role'', jtext ''assistant''),
             (''content'', J_arr (case oi_text i of None \<Rightarrow> [] | Some t \<Rightarrow> [text_part t]))]
         | O_function_call \<Rightarrow> obj [(''id'', J_str (oi_id i)), (''type'', jtext ''function_call''), status,
             (''call_id'', J_str (oi_callId i)), (''name'', J_str (oi_name i)), (''arguments'', J_str (oi_arguments i))]
         | O_reasoning \<Rightarrow> obj [(''id'', J_str (oi_id i)), (''type'', jtext ''reasoning''),
             (''summary'', J_arr (case oi_text i of None \<Rightarrow> [] | Some t \<Rightarrow> [summary_part t]))])"

definition item_id :: "string \<Rightarrow> utext \<Rightarrow> nat \<Rightarrow> utext" where
  "item_id tag rid n = lit tag @ drop 5 rid @ [95] @ decimal n"

definition block_item :: "(jvalue \<Rightarrow> utext) \<Rightarrow> (jvalue \<Rightarrow> utext) \<Rightarrow> utext \<Rightarrow> nat \<Rightarrow> jvalue \<Rightarrow> out_item option" where
  "block_item json_print str rid n b =
     (let get = (\<lambda>k. jprop (Some b) k); ty = str_of (get ''type'')
      in if ty = Some (lit ''text'') then
           Some ((new_item O_message (item_id ''msg_'' rid n))\<lparr>oi_completed := True, oi_text := Some (string_or str (get ''text'') [])\<rparr>)
         else if ty = Some (lit ''tool_use'') then
           Some ((new_item O_function_call (item_id ''fc_'' rid n))\<lparr>oi_completed := True, oi_callId := string_or str (get ''id'') [],
                    oi_name := string_or str (get ''name'') [], oi_arguments := json_print (nullish (get ''input'') (J_obj []))\<rparr>)
         else if ty = Some (lit ''thinking'') then
           (let t = opt_or (str_of (get ''thinking'')) []
            in Some ((new_item O_reasoning (item_id ''rs_'' rid n))\<lparr>oi_text := (if t = [] then None else Some t)\<rparr>))
         else None)"

definition block_items :: "(jvalue \<Rightarrow> utext) \<Rightarrow> (jvalue \<Rightarrow> utext) \<Rightarrow> utext \<Rightarrow> nat \<Rightarrow> jvalue list \<Rightarrow> out_item list" where
  "block_items json_print str rid n bs = List.map_filter (\<lambda>(m, b). block_item json_print str rid m b) (List.enumerate n bs)"

definition answer_object :: "utext \<Rightarrow> rat \<Rightarrow> utext \<Rightarrow> out_item list \<Rightarrow> jvalue option \<Rightarrow> jobject \<Rightarrow> jobject" where
  "answer_object rid created model items stop usage =
     (let st = statusFor stop
      in with_field ''usage'' (responsesUsage usage) (with_field ''output'' (J_arr (map item_json items))
           (with_field ''incomplete_details'' (snd st) (with_field ''status'' (jtext (fst st)) (baseResponse rid created model)))))"

text \<open>A block that is \<open>null\<close> throws.\<close>

definition anthropicMessageToResponses ::
  "(jvalue \<Rightarrow> utext) \<Rightarrow> (jvalue \<Rightarrow> utext) \<Rightarrow> utext \<Rightarrow> rat \<Rightarrow> jobject \<Rightarrow> jobject option" where
  "anthropicMessageToResponses json_print str fresh created msg =
     (let rid = responseIdFrom fresh (map_of msg (lit ''id''));
          blocks = (case map_of msg (lit ''content'') of Some (J_arr bs) \<Rightarrow> bs | _ \<Rightarrow> [])
      in if J_null \<in> set blocks then None
         else Some (answer_object rid created (opt_or (str_of (map_of msg (lit ''model''))) []) (block_items json_print str rid 1 blocks)
                      (map_of msg (lit ''stop_reason'')) (as_object (map_of msg (lit ''usage'')))))"

definition error_envelope :: "jvalue \<Rightarrow> jvalue \<Rightarrow> jvalue \<Rightarrow> jobject" where
  "error_envelope message ty code =
     named [(''error'', obj [(''message'', message), (''type'', ty), (''code'', code), (''param'', J_null)])]"

definition anthropicErrorToResponses :: "jobject \<Rightarrow> jobject" where
  "anthropicErrorToResponses body =
     (let e = map_of body (lit ''error'')
      in case str_of e of
           Some t \<Rightarrow> error_envelope (J_str (opt_or (str_of (map_of body (lit ''message''))) t)) (jtext ''api_error'') J_null
         | None \<Rightarrow> error_envelope (nullish (jprop e ''message'') (jtext ''upstream error'')) (nullish (jprop e ''type'') (jtext ''api_error''))
                     (nullish (jprop e ''type'') J_null))"

definition unsupportedOnClaudeError :: "utext \<Rightarrow> jobject" where
  "unsupportedOnClaudeError fld =
     (let why = (if fld = lit ''previous_response_id''
                 then lit ''previous_response_id cannot be served from the Claude pool: dario is stateless there '' @ [8212]
                   @ lit '' send the full input each turn (store: false), or use a ChatGPT-subscription model, which passes the request through to a backend that keeps state''
                 else fld @ lit '' cannot be served from the Claude pool'')
      in named [(''error'', obj [(''message'', J_str why), (''type'', jtext ''invalid_request_error''), (''param'', J_str fld), (''code'', J_null)])])"

section \<open>The stream\<close>

record open_out =
  oo_at :: nat
  oo_kind :: out_kind
  oo_text :: utext
  oo_summary :: bool

record out_stream =
  os_seq :: nat
  os_id :: utext
  os_createdAt :: rat
  os_model :: utext
  os_started :: bool
  os_output :: "out_item list"
  os_open :: "rat \<Rightarrow> open_out option"
  os_usage :: jobject
  os_stop :: "jvalue option"
  os_done :: bool
  os_buf :: utext

definition new_stream :: "rat \<Rightarrow> utext \<Rightarrow> out_stream" where
  "new_stream created model = \<lparr>os_seq = 0, os_id = [], os_createdAt = created, os_model = model, os_started = False, os_output = [],
     os_open = Map.empty, os_usage = [], os_stop = Some J_null, os_done = False, os_buf = []\<rparr>"

text \<open>What is written: a comment as it came, or an event with its number.\<close>

datatype out_piece = Comment utext | Event string nat jobject

definition piece_text :: "(jvalue \<Rightarrow> utext) \<Rightarrow> out_piece \<Rightarrow> utext" where
  "piece_text json_print p =
     (case p of
        Comment raw \<Rightarrow> raw
      | Event ty n payload \<Rightarrow>
          formatFrame json_print (lit ty) (J_obj ([(lit ''type'', jtext ty), (lit ''sequence_number'', J_num (of_nat n))] @ payload)))"

type_synonym sent = "(string \<times> jobject) list"

definition number_events :: "sent \<times> out_stream \<Rightarrow> out_piece list \<times> out_stream" where
  "number_events r =
     (let (es, s) = r
      in (map (\<lambda>(n, ty, payload). Event ty n payload) (List.enumerate (os_seq s) es), s\<lparr>os_seq := os_seq s + length es\<rparr>))"

definition snapshot :: "string \<Rightarrow> out_stream \<Rightarrow> jobject" where
  "snapshot status s =
     with_field ''output'' (J_arr (map item_json (os_output s)))
       (with_field ''status'' (jtext status) (baseResponse (os_id s) (os_createdAt s) (os_model s)))"

definition response_payload :: "jobject \<Rightarrow> jobject" where
  "response_payload r = named [(''response'', J_obj r)]"

definition item_payload :: "nat \<Rightarrow> out_item \<Rightarrow> jobject" where
  "item_payload n i = named [(''output_index'', J_num (of_nat n)), (''item'', item_json i)]"

text \<open>The payload of an event about a part of an item: \<open>sub\<close> is \<open>content_index\<close> or \<open>summary_index\<close>.\<close>

definition part_payload :: "nat \<Rightarrow> out_item \<Rightarrow> string list \<Rightarrow> string \<Rightarrow> jvalue \<Rightarrow> jobject" where
  "part_payload n i sub k v =
     named ([(''item_id'', J_str (oi_id i)), (''output_index'', J_num (of_nat n))] @ map (\<lambda>c. (c, J_num 0)) sub @ [(k, v)])"

definition stream_error :: "jvalue option \<Rightarrow> string \<Rightarrow> string \<Rightarrow> jvalue" where
  "stream_error e k d = nullish (jprop e k) (jtext d)"

definition open_item :: "rat \<Rightarrow> out_item \<Rightarrow> utext \<Rightarrow> out_stream \<Rightarrow> out_stream" where
  "open_item idx i t s =
     s\<lparr>os_output := os_output s @ [i],
       os_open := (os_open s)(idx \<mapsto> \<lparr>oo_at = length (os_output s), oo_kind = oi_kind i, oo_text = t, oo_summary = False\<rparr>)\<rparr>"

definition index_or :: "jobject \<Rightarrow> rat \<Rightarrow> rat" where
  "index_or d v = (case map_of d (lit ''index'') of Some (J_num i) \<Rightarrow> i | _ \<Rightarrow> v)"

definition blockStart :: "(jvalue \<Rightarrow> utext) \<Rightarrow> jobject \<Rightarrow> out_stream \<Rightarrow> sent \<times> out_stream" where
  "blockStart str d s =
     (let idx = index_or d (of_nat (length (os_output s)));
          cb = map_of d (lit ''content_block''); ty = str_of (jprop cb ''type'');
          at_index = length (os_output s); n = at_index + 1
      in if ty = Some (lit ''text'') then
           (let i = new_item O_message (item_id ''msg_'' (os_id s) n)
            in ([(''response.output_item.added'', item_payload at_index i),
                 (''response.content_part.added'', part_payload at_index i [''content_index''] ''part'' (text_part []))],
                open_item idx i (opt_or (str_of (jprop cb ''text'')) []) s))
         else if ty = Some (lit ''tool_use'') then
           (let i = (new_item O_function_call (item_id ''fc_'' (os_id s) n))\<lparr>oi_callId := string_or str (jprop cb ''id'') [], oi_name := string_or str (jprop cb ''name'') []\<rparr>
            in ([(''response.output_item.added'', item_payload at_index i)], open_item idx i [] s))
         else if ty = Some (lit ''thinking'') then
           (let i = new_item O_reasoning (item_id ''rs_'' (os_id s) n)
            in ([(''response.output_item.added'', item_payload at_index i)], open_item idx i [] s))
         else ([], s))"

definition blockDelta :: "jobject \<Rightarrow> out_stream \<Rightarrow> sent \<times> out_stream" where
  "blockDelta d s =
     (let idx = index_or d (-1)
      in case os_open s idx of
           None \<Rightarrow> ([], s)
         | Some b \<Rightarrow>
             (let delta = map_of d (lit ''delta''); ty = str_of (jprop delta ''type''); i = os_output s ! oo_at b;
                  grown = (\<lambda>t sm. s\<lparr>os_open := (os_open s)(idx \<mapsto> b\<lparr>oo_text := oo_text b @ t, oo_summary := sm\<rparr>)\<rparr>)
              in case (oo_kind b, str_of (jprop delta ''text''), str_of (jprop delta ''partial_json''), str_of (jprop delta ''thinking'')) of
                   (O_message, Some t, _, _) \<Rightarrow>
                     (if ty = Some (lit ''text_delta'')
                      then ([(''response.output_text.delta'', part_payload (oo_at b) i [''content_index''] ''delta'' (J_str t))], grown t (oo_summary b))
                      else ([], s))
                 | (O_function_call, _, Some t, _) \<Rightarrow>
                     (if ty = Some (lit ''input_json_delta'')
                      then ([(''response.function_call_arguments.delta'', part_payload (oo_at b) i [] ''delta'' (J_str t))], grown t (oo_summary b))
                      else ([], s))
                 | (O_reasoning, _, _, Some t) \<Rightarrow>
                     (if ty = Some (lit ''thinking_delta'') \<and> t \<noteq> []
                      then ((if oo_summary b then [] else [(''response.reasoning_summary_part.added'', part_payload (oo_at b) i [''summary_index''] ''part'' (summary_part []))])
                            @ [(''response.reasoning_summary_text.delta'', part_payload (oo_at b) i [''summary_index''] ''delta'' (J_str t))], grown t True)
                      else ([], s))
                 | _ \<Rightarrow> ([], s)))"

definition blockStop :: "jobject \<Rightarrow> out_stream \<Rightarrow> sent \<times> out_stream" where
  "blockStop d s =
     (let idx = index_or d (-1)
      in case os_open s idx of
           None \<Rightarrow> ([], s)
         | Some b \<Rightarrow>
             (let n = oo_at b; i = os_output s ! n; t = oo_text b;
                  left = (\<lambda>j. s\<lparr>os_open := (os_open s)(idx := None), os_output := (os_output s)[n := j]\<rparr>)
              in case oo_kind b of
                   O_message \<Rightarrow>
                     (let j = i\<lparr>oi_completed := True, oi_text := Some t\<rparr>
                      in ([(''response.output_text.done'', part_payload n i [''content_index''] ''text'' (J_str t)),
                           (''response.content_part.done'', part_payload n i [''content_index''] ''part'' (text_part t)),
                           (''response.output_item.done'', item_payload n j)], left j))
                 | O_function_call \<Rightarrow>
                     (let args = (if text_trim t = [] then lit ''{}'' else t); j = i\<lparr>oi_completed := True, oi_arguments := args\<rparr>
                      in ([(''response.function_call_arguments.done'', part_payload n i [] ''arguments'' (J_str args)),
                           (''response.output_item.done'', item_payload n j)], left j))
                 | O_reasoning \<Rightarrow>
                     (let j = (if oo_summary b then i\<lparr>oi_text := Some t\<rparr> else i)
                      in ((if oo_summary b
                           then [(''response.reasoning_summary_text.done'', part_payload n i [''summary_index''] ''text'' (J_str t)),
                                 (''response.reasoning_summary_part.done'', part_payload n i [''summary_index''] ''part'' (summary_part t))]
                           else []) @ [(''response.output_item.done'', item_payload n j)], left j))))"

definition data_event :: "(jvalue \<Rightarrow> utext) \<Rightarrow> utext \<Rightarrow> jobject \<Rightarrow> out_stream \<Rightarrow> sent \<times> out_stream" where
  "data_event str fresh d s =
     (let ty = str_of (map_of d (lit ''type''))
      in if ty = Some (lit ''message_start'') then
           (let m = map_of d (lit ''message'');
                s1 = s\<lparr>os_id := responseIdFrom fresh (jprop m ''id''),
                       os_model := (case str_of (jprop m ''model'') of Some (c # t) \<Rightarrow> c # t | _ \<Rightarrow> os_model s),
                       os_usage := as_object (jprop m ''usage''), os_started := True\<rparr>
            in ([(''response.created'', response_payload (snapshot ''in_progress'' s1)),
                 (''response.in_progress'', response_payload (snapshot ''in_progress'' s1))], s1))
         else if ty = Some (lit ''content_block_start'') then blockStart str d s
         else if ty = Some (lit ''content_block_delta'') then blockDelta d s
         else if ty = Some (lit ''content_block_stop'') then blockStop d s
         else if ty = Some (lit ''message_delta'') then
           (let s1 = (case jprop (map_of d (lit ''delta'')) ''stop_reason'' of None \<Rightarrow> s | Some r \<Rightarrow> s\<lparr>os_stop := Some r\<rparr>)
            in ([], s1\<lparr>os_usage := spread (os_usage s1) (as_object (map_of d (lit ''usage'')))\<rparr>))
         else if ty = Some (lit ''message_stop'') then
           (if \<not> os_started s then ([], s)
            else (let st = statusFor (os_stop s)
                  in ([(''response.completed'', response_payload (with_field ''usage'' (responsesUsage (os_usage s))
                         (with_field ''incomplete_details'' (snd st) (snapshot (fst st) s))))], s\<lparr>os_done := True\<rparr>)))
         else if ty = Some (lit ''error'') then
           (let e = map_of d (lit ''error'');
                s1 = (if os_started s then s else s\<lparr>os_id := responseIdFrom fresh None, os_started := True\<rparr>);
                code = stream_error e ''type'' ''server_error''; message = stream_error e ''message'' ''upstream error''
            in ([(''response.failed'', response_payload (with_field ''error'' (obj [(''code'', code), (''message'', message)]) (snapshot ''failed'' s1))),
                 (''error'', named [(''code'', code), (''message'', message), (''param'', J_null)])], s1\<lparr>os_done := True\<rparr>))
         else ([], s))"

definition out_frame_step :: "(jvalue \<Rightarrow> utext) \<Rightarrow> utext \<Rightarrow> sse_frame \<Rightarrow> out_stream \<Rightarrow> out_piece list \<times> out_stream" where
  "out_frame_step str fresh f s =
     (if f_comment f then ([Comment (f_raw f)], s)
      else case f_data f of None \<Rightarrow> ([], s) | Some d \<Rightarrow> number_events (data_event str fresh d s))"

fun out_frames :: "(jvalue \<Rightarrow> utext) \<Rightarrow> utext \<Rightarrow> sse_frame list \<Rightarrow> out_stream \<Rightarrow> out_piece list \<times> out_stream" where
  "out_frames str fresh [] s = ([], s)"
| "out_frames str fresh (f # fs) s =
     (let (ps, s1) = out_frame_step str fresh f s; (qs, s2) = out_frames str fresh fs s1 in (ps @ qs, s2))"

definition out_feed :: "(utext \<Rightarrow> jvalue option) \<Rightarrow> (jvalue \<Rightarrow> utext) \<Rightarrow> utext \<Rightarrow> utext \<Rightarrow> out_stream \<Rightarrow> out_piece list \<times> out_stream" where
  "out_feed json_parse str fresh chunk s =
     (let (fs, left) = splitter_feed json_parse (os_buf s) chunk in out_frames str fresh fs (s\<lparr>os_buf := left\<rparr>))"

section \<open>The write boundary\<close>

datatype out_mode = Undecided | Sse_mode | Json_mode

record responses_out =
  ro_mode :: out_mode
  ro_json :: utext
  ro_stream :: out_stream

definition new_out :: "rat \<Rightarrow> utext \<Rightarrow> responses_out" where
  "new_out created model = \<lparr>ro_mode = Undecided, ro_json = [], ro_stream = new_stream created model\<rparr>"

text \<open>What the boundary is given: \<open>JSON.parse\<close>, \<open>JSON.stringify\<close>, \<open>String\<close>, the random id, the clock.\<close>

record out_env =
  oe_parse :: "utext \<Rightarrow> jvalue option"
  oe_print :: "jvalue \<Rightarrow> utext"
  oe_str :: "jvalue \<Rightarrow> utext"
  oe_fresh :: utext
  oe_now :: rat

definition decide_mode :: "utext \<Rightarrow> out_mode" where
  "decide_mode h =
     (if has_prefix h (lit ''event:'') \<or> has_prefix h (lit ''data:'') \<or> has_prefix h (lit '':'') then Sse_mode else Json_mode)"

text \<open>The chunks come decoded; what the boundary writes is text.\<close>

definition out_write :: "out_env \<Rightarrow> utext \<Rightarrow> responses_out \<Rightarrow> utext \<times> responses_out" where
  "out_write env text o' =
     (let h = dropWhile js_space text
      in if ro_mode o' = Undecided \<and> h = [] then ([], o')
         else (let mode = (if ro_mode o' = Undecided then decide_mode h else ro_mode o')
               in if mode = Sse_mode
                  then (let (ps, s) = out_feed (oe_parse env) (oe_str env) (oe_fresh env) text (ro_stream o')
                        in (concat (map (piece_text (oe_print env)) ps), o'\<lparr>ro_mode := mode, ro_stream := s\<rparr>))
                  else ([], o'\<lparr>ro_mode := mode, ro_json := ro_json o' @ text\<rparr>)))"

definition out_end :: "out_env \<Rightarrow> responses_out \<Rightarrow> utext" where
  "out_end env o' =
     (if ro_mode o' \<noteq> Json_mode then []
      else (case oe_parse env (ro_json o') of
              Some (J_obj m) \<Rightarrow>
                (let ty = map_of m (lit ''type''); e = map_of m (lit ''error''); is_array = (case map_of m (lit ''content'') of Some (J_arr _) \<Rightarrow> True | _ \<Rightarrow> False);
                     enveloped = (case e of Some (J_obj em) \<Rightarrow> map_of em (lit ''param'') \<noteq> None | _ \<Rightarrow> False)
                 in if ty = Some (jtext ''message'') \<and> is_array then
                      (case anthropicMessageToResponses (oe_print env) (oe_str env) (oe_fresh env) (oe_now env) m of
                         Some r \<Rightarrow> oe_print env (J_obj r) | None \<Rightarrow> ro_json o')
                    else if ty \<noteq> Some (jtext ''error'') \<and> enveloped then ro_json o'
                    else if ty = Some (jtext ''error'') \<or> js_truthy e then oe_print env (J_obj (anthropicErrorToResponses m))
                    else ro_json o')
            | _ \<Rightarrow> ro_json o'))"

text \<open>The response a Responses client is served through: the texts that reach the socket.\<close>

definition wrapped_write :: "out_env \<Rightarrow> utext \<Rightarrow> responses_out \<Rightarrow> utext list \<times> responses_out" where
  "wrapped_write env chunk o' = (let (t, o1) = out_write env chunk o' in (if t = [] then [] else [t], o1))"

definition wrapped_end :: "out_env \<Rightarrow> utext option \<Rightarrow> responses_out \<Rightarrow> utext list" where
  "wrapped_end env chunk o' =
     (let (ws, o1) = (case chunk of None \<Rightarrow> ([], o') | Some c \<Rightarrow> wrapped_write env c o'); tail_text = out_end env o1
      in ws @ (if tail_text = [] then [] else [tail_text]))"

fun wrapped_writes :: "out_env \<Rightarrow> utext list \<Rightarrow> responses_out \<Rightarrow> utext list \<times> responses_out" where
  "wrapped_writes env [] o' = ([], o')"
| "wrapped_writes env (c # cs) o' =
     (let (ws, o1) = wrapped_write env c o'; (vs, o2) = wrapped_writes env cs o1 in (ws @ vs, o2))"

definition served :: "out_env \<Rightarrow> utext list \<Rightarrow> utext option \<Rightarrow> responses_out \<Rightarrow> utext" where
  "served env chunks final o' = (let (ws, o1) = wrapped_writes env chunks o' in concat (ws @ wrapped_end env final o1))"

end
