(* ===== verification/Inbound_Props.thy ===== *)
theory Inbound_Props
  imports Inbound_Stream
begin

text \<open>
  A Responses client reads the same answer streamed and buffered: what the translated stream ends with is the
  response object of the whole message up to the ids of its items, its deltas add up to these items, and the numbers of
  the events count from zero without a gap. The ids part where a block without an item comes first. What is served does not depend on the chunks the stream comes in once
  the first of them tells it from a JSON body; where it cannot, the stream is not translated at all.
\<close>

section \<open>A message, streamed and buffered\<close>

text \<open>
  A block of the upstream's message with the chunks it is streamed in. The last kind is not for a Responses client
  (redacted thinking, the blocks of server tools): as it starts, its deltas, and as it stands in the buffered message.
\<close>

datatype up_block =
    Up_text "utext list"
  | Up_call utext utext jvalue "utext list"
  | Up_think "utext list"
  | Up_other jobject "jobject list" jobject

record up_message =
  um_id :: utext
  um_model :: utext
  um_usage :: jobject
  um_blocks :: "up_block list"
  um_stop :: jvalue
  um_final :: jobject

fun block_start_json :: "up_block \<Rightarrow> jobject" where
  "block_start_json (Up_text cs) = named [(''type'', jtext ''text''), (''text'', J_str [])]"
| "block_start_json (Up_call i n v cs) = named [(''type'', jtext ''tool_use''), (''id'', J_str i), (''name'', J_str n), (''input'', J_obj [])]"
| "block_start_json (Up_think cs) = named [(''type'', jtext ''thinking''), (''thinking'', J_str [])]"
| "block_start_json (Up_other b ds w) = b"

definition a_delta :: "string \<Rightarrow> string \<Rightarrow> utext \<Rightarrow> jobject" where
  "a_delta ty k c = named [(''type'', jtext ty), (k, J_str c)]"

fun delta_jsons :: "up_block \<Rightarrow> jobject list" where
  "delta_jsons (Up_text cs) = map (a_delta ''text_delta'' ''text'') cs"
| "delta_jsons (Up_call i n v cs) = map (a_delta ''input_json_delta'' ''partial_json'') cs"
| "delta_jsons (Up_think cs) = map (a_delta ''thinking_delta'' ''thinking'') cs"
| "delta_jsons (Up_other b ds w) = ds"

definition start_data :: "nat \<Rightarrow> jobject \<Rightarrow> jobject" where
  "start_data i b = named [(''type'', jtext ''content_block_start''), (''index'', J_num (of_nat i)), (''content_block'', J_obj b)]"

definition delta_data :: "nat \<Rightarrow> jobject \<Rightarrow> jobject" where
  "delta_data i d = named [(''type'', jtext ''content_block_delta''), (''index'', J_num (of_nat i)), (''delta'', J_obj d)]"

definition stop_data :: "nat \<Rightarrow> jobject" where
  "stop_data i = named [(''type'', jtext ''content_block_stop''), (''index'', J_num (of_nat i))]"

definition block_data :: "nat \<Rightarrow> up_block \<Rightarrow> jobject list" where
  "block_data i b = start_data i (block_start_json b) # map (delta_data i) (delta_jsons b) @ [stop_data i]"

fun blocks_data :: "nat \<Rightarrow> up_block list \<Rightarrow> jobject list" where
  "blocks_data i [] = []"
| "blocks_data i (b # bs) = block_data i b @ blocks_data (i + 1) bs"

definition message_data :: "up_message \<Rightarrow> jobject list" where
  "message_data m =
     named [(''type'', jtext ''message_start''),
       (''message'', obj [(''id'', J_str (um_id m)), (''model'', J_str (um_model m)), (''usage'', J_obj (um_usage m))])]
     # blocks_data 0 (um_blocks m)
     @ [named [(''type'', jtext ''message_delta''), (''delta'', obj [(''stop_reason'', um_stop m)]), (''usage'', J_obj (um_final m))],
        named [(''type'', jtext ''message_stop'')]]"

text \<open>The same message as one object: every block of it, whole.\<close>

fun whole_block :: "up_block \<Rightarrow> jvalue" where
  "whole_block (Up_text cs) = obj [(''type'', jtext ''text''), (''text'', J_str (concat cs))]"
| "whole_block (Up_call i n v cs) = obj [(''type'', jtext ''tool_use''), (''id'', J_str i), (''name'', J_str n), (''input'', v)]"
| "whole_block (Up_think cs) = obj [(''type'', jtext ''thinking''), (''thinking'', J_str (concat cs))]"
| "whole_block (Up_other b ds w) = J_obj w"

definition message_json :: "up_message \<Rightarrow> jobject" where
  "message_json m = named [(''id'', J_str (um_id m)), (''model'', J_str (um_model m)), (''content'', J_arr (map whole_block (um_blocks m))),
     (''stop_reason'', um_stop m), (''usage'', J_obj (spread (um_usage m) (um_final m)))]"

text \<open>The blocks a Responses client can use.\<close>

fun for_client :: "up_block \<Rightarrow> bool" where
  "for_client (Up_other b ds w) = False"
| "for_client b = True"

fun block_json :: "up_block \<Rightarrow> jvalue list" where
  "block_json (Up_other b ds w) = []"
| "block_json b = [whole_block b]"

definition client_types :: "utext option set" where
  "client_types = {Some (lit ''text''), Some (lit ''tool_use''), Some (lit ''thinking'')}"

text \<open>The arguments of a call come as they print, or not at all where there are none.\<close>

fun sound_block :: "(jvalue \<Rightarrow> utext) \<Rightarrow> up_block \<Rightarrow> bool" where
  "sound_block json_print (Up_call i n v cs) \<longleftrightarrow>
     v \<noteq> J_null \<and> json_print v = (if text_trim (concat cs) = [] then lit ''{}'' else concat cs)"
| "sound_block json_print (Up_other b ds w) \<longleftrightarrow>
     str_of (map_of b (lit ''type'')) \<notin> client_types \<and> str_of (map_of w (lit ''type'')) \<notin> client_types"
| "sound_block json_print _ \<longleftrightarrow> True"

section \<open>Events\<close>

fun data_events :: "(jvalue \<Rightarrow> utext) \<Rightarrow> utext \<Rightarrow> jobject list \<Rightarrow> out_stream \<Rightarrow> sent \<times> out_stream" where
  "data_events str fresh [] s = ([], s)"
| "data_events str fresh (d # ds) s =
     (let (es, s1) = data_event str fresh d s; (fs, s2) = data_events str fresh ds s1 in (es @ fs, s2))"

lemma data_events_append:
  "data_events str fresh (ds @ cs) s =
     (let (es, s1) = data_events str fresh ds s; (fs, s2) = data_events str fresh cs s1 in (es @ fs, s2))"
  by (induction ds arbitrary: s) (simp_all add: Let_def split_def)

text \<open>The number of the next event is not looked at.\<close>

lemma snapshot_seq [simp]: "snapshot st (s\<lparr>os_seq := n\<rparr>) = snapshot st s"
  by (simp add: snapshot_def)

definition moved :: "nat \<Rightarrow> utext \<Rightarrow> sent \<times> out_stream \<Rightarrow> sent \<times> out_stream" where
  "moved n b r = (fst r, (snd r)\<lparr>os_seq := n, os_buf := b\<rparr>)"

lemma start_moved: "blockStart str d (s\<lparr>os_seq := n, os_buf := b\<rparr>) = moved n b (blockStart str d s)"
  by (simp add: blockStart_def moved_def open_item_def Let_def)

lemma delta_moved: "blockDelta d (s\<lparr>os_seq := n, os_buf := b\<rparr>) = moved n b (blockDelta d s)"
proof (cases "os_open s (index_or d (-1))")
  case (Some ob)
  then show ?thesis by (cases "oo_kind ob") (simp_all add: blockDelta_def moved_def Let_def split: option.split)
qed (simp add: blockDelta_def moved_def)

lemma stop_moved: "blockStop d (s\<lparr>os_seq := n, os_buf := b\<rparr>) = moved n b (blockStop d s)"
proof (cases "os_open s (index_or d (-1))")
  case (Some ob)
  then show ?thesis by (cases "oo_kind ob") (simp_all add: blockStop_def moved_def Let_def)
qed (simp add: blockStop_def moved_def)

lemma event_moved: "data_event str fresh d (s\<lparr>os_seq := n, os_buf := b\<rparr>) = moved n b (data_event str fresh d s)"
  by (simp add: data_event_def start_moved delta_moved stop_moved Let_def)
    (auto simp: moved_def snapshot_def Let_def split: option.split list.split)

lemma events_moved: "data_events str fresh ds (s\<lparr>os_seq := n, os_buf := b\<rparr>) = moved n b (data_events str fresh ds s)"
  by (induction ds arbitrary: s) (simp_all add: event_moved moved_def Let_def split_def)

lemma same_buf: "s\<lparr>os_seq := n, os_buf := os_buf s\<rparr> = s\<lparr>os_seq := n\<rparr>"
  by (cases s) simp

lemma events_seq: "fst (data_events str fresh ds (s\<lparr>os_seq := n\<rparr>)) = fst (data_events str fresh ds s)"
  using events_moved [where s = s and n = n and b = "os_buf s" and str = str and fresh = fresh and ds = ds]
  by (simp add: moved_def same_buf)

lemma event_keeps_seq: "os_seq (snd (data_event str fresh d s)) = os_seq s"
  using arg_cong [where f = "\<lambda>r. os_seq (snd r)", OF event_moved [where s = s and n = "os_seq s" and b = "os_buf s" and str = str and fresh = fresh and d = d]]
  by (simp add: moved_def same_buf)

section \<open>Frames\<close>

definition frame_datas :: "sse_frame list \<Rightarrow> jobject list" where
  "frame_datas fs = List.map_filter (\<lambda>f. if f_comment f then None else f_data f) fs"

definition events_of :: "out_piece list \<Rightarrow> (nat \<times> string \<times> jobject) list" where
  "events_of ps = List.map_filter (\<lambda>p. case p of Comment _ \<Rightarrow> None | Event ty n payload \<Rightarrow> Some (n, ty, payload)) ps"

lemma events_of_append [simp]: "events_of (ps @ qs) = events_of ps @ events_of qs"
  by (simp add: events_of_def List.map_filter_def)

lemma events_of_numbered [simp]: "events_of (map (\<lambda>(n, ty, payload). Event ty n payload) nes) = nes"
  by (induction nes) (auto simp: events_of_def List.map_filter_def)

lemma events_of_pairs [simp]: "events_of (map (\<lambda>p. Event (fst (snd p)) (fst p) (snd (snd p))) nes) = nes"
  using events_of_numbered [of nes] by (simp add: split_def)

lemma frame_datas_Cons:
  "frame_datas (f # fs) = (if f_comment f then [] else case f_data f of None \<Rightarrow> [] | Some d \<Rightarrow> [d]) @ frame_datas fs"
  by (simp add: frame_datas_def List.map_filter_def split: option.split)

text \<open>The frames of a stream make the events of their data, numbered on; comments make none.\<close>

lemma frames_events:
  "events_of (fst (out_frames str fresh fs s)) = List.enumerate (os_seq s) (fst (data_events str fresh (frame_datas fs) s))"
proof (induction fs arbitrary: s)
  case Nil
  then show ?case by (simp add: events_of_def frame_datas_def List.map_filter_def)
next
  case (Cons f fs)
  consider (silent) "out_frame_step str fresh f s = ([Comment (f_raw f)], s) \<or> out_frame_step str fresh f s = ([], s)" "frame_datas (f # fs) = frame_datas fs"
    | (event) d where "out_frame_step str fresh f s = number_events (data_event str fresh d s)" "frame_datas (f # fs) = d # frame_datas fs"
    by (cases "f_comment f"; cases "f_data f") (auto simp: out_frame_step_def frame_datas_Cons)
  then show ?case
  proof cases
    case silent
    then show ?thesis using Cons [of s] by (auto simp: Let_def split_def events_of_def List.map_filter_def)
  next
    case event
    obtain es s1 where e: "data_event str fresh d s = (es, s1)" by fastforce
    have q: "os_seq s1 = os_seq s" using event_keeps_seq [of str fresh d s] e by simp
    show ?thesis
      by (simp add: event e number_events_def Cons q events_seq Let_def split_def enumerate_append_eq)
  qed
qed

section \<open>One block\<close>

text \<open>The text an event adds to the item at a position of the output.\<close>

definition delta_at :: "nat \<Rightarrow> string \<times> jobject \<Rightarrow> utext" where
  "delta_at n e =
     (if fst e \<in> {''response.output_text.delta'', ''response.function_call_arguments.delta'', ''response.reasoning_summary_text.delta''}
         \<and> map_of (snd e) (lit ''output_index'') = Some (J_num (of_nat n))
      then opt_or (str_of (map_of (snd e) (lit ''delta''))) [] else [])"

definition streamed :: "nat \<Rightarrow> sent \<Rightarrow> utext" where
  "streamed n es = concat (map (delta_at n) es)"

lemma streamed_simps [simp]:
  "streamed n [] = []" "streamed n (e # es) = delta_at n e @ streamed n es" "streamed n (es @ fs) = streamed n es @ streamed n fs"
  by (simp_all add: streamed_def)

fun delta_names :: "out_kind \<Rightarrow> string \<times> string" where
  "delta_names O_message = (''text_delta'', ''text'')"
| "delta_names O_function_call = (''input_json_delta'', ''partial_json'')"
| "delta_names O_reasoning = (''thinking_delta'', ''thinking'')"

definition grow :: "open_out \<Rightarrow> utext \<Rightarrow> open_out" where
  "grow b c = b\<lparr>oo_text := oo_text b @ c, oo_summary := oo_summary b \<or> (oo_kind b = O_reasoning \<and> c \<noteq> [])\<rparr>"

lemma grow_simps [simp]: "oo_at (grow b c) = oo_at b" "oo_kind (grow b c) = oo_kind b" "grow b [] = b" "grow (grow b c) d = grow b (c @ d)"
  by (cases b; auto simp: grow_def)+

lemmas json_eval = named_def jprop_def str_of_def jtext_def obj_def

lemma start_event [simp]: "data_event str fresh (start_data i b) s = blockStart str (start_data i b) s"
  by (simp add: data_event_def start_data_def json_eval)

lemma delta_event [simp]: "data_event str fresh (delta_data i d) s = blockDelta (delta_data i d) s"
  by (simp add: data_event_def delta_data_def json_eval)

lemma stop_event [simp]: "data_event str fresh (stop_data i) s = blockStop (stop_data i) s"
  by (simp add: data_event_def stop_data_def json_eval)

lemma index_of_data [simp]:
  "index_or (start_data i b) v = of_nat i" "index_or (delta_data i d) v = of_nat i" "index_or (stop_data i) v = of_nat i"
  by (simp_all add: index_or_def start_data_def delta_data_def stop_data_def named_def)

lemma data_inside [simp]:
  "map_of (start_data i b) (lit ''content_block'') = Some (J_obj b)" "map_of (delta_data i d) (lit ''delta'') = Some (J_obj d)"
  by (simp_all add: start_data_def delta_data_def named_def)

lemma delta_step:
  assumes "os_open s (of_nat i) = Some b"
  shows "\<exists>es. blockDelta (delta_data i (a_delta (fst (delta_names (oo_kind b))) (snd (delta_names (oo_kind b))) c)) s
             = (es, s\<lparr>os_open := (os_open s)(of_nat i \<mapsto> grow b c)\<rparr>)
           \<and> (\<forall>n. streamed n es = (if n = oo_at b then c else []))"
proof -
  have triv: "(os_open s)(of_nat i \<mapsto> b) = os_open s" using assms by (rule map_upd_triv)
  show ?thesis
    by (cases "oo_kind b"; cases "c = []")
      (auto simp: blockDelta_def assms a_delta_def json_eval grow_def part_payload_def delta_at_def triv Let_def)
qed

lemma deltas_run:
  assumes "os_open s (of_nat i) = Some b"
  shows "\<exists>es. data_events str fresh (map (delta_data i) (map (a_delta (fst (delta_names (oo_kind b))) (snd (delta_names (oo_kind b)))) cs)) s
             = (es, s\<lparr>os_open := (os_open s)(of_nat i \<mapsto> grow b (concat cs))\<rparr>)
           \<and> (\<forall>n. streamed n es = (if n = oo_at b then concat cs else []))"
  using assms
proof (induction cs arbitrary: s b)
  case Nil
  then show ?case by (simp add: map_upd_triv)
next
  case (Cons c cs)
  obtain es where e: "blockDelta (delta_data i (a_delta (fst (delta_names (oo_kind b))) (snd (delta_names (oo_kind b))) c)) s
      = (es, s\<lparr>os_open := (os_open s)(of_nat i \<mapsto> grow b c)\<rparr>)" "\<forall>n. streamed n es = (if n = oo_at b then c else [])"
    using delta_step [OF Cons.prems] by blast
  have "os_open (s\<lparr>os_open := (os_open s)(of_nat i \<mapsto> grow b c)\<rparr>) (of_nat i) = Some (grow b c)" by simp
  from Cons.IH [OF this] obtain fs where
    f: "data_events str fresh (map (delta_data i) (map (a_delta (fst (delta_names (oo_kind b))) (snd (delta_names (oo_kind b)))) cs))
          (s\<lparr>os_open := (os_open s)(of_nat i \<mapsto> grow b c)\<rparr>) = (fs, s\<lparr>os_open := (os_open s)(of_nat i \<mapsto> grow b (c @ concat cs))\<rparr>)"
       "\<forall>n. streamed n fs = (if n = oo_at b then concat cs else [])"
    by (auto simp del: fun_upd_apply)
  show ?case by (rule exI [of _ "es @ fs"]) (use e f in \<open>simp add: Let_def del: fun_upd_apply\<close>)
qed

text \<open>What a block streams, where it is one for the client.\<close>

fun block_texts :: "up_block \<Rightarrow> utext list" where
  "block_texts (Up_text cs) = [concat cs]"
| "block_texts (Up_call i n v cs) = [concat cs]"
| "block_texts (Up_think cs) = [concat cs]"
| "block_texts (Up_other b ds w) = []"

fun block_kind :: "up_block \<Rightarrow> out_kind" where
  "block_kind (Up_call i n v cs) = O_function_call"
| "block_kind (Up_think cs) = O_reasoning"
| "block_kind _ = O_message"

lemma other_deltas: "os_open s (of_nat i) = None \<Longrightarrow> data_events str fresh (map (delta_data i) ds) s = ([], s)"
  by (induction ds) (simp_all add: blockDelta_def)

text \<open>The item a block opens, and what it is when the block is over.\<close>

fun started_item :: "up_block \<Rightarrow> utext \<Rightarrow> nat \<Rightarrow> out_item" where
  "started_item (Up_call i n v cs) rid k = (new_item O_function_call (item_id ''fc_'' rid k))\<lparr>oi_callId := i, oi_name := n\<rparr>"
| "started_item (Up_think cs) rid k = new_item O_reasoning (item_id ''rs_'' rid k)"
| "started_item _ rid k = new_item O_message (item_id ''msg_'' rid k)"

definition finished_item :: "open_out \<Rightarrow> out_item \<Rightarrow> out_item" where
  "finished_item b i =
     (case oo_kind b of
        O_message \<Rightarrow> i\<lparr>oi_completed := True, oi_text := Some (oo_text b)\<rparr>
      | O_function_call \<Rightarrow> i\<lparr>oi_completed := True, oi_arguments := (if text_trim (oo_text b) = [] then lit ''{}'' else oo_text b)\<rparr>
      | O_reasoning \<Rightarrow> (if oo_summary b then i\<lparr>oi_text := Some (oo_text b)\<rparr> else i))"

lemma started_kind: "oi_kind (started_item b rid k) = block_kind b"
  by (cases b) (simp_all add: new_item_def)

lemma start_run:
  assumes "block_texts b \<noteq> []"
  shows "\<exists>es. blockStart str (start_data i (block_start_json b)) s
             = (es, open_item (of_nat i) (started_item b (os_id s) (length (os_output s) + 1)) [] s)
           \<and> (\<forall>n. streamed n es = [])"
  using assms
  by (cases b) (simp_all add: blockStart_def json_eval item_payload_def part_payload_def delta_at_def Let_def string_or_def js_string_def)

lemma stop_run:
  assumes "os_open s (of_nat i) = Some b"
  shows "\<exists>es. blockStop (stop_data i) s
             = (es, s\<lparr>os_open := (os_open s)(of_nat i := None), os_output := (os_output s)[oo_at b := finished_item b (os_output s ! oo_at b)]\<rparr>)
           \<and> (\<forall>n. streamed n es = [])"
  using assms
  by (cases "oo_kind b") (simp_all add: blockStop_def finished_item_def delta_at_def Let_def)

lemma finished_started:
  assumes "sound_block json_print b" and "block_texts b \<noteq> []"
  shows "block_items json_print str rid k (block_json b)
     = [finished_item (grow \<lparr>oo_at = n, oo_kind = block_kind b, oo_text = [], oo_summary = False\<rparr> (concat (block_texts b))) (started_item b rid k)]"
  using assms
  by (cases b)
    (auto simp: block_items_def block_item_def List.map_filter_def finished_item_def grow_def json_eval string_or_def js_string_def nullish_def new_item_def
       split: jvalue.split)

lemma delta_jsons_named:
  "block_texts b \<noteq> [] \<Longrightarrow> \<exists>cs. delta_jsons b = map (a_delta (fst (delta_names (block_kind b))) (snd (delta_names (block_kind b)))) cs \<and> concat cs = concat (block_texts b)"
  by (cases b) auto

lemma block_run:
  assumes "sound_block json_print b" and "os_open s (of_nat i) = None"
  shows "\<exists>es. data_events str fresh (block_data i b) s
             = (es, s\<lparr>os_output := os_output s @ block_items json_print str (os_id s) (length (os_output s) + 1) (block_json b)\<rparr>)
           \<and> (\<forall>n. streamed n es = (if n = length (os_output s) then concat (block_texts b) else []))"
proof (cases "block_texts b = []")
  case True
  then obtain c ds w where b: "b = Up_other c ds w" by (cases b) auto
  have "blockStart str (start_data i c) s = ([], s)" using assms(1) by (auto simp: b blockStart_def jprop_def client_types_def)
  then show ?thesis using assms(2)
    by (simp add: b block_data_def data_events_append other_deltas blockStop_def block_items_def List.map_filter_def)
next
  case False
  let ?j = "started_item b (os_id s) (length (os_output s) + 1)"
  let ?o = "\<lparr>oo_at = length (os_output s), oo_kind = block_kind b, oo_text = [], oo_summary = False\<rparr>"
  let ?s1 = "open_item (of_nat i) ?j [] s"
  obtain es0 where e0: "blockStart str (start_data i (block_start_json b)) s = (es0, ?s1)" "\<forall>n. streamed n es0 = []"
    using start_run [OF False] by blast
  obtain cs where cs: "delta_jsons b = map (a_delta (fst (delta_names (block_kind b))) (snd (delta_names (block_kind b)))) cs"
      "concat cs = concat (block_texts b)" using delta_jsons_named [OF False] by blast
  have o1: "os_open ?s1 (of_nat i) = Some ?o" by (simp add: open_item_def started_kind)
  let ?s2 = "?s1\<lparr>os_open := (os_open ?s1)(of_nat i \<mapsto> grow ?o (concat cs))\<rparr>"
  obtain es1 where e1: "data_events str fresh (map (delta_data i) (delta_jsons b)) ?s1 = (es1, ?s2)"
      "\<forall>n. streamed n es1 = (if n = length (os_output s) then concat cs else [])"
    using deltas_run [OF o1, of str fresh cs] cs(1) by auto
  have "os_open ?s2 (of_nat i) = Some (grow ?o (concat cs))" by simp
  from stop_run [OF this] obtain es2 where e2: "blockStop (stop_data i) ?s2
      = (es2, ?s2\<lparr>os_open := (os_open ?s2)(of_nat i := None), os_output := (os_output ?s2)[length (os_output s) := finished_item (grow ?o (concat cs)) (os_output ?s2 ! length (os_output s))]\<rparr>)"
      "\<forall>n. streamed n es2 = []" by auto
  have "(os_open s)(of_nat i := None) = os_open s" using assms(2) by auto
  then have "snd (blockStop (stop_data i) ?s2) = s\<lparr>os_output := os_output s @ block_items json_print str (os_id s) (length (os_output s) + 1) (block_json b)\<rparr>"
    using finished_started [OF assms(1) False, of str "os_id s" "length (os_output s) + 1" "length (os_output s)"] cs(2)
    unfolding e2(1) snd_conv by (simp add: open_item_def)
  with e0 e1 e2 cs(2) show ?thesis
    by (auto simp: block_data_def data_events_append Let_def split_def)
qed

section \<open>The whole message\<close>

lemma block_items_append:
  "block_items json_print str rid k (bs @ cs) = block_items json_print str rid k bs @ block_items json_print str rid (k + length bs) cs"
  by (simp add: block_items_def enumerate_append_eq List.map_filter_def)

text \<open>What an item holds when a text was streamed for it.\<close>

definition item_holds :: "out_item \<Rightarrow> utext \<Rightarrow> bool" where
  "item_holds i t \<longleftrightarrow>
     (case oi_kind i of
        O_message \<Rightarrow> oi_text i = Some t
      | O_function_call \<Rightarrow> oi_arguments i = (if text_trim t = [] then lit ''{}'' else t)
      | O_reasoning \<Rightarrow> oi_text i = (if t = [] then None else Some t))"

lemma block_items_hold:
  "sound_block json_print b \<Longrightarrow> list_all2 item_holds (block_items json_print str rid k (block_json b)) (block_texts b)"
  by (cases b)
    (auto simp: block_items_def block_item_def List.map_filter_def json_eval string_or_def js_string_def nullish_def new_item_def item_holds_def
       split: jvalue.split)

lemma block_json_texts: "length (block_json b) = length (block_texts b)"
  by (cases b) simp_all

lemma block_texts_one: "block_texts b = [] \<or> block_texts b = [concat (block_texts b)]"
  by (cases b) simp_all

lemma blocks_run:
  assumes "list_all (sound_block json_print) bs" and "os_open s = Map.empty"
  shows "\<exists>es items. data_events str fresh (blocks_data i bs) s = (es, s\<lparr>os_output := os_output s @ items\<rparr>)
           \<and> items = block_items json_print str (os_id s) (length (os_output s) + 1) (concat (map block_json bs))
           \<and> list_all2 item_holds items (concat (map block_texts bs))
           \<and> (\<forall>n. streamed n es = (if n < length (os_output s) then []
                  else if n - length (os_output s) < length items then concat (map block_texts bs) ! (n - length (os_output s)) else []))"
  using assms
proof (induction bs arbitrary: s i)
  case Nil
  then show ?case by (simp add: block_items_def List.map_filter_def)
next
  case (Cons b bs)
  have sb: "sound_block json_print b" using Cons.prems by simp
  let ?new = "block_items json_print str (os_id s) (length (os_output s) + 1) (block_json b)"
  have hold: "list_all2 item_holds ?new (block_texts b)" by (rule block_items_hold [OF sb])
  have len: "length ?new = length (block_json b)" using list_all2_lengthD [OF hold] by (simp add: block_json_texts)
  let ?s1 = "s\<lparr>os_output := os_output s @ ?new\<rparr>"
  obtain es where e: "data_events str fresh (block_data i b) s = (es, ?s1)"
      "\<forall>n. streamed n es = (if n = length (os_output s) then concat (block_texts b) else [])"
    using block_run [OF sb, of s i str fresh] Cons.prems(2) by auto
  have "list_all (sound_block json_print) bs" "os_open ?s1 = Map.empty" using Cons.prems by simp_all
  from Cons.IH [OF this, of "i + 1"] obtain fs items where
    f: "data_events str fresh (blocks_data (i + 1) bs) ?s1 = (fs, ?s1\<lparr>os_output := os_output ?s1 @ items\<rparr>)"
       "items = block_items json_print str (os_id s) (length (os_output ?s1) + 1) (concat (map block_json bs))"
       "list_all2 item_holds items (concat (map block_texts bs))"
       "\<forall>n. streamed n fs = (if n < length (os_output ?s1) then []
              else if n - length (os_output ?s1) < length items then concat (map block_texts bs) ! (n - length (os_output ?s1)) else [])"
    by auto
  have items: "block_items json_print str (os_id s) (length (os_output s) + 1) (concat (map block_json (b # bs))) = ?new @ items"
    using f(2) len by (simp add: block_items_append)
  have out1: "length (os_output ?s1) = length (os_output s) + length (block_texts b)" using len by (simp add: block_json_texts)
  have later: "length items = length (concat (map block_texts bs))" by (rule list_all2_lengthD [OF f(3)])
  have sum: "streamed n (es @ fs) = (if n < length (os_output s) then []
      else if n - length (os_output s) < length (?new @ items) then concat (map block_texts (b # bs)) ! (n - length (os_output s)) else [])" for n
  proof (cases "block_texts b = []")
    case True
    then show ?thesis using e(2) f(4) out1 len by (simp add: block_json_texts)
  next
    case False
    then obtain t where t: "block_texts b = [t]" using block_texts_one [of b] by (cases "block_texts b") auto
    have g: "streamed n fs = (if n < length (os_output s) + 1 then []
        else if n - (length (os_output s) + 1) < length items then concat (map block_texts bs) ! (n - (length (os_output s) + 1)) else [])"
      using f(4) unfolding out1 t by simp
    have h: "streamed n es = (if n = length (os_output s) then t else [])" using e(2) t by simp
    have "length (?new @ items) = Suc (length items)" using len t by (simp add: block_json_texts)
    moreover have "n > length (os_output s) \<Longrightarrow> n - length (os_output s) = Suc (n - (length (os_output s) + 1))" by simp
    ultimately show ?thesis using g h t by (cases "n > length (os_output s)") auto
  qed
  show ?case
    by (rule exI [of _ "es @ fs"], rule exI [of _ "?new @ items"], intro conjI)
      (use e(1) f(1) items sum hold f(3) in \<open>simp_all add: data_events_append list_all2_appendI\<close>)
qed

text \<open>Pings say nothing.\<close>

definition is_ping :: "jobject \<Rightarrow> bool" where
  "is_ping d \<longleftrightarrow> str_of (map_of d (lit ''type'')) = Some (lit ''ping'')"

lemma without_pings: "data_events str fresh ds s = data_events str fresh (filter (\<lambda>d. \<not> is_ping d) ds) s"
proof (induction ds arbitrary: s)
  case (Cons d ds)
  have "is_ping d \<Longrightarrow> data_event str fresh d s = ([], s)" by (simp add: is_ping_def data_event_def)
  with Cons show ?case by (cases "is_ping d") simp_all
qed simp

text \<open>
  The stream numbers an item by the items before it, the buffered answer by the blocks before it, those without an
  item counted too. Up to their ids the items are the same, and where every block has an item, so are the ids.
\<close>

definition unnamed :: "out_item \<Rightarrow> out_item" where "unnamed i = i\<lparr>oi_id := []\<rparr>"

lemma block_items_Cons:
  "block_items json_print str rid k (b # bs)
     = (case block_item json_print str rid k b of None \<Rightarrow> [] | Some i \<Rightarrow> [i]) @ block_items json_print str rid (k + 1) bs"
  by (simp add: block_items_def List.map_filter_def split: option.split)

lemma block_items_Nil [simp]: "block_items json_print str rid k [] = []"
  by (simp add: block_items_def List.map_filter_def)

lemma block_item_unnamed:
  "map_option unnamed (block_item json_print str rid k b) = map_option unnamed (block_item json_print str rid n b)"
  by (simp add: block_item_def unnamed_def new_item_def Let_def)

lemma other_no_item: "sound_block json_print b \<Longrightarrow> \<not> for_client b \<Longrightarrow> block_item json_print str rid k (whole_block b) = None"
  by (cases b) (auto simp: block_item_def jprop_def client_types_def)

lemma items_unnamed:
  "list_all (sound_block json_print) bs
     \<Longrightarrow> map unnamed (block_items json_print str rid k (map whole_block bs))
       = map unnamed (block_items json_print str rid n (concat (map block_json bs)))"
proof (induction bs arbitrary: k n)
  case (Cons b bs)
  have tl: "map unnamed (block_items json_print str rid (k + 1) (map whole_block bs))
      = map unnamed (block_items json_print str rid m (concat (map block_json bs)))" for m
    using Cons by simp
  show ?case
  proof (cases "for_client b")
    case True
    then have "block_json b = [whole_block b]" by (cases b) simp_all
    then show ?thesis using tl block_item_unnamed [of json_print str rid k "whole_block b" n]
      by (cases "block_item json_print str rid n (whole_block b)") (auto simp: block_items_Cons)
  next
    case False
    then have "block_json b = []" by (cases b) simp_all
    then show ?thesis using tl other_no_item [of json_print b] False Cons.prems by (simp add: block_items_Cons)
  qed
qed simp

lemma all_for_client: "list_all for_client bs \<Longrightarrow> concat (map block_json bs) = map whole_block bs"
proof (induction bs)
  case (Cons b bs)
  then show ?case by (cases b) simp_all
qed simp

lemma whole_not_null: "J_null \<notin> set (map whole_block bs)"
proof -
  have "whole_block b \<noteq> J_null" for b by (cases b) (simp_all add: obj_def)
  then show ?thesis by (metis (no_types, lifting) imageE list.set_map)
qed

lemma answer_output:
  "with_field ''output'' (J_arr (map item_json js)) (answer_object rid c mo is stop u) = answer_object rid c mo js stop u"
  "map_of (answer_object rid c mo is stop u) (lit ''output'') = Some (J_arr (map item_json is))"
  by (simp_all add: answer_object_def with_field_def baseResponse_def named_def Let_def)

lemma buffered_answer:
  "anthropicMessageToResponses json_print str fresh created (message_json m)
     = (let rid = responseIdFrom fresh (Some (J_str (um_id m)))
        in Some (answer_object rid created (um_model m) (block_items json_print str rid 1 (map whole_block (um_blocks m)))
             (Some (um_stop m)) (spread (um_usage m) (um_final m))))"
  using whole_not_null [of "um_blocks m"]
  by (simp add: anthropicMessageToResponses_def message_json_def named_def str_of_def as_object_def Let_def)

lemma streamed_answer:
  assumes "list_all (sound_block json_print) (um_blocks m)"
  shows "\<exists>es items. fst (data_events str fresh (message_data m) (new_stream created []))
             = es @ [(''response.completed'', response_payload (answer_object (responseIdFrom fresh (Some (J_str (um_id m)))) created (um_model m)
                        items (Some (um_stop m)) (spread (um_usage m) (um_final m))))]
           \<and> items = block_items json_print str (responseIdFrom fresh (Some (J_str (um_id m)))) 1 (concat (map block_json (um_blocks m)))
           \<and> (\<forall>n < length items. item_holds (items ! n) (streamed n es))"
proof -
  let ?rid = "responseIdFrom fresh (Some (J_str (um_id m)))"
  let ?s1 = "(new_stream created [])\<lparr>os_id := ?rid, os_model := um_model m, os_usage := um_usage m, os_started := True\<rparr>"
  let ?first = "named [(''type'', jtext ''message_start''),
       (''message'', obj [(''id'', J_str (um_id m)), (''model'', J_str (um_model m)), (''usage'', J_obj (um_usage m))])]"
  let ?close = "[named [(''type'', jtext ''message_delta''), (''delta'', obj [(''stop_reason'', um_stop m)]), (''usage'', J_obj (um_final m))],
        named [(''type'', jtext ''message_stop'')]]"
  obtain es0 where start: "data_event str fresh ?first (new_stream created []) = (es0, ?s1)" "\<forall>n. streamed n es0 = []"
    by (cases "um_model m") (auto simp: data_event_def json_eval as_object_def new_stream_def delta_at_def Let_def)
  have "os_open ?s1 = Map.empty" by (simp add: new_stream_def)
  from blocks_run [OF assms this, of str fresh 0] obtain es1 items where
    run: "data_events str fresh (blocks_data 0 (um_blocks m)) ?s1 = (es1, ?s1\<lparr>os_output := items\<rparr>)"
      "items = block_items json_print str ?rid 1 (concat (map block_json (um_blocks m)))"
      "list_all2 item_holds items (concat (map block_texts (um_blocks m)))"
      "\<forall>n. streamed n es1 = (if n < length items then concat (map block_texts (um_blocks m)) ! n else [])"
    by (auto simp: new_stream_def)
  let ?r = "answer_object ?rid created (um_model m) items (Some (um_stop m)) (spread (um_usage m) (um_final m))"
  have fin: "data_events str fresh ?close (?s1\<lparr>os_output := items\<rparr>)
      = ([(''response.completed'', response_payload (with_field ''usage'' (responsesUsage (spread (um_usage m) (um_final m)))
            (with_field ''incomplete_details'' (snd (statusFor (Some (um_stop m)))) (with_field ''output'' (J_arr (map item_json items))
              (with_field ''status'' (jtext (fst (statusFor (Some (um_stop m))))) (baseResponse ?rid created (um_model m)))))))],
         snd (data_events str fresh ?close (?s1\<lparr>os_output := items\<rparr>)))"
    by (simp add: data_event_def json_eval as_object_def snapshot_def Let_def new_stream_def)
  have same: "with_field ''usage'' u (with_field ''incomplete_details'' d (with_field ''output'' o' (with_field ''status'' st (baseResponse i c mo))))
      = with_field ''usage'' u (with_field ''output'' o' (with_field ''incomplete_details'' d (with_field ''status'' st (baseResponse i c mo))))" for u d o' st i c mo
    by (simp add: with_field_def baseResponse_def named_def)
  have "fst (data_events str fresh (message_data m) (new_stream created [])) = (es0 @ es1) @ [(''response.completed'', response_payload ?r)]"
    using start(1) run(1) fin
    by (simp add: message_data_def data_events_append Let_def split_def same answer_object_def)
  moreover have "\<forall>n < length items. item_holds (items ! n) (streamed n (es0 @ es1))"
    using run(3,4) start(2) by (auto simp: list_all2_conv_all_nth)
  ultimately show ?thesis using run(2) by blast
qed

text \<open>
  C10. A Responses client reads the same answer whether it streams or not. Let the frames of a stream carry a message of the
  upstream - blocks in their order, each started, its deltas in any number of chunks, then stopped, with pings and comments
  anywhere, blocks a Responses client has no use for among the others, and each call's arguments streamed as
  they print. Then the events written are numbered from zero without a gap, and the last one alone completes the
  response. The object it carries and the one that the whole buffered message, every block of it, is translated to
  agree in every key but \<open>output\<close>; there they hold the same items in the same order up to the items' ids, and the
  very same object where every block is one for the client. Each item holds exactly the text the deltas of its
  position added up to.
\<close>

theorem inbound_stream_answer:
  assumes "list_all (sound_block json_print) (um_blocks m)"
    and "filter (\<lambda>d. \<not> is_ping d) (frame_datas fs) = message_data m"
  shows "\<exists>es r items whole whole_items.
      events_of (fst (out_frames str fresh fs (new_stream created []))) = List.enumerate 0 (es @ [(''response.completed'', response_payload r)])
    \<and> anthropicMessageToResponses json_print str fresh created (message_json m) = Some whole
    \<and> map_of r (lit ''output'') = Some (J_arr (map item_json items))
    \<and> whole = with_field ''output'' (J_arr (map item_json whole_items)) r
    \<and> map unnamed whole_items = map unnamed items
    \<and> (list_all for_client (um_blocks m) \<longrightarrow> whole = r)
    \<and> (\<forall>n < length items. item_holds (items ! n) (streamed n es))"
proof -
  let ?rid = "responseIdFrom fresh (Some (J_str (um_id m)))"
  let ?answer = "\<lambda>items. answer_object ?rid created (um_model m) items (Some (um_stop m)) (spread (um_usage m) (um_final m))"
  let ?whole_items = "block_items json_print str ?rid 1 (map whole_block (um_blocks m))"
  obtain es items where st: "fst (data_events str fresh (message_data m) (new_stream created []))
        = es @ [(''response.completed'', response_payload (?answer items))]"
      "items = block_items json_print str ?rid 1 (concat (map block_json (um_blocks m)))"
      "\<forall>n < length items. item_holds (items ! n) (streamed n es)"
    using streamed_answer [OF assms(1), of str fresh created] by blast
  have "fst (data_events str fresh (frame_datas fs) (new_stream created [])) = fst (data_events str fresh (message_data m) (new_stream created []))"
    using without_pings [of str fresh "frame_datas fs"] assms(2) by simp
  moreover have "os_seq (new_stream created []) = 0" by (simp add: new_stream_def)
  ultimately have "events_of (fst (out_frames str fresh fs (new_stream created [])))
      = List.enumerate 0 (es @ [(''response.completed'', response_payload (?answer items))])"
    using frames_events [of str fresh fs "new_stream created []"] st(1) by simp
  then show ?thesis
    by (intro exI [of _ es] exI [of _ "?answer items"] exI [of _ items] exI [of _ "?answer ?whole_items"] exI [of _ ?whole_items] conjI)
      (use st assms(1) in \<open>simp_all add: buffered_answer answer_output items_unnamed all_for_client Let_def\<close>)
qed

definition sample_message :: up_message where
  "sample_message = \<lparr>um_id = lit ''msg_1'', um_model = lit ''m'', um_usage = [],
     um_blocks = [Up_think [lit ''hm''], Up_other (named [(''type'', jtext ''redacted_thinking'')]) [] (named [(''type'', jtext ''redacted_thinking'')]), Up_text [lit ''a'', lit ''b''],
                  Up_call (lit ''c'') (lit ''f'') (J_obj []) []],
     um_stop = jtext ''tool_use'', um_final = []\<rparr>"

definition data_frame :: "jobject \<Rightarrow> sse_frame" where
  "data_frame d = \<lparr>f_raw = [], f_event = [], f_data = Some d, f_dataText = None, f_comment = False\<rparr>"

theorem inbound_stream_answer_witness:
  "\<exists>es r whole. events_of (fst (out_frames (\<lambda>_. []) [] (map data_frame (message_data sample_message)) (new_stream 0 [])))
       = List.enumerate 0 (es @ [(''response.completed'', response_payload r)])
     \<and> anthropicMessageToResponses (\<lambda>_. lit ''{}'') (\<lambda>_. []) [] 0 (message_json sample_message) = Some whole
     \<and> map_of whole (lit ''usage'') = map_of r (lit ''usage'')
     \<and> streamed 1 es = lit ''ab''"
proof -
  let ?fs = "map data_frame (message_data sample_message)"
  have s: "list_all (sound_block (\<lambda>_. lit ''{}'')) (um_blocks sample_message)" by code_simp
  have f: "filter (\<lambda>d. \<not> is_ping d) (frame_datas ?fs) = message_data sample_message" by code_simp
  from inbound_stream_answer [OF s f, of "\<lambda>_. []" "[]" 0] obtain es r whole whole_items where
    e: "events_of (fst (out_frames (\<lambda>_. []) [] ?fs (new_stream 0 []))) = List.enumerate 0 (es @ [(''response.completed'', response_payload r)])"
       "anthropicMessageToResponses (\<lambda>_. lit ''{}'') (\<lambda>_. []) [] 0 (message_json sample_message) = Some whole"
       "whole = with_field ''output'' (J_arr (map item_json whole_items)) r" by blast
  have "streamed 1 (map snd (events_of (fst (out_frames (\<lambda>_. []) [] ?fs (new_stream 0 []))))) = lit ''ab''" by code_simp
  then have "streamed 1 es = lit ''ab''" unfolding e(1) by (simp add: delta_at_def)
  moreover have "map_of whole (lit ''usage'') = map_of r (lit ''usage'')" unfolding e(3) by (simp add: with_field_def update_conv')
  ultimately show ?thesis using e(1,2) by blast
qed

text \<open>
  The ids differ as soon as a block without an item comes first: the same text is \<open>msg_1_2\<close> in the stream of the
  sample and \<open>msg_1_3\<close> in its buffered answer.
\<close>

theorem item_ids_differ:
  "map oi_id (block_items (\<lambda>_. lit ''{}'') (\<lambda>_. []) (lit ''resp_1'') 1 (map whole_block (um_blocks sample_message)))
     = [lit ''rs_1_1'', lit ''msg_1_3'', lit ''fc_1_4'']
   \<and> map oi_id (os_output (snd (data_events (\<lambda>_. []) [] (message_data sample_message) (new_stream 0 []))))
     = [lit ''rs_1_1'', lit ''msg_1_2'', lit ''fc_1_3'']"
  by code_simp

section \<open>The write boundary\<close>

lemma write_sse:
  assumes "ro_mode o' = Sse_mode \<or> ro_mode o' = Undecided \<and> dropWhile js_space c \<noteq> [] \<and> decide_mode (dropWhile js_space c) = Sse_mode"
  shows "concat (fst (wrapped_write env c o')) = concat (map (piece_text (oe_print env)) (fst (out_feed (oe_parse env) (oe_str env) (oe_fresh env) c (ro_stream o'))))
     \<and> snd (wrapped_write env c o') = o'\<lparr>ro_mode := Sse_mode, ro_stream := snd (out_feed (oe_parse env) (oe_str env) (oe_fresh env) c (ro_stream o'))\<rparr>"
  using assms by (auto simp: wrapped_write_def out_write_def Let_def split_def)

lemma writes_append:
  "wrapped_writes env (cs @ ds) o' =
     (let (ws, o1) = wrapped_writes env cs o'; (vs, o2) = wrapped_writes env ds o1 in (ws @ vs, o2))"
  by (induction cs arbitrary: o') (simp_all add: Let_def split_def)

lemma frames_append:
  "out_frames str fresh (fs @ gs) s =
     (let (ps, s1) = out_frames str fresh fs s; (qs, s2) = out_frames str fresh gs s1 in (ps @ qs, s2))"
  by (induction fs arbitrary: s) (simp_all add: Let_def split_def)

lemma frame_buf: "out_frame_step str fresh f (s\<lparr>os_buf := b\<rparr>) = (fst (out_frame_step str fresh f s), (snd (out_frame_step str fresh f s))\<lparr>os_buf := b\<rparr>)"
  using event_moved [where s = s and n = "os_seq s" and str = str and fresh = fresh and b = b]
  by (auto simp: out_frame_step_def number_events_def moved_def Let_def split_def event_keeps_seq split: option.split)

lemma frames_buf: "out_frames str fresh fs (s\<lparr>os_buf := b\<rparr>) = (fst (out_frames str fresh fs s), (snd (out_frames str fresh fs s))\<lparr>os_buf := b\<rparr>)"
  by (induction fs arbitrary: s) (simp_all add: frame_buf Let_def split_def)

lemma feed_split:
  "out_feed jp str fresh (c @ d) s =
     (let (ps, s1) = out_feed jp str fresh c s; (qs, s2) = out_feed jp str fresh d s1 in (ps @ qs, s2))"
proof -
  show ?thesis
    by (simp add: out_feed_def splitter_feed_split Let_def split_def frames_append frames_buf)
qed

lemma feed_rest: "cut_frame (os_buf (snd (out_feed jp str fresh c s))) = None"
  by (simp add: out_feed_def splitter_feed_def Let_def split_def frames_buf frame_reader.split_rest)

lemma writes_sse:
  assumes "ro_mode o' = Sse_mode" and "cut_frame (os_buf (ro_stream o')) = None"
  shows "concat (fst (wrapped_writes env cs o')) = concat (map (piece_text (oe_print env)) (fst (out_feed (oe_parse env) (oe_str env) (oe_fresh env) (concat cs) (ro_stream o'))))
     \<and> ro_mode (snd (wrapped_writes env cs o')) = Sse_mode"
  using assms
proof (induction cs arbitrary: o')
  case Nil
  then show ?case by (simp add: out_feed_def splitter_feed_def split_frames_None)
next
  case (Cons c cs)
  let ?f = "out_feed (oe_parse env) (oe_str env) (oe_fresh env)"
  let ?o = "o'\<lparr>ro_mode := Sse_mode, ro_stream := snd (?f c (ro_stream o'))\<rparr>"
  have w: "concat (fst (wrapped_write env c o')) = concat (map (piece_text (oe_print env)) (fst (?f c (ro_stream o'))))" "snd (wrapped_write env c o') = ?o"
    using write_sse [of o' c env] Cons.prems(1) by simp_all
  from Cons.IH [of ?o] show ?case by (simp add: w feed_rest feed_split Let_def split_def)
qed

lemma served_append: "served env cs (Some c) o' = served env (cs @ [c]) None o'"
  by (simp add: served_def wrapped_end_def writes_append Let_def split_def)

lemma served_sse:
  assumes "dropWhile js_space c \<noteq> []" and "decide_mode (dropWhile js_space c) = Sse_mode"
  shows "served env (c # cs) None (new_out now model)
     = concat (map (piece_text (oe_print env)) (fst (out_feed (oe_parse env) (oe_str env) (oe_fresh env) (concat (c # cs)) (new_stream now model))))"
proof -
  let ?o = "new_out now model"
  let ?f = "out_feed (oe_parse env) (oe_str env) (oe_fresh env)"
  let ?o1 = "?o\<lparr>ro_mode := Sse_mode, ro_stream := snd (?f c (new_stream now model))\<rparr>"
  have w: "concat (fst (wrapped_write env c ?o)) = concat (map (piece_text (oe_print env)) (fst (?f c (new_stream now model))))" "snd (wrapped_write env c ?o) = ?o1"
    using write_sse [of ?o c env] assms by (simp_all add: new_out_def)
  have "cut_frame (os_buf (ro_stream ?o1)) = None" by (simp add: feed_rest)
  from writes_sse [of ?o1 env cs, OF _ this] show ?thesis
    by (simp add: served_def wrapped_end_def out_end_def w feed_split Let_def split_def)
qed

text \<open>
  C38. What a streaming client is sent does not depend on the chunks. Once the first chunk shows that the answer is an event
  stream, the text served is that of the events of the whole stream, whatever the chunks it came in and whether the last
  of them came with a write or with the end.
\<close>

theorem inbound_chunks:
  assumes "dropWhile js_space c \<noteq> []" and "decide_mode (dropWhile js_space c) = Sse_mode"
  shows "served env (c # cs) final (new_out now model)
     = concat (map (piece_text (oe_print env))
         (fst (out_frames (oe_str env) (oe_fresh env)
            (fst (splitter_feed (oe_parse env) [] (c @ concat cs @ opt_list final))) (new_stream now model))))"
proof -
  have "served env (c # cs) final (new_out now model) = served env (c # cs @ (case final of None \<Rightarrow> [] | Some d \<Rightarrow> [d])) None (new_out now model)"
    using served_append [of env "c # cs"] by (cases final) simp_all
  moreover have "concat (case final of None \<Rightarrow> [] | Some d \<Rightarrow> [d]) = opt_list final" by (cases final) simp_all
  moreover have "os_buf (new_stream now model) = []" by (simp add: new_stream_def)
  ultimately show ?thesis
    by (simp add: served_sse [OF assms] out_feed_def splitter_feed_def frames_buf Let_def split_def)
qed

definition sample_env :: out_env where
  "sample_env = \<lparr>oe_parse = (\<lambda>_. Some (J_obj (named [(''type'', jtext ''message_start'')]))), oe_print = (\<lambda>_. lit ''{}''),
     oe_str = (\<lambda>_. []), oe_fresh = lit ''r'', oe_now = 0\<rparr>"

theorem inbound_chunks_witness:
  "served sample_env [lit ''data: 1'', [10], [10]] None (new_out 0 []) = served sample_env [lit ''data:''] (Some (lit '' 1'' @ [10, 10])) (new_out 0 [])
   \<and> decide_mode (dropWhile js_space (lit ''data:'')) = Sse_mode"
proof -
  have a: "dropWhile js_space (lit ''data: 1'') \<noteq> []" "decide_mode (dropWhile js_space (lit ''data: 1'')) = Sse_mode" by code_simp+
  have b: "dropWhile js_space (lit ''data:'') \<noteq> []" "decide_mode (dropWhile js_space (lit ''data:'')) = Sse_mode" by code_simp+
  have c: "lit ''data: 1'' @ concat [[10], [10]] @ opt_list None = lit ''data:'' @ concat [] @ opt_list (Some (lit '' 1'' @ [10, 10]))" by code_simp
  show ?thesis using inbound_chunks [OF a, of sample_env "[[10], [10]]" None 0 "[]"]
      inbound_chunks [OF b, of sample_env "[]" "Some (lit '' 1'' @ [10, 10])" 0 "[]"] b(2) unfolding c by simp
qed

text \<open>
  The first chunk alone decides. When a stream is cut inside the name of its first field, it is taken for a JSON body: it is held
  back to the end and then sent as the upstream wrote it, so the client gets the events of the other API and all of them late.
\<close>

lemma writes_json:
  assumes "ro_mode o' = Json_mode"
  shows "wrapped_writes env cs o' = ([], o'\<lparr>ro_json := ro_json o' @ concat cs\<rparr>)"
  using assms by (induction cs arbitrary: o') (simp_all add: wrapped_write_def out_write_def Let_def)

theorem first_bytes_split:
  assumes "oe_parse env (lit ''ev'' @ rest) = None"
  shows "served env [lit ''ev'', rest] None (new_out now model) = lit ''ev'' @ rest"
proof -
  have h: "dropWhile js_space (lit ''ev'') = lit ''ev''" "decide_mode (lit ''ev'') = Json_mode" "lit ''ev'' \<noteq> []" by code_simp+
  have "wrapped_writes env [lit ''ev'', rest] (new_out now model) = ([], (new_out now model)\<lparr>ro_mode := Json_mode, ro_json := lit ''ev'' @ rest\<rparr>)"
    using writes_json [of "(new_out now model)\<lparr>ro_mode := Json_mode, ro_json := lit ''ev''\<rparr>" env "[rest]"]
    by (simp add: wrapped_write_def out_write_def h new_out_def Let_def)
  then show ?thesis using assms h(3) by (simp add: served_def wrapped_end_def out_end_def)
qed

end
