(* ===== verification/Spec2Isabelle.thy ===== *)
theory Spec2Isabelle
  imports Cch Pacing Pool_Sync Pool_Invariant Request_Queue_Inv Keys_Props Ledger Overage_Guard Sessions Token_Bucket Refresh_Grant Failover
    Midstream_Guard Splice_Text Responses_Reply Account_Peers Refresh_Protocol Request_Gaps Inbound_Props
begin

text \<open>
  A verification development of dario, a local proxy that serves the requests of coding clients from a pool of
  subscription accounts. A request passes the key check and its budget, waits for a slot, is given a seat of the
  pool, waits for the seat's pace, gets a session id and a hash, and is sent; the answer updates the seat, the
  ledger and the overage guard; a stream that dies half way is continued by another provider; a request the pool
  cannot serve goes down the failover chain. Each part below is the code of one or a few files under
  \<open>src/src\<close>, with the state of a class as a record, each method as a function from that state to its result and the
  next state, and the clock, random samples, hashes, parsers and answers of other machines as arguments.

  The theories and what they model.

    \<^item> \<open>Prelude_Dario\<close>, \<open>Js_Text\<close>: JavaScript's \<open>Map\<close> as an association list in insertion order (locale \<open>keyed_store\<close>),
      machines whose steps keep an invariant (locales \<open>inv_machine\<close> and \<open>total_machine\<close>), \<open>parseInt\<close>, \<open>parseFloat\<close>, \<open>Number\<close>, \<open>trim\<close>.
    \<^item> \<open>Pool_Snapshot\<close>, \<open>Pool_Seat\<close>, \<open>Pool_Select\<close>, \<open>Pool_State\<close> (\<open>pool.ts\<close>): the rate-limit readings parsed from response
      headers, when a seat may be asked, the routing strategies, and the account pool with its sticky bindings and
      queue of waiters. \<open>Pool_Props\<close> and \<open>Pool_Invariant\<close>: selection is sound and best, a 429 parks exactly as
      long as it says, every run of operations keeps the pool well formed, and reconciling follows the disk.
    \<^item> \<open>Pool_Sync\<close> (\<open>pool-sync.ts\<close>): readings shared between instances; pulls settle and pushes catch up.
    \<^item> \<open>Request_Queue\<close>, \<open>Request_Queue_Inv\<close> (\<open>request-queue.ts\<close>): the concurrency slots as a machine; the caps hold
      in every run, no waiter is stranded, and enough releases let everybody in.
    \<^item> \<open>Timers\<close> (\<open>timer-ms.ts\<close>, \<open>shutdown-drain.ts\<close>, \<open>stream-drain.ts\<close>): timer clamping and the drain of a shutdown.
    \<^item> \<open>Keys\<close>, \<open>Keys_Props\<close> (\<open>keys.ts\<close>): named keys, their file and their admission; the file round trip and
      authentication. \<open>Key_Budget\<close> (\<open>keys.ts\<close> and the reservation steps of \<open>proxy.ts\<close>): budgets under overlapping requests.
    \<^item> \<open>Pricing\<close> (\<open>analytics.ts\<close>), \<open>Ledger\<close> (\<open>ledger.ts\<close>), \<open>Overage_Guard\<close> (\<open>overage-guard.ts\<close>): what a request
      costs and is billed to, the lifetime counts, and the halt when a request is billed as overage.
    \<^item> \<open>Pacing\<close> (\<open>pacing.ts\<close> and its use in \<open>proxy.ts\<close>), \<open>Sessions\<close> (\<open>session-rotation.ts\<close>), \<open>Token_Bucket\<close> (\<open>rate-limit.ts\<close>),
      \<open>Refresh_Grant\<close> (\<open>refresh-grant.ts\<close>): the gap between requests of a seat, the registry of session ids, the
      bucket of the admin interface, the age of a refresh grant.
    \<^item> \<open>Cch\<close> (\<open>cch.ts\<close>): the hash of a request body, equal to a hash on 64-bit words; stamping and verifying.
    \<^item> \<open>Model_Catalog\<close>, \<open>Model_Resolution\<close> (\<open>model-catalog.ts\<close>, \<open>claude-model.ts\<close>, \<open>effort.ts\<close>, \<open>codex-backend.ts\<close>): ordering and resolution
      of model names. \<open>Failover\<close> (\<open>provider-adapter.ts\<close>, \<open>provider-cooldown.ts\<close>, \<open>family-fallback.ts\<close>, \<open>credits-rung.ts\<close>,
      \<open>seat-pin.ts\<close>, \<open>pool-fallback-tier.ts\<close>, \<open>upstream-rejection.ts\<close>): who serves a request the pool cannot.
    \<^item> \<open>Sse_Frames\<close>, \<open>Stream_State\<close>, \<open>Seam\<close>, \<open>Splicer\<close>, \<open>Midstream_Guard\<close> (\<open>midstream.ts\<close>): the frames of a stream, what the client has
      seen, where a continuation is joined, the splicer and the guard that asks one provider after another.
      \<open>Splice_Legal\<close>, \<open>Continuation\<close>, \<open>Splice_Text\<close>: what a client reads is one legal message, and its text is the text of the two
      streams with the repeated head cut.
    \<^item> \<open>Wire_Protocol\<close>, \<open>Chunked\<close>: the legal streams of the Messages API as an automaton, and parsers whose result
      does not depend on the chunks (a locale); both are used by the splicer and by the translation.
    \<^item> \<open>Responses_Stream\<close>, \<open>Responses_Assemble\<close>, \<open>Responses_Request\<close>, \<open>Responses_Reply\<close>
      (\<open>anthropic-responses-translate.ts\<close>): the translation between the Messages and the Responses API - the streaming
      translator, the event parser and the assembler of whole messages, the request, the answer. \<open>Responses_Legal\<close>,
      \<open>Responses_Calls\<close>: a translated stream is legal, and calls whose arguments interleave arrive whole.
    \<^item> \<open>Account_Store\<close>, \<open>Account_Sync\<close> (\<open>account-sync.ts\<close>, the account files of \<open>accounts.ts\<close>, \<open>redis-lock/server.mjs\<close>,
      \<open>cloudflare/refresh-lock/worker.mjs\<close>): the accounts instances share through a registry (locale
      \<open>account_registry\<close>, with both backends as its interpretations) and one sync in its two parts. \<open>Account_Converge\<close>: a sync keeps
      later work, and a removal does what it reports, also when a call the service had taken fails. \<open>Account_Peers\<close>:
      instances whose logins carry their grant time end on the same accounts after two rounds of syncs.
    \<^item> \<open>Refresh_Lock\<close>, \<open>Refresh_Protocol\<close> (\<open>accounts.ts\<close> and the lock of the two services): the refresh of an account several
      instances share; with the worker's lock, while the worker answers and leases outlast their holders, no refresh token is
      spent twice; eight attempts outlast a lease.
    \<^item> \<open>Tool_Map\<close>, \<open>Tool_Reverse\<close>, \<open>Tool_Props\<close> (\<open>cc-template.ts\<close>): the table from client tools to those of Claude Code with
      its translations there and back, the reverse lookup, the rewriting of a whole answer, and the streaming reader that holds
      the arguments of a call until its block ends. A streamed call is translated like a whole one, however the stream was
      cut, the stream stays legal, and a call that comes back in the history keeps the arguments it needs.
    \<^item> \<open>Request_Tools\<close>, \<open>Scrub\<close>, \<open>Request_Turns\<close>, \<open>Request_Body\<close> (\<open>cc-template.ts\<close>, \<open>body-identity.ts\<close>): \<open>buildCCRequest\<close> - how the
      client's tools are recognised, mapped, carried and advertised, the turns cleaned and renamed, product names scrubbed, the
      fields chosen and ordered, the pass of a genuine client - and the cache marks. \<open>Request_Props\<close>, \<open>Request_Tool_Props\<close>: the
      marks are bounded save those inside a block, a genuine client's turns of the two roles can be sent, every tool
      declared beside one the template defines can be called. \<open>Request_Gaps\<close>: requests for
      which the code falls short of what it means.
    \<^item> \<open>Inbound_Request\<close>, \<open>Inbound_Stream\<close> (\<open>responses-inbound.ts\<close>): a client of the Responses API at the front door - its
      request as a Messages body, the answer as a response object, the stream translated event by event, errors in its envelope,
      and the write boundary that picks between them. The conversation arrives whole, by a description of the
      items apart from the translation, and its turns alternate. \<open>Inbound_Props\<close>: a streamed answer completes with the response
      object of the buffered one up to the ids of its items, and does not depend on its chunks.

  Numbers. Milliseconds and counts are integers, prices, utilisations and configured numbers rationals with the
  special values written out where the code handles them; a timer delay is clamped to \<open>2 ^ 31 - 1\<close>. The hash is
  computed on integers masked to 64 bits as the code does. Text is a list of characters where the code reads ASCII
  headers and names, and a list of UTF-16 code units where it reads message text.

  Loops. All loops over data are structural. The poll of the shutdown drain has fuel, and enough of it is given
  by the grace and the poll interval, which \<open>waitForIdle_returns\<close> proves. The three loops of the hash end by a measure.
  The guard's tries are a recursion on the list of choices. A chain of continuations is bounded by its depth header.

  Parameters. \<open>JSON.parse\<close> and \<open>JSON.stringify\<close>, SHA-256, random samples, the readings of dates, the environment, and the
  answers of upstream servers and services are arguments; hypotheses on them (a hash separates two secrets,
  a parser reads back what was printed) are named in the theorems that use them and hold in their witnesses.

  Findings. The model shows where the code and its documentation part: among them, requests of one seat that
  overlap are not spaced (\<open>overlapping_requests_bunch\<close>), a claim neither list knows is booked as covered while the guard
  halts on it (\<open>covered_yet_overage_iff\<close>), a resume that opens with a tool block writes into the block it has closed
  (\<open>closed_block_written\<close>), a resume that breaks off after content is repeated from the same partial answer
  (\<open>broken_resume_repeats\<close>), a reasoning delta without its item breaks a translated stream (\<open>stray_reasoning_breaks\<close>), text
  of another item cuts a call short (\<open>interrupted_call_truncated\<close>), a forced tool that was skipped is still chosen
  (\<open>forced_choice_undeclared\<close>), and a login without its grant time makes an older login replace a newer one
  (\<open>undated_login_loses_newer\<close>), the Redis service can hand out the lock for a spent token (\<open>redis_handoff_gap\<close>), and a refresh
  undoes a removal or login made while it ran (\<open>refresh_undoes_later_work\<close>); two client edit tools cannot say where
  an edit goes (\<open>edits_lose_their_place\<close>), and a stream gives some clients the native name of a tool (\<open>plain_name_lost_in_stream\<close>);
  turns and texts are emptied after the check for empty ones (\<open>thinking_only_turn_emptied\<close>, \<open>scrubbed_text_emptied\<close>), an alias beside an
  MCP tool or beside \<open>advisor\<close> is lost (\<open>alias_lost_beside_mcp\<close>, \<open>alias_lost_beside_advisor\<close>), and a native tool is advertised for a foreign one (\<open>native_advertised_unmapped\<close>); a
  Responses stream cut in its first bytes is not translated (\<open>first_bytes_split\<close>), and its items can have other ids than
  the buffered ones (\<open>item_ids_differ\<close>); cache marks inside a tool's result stay (\<open>nested_marks_stay\<close>), and a blank last turn
  of role \<open>system\<close> goes out empty (\<open>system_turn_emptied\<close>).

  Not modelled. The HTTP handler around these parts, the capture of the template and its system prompts, the
  Chat Completions front end, the OAuth exchanges of a login, the command line,
  terminal interface and reports: they are input and output or large JSON surgery whose decisions are taken by the
  parts above. Of the files above, left out are log lines, the deliberate cut of a stream for testing, the deadline
  of a resume, the parsing and writing of the ledger's file, the summaries of the rolling analytics, and the pending
  logins of the account sync.
\<close>

end
